(* ===== verification/RM_Prelude.thy ===== *)
theory RM_Prelude
  imports Main "HOL-Library.Word"
begin

text \<open>
  Prelude of the development: the names of the machine types the firmware uses
  (a Cortex-M4, so \<open>int\<close>, \<open>long\<close>, \<open>size_t\<close> and pointers have 32 bits, \<open>int64_t\<close> and
  \<open>time_t\<close> 64), the collections of simplification rules the components fill, and the
  generic facts on words, lists and options that several components need.
\<close>

unbundle bit_operations_syntax

type_synonym u8 = "8 word"
type_synonym u16 = "16 word"
type_synonym u32 = "32 word"
type_synonym u64 = "64 word"

text \<open>Byte-addressed memory, as the C code sees it through \<open>uint8_t *\<close>.\<close>

type_synonym mem = "u32 \<Rightarrow> u8"

named_theorems mem_simps "reads of a memory after writes"
named_theorems heap_simps "unfolding of the heap model's helpers"
named_theorems word_nat "transfer of word facts to natural numbers"

subsection \<open>Words as natural numbers\<close>

lemma unat_of_nat_u32 [simp, word_nat]:
  "n < 2 ^ 32 \<Longrightarrow> unat (of_nat n :: u32) = n"
  by (simp add: unat_of_nat take_bit_nat_eq_self)

lemma unat_add_u32 [word_nat]:
  "unat (a :: u32) + unat b < 2 ^ 32 \<Longrightarrow> unat (a + b) = unat a + unat b"
  by (simp add: unat_word_ariths)

lemma unat_sub_u32 [word_nat]:
  "unat (b :: u32) \<le> unat a \<Longrightarrow> unat (a - b) = unat a - unat b"
  by (simp add: unat_sub word_le_nat_alt)

lemma unat_lt_u32 [simp]: "unat (a :: u32) < 4294967296"
  using unsigned_less [of a] by simp

lemma uint_lt_u32 [simp]: "uint (a :: u32) < 4294967296"
  using unsigned_less [of a, where 'a = int] by simp

lemma u32_eq_iff [word_nat]: "(a :: u32) = b \<longleftrightarrow> unat a = unat b"
  by (auto simp: word_unat_eq_iff)

lemma of_nat_eq_iff_u32:
  "m < 2 ^ 32 \<Longrightarrow> n < 2 ^ 32 \<Longrightarrow> (of_nat m :: u32) = of_nat n \<longleftrightarrow> m = n"
  by (auto simp: u32_eq_iff)

end
