(* ===== verification/Byte_Mem.thy ===== *)
theory Byte_Mem
  imports RM_Prelude
begin

text \<open>
  Byte-addressed memory and the little-endian 32-bit loads and stores that the C code
  performs through pointers to structures.  The block header \<open>BlockLink_t\<close> of
  \<open>heap_4_custom.c\<close> is two such words: \<open>pxNextFreeBlock\<close> at offset 0 and \<open>xBlockSize\<close>
  at offset 4.
\<close>

definition load32 :: "mem \<Rightarrow> u32 \<Rightarrow> u32" where
  "load32 m p = ucast (m p) OR push_bit 8 (ucast (m (p + 1)))
     OR push_bit 16 (ucast (m (p + 2))) OR push_bit 24 (ucast (m (p + 3)))"

definition store32 :: "mem \<Rightarrow> u32 \<Rightarrow> u32 \<Rightarrow> mem" where
  "store32 m p v = m(p := ucast v, p + 1 := ucast (drop_bit 8 v),
     p + 2 := ucast (drop_bit 16 v), p + 3 := ucast (drop_bit 24 v))"

lemma word_bytes_split:
  fixes v :: u32
  shows "ucast (ucast v :: u8) OR push_bit 8 (ucast (ucast (drop_bit 8 v) :: u8))
     OR push_bit 16 (ucast (ucast (drop_bit 16 v) :: u8))
     OR push_bit 24 (ucast (ucast (drop_bit 24 v) :: u8)) = v"
proof (rule bit_word_eqI)
  fix n :: nat
  assume n: "n < LENGTH(32)"
  consider "n < 8" | "8 \<le> n" "n < 16" | "16 \<le> n" "n < 24" | "24 \<le> n"
    by linarith
  then show "bit (ucast (ucast v :: u8) OR push_bit 8 (ucast (ucast (drop_bit 8 v) :: u8))
      OR push_bit 16 (ucast (ucast (drop_bit 16 v) :: u8))
      OR push_bit 24 (ucast (ucast (drop_bit 24 v) :: u8)) :: u32) n = bit v n"
    using n by cases (auto simp: bit_simps)
qed

lemma load32_store32_same [simp, mem_simps]: "load32 (store32 m p v) p = v"
  by (simp add: load32_def store32_def word_bytes_split)

text \<open>Two words whose four bytes do not meet.\<close>

definition apart4 :: "u32 \<Rightarrow> u32 \<Rightarrow> bool" where
  "apart4 p q \<longleftrightarrow> (unat p + 4 \<le> unat q \<or> unat q + 4 \<le> unat p) \<and>
     unat p + 4 \<le> 2 ^ 32 \<and> unat q + 4 \<le> 2 ^ 32"

lemma load32_store32_apart [mem_simps]:
  "apart4 p q \<Longrightarrow> load32 (store32 m p v) q = load32 m q"
  by (auto simp: apart4_def load32_def store32_def u32_eq_iff unat_word_ariths)

lemma store32_other:
  "unat r < unat p \<or> unat p + 4 \<le> unat r \<Longrightarrow> unat p + 4 \<le> 2 ^ 32 \<Longrightarrow> store32 m p v r = m r"
  by (auto simp: store32_def u32_eq_iff unat_word_ariths)

subsection \<open>Block headers\<close>

definition pxNextFreeBlock :: "mem \<Rightarrow> u32 \<Rightarrow> u32" where
  "pxNextFreeBlock m a = load32 m a"

definition xBlockSize :: "mem \<Rightarrow> u32 \<Rightarrow> u32" where
  "xBlockSize m a = load32 m (a + 4)"

definition set_pxNextFreeBlock :: "u32 \<Rightarrow> u32 \<Rightarrow> mem \<Rightarrow> mem" where
  "set_pxNextFreeBlock a v m = store32 m a v"

definition set_xBlockSize :: "u32 \<Rightarrow> u32 \<Rightarrow> mem \<Rightarrow> mem" where
  "set_xBlockSize a v m = store32 m (a + 4) v"

lemmas header_defs [heap_simps] =
  pxNextFreeBlock_def xBlockSize_def set_pxNextFreeBlock_def set_xBlockSize_def

text \<open>Two header addresses whose eight bytes coincide or do not meet.\<close>

definition sep :: "nat \<Rightarrow> nat \<Rightarrow> bool" where
  "sep a b \<longleftrightarrow> a + 8 < 2 ^ 32 \<and> b + 8 < 2 ^ 32 \<and> (a = b \<or> a + 8 \<le> b \<or> b + 8 \<le> a)"

lemma sep_refl [simp]: "a + 8 < 2 ^ 32 \<Longrightarrow> sep a a"
  by (simp add: sep_def)

lemma sep_commute: "sep a b = sep b a"
  by (auto simp: sep_def)

lemma unat_of_nat_plus4: "a + 8 < 2 ^ 32 \<Longrightarrow> unat (of_nat a + 4 :: u32) = a + 4"
  by (subst unat_add_u32) simp_all

lemma next_set_next [mem_simps]:
  "sep a b \<Longrightarrow> pxNextFreeBlock (set_pxNextFreeBlock (of_nat a) v m) (of_nat b) =
     (if a = b then v else pxNextFreeBlock m (of_nat b))"
  by (auto simp: sep_def header_defs intro!: load32_store32_apart apart4_def [THEN iffD2])

lemma size_set_size [mem_simps]:
  "sep a b \<Longrightarrow> xBlockSize (set_xBlockSize (of_nat a) v m) (of_nat b) =
     (if a = b then v else xBlockSize m (of_nat b))"
  by (auto simp: sep_def header_defs unat_of_nat_plus4 intro!: load32_store32_apart apart4_def [THEN iffD2])

lemma next_set_size [mem_simps]:
  "sep a b \<Longrightarrow> pxNextFreeBlock (set_xBlockSize (of_nat a) v m) (of_nat b) = pxNextFreeBlock m (of_nat b)"
  by (auto simp: sep_def header_defs unat_of_nat_plus4 intro!: load32_store32_apart apart4_def [THEN iffD2])

lemma size_set_next [mem_simps]:
  "sep a b \<Longrightarrow> xBlockSize (set_pxNextFreeBlock (of_nat a) v m) (of_nat b) = xBlockSize m (of_nat b)"
  by (auto simp: sep_def header_defs unat_of_nat_plus4 intro!: load32_store32_apart apart4_def [THEN iffD2])

lemma set_next_other:
  "a + 8 < 2 ^ 32 \<Longrightarrow> r < 2 ^ 32 \<Longrightarrow> r < a \<or> a + 8 \<le> r \<Longrightarrow>
   set_pxNextFreeBlock (of_nat a) v m (of_nat r) = m (of_nat r)"
  by (auto simp: header_defs intro!: store32_other)

lemma set_size_other:
  "a + 8 < 2 ^ 32 \<Longrightarrow> r < 2 ^ 32 \<Longrightarrow> r < a \<or> a + 8 \<le> r \<Longrightarrow>
   set_xBlockSize (of_nat a) v m (of_nat r) = m (of_nat r)"
  by (auto simp: header_defs unat_of_nat_plus4 intro!: store32_other)

end
