(* ===== verification/Heap4.thy ===== *)
theory Heap4
  imports Byte_Mem "HOL-Library.Monad_Syntax"
begin

text \<open>
  The allocator of \<open>src/src/freertos/heap_4_custom.c\<close>, statement by statement, on
  byte-addressed memory and 32-bit words.  The file's static variables are the record
  \<open>heap4\<close>; the two link-time addresses (\<open>ucHeap\<close> and that of the static \<open>xStart\<close>) are
  fields that no operation changes.

  Every operation returns an \<open>option\<close>: \<open>None\<close> stands for a call that does not return.
  That is either a loop that runs for ever or a failing \<open>configASSERT\<close>, which the project
  maps to \<open>Error_Handler\<close>, an infinite loop with interrupts disabled.
  \<open>vTaskSuspendAll\<close>/\<open>xTaskResumeAll\<close> bracket each operation, so an operation is one
  step for the tasks of the system.
\<close>

record heap4 =
  hmem :: mem
  pxEnd :: u32
  xFreeBytesRemaining :: u32
  xMinimumEverFreeBytesRemaining :: u32
  xNumberOfSuccessfulAllocations :: u32
  xNumberOfSuccessfulFrees :: u32
  xBlockAllocatedBit :: u32
  ucHeap :: u32
  xStart :: u32

definition configTOTAL_HEAP_SIZE :: u32 where "configTOTAL_HEAP_SIZE = 60000"
definition portBYTE_ALIGNMENT :: u32 where "portBYTE_ALIGNMENT = 8"
definition portBYTE_ALIGNMENT_MASK :: u32 where "portBYTE_ALIGNMENT_MASK = 7"

text \<open>\<open>sizeof( BlockLink_t )\<close> is 8 on the target.\<close>

definition xHeapStructSize :: u32 where
  "xHeapStructSize = (8 + (portBYTE_ALIGNMENT - 1)) AND NOT portBYTE_ALIGNMENT_MASK"

definition heapMINIMUM_BLOCK_SIZE :: u32 where
  "heapMINIMUM_BLOCK_SIZE = push_bit 1 xHeapStructSize"

lemma xHeapStructSize_8 [simp]: "xHeapStructSize = 8"
  by (simp add: xHeapStructSize_def portBYTE_ALIGNMENT_def portBYTE_ALIGNMENT_MASK_def)

lemma heapMINIMUM_BLOCK_SIZE_16 [simp]: "heapMINIMUM_BLOCK_SIZE = 16"
  by (simp add: heapMINIMUM_BLOCK_SIZE_def)

text \<open>The state before the first call: all statics zero, memory arbitrary apart from \<open>xStart\<close>.\<close>

definition heap_reset :: "mem \<Rightarrow> u32 \<Rightarrow> u32 \<Rightarrow> heap4" where
  "heap_reset m heap start = \<lparr>hmem = set_pxNextFreeBlock start 0 (set_xBlockSize start 0 m), pxEnd = 0,
     xFreeBytesRemaining = 0, xMinimumEverFreeBytesRemaining = 0,
     xNumberOfSuccessfulAllocations = 0, xNumberOfSuccessfulFrees = 0,
     xBlockAllocatedBit = 0, ucHeap = heap, xStart = start\<rparr>"

definition configASSERT :: "bool \<Rightarrow> unit option" where
  "configASSERT b = (if b then Some () else None)"

definition prvHeapInit :: "heap4 \<Rightarrow> heap4" where
  "prvHeapInit h = (let
     a0 = ucHeap h;
     unaligned = (a0 AND portBYTE_ALIGNMENT_MASK \<noteq> 0);
     uxAddress = (if unaligned
       then (a0 + (portBYTE_ALIGNMENT - 1)) AND NOT portBYTE_ALIGNMENT_MASK else a0);
     xTotalHeapSize = (if unaligned
       then configTOTAL_HEAP_SIZE - (uxAddress - a0) else configTOTAL_HEAP_SIZE);
     pucAlignedHeap = uxAddress;
     m1 = set_xBlockSize (xStart h) 0 (set_pxNextFreeBlock (xStart h) pucAlignedHeap (hmem h));
     endAddress = ((pucAlignedHeap + xTotalHeapSize) - xHeapStructSize) AND NOT portBYTE_ALIGNMENT_MASK;
     m2 = set_pxNextFreeBlock endAddress 0 (set_xBlockSize endAddress 0 m1);
     firstSize = endAddress - pucAlignedHeap;
     m3 = set_pxNextFreeBlock pucAlignedHeap endAddress (set_xBlockSize pucAlignedHeap firstSize m2)
   in h\<lparr>hmem := m3, pxEnd := endAddress,
        xMinimumEverFreeBytesRemaining := xBlockSize m3 pucAlignedHeap,
        xFreeBytesRemaining := xBlockSize m3 pucAlignedHeap,
        xBlockAllocatedBit := push_bit 31 1\<rparr>)"

text \<open>The \<open>for\<close> loop of \<open>prvInsertBlockIntoFreeList\<close> that looks for the insert position.\<close>

partial_function (option) insert_position :: "mem \<Rightarrow> u32 \<Rightarrow> u32 \<Rightarrow> u32 option" where
  "insert_position m pxIterator pxBlockToInsert =
     (if pxNextFreeBlock m pxIterator < pxBlockToInsert
      then insert_position m (pxNextFreeBlock m pxIterator) pxBlockToInsert
      else Some pxIterator)"

definition prvInsertBlockIntoFreeList :: "u32 \<Rightarrow> heap4 \<Rightarrow> heap4 option" where
  "prvInsertBlockIntoFreeList pxBlockToInsert h =
     do {
       pxIterator \<leftarrow> insert_position (hmem h) (xStart h) pxBlockToInsert;
       let (m1, blk) =
         (if pxIterator + xBlockSize (hmem h) pxIterator = pxBlockToInsert
          then (set_xBlockSize pxIterator
                 (xBlockSize (hmem h) pxIterator + xBlockSize (hmem h) pxBlockToInsert) (hmem h),
                pxIterator)
          else (hmem h, pxBlockToInsert));
       let m2 =
         (if blk + xBlockSize m1 blk = pxNextFreeBlock m1 pxIterator
          then (if pxNextFreeBlock m1 pxIterator \<noteq> pxEnd h
                then (let m' = set_xBlockSize blk
                                 (xBlockSize m1 blk + xBlockSize m1 (pxNextFreeBlock m1 pxIterator)) m1
                      in set_pxNextFreeBlock blk
                           (pxNextFreeBlock m' (pxNextFreeBlock m' pxIterator)) m')
                else set_pxNextFreeBlock blk (pxEnd h) m1)
          else set_pxNextFreeBlock blk (pxNextFreeBlock m1 pxIterator) m1);
       let m3 = (if pxIterator \<noteq> blk then set_pxNextFreeBlock pxIterator blk m2 else m2);
       Some (h\<lparr>hmem := m3\<rparr>)
     }"

text \<open>
  The size computation of \<open>pvPortMalloc\<close>: room for the header, rounded up to the alignment,
  0 when the request is 0 or either addition wraps around.
\<close>

definition adjust_size :: "u32 \<Rightarrow> u32 option" where
  "adjust_size xWantedSize =
     (if xWantedSize > 0 \<and> xWantedSize + xHeapStructSize > xWantedSize then
        (let w = xWantedSize + xHeapStructSize in
         if w AND portBYTE_ALIGNMENT_MASK \<noteq> 0 then
           (if w + (portBYTE_ALIGNMENT - (w AND portBYTE_ALIGNMENT_MASK)) > w then
              (let w' = w + (portBYTE_ALIGNMENT - (w AND portBYTE_ALIGNMENT_MASK)) in
               do { configASSERT (w' AND portBYTE_ALIGNMENT_MASK = 0); Some w' })
            else Some 0)
         else Some w)
      else Some 0)"

text \<open>The \<open>while\<close> loop of \<open>pvPortMalloc\<close>: the pair (\<open>pxPreviousBlock\<close>, \<open>pxBlock\<close>) it ends with.\<close>

partial_function (option) find_block :: "mem \<Rightarrow> u32 \<Rightarrow> u32 \<Rightarrow> u32 \<Rightarrow> (u32 \<times> u32) option" where
  "find_block m xWantedSize pxPreviousBlock pxBlock =
     (if xBlockSize m pxBlock < xWantedSize \<and> pxNextFreeBlock m pxBlock \<noteq> 0
      then find_block m xWantedSize pxBlock (pxNextFreeBlock m pxBlock)
      else Some (pxPreviousBlock, pxBlock))"

text \<open>
  The part of \<open>pvPortMalloc\<close> after a fitting block was found: split off the rest of the block
  when it is larger than the minimum, then account for it and hand it over.
\<close>

definition split_block :: "u32 \<Rightarrow> u32 \<Rightarrow> heap4 \<Rightarrow> heap4 option" where
  "split_block xWantedSize pxBlock h =
     (if xBlockSize (hmem h) pxBlock - xWantedSize > heapMINIMUM_BLOCK_SIZE then
        do {
          let pxNewBlockLink = pxBlock + xWantedSize;
          configASSERT (pxNewBlockLink AND portBYTE_ALIGNMENT_MASK = 0);
          let m1 = set_xBlockSize pxNewBlockLink (xBlockSize (hmem h) pxBlock - xWantedSize) (hmem h);
          prvInsertBlockIntoFreeList pxNewBlockLink (h\<lparr>hmem := set_xBlockSize pxBlock xWantedSize m1\<rparr>)
        }
      else Some h)"

definition take_block :: "u32 \<Rightarrow> u32 \<Rightarrow> u32 \<Rightarrow> heap4 \<Rightarrow> (u32 \<times> heap4) option" where
  "take_block xWantedSize pxPreviousBlock pxBlock h =
     do {
       let pvReturn = pxNextFreeBlock (hmem h) pxPreviousBlock + xHeapStructSize;
       let m1 = set_pxNextFreeBlock pxPreviousBlock (pxNextFreeBlock (hmem h) pxBlock) (hmem h);
       h2 \<leftarrow> split_block xWantedSize pxBlock (h\<lparr>hmem := m1\<rparr>);
       let free = xFreeBytesRemaining h2 - xBlockSize (hmem h2) pxBlock;
       let m4 = set_pxNextFreeBlock pxBlock 0
                  (set_xBlockSize pxBlock (xBlockSize (hmem h2) pxBlock OR xBlockAllocatedBit h2) (hmem h2));
       Some (pvReturn,
         h2\<lparr>hmem := m4, xFreeBytesRemaining := free,
            xMinimumEverFreeBytesRemaining :=
              (if free < xMinimumEverFreeBytesRemaining h2 then free
               else xMinimumEverFreeBytesRemaining h2),
            xNumberOfSuccessfulAllocations := xNumberOfSuccessfulAllocations h2 + 1\<rparr>)
     }"

definition pvPortMalloc :: "u32 \<Rightarrow> heap4 \<Rightarrow> (u32 \<times> heap4) option" where
  "pvPortMalloc xWantedSize h0 =
     do {
       let h = (if pxEnd h0 = 0 then prvHeapInit h0 else h0);
       (pvReturn, h') \<leftarrow>
         (if xWantedSize AND xBlockAllocatedBit h = 0 then
            do {
              w \<leftarrow> adjust_size xWantedSize;
              if w > 0 \<and> w \<le> xFreeBytesRemaining h then
                do {
                  (prev, blk) \<leftarrow> find_block (hmem h) w (xStart h) (pxNextFreeBlock (hmem h) (xStart h));
                  if blk \<noteq> pxEnd h then take_block w prev blk h else Some (0, h)
                }
              else Some (0, h)
            }
          else Some (0, h));
       configASSERT (pvReturn AND portBYTE_ALIGNMENT_MASK = 0);
       Some (pvReturn, h')
     }"

definition vPortFree :: "u32 \<Rightarrow> heap4 \<Rightarrow> heap4 option" where
  "vPortFree pv h =
     (if pv \<noteq> 0 then
        do {
          let pxLink = pv - xHeapStructSize;
          configASSERT (xBlockSize (hmem h) pxLink AND xBlockAllocatedBit h \<noteq> 0);
          configASSERT (pxNextFreeBlock (hmem h) pxLink = 0);
          if xBlockSize (hmem h) pxLink AND xBlockAllocatedBit h \<noteq> 0 then
            if pxNextFreeBlock (hmem h) pxLink = 0 then
              do {
                let m1 = set_xBlockSize pxLink
                           (xBlockSize (hmem h) pxLink AND NOT (xBlockAllocatedBit h)) (hmem h);
                let h1 = h\<lparr>hmem := m1,
                           xFreeBytesRemaining := xFreeBytesRemaining h + xBlockSize m1 pxLink\<rparr>;
                h2 \<leftarrow> prvInsertBlockIntoFreeList pxLink h1;
                Some (h2\<lparr>xNumberOfSuccessfulFrees := xNumberOfSuccessfulFrees h2 + 1\<rparr>)
              }
            else Some h
          else Some h
        }
      else Some h)"

definition getBlockSize :: "u32 \<Rightarrow> heap4 \<Rightarrow> u32" where
  "getBlockSize pv h =
     (let pxLink = pv - xHeapStructSize in xBlockSize (hmem h) pxLink AND NOT (xBlockAllocatedBit h))"

text \<open>The byte loops \<open>while (count--) *in_dest++ = *in_src++\<close> and \<open>while (count--) *in_dest++ = 0\<close>.\<close>

primrec copy_bytes :: "nat \<Rightarrow> u32 \<Rightarrow> u32 \<Rightarrow> mem \<Rightarrow> mem" where
  "copy_bytes 0 in_dest in_src m = m"
| "copy_bytes (Suc count) in_dest in_src m =
     copy_bytes count (in_dest + 1) (in_src + 1) (m(in_dest := m in_src))"

primrec zero_bytes :: "nat \<Rightarrow> u32 \<Rightarrow> mem \<Rightarrow> mem" where
  "zero_bytes 0 in_dest m = m"
| "zero_bytes (Suc count) in_dest m = zero_bytes count (in_dest + 1) (m(in_dest := 0))"

definition pvPortRealloc :: "u32 \<Rightarrow> u32 \<Rightarrow> heap4 \<Rightarrow> (u32 \<times> heap4) option" where
  "pvPortRealloc pv xWantedSize h =
     do {
       (newmem, h1) \<leftarrow> pvPortMalloc xWantedSize h;
       let pxLink = pv - xHeapStructSize;
       let count = xBlockSize (hmem h1) pxLink AND NOT (xBlockAllocatedBit h1);
       let h2 = h1\<lparr>hmem := copy_bytes (unat count) newmem pv (hmem h1)\<rparr>;
       h3 \<leftarrow> vPortFree pv h2;
       Some (newmem, h3)
     }"

definition pvPortCalloc :: "u32 \<Rightarrow> u32 \<Rightarrow> heap4 \<Rightarrow> (u32 \<times> heap4) option" where
  "pvPortCalloc num xWantedSize h =
     do {
       let count = xWantedSize * num;
       (p, h1) \<leftarrow> pvPortMalloc count h;
       Some (p, h1\<lparr>hmem := zero_bytes (unat count) p (hmem h1)\<rparr>)
     }"

definition xPortGetFreeHeapSize :: "heap4 \<Rightarrow> u32" where
  "xPortGetFreeHeapSize h = xFreeBytesRemaining h"

definition xPortGetMinimumEverFreeHeapSize :: "heap4 \<Rightarrow> u32" where
  "xPortGetMinimumEverFreeHeapSize h = xMinimumEverFreeBytesRemaining h"

record HeapStats_t =
  xAvailableHeapSpaceInBytes :: u32
  xSizeOfLargestFreeBlockInBytes :: u32
  xSizeOfSmallestFreeBlockInBytes :: u32
  xNumberOfFreeBlocks :: u32
  st_xMinimumEverFreeBytesRemaining :: u32
  st_xNumberOfSuccessfulAllocations :: u32
  st_xNumberOfSuccessfulFrees :: u32

text \<open>The \<open>do ... while\<close> loop of \<open>vPortGetHeapStats\<close>: (\<open>xBlocks\<close>, \<open>xMaxSize\<close>, \<open>xMinSize\<close>).\<close>

partial_function (option) stats_loop :: "mem \<Rightarrow> u32 \<Rightarrow> u32 \<Rightarrow> u32 \<Rightarrow> u32 \<Rightarrow> u32 \<Rightarrow> (u32 \<times> u32 \<times> u32) option" where
  "stats_loop m pend pxBlock xBlocks xMaxSize xMinSize =
     (let xBlocks' = xBlocks + 1;
          xMaxSize' = (if xBlockSize m pxBlock > xMaxSize then xBlockSize m pxBlock else xMaxSize);
          xMinSize' = (if xBlockSize m pxBlock < xMinSize then xBlockSize m pxBlock else xMinSize);
          nextBlock = pxNextFreeBlock m pxBlock
      in if nextBlock \<noteq> pend then stats_loop m pend nextBlock xBlocks' xMaxSize' xMinSize'
         else Some (xBlocks', xMaxSize', xMinSize'))"

definition vPortGetHeapStats :: "heap4 \<Rightarrow> HeapStats_t option" where
  "vPortGetHeapStats h =
     do {
       let pxBlock = pxNextFreeBlock (hmem h) (xStart h);
       (xBlocks, xMaxSize, xMinSize) \<leftarrow>
         (if pxBlock \<noteq> 0 then stats_loop (hmem h) (pxEnd h) pxBlock 0 0 (NOT 0)
          else Some (0, 0, NOT 0));
       Some \<lparr>xAvailableHeapSpaceInBytes = xFreeBytesRemaining h,
         xSizeOfLargestFreeBlockInBytes = xMaxSize,
         xSizeOfSmallestFreeBlockInBytes = xMinSize,
         xNumberOfFreeBlocks = xBlocks,
         st_xMinimumEverFreeBytesRemaining = xMinimumEverFreeBytesRemaining h,
         st_xNumberOfSuccessfulAllocations = xNumberOfSuccessfulAllocations h,
         st_xNumberOfSuccessfulFrees = xNumberOfSuccessfulFrees h\<rparr>
     }"

declare insert_position.simps [code] find_block.simps [code] stats_loop.simps [code]

end
