(* ===== verification/Heap4_Inv.thy ===== *)
theory Heap4_Inv
  imports Heap4
begin

text \<open>
  The representation invariant of the allocator.  The heap between its first block and the
  end marker is tiled by blocks; a block is a size and a kind.  \<open>Used\<close> blocks belong to the
  application, \<open>Free\<close> blocks are on the free list, \<open>Limbo\<close> is a block in the middle of an
  operation, whose header carries no promise yet.  The invariant says that the headers in
  memory agree with the tiling and that the free list, from \<open>xStart\<close> to the end marker,
  is exactly the list of free blocks in the order of their addresses.
\<close>

datatype bkind = Free | Used | Limbo

type_synonym blk = "nat \<times> bkind"

definition nx :: "mem \<Rightarrow> nat \<Rightarrow> nat" where
  "nx m a = unat (pxNextFreeBlock m (of_nat a))"

definition sz :: "mem \<Rightarrow> nat \<Rightarrow> nat" where
  "sz m a = unat (xBlockSize m (of_nat a))"

definition total_size :: "blk list \<Rightarrow> nat" where
  "total_size bs = sum_list (map fst bs)"

lemma total_size_simps [simp]:
  "total_size [] = 0" "total_size ((z, k) # bs) = z + total_size bs" "total_size (xs @ ys) = total_size xs + total_size ys"
  by (simp_all add: total_size_def)

fun addrs :: "nat \<Rightarrow> blk list \<Rightarrow> nat list" where
  "addrs a [] = []"
| "addrs a ((z, k) # bs) = a # addrs (a + z) bs"

fun frees :: "nat \<Rightarrow> blk list \<Rightarrow> nat list" where
  "frees a [] = []"
| "frees a ((z, k) # bs) = (if k = Free then a # frees (a + z) bs else frees (a + z) bs)"

fun hdrs :: "mem \<Rightarrow> nat \<Rightarrow> blk list \<Rightarrow> bool" where
  "hdrs m a [] \<longleftrightarrow> True"
| "hdrs m a ((z, k) # bs) \<longleftrightarrow>
     (case k of Free \<Rightarrow> sz m a = z | Used \<Rightarrow> sz m a = z + 2 ^ 31 \<and> nx m a = 0 | Limbo \<Rightarrow> True) \<and>
     hdrs m (a + z) bs"

fun linked :: "mem \<Rightarrow> nat \<Rightarrow> nat list \<Rightarrow> nat \<Rightarrow> bool" where
  "linked m x [] e \<longleftrightarrow> nx m x = e"
| "linked m x (p # ps) e \<longleftrightarrow> nx m x = p \<and> linked m p ps e"

definition layout :: "nat \<Rightarrow> nat \<Rightarrow> blk list \<Rightarrow> nat \<Rightarrow> bool" where
  "layout x a bs e \<longleftrightarrow> e = a + total_size bs \<and> (\<forall>b \<in> set bs. 16 \<le> fst b) \<and> 0 < a \<and>
     e + 8 \<le> 2 ^ 31 \<and> x + 8 \<le> 2 ^ 31 \<and> (x + 8 \<le> a \<or> e + 8 \<le> x)"

subsection \<open>Addresses of a tiling\<close>

lemma addrs_append [simp]: "addrs a (xs @ ys) = addrs a xs @ addrs (a + total_size xs) ys"
  by (induction xs arbitrary: a) (auto simp: add.assoc)

lemma frees_append [simp]: "frees a (xs @ ys) = frees a xs @ frees (a + total_size xs) ys"
  by (induction xs arbitrary: a) (auto simp: add.assoc)

lemma hdrs_append [simp]: "hdrs m a (xs @ ys) \<longleftrightarrow> hdrs m a xs \<and> hdrs m (a + total_size xs) ys"
  by (induction xs arbitrary: a) (auto simp: add.assoc)

lemma frees_subset: "set (frees a bs) \<subseteq> set (addrs a bs)"
  by (induction a bs rule: frees.induct) auto

lemma addrs_bounds:
  "\<forall>b \<in> set bs. 16 \<le> fst b \<Longrightarrow> p \<in> set (addrs a bs) \<Longrightarrow> a \<le> p \<and> p + 16 \<le> a + total_size bs"
  by (induction a bs rule: addrs.induct) force+

lemma frees_bounds:
  "\<forall>b \<in> set bs. 16 \<le> fst b \<Longrightarrow> p \<in> set (frees a bs) \<Longrightarrow> a \<le> p \<and> p + 16 \<le> a + total_size bs"
  using addrs_bounds frees_subset by blast

lemma addrs_gap:
  "\<forall>b \<in> set bs. 16 \<le> fst b \<Longrightarrow> p \<in> set (addrs a bs) \<Longrightarrow> q \<in> set (addrs a bs) \<Longrightarrow>
   p = q \<or> p + 16 \<le> q \<or> q + 16 \<le> p"
proof (induction a bs rule: addrs.induct)
  case (2 a z k bs)
  have "\<And>r. r \<in> set (addrs (a + z) bs) \<Longrightarrow> a + 16 \<le> r"
    using addrs_bounds [of bs _ "a + z"] 2(2) by fastforce
  then show ?case using 2 by auto
qed simp

definition headers :: "nat \<Rightarrow> nat \<Rightarrow> blk list \<Rightarrow> nat \<Rightarrow> nat set" where
  "headers x a bs e = insert x (insert e (set (addrs a bs)))"

lemma layout_sep:
  assumes "layout x a bs e" "p \<in> headers x a bs e" "q \<in> headers x a bs e"
  shows "sep p q"
proof -
  have b: "\<And>r. r \<in> set (addrs a bs) \<Longrightarrow> a \<le> r \<and> r + 16 \<le> e"
    using assms(1) addrs_bounds by (auto simp: layout_def)
  have g: "\<And>r s. r \<in> set (addrs a bs) \<Longrightarrow> s \<in> set (addrs a bs) \<Longrightarrow> r = s \<or> r + 16 \<le> s \<or> s + 16 \<le> r"
    using assms(1) addrs_gap by (auto simp: layout_def)
  have l: "e + 8 \<le> 2 ^ 31" "x + 8 \<le> 2 ^ 31" "x + 8 \<le> a \<or> e + 8 \<le> x" "a \<le> e"
    using assms(1) by (auto simp: layout_def)
  have lt: "\<And>r. r \<in> headers x a bs e \<Longrightarrow> r + 8 < 2 ^ 32"
    using b l by (fastforce simp: headers_def)
  show ?thesis
    using assms(2,3) lt [OF assms(2)] lt [OF assms(3)] b [of p] b [of q] g [of p q] l
    by (auto simp: sep_def headers_def)
qed

lemma frees_headers: "p \<in> set (frees a bs) \<Longrightarrow> p \<in> headers x a bs e"
  using frees_subset by (fastforce simp: headers_def)

lemma frees_sorted:
  "\<forall>b \<in> set bs. 16 \<le> fst b \<Longrightarrow> sorted_wrt (<) (frees a bs)"
proof (induction a bs rule: frees.induct)
  case (2 a z k bs)
  have "\<And>r. r \<in> set (frees (a + z) bs) \<Longrightarrow> a < r"
    using frees_bounds [of bs _ "a + z"] 2(3) by fastforce
  then show ?case using 2 by auto
qed simp

subsection \<open>The free list\<close>

lemma linked_append:
  "linked m x (ps @ qs) e \<longleftrightarrow> linked m x ps (hd (qs @ [e])) \<and> linked m (last (x # ps)) qs e"
  by (induction ps arbitrary: x) (auto simp: neq_Nil_conv split: if_splits, (cases qs; auto)+)

lemma linked_cong:
  "linked m x ps e \<Longrightarrow> \<forall>p \<in> set (x # ps). nx m' p = nx m p \<Longrightarrow> linked m' x ps e"
  by (induction ps arbitrary: x) auto

lemma linked_retarget:
  "linked m x ps n \<Longrightarrow> distinct (x # ps) \<Longrightarrow>
   \<forall>p \<in> set (x # ps). p \<noteq> last (x # ps) \<longrightarrow> nx m' p = nx m p \<Longrightarrow>
   nx m' (last (x # ps)) = n' \<Longrightarrow> linked m' x ps n'"
proof (induction ps arbitrary: x)
  case (Cons p ps)
  have "last (p # ps) \<noteq> x"
    using Cons.prems(2) last_in_set [of "p # ps"] by auto
  moreover have "linked m' p ps n'"
    using Cons.prems by (intro Cons.IH) auto
  ultimately show ?case using Cons.prems by auto
qed simp

lemma linked_rehead:
  "linked m p qs e \<Longrightarrow> nx m' t = hd (qs @ [e]) \<Longrightarrow> \<forall>q \<in> set qs. nx m' q = nx m q \<Longrightarrow> linked m' t qs e"
  by (cases qs) (auto elim!: linked_cong)

lemma linked_last: "linked m x ps e \<Longrightarrow> nx m (last (x # ps)) = e"
  by (induction ps arbitrary: x) auto

lemma hdrs_cong:
  "hdrs m a bs \<Longrightarrow> \<forall>p \<in> set (addrs a bs). sz m' p = sz m p \<Longrightarrow>
   \<forall>p \<in> set (addrs a bs). p \<notin> set (frees a bs) \<longrightarrow> nx m p = 0 \<longrightarrow> nx m' p = 0 \<Longrightarrow>
   \<forall>b \<in> set bs. 16 \<le> fst b \<Longrightarrow> hdrs m' a bs"
proof (induction m a bs rule: hdrs.induct)
  case (2 m a z k bs)
  have gt: "\<And>r. r \<in> set (addrs (a + z) bs) \<Longrightarrow> a < r"
    using addrs_bounds [of bs _ "a + z"] 2(5) by fastforce
  have "a \<notin> set (frees (a + z) bs)"
    using gt frees_subset by blast
  moreover have "hdrs m' (a + z) bs"
  proof (intro 2(1) ballI impI)
    fix p assume p: "p \<in> set (addrs (a + z) bs)" "p \<notin> set (frees (a + z) bs)" "nx m p = 0"
    then show "nx m' p = 0" using 2(4) gt [OF p(1)] by (auto split: if_splits)
  qed (use 2 in auto)
  ultimately show ?case using 2(2-4) by (auto split: bkind.splits if_splits)
qed simp

end
