(* ===== verification/Heap4_Insert.thy ===== *)
theory Heap4_Insert
  imports Heap4_Inv
begin

text \<open>
  Correctness of \<open>prvInsertBlockIntoFreeList\<close> and of the two list traversals of the
  allocator: the loops end, the block goes to its place in the address order, and it is
  merged with a free neighbour on either side, on every one of the four branches.
\<close>

subsection \<open>Headers at natural-number addresses\<close>

definition wn :: "nat \<Rightarrow> nat \<Rightarrow> mem \<Rightarrow> mem" where
  "wn a v m = set_pxNextFreeBlock (of_nat a) (of_nat v) m"

definition ws :: "nat \<Rightarrow> nat \<Rightarrow> mem \<Rightarrow> mem" where
  "ws a v m = set_xBlockSize (of_nat a) (of_nat v) m"

lemma next_of_nat: "pxNextFreeBlock m (of_nat a) = of_nat (nx m a)"
  by (simp add: nx_def)

lemma size_of_nat: "xBlockSize m (of_nat a) = of_nat (sz m a)"
  by (simp add: sz_def)

lemma nx_lt [simp]: "nx m a < 4294967296"
  by (simp add: nx_def)

lemma sz_lt [simp]: "sz m a < 4294967296"
  by (simp add: sz_def)

lemma nx_wn [mem_simps]: "sep a b \<Longrightarrow> v < 2 ^ 32 \<Longrightarrow> nx (wn a v m) b = (if a = b then v else nx m b)"
  by (simp add: nx_def wn_def next_set_next)

lemma sz_wn [mem_simps]: "sep a b \<Longrightarrow> sz (wn a v m) b = sz m b"
  by (simp add: sz_def wn_def size_set_next)

lemma sz_ws [mem_simps]: "sep a b \<Longrightarrow> v < 2 ^ 32 \<Longrightarrow> sz (ws a v m) b = (if a = b then v else sz m b)"
  by (simp add: sz_def ws_def size_set_size)

lemma nx_ws [mem_simps]: "sep a b \<Longrightarrow> nx (ws a v m) b = nx m b"
  by (simp add: nx_def ws_def next_set_size)

lemma wn_other:
  "a + 8 < 2 ^ 32 \<Longrightarrow> r < 2 ^ 32 \<Longrightarrow> r < a \<or> a + 8 \<le> r \<Longrightarrow> wn a v m (of_nat r) = m (of_nat r)"
  by (simp add: wn_def set_next_other)

lemma ws_other:
  "a + 8 < 2 ^ 32 \<Longrightarrow> r < 2 ^ 32 \<Longrightarrow> r < a \<or> a + 8 \<le> r \<Longrightarrow> ws a v m (of_nat r) = m (of_nat r)"
  by (simp add: ws_def set_size_other)

lemma u32_of_nat_less: "a < 2 ^ 32 \<Longrightarrow> b < 2 ^ 32 \<Longrightarrow> (of_nat a :: u32) < of_nat b \<longleftrightarrow> a < b"
  by (simp add: word_less_nat_alt)

lemma u32_of_nat_le: "a < 2 ^ 32 \<Longrightarrow> b < 2 ^ 32 \<Longrightarrow> (of_nat a :: u32) \<le> of_nat b \<longleftrightarrow> a \<le> b"
  by (simp add: word_le_nat_alt)

lemma u32_of_nat_sub: "b \<le> a \<Longrightarrow> (of_nat a :: u32) - of_nat b = of_nat (a - b)"
  by (simp add: of_nat_diff)

lemma u32_of_nat_0: "a < 2 ^ 32 \<Longrightarrow> (of_nat a :: u32) = 0 \<longleftrightarrow> a = 0"
  using of_nat_eq_iff_u32 [of a 0] by simp

subsection \<open>The two traversals\<close>

lemma insert_position_linked:
  "linked m x ps n \<Longrightarrow> \<forall>p \<in> set ps. p < t \<Longrightarrow> t \<le> n \<Longrightarrow> t < 2 ^ 32 \<Longrightarrow>
   insert_position m (of_nat x) (of_nat t) = Some (of_nat (last (x # ps)))"
proof (induction ps arbitrary: x)
  case Nil
  then show ?case
    by (subst insert_position.simps) (auto simp: next_of_nat u32_of_nat_less)
next
  case (Cons p ps)
  then show ?case
    by (subst insert_position.simps) (auto simp: next_of_nat u32_of_nat_less)
qed

lemma find_block_linked:
  "linked m x ps q \<Longrightarrow> \<forall>p \<in> set ps. sz m p < w \<and> p \<noteq> 0 \<Longrightarrow> q \<noteq> 0 \<Longrightarrow> w \<le> sz m q \<or> nx m q = 0 \<Longrightarrow>
   w < 2 ^ 32 \<Longrightarrow>
   find_block m (of_nat w) (of_nat x) (of_nat (nx m x)) = Some (of_nat (last (x # ps)), of_nat q)"
proof (induction ps arbitrary: x)
  case Nil
  then show ?case
    by (subst find_block.simps)
      (auto simp: next_of_nat size_of_nat u32_of_nat_less u32_of_nat_0)
next
  case (Cons p ps)
  have "nx m p \<noteq> 0"
    using Cons.prems by (cases ps) auto
  then show ?case
    using Cons.prems Cons.IH [of p]
    by (subst find_block.simps) (auto simp: next_of_nat size_of_nat u32_of_nat_less u32_of_nat_0)
qed

subsection \<open>The insertion\<close>

text \<open>
  The block list after a block of size \<open>z\<close> between \<open>xs\<close> and \<open>ys\<close> has become free: it absorbs
  the free block on its left and the one on its right.
\<close>

definition glue_left :: "blk list \<Rightarrow> bool" where
  "glue_left xs \<longleftrightarrow> xs \<noteq> [] \<and> snd (last xs) = Free"

definition glue_right :: "blk list \<Rightarrow> bool" where
  "glue_right ys \<longleftrightarrow> ys \<noteq> [] \<and> snd (hd ys) = Free"

definition glue :: "blk list \<Rightarrow> nat \<Rightarrow> blk list \<Rightarrow> blk list" where
  "glue xs z ys =
     (if glue_left xs then butlast xs else xs) @
     ((if glue_left xs then fst (last xs) else 0) + z + (if glue_right ys then fst (hd ys) else 0), Free) #
     (if glue_right ys then tl ys else ys)"

text \<open>The stores of \<open>prvInsertBlockIntoFreeList\<close>, at natural-number addresses.\<close>

definition ins_mem :: "mem \<Rightarrow> nat \<Rightarrow> nat \<Rightarrow> nat \<Rightarrow> nat \<Rightarrow> mem" where
  "ins_mem m p t n e =
     (let (m1, b) = (if p + sz m p = t then (ws p (sz m p + sz m t) m, p) else (m, t));
          m2 = (if b + sz m1 b = n
                then (if n \<noteq> e then (let m' = ws b (sz m1 b + sz m1 n) m1 in wn b (nx m' n) m') else wn b e m1)
                else wn b n m1)
      in if p \<noteq> b then wn p b m2 else m2)"

lemma prvInsert_ins_mem:
  assumes pos: "insert_position (hmem h) (xStart h) (of_nat t) = Some (of_nat p)"
    and n: "nx (hmem h) p = n" and e: "pxEnd h = of_nat e" "e < 2 ^ 32"
    and s: "sep p t" "sep p n" "sep t n" "p \<noteq> t" "p \<noteq> n"
    and sum: "p + sz (hmem h) p < 2 ^ 31" "t + sz (hmem h) t < 2 ^ 31" "n + sz (hmem h) n < 2 ^ 31"
  shows "prvInsertBlockIntoFreeList (of_nat t) h = Some (h\<lparr>hmem := ins_mem (hmem h) p t n e\<rparr>)"
proof -
  define m where "m = hmem h"
  have lt: "p < 2 ^ 32" "t < 2 ^ 32" "n < 2 ^ 32" "p + 8 < 2 ^ 32" "t + 8 < 2 ^ 32"
    using s by (auto simp: sep_def)
  have pos': "insert_position m (xStart h) (of_nat t) = Some (of_nat p)"
    using pos by (simp add: m_def)
  have sm: "p + sz m p < 2 ^ 31" "t + sz m t < 2 ^ 31" "n + sz m n < 2 ^ 31" "nx m p = n"
    using sum n by (auto simp: m_def)
  have ws': "\<And>a v. set_xBlockSize (of_nat a) (of_nat v) = ws a v"
    and wn': "\<And>a v. set_pxNextFreeBlock (of_nat a) (of_nat v) = wn a v"
    by (simp_all add: ws_def wn_def fun_eq_iff)
  have c: "(of_nat p + of_nat (sz m p) = (of_nat t :: u32)) = (p + sz m p = t)"
    using of_nat_eq_iff_u32 [of "p + sz m p" t] sm lt by simp
  have eq: "((of_nat n :: u32) = of_nat e) = (n = e)" "((of_nat p :: u32) = of_nat t) = False" "p \<noteq> t"
    using of_nat_eq_iff_u32 lt e s by auto
  show ?thesis
  proof (cases "p + sz m p = t")
    case True
    define m1 where "m1 = ws p (sz m p + sz m t) m"
    have m1: "sz m1 p = sz m p + sz m t" "sz m1 n = sz m n" "nx m1 p = n"
      using s sm lt by (simp_all add: m1_def mem_simps)
    have c2: "(of_nat p + of_nat (sz m p + sz m t) = (of_nat n :: u32)) = (p + (sz m p + sz m t) = n)"
      using of_nat_eq_iff_u32 [of "p + (sz m p + sz m t)" n] sm lt True by simp
    have m': "nx (ws p (sz m p + sz m t + sz m n) m1) p = n"
      using s sm lt m1 by (simp add: mem_simps)
    show ?thesis
      unfolding prvInsertBlockIntoFreeList_def ins_mem_def Let_def e m_def [symmetric] pos'
      using True c c2 eq m1 m' sm
      by (simp add: next_of_nat size_of_nat ws' wn' m1_def [symmetric] flip: of_nat_add)
  next
    case False
    have c2: "(of_nat t + of_nat (sz m t) = (of_nat n :: u32)) = (t + sz m t = n)"
      using of_nat_eq_iff_u32 [of "t + sz m t" n] sm lt by simp
    have m': "nx (ws t (sz m t + sz m n) m) p = n"
      using s sm lt sep_commute [of p t] by (simp add: mem_simps)
    show ?thesis
      unfolding prvInsertBlockIntoFreeList_def ins_mem_def Let_def e m_def [symmetric] pos'
      using False c c2 eq m' sm
      by (simp add: next_of_nat size_of_nat ws' wn' flip: of_nat_add)
  qed
qed

text \<open>What the insertion leaves in the headers: \<open>b\<close> is the block that ends up on the list.\<close>

lemma ins_mem_effect:
  fixes m p t n e
  defines "L \<equiv> p + sz m p = t"
  defines "b \<equiv> if L then p else t"
  defines "s \<equiv> (if L then sz m p else 0) + sz m t"
  defines "R \<equiv> b + s = n \<and> n \<noteq> e"
  assumes sep: "\<And>q r. q \<in> H \<Longrightarrow> r \<in> H \<Longrightarrow> sep q r" and H: "p \<in> H" "t \<in> H" "n \<in> H"
    and ne: "p \<noteq> t" "p \<noteq> n" "t \<noteq> n"
    and sum: "p + sz m p < 2 ^ 31" "t + sz m t < 2 ^ 31" "n + sz m n < 2 ^ 31" "n = e \<Longrightarrow> sz m n = 0"
    and q: "q \<in> H"
  shows "nx (ins_mem m p t n e) q =
      (if q = b then (if R then nx m n else n) else if q = p then b else nx m q)" (is ?nx)
    and "sz (ins_mem m p t n e) q = (if q = b then s + (if R then sz m n else 0) else sz m q)" (is ?sz)
proof -
  have lt: "n < 2 ^ 32" "p < 2 ^ 32" "t < 2 ^ 32"
    using sep [OF H(1) H(3)] sep [OF H(2) H(3)] by (auto simp: sep_def)
  note S = sep [OF H(1) q] sep [OF H(2) q] sep [OF H(1) H(1)] sep [OF H(2) H(2)]
    sep [OF H(1) H(3)] sep [OF H(2) H(3)] sep [OF H(1) H(2)] sep [OF H(2) H(1)]
  show ?nx
    using S ne sum lt
    by (cases "p + sz m p = t")
      (simp_all add: ins_mem_def L_def b_def s_def R_def Let_def mem_simps)
  show ?sz
    using S ne sum lt
    by (cases "p + sz m p = t")
      (simp_all add: ins_mem_def L_def b_def s_def R_def Let_def mem_simps)
qed

lemma ins_mem_other:
  assumes "p + 8 < 2 ^ 32" "t + 8 < 2 ^ 32" "r < 2 ^ 32" "r < p \<or> p + 8 \<le> r" "r < t \<or> t + 8 \<le> r"
  shows "ins_mem m p t n e (of_nat r) = m (of_nat r)"
  using assms by (auto simp: ins_mem_def Let_def wn_other ws_other)

subsection \<open>The block list after the insertion\<close>

lemma glue_cases:
  obtains (neither) "\<not> glue_left xs" "\<not> glue_right ys" "glue xs z ys = xs @ (z, Free) # ys"
  | (left) xs1 z1 where "xs = xs1 @ [(z1, Free)]" "\<not> glue_right ys" "glue_left xs" "glue xs z ys = xs1 @ (z1 + z, Free) # ys"
  | (right) z2 ys2 where "\<not> glue_left xs" "ys = (z2, Free) # ys2" "glue_right ys" "glue xs z ys = xs @ (z + z2, Free) # ys2"
  | (both) xs1 z1 z2 ys2 where "xs = xs1 @ [(z1, Free)]" "ys = (z2, Free) # ys2" "glue_left xs" "glue_right ys"
      "glue xs z ys = xs1 @ (z1 + z + z2, Free) # ys2"
proof -
  have l: "glue_left xs \<Longrightarrow> \<exists>xs1 z1. xs = xs1 @ [(z1, Free)]"
    by (cases xs rule: rev_cases) (auto simp: glue_left_def)
  have r: "glue_right ys \<Longrightarrow> \<exists>z2 ys2. ys = (z2, Free) # ys2"
    by (cases ys) (auto simp: glue_right_def)
  show thesis
    using l r neither left right both
    by (cases "glue_left xs"; cases "glue_right ys") (auto simp: glue_def)
qed

lemma glue_total [simp]: "total_size (glue xs z ys) = total_size xs + z + total_size ys"
  by (rule glue_cases [where xs = xs and ys = ys and z = z]) auto

lemma frees_last_bound:
  assumes "\<forall>b \<in> set xs. 16 \<le> fst b" "hdrs m a xs" "p \<in> set (frees a xs)"
  shows "p + sz m p \<le> a + total_size xs"
  using assms by (induction a xs rule: frees.induct) (auto split: if_splits)

lemma frees_not_left:
  assumes "\<forall>b \<in> set xs. 16 \<le> fst b" "hdrs m a xs" "p \<in> set (frees a xs)" "\<not> glue_left xs"
  shows "p + sz m p < a + total_size xs"
proof -
  obtain ys z k where xs: "xs = ys @ [(z, k)]"
    using assms(3) by (cases xs rule: rev_cases) auto
  have "k \<noteq> Free"
    using assms(4) xs by (simp add: glue_left_def)
  then have "p + sz m p \<le> a + total_size ys"
    using assms xs by (intro frees_last_bound) auto
  then show ?thesis using assms(1) xs by auto
qed

lemma hd_frees_ge:
  assumes "\<forall>b \<in> set ys. 16 \<le> fst b" "e = c + total_size ys"
  shows "c \<le> hd (frees c ys @ [e])" "hd (frees c ys @ [e]) \<le> e"
proof -
  show "c \<le> hd (frees c ys @ [e])"
    using assms frees_bounds [of ys _ c] by (cases "frees c ys") auto
  show "hd (frees c ys @ [e]) \<le> e"
    using assms frees_bounds [of ys _ c] by (cases "frees c ys") fastforce+
qed

lemma hd_frees_adjacent:
  assumes "\<forall>b \<in> set ys. 16 \<le> fst b" "e = c + total_size ys"
  shows "c = hd (frees c ys @ [e]) \<and> hd (frees c ys @ [e]) \<noteq> e \<longleftrightarrow> glue_right ys"
proof (cases ys)
  case (Cons y ys')
  obtain z k where y: "y = (z, k)" by (cases y)
  show ?thesis
  proof (cases "k = Free")
    case False
    have "c + z \<le> hd (frees (c + z) ys' @ [e])"
      using assms Cons y by (intro hd_frees_ge) auto
    then show ?thesis using False assms Cons y by (auto simp: glue_right_def)
  qed (use assms Cons y in \<open>auto simp: glue_right_def\<close>)
qed (use assms in \<open>simp add: glue_right_def\<close>)


lemma linked_neighbour:
  assumes "linked m x (ps @ qs) e"
  shows "nx m (last (x # ps)) = hd (qs @ [e])"
  using assms linked_last by (force simp: linked_append)

text \<open>The situation in which the insertion runs: everything in place but the block at \<open>t\<close>.\<close>

definition pending :: "mem \<Rightarrow> nat \<Rightarrow> nat \<Rightarrow> blk list \<Rightarrow> nat \<Rightarrow> blk list \<Rightarrow> nat \<Rightarrow> bool" where
  "pending m x a xs z ys e \<longleftrightarrow> layout x a (xs @ (z, Limbo) # ys) e \<and> hdrs m a (xs @ (z, Limbo) # ys) \<and>
     linked m x (frees a xs @ frees (a + total_size xs + z) ys) e \<and>
     sz m (a + total_size xs) = z \<and> sz m x = 0 \<and> sz m e = 0 \<and> nx m e = 0"

lemma pending_last:
  assumes "pending m x a xs z ys e" "p = last (x # frees a xs)"
  shows "p = x \<and> frees a xs = [] \<or> p \<in> set (frees a xs) \<and> a \<le> p \<and> p + 16 \<le> a + total_size xs"
    and "p \<in> headers x a (xs @ (z, Limbo) # ys) e"
proof -
  have "\<forall>b \<in> set xs. 16 \<le> fst b"
    using assms(1) by (auto simp: pending_def layout_def)
  then show *: "p = x \<and> frees a xs = [] \<or> p \<in> set (frees a xs) \<and> a \<le> p \<and> p + 16 \<le> a + total_size xs"
    using assms(2) frees_bounds last_in_set [of "frees a xs"] by auto
  show "p \<in> headers x a (xs @ (z, Limbo) # ys) e"
    using * frees_headers [of p a "xs @ (z, Limbo) # ys"] by (auto simp: headers_def)
qed

lemma pending_next:
  assumes "pending m x a xs z ys e" "t = a + total_size xs" "n = hd (frees (t + z) ys @ [e])"
  shows "t < n" "n \<le> e" "n \<in> headers x a (xs @ (z, Limbo) # ys) e"
    "n = e \<and> frees (t + z) ys = [] \<or> n \<in> set (frees (t + z) ys)"
    "t + z = n \<and> n \<noteq> e \<longleftrightarrow> glue_right ys"
proof -
  have l: "\<forall>b \<in> set ys. 16 \<le> fst b" "16 \<le> z" "e = (t + z) + total_size ys"
    using assms(1,2) by (auto simp: pending_def layout_def)
  show "t < n" "n \<le> e"
    using hd_frees_ge [OF l(1,3)] l(2) assms(3) by auto
  show "n = e \<and> frees (t + z) ys = [] \<or> n \<in> set (frees (t + z) ys)"
    using assms(3) by (cases "frees (t + z) ys") auto
  then show "n \<in> headers x a (xs @ (z, Limbo) # ys) e"
    using frees_headers [of n a "xs @ (z, Limbo) # ys"] assms(2) by (auto simp: headers_def add.assoc)
  show "t + z = n \<and> n \<noteq> e \<longleftrightarrow> glue_right ys"
    using hd_frees_adjacent [OF l(1,3)] assms(3) by simp
qed

lemma pending_adjacent_left:
  assumes "pending m x a xs z ys e" "t = a + total_size xs" "p = last (x # frees a xs)"
  shows "p + sz m p = t \<longleftrightarrow> glue_left xs"
proof -
  have l: "\<forall>b \<in> set xs. 16 \<le> fst b" "hdrs m a xs" "sz m x = 0" "x \<noteq> t"
    using assms(1,2) by (auto simp: pending_def layout_def)
  show ?thesis
  proof (cases "glue_left xs")
    case True
    then obtain xs1 z1 where "xs = xs1 @ [(z1, Free)]"
      by (cases xs rule: rev_cases) (auto simp: glue_left_def)
    then show ?thesis using True l assms(2,3) by simp
  next
    case False
    then show ?thesis
      using pending_last(1) [OF assms(1,3)] frees_not_left [OF l(1,2), of p] l(3,4) assms(2) by auto
  qed
qed

lemma pending_sums:
  assumes "pending m x a xs z ys e" "t = a + total_size xs" "p = last (x # frees a xs)"
    "n = hd (frees (t + z) ys @ [e])"
  shows "p + sz m p < 2 ^ 31" "t + sz m t < 2 ^ 31" "n + sz m n < 2 ^ 31"
proof -
  have l: "\<forall>b \<in> set xs. 16 \<le> fst b" "hdrs m a xs" "sz m x = 0" "x + 8 \<le> 2 ^ 31" "e + 8 \<le> 2 ^ 31"
    "hdrs m (t + z) ys" "\<forall>b \<in> set ys. 16 \<le> fst b" "sz m t = z" "e = t + z + total_size ys" "sz m e = 0"
    using assms(1,2) by (auto simp: pending_def layout_def)
  show "p + sz m p < 2 ^ 31"
    using pending_last(1) [OF assms(1,3)] frees_last_bound [OF l(1,2)] l(3-5,9) assms(2) by fastforce
  show "t + sz m t < 2 ^ 31" using l(5,8,9) by simp
  show "n + sz m n < 2 ^ 31"
    using pending_next(4) [OF assms(1,2,4)] frees_last_bound [OF l(7,6)] l(5,9,10) by fastforce
qed

lemma pending_prvInsert:
  fixes h :: heap4
  assumes pend: "pending (hmem h) x a xs z ys e" "t = a + total_size xs" "p = last (x # frees a xs)"
      "n = hd (frees (t + z) ys @ [e])"
    and h: "xStart h = of_nat x" "pxEnd h = of_nat e"
  shows "prvInsertBlockIntoFreeList (of_nat t) h = Some (h\<lparr>hmem := ins_mem (hmem h) p t n e\<rparr>)"
proof (rule prvInsert_ins_mem)
  let ?bs = "xs @ (z, Limbo) # ys"
  have lay: "layout x a ?bs e" and lk: "linked (hmem h) x (frees a xs @ frees (t + z) ys) e"
    using pend(1,2) by (auto simp: pending_def)
  have sz16: "\<forall>b \<in> set xs. 16 \<le> fst b" and lim: "e + 8 \<le> 2 ^ 31" "x \<noteq> t" "x \<noteq> n" "t < n" "n \<le> e"
    using lay pend(2) pending_next [OF pend(1,2,4)] by (auto simp: layout_def)
  have "linked (hmem h) x (frees a xs) n"
    using lk pend(4) by (simp add: linked_append)
  then show "insert_position (hmem h) (xStart h) (of_nat t) = Some (of_nat p)"
    unfolding h(1) pend(3) using frees_bounds [OF sz16] lim pend(2)
    by (intro insert_position_linked) fastforce+
  show "nx (hmem h) p = n"
    using linked_neighbour [OF lk] pend(3,4) by simp
  have tH: "t \<in> headers x a ?bs e" using pend(2) by (simp add: headers_def)
  note H = pending_last(2) [OF pend(1,3)] tH pending_next(3) [OF pend(1,2,4)]
  show "sep p t" "sep p n" "sep t n"
    using H layout_sep [OF lay] by auto
  show "p \<noteq> t" "p \<noteq> n"
    using pending_last(1) [OF pend(1,3)] lim pend(2) by auto
  show "e < 2 ^ 32" using lim by simp
qed (use h pend pending_sums in auto)


lemma pending_effect:
  fixes m x a xs z ys e t p n q
  defines "b \<equiv> if glue_left xs then p else t"
  assumes pend: "pending m x a xs z ys e" "t = a + total_size xs" "p = last (x # frees a xs)"
      "n = hd (frees (t + z) ys @ [e])"
    and q: "q \<in> headers x a (xs @ (z, Limbo) # ys) e"
  shows "nx (ins_mem m p t n e) q =
      (if q = b then (if glue_right ys then nx m n else n) else if q = p then b else nx m q)"
    and "sz (ins_mem m p t n e) q =
      (if q = b then (if glue_left xs then sz m p else 0) + z + (if glue_right ys then sz m n else 0)
       else sz m q)"
proof -
  let ?H = "headers x a (xs @ (z, Limbo) # ys) e"
  have lay: "layout x a (xs @ (z, Limbo) # ys) e" "sz m t = z" "sz m e = 0"
    using pend(1,2) by (auto simp: pending_def)
  have L: "(p + sz m p = t) = glue_left xs"
    using pending_adjacent_left [OF pend(1-3)] by simp
  have R: "((if glue_left xs then p else t) + ((if glue_left xs then sz m p else 0) + sz m t) = n \<and> n \<noteq> e)
      = glue_right ys"
    using pending_next(5) [OF pend(1,2,4)] lay(2) L by auto
  have ne: "p \<noteq> t" "p \<noteq> n" "t \<noteq> n"
    using pending_last(1) [OF pend(1,3)] pending_next(1,2) [OF pend(1,2,4)] lay(1) pend(2)
    by (auto simp: layout_def)
  have tH: "t \<in> ?H" using pend(2) by (simp add: headers_def)
  note E = ins_mem_effect [of ?H p t n m e q, OF layout_sep [OF lay(1)] pending_last(2) [OF pend(1,3)] tH
      pending_next(3) [OF pend(1,2,4)] ne pending_sums [OF pend] _ q]
  show "nx (ins_mem m p t n e) q =
      (if q = b then (if glue_right ys then nx m n else n) else if q = p then b else nx m q)"
    using E(1) lay(2,3) unfolding L R b_def by simp
  show "sz (ins_mem m p t n e) q =
      (if q = b then (if glue_left xs then sz m p else 0) + z + (if glue_right ys then sz m n else 0)
       else sz m q)"
    using E(2) lay(2,3) unfolding L R b_def by simp
qed

lemma pending_separate:
  assumes "pending m x a xs z ys e" "t = a + total_size xs"
  shows "t \<noteq> x" "t \<noteq> e" "x \<noteq> e" "x \<notin> set (addrs a xs)" "x \<notin> set (addrs (t + z) ys)"
    "e \<notin> set (addrs a xs)" "e \<notin> set (addrs (t + z) ys)"
    "t \<notin> set (addrs a xs)" "t \<notin> set (addrs (t + z) ys)"
    "set (addrs a xs) \<inter> set (addrs (t + z) ys) = {}"
proof -
  have l: "\<forall>b \<in> set xs. 16 \<le> fst b" "\<forall>b \<in> set ys. 16 \<le> fst b" "16 \<le> z" "e = t + z + total_size ys"
    "x + 8 \<le> a \<or> e + 8 \<le> x"
    using assms by (auto simp: pending_def layout_def)
  note A = addrs_bounds [OF l(1), of _ a] and B = addrs_bounds [OF l(2), of _ "t + z"]
  show "t \<noteq> x" "t \<noteq> e" "x \<noteq> e" using l assms(2) by auto
  show "x \<notin> set (addrs a xs)" "e \<notin> set (addrs a xs)" "t \<notin> set (addrs a xs)"
    using A l(3-5) assms(2) by fastforce+
  show "x \<notin> set (addrs (t + z) ys)" "e \<notin> set (addrs (t + z) ys)" "t \<notin> set (addrs (t + z) ys)"
    using B l(3-5) assms(2) by fastforce+
  show "set (addrs a xs) \<inter> set (addrs (t + z) ys) = {}"
    using A B l(3) assms(2) by fastforce
qed

lemma glue_establish:
  assumes b: "b = a + total_size xs" and p: "p = last (x # frees a xs)"
    and big: "\<forall>b \<in> set xs. 16 \<le> fst b" "\<forall>b \<in> set ys. 16 \<le> fst b"
    and hd: "hdrs m a xs" "hdrs m (b + z) ys"
    and lk: "linked m x (frees a xs) n" "linked m r (frees (b + z) ys) e"
    and S: "\<forall>q \<in> set (addrs a xs) \<union> set (addrs (b + z) ys). sz m' q = sz m q" "sz m' b = z"
    and N: "\<forall>q \<in> insert x (set (addrs a xs) \<union> set (addrs (b + z) ys)). q \<noteq> p \<longrightarrow> nx m' q = nx m q"
      "nx m' p = b" "nx m' b = hd (frees (b + z) ys @ [e])"
    and out: "x \<notin> set (addrs a xs)" "x \<notin> set (addrs (b + z) ys)"
      "set (addrs a xs) \<inter> set (addrs (b + z) ys) = {}"
  shows "hdrs m' a (xs @ (z, Free) # ys) \<and> linked m' x (frees a (xs @ (z, Free) # ys)) e"
proof -
  have px: "p = x \<or> p \<in> set (frees a xs)"
    using p last_in_set [of "frees a xs"] by auto
  have sub: "set (frees a xs) \<subseteq> set (addrs a xs)" "set (frees (b + z) ys) \<subseteq> set (addrs (b + z) ys)"
    using frees_subset by auto
  have py: "p \<notin> set (addrs (b + z) ys)"
    using px sub out by blast
  have 1: "hdrs m' a xs"
    using hd(1)
  proof (rule hdrs_cong)
    show "\<forall>q \<in> set (addrs a xs). q \<notin> set (frees a xs) \<longrightarrow> nx m q = 0 \<longrightarrow> nx m' q = 0"
      using N(1) px out(1) by auto
  qed (use S big in auto)
  have 2: "hdrs m' (b + z) ys"
    using hd(2)
  proof (rule hdrs_cong)
    show "\<forall>q \<in> set (addrs (b + z) ys). q \<notin> set (frees (b + z) ys) \<longrightarrow> nx m q = 0 \<longrightarrow> nx m' q = 0"
      using N(1) py by auto
  qed (use S big in auto)
  have "distinct (x # frees a xs)"
    using frees_sorted [OF big(1)] sub out(1) strict_sorted_iff by auto
  then have 3: "linked m' x (frees a xs) b"
    using lk(1) N p sub by (intro linked_retarget [OF lk(1)]) auto
  have 4: "linked m' b (frees (b + z) ys) e"
    using lk(2) N(3) by (rule linked_rehead) (use N(1) sub py in auto)
  show ?thesis
    using 1 2 3 4 S(2) b linked_last [OF 3] by (simp add: linked_append)
qed

lemma glue_left_split:
  assumes "pending m x a (xs1 @ [(z1, Free)]) z ys e" "p = last (x # frees a (xs1 @ [(z1, Free)]))"
  shows "p = a + total_size xs1" "sz m p = z1" "p \<noteq> x" "p \<noteq> last (x # frees a xs1)"
    "p \<notin> set (addrs a xs1)" "linked m x (frees a xs1) p" "nx m (last (x # frees a xs1)) = p"
    "last (x # frees a xs1) \<in> insert x (set (addrs a xs1))"
proof -
  show p: "p = a + total_size xs1" and "sz m p = z1"
    using assms by (auto simp: pending_def)
  have big: "\<forall>b \<in> set xs1. 16 \<le> fst b" and x: "p \<noteq> x"
    using assms(1) p by (auto simp: pending_def layout_def)
  show "p \<notin> set (addrs a xs1)" "p \<noteq> x"
    using addrs_bounds [OF big] p x by fastforce+
  then show "p \<noteq> last (x # frees a xs1)"
    using last_in_set [of "frees a xs1"] frees_subset [of a xs1] by (cases "frees a xs1 = []") force+
  show "last (x # frees a xs1) \<in> insert x (set (addrs a xs1))"
    using last_in_set [of "frees a xs1"] frees_subset [of a xs1] by (cases "frees a xs1 = []") force+
  show "linked m x (frees a xs1) p"
    using assms(1) p by (simp add: pending_def linked_append)
  then show "nx m (last (x # frees a xs1)) = p"
    by (rule linked_last)
qed

lemma glue_right_split:
  assumes "pending m x a xs z ((z2, Free) # ys2) e" "t = a + total_size xs" "p = last (x # frees a xs)"
    "n = hd (frees (t + z) ((z2, Free) # ys2) @ [e])"
  shows "n = t + z" "sz m n = z2" "linked m n (frees (n + z2) ys2) e" "hdrs m (n + z2) ys2"
    "nx m n = hd (frees (n + z2) ys2 @ [e])"
proof -
  show n: "n = t + z" "sz m n = z2" "linked m n (frees (n + z2) ys2) e" "hdrs m (n + z2) ys2"
    using assms by (auto simp: pending_def linked_append)
  show "nx m n = hd (frees (n + z2) ys2 @ [e])"
    using n(3) by (cases "frees (n + z2) ys2") auto
qed

lemma insert_effect:
  fixes m x a xs z ys e t p n
  defines "m' \<equiv> ins_mem m p t n e" and "A \<equiv> set (addrs a xs)" and "B \<equiv> set (addrs (t + z) ys)"
    and "b \<equiv> if glue_left xs then p else t"
  assumes pend: "pending m x a xs z ys e" "t = a + total_size xs" "p = last (x # frees a xs)"
      "n = hd (frees (t + z) ys @ [e])"
  shows "\<And>q. q \<in> A \<union> B \<Longrightarrow> q \<noteq> b \<Longrightarrow> sz m' q = sz m q"
    and "\<And>q. q \<in> insert x (A \<union> B) \<Longrightarrow> q \<noteq> b \<Longrightarrow> q \<noteq> p \<Longrightarrow> nx m' q = nx m q"
    and "p \<noteq> b \<Longrightarrow> nx m' p = b"
    and "nx m' b = (if glue_right ys then nx m n else n)"
    and "sz m' b = (if glue_left xs then sz m p else 0) + z + (if glue_right ys then sz m n else 0)"
    and "p \<notin> B" "p \<noteq> t" "t \<notin> A" "t \<notin> B" "t \<noteq> x" "x \<notin> A" "x \<notin> B" "A \<inter> B = {}"
proof -
  note out = pending_separate [OF pend(1,2), folded A_def B_def]
  have px: "p = x \<or> p \<in> A"
    using pending_last(1) [OF pend(1,3)] frees_subset A_def by blast
  then show "p \<notin> B" "p \<noteq> t"
    using out by auto
  have inH: "insert x (insert t (A \<union> B)) \<subseteq> headers x a (xs @ (z, Limbo) # ys) e"
    using pend(2) by (auto simp: headers_def A_def B_def)
  note E = pending_effect [OF pend subsetD [OF inH], folded m'_def b_def]
  show "\<And>q. q \<in> A \<union> B \<Longrightarrow> q \<noteq> b \<Longrightarrow> sz m' q = sz m q"
    and "\<And>q. q \<in> insert x (A \<union> B) \<Longrightarrow> q \<noteq> b \<Longrightarrow> q \<noteq> p \<Longrightarrow> nx m' q = nx m q"
    using E by auto
  have pb: "p \<in> insert x (insert t (A \<union> B))" "b \<in> insert x (insert t (A \<union> B))"
    using px by (auto simp: b_def)
  show "p \<noteq> b \<Longrightarrow> nx m' p = b"
    using E(1) [OF pb(1)] by simp
  show "nx m' b = (if glue_right ys then nx m n else n)"
    and "sz m' b = (if glue_left xs then sz m p else 0) + z + (if glue_right ys then sz m n else 0)"
    using E [OF pb(2)] by simp_all
qed (use pending_separate [OF pend(1,2)] A_def B_def in auto)

lemma pending_parts:
  assumes "pending m x a xs z ys e" "t = a + total_size xs" "p = last (x # frees a xs)"
      "n = hd (frees (t + z) ys @ [e])"
  shows "\<forall>b \<in> set xs. 16 \<le> fst b" "\<forall>b \<in> set ys. 16 \<le> fst b" "hdrs m a xs" "hdrs m (t + z) ys"
    "linked m x (frees a xs) n" "linked m p (frees (t + z) ys) e"
  using assms by (auto simp: pending_def layout_def linked_append)

lemma insert_glue_neither:
  assumes pend: "pending m x a xs z ys e" "t = a + total_size xs" "p = last (x # frees a xs)"
      "n = hd (frees (t + z) ys @ [e])"
    and g: "\<not> glue_left xs" "\<not> glue_right ys"
  shows "hdrs (ins_mem m p t n e) a (xs @ (z, Free) # ys) \<and>
     linked (ins_mem m p t n e) x (frees a (xs @ (z, Free) # ys)) e"
  by (rule glue_establish [OF pend(2,3) pending_parts [OF pend]])
    (use insert_effect [OF pend] g pend(4) in auto)

lemma insert_glue_right:
  assumes pend: "pending m x a xs z ((z2, Free) # ys) e" "t = a + total_size xs" "p = last (x # frees a xs)"
      "n = hd (frees (t + z) ((z2, Free) # ys) @ [e])"
    and g: "\<not> glue_left xs"
  shows "hdrs (ins_mem m p t n e) a (xs @ (z + z2, Free) # ys) \<and>
     linked (ins_mem m p t n e) x (frees a (xs @ (z + z2, Free) # ys)) e"
proof -
  note P = pending_parts [OF pend] and n = glue_right_split [OF pend]
  have gr: "glue_right ((z2, Free) # ys)" by (simp add: glue_right_def)
  note I = insert_effect [OF pend, unfolded if_not_P [OF g] if_P [OF gr]]
  have t: "n + z2 = t + (z + z2)" using n(1) by simp
  have B: "set (addrs (t + (z + z2)) ys) \<subseteq> set (addrs (t + z) ((z2, Free) # ys))" by (auto simp: add.assoc)
  show ?thesis
  proof (rule glue_establish [where r = n, OF pend(2,3) P(1) _ P(3) _ P(5)])
    show "\<forall>q \<in> set (addrs a xs) \<union> set (addrs (t + (z + z2)) ys). sz (ins_mem m p t n e) q = sz m q"
      using I(1,8,9) B by blast
    show "\<forall>q \<in> insert x (set (addrs a xs) \<union> set (addrs (t + (z + z2)) ys)).
        q \<noteq> p \<longrightarrow> nx (ins_mem m p t n e) q = nx m q"
      using I(2,8-10) B by blast
    show "x \<notin> set (addrs (t + (z + z2)) ys)" "set (addrs a xs) \<inter> set (addrs (t + (z + z2)) ys) = {}"
      using I(12,13) B by blast+
    show "sz (ins_mem m p t n e) t = z + z2" "nx (ins_mem m p t n e) p = t"
      "nx (ins_mem m p t n e) t = hd (frees (t + (z + z2)) ys @ [e])"
      using I(3-5,7) n(2,5) unfolding t by simp_all
    show "hdrs m (t + (z + z2)) ys" "linked m n (frees (t + (z + z2)) ys) e"
      using n(3,4) unfolding t by simp_all
  qed (use I(11) P(2) in simp_all)
qed

text \<open>With a free left neighbour the block on the list is \<open>p\<close>; \<open>zr\<close> and \<open>ys'\<close> say what is on its right.\<close>

lemma insert_glue_left_aux:
  assumes pend: "pending m x a (xs @ [(z1, Free)]) z ys e" "t = a + total_size (xs @ [(z1, Free)])"
      "p = last (x # frees a (xs @ [(z1, Free)]))" "n = hd (frees (t + z) ys @ [e])"
    and ys': "\<forall>b \<in> set ys'. 16 \<le> fst b" "hdrs m (p + (z1 + z + zr)) ys'"
      "linked m r (frees (p + (z1 + z + zr)) ys') e"
      "set (addrs (p + (z1 + z + zr)) ys') \<subseteq> set (addrs (t + z) ys)"
    and zr: "zr = (if glue_right ys then sz m n else 0)"
      "(if glue_right ys then nx m n else n) = hd (frees (p + (z1 + z + zr)) ys' @ [e])"
  shows "hdrs (ins_mem m p t n e) a (xs @ (z1 + z + zr, Free) # ys') \<and>
     linked (ins_mem m p t n e) x (frees a (xs @ (z1 + z + zr, Free) # ys')) e"
proof -
  note P = pending_parts [OF pend] and p = glue_left_split [OF pend(1,3)]
  have gl: "glue_left (xs @ [(z1, Free)])" by (simp add: glue_left_def)
  note I = insert_effect [OF pend, unfolded if_P [OF gl]]
  have A: "set (addrs a xs) \<subseteq> set (addrs a (xs @ [(z1, Free)]))" by auto
  show ?thesis
  proof (rule glue_establish [OF p(1) refl _ ys'(1) _ ys'(2) p(6) ys'(3)])
    show "\<forall>q \<in> set (addrs a xs) \<union> set (addrs (p + (z1 + z + zr)) ys').
        sz (ins_mem m p t n e) q = sz m q"
      using I(1,6) A p(5) ys'(4) by blast
    show "\<forall>q \<in> insert x (set (addrs a xs) \<union> set (addrs (p + (z1 + z + zr)) ys')).
        q \<noteq> last (x # frees a xs) \<longrightarrow> nx (ins_mem m p t n e) q = nx m q"
      using I(2,6) A p(3,5) ys'(4) by blast
    have "last (x # frees a xs) \<in> insert x (set (addrs a (xs @ [(z1, Free)])) \<union> set (addrs (t + z) ys))"
      using p(8) A by blast
    then show "nx (ins_mem m p t n e) (last (x # frees a xs)) = p"
      using I(2) p(4,7) by metis
    show "x \<notin> set (addrs (p + (z1 + z + zr)) ys')"
      "set (addrs a xs) \<inter> set (addrs (p + (z1 + z + zr)) ys') = {}" "x \<notin> set (addrs a xs)"
      using I(11-13) A ys'(4) by blast+
    show "sz (ins_mem m p t n e) p = z1 + z + zr" using I(5) p(2) zr(1) by simp
    show "nx (ins_mem m p t n e) p = hd (frees (p + (z1 + z + zr)) ys' @ [e])" using I(4) zr(2) by simp
  qed (use P in auto)
qed

lemma insert_glue_left:
  assumes pend: "pending m x a (xs @ [(z1, Free)]) z ys e" "t = a + total_size (xs @ [(z1, Free)])"
      "p = last (x # frees a (xs @ [(z1, Free)]))" "n = hd (frees (t + z) ys @ [e])"
    and g: "\<not> glue_right ys"
  shows "hdrs (ins_mem m p t n e) a (xs @ (z1 + z, Free) # ys) \<and>
     linked (ins_mem m p t n e) x (frees a (xs @ (z1 + z, Free) # ys)) e"
proof -
  have t: "t + z = p + (z1 + z)" using pend(2) glue_left_split(1) [OF pend(1,3)] by simp
  show ?thesis
    using insert_glue_left_aux [OF pend, of ys 0 p] pending_parts [OF pend] g pend(4) unfolding t by simp
qed

lemma insert_glue_both:
  assumes pend: "pending m x a (xs @ [(z1, Free)]) z ((z2, Free) # ys) e" "t = a + total_size (xs @ [(z1, Free)])"
      "p = last (x # frees a (xs @ [(z1, Free)]))" "n = hd (frees (t + z) ((z2, Free) # ys) @ [e])"
  shows "hdrs (ins_mem m p t n e) a (xs @ (z1 + z + z2, Free) # ys) \<and>
     linked (ins_mem m p t n e) x (frees a (xs @ (z1 + z + z2, Free) # ys)) e"
proof -
  note n = glue_right_split [OF pend]
  have t: "p + (z1 + z + z2) = n + z2"
    using pend(2) glue_left_split(1) [OF pend(1,3)] n(1) by simp
  have g: "glue_right ((z2, Free) # ys)" by (simp add: glue_right_def)
  show ?thesis
  proof (rule insert_glue_left_aux [OF pend, where r = n])
    show "\<forall>b \<in> set ys. 16 \<le> fst b" using pending_parts(2) [OF pend] by simp
    show "z2 = (if glue_right ((z2, Free) # ys) then sz m n else 0)" using g n(2) by simp
    show "set (addrs (p + (z1 + z + z2)) ys) \<subseteq> set (addrs (t + z) ((z2, Free) # ys))"
      unfolding t using n(1) by auto
  qed (use n g in \<open>simp_all add: t\<close>)
qed

lemma insert_glue:
  assumes pend: "pending m x a xs z ys e" "t = a + total_size xs" "p = last (x # frees a xs)"
      "n = hd (frees (t + z) ys @ [e])"
  shows "hdrs (ins_mem m p t n e) a (glue xs z ys) \<and>
     linked (ins_mem m p t n e) x (frees a (glue xs z ys)) e"
proof (rule glue_cases [where xs = xs and ys = ys and z = z])
  assume "\<not> glue_left xs" "\<not> glue_right ys" "glue xs z ys = xs @ (z, Free) # ys"
  then show ?thesis using insert_glue_neither [OF pend] by simp
next
  fix xs1 z1
  assume "xs = xs1 @ [(z1, Free)]" "\<not> glue_right ys" "glue_left xs" "glue xs z ys = xs1 @ (z1 + z, Free) # ys"
  then show ?thesis using insert_glue_left [of m x a xs1 z1 z ys e t p n] pend by simp
next
  fix z2 ys2
  assume "\<not> glue_left xs" "ys = (z2, Free) # ys2" "glue_right ys" "glue xs z ys = xs @ (z + z2, Free) # ys2"
  then show ?thesis using insert_glue_right [of m x a xs z z2 ys2 e t p n] pend by simp
next
  fix xs1 z1 z2 ys2
  assume "xs = xs1 @ [(z1, Free)]" "ys = (z2, Free) # ys2" "glue_left xs" "glue_right ys"
    "glue xs z ys = xs1 @ (z1 + z + z2, Free) # ys2"
  then show ?thesis using insert_glue_both [of m x a xs1 z1 z z2 ys2 e t p n] pend by simp
qed

text \<open>
  The insertion as a whole: it returns, its result is the glued block list, and outside the
  headers of the start node, of the free blocks below and of the block itself no byte changes.
\<close>

lemma insert_free_list:
  fixes h :: heap4
  assumes pend: "pending (hmem h) x a xs z ys e" and t: "t = a + total_size xs"
    and h: "xStart h = of_nat x" "pxEnd h = of_nat e"
  obtains m' where "prvInsertBlockIntoFreeList (of_nat t) h = Some (h\<lparr>hmem := m'\<rparr>)"
    "hdrs m' a (glue xs z ys)" "linked m' x (frees a (glue xs z ys)) e"
    "sz m' x = 0" "sz m' e = 0" "nx m' e = 0"
    "\<And>r. r < 2 ^ 32 \<Longrightarrow> \<forall>p \<in> insert x (insert t (set (frees a xs))). r < p \<or> p + 8 \<le> r \<Longrightarrow>
       m' (of_nat r) = hmem h (of_nat r)"
proof -
  define p where "p = last (x # frees a xs)"
  define n where "n = hd (frees (t + z) ys @ [e])"
  note P = pend t p_def n_def
  have lay: "layout x a (xs @ (z, Limbo) # ys) e" and z0: "sz (hmem h) x = 0" "sz (hmem h) e = 0" "nx (hmem h) e = 0"
    using pend by (auto simp: pending_def)
  have pp: "p = x \<or> p \<in> set (frees a xs)" and pH: "p \<in> headers x a (xs @ (z, Limbo) # ys) e"
    using pending_last [OF pend p_def] by auto
  have xe: "x \<in> headers x a (xs @ (z, Limbo) # ys) e" "e \<in> headers x a (xs @ (z, Limbo) # ys) e"
    by (auto simp: headers_def)
  have out: "t \<noteq> x" "t \<noteq> e" "p \<noteq> e"
    using pending_separate [OF pend t] pp frees_subset [of a xs] by auto
  have "glue_left xs \<Longrightarrow> frees a xs \<noteq> []"
    by (cases xs rule: rev_cases) (auto simp: glue_left_def)
  then have gl: "glue_left xs \<Longrightarrow> p \<noteq> x"
    using pending_last(1) [OF pend p_def] pending_separate(4) [OF pend t] frees_subset [of a xs] by auto
  have "p + 8 < 2 ^ 32" "t + 8 < 2 ^ 32"
    using layout_sep [OF lay pH pH] lay t by (auto simp: sep_def layout_def)
  then show thesis
    by (intro that [OF pending_prvInsert [OF P h]])
      (use insert_glue [OF P] ins_mem_other [of p t] pending_effect [OF P xe(1)]
        pending_effect [OF P xe(2)] z0 out gl pp in auto)
qed

end
