(* ===== verification/Heap4_Free.thy ===== *)
theory Heap4_Free
  imports Heap4_Insert
begin

text \<open>
  The invariant \<open>heap_inv h bs\<close> of the allocator between calls: the state \<open>h\<close> represents the
  block list \<open>bs\<close>, no two neighbouring blocks are free, the byte counter is the sum of the
  free sizes.  Then \<open>vPortFree\<close>: on the pointer of a used block it returns, glues the block to
  its free neighbours, and changes no byte of the payload of any other used block.
\<close>

text \<open>Start of the tiling: \<open>ucHeap\<close> rounded up to the alignment.\<close>

definition heap_start :: "heap4 \<Rightarrow> nat" where
  "heap_start h = unat ((ucHeap h + 7) AND NOT 7)"

fun no_adjacent :: "blk list \<Rightarrow> bool" where
  "no_adjacent ((z1, k1) # (z2, k2) # bs) \<longleftrightarrow> \<not> (k1 = Free \<and> k2 = Free) \<and> no_adjacent ((z2, k2) # bs)"
| "no_adjacent bs \<longleftrightarrow> True"

definition free_total :: "blk list \<Rightarrow> nat" where
  "free_total bs = sum_list (map fst (filter (\<lambda>b. snd b = Free) bs))"

definition blocks_ok :: "blk list \<Rightarrow> bool" where
  "blocks_ok bs \<longleftrightarrow> (\<forall>b \<in> set bs. 8 dvd fst b \<and> snd b \<noteq> Limbo) \<and> no_adjacent bs"

definition heap_inv :: "heap4 \<Rightarrow> blk list \<Rightarrow> bool" where
  "heap_inv h bs \<longleftrightarrow>
     layout (unat (xStart h)) (heap_start h) bs (unat (pxEnd h)) \<and> blocks_ok bs \<and>
     hdrs (hmem h) (heap_start h) bs \<and>
     linked (hmem h) (unat (xStart h)) (frees (heap_start h) bs) (unat (pxEnd h)) \<and>
     sz (hmem h) (unat (xStart h)) = 0 \<and> sz (hmem h) (unat (pxEnd h)) = 0 \<and> nx (hmem h) (unat (pxEnd h)) = 0 \<and>
     unat (xFreeBytesRemaining h) = free_total bs \<and>
     xMinimumEverFreeBytesRemaining h \<le> xFreeBytesRemaining h \<and>
     xBlockAllocatedBit h = push_bit 31 1"

lemma free_total_simps [simp]:
  "free_total [] = 0" "free_total ((z, k) # bs) = (if k = Free then z else 0) + free_total bs"
  "free_total (xs @ ys) = free_total xs + free_total ys"
  by (simp_all add: free_total_def)

lemma free_total_le: "free_total bs \<le> total_size bs"
  by (induction bs) auto

lemma no_adjacent_Cons:
  "no_adjacent ((z, k) # ys) \<longleftrightarrow> no_adjacent ys \<and> \<not> (k = Free \<and> glue_right ys)"
  by (cases ys) (auto simp: glue_right_def)

lemma no_adjacent_append:
  "no_adjacent (xs @ ys) \<longleftrightarrow> no_adjacent xs \<and> no_adjacent ys \<and> \<not> (glue_left xs \<and> glue_right ys)"
proof (induction xs)
  case (Cons x xs)
  obtain z k where x: "x = (z, k)" by (cases x)
  show ?case
    using Cons unfolding x append_Cons no_adjacent_Cons
    by (cases xs) (auto simp: glue_left_def glue_right_def)
qed (simp add: glue_left_def)

lemma no_adjacent_glue:
  assumes "no_adjacent xs" "no_adjacent ys"
  shows "no_adjacent (glue xs z ys)"
  using assms
  by (rule_tac glue_cases [where xs = xs and ys = ys and z = z])
    (auto simp: no_adjacent_append no_adjacent_Cons glue_right_def)

lemma free_total_glue: "free_total (glue xs z ys) = free_total xs + z + free_total ys"
  by (rule glue_cases [where xs = xs and ys = ys and z = z]) auto

lemma glue_dvd:
  "\<forall>b \<in> set xs \<union> set ys. 8 dvd fst b \<and> snd b \<noteq> Limbo \<Longrightarrow> 8 dvd z \<Longrightarrow>
   \<forall>b \<in> set (glue xs z ys). 8 dvd fst b \<and> snd b \<noteq> Limbo"
  by (rule glue_cases [where xs = xs and ys = ys and z = z]) auto

lemma glue_big:
  "\<forall>b \<in> set xs \<union> set ys. 16 \<le> fst b \<Longrightarrow> 16 \<le> z \<Longrightarrow> \<forall>b \<in> set (glue xs z ys). 16 \<le> fst b"
  by (rule glue_cases [where xs = xs and ys = ys and z = z]) auto

subsection \<open>Freeing a block\<close>

text \<open>Pointer handed to the application for the block at offset \<open>total_size xs\<close>.\<close>

definition block_ptr :: "heap4 \<Rightarrow> blk list \<Rightarrow> u32" where
  "block_ptr h xs = of_nat (heap_start h + total_size xs + 8)"

lemma bit31_of_nat:
  assumes "z < 2 ^ 31"
  shows "\<not> bit (of_nat z :: u32) 31"
proof -
  have "\<not> bit z 31" using assms by (simp add: bit_iff_odd)
  then show ?thesis by (simp add: bit_simps)
qed
lemma bit_push_bit_31: "bit (push_bit 31 1 :: u32) n \<longleftrightarrow> n = 31"
  by (auto simp only: bit_push_bit_iff bit_1_iff) (auto simp: not_le)
lemma u32_allocated_bit:
  assumes "z < 2 ^ 31"
  shows "(of_nat z :: u32) AND push_bit 31 1 = 0"
    and "(of_nat z :: u32) OR push_bit 31 1 = of_nat (z + 2 ^ 31)"
    and "(of_nat (z + 2 ^ 31) :: u32) AND push_bit 31 1 \<noteq> 0"
    and "(of_nat (z + 2 ^ 31) :: u32) AND NOT (push_bit 31 1) = of_nat z"
proof -
  define P where "P = (push_bit 31 1 :: u32)"
  let ?w = "of_nat z :: u32"
  have b: "\<not> bit ?w 31"
    using assms by (rule bit31_of_nat)
  have P: "\<And>n. bit P n \<longleftrightarrow> n = 31"
    unfolding P_def by (rule bit_push_bit_31)
  have a: "?w AND P = 0"
    using b by (intro bit_eqI) (auto simp only: bit_and_iff P bit_0_eq bot_apply bot_bool_def)
  then show "?w AND push_bit 31 1 = 0" by (simp only: P_def)
  have o: "?w OR P = of_nat (z + 2 ^ 31)"
    using disjunctive_add_eq_or [OF a] by (simp add: P_def push_bit_eq_mult)
  then show "?w OR push_bit 31 1 = of_nat (z + 2 ^ 31)" by (simp only: P_def)
  have "bit ((?w OR P) AND P) 31"
    by (simp only: bit_and_iff bit_or_iff P simp_thms)
  then have "(?w OR P) AND P \<noteq> 0" by auto
  then show "of_nat (z + 2 ^ 31) AND push_bit 31 1 \<noteq> (0 :: u32)"
    by (simp only: o [symmetric] P_def [symmetric] not_False_eq_True)
  have "(?w OR P) AND NOT P = ?w"
    using b by (intro bit_word_eqI) (auto simp only: bit_and_iff bit_or_iff bit_not_iff P possible_bit_word)
  then show "of_nat (z + 2 ^ 31) AND NOT (push_bit 31 1) = ?w"
    by (simp only: o [symmetric] P_def [symmetric])
qed

fun in_used :: "nat \<Rightarrow> blk list \<Rightarrow> nat \<Rightarrow> bool" where
  "in_used a [] r \<longleftrightarrow> False"
| "in_used a ((z, k) # bs) r \<longleftrightarrow> k = Used \<and> a + 8 \<le> r \<and> r < a + z \<or> in_used (a + z) bs r"

lemma in_used_append [simp]: "in_used a (xs @ ys) r \<longleftrightarrow> in_used a xs r \<or> in_used (a + total_size xs) ys r"
  by (induction xs arbitrary: a) (auto simp: add.assoc)

lemma in_used_bounds: "in_used a bs r \<Longrightarrow> a \<le> r \<and> r < a + total_size bs"
  by (induction a bs r rule: in_used.induct) fastforce+

lemma in_used_glue: "in_used a (glue xs z ys) r \<longleftrightarrow> in_used a (xs @ (z, Free) # ys) r"
  by (rule glue_cases [where xs = xs and ys = ys and z = z]) (auto simp: add.assoc)

lemma in_used_addrs:
  "\<forall>b \<in> set bs. 16 \<le> fst b \<Longrightarrow> in_used a bs r \<Longrightarrow> p \<in> set (addrs a bs) \<Longrightarrow> r < p \<or> p + 8 \<le> r"
proof (induction a bs r rule: in_used.induct)
  case (2 a z k bs r)
  have "r < p \<or> p + 8 \<le> r" if "p = a" "in_used (a + z) bs r"
    using in_used_bounds [OF that(2)] that 2(2) by auto
  moreover have "r < p \<or> p + 8 \<le> r" if "p \<in> set (addrs (a + z) bs)" "r < a + z"
    using addrs_bounds [of bs p "a + z"] that 2(2) by auto
  ultimately show ?case using 2 by auto
qed simp

lemma in_used_headers:
  assumes "layout x a bs e" "in_used a bs r" "p \<in> headers x a bs e"
  shows "r < p \<or> p + 8 \<le> r" "r < 2 ^ 32"
  using assms in_used_addrs [of bs a r p] in_used_bounds [OF assms(2)]
  by (auto simp: layout_def headers_def)

lemma heap_inv_facts:
  assumes "heap_inv h bs"
  shows "\<forall>b \<in> set bs. 16 \<le> fst b" "heap_start h + total_size bs + 8 \<le> 2 ^ 31" "heap_start h > 0"
    "unat (pxEnd h) = heap_start h + total_size bs"
  using assms unfolding heap_inv_def layout_def by simp_all

lemma block_size_lt:
  "heap_inv h (xs @ (z, k) # ys) \<Longrightarrow> z < 2 ^ 31"
  using heap_inv_facts(2) by fastforce

lemma hdrs_same:
  "hdrs m a bs \<Longrightarrow> \<forall>p \<in> set (addrs a bs). sz m' p = sz m p \<and> nx m' p = nx m p \<Longrightarrow>
   \<forall>b \<in> set bs. 16 \<le> fst b \<Longrightarrow> hdrs m' a bs"
  by (erule hdrs_cong) auto

text \<open>Stores into the header of a block that is not on the list leave the rest of the heap alone.\<close>

lemma limbo_write:
  assumes lay: "layout x a (xs @ (z, k) # ys) e" and t: "t = a + total_size xs"
    and hd: "hdrs m a xs" "hdrs m (t + z) ys" and lk: "linked m x (frees a xs @ frees (t + z) ys) e"
    and same: "\<And>q. sep t q \<Longrightarrow> q \<noteq> t \<Longrightarrow> sz m' q = sz m q \<and> nx m' q = nx m q"
  shows "hdrs m' a xs" "hdrs m' (t + z) ys" "linked m' x (frees a xs @ frees (t + z) ys) e"
    "sz m' x = sz m x" "sz m' e = sz m e" "nx m' e = nx m e"
proof -
  have big: "\<forall>b \<in> set xs. 16 \<le> fst b" "\<forall>b \<in> set ys. 16 \<le> fst b" and pos: "16 \<le> z" "x \<noteq> t" "e \<noteq> t"
    using lay t by (auto simp: layout_def)
  have H: "t \<in> headers x a (xs @ (z, k) # ys) e" "x \<in> headers x a (xs @ (z, k) # ys) e"
      "e \<in> headers x a (xs @ (z, k) # ys) e"
    and sub: "set (addrs a xs) \<union> set (addrs (t + z) ys) \<subseteq> headers x a (xs @ (z, k) # ys) e"
    using t by (auto simp: headers_def)
  note same' = same [OF layout_sep [OF lay H(1)]]
  have nt: "t \<notin> set (addrs a xs)" "t \<notin> set (addrs (t + z) ys)"
    using addrs_bounds [OF big(1), of t a] addrs_bounds [OF big(2), of t "t + z"] t pos(1) by auto
  have as: "\<forall>q \<in> set (addrs a xs). sz m' q = sz m q \<and> nx m' q = nx m q"
    "\<forall>q \<in> set (addrs (t + z) ys). sz m' q = sz m q \<and> nx m' q = nx m q"
    using same' sub nt by blast+
  show "hdrs m' a xs" "hdrs m' (t + z) ys"
    using hdrs_same [OF hd(1) as(1) big(1)] hdrs_same [OF hd(2) as(2) big(2)] by simp_all
  have "\<forall>q \<in> set (frees a xs) \<union> set (frees (t + z) ys). nx m' q = nx m q"
    using as frees_subset by blast
  then show "linked m' x (frees a xs @ frees (t + z) ys) e"
    using same' [OF H(2)] pos(2) by (intro linked_cong [OF lk]) simp
  show "sz m' x = sz m x" "sz m' e = sz m e" "nx m' e = nx m e"
    using same' [OF H(2)] same' [OF H(3)] pos by simp_all
qed

text \<open>Clearing the allocated bit of a used block leaves everything ready for its insertion.\<close>

lemma pending_free:
  assumes lay: "layout x a (xs @ (z, Used) # ys) e" and hd: "hdrs m a (xs @ (z, Used) # ys)"
    and lk: "linked m x (frees a (xs @ (z, Used) # ys)) e"
    and z0: "sz m x = 0" "sz m e = 0" "nx m e = 0" and t: "t = a + total_size xs"
  shows "pending (ws t z m) x a xs z ys e"
proof -
  have z: "z < 2 ^ 32" "t + 8 < 2 ^ 32" using lay t by (auto simp: layout_def)
  have h: "hdrs m a xs" "hdrs m (t + z) ys" "linked m x (frees a xs @ frees (t + z) ys) e"
    using hd lk t by (simp_all add: add.assoc)
  have "sz (ws t z m) q = sz m q \<and> nx (ws t z m) q = nx m q" if "sep t q" "q \<noteq> t" for q
    using that z by (simp add: mem_simps)
  note w = limbo_write [OF lay t h this]
  have "sz (ws t z m) t = z" using z by (simp add: mem_simps)
  moreover have "layout x a (xs @ (z, Limbo) # ys) e" using lay by (auto simp: layout_def)
  ultimately show ?thesis using w z0 t by (auto simp: pending_def)
qed

lemma vPortFree_unfold:
  assumes "block_ptr h xs \<noteq> 0" "t = heap_start h + total_size xs" "z < 2 ^ 31"
    "sz (hmem h) t = z + 2 ^ 31" "nx (hmem h) t = 0" "sep t t"
    "xBlockAllocatedBit h = push_bit 31 1"
  shows "vPortFree (block_ptr h xs) h =
     map_option (\<lambda>h2. h2\<lparr>xNumberOfSuccessfulFrees := xNumberOfSuccessfulFrees h2 + 1\<rparr>)
       (prvInsertBlockIntoFreeList (of_nat t)
         (h\<lparr>hmem := ws t z (hmem h), xFreeBytesRemaining := xFreeBytesRemaining h + of_nat z\<rparr>))"
proof -
  have l: "block_ptr h xs - xHeapStructSize = of_nat t"
    using assms(2) by (simp add: block_ptr_def)
  have s: "xBlockSize (hmem h) (of_nat t) = of_nat (z + 2 ^ 31)" "pxNextFreeBlock (hmem h) (of_nat t) = 0"
    unfolding size_of_nat next_of_nat using assms(4,5) by simp_all
  note b = u32_allocated_bit [OF assms(3)]
  have w: "set_xBlockSize (of_nat t) (of_nat z) (hmem h) = ws t z (hmem h)" by (simp add: ws_def)
  have "xBlockSize (ws t z (hmem h)) (of_nat t) = of_nat z"
    using assms(3,6) by (simp add: size_of_nat mem_simps)
  then show ?thesis
    unfolding vPortFree_def Let_def l s assms(7) b(4) w
    using assms(1) b(3) by (simp add: configASSERT_def map_conv_bind_option comp_def)
qed

lemma free_total_lt:
  "heap_inv h bs \<Longrightarrow> free_total bs < 2 ^ 31"
  using free_total_le [of bs] heap_inv_facts(2) [of h bs] by simp

lemma blocks_ok_glue:
  assumes "blocks_ok (xs @ (z, k) # ys)"
  shows "blocks_ok (glue xs z ys)"
proof -
  have "no_adjacent xs" "no_adjacent ys"
    using assms by (simp_all add: blocks_ok_def no_adjacent_append no_adjacent_Cons)
  moreover have "\<forall>b \<in> set (glue xs z ys). 8 dvd fst b \<and> snd b \<noteq> Limbo"
    using assms unfolding blocks_ok_def by (intro glue_dvd) simp_all
  ultimately show ?thesis
    unfolding blocks_ok_def using no_adjacent_glue by blast
qed

lemma layout_glue:
  "layout x a (xs @ (z, k) # ys) e \<Longrightarrow> layout x a (glue xs z ys) e"
  unfolding layout_def using glue_big [of xs ys z] by auto

theorem vPortFree_used:
  assumes inv: "heap_inv h (xs @ (z, Used) # ys)"
  obtains h' where "vPortFree (block_ptr h xs) h = Some h'" "heap_inv h' (glue xs z ys)"
    "ucHeap h' = ucHeap h" "xStart h' = xStart h" "pxEnd h' = pxEnd h"
    "xNumberOfSuccessfulFrees h' = xNumberOfSuccessfulFrees h + 1"
    "xNumberOfSuccessfulAllocations h' = xNumberOfSuccessfulAllocations h"
    "xMinimumEverFreeBytesRemaining h' = xMinimumEverFreeBytesRemaining h"
    "\<And>r. in_used (heap_start h) (xs @ (z, Free) # ys) r \<Longrightarrow> hmem h' (of_nat r) = hmem h (of_nat r)"
proof -
  define a where "a = heap_start h"
  define x where "x = unat (xStart h)"
  define e where "e = unat (pxEnd h)"
  define t where "t = a + total_size xs"
  let ?bs = "xs @ (z, Used) # ys"
  have lay: "layout x a ?bs e" and hd: "hdrs (hmem h) a ?bs" and lk: "linked (hmem h) x (frees a ?bs) e"
    and z0: "sz (hmem h) x = 0" "sz (hmem h) e = 0" "nx (hmem h) e = 0" and ok: "blocks_ok ?bs"
    and fb: "unat (xFreeBytesRemaining h) = free_total ?bs"
    and bit: "xBlockAllocatedBit h = push_bit 31 1"
    and me: "xMinimumEverFreeBytesRemaining h \<le> xFreeBytesRemaining h"
    using inv by (simp_all add: heap_inv_def a_def x_def e_def)
  define h1 where "h1 = h\<lparr>hmem := ws t z (hmem h), xFreeBytesRemaining := xFreeBytesRemaining h + of_nat z\<rparr>"
  have pend: "pending (hmem h1) x a xs z ys e"
    using pending_free [OF lay hd lk z0 t_def] by (simp add: h1_def)
  have h1: "xStart h1 = of_nat x" "pxEnd h1 = of_nat e"
    by (simp_all add: h1_def x_def e_def)
  obtain m' where m': "prvInsertBlockIntoFreeList (of_nat t) h1 = Some (h1\<lparr>hmem := m'\<rparr>)"
    "hdrs m' a (glue xs z ys)" "linked m' x (frees a (glue xs z ys)) e"
    "sz m' x = 0" "sz m' e = 0" "nx m' e = 0"
    and fr: "\<And>r. r < 2 ^ 32 \<Longrightarrow> \<forall>p \<in> insert x (insert t (set (frees a xs))). r < p \<or> p + 8 \<le> r \<Longrightarrow>
       m' (of_nat r) = hmem h1 (of_nat r)"
    using insert_free_list [OF pend t_def h1] by blast
  have z: "z < 2 ^ 31" using inv by (rule block_size_lt)
  have tH: "t \<in> headers x a ?bs e" by (simp add: headers_def t_def)
  have tt: "sep t t" using layout_sep [OF lay tH tH] .
  have p0: "block_ptr h xs \<noteq> 0"
    using heap_inv_facts(2) [OF inv] u32_of_nat_0 [of "t + 8"] by (simp add: block_ptr_def t_def a_def)
  have st: "sz (hmem h) t = z + 2 ^ 31" "nx (hmem h) t = 0" using hd by (auto simp: t_def)
  define h' where "h' = h1\<lparr>hmem := m', xNumberOfSuccessfulFrees := xNumberOfSuccessfulFrees h + 1\<rparr>"
  have res: "vPortFree (block_ptr h xs) h = Some h'"
    using vPortFree_unfold [OF p0 t_def [unfolded a_def] z st tt bit] m'(1)
    by (simp add: h1_def h'_def)
  show thesis
  proof (rule that [OF res])
    have ft: "free_total xs + z + free_total ys < 2 ^ 31"
      using free_total_le [of xs] free_total_le [of ys] lay by (simp add: layout_def)
    then have "unat (xFreeBytesRemaining h') = free_total (glue xs z ys)"
      using fb z by (simp add: h'_def h1_def free_total_glue unat_add_u32)
    moreover have "xFreeBytesRemaining h \<le> xFreeBytesRemaining h'"
      using ft fb z by (simp add: h'_def h1_def word_le_nat_alt unat_add_u32)
    ultimately show "heap_inv h' (glue xs z ys)"
      using m'(2-) layout_glue [OF lay] blocks_ok_glue [OF ok] bit me
      by (simp add: heap_inv_def h'_def h1_def x_def e_def a_def heap_start_def)
    fix r assume r: "in_used (heap_start h) (xs @ (z, Free) # ys) r"
    have r': "in_used a ?bs r" using r by (auto simp: a_def)
    note ap = in_used_headers [OF lay r']
    have "m' (of_nat r) = hmem h1 (of_nat r)"
      using ap frees_headers [of _ a xs x e] tH by (intro fr) (auto simp: headers_def)
    moreover have "hmem h1 (of_nat r) = hmem h (of_nat r)"
      using ap [OF tH] tt by (simp add: h1_def ws_other sep_def)
    ultimately show "hmem h' (of_nat r) = hmem h (of_nat r)" by (simp add: h'_def)
  qed (simp_all add: h'_def h1_def)
qed
end
