(* ===== verification/Heap4_Malloc.thy ===== *)
theory Heap4_Malloc
  imports Heap4_Free
begin

text \<open>
  \<open>pvPortMalloc\<close> against its specification: the request is rounded up to \<open>adj\<close>, the first free
  block of the list that is large enough (\<open>first_fit\<close>) is carved, and the call fails exactly
  when there is none.  \<open>prvHeapInit\<close> establishes the invariant.
\<close>

subsection \<open>The size computation\<close>

definition adj :: "nat \<Rightarrow> nat" where
  "adj n = (if n = 0 then 0 else 8 * ((n + 15) div 8))"

lemma adj_bounds:
  "8 dvd adj n" "0 < n \<Longrightarrow> n + 8 \<le> adj n" "adj n < n + 16" "0 < n \<Longrightarrow> 16 \<le> adj n"
  unfolding adj_def by auto

lemma and_7_mod: "(w :: u32) AND 7 = w mod 8"
  using take_bit_eq_mask [of 3 w] take_bit_eq_mod [of 3 w] by (simp add: mask_eq_exp_minus_1)

lemma unat_and_7: "unat ((w :: u32) AND 7) = unat w mod 8"
  unfolding and_7_mod by (simp add: unat_mod)

lemma aligned_iff: "(w :: u32) AND portBYTE_ALIGNMENT_MASK = 0 \<longleftrightarrow> 8 dvd unat w"
  unfolding portBYTE_ALIGNMENT_MASK_def u32_eq_iff unat_and_7 by (simp add: dvd_eq_mod_eq_0)

lemma allocated_bit_clear_iff: "(w :: u32) AND push_bit 31 1 = 0 \<longleftrightarrow> unat w < 2 ^ 31"
proof
  assume c: "w AND push_bit 31 1 = 0"
  show "unat w < 2 ^ 31"
  proof (rule ccontr)
    assume "\<not> unat w < 2 ^ 31"
    then have z: "unat w = (unat w - 2 ^ 31) + 2 ^ 31" "unat w - 2 ^ 31 < 2 ^ 31"
      by (simp_all add: less_diff_conv2)
    have "w = of_nat (unat w)" by simp
    with z(1) have "w = of_nat ((unat w - 2 ^ 31) + 2 ^ 31)" by metis
    then show False using u32_allocated_bit(3) [OF z(2)] c by metis
  qed
next
  assume "unat w < 2 ^ 31"
  from u32_allocated_bit(1) [OF this] show "w AND push_bit 31 1 = 0" by simp
qed

lemma adj_aligned: "0 < n \<Longrightarrow> (n + 8) mod 8 = 0 \<Longrightarrow> adj n = n + 8"
  unfolding adj_def by presburger

lemma adj_unaligned:
  assumes "0 < n" "(n + 8) mod 8 \<noteq> 0"
  shows "adj n = n + 8 + (8 - (n + 8) mod 8)"
proof -
  define k r where "k = (n + 8) div 8" and "r = (n + 8) mod 8"
  have n: "n + 8 = 8 * k + r" "r < 8" "0 < r"
    using assms(2) mult_div_mod_eq [of 8 "n + 8"] unfolding k_def r_def by auto
  have "n + 15 = 8 * (k + 1) + (r - 1)" using n by arith
  then have "(n + 15) div 8 = k + 1" using n(2) by (intro div_nat_eqI) auto
  then show ?thesis
    using assms(1) n unfolding adj_def r_def [symmetric] by simp
qed

lemma adjust_size_adj:
  assumes "unat w < 2 ^ 31"
  shows "adjust_size w = Some (of_nat (adj (unat w)))"
proof (cases "w = 0")
  case False
  define n where "n = unat w"
  have n: "0 < n" "n < 2 ^ 31" using False assms by (simp_all add: n_def unat_gt_0)
  have w8: "unat (w + 8) = n + 8" using n by (simp add: unat_add_u32 n_def)
  have g: "w > 0" "w + xHeapStructSize > w"
    using n w8 by (simp_all add: word_less_nat_alt n_def)
  have r: "unat ((w + 8) AND portBYTE_ALIGNMENT_MASK) = (n + 8) mod 8"
    by (simp add: portBYTE_ALIGNMENT_MASK_def unat_and_7 w8)
  show ?thesis
  proof (cases "(n + 8) mod 8 = 0")
    case True
    then have "(w + 8) AND portBYTE_ALIGNMENT_MASK = 0" using r by (simp add: u32_eq_iff)
    moreover have "adj n = n + 8" using True n(1) adj_aligned by simp
    ultimately show ?thesis
      using g w8 by (simp add: adjust_size_def flip: n_def) (simp add: u32_eq_iff n_def)
  next
    case False
    define d where "d = 8 - (n + 8) mod 8"
    have rn: "(w + 8) AND portBYTE_ALIGNMENT_MASK \<noteq> 0" using False r by (auto simp: u32_eq_iff)
    have "(n + 8) mod 8 < 8" by simp
    then have ud: "unat (portBYTE_ALIGNMENT - ((w + 8) AND portBYTE_ALIGNMENT_MASK)) = d"
      using r by (subst unat_sub_u32) (simp_all add: portBYTE_ALIGNMENT_def d_def)
    define w' where "w' = (w + 8) + (portBYTE_ALIGNMENT - ((w + 8) AND portBYTE_ALIGNMENT_MASK))"
    have d: "0 < d" "d \<le> 8" by (simp_all add: d_def)
    have uw': "unat w' = n + 8 + d"
      unfolding w'_def using unat_add_u32 [of "w + 8", unfolded w8, of "portBYTE_ALIGNMENT - ((w + 8) AND portBYTE_ALIGNMENT_MASK)"]
      using ud n d by simp
    have a: "adj n = n + 8 + d" unfolding d_def using n(1) False by (rule adj_unaligned)
    then have "w' AND portBYTE_ALIGNMENT_MASK = 0"
      using adj_bounds(1) [of n] uw' by (simp only: aligned_iff)
    moreover have "w' > w + 8" using uw' w8 d by (simp add: word_less_nat_alt)
    moreover have "w' = of_nat (adj n)"
      using uw' unat_of_nat_u32 [of "adj n"] a n d unfolding u32_eq_iff by simp
    ultimately show ?thesis
      using g rn by (simp add: adjust_size_def Let_def configASSERT_def flip: n_def w'_def)
  qed
qed (simp add: adjust_size_def adj_def)

subsection \<open>First fit\<close>

fun first_fit :: "nat \<Rightarrow> blk list \<Rightarrow> (blk list \<times> nat \<times> blk list) option" where
  "first_fit w [] = None"
| "first_fit w ((z, k) # bs) =
     (if k = Free \<and> w \<le> z then Some ([], z, bs)
      else map_option (\<lambda>(xs, z', ys). ((z, k) # xs, z', ys)) (first_fit w bs))"

definition carve :: "nat \<Rightarrow> blk list \<Rightarrow> nat \<Rightarrow> blk list \<Rightarrow> blk list" where
  "carve w xs z ys =
     (if z - w > 16 then xs @ (w, Used) # (z - w, Free) # ys else xs @ (z, Used) # ys)"

lemma first_fit_Some:
  "first_fit w bs = Some (xs, z, ys) \<Longrightarrow>
     bs = xs @ (z, Free) # ys \<and> w \<le> z \<and> (\<forall>b \<in> set xs. snd b = Free \<longrightarrow> fst b < w)"
  by (induction w bs arbitrary: xs rule: first_fit.induct) (fastforce split: if_splits)+

lemma first_fit_None:
  "first_fit w bs = None \<longleftrightarrow> (\<forall>b \<in> set bs. snd b = Free \<longrightarrow> fst b < w)"
  by (induction w bs rule: first_fit.induct) auto

lemma frees_small:
  "hdrs m a xs \<Longrightarrow> \<forall>b \<in> set xs. snd b = Free \<longrightarrow> fst b < w \<Longrightarrow> p \<in> set (frees a xs) \<Longrightarrow> sz m p < w"
  by (induction a xs rule: frees.induct) (auto split: if_splits)

lemma block_le_free_total: "b \<in> set bs \<Longrightarrow> snd b = Free \<Longrightarrow> fst b \<le> free_total bs"
  by (induction bs) auto

lemma find_block_first_fit:
  assumes lay: "layout x a bs e" and hd: "hdrs m a bs" and lk: "linked m x (frees a bs) e"
    and e: "nx m e = 0" "sz m e = 0" and w: "w < 2 ^ 32"
  shows "find_block m (of_nat w) (of_nat x) (of_nat (nx m x)) =
     Some (case first_fit w bs of
       None \<Rightarrow> (of_nat (last (x # frees a bs)), of_nat e)
     | Some (xs, z, ys) \<Rightarrow> (of_nat (last (x # frees a xs)), of_nat (a + total_size xs)))"
proof (cases "first_fit w bs")
  case None
  have big: "\<forall>b \<in> set bs. 16 \<le> fst b" "0 < a" "0 < e" using lay by (auto simp: layout_def)
  have "\<forall>p \<in> set (frees a bs). sz m p < w \<and> p \<noteq> 0"
    using frees_small [OF hd] None frees_bounds [OF big(1), of _ a] big(2) by (fastforce simp: first_fit_None)
  then show ?thesis
    using find_block_linked [OF lk] e big(3) w None by simp
next
  case (Some r)
  obtain xs z ys where r: "r = (xs, z, ys)" by (cases r)
  note f = first_fit_Some [OF Some [unfolded r]]
  have big: "\<forall>b \<in> set xs. 16 \<le> fst b" "0 < a" using lay f by (auto simp: layout_def)
  have "linked m x (frees a xs) (a + total_size xs)" "w \<le> sz m (a + total_size xs)"
    using lk f hd by (auto simp: linked_append)
  moreover have "\<forall>p \<in> set (frees a xs). sz m p < w \<and> p \<noteq> 0"
    using frees_small [of m a xs w] f hd frees_bounds [OF big(1), of _ a] big(2) by fastforce
  ultimately show ?thesis
    using find_block_linked [of m x "frees a xs" "a + total_size xs" w] big(2) w Some r by simp
qed

subsection \<open>Taking a block off the list\<close>

text \<open>A heap in which the block of size \<open>z\<close> after \<open>xs\<close> is neither on the free list nor marked.\<close>

definition detached :: "mem \<Rightarrow> nat \<Rightarrow> nat \<Rightarrow> blk list \<Rightarrow> nat \<Rightarrow> blk list \<Rightarrow> nat \<Rightarrow> bool" where
  "detached m x a xs z ys e \<longleftrightarrow> layout x a (xs @ (z, Limbo) # ys) e \<and> hdrs m a xs \<and>
     hdrs m (a + total_size xs + z) ys \<and> linked m x (frees a xs @ frees (a + total_size xs + z) ys) e \<and>
     sz m x = 0 \<and> sz m e = 0 \<and> nx m e = 0"

lemma pending_detached:
  "pending m x a xs z ys e \<longleftrightarrow> detached m x a xs z ys e \<and> sz m (a + total_size xs) = z"
  by (auto simp: pending_def detached_def)

lemma detached_write:
  assumes "detached m x a xs z ys e" "t = a + total_size xs"
    and "\<And>q. sep t q \<Longrightarrow> q \<noteq> t \<Longrightarrow> sz m' q = sz m q \<and> nx m' q = nx m q"
  shows "detached m' x a xs z ys e"
  using assms limbo_write [of x a xs z Limbo ys e t m m'] unfolding detached_def by simp

lemma detached_sep: "detached m x a xs z ys e \<Longrightarrow> t = a + total_size xs \<Longrightarrow> sep t t"
  using layout_sep [of x a "xs @ (z, Limbo) # ys" e t t] by (simp add: detached_def headers_def)

lemma unlink_detached:
  assumes lay: "layout x a (xs @ (z, Free) # ys) e" and hd: "hdrs m a (xs @ (z, Free) # ys)"
    and lk: "linked m x (frees a (xs @ (z, Free) # ys)) e"
    and z0: "sz m x = 0" "sz m e = 0" "nx m e = 0"
    and t: "t = a + total_size xs" and p: "p = last (x # frees a xs)"
  defines "m1 \<equiv> wn p (nx m t) m"
  shows "detached m1 x a xs z ys e" "sz m1 t = z" "nx m p = t"
proof -
  let ?H = "headers x a (xs @ (z, Free) # ys) e"
  have big: "\<forall>b \<in> set xs. 16 \<le> fst b" "\<forall>b \<in> set ys. 16 \<le> fst b" "16 \<le> z"
    and lay': "layout x a (xs @ (z, Limbo) # ys) e" and hx: "hdrs m a xs" "hdrs m (t + z) ys" "sz m t = z"
    and lx: "linked m x (frees a xs) t" and ly: "linked m t (frees (t + z) ys) e"
    using lay hd lk t by (auto simp: layout_def linked_append)
  have out: "x \<notin> set (addrs a xs)" "x \<notin> set (addrs (t + z) ys)" "e \<notin> insert x (set (addrs a xs))"
    using lay addrs_bounds [OF big(1), of _ a] addrs_bounds [OF big(2), of _ "t + z"] t
    unfolding layout_def by fastforce+
  have dis: "set (addrs a xs) \<inter> set (addrs (t + z) ys) = {}"
    using addrs_bounds [OF big(1), of _ a] addrs_bounds [OF big(2), of _ "t + z"] t by fastforce
  have px: "p = x \<or> p \<in> set (frees a xs)" using p by auto
  then have pA: "p \<in> insert x (set (addrs a xs))" using frees_subset by blast
  then have py: "p \<notin> set (addrs (t + z) ys)" "p \<noteq> e" using out dis by auto
  have sub: "insert x (set (addrs a xs) \<union> set (addrs (t + z) ys)) \<subseteq> ?H" "e \<in> ?H" "t \<in> ?H"
    using t by (auto simp: headers_def)
  have pH: "p \<in> ?H" using pA sub by blast
  note sp = layout_sep [OF lay pH]
  have S: "\<And>q. q \<in> ?H \<Longrightarrow> sz m1 q = sz m q" and N: "\<And>q. q \<in> ?H \<Longrightarrow> nx m1 q = (if q = p then nx m t else nx m q)"
    using sp by (simp_all add: m1_def mem_simps)
  show "sz m1 t = z" using S [OF sub(3)] hx(3) by simp
  show "nx m p = t" using linked_last [OF lx] p by simp
  have "hdrs m1 a xs"
    using hx(1) by (rule hdrs_cong) (use S N sub px out big in auto)
  moreover have "hdrs m1 (t + z) ys"
    using hx(2) by (rule hdrs_cong) (use S N sub py big in \<open>auto dest: subsetD\<close>)
  moreover have "linked m1 x (frees a xs @ frees (t + z) ys) e"
  proof -
    have n: "nx m1 p = hd (frees (t + z) ys @ [e])"
      using N [OF pH] ly by (cases "frees (t + z) ys") auto
    have "distinct (x # frees a xs)"
      using frees_sorted [OF big(1)] frees_subset out(1) by (auto simp: strict_sorted_iff)
    moreover have "set (x # frees a xs) \<subseteq> ?H" using sub frees_subset [of a xs] by auto
    ultimately have "linked m1 x (frees a xs) (nx m1 p)"
      using N p by (intro linked_retarget [OF lx]) (auto simp del: last.simps)
    moreover have "linked m1 p (frees (t + z) ys) e"
    proof (rule linked_rehead [OF ly n], rule ballI)
      fix q assume "q \<in> set (frees (t + z) ys)"
      then have "q \<in> set (addrs (t + z) ys)" using frees_subset by blast
      then show "nx m1 q = nx m q" using N sub py(1) by auto
    qed
    ultimately show ?thesis using n p by (simp add: linked_append)
  qed
  ultimately show "detached m1 x a xs z ys e"
    using lay' z0 S N sub(1,2) py(2) t unfolding detached_def by auto
qed

lemma split_pending:
  assumes det: "detached m x a xs z ys e" and t: "t = a + total_size xs" and w: "16 \<le> w" "w + 16 \<le> z"
  shows "pending (ws t w (ws (t + w) (z - w) m)) x a (xs @ [(w, Limbo)]) (z - w) ys e"
    and "sz (ws t w (ws (t + w) (z - w) m)) t = w"
proof -
  define m1 where "m1 = ws (t + w) (z - w) m"
  have lt: "z < 2 ^ 32" and lay: "layout x a (xs @ (w, Limbo) # (z - w, Limbo) # ys) e"
    using det w by (auto simp: detached_def layout_def)
  have d0: "detached m x a (xs @ [(w, Limbo)]) (z - w) ys e"
    using det lay w t by (auto simp: detached_def add.assoc)
  have u: "t + w = a + total_size (xs @ [(w, Limbo)])" using t by simp
  have d1: "detached m1 x a (xs @ [(w, Limbo)]) (z - w) ys e"
    using d0 u by (rule detached_write) (use lt in \<open>simp add: m1_def mem_simps\<close>)
  have s1: "sz m1 (t + w) = z - w"
    using detached_sep [OF d0 u] lt by (simp add: m1_def mem_simps)
  have d1': "detached m1 x a xs w ((z - w, Limbo) # ys) e"
    using d1 lay w t by (auto simp: detached_def add.assoc)
  have d2: "detached (ws t w m1) x a xs w ((z - w, Limbo) # ys) e"
    using d1' t by (rule detached_write) (use lt w in \<open>simp add: mem_simps\<close>)
  have st: "sep t (t + w)"
    using layout_sep [OF lay, of t "t + w"] t by (simp add: headers_def)
  then have "sz (ws t w m1) (t + w) = z - w"
    using s1 lt w by (simp add: mem_simps)
  moreover have "detached (ws t w m1) x a (xs @ [(w, Limbo)]) (z - w) ys e"
    using d2 w t by (auto simp: detached_def add.assoc)
  ultimately show "pending (ws t w (ws (t + w) (z - w) m)) x a (xs @ [(w, Limbo)]) (z - w) ys e"
    unfolding pending_detached m1_def u [symmetric] by simp
  show "sz (ws t w (ws (t + w) (z - w) m)) t = w"
    using detached_sep [OF det t] lt w by (simp add: mem_simps)
qed

lemma mark_used:
  assumes det: "detached m x a xs z ys e" and t: "t = a + total_size xs" and s: "sz m t = z"
  defines "m' \<equiv> wn t 0 (ws t (z + 2 ^ 31) m)"
  shows "layout x a (xs @ (z, Used) # ys) e" "hdrs m' a (xs @ (z, Used) # ys)"
    "linked m' x (frees a (xs @ (z, Used) # ys)) e" "sz m' x = 0" "sz m' e = 0" "nx m' e = 0"
proof -
  have lay: "layout x a (xs @ (z, Limbo) # ys) e" and z: "z < 2 ^ 31"
    using det by (auto simp: detached_def layout_def)
  show "layout x a (xs @ (z, Used) # ys) e" using lay by (auto simp: layout_def)
  have "detached m' x a xs z ys e"
    using det t by (rule detached_write) (use z in \<open>simp add: m'_def mem_simps\<close>)
  moreover have "sz m' t = z + 2 ^ 31" "nx m' t = 0"
    using detached_sep [OF det t] z by (simp_all add: m'_def mem_simps)
  ultimately show "hdrs m' a (xs @ (z, Used) # ys)" "linked m' x (frees a (xs @ (z, Used) # ys)) e"
    "sz m' x = 0" "sz m' e = 0" "nx m' e = 0"
    using t by (simp_all add: detached_def)
qed

lemma header_bytes:
  assumes "t + 8 < 2 ^ 32" "\<And>r. t \<le> r \<Longrightarrow> r < t + 8 \<Longrightarrow> m' (of_nat r) = m (of_nat r)"
  shows "sz m' t = sz m t" "nx m' t = nx m t"
proof -
  have b: "\<And>i. i < 8 \<Longrightarrow> m' (of_nat t + of_nat i) = m (of_nat t + of_nat i)"
    using assms(2) [of "t + _"] by simp
  show "sz m' t = sz m t" "nx m' t = nx m t"
    using b [of 0] b [of 1] b [of 2] b [of 3] b [of 4] b [of 5] b [of 6] b [of 7]
    by (simp_all add: sz_def nx_def header_defs load32_def add.assoc)
qed

definition carve_head :: "nat \<Rightarrow> nat \<Rightarrow> nat" where
  "carve_head w z = (if z - w > 16 then w else z)"

definition carve_rest :: "nat \<Rightarrow> nat \<Rightarrow> blk list \<Rightarrow> blk list" where
  "carve_rest w z ys = (if z - w > 16 then (z - w, Free) # ys else ys)"

lemma carve_alt: "carve w xs z ys = xs @ (carve_head w z, Used) # carve_rest w z ys"
  by (simp add: carve_def carve_head_def carve_rest_def)

lemma split_block_whole:
  fixes h :: heap4
  assumes "sz (hmem h) t = z" "w \<le> z" "z < 2 ^ 32" "\<not> z - w > 16"
  shows "split_block (of_nat w) (of_nat t) h = Some h"
proof -
  have "\<not> (of_nat (z - w) :: u32) > heapMINIMUM_BLOCK_SIZE"
    using assms(3,4) u32_of_nat_less [of 16 "z - w"] by simp
  then show ?thesis
    unfolding split_block_def size_of_nat assms(1) u32_of_nat_sub [OF assms(2)] by simp
qed

lemma split_block_insert:
  fixes h :: heap4
  assumes s: "sz (hmem h) t = z" and w: "w \<le> z" "z < 2 ^ 32" "z - w > 16"
    and al: "8 dvd w" "8 dvd t" "t + w < 2 ^ 32"
  shows "split_block (of_nat w) (of_nat t) h =
     prvInsertBlockIntoFreeList (of_nat (t + w)) (h\<lparr>hmem := ws t w (ws (t + w) (z - w) (hmem h))\<rparr>)"
proof -
  have "8 dvd unat (of_nat (t + w) :: u32)"
    using al unat_of_nat_u32 [of "t + w"] by (simp del: of_nat_add)
  then have "(of_nat (t + w) :: u32) AND portBYTE_ALIGNMENT_MASK = 0"
    unfolding aligned_iff .
  moreover have "(of_nat (z - w) :: u32) > heapMINIMUM_BLOCK_SIZE"
    using w u32_of_nat_less [of 16 "z - w"] by simp
  ultimately show ?thesis
    unfolding split_block_def size_of_nat s u32_of_nat_sub [OF w(1)] ws_def
    by (simp add: configASSERT_def Let_def)
qed

lemma split_layout:
  assumes "layout x a (xs @ (z, Limbo) # ys) e" "t = a + total_size xs" "16 \<le> w" "w + 16 \<le> z"
  shows "layout x a (xs @ (w, Limbo) # (z - w, Limbo) # ys) e" "z < 2 ^ 32" "t + w + 8 < 2 ^ 32"
    "t + 8 \<le> x \<or> x + 8 \<le> t" "t + 8 \<le> t + w"
    "\<And>q. q \<in> set (frees a xs) \<Longrightarrow> q + 8 \<le> t"
proof -
  have l: "e = t + z + total_size ys" "e + 8 \<le> 2 ^ 31" "x + 8 \<le> a \<or> e + 8 \<le> x" "\<forall>b \<in> set xs. 16 \<le> fst b"
    using assms(1,2) by (auto simp: layout_def)
  show "layout x a (xs @ (w, Limbo) # (z - w, Limbo) # ys) e"
    using assms(1,3,4) by (auto simp: layout_def)
  show "z < 2 ^ 32" "t + w + 8 < 2 ^ 32" "t + 8 \<le> t + w" "t + 8 \<le> x \<or> x + 8 \<le> t"
    using l(1-3) assms(2-4) by auto
  show "q + 8 \<le> t" if "q \<in> set (frees a xs)" for q
    using frees_bounds [OF l(4) that] assms(2) by auto
qed

lemma split_block_detached:
  fixes h :: heap4
  assumes det: "detached (hmem h) x a xs z ys e" and t: "t = a + total_size xs" and s: "sz (hmem h) t = z"
    and w: "16 \<le> w" "w \<le> z" and al: "8 dvd w" "8 dvd t" and big: "z - w > 16" and g: "\<not> glue_right ys"
    and h: "xStart h = of_nat x" "pxEnd h = of_nat e"
  obtains m' where "split_block (of_nat w) (of_nat t) h = Some (h\<lparr>hmem := m'\<rparr>)"
    "detached m' x a xs w ((z - w, Free) # ys) e" "sz m' t = w"
    "\<And>r. in_used a (xs @ (z, Limbo) # ys) r \<Longrightarrow> m' (of_nat r) = hmem h (of_nat r)"
proof -
  have lay: "layout x a (xs @ (z, Limbo) # ys) e" using det by (simp add: detached_def)
  have w16: "w + 16 \<le> z" using big by simp
  note L = split_layout [OF lay t w(1) w16]
  define m2 where "m2 = ws t w (ws (t + w) (z - w) (hmem h))"
  note sp = split_pending [OF det t w(1) w16, folded m2_def]
  have u: "t + w = a + total_size (xs @ [(w, Limbo)])" using t by simp
  let ?h2 = "h\<lparr>hmem := m2\<rparr>"
  have gl: "glue (xs @ [(w, Limbo)]) (z - w) ys = (xs @ [(w, Limbo)]) @ (z - w, Free) # ys"
    using g by (simp add: glue_def glue_left_def)
  have pend: "pending (hmem ?h2) x a (xs @ [(w, Limbo)]) (z - w) ys e" using sp(1) by simp
  have h2: "xStart ?h2 = of_nat x" "pxEnd ?h2 = of_nat e" using h by simp_all
  obtain m' where m': "prvInsertBlockIntoFreeList (of_nat (t + w)) ?h2 = Some (?h2\<lparr>hmem := m'\<rparr>)"
    "hdrs m' a ((xs @ [(w, Limbo)]) @ (z - w, Free) # ys)"
    "linked m' x (frees a ((xs @ [(w, Limbo)]) @ (z - w, Free) # ys)) e"
    "sz m' x = 0" "sz m' e = 0" "nx m' e = 0"
    and fr: "\<And>r. r < 2 ^ 32 \<Longrightarrow>
      \<forall>p \<in> insert x (insert (t + w) (set (frees a (xs @ [(w, Limbo)])))). r < p \<or> p + 8 \<le> r \<Longrightarrow>
      m' (of_nat r) = hmem ?h2 (of_nat r)"
    by (rule insert_free_list [OF pend u h2, unfolded gl]) blast
  have fr': "m' (of_nat r) = m2 (of_nat r)" if "r < 2 ^ 32"
      "\<And>p. p \<in> insert x (insert (t + w) (set (frees a xs))) \<Longrightarrow> r < p \<or> p + 8 \<le> r" for r
    using fr [OF that(1)] that(2) by simp
  show ?thesis
  proof (rule that)
    show "split_block (of_nat w) (of_nat t) h = Some (h\<lparr>hmem := m'\<rparr>)"
      using split_block_insert [OF s w(2) L(2) big al] m'(1) L(3) by (simp add: m2_def)
    show "detached m' x a xs w ((z - w, Free) # ys) e"
      unfolding detached_def using m'(2-) L(1) t by (auto simp: layout_def add.assoc)
    have "sz m' t = sz m2 t"
    proof (rule header_bytes(1))
      show "t + 8 < 2 ^ 32" using L(3) by simp
      show "m' (of_nat r) = m2 (of_nat r)" if "t \<le> r" "r < t + 8" for r
        using that L(3-6) by (intro fr') fastforce+
    qed
    then show "sz m' t = w" using sp(2) by simp
    fix r assume r: "in_used a (xs @ (z, Limbo) # ys) r"
    then have r': "in_used a (xs @ (w, Limbo) # (z - w, Limbo) # ys) r" using big by (auto simp: add.assoc)
    note ap = in_used_headers [OF L(1) r']
    have H: "insert x (insert (t + w) (set (frees a xs))) \<subseteq> headers x a (xs @ (w, Limbo) # (z - w, Limbo) # ys) e"
      "t \<in> headers x a (xs @ (w, Limbo) # (z - w, Limbo) # ys) e"
      using t frees_subset [of a xs] by (auto simp: headers_def)
    have "m' (of_nat r) = m2 (of_nat r)" using ap H(1) by (intro fr') blast+
    also have "m2 (of_nat r) = hmem h (of_nat r)"
      using ap [OF H(2)] ap [of "t + w"] H L(3) by (simp add: m2_def ws_other)
    finally show "m' (of_nat r) = hmem h (of_nat r)" .
  qed
qed

lemma split_block_carve:
  fixes h :: heap4
  assumes det: "detached (hmem h) x a xs z ys e" and t: "t = a + total_size xs" and s: "sz (hmem h) t = z"
    and w: "16 \<le> w" "w \<le> z" and al: "8 dvd w" "8 dvd t" and g: "\<not> glue_right ys"
    and h: "xStart h = of_nat x" "pxEnd h = of_nat e"
  obtains m' where "split_block (of_nat w) (of_nat t) h = Some (h\<lparr>hmem := m'\<rparr>)"
    "detached m' x a xs (carve_head w z) (carve_rest w z ys) e" "sz m' t = carve_head w z"
    "\<And>r. in_used a (xs @ (z, Limbo) # ys) r \<Longrightarrow> m' (of_nat r) = hmem h (of_nat r)"
proof (cases "z - w > 16")
  case True
  obtain m' where "split_block (of_nat w) (of_nat t) h = Some (h\<lparr>hmem := m'\<rparr>)"
    "detached m' x a xs w ((z - w, Free) # ys) e" "sz m' t = w"
    "\<And>r. in_used a (xs @ (z, Limbo) # ys) r \<Longrightarrow> m' (of_nat r) = hmem h (of_nat r)"
    using split_block_detached [OF det t s w al True g h] by blast
  then show ?thesis
    using that [of m'] True by (simp add: carve_head_def carve_rest_def)
next
  case False
  have "z < 2 ^ 32" using det by (auto simp: detached_def layout_def)
  then have "split_block (of_nat w) (of_nat t) h = Some (h\<lparr>hmem := hmem h\<rparr>)"
    using split_block_whole [OF s w(2) _ False] by simp
  then show ?thesis
    using that [of "hmem h"] det s False by (simp add: carve_head_def carve_rest_def)
qed

lemma carve_free_total:
  "w \<le> z \<Longrightarrow> free_total (carve w xs z ys) + carve_head w z = free_total (xs @ (z, Free) # ys)"
  by (simp add: carve_def carve_head_def)

lemma blocks_ok_carve:
  assumes ok: "blocks_ok (xs @ (z, Free) # ys)" and w: "8 dvd w" "w \<le> z"
  shows "blocks_ok (carve w xs z ys)" "\<not> glue_right ys"
proof -
  have n: "no_adjacent xs" "no_adjacent ys" and g: "\<not> glue_right ys"
    and d: "\<forall>b \<in> set xs. 8 dvd fst b \<and> snd b \<noteq> Limbo" "\<forall>b \<in> set ys. 8 dvd fst b \<and> snd b \<noteq> Limbo" "8 dvd z"
    using ok by (auto simp: blocks_ok_def no_adjacent_append no_adjacent_Cons)
  show "\<not> glue_right ys" by fact
  have "\<forall>b \<in> set (carve w xs z ys). 8 dvd fst b \<and> snd b \<noteq> Limbo"
    using d w by (auto simp: carve_def)
  moreover have "no_adjacent (carve w xs z ys)"
    using n g by (simp add: carve_def no_adjacent_append no_adjacent_Cons) (simp add: glue_right_def)
  ultimately show "blocks_ok (carve w xs z ys)" by (simp add: blocks_ok_def)
qed

text \<open>The bookkeeping after the split, at natural-number addresses.\<close>

lemma take_block_unfold:
  fixes h :: heap4
  assumes p: "nx (hmem h) p = t" and t: "t = heap_start h + total_size xs"
    and sb: "split_block (of_nat w) (of_nat t) (h\<lparr>hmem := wn p (nx (hmem h) t) (hmem h)\<rparr>) = Some (h\<lparr>hmem := m'\<rparr>)"
    and s: "sz m' t = c" "c < 2 ^ 31" and bit: "xBlockAllocatedBit h = push_bit 31 1"
  shows "take_block (of_nat w) (of_nat p) (of_nat t) h = Some (block_ptr h xs,
     h\<lparr>hmem := wn t 0 (ws t (c + 2 ^ 31) m'), xFreeBytesRemaining := xFreeBytesRemaining h - of_nat c,
       xMinimumEverFreeBytesRemaining := min (xFreeBytesRemaining h - of_nat c) (xMinimumEverFreeBytesRemaining h),
       xNumberOfSuccessfulAllocations := xNumberOfSuccessfulAllocations h + 1\<rparr>)"
proof -
  have "block_ptr h xs = of_nat t + xHeapStructSize" using t by (simp add: block_ptr_def)
  moreover have "set_xBlockSize (of_nat t) (of_nat c OR push_bit 31 1) m' = ws t (c + 2 ^ 31) m'"
    unfolding u32_allocated_bit(2) [OF s(2)] ws_def ..
  ultimately show ?thesis
    unfolding take_block_def Let_def next_of_nat p wn_def [symmetric] sb
    using s(1) bit by (simp add: size_of_nat wn_def min_def not_less)
qed

definition same_heap :: "heap4 \<Rightarrow> heap4 \<Rightarrow> bool" where
  "same_heap h h' \<longleftrightarrow> ucHeap h' = ucHeap h \<and> xStart h' = xStart h \<and> pxEnd h' = pxEnd h"

lemma take_block_carve:
  assumes inv: "heap_inv h (xs @ (z, Free) # ys)" and w: "16 \<le> w" "w \<le> z" "8 dvd w"
    and al: "8 dvd heap_start h"
    and t: "t = heap_start h + total_size xs" and p: "p = last (unat (xStart h) # frees (heap_start h) xs)"
  obtains h' where "take_block (of_nat w) (of_nat p) (of_nat t) h = Some (block_ptr h xs, h')"
    "heap_inv h' (carve w xs z ys)" "same_heap h h'"
    "xNumberOfSuccessfulAllocations h' = xNumberOfSuccessfulAllocations h + 1"
    "xNumberOfSuccessfulFrees h' = xNumberOfSuccessfulFrees h"
    "\<And>r. in_used (heap_start h) (xs @ (z, Free) # ys) r \<Longrightarrow> hmem h' (of_nat r) = hmem h (of_nat r)"
proof -
  define a where "a = heap_start h"
  define x where "x = unat (xStart h)"
  define e where "e = unat (pxEnd h)"
  define c where "c = carve_head w z"
  let ?bs = "xs @ (z, Free) # ys"
  have lay: "layout x a ?bs e" and hd: "hdrs (hmem h) a ?bs" and lk: "linked (hmem h) x (frees a ?bs) e"
    and z0: "sz (hmem h) x = 0" "sz (hmem h) e = 0" "nx (hmem h) e = 0" and ok: "blocks_ok ?bs"
    and fb: "unat (xFreeBytesRemaining h) = free_total ?bs"
    and bit: "xBlockAllocatedBit h = push_bit 31 1"
    using inv unfolding heap_inv_def a_def x_def e_def by simp_all
  have t': "t = a + total_size xs" and p': "p = last (x # frees a xs)" using t p by (simp_all add: a_def x_def)
  note ul = unlink_detached [OF lay hd lk z0 t' p']
  define h1 where "h1 = h\<lparr>hmem := wn p (nx (hmem h) t) (hmem h)\<rparr>"
  note g = blocks_ok_carve [OF ok w(3,2)]
  have "\<forall>b \<in> set xs. 8 dvd fst b" using ok by (auto simp: blocks_ok_def)
  then have "8 dvd total_size xs" by (induction xs) auto
  then have alt: "8 dvd t" using al t by simp
  have h1: "detached (hmem h1) x a xs z ys e" "sz (hmem h1) t = z" "xStart h1 = of_nat x" "pxEnd h1 = of_nat e"
    using ul by (simp_all add: h1_def x_def e_def)
  obtain m' where m': "split_block (of_nat w) (of_nat t) h1 = Some (h1\<lparr>hmem := m'\<rparr>)"
    "detached m' x a xs c (carve_rest w z ys) e" "sz m' t = c"
    and fr: "\<And>r. in_used a (xs @ (z, Limbo) # ys) r \<Longrightarrow> m' (of_nat r) = hmem h1 (of_nat r)"
    using split_block_carve [OF h1(1) t' h1(2) w(1,2) w(3) alt g(2) h1(3,4)] unfolding c_def by blast
  have c: "c \<le> z" "c < 2 ^ 31" using w(2) block_size_lt [OF inv] by (auto simp: c_def carve_head_def)
  define h' where "h' = h\<lparr>hmem := wn t 0 (ws t (c + 2 ^ 31) m'), xFreeBytesRemaining := xFreeBytesRemaining h - of_nat c,
       xMinimumEverFreeBytesRemaining := min (xFreeBytesRemaining h - of_nat c) (xMinimumEverFreeBytesRemaining h),
       xNumberOfSuccessfulAllocations := xNumberOfSuccessfulAllocations h + 1\<rparr>"
  have res: "take_block (of_nat w) (of_nat p) (of_nat t) h = Some (block_ptr h xs, h')"
    using take_block_unfold [OF ul(3) t _ m'(3) c(2) bit] m'(1) unfolding h1_def h'_def by simp
  show thesis
  proof (rule that [OF res])
    have "unat (xFreeBytesRemaining h') = free_total (carve w xs z ys)"
      using fb c carve_free_total [OF w(2), of xs ys]
      by (simp add: h'_def c_def unat_sub_u32 del: free_total_simps)
    then show "heap_inv h' (carve w xs z ys)"
      using mark_used [OF m'(2) t' m'(3)] g(1) bit
      unfolding heap_inv_def carve_alt c_def [symmetric]
      by (simp add: h'_def x_def e_def a_def heap_start_def)
    fix r assume r: "in_used (heap_start h) ?bs r"
    note ap = in_used_headers [OF lay r [folded a_def]]
    have H: "t \<in> headers x a ?bs e" "p \<in> headers x a ?bs e"
      using t' p' frees_subset [of a xs] last_in_set [of "frees a xs"] by (auto simp: headers_def)
    have "t + 8 < 2 ^ 32" "p + 8 < 2 ^ 32"
      using layout_sep [OF lay H] by (auto simp: sep_def)
    moreover have "m' (of_nat r) = hmem h1 (of_nat r)" using r by (intro fr) (simp add: a_def)
    ultimately show "hmem h' (of_nat r) = hmem h (of_nat r)"
      using ap [OF H(1)] ap [OF H(2)] by (simp add: h'_def h1_def wn_other ws_other)
  qed (simp_all add: h'_def same_heap_def)
qed

subsection \<open>The whole call\<close>

lemma unat_and_not_7: "unat ((w :: u32) AND NOT 7) = 8 * (unat w div 8)"
proof -
  have z: "(w AND 7) AND (w AND NOT 7) = 0"
    by (intro bit_word_eqI) (auto simp: bit_simps)
  have "(w AND 7) + (w AND NOT 7) = (w AND 7) OR (w AND NOT 7)"
    using disjunctive_add_eq_or [OF z] .
  also have "\<dots> = w"
    by (intro bit_word_eqI) (auto simp only: bit_and_iff bit_or_iff bit_not_iff possible_bit_word)
  finally have "w AND NOT 7 = w - (w AND 7)" by (simp add: algebra_simps)
  then have "unat (w AND NOT 7) = unat w - unat w mod 8"
    using unat_and_7 [of w] unat_sub_u32 [of "w AND 7" w] by simp
  then show ?thesis by (simp add: minus_mod_eq_mult_div)
qed

lemma heap_start_dvd [simp]: "8 dvd heap_start h"
  unfolding heap_start_def unat_and_not_7 by simp

lemma block_ptr_facts:
  assumes inv: "heap_inv h (xs @ b # ys)"
  shows "unat (block_ptr h xs) = heap_start h + total_size xs + 8" "8 dvd unat (block_ptr h xs)"
    "block_ptr h xs \<noteq> 0"
proof -
  have "heap_start h + total_size xs + 8 < 2 ^ 32"
    using heap_inv_facts(2) [OF inv] by (cases b) simp
  then show u: "unat (block_ptr h xs) = heap_start h + total_size xs + 8"
    unfolding block_ptr_def by (rule unat_of_nat_u32)
  have "\<forall>b \<in> set xs. 8 dvd fst b" using inv by (auto simp: heap_inv_def blocks_ok_def)
  then have "8 dvd total_size xs" by (induction xs) auto
  then show "8 dvd unat (block_ptr h xs)" using u by simp
  show "block_ptr h xs \<noteq> 0" using u by auto
qed

lemma pvPortMalloc_fail:
  assumes inv: "heap_inv h bs"
    and no: "2 ^ 31 \<le> unat w \<or> w = 0 \<or> first_fit (adj (unat w)) bs = None"
  shows "pvPortMalloc w h = Some (0, h)"
proof -
  have e: "pxEnd h \<noteq> 0" and bit: "xBlockAllocatedBit h = push_bit 31 1"
    using inv heap_inv_facts [OF inv] by (auto simp: heap_inv_def)
  show ?thesis
  proof (cases "unat w < 2 ^ 31")
    case False
    then show ?thesis
      using e unfolding pvPortMalloc_def Let_def if_not_P [OF e] bit allocated_bit_clear_iff
      by (simp add: configASSERT_def)
  next
    case True
    define n where "n = adj (unat w)"
    have n: "n < 2 ^ 32" using True adj_bounds(3) [of "unat w"] by (simp add: n_def)
    have f: "n = 0 \<or> first_fit n bs = None" using no True by (auto simp: n_def adj_def)
    have "find_block (hmem h) (of_nat n) (xStart h) (pxNextFreeBlock (hmem h) (xStart h)) = Some (prv, pxEnd h)"
      if "first_fit n bs = None" "prv = of_nat (last (unat (xStart h) # frees (heap_start h) bs))" for prv
      using find_block_first_fit [of "unat (xStart h)" "heap_start h" bs "unat (pxEnd h)" "hmem h" n] inv n that
        next_of_nat [of "hmem h" "unat (xStart h)"]
      by (simp add: heap_inv_def)
    then show ?thesis
      using True f adjust_size_adj [OF True, folded n_def] u32_of_nat_0 [OF n]
      unfolding pvPortMalloc_def Let_def if_not_P [OF e] bit allocated_bit_clear_iff
      by (auto simp: configASSERT_def)
  qed
qed

lemma pvPortMalloc_fit:
  assumes inv: "heap_inv h bs" and w: "w \<noteq> 0" "unat w < 2 ^ 31"
    and fit: "first_fit (adj (unat w)) bs = Some (xs, z, ys)"
  obtains h' where "pvPortMalloc w h = Some (block_ptr h xs, h')"
    "heap_inv h' (carve (adj (unat w)) xs z ys)" "same_heap h h'"
    "xNumberOfSuccessfulAllocations h' = xNumberOfSuccessfulAllocations h + 1"
    "xNumberOfSuccessfulFrees h' = xNumberOfSuccessfulFrees h"
    "\<And>r. in_used (heap_start h) bs r \<Longrightarrow> hmem h' (of_nat r) = hmem h (of_nat r)"
proof -
  define n where "n = adj (unat w)"
  note f = first_fit_Some [OF fit, folded n_def]
  have bs: "bs = xs @ (z, Free) # ys" using f by simp
  have n: "16 \<le> n" "8 dvd n" "n < 2 ^ 32" "n \<le> z"
    using w adj_bounds [of "unat w"] f by (simp_all add: n_def unat_gt_0)
  define t where "t = heap_start h + total_size xs"
  define p where "p = last (unat (xStart h) # frees (heap_start h) xs)"
  obtain h' where h': "take_block (of_nat n) (of_nat p) (of_nat t) h = Some (block_ptr h xs, h')"
    "heap_inv h' (carve n xs z ys)" "same_heap h h'"
    "xNumberOfSuccessfulAllocations h' = xNumberOfSuccessfulAllocations h + 1"
    "xNumberOfSuccessfulFrees h' = xNumberOfSuccessfulFrees h"
    "\<And>r. in_used (heap_start h) (xs @ (z, Free) # ys) r \<Longrightarrow> hmem h' (of_nat r) = hmem h (of_nat r)"
    using take_block_carve [OF inv [unfolded bs] n(1,4,2) heap_start_dvd t_def p_def] by blast
  have e: "unat (pxEnd h) = heap_start h + total_size bs" "0 < heap_start h" "heap_start h + total_size bs + 8 \<le> 2 ^ 31"
    using heap_inv_facts [OF inv] by auto
  have bit: "xBlockAllocatedBit h = push_bit 31 1" using inv by (simp add: heap_inv_def)
  have "z \<le> free_total bs" using block_le_free_total [of "(z, Free)" bs] bs by simp
  then have le: "of_nat n \<le> xFreeBytesRemaining h" "(of_nat n :: u32) > 0"
    using inv n by (simp_all add: heap_inv_def word_le_nat_alt word_less_nat_alt)
  have fb: "find_block (hmem h) (of_nat n) (xStart h) (pxNextFreeBlock (hmem h) (xStart h)) = Some (of_nat p, of_nat t)"
    using find_block_first_fit [of "unat (xStart h)" "heap_start h" bs "unat (pxEnd h)" "hmem h" n]
      inv n fit next_of_nat [of "hmem h" "unat (xStart h)"]
    by (simp add: heap_inv_def n_def p_def t_def)
  have tz: "t + z \<le> unat (pxEnd h)" "t + 8 < 2 ^ 32" using e bs n(1,4) by (simp_all add: t_def)
  then have ne: "(of_nat t :: u32) \<noteq> pxEnd h" "pxEnd h \<noteq> 0"
    using e n(1,4) by (auto simp: u32_eq_iff)
  have al: "block_ptr h xs AND portBYTE_ALIGNMENT_MASK = 0"
    unfolding aligned_iff using block_ptr_facts [OF inv [unfolded bs]] by simp
  have "pvPortMalloc w h = Some (block_ptr h xs, h')"
    using ne al le fb h'(1) w(2) adjust_size_adj [OF w(2), folded n_def]
    unfolding pvPortMalloc_def Let_def if_not_P [OF ne(2)] bit allocated_bit_clear_iff
    by (simp add: configASSERT_def)
  then show thesis using that h'(2-) by (simp add: n_def bs)
qed


subsection \<open>Initialisation\<close>

text \<open>
  Where the linker puts \<open>ucHeap\<close> and \<open>xStart\<close>: below \<open>2 ^ 31\<close> (the RAM of the target lies at
  \<open>0x10000000\<close> and \<open>0x20000000\<close>), not at address 0, and not overlapping.
\<close>

definition placed :: "heap4 \<Rightarrow> bool" where
  "placed h \<longleftrightarrow> 0 < unat (ucHeap h) \<and> unat (ucHeap h) + 60000 \<le> 2 ^ 31 \<and> unat (xStart h) + 8 \<le> 2 ^ 31 \<and>
     (unat (xStart h) + 8 \<le> unat (ucHeap h) \<or> unat (ucHeap h) + 60000 \<le> unat (xStart h))"

definition heap_limit :: "heap4 \<Rightarrow> nat" where
  "heap_limit h = 8 * ((unat (ucHeap h) + 59992) div 8)"

lemma placed_bounds:
  assumes "placed h"
  shows "unat (ucHeap h) \<le> heap_start h" "heap_start h < unat (ucHeap h) + 8"
    "heap_limit h \<le> unat (ucHeap h) + 59992" "unat (ucHeap h) + 59984 < heap_limit h"
    "8 dvd heap_limit h" "heap_start h = 8 * ((unat (ucHeap h) + 7) div 8)"
proof -
  define u where "u = unat (ucHeap h)"
  have u: "unat (ucHeap h + 7) = u + 7"
    using assms by (subst unat_add_u32) (auto simp: placed_def u_def)
  show hs: "heap_start h = 8 * ((unat (ucHeap h) + 7) div 8)"
    unfolding heap_start_def unat_and_not_7 u u_def ..
  show "unat (ucHeap h) \<le> heap_start h" "heap_start h < unat (ucHeap h) + 8"
    unfolding hs u_def [symmetric] by presburger+
  show "heap_limit h \<le> unat (ucHeap h) + 59992" "unat (ucHeap h) + 59984 < heap_limit h" "8 dvd heap_limit h"
    unfolding heap_limit_def u_def [symmetric] by presburger+
qed

lemma prvHeapInit_nat:
  assumes "placed h"
  defines "a \<equiv> heap_start h" and "e \<equiv> heap_limit h" and "x \<equiv> unat (xStart h)"
  defines "m \<equiv> wn a e (ws a (e - a) (wn e 0 (ws e 0 (ws x 0 (wn x a (hmem h))))))"
  shows "prvHeapInit h = h\<lparr>hmem := m, pxEnd := of_nat e, xMinimumEverFreeBytesRemaining := of_nat (sz m a),
     xFreeBytesRemaining := of_nat (sz m a), xBlockAllocatedBit := push_bit 31 1\<rparr>"
proof -
  define u where "u = ucHeap h"
  note b = placed_bounds [OF assms(1), folded a_def e_def u_def]
  have pl: "unat u + 60000 \<le> 2 ^ 31" using assms(1) by (simp add: placed_def u_def)
  have A: "(if u AND portBYTE_ALIGNMENT_MASK \<noteq> 0 then (u + (portBYTE_ALIGNMENT - 1)) AND NOT portBYTE_ALIGNMENT_MASK
      else u) = of_nat a"
  proof (cases "8 dvd unat u")
    case True
    then have "a = unat u" using b(6) by presburger
    then show ?thesis using True by (simp add: aligned_iff)
  next
    case False
    then have "u AND portBYTE_ALIGNMENT_MASK \<noteq> 0" by (simp add: aligned_iff)
    then show ?thesis
      by (simp add: a_def heap_start_def u_def portBYTE_ALIGNMENT_def)
        (simp add: portBYTE_ALIGNMENT_MASK_def)
  qed
  have T: "of_nat a + (if u AND portBYTE_ALIGNMENT_MASK \<noteq> 0 then configTOTAL_HEAP_SIZE - (of_nat a - u)
      else configTOTAL_HEAP_SIZE) = u + 60000"
  proof (cases "8 dvd unat u")
    case True
    then have "a = unat u" using b(6) by presburger
    then show ?thesis using True by (simp add: aligned_iff configTOTAL_HEAP_SIZE_def)
  qed (simp add: aligned_iff configTOTAL_HEAP_SIZE_def)
  have E: "(u + 60000 - xHeapStructSize) AND NOT portBYTE_ALIGNMENT_MASK = of_nat e"
  proof -
    have "u + 60000 - xHeapStructSize = u + 59992" by simp
    moreover have "unat (u + 59992) = unat u + 59992"
      using pl by (subst unat_add_u32) simp_all
    ultimately have "unat ((u + 60000 - xHeapStructSize) AND NOT portBYTE_ALIGNMENT_MASK) = e"
      by (simp only: portBYTE_ALIGNMENT_MASK_def unat_and_not_7 e_def heap_limit_def u_def)
    then show ?thesis by auto
  qed
  have S: "(of_nat e :: u32) - of_nat a = of_nat (e - a)"
    using b by (intro u32_of_nat_sub) simp
  have X: "xStart h = of_nat x" by (simp add: x_def)
  show ?thesis
    unfolding prvHeapInit_def Let_def u_def [symmetric] A T E S X m_def
    by (simp add: wn_def ws_def sz_def)
qed

definition initial_blocks :: "heap4 \<Rightarrow> blk list" where
  "initial_blocks h = [(heap_limit h - heap_start h, Free)]"

theorem prvHeapInit_inv:
  assumes pl: "placed h"
  shows "heap_inv (prvHeapInit h) (initial_blocks h)"
proof -
  define a e x where "a = heap_start h" and "e = heap_limit h" and "x = unat (xStart h)"
  define m where "m = wn a e (ws a (e - a) (wn e 0 (ws e 0 (ws x 0 (wn x a (hmem h))))))"
  note b = placed_bounds [OF pl, folded a_def e_def]
  have x: "x + 8 \<le> a \<or> e + 8 \<le> x" "x + 8 \<le> 2 ^ 31" "e + 8 \<le> 2 ^ 31" "0 < a" "a + 16 \<le> e"
    using pl b by (auto simp: placed_def x_def)
  have lay: "layout x a [(e - a, Free)] e" using x by (simp add: layout_def)
  have sp: "sep x x" "sep a a" "sep e e" "sep x a" "sep a x" "sep x e" "sep e x" "sep a e" "sep e a"
    and ne: "x \<noteq> a" "x \<noteq> e" "a \<noteq> e" and lt: "a < 2 ^ 32" "e < 2 ^ 32" "e - a < 2 ^ 32"
    using x by (auto simp: sep_def)
  have ns: "nx m x = a" "nx m a = e" "nx m e = 0" "sz m x = 0" "sz m a = e - a" "sz m e = 0"
    using sp ne lt by (simp_all add: m_def mem_simps)
  have "8 dvd e - a" using b(5) heap_start_dvd [of h] by (simp add: a_def)
  moreover note prvHeapInit_nat [OF pl, folded a_def e_def x_def, folded m_def]
  ultimately show ?thesis
    using lay ns lt by (simp add: heap_inv_def initial_blocks_def heap_start_def blocks_ok_def
        flip: a_def e_def x_def) (simp add: a_def heap_start_def)
qed
end
