(* ===== verification/Heap4_Props.thy ===== *)
theory Heap4_Props
  imports Heap4_Malloc
begin

text \<open>
  The allocator as its clients see it.  The abstract specification is a list of blocks with
  \<open>spec_malloc\<close> (first fit, split) and \<open>spec_free\<close> (release, merge with free neighbours); the
  memory-level operations refine it, loops and assertions included.  From the refinement:
  pointers handed out are aligned, inside the heap and disjoint from every live block; the
  contents of live blocks survive; the application may write its own blocks freely; freeing
  what was just allocated restores the block list.
\<close>

subsection \<open>Abstract specification\<close>

definition spec_malloc :: "nat \<Rightarrow> blk list \<Rightarrow> (blk list \<times> blk list) option" where
  "spec_malloc w bs =
     (if w = 0 \<or> 2 ^ 31 \<le> w then None
      else map_option (\<lambda>(xs, z, ys). (xs, carve (adj w) xs z ys)) (first_fit (adj w) bs))"

text \<open>Release the used block whose payload starts \<open>off\<close> bytes into the heap.\<close>

fun spec_free_from :: "nat \<Rightarrow> nat \<Rightarrow> blk list \<Rightarrow> blk list \<Rightarrow> blk list option" where
  "spec_free_from off pos xs [] = None"
| "spec_free_from off pos xs ((z, k) # ys) =
     (if off = pos + 8 then (if k = Used then Some (glue xs z ys) else None)
      else spec_free_from off (pos + z) (xs @ [(z, k)]) ys)"

definition spec_free :: "nat \<Rightarrow> blk list \<Rightarrow> blk list option" where
  "spec_free off bs = spec_free_from off 0 [] bs"

lemma spec_free_from_split:
  "spec_free_from off pos zs bs = Some bs' \<Longrightarrow>
   \<exists>xs z ys. bs = xs @ (z, Used) # ys \<and> off = pos + total_size xs + 8 \<and> bs' = glue (zs @ xs) z ys"
proof (induction off pos zs bs rule: spec_free_from.induct)
  case (2 off pos xs z k ys)
  show ?case
  proof (cases "off = pos + 8")
    case True
    then show ?thesis using 2(2) by (intro exI [of _ "[]"]) (auto split: if_splits)
  next
    case False
    obtain us z' vs where "ys = us @ (z', Used) # vs" "off = pos + z + total_size us + 8"
      "bs' = glue ((xs @ [(z, k)]) @ us) z' vs"
      using 2(1) [OF False] 2(2) False by auto
    then show ?thesis by (intro exI [of _ "(z, k) # us"]) auto
  qed
qed simp

lemma spec_free_split:
  assumes "spec_free off bs = Some bs'"
  obtains xs z ys where "bs = xs @ (z, Used) # ys" "off = total_size xs + 8" "bs' = glue xs z ys"
  using spec_free_from_split [of off 0 "[]" bs bs'] assms unfolding spec_free_def by auto

lemma spec_free_at:
  "\<forall>b \<in> set xs. 0 < fst b \<Longrightarrow>
   spec_free_from (pos + total_size xs + 8) pos zs (xs @ (z, Used) # ys) = Some (glue (zs @ xs) z ys)"
proof (induction xs arbitrary: pos zs)
  case (Cons x xs)
  then show ?case
    using Cons.IH [of "pos + fst x" "zs @ [x]"] by (cases x) (simp add: add.assoc)
qed simp

definition ptr_at :: "heap4 \<Rightarrow> nat \<Rightarrow> u32" where
  "ptr_at h off = of_nat (heap_start h + off)"

lemma block_ptr_ptr_at: "block_ptr h xs = ptr_at h (total_size xs + 8)"
  by (simp add: block_ptr_def ptr_at_def)

text \<open>No byte of the payload of a block that is used in \<open>bs\<close> differs between \<open>h\<close> and \<open>h'\<close>.\<close>

definition keeps_payload :: "blk list \<Rightarrow> heap4 \<Rightarrow> heap4 \<Rightarrow> bool" where
  "keeps_payload bs h h' \<longleftrightarrow> (\<forall>r. in_used (heap_start h) bs r \<longrightarrow> hmem h' (of_nat r) = hmem h (of_nat r))"

subsection \<open>Refinement\<close>

lemma malloc_spec:
  assumes "heap_inv h bs"
  shows "\<exists>p h'. pvPortMalloc w h = Some (p, h') \<and> same_heap h h' \<and> keeps_payload bs h h' \<and>
     (case spec_malloc (unat w) bs of
        None \<Rightarrow> p = 0 \<and> h' = h
      | Some (xs, bs') \<Rightarrow> p = ptr_at h (total_size xs + 8) \<and> heap_inv h' bs' \<and>
          xNumberOfSuccessfulAllocations h' = xNumberOfSuccessfulAllocations h + 1)"
proof (cases "spec_malloc (unat w) bs")
  case None
  then have "2 ^ 31 \<le> unat w \<or> w = 0 \<or> first_fit (adj (unat w)) bs = None"
    by (auto simp: spec_malloc_def unat_eq_0 split: if_splits)
  from pvPortMalloc_fail [OF assms this] show ?thesis
    using None by (simp add: same_heap_def keeps_payload_def)
next
  case (Some r)
  then have w: "w \<noteq> 0" "unat w < 2 ^ 31"
    by (auto simp: spec_malloc_def split: if_splits)
  from Some obtain xs z ys where f: "first_fit (adj (unat w)) bs = Some (xs, z, ys)"
    and r: "r = (xs, carve (adj (unat w)) xs z ys)"
    by (auto simp: spec_malloc_def split: if_splits)
  show ?thesis
    by (rule pvPortMalloc_fit [OF assms w f]) (simp add: Some r block_ptr_ptr_at keeps_payload_def)
qed

lemma free_spec:
  assumes "heap_inv h bs" "spec_free off bs = Some bs'"
  shows "\<exists>h'. vPortFree (ptr_at h off) h = Some h' \<and> heap_inv h' bs' \<and> same_heap h h' \<and>
     keeps_payload bs' h h' \<and> xNumberOfSuccessfulFrees h' = xNumberOfSuccessfulFrees h + 1 \<and>
     xMinimumEverFreeBytesRemaining h' = xMinimumEverFreeBytesRemaining h"
proof -
  obtain xs z ys where b: "bs = xs @ (z, Used) # ys" "off = total_size xs + 8" "bs' = glue xs z ys"
    using spec_free_split [OF assms(2)] by blast
  show ?thesis
    by (rule vPortFree_used [OF assms(1) [unfolded b(1)]])
      (simp add: b block_ptr_ptr_at keeps_payload_def same_heap_def in_used_glue)
qed

lemma in_used_mid: "in_used a (xs @ (z, Used) # ys) r" if "a + total_size xs + 8 \<le> r" "r < a + total_size xs + z"
  using that by simp

lemma spec_malloc_parts:
  assumes "spec_malloc w bs = Some (xs, bs')"
  obtains z ys where "0 < w" "bs = xs @ (z, Free) # ys" "adj w \<le> z"
    "bs' = xs @ (carve_head (adj w) z, Used) # carve_rest (adj w) z ys" "w + 8 \<le> carve_head (adj w) z"
    "carve_head (adj w) z \<le> z"
proof -
  from assms obtain z ys where f: "first_fit (adj w) bs = Some (xs, z, ys)" and b: "bs' = carve (adj w) xs z ys"
    and w: "0 < w"
    by (auto simp: spec_malloc_def split: if_splits)
  note g = first_fit_Some [OF f]
  show thesis
    using that [of z ys] g b w adj_bounds(2) [OF w] unfolding carve_alt by (auto simp: carve_head_def)
qed

lemma malloc_ptr_nonnull:
  "heap_inv h bs \<Longrightarrow> spec_malloc (unat w) bs = Some (xs, bs') \<Longrightarrow> ptr_at h (total_size xs + 8) \<noteq> 0"
  using block_ptr_facts(3) [of h xs] spec_malloc_parts by (metis block_ptr_ptr_at)

subsection \<open>Stores of the application\<close>

lemma heap_inv_payload:
  assumes inv: "heap_inv h bs"
    and same: "\<And>r. r < 2 ^ 32 \<Longrightarrow> \<not> in_used (heap_start h) bs r \<Longrightarrow> m' (of_nat r) = hmem h (of_nat r)"
  shows "heap_inv (h\<lparr>hmem := m'\<rparr>) bs"
proof -
  define a e x where "a = heap_start h" and "e = unat (pxEnd h)" and "x = unat (xStart h)"
  have lay: "layout x a bs e" and hd: "hdrs (hmem h) a bs" and lk: "linked (hmem h) x (frees a bs) e"
    and z0: "sz (hmem h) x = 0" "sz (hmem h) e = 0" "nx (hmem h) e = 0"
    using inv unfolding heap_inv_def a_def x_def e_def by simp_all
  have big: "\<forall>b \<in> set bs. 16 \<le> fst b" using lay by (simp add: layout_def)
  have hb: "sz m' t = sz (hmem h) t \<and> nx m' t = nx (hmem h) t" if "t \<in> headers x a bs e" for t
  proof -
    have t: "t + 8 < 2 ^ 32" using layout_sep [OF lay that that] by (simp add: sep_def)
    have "m' (of_nat r) = hmem h (of_nat r)" if "t \<le> r" "r < t + 8" for r
      using in_used_headers(1) [OF lay _ \<open>t \<in> _\<close>, of r] that t by (intro same) (auto simp: a_def)
    then show ?thesis using header_bytes [OF t] by blast
  qed
  then have "hdrs m' a bs" using hdrs_same [OF hd _ big] by (simp add: headers_def)
  moreover have "linked m' x (frees a bs) e"
    using linked_cong [OF lk] hb frees_headers [of _ a bs x e] by (simp add: headers_def)
  moreover have "sz m' x = 0" "sz m' e = 0" "nx m' e = 0"
    using hb z0 by (simp_all add: headers_def)
  ultimately show ?thesis
    using inv unfolding heap_inv_def by (simp add: heap_start_def flip: a_def x_def e_def) (simp add: a_def heap_start_def)
qed

subsection \<open>Reachable heaps\<close>

text \<open>
  The histories of the heap: initialisation, then any sequence of allocations, releases of
  blocks that are in use, and stores of the application into blocks it owns.
\<close>

inductive heap_reach :: "heap4 \<Rightarrow> heap4 \<Rightarrow> blk list \<Rightarrow> bool" for h0 :: heap4 where
  init: "heap_reach h0 (prvHeapInit h0) (initial_blocks h0)"
| malloc: "heap_reach h0 h bs \<Longrightarrow> pvPortMalloc w h = Some (p, h') \<Longrightarrow>
     heap_reach h0 h' (case spec_malloc (unat w) bs of None \<Rightarrow> bs | Some (xs, bs') \<Rightarrow> bs')"
| free: "heap_reach h0 h bs \<Longrightarrow> spec_free off bs = Some bs' \<Longrightarrow> vPortFree (ptr_at h off) h = Some h' \<Longrightarrow>
     heap_reach h0 h' bs'"
| store: "heap_reach h0 h bs \<Longrightarrow> in_used (heap_start h) bs r \<Longrightarrow>
     heap_reach h0 (h\<lparr>hmem := (hmem h)(of_nat r := v)\<rparr>) bs"

lemma carve_total: "w \<le> z \<Longrightarrow> total_size (carve w xs z ys) = total_size (xs @ (z, Free) # ys)"
  by (simp add: carve_def)

lemma heap_reach_inv:
  assumes "heap_reach h0 h bs" "placed h0"
  shows "heap_inv h bs \<and> same_heap (prvHeapInit h0) h"
  using assms
proof (induction rule: heap_reach.induct)
  case init
  then show ?case using prvHeapInit_inv by (simp add: same_heap_def)
next
  case (malloc h bs w p h')
  then show ?case
    using malloc_spec [of h bs w] by (auto simp: same_heap_def split: option.splits)
next
  case (free h bs off bs' h')
  then show ?case
    using free_spec [of h bs off bs'] by (auto simp: same_heap_def)
next
  case (store h bs r v)
  have "heap_inv (h\<lparr>hmem := (hmem h)(of_nat r := v)\<rparr>) bs"
  proof (rule heap_inv_payload)
    show "heap_inv h bs" using store by simp
    have r: "r < 2 ^ 32" using in_used_bounds [OF store.hyps(2)] heap_inv_facts(2) [of h bs] store by simp
    show "((hmem h)(of_nat r := v)) (of_nat q) = hmem h (of_nat q)"
      if "q < 2 ^ 32" "\<not> in_used (heap_start h) bs q" for q
      using that store.hyps(2) of_nat_eq_iff_u32 [OF that(1) r] by auto
  qed
  then show ?case using store by (simp add: same_heap_def)
qed

lemma heap_reach_facts:
  assumes "placed h0" "heap_reach h0 h bs"
  shows "heap_inv h bs \<and> total_size bs = heap_limit h0 - heap_start h0 \<and> no_adjacent bs \<and>
     unat (xPortGetFreeHeapSize h) = free_total bs \<and>
     xPortGetMinimumEverFreeHeapSize h \<le> xPortGetFreeHeapSize h"
proof -
  have i: "heap_inv h bs" and s: "same_heap (prvHeapInit h0) h" using heap_reach_inv assms by auto
  have "pxEnd (prvHeapInit h0) = of_nat (heap_limit h0)" "ucHeap (prvHeapInit h0) = ucHeap h0"
    using prvHeapInit_nat [OF assms(1)] by simp_all
  moreover have "heap_limit h0 < 2 ^ 32" using placed_bounds(3) [OF assms(1)] assms(1) by (auto simp: placed_def)
  ultimately have "heap_start h = heap_start h0" "unat (pxEnd h) = heap_limit h0"
    using s by (simp_all add: same_heap_def heap_start_def)
  then show ?thesis
    using i heap_inv_facts(4) [OF i]
    by (simp add: heap_inv_def blocks_ok_def xPortGetFreeHeapSize_def xPortGetMinimumEverFreeHeapSize_def)
qed

subsection \<open>A concrete heap\<close>

text \<open>The heap at the start of the F407's main RAM with \<open>xStart\<close> behind it, before and after one allocation.\<close>

definition ex_reset :: heap4 where
  "ex_reset = heap_reset (\<lambda>_. 0) 0x20000000 0x20010000"

definition ex_heap :: heap4 where
  "ex_heap = prvHeapInit ex_reset"

definition ex_heap1 :: heap4 where
  "ex_heap1 = snd (the (pvPortMalloc 100 ex_heap))"

lemma ex_reset_placed: "placed ex_reset"
  by (simp add: ex_reset_def heap_reset_def placed_def)

lemma ex_reset_size: "heap_start ex_reset = 0x20000000" "heap_limit ex_reset = 0x20000000 + 59992"
  using placed_bounds(6) [OF ex_reset_placed] by (simp_all add: ex_reset_def heap_reset_def heap_limit_def)

lemma ex_heap_inv: "heap_inv ex_heap [(59992, Free)]"
  using prvHeapInit_inv [OF ex_reset_placed] by (simp add: ex_heap_def initial_blocks_def ex_reset_size)

lemma ex_heap_start: "heap_start ex_heap = 0x20000000"
  using prvHeapInit_nat [OF ex_reset_placed] ex_reset_size(1) by (simp add: ex_heap_def heap_start_def)

lemma ex_spec_malloc: "spec_malloc 100 [(59992, Free)] = Some ([], [(112, Used), (59880, Free)])"
  by (simp add: spec_malloc_def adj_def carve_def)

lemma ex_malloc: "pvPortMalloc 100 ex_heap = Some (0x20000008, ex_heap1)"
  and ex_heap1_inv: "heap_inv ex_heap1 [(112, Used), (59880, Free)]"
  and ex_heap1_reach: "heap_reach ex_reset ex_heap1 [(112, Used), (59880, Free)]"
proof -
  obtain h' where h': "pvPortMalloc 100 ex_heap = Some (0x20000008, h')" "heap_inv h' [(112, Used), (59880, Free)]"
    using malloc_spec [OF ex_heap_inv, of 100] ex_spec_malloc by (auto simp: ptr_at_def ex_heap_start)
  then show m: "pvPortMalloc 100 ex_heap = Some (0x20000008, ex_heap1)"
    and "heap_inv ex_heap1 [(112, Used), (59880, Free)]"
    by (simp_all add: ex_heap1_def)
  show "heap_reach ex_reset ex_heap1 [(112, Used), (59880, Free)]"
    using heap_reach.malloc [OF heap_reach.init m [unfolded ex_heap_def]]
    by (simp add: initial_blocks_def ex_reset_size ex_spec_malloc)
qed

lemma ex_heap1_start: "heap_start ex_heap1 = 0x20000000"
  using malloc_spec [OF ex_heap_inv, of 100] ex_malloc ex_heap_start
  by (auto simp: same_heap_def heap_start_def)

subsection \<open>Allocation and release\<close>

text \<open>C1.
  On every heap that satisfies the invariant \<open>pvPortMalloc\<close> returns (its loops end and no
  assertion fails), and its result is the specification's: the null pointer and an unchanged
  heap when the request is 0, too large, or fits no free block, otherwise the pointer of the
  first fitting block and a heap that represents the carved block list; in both cases the
  payload of every block that was in use is unchanged.
\<close>

theorem pvPortMalloc_refines:
  assumes "heap_inv h bs"
  shows "\<exists>p h'. pvPortMalloc w h = Some (p, h') \<and> same_heap h h' \<and> keeps_payload bs h h' \<and>
     (case spec_malloc (unat w) bs of
        None \<Rightarrow> p = 0 \<and> h' = h
      | Some (xs, bs') \<Rightarrow> p = ptr_at h (total_size xs + 8) \<and> heap_inv h' bs' \<and>
          xNumberOfSuccessfulAllocations h' = xNumberOfSuccessfulAllocations h + 1)"
  using assms by (rule malloc_spec)

theorem pvPortMalloc_refines_witness:
  "heap_inv ex_heap [(59992, Free)] \<and>
   (\<exists>p h'. pvPortMalloc 100 ex_heap = Some (p, h') \<and> same_heap ex_heap h' \<and>
      keeps_payload [(59992, Free)] ex_heap h' \<and> p = ptr_at ex_heap 8 \<and> heap_inv h' [(112, Used), (59880, Free)])"
  using pvPortMalloc_refines [OF ex_heap_inv, of 100] ex_heap_inv ex_spec_malloc by auto

text \<open>C2.
  On the pointer of a block that is in use \<open>vPortFree\<close> returns (no assertion fails, the
  insert loop ends), the heap then represents the block list in which that block is free and
  merged with its free neighbours, and the payload of every other used block is unchanged.
\<close>

theorem vPortFree_refines:
  assumes "heap_inv h bs" "spec_free off bs = Some bs'"
  shows "\<exists>h'. vPortFree (ptr_at h off) h = Some h' \<and> heap_inv h' bs' \<and> same_heap h h' \<and>
     keeps_payload bs' h h' \<and> xNumberOfSuccessfulFrees h' = xNumberOfSuccessfulFrees h + 1 \<and>
     xMinimumEverFreeBytesRemaining h' = xMinimumEverFreeBytesRemaining h"
  using assms by (rule free_spec)

theorem vPortFree_refines_witness:
  "heap_inv ex_heap1 [(112, Used), (59880, Free)] \<and>
   spec_free 8 [(112, Used), (59880, Free)] = Some [(59992, Free)] \<and>
   (\<exists>h'. vPortFree (ptr_at ex_heap1 8) ex_heap1 = Some h' \<and> heap_inv h' [(59992, Free)])"
proof -
  have "spec_free 8 [(112, Used), (59880, Free)] = Some [(59992, Free)]"
    by (simp add: spec_free_def glue_def glue_left_def glue_right_def)
  then show ?thesis using vPortFree_refines [OF ex_heap1_inv, of 8 "[(59992, Free)]"] ex_heap1_inv by auto
qed

subsection \<open>What clients rely on\<close>

text \<open>
  A pointer that \<open>pvPortMalloc\<close> returns is 8-byte aligned and points to at least as many
  bytes as were asked for, none of which belonged to a block in use before the call and all of
  which belong to a block in use after it.
\<close>

theorem pvPortMalloc_fresh:
  assumes inv: "heap_inv h bs" and call: "pvPortMalloc w h = Some (p, h')" and ok: "p \<noteq> 0"
  shows "\<exists>bs'. heap_inv h' bs' \<and> unat p mod 8 = 0 \<and>
     (\<forall>i < unat w. in_used (heap_start h) bs' (unat p + i) \<and> \<not> in_used (heap_start h) bs (unat p + i))"
proof -
  obtain xs bs' where sm: "spec_malloc (unat w) bs = Some (xs, bs')" and p: "p = block_ptr h xs" and h': "heap_inv h' bs'"
    using malloc_spec [OF inv, of w] call ok
    by (auto simp: block_ptr_ptr_at split: option.splits)
  from spec_malloc_parts [OF sm] obtain z ys where b: "bs = xs @ (z, Free) # ys"
    "bs' = xs @ (carve_head (adj (unat w)) z, Used) # carve_rest (adj (unat w)) z ys"
    "unat w + 8 \<le> carve_head (adj (unat w)) z" "carve_head (adj (unat w)) z \<le> z" by metis
  note f = block_ptr_facts [OF inv [unfolded b(1)], folded p]
  have "in_used (heap_start h) bs' (unat p + i)" "\<not> in_used (heap_start h) bs (unat p + i)" if "i < unat w" for i
    using that b f(1) in_used_bounds [of "heap_start h" xs "unat p + i"]
      in_used_bounds [of "heap_start h + total_size xs + z" ys "unat p + i"] by auto
  then show ?thesis using h' f(2) by (auto simp: dvd_eq_mod_eq_0)
qed

theorem pvPortMalloc_fresh_witness:
  "pvPortMalloc 100 ex_heap = Some (0x20000008, ex_heap1) \<and>
   (\<exists>bs'. heap_inv ex_heap1 bs' \<and> unat (0x20000008 :: u32) mod 8 = 0 \<and>
     (\<forall>i < unat (100 :: u32). in_used (heap_start ex_heap) bs' (unat (0x20000008 :: u32) + i)))"
  using pvPortMalloc_fresh [OF ex_heap_inv ex_malloc] ex_malloc by auto

text \<open>
  An allocation fails exactly when the size is 0 or has its top bit set, or no free block
  can hold the rounded-up request.
\<close>

theorem pvPortMalloc_null_iff:
  assumes inv: "heap_inv h bs" and call: "pvPortMalloc w h = Some (p, h')"
  shows "p = 0 \<longleftrightarrow> w = 0 \<or> 2 ^ 31 \<le> unat w \<or> (\<forall>b \<in> set bs. snd b = Free \<longrightarrow> fst b < adj (unat w))"
proof (cases "spec_malloc (unat w) bs")
  case None
  then show ?thesis
    using malloc_spec [OF inv, of w] call
    by (auto simp: spec_malloc_def first_fit_None unat_eq_0 split: if_splits)
next
  case (Some r)
  then obtain xs bs' where r: "r = (xs, bs')" by (cases r)
  obtain z ys where b: "bs = xs @ (z, Free) # ys" using spec_malloc_parts [OF Some [unfolded r]] by metis
  have "p \<noteq> 0"
    using malloc_spec [OF inv, of w] call Some r block_ptr_facts(3) [OF inv [unfolded b]]
    by (auto simp: block_ptr_ptr_at)
  moreover have "first_fit (adj (unat w)) bs \<noteq> None" "w \<noteq> 0" "\<not> 2 ^ 31 \<le> unat w"
    using Some by (auto simp: spec_malloc_def split: if_splits)
  ultimately show ?thesis unfolding first_fit_None by auto
qed

theorem pvPortMalloc_null_iff_witness:
  "pvPortMalloc 100 ex_heap = Some (0x20000008, ex_heap1) \<and> (0x20000008 :: u32) \<noteq> 0 \<and>
   \<not> (\<forall>b \<in> set [(59992 :: nat, Free)]. snd b = Free \<longrightarrow> fst b < adj 100)"
  using pvPortMalloc_null_iff [OF ex_heap_inv ex_malloc] ex_malloc by (simp add: adj_def)

lemma glue_carve:
  assumes "blocks_ok (xs @ (z, Free) # ys)" "w \<le> z"
  shows "glue xs (carve_head w z) (carve_rest w z ys) = xs @ (z, Free) # ys"
  using assms unfolding blocks_ok_def no_adjacent_append no_adjacent_Cons
  by (auto simp: glue_def carve_head_def carve_rest_def glue_right_def)

lemma malloc_free_restores:
  assumes inv: "heap_inv h bs" and call: "pvPortMalloc w h = Some (p, h1)" and ok: "p \<noteq> 0"
  shows "\<exists>h2. vPortFree p h1 = Some h2 \<and> heap_inv h2 bs \<and> xFreeBytesRemaining h2 = xFreeBytesRemaining h \<and>
     keeps_payload bs h h2"
proof -
  obtain xs bs' where sm: "spec_malloc (unat w) bs = Some (xs, bs')" and p: "p = block_ptr h xs"
    and h1: "heap_inv h1 bs'" "same_heap h h1" "keeps_payload bs h h1"
    using malloc_spec [OF inv, of w] call ok
    by (auto simp: block_ptr_ptr_at split: option.splits)
  from spec_malloc_parts [OF sm] obtain z ys where b: "bs = xs @ (z, Free) # ys" "adj (unat w) \<le> z"
    "bs' = xs @ (carve_head (adj (unat w)) z, Used) # carve_rest (adj (unat w)) z ys" by metis
  have hs: "heap_start h1 = heap_start h" using h1(2) by (simp add: same_heap_def heap_start_def)
  have g: "glue xs (carve_head (adj (unat w)) z) (carve_rest (adj (unat w)) z ys) = bs"
    using inv b by (auto simp: heap_inv_def intro!: glue_carve)
  obtain h2 where h2: "vPortFree p h1 = Some h2" "heap_inv h2 bs"
    and fr: "\<And>r. in_used (heap_start h) bs r \<Longrightarrow> hmem h2 (of_nat r) = hmem h1 (of_nat r)"
    using vPortFree_used [OF h1(1) [unfolded b(3)]] p hs g in_used_glue
    unfolding block_ptr_def by metis
  have "xFreeBytesRemaining h2 = xFreeBytesRemaining h"
    using h2(2) inv by (simp add: heap_inv_def u32_eq_iff)
  then show ?thesis using h2 fr h1(3) by (auto simp: keeps_payload_def)
qed

text \<open>
  Freeing the block that was just allocated restores the block list, with as many free
  bytes as before: an allocate/free pair leaves no fragmentation behind.
\<close>

theorem malloc_free_roundtrip:
  assumes inv: "heap_inv h bs" and call: "pvPortMalloc w h = Some (p, h1)" and ok: "p \<noteq> 0"
  shows "\<exists>h2. vPortFree p h1 = Some h2 \<and> heap_inv h2 bs \<and> xFreeBytesRemaining h2 = xFreeBytesRemaining h \<and>
     keeps_payload bs h h2"
  using assms by (rule malloc_free_restores)


theorem malloc_free_roundtrip_witness:
  "pvPortMalloc 100 ex_heap = Some (0x20000008, ex_heap1) \<and>
   (\<exists>h2. vPortFree 0x20000008 ex_heap1 = Some h2 \<and> heap_inv h2 [(59992, Free)])"
  using malloc_free_roundtrip [OF ex_heap_inv ex_malloc] ex_malloc by auto

subsection \<open>Histories\<close>

text \<open>C3.
  Whatever sequence of allocations, releases and stores into owned blocks the tasks
  perform, the heap stays well-formed: the blocks tile the heap exactly, no two neighbouring
  blocks are free, and the counter that \<open>xPortGetFreeHeapSize\<close> reports is the sum of the sizes
  of the free blocks.
\<close>

theorem heap_reach_wellformed:
  assumes "placed h0" "heap_reach h0 h bs"
  shows "heap_inv h bs \<and> total_size bs = heap_limit h0 - heap_start h0 \<and> no_adjacent bs \<and>
     unat (xPortGetFreeHeapSize h) = free_total bs \<and>
     xPortGetMinimumEverFreeHeapSize h \<le> xPortGetFreeHeapSize h"
  using heap_reach_facts [OF assms] .

theorem heap_reach_wellformed_witness:
  "placed ex_reset \<and> heap_reach ex_reset ex_heap1 [(112, Used), (59880, Free)] \<and>
   unat (xPortGetFreeHeapSize ex_heap1) = 59880"
  using heap_reach_wellformed [OF ex_reset_placed ex_heap1_reach] ex_reset_placed ex_heap1_reach by simp

lemma no_adjacent_all_free:
  "no_adjacent bs \<Longrightarrow> \<forall>b \<in> set bs. snd b = Free \<Longrightarrow> length bs \<le> 1"
  by (induction bs rule: no_adjacent.induct) auto

text \<open>
  Once every block has been released the heap is a single free block again, as large as
  after initialisation: nothing leaks and nothing stays fragmented.
\<close>

theorem heap_all_released:
  assumes "placed h0" "heap_reach h0 h bs" "\<forall>b \<in> set bs. snd b \<noteq> Used"
  shows "bs = initial_blocks h0 \<and> unat (xPortGetFreeHeapSize h) = heap_limit h0 - heap_start h0"
proof -
  note f = heap_reach_facts [OF assms(1,2)]
  have ok: "blocks_ok bs" using f by (auto simp: heap_inv_def)
  then have fr: "\<forall>b \<in> set bs. snd b = Free"
    using assms(3) unfolding blocks_ok_def by (metis bkind.exhaust)
  have len: "length bs \<le> 1" using no_adjacent_all_free [OF _ fr] f by blast
  have tot: "total_size bs = heap_limit h0 - heap_start h0" "0 < heap_limit h0 - heap_start h0"
    using f placed_bounds [OF assms(1)] by auto
  then have "length bs \<noteq> 0" by auto
  then obtain b where b: "bs = [b]" using len by (cases bs) auto
  then have "bs = initial_blocks h0" using fr tot by (cases b) (auto simp: initial_blocks_def)
  then show ?thesis using f tot by (simp add: initial_blocks_def)
qed

theorem heap_all_released_witness:
  "heap_reach ex_reset ex_heap [(59992, Free)] \<and> unat (xPortGetFreeHeapSize ex_heap) = 59992"
proof -
  have r: "heap_reach ex_reset ex_heap [(59992, Free)]"
    using heap_reach.init [of ex_reset] by (simp add: ex_heap_def initial_blocks_def ex_reset_size)
  show ?thesis using heap_all_released [OF ex_reset_placed r] r by (simp add: ex_reset_size)
qed

subsection \<open>The first call and the statistics\<close>

text \<open>
  The first allocation initialises the heap: on the reset state it behaves as on the
  initialised heap, so an allocation that fits the empty heap succeeds.
\<close>

theorem pvPortMalloc_first:
  assumes "placed (heap_reset m u s)" "0 < unat w" "adj (unat w) \<le> heap_limit (heap_reset m u s) - heap_start (heap_reset m u s)"
  shows "\<exists>h'. pvPortMalloc w (heap_reset m u s) = Some (ptr_at (heap_reset m u s) 8, h') \<and>
     heap_reach (heap_reset m u s) h' (carve (adj (unat w)) [] (heap_limit (heap_reset m u s) - heap_start (heap_reset m u s)) [])"
proof -
  define h0 where "h0 = heap_reset m u s"
  define h1 where "h1 = prvHeapInit h0"
  have inv: "heap_inv h1 (initial_blocks h0)" using prvHeapInit_inv assms(1) by (simp add: h0_def h1_def)
  have e: "pxEnd h0 = 0" "pxEnd h1 \<noteq> 0"
    using heap_inv_facts(3,4) [OF inv] by (auto simp: h0_def heap_reset_def)
  have call: "pvPortMalloc w h0 = pvPortMalloc w h1"
    using e unfolding pvPortMalloc_def by (simp add: h1_def)
  have st: "heap_start h1 = heap_start h0"
    using prvHeapInit_nat [of h0] assms(1) by (simp add: h0_def h1_def heap_start_def)
  have lt: "unat w < 2 ^ 31"
    using adj_bounds(2) [OF assms(2)] assms(1,3) placed_bounds(3) [OF assms(1)]
    by (auto simp: placed_def h0_def)
  have sm: "spec_malloc (unat w) (initial_blocks h0) = Some ([], carve (adj (unat w)) [] (heap_limit h0 - heap_start h0) [])"
    using assms(2,3) lt by (simp add: spec_malloc_def initial_blocks_def h0_def)
  obtain h' where h': "pvPortMalloc w h1 = Some (ptr_at h1 8, h')"
    using malloc_spec [OF inv, of w] sm by auto
  have "heap_reach h0 h' (carve (adj (unat w)) [] (heap_limit h0 - heap_start h0) [])"
    using heap_reach.malloc [OF heap_reach.init h' [unfolded h1_def]] sm by simp
  then show ?thesis using h' call st by (simp add: ptr_at_def h0_def)
qed

theorem pvPortMalloc_first_witness:
  "\<exists>h'. pvPortMalloc 100 (heap_reset (\<lambda>_. 0) 0x20000000 0x20010000) = Some (0x20000008, h')"
  using pvPortMalloc_first [of "\<lambda>_. 0" "0x20000000" "0x20010000" "100"] ex_reset_placed ex_reset_size
  by (auto simp: ptr_at_def adj_def simp flip: ex_reset_def)

definition free_sizes :: "blk list \<Rightarrow> nat list" where
  "free_sizes bs = map fst (filter (\<lambda>b. snd b = Free) bs)"

lemma map_sz_frees: "hdrs m a bs \<Longrightarrow> map (sz m) (frees a bs) = free_sizes bs"
  unfolding free_sizes_def by (induction m a bs rule: hdrs.induct) auto

lemma of_nat_max_u32: "a < 2 ^ 32 \<Longrightarrow> b < 2 ^ 32 \<Longrightarrow>
    (if (of_nat a :: u32) > of_nat b then of_nat a else of_nat b) = (of_nat (max a b) :: u32)"
  by (simp add: u32_of_nat_less max_def)

lemma of_nat_min_u32: "a < 2 ^ 32 \<Longrightarrow> b < 2 ^ 32 \<Longrightarrow>
    (if (of_nat a :: u32) < of_nat b then of_nat a else of_nat b) = (of_nat (min a b) :: u32)"
  by (simp add: u32_of_nat_less min_def)

lemma stats_loop_linked:
  "linked m p ps e \<Longrightarrow> e \<notin> set ps \<Longrightarrow> e < 2 ^ 32 \<Longrightarrow> mx < 2 ^ 32 \<Longrightarrow> mn < 2 ^ 32 \<Longrightarrow>
   stats_loop m (of_nat e) (of_nat p) n (of_nat mx) (of_nat mn) =
     Some (n + of_nat (length (p # ps)), of_nat (fold max (map (sz m) (p # ps)) mx),
       of_nat (fold min (map (sz m) (p # ps)) mn))"
proof (induction ps arbitrary: p n mx mn)
  case Nil
  then show ?case
    by (subst stats_loop.simps)
      (simp add: next_of_nat size_of_nat u32_of_nat_less max_def min_def Let_def)
next
  case (Cons q ps)
  have "(of_nat q :: u32) \<noteq> of_nat e"
    using Cons.prems nx_lt [of m p] of_nat_eq_iff_u32 [of q e] by auto
  moreover have "stats_loop m (of_nat e) (of_nat q) (n + 1) (of_nat (max (sz m p) mx)) (of_nat (min (sz m p) mn)) =
     Some (n + 1 + of_nat (length (q # ps)), of_nat (fold max (map (sz m) (q # ps)) (max (sz m p) mx)),
       of_nat (fold min (map (sz m) (q # ps)) (min (sz m p) mn)))"
    by (rule Cons.IH) (use Cons.prems in \<open>auto simp: min_less_iff_disj\<close>)
  ultimately show ?case
    using Cons.prems
    unfolding stats_loop.simps [of m "of_nat e" "of_nat p"] Let_def size_of_nat next_of_nat
    by (simp add: of_nat_max_u32 of_nat_min_u32 algebra_simps split del: if_split)
qed

text \<open>
  As long as some block is free \<open>vPortGetHeapStats\<close> returns, and it reports the number of
  free blocks and the largest and smallest of their sizes.
\<close>

theorem vPortGetHeapStats_correct:
  assumes inv: "heap_inv h bs" and some: "free_sizes bs \<noteq> []"
  shows "\<exists>st. vPortGetHeapStats h = Some st \<and>
     xNumberOfFreeBlocks st = of_nat (length (free_sizes bs)) \<and>
     xSizeOfLargestFreeBlockInBytes st = of_nat (Max (set (free_sizes bs))) \<and>
     xSizeOfSmallestFreeBlockInBytes st = of_nat (Min (set (free_sizes bs))) \<and>
     unat (xAvailableHeapSpaceInBytes st) = sum_list (free_sizes bs)"
proof -
  define a x e m where "a = heap_start h" and "x = unat (xStart h)" and "e = unat (pxEnd h)" and "m = hmem h"
  have lay: "layout x a bs e" and lk: "linked m x (frees a bs) e" and fs: "map (sz m) (frees a bs) = free_sizes bs"
    and ft: "unat (xFreeBytesRemaining h) = sum_list (free_sizes bs)"
    using inv map_sz_frees unfolding heap_inv_def a_def x_def e_def m_def free_total_def free_sizes_def by auto
  have big: "\<forall>b \<in> set bs. 16 \<le> fst b" "e = a + total_size bs" "0 < a" "e < 2 ^ 32" using lay by (auto simp: layout_def)
  obtain p ps where f: "frees a bs = p # ps" using fs some by (cases "frees a bs") auto
  have ps: "e \<notin> set ps" "0 < p" using frees_bounds [OF big(1), of _ a] big f by fastforce+
  have lp: "nx m x = p" "linked m p ps e" using lk f by auto
  have x: "xStart h = of_nat x" "pxEnd h = of_nat e" by (simp_all add: x_def e_def)
  have p0: "(of_nat p :: u32) \<noteq> 0" using ps(2) lp(1) nx_lt [of m x] u32_of_nat_0 [of p] by auto
  obtain c cs where c: "free_sizes bs = c # cs" using some by (cases "free_sizes bs") auto
  have "c < 2 ^ 32" using fs c f by auto
  then have mm: "fold max (free_sizes bs) 0 = Max (set (free_sizes bs))"
      "fold min (free_sizes bs) (2 ^ 32 - 1) = Min (set (free_sizes bs))"
    using Max.set_eq_fold [of c cs] Min.set_eq_fold [of c cs] by (simp_all add: c)
  have "stats_loop m (of_nat e) (of_nat p) 0 (of_nat 0) (of_nat (2 ^ 32 - 1)) =
    Some (of_nat (length (free_sizes bs)), of_nat (Max (set (free_sizes bs))), of_nat (Min (set (free_sizes bs))))"
    using stats_loop_linked [OF lp(2) ps(1) big(4), of 0 "2 ^ 32 - 1" 0] fs [symmetric] mm
    by (simp add: f del: of_nat_add)
  moreover have nz: "(NOT 0 :: u32) = of_nat (2 ^ 32 - 1)" by simp
  ultimately show ?thesis
    using p0 ft unfolding vPortGetHeapStats_def Let_def m_def [symmetric] x next_of_nat lp(1) nz by simp
qed

theorem vPortGetHeapStats_correct_witness:
  "\<exists>st. vPortGetHeapStats ex_heap1 = Some st \<and> xNumberOfFreeBlocks st = 1 \<and>
     xSizeOfLargestFreeBlockInBytes st = 59880"
  using vPortGetHeapStats_correct [OF ex_heap1_inv] by (auto simp: free_sizes_def)

text \<open>
  When no block is free the \<open>do ... while\<close> loop of \<open>vPortGetHeapStats\<close> does not stop: it counts
  the end marker as a block and goes on with the block header at address 0.
\<close>

theorem vPortGetHeapStats_full_heap:
  assumes inv: "heap_inv h bs" and none: "free_sizes bs = []"
  shows "stats_loop (hmem h) (pxEnd h) (pxNextFreeBlock (hmem h) (xStart h)) 0 0 (NOT 0) =
    stats_loop (hmem h) (pxEnd h) 0 1 0 0"
proof -
  define x e m where "x = unat (xStart h)" and "e = unat (pxEnd h)" and "m = hmem h"
  have lk: "linked m x (frees (heap_start h) bs) e" and z: "sz m e = 0" "nx m e = 0"
    and hd: "hdrs m (heap_start h) bs" and e: "0 < e" "e < 2 ^ 32"
    using inv unfolding heap_inv_def x_def e_def m_def by (auto simp: layout_def)
  have "frees (heap_start h) bs = []" using map_sz_frees [OF hd] none by simp
  then have n: "nx m x = e" using lk by simp
  have x: "xStart h = of_nat x" "pxEnd h = of_nat e" by (simp_all add: x_def e_def)
  have "(0 :: u32) \<noteq> of_nat e" using u32_of_nat_0 [OF e(2)] e(1) by auto
  then show ?thesis
    unfolding m_def [symmetric] x next_of_nat n
    by (subst stats_loop.simps) (simp add: next_of_nat size_of_nat z word_gt_0)
qed

definition ex_full :: heap4 where
  "ex_full = snd (the (pvPortMalloc 59984 ex_heap))"

lemma ex_full_inv: "heap_inv ex_full [(59992, Used)]"
  using malloc_spec [OF ex_heap_inv, of 59984]
  by (auto simp: ex_full_def spec_malloc_def adj_def carve_def)

theorem vPortGetHeapStats_full_heap_witness:
  "heap_inv ex_full [(59992, Used)] \<and>
   stats_loop (hmem ex_full) (pxEnd ex_full) (pxNextFreeBlock (hmem ex_full) (xStart ex_full)) 0 0 (NOT 0) =
   stats_loop (hmem ex_full) (pxEnd ex_full) 0 1 0 0"
  using vPortGetHeapStats_full_heap [OF ex_full_inv] ex_full_inv by (simp add: free_sizes_def)

end
