(* ===== verification/Heap4_Realloc.thy ===== *)
theory Heap4_Realloc
  imports Heap4_Props
begin

text \<open>
  The two functions the project adds to the FreeRTOS heap, \<open>pvPortCalloc\<close> and \<open>pvPortRealloc\<close>:
  what their byte loops do, where they are correct, and what they store when the allocation
  has failed.
\<close>

lemma of_nat_Suc_u32: "(of_nat d :: u32) + 1 = of_nat (Suc d)"
  by (simp add: add.commute)

lemma copy_bytes_at:
  "d + n < 2 ^ 32 \<Longrightarrow> s + n < 2 ^ 32 \<Longrightarrow> r < 2 ^ 32 \<Longrightarrow> d + n \<le> s \<or> s + n \<le> d \<Longrightarrow>
   copy_bytes n (of_nat d) (of_nat s) m (of_nat r) =
     (if d \<le> r \<and> r < d + n then m (of_nat (s + (r - d))) else m (of_nat r))"
proof (induction n arbitrary: d s m)
  case (Suc n)
  let ?m = "m(of_nat d := m (of_nat s))"
  have q: "(of_nat q :: u32) = of_nat d \<longleftrightarrow> q = d" if "q < 2 ^ 32" for q
    using that Suc.prems(1) by (intro of_nat_eq_iff_u32) simp_all
  have "copy_bytes (Suc n) (of_nat d) (of_nat s) m (of_nat r) =
      copy_bytes n (of_nat (Suc d)) (of_nat (Suc s)) ?m (of_nat r)"
    by (simp only: copy_bytes.simps of_nat_Suc_u32)
  also have "\<dots> = (if Suc d \<le> r \<and> r < Suc d + n then ?m (of_nat (Suc s + (r - Suc d))) else ?m (of_nat r))"
    using Suc.prems by (intro Suc.IH) auto
  also have "\<dots> = (if d \<le> r \<and> r < d + Suc n then m (of_nat (s + (r - d))) else m (of_nat r))"
  proof (cases "r = d")
    case False
    have "?m (of_nat r) = m (of_nat r)" using q [of r] Suc.prems(3) False by simp
    moreover have "?m (of_nat (Suc s + (r - Suc d))) = m (of_nat (s + (r - d)))" if "Suc d \<le> r" "r < Suc d + n"
    proof -
      have e: "Suc s + (r - Suc d) = s + (r - d)" using that by simp
      have "s + (r - d) < 2 ^ 32" "s + (r - d) \<noteq> d" using Suc.prems(2,4) that by auto
      then show ?thesis unfolding e using q [of "s + (r - d)"] by simp
    qed
    ultimately show ?thesis using False by auto
  qed (use q in simp)
  finally show ?case .
qed auto

lemma zero_bytes_at:
  "d + n < 2 ^ 32 \<Longrightarrow> r < 2 ^ 32 \<Longrightarrow>
   zero_bytes n (of_nat d) m (of_nat r) = (if d \<le> r \<and> r < d + n then 0 else m (of_nat r))"
proof (induction n arbitrary: d m)
  case (Suc n)
  have "zero_bytes (Suc n) (of_nat d) m (of_nat r) = zero_bytes n (of_nat (Suc d)) (m(of_nat d := 0)) (of_nat r)"
    by (simp only: zero_bytes.simps of_nat_Suc_u32)
  also have "\<dots> = (if Suc d \<le> r \<and> r < Suc d + n then 0 else (m(of_nat d := 0)) (of_nat r))"
    using Suc.prems by (intro Suc.IH) auto
  finally show ?case
    using of_nat_eq_iff_u32 [of r d] Suc.prems by auto
qed auto

lemma range_offset: "a \<le> r \<and> r < a + n \<Longrightarrow> \<exists>i < n. r = a + (i :: nat)"
  by (intro exI [of _ "r - a"]) auto

lemma malloc_spec_success:
  assumes inv: "heap_inv h bs" and call: "pvPortMalloc w h = Some (p, h')" and ok: "p \<noteq> 0"
  obtains xs bs' z ys where "spec_malloc (unat w) bs = Some (xs, bs')" "unat p = heap_start h + total_size xs + 8"
    "8 dvd unat p" "p = block_ptr h xs" "heap_inv h' bs'" "same_heap h h'" "keeps_payload bs h h'"
    "bs = xs @ (z, Free) # ys" "bs' = xs @ (carve_head (adj (unat w)) z, Used) # carve_rest (adj (unat w)) z ys"
    "unat w + 8 \<le> carve_head (adj (unat w)) z" "adj (unat w) \<le> carve_head (adj (unat w)) z" 
    "carve_head (adj (unat w)) z \<le> z"
proof -
  obtain xs bs' where sm: "spec_malloc (unat w) bs = Some (xs, bs')" and p: "p = block_ptr h xs"
    and h': "heap_inv h' bs'" "same_heap h h'" "keeps_payload bs h h'"
    using malloc_spec [OF inv, of w] call ok
    by (auto simp: block_ptr_ptr_at split: option.splits)
  from spec_malloc_parts [OF sm] obtain z ys where b: "bs = xs @ (z, Free) # ys" "adj (unat w) \<le> z"
    "bs' = xs @ (carve_head (adj (unat w)) z, Used) # carve_rest (adj (unat w)) z ys"
    "unat w + 8 \<le> carve_head (adj (unat w)) z" "carve_head (adj (unat w)) z \<le> z" by metis
  have "adj (unat w) \<le> carve_head (adj (unat w)) z" using b(2) by (simp add: carve_head_def)
  with that [OF sm _ _ p h' b(1,3,4)] b(5) block_ptr_facts [OF inv [unfolded b(1)], folded p] show thesis by blast
qed

text \<open>
  \<open>pvPortCalloc\<close>, when it succeeds: the \<open>num * xWantedSize\<close> bytes (the product as the code
  computes it, modulo \<open>2 ^ 32\<close>) are zero, they belong to a block that was not in use before, the
  heap is well-formed and no other block's contents have changed.
\<close>

theorem pvPortCalloc_zeroed:
  assumes inv: "heap_inv h bs" and call: "pvPortCalloc num elem h = Some (p, h')" and ok: "p \<noteq> 0"
  shows "\<exists>bs'. heap_inv h' bs' \<and> keeps_payload bs h h' \<and>
    (\<forall>i < unat (elem * num). hmem h' (p + of_nat i) = 0 \<and> in_used (heap_start h) bs' (unat p + i) \<and>
       \<not> in_used (heap_start h) bs (unat p + i))"
proof -
  define w where "w = elem * num"
  obtain h1 where m: "pvPortMalloc w h = Some (p, h1)" and h': "h' = h1\<lparr>hmem := zero_bytes (unat w) p (hmem h1)\<rparr>"
    using call by (auto simp: pvPortCalloc_def w_def Let_def split: bind_splits)
  obtain xs bs' z ys where s: "unat p = heap_start h + total_size xs + 8"
    "heap_inv h1 bs'" "same_heap h h1" "keeps_payload bs h h1"
    "bs = xs @ (z, Free) # ys" "bs' = xs @ (carve_head (adj (unat w)) z, Used) # carve_rest (adj (unat w)) z ys"
    "unat w + 8 \<le> carve_head (adj (unat w)) z" "carve_head (adj (unat w)) z \<le> z"
    by (rule malloc_spec_success [OF inv m ok])
  have st: "heap_start h1 = heap_start h" using s(3) by (simp add: same_heap_def heap_start_def)
  have lim: "unat p + unat w < 2 ^ 32"
    using heap_inv_facts(2) [OF s(2)] s(1,6,7) st by simp
  have iu: "in_used (heap_start h) bs' (unat p + i)" "\<not> in_used (heap_start h) bs (unat p + i)" if "i < unat w" for i
    using that s(1,5-8) in_used_bounds [of "heap_start h" xs "unat p + i"]
      in_used_bounds [of "heap_start h + total_size xs + z" ys "unat p + i"] by auto
  have z: "hmem h' (of_nat r) = (if unat p \<le> r \<and> r < unat p + unat w then 0 else hmem h1 (of_nat r))"
    if "r < 2 ^ 32" for r
    using zero_bytes_at [OF lim that, of "hmem h1"] by (simp add: h')
  have "heap_inv h' bs'"
    unfolding h'
  proof (rule heap_inv_payload [OF s(2)])
    fix r assume r: "r < 2 ^ 32" "\<not> in_used (heap_start h1) bs' r"
    then have "\<not> (unat p \<le> r \<and> r < unat p + unat w)"
      using iu(1) st range_offset by metis
    then show "zero_bytes (unat w) p (hmem h1) (of_nat r) = hmem h1 (of_nat r)"
      using z [OF r(1)] by (auto simp: h')
  qed
  moreover have "keeps_payload bs h h'"
    unfolding keeps_payload_def
  proof (intro allI impI)
    fix r assume r: "in_used (heap_start h) bs r"
    have "r < 2 ^ 32" using in_used_bounds [OF r] heap_inv_facts(2) [OF inv] by simp
    moreover have "\<not> (unat p \<le> r \<and> r < unat p + unat w)" using iu(2) r range_offset by metis
    ultimately show "hmem h' (of_nat r) = hmem h (of_nat r)"
      using z [of r] s(4) r by (auto simp: keeps_payload_def)
  qed
  moreover have "hmem h' (p + of_nat i) = 0" if "i < unat w" for i
    using z [of "unat p + i"] that lim by simp
  ultimately show ?thesis using iu unfolding w_def by blast
qed

lemma ex_calloc: "\<exists>h'. pvPortCalloc 25 4 ex_heap = Some (0x20000008, h')"
  using ex_malloc by (simp add: pvPortCalloc_def)

theorem pvPortCalloc_zeroed_witness:
  "\<exists>h' bs'. pvPortCalloc 25 4 ex_heap = Some (0x20000008, h') \<and> heap_inv h' bs' \<and> hmem h' 0x20000010 = 0"
proof -
  obtain h' where h': "pvPortCalloc 25 4 ex_heap = Some (0x20000008, h')" using ex_calloc by blast
  have "(0x20000008 :: u32) \<noteq> 0" by simp
  from pvPortCalloc_zeroed [OF ex_heap_inv h' this] obtain bs' where
    b: "heap_inv h' bs'" "\<forall>i < unat (4 * 25 :: u32). hmem h' (0x20000008 + of_nat i) = 0" by blast
  have "hmem h' 0x20000010 = 0" using b(2) [rule_format, of 8] by simp
  then show ?thesis using h' b(1) by blast
qed


text \<open>
  When the allocation fails \<open>pvPortCalloc\<close> still runs its loop: it clears the bytes at the
  addresses from 0 on.
\<close>

theorem pvPortCalloc_null_store:
  assumes inv: "heap_inv h bs" and none: "spec_malloc (unat (elem * num)) bs = None" and i: "i < unat (elem * num)"
  shows "\<exists>h'. pvPortCalloc num elem h = Some (0, h') \<and> hmem h' (of_nat i) = 0"
proof -
  have i: "0 + unat (elem * num) < 2 ^ 32" "i < 2 ^ 32" using less_trans [OF i unat_lt_u32] by simp_all
  show ?thesis
    using zero_bytes_at [OF i, of "hmem h"] malloc_spec [OF inv, of "elem * num"] none assms(3)
    by (auto simp: pvPortCalloc_def Let_def)
qed

theorem pvPortCalloc_null_store_witness:
  "\<exists>h'. pvPortCalloc 2 40000 ex_heap = Some (0, h') \<and> hmem h' 4096 = 0"
proof -
  have "spec_malloc (unat (40000 * 2 :: u32)) [(59992, Free)] = None"
    by (simp add: spec_malloc_def adj_def)
  from pvPortCalloc_null_store [OF ex_heap_inv this, of 4096] show ?thesis by simp
qed


subsection \<open>Reallocation\<close>

lemma used_survives:
  assumes "xs @ (z, Used) # ys = us @ (f, Free) # vs"
    and c: "c = carve_head w f" "w \<le> f"
  shows "\<exists>xs' ys'. us @ (c, Used) # carve_rest w f vs = xs' @ (z, Used) # ys' \<and> total_size xs' = total_size xs \<and>
    (total_size xs + z \<le> total_size us \<or> total_size us + f \<le> total_size xs)"
proof -
  from assms(1) consider (l) ms where "us = xs @ (z, Used) # ms"
    | (r) ms where "vs = ms @ (z, Used) # ys" "xs = us @ (f, Free) # ms"
    by (auto simp: append_eq_append_conv2 append_eq_Cons_conv Cons_eq_append_conv)
  then show ?thesis
  proof cases
    case l
    then show ?thesis
      by (rule_tac exI [of _ xs], rule_tac exI [of _ "ms @ (c, Used) # carve_rest w f vs"]) simp
  next
    case r
    then show ?thesis
      using c
      by (rule_tac exI [of _ "us @ (c, Used) # carve_rest w f ms"], rule_tac exI [of _ ys])
        (auto simp: carve_rest_def carve_head_def)
  qed
qed

text \<open>What \<open>pvPortRealloc\<close> does after its allocation, on a block that the heap knows as used.\<close>

lemma pvPortRealloc_unfold:
  assumes inv: "heap_inv h1 (xs @ (z, Used) # ys)" and call: "pvPortMalloc w h = Some (q, h1)"
  shows "pvPortRealloc (block_ptr h1 xs) w h =
    map_option (Pair q) (vPortFree (block_ptr h1 xs) (h1\<lparr>hmem := copy_bytes z q (block_ptr h1 xs) (hmem h1)\<rparr>))"
proof -
  define t where "t = heap_start h1 + total_size xs"
  have z: "z < 2 ^ 31" using block_size_lt [OF inv] .
  have l: "block_ptr h1 xs - xHeapStructSize = of_nat t" by (simp add: block_ptr_def t_def)
  have "sz (hmem h1) t = z + 2 ^ 31" and bit: "xBlockAllocatedBit h1 = push_bit 31 1"
    using inv by (auto simp: heap_inv_def t_def)
  then have cnt: "xBlockSize (hmem h1) (of_nat t) AND NOT (xBlockAllocatedBit h1) = of_nat z"
    unfolding size_of_nat bit using u32_allocated_bit(4) [OF z] by simp
  show ?thesis
    unfolding pvPortRealloc_def call Let_def
    using z by (simp add: l [simplified] cnt map_conv_bind_option comp_def)
qed

text \<open>
  \<open>pvPortRealloc\<close> to a size whose rounded-up block is at least 8 bytes larger than the old
  block: the contents of the old block are the first bytes of the new one, the old block is
  released, and the heap stays well-formed.  The 8 bytes are needed because the copy loop
  counts the old block's size with its header.
\<close>

theorem pvPortRealloc_grow:
  assumes inv: "heap_inv h (xs @ (z, Used) # ys)" (is "heap_inv h ?bs")
    and room: "z + 8 \<le> adj (unat w)"
    and call: "pvPortMalloc w h = Some (q, h1)" and ok: "q \<noteq> 0"
  shows "\<exists>h' bs'. pvPortRealloc (block_ptr h xs) w h = Some (q, h') \<and> heap_inv h' bs' \<and>
    (\<forall>i < z - 8. hmem h' (q + of_nat i) = hmem h (block_ptr h xs + of_nat i) \<and> in_used (heap_start h) bs' (unat q + i))"
proof -
  define p where "p = heap_start h + total_size xs + 8"
  have pv: "block_ptr h xs = of_nat p" by (simp add: p_def block_ptr_def)
  define d where "d = unat q"
  obtain us b1 f vs where s: "d = heap_start h + total_size us + 8" "heap_inv h1 b1" "same_heap h h1" "keeps_payload ?bs h h1"
    "?bs = us @ (f, Free) # vs" "b1 = us @ (carve_head (adj (unat w)) f, Used) # carve_rest (adj (unat w)) f vs"
    "adj (unat w) \<le> carve_head (adj (unat w)) f" "carve_head (adj (unat w)) f \<le> f"
    unfolding d_def by (rule malloc_spec_success [OF inv call ok])
  define c where "c = carve_head (adj (unat w)) f"
  have c: "z + 8 \<le> c" "c \<le> f" using s(7,8) room by (simp_all add: c_def)
  have st: "heap_start h1 = heap_start h" using s(3) by (simp add: same_heap_def heap_start_def)
  obtain xs' ys' where b1: "b1 = xs' @ (z, Used) # ys'" "total_size xs' = total_size xs"
    and pos: "total_size xs + z \<le> total_size us \<or> total_size us + f \<le> total_size xs"
    using used_survives [OF s(5) c_def] s(6-8) by (auto simp: c_def)
  have inv1: "heap_inv h1 (xs' @ (z, Used) # ys')" using s(2) b1(1) by simp
  have lim: "d + z < 2 ^ 32" "p + z < 2 ^ 32"
    using heap_inv_facts(2) [OF s(2), unfolded s(6)] heap_inv_facts(2) [OF inv1] s(1) c b1(2) st
    by (simp_all add: p_def flip: c_def)
  have dis: "d + z \<le> p \<or> p + z \<le> d" using pos c s(1) by (auto simp: p_def)
  define m2 where "m2 = copy_bytes z q (block_ptr h1 xs') (hmem h1)"
  define h2 where "h2 = h1\<lparr>hmem := m2\<rparr>"
  have ptr: "block_ptr h xs = block_ptr h1 xs'" "block_ptr h2 xs' = block_ptr h1 xs'"
    using b1(2) st by (simp_all add: block_ptr_def h2_def heap_start_def)
  have m2: "m2 (of_nat r) = (if d \<le> r \<and> r < d + z then hmem h1 (of_nat (p + (r - d))) else hmem h1 (of_nat r))"
    if "r < 2 ^ 32" for r
    using copy_bytes_at [OF lim that dis, of "hmem h1"] ptr(1) pv by (simp add: m2_def d_def)
  have iu: "in_used (heap_start h) b1 (d + i)" if "i < z" for i
    using that s(1,6) c by (simp flip: c_def)
  have "heap_inv h2 (xs' @ (z, Used) # ys')"
    unfolding h2_def
  proof (rule heap_inv_payload [OF inv1])
    fix r assume r: "r < 2 ^ 32" "\<not> in_used (heap_start h1) (xs' @ (z, Used) # ys') r"
    then have "\<not> (d \<le> r \<and> r < d + z)" using iu st b1(1) range_offset by metis
    then show "m2 (of_nat r) = hmem h1 (of_nat r)" using m2 [OF r(1)] by auto
  qed
  then obtain h' where h': "vPortFree (block_ptr h1 xs') h2 = Some h'" "heap_inv h' (glue xs' z ys')"
    and fr: "\<And>r. in_used (heap_start h) (xs' @ (z, Free) # ys') r \<Longrightarrow> hmem h' (of_nat r) = m2 (of_nat r)"
    using vPortFree_used [of h2 xs' z ys'] ptr(2) st by (simp add: h2_def heap_start_def) metis
  have "hmem h' (q + of_nat i) = hmem h (block_ptr h xs + of_nat i) \<and> in_used (heap_start h) (glue xs' z ys') (unat q + i)"
    if i: "i < z - 8" for i
  proof -
    have f: "in_used (heap_start h) (xs' @ (z, Free) # ys') (d + i)"
      using iu [of i] i dis b1 by (auto simp: p_def)
    have "hmem h1 (of_nat (p + i)) = hmem h (of_nat (p + i))"
      using s(4) [unfolded keeps_payload_def, rule_format, of "p + i"] less_diff_conv [THEN iffD1, OF i]
      by (simp add: p_def add.commute)
    moreover have "m2 (of_nat (d + i)) = hmem h1 (of_nat (p + i))"
      using m2 [of "d + i"] lim(1) i by auto
    moreover have "q + of_nat i = of_nat (d + i)" "block_ptr h xs + of_nat i = of_nat (p + i)"
      using pv by (simp_all add: d_def)
    ultimately show ?thesis
      using fr [OF f] f by (simp add: in_used_glue d_def del: of_nat_add)
  qed
  then show ?thesis
    using pvPortRealloc_unfold [OF inv1 call] h' ptr(1) by (auto simp: h2_def m2_def)
qed

definition ex_heap2 :: heap4 where
  "ex_heap2 = snd (the (pvPortMalloc 200 ex_heap1))"

lemma ex_malloc2: "pvPortMalloc 200 ex_heap1 = Some (0x20000078, ex_heap2)"
  using malloc_spec [OF ex_heap1_inv, of 200]
  by (auto simp: ex_heap2_def spec_malloc_def adj_def ptr_at_def ex_heap1_start)

theorem pvPortRealloc_grow_witness:
  "\<exists>h' bs'. pvPortRealloc 0x20000008 200 ex_heap1 = Some (0x20000078, h') \<and> heap_inv h' bs' \<and>
     hmem h' (0x20000078 + of_nat 99) = hmem ex_heap1 (0x20000008 + of_nat 99)"
proof -
  have p: "block_ptr ex_heap1 [] = 0x20000008" by (simp add: block_ptr_def ex_heap1_start)
  have i: "heap_inv ex_heap1 ([] @ (112, Used) # [(59880, Free)])" using ex_heap1_inv by simp
  have a: "112 + 8 \<le> adj (unat (200 :: u32))" "(0x20000078 :: u32) \<noteq> 0" by (simp_all add: adj_def)
  from pvPortRealloc_grow [OF i a(1) ex_malloc2 a(2), unfolded p] obtain h' bs' where
    h': "pvPortRealloc 0x20000008 200 ex_heap1 = Some (0x20000078, h')" "heap_inv h' bs'"
      "\<forall>i < 112 - 8. hmem h' (0x20000078 + of_nat i) = hmem ex_heap1 (0x20000008 + of_nat i)" by blast
  have "hmem h' (0x20000078 + of_nat 99) = hmem ex_heap1 (0x20000008 + of_nat 99)"
    by (rule h'(3) [rule_format]) simp
  then show ?thesis using h'(1,2) by blast
qed

end
