(* ===== verification/Heap_Service.thy ===== *)
theory Heap_Service
  imports Heap4_Realloc
begin

text \<open>
  The heap as an interface.  The POSIX layer only calls \<open>pvPortMalloc\<close> and \<open>vPortFree\<close> and relies
  on three laws: a request returns and either fails without effect or yields a pointer that is
  not live yet, and a live pointer can be released.  The locale \<open>heap_service\<close> states them, its
  lemmas are what the clients need, and the FreeRTOS heap is an instance.
\<close>

locale heap_service =
  fixes inv :: "'s \<Rightarrow> bool"
    and live :: "'s \<Rightarrow> u32 set"
    and malloc :: "u32 \<Rightarrow> 's \<Rightarrow> (u32 \<times> 's) option"
    and free :: "u32 \<Rightarrow> 's \<Rightarrow> 's option"
  assumes malloc_returns: "inv s \<Longrightarrow> \<exists>p s'. malloc n s = Some (p, s') \<and> inv s' \<and>
      (p = 0 \<and> live s' = live s \<or> p \<noteq> 0 \<and> p \<notin> live s \<and> live s' = insert p (live s))"
    and free_live: "inv s \<Longrightarrow> p \<in> live s \<Longrightarrow> \<exists>s'. free p s = Some s' \<and> inv s' \<and> live s' = live s - {p}"
    and free_null: "free 0 s = Some s"
    and null_not_live: "inv s \<Longrightarrow> 0 \<notin> live s"
begin

text \<open>Releasing a list of distinct live pointers one after the other.\<close>

fun free_all :: "u32 list \<Rightarrow> 's \<Rightarrow> 's option" where
  "free_all [] s = Some s"
| "free_all (p # ps) s = Option.bind (free p s) (free_all ps)"

lemma free_all_live:
  "inv s \<Longrightarrow> distinct ps \<Longrightarrow> set ps \<subseteq> live s \<Longrightarrow>
   \<exists>s'. free_all ps s = Some s' \<and> inv s' \<and> live s' = live s - set ps"
proof (induction ps arbitrary: s)
  case (Cons p ps)
  obtain s1 where s1: "free p s = Some s1" "inv s1" "live s1 = live s - {p}"
    using free_live [of s p] Cons.prems by auto
  obtain s2 where "free_all ps s1 = Some s2" "inv s2" "live s2 = live s1 - set ps"
    using Cons.IH [OF s1(2)] Cons.prems s1(3) by auto
  then show ?case using s1 by auto
qed auto

lemma malloc_cases:
  assumes "inv s"
  obtains (null) s' where "malloc n s = Some (0, s')" "inv s'" "live s' = live s"
  | (fresh) p s' where "malloc n s = Some (p, s')" "inv s'" "p \<noteq> 0" "p \<notin> live s" "live s' = insert p (live s)"
  using malloc_returns [OF assms, of n] by blast

text \<open>An allocation that is given back leaves the live pointers as they were.\<close>

lemma malloc_free_live:
  assumes "inv s" "malloc n s = Some (p, s1)"
  shows "\<exists>s2. free p s1 = Some s2 \<and> inv s2 \<and> live s2 = live s"
proof (rule malloc_cases [OF assms(1), of n])
  fix s' assume "malloc n s = Some (0, s')" "inv s'" "live s' = live s"
  then show ?thesis using assms(2) free_null by auto
next
  fix q s' assume "malloc n s = Some (q, s')" "inv s'" "q \<noteq> 0" "q \<notin> live s" "live s' = insert q (live s)"
  then show ?thesis using assms(2) free_live [of s1 p] by auto
qed

end

subsection \<open>The FreeRTOS heap as an instance\<close>

fun used_ptrs :: "nat \<Rightarrow> blk list \<Rightarrow> nat list" where
  "used_ptrs a [] = []"
| "used_ptrs a ((z, k) # bs) = (if k = Used then (a + 8) # used_ptrs (a + z) bs else used_ptrs (a + z) bs)"

lemma used_ptrs_append [simp]: "used_ptrs a (xs @ ys) = used_ptrs a xs @ used_ptrs (a + total_size xs) ys"
  by (induction xs arbitrary: a) (auto simp: add.assoc)

lemma used_ptrs_bounds:
  "\<forall>b \<in> set bs. 16 \<le> fst b \<Longrightarrow> p \<in> set (used_ptrs a bs) \<Longrightarrow> a + 8 \<le> p \<and> p + 8 \<le> a + total_size bs"
  by (induction a bs rule: used_ptrs.induct) (force split: if_splits)+

lemma used_ptrs_split:
  "p \<in> set (used_ptrs a bs) \<Longrightarrow> \<exists>xs z ys. bs = xs @ (z, Used) # ys \<and> p = a + total_size xs + 8"
proof (induction a bs rule: used_ptrs.induct)
  case (2 a z k bs)
  show ?case
  proof (cases "k = Used \<and> p = a + 8")
    case True
    then show ?thesis by (intro exI [of _ "[]"]) auto
  next
    case False
    then obtain xs z' ys where "bs = xs @ (z', Used) # ys" "p = a + z + total_size xs + 8"
      using 2 by (auto split: if_splits)
    then show ?thesis by (intro exI [of _ "(z, k) # xs"]) auto
  qed
qed simp

lemma used_ptrs_glue: "set (used_ptrs a (glue xs z ys)) = set (used_ptrs a (xs @ (z, Free) # ys))"
  by (rule glue_cases [where xs = xs and ys = ys and z = z]) (auto simp: add.assoc)

text \<open>The blocks of a well-formed heap are determined by the state: the invariant with them hidden.\<close>

definition heap_ok :: "heap4 \<Rightarrow> bool" where
  "heap_ok h \<longleftrightarrow> (\<exists>bs. heap_inv h bs)"

definition heap_live :: "heap4 \<Rightarrow> u32 set" where
  "heap_live h = {of_nat p |p bs. heap_inv h bs \<and> p \<in> set (used_ptrs (heap_start h) bs)}"

lemma heap_inv_unique_aux:
  "hdrs m a bs \<Longrightarrow> hdrs m a bs' \<Longrightarrow> total_size bs = total_size bs' \<Longrightarrow>
   \<forall>b \<in> set bs \<union> set bs'. 16 \<le> fst b \<and> fst b < 2 ^ 31 \<and> snd b \<noteq> Limbo \<Longrightarrow> bs = bs'"
proof (induction m a bs arbitrary: bs' rule: hdrs.induct)
  case (1 m a)
  then show ?case by (cases bs') auto
next
  case (2 m a z k bs)
  obtain z' k' bs1 where b: "bs' = (z', k') # bs1" using 2(4,5) by (cases bs') auto
  have "z = z' \<and> k = k'"
    using 2(2,3,5) b by (cases k; cases k') auto
  then show ?case using 2(1) [of bs1] 2(2-5) b by (auto split: bkind.splits)
qed

lemma heap_inv_unique: "heap_inv h bs \<Longrightarrow> heap_inv h bs' \<Longrightarrow> bs = bs'"
proof (rule heap_inv_unique_aux [of "hmem h" "heap_start h"])
  assume i: "heap_inv h bs" "heap_inv h bs'"
  show "hdrs (hmem h) (heap_start h) bs" "hdrs (hmem h) (heap_start h) bs'" using i by (simp_all add: heap_inv_def)
  show "total_size bs = total_size bs'" using heap_inv_facts(4) [OF i(1)] heap_inv_facts(4) [OF i(2)] by simp
  have "16 \<le> fst b \<and> fst b < 2 ^ 31 \<and> snd b \<noteq> Limbo" if "b \<in> set cs" "heap_inv h cs" for b cs
  proof -
    have "fst b < 2 ^ 31" using split_list [OF that(1)] that(2) block_size_lt by (metis prod.collapse)
    moreover have "blocks_ok cs" using that(2) by (simp add: heap_inv_def)
    ultimately show ?thesis using heap_inv_facts(1) [OF that(2)] that(1) by (simp add: blocks_ok_def)
  qed
  then show "\<forall>b \<in> set bs \<union> set bs'. 16 \<le> fst b \<and> fst b < 2 ^ 31 \<and> snd b \<noteq> Limbo"
    using i by blast
qed

lemma heap_live_eq: "heap_inv h bs \<Longrightarrow> heap_live h = of_nat ` set (used_ptrs (heap_start h) bs)"
  unfolding heap_live_def using heap_inv_unique by blast

lemma live_ptr_lt: "heap_inv h bs \<Longrightarrow> p \<in> set (used_ptrs (heap_start h) bs) \<Longrightarrow> 0 < p \<and> p < 2 ^ 32"
  using used_ptrs_bounds [of bs p] heap_inv_facts [of h bs] by fastforce

lemma same_heap_start: "same_heap h h' \<Longrightarrow> heap_start h' = heap_start h"
  by (simp add: same_heap_def heap_start_def)

lemma heap_malloc_live:
  assumes "heap_ok h"
  shows "\<exists>p h'. pvPortMalloc n h = Some (p, h') \<and> heap_ok h' \<and>
    (p = 0 \<and> heap_live h' = heap_live h \<or> p \<noteq> 0 \<and> p \<notin> heap_live h \<and> heap_live h' = insert p (heap_live h))"
proof -
  obtain bs where inv: "heap_inv h bs" using assms by (auto simp: heap_ok_def)
  obtain p h' where call: "pvPortMalloc n h = Some (p, h')" using malloc_spec [OF inv] by blast
  show ?thesis
  proof (cases "p = 0")
    case True
    have "h' = h"
    proof (cases "spec_malloc (unat n) bs")
      case (Some r)
      then show ?thesis using malloc_spec [OF inv, of n] call True malloc_ptr_nonnull [OF inv] by (cases r) auto
    qed (use malloc_spec [OF inv, of n] call in auto)
    then show ?thesis using call True assms by simp
  next
    case False
    obtain xs bs' z ys where s: "unat p = heap_start h + total_size xs + 8" "heap_inv h' bs'" "same_heap h h'"
      "bs = xs @ (z, Free) # ys" "bs' = xs @ (carve_head (adj (unat n)) z, Used) # carve_rest (adj (unat n)) z ys"
      "adj (unat n) \<le> carve_head (adj (unat n)) z" "carve_head (adj (unat n)) z \<le> z"
      by (rule malloc_spec_success [OF inv call False])
    let ?a = "heap_start h"
    have u: "set (used_ptrs ?a bs') = insert (unat p) (set (used_ptrs ?a bs))"
      using s(1,4-7) by (auto simp: carve_rest_def carve_head_def add.assoc)
    have "unat p \<notin> set (used_ptrs ?a bs)"
      using used_ptrs_bounds [of xs "unat p" ?a] used_ptrs_bounds [of ys "unat p" "?a + total_size xs + z"]
        heap_inv_facts(1) [OF inv] s(1,4) by fastforce
    then have "p \<notin> heap_live h"
      unfolding heap_live_eq [OF inv] using live_ptr_lt [OF inv] by auto
    moreover have "heap_live h' = insert p (heap_live h)"
      unfolding heap_live_eq [OF inv] heap_live_eq [OF s(2)] same_heap_start [OF s(3)] u by simp
    ultimately show ?thesis using call False s(2) by (auto simp: heap_ok_def)
  qed
qed

lemma heap_free_live:
  assumes "heap_ok h" "p \<in> heap_live h"
  shows "\<exists>h'. vPortFree p h = Some h' \<and> heap_ok h' \<and> heap_live h' = heap_live h - {p}"
proof -
  obtain bs where inv: "heap_inv h bs" using assms by (auto simp: heap_ok_def)
  obtain q where q: "p = of_nat q" "q \<in> set (used_ptrs (heap_start h) bs)"
    using assms(2) heap_live_eq [OF inv] by auto
  obtain xs z ys where b: "bs = xs @ (z, Used) # ys" "q = heap_start h + total_size xs + 8"
    using used_ptrs_split [OF q(2)] by blast
  have big: "\<forall>b \<in> set bs. 16 \<le> fst b" using heap_inv_facts(1) [OF inv] .
  have ptr: "p = block_ptr h xs" using q b by (simp add: block_ptr_def)
  obtain h' where h': "vPortFree p h = Some h'" "heap_inv h' (glue xs z ys)" "same_heap h h'"
    unfolding ptr by (rule vPortFree_used [OF inv [unfolded b(1)]]) (simp add: same_heap_def)
  let ?a = "heap_start h"
  have u: "set (used_ptrs ?a (xs @ (z, Free) # ys)) = set (used_ptrs ?a bs) - {q}"
  proof -
    have "\<forall>b \<in> set xs. 16 \<le> fst b" "\<forall>b \<in> set ys. 16 \<le> fst b" "16 \<le> z" using big b(1) by simp_all
    then have "q \<notin> set (used_ptrs ?a xs)" "q \<notin> set (used_ptrs (?a + total_size xs + z) ys)"
      using b(2) used_ptrs_bounds [of xs q ?a] used_ptrs_bounds [of ys q "?a + total_size xs + z"] by auto
    then show ?thesis using b by auto
  qed
  have "heap_live h' = of_nat ` (set (used_ptrs ?a bs) - {q})"
    unfolding heap_live_eq [OF h'(2)] same_heap_start [OF h'(3)] used_ptrs_glue u ..
  also have "\<dots> = heap_live h - {p}"
  proof -
    have "inj_on (of_nat :: nat \<Rightarrow> u32) (set (used_ptrs ?a bs))"
      using live_ptr_lt [OF inv] by (intro inj_onI) (simp add: of_nat_eq_iff_u32)
    then show ?thesis
      unfolding heap_live_eq [OF inv] q(1) using q(2) by (subst inj_on_image_set_diff) auto
  qed
  finally show ?thesis using h' by (auto simp: heap_ok_def)
qed

lemma heap_null_not_live: "heap_ok h \<Longrightarrow> 0 \<notin> heap_live h"
  using heap_live_eq [of h] live_ptr_lt [of h] u32_of_nat_0 unfolding heap_ok_def by fastforce

lemma vPortFree_null: "vPortFree 0 h = Some h"
  by (simp add: vPortFree_def)

interpretation h4: heap_service heap_ok heap_live pvPortMalloc vPortFree
  by unfold_locales (fact heap_malloc_live heap_free_live heap_null_not_live vPortFree_null)+

text \<open>
  Of a set of distinct blocks in use any list can be released, in any order: every
  \<open>vPortFree\<close> returns and afterwards exactly the other blocks are in use.
\<close>

theorem heap_free_list:
  assumes "heap_ok h" "distinct ps" "set ps \<subseteq> heap_live h"
  shows "\<exists>h'. fold (\<lambda>p s. Option.bind s (vPortFree p)) ps (Some h) = Some h' \<and> heap_ok h' \<and>
    heap_live h' = heap_live h - set ps"
proof -
  have f: "fold (\<lambda>p s. Option.bind s (vPortFree p)) ps (Some s) = h4.free_all ps s" for s
  proof (induction ps arbitrary: s)
    case (Cons p ps)
    have "fold (\<lambda>p s. Option.bind s (vPortFree p)) ps None = None" by (induction ps) auto
    then show ?case using Cons by (cases "vPortFree p s") auto
  qed simp
  show ?thesis unfolding f using h4.free_all_live [OF assms] .
qed

theorem heap_free_list_witness:
  "heap_ok ex_heap1 \<and> heap_live ex_heap1 = {0x20000008} \<and>
   (\<exists>h'. fold (\<lambda>p s. Option.bind s (vPortFree p)) [0x20000008] (Some ex_heap1) = Some h' \<and> heap_live h' = {})"
proof -
  have ok: "heap_ok ex_heap1" using ex_heap1_inv by (auto simp: heap_ok_def)
  have l: "heap_live ex_heap1 = {0x20000008}"
    using heap_live_eq [OF ex_heap1_inv] by (simp add: ex_heap1_start)
  show ?thesis using heap_free_list [OF ok, of "[0x20000008]"] ok l by auto
qed

end
