(* ===== verification/Allocators.thy ===== *)
theory Allocators
  imports Heap_Service
begin

text \<open>
  \<open>src/src/freertos/allocators.c\<close>: the allocator functions that micro-ROS is given, on top of the
  FreeRTOS heap, with the two counters \<open>absoluteUsedMemory\<close> and \<open>usedMemory\<close>.  Both are C \<open>int\<close>s
  to which a \<open>size_t\<close> is added, so they are 32-bit words here.
\<close>

record allocator =
  aheap :: heap4
  absoluteUsedMemory :: u32
  usedMemory :: u32

definition freertos_allocate :: "u32 \<Rightarrow> allocator \<Rightarrow> (u32 \<times> allocator) option" where
  "freertos_allocate nbytes s =
     do {
       (p, h) \<leftarrow> pvPortMalloc nbytes (aheap s);
       Some (p, s\<lparr>aheap := h, absoluteUsedMemory := absoluteUsedMemory s + nbytes,
                  usedMemory := usedMemory s + nbytes\<rparr>)
     }"

definition freertos_deallocate :: "u32 \<Rightarrow> allocator \<Rightarrow> allocator option" where
  "freertos_deallocate pointer s =
     (if pointer \<noteq> 0 then
        do {
          let used = usedMemory s - getBlockSize pointer (aheap s);
          h \<leftarrow> vPortFree pointer (aheap s);
          Some (s\<lparr>aheap := h, usedMemory := used\<rparr>)
        }
      else Some s)"

definition freertos_reallocate :: "u32 \<Rightarrow> u32 \<Rightarrow> allocator \<Rightarrow> (u32 \<times> allocator) option" where
  "freertos_reallocate pointer nbytes s =
     (if pointer \<noteq> 0 then
        do {
          let used = (usedMemory s + nbytes) - getBlockSize pointer (aheap s);
          (p, h) \<leftarrow> pvPortRealloc pointer nbytes (aheap s);
          Some (p, s\<lparr>aheap := h, absoluteUsedMemory := absoluteUsedMemory s + nbytes, usedMemory := used\<rparr>)
        }
      else
        do {
          (p, h) \<leftarrow> pvPortMalloc nbytes (aheap s);
          Some (p, s\<lparr>aheap := h, absoluteUsedMemory := absoluteUsedMemory s + nbytes,
                     usedMemory := usedMemory s + nbytes\<rparr>)
        })"

definition freertos_zero_allocate :: "u32 \<Rightarrow> u32 \<Rightarrow> allocator \<Rightarrow> (u32 \<times> allocator) option" where
  "freertos_zero_allocate number_of_elements size_of_element s =
     do {
       (p, h) \<leftarrow> pvPortCalloc number_of_elements size_of_element (aheap s);
       Some (p, s\<lparr>aheap := h,
                  absoluteUsedMemory := absoluteUsedMemory s + number_of_elements * size_of_element,
                  usedMemory := usedMemory s + number_of_elements * size_of_element\<rparr>)
     }"

lemma getBlockSize_used:
  assumes inv: "heap_inv h (xs @ (z, Used) # ys)"
  shows "getBlockSize (block_ptr h xs) h = of_nat z"
proof -
  define t where "t = heap_start h + total_size xs"
  have l: "block_ptr h xs - xHeapStructSize = of_nat t" by (simp add: block_ptr_def t_def)
  have "sz (hmem h) t = z + 2 ^ 31" "xBlockAllocatedBit h = push_bit 31 1"
    using inv by (auto simp: heap_inv_def t_def)
  then show ?thesis
    unfolding getBlockSize_def Let_def l size_of_nat using u32_allocated_bit(4) [OF block_size_lt [OF inv]] by simp
qed

text \<open>
  Allocating and then releasing a block through the micro-ROS allocator always returns, and
  leaves the heap's block list and free bytes as they were; but \<open>usedMemory\<close> ends at least 8
  below its old value, because the release subtracts the size of the whole block, header and
  padding included, where the allocation added the requested size.
\<close>

theorem allocate_deallocate_drift:
  assumes inv: "heap_inv (aheap s) bs" and a: "freertos_allocate w s = Some (p, s1)" and ok: "p \<noteq> 0"
  shows "\<exists>s2 c. freertos_deallocate p s1 = Some s2 \<and> heap_inv (aheap s2) bs \<and>
     xFreeBytesRemaining (aheap s2) = xFreeBytesRemaining (aheap s) \<and>
     usedMemory s2 = usedMemory s + w - of_nat c \<and> unat w + 8 \<le> c \<and> c < 2 ^ 31"
proof -
  obtain h1 where m: "pvPortMalloc w (aheap s) = Some (p, h1)"
    and s1: "s1 = s\<lparr>aheap := h1, absoluteUsedMemory := absoluteUsedMemory s + w, usedMemory := usedMemory s + w\<rparr>"
    using a by (auto simp: freertos_allocate_def split: bind_splits)
  obtain xs bs' z ys where b: "p = block_ptr (aheap s) xs" "heap_inv h1 bs'" "same_heap (aheap s) h1"
    "bs' = xs @ (carve_head (adj (unat w)) z, Used) # carve_rest (adj (unat w)) z ys"
    "unat w + 8 \<le> carve_head (adj (unat w)) z"
    by (rule malloc_spec_success [OF inv m ok])
  have p: "p = block_ptr h1 xs" using b(1,3) by (simp add: block_ptr_def same_heap_def heap_start_def)
  obtain h2 where h2: "vPortFree p h1 = Some h2" "heap_inv h2 bs" "xFreeBytesRemaining h2 = xFreeBytesRemaining (aheap s)"
    using malloc_free_restores [OF inv m ok] by blast
  have "getBlockSize p h1 = of_nat (carve_head (adj (unat w)) z)" "carve_head (adj (unat w)) z < 2 ^ 31"
    using getBlockSize_used b(2,4) block_size_lt unfolding p by blast+
  then show ?thesis
    using h2 b(5) ok by (auto simp: s1 freertos_deallocate_def intro!: exI [of _ "carve_head (adj (unat w)) z"])
qed

theorem allocate_deallocate_drift_witness:
  "\<exists>s1 s2 c. freertos_allocate 100 \<lparr>aheap = ex_heap, absoluteUsedMemory = 0, usedMemory = 0\<rparr> = Some (0x20000008, s1) \<and>
     freertos_deallocate 0x20000008 s1 = Some s2 \<and> usedMemory s2 = 100 - of_nat c \<and> 108 \<le> c"
proof -
  let ?s = "\<lparr>aheap = ex_heap, absoluteUsedMemory = 0, usedMemory = 0\<rparr>"
  obtain s1 where s1: "freertos_allocate 100 ?s = Some (0x20000008, s1)"
    using ex_malloc by (auto simp: freertos_allocate_def)
  have "heap_inv (aheap ?s) [(59992, Free)]" "(0x20000008 :: u32) \<noteq> 0" using ex_heap_inv by simp_all
  from allocate_deallocate_drift [OF this(1) s1 this(2)] s1 show ?thesis by auto
qed

end
