(* ===== verification/Heap_Store.thy ===== *)
theory Heap_Store
  imports Heap_Service
begin

text \<open>
  The heap as a store of byte strings.  \<open>heap_store\<close> extends \<open>heap_service\<close> by what a client may
  do with the blocks it owns: write them, read back what it wrote, and rely on their contents
  while other blocks are allocated, written and released.  The message queues rest on it.
\<close>

locale heap_store = heap_service inv live malloc free
  for inv :: "'s \<Rightarrow> bool" and live :: "'s \<Rightarrow> u32 set"
    and malloc :: "u32 \<Rightarrow> 's \<Rightarrow> (u32 \<times> 's) option" and free :: "u32 \<Rightarrow> 's \<Rightarrow> 's option" +
  fixes owns :: "'s \<Rightarrow> u32 \<Rightarrow> nat \<Rightarrow> bool"
    and rd :: "'s \<Rightarrow> u32 \<Rightarrow> nat \<Rightarrow> u8 list"
    and wr :: "u32 \<Rightarrow> u8 list \<Rightarrow> 's \<Rightarrow> 's"
  assumes owns_live: "inv s \<Longrightarrow> owns s p n \<Longrightarrow> p \<in> live s"
    and malloc_owns: "inv s \<Longrightarrow> malloc c s = Some (p, s') \<Longrightarrow> p \<noteq> 0 \<Longrightarrow> owns s' p (unat c)"
    and malloc_keeps: "inv s \<Longrightarrow> malloc c s = Some (p, s') \<Longrightarrow> owns s q k \<Longrightarrow> owns s' q k \<and> rd s' q k = rd s q k"
    and free_keeps: "inv s \<Longrightarrow> p \<in> live s \<Longrightarrow> free p s = Some s' \<Longrightarrow> owns s q k \<Longrightarrow> q \<noteq> p \<Longrightarrow>
      owns s' q k \<and> rd s' q k = rd s q k"
    and wr_inv: "inv s \<Longrightarrow> owns s p n \<Longrightarrow> length xs \<le> n \<Longrightarrow> inv (wr p xs s) \<and> live (wr p xs s) = live s"
    and wr_owns: "inv s \<Longrightarrow> owns s p n \<Longrightarrow> length xs \<le> n \<Longrightarrow> owns s q k \<Longrightarrow> owns (wr p xs s) q k"
    and wr_rd: "inv s \<Longrightarrow> owns s p n \<Longrightarrow> length xs \<le> n \<Longrightarrow> rd (wr p xs s) p (length xs) = xs"
    and wr_other: "inv s \<Longrightarrow> owns s p n \<Longrightarrow> length xs \<le> n \<Longrightarrow> owns s q k \<Longrightarrow> q \<noteq> p \<Longrightarrow> rd (wr p xs s) q k = rd s q k"
begin

text \<open>Storing a byte string in a new block: what a queue does with a message.\<close>

lemma store_new:
  assumes inv: "inv s" and m: "malloc (of_nat (length xs)) s = Some (p, s1)" and p: "p \<noteq> 0" and len: "length xs < 2 ^ 32"
  shows "inv (wr p xs s1)" "p \<notin> live s" "live (wr p xs s1) = insert p (live s)"
    "owns (wr p xs s1) p (length xs)" "rd (wr p xs s1) p (length xs) = xs"
    "\<And>q k. owns s q k \<Longrightarrow> owns (wr p xs s1) q k \<and> rd (wr p xs s1) q k = rd s q k"
proof -
  have o: "owns s1 p (length xs)" using malloc_owns [OF inv m p] len by simp
  obtain s1': "inv s1" "p \<notin> live s" "live s1 = insert p (live s)"
    using malloc_returns [OF inv, of "of_nat (length xs)"] m p by auto
  show "p \<notin> live s" by fact
  show "inv (wr p xs s1)" "live (wr p xs s1) = insert p (live s)"
    using wr_inv [OF s1'(1) o order_refl] s1'(3) by auto
  show "owns (wr p xs s1) p (length xs)" "rd (wr p xs s1) p (length xs) = xs"
    using wr_owns [OF s1'(1) o order_refl o] wr_rd [OF s1'(1) o order_refl] by auto
  fix q k assume q: "owns s q k"
  have "q \<noteq> p" using owns_live [OF inv q] s1'(2) by auto
  moreover have "owns s1 q k" "rd s1 q k = rd s q k" using malloc_keeps [OF inv m q] by auto
  ultimately show "owns (wr p xs s1) q k \<and> rd (wr p xs s1) q k = rd s q k"
    using wr_owns [OF s1'(1) o order_refl] wr_other [OF s1'(1) o order_refl] by auto
qed

end

subsection \<open>The FreeRTOS heap as an instance\<close>

fun used_blocks :: "nat \<Rightarrow> blk list \<Rightarrow> (nat \<times> nat) list" where
  "used_blocks a [] = []"
| "used_blocks a ((z, k) # bs) = (if k = Used then (a + 8, z - 8) # used_blocks (a + z) bs else used_blocks (a + z) bs)"

lemma used_blocks_append [simp]: "used_blocks a (xs @ ys) = used_blocks a xs @ used_blocks (a + total_size xs) ys"
  by (induction xs arbitrary: a) (auto simp: add.assoc)

lemma used_ptrs_blocks: "used_ptrs a bs = map fst (used_blocks a bs)"
  by (induction a bs rule: used_ptrs.induct) auto

lemma used_blocks_bounds:
  "\<forall>b \<in> set bs. 16 \<le> fst b \<Longrightarrow> (p, k) \<in> set (used_blocks a bs) \<Longrightarrow> a + 8 \<le> p \<and> p + k \<le> a + total_size bs \<and> 8 \<le> k"
  by (induction a bs rule: used_blocks.induct) (force split: if_splits)+

lemma used_blocks_in_used:
  "\<forall>b \<in> set bs. 16 \<le> fst b \<Longrightarrow> (p, k) \<in> set (used_blocks a bs) \<Longrightarrow> p \<le> r \<Longrightarrow> r < p + k \<Longrightarrow> in_used a bs r"
  by (induction a bs rule: used_blocks.induct) (force split: if_splits)+

lemma used_blocks_disjoint:
  "\<forall>b \<in> set bs. 16 \<le> fst b \<Longrightarrow> (p, k) \<in> set (used_blocks a bs) \<Longrightarrow> (q, j) \<in> set (used_blocks a bs) \<Longrightarrow>
   p = q \<and> k = j \<or> p + k \<le> q \<or> q + j \<le> p"
proof (induction a bs rule: used_blocks.induct)
  case (2 a z kd bs)
  have big: "\<forall>b \<in> set bs. 16 \<le> fst b" "16 \<le> z" using 2(3) by auto
  have far: "a + z + 8 \<le> r" if "(r, i) \<in> set (used_blocks (a + z) bs)" for r i
    using used_blocks_bounds [OF big(1) that] by simp
  show ?case
  proof (cases "kd = Used")
    case True
    then have "(p = a + 8 \<and> k = z - 8 \<or> (p, k) \<in> set (used_blocks (a + z) bs)) \<and>
        (q = a + 8 \<and> j = z - 8 \<or> (q, j) \<in> set (used_blocks (a + z) bs))"
      using 2(4,5) by auto
    then show ?thesis using far [of p k] far [of q j] 2(1) [OF True big(1)] big(2) by auto
  next
    case False
    then show ?thesis using 2(2) [OF False big(1)] 2(4,5) by simp
  qed
qed simp

lemma used_blocks_glue: "set (used_blocks a (glue xs z ys)) = set (used_blocks a (xs @ (z, Free) # ys))"
  by (rule glue_cases [where xs = xs and ys = ys and z = z]) (auto simp: add.assoc)

definition heap_owns :: "heap4 \<Rightarrow> u32 \<Rightarrow> nat \<Rightarrow> bool" where
  "heap_owns h p n \<longleftrightarrow> (\<exists>bs k. heap_inv h bs \<and> (unat p, k) \<in> set (used_blocks (heap_start h) bs) \<and> n \<le> k)"

primrec read_bytes :: "mem \<Rightarrow> u32 \<Rightarrow> nat \<Rightarrow> u8 list" where
  "read_bytes m p 0 = []"
| "read_bytes m p (Suc n) = m p # read_bytes m (p + 1) n"

primrec write_bytes :: "u32 \<Rightarrow> u8 list \<Rightarrow> mem \<Rightarrow> mem" where
  "write_bytes p [] m = m"
| "write_bytes p (x # xs) m = write_bytes (p + 1) xs (m(p := x))"

definition heap_read :: "heap4 \<Rightarrow> u32 \<Rightarrow> nat \<Rightarrow> u8 list" where
  "heap_read h p n = read_bytes (hmem h) p n"

definition heap_write :: "u32 \<Rightarrow> u8 list \<Rightarrow> heap4 \<Rightarrow> heap4" where
  "heap_write p xs h = h\<lparr>hmem := write_bytes p xs (hmem h)\<rparr>"

lemma read_bytes_cong:
  "\<forall>i < n. m' (p + of_nat i) = m (p + of_nat i) \<Longrightarrow> read_bytes m' p n = read_bytes m p n"
proof (induction n arbitrary: p)
  case (Suc n)
  have "m' (p + 1 + of_nat i) = m (p + 1 + of_nat i)" if "i < n" for i
    using Suc.prems [rule_format, of "Suc i"] that by (simp add: add.assoc)
  then show ?case using Suc.IH [of "p + 1"] Suc.prems [rule_format, of 0] by simp
qed simp

lemma write_bytes_at:
  "unat p + length xs < 2 ^ 32 \<Longrightarrow>
   write_bytes p xs m r = (if unat p \<le> unat r \<and> unat r < unat p + length xs then xs ! (unat r - unat p) else m r)"
proof (induction xs arbitrary: p m)
  case (Cons x xs)
  have p1: "unat (p + 1) = unat p + 1" using Cons.prems by (subst unat_add_u32) simp_all
  have "write_bytes p (x # xs) m r =
      (if unat p + 1 \<le> unat r \<and> unat r < unat p + 1 + length xs then xs ! (unat r - (unat p + 1)) else (m(p := x)) r)"
    using Cons.IH [of "p + 1"] Cons.prems p1 by simp
  also have "\<dots> = (if unat p \<le> unat r \<and> unat r < unat p + length (x # xs) then (x # xs) ! (unat r - unat p) else m r)"
  proof (cases "r = p")
    case False
    then have "unat r \<noteq> unat p" by (simp add: u32_eq_iff)
    then show ?thesis using False by (auto simp: nth_Cons' simp flip: diff_Suc_eq_diff_pred)
  qed simp
  finally show ?case .
qed auto

lemma read_bytes_list:
  "unat p + length xs < 2 ^ 32 \<Longrightarrow> \<forall>i < length xs. m (p + of_nat i) = xs ! i \<Longrightarrow> read_bytes m p (length xs) = xs"
proof (induction xs arbitrary: p)
  case (Cons x xs)
  have p1: "unat (p + 1) = unat p + 1" using Cons.prems by (subst unat_add_u32) simp_all
  have "m (p + 1 + of_nat i) = xs ! i" if "i < length xs" for i
    using Cons.prems(2) [rule_format, of "Suc i"] that by (simp add: add.assoc)
  then show ?case using Cons.IH [of "p + 1"] Cons.prems p1 Cons.prems(2) [rule_format, of 0] by simp
qed simp

lemma offset_unat: "unat p + n < 2 ^ 32 \<Longrightarrow> i < n \<Longrightarrow> unat (p + of_nat i :: u32) = unat p + i"
  by (subst unat_add_u32) simp_all

lemma heap_owns_used:
  assumes "heap_inv h bs"
  shows "heap_owns h p n \<longleftrightarrow> (\<exists>k. (unat p, k) \<in> set (used_blocks (heap_start h) bs) \<and> n \<le> k)"
  unfolding heap_owns_def using assms heap_inv_unique by blast

text \<open>The bytes of an owned block lie in one block in use, below the end of the heap.\<close>

lemma heap_owns_bytes:
  assumes inv: "heap_inv h bs" and o: "(unat p, k) \<in> set (used_blocks (heap_start h) bs)" and n: "n \<le> k" and i: "i < n"
  shows "unat p + n < 2 ^ 32" "unat (p + of_nat i :: u32) = unat p + i" "in_used (heap_start h) bs (unat p + i)"
proof -
  note b = used_blocks_bounds [OF heap_inv_facts(1) [OF inv] o] heap_inv_facts(2) [OF inv]
  show l: "unat p + n < 2 ^ 32" using b n by simp
  show "unat (p + of_nat i) = unat p + i" using offset_unat [OF l i] .
  show "in_used (heap_start h) bs (unat p + i)"
    using used_blocks_in_used [OF heap_inv_facts(1) [OF inv] o] n i by simp
qed

lemma keeps_read:
  assumes inv: "heap_inv h bs" and o: "(unat p, k) \<in> set (used_blocks (heap_start h) bs)" and n: "n \<le> k"
    and keep: "\<And>r. unat p \<le> r \<Longrightarrow> r < unat p + k \<Longrightarrow> hmem h' (of_nat r) = hmem h (of_nat r)"
  shows "heap_read h' p n = heap_read h p n"
  unfolding heap_read_def
proof (rule read_bytes_cong, intro allI impI)
  fix i assume i: "i < n"
  have "of_nat (unat p + i) = p + (of_nat i :: u32)" by simp
  then show "hmem h' (p + of_nat i) = hmem h (p + of_nat i)" using keep [of "unat p + i"] i n by (metis le_add1 nat_add_left_cancel_less order_less_le_trans)
qed

lemma heap_malloc_blocks:
  assumes inv: "heap_inv h bs" and call: "pvPortMalloc w h = Some (p, h')"
  obtains bs' where "heap_inv h' bs'" "heap_start h' = heap_start h" "keeps_payload bs h h'"
    "set (used_blocks (heap_start h) bs) \<subseteq> set (used_blocks (heap_start h) bs')"
    "p \<noteq> 0 \<Longrightarrow> \<exists>k \<ge> unat w. (unat p, k) \<in> set (used_blocks (heap_start h) bs')"
proof (cases "p = 0")
  case True
  have "h' = h"
  proof (cases "spec_malloc (unat w) bs")
    case (Some r)
    then show ?thesis using malloc_spec [OF inv, of w] call True malloc_ptr_nonnull [OF inv] by (cases r) auto
  qed (use malloc_spec [OF inv, of w] call in auto)
  then show thesis using that [of bs] inv True by (simp add: keeps_payload_def)
next
  case False
  let ?c = "\<lambda>z. carve_head (adj (unat w)) z"
  obtain xs bs' z ys where s: "unat p = heap_start h + total_size xs + 8" "heap_inv h' bs'" "same_heap h h'"
    "keeps_payload bs h h'" "bs = xs @ (z, Free) # ys" "bs' = xs @ (?c z, Used) # carve_rest (adj (unat w)) z ys"
    "unat w + 8 \<le> ?c z" "?c z \<le> z"
    by (rule malloc_spec_success [OF inv call False])
  have "set (used_blocks (heap_start h) bs') = insert (unat p, ?c z - 8) (set (used_blocks (heap_start h) bs))"
    using s(1,5-8) by (auto simp: carve_rest_def carve_head_def add.assoc)
  then show thesis using s(7) by (intro that [OF s(2) same_heap_start [OF s(3)] s(4)]) (auto intro!: exI [of _ "?c z - 8"])
qed

lemma heap_free_blocks:
  assumes inv: "heap_inv h bs" and p: "p \<in> heap_live h" and call: "vPortFree p h = Some h'"
  obtains bs' where "heap_inv h' bs'" "heap_start h' = heap_start h" "keeps_payload bs' h h'"
    "\<And>q k. (q, k) \<in> set (used_blocks (heap_start h) bs) \<Longrightarrow> q \<noteq> unat p \<Longrightarrow> (q, k) \<in> set (used_blocks (heap_start h) bs')"
proof -
  obtain q where q: "p = of_nat q" "q \<in> set (used_ptrs (heap_start h) bs)"
    using p heap_live_eq [OF inv] by auto
  obtain xs z ys where b: "bs = xs @ (z, Used) # ys" "q = heap_start h + total_size xs + 8"
    using used_ptrs_split [OF q(2)] by blast
  have ptr: "p = block_ptr h xs" using q b by (simp add: block_ptr_def)
  have uq: "unat p = q" using live_ptr_lt [OF inv q(2)] q(1) by simp
  obtain h2 where h2: "vPortFree p h = Some h2" "heap_inv h2 (glue xs z ys)" "same_heap h h2"
    "keeps_payload (glue xs z ys) h h2"
    unfolding ptr by (rule vPortFree_used [OF inv [unfolded b(1)]]) (simp add: same_heap_def keeps_payload_def in_used_glue)
  show thesis
  proof (rule that [of "glue xs z ys"])
    show "heap_inv h' (glue xs z ys)" "heap_start h' = heap_start h" "keeps_payload (glue xs z ys) h h'"
      using h2 call same_heap_start [OF h2(3)] by auto
    fix r k assume "(r, k) \<in> set (used_blocks (heap_start h) bs)" "r \<noteq> unat p"
    then show "(r, k) \<in> set (used_blocks (heap_start h) (glue xs z ys))"
      unfolding used_blocks_glue b(1) using b(2) uq by auto
  qed
qed

lemma heap_write_blocks:
  assumes inv: "heap_inv h bs" and o: "(unat p, k) \<in> set (used_blocks (heap_start h) bs)" and n: "length xs \<le> k"
  shows "heap_inv (heap_write p xs h) bs" "heap_start (heap_write p xs h) = heap_start h"
    "\<And>r. r < 2 ^ 32 \<Longrightarrow> hmem (heap_write p xs h) (of_nat r) =
       (if unat p \<le> r \<and> r < unat p + length xs then xs ! (r - unat p) else hmem h (of_nat r))"
proof -
  note b = used_blocks_bounds [OF heap_inv_facts(1) [OF inv] o] heap_inv_facts(2) [OF inv]
  have l: "unat p + length xs < 2 ^ 32" using b n by simp
  show w: "hmem (heap_write p xs h) (of_nat r) =
       (if unat p \<le> r \<and> r < unat p + length xs then xs ! (r - unat p) else hmem h (of_nat r))" if "r < 2 ^ 32" for r
    using write_bytes_at [OF l, of "hmem h" "of_nat r"] that by (simp add: heap_write_def)
  show "heap_start (heap_write p xs h) = heap_start h" by (simp add: heap_write_def heap_start_def)
  have "write_bytes p xs (hmem h) (of_nat r) = hmem h (of_nat r)"
    if "r < 2 ^ 32" "\<not> in_used (heap_start h) bs r" for r
    using w [OF that(1)] that(2) used_blocks_in_used [OF heap_inv_facts(1) [OF inv] o, of r] n
    by (auto simp: heap_write_def split: if_splits)
  then show "heap_inv (heap_write p xs h) bs" unfolding heap_write_def by (rule heap_inv_payload [OF inv])
qed

lemma heap_store_malloc:
  assumes "heap_ok h" "pvPortMalloc n h = Some (p, h')"
  shows "p \<noteq> 0 \<Longrightarrow> heap_owns h' p (unat n)"
    "heap_owns h q k \<Longrightarrow> heap_owns h' q k \<and> heap_read h' q k = heap_read h q k"
proof -
  obtain bs where inv: "heap_inv h bs" using assms by (auto simp: heap_ok_def)
  obtain bs' where b: "heap_inv h' bs'" "heap_start h' = heap_start h" "keeps_payload bs h h'"
    "set (used_blocks (heap_start h) bs) \<subseteq> set (used_blocks (heap_start h) bs')"
    "p \<noteq> 0 \<Longrightarrow> \<exists>k \<ge> unat n. (unat p, k) \<in> set (used_blocks (heap_start h) bs')"
    by (rule heap_malloc_blocks [OF inv assms(2)]) blast
  show "p \<noteq> 0 \<Longrightarrow> heap_owns h' p (unat n)" using b(5) unfolding heap_owns_used [OF b(1)] b(2) by blast
  assume "heap_owns h q k"
  then obtain j where j: "(unat q, j) \<in> set (used_blocks (heap_start h) bs)" "k \<le> j"
    unfolding heap_owns_used [OF inv] by blast
  have "heap_read h' q k = heap_read h q k"
    by (rule keeps_read [OF inv j])
      (use b(3) used_blocks_in_used [OF heap_inv_facts(1) [OF inv] j(1)] in \<open>auto simp: keeps_payload_def\<close>)
  then show "heap_owns h' q k \<and> heap_read h' q k = heap_read h q k"
    unfolding heap_owns_used [OF b(1)] b(2) using j b(4) by blast
qed

lemma heap_store_free:
  assumes "heap_ok h" "p \<in> heap_live h" "vPortFree p h = Some h'" "heap_owns h q k" "q \<noteq> p"
  shows "heap_owns h' q k \<and> heap_read h' q k = heap_read h q k"
proof -
  obtain bs where inv: "heap_inv h bs" using assms by (auto simp: heap_ok_def)
  obtain bs' where b: "heap_inv h' bs'" "heap_start h' = heap_start h" "keeps_payload bs' h h'"
    "\<And>q k. (q, k) \<in> set (used_blocks (heap_start h) bs) \<Longrightarrow> q \<noteq> unat p \<Longrightarrow> (q, k) \<in> set (used_blocks (heap_start h) bs')"
    by (rule heap_free_blocks [OF inv assms(2,3)]) blast
  obtain j where j: "(unat q, j) \<in> set (used_blocks (heap_start h) bs)" "k \<le> j"
    using assms(4) unfolding heap_owns_used [OF inv] by blast
  have j': "(unat q, j) \<in> set (used_blocks (heap_start h) bs')" using b(4) [OF j(1)] assms(5) by (simp add: u32_eq_iff)
  have "heap_read h' q k = heap_read h q k"
    by (rule keeps_read [OF inv j])
      (use b(3) used_blocks_in_used [OF heap_inv_facts(1) [OF b(1)] j'] in \<open>auto simp: keeps_payload_def\<close>)
  then show ?thesis unfolding heap_owns_used [OF b(1)] b(2) using j' j(2) by blast
qed

lemma heap_store_write:
  assumes "heap_ok h" "heap_owns h p n" "length xs \<le> n"
  shows "heap_ok (heap_write p xs h) \<and> heap_live (heap_write p xs h) = heap_live h"
    "heap_owns h q k \<Longrightarrow> heap_owns (heap_write p xs h) q k"
    "heap_read (heap_write p xs h) p (length xs) = xs"
    "heap_owns h q k \<Longrightarrow> q \<noteq> p \<Longrightarrow> heap_read (heap_write p xs h) q k = heap_read h q k"
proof -
  obtain bs where inv: "heap_inv h bs" using assms by (auto simp: heap_ok_def)
  obtain j where j: "(unat p, j) \<in> set (used_blocks (heap_start h) bs)" "n \<le> j"
    using assms(2) unfolding heap_owns_used [OF inv] by blast
  note lj = order_trans [OF assms(3) j(2)]
  note w = heap_write_blocks [OF inv j(1) lj]
  note big = heap_inv_facts(1) [OF inv]
  show "heap_ok (heap_write p xs h) \<and> heap_live (heap_write p xs h) = heap_live h"
    using w(1) heap_live_eq [OF inv] heap_live_eq [OF w(1)] w(2) by (auto simp: heap_ok_def)
  show "heap_owns h q k \<Longrightarrow> heap_owns (heap_write p xs h) q k"
    unfolding heap_owns_used [OF inv] heap_owns_used [OF w(1)] w(2) .
  have l: "unat p + length xs < 2 ^ 32"
    using used_blocks_bounds [OF big j(1)] heap_inv_facts(2) [OF inv] lj by simp
  show "heap_read (heap_write p xs h) p (length xs) = xs"
    unfolding heap_read_def
  proof (rule read_bytes_list [OF l], intro allI impI)
    fix i assume i: "i < length xs"
    then show "hmem (heap_write p xs h) (p + of_nat i) = xs ! i"
      using w(3) [of "unat p + i"] l by simp
  qed
  assume "heap_owns h q k" "q \<noteq> p"
  then obtain i where i: "(unat q, i) \<in> set (used_blocks (heap_start h) bs)" "k \<le> i" "unat q \<noteq> unat p"
    unfolding heap_owns_used [OF inv] by (auto simp: u32_eq_iff)
  have d: "unat q + i \<le> unat p \<or> unat p + j \<le> unat q" "unat q + i < 2 ^ 32"
    using used_blocks_disjoint [OF big j(1) i(1)] i(3) used_blocks_bounds [OF big i(1)] heap_inv_facts(2) [OF inv] by auto
  show "heap_read (heap_write p xs h) q k = heap_read h q k"
  proof (rule keeps_read [OF inv i(1,2)])
    fix r assume "unat q \<le> r" "r < unat q + i"
    then show "hmem (heap_write p xs h) (of_nat r) = hmem h (of_nat r)" using w(3) [of r] d lj by auto
  qed
qed

lemma heap_owns_live: "heap_ok h \<Longrightarrow> heap_owns h p n \<Longrightarrow> p \<in> heap_live h"
  by (auto simp: heap_owns_def heap_live_eq used_ptrs_blocks image_iff intro!: bexI [rotated])

interpretation h4s: heap_store heap_ok heap_live pvPortMalloc vPortFree heap_owns heap_read heap_write
  by unfold_locales
    (fact heap_owns_live heap_store_malloc heap_store_free heap_store_write)+

subsection \<open>Allocation on a heap whose blocks are known\<close>

lemma malloc_at:
  assumes "heap_inv h bs" "spec_malloc (unat w) bs = Some (xs, bs')"
  obtains h' where "pvPortMalloc w h = Some (of_nat (heap_start h + total_size xs + 8), h')" "heap_inv h' bs'"
    "heap_start h' = heap_start h"
  using malloc_spec [OF assms(1), of w] assms(2) same_heap_start by (fastforce simp: ptr_at_def)

lemmas ex_malloc_simps = spec_malloc_def adj_def carve_def

definition ex_heap2 :: heap4 where
  "ex_heap2 = snd (the (pvPortMalloc 200 ex_heap1))"

lemma ex_heap2_facts: "heap_ok ex_heap2" "heap_live ex_heap2 = {0x20000008, 0x20000078}"
proof -
  obtain h where h: "pvPortMalloc 200 ex_heap1 = Some (0x20000078, h)" "heap_inv h [(112, Used), (208, Used), (59672, Free)]"
      "heap_start h = 0x20000000"
    by (rule malloc_at [OF ex_heap1_inv, of 200 "[(112, Used)]" "[(112, Used), (208, Used), (59672, Free)]"])
      (simp_all add: ex_malloc_simps ex_heap1_start)
  then have e: "ex_heap2 = h" by (simp add: ex_heap2_def)
  show "heap_ok ex_heap2" using h(2) e by (auto simp: heap_ok_def)
  show "heap_live ex_heap2 = {0x20000008, 0x20000078}" using heap_live_eq [OF h(2)] h(3) by (simp add: e)
qed

end
