(* ===== verification/Posix_Time.thy ===== *)
theory Posix_Time
  imports RM_Prelude "HOL-Library.Signed_Division"
begin

text \<open>
  Time in the POSIX layer: \<open>FreeRTOS_POSIX_utils.c\<close> (arithmetic on \<open>struct timespec\<close>, conversion
  to kernel ticks) and \<open>FreeRTOS_POSIX_clock.c\<close>.  Integers are mathematical integers with the
  wrap-around of the C types written out: \<open>s32\<close> for \<open>long\<close>, \<open>s64\<close> for \<open>int64_t\<close> and \<open>time_t\<close>;
  division and remainder truncate towards zero (\<open>sdiv\<close>, \<open>smod\<close>).  A pointer that may be null is
  an \<open>option\<close>; an output parameter is an \<open>option\<close> argument holding the old contents, and the
  function returns the new contents.  What the kernel contributes, the current tick count with its
  overflow count and the delays, is an argument and a result.
\<close>

definition s32 :: "int \<Rightarrow> int" where "s32 x = signed_take_bit 31 x"
definition s64 :: "int \<Rightarrow> int" where "s64 x = signed_take_bit 63 x"

record timespec =
  tv_sec :: int
  tv_nsec :: int

definition EPERM :: int where "EPERM = 1"
definition EINVAL :: int where "EINVAL = 22"
definition ETIMEDOUT :: int where "ETIMEDOUT = 116"

lemmas errno_defs = EPERM_def EINVAL_def ETIMEDOUT_def

definition NANOSECONDS_PER_SECOND :: int where "NANOSECONDS_PER_SECOND = 1000000000"
definition configTICK_RATE_HZ :: int where "configTICK_RATE_HZ = 1000"
definition NANOSECONDS_PER_TICK :: int where
  "NANOSECONDS_PER_TICK = NANOSECONDS_PER_SECOND div configTICK_RATE_HZ"
definition UINT_MAX :: int where "UINT_MAX = 4294967295"

lemma NANOSECONDS_PER_TICK_eq: "NANOSECONDS_PER_TICK = 1000000"
  by (simp add: NANOSECONDS_PER_TICK_def NANOSECONDS_PER_SECOND_def configTICK_RATE_HZ_def)

lemmas time_consts = NANOSECONDS_PER_SECOND_def NANOSECONDS_PER_TICK_eq configTICK_RATE_HZ_def UINT_MAX_def

subsection \<open>utils\<close>

text \<open>\<open>UTILS_strnlen\<close>: the string is the sequence of bytes from the pointer on.\<close>

function strnlen_loop :: "mem \<Rightarrow> u32 \<Rightarrow> nat \<Rightarrow> nat \<Rightarrow> nat" where
  "strnlen_loop m pcCharPointer xLength xMaxLength =
     (if m pcCharPointer \<noteq> 0 \<and> xLength < xMaxLength
      then strnlen_loop m (pcCharPointer + 1) (xLength + 1) xMaxLength else xLength)"
  by pat_completeness auto
termination by (relation "measure (\<lambda>(m, p, n, k). k - n)") auto

declare strnlen_loop.simps [simp del]

definition UTILS_strnlen :: "mem \<Rightarrow> u32 \<Rightarrow> nat \<Rightarrow> nat" where
  "UTILS_strnlen m pcString xMaxLength = (if pcString \<noteq> 0 then strnlen_loop m pcString 0 xMaxLength else 0)"

definition UTILS_ValidateTimespec :: "timespec option \<Rightarrow> bool" where
  "UTILS_ValidateTimespec pxTimespec =
     (case pxTimespec of None \<Rightarrow> False
      | Some ts \<Rightarrow> 0 \<le> tv_nsec ts \<and> tv_nsec ts < NANOSECONDS_PER_SECOND)"

definition UTILS_TimespecCompare :: "timespec option \<Rightarrow> timespec option \<Rightarrow> int" where
  "UTILS_TimespecCompare x y =
     (case (x, y) of
        (None, None) \<Rightarrow> 0
      | (_, None) \<Rightarrow> 1
      | (None, _) \<Rightarrow> - 1
      | (Some x, Some y) \<Rightarrow>
          if tv_sec x > tv_sec y then 1
          else if tv_sec x < tv_sec y then - 1
          else if tv_nsec x > tv_nsec y then 1
          else if tv_nsec x < tv_nsec y then - 1
          else 0)"

definition UTILS_TimespecSubtract :: "timespec option \<Rightarrow> timespec option \<Rightarrow> timespec option \<Rightarrow> int \<times> timespec option" where
  "UTILS_TimespecSubtract x y pxResult =
     (case (x, y, pxResult) of
        (Some x', Some y', Some r) \<Rightarrow>
          (let c = UTILS_TimespecCompare x y in
           if c = - 1 then (1, Some r)
           else if c = 0 then (0, Some \<lparr>tv_sec = 0, tv_nsec = 0\<rparr>)
           else
             (let sec = s64 (tv_sec x' - tv_sec y'); nsec = s32 (tv_nsec x' - tv_nsec y');
                  (sec, nsec) = (if nsec < 0 then (s64 (sec - 1), s32 (nsec + NANOSECONDS_PER_SECOND))
                                 else (sec, nsec))
              in (if nsec < 0 then - 1 else 0, Some \<lparr>tv_sec = sec, tv_nsec = nsec\<rparr>)))
      | _ \<Rightarrow> (- 1, pxResult))"

definition UTILS_TimespecAdd :: "timespec option \<Rightarrow> timespec option \<Rightarrow> timespec option \<Rightarrow> int \<times> timespec option" where
  "UTILS_TimespecAdd x y pxResult =
     (case (x, y, pxResult) of
        (Some x, Some y, Some r) \<Rightarrow>
          (let nsec = s32 (tv_nsec x + tv_nsec y) in
           if nsec < 0 then (1, Some (r\<lparr>tv_nsec := nsec\<rparr>))
           else
             (let llPartialSec = nsec sdiv NANOSECONDS_PER_SECOND;
                  sec = s64 (tv_sec x + tv_sec y + llPartialSec)
              in (if sec < 0 then 1 else 0, Some \<lparr>tv_sec = sec, tv_nsec = nsec smod NANOSECONDS_PER_SECOND\<rparr>)))
      | _ \<Rightarrow> (- 1, pxResult))"

definition UTILS_TimespecAddNanoseconds :: "timespec option \<Rightarrow> int \<Rightarrow> timespec option \<Rightarrow> int \<times> timespec option" where
  "UTILS_TimespecAddNanoseconds x llNanoseconds pxResult =
     (case (x, pxResult) of
        (Some x, Some r) \<Rightarrow>
          (let llTotalNSec = s64 (tv_nsec x + llNanoseconds) in
           if llTotalNSec < 0 then (1, Some r)
           else
             (let sec = s64 (tv_sec x + llTotalNSec sdiv NANOSECONDS_PER_SECOND)
              in (if sec < 0 then 1 else 0,
                  Some \<lparr>tv_sec = sec, tv_nsec = llTotalNSec smod NANOSECONDS_PER_SECOND\<rparr>)))
      | _ \<Rightarrow> (- 1, pxResult))"

definition UTILS_NanosecondsToTimespec :: "int \<Rightarrow> timespec" where
  "UTILS_NanosecondsToTimespec llSource =
     (let sec = s64 (llSource sdiv NANOSECONDS_PER_SECOND);
          nsec = s32 (llSource smod NANOSECONDS_PER_SECOND)
      in if nsec < 0 then
           (let lCarrySec = nsec sdiv NANOSECONDS_PER_SECOND + 1
            in \<lparr>tv_sec = s64 (sec - lCarrySec), tv_nsec = s32 (nsec + lCarrySec * NANOSECONDS_PER_SECOND)\<rparr>)
         else \<lparr>tv_sec = sec, tv_nsec = nsec\<rparr>)"

definition UTILS_TimespecToTicks :: "timespec option \<Rightarrow> u32 option \<Rightarrow> int \<times> u32 option" where
  "UTILS_TimespecToTicks pxTimespec pxResult =
     (case (pxTimespec, pxResult) of
        (Some ts, Some r) \<Rightarrow>
          if \<not> UTILS_ValidateTimespec pxTimespec then (EINVAL, pxResult)
          else
            (let llTotalTicks = s64 (configTICK_RATE_HZ * tv_sec ts);
                 lNanoseconds = tv_nsec ts sdiv NANOSECONDS_PER_TICK +
                   (if tv_nsec ts smod NANOSECONDS_PER_TICK \<noteq> 0 then 1 else 0);
                 llTotalTicks = s64 (llTotalTicks + lNanoseconds);
                 iStatus = (if llTotalTicks < 0 then EINVAL
                            else if llTotalTicks > UINT_MAX then EINVAL else 0)
             in (iStatus, Some (of_int llTotalTicks)))
      | _ \<Rightarrow> (EINVAL, pxResult))"

definition UTILS_AbsoluteTimespecToDeltaTicks ::
  "timespec option \<Rightarrow> timespec option \<Rightarrow> u32 option \<Rightarrow> int \<times> u32 option" where
  "UTILS_AbsoluteTimespecToDeltaTicks pxAbsoluteTime pxCurrentTime pxResult =
     (case (pxAbsoluteTime, pxCurrentTime, pxResult) of
        (Some _, Some _, Some _) \<Rightarrow>
          (case UTILS_TimespecSubtract pxAbsoluteTime pxCurrentTime (Some \<lparr>tv_sec = 0, tv_nsec = 0\<rparr>) of
             (iStatus, xDifference) \<Rightarrow>
               if iStatus = 1 then (ETIMEDOUT, pxResult)
               else if iStatus = - 1 then (EINVAL, pxResult)
               else UTILS_TimespecToTicks xDifference pxResult)
      | _ \<Rightarrow> (EINVAL, pxResult))"

subsection \<open>clock\<close>

record TimeOut_t =
  xOverflowCount :: int
  xTimeOnEntering :: u32

datatype sleep = NoSleep | TaskDelay u32 | TaskDelayUntil u32 u32

definition clock_getres :: "timespec option \<Rightarrow> int \<times> timespec option" where
  "clock_getres res = (0, map_option (\<lambda>_. \<lparr>tv_sec = 0, tv_nsec = NANOSECONDS_PER_TICK\<rparr>) res)"

text \<open>The 64-bit tick count is unsigned; the product with the tick length is computed in \<open>int64_t\<close>.\<close>

definition tick_count64 :: "TimeOut_t \<Rightarrow> u64" where
  "tick_count64 t = push_bit 32 (of_int (xOverflowCount t)) + ucast (xTimeOnEntering t)"

definition clock_gettime :: "TimeOut_t \<Rightarrow> int \<times> timespec" where
  "clock_gettime xCurrentTime =
     (0, UTILS_NanosecondsToTimespec (s64 (sint (tick_count64 xCurrentTime) * NANOSECONDS_PER_TICK)))"

text \<open>
  \<open>clock_nanosleep\<close>: \<open>now\<close> and \<open>now2\<close> are the kernel times that its two calls of \<open>clock_gettime\<close>
  see, \<open>ticks\<close> what \<open>xTaskGetTickCount\<close> returns.
\<close>

definition TIMER_ABSTIME :: u32 where "TIMER_ABSTIME = 1"

definition clock_nanosleep :: "u32 \<Rightarrow> timespec option \<Rightarrow> TimeOut_t \<Rightarrow> TimeOut_t \<Rightarrow> u32 \<Rightarrow> int \<times> sleep" where
  "clock_nanosleep flags rqtp now now2 ticks =
     (if \<not> UTILS_ValidateTimespec rqtp then (EINVAL, NoSleep)
      else if fst (clock_gettime now) \<noteq> 0 then (EINVAL, NoSleep)
      else if flags AND TIMER_ABSTIME = TIMER_ABSTIME then
        (case clock_gettime now2 of
           (st, cur) \<Rightarrow>
             if st \<noteq> 0 then (EINVAL, NoSleep)
             else
               (case UTILS_AbsoluteTimespecToDeltaTicks rqtp (Some cur) (Some 0) of
                  (st, d) \<Rightarrow> if st = 0 then (0, TaskDelayUntil ticks (the d)) else (0, NoSleep)))
      else
        (case UTILS_TimespecToTicks rqtp (Some 0) of
           (st, d) \<Rightarrow> if st = 0 then (0, TaskDelay (the d)) else (0, NoSleep)))"

text \<open>\<open>nanosleep\<close> returns -1 and sets \<open>errno\<close> (the middle component) on an invalid request.\<close>

definition nanosleep :: "timespec option \<Rightarrow> int \<times> int option \<times> sleep" where
  "nanosleep rqtp =
     (if \<not> UTILS_ValidateTimespec rqtp then (- 1, Some EINVAL, NoSleep)
      else
        (case UTILS_TimespecToTicks rqtp (Some 0) of
           (st, d) \<Rightarrow> if st = 0 then (0, None, TaskDelay (the d)) else (0, None, NoSleep)))"

definition clock_settime :: "int \<times> int option" where
  "clock_settime = (- 1, Some EPERM)"

definition clock_getcpuclockid :: int where
  "clock_getcpuclockid = EPERM"

definition posix_clock :: int where
  "posix_clock = - 1"

definition posix_time :: "bool \<Rightarrow> TimeOut_t \<Rightarrow> int \<times> int option" where
  "posix_time tloc now =
     (case clock_gettime now of
        (ret, ts) \<Rightarrow> if ret = 0 then (tv_sec ts, if tloc then Some (tv_sec ts) else None) else (0, None))"

subsection \<open>Ranges of the C types\<close>

lemma s64_id: "- (2 ^ 63) \<le> x \<Longrightarrow> x < 2 ^ 63 \<Longrightarrow> s64 x = x"
  unfolding s64_def by (rule signed_take_bit_int_eq_self) simp_all

lemma s32_id: "- (2 ^ 31) \<le> x \<Longrightarrow> x < 2 ^ 31 \<Longrightarrow> s32 x = x"
  unfolding s32_def by (rule signed_take_bit_int_eq_self) simp_all

lemma sdiv_nonneg: "0 \<le> (x :: int) \<Longrightarrow> 0 < c \<Longrightarrow> x sdiv c = x div c"
  by (cases "x = 0") (simp_all add: signed_divide_int_def)

lemma smod_nonneg: "0 \<le> (x :: int) \<Longrightarrow> 0 < c \<Longrightarrow> x smod c = x mod c"
  by (cases "x = 0") (simp_all add: signed_modulo_int_def)

lemma sdiv_neg: "(x :: int) < 0 \<Longrightarrow> 0 < c \<Longrightarrow> x sdiv c = - ((- x) div c)"
  by (simp add: signed_divide_int_def)

lemma smod_neg: "(x :: int) < 0 \<Longrightarrow> 0 < c \<Longrightarrow> x smod c = - ((- x) mod c)"
  by (simp add: signed_modulo_int_def)

lemma two_powers: "(2 :: int) ^ 32 = 4294967296" "(2 :: int) ^ 62 = 4611686018427387904"
    "(2 :: int) ^ 63 = 9223372036854775808"
  by simp_all

text \<open>A timespec as a number of nanoseconds.\<close>

definition ns :: "timespec \<Rightarrow> int" where
  "ns ts = tv_sec ts * 1000000000 + tv_nsec ts"

definition valid_ts :: "timespec \<Rightarrow> bool" where
  "valid_ts ts \<longleftrightarrow> 0 \<le> tv_nsec ts \<and> tv_nsec ts < 1000000000"

lemma validate_valid: "UTILS_ValidateTimespec (Some ts) = valid_ts ts"
  by (simp add: UTILS_ValidateTimespec_def valid_ts_def time_consts)


definition ceil_ticks :: "int \<Rightarrow> int" where
  "ceil_ticks n = (n + 999999) div 1000000"

lemma div_range:
  fixes n c :: int
  assumes "0 < c"
  shows "c * (n div c) \<le> n" "n < c * (n div c) + c"
  using mult_div_mod_eq [of c n] pos_mod_sign [OF assms, of n] pos_mod_bound [OF assms, of n] by linarith+

lemma ceil_ticks_least: "n \<le> 1000000 * ceil_ticks n" "1000000 * ceil_ticks n < n + 1000000"
  using div_range [of 1000000 "n + 999999"] unfolding ceil_ticks_def by linarith+

lemma ceil_ticks_split:
  "ceil_ticks (s * 1000000000 + n) = 1000 * s + ceil_ticks n"
proof -
  have "s * 1000000000 + n + 999999 = (n + 999999) + (1000 * s) * 1000000" by simp
  then show ?thesis unfolding ceil_ticks_def by (simp only: div_mult_self1)
qed

lemma ceil_ticks_nsec: "n div 1000000 + (if n mod 1000000 \<noteq> 0 then 1 else 0) = ceil_ticks n"
proof -
  define q r where "q = n div 1000000" and "r = n mod 1000000"
  have n: "n = 1000000 * q + r" "0 \<le> r" "r < 1000000" by (simp_all add: q_def r_def)
  have "(n + 999999) div 1000000 = q" if "r = 0"
    using n that by (intro int_div_pos_eq [of _ _ _ 999999]) simp_all
  moreover have "(n + 999999) div 1000000 = q + 1" if "r \<noteq> 0"
    using n that by (intro int_div_pos_eq [of _ _ _ "r - 1"]) simp_all
  ultimately show ?thesis unfolding ceil_ticks_def q_def [symmetric] r_def [symmetric] by auto
qed

lemma ceil_ticks_bounds: "0 \<le> n \<Longrightarrow> n < 1000000000 \<Longrightarrow> 0 \<le> ceil_ticks n \<and> ceil_ticks n \<le> 1000"
  using ceil_ticks_least [of n] by linarith

lemma to_ticks:
  assumes "valid_ts ts" "0 \<le> tv_sec ts" "tv_sec ts \<le> 9223372036854774"
  shows "UTILS_TimespecToTicks (Some ts) (Some r) =
    (if ceil_ticks (ns ts) \<le> UINT_MAX then 0 else EINVAL, Some (of_int (ceil_ticks (ns ts))))"
proof -
  have n: "0 \<le> tv_nsec ts" "tv_nsec ts < 1000000000" using assms(1) by (auto simp: valid_ts_def)
  note c = ceil_ticks_bounds [OF n]
  have l: "tv_nsec ts sdiv 1000000 + (if tv_nsec ts smod 1000000 \<noteq> 0 then 1 else 0) = ceil_ticks (tv_nsec ts)"
    using ceil_ticks_nsec n(1) by (simp add: sdiv_nonneg smod_nonneg)
  have "s64 (s64 (1000 * tv_sec ts) + ceil_ticks (tv_nsec ts)) = ceil_ticks (ns ts)"
    using assms(2,3) c by (simp add: s64_id ns_def ceil_ticks_split)
  moreover have "0 \<le> ceil_ticks (ns ts)" using assms(2) c by (simp add: ns_def ceil_ticks_split)
  ultimately show ?thesis
    using assms(1)
    by (simp add: UTILS_TimespecToTicks_def validate_valid NANOSECONDS_PER_TICK_eq configTICK_RATE_HZ_def l Let_def
        split del: if_split) (simp add: not_le)
qed

lemma subtract_valid:
  assumes v: "valid_ts x" "valid_ts y" and s: "0 \<le> tv_sec x" "tv_sec x < 2 ^ 63" "0 \<le> tv_sec y" "tv_sec y < 2 ^ 63"
  shows "ns x < ns y \<Longrightarrow> UTILS_TimespecSubtract (Some x) (Some y) (Some r) = (1, Some r)"
    and "ns y \<le> ns x \<Longrightarrow> \<exists>d. UTILS_TimespecSubtract (Some x) (Some y) (Some r) = (0, Some d) \<and> valid_ts d \<and>
      ns d = ns x - ns y \<and> 0 \<le> tv_sec d \<and> tv_sec d \<le> tv_sec x"
proof -
  have n: "0 \<le> tv_nsec x" "tv_nsec x < 1000000000" "0 \<le> tv_nsec y" "tv_nsec y < 1000000000"
    using v by (auto simp: valid_ts_def)
  have lt: "ns x < ns y \<longleftrightarrow> tv_sec x < tv_sec y \<or> tv_sec x = tv_sec y \<and> tv_nsec x < tv_nsec y"
    using n by (auto simp: ns_def)
  show "UTILS_TimespecSubtract (Some x) (Some y) (Some r) = (1, Some r)" if "ns x < ns y"
    using that lt by (auto simp: UTILS_TimespecSubtract_def UTILS_TimespecCompare_def)
  show "\<exists>d. UTILS_TimespecSubtract (Some x) (Some y) (Some r) = (0, Some d) \<and> valid_ts d \<and>
      ns d = ns x - ns y \<and> 0 \<le> tv_sec d \<and> tv_sec d \<le> tv_sec x" if le: "ns y \<le> ns x"
  proof (cases "tv_nsec x < tv_nsec y")
    case True
    have "s64 (tv_sec x - tv_sec y) = tv_sec x - tv_sec y" "s32 (tv_nsec x - tv_nsec y) = tv_nsec x - tv_nsec y"
      "s64 (tv_sec x - tv_sec y - 1) = tv_sec x - tv_sec y - 1"
      "s32 (tv_nsec x - tv_nsec y + 1000000000) = tv_nsec x - tv_nsec y + 1000000000"
      using s n by (simp_all add: s64_id s32_id)
    then show ?thesis
      using True le lt n s by (auto simp: UTILS_TimespecSubtract_def UTILS_TimespecCompare_def time_consts valid_ts_def ns_def)
  next
    case False
    have "s64 (tv_sec x - tv_sec y) = tv_sec x - tv_sec y" "s32 (tv_nsec x - tv_nsec y) = tv_nsec x - tv_nsec y"
      using s n by (simp_all add: s64_id s32_id)
    then show ?thesis
      using False le lt n s by (auto simp: UTILS_TimespecSubtract_def UTILS_TimespecCompare_def time_consts valid_ts_def ns_def)
  qed
qed

lemma nanoseconds_normal:
  assumes "- (2 ^ 63) \<le> n" "n < 2 ^ 63"
  shows "valid_ts (UTILS_NanosecondsToTimespec n) \<and> ns (UTILS_NanosecondsToTimespec n) = n"
proof (cases "0 \<le> n")
  case True
  have d: "n sdiv 1000000000 = n div 1000000000" "n smod 1000000000 = n mod 1000000000"
    using True by (simp_all add: sdiv_nonneg smod_nonneg)
  have "0 \<le> n div 1000000000" "n div 1000000000 < 2 ^ 63"
    using True assms(2) div_range [of 1000000000 n] by (simp_all add: pos_imp_zdiv_nonneg_iff)
  then have "s64 (n div 1000000000) = n div 1000000000" "s32 (n mod 1000000000) = n mod 1000000000"
    by (simp_all add: s64_id s32_id)
  moreover have "\<not> n mod 1000000000 < 0" by (simp add: not_less)
  ultimately show ?thesis
    using d by (simp add: UTILS_NanosecondsToTimespec_def time_consts valid_ts_def ns_def Let_def)
next
  case False
  define q r where "q = (- n) div 1000000000" and "r = (- n) mod 1000000000"
  have n: "n = - (1000000000 * q + r)" "0 \<le> r" "r < 1000000000"
    by (simp_all add: q_def r_def)
  have q: "0 \<le> q" "q < 2 ^ 62"
    using n False assms(1) unfolding two_powers by linarith+
  have d: "n sdiv 1000000000 = - q" "n smod 1000000000 = - r"
    using False by (simp_all add: sdiv_neg smod_neg q_def r_def)
  have s: "s64 (- q) = - q" "s32 (- r) = - r" "s64 (- q - 1) = - q - 1" "s32 (1000000000 - r) = 1000000000 - r"
    using q n(2,3) by (simp_all add: s64_id s32_id)
  have "(- r) sdiv 1000000000 = 0"
    using n(2,3) by (simp add: signed_divide_int_def)
  then show ?thesis
    using n d s unfolding UTILS_NanosecondsToTimespec_def NANOSECONDS_PER_SECOND_def Let_def valid_ts_def ns_def
    by (cases "r = 0") auto
qed

lemma gettime_ns:
  assumes "0 \<le> xOverflowCount t" "xOverflowCount t < 2000"
  shows "fst (clock_gettime t) = 0" "valid_ts (snd (clock_gettime t))"
    "ns (snd (clock_gettime t)) = (xOverflowCount t * 2 ^ 32 + uint (xTimeOnEntering t)) * 1000000"
proof -
  define k where "k = xOverflowCount t * 2 ^ 32 + uint (xTimeOnEntering t)"
  have x: "uint (xTimeOnEntering t) < 4294967296" by simp
  have k: "0 \<le> k" "k < 2000 * 2 ^ 32"
    unfolding k_def two_powers using assms x uint_ge_0 [of "xTimeOnEntering t"] by linarith+
  have "tick_count64 t = word_of_int k"
    by (simp add: tick_count64_def k_def push_bit_eq_mult)
  then have "sint (tick_count64 t) = k" using k by (simp add: sint_sbintrunc' signed_take_bit_int_eq_self)
  then have c: "clock_gettime t = (0, UTILS_NanosecondsToTimespec (k * 1000000))"
    using k by (simp add: clock_gettime_def NANOSECONDS_PER_TICK_eq s64_id)
  have b: "- (2 ^ 63) \<le> k * 1000000" "k * 1000000 < 2 ^ 63" using k by simp_all
  show "fst (clock_gettime t) = 0" "valid_ts (snd (clock_gettime t))"
    "ns (snd (clock_gettime t)) = (xOverflowCount t * 2 ^ 32 + uint (xTimeOnEntering t)) * 1000000"
    using nanoseconds_normal [OF b] by (simp_all add: c k_def)
qed

subsection \<open>Properties\<close>



text \<open>
  The overflow test of \<open>UTILS_TimespecToTicks\<close> looks only at the sign of the wrapped product:
  for a request of \<open>2 ^ 61\<close> seconds it reports success and 0 ticks.
\<close>

theorem UTILS_TimespecToTicks_wraps:
  "UTILS_TimespecToTicks (Some \<lparr>tv_sec = 2 ^ 61, tv_nsec = 0\<rparr>) (Some r) = (0, Some 0)"
  by (simp add: UTILS_TimespecToTicks_def validate_valid valid_ts_def time_consts sdiv_nonneg smod_nonneg
      s64_def signed_take_bit_eq_if_positive take_bit_eq_mod Let_def)

text \<open>
  \<open>UTILS_NanosecondsToTimespec\<close> normalises every 64-bit nanosecond count, negative ones
  included: the nanosecond field is in range and the timespec denotes the same time.
\<close>

theorem UTILS_NanosecondsToTimespec_exact:
  assumes "- (2 ^ 63) \<le> n" "n < 2 ^ 63"
  shows "UTILS_ValidateTimespec (Some (UTILS_NanosecondsToTimespec n)) \<and> ns (UTILS_NanosecondsToTimespec n) = n"
  using nanoseconds_normal [OF assms] by (simp add: validate_valid)

theorem UTILS_NanosecondsToTimespec_exact_witness:
  "ns (UTILS_NanosecondsToTimespec (- 1500000000)) = - 1500000000"
  using UTILS_NanosecondsToTimespec_exact [of "- 1500000000"] by simp

text \<open>
  A wait until an absolute time: a time in the past gives \<open>ETIMEDOUT\<close> and leaves the result
  alone; otherwise sleeping the resulting number of ticks from now ends at or after the absolute
  time and less than one tick after it, unless the wait does not fit the tick type (\<open>EINVAL\<close>).
\<close>

theorem UTILS_AbsoluteTimespecToDeltaTicks_correct:
  assumes "valid_ts a" "valid_ts c" "0 \<le> tv_sec a" "tv_sec a \<le> 9223372036854774" "0 \<le> tv_sec c" "tv_sec c < 2 ^ 63"
  shows "if ns a < ns c
    then UTILS_AbsoluteTimespecToDeltaTicks (Some a) (Some c) (Some r) = (ETIMEDOUT, Some r)
    else \<exists>t. ns a \<le> ns c + 1000000 * t \<and> ns c + 1000000 * t < ns a + 1000000 \<and>
      UTILS_AbsoluteTimespecToDeltaTicks (Some a) (Some c) (Some r) = (if t \<le> UINT_MAX then 0 else EINVAL, Some (of_int t))"
proof (cases "ns a < ns c")
  case True
  then show ?thesis
    using subtract_valid(1) [of a c] assms by (simp add: UTILS_AbsoluteTimespecToDeltaTicks_def)
next
  case False
  obtain d where d: "UTILS_TimespecSubtract (Some a) (Some c) (Some \<lparr>tv_sec = 0, tv_nsec = 0\<rparr>) = (0, Some d)"
    "valid_ts d" "ns d = ns a - ns c" "0 \<le> tv_sec d" "tv_sec d \<le> tv_sec a"
    using subtract_valid(2) [of a c] assms False by force
  have "UTILS_AbsoluteTimespecToDeltaTicks (Some a) (Some c) (Some r) =
      (if ceil_ticks (ns d) \<le> UINT_MAX then 0 else EINVAL, Some (of_int (ceil_ticks (ns d))))"
    using to_ticks [OF d(2,4)] d(1,5) assms(4) by (simp add: UTILS_AbsoluteTimespecToDeltaTicks_def)
  then show ?thesis
    unfolding if_not_P [OF False] using ceil_ticks_least [of "ns d"] d(3)
    by (intro exI [of _ "ceil_ticks (ns d)"]) auto
qed

theorem UTILS_AbsoluteTimespecToDeltaTicks_correct_witness:
  "UTILS_AbsoluteTimespecToDeltaTicks (Some \<lparr>tv_sec = 3, tv_nsec = 5\<rparr>) (Some \<lparr>tv_sec = 4, tv_nsec = 0\<rparr>) (Some 7) =
     (ETIMEDOUT, Some 7)"
  using UTILS_AbsoluteTimespecToDeltaTicks_correct [of "\<lparr>tv_sec = 3, tv_nsec = 5\<rparr>" "\<lparr>tv_sec = 4, tv_nsec = 0\<rparr>" 7]
  by (simp add: valid_ts_def ns_def)

text \<open>
  \<open>clock_gettime\<close> reads the tick counter exactly, across 2000 overflows of the 32-bit counter
  (over 270 years): the timespec is valid and is the number of elapsed ticks times the tick
  length, so later kernel times give later timespecs; and while the counter has not overflowed
  \<open>UTILS_TimespecToTicks\<close> turns the timespec back into the tick count.
\<close>

theorem clock_gettime_ticks:
  assumes "0 \<le> xOverflowCount t" "xOverflowCount t < 2000"
  shows "fst (clock_gettime t) = 0 \<and> UTILS_ValidateTimespec (Some (snd (clock_gettime t))) \<and>
    ns (snd (clock_gettime t)) = (xOverflowCount t * 2 ^ 32 + uint (xTimeOnEntering t)) * 1000000 \<and>
    (xOverflowCount t = 0 \<longrightarrow>
      UTILS_TimespecToTicks (Some (snd (clock_gettime t))) (Some r) = (0, Some (xTimeOnEntering t)))"
proof -
  note g = gettime_ns [OF assms]
  let ?ts = "snd (clock_gettime t)" and ?n = "uint (xTimeOnEntering t)"
  have "UTILS_TimespecToTicks (Some ?ts) (Some r) = (0, Some (xTimeOnEntering t))" if "xOverflowCount t = 0"
  proof -
    have n: "ns ?ts = ?n * 1000000" "?n < 4294967296" using g(3) that by simp_all
    have "0 \<le> tv_nsec ?ts" "tv_nsec ?ts < 1000000000" "0 \<le> ?n"
      using g(2) by (auto simp: valid_ts_def)
    then have "0 \<le> tv_sec ?ts" "tv_sec ?ts \<le> 9223372036854774"
      using n unfolding ns_def by linarith+
    moreover have "ceil_ticks (ns ?ts) = ?n"
      unfolding n(1) ceil_ticks_def by (rule int_div_pos_eq [of _ _ _ 999999]) simp_all
    ultimately show ?thesis using to_ticks [OF g(2)] n(2) by (simp add: UINT_MAX_def)
  qed
  then show ?thesis using g by (simp add: validate_valid)
qed

theorem clock_gettime_ticks_witness:
  "ns (snd (clock_gettime \<lparr>xOverflowCount = 1, xTimeOnEntering = 5\<rparr>)) = (2 ^ 32 + 5) * 1000000"
  using clock_gettime_ticks [of "\<lparr>xOverflowCount = 1, xTimeOnEntering = 5\<rparr>"] by simp

text \<open>
  \<open>nanosleep\<close> on a request whose ticks fit the tick type delays the task for at least the
  requested time; a valid request that does not fit returns 0 without any delay.
\<close>

theorem nanosleep_delay:
  assumes "valid_ts ts" "0 \<le> tv_sec ts" "tv_sec ts \<le> 9223372036854774"
  shows "\<exists>t. ns ts \<le> 1000000 * t \<and> 1000000 * t < ns ts + 1000000 \<and>
    nanosleep (Some ts) = (0, None, if t \<le> UINT_MAX then TaskDelay (of_int t) else NoSleep)"
  using to_ticks [OF assms, of 0] ceil_ticks_least [of "ns ts"] assms(1)
  by (intro exI [of _ "ceil_ticks (ns ts)"]) (simp add: nanosleep_def validate_valid EINVAL_def)

theorem nanosleep_delay_witness:
  "nanosleep (Some \<lparr>tv_sec = 5000000, tv_nsec = 0\<rparr>) = (0, None, NoSleep)"
proof -
  obtain t where "ns \<lparr>tv_sec = 5000000, tv_nsec = 0\<rparr> \<le> 1000000 * t"
    "nanosleep (Some \<lparr>tv_sec = 5000000, tv_nsec = 0\<rparr>) = (0, None, if t \<le> UINT_MAX then TaskDelay (of_int t) else NoSleep)"
    using nanosleep_delay [of "\<lparr>tv_sec = 5000000, tv_nsec = 0\<rparr>"] by (auto simp: valid_ts_def)
  then show ?thesis by (simp add: ns_def UINT_MAX_def)
qed

text \<open>
  \<open>UTILS_TimespecAdd\<close> of two valid times whose sum of seconds fits \<open>time_t\<close> is exact and gives a
  valid time.
\<close>

theorem UTILS_TimespecAdd_exact:
  assumes "valid_ts x" "valid_ts y" "0 \<le> tv_sec x" "0 \<le> tv_sec y" "tv_sec x + tv_sec y + 1 < 2 ^ 63"
  shows "\<exists>z. UTILS_TimespecAdd (Some x) (Some y) (Some r) = (0, Some z) \<and> valid_ts z \<and> ns z = ns x + ns y"
proof -
  define n where "n = tv_nsec x + tv_nsec y"
  have n: "0 \<le> n" "n < 2000000000" using assms(1,2) by (auto simp: n_def valid_ts_def)
  have q: "0 \<le> n div 1000000000" "n div 1000000000 \<le> 1"
    using n div_range [of 1000000000 n] by (simp_all add: pos_imp_zdiv_nonneg_iff)
  have "s64 (tv_sec x + tv_sec y + n div 1000000000) = tv_sec x + tv_sec y + n div 1000000000" "s32 n = n"
    using assms(3-5) q n by (simp_all add: s64_id s32_id)
  then show ?thesis
    using n q assms(3,4) mult_div_mod_eq [of 1000000000 n]
    by (simp add: UTILS_TimespecAdd_def sdiv_nonneg smod_nonneg time_consts valid_ts_def ns_def Let_def
        flip: n_def)
qed

theorem UTILS_TimespecAdd_exact_witness:
  "\<exists>z. UTILS_TimespecAdd (Some \<lparr>tv_sec = 1, tv_nsec = 600000000\<rparr>) (Some \<lparr>tv_sec = 2, tv_nsec = 700000000\<rparr>)
      (Some \<lparr>tv_sec = 0, tv_nsec = 0\<rparr>) = (0, Some z) \<and> valid_ts z \<and> ns z = 4300000000"
  using UTILS_TimespecAdd_exact [of "\<lparr>tv_sec = 1, tv_nsec = 600000000\<rparr>" "\<lparr>tv_sec = 2, tv_nsec = 700000000\<rparr>"]
  by (auto simp: valid_ts_def ns_def)

end
