(* ===== verification/Posix_Sem.thy ===== *)
theory Posix_Sem
  imports Posix_Time
begin

text \<open>
  POSIX semaphores, \<open>FreeRTOS_POSIX_semaphore.c\<close>.  A \<open>sem_t\<close> is an \<open>int\<close> counter that is changed
  with the kernel's atomic operations, and a kernel counting semaphore on which threads wait.
  The kernel semaphore is not part of the sources: its state type is a parameter \<open>'k\<close>, its
  operations are arguments (\<open>kgive\<close> for \<open>xSemaphoreGive\<close>, \<open>ktake\<close> for \<open>xSemaphoreTake\<close> with a delay,
  \<open>create\<close> for \<open>xSemaphoreCreateCountingStatic\<close>, \<open>delete\<close> for \<open>vSemaphoreDelete\<close>), and \<open>kernel_sem\<close> states what its documentation
  says.  First the calls as functions, then their atomic steps interleaved by any number of threads.
\<close>

definition SEM_VALUE_MAX :: u32 where "SEM_VALUE_MAX = 0x7FFF"
definition EAGAIN :: int where "EAGAIN = 11"
definition portMAX_DELAY :: u32 where "portMAX_DELAY = 0xFFFFFFFF"

record 'k sem_internal =
  xSemaphore :: 'k
  sem_value :: int

text \<open>Results: the return value and what the call stores in \<open>errno\<close>, if anything.\<close>

type_synonym status = "int \<times> int option"

definition sem_destroy :: "('k \<Rightarrow> 'k) \<Rightarrow> 'k sem_internal \<Rightarrow> int \<times> 'k sem_internal" where
  "sem_destroy delete pxSem = (0, pxSem\<lparr>xSemaphore := delete (xSemaphore pxSem)\<rparr>)"

definition sem_getvalue :: "'k sem_internal \<Rightarrow> int \<times> int" where
  "sem_getvalue pxSem = (0, sem_value pxSem)"

definition sem_init :: "(u32 \<Rightarrow> u32 \<Rightarrow> 'k) \<Rightarrow> 'k sem_internal \<Rightarrow> u32 \<Rightarrow> status \<times> 'k sem_internal" where
  "sem_init create pxSem value =
     (let (iStatus, err) = (if value > SEM_VALUE_MAX then (- 1, Some EINVAL) else (0, None));
          pxSem = pxSem\<lparr>sem_value := sint value\<rparr>
      in ((iStatus, err),
          if iStatus = 0 then pxSem\<lparr>xSemaphore := create SEM_VALUE_MAX 0\<rparr> else pxSem))"

text \<open>\<open>Atomic_Increment_u32\<close> and \<open>Atomic_Decrement_u32\<close> return the old value.\<close>

definition sem_post :: "('k \<Rightarrow> 'k) \<Rightarrow> 'k sem_internal \<Rightarrow> int \<times> 'k sem_internal" where
  "sem_post kgive pxSem =
     (let iPreviousValue = sem_value pxSem;
          pxSem = pxSem\<lparr>sem_value := s32 (iPreviousValue + 1)\<rparr>
      in (0, if iPreviousValue < 0 then pxSem\<lparr>xSemaphore := kgive (xSemaphore pxSem)\<rparr> else pxSem))"

text \<open>The delay and the provisional status that \<open>sem_timedwait\<close> computes from its timeout.\<close>

definition wait_delay :: "timespec option \<Rightarrow> TimeOut_t \<Rightarrow> int \<times> u32" where
  "wait_delay abstime now =
     (case abstime of
        None \<Rightarrow> (0, portMAX_DELAY)
      | Some _ \<Rightarrow>
          if \<not> UTILS_ValidateTimespec abstime then (EINVAL, 0)
          else
            (let (iStatus, xDelay) =
               (case clock_gettime now of
                  (st, cur) \<Rightarrow>
                    if st \<noteq> 0 then (EINVAL, portMAX_DELAY)
                    else
                      (case UTILS_AbsoluteTimespecToDeltaTicks abstime (Some cur) (Some portMAX_DELAY) of
                         (st, d) \<Rightarrow> (st, the d)))
             in (iStatus, if iStatus = ETIMEDOUT then 0 else xDelay)))"

definition sem_timedwait ::
  "('k \<Rightarrow> u32 \<Rightarrow> bool \<times> 'k) \<Rightarrow> 'k sem_internal \<Rightarrow> timespec option \<Rightarrow> TimeOut_t \<Rightarrow> status \<times> 'k sem_internal" where
  "sem_timedwait ktake pxSem abstime now =
     (let (iStatus, xDelay) = wait_delay abstime now;
          iPreviousValue = sem_value pxSem;
          pxSem = pxSem\<lparr>sem_value := s32 (iPreviousValue - 1)\<rparr>
      in if iPreviousValue > 0 then ((0, None), pxSem)
         else
           (case ktake (xSemaphore pxSem) xDelay of
              (taken, k) \<Rightarrow>
                if \<not> taken
                then ((- 1, Some (if iStatus = 0 then ETIMEDOUT else iStatus)), pxSem\<lparr>xSemaphore := k\<rparr>)
                else ((0, None), pxSem\<lparr>xSemaphore := k\<rparr>)))"

definition sem_trywait :: "('k \<Rightarrow> u32 \<Rightarrow> bool \<times> 'k) \<Rightarrow> 'k sem_internal \<Rightarrow> TimeOut_t \<Rightarrow> status \<times> 'k sem_internal" where
  "sem_trywait ktake sem now =
     (case sem_timedwait ktake sem (Some \<lparr>tv_sec = 0, tv_nsec = 0\<rparr>) now of
        ((iStatus, err), sem') \<Rightarrow>
          ((iStatus, if iStatus = - 1 \<and> err = Some ETIMEDOUT then Some EAGAIN else err), sem'))"

definition sem_wait :: "('k \<Rightarrow> u32 \<Rightarrow> bool \<times> 'k) \<Rightarrow> 'k sem_internal \<Rightarrow> TimeOut_t \<Rightarrow> status \<times> 'k sem_internal" where
  "sem_wait ktake sem now = sem_timedwait ktake sem None now"

subsection \<open>The kernel's semaphore\<close>

text \<open>
  A kernel counting semaphore: giving adds a token up to the maximum; taking removes one when
  there is one, whatever the delay, and fails without effect when there is none and the delay is 0.
\<close>

definition kernel_sem :: "('k \<Rightarrow> nat) \<Rightarrow> ('k \<Rightarrow> 'k) \<Rightarrow> ('k \<Rightarrow> u32 \<Rightarrow> bool \<times> 'k) \<Rightarrow> bool" where
  "kernel_sem count kgive ktake \<longleftrightarrow>
     (\<forall>k. count k < unat SEM_VALUE_MAX \<longrightarrow> count (kgive k) = count k + 1) \<and>
     (\<forall>k d. 0 < count k \<longrightarrow> fst (ktake k d) \<and> count (snd (ktake k d)) = count k - 1) \<and>
     (\<forall>k. count k = 0 \<longrightarrow> \<not> fst (ktake k 0) \<and> count (snd (ktake k 0)) = 0)"

text \<open>Tokens a semaphore holds: those in the counter and those already handed to the kernel.\<close>

definition tokens :: "('k \<Rightarrow> nat) \<Rightarrow> 'k sem_internal \<Rightarrow> nat" where
  "tokens count s = count (xSemaphore s) + nat (sem_value s)"

definition sem_ok :: "'k sem_internal \<Rightarrow> bool" where
  "sem_ok s \<longleftrightarrow> - (2 ^ 31) < sem_value s \<and> sem_value s < 2 ^ 31 - 1"

definition nat_give :: "nat \<Rightarrow> nat" where
  "nat_give k = (if k < unat SEM_VALUE_MAX then k + 1 else k)"

definition nat_take :: "nat \<Rightarrow> u32 \<Rightarrow> bool \<times> nat" where
  "nat_take k d = (if 0 < k then (True, k - 1) else (False, k))"

lemma kernel_sem_nat: "kernel_sem id nat_give nat_take"
  by (simp add: kernel_sem_def nat_give_def nat_take_def)

lemma trywait_delay:
  assumes "0 < xOverflowCount now \<or> 0 < uint (xTimeOnEntering now)" "0 \<le> xOverflowCount now" "xOverflowCount now < 2000"
  shows "wait_delay (Some \<lparr>tv_sec = 0, tv_nsec = 0\<rparr>) now = (ETIMEDOUT, 0)"
proof -
  let ?z = "\<lparr>tv_sec = 0, tv_nsec = 0\<rparr>" and ?c = "snd (clock_gettime now)"
  note g = gettime_ns [OF assms(2,3)]
  have u: "0 \<le> uint (xTimeOnEntering now)" "uint (xTimeOnEntering now) < 4294967296" by simp_all
  have k: "0 < xOverflowCount now * 4294967296 + uint (xTimeOnEntering now)"
    using assms(1,2) u(1) by (elim disjE) linarith+
  have c: "ns ?c = (xOverflowCount now * 4294967296 + uint (xTimeOnEntering now)) * 1000000"
    using g(3) unfolding two_powers .
  have p: "0 < ns ?c" using k c by simp
  have n: "0 \<le> tv_nsec ?c" "tv_nsec ?c < 1000000000" using g(2) by (auto simp: valid_ts_def)
  have "xOverflowCount now * 4294967296 + uint (xTimeOnEntering now) < 8589934592000"
    using assms(3) u(2) by linarith
  then have "ns ?c < 8589934592000000000" using c by simp
  then have s: "0 \<le> tv_sec ?c" "tv_sec ?c < 2 ^ 63" using p n unfolding ns_def two_powers by linarith+
  have "ns ?z < ns ?c" "valid_ts ?z" using p by (simp_all add: ns_def valid_ts_def)
  then have "UTILS_TimespecSubtract (Some ?z) (Some ?c) (Some ?z) = (1, Some ?z)"
    using g(2) s by (intro subtract_valid(1)) simp_all
  then have "UTILS_AbsoluteTimespecToDeltaTicks (Some ?z) (Some ?c) (Some portMAX_DELAY) = (ETIMEDOUT, Some portMAX_DELAY)"
    by (simp add: UTILS_AbsoluteTimespecToDeltaTicks_def)
  then show ?thesis
    using g(1) by (cases "clock_gettime now") (simp add: wait_delay_def validate_valid valid_ts_def)
qed


definition ticking :: "TimeOut_t \<Rightarrow> bool" where
  "ticking now \<longleftrightarrow> (0 < xOverflowCount now \<or> 0 < uint (xTimeOnEntering now)) \<and>
     0 \<le> xOverflowCount now \<and> xOverflowCount now < 2000"

lemma s32_dec: "- (2 ^ 31) < v \<Longrightarrow> v < 2 ^ 31 \<Longrightarrow> s32 (v - 1) = v - 1"
  by (simp add: s32_id)

lemma s32_inc: "- (2 ^ 31) \<le> v \<Longrightarrow> v < 2 ^ 31 - 1 \<Longrightarrow> s32 (v + 1) = v + 1"
  by (simp add: s32_id)

text \<open>
  \<open>sem_trywait\<close> implements a counting semaphore on top of the counter and the kernel
  semaphore: it succeeds and takes one token exactly when the semaphore holds one, in the
  counter or in the kernel; otherwise it returns -1 with \<open>EAGAIN\<close> and takes none.
\<close>

theorem sem_trywait_token:
  assumes k: "kernel_sem count kgive ktake" and ok: "sem_ok s" and now: "ticking now"
  shows "case sem_trywait ktake s now of (st, s') \<Rightarrow>
    if 0 < tokens count s then st = (0, None) \<and> tokens count s' = tokens count s - 1
    else st = (- 1, Some EAGAIN) \<and> tokens count s' = 0"
proof -
  have d: "wait_delay (Some \<lparr>tv_sec = 0, tv_nsec = 0\<rparr>) now = (ETIMEDOUT, 0)"
    using now by (intro trywait_delay) (auto simp: ticking_def)
  have v: "s32 (sem_value s - 1) = sem_value s - 1" using ok by (intro s32_dec) (auto simp: sem_ok_def)
  have kk: "0 < count x \<longrightarrow> fst (ktake x y) \<and> count (snd (ktake x y)) = count x - 1"
      "count x = 0 \<longrightarrow> \<not> fst (ktake x 0) \<and> count (snd (ktake x 0)) = 0" for x y
    using k by (auto simp: kernel_sem_def)
  show ?thesis
  proof (cases "sem_value s > 0")
    case True
    then show ?thesis
      using v by (auto simp: sem_trywait_def sem_timedwait_def d tokens_def Let_def)
  next
    case False
    obtain t k' where t: "ktake (xSemaphore s) 0 = (t, k')" by (cases "ktake (xSemaphore s) 0")
    show ?thesis
      using False v t kk(1) [of "xSemaphore s" 0] kk(2) [of "xSemaphore s"]
      by (auto simp: sem_trywait_def sem_timedwait_def d tokens_def Let_def EAGAIN_def ETIMEDOUT_def)
  qed
qed

theorem sem_trywait_token_witness:
  "case sem_trywait nat_take \<lparr>xSemaphore = 1, sem_value = - 1\<rparr> \<lparr>xOverflowCount = 0, xTimeOnEntering = 5\<rparr> of
     (st, s') \<Rightarrow> st = (0, None) \<and> tokens id s' = 0"
proof -
  have "sem_ok \<lparr>xSemaphore = 1 :: nat, sem_value = - 1\<rparr>" "ticking \<lparr>xOverflowCount = 0, xTimeOnEntering = 5\<rparr>"
    by (simp_all add: sem_ok_def ticking_def)
  from sem_trywait_token [OF kernel_sem_nat this] show ?thesis by (simp add: tokens_def)
qed

text \<open>
  \<open>sem_post\<close> always returns 0 and adds exactly one token, whether it goes to the counter or to
  a waiting thread through the kernel, as long as neither is at its limit.
\<close>

theorem sem_post_token:
  assumes k: "kernel_sem count kgive ktake" and ok: "sem_ok s" and lim: "count (xSemaphore s) < unat SEM_VALUE_MAX"
  shows "fst (sem_post kgive s) = 0 \<and> tokens count (snd (sem_post kgive s)) = tokens count s + 1"
proof -
  have v: "s32 (sem_value s + 1) = sem_value s + 1" using ok by (intro s32_inc) (auto simp: sem_ok_def)
  have "count (kgive (xSemaphore s)) = count (xSemaphore s) + 1" using k lim by (auto simp: kernel_sem_def)
  then show ?thesis using v by (auto simp: sem_post_def tokens_def Let_def)
qed

theorem sem_post_token_witness:
  "fst (sem_post nat_give \<lparr>xSemaphore = 0, sem_value = - 1\<rparr>) = 0 \<and>
   tokens id (snd (sem_post nat_give \<lparr>xSemaphore = 0, sem_value = - 1\<rparr>)) = 1"
  using sem_post_token [OF kernel_sem_nat, of "\<lparr>xSemaphore = 0, sem_value = - 1\<rparr>"]
  by (simp add: sem_ok_def tokens_def SEM_VALUE_MAX_def)

text \<open>
  A failed wait does not give back its decrement, so the counter falls with every failed
  \<open>sem_trywait\<close>; at the bottom of the \<open>int\<close> range it wraps round, and the next \<open>sem_trywait\<close>
  succeeds on a semaphore that holds no token and was never posted.
\<close>

theorem sem_trywait_wraps:
  assumes "kernel_sem count kgive ktake" "ticking now" "count k = 0"
  shows "case sem_trywait ktake \<lparr>xSemaphore = k, sem_value = - (2 ^ 31)\<rparr> now of
    (st1, s1) \<Rightarrow> st1 = (- 1, Some EAGAIN) \<and> fst (sem_trywait ktake s1 now) = (0, None)"
proof -
  have d: "wait_delay (Some \<lparr>tv_sec = 0, tv_nsec = 0\<rparr>) now = (ETIMEDOUT, 0)"
    using assms(2) by (intro trywait_delay) (auto simp: ticking_def)
  obtain t k' where t: "ktake k 0 = (t, k')" by (cases "ktake k 0")
  have "\<not> t" using assms(1,3) t unfolding kernel_sem_def by (metis fst_conv)
  moreover have "s32 (- 2147483648 - 1) = 2147483647"
    by (simp add: s32_def signed_take_bit_eq_if_negative take_bit_eq_mod bit_iff_odd)
  ultimately show ?thesis
    using t by (simp add: sem_trywait_def sem_timedwait_def d Let_def EAGAIN_def ETIMEDOUT_def)
qed

theorem sem_trywait_wraps_witness:
  "case sem_trywait nat_take \<lparr>xSemaphore = 0, sem_value = - (2 ^ 31)\<rparr> \<lparr>xOverflowCount = 0, xTimeOnEntering = 5\<rparr> of
    (st1, s1) \<Rightarrow> st1 = (- 1, Some EAGAIN) \<and>
      fst (sem_trywait nat_take s1 \<lparr>xOverflowCount = 0, xTimeOnEntering = 5\<rparr>) = (0, None)"
  by (rule sem_trywait_wraps [OF kernel_sem_nat]) (simp_all add: ticking_def)

text \<open>
  A wait never times out when the counter is positive, whatever the timeout, even an invalid
  one or one in the past; and an invalid timeout is reported only if the semaphore could not be
  taken.
\<close>

theorem sem_timedwait_immediate:
  assumes "0 < sem_value s"
  shows "fst (sem_timedwait ktake s abstime now) = (0, None)"
  using assms by (simp add: sem_timedwait_def Let_def split: prod.splits)

theorem sem_timedwait_immediate_witness:
  "fst (sem_timedwait nat_take \<lparr>xSemaphore = 0, sem_value = 1\<rparr> (Some \<lparr>tv_sec = 0, tv_nsec = - 1\<rparr>)
     \<lparr>xOverflowCount = 0, xTimeOnEntering = 5\<rparr>) = (0, None)"
  by (rule sem_timedwait_immediate) simp

subsection \<open>Interleaved threads\<close>

text \<open>
  The atomic steps of any number of threads that post and wait: the atomic increment and, when the
  old value was negative, the later \<open>xSemaphoreGive\<close>; the atomic decrement and, when the old value
  was not positive, the wait on the kernel semaphore, which ends by taking a token or by a
  timeout.  \<open>gives\<close> counts posts between their increment and their give, \<open>waiting\<close> threads blocked
  in the kernel, \<open>timeouts\<close> waits that failed; \<open>posts\<close> and \<open>acquired\<close> are ghost counters of the
  posts begun and of the waits that succeeded.
\<close>

record sem_sys =
  val :: int
  ksem :: nat
  gives :: nat
  waiting :: nat
  timeouts :: nat
  posts :: nat
  acquired :: nat

definition sem_start :: "nat \<Rightarrow> sem_sys" where
  "sem_start n = \<lparr>val = int n, ksem = 0, gives = 0, waiting = 0, timeouts = 0, posts = 0, acquired = 0\<rparr>"

inductive sem_step :: "sem_sys \<Rightarrow> sem_sys \<Rightarrow> bool" where
  inc_free: "0 \<le> val s \<Longrightarrow> val s < 2 ^ 31 - 1 \<Longrightarrow> sem_step s (s\<lparr>val := val s + 1, posts := posts s + 1\<rparr>)"
| inc_wake: "val s < 0 \<Longrightarrow> sem_step s (s\<lparr>val := val s + 1, posts := posts s + 1, gives := gives s + 1\<rparr>)"
| do_give: "0 < gives s \<Longrightarrow> ksem s < unat SEM_VALUE_MAX \<Longrightarrow>
     sem_step s (s\<lparr>gives := gives s - 1, ksem := ksem s + 1\<rparr>)"
| dec_take: "0 < val s \<Longrightarrow> sem_step s (s\<lparr>val := val s - 1, acquired := acquired s + 1\<rparr>)"
| dec_block: "val s \<le> 0 \<Longrightarrow> - (2 ^ 31) < val s \<Longrightarrow> sem_step s (s\<lparr>val := val s - 1, waiting := waiting s + 1\<rparr>)"
| wake: "0 < waiting s \<Longrightarrow> 0 < ksem s \<Longrightarrow>
     sem_step s (s\<lparr>waiting := waiting s - 1, ksem := ksem s - 1, acquired := acquired s + 1\<rparr>)"
| timeout: "0 < waiting s \<Longrightarrow> sem_step s (s\<lparr>waiting := waiting s - 1, timeouts := timeouts s + 1\<rparr>)"

definition sem_inv :: "nat \<Rightarrow> sem_sys \<Rightarrow> bool" where
  "sem_inv n s \<longleftrightarrow> acquired s + ksem s + gives s + nat (val s) = n + posts s \<and>
     waiting s + timeouts s = ksem s + gives s + nat (- val s)"

lemma sem_step_inv: "sem_step s s' \<Longrightarrow> sem_inv n s \<Longrightarrow> sem_inv n s'"
  by (induction rule: sem_step.induct) (auto simp: sem_inv_def)

lemma sem_reach_inv: "sem_step\<^sup>*\<^sup>* (sem_start n) s \<Longrightarrow> sem_inv n s"
proof (induction rule: rtranclp_induct)
  case base
  show ?case by (simp add: sem_start_def sem_inv_def)
qed (rule sem_step_inv)



end
