(* ===== verification/Posix_Mqueue.thy ===== *)
theory Posix_Mqueue
  imports Heap_Store Posix_Sem
begin

text \<open>
  POSIX message queues, \<open>FreeRTOS_POSIX_mqueue.c\<close>.  The state is the heap, the list of message
  queues and the kernel's queues.  Elements of the list, their names and the messages are heap
  blocks: names and messages are kept as bytes of the heap, the fields of an element as a record
  (its block is the address \<open>q_addr\<close>, which is also the descriptor).  A C string argument is the
  list of bytes before its terminator, a message the list of its bytes.

  The kernel's queues are not part of the sources: \<open>kqueue\<close> holds the five functions the file
  calls, on the heap (a kernel queue is allocated there) and a kernel state \<open>'k\<close>, and \<open>kernel_queue\<close>
  states what their documentation says.  A result \<open>None\<close> of an operation is a call that does not
  return or is undefined: the heap operations of \<open>Heap4\<close>, and the three calls that take the list's
  mutex without having initialised it.
\<close>

definition EBADF :: int where "EBADF = 9"
definition ENOENT :: int where "ENOENT = 2"
definition EEXIST :: int where "EEXIST = 17"
definition ENOSPC :: int where "ENOSPC = 28"
definition EMSGSIZE :: int where "EMSGSIZE = 122"

definition O_CREAT :: u32 where "O_CREAT = 0x0002"
definition O_EXCL :: u32 where "O_EXCL = 0x0008"
definition O_NONBLOCK :: u32 where "O_NONBLOCK = 0x0400"
definition NAME_MAX :: nat where "NAME_MAX = 64"
definition posixconfigMQ_MAX_MESSAGES :: u32 where "posixconfigMQ_MAX_MESSAGES = 10"
definition posixconfigMQ_MAX_SIZE :: u32 where "posixconfigMQ_MAX_SIZE = 128"

text \<open>The sizes of \<open>QueueListElement_t\<close> and \<open>QueueElement_t\<close> with 32-bit pointers.\<close>

definition sizeof_QueueListElement :: u32 where "sizeof_QueueListElement = 40"
definition sizeof_QueueElement :: u32 where "sizeof_QueueElement = 8"

text \<open>The error descriptor \<open>(mqd_t) -1\<close>.\<close>

definition mqd_error :: u32 where "mqd_error = 0xFFFFFFFF"

record QueueElement =
  pcData :: u32
  xDataSize :: u32

record mq_attr =
  mq_flags :: u32
  mq_maxmsg :: u32
  mq_msgsize :: u32
  mq_curmsgs :: u32

record QueueListElement =
  q_addr :: u32
  xQueue :: u32
  xOpenDescriptors :: u32
  pcName :: u32
  xAttr :: mq_attr
  xPendingUnlink :: bool

record 'k kqueue =
  xQueueCreate :: "u32 \<Rightarrow> u32 \<Rightarrow> heap4 \<times> 'k \<Rightarrow> u32 \<times> heap4 \<times> 'k"
  vQueueDelete :: "u32 \<Rightarrow> heap4 \<times> 'k \<Rightarrow> heap4 \<times> 'k"
  xQueueSend :: "u32 \<Rightarrow> QueueElement \<Rightarrow> u32 \<Rightarrow> 'k \<Rightarrow> bool \<times> 'k"
  xQueueReceive :: "u32 \<Rightarrow> u32 \<Rightarrow> 'k \<Rightarrow> QueueElement option \<times> 'k"
  uxQueueMessagesWaiting :: "u32 \<Rightarrow> 'k \<Rightarrow> u32"

record 'k mq_state =
  mheap :: heap4
  kern :: 'k
  xQueueListInitialized :: bool
  queues :: "QueueListElement list"

subsection \<open>The file's static functions\<close>

definition prvCalculateTickTimeout :: "u32 \<Rightarrow> timespec option \<Rightarrow> TimeOut_t \<Rightarrow> u32 \<Rightarrow> int \<times> u32" where
  "prvCalculateTickTimeout lMessageQueueFlags pxAbsoluteTimeout now xTimeoutTicks =
     (if lMessageQueueFlags AND O_NONBLOCK \<noteq> 0 then (0, 0)
      else
        (case pxAbsoluteTimeout of
           None \<Rightarrow> (0, portMAX_DELAY)
         | Some _ \<Rightarrow>
             if \<not> UTILS_ValidateTimespec pxAbsoluteTimeout then (EINVAL, xTimeoutTicks)
             else
               (case clock_gettime now of
                  (st, xCurrentTime) \<Rightarrow>
                    if st \<noteq> 0 then (EINVAL, xTimeoutTicks)
                    else
                      (case UTILS_AbsoluteTimespecToDeltaTicks pxAbsoluteTimeout (Some xCurrentTime) (Some xTimeoutTicks) of
                         (st, d) \<Rightarrow> (if st \<noteq> 0 then ETIMEDOUT else 0, the d)))))"

text \<open>What \<open>strncpy (dst, src, n)\<close> stores, and whether \<open>strcmp\<close> of the string at \<open>p\<close> with \<open>name\<close> is 0.\<close>

definition strncpy_bytes :: "u8 list \<Rightarrow> nat \<Rightarrow> u8 list" where
  "strncpy_bytes src n = take n (src @ replicate n 0)"

definition strcmp_eq :: "heap4 \<Rightarrow> u32 \<Rightarrow> u8 list \<Rightarrow> bool" where
  "strcmp_eq h p name \<longleftrightarrow> heap_read h p (length name + 1) = name @ [0]"

definition prvCreateNewMessageQueue ::
  "'k kqueue \<Rightarrow> mq_attr \<Rightarrow> u8 list \<Rightarrow> nat \<Rightarrow> 'k mq_state \<Rightarrow> (u32 option \<times> 'k mq_state) option" where
  "prvCreateNewMessageQueue K pxAttr name xNameLength s =
     do {
       (pxMessageQueue, h) \<leftarrow> pvPortMalloc sizeof_QueueListElement (mheap s);
       if pxMessageQueue = 0 then Some (None, s\<lparr>mheap := h\<rparr>)
       else
         (case xQueueCreate K (mq_maxmsg pxAttr) sizeof_QueueElement (h, kern s) of
            (hdl, h, k) \<Rightarrow>
              if hdl = 0 then do { h \<leftarrow> vPortFree pxMessageQueue h; Some (None, s\<lparr>mheap := h, kern := k\<rparr>) }
              else
                do {
                  (nm, h) \<leftarrow> pvPortMalloc (of_nat (xNameLength + 1)) h;
                  if nm = 0 then
                    (case vQueueDelete K hdl (h, k) of
                       (h, k) \<Rightarrow> do { h \<leftarrow> vPortFree pxMessageQueue h; Some (None, s\<lparr>mheap := h, kern := k\<rparr>) })
                  else
                    Some (Some pxMessageQueue,
                      s\<lparr>mheap := heap_write nm (strncpy_bytes name (xNameLength + 1)) h, kern := k,
                        queues := \<lparr>q_addr = pxMessageQueue, xQueue = hdl, xOpenDescriptors = 1, pcName = nm,
                                   xAttr = pxAttr, xPendingUnlink = False\<rparr> # queues s\<rparr>)
                })
     }"

text \<open>The loop of \<open>prvDeleteMessageQueue\<close> that releases the messages still in the queue.\<close>

partial_function (option) drain :: "'k kqueue \<Rightarrow> u32 \<Rightarrow> heap4 \<Rightarrow> 'k \<Rightarrow> (heap4 \<times> 'k) option" where
  "drain K hdl h k =
     (case xQueueReceive K hdl 0 k of
        (None, k) \<Rightarrow> Some (h, k)
      | (Some xQueueElement, k) \<Rightarrow> do { h \<leftarrow> vPortFree (pcData xQueueElement) h; drain K hdl h k })"

declare drain.simps [code]

definition prvDeleteMessageQueue :: "'k kqueue \<Rightarrow> QueueListElement \<Rightarrow> 'k mq_state \<Rightarrow> 'k mq_state option" where
  "prvDeleteMessageQueue K pxMessageQueue s =
     do {
       (h, k) \<leftarrow> drain K (xQueue pxMessageQueue) (mheap s) (kern s);
       (case vQueueDelete K (xQueue pxMessageQueue) (h, k) of
          (h, k) \<Rightarrow>
            do {
              h \<leftarrow> vPortFree (pcName pxMessageQueue) h;
              h \<leftarrow> vPortFree (q_addr pxMessageQueue) h;
              Some (s\<lparr>mheap := h, kern := k\<rparr>)
            })
     }"

fun prvFindQueueInList :: "heap4 \<Rightarrow> QueueListElement list \<Rightarrow> u8 list option \<Rightarrow> u32 \<Rightarrow> QueueListElement option" where
  "prvFindQueueInList h [] name des = None"
| "prvFindQueueInList h (e # es) name des =
     (if (case name of None \<Rightarrow> False | Some n \<Rightarrow> strcmp_eq h (pcName e) n) then Some e
      else if q_addr e = des then Some e
      else prvFindQueueInList h es name des)"

definition prvInitializeQueueList :: "'k mq_state \<Rightarrow> 'k mq_state" where
  "prvInitializeQueueList s =
     (if xQueueListInitialized s then s else s\<lparr>queues := [], xQueueListInitialized := True\<rparr>)"

definition str_nlen :: "u8 list \<Rightarrow> nat \<Rightarrow> nat" where
  "str_nlen str xMaxLength = min (length str) xMaxLength"

text \<open>The name's length when the name is valid.\<close>

definition prvValidateQueueName :: "u8 list \<Rightarrow> nat option" where
  "prvValidateQueueName name =
     (if (name @ [0]) ! 0 \<noteq> 0x2F then None
      else if str_nlen name (NAME_MAX + 2) = NAME_MAX + 2 then None
      else Some (str_nlen name (NAME_MAX + 2)))"

subsection \<open>The list of queues\<close>

definition upd_elem :: "QueueListElement \<Rightarrow> QueueListElement list \<Rightarrow> QueueListElement list" where
  "upd_elem e es = map (\<lambda>x. if q_addr x = q_addr e then e else x) es"

definition listREMOVE :: "QueueListElement \<Rightarrow> QueueListElement list \<Rightarrow> QueueListElement list" where
  "listREMOVE e es = filter (\<lambda>x. q_addr x \<noteq> q_addr e) es"

subsection \<open>The interface\<close>

definition mq_close :: "'k kqueue \<Rightarrow> u32 \<Rightarrow> 'k mq_state \<Rightarrow> (status \<times> 'k mq_state) option" where
  "mq_close K mqdes s =
     (let s = prvInitializeQueueList s in
      case prvFindQueueInList (mheap s) (queues s) None mqdes of
        None \<Rightarrow> Some ((- 1, Some EBADF), s)
      | Some q \<Rightarrow>
          let q = (if xOpenDescriptors q > 0 then q\<lparr>xOpenDescriptors := xOpenDescriptors q - 1\<rparr> else q) in
          if xOpenDescriptors q = 0 then
            if xPendingUnlink q then
              do {
                s \<leftarrow> prvDeleteMessageQueue K q (s\<lparr>queues := listREMOVE q (queues s)\<rparr>);
                Some ((0, None), s)
              }
            else Some ((0, None), s\<lparr>queues := upd_elem (q\<lparr>xPendingUnlink := True\<rparr>) (queues s)\<rparr>)
          else Some ((0, None), s\<lparr>queues := upd_elem q (queues s)\<rparr>))"

definition mq_getattr :: "'k kqueue \<Rightarrow> u32 \<Rightarrow> 'k mq_state \<Rightarrow> (status \<times> mq_attr option \<times> 'k mq_state) option" where
  "mq_getattr K mqdes s =
     (if \<not> xQueueListInitialized s then None
      else
        (case prvFindQueueInList (mheap s) (queues s) None mqdes of
           None \<Rightarrow> Some ((- 1, Some EBADF), None, s)
         | Some q \<Rightarrow>
             let q = q\<lparr>xAttr := (xAttr q)\<lparr>mq_curmsgs := uxQueueMessagesWaiting K (xQueue q) (kern s)\<rparr>\<rparr>
             in Some ((0, None), Some (xAttr q), s\<lparr>queues := upd_elem q (queues s)\<rparr>)))"

definition mq_open ::
  "'k kqueue \<Rightarrow> u8 list \<Rightarrow> u32 \<Rightarrow> mq_attr option \<Rightarrow> 'k mq_state \<Rightarrow> ((u32 \<times> int option) \<times> 'k mq_state) option" where
  "mq_open K name oflag attr s =
     (let xQueueCreationAttr = \<lparr>mq_flags = 0, mq_maxmsg = posixconfigMQ_MAX_MESSAGES,
                                mq_msgsize = posixconfigMQ_MAX_SIZE, mq_curmsgs = 0\<rparr>;
          s = prvInitializeQueueList s
      in case prvValidateQueueName name of
           None \<Rightarrow> Some ((mqd_error, Some EINVAL), s)
         | Some xNameLength \<Rightarrow>
             if oflag AND O_CREAT \<noteq> 0 \<and>
                (case attr of None \<Rightarrow> False | Some a \<Rightarrow> sint (mq_maxmsg a) \<le> 0 \<or> sint (mq_msgsize a) \<le> 0)
             then Some ((mqd_error, Some EINVAL), s)
             else
               (case prvFindQueueInList (mheap s) (queues s) (Some name) 0 of
                  Some q \<Rightarrow>
                    if oflag AND O_EXCL \<noteq> 0 \<and> oflag AND O_CREAT \<noteq> 0 then Some ((mqd_error, Some EEXIST), s)
                    else if xPendingUnlink q then Some ((mqd_error, Some EINVAL), s)
                    else Some ((q_addr q, None),
                           s\<lparr>queues := upd_elem (q\<lparr>xOpenDescriptors := xOpenDescriptors q + 1\<rparr>) (queues s)\<rparr>)
                | None \<Rightarrow>
                    if oflag AND O_CREAT \<noteq> 0 then
                      let a = (case attr of None \<Rightarrow> xQueueCreationAttr | Some a \<Rightarrow> a)\<lparr>mq_flags := oflag\<rparr> in
                      do {
                        (r, s) \<leftarrow> prvCreateNewMessageQueue K a name xNameLength s;
                        (case r of
                           None \<Rightarrow> Some ((mqd_error, Some ENOSPC), s)
                         | Some d \<Rightarrow> Some ((d, None), s))
                      }
                    else Some ((mqd_error, Some ENOENT), s)))"

text \<open>
  The checks that \<open>mq_timedreceive\<close> and \<open>mq_timedsend\<close> make under the mutex: an \<open>errno\<close>, or the queue
  and the timeout.  \<open>small q\<close> is the comparison of \<open>msg_len\<close> with \<open>mq_msgsize\<close>.
\<close>

definition mq_checks ::
  "(QueueListElement \<Rightarrow> bool) \<Rightarrow> u32 \<Rightarrow> timespec option \<Rightarrow> TimeOut_t \<Rightarrow> 'k mq_state \<Rightarrow> int + QueueListElement \<times> u32" where
  "mq_checks bad_len mqdes abstime now s =
     (case prvFindQueueInList (mheap s) (queues s) None mqdes of
        None \<Rightarrow> Inl EBADF
      | Some q \<Rightarrow>
          if bad_len q then Inl EMSGSIZE
          else
            (case prvCalculateTickTimeout (mq_flags (xAttr q)) abstime now 0 of
               (e, t) \<Rightarrow> if e \<noteq> 0 then Inl e else Inr (q, t)))"

definition queue_errno :: "QueueListElement \<Rightarrow> int" where
  "queue_errno q = (if mq_flags (xAttr q) AND O_NONBLOCK \<noteq> 0 then EAGAIN else ETIMEDOUT)"

text \<open>Result of a receive: status, the bytes copied to \<open>msg_ptr\<close>, the state.\<close>

definition mq_timedreceive ::
  "'k kqueue \<Rightarrow> u32 \<Rightarrow> u32 \<Rightarrow> timespec option \<Rightarrow> TimeOut_t \<Rightarrow> 'k mq_state \<Rightarrow> (status \<times> u8 list \<times> 'k mq_state) option" where
  "mq_timedreceive K mqdes msg_len abstime now s =
     (if \<not> xQueueListInitialized s then None
      else
        (case mq_checks (\<lambda>q. msg_len < mq_msgsize (xAttr q)) mqdes abstime now s of
           Inl e \<Rightarrow> Some ((- 1, Some e), [], s)
         | Inr (q, xTimeoutTicks) \<Rightarrow>
             (case xQueueReceive K (xQueue q) xTimeoutTicks (kern s) of
                (None, k) \<Rightarrow> Some ((- 1, Some (queue_errno q)), [], s\<lparr>kern := k\<rparr>)
              | (Some x, k) \<Rightarrow>
                  do {
                    h \<leftarrow> vPortFree (pcData x) (mheap s);
                    Some ((sint (xDataSize x), None), heap_read (mheap s) (pcData x) (unat (xDataSize x)),
                          s\<lparr>mheap := h, kern := k\<rparr>)
                  })))"

definition mq_timedsend ::
  "'k kqueue \<Rightarrow> u32 \<Rightarrow> u8 list \<Rightarrow> timespec option \<Rightarrow> TimeOut_t \<Rightarrow> 'k mq_state \<Rightarrow> (status \<times> 'k mq_state) option" where
  "mq_timedsend K mqdes msg abstime now s =
     (if \<not> xQueueListInitialized s then None
      else
        (case mq_checks (\<lambda>q. of_nat (length msg) > mq_msgsize (xAttr q)) mqdes abstime now s of
           Inl e \<Rightarrow> Some ((- 1, Some e), s)
         | Inr (q, xTimeoutTicks) \<Rightarrow>
             do {
               (p, h) \<leftarrow> pvPortMalloc (of_nat (length msg)) (mheap s);
               if p = 0 then Some ((- 1, Some EMSGSIZE), s\<lparr>mheap := h\<rparr>)
               else
                 (let h = heap_write p msg h in
                  case xQueueSend K (xQueue q) \<lparr>pcData = p, xDataSize = of_nat (length msg)\<rparr> xTimeoutTicks (kern s) of
                    (sent, k) \<Rightarrow>
                      if \<not> sent then
                        do { h \<leftarrow> vPortFree p h; Some ((- 1, Some (queue_errno q)), s\<lparr>mheap := h, kern := k\<rparr>) }
                      else Some ((0, None), s\<lparr>mheap := h, kern := k\<rparr>))
             }))"

definition mq_receive ::
  "'k kqueue \<Rightarrow> u32 \<Rightarrow> u32 \<Rightarrow> TimeOut_t \<Rightarrow> 'k mq_state \<Rightarrow> (status \<times> u8 list \<times> 'k mq_state) option" where
  "mq_receive K mqdes msg_len now s = mq_timedreceive K mqdes msg_len None now s"

definition mq_send :: "'k kqueue \<Rightarrow> u32 \<Rightarrow> u8 list \<Rightarrow> TimeOut_t \<Rightarrow> 'k mq_state \<Rightarrow> (status \<times> 'k mq_state) option" where
  "mq_send K mqdes msg now s = mq_timedsend K mqdes msg None now s"

definition mq_unlink :: "'k kqueue \<Rightarrow> u8 list \<Rightarrow> 'k mq_state \<Rightarrow> (status \<times> 'k mq_state) option" where
  "mq_unlink K name s =
     (let s = prvInitializeQueueList s in
      case prvValidateQueueName name of
        None \<Rightarrow> Some ((- 1, Some EINVAL), s)
      | Some _ \<Rightarrow>
          (case prvFindQueueInList (mheap s) (queues s) (Some name) 0 of
             None \<Rightarrow> Some ((- 1, Some ENOENT), s)
           | Some q \<Rightarrow>
               if xOpenDescriptors q = 0 then
                 do {
                   s \<leftarrow> prvDeleteMessageQueue K q (s\<lparr>queues := listREMOVE q (queues s)\<rparr>);
                   Some ((0, None), s)
                 }
               else Some ((0, None), s\<lparr>queues := upd_elem (q\<lparr>xPendingUnlink := True\<rparr>) (queues s)\<rparr>)))"

end
