(* ===== verification/Posix_Mqueue_Inv.thy ===== *)
theory Posix_Mqueue_Inv
  imports Posix_Mqueue
begin

text \<open>
  What the message queues assume of the kernel's queues, and their invariant: the heap blocks of the
  elements, names and messages are pairwise different, owned and disjoint from the kernel's.
\<close>

subsection \<open>The kernel's queues\<close>

text \<open>What a kernel state means: its queues' contents, capacities, handles and heap blocks.\<close>

record 'k kview =
  kcont :: "'k \<Rightarrow> u32 \<Rightarrow> QueueElement list"
  kcap :: "'k \<Rightarrow> u32 \<Rightarrow> nat"
  khandles :: "'k \<Rightarrow> u32 set"
  kblocks :: "'k \<Rightarrow> u32 \<Rightarrow> u32 set"

definition heap_keeps :: "u32 set \<Rightarrow> heap4 \<Rightarrow> heap4 \<Rightarrow> bool" where
  "heap_keeps A h h' \<longleftrightarrow>
     (\<forall>p \<in> A. \<forall>n. heap_owns h p n \<longrightarrow> heap_owns h' p n \<and> heap_read h' p n = heap_read h p n)"

definition kframe :: "'k kview \<Rightarrow> u32 set \<Rightarrow> 'k \<Rightarrow> 'k \<Rightarrow> bool" where
  "kframe V A k k' \<longleftrightarrow>
     (\<forall>r \<in> A. kcont V k' r = kcont V k r \<and> kcap V k' r = kcap V k r \<and> kblocks V k' r = kblocks V k r)"

definition kheap_ok :: "'k kview \<Rightarrow> heap4 \<Rightarrow> 'k \<Rightarrow> bool" where
  "kheap_ok V h k \<longleftrightarrow> heap_ok h \<and>
     (\<forall>q \<in> khandles V k. kblocks V k q \<subseteq> heap_live h) \<and>
     (\<forall>q \<in> khandles V k. \<forall>r \<in> khandles V k. q \<noteq> r \<longrightarrow> kblocks V k q \<inter> kblocks V k r = {})"

text \<open>\<open>xQueueCreate\<close> takes new heap blocks for a new, empty queue, or fails and changes nothing.\<close>

definition create_law :: "'k kqueue \<Rightarrow> 'k kview \<Rightarrow> bool" where
  "create_law K V \<longleftrightarrow> (\<forall>n h k q h' k'. kheap_ok V h k \<longrightarrow> xQueueCreate K n sizeof_QueueElement (h, k) = (q, h', k') \<longrightarrow>
     heap_ok h' \<and> heap_keeps UNIV h h' \<and> kframe V (khandles V k) k k' \<and>
     (if q = 0 then khandles V k' = khandles V k \<and> heap_live h' = heap_live h
      else q \<notin> khandles V k \<and> khandles V k' = insert q (khandles V k) \<and> kcont V k' q = [] \<and> kcap V k' q = unat n \<and>
           kblocks V k' q \<inter> heap_live h = {} \<and> heap_live h' = heap_live h \<union> kblocks V k' q))"

text \<open>\<open>vQueueDelete\<close> gives back exactly the blocks of the queue.\<close>

definition delete_law :: "'k kqueue \<Rightarrow> 'k kview \<Rightarrow> bool" where
  "delete_law K V \<longleftrightarrow> (\<forall>h k q h' k'. kheap_ok V h k \<longrightarrow> q \<in> khandles V k \<longrightarrow> vQueueDelete K q (h, k) = (h', k') \<longrightarrow>
     heap_ok h' \<and> heap_keeps (- kblocks V k q) h h' \<and> khandles V k' = khandles V k - {q} \<and>
     kframe V (khandles V k - {q}) k k' \<and> heap_live h' = heap_live h - kblocks V k q)"

text \<open>Sending appends when there is room; a full queue refuses at once when the timeout is 0.\<close>

definition send_law :: "'k kqueue \<Rightarrow> 'k kview \<Rightarrow> bool" where
  "send_law K V \<longleftrightarrow> (\<forall>k q x t. q \<in> khandles V k \<longrightarrow>
     (case xQueueSend K q x t k of
        (sent, k') \<Rightarrow> khandles V k' = khandles V k \<and> kframe V (khandles V k - {q}) k k' \<and>
          kcap V k' q = kcap V k q \<and> kblocks V k' q = kblocks V k q \<and>
          (length (kcont V k q) < kcap V k q \<longrightarrow> sent \<and> kcont V k' q = kcont V k q @ [x]) \<and>
          (kcap V k q \<le> length (kcont V k q) \<longrightarrow> t = 0 \<longrightarrow> \<not> sent \<and> kcont V k' q = kcont V k q)))"

definition receive_law :: "'k kqueue \<Rightarrow> 'k kview \<Rightarrow> bool" where
  "receive_law K V \<longleftrightarrow> (\<forall>k q t. q \<in> khandles V k \<longrightarrow>
     (case xQueueReceive K q t k of
        (r, k') \<Rightarrow> khandles V k' = khandles V k \<and> kframe V (khandles V k - {q}) k k' \<and>
          kcap V k' q = kcap V k q \<and> kblocks V k' q = kblocks V k q \<and>
          (\<forall>x xs. kcont V k q = x # xs \<longrightarrow> r = Some x \<and> kcont V k' q = xs) \<and>
          (kcont V k q = [] \<longrightarrow> t = 0 \<longrightarrow> r = None \<and> kcont V k' q = [])))"

definition waiting_law :: "'k kqueue \<Rightarrow> 'k kview \<Rightarrow> bool" where
  "waiting_law K V \<longleftrightarrow> (\<forall>k q. q \<in> khandles V k \<longrightarrow> uxQueueMessagesWaiting K q k = of_nat (length (kcont V k q)))"

definition kernel_queue :: "'k kqueue \<Rightarrow> 'k kview \<Rightarrow> bool" where
  "kernel_queue K V \<longleftrightarrow> create_law K V \<and> delete_law K V \<and> send_law K V \<and> receive_law K V \<and> waiting_law K V"

subsection \<open>A kernel that satisfies the laws\<close>

type_synonym lqueues = "u32 \<rightharpoonup> nat \<times> QueueElement list"

definition lq_create :: "u32 \<Rightarrow> u32 \<Rightarrow> heap4 \<times> lqueues \<Rightarrow> u32 \<times> heap4 \<times> lqueues" where
  "lq_create n z = (\<lambda>(h, k).
     case pvPortMalloc (80 + n * z) h of
       None \<Rightarrow> (0, h, k)
     | Some (p, h') \<Rightarrow> if p = 0 then (0, h', k) else (p, h', k(p \<mapsto> (unat n, []))))"

definition lq_delete :: "u32 \<Rightarrow> heap4 \<times> lqueues \<Rightarrow> heap4 \<times> lqueues" where
  "lq_delete q = (\<lambda>(h, k). case vPortFree q h of None \<Rightarrow> (h, k) | Some h' \<Rightarrow> (h', k(q := None)))"

definition lq_send :: "u32 \<Rightarrow> QueueElement \<Rightarrow> u32 \<Rightarrow> lqueues \<Rightarrow> bool \<times> lqueues" where
  "lq_send q x t k =
     (case k q of None \<Rightarrow> (False, k)
      | Some (c, xs) \<Rightarrow> if length xs < c then (True, k(q \<mapsto> (c, xs @ [x]))) else (False, k))"

definition lq_receive :: "u32 \<Rightarrow> u32 \<Rightarrow> lqueues \<Rightarrow> QueueElement option \<times> lqueues" where
  "lq_receive q t k =
     (case k q of Some (c, x # xs) \<Rightarrow> (Some x, k(q \<mapsto> (c, xs))) | _ \<Rightarrow> (None, k))"

definition lq_waiting :: "u32 \<Rightarrow> lqueues \<Rightarrow> u32" where
  "lq_waiting q k = (case k q of None \<Rightarrow> 0 | Some (c, xs) \<Rightarrow> of_nat (length xs))"

definition list_kernel :: "lqueues kqueue" where
  "list_kernel = \<lparr>xQueueCreate = lq_create, vQueueDelete = lq_delete, xQueueSend = lq_send,
     xQueueReceive = lq_receive, uxQueueMessagesWaiting = lq_waiting\<rparr>"

definition list_view :: "lqueues kview" where
  "list_view = \<lparr>kcont = (\<lambda>k q. case k q of None \<Rightarrow> [] | Some (c, xs) \<Rightarrow> xs),
     kcap = (\<lambda>k q. case k q of None \<Rightarrow> 0 | Some (c, xs) \<Rightarrow> c),
     khandles = dom, kblocks = (\<lambda>k q. {q})\<rparr>"

lemma list_view_simps [simp]:
  "kcont list_view k q = (case k q of None \<Rightarrow> [] | Some (c, xs) \<Rightarrow> xs)"
  "kcap list_view k q = (case k q of None \<Rightarrow> 0 | Some (c, xs) \<Rightarrow> c)"
  "khandles list_view = dom" "kblocks list_view k q = {q}"
  by (simp_all add: list_view_def)

lemma list_kernel_simps [simp]:
  "xQueueCreate list_kernel = lq_create" "vQueueDelete list_kernel = lq_delete" "xQueueSend list_kernel = lq_send"
  "xQueueReceive list_kernel = lq_receive" "uxQueueMessagesWaiting list_kernel = lq_waiting"
  by (simp_all add: list_kernel_def)

lemma keeps_malloc: "heap_ok h \<Longrightarrow> pvPortMalloc n h = Some (p, h') \<Longrightarrow> heap_keeps A h h'"
  using h4s.malloc_keeps unfolding heap_keeps_def by blast

lemma keeps_free: "heap_ok h \<Longrightarrow> p \<in> heap_live h \<Longrightarrow> vPortFree p h = Some h' \<Longrightarrow> p \<notin> A \<Longrightarrow> heap_keeps A h h'"
  using h4s.free_keeps unfolding heap_keeps_def by blast

lemma keeps_write:
  "heap_ok h \<Longrightarrow> heap_owns h p n \<Longrightarrow> length xs \<le> n \<Longrightarrow> p \<notin> A \<Longrightarrow> heap_keeps A h (heap_write p xs h)"
  using h4s.wr_owns h4s.wr_other unfolding heap_keeps_def by blast

lemma heap_keeps_trans: "heap_keeps A h h1 \<Longrightarrow> heap_keeps A h1 h2 \<Longrightarrow> heap_keeps A h h2"
  unfolding heap_keeps_def by auto

lemma heap_keeps_mono: "heap_keeps A h h' \<Longrightarrow> B \<subseteq> A \<Longrightarrow> heap_keeps B h h'"
  unfolding heap_keeps_def by blast

lemma heap_keeps_refl [simp]: "heap_keeps A h h"
  unfolding heap_keeps_def by simp

lemma list_create: "create_law list_kernel list_view"
  unfolding create_law_def
proof (intro allI impI)
  fix n h k q h' k'
  assume "kheap_ok list_view h k" and c: "xQueueCreate list_kernel n sizeof_QueueElement (h, k) = (q, h', k')"
  then have ok: "heap_ok h" and sub: "dom k \<subseteq> heap_live h" by (auto simp: kheap_ok_def)
  obtain p h1 where m: "pvPortMalloc (80 + n * sizeof_QueueElement) h = Some (p, h1)" "heap_ok h1"
    "p = 0 \<and> heap_live h1 = heap_live h \<or> p \<noteq> 0 \<and> p \<notin> heap_live h \<and> heap_live h1 = insert p (heap_live h)"
    using h4.malloc_returns [OF ok, of "80 + n * sizeof_QueueElement"] by blast
  have h: "q = p" "h' = h1" "k' = (if p = 0 then k else k(p \<mapsto> (unat n, [])))"
    using c m(1) by (auto simp: lq_create_def split: if_splits)
  show "heap_ok h' \<and> heap_keeps UNIV h h' \<and> kframe list_view (khandles list_view k) k k' \<and>
     (if q = 0 then khandles list_view k' = khandles list_view k \<and> heap_live h' = heap_live h
      else q \<notin> khandles list_view k \<and> khandles list_view k' = insert q (khandles list_view k) \<and>
        kcont list_view k' q = [] \<and> kcap list_view k' q = unat n \<and>
        kblocks list_view k' q \<inter> heap_live h = {} \<and> heap_live h' = heap_live h \<union> kblocks list_view k' q)"
    using m(2,3) keeps_malloc [OF ok m(1), of UNIV] sub unfolding h by (auto simp: kframe_def)
qed

lemma list_delete: "delete_law list_kernel list_view"
  unfolding delete_law_def
proof (intro allI impI)
  fix h k q h' k'
  assume ko: "kheap_ok list_view h k" and q: "q \<in> khandles list_view k" and c: "vQueueDelete list_kernel q (h, k) = (h', k')"
  then have ok: "heap_ok h" and l: "q \<in> heap_live h" by (auto simp: kheap_ok_def)
  obtain h1 where f: "vPortFree q h = Some h1" "heap_ok h1" "heap_live h1 = heap_live h - {q}"
    using h4.free_live [OF ok l] by blast
  have h: "h' = h1" "k' = k(q := None)" using c f(1) by (auto simp: lq_delete_def)
  show "heap_ok h' \<and> heap_keeps (- kblocks list_view k q) h h' \<and> khandles list_view k' = khandles list_view k - {q} \<and>
     kframe list_view (khandles list_view k - {q}) k k' \<and> heap_live h' = heap_live h - kblocks list_view k q"
    using f keeps_free [OF ok l f(1), of "- {q}"] unfolding h by (simp add: kframe_def)
qed

lemma kernel_queue_list: "kernel_queue list_kernel list_view"
  unfolding kernel_queue_def using list_create list_delete
  by (auto simp: send_law_def receive_law_def waiting_law_def lq_send_def lq_receive_def lq_waiting_def kframe_def
      split: option.splits list.splits)

subsection \<open>The invariant\<close>

text \<open>The heap blocks of a queue besides the kernel's, and what they hold; \<open>n\<close> is the queue's name.\<close>

definition elem_blocks :: "'k kview \<Rightarrow> 'k \<Rightarrow> QueueListElement \<Rightarrow> u32 list" where
  "elem_blocks V k e = q_addr e # pcName e # map pcData (kcont V k (xQueue e))"

definition elem_ok :: "'k kview \<Rightarrow> heap4 \<Rightarrow> 'k \<Rightarrow> u8 list \<Rightarrow> QueueListElement \<Rightarrow> bool" where
  "elem_ok V h k n e \<longleftrightarrow> xQueue e \<in> khandles V k \<and> 0 \<notin> set n \<and> heap_owns h (q_addr e) 40 \<and>
     heap_owns h (pcName e) (length n + 1) \<and> heap_read h (pcName e) (length n + 1) = n @ [0] \<and>
     (\<forall>x \<in> set (kcont V k (xQueue e)). heap_owns h (pcData x) (unat (xDataSize x)))"

definition messages :: "'k kview \<Rightarrow> heap4 \<Rightarrow> 'k \<Rightarrow> QueueListElement \<Rightarrow> u8 list list" where
  "messages V h k e = map (\<lambda>x. heap_read h (pcData x) (unat (xDataSize x))) (kcont V k (xQueue e))"

definition elems_inv :: "'k kview \<Rightarrow> heap4 \<Rightarrow> 'k \<Rightarrow> u8 list list \<Rightarrow> QueueListElement list \<Rightarrow> bool" where
  "elems_inv V h k nms es \<longleftrightarrow> list_all2 (elem_ok V h k) nms es \<and> distinct nms \<and> distinct (map xQueue es) \<and>
     distinct (concat (map (elem_blocks V k) es)) \<and>
     (\<forall>q \<in> khandles V k. kblocks V k q \<inter> set (concat (map (elem_blocks V k) es)) = {})"

definition mq_inv :: "'k kview \<Rightarrow> u8 list list \<Rightarrow> 'k mq_state \<Rightarrow> bool" where
  "mq_inv V nms s \<longleftrightarrow> kheap_ok V (mheap s) (kern s) \<and> elems_inv V (mheap s) (kern s) nms (queues s) \<and>
     (xQueueListInitialized s \<or> queues s = [])"

lemma elem_ok_frame:
  assumes "elem_ok V h k n e" "heap_keeps (set (elem_blocks V k e)) h h'"
    "kcont V k' (xQueue e) = kcont V k (xQueue e)" "xQueue e \<in> khandles V k'"
  shows "elem_ok V h' k' n e" "messages V h' k' e = messages V h k e" "elem_blocks V k' e = elem_blocks V k e"
  using assms unfolding elem_ok_def messages_def heap_keeps_def elem_blocks_def by auto

lemma elem_blocks_live: "heap_ok h \<Longrightarrow> elem_ok V h k n e \<Longrightarrow> set (elem_blocks V k e) \<subseteq> heap_live h"
  unfolding elem_ok_def elem_blocks_def using h4s.owns_live by auto

lemma elems_blocks_live:
  "heap_ok h \<Longrightarrow> elems_inv V h k nms es \<Longrightarrow> set (concat (map (elem_blocks V k) es)) \<subseteq> heap_live h"
  unfolding elems_inv_def list_all2_conv_all_nth set_conv_nth [of es]
  using elem_blocks_live [of h V k] by (fastforce simp: set_conv_nth [of es])

lemma elems_frame:
  assumes inv: "elems_inv V h k nms es"
    and keep: "heap_keeps (set (concat (map (elem_blocks V k) es))) h h'"
    and fr: "\<And>e. e \<in> set es \<Longrightarrow> kcont V k' (xQueue e) = kcont V k (xQueue e) \<and> xQueue e \<in> khandles V k'"
    and kb: "\<And>q. q \<in> khandles V k' \<Longrightarrow> kblocks V k' q \<inter> set (concat (map (elem_blocks V k) es)) = {}"
  shows "elems_inv V h' k' nms es" "\<And>e. e \<in> set es \<Longrightarrow> messages V h' k' e = messages V h k e"
    "map (elem_blocks V k') es = map (elem_blocks V k) es"
proof -
  have e: "elem_ok V h' k' n e \<and> messages V h' k' e = messages V h k e \<and> elem_blocks V k' e = elem_blocks V k e"
    if "elem_ok V h k n e" "e \<in> set es" for n e
  proof -
    have "heap_keeps (set (elem_blocks V k e)) h h'" using heap_keeps_mono [OF keep] that(2) by auto
    then show ?thesis using elem_ok_frame [OF that(1)] fr [OF that(2)] by blast
  qed
  have l: "list_all2 (elem_ok V h k) nms es" using inv by (simp add: elems_inv_def)
  have ok: "\<exists>n. elem_ok V h k n e" if "e \<in> set es" for e
    using l that by (auto simp: list_all2_conv_all_nth in_set_conv_nth)
  show b: "map (elem_blocks V k') es = map (elem_blocks V k) es" using e ok by (meson map_eq_conv)
  show "messages V h' k' x = messages V h k x" if "x \<in> set es" for x using e ok that by blast
  have "list_all2 (elem_ok V h' k') nms es" using l by (rule list.rel_mono_strong) (use e in blast)
  then show "elems_inv V h' k' nms es" using inv kb unfolding elems_inv_def b by blast
qed

lemma elems_inv_Cons:
  "elems_inv V h k (n # nms) (e # es) \<longleftrightarrow> elem_ok V h k n e \<and> elems_inv V h k nms es \<and> n \<notin> set nms \<and>
     xQueue e \<notin> xQueue ` set es \<and> distinct (elem_blocks V k e) \<and>
     set (elem_blocks V k e) \<inter> set (concat (map (elem_blocks V k) es)) = {} \<and>
     (\<forall>q \<in> khandles V k. kblocks V k q \<inter> set (elem_blocks V k e) = {})"
  unfolding elems_inv_def by (simp add: Int_Un_distrib ball_conj_distrib) blast

lemma elems_inv_mid:
  assumes "length n1 = length e1"
  shows "elems_inv V h k (n1 @ n # n2) (e1 @ e # e2) \<longleftrightarrow> elems_inv V h k (n # n1 @ n2) (e # e1 @ e2)"
proof -
  let ?B = "\<lambda>es. concat (map (elem_blocks V k) es)"
  have "distinct (?B (e1 @ e # e2)) \<longleftrightarrow> distinct (?B (e # e1 @ e2))" "set (?B (e1 @ e # e2)) = set (?B (e # e1 @ e2))"
    by auto
  moreover have "list_all2 (elem_ok V h k) (n1 @ n # n2) (e1 @ e # e2) \<longleftrightarrow>
      list_all2 (elem_ok V h k) (n # n1 @ n2) (e # e1 @ e2)"
    using assms by (auto simp: list_all2_append)
  ultimately show ?thesis unfolding elems_inv_def by auto
qed

text \<open>An element of the list in front: what the operations on one queue start from.\<close>

lemma elems_inv_split:
  assumes "elems_inv V h k nms es" "e \<in> set es"
  obtains n n1 n2 e1 e2 where "nms = n1 @ n # n2" "es = e1 @ e # e2" "length n1 = length e1"
    "elems_inv V h k (n # n1 @ n2) (e # e1 @ e2)"
proof -
  obtain e1 e2 where es: "es = e1 @ e # e2" using assms(2) by (auto simp: in_set_conv_decomp)
  have l: "length nms = length es" using assms(1) by (auto simp: elems_inv_def dest: list_all2_lengthD)
  let ?i = "length e1"
  have n: "nms = List.take ?i nms @ nms ! ?i # drop (Suc ?i) nms" "length (List.take ?i nms) = length e1"
    using l es by (auto simp: id_take_nth_drop)
  have "elems_inv V h k (List.take ?i nms @ nms ! ?i # drop (Suc ?i) nms) es" using assms(1) n(1) by simp
  then show thesis using that [OF n(1) es n(2)] unfolding es elems_inv_mid [OF n(2)] by blast
qed

text \<open>The invariant does not look at the other fields of an element.\<close>

definition elem_key :: "QueueListElement \<Rightarrow> u32 \<times> u32 \<times> u32" where
  "elem_key e = (q_addr e, pcName e, xQueue e)"

lemma elems_inv_key:
  assumes "map elem_key es' = map elem_key es" "elems_inv V h k nms es"
  shows "elems_inv V h k nms es'" "map (messages V h k) es' = map (messages V h k) es"
proof -
  have len: "length es' = length es" using assms(1) map_eq_imp_length_eq by blast
  have "elem_key (es' ! i) = elem_key (es ! i)" if "i < length es" for i
    using assms(1) that len by (metis nth_map)
  then have nth: "q_addr (es' ! i) = q_addr (es ! i) \<and> pcName (es' ! i) = pcName (es ! i) \<and> xQueue (es' ! i) = xQueue (es ! i)"
    if "i < length es" for i using that by (simp add: elem_key_def)
  have "map (elem_blocks V k) es' = map (elem_blocks V k) es" "map xQueue es' = map xQueue es"
    using nth len by (auto simp: list_eq_iff_nth_eq elem_blocks_def)
  moreover have "list_all2 (elem_ok V h k) nms es'"
    using assms(2) nth len unfolding elems_inv_def list_all2_conv_all_nth by (simp add: elem_ok_def)
  ultimately show "elems_inv V h k nms es'" using assms(2) unfolding elems_inv_def by simp
  show "map (messages V h k) es' = map (messages V h k) es"
    using nth len by (auto simp: list_eq_iff_nth_eq messages_def)
qed

lemma elems_addr_distinct: "elems_inv V h k nms es \<Longrightarrow> distinct (map q_addr es)"
proof (induction es arbitrary: nms)
  case (Cons e es)
  obtain n m where n: "nms = n # m" using Cons.prems by (cases nms) (auto simp: elems_inv_def)
  have i: "elems_inv V h k m es" "set (elem_blocks V k e) \<inter> set (concat (map (elem_blocks V k) es)) = {}"
    using Cons.prems unfolding n elems_inv_Cons by auto
  have "q_addr e \<notin> q_addr ` set es" using i(2) by (auto simp: elem_blocks_def)
  then show ?case using Cons.IH [OF i(1)] by simp
qed simp

subsection \<open>Looking up a queue\<close>

lemma find_desc:
  "prvFindQueueInList h es None d = Some e \<Longrightarrow> e \<in> set es \<and> q_addr e = d"
  "prvFindQueueInList h es None d = None \<longleftrightarrow> d \<notin> q_addr ` set es"
  by (induction es) (auto split: if_splits)

lemma find_desc_mem:
  assumes "elems_inv V h k nms es" "e \<in> set es"
  shows "prvFindQueueInList h' es None (q_addr e) = Some e"
proof -
  obtain e' where "prvFindQueueInList h' es None (q_addr e) = Some e'" using find_desc(2) [of h' es "q_addr e"] assms(2) by fastforce
  moreover have "e' = e" using find_desc(1) [OF calculation] elems_addr_distinct [OF assms(1)] assms(2)
    by (metis distinct_map inj_onD)
  ultimately show ?thesis by simp
qed

lemma nth_read_bytes: "i < n \<Longrightarrow> read_bytes m p n ! i = m (p + of_nat i)"
proof (induction n arbitrary: p i)
  case (Suc n)
  then show ?case by (cases i) (simp_all add: add.assoc)
qed simp

lemma length_read_bytes [simp]: "length (read_bytes m p n) = n"
  by (induction n arbitrary: p) simp_all

text \<open>\<open>strcmp\<close> against a stored name decides equality of names.\<close>

lemma strcmp_name:
  assumes "heap_read h p (length n + 1) = n @ [0]" "0 \<notin> set n" "0 \<notin> set m"
  shows "strcmp_eq h p m \<longleftrightarrow> m = n"
proof
  assume e: "strcmp_eq h p m"
  have at: "hmem h (p + of_nat i) = (w @ [0]) ! i" if "heap_read h p (length w + 1) = w @ [0]" "i \<le> length w" for w i
    using nth_read_bytes [of i "length w + 1" "hmem h" p] that unfolding heap_read_def by simp
  have le: "length v \<le> length w"
    if "heap_read h p (length w + 1) = w @ [0]" "heap_read h p (length v + 1) = v @ [0]" "0 \<notin> set v" for v w
  proof (rule ccontr)
    assume "\<not> length v \<le> length w"
    then have "v ! length w = 0" using at [OF that(1), of "length w"] at [OF that(2), of "length w"] by (simp add: nth_append)
    then show False using that(3) \<open>\<not> length v \<le> length w\<close> by (metis linorder_not_less nth_mem)
  qed
  have "length m = length n"
    using le [OF assms(1) e [unfolded strcmp_eq_def] assms(3)] le [OF e [unfolded strcmp_eq_def] assms(1,2)] by simp
  then show "m = n" using e assms(1) by (simp add: strcmp_eq_def)
qed (use assms in \<open>simp add: strcmp_eq_def\<close>)

lemma find_name:
  assumes "elems_inv V h k nms es" "heap_ok h" "0 \<notin> set m"
  shows "prvFindQueueInList h es (Some m) 0 = map_of (zip nms es) m"
  using assms(1)
proof (induction es arbitrary: nms)
  case (Cons e es)
  obtain n ms where n: "nms = n # ms" using Cons.prems by (cases nms) (auto simp: elems_inv_def)
  have i: "elems_inv V h k ms es" "elem_ok V h k n e" using Cons.prems unfolding n elems_inv_Cons by auto
  have "q_addr e \<in> heap_live h" using i(2) h4s.owns_live [OF assms(2)] by (auto simp: elem_ok_def)
  then have "q_addr e \<noteq> 0" using h4.null_not_live [OF assms(2)] by metis
  moreover have "strcmp_eq h (pcName e) m \<longleftrightarrow> m = n"
    using strcmp_name [of h "pcName e" n m] i(2) assms(3) by (auto simp: elem_ok_def)
  ultimately show ?case using Cons.IH [OF i(1)] n by simp
qed simp

text \<open>The stored name of a string argument, and \<open>UTILS_strnlen\<close> on a string in memory.\<close>

lemma strncpy_name [simp]: "strncpy_bytes name (length name + 1) = name @ [0]"
  by (simp add: strncpy_bytes_def)

lemma strnlen_loop_string:
  "read_bytes m p (length str + 1) = str @ [0] \<Longrightarrow> 0 \<notin> set str \<Longrightarrow> a \<le> c \<Longrightarrow>
   strnlen_loop m p a c = min (a + length str) c"
proof (induction str arbitrary: p a)
  case (Cons x xs)
  then have "m p \<noteq> 0" "read_bytes m (p + 1) (length xs + 1) = xs @ [0]" "0 \<notin> set xs" by auto
  then show ?case using Cons.IH [of "p + 1" "a + 1"] Cons.prems(3)
    by (subst strnlen_loop.simps) auto
qed (subst strnlen_loop.simps, auto)

lemma str_nlen_UTILS:
  "read_bytes m p (length str + 1) = str @ [0] \<Longrightarrow> 0 \<notin> set str \<Longrightarrow> p \<noteq> 0 \<Longrightarrow> UTILS_strnlen m p c = str_nlen str c"
  using strnlen_loop_string [of m p str 0 c] by (simp add: UTILS_strnlen_def str_nlen_def)

lemma validate_name:
  "prvValidateQueueName name = Some l \<longleftrightarrow> l = length name \<and> length name \<le> 65 \<and> (\<exists>rest. name = 0x2F # rest)"
  by (cases name) (auto simp: prvValidateQueueName_def str_nlen_def NAME_MAX_def)

end
