(* ===== verification/Posix_Mqueue_Fifo.thy ===== *)
theory Posix_Mqueue_Fifo
  imports Posix_Mqueue_Inv
begin

text \<open>
  Sending and receiving on the message queues, for every kernel that satisfies \<open>kernel_queue\<close>: the
  calls are the operations of a list of byte strings per descriptor, a failing call leaks nothing,
  and every call keeps the invariant.
\<close>

lemma kernel_laws:
  assumes "kernel_queue K V"
  shows "create_law K V" "delete_law K V" "send_law K V" "receive_law K V" "waiting_law K V"
  using assms by (auto simp: kernel_queue_def)

lemma mq_invD:
  assumes "mq_inv V nms s"
  shows "kheap_ok V (mheap s) (kern s)" "heap_ok (mheap s)" "elems_inv V (mheap s) (kern s) nms (queues s)"
  using assms by (auto simp: mq_inv_def kheap_ok_def)

text \<open>One queue changes, the others keep their blocks and contents.\<close>

lemma elems_update:
  assumes inv: "elems_inv V h k nms es" and e: "e \<in> set es" and ok: "heap_ok h"
    and hd: "khandles V k' = khandles V k" "kframe V (khandles V k - {xQueue e}) k k'" "kblocks V k' (xQueue e) = kblocks V k (xQueue e)"
    and keep: "heap_keeps (- set (elem_blocks V k e)) h h'"
    and new: "\<forall>n. elem_ok V h k n e \<longrightarrow> elem_ok V h' k' n e" "distinct (elem_blocks V k' e)"
      "set (elem_blocks V k' e) \<subseteq> set (elem_blocks V k e) \<union> (- heap_live h)"
    and kb: "\<forall>q \<in> khandles V k. kblocks V k q \<subseteq> heap_live h"
  shows "elems_inv V h' k' nms es" "\<And>x. x \<in> set es \<Longrightarrow> x \<noteq> e \<Longrightarrow> messages V h' k' x = messages V h k x"
proof -
  obtain n n1 n2 e1 e2 where sp: "nms = n1 @ n # n2" "es = e1 @ e # e2" "length n1 = length e1"
    "elems_inv V h k (n # n1 @ n2) (e # e1 @ e2)" by (rule elems_inv_split [OF inv e])
  let ?R = "e1 @ e2"
  let ?B = "set (concat (map (elem_blocks V k) ?R))"
  have p: "elem_ok V h k n e" "elems_inv V h k (n1 @ n2) ?R" "n \<notin> set (n1 @ n2)" "xQueue e \<notin> xQueue ` set ?R"
    "set (elem_blocks V k e) \<inter> ?B = {}" "\<forall>q \<in> khandles V k. kblocks V k q \<inter> set (elem_blocks V k e) = {}"
    using sp(4) unfolding elems_inv_Cons by blast+
  have hs: "xQueue x \<in> khandles V k" if "x \<in> set ?R" for x
    using p(2) that unfolding elems_inv_def list_all2_conv_all_nth in_set_conv_nth by (auto simp: elem_ok_def)
  have kbs: "kblocks V k' q = kblocks V k q" if "q \<in> khandles V k" for q
    using hd(2,3) that by (cases "q = xQueue e") (auto simp: kframe_def)
  note fr = elems_frame [OF p(2), of h' k']
  have k: "heap_keeps ?B h h'" using heap_keeps_mono [OF keep, of ?B] p(5) by blast
  have c: "kcont V k' (xQueue x) = kcont V k (xQueue x) \<and> xQueue x \<in> khandles V k'" if "x \<in> set ?R" for x
  proof -
    have "xQueue x \<noteq> xQueue e" using p(4) that by (metis imageI)
    then show ?thesis using hs [OF that] hd(1,2) by (simp add: kframe_def)
  qed
  have b: "kblocks V k' q \<inter> ?B = {}" if "q \<in> khandles V k'" for q
    using p(2) that kbs hd(1) unfolding elems_inv_def by auto
  have rest: "elems_inv V h' k' (n1 @ n2) ?R" "map (elem_blocks V k') ?R = map (elem_blocks V k) ?R"
    using fr(1,3) [OF k c b] by blast+
  have live: "?B \<subseteq> heap_live h" using elems_blocks_live [OF ok p(2)] .
  have "set (elem_blocks V k' e) \<inter> set (concat (map (elem_blocks V k') ?R)) = {}"
    unfolding rest(2) using new(3) p(5) live by blast
  moreover have "kblocks V k' q \<inter> set (elem_blocks V k' e) = {}" if "q \<in> khandles V k'" for q
    using kbs [of q] kb new(3) p(6) that hd(1) by blast
  ultimately have "elems_inv V h' k' (n # n1 @ n2) (e # e1 @ e2)"
    unfolding elems_inv_Cons using new(1) p(1) new(2) rest(1) p(3,4) by blast
  then show "elems_inv V h' k' nms es" unfolding sp(1,2) elems_inv_mid [OF sp(3)] .
  fix x assume "x \<in> set es" "x \<noteq> e"
  then have "x \<in> set ?R" unfolding sp(2) by auto
  then show "messages V h' k' x = messages V h k x" using fr(2) [OF k c b] by blast
qed

lemma kheap_ok_frame:
  assumes "kheap_ok V h k" "heap_ok h'" "khandles V k' = khandles V k" "kframe V (khandles V k) k k'"
    "\<And>q. q \<in> khandles V k \<Longrightarrow> kblocks V k q \<subseteq> heap_live h'"
  shows "kheap_ok V h' k'"
  using assms unfolding kheap_ok_def kframe_def by auto

lemma elem_handle: "elems_inv V h k nms es \<Longrightarrow> e \<in> set es \<Longrightarrow> \<exists>n. elem_ok V h k n e \<and> xQueue e \<in> khandles V k"
  unfolding elems_inv_def list_all2_conv_all_nth in_set_conv_nth by (auto simp: elem_ok_def)

lemma queue_send_cases:
  assumes "send_law K V" "q \<in> khandles V k" "xQueueSend K q x t k = (sent, k')"
  shows "khandles V k' = khandles V k" "kframe V (khandles V k - {q}) k k'" "kcap V k' q = kcap V k q" "kblocks V k' q = kblocks V k q"
    "length (kcont V k q) < kcap V k q \<Longrightarrow> sent \<and> kcont V k' q = kcont V k q @ [x]"
    "kcap V k q \<le> length (kcont V k q) \<Longrightarrow> t = 0 \<Longrightarrow> \<not> sent \<and> kcont V k' q = kcont V k q"
  using assms(1) [unfolded send_law_def, rule_format, OF assms(2), of x t] assms(3) by auto

lemma queue_receive_cases:
  assumes "receive_law K V" "q \<in> khandles V k" "xQueueReceive K q t k = (r, k')"
  shows "khandles V k' = khandles V k" "kframe V (khandles V k - {q}) k k'" "kcap V k' q = kcap V k q" "kblocks V k' q = kblocks V k q"
    "kcont V k q = x # xs \<Longrightarrow> r = Some x \<and> kcont V k' q = xs"
    "kcont V k q = [] \<Longrightarrow> t = 0 \<Longrightarrow> r = None \<and> kcont V k' q = []"
  using assms(1) [unfolded receive_law_def, rule_format, OF assms(2), of t] assms(3) by auto

lemma kframe_all:
  assumes "kframe V (A - {q}) k k'" "kcont V k' q = kcont V k q" "kcap V k' q = kcap V k q" "kblocks V k' q = kblocks V k q"
  shows "kframe V A k k'"
  using assms unfolding kframe_def by (metis DiffI singletonD)

subsection \<open>Sending and receiving\<close>

lemma send_effect:
  fixes msg :: "u8 list"
  defines "x p \<equiv> \<lparr>pcData = p, xDataSize = of_nat (length msg)\<rparr>"
  assumes kq: "kernel_queue K V" and inv: "mq_inv V nms s" and e: "e \<in> set (queues s)" and len: "length msg < 2 ^ 32"
    and m: "pvPortMalloc (of_nat (length msg)) (mheap s) = Some (p, h1)" "p \<noteq> 0"
    and room: "length (kcont V (kern s) (xQueue e)) < kcap V (kern s) (xQueue e)"
    and send: "xQueueSend K (xQueue e) (x p) t (kern s) = (sent, k')"
  shows "sent" "mq_inv V nms (s\<lparr>mheap := heap_write p msg h1, kern := k'\<rparr>)"
    "messages V (heap_write p msg h1) k' e = messages V (mheap s) (kern s) e @ [msg]"
    "\<And>y. y \<in> set (queues s) \<Longrightarrow> y \<noteq> e \<Longrightarrow> messages V (heap_write p msg h1) k' y = messages V (mheap s) (kern s) y"
    "heap_live (heap_write p msg h1) = insert p (heap_live (mheap s))" "p \<notin> heap_live (mheap s)"
proof -
  let ?h = "heap_write p msg h1" and ?q = "xQueue e" and ?k = "kern s"
  note i = mq_invD [OF inv]
  note st = h4s.store_new [OF i(2) m len]
  have keep: "heap_keeps A (mheap s) ?h" for A unfolding heap_keeps_def using st(6) by blast
  obtain n where n: "elem_ok V (mheap s) ?k n e" "?q \<in> khandles V ?k" using elem_handle [OF i(3) e] by blast
  note sl = queue_send_cases [OF kernel_laws(3) [OF kq] n(2) send]
  show "sent" using sl(5) room by blast
  have c: "kcont V k' ?q = kcont V ?k ?q @ [x p]" using sl(5) room by blast
  have kb: "\<forall>q \<in> khandles V ?k. kblocks V ?k q \<subseteq> heap_live (mheap s)" using i(1) by (simp add: kheap_ok_def)
  have kbs: "kblocks V k' q = kblocks V ?k q" if "q \<in> khandles V ?k" for q
    using sl(2,4) that by (cases "q = ?q") (auto simp: kframe_def)
  have b: "elem_blocks V k' e = elem_blocks V ?k e @ [p]" by (simp add: elem_blocks_def c x_def)
  have bl: "set (elem_blocks V ?k e) \<subseteq> heap_live (mheap s)" "distinct (elem_blocks V ?k e)"
  proof -
    show "set (elem_blocks V ?k e) \<subseteq> heap_live (mheap s)" using elem_blocks_live [OF i(2) n(1)] .
    show "distinct (elem_blocks V ?k e)" using elems_inv_split [OF i(3) e] unfolding elems_inv_Cons by metis
  qed
  have ok: "\<forall>m. elem_ok V (mheap s) ?k m e \<longrightarrow> elem_ok V ?h k' m e"
    using st(4) st(6) len sl(1) unfolding elem_ok_def c by (auto simp: x_def)
  have d: "distinct (elem_blocks V k' e)" "set (elem_blocks V k' e) \<subseteq> set (elem_blocks V ?k e) \<union> - heap_live (mheap s)"
    using b bl st(2) by auto
  note up = elems_update [OF i(3) e i(2) sl(1,2,4) keep ok d kb]
  have "elems_inv V ?h k' nms (queues s)" by (rule up(1))
  moreover have "kheap_ok V ?h k'"
    using i(1) st(1,3) kbs unfolding kheap_ok_def sl(1) by auto
  ultimately show "mq_inv V nms (s\<lparr>mheap := ?h, kern := k'\<rparr>)" using inv by (auto simp: mq_inv_def)
  have "\<forall>y \<in> set (kcont V ?k ?q). heap_read ?h (pcData y) (unat (xDataSize y)) = heap_read (mheap s) (pcData y) (unat (xDataSize y))"
    using n(1) st(6) by (auto simp: elem_ok_def)
  then show "messages V ?h k' e = messages V (mheap s) ?k e @ [msg]"
    using st(5) len by (simp add: messages_def c x_def)
  show "messages V ?h k' y = messages V (mheap s) ?k y" if "y \<in> set (queues s)" "y \<noteq> e" for y
    using up(2) [OF that] .
  show "heap_live ?h = insert p (heap_live (mheap s))" "p \<notin> heap_live (mheap s)" using st(2,3) by auto
qed

lemma receive_effect:
  assumes kq: "kernel_queue K V" and inv: "mq_inv V nms s" and e: "e \<in> set (queues s)"
    and c: "kcont V (kern s) (xQueue e) = x # xs"
    and rc: "xQueueReceive K (xQueue e) t (kern s) = (r, k')"
  shows "r = Some x" "\<exists>h'. vPortFree (pcData x) (mheap s) = Some h' \<and> mq_inv V nms (s\<lparr>mheap := h', kern := k'\<rparr>) \<and>
    messages V h' k' e = tl (messages V (mheap s) (kern s) e) \<and>
    (\<forall>y \<in> set (queues s). y \<noteq> e \<longrightarrow> messages V h' k' y = messages V (mheap s) (kern s) y) \<and>
    pcData x \<in> heap_live (mheap s) \<and> heap_live h' = heap_live (mheap s) - {pcData x}"
proof -
  let ?q = "xQueue e" and ?k = "kern s" and ?p = "pcData x"
  note i = mq_invD [OF inv]
  obtain n where n: "elem_ok V (mheap s) ?k n e" "?q \<in> khandles V ?k" using elem_handle [OF i(3) e] by blast
  note rl = queue_receive_cases [OF kernel_laws(4) [OF kq] n(2) rc]
  show "r = Some x" using rl(5) [OF c] by blast
  have c': "kcont V k' ?q = xs" using rl(5) [OF c] by blast
  have d: "distinct (elem_blocks V ?k e)" "set (elem_blocks V ?k e) \<subseteq> heap_live (mheap s)"
    using elem_blocks_live [OF i(2) n(1)] elems_inv_split [OF i(3) e] unfolding elems_inv_Cons by metis+
  have kb0: "kblocks V ?k q \<inter> set (elem_blocks V ?k e) = {}" if "q \<in> khandles V ?k" for q
    using i(3) e that unfolding elems_inv_def by auto
  have l: "?p \<in> heap_live (mheap s)" "?p \<in> set (elem_blocks V ?k e)" using d(2) c by (auto simp: elem_blocks_def)
  obtain h' where h': "vPortFree ?p (mheap s) = Some h'" "heap_ok h'" "heap_live h' = heap_live (mheap s) - {?p}"
    using h4.free_live [OF i(2) l(1)] by blast
  have keep: "heap_keeps A (mheap s) h'" if "?p \<notin> A" for A using keeps_free [OF i(2) l(1) h'(1) that] .
  have b: "elem_blocks V ?k e = q_addr e # pcName e # ?p # map pcData xs" "elem_blocks V k' e = q_addr e # pcName e # map pcData xs"
    by (simp_all add: elem_blocks_def c c')
  have kp: "heap_owns h' y j \<and> heap_read h' y j = heap_read (mheap s) y j"
    if "y \<in> set (elem_blocks V k' e)" "heap_owns (mheap s) y j" for y j
    using keep [of "set (elem_blocks V k' e)"] d(1) that b unfolding heap_keeps_def by auto
  have ok: "\<forall>m. elem_ok V (mheap s) ?k m e \<longrightarrow> elem_ok V h' k' m e"
    using kp rl(1) unfolding elem_ok_def c c' b(2) by simp
  have kb: "\<forall>q \<in> khandles V ?k. kblocks V ?k q \<subseteq> heap_live (mheap s)" using i(1) by (simp add: kheap_ok_def)
  have kbs: "kblocks V k' q = kblocks V ?k q" if "q \<in> khandles V ?k" for q
    using rl(2,4) that by (cases "q = ?q") (auto simp: kframe_def)
  have keep': "heap_keeps (- set (elem_blocks V ?k e)) (mheap s) h'" by (rule keep) (use l(2) in auto)
  have d': "distinct (elem_blocks V k' e)" "set (elem_blocks V k' e) \<subseteq> set (elem_blocks V ?k e) \<union> - heap_live (mheap s)"
    using b d by auto
  note up = elems_update [OF i(3) e i(2) rl(1,2,4) keep' ok d' kb]
  have "elems_inv V h' k' nms (queues s)" by (rule up(1))
  moreover have "kheap_ok V h' k'"
  proof -
    have "kblocks V ?k q \<subseteq> heap_live h'" if "q \<in> khandles V ?k" for q using kb kb0 [OF that] l(2) that h'(3) by auto
    then show ?thesis using i(1) h'(2) kbs unfolding kheap_ok_def rl(1) by simp
  qed
  ultimately have inv': "mq_inv V nms (s\<lparr>mheap := h', kern := k'\<rparr>)" using inv by (auto simp: mq_inv_def)
  have "\<forall>y \<in> set xs. heap_read h' (pcData y) (unat (xDataSize y)) = heap_read (mheap s) (pcData y) (unat (xDataSize y))"
    using n(1) kp b(2) unfolding elem_ok_def c by auto
  then have me: "messages V h' k' e = tl (messages V (mheap s) ?k e)" by (simp add: messages_def c c')
  have mo: "messages V h' k' y = messages V (mheap s) ?k y" if "y \<in> set (queues s)" "y \<noteq> e" for y
    using up(2) [OF that] .
  show "\<exists>h'. vPortFree (pcData x) (mheap s) = Some h' \<and> mq_inv V nms (s\<lparr>mheap := h', kern := k'\<rparr>) \<and>
    messages V h' k' e = tl (messages V (mheap s) (kern s) e) \<and>
    (\<forall>y \<in> set (queues s). y \<noteq> e \<longrightarrow> messages V h' k' y = messages V (mheap s) (kern s) y) \<and>
    pcData x \<in> heap_live (mheap s) \<and> heap_live h' = heap_live (mheap s) - {pcData x}"
    using h' inv' me mo l(1) by blast
qed

text \<open>A call that changes neither the owned blocks nor the kernel queues keeps everything.\<close>

lemma mq_inv_frame:
  assumes inv: "mq_inv V nms s" and h: "heap_ok h'" "heap_keeps (set (concat (map (elem_blocks V (kern s)) (queues s)))) (mheap s) h'"
    "heap_live h' = heap_live (mheap s)"
    and k: "khandles V k' = khandles V (kern s)" "kframe V (khandles V (kern s)) (kern s) k'"
  shows "mq_inv V nms (s\<lparr>mheap := h', kern := k'\<rparr>)"
    "\<And>e. e \<in> set (queues s) \<Longrightarrow> messages V h' k' e = messages V (mheap s) (kern s) e"
proof -
  note i = mq_invD [OF inv]
  have ho: "kheap_ok V h' k'" by (rule kheap_ok_frame [OF i(1) h(1) k]) (use i(1) h(3) in \<open>auto simp: kheap_ok_def\<close>)
  have c: "kcont V k' (xQueue e) = kcont V (kern s) (xQueue e) \<and> xQueue e \<in> khandles V k'" if "e \<in> set (queues s)" for e
    using elem_handle [OF i(3) that] k by (auto simp: kframe_def)
  have b: "kblocks V k' q \<inter> set (concat (map (elem_blocks V (kern s)) (queues s))) = {}" if "q \<in> khandles V k'" for q
    using i(3) that k unfolding elems_inv_def kframe_def by auto
  note f = elems_frame [OF i(3) h(2) c b]
  show "mq_inv V nms (s\<lparr>mheap := h', kern := k'\<rparr>)" using f(1) ho inv by (auto simp: mq_inv_def)
  show "\<And>e. e \<in> set (queues s) \<Longrightarrow> messages V h' k' e = messages V (mheap s) (kern s) e" using f(2) by blast
qed


lemma heap_owns_lt: "heap_ok h \<Longrightarrow> heap_owns h p n \<Longrightarrow> n < 2 ^ 31"
proof -
  assume "heap_owns h p n"
  then obtain bs k where b: "heap_inv h bs" "(unat p, k) \<in> set (used_blocks (heap_start h) bs)" "n \<le> k"
    by (auto simp: heap_owns_def)
  show "n < 2 ^ 31"
    using used_blocks_bounds [OF heap_inv_facts(1) [OF b(1)] b(2)] heap_inv_facts(2) [OF b(1)] b(3) by linarith
qed

lemma checks_Inr:
  "mq_checks bad d abstime now s = Inr (e, t) \<Longrightarrow>
   e \<in> set (queues s) \<and> q_addr e = d \<and> \<not> bad e \<and> prvCalculateTickTimeout (mq_flags (xAttr e)) abstime now 0 = (0, t)"
  unfolding mq_checks_def using find_desc(1) [of "mheap s" "queues s" d]
  by (auto split: option.splits if_splits prod.splits)

text \<open>The abstract state: each descriptor with the byte strings waiting in its queue.\<close>

definition mq_contents :: "'k kview \<Rightarrow> 'k mq_state \<Rightarrow> (u32 \<times> u8 list list) list" where
  "mq_contents V s = map (\<lambda>e. (q_addr e, messages V (mheap s) (kern s) e)) (queues s)"

definition at_queue :: "u32 \<Rightarrow> ('m list \<Rightarrow> 'm list) \<Rightarrow> (u32 \<times> 'm list) list \<Rightarrow> (u32 \<times> 'm list) list" where
  "at_queue d f c = map (\<lambda>(q, ms). (q, if q = d then f ms else ms)) c"

lemma mq_contents_at:
  assumes "mq_inv V nms s" "e \<in> set (queues s)" "queues s' = queues s"
    "messages V (mheap s') (kern s') e = f (messages V (mheap s) (kern s) e)"
    "\<And>y. y \<in> set (queues s) \<Longrightarrow> y \<noteq> e \<Longrightarrow> messages V (mheap s') (kern s') y = messages V (mheap s) (kern s) y"
  shows "mq_contents V s' = at_queue (q_addr e) f (mq_contents V s)"
proof -
  have d: "distinct (map q_addr (queues s))" using elems_addr_distinct [OF mq_invD(3) [OF assms(1)]] .
  have "q_addr y = q_addr e \<longleftrightarrow> y = e" if "y \<in> set (queues s)" for y
    using d that assms(2) by (auto simp: distinct_map inj_on_def)
  then show ?thesis using assms(3-5) unfolding mq_contents_def at_queue_def by auto
qed

lemma mq_contents_same:
  assumes "queues s' = queues s"
    "\<And>y. y \<in> set (queues s) \<Longrightarrow> messages V (mheap s') (kern s') y = messages V (mheap s) (kern s) y"
  shows "mq_contents V s' = mq_contents V s"
  using assms unfolding mq_contents_def by auto

definition send_status :: "'k kview \<Rightarrow> u8 list \<Rightarrow> 'k mq_state \<Rightarrow> int + QueueListElement \<times> u32 \<Rightarrow> status" where
  "send_status V msg s r =
     (case r of
        Inl err \<Rightarrow> (- 1, Some err)
      | Inr (e, t) \<Rightarrow>
          if fst (the (pvPortMalloc (of_nat (length msg)) (mheap s))) = 0 then (- 1, Some EMSGSIZE)
          else if length (messages V (mheap s) (kern s) e) < kcap V (kern s) (xQueue e) then (0, None)
          else (- 1, Some (queue_errno e)))"

text \<open>A send that does not have to wait: it fails, there is room, or its timeout is 0.\<close>

definition send_ready :: "'k kview \<Rightarrow> 'k mq_state \<Rightarrow> int + QueueListElement \<times> u32 \<Rightarrow> bool" where
  "send_ready V s r =
     (case r of
        Inl _ \<Rightarrow> True
      | Inr (e, t) \<Rightarrow> length (messages V (mheap s) (kern s) e) < kcap V (kern s) (xQueue e) \<or> t = 0)"

definition send_check :: "u32 \<Rightarrow> u8 list \<Rightarrow> timespec option \<Rightarrow> TimeOut_t \<Rightarrow> 'k mq_state \<Rightarrow> int + QueueListElement \<times> u32" where
  "send_check d msg = mq_checks (\<lambda>q. of_nat (length msg) > mq_msgsize (xAttr q)) d"

lemma length_messages [simp]: "length (messages V h k e) = length (kcont V k (xQueue e))"
  by (simp add: messages_def)

lemma mq_timedsend_spec:
  assumes kq: "kernel_queue K V" and inv: "mq_inv V nms s" and init: "xQueueListInitialized s" and len: "length msg < 2 ^ 32"
    and ready: "send_ready V s (send_check d msg abstime now s)"
  defines "st \<equiv> send_status V msg s (send_check d msg abstime now s)"
  shows "\<exists>s'. mq_timedsend K d msg abstime now s = Some (st, s') \<and> mq_inv V nms s' \<and> queues s' = queues s \<and>
    (if st = (0, None) then mq_contents V s' = at_queue d (\<lambda>ms. ms @ [msg]) (mq_contents V s) \<and>
       (\<exists>p. p \<notin> heap_live (mheap s) \<and> heap_live (mheap s') = insert p (heap_live (mheap s)))
     else mq_contents V s' = mq_contents V s \<and> heap_live (mheap s') = heap_live (mheap s))"
proof (cases "send_check d msg abstime now s")
  case (Inl err)
  then show ?thesis using inv init by (auto simp: mq_timedsend_def st_def send_status_def send_check_def)
next
  case (Inr r)
  obtain e t where r: "r = (e, t)" by (cases r)
  have ck: "send_check d msg abstime now s = Inr (e, t)" using Inr r by simp
  have e: "e \<in> set (queues s)" "q_addr e = d" using checks_Inr [OF ck [unfolded send_check_def]] by auto
  note i = mq_invD [OF inv]
  let ?q = "xQueue e" and ?k = "kern s" and ?h = "mheap s"
  obtain p h1 where m: "pvPortMalloc (of_nat (length msg)) ?h = Some (p, h1)" "heap_ok h1"
    "p = 0 \<and> heap_live h1 = heap_live ?h \<or> p \<noteq> 0 \<and> p \<notin> heap_live ?h \<and> heap_live h1 = insert p (heap_live ?h)"
    using h4.malloc_returns [OF i(2), of "of_nat (length msg)"] by blast
  show ?thesis
  proof (cases "p = 0")
    case True
    have st: "st = (- 1, Some EMSGSIZE)" using m(1) True by (simp add: st_def send_status_def ck)
    have run: "mq_timedsend K d msg abstime now s = Some (st, s\<lparr>mheap := h1\<rparr>)"
      using m(1) True init ck unfolding st by (simp add: mq_timedsend_def send_check_def)
    note f = mq_inv_frame [OF inv m(2) keeps_malloc [OF i(2) m(1)] _ refl, of]
    have l: "heap_live h1 = heap_live ?h" using m(3) True by simp
    have "mq_inv V nms (s\<lparr>mheap := h1\<rparr>)" "mq_contents V (s\<lparr>mheap := h1\<rparr>) = mq_contents V s"
      using f(1) [OF l] f(2) [OF l] by (auto simp: kframe_def intro!: mq_contents_same)
    then show ?thesis using run st l by simp
  next
    case False
    define x where "x = \<lparr>pcData = p, xDataSize = of_nat (length msg)\<rparr>"
    obtain sent k' where sd: "xQueueSend K ?q x t ?k = (sent, k')" by fastforce
    let ?h2 = "heap_write p msg h1"
    have run: "mq_timedsend K d msg abstime now s =
        (if \<not> sent then do { h \<leftarrow> vPortFree p ?h2; Some ((- 1, Some (queue_errno e)), s\<lparr>mheap := h, kern := k'\<rparr>) }
         else Some ((0, None), s\<lparr>mheap := ?h2, kern := k'\<rparr>))"
      using m(1) False init ck sd by (simp add: mq_timedsend_def send_check_def x_def)
    show ?thesis
    proof (cases "length (kcont V ?k ?q) < kcap V ?k ?q")
      case True
      note se = send_effect [OF kq inv e(1) len m(1) False True sd [unfolded x_def]]
      have st: "st = (0, None)" using m(1) False True by (simp add: st_def send_status_def ck)
      have "mq_contents V (s\<lparr>mheap := ?h2, kern := k'\<rparr>) = at_queue d (\<lambda>ms. ms @ [msg]) (mq_contents V s)"
        unfolding e(2) [symmetric] by (rule mq_contents_at [OF inv e(1)]) (use se(3,4) in auto)
      then show ?thesis using run st se(1,2,5,6) by auto
    next
      case full: False
      have t: "t = 0" using ready full by (simp add: send_ready_def ck)
      obtain n where n: "?q \<in> khandles V ?k" using elem_handle [OF i(3) e(1)] by blast
      note sl = queue_send_cases [OF kernel_laws(3) [OF kq] n sd]
      have ns: "\<not> sent" "kcont V k' ?q = kcont V ?k ?q" using sl(6) full t by auto
      have st: "st = (- 1, Some (queue_errno e))" using m(1) False full by (simp add: st_def send_status_def ck)
      note sn = h4s.store_new [OF i(2) m(1) False len]
      obtain h3 where h3: "vPortFree p ?h2 = Some h3" "heap_ok h3" "heap_live h3 = heap_live ?h2 - {p}"
        using h4.free_live [OF sn(1), of p] sn(3) by auto
      have l: "heap_live h3 = heap_live ?h" using h3(3) sn(2,3) by auto
      let ?B = "set (concat (map (elem_blocks V ?k) (queues s)))"
      have "p \<notin> ?B" using elems_blocks_live [OF i(2,3)] sn(2) by blast
      then have "heap_keeps ?B ?h2 h3" using keeps_free [OF sn(1) _ h3(1)] sn(3) by simp
      moreover have "heap_keeps ?B ?h ?h2" unfolding heap_keeps_def using sn(6) by blast
      ultimately have keep: "heap_keeps ?B ?h h3" using heap_keeps_trans by blast
      note f = mq_inv_frame [OF inv h3(2) keep l sl(1) kframe_all [OF sl(2) ns(2) sl(3,4)]]
      have "mq_contents V (s\<lparr>mheap := h3, kern := k'\<rparr>) = mq_contents V s" by (rule mq_contents_same) (use f(2) in auto)
      then show ?thesis using run ns(1) h3(1) f(1) st l by simp
    qed
  qed
qed

subsection \<open>Receiving\<close>

definition receive_check :: "u32 \<Rightarrow> u32 \<Rightarrow> timespec option \<Rightarrow> TimeOut_t \<Rightarrow> 'k mq_state \<Rightarrow> int + QueueListElement \<times> u32" where
  "receive_check d msg_len = mq_checks (\<lambda>q. msg_len < mq_msgsize (xAttr q)) d"

definition receive_status :: "'k kview \<Rightarrow> 'k mq_state \<Rightarrow> int + QueueListElement \<times> u32 \<Rightarrow> status \<times> u8 list" where
  "receive_status V s r =
     (case r of
        Inl err \<Rightarrow> ((- 1, Some err), [])
      | Inr (e, t) \<Rightarrow>
          (case messages V (mheap s) (kern s) e of
             [] \<Rightarrow> ((- 1, Some (queue_errno e)), [])
           | m # ms \<Rightarrow> ((int (length m), None), m)))"

definition receive_ready :: "'k kview \<Rightarrow> 'k mq_state \<Rightarrow> int + QueueListElement \<times> u32 \<Rightarrow> bool" where
  "receive_ready V s r =
     (case r of Inl _ \<Rightarrow> True | Inr (e, t) \<Rightarrow> messages V (mheap s) (kern s) e \<noteq> [] \<or> t = 0)"

lemma length_heap_read [simp]: "length (heap_read h p n) = n"
  by (simp add: heap_read_def)

lemma sint_unat: "unat (w :: u32) < 2 ^ 31 \<Longrightarrow> sint w = int (unat w)"
proof -
  assume "unat w < 2 ^ 31"
  then have "uint w < 2 ^ 31" by (metis of_nat_less_numeral_power_cancel_iff of_nat_unat)
  then have "signed_take_bit 31 (uint w) = uint w"
    using uint_ge_0 [of w] by (intro signed_take_bit_int_eq_self) linarith+
  then show ?thesis by (simp add: sint_uint)
qed

lemma mq_timedreceive_spec:
  assumes kq: "kernel_queue K V" and inv: "mq_inv V nms s" and init: "xQueueListInitialized s"
    and ready: "receive_ready V s (receive_check d msg_len abstime now s)"
    and st: "receive_status V s (receive_check d msg_len abstime now s) = (st, out)"
  shows "\<exists>s'. mq_timedreceive K d msg_len abstime now s = Some (st, out, s') \<and> mq_inv V nms s' \<and> queues s' = queues s \<and>
    (if snd st = None then mq_contents V s' = at_queue d tl (mq_contents V s) \<and>
       (\<exists>p. p \<in> heap_live (mheap s) \<and> heap_live (mheap s') = heap_live (mheap s) - {p})
     else mq_contents V s' = mq_contents V s \<and> heap_live (mheap s') = heap_live (mheap s))"
proof (cases "receive_check d msg_len abstime now s")
  case (Inl err)
  then show ?thesis using inv init st by (auto simp: mq_timedreceive_def receive_status_def receive_check_def)
next
  case (Inr r)
  obtain e t where r: "r = (e, t)" by (cases r)
  have ck: "receive_check d msg_len abstime now s = Inr (e, t)" using Inr r by simp
  have e: "e \<in> set (queues s)" "q_addr e = d" using checks_Inr [OF ck [unfolded receive_check_def]] by auto
  note i = mq_invD [OF inv]
  let ?q = "xQueue e" and ?k = "kern s" and ?h = "mheap s"
  obtain n where n: "elem_ok V ?h ?k n e" "?q \<in> khandles V ?k" using elem_handle [OF i(3) e(1)] by blast
  obtain r k' where rc: "xQueueReceive K ?q t ?k = (r, k')" by fastforce
  show ?thesis
  proof (cases "kcont V ?k ?q")
    case Nil
    then have t: "t = 0" using ready by (simp add: receive_ready_def ck messages_def)
    note rl = queue_receive_cases [OF kernel_laws(4) [OF kq] n(2) rc]
    have z: "r = None" "kcont V k' ?q = kcont V ?k ?q" using rl(6) [OF Nil t] Nil by auto
    note f = mq_inv_frame [OF inv i(2) heap_keeps_refl refl rl(1) kframe_all [OF rl(2) z(2) rl(3,4)]]
    have m: "mq_contents V (s\<lparr>kern := k'\<rparr>) = mq_contents V s" by (rule mq_contents_same) (use f(2) in auto)
    have so: "st = (- 1, Some (queue_errno e))" "out = []" using st Nil by (simp_all add: receive_status_def ck messages_def)
    have "mq_timedreceive K d msg_len abstime now s = Some (st, out, s\<lparr>kern := k'\<rparr>)"
      using init ck rc z(1) unfolding so by (simp add: mq_timedreceive_def receive_check_def)
    then show ?thesis using f(1) m so by simp
  next
    case (Cons x xs)
    obtain h' where re: "vPortFree (pcData x) ?h = Some h'" "mq_inv V nms (s\<lparr>mheap := h', kern := k'\<rparr>)"
      "messages V h' k' e = tl (messages V ?h ?k e)"
      "\<forall>y \<in> set (queues s). y \<noteq> e \<longrightarrow> messages V h' k' y = messages V ?h ?k y"
      "pcData x \<in> heap_live ?h" "heap_live h' = heap_live ?h - {pcData x}"
      using receive_effect(2) [OF kq inv e(1) Cons rc] by blast
    have rx: "r = Some x" using receive_effect(1) [OF kq inv e(1) Cons rc] .
    have own: "heap_owns ?h (pcData x) (unat (xDataSize x))" using n(1) Cons by (simp add: elem_ok_def)
    have sz: "sint (xDataSize x) = int (unat (xDataSize x))"
      by (rule sint_unat) (rule heap_owns_lt [OF i(2) own])
    have so: "st = (sint (xDataSize x), None)" "out = heap_read ?h (pcData x) (unat (xDataSize x))"
      using st Cons by (simp_all add: receive_status_def ck messages_def sz)
    have run: "mq_timedreceive K d msg_len abstime now s = Some (st, out, s\<lparr>mheap := h', kern := k'\<rparr>)"
      using init ck rc rx re(1) unfolding so by (simp add: mq_timedreceive_def receive_check_def)
    have "mq_contents V (s\<lparr>mheap := h', kern := k'\<rparr>) = at_queue d tl (mq_contents V s)"
      unfolding e(2) [symmetric] by (rule mq_contents_at [OF inv e(1)]) (use re(3,4) in auto)
    then show ?thesis using run re(2,5,6) so(1) by auto
  qed
qed

end
