(* ===== verification/Posix_Mqueue_Life.thy ===== *)
theory Posix_Mqueue_Life
  imports Posix_Mqueue_Fifo
begin

text \<open>
  The life of a message queue: \<open>mq_open\<close>, \<open>mq_close\<close>, \<open>mq_unlink\<close> and \<open>mq_getattr\<close>.  Creation takes
  exactly the blocks of the new queue or nothing, deletion gives back all of them with the messages
  still waiting, and the invariant holds in every state that calls reach.
\<close>

subsection \<open>Creating a queue\<close>

lemma kheap_create:
  assumes "create_law K V" "kheap_ok V h k" "xQueueCreate K n sizeof_QueueElement (h, k) = (q, h', k')"
  shows "heap_ok h'" "heap_keeps A h h'" "kframe V (khandles V k) k k'" "kheap_ok V h' k'"
    "q = 0 \<Longrightarrow> khandles V k' = khandles V k \<and> heap_live h' = heap_live h"
    "q \<noteq> 0 \<Longrightarrow> q \<notin> khandles V k \<and> khandles V k' = insert q (khandles V k) \<and> kcont V k' q = [] \<and>
       kcap V k' q = unat n \<and> kblocks V k' q \<inter> heap_live h = {} \<and> heap_live h' = heap_live h \<union> kblocks V k' q"
proof -
  note l = assms(1) [unfolded create_law_def, rule_format, OF assms(2,3)]
  show ok: "heap_ok h'" and fr: "kframe V (khandles V k) k k'" using l by auto
  show "heap_keeps A h h'" using l heap_keeps_mono by blast
  show z: "q = 0 \<Longrightarrow> khandles V k' = khandles V k \<and> heap_live h' = heap_live h" using l by simp
  show nz: "q \<noteq> 0 \<Longrightarrow> q \<notin> khandles V k \<and> khandles V k' = insert q (khandles V k) \<and> kcont V k' q = [] \<and>
       kcap V k' q = unat n \<and> kblocks V k' q \<inter> heap_live h = {} \<and> heap_live h' = heap_live h \<union> kblocks V k' q"
    using l by simp
  have b: "kblocks V k' r = kblocks V k r" "kblocks V k r \<subseteq> heap_live h" if "r \<in> khandles V k" for r
    using fr assms(2) that by (auto simp: kframe_def kheap_ok_def)
  show "kheap_ok V h' k'"
  proof (cases "q = 0")
    case True
    then show ?thesis using z ok b assms(2) by (simp add: kheap_ok_def)
  next
    case False
    have d: "kblocks V k' q \<inter> kblocks V k' r = {}" if "r \<in> khandles V k" for r using nz [OF False] b [OF that] by blast
    have "kblocks V k' r \<inter> kblocks V k' r' = {}" if "r \<in> khandles V k'" "r' \<in> khandles V k'" "r \<noteq> r'" for r r'
    proof (cases "r = q \<or> r' = q")
      case True
      then show ?thesis using d [of r] d [of r'] nz [OF False] that by auto
    next
      case nq: False
      then have "r \<in> khandles V k" "r' \<in> khandles V k" using nz [OF False] that by auto
      then show ?thesis using b(1) assms(2) that(3) unfolding kheap_ok_def by simp
    qed
    moreover have "kblocks V k' r \<subseteq> heap_live h'" if "r \<in> khandles V k'" for r
    proof (cases "r = q")
      case neq: False
      then have "r \<in> khandles V k" using nz [OF False] that by simp
      then have "kblocks V k' r \<subseteq> heap_live h" using b by simp
      then show ?thesis using nz [OF False] by auto
    qed (use nz [OF False] in auto)
    ultimately show ?thesis using ok by (simp add: kheap_ok_def)
  qed
qed

lemma kheap_delete:
  assumes "delete_law K V" "kheap_ok V h k" "q \<in> khandles V k" "vQueueDelete K q (h, k) = (h', k')"
  shows "heap_ok h'" "heap_keeps (- kblocks V k q) h h'" "khandles V k' = khandles V k - {q}"
    "kframe V (khandles V k - {q}) k k'" "heap_live h' = heap_live h - kblocks V k q" "kheap_ok V h' k'"
proof -
  note l = assms(1) [unfolded delete_law_def, rule_format, OF assms(2-4)]
  show "heap_ok h'" "heap_keeps (- kblocks V k q) h h'" "khandles V k' = khandles V k - {q}"
    "kframe V (khandles V k - {q}) k k'" "heap_live h' = heap_live h - kblocks V k q" using l by auto
  have "kblocks V k r \<subseteq> heap_live h - kblocks V k q" if "r \<in> khandles V k - {q}" for r
    using assms(2,3) that unfolding kheap_ok_def by blast
  then show "kheap_ok V h' k'" using l assms(2) unfolding kheap_ok_def kframe_def by auto
qed

text \<open>The invariant is kept when the heap grows and kernel queues are added.\<close>

lemma mq_inv_grow:
  assumes inv: "mq_inv V nms s" and ko: "kheap_ok V h' k'"
    and keep: "heap_keeps (set (concat (map (elem_blocks V (kern s)) (queues s)))) (mheap s) h'"
    and k: "khandles V (kern s) \<subseteq> khandles V k'" "kframe V (khandles V (kern s)) (kern s) k'"
    and new: "\<And>q. q \<in> khandles V k' - khandles V (kern s) \<Longrightarrow> kblocks V k' q \<inter> heap_live (mheap s) = {}"
  shows "mq_inv V nms (s\<lparr>mheap := h', kern := k'\<rparr>)"
    "\<And>e. e \<in> set (queues s) \<Longrightarrow> messages V h' k' e = messages V (mheap s) (kern s) e"
    "map (elem_blocks V k') (queues s) = map (elem_blocks V (kern s)) (queues s)"
proof -
  note i = mq_invD [OF inv]
  let ?B = "set (concat (map (elem_blocks V (kern s)) (queues s)))"
  have c: "kcont V k' (xQueue e) = kcont V (kern s) (xQueue e) \<and> xQueue e \<in> khandles V k'" if "e \<in> set (queues s)" for e
    using elem_handle [OF i(3) that] k by (auto simp: kframe_def)
  have b: "kblocks V k' q \<inter> ?B = {}" if "q \<in> khandles V k'" for q
  proof (cases "q \<in> khandles V (kern s)")
    case True
    then show ?thesis using i(3) k(2) unfolding elems_inv_def kframe_def by auto
  next
    case False
    then show ?thesis using new [of q] that elems_blocks_live [OF i(2,3)] by blast
  qed
  note f = elems_frame [OF i(3) keep c b]
  show "mq_inv V nms (s\<lparr>mheap := h', kern := k'\<rparr>)" using f(1) ko inv by (auto simp: mq_inv_def)
  show "\<And>e. e \<in> set (queues s) \<Longrightarrow> messages V h' k' e = messages V (mheap s) (kern s) e" using f(2) by blast
  show "map (elem_blocks V k') (queues s) = map (elem_blocks V (kern s)) (queues s)" using f(3) by blast
qed

lemma kheap_malloc:
  assumes "kheap_ok V h k" "pvPortMalloc n h = Some (p, h')"
  shows "kheap_ok V h' k" "heap_ok h'" "heap_keeps A h h'" "heap_live h' = (if p = 0 then heap_live h else insert p (heap_live h))"
    "p \<noteq> 0 \<Longrightarrow> p \<notin> heap_live h" "p \<noteq> 0 \<Longrightarrow> heap_owns h' p (unat n)"
proof -
  have ok: "heap_ok h" using assms(1) by (simp add: kheap_ok_def)
  have m: "heap_ok h'" "p = 0 \<and> heap_live h' = heap_live h \<or> p \<noteq> 0 \<and> p \<notin> heap_live h \<and> heap_live h' = insert p (heap_live h)"
    using h4.malloc_returns [OF ok, of n] assms(2) by auto
  then show "heap_ok h'" "heap_live h' = (if p = 0 then heap_live h else insert p (heap_live h))" "p \<noteq> 0 \<Longrightarrow> p \<notin> heap_live h"
    by auto
  show "kheap_ok V h' k" using assms(1) m unfolding kheap_ok_def by blast
  show "heap_keeps A h h'" using keeps_malloc [OF ok assms(2)] .
  show "p \<noteq> 0 \<Longrightarrow> heap_owns h' p (unat n)" using h4s.malloc_owns [OF ok assms(2)] .
qed

lemma kheap_free:
  assumes "kheap_ok V h k" "p \<in> heap_live h" "\<And>q. q \<in> khandles V k \<Longrightarrow> p \<notin> kblocks V k q"
  shows "\<exists>h'. vPortFree p h = Some h' \<and> kheap_ok V h' k \<and> heap_live h' = heap_live h - {p} \<and> (\<forall>A. p \<notin> A \<longrightarrow> heap_keeps A h h')"
proof -
  have ok: "heap_ok h" using assms(1) by (simp add: kheap_ok_def)
  obtain h' where h': "vPortFree p h = Some h'" "heap_ok h'" "heap_live h' = heap_live h - {p}"
    using h4.free_live [OF ok assms(2)] by blast
  have "kheap_ok V h' k" using assms(1,3) h'(2,3) by (auto simp: kheap_ok_def)
  then show ?thesis using h' keeps_free [OF ok assms(2) h'(1)] by blast
qed

lemma create_effect:
  assumes kq: "kernel_queue K V" and inv: "mq_inv V nms s" and init: "xQueueListInitialized s"
    and name: "0 \<notin> set name" "length name < 2 ^ 31" "name \<notin> set nms"
  shows "\<exists>r s'. prvCreateNewMessageQueue K a name (length name) s = Some (r, s') \<and> xQueueListInitialized s' \<and>
    (case r of
       None \<Rightarrow> mq_inv V nms s' \<and> queues s' = queues s \<and> mq_contents V s' = mq_contents V s \<and>
         heap_live (mheap s') = heap_live (mheap s) \<and> khandles V (kern s') = khandles V (kern s)
     | Some d \<Rightarrow> mq_inv V (name # nms) s' \<and> mq_contents V s' = (d, []) # mq_contents V s \<and> d \<notin> heap_live (mheap s) \<and>
         (\<exists>e. queues s' = e # queues s \<and> q_addr e = d \<and> xAttr e = a \<and> xOpenDescriptors e = 1 \<and> \<not> xPendingUnlink e \<and>
            kcap V (kern s') (xQueue e) = unat (mq_maxmsg a)))"
proof -
  note i = mq_invD [OF inv]
  let ?B = "set (concat (map (elem_blocks V (kern s)) (queues s)))" and ?h = "mheap s" and ?k = "kern s"
  have old: "kblocks V k' r \<subseteq> heap_live ?h" if "kframe V (khandles V ?k) ?k k'" "r \<in> khandles V ?k" for k' r
    using that i(1) unfolding kframe_def kheap_ok_def by simp
  have Bl: "?B \<subseteq> heap_live ?h" using elems_blocks_live [OF i(2,3)] .
  obtain q h1 where m1: "pvPortMalloc sizeof_QueueListElement ?h = Some (q, h1)"
    using h4.malloc_returns [OF i(2), of sizeof_QueueListElement] by blast
  note f1 = kheap_malloc [OF i(1) m1]
  show ?thesis
  proof (cases "q = 0")
    case True
    have run: "prvCreateNewMessageQueue K a name (length name) s = Some (None, s\<lparr>mheap := h1\<rparr>)"
      using m1 True by (simp add: prvCreateNewMessageQueue_def)
    note g = mq_inv_grow [OF inv f1(1,3)]
    have "mq_inv V nms (s\<lparr>mheap := h1\<rparr>)" using g(1) by (simp add: kframe_def)
    moreover have "mq_contents V (s\<lparr>mheap := h1\<rparr>) = mq_contents V s" by (rule mq_contents_same) (use g(2) in \<open>auto simp: kframe_def\<close>)
    ultimately show ?thesis using run f1(4) True init by simp
  next
    case q: False
    obtain hd h2 k2 where cr: "xQueueCreate K (mq_maxmsg a) sizeof_QueueElement (h1, ?k) = (hd, h2, k2)" by (metis prod_cases3)
    note f2 = kheap_create [OF kernel_laws(1) [OF kq] f1(1) cr]
    have live1: "heap_live h1 = insert q (heap_live ?h)" "q \<notin> heap_live ?h" using f1(4,5) q by auto
    show ?thesis
    proof (cases "hd = 0")
      case True
      have "q \<notin> kblocks V k2 r" if "r \<in> khandles V k2" for r
        using that f2(5) [OF True] old [OF f2(3)] live1(2) by blast
      then obtain h3 where h3: "vPortFree q h2 = Some h3" "kheap_ok V h3 k2" "heap_live h3 = heap_live h2 - {q}"
        "\<And>A. q \<notin> A \<Longrightarrow> heap_keeps A h2 h3"
        using kheap_free [OF f2(4), of q] f2(5) True live1(1) by blast
      have run: "prvCreateNewMessageQueue K a name (length name) s = Some (None, s\<lparr>mheap := h3, kern := k2\<rparr>)"
        using m1 q cr True h3(1) by (simp add: prvCreateNewMessageQueue_def)
      have l: "heap_live h3 = heap_live ?h" using h3(3) f2(5) True live1 by auto
      have "heap_keeps ?B ?h h3"
        using heap_keeps_trans [OF heap_keeps_trans [OF f1(3) f2(2)] h3(4)] Bl live1(2) by blast
      note g = mq_inv_grow [OF inv h3(2) this]
      have kk: "khandles V k2 = khandles V ?k" using f2(5) True by simp
      have "mq_inv V nms (s\<lparr>mheap := h3, kern := k2\<rparr>)" using g(1) f2(3) kk by simp
      moreover have "mq_contents V (s\<lparr>mheap := h3, kern := k2\<rparr>) = mq_contents V s"
        by (rule mq_contents_same) (use g(2) f2(3) kk in auto)
      ultimately show ?thesis using run l kk init by simp
    next
      case hd: False
      note c2 = f2(6) [OF hd]
      obtain nm h3 where m3: "pvPortMalloc (of_nat (length name + 1)) h2 = Some (nm, h3)"
        using h4.malloc_returns [OF f2(1), of "of_nat (length name + 1)"] by blast
      note f3 = kheap_malloc [OF f2(4) m3]
      show ?thesis
      proof (cases "nm = 0")
        case True
        obtain h4 k4 where dl: "vQueueDelete K hd (h3, k2) = (h4, k4)" by fastforce
        have hin: "hd \<in> khandles V k2" using c2 by simp
        note f4 = kheap_delete [OF kernel_laws(2) [OF kq] f3(1) hin dl]
        have kk: "khandles V k4 = khandles V ?k" using f4(3) c2 by auto
        have fr: "kframe V (khandles V ?k) ?k k4" using f4(4) f2(3) c2 unfolding kframe_def by (metis DiffI Diff_insert_absorb)
        have l4: "heap_live h4 = insert q (heap_live ?h)" using f4(5) f3(4) True c2 live1 by auto
        have "q \<notin> kblocks V k4 r" if "r \<in> khandles V k4" for r
          using that kk old [OF fr] live1(2) by blast
        then obtain h5 where h5: "vPortFree q h4 = Some h5" "kheap_ok V h5 k4" "heap_live h5 = heap_live h4 - {q}"
          "\<And>A. q \<notin> A \<Longrightarrow> heap_keeps A h4 h5"
          using kheap_free [OF f4(6), of q] l4 by blast
        have run: "prvCreateNewMessageQueue K a name (length name) s = Some (None, s\<lparr>mheap := h5, kern := k4\<rparr>)"
          using m1 q cr hd m3 True dl h5(1) by (simp add: prvCreateNewMessageQueue_def)
        have l: "heap_live h5 = heap_live ?h" using h5(3) l4 live1 by auto
        have "heap_keeps ?B h3 h4" by (rule heap_keeps_mono [OF f4(2)]) (use c2 Bl live1 in blast)
        moreover have "heap_keeps ?B h4 h5" by (rule h5(4)) (use Bl live1 in blast)
        ultimately have "heap_keeps ?B ?h h5"
          using heap_keeps_trans [OF heap_keeps_trans [OF f1(3) f2(2)] f3(3)] heap_keeps_trans by blast
        note g = mq_inv_grow [OF inv h5(2) this]
        have "mq_inv V nms (s\<lparr>mheap := h5, kern := k4\<rparr>)" using g(1) fr kk by simp
        moreover have "mq_contents V (s\<lparr>mheap := h5, kern := k4\<rparr>) = mq_contents V s"
          by (rule mq_contents_same) (use g(2) fr kk in auto)
        ultimately show ?thesis using run l kk init by simp
      next
        case nm: False
        define e where "e = \<lparr>q_addr = q, xQueue = hd, xOpenDescriptors = 1, pcName = nm, xAttr = a, xPendingUnlink = False\<rparr>"
        let ?h5 = "heap_write nm (name @ [0]) h3"
        have own: "heap_owns h3 nm (length name + 1)"
          using f3(6) [OF nm] name(2) by (subst (asm) unat_of_nat_u32) simp_all
        have lenn: "length (name @ [0 :: u8]) \<le> length name + 1" by simp
        note w = h4s.wr_inv [OF f3(2) own lenn] h4s.wr_owns [OF f3(2) own lenn] h4s.wr_rd [OF f3(2) own lenn]
        have live3: "heap_live h3 = insert nm (heap_live h2)" "nm \<notin> heap_live h2" using f3(4,5) nm by auto
        have live2: "heap_live h2 = insert q (heap_live ?h) \<union> kblocks V k2 hd" using c2 live1 by auto
        have ko: "kheap_ok V ?h5 k2" using f3(1) w(1) by (auto simp: kheap_ok_def)
        have kp: "heap_keeps A h3 ?h5" if "nm \<notin> A" for A using keeps_write [OF f3(2) own lenn that] .
        have "heap_keeps ?B h3 ?h5" by (rule kp) (use Bl live2 live3 in blast)
        then have keep: "heap_keeps ?B ?h ?h5"
          using heap_keeps_trans [OF heap_keeps_trans [OF f1(3) f2(2)] f3(3)] heap_keeps_trans by blast
        have newk: "kblocks V k2 r \<inter> heap_live ?h = {}" if "r \<in> khandles V k2 - khandles V ?k" for r
          using that c2 live1 by auto
        have sub: "khandles V ?k \<subseteq> khandles V k2" using c2 by blast
        note g = mq_inv_grow [OF inv ko keep sub f2(3) newk]
        have oq: "heap_owns ?h5 q 40"
        proof -
          have "heap_owns h1 q 40" using f1(6) [OF q] by (simp add: sizeof_QueueListElement_def)
          then have "heap_owns h3 q 40" using heap_keeps_trans [OF f2(2) f3(3), of UNIV] by (simp add: heap_keeps_def)
          then show ?thesis using w(2) by blast
        qed
        have eok: "elem_ok V ?h5 k2 name e"
          using oq w(3) w(2) [OF own] c2 name(1) by (simp add: elem_ok_def e_def)
        have eb: "elem_blocks V k2 e = [q, nm]" using c2 by (simp add: elem_blocks_def e_def)
        have es: "elems_inv V ?h5 k2 nms (queues s)" using g(1) mq_invD(3) by fastforce
        have "q \<notin> heap_live ?h" "nm \<notin> heap_live ?h" using live1(2) live3(2) unfolding live2 by simp_all
        then have fresh: "q \<notin> ?B" "nm \<notin> ?B" using Bl by (meson subsetD)+
        have g3: "map (elem_blocks V k2) (queues s) = map (elem_blocks V ?k) (queues s)" by (rule g(3))
        have "hd \<notin> xQueue ` set (queues s)" using elem_handle [OF i(3)] c2 by blast
        moreover have "{q, nm} \<inter> set (concat (map (elem_blocks V k2) (queues s))) = {}"
          unfolding g3 using fresh by simp
        moreover have "kblocks V k2 r \<inter> {q, nm} = {}" if "r \<in> khandles V k2" for r
        proof (cases "r = hd")
          case True
          then show ?thesis using c2 live1 live3 live2 by blast
        next
          case False
          then have "r \<in> khandles V ?k" using that c2 by simp
          then have "kblocks V k2 r \<subseteq> heap_live ?h" by (rule old [OF f2(3)])
          then show ?thesis using live1 live2 live3 by blast
        qed
        moreover have "q \<noteq> nm" using live2 live3 by blast
        ultimately have "elems_inv V ?h5 k2 (name # nms) (e # queues s)"
          unfolding elems_inv_Cons eb using eok es name(3) by (simp add: e_def)
        then have inv': "mq_inv V (name # nms) (s\<lparr>mheap := ?h5, kern := k2, queues := e # queues s\<rparr>)"
          using ko init by (simp add: mq_inv_def)
        have run: "prvCreateNewMessageQueue K a name (length name) s =
            Some (Some q, s\<lparr>mheap := ?h5, kern := k2, queues := e # queues s\<rparr>)"
          using m1 q cr hd m3 nm strncpy_name [of name] by (simp add: prvCreateNewMessageQueue_def e_def)
        have "mq_contents V (s\<lparr>mheap := ?h5, kern := k2, queues := e # queues s\<rparr>) = (q, []) # mq_contents V s"
          using g(2) c2 by (auto simp: mq_contents_def messages_def e_def)
        then show ?thesis using run inv' live1(2) c2 init by (simp add: e_def)
      qed
    qed
  qed
qed

subsection \<open>Deleting a queue\<close>

lemma drain_effect:
  assumes kq: "kernel_queue K V"
  shows "mq_inv V nms s \<Longrightarrow> e \<in> set (queues s) \<Longrightarrow>
    \<exists>h k. drain K (xQueue e) (mheap s) (kern s) = Some (h, k) \<and> mq_inv V nms (s\<lparr>mheap := h, kern := k\<rparr>) \<and>
      kcont V k (xQueue e) = [] \<and> khandles V k = khandles V (kern s) \<and> kblocks V k (xQueue e) = kblocks V (kern s) (xQueue e) \<and>
      heap_live h = heap_live (mheap s) - pcData ` set (kcont V (kern s) (xQueue e)) \<and>
      (\<forall>y \<in> set (queues s). y \<noteq> e \<longrightarrow> messages V h k y = messages V (mheap s) (kern s) y)"
proof (induction "length (kcont V (kern s) (xQueue e))" arbitrary: s)
  case 0
  note i = mq_invD [OF 0(2)]
  have hq: "xQueue e \<in> khandles V (kern s)" using elem_handle [OF i(3) 0(3)] by blast
  have c: "kcont V (kern s) (xQueue e) = []" using 0(1) by simp
  obtain r k where rc: "xQueueReceive K (xQueue e) 0 (kern s) = (r, k)" by fastforce
  note rl = queue_receive_cases [OF kernel_laws(4) [OF kq] hq rc]
  have z: "r = None" "kcont V k (xQueue e) = kcont V (kern s) (xQueue e)" using rl(6) [OF c refl] c by auto
  note f = mq_inv_frame [OF 0(2) i(2) heap_keeps_refl refl rl(1) kframe_all [OF rl(2) z(2) rl(3,4)]]
  have "drain K (xQueue e) (mheap s) (kern s) = Some (mheap s, k)" by (subst drain.simps) (simp add: rc z(1))
  then show ?case using f(1,2) rl(1,4) z(2) c by (auto intro!: exI [of _ k])
next
  case (Suc m)
  then obtain x xs where c: "kcont V (kern s) (xQueue e) = x # xs" by (cases "kcont V (kern s) (xQueue e)") auto
  obtain r k where rc: "xQueueReceive K (xQueue e) 0 (kern s) = (r, k)" by fastforce
  have hq: "xQueue e \<in> khandles V (kern s)" using elem_handle [OF mq_invD(3) [OF Suc(3)] Suc(4)] by blast
  note rl = queue_receive_cases [OF kernel_laws(4) [OF kq] hq rc]
  obtain h where h: "vPortFree (pcData x) (mheap s) = Some h" "mq_inv V nms (s\<lparr>mheap := h, kern := k\<rparr>)"
      "\<forall>y \<in> set (queues s). y \<noteq> e \<longrightarrow> messages V h k y = messages V (mheap s) (kern s) y"
      "heap_live h = heap_live (mheap s) - {pcData x}"
    using receive_effect(2) [OF kq Suc(3,4) c rc] by blast
  have r: "r = Some x" "kcont V k (xQueue e) = xs" using rl(5) [OF c] by auto
  obtain h' k' where d: "drain K (xQueue e) h k = Some (h', k')" "mq_inv V nms (s\<lparr>mheap := h', kern := k'\<rparr>)"
      "kcont V k' (xQueue e) = []" "khandles V k' = khandles V k" "kblocks V k' (xQueue e) = kblocks V k (xQueue e)"
      "heap_live h' = heap_live h - pcData ` set xs"
      "\<forall>y \<in> set (queues s). y \<noteq> e \<longrightarrow> messages V h' k' y = messages V h k y"
    using Suc(1) [of "s\<lparr>mheap := h, kern := k\<rparr>"] Suc(2,4) h(2) c r(2) by auto
  have "drain K (xQueue e) (mheap s) (kern s) = Some (h', k')"
    using d(1) h(1) by (subst drain.simps) (simp add: rc r(1))
  then show ?case using d(2-7) h(3,4) rl(1,4) c by (intro exI [of _ h'] exI [of _ k']) auto
qed

lemma delete_effect:
  assumes kq: "kernel_queue K V" and inv: "mq_inv V (n1 @ n # n2) s" and q: "queues s = e1 @ e # e2" and len: "length n1 = length e1"
  shows "\<exists>s'. prvDeleteMessageQueue K e (s\<lparr>queues := e1 @ e2\<rparr>) = Some s' \<and> mq_inv V (n1 @ n2) s' \<and> queues s' = e1 @ e2 \<and>
    (\<forall>y \<in> set (e1 @ e2). messages V (mheap s') (kern s') y = messages V (mheap s) (kern s) y) \<and>
    heap_live (mheap s') = heap_live (mheap s) - set (elem_blocks V (kern s) e) - kblocks V (kern s) (xQueue e)"
proof -
  let ?R = "e1 @ e2"
  have e: "e \<in> set (queues s)" using q by simp
  obtain h k where d: "drain K (xQueue e) (mheap s) (kern s) = Some (h, k)" "mq_inv V (n1 @ n # n2) (s\<lparr>mheap := h, kern := k\<rparr>)"
      "kcont V k (xQueue e) = []" "kblocks V k (xQueue e) = kblocks V (kern s) (xQueue e)"
      "heap_live h = heap_live (mheap s) - pcData ` set (kcont V (kern s) (xQueue e))"
      "\<forall>y \<in> set (queues s). y \<noteq> e \<longrightarrow> messages V h k y = messages V (mheap s) (kern s) y"
    using drain_effect [OF kq inv e] by blast
  note i = mq_invD [OF d(2), simplified]
  have "elems_inv V h k (n # n1 @ n2) (e # ?R)" using i(3) unfolding q elems_inv_mid [OF len] .
  then have p: "elem_ok V h k n e" "elems_inv V h k (n1 @ n2) ?R" "xQueue e \<notin> xQueue ` set ?R" "distinct (elem_blocks V k e)"
    "set (elem_blocks V k e) \<inter> set (concat (map (elem_blocks V k) ?R)) = {}"
    "\<forall>q \<in> khandles V k. kblocks V k q \<inter> set (elem_blocks V k e) = {}"
    unfolding elems_inv_Cons by blast+
  let ?B = "set (concat (map (elem_blocks V k) ?R))"
  have b: "elem_blocks V k e = [q_addr e, pcName e]" by (simp add: elem_blocks_def d(3))
  have hq: "xQueue e \<in> khandles V k" using p(1) by (simp add: elem_ok_def)
  have lv: "q_addr e \<in> heap_live h" "pcName e \<in> heap_live h" using elem_blocks_live [OF i(2) p(1)] b by auto
  obtain h1 k1 where dl: "vQueueDelete K (xQueue e) (h, k) = (h1, k1)" by fastforce
  note f1 = kheap_delete [OF kernel_laws(2) [OF kq] i(1) hq dl]
  have kb1: "r \<in> khandles V k1 \<Longrightarrow> kblocks V k1 r = kblocks V k r \<and> r \<in> khandles V k" for r
    using f1(3,4) by (simp add: kframe_def)
  have nk: "q_addr e \<notin> kblocks V k r" "pcName e \<notin> kblocks V k r" if "r \<in> khandles V k" for r using p(6) that b by auto
  have l1: "pcName e \<in> heap_live h1" "q_addr e \<in> heap_live h1" using lv nk [OF hq] f1(5) by auto
  obtain h2 where h2: "vPortFree (pcName e) h1 = Some h2" "kheap_ok V h2 k1" "heap_live h2 = heap_live h1 - {pcName e}"
      "\<forall>A. pcName e \<notin> A \<longrightarrow> heap_keeps A h1 h2"
    using kheap_free [OF f1(6) l1(1)] nk kb1 by metis
  have ne: "q_addr e \<noteq> pcName e" using p(4) b by simp
  then have l2: "q_addr e \<in> heap_live h2" using l1 h2(3) by simp
  obtain h3 where h3: "vPortFree (q_addr e) h2 = Some h3" "kheap_ok V h3 k1" "heap_live h3 = heap_live h2 - {q_addr e}"
      "\<forall>A. q_addr e \<notin> A \<longrightarrow> heap_keeps A h2 h3"
    using kheap_free [OF h2(2) l2] nk kb1 by metis
  let ?s' = "s\<lparr>queues := ?R, mheap := h3, kern := k1\<rparr>"
  have run: "prvDeleteMessageQueue K e (s\<lparr>queues := ?R\<rparr>) = Some ?s'"
    using d(1) dl h2(1) h3(1) by (simp add: prvDeleteMessageQueue_def)
  have kbB: "kblocks V k r \<inter> ?B = {}" if "r \<in> khandles V k" for r using p(2) that unfolding elems_inv_def by blast
  have "heap_keeps ?B h h1" by (rule heap_keeps_mono [OF f1(2)]) (use kbB [OF hq] in blast)
  moreover have "heap_keeps ?B h1 h2" "heap_keeps ?B h2 h3" using h2(4) h3(4) p(5) b by auto
  ultimately have keep: "heap_keeps ?B h h3" using heap_keeps_trans by blast
  have c: "kcont V k1 (xQueue y) = kcont V k (xQueue y) \<and> xQueue y \<in> khandles V k1" if "y \<in> set ?R" for y
  proof -
    have "xQueue y \<in> khandles V k" using elem_handle [OF p(2) that] by blast
    moreover have "xQueue y \<noteq> xQueue e" using p(3) that by (metis imageI)
    ultimately show ?thesis using f1(3,4) by (simp add: kframe_def)
  qed
  have kb': "kblocks V k1 r \<inter> ?B = {}" if "r \<in> khandles V k1" for r using kb1 [OF that] kbB [of r] by simp
  note f = elems_frame [OF p(2) keep c kb']
  have "mq_inv V (n1 @ n2) ?s'"
    using f(1) h3(2) d(2) q by (auto simp: mq_inv_def)
  moreover have "messages V h3 k1 y = messages V (mheap s) (kern s) y" if "y \<in> set ?R" for y
  proof -
    have "y \<noteq> e" using p(3) that by (metis imageI)
    then show ?thesis using f(2) [OF _ _ that] d(6) that q by auto
  qed
  moreover have "heap_live h3 = heap_live (mheap s) - set (elem_blocks V (kern s) e) - kblocks V (kern s) (xQueue e)"
    using h3(3) h2(3) f1(5) d(4,5) by (auto simp: elem_blocks_def)
  ultimately show ?thesis using run by (intro exI [of _ ?s']) auto
qed

subsection \<open>The calls\<close>

lemma mq_init [simp]: "xQueueListInitialized (prvInitializeQueueList s)"
  by (simp add: prvInitializeQueueList_def)

lemma mq_init_inv:
  assumes "mq_inv V nms s"
  shows "mq_inv V nms (prvInitializeQueueList s)" "queues (prvInitializeQueueList s) = queues s"
    "mheap (prvInitializeQueueList s) = mheap s" "kern (prvInitializeQueueList s) = kern s"
  using assms by (auto simp: mq_inv_def prvInitializeQueueList_def)

lemma mq_init_contents: "mq_inv V nms s \<Longrightarrow> mq_contents V (prvInitializeQueueList s) = mq_contents V s"
  using mq_init_inv [of V nms s] by (simp add: mq_contents_def)

lemma upd_elem_inv:
  assumes inv: "mq_inv V nms s" and e: "e \<in> set (queues s)" and k: "elem_key e' = elem_key e"
  shows "mq_inv V nms (s\<lparr>queues := upd_elem e' (queues s)\<rparr>)"
    "mq_contents V (s\<lparr>queues := upd_elem e' (queues s)\<rparr>) = mq_contents V s"
    "e' \<in> set (upd_elem e' (queues s))"
proof -
  note i = mq_invD [OF inv]
  have d: "inj_on q_addr (set (queues s))" using elems_addr_distinct [OF i(3)] by (simp add: distinct_map)
  have a: "q_addr e' = q_addr e" using k by (simp add: elem_key_def)
  have m: "map elem_key (upd_elem e' (queues s)) = map elem_key (queues s)"
    using d e a k unfolding upd_elem_def by (auto dest: inj_onD)
  note f = elems_inv_key [OF m i(3)]
  show "mq_inv V nms (s\<lparr>queues := upd_elem e' (queues s)\<rparr>)"
    using inv f(1) by (auto simp: mq_inv_def upd_elem_def)
  have "map q_addr (upd_elem e' (queues s)) = map q_addr (queues s)" unfolding upd_elem_def by simp
  then show "mq_contents V (s\<lparr>queues := upd_elem e' (queues s)\<rparr>) = mq_contents V s"
    using f(2) by (auto simp: mq_contents_def list_eq_iff_nth_eq)
  show "e' \<in> set (upd_elem e' (queues s))" unfolding upd_elem_def using e a by (auto simp: image_iff)
qed

lemma listREMOVE_split:
  assumes "distinct (map q_addr (e1 @ e # e2))" "q_addr e' = q_addr e"
  shows "listREMOVE e' (e1 @ e # e2) = e1 @ e2"
proof -
  have "\<forall>x \<in> set (e1 @ e2). q_addr x \<noteq> q_addr e" using assms(1) by (auto simp: image_iff)
  then show ?thesis using assms(2) unfolding listREMOVE_def by (simp add: filter_id_conv)
qed

lemma delete_key:
  "elem_key e' = elem_key e \<Longrightarrow> prvDeleteMessageQueue K e' s = prvDeleteMessageQueue K e s"
  by (simp add: prvDeleteMessageQueue_def elem_key_def)

lemma remove_effect:
  assumes kq: "kernel_queue K V" and inv: "mq_inv V nms s" and e: "e \<in> set (queues s)" and k: "elem_key e' = elem_key e"
  shows "\<exists>s' nms'. prvDeleteMessageQueue K e' (s\<lparr>queues := listREMOVE e' (queues s)\<rparr>) = Some s' \<and> mq_inv V nms' s' \<and>
    set nms' \<subseteq> set nms \<and> mq_contents V s' = filter (\<lambda>(d, ms). d \<noteq> q_addr e) (mq_contents V s) \<and>
    heap_live (mheap s') = heap_live (mheap s) - set (elem_blocks V (kern s) e) - kblocks V (kern s) (xQueue e)"
proof -
  note i = mq_invD [OF inv]
  obtain n n1 n2 e1 e2 where sp: "nms = n1 @ n # n2" "queues s = e1 @ e # e2" "length n1 = length e1"
    by (rule elems_inv_split [OF i(3) e])
  have dis: "distinct (map q_addr (e1 @ e # e2))" using elems_addr_distinct [OF i(3)] sp(2) by simp
  have r: "listREMOVE e' (queues s) = e1 @ e2"
    unfolding sp(2) by (rule listREMOVE_split [OF dis]) (use k in \<open>simp add: elem_key_def\<close>)
  obtain s' where s': "prvDeleteMessageQueue K e (s\<lparr>queues := e1 @ e2\<rparr>) = Some s'" "mq_inv V (n1 @ n2) s'" "queues s' = e1 @ e2"
    "\<forall>y \<in> set (e1 @ e2). messages V (mheap s') (kern s') y = messages V (mheap s) (kern s) y"
    "heap_live (mheap s') = heap_live (mheap s) - set (elem_blocks V (kern s) e) - kblocks V (kern s) (xQueue e)"
    using delete_effect [OF kq inv [unfolded sp(1)] sp(2,3)] by blast
  have "mq_contents V s' = filter (\<lambda>(d, ms). d \<noteq> q_addr e) (mq_contents V s)"
  proof -
    have "filter (\<lambda>(d, ms). d \<noteq> q_addr e) (map (\<lambda>e. (q_addr e, messages V (mheap s) (kern s) e)) xs) =
        map (\<lambda>e. (q_addr e, messages V (mheap s) (kern s) e)) xs" if "q_addr e \<notin> q_addr ` set xs" for xs
      using that by (auto simp: filter_id_conv image_iff)
    then show ?thesis using dis s'(3,4) unfolding mq_contents_def sp(2) by auto
  qed
  then show ?thesis using s' delete_key [OF k, of K] r sp(1) by (intro exI [of _ s'] exI [of _ "n1 @ n2"]) auto
qed


text \<open>Every call returns and keeps the invariant, with the names it knows.\<close>

lemma mq_open_spec:
  assumes kq: "kernel_queue K V" and inv: "mq_inv V nms s" and name: "0 \<notin> set name"
  shows "\<exists>r s' nms'. mq_open K name oflag attr s = Some (r, s') \<and> mq_inv V nms' s' \<and> xQueueListInitialized s' \<and>
    (snd r \<noteq> None \<longrightarrow> fst r = mqd_error \<and> mq_contents V s' = mq_contents V s \<and> heap_live (mheap s') = heap_live (mheap s) \<and>
       nms' = nms \<and> queues s' = queues s) \<and>
    (snd r = None \<longrightarrow> name \<in> set nms' \<and> fst r \<in> q_addr ` set (queues s'))"
proof -
  define s1 where "s1 = prvInitializeQueueList s"
  note i1 = mq_init_inv [OF inv, folded s1_def] and c1 = mq_init_contents [OF inv, folded s1_def]
  have x1: "xQueueListInitialized s1" by (simp add: s1_def)
  let ?F = "prvFindQueueInList (mheap s1) (queues s1) (Some name) 0"
  let ?bad = "oflag AND O_CREAT \<noteq> 0 \<and> (case attr of None \<Rightarrow> False | Some a \<Rightarrow> sint (mq_maxmsg a) \<le> 0 \<or> sint (mq_msgsize a) \<le> 0)"
  have err: ?thesis if "mq_open K name oflag attr s = Some ((mqd_error, Some x), s1)" for x
    using that i1 c1 x1 by (intro exI [of _ "(mqd_error, Some x)"] exI [of _ s1] exI [of _ nms]) simp
  have len: "length nms = length (queues s1)"
    using mq_invD(3) [OF i1(1)] by (auto simp: elems_inv_def dest: list_all2_lengthD)
  have F: "?F = map_of (zip nms (queues s1)) name"
    by (rule find_name [OF mq_invD(3,2) [OF i1(1)] name])
  show ?thesis
  proof (cases "prvValidateQueueName name = None \<or> ?bad")
    case True
    then have "mq_open K name oflag attr s = Some ((mqd_error, Some EINVAL), s1)"
      unfolding mq_open_def Let_def s1_def [symmetric] by (cases "prvValidateQueueName name") auto
    then show ?thesis by (rule err)
  next
    case False
    then have v: "prvValidateQueueName name = Some (length name)" "\<not> ?bad" "length name \<le> 65"
      using validate_name [of name] by auto
    show ?thesis
    proof (cases ?F)
      case (Some q)
      then have q: "q \<in> set (queues s1)" "name \<in> set nms"
        using F map_of_SomeD [of "zip nms (queues s1)" name q] by (auto dest: set_zip_leftD set_zip_rightD)
      let ?q = "q\<lparr>xOpenDescriptors := xOpenDescriptors q + 1\<rparr>"
      have k: "elem_key ?q = elem_key q" by (simp add: elem_key_def)
      note u = upd_elem_inv [OF i1(1) q(1) k]
      have run: "mq_open K name oflag attr s =
          (if oflag AND O_EXCL \<noteq> 0 \<and> oflag AND O_CREAT \<noteq> 0 then Some ((mqd_error, Some EEXIST), s1)
           else if xPendingUnlink q then Some ((mqd_error, Some EINVAL), s1)
           else Some ((q_addr q, None), s1\<lparr>queues := upd_elem ?q (queues s1)\<rparr>))"
        unfolding mq_open_def Let_def s1_def [symmetric] v(1) Some by (simp only: v(2) option.case if_False)
      have "q_addr q \<in> q_addr ` set (upd_elem ?q (queues s1))"
        by (rule image_eqI [OF _ u(3)]) simp
      then have ok: ?thesis if "mq_open K name oflag attr s = Some ((q_addr q, None), s1\<lparr>queues := upd_elem ?q (queues s1)\<rparr>)"
        using that u(1) q(2) x1
        by (intro exI [of _ "(q_addr q, None)"] exI [of _ "s1\<lparr>queues := upd_elem ?q (queues s1)\<rparr>"] exI [of _ nms]) simp
      consider "mq_open K name oflag attr s = Some ((mqd_error, Some EEXIST), s1)"
        | "mq_open K name oflag attr s = Some ((mqd_error, Some EINVAL), s1)"
        | "mq_open K name oflag attr s = Some ((q_addr q, None), s1\<lparr>queues := upd_elem ?q (queues s1)\<rparr>)"
        unfolding run by presburger
      then show ?thesis by cases (rule err err ok; assumption)+
    next
      case None
      have new: "name \<notin> set nms" using None F len by (simp add: map_of_zip_is_None)
      show ?thesis
      proof (cases "oflag AND O_CREAT \<noteq> 0")
        case False
        then have "mq_open K name oflag attr s = Some ((mqd_error, Some ENOENT), s1)"
          unfolding mq_open_def Let_def s1_def [symmetric] v(1) None by simp
        then show ?thesis by (rule err)
      next
        case True
        define a where "a = (case attr of None \<Rightarrow> \<lparr>mq_flags = 0, mq_maxmsg = posixconfigMQ_MAX_MESSAGES,
          mq_msgsize = posixconfigMQ_MAX_SIZE, mq_curmsgs = 0\<rparr> | Some a \<Rightarrow> a)\<lparr>mq_flags := oflag\<rparr>"
        obtain r s' where cr: "prvCreateNewMessageQueue K a name (length name) s1 = Some (r, s')"
          "xQueueListInitialized s'"
          "case r of
             None \<Rightarrow> mq_inv V nms s' \<and> queues s' = queues s1 \<and> mq_contents V s' = mq_contents V s1 \<and>
               heap_live (mheap s') = heap_live (mheap s1) \<and> khandles V (kern s') = khandles V (kern s1)
           | Some d \<Rightarrow> mq_inv V (name # nms) s' \<and> mq_contents V s' = (d, []) # mq_contents V s1 \<and> d \<notin> heap_live (mheap s1) \<and>
               (\<exists>e. queues s' = e # queues s1 \<and> q_addr e = d \<and> xAttr e = a \<and> xOpenDescriptors e = 1 \<and> \<not> xPendingUnlink e \<and>
                  kcap V (kern s') (xQueue e) = unat (mq_maxmsg a))"
          using create_effect [OF kq i1(1) x1 name _ new, of a] v(3) by force
        have run: "mq_open K name oflag attr s =
            Some (case r of None \<Rightarrow> ((mqd_error, Some ENOSPC), s') | Some d \<Rightarrow> ((d, None), s'))"
          unfolding mq_open_def Let_def s1_def [symmetric] v(1) None using v(2) True cr(1)
          by (simp add: a_def split: option.splits)
        show ?thesis
        proof (cases r)
          case None
          then show ?thesis using run cr(2,3) i1 c1
            by (intro exI [of _ "(mqd_error, Some ENOSPC)"] exI [of _ s'] exI [of _ nms]) simp
        next
          case (Some d)
          then show ?thesis using run cr(2,3)
            by (intro exI [of _ "(d, None)"] exI [of _ s'] exI [of _ "name # nms"]) auto
        qed
      qed
    qed
  qed
qed


lemma mq_close_spec:
  assumes kq: "kernel_queue K V" and inv: "mq_inv V nms s"
  shows "\<exists>st s' nms'. mq_close K d s = Some (st, s') \<and> mq_inv V nms' s' \<and>
    (case prvFindQueueInList (mheap s) (queues s) None d of
       None \<Rightarrow> st = (- 1, Some EBADF) \<and> mq_contents V s' = mq_contents V s \<and> heap_live (mheap s') = heap_live (mheap s)
     | Some q \<Rightarrow> st = (0, None) \<and>
         (if xOpenDescriptors q \<le> 1 \<and> xPendingUnlink q
          then mq_contents V s' = filter (\<lambda>(x, ms). x \<noteq> d) (mq_contents V s) \<and>
            heap_live (mheap s') = heap_live (mheap s) - set (elem_blocks V (kern s) q) - kblocks V (kern s) (xQueue q)
          else mq_contents V s' = mq_contents V s \<and> heap_live (mheap s') = heap_live (mheap s) \<and>
            (\<exists>q' \<in> set (queues s'). q_addr q' = d \<and> xOpenDescriptors q' = xOpenDescriptors q - (if xOpenDescriptors q = 0 then 0 else 1) \<and>
               xPendingUnlink q' = (xPendingUnlink q \<or> xOpenDescriptors q \<le> 1))))"
proof -
  define s1 where "s1 = prvInitializeQueueList s"
  note i1 = mq_init_inv [OF inv, folded s1_def] and c1 = mq_init_contents [OF inv, folded s1_def]
  show ?thesis
  proof (cases "prvFindQueueInList (mheap s) (queues s) None d")
    case None
    then have "mq_close K d s = Some ((- 1, Some EBADF), s1)"
      unfolding mq_close_def Let_def s1_def [symmetric] using i1 by simp
    then show ?thesis using i1 c1 None by auto
  next
    case (Some q)
    have q: "q \<in> set (queues s1)" "q_addr q = d" using find_desc(1) [OF Some] i1 by auto
    define q1 where "q1 = (if xOpenDescriptors q > 0 then q\<lparr>xOpenDescriptors := xOpenDescriptors q - 1\<rparr> else q)"
    have k: "elem_key q1 = elem_key q" "elem_key (q1\<lparr>xPendingUnlink := True\<rparr>) = elem_key q" by (simp_all add: elem_key_def q1_def)
    have z: "xOpenDescriptors q1 = 0 \<longleftrightarrow> xOpenDescriptors q \<le> 1" "xPendingUnlink q1 = xPendingUnlink q" "q_addr q1 = d"
      "xOpenDescriptors q1 = xOpenDescriptors q - (if xOpenDescriptors q = 0 then 0 else 1)"
      using q(2) by (auto simp: q1_def word_gt_0 word_le_nat_alt u32_eq_iff unat_sub_u32)
    have run: "mq_close K d s =
       (if xOpenDescriptors q1 = 0 then
          if xPendingUnlink q1 then
            do { s \<leftarrow> prvDeleteMessageQueue K q1 (s1\<lparr>queues := listREMOVE q1 (queues s1)\<rparr>); Some ((0, None), s) }
          else Some ((0, None), s1\<lparr>queues := upd_elem (q1\<lparr>xPendingUnlink := True\<rparr>) (queues s1)\<rparr>)
        else Some ((0, None), s1\<lparr>queues := upd_elem q1 (queues s1)\<rparr>))"
      unfolding mq_close_def Let_def s1_def [symmetric] using Some i1 by (simp add: q1_def)
    note u1 = upd_elem_inv [OF i1(1) q(1) k(1)] and u2 = upd_elem_inv [OF i1(1) q(1) k(2)]
    show ?thesis
    proof (cases "xOpenDescriptors q1 = 0")
      case True
      show ?thesis
      proof (cases "xPendingUnlink q1")
        case p: True
        obtain s' nms' where r: "prvDeleteMessageQueue K q1 (s1\<lparr>queues := listREMOVE q1 (queues s1)\<rparr>) = Some s'" "mq_inv V nms' s'"
          "mq_contents V s' = filter (\<lambda>(d, ms). d \<noteq> q_addr q) (mq_contents V s1)"
          "heap_live (mheap s') = heap_live (mheap s1) - set (elem_blocks V (kern s1) q) - kblocks V (kern s1) (xQueue q)"
          using remove_effect [OF kq i1(1) q(1) k(1)] by blast
        then show ?thesis using run True p z(1,2) Some i1(3,4) c1 q(2) by (auto intro!: exI [of _ s'] exI [of _ nms'])
      next
        case np: False
        let ?s = "s1\<lparr>queues := upd_elem (q1\<lparr>xPendingUnlink := True\<rparr>) (queues s1)\<rparr>"
        have "\<exists>q' \<in> set (queues ?s). q_addr q' = d \<and>
            xOpenDescriptors q' = xOpenDescriptors q - (if xOpenDescriptors q = 0 then 0 else 1) \<and> xPendingUnlink q'"
          using z(3,4) by (intro bexI [of _ "q1\<lparr>xPendingUnlink := True\<rparr>"]) (use u2(3) in simp_all)
        then show ?thesis using run True np z(1,2) Some i1 c1 u2(1,2)
          by (intro exI [of _ "(0, None)"] exI [of _ ?s] exI [of _ nms]) simp
      qed
    next
      case nz: False
      let ?s = "s1\<lparr>queues := upd_elem q1 (queues s1)\<rparr>"
      have "\<exists>q' \<in> set (queues ?s). q_addr q' = d \<and>
          xOpenDescriptors q' = xOpenDescriptors q - (if xOpenDescriptors q = 0 then 0 else 1) \<and> xPendingUnlink q' = xPendingUnlink q"
        using z(2-4) by (intro bexI [of _ q1]) (use u1(3) in simp_all)
      then show ?thesis using run nz z(1,2) Some i1 c1 u1(1,2)
        by (intro exI [of _ "(0, None)"] exI [of _ ?s] exI [of _ nms]) simp
    qed
  qed
qed

lemma mq_unlink_spec:
  assumes kq: "kernel_queue K V" and inv: "mq_inv V nms s" and name: "0 \<notin> set name"
  shows "\<exists>st s' nms'. mq_unlink K name s = Some (st, s') \<and> mq_inv V nms' s' \<and>
    (case map_of (zip nms (queues s)) name of
       None \<Rightarrow> st = (- 1, Some (if prvValidateQueueName name = None then EINVAL else ENOENT)) \<and>
         mq_contents V s' = mq_contents V s \<and> heap_live (mheap s') = heap_live (mheap s)
     | Some q \<Rightarrow> prvValidateQueueName name \<noteq> None \<longrightarrow> st = (0, None) \<and>
         (if xOpenDescriptors q = 0
          then mq_contents V s' = filter (\<lambda>(x, ms). x \<noteq> q_addr q) (mq_contents V s) \<and>
            heap_live (mheap s') = heap_live (mheap s) - set (elem_blocks V (kern s) q) - kblocks V (kern s) (xQueue q)
          else mq_contents V s' = mq_contents V s \<and> heap_live (mheap s') = heap_live (mheap s)))"
proof -
  define s1 where "s1 = prvInitializeQueueList s"
  note i1 = mq_init_inv [OF inv, folded s1_def] and c1 = mq_init_contents [OF inv, folded s1_def]
  have F: "prvFindQueueInList (mheap s1) (queues s1) (Some name) 0 = map_of (zip nms (queues s)) name"
    using find_name [OF mq_invD(3,2) [OF i1(1)] name] i1(2) by simp
  show ?thesis
  proof (cases "prvValidateQueueName name")
    case None
    then have "mq_unlink K name s = Some ((- 1, Some EINVAL), s1)" unfolding mq_unlink_def Let_def s1_def [symmetric] by simp
    then show ?thesis using i1 c1 None by (auto split: option.splits)
  next
    case v: (Some n)
    show ?thesis
    proof (cases "map_of (zip nms (queues s)) name")
      case None
      then have "mq_unlink K name s = Some ((- 1, Some ENOENT), s1)"
        unfolding mq_unlink_def Let_def s1_def [symmetric] v F by simp
      then show ?thesis using i1 c1 None v by auto
    next
      case (Some q)
      have q: "q \<in> set (queues s1)" using map_of_SomeD [OF Some] i1(2) by (auto dest: set_zip_rightD)
      have k: "elem_key (q\<lparr>xPendingUnlink := True\<rparr>) = elem_key q" by (simp add: elem_key_def)
      have run: "mq_unlink K name s =
         (if xOpenDescriptors q = 0 then
            do { s \<leftarrow> prvDeleteMessageQueue K q (s1\<lparr>queues := listREMOVE q (queues s1)\<rparr>); Some ((0, None), s) }
          else Some ((0, None), s1\<lparr>queues := upd_elem (q\<lparr>xPendingUnlink := True\<rparr>) (queues s1)\<rparr>))"
        unfolding mq_unlink_def Let_def s1_def [symmetric] v F Some by simp
      note u = upd_elem_inv [OF i1(1) q k]
      show ?thesis
      proof (cases "xOpenDescriptors q = 0")
        case True
        obtain s' nms' where r: "prvDeleteMessageQueue K q (s1\<lparr>queues := listREMOVE q (queues s1)\<rparr>) = Some s'" "mq_inv V nms' s'"
          "mq_contents V s' = filter (\<lambda>(d, ms). d \<noteq> q_addr q) (mq_contents V s1)"
          "heap_live (mheap s') = heap_live (mheap s1) - set (elem_blocks V (kern s1) q) - kblocks V (kern s1) (xQueue q)"
          using remove_effect [OF kq i1(1) q refl] by blast
        then show ?thesis using run True Some v i1(3,4) c1 by (auto intro!: exI [of _ s'] exI [of _ nms'])
      next
        case False
        then show ?thesis using run Some v i1(3,4) c1 u(1,2) by (intro exI [of _ "(0, None)"] exI conjI) (simp, assumption, simp)
      qed
    qed
  qed
qed

lemma mq_getattr_spec:
  assumes kq: "kernel_queue K V" and inv: "mq_inv V nms s" and init: "xQueueListInitialized s"
  shows "\<exists>st a s'. mq_getattr K d s = Some (st, a, s') \<and> mq_inv V nms s' \<and> mq_contents V s' = mq_contents V s \<and>
    heap_live (mheap s') = heap_live (mheap s) \<and>
    (case prvFindQueueInList (mheap s) (queues s) None d of
       None \<Rightarrow> st = (- 1, Some EBADF) \<and> a = None
     | Some q \<Rightarrow> st = (0, None) \<and>
         a = Some ((xAttr q)\<lparr>mq_curmsgs := of_nat (length (messages V (mheap s) (kern s) q))\<rparr>))"
proof (cases "prvFindQueueInList (mheap s) (queues s) None d")
  case None
  then show ?thesis using inv init by (simp add: mq_getattr_def)
next
  case (Some q)
  have q: "q \<in> set (queues s)" using find_desc(1) [OF Some] by simp
  let ?q = "q\<lparr>xAttr := (xAttr q)\<lparr>mq_curmsgs := uxQueueMessagesWaiting K (xQueue q) (kern s)\<rparr>\<rparr>"
  have k: "elem_key ?q = elem_key q" by (simp add: elem_key_def)
  have "xQueue q \<in> khandles V (kern s)" using elem_handle [OF mq_invD(3) [OF inv] q] by blast
  then have w: "uxQueueMessagesWaiting K (xQueue q) (kern s) = of_nat (length (kcont V (kern s) (xQueue q)))"
    using kernel_laws(5) [OF kq] by (simp add: waiting_law_def)
  show ?thesis using upd_elem_inv(1,2) [OF inv q k] Some init w by (simp add: mq_getattr_def Let_def)
qed

end
