(* ===== verification/Posix_Mqueue_Props.thy ===== *)
theory Posix_Mqueue_Props
  imports Posix_Mqueue_Life
begin

text \<open>
  The properties of the message queues, each for every kernel that satisfies \<open>kernel_queue\<close>, and an
  example system (the heap of the firmware, kernel queues as lists) that instantiates them.
\<close>

subsection \<open>An example system\<close>

definition ex_mq0 :: "lqueues mq_state" where
  "ex_mq0 = \<lparr>mheap = ex_heap, kern = Map.empty, xQueueListInitialized = False, queues = []\<rparr>"

definition ex_name :: "u8 list" where
  "ex_name = [0x2F, 0x71]"

definition ex_elem :: QueueListElement where
  "ex_elem = \<lparr>q_addr = 0x20000008, xQueue = 0x20000038, xOpenDescriptors = 1, pcName = 0x200000E0,
     xAttr = \<lparr>mq_flags = 0x402, mq_maxmsg = 10, mq_msgsize = 128, mq_curmsgs = 0\<rparr>, xPendingUnlink = False\<rparr>"

definition ex_mq1 :: "lqueues mq_state" where
  "ex_mq1 = snd (the (mq_open list_kernel ex_name 0x402 None ex_mq0))"

lemma ex_mq0_inv: "mq_inv list_view [] ex_mq0"
  using ex_heap_inv by (auto simp: mq_inv_def ex_mq0_def kheap_ok_def elems_inv_def heap_ok_def)

lemma ex_mq1_run:
  "\<exists>h. mq_open list_kernel ex_name 0x402 None ex_mq0 = Some ((0x20000008, None), ex_mq1) \<and>
     ex_mq1 = \<lparr>mheap = h, kern = [0x20000038 \<mapsto> (10, [])], xQueueListInitialized = True, queues = [ex_elem]\<rparr> \<and>
     heap_inv h [(48, Used), (168, Used), (16, Used), (59760, Free)] \<and> heap_start h = 0x20000000"
proof -
  obtain h1 where h1: "pvPortMalloc 40 ex_heap = Some (0x20000008, h1)" "heap_inv h1 [(48, Used), (59944, Free)]" "heap_start h1 = 0x20000000"
    by (rule malloc_at [OF ex_heap_inv, of 40 "[]" "[(48, Used), (59944, Free)]"]) (simp_all add: ex_malloc_simps ex_heap_start)
  obtain h2 where h2: "pvPortMalloc 160 h1 = Some (0x20000038, h2)" "heap_inv h2 [(48, Used), (168, Used), (59776, Free)]"
      "heap_start h2 = 0x20000000"
    by (rule malloc_at [OF h1(2), of 160 "[(48, Used)]" "[(48, Used), (168, Used), (59776, Free)]"]) (simp_all add: ex_malloc_simps h1(3))
  let ?bs = "[(48, Used), (168, Used), (16, Used), (59760, Free)]"
  obtain h3 where h3: "pvPortMalloc 3 h2 = Some (0x200000E0, h3)" "heap_inv h3 ?bs" "heap_start h3 = 0x20000000"
    by (rule malloc_at [OF h2(2), of 3 "[(48, Used), (168, Used)]" ?bs]) (simp_all add: ex_malloc_simps h2(3))
  let ?h = "heap_write 0x200000E0 [0x2F, 0x71, 0] h3"
  have w: "heap_inv ?h ?bs" "heap_start ?h = 0x20000000"
    using heap_write_blocks(1,2) [OF h3(2), of "0x200000E0" 8 "[0x2F, 0x71, 0]"] h3(3) by simp_all
  have "mq_open list_kernel ex_name 0x402 None ex_mq0 = Some ((0x20000008, None),
      \<lparr>mheap = ?h, kern = [0x20000038 \<mapsto> (10, [])], xQueueListInitialized = True, queues = [ex_elem]\<rparr>)"
    using h1(1) h2(1) h3(1)
    by (simp add: mq_open_def ex_mq0_def ex_name_def prvInitializeQueueList_def prvValidateQueueName_def str_nlen_def NAME_MAX_def
        O_CREAT_def O_EXCL_def prvCreateNewMessageQueue_def sizeof_QueueListElement_def sizeof_QueueElement_def lq_create_def
        posixconfigMQ_MAX_MESSAGES_def posixconfigMQ_MAX_SIZE_def strncpy_bytes_def ex_elem_def)
  then show ?thesis using w by (auto simp: ex_mq1_def)
qed

lemma ex_mq1_inv: "\<exists>nms. mq_inv list_view nms ex_mq1"
  using mq_open_spec [OF kernel_queue_list ex_mq0_inv, of ex_name "0x402" None] ex_mq1_run by (force simp: ex_name_def)

lemma ex_mq1_facts:
  "xQueueListInitialized ex_mq1" "queues ex_mq1 = [ex_elem]" "kern ex_mq1 = [0x20000038 \<mapsto> (10, [])]"
  "mq_contents list_view ex_mq1 = [(0x20000008, [])]" "messages list_view (mheap ex_mq1) (kern ex_mq1) ex_elem = []"
  "kcap list_view (kern ex_mq1) (xQueue ex_elem) = 10"
  "queue_errno ex_elem = EAGAIN"
proof -
  obtain h where h: "ex_mq1 = \<lparr>mheap = h, kern = [0x20000038 \<mapsto> (10, [])], xQueueListInitialized = True, queues = [ex_elem]\<rparr>"
    using ex_mq1_run by blast
  show "xQueueListInitialized ex_mq1" "queues ex_mq1 = [ex_elem]" "kern ex_mq1 = [0x20000038 \<mapsto> (10, [])]" by (simp_all add: h)
  show "mq_contents list_view ex_mq1 = [(0x20000008, [])]" "messages list_view (mheap ex_mq1) (kern ex_mq1) ex_elem = []"
    "kcap list_view (kern ex_mq1) (xQueue ex_elem) = 10" "queue_errno ex_elem = EAGAIN"
    by (simp_all add: h mq_contents_def messages_def ex_elem_def queue_errno_def O_NONBLOCK_def)
qed

lemma ex_mq1_malloc: "\<exists>h. pvPortMalloc 3 (mheap ex_mq1) = Some (0x200000F0, h)"
proof -
  obtain h where h: "mheap ex_mq1 = h" "heap_inv h [(48, Used), (168, Used), (16, Used), (59760, Free)]" "heap_start h = 0x20000000"
    using ex_mq1_run by (metis mq_state.select_convs(1))
  show ?thesis unfolding h(1)
    by (rule malloc_at [OF h(2), of 3 "[(48, Used), (168, Used), (16, Used)]" "[(48, Used), (168, Used), (16, Used), (16, Used), (59744, Free)]"])
      (auto simp: ex_malloc_simps h(3))
qed

lemma ex_check:
  "send_check 0x20000008 [1, 2, 3] None now ex_mq1 = Inr (ex_elem, 0)"
  "receive_check 0x20000008 128 None now ex_mq1 = Inr (ex_elem, 0)"
  by (simp_all add: send_check_def receive_check_def mq_checks_def ex_mq1_facts prvCalculateTickTimeout_def O_NONBLOCK_def ex_elem_def)

subsection \<open>Sending and receiving\<close>

text \<open>C9.
  \<open>mq_timedsend\<close> implements sending on a list of byte strings per descriptor: whenever it does
  not have to wait it returns the status that \<open>send_status\<close> computes from the checks, the heap and the
  room in the queue; on success the message is appended to the descriptor's queue and exactly one heap
  block is taken, on every failure no queue changes and no block is leaked, and the invariant is kept.
\<close>

theorem mq_timedsend_refines:
  assumes "kernel_queue K V" "mq_inv V nms s" "xQueueListInitialized s" "length msg < 2 ^ 32"
    "send_ready V s (send_check d msg abstime now s)"
  shows "\<exists>s'. mq_timedsend K d msg abstime now s = Some (send_status V msg s (send_check d msg abstime now s), s') \<and>
    mq_inv V nms s' \<and> queues s' = queues s \<and>
    (if send_status V msg s (send_check d msg abstime now s) = (0, None)
     then mq_contents V s' = at_queue d (\<lambda>ms. ms @ [msg]) (mq_contents V s) \<and>
       (\<exists>p. p \<notin> heap_live (mheap s) \<and> heap_live (mheap s') = insert p (heap_live (mheap s)))
     else mq_contents V s' = mq_contents V s \<and> heap_live (mheap s') = heap_live (mheap s))"
  using mq_timedsend_spec [OF assms] .

theorem mq_timedsend_refines_witness:
  "kernel_queue list_kernel list_view \<and> (\<exists>nms. mq_inv list_view nms ex_mq1) \<and>
   (\<exists>s'. mq_timedsend list_kernel 0x20000008 [1, 2, 3] None \<lparr>xOverflowCount = 0, xTimeOnEntering = 5\<rparr> ex_mq1 = Some ((0, None), s') \<and>
      mq_contents list_view s' = [(0x20000008, [[1, 2, 3]])])"
proof -
  let ?now = "\<lparr>xOverflowCount = 0, xTimeOnEntering = 5\<rparr>"
  obtain nms where inv: "mq_inv list_view nms ex_mq1" using ex_mq1_inv by blast
  have st: "send_status list_view [1, 2, 3] ex_mq1 (send_check 0x20000008 [1, 2, 3] None ?now ex_mq1) = (0, None)"
    using ex_mq1_malloc unfolding send_status_def ex_check by (auto simp: ex_mq1_facts(3) ex_elem_def)
  show ?thesis
    using mq_timedsend_refines [OF kernel_queue_list inv ex_mq1_facts(1), of "[1, 2, 3]" "0x20000008" None ?now]
      kernel_queue_list ex_mq1_inv st
    by (auto simp: ex_check send_ready_def ex_mq1_facts at_queue_def)
qed

text \<open>C10.
  \<open>mq_timedreceive\<close> implements receiving: whenever it does not have to wait it delivers the oldest
  message of the descriptor's queue, with its length as the status, removes it and releases its heap
  block; with an empty queue or a failing check it changes no queue and no block, and the invariant
  is kept.
\<close>

theorem mq_timedreceive_refines:
  assumes "kernel_queue K V" "mq_inv V nms s" "xQueueListInitialized s"
    "receive_ready V s (receive_check d msg_len abstime now s)"
    "receive_status V s (receive_check d msg_len abstime now s) = (st, out)"
  shows "\<exists>s'. mq_timedreceive K d msg_len abstime now s = Some (st, out, s') \<and> mq_inv V nms s' \<and> queues s' = queues s \<and>
    (if snd st = None then mq_contents V s' = at_queue d tl (mq_contents V s) \<and>
       (\<exists>p. p \<in> heap_live (mheap s) \<and> heap_live (mheap s') = heap_live (mheap s) - {p})
     else mq_contents V s' = mq_contents V s \<and> heap_live (mheap s') = heap_live (mheap s))"
  using mq_timedreceive_spec [OF assms] .

theorem mq_timedreceive_refines_witness:
  "(\<exists>nms. mq_inv list_view nms ex_mq1) \<and>
   (\<exists>s'. mq_timedreceive list_kernel 0x20000008 128 None \<lparr>xOverflowCount = 0, xTimeOnEntering = 5\<rparr> ex_mq1 =
      Some ((- 1, Some EAGAIN), [], s') \<and> mq_contents list_view s' = [(0x20000008, [])])"
proof -
  obtain nms where inv: "mq_inv list_view nms ex_mq1" using ex_mq1_inv by blast
  show ?thesis
    using mq_timedreceive_refines [OF kernel_queue_list inv ex_mq1_facts(1), of "0x20000008" 128 None
        "\<lparr>xOverflowCount = 0, xTimeOnEntering = 5\<rparr>" "(- 1, Some EAGAIN)" "[]"] ex_mq1_inv
    by (auto simp: ex_check receive_ready_def receive_status_def ex_mq1_facts(4,5,7))
qed

text \<open>
  A message sent to an empty queue comes back unchanged from the next receive, and afterwards the
  queues and the blocks in use are those before the send.
\<close>

theorem mq_send_receive:
  assumes kq: "kernel_queue K V" and inv: "mq_inv V nms s" and init: "xQueueListInitialized s"
    and e: "e \<in> set (queues s)" "q_addr e = d" "messages V (mheap s) (kern s) e = []" "0 < kcap V (kern s) (xQueue e)"
    and len: "length msg < 2 ^ 32" "of_nat (length msg) \<le> mq_msgsize (xAttr e)" "mq_msgsize (xAttr e) \<le> msg_len"
    and m: "pvPortMalloc (of_nat (length msg)) (mheap s) = Some (p, h1)" "p \<noteq> 0"
  shows "\<exists>s1 s2. mq_send K d msg now s = Some ((0, None), s1) \<and>
    mq_receive K d msg_len now s1 = Some ((int (length msg), None), msg, s2) \<and>
    mq_inv V nms s2 \<and> mq_contents V s2 = mq_contents V s \<and> heap_live (mheap s2) = heap_live (mheap s)"
proof -
  note i = mq_invD [OF inv]
  let ?x = "\<lparr>pcData = p, xDataSize = of_nat (length msg)\<rparr>" and ?q = "xQueue e" and ?h = "heap_write p msg h1"
  define t where "t = (if mq_flags (xAttr e) AND O_NONBLOCK \<noteq> 0 then 0 else portMAX_DELAY)"
  have c0: "kcont V (kern s) ?q = []" using e(3) by (simp add: messages_def)
  have ck: "mq_checks bad d None now s' = Inr (e, t)" if "queues s' = queues s" "\<not> bad e" for bad and s' :: "'a mq_state"
    using find_desc_mem [OF i(3) e(1)] that e(2) by (simp add: mq_checks_def prvCalculateTickTimeout_def t_def)
  obtain sent k' where sd: "xQueueSend K ?q ?x t (kern s) = (sent, k')" by fastforce
  have room: "length (kcont V (kern s) ?q) < kcap V (kern s) ?q" using c0 e(4) by simp
  note se = send_effect [OF kq inv e(1) len(1) m room sd]
  let ?s1 = "s\<lparr>mheap := ?h, kern := k'\<rparr>"
  have run1: "mq_send K d msg now s = Some ((0, None), ?s1)"
    using ck [of s "\<lambda>q. of_nat (length msg) > mq_msgsize (xAttr q)"] len(2) m init sd se(1)
    by (simp add: mq_send_def mq_timedsend_def)
  have h: "?q \<in> khandles V (kern s)" using elem_handle [OF i(3) e(1)] by blast
  have c1: "kcont V (kern ?s1) ?q = ?x # []"
    using queue_send_cases(5) [OF kernel_laws(3) [OF kq] h sd room] c0 by simp
  have e1: "e \<in> set (queues ?s1)" using e(1) by simp
  have rs: "receive_status V ?s1 (receive_check d msg_len None now ?s1) = ((int (length msg), None), msg)"
    using ck [of ?s1 "\<lambda>q. msg_len < mq_msgsize (xAttr q)"] len(3) se(3) e(3)
    by (simp add: receive_status_def receive_check_def)
  obtain r k2 where rc: "xQueueReceive K ?q t (kern ?s1) = (r, k2)" by fastforce
  note re = receive_effect [OF kq se(2) e1 c1 rc]
  obtain h2 where h2: "vPortFree p ?h = Some h2" "mq_inv V nms (?s1\<lparr>mheap := h2, kern := k2\<rparr>)"
    "messages V h2 k2 e = tl (messages V ?h k' e)"
    "\<forall>y \<in> set (queues s). y \<noteq> e \<longrightarrow> messages V h2 k2 y = messages V ?h k' y" "heap_live h2 = heap_live ?h - {p}"
    using re(2) by auto
  let ?s2 = "?s1\<lparr>mheap := h2, kern := k2\<rparr>"
  have rd: "receive_ready V ?s1 (receive_check d msg_len None now ?s1)"
    using ck [of ?s1 "\<lambda>q. msg_len < mq_msgsize (xAttr q)"] len(3) se(3) by (simp add: receive_ready_def receive_check_def)
  have run2: "mq_receive K d msg_len now ?s1 = Some ((int (length msg), None), msg, ?s2)"
    using mq_timedreceive_spec [OF kq se(2) _ rd rs] ck [of ?s1 "\<lambda>q. msg_len < mq_msgsize (xAttr q)"] init len(3) rc re(1) h2(1)
    by (auto simp: mq_receive_def mq_timedreceive_def)
  have "mq_contents V ?s2 = mq_contents V s"
    by (rule mq_contents_same) (use h2(3,4) se(3,4) e(3) in auto)
  then show ?thesis using run1 run2 h2(2,5) se(5,6) by (intro exI [of _ ?s1] exI [of _ ?s2]) auto
qed

theorem mq_send_receive_witness:
  "(\<exists>nms. mq_inv list_view nms ex_mq1) \<and>
   (\<exists>s1 s2. mq_send list_kernel 0x20000008 [1, 2, 3] \<lparr>xOverflowCount = 0, xTimeOnEntering = 5\<rparr> ex_mq1 = Some ((0, None), s1) \<and>
      mq_receive list_kernel 0x20000008 128 \<lparr>xOverflowCount = 0, xTimeOnEntering = 5\<rparr> s1 = Some ((3, None), [1, 2, 3], s2))"
proof -
  obtain nms where inv: "mq_inv list_view nms ex_mq1" using ex_mq1_inv by blast
  obtain h where h: "pvPortMalloc 3 (mheap ex_mq1) = Some (0x200000F0, h)" using ex_mq1_malloc by blast
  have "\<exists>s1 s2. mq_send list_kernel 0x20000008 [1, 2, 3] \<lparr>xOverflowCount = 0, xTimeOnEntering = 5\<rparr> ex_mq1 = Some ((0, None), s1) \<and>
      mq_receive list_kernel 0x20000008 128 \<lparr>xOverflowCount = 0, xTimeOnEntering = 5\<rparr> s1 =
        Some ((int (length [1 :: u8, 2, 3]), None), [1, 2, 3], s2) \<and>
      mq_inv list_view nms s2 \<and> mq_contents list_view s2 = mq_contents list_view ex_mq1 \<and>
      heap_live (mheap s2) = heap_live (mheap ex_mq1)"
    by (rule mq_send_receive [OF kernel_queue_list inv ex_mq1_facts(1), of ex_elem _ "[1, 2, 3]" _ "0x200000F0" h])
      (use h ex_mq1_facts(2,3,5) in \<open>simp_all add: ex_elem_def\<close>)
  then show ?thesis using ex_mq1_inv by auto
qed

subsection \<open>The life of a queue\<close>

text \<open>C29.
  \<open>mq_open\<close> returns in every state.  When it fails it returns the error descriptor, and no queue,
  name or heap block has changed: neither memory nor a kernel queue is leaked on any of its failure
  paths.  When it succeeds the descriptor is that of a queue in the list and its name is known.
\<close>

theorem mq_open_all_or_nothing:
  assumes "kernel_queue K V" "mq_inv V nms s" "0 \<notin> set name"
  shows "\<exists>r s' nms'. mq_open K name oflag attr s = Some (r, s') \<and> mq_inv V nms' s' \<and> xQueueListInitialized s' \<and>
    (snd r \<noteq> None \<longrightarrow> fst r = mqd_error \<and> mq_contents V s' = mq_contents V s \<and>
       heap_live (mheap s') = heap_live (mheap s) \<and> nms' = nms \<and> queues s' = queues s) \<and>
    (snd r = None \<longrightarrow> name \<in> set nms' \<and> fst r \<in> q_addr ` set (queues s'))"
  using mq_open_spec [OF assms] .

theorem mq_open_all_or_nothing_witness:
  "mq_inv list_view [] ex_mq0 \<and> 0 \<notin> set ex_name \<and>
   (\<exists>nms'. mq_open list_kernel ex_name 0x402 None ex_mq0 = Some ((0x20000008, None), ex_mq1) \<and> ex_name \<in> set nms' \<and>
      mq_inv list_view nms' ex_mq1)"
proof -
  have n: "0 \<notin> set ex_name" by (simp add: ex_name_def)
  show ?thesis
    using mq_open_all_or_nothing [OF kernel_queue_list ex_mq0_inv n, of "0x402" None] ex_mq1_run ex_mq0_inv n by force
qed



text \<open>
  A consequence of the mark: after the last descriptor of a queue that nobody unlinked is closed, the
  queue still exists but cannot be opened again (\<open>EINVAL\<close>), and closing the stale descriptor once more
  deletes it without any \<open>mq_unlink\<close>.
\<close>

theorem mq_reopen_refused:
  assumes kq: "kernel_queue K V" and inv: "mq_inv V nms s" and name: "prvValidateQueueName name \<noteq> None" "0 \<notin> set name"
    and q: "map_of (zip nms (queues s)) name = Some q" "xOpenDescriptors q = 1" "\<not> xPendingUnlink q"
    and flags: "oflag AND O_CREAT = 0"
  shows "\<exists>s1 s2. mq_close K (q_addr q) s = Some ((0, None), s1) \<and>
    mq_contents V s1 = mq_contents V s \<and>
    mq_open K name oflag attr s1 = Some ((mqd_error, Some EINVAL), s1) \<and>
    mq_close K (q_addr q) s1 = Some ((0, None), s2) \<and>
    mq_contents V s2 = filter (\<lambda>(x, ms). x \<noteq> q_addr q) (mq_contents V s)"
proof -
  note i = mq_invD [OF inv]
  have e: "q \<in> set (queues s)" using map_of_SomeD [OF q(1)] by (auto dest: set_zip_rightD)
  have init: "prvInitializeQueueList s = s"
    using inv e by (auto simp: mq_inv_def prvInitializeQueueList_def)
  let ?q = "q\<lparr>xOpenDescriptors := 0, xPendingUnlink := True\<rparr>"
  define s1 where "s1 = s\<lparr>queues := upd_elem ?q (queues s)\<rparr>"
  have k: "elem_key ?q = elem_key q" by (simp add: elem_key_def)
  note u = upd_elem_inv [OF inv e k, folded s1_def]
  have f: "prvFindQueueInList h (queues s) None (q_addr q) = Some q" for h by (rule find_desc_mem [OF i(3) e])
  have run1: "mq_close K (q_addr q) s = Some ((0, None), s1)"
    using q(2,3) by (simp add: mq_close_def init f s1_def)
  have e1: "?q \<in> set (queues s1)" using u(3) by (simp add: s1_def)
  have init1: "prvInitializeQueueList s1 = s1"
    using u(1) e1 by (auto simp: mq_inv_def prvInitializeQueueList_def)
  have d: "inj_on q_addr (set (queues s))" using elems_addr_distinct [OF i(3)] by (simp add: distinct_map)
  have "map_of (zip nms (queues s1)) name = Some ?q"
  proof -
    let ?f = "\<lambda>x. if q_addr x = q_addr q then ?q else x"
    have "zip nms (queues s1) = map (\<lambda>(n, x). (n, ?f x)) (zip nms (queues s))"
      by (simp add: s1_def upd_elem_def zip_map2)
    then have "map_of (zip nms (queues s1)) name = map_option ?f (map_of (zip nms (queues s)) name)"
      by (simp add: map_of_map)
    then show ?thesis using q(1) by simp
  qed
  then have F: "prvFindQueueInList (mheap s1) (queues s1) (Some name) 0 = Some ?q"
    using find_name [OF mq_invD(3,2) [OF u(1)] name(2)] by simp
  have run2: "mq_open K name oflag attr s1 = Some ((mqd_error, Some EINVAL), s1)"
    using name(1) flags F by (auto simp: mq_open_def init1 Let_def split: option.splits)
  have f1: "prvFindQueueInList (mheap s1) (queues s1) None (q_addr q) = Some ?q"
    using find_desc_mem [OF mq_invD(3) [OF u(1)] e1] by simp
  obtain s2 where "mq_close K (q_addr q) s1 = Some ((0, None), s2)"
    "mq_contents V s2 = filter (\<lambda>(x, ms). x \<noteq> q_addr q) (mq_contents V s1)"
    using mq_close_spec [OF kq u(1), of "q_addr q"] unfolding f1 by auto
  then show ?thesis using run1 run2 u(2) by auto
qed

theorem mq_reopen_refused_witness:
  "\<exists>s1 s2. mq_close list_kernel 0x20000008 ex_mq1 = Some ((0, None), s1) \<and>
    mq_open list_kernel ex_name 0 None s1 = Some ((mqd_error, Some EINVAL), s1) \<and>
    mq_close list_kernel 0x20000008 s1 = Some ((0, None), s2) \<and> mq_contents list_view s2 = []"
proof -
  have n: "0 \<notin> set ex_name" "prvValidateQueueName ex_name \<noteq> None"
    by (simp_all add: ex_name_def prvValidateQueueName_def str_nlen_def NAME_MAX_def)
  obtain nms where inv: "mq_inv list_view nms ex_mq1" "ex_name \<in> set nms"
    using mq_open_spec [OF kernel_queue_list ex_mq0_inv n(1), of "0x402" None] ex_mq1_run by force
  have "length nms = 1" using inv(1) ex_mq1_facts(2) by (auto simp: mq_inv_def elems_inv_def dest: list_all2_lengthD)
  then have nms: "nms = [ex_name]" using inv(2) by (cases nms) auto
  have "map_of (zip nms (queues ex_mq1)) ex_name = Some ex_elem" by (simp add: nms ex_mq1_facts(2))
  from mq_reopen_refused [OF kernel_queue_list inv(1) n(2,1) this, of 0 None] show ?thesis
    by (auto simp: ex_elem_def ex_mq1_facts(4))
qed

text \<open>
  Exactly the names that start with a slash and have at most 65 bytes are accepted.\<close>

theorem prvValidateQueueName_exact:
  "prvValidateQueueName name = (if name \<noteq> [] \<and> hd name = 0x2F \<and> length name \<le> 65 then Some (length name) else None)"
  by (cases name) (auto simp: prvValidateQueueName_def str_nlen_def NAME_MAX_def)

subsection \<open>Every history\<close>

text \<open>
  The states a system of message queues reaches from a state without queues: any calls in any order,
  as long as a send or receive does not have to wait for another task.
\<close>

inductive mq_reach :: "'k kqueue \<Rightarrow> 'k kview \<Rightarrow> 'k mq_state \<Rightarrow> 'k mq_state \<Rightarrow> bool" for K V s0 where
  start: "mq_reach K V s0 s0"
| opens: "mq_reach K V s0 s \<Longrightarrow> 0 \<notin> set name \<Longrightarrow> mq_open K name oflag attr s = Some (r, s') \<Longrightarrow> mq_reach K V s0 s'"
| closes: "mq_reach K V s0 s \<Longrightarrow> mq_close K d s = Some (st, s') \<Longrightarrow> mq_reach K V s0 s'"
| unlinks: "mq_reach K V s0 s \<Longrightarrow> 0 \<notin> set name \<Longrightarrow> mq_unlink K name s = Some (st, s') \<Longrightarrow> mq_reach K V s0 s'"
| getattrs: "mq_reach K V s0 s \<Longrightarrow> mq_getattr K d s = Some (st, a, s') \<Longrightarrow> mq_reach K V s0 s'"
| sends: "mq_reach K V s0 s \<Longrightarrow> length msg < 2 ^ 32 \<Longrightarrow> send_ready V s (send_check d msg abstime now s) \<Longrightarrow>
    mq_timedsend K d msg abstime now s = Some (st, s') \<Longrightarrow> mq_reach K V s0 s'"
| receives: "mq_reach K V s0 s \<Longrightarrow> receive_ready V s (receive_check d msg_len abstime now s) \<Longrightarrow>
    mq_timedreceive K d msg_len abstime now s = Some (st, out, s') \<Longrightarrow> mq_reach K V s0 s'"

lemma mq_reach_inv:
  assumes "mq_reach K V s0 s" "kernel_queue K V" "mq_inv V [] s0"
  shows "\<exists>nms. mq_inv V nms s"
  using assms(1)
proof induction
  case start
  show ?case using assms(3) by blast
next
  case (opens s name oflag attr r s')
  then show ?case using mq_open_spec [OF assms(2) _ opens.hyps(2), of _ s oflag attr] by fastforce
next
  case (closes s d st s')
  then show ?case using mq_close_spec [OF assms(2), of _ s d] by fastforce
next
  case (unlinks s name st s')
  then show ?case using mq_unlink_spec [OF assms(2) _ unlinks.hyps(2), of _ s] by fastforce
next
  case (getattrs s d st a s')
  then obtain nms where n: "mq_inv V nms s" by blast
  have "xQueueListInitialized s" using getattrs.hyps(2) by (simp add: mq_getattr_def split: if_splits)
  then show ?case using mq_getattr_spec [OF assms(2) n, of d] getattrs.hyps(2) by fastforce
next
  case (sends s msg d abstime now st s')
  then obtain nms where n: "mq_inv V nms s" by blast
  have "xQueueListInitialized s" using sends.hyps(4) by (simp add: mq_timedsend_def split: if_splits)
  then show ?case using mq_timedsend_spec [OF assms(2) n _ sends.hyps(2,3)] sends.hyps(4) by fastforce
next
  case (receives s d msg_len abstime now st out s')
  then obtain nms where n: "mq_inv V nms s" by blast
  have "xQueueListInitialized s" using receives.hyps(3) by (simp add: mq_timedreceive_def split: if_splits)
  moreover obtain st' out' where "receive_status V s (receive_check d msg_len abstime now s) = (st', out')" by fastforce
  ultimately show ?case using mq_timedreceive_spec [OF assms(2) n _ receives.hyps(2)] receives.hyps(3) by fastforce
qed

text \<open>C31.
  In every state that calls of the interface reach, the queues' names are different, the descriptors
  are pairwise different blocks of a well-formed heap, no two queues share a kernel queue, a name
  block or a message block, and no block of the queues belongs to the kernel.
\<close>

theorem mq_reach_wellformed:
  assumes "kernel_queue K V" "mq_inv V [] s0" "mq_reach K V s0 s"
  shows "\<exists>nms. mq_inv V nms s \<and> distinct nms \<and> length nms = length (queues s) \<and> heap_ok (mheap s) \<and>
    distinct (map xQueue (queues s)) \<and> distinct (concat (map (elem_blocks V (kern s)) (queues s))) \<and>
    set (concat (map (elem_blocks V (kern s)) (queues s))) \<subseteq> heap_live (mheap s)"
proof -
  obtain nms where n: "mq_inv V nms s" using mq_reach_inv [OF assms(3,1,2)] by blast
  note i = mq_invD [OF n]
  show ?thesis using n i(2) elems_blocks_live [OF i(2,3)] i(3)
    by (intro exI [of _ nms]) (auto simp: elems_inv_def dest: list_all2_lengthD)
qed

theorem mq_reach_wellformed_witness:
  "mq_reach list_kernel list_view ex_mq0 ex_mq1 \<and> distinct (map xQueue (queues ex_mq1)) \<and> heap_ok (mheap ex_mq1)"
proof -
  have "mq_open list_kernel ex_name 0x402 None ex_mq0 = Some ((0x20000008, None), ex_mq1)" using ex_mq1_run by blast
  then have r: "mq_reach list_kernel list_view ex_mq0 ex_mq1"
    by (rule mq_reach.opens [OF mq_reach.start, rotated]) (simp add: ex_name_def)
  then show ?thesis using mq_reach_wellformed [OF kernel_queue_list ex_mq0_inv r] by blast
qed

end
