(* ===== verification/Posix_Pthread.thy ===== *)
theory Posix_Pthread
  imports Posix_Mqueue_Inv
begin

text \<open>
  POSIX threads, \<open>FreeRTOS_POSIX_pthread.c\<close>, with \<open>FreeRTOS_POSIX_sched.c\<close> and
  \<open>FreeRTOS_POSIX_unistd.c\<close>.  A thread is a heap block (\<open>pthread_internal_t\<close>) whose contents are the
  record \<open>pthread_obj\<close>; the tag of its kernel task points to it.  The two static semaphores inside
  the block are known to the kernel by their addresses.

  The kernel's tasks and semaphores are not part of the sources: \<open>pkernel\<close> holds the functions the
  file calls, on a kernel state \<open>'k\<close> and, where they allocate, the heap.  The task that makes a call is
  the argument \<open>self\<close>.  \<open>None\<close> is a call that does not return: a heap call that fails its assertions, or
  a pointer to a thread object that has been released.
\<close>

definition EDEADLK :: int where "EDEADLK = 45"
definition ENOTSUP :: int where "ENOTSUP = 134"
definition PTHREAD_CREATE_DETACHED :: int where "PTHREAD_CREATE_DETACHED = 0"
definition PTHREAD_CREATE_JOINABLE :: int where "PTHREAD_CREATE_JOINABLE = 1"
definition PTHREAD_STACK_MIN :: u32 where "PTHREAD_STACK_MIN = 1200"
definition configMAX_PRIORITIES :: int where "configMAX_PRIORITIES = 56"
definition tskIDLE_PRIORITY :: int where "tskIDLE_PRIORITY = 0"
definition SCHED_OTHER :: int where "SCHED_OTHER = 0"

definition pthreadDETACH_STATE_MASK :: u16 where "pthreadDETACH_STATE_MASK = 0x8000"
definition pthreadSCHED_PRIORITY_MASK :: u16 where "pthreadSCHED_PRIORITY_MASK = 0x7FFF"
definition pthreadDETACH_STATE_SHIFT :: nat where "pthreadDETACH_STATE_SHIFT = 15"

lemmas pthread_consts = EDEADLK_def ENOTSUP_def PTHREAD_CREATE_DETACHED_def PTHREAD_CREATE_JOINABLE_def
  PTHREAD_STACK_MIN_def configMAX_PRIORITIES_def tskIDLE_PRIORITY_def SCHED_OTHER_def
  pthreadDETACH_STATE_MASK_def pthreadSCHED_PRIORITY_MASK_def pthreadDETACH_STATE_SHIFT_def

subsection \<open>sched\<close>

definition sched_get_priority_max :: "int \<Rightarrow> int" where
  "sched_get_priority_max policy = configMAX_PRIORITIES - 1"

definition sched_get_priority_min :: "int \<Rightarrow> int" where
  "sched_get_priority_min policy = tskIDLE_PRIORITY"

definition sched_yield :: "('k \<Rightarrow> 'k) \<Rightarrow> 'k \<Rightarrow> int \<times> 'k" where
  "sched_yield taskYIELD k = (0, taskYIELD k)"

subsection \<open>unistd\<close>

text \<open>The kernel's macro \<open>pdMS_TO_TICKS\<close> and its \<open>vTaskDelay\<close> are arguments.\<close>

definition posix_sleep :: "(u32 \<Rightarrow> u32) \<Rightarrow> (u32 \<Rightarrow> 'k \<Rightarrow> 'k) \<Rightarrow> u32 \<Rightarrow> 'k \<Rightarrow> u32 \<times> 'k" where
  "posix_sleep pdMS_TO_TICKS vTaskDelay seconds k = (0, vTaskDelay (pdMS_TO_TICKS (seconds * 1000)) k)"

definition usleep :: "(u32 \<Rightarrow> u32) \<Rightarrow> (u32 \<Rightarrow> 'k \<Rightarrow> 'k) \<Rightarrow> u32 \<Rightarrow> 'k \<Rightarrow> int \<times> 'k" where
  "usleep pdMS_TO_TICKS vTaskDelay usec k =
     (0, vTaskDelay (pdMS_TO_TICKS (usec div 1000 + (if usec mod 1000 \<noteq> 0 then 1 else 0))) k)"

subsection \<open>Attributes\<close>

record pthread_attr =
  usStackSize :: u16
  usSchedPriorityDetachState :: u16

definition pthreadGET_SCHED_PRIORITY :: "u16 \<Rightarrow> int" where
  "pthreadGET_SCHED_PRIORITY var = uint (var AND pthreadSCHED_PRIORITY_MASK)"

definition pthreadIS_JOINABLE :: "u16 \<Rightarrow> bool" where
  "pthreadIS_JOINABLE var \<longleftrightarrow> var AND pthreadDETACH_STATE_MASK = pthreadDETACH_STATE_MASK"

definition xDefaultThreadAttributes :: pthread_attr where
  "xDefaultThreadAttributes = \<lparr>usStackSize = ucast PTHREAD_STACK_MIN,
     usSchedPriorityDetachState = (of_int tskIDLE_PRIORITY AND pthreadSCHED_PRIORITY_MASK) OR
       push_bit pthreadDETACH_STATE_SHIFT (of_int PTHREAD_CREATE_JOINABLE)\<rparr>"

definition pthread_attr_destroy :: "pthread_attr \<Rightarrow> int" where
  "pthread_attr_destroy attr = 0"

definition pthread_attr_getdetachstate :: "pthread_attr \<Rightarrow> int \<times> int" where
  "pthread_attr_getdetachstate attr =
     (0, if pthreadIS_JOINABLE (usSchedPriorityDetachState attr) then PTHREAD_CREATE_JOINABLE else PTHREAD_CREATE_DETACHED)"

definition pthread_attr_getschedparam :: "pthread_attr \<Rightarrow> int \<times> int" where
  "pthread_attr_getschedparam attr = (0, pthreadGET_SCHED_PRIORITY (usSchedPriorityDetachState attr))"

definition pthread_attr_getstacksize :: "pthread_attr \<Rightarrow> int \<times> u32" where
  "pthread_attr_getstacksize attr = (0, ucast (usStackSize attr))"

definition pthread_attr_init :: "int \<times> pthread_attr" where
  "pthread_attr_init = (0, xDefaultThreadAttributes)"

definition pthread_attr_setdetachstate :: "pthread_attr \<Rightarrow> int \<Rightarrow> int \<times> pthread_attr" where
  "pthread_attr_setdetachstate attr detachstate =
     (if detachstate \<noteq> PTHREAD_CREATE_DETACHED \<and> detachstate \<noteq> PTHREAD_CREATE_JOINABLE then (EINVAL, attr)
      else (0, attr\<lparr>usSchedPriorityDetachState :=
        (usSchedPriorityDetachState attr AND NOT pthreadDETACH_STATE_MASK) OR
        push_bit pthreadDETACH_STATE_SHIFT (of_int detachstate)\<rparr>))"

definition pthread_attr_setschedparam :: "pthread_attr \<Rightarrow> int option \<Rightarrow> int \<times> pthread_attr" where
  "pthread_attr_setschedparam attr param =
     (case param of
        None \<Rightarrow> (EINVAL, attr)
      | Some sched_priority \<Rightarrow>
          if sched_priority > sched_get_priority_max SCHED_OTHER \<or> sched_priority < 0 then (ENOTSUP, attr)
          else (0, attr\<lparr>usSchedPriorityDetachState :=
            (usSchedPriorityDetachState attr AND NOT pthreadSCHED_PRIORITY_MASK) OR of_int sched_priority\<rparr>))"

definition pthread_attr_setschedpolicy :: "pthread_attr \<Rightarrow> int \<Rightarrow> int" where
  "pthread_attr_setschedpolicy attr policy = 0"

definition pthread_attr_setstacksize :: "pthread_attr \<Rightarrow> u32 \<Rightarrow> int \<times> pthread_attr" where
  "pthread_attr_setstacksize attr stacksize =
     (if stacksize < PTHREAD_STACK_MIN then (EINVAL, attr) else (0, attr\<lparr>usStackSize := ucast stacksize\<rparr>))"

subsection \<open>Threads\<close>

record pthread_obj =
  pt_attr :: pthread_attr
  pvStartRoutine :: u32
  xTaskArg :: u32
  xTaskHandle :: u32
  xReturn :: u32

record 'k pkernel =
  sizeof_StaticSemaphore :: u32
  xTaskCreate :: "u16 \<Rightarrow> u32 \<Rightarrow> int \<Rightarrow> heap4 \<times> 'k \<Rightarrow> u32 option \<times> heap4 \<times> 'k"
  vTaskDelete :: "u32 \<Rightarrow> heap4 \<times> 'k \<Rightarrow> heap4 \<times> 'k"
  vTaskSuspend :: "u32 \<Rightarrow> 'k \<Rightarrow> 'k"
  vTaskPrioritySet :: "u32 \<Rightarrow> int \<Rightarrow> 'k \<Rightarrow> 'k"
  vTaskSetApplicationTaskTag :: "u32 \<Rightarrow> u32 \<Rightarrow> 'k \<Rightarrow> 'k"
  xTaskGetApplicationTaskTag :: "u32 \<Rightarrow> 'k \<Rightarrow> u32"
  xSemaphoreCreateMutexStatic :: "u32 \<Rightarrow> 'k \<Rightarrow> 'k"
  xSemaphoreCreateBinaryStatic :: "u32 \<Rightarrow> 'k \<Rightarrow> 'k"
  xSemaphoreTake :: "u32 \<Rightarrow> u32 \<Rightarrow> 'k \<Rightarrow> bool \<times> 'k"
  xSemaphoreGive :: "u32 \<Rightarrow> 'k \<Rightarrow> 'k"
  vSemaphoreDelete :: "u32 \<Rightarrow> 'k \<Rightarrow> 'k"

record 'k pt_state =
  pheap :: heap4
  pkern :: 'k
  pobjs :: "u32 \<rightharpoonup> pthread_obj"

text \<open>The layout of \<open>pthread_internal_t\<close>: attributes and three pointers, two semaphores, the result.\<close>

definition xJoinBarrier :: "'k pkernel \<Rightarrow> u32 \<Rightarrow> u32" where
  "xJoinBarrier K pxThread = pxThread + 16"

definition xJoinMutex :: "'k pkernel \<Rightarrow> u32 \<Rightarrow> u32" where
  "xJoinMutex K pxThread = pxThread + 16 + sizeof_StaticSemaphore K"

definition sizeof_pthread_internal :: "'k pkernel \<Rightarrow> u32" where
  "sizeof_pthread_internal K = 20 + 2 * sizeof_StaticSemaphore K"

definition joinable :: "pthread_obj \<Rightarrow> bool" where
  "joinable ob = pthreadIS_JOINABLE (usSchedPriorityDetachState (pt_attr ob))"

definition pthread_self :: "'k pkernel \<Rightarrow> u32 \<Rightarrow> 'k pt_state \<Rightarrow> u32" where
  "pthread_self K self s = xTaskGetApplicationTaskTag K self (pkern s)"

definition pthread_equal :: "u32 \<Rightarrow> u32 \<Rightarrow> int" where
  "pthread_equal t1 t2 = (if t1 = t2 then 1 else 0)"

definition prvExitThread :: "'k pkernel \<Rightarrow> u32 \<Rightarrow> 'k pt_state \<Rightarrow> 'k pt_state option" where
  "prvExitThread K self s =
     (let pxThread = pthread_self K self s in
      case pobjs s pxThread of
        None \<Rightarrow> None
      | Some ob \<Rightarrow>
          if joinable ob then
            Some (s\<lparr>pkern := vTaskSuspend K self (xSemaphoreGive K (xJoinBarrier K pxThread) (pkern s))\<rparr>)
          else
            do {
              h \<leftarrow> vPortFree pxThread (pheap s);
              (case vTaskDelete K self (h, pkern s) of
                 (h, k) \<Rightarrow> Some (s\<lparr>pheap := h, pkern := k, pobjs := (pobjs s)(pxThread := None)\<rparr>))
            })"

text \<open>The application's thread function is the argument \<open>run\<close>.\<close>

definition prvRunThread ::
  "'k pkernel \<Rightarrow> (u32 \<Rightarrow> u32 \<Rightarrow> 'k pt_state \<Rightarrow> (u32 \<times> 'k pt_state) option) \<Rightarrow> u32 \<Rightarrow> u32 \<Rightarrow> 'k pt_state \<Rightarrow> 'k pt_state option" where
  "prvRunThread K run self pxThread s =
     (case pobjs s pxThread of
        None \<Rightarrow> None
      | Some ob \<Rightarrow>
          do {
            (r, s) \<leftarrow> run (pvStartRoutine ob) (xTaskArg ob) s;
            (case pobjs s pxThread of
               None \<Rightarrow> None
             | Some ob \<Rightarrow> prvExitThread K self (s\<lparr>pobjs := (pobjs s)(pxThread \<mapsto> ob\<lparr>xReturn := r\<rparr>)\<rparr>))
          })"

definition pthread_exit :: "'k pkernel \<Rightarrow> u32 \<Rightarrow> u32 \<Rightarrow> 'k pt_state \<Rightarrow> 'k pt_state option" where
  "pthread_exit K self value_ptr s =
     (let pxThread = pthread_self K self s in
      case pobjs s pxThread of
        None \<Rightarrow> None
      | Some ob \<Rightarrow> prvExitThread K self (s\<lparr>pobjs := (pobjs s)(pxThread \<mapsto> ob\<lparr>xReturn := value_ptr\<rparr>)\<rparr>))"

text \<open>
  \<open>pthread_create\<close>: status, the thread stored for the caller, state.  \<open>uninit\<close> is the contents of the
  block as \<open>pvPortMalloc\<close> leaves it (the handle and the result are not initialised).
\<close>

definition pthread_create ::
  "'k pkernel \<Rightarrow> pthread_obj \<Rightarrow> pthread_attr option \<Rightarrow> u32 \<Rightarrow> u32 \<Rightarrow> 'k pt_state \<Rightarrow> (int \<times> u32 option \<times> 'k pt_state) option" where
  "pthread_create K uninit attr startroutine arg s =
     do {
       (pxThread, h) \<leftarrow> pvPortMalloc (sizeof_pthread_internal K) (pheap s);
       if pxThread = 0 then Some (EAGAIN, None, s\<lparr>pheap := h\<rparr>)
       else
         (let ob = uninit\<lparr>pt_attr := (case attr of None \<Rightarrow> xDefaultThreadAttributes | Some a \<Rightarrow> a),
                         xTaskArg := arg, pvStartRoutine := startroutine\<rparr>;
              sched_priority = pthreadGET_SCHED_PRIORITY (usSchedPriorityDetachState (pt_attr ob));
              k = (if joinable ob
                   then xSemaphoreCreateBinaryStatic K (xJoinBarrier K pxThread)
                          (xSemaphoreCreateMutexStatic K (xJoinMutex K pxThread) (pkern s))
                   else pkern s)
          in case xTaskCreate K (usStackSize (pt_attr ob) div 4) pxThread sched_priority (h, k) of
               (None, h, k) \<Rightarrow> do { h \<leftarrow> vPortFree pxThread h; Some (EAGAIN, None, s\<lparr>pheap := h, pkern := k\<rparr>) }
             | (Some t, h, k) \<Rightarrow>
                 Some (0, Some pxThread,
                   s\<lparr>pheap := h, pkern := vTaskSetApplicationTaskTag K t pxThread k,
                     pobjs := (pobjs s)(pxThread \<mapsto> ob\<lparr>xTaskHandle := t\<rparr>)\<rparr>))
     }"

definition pthread_getschedparam :: "u32 \<Rightarrow> 'k pt_state \<Rightarrow> (int \<times> int \<times> int) option" where
  "pthread_getschedparam thread s =
     (case pobjs s thread of
        None \<Rightarrow> None
      | Some ob \<Rightarrow> Some (0, SCHED_OTHER, pthreadGET_SCHED_PRIORITY (usSchedPriorityDetachState (pt_attr ob))))"

text \<open>
  \<open>pthread_join\<close> up to the point where it waits for the thread: a status, and the kernel state; then the
  clean-up after \<open>xJoinBarrier\<close> has been taken.
\<close>

definition join_begin :: "'k pkernel \<Rightarrow> u32 \<Rightarrow> u32 \<Rightarrow> 'k pt_state \<Rightarrow> (int \<times> 'k pt_state) option" where
  "join_begin K self pxThread s =
     (case pobjs s pxThread of
        None \<Rightarrow> None
      | Some ob \<Rightarrow>
          if \<not> joinable ob then Some (EDEADLK, s)
          else
            (case xSemaphoreTake K (xJoinMutex K pxThread) 0 (pkern s) of
               (taken, k) \<Rightarrow>
                 if \<not> taken then Some (EDEADLK, s\<lparr>pkern := k\<rparr>)
                 else if pthread_equal (pthread_self K self (s\<lparr>pkern := k\<rparr>)) pxThread \<noteq> 0 then Some (EDEADLK, s\<lparr>pkern := k\<rparr>)
                 else Some (0, s\<lparr>pkern := k\<rparr>)))"

definition join_finish :: "'k pkernel \<Rightarrow> u32 \<Rightarrow> 'k pt_state \<Rightarrow> (u32 \<times> 'k pt_state) option" where
  "join_finish K pxThread s =
     (case pobjs s pxThread of
        None \<Rightarrow> None
      | Some ob \<Rightarrow>
          (let k = xSemaphoreGive K (xJoinBarrier K pxThread) (pkern s);
               k = vSemaphoreDelete K (xJoinBarrier K pxThread) k;
               k = xSemaphoreGive K (xJoinMutex K pxThread) k;
               k = vSemaphoreDelete K (xJoinMutex K pxThread) k
           in case vTaskDelete K (xTaskHandle ob) (pheap s, k) of
                (h, k) \<Rightarrow>
                  do {
                    h \<leftarrow> vPortFree pxThread h;
                    Some (xReturn ob, s\<lparr>pheap := h, pkern := k, pobjs := (pobjs s)(pxThread := None)\<rparr>)
                  }))"

text \<open>\<open>want\<close> says whether \<open>retval\<close> is not null; the second result is what is stored there.\<close>

definition pthread_join :: "'k pkernel \<Rightarrow> u32 \<Rightarrow> u32 \<Rightarrow> bool \<Rightarrow> 'k pt_state \<Rightarrow> (int \<times> u32 option \<times> 'k pt_state) option" where
  "pthread_join K self pxThread want s =
     do {
       (iStatus, s) \<leftarrow> join_begin K self pxThread s;
       if iStatus \<noteq> 0 then Some (iStatus, None, s)
       else
         do {
           (r, s) \<leftarrow> join_finish K pxThread
             (s\<lparr>pkern := snd (xSemaphoreTake K (xJoinBarrier K pxThread) portMAX_DELAY (pkern s))\<rparr>);
           Some (0, if want then Some r else None, s)
         }
     }"

definition pthread_setschedparam :: "'k pkernel \<Rightarrow> u32 \<Rightarrow> int option \<Rightarrow> 'k pt_state \<Rightarrow> (int \<times> 'k pt_state) option" where
  "pthread_setschedparam K thread param s =
     (case pobjs s thread of
        None \<Rightarrow> None
      | Some ob \<Rightarrow>
          (case pthread_attr_setschedparam (pt_attr ob) param of
             (iStatus, a) \<Rightarrow>
               let s = s\<lparr>pobjs := (pobjs s)(thread \<mapsto> ob\<lparr>pt_attr := a\<rparr>)\<rparr> in
               if iStatus = 0 then Some (iStatus, s\<lparr>pkern := vTaskPrioritySet K (xTaskHandle ob) (the param) (pkern s)\<rparr>)
               else Some (iStatus, s)))"

end
