(* ===== verification/Posix_Pthread_Props.thy ===== *)
theory Posix_Pthread_Props
  imports Posix_Pthread
begin

text \<open>
  Correctness of the POSIX threads.  The attribute word packs priority and detach state without
  interference; creating a thread is all or nothing; joining an exited thread delivers its result and
  releases everything it used; and however exits and joins interleave, at most one joiner gets past the
  join mutex and the thread object is released once.
\<close>

subsection \<open>Attributes\<close>

lemma detach_mask_bit: "bit pthreadDETACH_STATE_MASK n \<longleftrightarrow> n = 15"
proof -
  have "pthreadDETACH_STATE_MASK = 2 ^ 15" by (simp add: pthread_consts)
  then show ?thesis using bit_exp_iff [of 15 n, where 'a = u16] by auto
qed

lemma priority_mask_bit: "bit pthreadSCHED_PRIORITY_MASK n \<longleftrightarrow> n < 15"
proof -
  have "pthreadSCHED_PRIORITY_MASK = mask 15" by (simp add: pthread_consts mask_eq_exp_minus_1)
  then show ?thesis using bit_mask_iff [of 15 n, where 'a = u16] by auto
qed

lemmas u16_eqI = bit_eq_iff [where 'a = u16]
lemmas attr_bits = bit_simps detach_mask_bit priority_mask_bit

lemma joinable_bit: "pthreadIS_JOINABLE w \<longleftrightarrow> bit w 15"
proof
  assume "pthreadIS_JOINABLE w"
  then have "bit (w AND pthreadDETACH_STATE_MASK) 15" by (simp add: pthreadIS_JOINABLE_def detach_mask_bit)
  then show "bit w 15" by (simp add: bit_and_iff)
next
  assume "bit w 15"
  then show "pthreadIS_JOINABLE w" unfolding pthreadIS_JOINABLE_def by (auto simp: u16_eqI attr_bits)
qed

lemma priority_low: "pthreadGET_SCHED_PRIORITY w = uint (take_bit 15 w)"
proof -
  have "w AND pthreadSCHED_PRIORITY_MASK = take_bit 15 w" by (auto simp: u16_eqI attr_bits)
  then show ?thesis unfolding pthreadGET_SCHED_PRIORITY_def by simp
qed

lemma setdetach_word:
  fixes w :: u16
  assumes "d = 0 \<or> d = 1"
  defines "w' \<equiv> (w AND NOT pthreadDETACH_STATE_MASK) OR push_bit pthreadDETACH_STATE_SHIFT (of_int d :: u16)"
  shows "bit w' 15 \<longleftrightarrow> d = 1" "take_bit 15 w' = take_bit 15 w"
proof -
  show "bit w' 15 \<longleftrightarrow> d = 1" using assms(1) by (auto simp: w'_def pthreadDETACH_STATE_SHIFT_def attr_bits)
  show "take_bit 15 w' = take_bit 15 w"
    by (auto simp: w'_def pthreadDETACH_STATE_SHIFT_def u16_eqI attr_bits)
qed

lemma setsched_word:
  fixes w :: u16
  assumes "0 \<le> p" "p < 2 ^ 15"
  defines "w' \<equiv> (w AND NOT pthreadSCHED_PRIORITY_MASK) OR (of_int p :: u16)"
  shows "bit w' 15 = bit w 15" "uint (take_bit 15 w') = p"
proof -
  have u: "uint (of_int p :: u16) = p"
    using assms by (simp add: uint_word_of_int take_bit_int_eq_self)
  have t: "take_bit 15 (of_int p :: u16) = of_int p"
    by (rule word_uint_eqI) (use u assms in \<open>simp add: unsigned_take_bit_eq take_bit_int_eq_self\<close>)
  then have b: "\<not> bit (of_int p :: u16) 15" by (metis bit_take_bit_iff less_irrefl)
  have "take_bit 15 w' = take_bit 15 (of_int p)"
    unfolding w'_def by (auto simp: u16_eqI attr_bits)
  then show "uint (take_bit 15 w') = p" using t u by simp
  show "bit w' 15 = bit w 15" unfolding w'_def using b by (simp add: attr_bits)
qed

text \<open>
  The attribute word holds the detach state and the priority independently: what is set is read
  back, setting one keeps the other, and rejected values change nothing.
\<close>

theorem pthread_attr_roundtrip:
  "(d \<noteq> 0 \<and> d \<noteq> 1 \<longrightarrow> pthread_attr_setdetachstate a d = (EINVAL, a)) \<and>
   (d = 0 \<or> d = 1 \<longrightarrow> fst (pthread_attr_setdetachstate a d) = 0 \<and>
      pthread_attr_getdetachstate (snd (pthread_attr_setdetachstate a d)) = (0, d) \<and>
      pthread_attr_getschedparam (snd (pthread_attr_setdetachstate a d)) = pthread_attr_getschedparam a) \<and>
   (0 \<le> p \<and> p \<le> 55 \<longrightarrow> fst (pthread_attr_setschedparam a (Some p)) = 0 \<and>
      pthread_attr_getschedparam (snd (pthread_attr_setschedparam a (Some p))) = (0, p) \<and>
      pthread_attr_getdetachstate (snd (pthread_attr_setschedparam a (Some p))) = pthread_attr_getdetachstate a) \<and>
   (p < 0 \<or> 55 < p \<longrightarrow> pthread_attr_setschedparam a (Some p) = (ENOTSUP, a))"
proof (intro conjI impI)
  assume d: "d = 0 \<or> d = 1"
  note w = setdetach_word [OF d, of "usSchedPriorityDetachState a"]
  show "fst (pthread_attr_setdetachstate a d) = 0"
    and "pthread_attr_getdetachstate (snd (pthread_attr_setdetachstate a d)) = (0, d)"
    and "pthread_attr_getschedparam (snd (pthread_attr_setdetachstate a d)) = pthread_attr_getschedparam a"
    using w d by (auto simp: pthread_attr_setdetachstate_def pthread_attr_getdetachstate_def pthread_attr_getschedparam_def
        joinable_bit priority_low PTHREAD_CREATE_DETACHED_def PTHREAD_CREATE_JOINABLE_def)
next
  assume p: "0 \<le> p \<and> p \<le> 55"
  note w = setsched_word [of p "usSchedPriorityDetachState a"]
  show "fst (pthread_attr_setschedparam a (Some p)) = 0"
    and "pthread_attr_getschedparam (snd (pthread_attr_setschedparam a (Some p))) = (0, p)"
    and "pthread_attr_getdetachstate (snd (pthread_attr_setschedparam a (Some p))) = pthread_attr_getdetachstate a"
    using w p by (auto simp: pthread_attr_setschedparam_def sched_get_priority_max_def configMAX_PRIORITIES_def
        pthread_attr_getdetachstate_def pthread_attr_getschedparam_def joinable_bit priority_low)
qed (auto simp: pthread_attr_setschedparam_def sched_get_priority_max_def configMAX_PRIORITIES_def
    pthread_attr_setdetachstate_def PTHREAD_CREATE_DETACHED_def PTHREAD_CREATE_JOINABLE_def)

theorem pthread_attr_roundtrip_witness:
  "pthread_attr_getdetachstate (snd (pthread_attr_setdetachstate xDefaultThreadAttributes 0)) = (0, 0) \<and>
   pthread_attr_getschedparam (snd (pthread_attr_setschedparam xDefaultThreadAttributes (Some 7))) = (0, 7) \<and>
   pthread_attr_setschedparam xDefaultThreadAttributes (Some 56) = (ENOTSUP, xDefaultThreadAttributes)"
  using pthread_attr_roundtrip [of 0 xDefaultThreadAttributes 7] pthread_attr_roundtrip [of 2 xDefaultThreadAttributes 56] by simp

text \<open>
  A stack size of 65536 bytes or more is accepted but stored modulo 65536: the thread may be created
  with a stack below the minimum that the call checks.
\<close>

theorem pthread_attr_setstacksize_truncates:
  assumes "PTHREAD_STACK_MIN \<le> n"
  shows "fst (pthread_attr_setstacksize a n) = 0 \<and>
    uint (snd (pthread_attr_getstacksize (snd (pthread_attr_setstacksize a n)))) = uint n mod 65536"
  using assms
  by (auto simp: pthread_attr_setstacksize_def pthread_attr_getstacksize_def take_bit_eq_mod unsigned_ucast_eq)

theorem pthread_attr_setstacksize_truncates_witness:
  "fst (pthread_attr_setstacksize xDefaultThreadAttributes 65536) = 0 \<and>
   uint (snd (pthread_attr_getstacksize (snd (pthread_attr_setstacksize xDefaultThreadAttributes 65536)))) = 0"
  using pthread_attr_setstacksize_truncates [of 65536 xDefaultThreadAttributes] by (simp add: PTHREAD_STACK_MIN_def)

subsection \<open>The kernel's tasks and semaphores\<close>

record 'k pview =
  psem :: "'k \<Rightarrow> u32 \<Rightarrow> nat"
  ptag :: "'k \<Rightarrow> u32 \<Rightarrow> u32"
  ptasks :: "'k \<Rightarrow> u32 set"
  pblocks :: "'k \<Rightarrow> u32 \<Rightarrow> u32 set"

text \<open>Tokens of the semaphores change as given, tasks and tags stay.\<close>

definition sem_upd :: "'k pview \<Rightarrow> 'k \<Rightarrow> 'k \<Rightarrow> (u32 \<Rightarrow> nat) \<Rightarrow> bool" where
  "sem_upd V k k' f \<longleftrightarrow> psem V k' = f \<and> ptag V k' = ptag V k \<and> ptasks V k' = ptasks V k \<and> pblocks V k' = pblocks V k"

definition sem_laws :: "'k pkernel \<Rightarrow> 'k pview \<Rightarrow> bool" where
  "sem_laws K V \<longleftrightarrow>
     (\<forall>a k. sem_upd V k (xSemaphoreCreateMutexStatic K a k) ((psem V k)(a := 1))) \<and>
     (\<forall>a k. sem_upd V k (xSemaphoreCreateBinaryStatic K a k) ((psem V k)(a := 0))) \<and>
     (\<forall>a k. sem_upd V k (xSemaphoreGive K a k) ((psem V k)(a := 1))) \<and>
     (\<forall>a k. sem_upd V k (vSemaphoreDelete K a k) (psem V k)) \<and>
     (\<forall>a d k. psem V k a > 0 \<longrightarrow> (case xSemaphoreTake K a d k of (ok, k') \<Rightarrow> ok \<and> sem_upd V k k' ((psem V k)(a := psem V k a - 1)))) \<and>
     (\<forall>a k. psem V k a = 0 \<longrightarrow> (case xSemaphoreTake K a 0 k of (ok, k') \<Rightarrow> \<not> ok \<and> sem_upd V k k' (psem V k)))"

definition tag_laws :: "'k pkernel \<Rightarrow> 'k pview \<Rightarrow> bool" where
  "tag_laws K V \<longleftrightarrow>
     (\<forall>t k. sem_upd V k (vTaskSuspend K t k) (psem V k)) \<and>
     (\<forall>t p k. sem_upd V k (vTaskPrioritySet K t p k) (psem V k)) \<and>
     (\<forall>t k. xTaskGetApplicationTaskTag K t k = ptag V k t) \<and>
     (\<forall>t p k. ptag V (vTaskSetApplicationTaskTag K t p k) = (ptag V k)(t := p) \<and>
        psem V (vTaskSetApplicationTaskTag K t p k) = psem V k \<and> ptasks V (vTaskSetApplicationTaskTag K t p k) = ptasks V k \<and>
        pblocks V (vTaskSetApplicationTaskTag K t p k) = pblocks V k)"

text \<open>A task's stack and control block come from the heap and go back when another task deletes it.\<close>

definition task_laws :: "'k pkernel \<Rightarrow> 'k pview \<Rightarrow> bool" where
  "task_laws K V \<longleftrightarrow>
     (\<forall>d p q h k r h' k'. heap_ok h \<longrightarrow> (\<forall>t \<in> ptasks V k. pblocks V k t \<subseteq> heap_live h) \<longrightarrow>
        xTaskCreate K d p q (h, k) = (r, h', k') \<longrightarrow>
        heap_ok h' \<and> heap_keeps UNIV h h' \<and> psem V k' = psem V k \<and>
        (case r of
           None \<Rightarrow> heap_live h' = heap_live h \<and> ptag V k' = ptag V k \<and> ptasks V k' = ptasks V k \<and> pblocks V k' = pblocks V k
         | Some t \<Rightarrow> t \<notin> ptasks V k \<and> ptasks V k' = insert t (ptasks V k) \<and>
             (\<forall>u \<in> ptasks V k. ptag V k' u = ptag V k u \<and> pblocks V k' u = pblocks V k u) \<and>
             pblocks V k' t \<inter> heap_live h = {} \<and> heap_live h' = heap_live h \<union> pblocks V k' t)) \<and>
     (\<forall>t h k h' k'. heap_ok h \<longrightarrow> t \<in> ptasks V k \<longrightarrow> pblocks V k t \<subseteq> heap_live h \<longrightarrow> vTaskDelete K t (h, k) = (h', k') \<longrightarrow>
        heap_ok h' \<and> heap_keeps (- pblocks V k t) h h' \<and> heap_live h' = heap_live h - pblocks V k t \<and> psem V k' = psem V k \<and>
        ptasks V k' = ptasks V k - {t} \<and> (\<forall>u \<in> ptasks V k - {t}. ptag V k' u = ptag V k u \<and> pblocks V k' u = pblocks V k u))"

definition pkernel_ok :: "'k pkernel \<Rightarrow> 'k pview \<Rightarrow> bool" where
  "pkernel_ok K V \<longleftrightarrow> sem_laws K V \<and> tag_laws K V \<and> task_laws K V \<and> sizeof_StaticSemaphore K \<noteq> 0 \<and>
     unat (sizeof_StaticSemaphore K) < 1000"

subsection \<open>A kernel that satisfies the laws\<close>

record lkern =
  lsem :: "u32 \<Rightarrow> nat"
  ltag :: "u32 \<Rightarrow> u32"
  ltasks :: "u32 set"

definition lt_create :: "u16 \<Rightarrow> u32 \<Rightarrow> int \<Rightarrow> heap4 \<times> lkern \<Rightarrow> u32 option \<times> heap4 \<times> lkern" where
  "lt_create d p q = (\<lambda>(h, k).
     case pvPortMalloc (100 + 4 * ucast d) h of
       None \<Rightarrow> (None, h, k)
     | Some (t, h') \<Rightarrow> if t = 0 then (None, h', k) else (Some t, h', k\<lparr>ltasks := insert t (ltasks k)\<rparr>))"

definition lt_delete :: "u32 \<Rightarrow> heap4 \<times> lkern \<Rightarrow> heap4 \<times> lkern" where
  "lt_delete t = (\<lambda>(h, k). case vPortFree t h of None \<Rightarrow> (h, k) | Some h' \<Rightarrow> (h', k\<lparr>ltasks := ltasks k - {t}\<rparr>))"

definition lt_kernel :: "lkern pkernel" where
  "lt_kernel = \<lparr>sizeof_StaticSemaphore = 80, xTaskCreate = lt_create, vTaskDelete = lt_delete,
     vTaskSuspend = (\<lambda>t k. k), vTaskPrioritySet = (\<lambda>t p k. k),
     vTaskSetApplicationTaskTag = (\<lambda>t p k. k\<lparr>ltag := (ltag k)(t := p)\<rparr>), xTaskGetApplicationTaskTag = (\<lambda>t k. ltag k t),
     xSemaphoreCreateMutexStatic = (\<lambda>a k. k\<lparr>lsem := (lsem k)(a := 1)\<rparr>),
     xSemaphoreCreateBinaryStatic = (\<lambda>a k. k\<lparr>lsem := (lsem k)(a := 0)\<rparr>),
     xSemaphoreTake = (\<lambda>a d k. if lsem k a > 0 then (True, k\<lparr>lsem := (lsem k)(a := lsem k a - 1)\<rparr>) else (False, k)),
     xSemaphoreGive = (\<lambda>a k. k\<lparr>lsem := (lsem k)(a := 1)\<rparr>), vSemaphoreDelete = (\<lambda>a k. k)\<rparr>"

definition lt_view :: "lkern pview" where
  "lt_view = \<lparr>psem = lsem, ptag = ltag, ptasks = ltasks, pblocks = (\<lambda>k t. {t})\<rparr>"

lemma lt_task_laws: "task_laws lt_kernel lt_view"
  unfolding task_laws_def
proof (intro conjI allI impI)
  fix d p q h k r h' k'
  assume ok: "heap_ok h" and sub: "\<forall>t \<in> ptasks lt_view k. pblocks lt_view k t \<subseteq> heap_live h"
    and c: "xTaskCreate lt_kernel d p q (h, k) = (r, h', k')"
  obtain t h1 where m: "pvPortMalloc (100 + 4 * ucast d) h = Some (t, h1)" "heap_ok h1"
    "t = 0 \<and> heap_live h1 = heap_live h \<or> t \<noteq> 0 \<and> t \<notin> heap_live h \<and> heap_live h1 = insert t (heap_live h)"
    using h4.malloc_returns [OF ok, of "100 + 4 * ucast d"] by blast
  have e: "r = (if t = 0 then None else Some t)" "h' = h1" "k' = (if t = 0 then k else k\<lparr>ltasks := insert t (ltasks k)\<rparr>)"
    using c m(1) by (auto simp: lt_kernel_def lt_create_def split: if_splits)
  have keep: "heap_keeps UNIV h h1" using keeps_malloc [OF ok m(1)] .
  show "heap_ok h'" "heap_keeps UNIV h h'" "psem lt_view k' = psem lt_view k"
    using m(2) keep by (simp_all add: e lt_view_def)
  show "case r of
      None \<Rightarrow> heap_live h' = heap_live h \<and> ptag lt_view k' = ptag lt_view k \<and> ptasks lt_view k' = ptasks lt_view k \<and>
        pblocks lt_view k' = pblocks lt_view k
    | Some t \<Rightarrow> t \<notin> ptasks lt_view k \<and> ptasks lt_view k' = insert t (ptasks lt_view k) \<and>
        (\<forall>u \<in> ptasks lt_view k. ptag lt_view k' u = ptag lt_view k u \<and> pblocks lt_view k' u = pblocks lt_view k u) \<and>
        pblocks lt_view k' t \<inter> heap_live h = {} \<and> heap_live h' = heap_live h \<union> pblocks lt_view k' t"
    using m(3) sub by (auto simp: e lt_view_def)
next
  fix t h k h' k'
  assume ok: "heap_ok h" and t: "t \<in> ptasks lt_view k" "pblocks lt_view k t \<subseteq> heap_live h"
    and c: "vTaskDelete lt_kernel t (h, k) = (h', k')"
  have l: "t \<in> heap_live h" using t(2) by (simp add: lt_view_def)
  obtain h1 where f: "vPortFree t h = Some h1" "heap_ok h1" "heap_live h1 = heap_live h - {t}"
    using h4.free_live [OF ok l] by blast
  have e: "h' = h1" "k' = k\<lparr>ltasks := ltasks k - {t}\<rparr>" using c f(1) by (auto simp: lt_kernel_def lt_delete_def)
  show "heap_ok h'" "heap_keeps (- pblocks lt_view k t) h h'" "heap_live h' = heap_live h - pblocks lt_view k t"
    "psem lt_view k' = psem lt_view k" "ptasks lt_view k' = ptasks lt_view k - {t}"
    "\<forall>u \<in> ptasks lt_view k - {t}. ptag lt_view k' u = ptag lt_view k u \<and> pblocks lt_view k' u = pblocks lt_view k u"
    using f keeps_free [OF ok l f(1), of "- {t}"] by (simp_all add: e lt_view_def)
qed

lemma lt_kernel_ok: "pkernel_ok lt_kernel lt_view"
  using lt_task_laws
  by (auto simp: pkernel_ok_def sem_laws_def tag_laws_def sem_upd_def lt_kernel_def lt_view_def)

subsection \<open>Creating a thread\<close>

definition pt_ok :: "'k pview \<Rightarrow> 'k pt_state \<Rightarrow> bool" where
  "pt_ok V s \<longleftrightarrow> heap_ok (pheap s) \<and> (\<forall>t \<in> ptasks V (pkern s). pblocks V (pkern s) t \<subseteq> heap_live (pheap s))"

lemma join_addr [simp]: "sizeof_StaticSemaphore K \<noteq> 0 \<Longrightarrow> xJoinBarrier K p \<noteq> xJoinMutex K p"
  by (simp add: xJoinBarrier_def xJoinMutex_def)

lemma pkernel_sem:
  assumes "pkernel_ok K V"
  shows "sem_upd V k (xSemaphoreCreateMutexStatic K a k) ((psem V k)(a := 1))"
    "sem_upd V k (xSemaphoreCreateBinaryStatic K a k) ((psem V k)(a := 0))"
    "sem_upd V k (xSemaphoreGive K a k) ((psem V k)(a := 1))"
    "sem_upd V k (vSemaphoreDelete K a k) (psem V k)"
    "sem_upd V k (vTaskSuspend K t k) (psem V k)"
    "xTaskGetApplicationTaskTag K t k = ptag V k t"
  using assms by (simp_all add: pkernel_ok_def sem_laws_def tag_laws_def)

lemma pkernel_take:
  assumes "pkernel_ok K V"
  shows "psem V k a > 0 \<Longrightarrow> fst (xSemaphoreTake K a d k) \<and> sem_upd V k (snd (xSemaphoreTake K a d k)) ((psem V k)(a := psem V k a - 1))"
    "psem V k a = 0 \<Longrightarrow> \<not> fst (xSemaphoreTake K a 0 k) \<and> sem_upd V k (snd (xSemaphoreTake K a 0 k)) (psem V k)"
  using assms unfolding pkernel_ok_def sem_laws_def case_prod_unfold by blast+

text \<open>
  \<open>pthread_create\<close> is all or nothing.  It fails with \<open>EAGAIN\<close>, and then the blocks in use and the
  thread objects are as before; or it returns a fresh block that holds the thread's attributes, start
  routine and argument, whose task's tag points to it, with the join mutex free and the barrier closed.
\<close>

theorem pthread_create_all_or_nothing:
  assumes kp: "pkernel_ok K V" and ok: "pt_ok V s"
  shows "\<exists>st r s'. pthread_create K uninit attr f x s = Some (st, r, s') \<and> pt_ok V s' \<and>
    (case r of
       None \<Rightarrow> st = EAGAIN \<and> heap_live (pheap s') = heap_live (pheap s) \<and> pobjs s' = pobjs s
     | Some p \<Rightarrow> st = 0 \<and> p \<notin> heap_live (pheap s) \<and>
         (\<exists>ob. pobjs s' = (pobjs s)(p \<mapsto> ob) \<and> pvStartRoutine ob = f \<and> xTaskArg ob = x \<and>
            pt_attr ob = (case attr of None \<Rightarrow> xDefaultThreadAttributes | Some a \<Rightarrow> a) \<and>
            ptag V (pkern s') (xTaskHandle ob) = p \<and>
            heap_live (pheap s') = insert p (heap_live (pheap s)) \<union> pblocks V (pkern s') (xTaskHandle ob) \<and>
            (joinable ob \<longrightarrow> psem V (pkern s') (xJoinMutex K p) = 1 \<and> psem V (pkern s') (xJoinBarrier K p) = 0)))"
proof -
  let ?h = "pheap s" and ?k = "pkern s"
  have h: "heap_ok ?h" "\<forall>t \<in> ptasks V ?k. pblocks V ?k t \<subseteq> heap_live ?h" using ok by (auto simp: pt_ok_def)
  have sz: "sizeof_StaticSemaphore K \<noteq> 0" and tl: "task_laws K V" using kp by (auto simp: pkernel_ok_def)
  obtain p h1 where m: "pvPortMalloc (sizeof_pthread_internal K) ?h = Some (p, h1)" "heap_ok h1"
    "p = 0 \<and> heap_live h1 = heap_live ?h \<or> p \<noteq> 0 \<and> p \<notin> heap_live ?h \<and> heap_live h1 = insert p (heap_live ?h)"
    using h4.malloc_returns [OF h(1), of "sizeof_pthread_internal K"] by blast
  show ?thesis
  proof (cases "p = 0")
    case True
    then have "pthread_create K uninit attr f x s = Some (EAGAIN, None, s\<lparr>pheap := h1\<rparr>)"
      using m(1) by (simp add: pthread_create_def)
    then show ?thesis using m(2,3) True h by (auto simp: pt_ok_def)
  next
    case False
    define ob where "ob = uninit\<lparr>pt_attr := (case attr of None \<Rightarrow> xDefaultThreadAttributes | Some a \<Rightarrow> a),
                         xTaskArg := x, pvStartRoutine := f\<rparr>"
    define k1 where "k1 = (if joinable ob
                   then xSemaphoreCreateBinaryStatic K (xJoinBarrier K p)
                          (xSemaphoreCreateMutexStatic K (xJoinMutex K p) ?k) else ?k)"
    have k1: "ptag V k1 = ptag V ?k" "ptasks V k1 = ptasks V ?k" "pblocks V k1 = pblocks V ?k"
      "joinable ob \<longrightarrow> psem V k1 (xJoinMutex K p) = 1 \<and> psem V k1 (xJoinBarrier K p) = 0"
      using pkernel_sem(1) [OF kp, of ?k "xJoinMutex K p"]
        pkernel_sem(2) [OF kp, of "xSemaphoreCreateMutexStatic K (xJoinMutex K p) ?k" "xJoinBarrier K p"] join_addr [OF sz, of p]
      by (auto simp: k1_def sem_upd_def)
    have l1: "heap_live h1 = insert p (heap_live ?h)" "p \<notin> heap_live ?h" using m(3) False by auto
    obtain r h2 k2 where c: "xTaskCreate K (usStackSize (pt_attr ob) div 4) p
        (pthreadGET_SCHED_PRIORITY (usSchedPriorityDetachState (pt_attr ob))) (h1, k1) = (r, h2, k2)" by (metis prod_cases3)
    have sub: "\<forall>t \<in> ptasks V k1. pblocks V k1 t \<subseteq> heap_live h1" using h(2) k1 l1 by auto
    note tc = tl [unfolded task_laws_def, THEN conjunct1, rule_format, OF m(2) sub [rule_format] c]
    show ?thesis
    proof (cases r)
      case None
      have l2: "heap_ok h2" "heap_live h2 = heap_live h1" using tc None by auto
      obtain h3 where h3: "vPortFree p h2 = Some h3" "heap_ok h3" "heap_live h3 = heap_live h2 - {p}"
        using h4.free_live [OF l2(1), of p] l2(2) l1 by auto
      have "pthread_create K uninit attr f x s = Some (EAGAIN, None, s\<lparr>pheap := h3, pkern := k2\<rparr>)"
        using m(1) False c None h3(1) by (simp add: pthread_create_def ob_def [symmetric] k1_def [symmetric] Let_def)
      then show ?thesis using tc None h3 l2 l1 h(2) k1 by (auto simp: pt_ok_def)
    next
      case (Some t)
      let ?s = "s\<lparr>pheap := h2, pkern := vTaskSetApplicationTaskTag K t p k2, pobjs := (pobjs s)(p \<mapsto> ob\<lparr>xTaskHandle := t\<rparr>)\<rparr>"
      have run: "pthread_create K uninit attr f x s = Some (0, Some p, ?s)"
        using m(1) False c Some by (simp add: pthread_create_def ob_def [symmetric] k1_def [symmetric] Let_def)
      have tag: "ptag V (pkern ?s) t = p" "psem V (pkern ?s) = psem V k2" "ptasks V (pkern ?s) = ptasks V k2"
        "pblocks V (pkern ?s) = pblocks V k2"
        using kp by (simp_all add: pkernel_ok_def tag_laws_def)
      have e: "heap_ok h2" "psem V k2 = psem V k1" "heap_live h2 = heap_live h1 \<union> pblocks V k2 t"
        "ptasks V k2 = insert t (ptasks V k1)" "\<forall>u \<in> ptasks V k1. pblocks V k2 u = pblocks V k1 u"
        using tc Some by auto
      have "pt_ok V ?s" using e(1,3-5) sub tag(3,4) by (auto simp: pt_ok_def)
      moreover have "joinable (ob\<lparr>xTaskHandle := t\<rparr>) = joinable ob" by (simp add: joinable_def)
      ultimately show ?thesis using run e(2,3) l1 tag k1(4)
        by (intro exI [of _ 0] exI [of _ "Some p"] exI [of _ ?s]) (auto simp: ob_def)
    qed
  qed
qed

definition ex_pt0 :: "lkern pt_state" where
  "ex_pt0 = \<lparr>pheap = ex_heap, pkern = \<lparr>lsem = (\<lambda>_. 0), ltag = (\<lambda>_. 0), ltasks = {}\<rparr>, pobjs = Map.empty\<rparr>"

definition ex_uninit :: pthread_obj where
  "ex_uninit = \<lparr>pt_attr = xDefaultThreadAttributes, pvStartRoutine = 0, xTaskArg = 0, xTaskHandle = 0, xReturn = 0\<rparr>"

lemma ex_pt0_ok: "pt_ok lt_view ex_pt0"
  using ex_heap_inv by (auto simp: pt_ok_def ex_pt0_def lt_view_def heap_ok_def)

theorem pthread_create_all_or_nothing_witness:
  "pkernel_ok lt_kernel lt_view \<and> pt_ok lt_view ex_pt0 \<and>
   (\<exists>st r s'. pthread_create lt_kernel ex_uninit None 0x8000100 7 ex_pt0 = Some (st, r, s') \<and> pt_ok lt_view s' \<and>
      (r = None \<longrightarrow> st = EAGAIN))"
  using pthread_create_all_or_nothing [OF lt_kernel_ok ex_pt0_ok, of ex_uninit None "0x8000100" 7] lt_kernel_ok ex_pt0_ok
  by (auto split: option.splits)

subsection \<open>Exit and join\<close>

lemma exit_effect:
  assumes kp: "pkernel_ok K V" and p: "ptag V (pkern s) self = p" "pobjs s p = Some ob" "joinable ob"
  shows "\<exists>s'. pthread_exit K self v s = Some s' \<and> pobjs s' = (pobjs s)(p \<mapsto> ob\<lparr>xReturn := v\<rparr>) \<and> pheap s' = pheap s \<and>
    sem_upd V (pkern s) (pkern s') ((psem V (pkern s))(xJoinBarrier K p := 1))"
proof -
  let ?k = "xSemaphoreGive K (xJoinBarrier K p) (pkern s)"
  have self: "pthread_self K self s' = p" if "pkern s' = pkern s" for s'
    using pkernel_sem(6) [OF kp, of self "pkern s"] p(1) that by (simp add: pthread_self_def)
  have "joinable (ob\<lparr>xReturn := v\<rparr>)" using p(3) by (simp add: joinable_def)
  then show ?thesis
    using p(2) self pkernel_sem(3) [OF kp, of "pkern s" "xJoinBarrier K p"] pkernel_sem(5) [OF kp, of ?k self]
    by (simp add: pthread_exit_def prvExitThread_def Let_def sem_upd_def)
qed

lemma join_finish_effect:
  assumes kp: "pkernel_ok K V" and ok: "pt_ok V s" and p: "pobjs s p = Some ob" "p \<in> heap_live (pheap s)"
    and t: "xTaskHandle ob \<in> ptasks V (pkern s)" "p \<notin> pblocks V (pkern s) (xTaskHandle ob)"
  shows "\<exists>s'. join_finish K p s = Some (xReturn ob, s') \<and> pobjs s' = (pobjs s)(p := None) \<and> heap_ok (pheap s') \<and>
    heap_live (pheap s') = heap_live (pheap s) - pblocks V (pkern s) (xTaskHandle ob) - {p} \<and>
    ptasks V (pkern s') = ptasks V (pkern s) - {xTaskHandle ob}"
proof -
  define k where "k = vSemaphoreDelete K (xJoinMutex K p) (xSemaphoreGive K (xJoinMutex K p)
    (vSemaphoreDelete K (xJoinBarrier K p) (xSemaphoreGive K (xJoinBarrier K p) (pkern s))))"
  have k: "ptasks V k = ptasks V (pkern s)" "pblocks V k = pblocks V (pkern s)"
    unfolding k_def using pkernel_sem(3,4) [OF kp] by (simp_all add: sem_upd_def)
  obtain h1 k1 where d: "vTaskDelete K (xTaskHandle ob) (pheap s, k) = (h1, k1)" by fastforce
  have hk: "heap_ok (pheap s)" "pblocks V k (xTaskHandle ob) \<subseteq> heap_live (pheap s)" "xTaskHandle ob \<in> ptasks V k"
    using ok t(1) k by (auto simp: pt_ok_def)
  have tl: "task_laws K V" using kp by (simp add: pkernel_ok_def)
  note td = tl [unfolded task_laws_def, THEN conjunct2, rule_format, OF hk(1,3,2) d]
  have l: "p \<in> heap_live h1" using td p(2) t(2) k by auto
  obtain h2 where h2: "vPortFree p h1 = Some h2" "heap_ok h2" "heap_live h2 = heap_live h1 - {p}"
    using h4.free_live [OF _ l] td by auto
  have "join_finish K p s = Some (xReturn ob, s\<lparr>pheap := h2, pkern := k1, pobjs := (pobjs s)(p := None)\<rparr>)"
    using p(1) d h2(1) by (simp add: join_finish_def Let_def k_def)
  then show ?thesis using td h2 k by simp
qed

text \<open>
  Joining a thread that has exited, when nobody else joins it: \<open>pthread_join\<close> succeeds, delivers the
  value the thread exited with, and releases the thread object, the task's stack and its control
  block, exactly.
\<close>

theorem pthread_join_exited:
  assumes kp: "pkernel_ok K V" and ok: "pt_ok V s" and p: "pobjs s p = Some ob" "joinable ob" "p \<in> heap_live (pheap s)"
    and t: "xTaskHandle ob \<in> ptasks V (pkern s)" "p \<notin> pblocks V (pkern s) (xTaskHandle ob)"
    and exited: "psem V (pkern s) (xJoinBarrier K p) > 0" and free: "psem V (pkern s) (xJoinMutex K p) > 0"
    and self: "ptag V (pkern s) self \<noteq> p"
  shows "\<exists>s'. pthread_join K self p True s = Some (0, Some (xReturn ob), s') \<and> pobjs s' = (pobjs s)(p := None) \<and>
    heap_live (pheap s') = heap_live (pheap s) - pblocks V (pkern s) (xTaskHandle ob) - {p} \<and> heap_ok (pheap s')"
proof -
  have sz: "sizeof_StaticSemaphore K \<noteq> 0" using kp by (simp add: pkernel_ok_def)
  define k1 where "k1 = snd (xSemaphoreTake K (xJoinMutex K p) 0 (pkern s))"
  note tk = pkernel_take(1) [OF kp free, of 0, folded k1_def]
  have b: "join_begin K self p s = Some (0, s\<lparr>pkern := k1\<rparr>)"
    using p(1,2) tk self pkernel_sem(6) [OF kp, of self k1]
    by (simp add: join_begin_def k1_def case_prod_unfold pthread_equal_def pthread_self_def sem_upd_def)
  define k2 where "k2 = snd (xSemaphoreTake K (xJoinBarrier K p) portMAX_DELAY k1)"
  have "psem V k1 (xJoinBarrier K p) > 0" using tk exited join_addr [OF sz, of p] by (simp add: sem_upd_def)
  from pkernel_take(1) [OF kp this, of portMAX_DELAY, folded k2_def]
  have k2: "ptasks V k2 = ptasks V (pkern s)" "pblocks V k2 = pblocks V (pkern s)" using tk by (auto simp: sem_upd_def)
  let ?s = "s\<lparr>pkern := k2\<rparr>"
  have "pt_ok V ?s" "pobjs ?s p = Some ob" using ok k2 p(1) by (auto simp: pt_ok_def)
  from join_finish_effect [OF kp this] p(3) t k2
  obtain s' where s': "join_finish K p ?s = Some (xReturn ob, s')" "pobjs s' = (pobjs s)(p := None)" "heap_ok (pheap s')"
    "heap_live (pheap s') = heap_live (pheap s) - pblocks V (pkern s) (xTaskHandle ob) - {p}" by auto
  then show ?thesis using b by (simp add: pthread_join_def k2_def)
qed

text \<open>An exited thread with its task, and a state in which it runs.\<close>

definition ex_thread :: pthread_obj where
  "ex_thread = \<lparr>pt_attr = xDefaultThreadAttributes, pvStartRoutine = 0x8000100, xTaskArg = 7, xTaskHandle = 0x20000078, xReturn = 42\<rparr>"

definition ex_pt1 :: "lkern pt_state" where
  "ex_pt1 = \<lparr>pheap = ex_heap2, pkern = \<lparr>lsem = (\<lambda>_. 1), ltag = (\<lambda>t. if t = 0x20000078 then 0x20000008 else 0), ltasks = {0x20000078}\<rparr>,
     pobjs = [0x20000008 \<mapsto> ex_thread]\<rparr>"

lemma ex_pt1_facts:
  "pt_ok lt_view ex_pt1" "pobjs ex_pt1 0x20000008 = Some ex_thread" "joinable ex_thread" "0x20000008 \<in> heap_live (pheap ex_pt1)"
  "xTaskHandle ex_thread \<in> ptasks lt_view (pkern ex_pt1)" "0x20000008 \<notin> pblocks lt_view (pkern ex_pt1) (xTaskHandle ex_thread)"
  "psem lt_view (pkern ex_pt1) a = 1" "ptag lt_view (pkern ex_pt1) 0x20000078 = 0x20000008" "ptag lt_view (pkern ex_pt1) 5 = 0"
  "xReturn ex_thread = 42"
  using ex_heap2_facts
  by (auto simp: pt_ok_def ex_pt1_def ex_thread_def lt_view_def joinable_def pthreadIS_JOINABLE_def xDefaultThreadAttributes_def pthread_consts)

theorem pthread_join_exited_witness:
  "\<exists>s'. pthread_join lt_kernel 5 0x20000008 True ex_pt1 = Some (0, Some 42, s') \<and> pobjs s' = Map.empty \<and> heap_live (pheap s') = {}"
  using pthread_join_exited [OF lt_kernel_ok ex_pt1_facts(1-6), of 5] ex_heap2_facts
  by (auto simp: ex_pt1_facts(7,9,10)) (auto simp: ex_pt1_def lt_view_def ex_thread_def)

text \<open>
  A thread that joins itself gets \<open>EDEADLK\<close>, but the call has taken the join mutex and does not give
  it back: from then on every \<open>pthread_join\<close> of that thread fails with \<open>EDEADLK\<close> too, and its object is
  never released.
\<close>

theorem pthread_join_self_locks:
  assumes kp: "pkernel_ok K V" and p: "pobjs s p = Some ob" "joinable ob" "ptag V (pkern s) self = p"
    "psem V (pkern s) (xJoinMutex K p) = 1"
  shows "\<exists>s1. pthread_join K self p want s = Some (EDEADLK, None, s1) \<and> pobjs s1 = pobjs s \<and>
    psem V (pkern s1) (xJoinMutex K p) = 0 \<and>
    (\<forall>other. \<exists>s2. pthread_join K other p want s1 = Some (EDEADLK, None, s2) \<and> pobjs s2 = pobjs s)"
proof -
  define k1 where "k1 = snd (xSemaphoreTake K (xJoinMutex K p) 0 (pkern s))"
  have "psem V (pkern s) (xJoinMutex K p) > 0" using p(4) by simp
  note tk = pkernel_take(1) [OF kp this, of 0, folded k1_def]
  have ne: "EDEADLK \<noteq> 0" by (simp add: EDEADLK_def)
  have run1: "pthread_join K self p want s = Some (EDEADLK, None, s\<lparr>pkern := k1\<rparr>)"
    using p(1-3) tk ne pkernel_sem(6) [OF kp, of self k1]
    by (simp add: pthread_join_def join_begin_def k1_def case_prod_unfold pthread_equal_def pthread_self_def sem_upd_def)
  have z: "psem V k1 (xJoinMutex K p) = 0" using tk p(4) by (simp add: sem_upd_def)
  have "pthread_join K other p want (s\<lparr>pkern := k1\<rparr>) =
      Some (EDEADLK, None, s\<lparr>pkern := snd (xSemaphoreTake K (xJoinMutex K p) 0 k1)\<rparr>)" for other
    using p(1,2) ne pkernel_take(2) [OF kp z] by (simp add: pthread_join_def join_begin_def case_prod_unfold)
  then show ?thesis using run1 z by auto
qed

theorem pthread_join_self_locks_witness:
  "\<exists>s1. pthread_join lt_kernel 0x20000078 0x20000008 True ex_pt1 = Some (EDEADLK, None, s1) \<and>
     (\<exists>s2. pthread_join lt_kernel 5 0x20000008 True s1 = Some (EDEADLK, None, s2))"
  using pthread_join_self_locks [OF lt_kernel_ok ex_pt1_facts(2,3,8,7), of True] by blast

subsection \<open>Interleavings of exit and join\<close>

text \<open>
  The thread object \<open>p\<close>, its exit and any number of tasks joining it, in any order; \<open>W\<close> lists the tasks
  that are past the checks of \<open>pthread_join\<close> and wait for the barrier.
\<close>

inductive jreach :: "'k pkernel \<Rightarrow> 'k pview \<Rightarrow> u32 \<Rightarrow> 'k pt_state \<Rightarrow> 'k pt_state \<Rightarrow> u32 list \<Rightarrow> bool" for K V p s0 where
  start: "jreach K V p s0 s0 []"
| begins: "jreach K V p s0 s W \<Longrightarrow> join_begin K t p s = Some (st, s') \<Longrightarrow> jreach K V p s0 s' (if st = 0 then t # W else W)"
| exits: "jreach K V p s0 s W \<Longrightarrow> ptag V (pkern s) self = p \<Longrightarrow> pthread_exit K self v s = Some s' \<Longrightarrow> jreach K V p s0 s' W"
| finishes: "jreach K V p s0 s W \<Longrightarrow> t \<in> set W \<Longrightarrow> psem V (pkern s) (xJoinBarrier K p) > 0 \<Longrightarrow>
    join_finish K p (s\<lparr>pkern := snd (xSemaphoreTake K (xJoinBarrier K p) portMAX_DELAY (pkern s))\<rparr>) = Some (r, s') \<Longrightarrow>
    jreach K V p s0 s' (remove1 t W)"

definition thread_live :: "'k pkernel \<Rightarrow> 'k pview \<Rightarrow> u32 \<Rightarrow> 'k pt_state \<Rightarrow> bool" where
  "thread_live K V p s \<longleftrightarrow> pt_ok V s \<and> p \<in> heap_live (pheap s) \<and>
     (\<exists>ob. pobjs s p = Some ob \<and> joinable ob \<and> xTaskHandle ob \<in> ptasks V (pkern s) \<and> p \<notin> pblocks V (pkern s) (xTaskHandle ob))"

definition jinv :: "'k pkernel \<Rightarrow> 'k pview \<Rightarrow> u32 \<Rightarrow> 'k pt_state \<Rightarrow> u32 list \<Rightarrow> bool" where
  "jinv K V p s W \<longleftrightarrow>
     (if pobjs s p = None then W = [] else thread_live K V p s \<and> psem V (pkern s) (xJoinMutex K p) + length W \<le> 1)"

lemma thread_live_sem:
  "thread_live K V p s \<Longrightarrow> sem_upd V (pkern s) k f \<Longrightarrow> thread_live K V p (s\<lparr>pkern := k\<rparr>)"
  by (auto simp: thread_live_def pt_ok_def sem_upd_def)

lemma jinv_begin:
  assumes kp: "pkernel_ok K V" and inv: "jinv K V p s W" and b: "join_begin K t p s = Some (st, s')"
  shows "jinv K V p s' (if st = 0 then t # W else W)"
proof -
  obtain ob where o: "pobjs s p = Some ob" using b by (auto simp: join_begin_def split: option.splits)
  have i: "thread_live K V p s" "psem V (pkern s) (xJoinMutex K p) + length W \<le> 1" using inv o by (auto simp: jinv_def)
  have j: "joinable ob" using i(1) o by (simp add: thread_live_def)
  define r where "r = xSemaphoreTake K (xJoinMutex K p) 0 (pkern s)"
  show ?thesis
  proof (cases "psem V (pkern s) (xJoinMutex K p) = 0")
    case True
    note tk = pkernel_take(2) [OF kp True, folded r_def]
    have "st = EDEADLK" "s' = s\<lparr>pkern := snd r\<rparr>" using b o j tk by (simp_all add: join_begin_def r_def case_prod_unfold)
    then show ?thesis using thread_live_sem [OF i(1)] tk i(2) o by (simp add: jinv_def EDEADLK_def sem_upd_def)
  next
    case False
    then have tk: "fst r" "sem_upd V (pkern s) (snd r) ((psem V (pkern s))(xJoinMutex K p := psem V (pkern s) (xJoinMutex K p) - 1))"
      using pkernel_take(1) [OF kp, of "pkern s" "xJoinMutex K p" 0, folded r_def] by auto
    have s': "s' = s\<lparr>pkern := snd r\<rparr>"
      using b o j tk(1) by (auto simp: join_begin_def r_def case_prod_unfold split: if_splits)
    have "length W = 0" "psem V (pkern s) (xJoinMutex K p) = 1" using i(2) False by linarith+
    then have z: "psem V (snd r) (xJoinMutex K p) = 0" "W = []" using tk(2) by (auto simp: sem_upd_def)
    show ?thesis using thread_live_sem [OF i(1) tk(2)] o z by (simp add: jinv_def s')
  qed
qed

lemma jreach_inv:
  assumes "jreach K V p s0 s W" "pkernel_ok K V" "jinv K V p s0 []"
  shows "jinv K V p s W"
  using assms(1)
proof induction
  case start
  show ?case by fact
next
  case (begins s W t st s')
  then show ?case using jinv_begin [OF assms(2)] by blast
next
  case (exits s W self v s')
  obtain ob where o: "pobjs s p = Some ob"
    using exits.hyps(3) pkernel_sem(6) [OF assms(2), of self "pkern s"] exits.hyps(2)
    by (auto simp: pthread_exit_def pthread_self_def Let_def split: option.splits)
  have i: "thread_live K V p s" "psem V (pkern s) (xJoinMutex K p) + length W \<le> 1" using exits.IH o by (auto simp: jinv_def)
  have j: "joinable ob" using i(1) o by (simp add: thread_live_def)
  have e: "pobjs s' = (pobjs s)(p \<mapsto> ob\<lparr>xReturn := v\<rparr>)" "pheap s' = pheap s"
    "sem_upd V (pkern s) (pkern s') ((psem V (pkern s))(xJoinBarrier K p := 1))"
    using exit_effect [OF assms(2) exits.hyps(2) o j, of v] exits.hyps(3) by auto
  have "sizeof_StaticSemaphore K \<noteq> 0" using assms(2) by (simp add: pkernel_ok_def)
  then have "xJoinMutex K p \<noteq> xJoinBarrier K p" by (metis join_addr)
  then have "psem V (pkern s') (xJoinMutex K p) = psem V (pkern s) (xJoinMutex K p)"
    using e(3) by (simp add: sem_upd_def)
  moreover have "thread_live K V p s'" using i(1) o j e by (auto simp: thread_live_def pt_ok_def sem_upd_def joinable_def)
  ultimately show ?case using i(2) e(1) by (simp add: jinv_def)
next
  case (finishes s W t r s')
  let ?s = "s\<lparr>pkern := snd (xSemaphoreTake K (xJoinBarrier K p) portMAX_DELAY (pkern s))\<rparr>"
  have i: "thread_live K V p s" "length W \<le> 1" using finishes.IH finishes.hyps(2) by (auto simp: jinv_def split: if_splits)
  have "thread_live K V p ?s"
    using thread_live_sem [OF i(1)] pkernel_take(1) [OF assms(2) finishes.hyps(3)] by blast
  then obtain ob where "pt_ok V ?s" "p \<in> heap_live (pheap ?s)" "pobjs ?s p = Some ob" "xTaskHandle ob \<in> ptasks V (pkern ?s)"
    "p \<notin> pblocks V (pkern ?s) (xTaskHandle ob)" by (auto simp: thread_live_def)
  from join_finish_effect [OF assms(2) this(1,3,2,4,5)] have "pobjs s' p = None" using finishes.hyps(4) by auto
  moreover have "remove1 t W = []" using i(2) finishes.hyps(2) by (cases W) auto
  ultimately show ?case by (simp add: jinv_def)
qed



end
