(* ===== verification/Posix_Timer.thy ===== *)
theory Posix_Timer
  imports Posix_Pthread_Props
begin

text \<open>
  POSIX timers, \<open>FreeRTOS_POSIX_timer.c\<close>.  A timer is a heap block (\<open>timer_internal_t\<close>) that holds the
  kernel's static timer, the notification to make and the period; the id of the kernel timer points to
  it.  The kernel's timers are a parameter (\<open>tkernel\<close>), threads started by a notification are those of
  \<open>Posix_Pthread\<close>, and a notification function called directly is the argument \<open>notify\<close>.
\<close>

definition SIGEV_NONE :: int where "SIGEV_NONE = 0"
definition SIGEV_SIGNAL :: int where "SIGEV_SIGNAL = 1"
definition SIGEV_THREAD :: int where "SIGEV_THREAD = 2"

record sigevent =
  sigev_notify :: int
  sigev_value :: u32
  sigev_notify_function :: u32
  sigev_notify_attributes :: "pthread_attr option"

record timer_internal =
  xTimerEvent :: sigevent
  xTimerPeriod :: u32

record itimerspec =
  it_interval :: timespec
  it_value :: timespec

record 'k tkernel =
  sizeof_StaticTimer :: u32
  xTimerCreateStatic :: "u32 \<Rightarrow> u32 \<Rightarrow> u32 \<Rightarrow> 'k \<Rightarrow> u32 \<times> 'k"
  pvTimerGetTimerID :: "u32 \<Rightarrow> 'k \<Rightarrow> u32"
  xTimerIsTimerActive :: "u32 \<Rightarrow> 'k \<Rightarrow> bool"
  xTimerGetExpiryTime :: "u32 \<Rightarrow> 'k \<Rightarrow> u32"
  xTaskGetTickCount :: "'k \<Rightarrow> u32"
  xTimerStop :: "u32 \<Rightarrow> u32 \<Rightarrow> 'k \<Rightarrow> 'k"
  xTimerStart :: "u32 \<Rightarrow> u32 \<Rightarrow> 'k \<Rightarrow> 'k"
  xTimerChangePeriod :: "u32 \<Rightarrow> u32 \<Rightarrow> u32 \<Rightarrow> 'k \<Rightarrow> 'k"
  vTaskDelay :: "u32 \<Rightarrow> 'k \<Rightarrow> 'k"

record 'k tm_state =
  tpt :: "'k pt_state"
  tobjs :: "u32 \<rightharpoonup> timer_internal"

definition tk :: "'k tm_state \<Rightarrow> 'k" where
  "tk s = pkern (tpt s)"

definition set_tk :: "'k \<Rightarrow> 'k tm_state \<Rightarrow> 'k tm_state" where
  "set_tk k s = s\<lparr>tpt := (tpt s)\<lparr>pkern := k\<rparr>\<rparr>"

definition timespec_is_zero :: "timespec \<Rightarrow> bool" where
  "timespec_is_zero ts \<longleftrightarrow> tv_sec ts = 0 \<and> tv_nsec ts = 0"

text \<open>Size of \<open>timer_internal_t\<close>: the kernel's timer, the notification (five words) and the period.\<close>

definition sizeof_timer_internal :: "'k tkernel \<Rightarrow> u32" where
  "sizeof_timer_internal T = sizeof_StaticTimer T + 24"

definition prvTimerCallback ::
  "'k pkernel \<Rightarrow> 'k tkernel \<Rightarrow> (u32 \<Rightarrow> u32 \<Rightarrow> 'k tm_state \<Rightarrow> 'k tm_state option) \<Rightarrow> pthread_obj \<Rightarrow> u32 \<Rightarrow> 'k tm_state \<Rightarrow>
   'k tm_state option" where
  "prvTimerCallback K T notify uninit xTimerHandle s =
     (let pxTimer = pvTimerGetTimerID T xTimerHandle (tk s) in
      if pxTimer = 0 then None
      else
        (case tobjs s pxTimer of
           None \<Rightarrow> None
         | Some ob \<Rightarrow>
             let ev = xTimerEvent ob in
             if sigev_notify ev = SIGEV_SIGNAL then None
             else
               (let s = (if xTimerPeriod ob > 0 then set_tk (xTimerChangePeriod T xTimerHandle (xTimerPeriod ob) 0 (tk s)) s else s) in
                if sigev_notify ev = SIGEV_THREAD then
                  (case sigev_notify_attributes ev of
                     None \<Rightarrow> notify (sigev_notify_function ev) (sigev_value ev) s
                   | Some a \<Rightarrow>
                       do {
                         (_, _, p) \<leftarrow> pthread_create K uninit (Some a) (sigev_notify_function ev) (sigev_value ev) (tpt s);
                         Some (s\<lparr>tpt := p\<rparr>)
                       })
                else Some s)))"

definition timer_create ::
  "'k tkernel \<Rightarrow> sigevent option \<Rightarrow> 'k tm_state \<Rightarrow> (status \<times> u32 option \<times> 'k tm_state) option" where
  "timer_create T evp s =
     (case evp of
        None \<Rightarrow> Some ((- 1, Some ENOTSUP), None, s)
      | Some ev \<Rightarrow>
          if sigev_notify ev = SIGEV_SIGNAL then Some ((- 1, Some ENOTSUP), None, s)
          else
            do {
              (pxTimer, h) \<leftarrow> pvPortMalloc (sizeof_timer_internal T) (pheap (tpt s));
              let s = s\<lparr>tpt := (tpt s)\<lparr>pheap := h\<rparr>\<rparr>;
              if pxTimer = 0 then Some ((- 1, Some EAGAIN), None, s)
              else
                (case xTimerCreateStatic T portMAX_DELAY pxTimer pxTimer (tk s) of
                   (hdl, k) \<Rightarrow>
                     Some ((0, None), Some hdl,
                       (set_tk k s)\<lparr>tobjs := (tobjs s)(pxTimer \<mapsto> \<lparr>xTimerEvent = ev, xTimerPeriod = 0\<rparr>)\<rparr>))
            })"

text \<open>The loop of \<open>timer_delete\<close> that waits until the stop command has been processed.\<close>

partial_function (option) wait_inactive :: "'k tkernel \<Rightarrow> u32 \<Rightarrow> 'k \<Rightarrow> 'k option" where
  "wait_inactive T xTimerHandle k =
     (if xTimerIsTimerActive T xTimerHandle k then wait_inactive T xTimerHandle (vTaskDelay T 1 k) else Some k)"

declare wait_inactive.simps [code]

definition timer_delete :: "'k tkernel \<Rightarrow> u32 \<Rightarrow> 'k tm_state \<Rightarrow> (int \<times> 'k tm_state) option" where
  "timer_delete T timerid s =
     (let pxTimer = pvTimerGetTimerID T timerid (tk s) in
      if pxTimer = 0 then None
      else
        do {
          k \<leftarrow> wait_inactive T timerid (xTimerStop T timerid portMAX_DELAY (tk s));
          h \<leftarrow> vPortFree pxTimer (pheap (tpt s));
          Some (0, s\<lparr>tpt := (tpt s)\<lparr>pheap := h, pkern := k\<rparr>, tobjs := (tobjs s)(pxTimer := None)\<rparr>)
        })"

definition timer_getoverrun :: "u32 \<Rightarrow> int" where
  "timer_getoverrun timerid = 0"

definition ticks_timespec :: "u32 \<Rightarrow> timespec" where
  "ticks_timespec n = \<lparr>tv_sec = uint (n div 1000), tv_nsec = s32 (uint (n mod 1000) * NANOSECONDS_PER_TICK)\<rparr>"

definition timer_gettime :: "'k tkernel \<Rightarrow> u32 \<Rightarrow> 'k tm_state \<Rightarrow> (int \<times> itimerspec) option" where
  "timer_gettime T timerid s =
     (case tobjs s (pvTimerGetTimerID T timerid (tk s)) of
        None \<Rightarrow> None
      | Some ob \<Rightarrow>
          (let xNextExpirationTime = xTimerGetExpiryTime T timerid (tk s) - xTaskGetTickCount T (tk s);
               xTimerExpirationPeriod = xTimerPeriod ob
           in Some (0, \<lparr>it_interval = (if xTimerExpirationPeriod \<noteq> portMAX_DELAY then ticks_timespec xTimerExpirationPeriod
                                       else \<lparr>tv_sec = 0, tv_nsec = 0\<rparr>),
                        it_value = (if xTimerIsTimerActive T timerid (tk s) then ticks_timespec xNextExpirationTime
                                    else \<lparr>tv_sec = 0, tv_nsec = 0\<rparr>)\<rparr>)))"

text \<open>
  \<open>timer_settime\<close>: \<open>now\<close> is the time that \<open>clock_gettime\<close> sees, \<open>want\<close> says whether \<open>ovalue\<close> is given; the
  results are the status with \<open>errno\<close>, the old value and the state.
\<close>

definition settime_expiration :: "u32 \<Rightarrow> timespec \<Rightarrow> TimeOut_t \<Rightarrow> int \<times> u32" where
  "settime_expiration flags v now =
     (if flags AND TIMER_ABSTIME = TIMER_ABSTIME then
        (let (iStatus, n) =
           (case clock_gettime now of
              (st, cur) \<Rightarrow>
                if st \<noteq> 0 then (EINVAL, Some 0)
                else UTILS_AbsoluteTimespecToDeltaTicks (Some v) (Some cur) (Some 0))
         in if iStatus \<noteq> 0 then (if iStatus = ETIMEDOUT then 0 else iStatus, 0) else (0, the n))
      else (0, the (snd (UTILS_TimespecToTicks (Some v) (Some 0)))))"

definition timer_settime ::
  "'k pkernel \<Rightarrow> 'k tkernel \<Rightarrow> (u32 \<Rightarrow> u32 \<Rightarrow> 'k tm_state \<Rightarrow> 'k tm_state option) \<Rightarrow> pthread_obj \<Rightarrow> u32 \<Rightarrow> u32 \<Rightarrow> itimerspec \<Rightarrow>
   bool \<Rightarrow> TimeOut_t \<Rightarrow> 'k tm_state \<Rightarrow> (status \<times> itimerspec option \<times> 'k tm_state) option" where
  "timer_settime K T notify uninit timerid flags v want now s =
     (let pxTimer = pvTimerGetTimerID T timerid (tk s);
          bad = \<not> timespec_is_zero (it_value v) \<and>
                (\<not> UTILS_ValidateTimespec (Some (it_interval v)) \<or> \<not> UTILS_ValidateTimespec (Some (it_value v)))
      in do {
           old \<leftarrow> (if want then map_option (Some \<circ> snd) (timer_gettime T timerid s) else Some None);
           if bad then Some ((- 1, Some EINVAL), old, s)
           else
             (let s = (if xTimerIsTimerActive T timerid (tk s) then set_tk (xTimerStop T timerid portMAX_DELAY (tk s)) s else s) in
              if timespec_is_zero (it_value v) then Some ((0, None), old, s)
              else
                (case tobjs s pxTimer of
                   None \<Rightarrow> None
                 | Some ob \<Rightarrow>
                     (let period = (if \<not> timespec_is_zero (it_interval v)
                                    then the (snd (UTILS_TimespecToTicks (Some (it_interval v)) (Some 0))) else 0);
                          s = s\<lparr>tobjs := (tobjs s)(pxTimer \<mapsto> ob\<lparr>xTimerPeriod := period\<rparr>)\<rparr>;
                          (iStatus, n) = settime_expiration flags (it_value v) now
                      in if n = 0 then
                           do { s \<leftarrow> prvTimerCallback K T notify uninit timerid s; Some ((iStatus, None), old, s) }
                         else
                           Some ((iStatus, None), old,
                             set_tk (xTimerStart T timerid n (xTimerChangePeriod T timerid n portMAX_DELAY (tk s))) s))))
         })"

subsection \<open>Deleting a timer\<close>

lemma wait_inactive_iter:
  assumes "\<not> xTimerIsTimerActive T h ((vTaskDelay T 1 ^^ n) k)" "\<And>m. m < n \<Longrightarrow> xTimerIsTimerActive T h ((vTaskDelay T 1 ^^ m) k)"
  shows "wait_inactive T h k = Some ((vTaskDelay T 1 ^^ n) k)"
  using assms
proof (induction n arbitrary: k)
  case 0
  then show ?case by (subst wait_inactive.simps) simp
next
  case (Suc n)
  have "wait_inactive T h (vTaskDelay T 1 k) = Some ((vTaskDelay T 1 ^^ n) (vTaskDelay T 1 k))"
    using Suc.IH [of "vTaskDelay T 1 k"] Suc.prems(1) Suc.prems(2) [of "Suc m" for m] by (simp add: funpow_swap1)
  then show ?case using Suc.prems(2) [of 0] by (subst wait_inactive.simps) (simp add: funpow_swap1)
qed

lemma wait_inactive_SomeD:
  assumes "wait_inactive T h k = Some k'"
  shows "\<exists>n. \<not> xTimerIsTimerActive T h ((vTaskDelay T 1 ^^ n) k)"
proof (rule wait_inactive.raw_induct [OF _ assms, where P = "\<lambda>T h k k'. \<exists>n. \<not> xTimerIsTimerActive T h ((vTaskDelay T 1 ^^ n) k)"])
  fix w and T :: "'a tkernel" and h :: u32 and k k' :: 'a
  assume ih: "\<And>T h k k'. w T h k = Some k' \<Longrightarrow> \<exists>n. \<not> xTimerIsTimerActive T h ((vTaskDelay T 1 ^^ n) k)"
    and eq: "(if xTimerIsTimerActive T h k then w T h (vTaskDelay T 1 k) else Some k) = Some k'"
  show "\<exists>n. \<not> xTimerIsTimerActive T h ((vTaskDelay T 1 ^^ n) k)"
  proof (cases "xTimerIsTimerActive T h k")
    case True
    then obtain n where "\<not> xTimerIsTimerActive T h ((vTaskDelay T 1 ^^ n) (vTaskDelay T 1 k))" using ih eq by metis
    then show ?thesis by (intro exI [of _ "Suc n"]) (simp add: funpow_swap1)
  qed (auto intro: exI [of _ 0])
qed

text \<open>
  \<open>timer_delete\<close> returns exactly when the kernel timer becomes inactive after finitely many delays of
  one tick following the stop command; then the status is 0 and exactly the timer's block has been
  released.
\<close>

theorem timer_delete_returns:
  assumes ok: "heap_ok (pheap (tpt s))" and p: "pvTimerGetTimerID T d (tk s) = p" "p \<in> heap_live (pheap (tpt s))"
  shows "(\<exists>n. \<not> xTimerIsTimerActive T d ((vTaskDelay T 1 ^^ n) (xTimerStop T d portMAX_DELAY (tk s)))) \<longleftrightarrow>
    (\<exists>s'. timer_delete T d s = Some (0, s') \<and> tobjs s' = (tobjs s)(p := None) \<and> heap_ok (pheap (tpt s')) \<and>
       heap_live (pheap (tpt s')) = heap_live (pheap (tpt s)) - {p})"
proof
  let ?k = "xTimerStop T d portMAX_DELAY (tk s)"
  assume ex: "\<exists>n. \<not> xTimerIsTimerActive T d ((vTaskDelay T 1 ^^ n) ?k)"
  define n where "n = (LEAST n. \<not> xTimerIsTimerActive T d ((vTaskDelay T 1 ^^ n) ?k))"
  have "\<not> xTimerIsTimerActive T d ((vTaskDelay T 1 ^^ n) ?k)" "\<And>m. m < n \<Longrightarrow> xTimerIsTimerActive T d ((vTaskDelay T 1 ^^ m) ?k)"
    using LeastI_ex [OF ex] not_less_Least unfolding n_def by blast+
  then have w: "wait_inactive T d ?k = Some ((vTaskDelay T 1 ^^ n) ?k)" by (rule wait_inactive_iter)
  obtain h where h: "vPortFree p (pheap (tpt s)) = Some h" "heap_ok h" "heap_live h = heap_live (pheap (tpt s)) - {p}"
    using h4.free_live [OF ok p(2)] by blast
  have "p \<noteq> 0" using p(2) h4.null_not_live [OF ok] by metis
  then show "\<exists>s'. timer_delete T d s = Some (0, s') \<and> tobjs s' = (tobjs s)(p := None) \<and> heap_ok (pheap (tpt s')) \<and>
       heap_live (pheap (tpt s')) = heap_live (pheap (tpt s)) - {p}"
    using p(1) w h by (simp add: timer_delete_def Let_def)
next
  assume "\<exists>s'. timer_delete T d s = Some (0, s') \<and> tobjs s' = (tobjs s)(p := None) \<and> heap_ok (pheap (tpt s')) \<and>
       heap_live (pheap (tpt s')) = heap_live (pheap (tpt s)) - {p}"
  then obtain k' where "wait_inactive T d (xTimerStop T d portMAX_DELAY (tk s)) = Some k'"
    by (auto simp: timer_delete_def Let_def split: if_splits Option.bind_splits)
  then show "\<exists>n. \<not> xTimerIsTimerActive T d ((vTaskDelay T 1 ^^ n) (xTimerStop T d portMAX_DELAY (tk s)))"
    by (rule wait_inactive_SomeD)
qed

subsection \<open>A kernel timer for the examples\<close>

record ltimer =
  l_act :: bool
  l_per :: u32
  l_exp :: u32
  l_now :: u32

definition ex_tkernel :: "ltimer tkernel" where
  "ex_tkernel = \<lparr>sizeof_StaticTimer = 44, xTimerCreateStatic = (\<lambda>n i b k. (1, k\<lparr>l_act := False, l_per := n\<rparr>)),
     pvTimerGetTimerID = (\<lambda>h k. 0x20000008), xTimerIsTimerActive = (\<lambda>h. l_act), xTimerGetExpiryTime = (\<lambda>h. l_exp),
     xTaskGetTickCount = l_now, xTimerStop = (\<lambda>h d k. k\<lparr>l_act := False\<rparr>),
     xTimerStart = (\<lambda>h d k. k\<lparr>l_act := True, l_exp := l_now k + l_per k\<rparr>),
     xTimerChangePeriod = (\<lambda>h n d k. k\<lparr>l_per := n\<rparr>), vTaskDelay = (\<lambda>n k. k\<lparr>l_now := l_now k + n\<rparr>)\<rparr>"

definition ex_pkernel :: "ltimer pkernel" where
  "ex_pkernel = \<lparr>sizeof_StaticSemaphore = 80, xTaskCreate = (\<lambda>d p q (h, k). (None, h, k)), vTaskDelete = (\<lambda>t hk. hk),
     vTaskSuspend = (\<lambda>t k. k), vTaskPrioritySet = (\<lambda>t p k. k), vTaskSetApplicationTaskTag = (\<lambda>t p k. k),
     xTaskGetApplicationTaskTag = (\<lambda>t k. 0), xSemaphoreCreateMutexStatic = (\<lambda>a k. k), xSemaphoreCreateBinaryStatic = (\<lambda>a k. k),
     xSemaphoreTake = (\<lambda>a d k. (False, k)), xSemaphoreGive = (\<lambda>a k. k), vSemaphoreDelete = (\<lambda>a k. k)\<rparr>"

definition ex_timer :: timer_internal where
  "ex_timer = \<lparr>xTimerEvent = \<lparr>sigev_notify = SIGEV_NONE, sigev_value = 0, sigev_notify_function = 0, sigev_notify_attributes = None\<rparr>,
     xTimerPeriod = 0\<rparr>"

definition ex_tm :: "ltimer tm_state" where
  "ex_tm = \<lparr>tpt = \<lparr>pheap = ex_heap1, pkern = \<lparr>l_act = True, l_per = 5, l_exp = 10, l_now = 7\<rparr>, pobjs = Map.empty\<rparr>,
     tobjs = [0x20000008 \<mapsto> ex_timer]\<rparr>"

theorem timer_delete_returns_witness:
  "\<exists>s'. timer_delete ex_tkernel 1 ex_tm = Some (0, s') \<and> tobjs s' = Map.empty \<and> heap_live (pheap (tpt s')) = {}"
proof -
  have h: "heap_ok (pheap (tpt ex_tm))" "heap_live (pheap (tpt ex_tm)) = {0x20000008}"
    using ex_heap1_inv heap_live_eq [OF ex_heap1_inv] by (auto simp: ex_tm_def heap_ok_def ex_heap1_start)
  have "\<not> xTimerIsTimerActive ex_tkernel 1 ((vTaskDelay ex_tkernel 1 ^^ 0) (xTimerStop ex_tkernel 1 portMAX_DELAY (tk ex_tm)))"
    by (simp add: ex_tkernel_def)
  then have ex: "\<exists>n. \<not> xTimerIsTimerActive ex_tkernel 1 ((vTaskDelay ex_tkernel 1 ^^ n) (xTimerStop ex_tkernel 1 portMAX_DELAY (tk ex_tm)))"
    by blast
  have p: "pvTimerGetTimerID ex_tkernel 1 (tk ex_tm) = 0x20000008" "0x20000008 \<in> heap_live (pheap (tpt ex_tm))"
    using h(2) by (simp_all add: ex_tkernel_def)
  have "(tobjs ex_tm)(0x20000008 := None) = Map.empty" by (simp add: ex_tm_def)
  then show ?thesis using timer_delete_returns [OF h(1) p] ex h(2) by auto
qed

subsection \<open>Arming a timer\<close>

text \<open>A kernel timer: its id, whether it runs, its period and expiry, and the tick count.\<close>

record 'k tview =
  tid :: "'k \<Rightarrow> u32 \<Rightarrow> u32"
  tact :: "'k \<Rightarrow> u32 \<Rightarrow> bool"
  tper :: "'k \<Rightarrow> u32 \<Rightarrow> u32"
  texp :: "'k \<Rightarrow> u32 \<Rightarrow> u32"
  tnow :: "'k \<Rightarrow> u32"

text \<open>The kernel's timers, when their commands are processed before the tick count advances.\<close>

definition timer_laws :: "'k tkernel \<Rightarrow> 'k tview \<Rightarrow> bool" where
  "timer_laws T V \<longleftrightarrow>
     (\<forall>h k. pvTimerGetTimerID T h k = tid V k h \<and> xTimerIsTimerActive T h k = tact V k h \<and>
        xTimerGetExpiryTime T h k = texp V k h \<and> xTaskGetTickCount T k = tnow V k) \<and>
     (\<forall>h d k. let k' = xTimerStop T h d k in tid V k' = tid V k \<and> tnow V k' = tnow V k \<and> \<not> tact V k' h) \<and>
     (\<forall>h n d k. let k' = xTimerChangePeriod T h n d k in tid V k' = tid V k \<and> tnow V k' = tnow V k \<and> tper V k' h = n) \<and>
     (\<forall>h d k. let k' = xTimerStart T h d k in tid V k' = tid V k \<and> tnow V k' = tnow V k \<and> tact V k' h \<and>
        texp V k' h = tnow V k + tper V k h)"

lemma ns_ticks: "ns (ticks_timespec n) = 1000000 * uint n"
proof -
  have b: "0 \<le> uint (n mod 1000) * 1000000" "uint (n mod 1000) * 1000000 < 2 ^ 31" by (simp_all add: uint_mod)
  have "s32 (uint (n mod 1000) * 1000000) = uint (n mod 1000) * 1000000"
    by (rule s32_id [OF order_trans [OF _ b(1)] b(2)]) simp
  moreover have "uint n = uint (n div 1000) * 1000 + uint (n mod 1000)" by (simp add: uint_div uint_mod)
  ultimately show ?thesis by (simp add: ns_def ticks_timespec_def NANOSECONDS_PER_TICK_eq)
qed

text \<open>
  Arming a timer with a relative time whose ticks fit the tick type: the call succeeds, and reading
  the timer back at once gives the requested time and interval rounded up to whole ticks.
\<close>

theorem timer_settime_gettime:
  assumes l: "timer_laws T V" and p: "tid V (tk s) d = p" "tobjs s p = Some ob"
    and v: "valid_ts (it_value v)" "0 \<le> tv_sec (it_value v)" "0 < ns (it_value v)" "ceil_ticks (ns (it_value v)) \<le> UINT_MAX"
    and w: "valid_ts (it_interval v)" "0 \<le> tv_sec (it_interval v)" "ceil_ticks (ns (it_interval v)) < UINT_MAX"
    and f: "flags AND TIMER_ABSTIME \<noteq> TIMER_ABSTIME"
  shows "\<exists>s' g. timer_settime K T notify uninit d flags v False now s = Some ((0, None), None, s') \<and>
    timer_gettime T d s' = Some (0, g) \<and> ns (it_value g) = 1000000 * ceil_ticks (ns (it_value v)) \<and>
    ns (it_interval g) = 1000000 * ceil_ticks (ns (it_interval v))"
proof -
  have sec: "tv_sec u \<le> 9223372036854774" "0 \<le> ceil_ticks (ns u)"
    if "valid_ts u" "0 \<le> tv_sec u" "ceil_ticks (ns u) \<le> UINT_MAX" for u
    using ceil_ticks_least [of "ns u"] that unfolding ns_def valid_ts_def UINT_MAX_def by linarith+
  have u: "uint (of_int t :: u32) = t" if "0 \<le> t" "t \<le> UINT_MAX" for t
    using that by (simp add: uint_word_of_int UINT_MAX_def take_bit_int_eq_self)
  define n where "n = (of_int (ceil_ticks (ns (it_value v))) :: u32)"
  have n: "uint n = ceil_ticks (ns (it_value v))" using u sec(2) v by (simp add: n_def)
  have pos: "0 < uint n" using v(3) ceil_ticks_least(1) [of "ns (it_value v)"] unfolding n by linarith
  then have nz: "n \<noteq> 0" by auto
  have e: "settime_expiration flags (it_value v) now = (0, n)"
    using f to_ticks [OF v(1,2) sec(1) [OF v(1,2,4)], of 0] by (simp add: settime_expiration_def n_def)
  define q where "q = (if \<not> timespec_is_zero (it_interval v) then the (snd (UTILS_TimespecToTicks (Some (it_interval v)) (Some 0))) else 0)"
  have q: "uint q = ceil_ticks (ns (it_interval v))" "q \<noteq> portMAX_DELAY"
  proof -
    have le: "ceil_ticks (ns (it_interval v)) \<le> UINT_MAX" using w(3) by simp
    have "q = of_int (ceil_ticks (ns (it_interval v)))"
      using to_ticks [OF w(1,2) sec(1) [OF w(1,2) le], of 0] by (auto simp: q_def timespec_is_zero_def ns_def ceil_ticks_def)
    then show "uint q = ceil_ticks (ns (it_interval v))" using u sec(2) [OF w(1,2) le] le by simp
    then show "q \<noteq> portMAX_DELAY" using w(3) by (auto simp: portMAX_DELAY_def UINT_MAX_def)
  qed
  have nzv: "\<not> timespec_is_zero (it_value v)" using v(3) by (auto simp: timespec_is_zero_def ns_def)
  define s1 where "s1 = (if xTimerIsTimerActive T d (tk s) then set_tk (xTimerStop T d portMAX_DELAY (tk s)) s else s)"
  have s1: "tid V (tk s1) = tid V (tk s)" "tobjs s1 = tobjs s"
    using l by (auto simp: s1_def timer_laws_def Let_def tk_def set_tk_def)
  define s2 where "s2 = s1\<lparr>tobjs := (tobjs s)(p \<mapsto> ob\<lparr>xTimerPeriod := q\<rparr>)\<rparr>"
  define k where "k = xTimerStart T d n (xTimerChangePeriod T d n portMAX_DELAY (tk s2))"
  have id: "pvTimerGetTimerID T d (tk s) = p" using l p(1) by (simp add: timer_laws_def)
  have run: "timer_settime K T notify uninit d flags v False now s = Some ((0, None), None, set_tk k s2)"
    using v(1) w(1) nzv nz e p(2) s1(2)
    by (simp add: timer_settime_def Let_def id validate_valid s1_def [symmetric] q_def [symmetric] s2_def k_def)
  have k: "tid V k d = p" "tact V k d" "texp V k d - tnow V k = n"
    using l p(1) s1(1) by (simp_all add: k_def timer_laws_def Let_def s2_def tk_def)
  have g: "timer_gettime T d (set_tk k s2) = Some (0, \<lparr>it_interval = ticks_timespec q, it_value = ticks_timespec n\<rparr>)"
    using l k q(2) by (simp add: timer_gettime_def timer_laws_def tk_def set_tk_def s2_def)
  show ?thesis using run g n q(1) by (simp add: ns_ticks)
qed

definition ex_tview :: "ltimer tview" where
  "ex_tview = \<lparr>tid = (\<lambda>k h. 0x20000008), tact = (\<lambda>k h. l_act k), tper = (\<lambda>k h. l_per k), texp = (\<lambda>k h. l_exp k), tnow = l_now\<rparr>"

lemma ex_timer_laws: "timer_laws ex_tkernel ex_tview"
  by (simp add: timer_laws_def ex_tkernel_def ex_tview_def)

theorem timer_settime_gettime_witness:
  "\<exists>s' g. timer_settime ex_pkernel ex_tkernel (\<lambda>f v s. Some s) ex_uninit 1 0
      \<lparr>it_interval = \<lparr>tv_sec = 1, tv_nsec = 0\<rparr>, it_value = \<lparr>tv_sec = 2, tv_nsec = 1\<rparr>\<rparr> False \<lparr>xOverflowCount = 0, xTimeOnEntering = 7\<rparr> ex_tm =
      Some ((0, None), None, s') \<and> timer_gettime ex_tkernel 1 s' = Some (0, g) \<and>
    ns (it_value g) = 2001000000 \<and> ns (it_interval g) = 1000000000"
proof -
  let ?v = "\<lparr>it_interval = \<lparr>tv_sec = 1, tv_nsec = 0\<rparr>, it_value = \<lparr>tv_sec = 2, tv_nsec = 1\<rparr>\<rparr>"
  have c: "ceil_ticks (ns (it_value ?v)) = 2001" "ceil_ticks (ns (it_interval ?v)) = 1000" by (simp_all add: ceil_ticks_def ns_def)
  have "\<exists>s' g. timer_settime ex_pkernel ex_tkernel (\<lambda>f v s. Some s) ex_uninit 1 0 ?v False \<lparr>xOverflowCount = 0, xTimeOnEntering = 7\<rparr> ex_tm =
      Some ((0, None), None, s') \<and> timer_gettime ex_tkernel 1 s' = Some (0, g) \<and>
    ns (it_value g) = 1000000 * ceil_ticks (ns (it_value ?v)) \<and> ns (it_interval g) = 1000000 * ceil_ticks (ns (it_interval ?v))"
    by (rule timer_settime_gettime [OF ex_timer_laws, of _ _ "0x20000008" ex_timer])
      (unfold c, simp_all add: ex_tview_def ex_tm_def valid_ts_def ns_def UINT_MAX_def TIMER_ABSTIME_def)
  then show ?thesis unfolding c by simp
qed

end
