(* ===== verification/Float32.thy ===== *)
theory Float32
  imports Complex_Main "HOL-Library.Log_Nat"
begin

text \<open>
  The C type \<open>float\<close>: IEEE 754 binary32 with rounding to nearest, ties to even, as the firmware's
  floating-point unit computes it.  A number is a sign with a rational magnitude, so that zeros are
  signed; every operation is the exact rational operation followed by one rounding.  Expressions are
  evaluated as the source writes them, without fused operations.
\<close>

datatype f32 = NaN | Inf bool | Fin bool rat

definition flog2 :: "rat \<Rightarrow> int" where
  "flog2 x = (case quotient_of x of
     (n, d) \<Rightarrow> let k = bitlen n - bitlen d in if 2 powi k \<le> x then k else k - 1)"

definition round_half_even :: "rat \<Rightarrow> int" where
  "round_half_even q =
     (let f = \<lfloor>q\<rfloor>; r = q - of_int f in
      if r < 1 / 2 then f else if r > 1 / 2 then f + 1 else if even f then f else f + 1)"

text \<open>The unit in the last place at a magnitude: 24 bits of precision, exponents from -126.\<close>

definition ulp :: "rat \<Rightarrow> rat" where
  "ulp x = 2 powi (max (flog2 x) (-126) - 23)"

definition rnd_mag :: "rat \<Rightarrow> rat" where
  "rnd_mag x = (if x = 0 then 0 else of_int (round_half_even (x / ulp x)) * ulp x)"

definition mk :: "bool \<Rightarrow> rat \<Rightarrow> f32" where
  "mk s m = (let r = rnd_mag m in if r \<ge> 2 ^ 128 then Inf s else Fin s r)"

definition f32_of :: "rat \<Rightarrow> f32" where
  "f32_of q = mk (q < 0) \<bar>q\<bar>"

fun val :: "f32 \<Rightarrow> rat" where
  "val (Fin s m) = (if s then - m else m)"
| "val _ = 0"

fun fneg :: "f32 \<Rightarrow> f32" where
  "fneg NaN = NaN"
| "fneg (Inf s) = Inf (\<not> s)"
| "fneg (Fin s m) = Fin (\<not> s) m"

fun fabs :: "f32 \<Rightarrow> f32" where
  "fabs NaN = NaN"
| "fabs (Inf s) = Inf False"
| "fabs (Fin s m) = Fin False m"

fun fadd :: "f32 \<Rightarrow> f32 \<Rightarrow> f32" where
  "fadd NaN _ = NaN"
| "fadd _ NaN = NaN"
| "fadd (Inf s) (Inf t) = (if s = t then Inf s else NaN)"
| "fadd (Inf s) (Fin _ _) = Inf s"
| "fadd (Fin _ _) (Inf t) = Inf t"
| "fadd (Fin s a) (Fin t b) =
     (let v = val (Fin s a) + val (Fin t b) in
      if v = 0 then Fin (s \<and> t) 0 else mk (v < 0) \<bar>v\<bar>)"

definition fsub :: "f32 \<Rightarrow> f32 \<Rightarrow> f32" where
  "fsub a b = fadd a (fneg b)"

fun fmul :: "f32 \<Rightarrow> f32 \<Rightarrow> f32" where
  "fmul NaN _ = NaN"
| "fmul _ NaN = NaN"
| "fmul (Inf s) (Inf t) = Inf (s \<noteq> t)"
| "fmul (Inf s) (Fin t b) = (if b = 0 then NaN else Inf (s \<noteq> t))"
| "fmul (Fin s a) (Inf t) = (if a = 0 then NaN else Inf (s \<noteq> t))"
| "fmul (Fin s a) (Fin t b) = mk (s \<noteq> t) (a * b)"

fun fdiv :: "f32 \<Rightarrow> f32 \<Rightarrow> f32" where
  "fdiv NaN _ = NaN"
| "fdiv _ NaN = NaN"
| "fdiv (Inf s) (Inf t) = NaN"
| "fdiv (Inf s) (Fin t b) = Inf (s \<noteq> t)"
| "fdiv (Fin s a) (Inf t) = Fin (s \<noteq> t) 0"
| "fdiv (Fin s a) (Fin t b) =
     (if b = 0 then (if a = 0 then NaN else Inf (s \<noteq> t)) else mk (s \<noteq> t) (a / b))"

fun flt :: "f32 \<Rightarrow> f32 \<Rightarrow> bool" where
  "flt NaN _ = False"
| "flt _ NaN = False"
| "flt (Inf s) (Inf t) = (s \<and> \<not> t)"
| "flt (Inf s) (Fin _ _) = s"
| "flt (Fin _ _) (Inf t) = (\<not> t)"
| "flt (Fin s a) (Fin t b) = (val (Fin s a) < val (Fin t b))"

text \<open>Conversion to \<open>int16_t\<close> truncates; it is undefined for NaN and out of range.\<close>

definition trunc_rat :: "rat \<Rightarrow> int" where
  "trunc_rat q = (if q < 0 then - \<lfloor>- q\<rfloor> else \<lfloor>q\<rfloor>)"

fun f32_to_int16 :: "f32 \<Rightarrow> int option" where
  "f32_to_int16 (Fin s m) =
     (let i = trunc_rat (val (Fin s m)) in if - 32768 \<le> i \<and> i \<le> 32767 then Some i else None)"
| "f32_to_int16 _ = None"

subsection \<open>Rounding\<close>

lemma flog2_bounds:
  assumes "0 < x"
  shows "2 powi (flog2 x) \<le> x" "x < 2 powi (flog2 x + 1)"
proof -
  obtain n d where q: "quotient_of x = (n, d)" by fastforce
  have d: "0 < d" "x = of_int n / of_int d" using quotient_of_denom_pos [OF q] quotient_of_div [OF q] by auto
  have n: "0 < n" using assms d by (simp add: zero_less_divide_iff)
  define a b where "a = bitlen n" and "b = bitlen d"
  have ab: "0 < a" "0 < b" using n d(1) bitlen_nonneg [of n] bitlen_nonneg [of d] bitlen_eq_zero_iff [of n] bitlen_eq_zero_iff [of d]
    unfolding a_def b_def by linarith+
  have bn: "2 ^ nat (a - 1) \<le> n" "n < 2 ^ nat a" "2 ^ nat (b - 1) \<le> d" "d < 2 ^ nat b"
    using bitlen_bounds [OF n] bitlen_bounds [OF d(1)] by (auto simp: a_def b_def)
  have pw: "(2 :: rat) ^ nat k = 2 powi k" if "0 \<le> k" for k using that by (simp add: power_int_def)
  have N: "2 powi (a - 1) \<le> (of_int n :: rat)" "of_int n < (2 powi a :: rat)"
    and D: "2 powi (b - 1) \<le> (of_int d :: rat)" "of_int d < (2 powi b :: rat)"
  proof -
    have "(of_int (2 ^ nat (a - 1)) :: rat) \<le> of_int n" "(of_int n :: rat) < of_int (2 ^ nat a)"
      "(of_int (2 ^ nat (b - 1)) :: rat) \<le> of_int d" "(of_int d :: rat) < of_int (2 ^ nat b)"
      using bn by (simp_all only: of_int_le_iff of_int_less_iff)
    then show "2 powi (a - 1) \<le> (of_int n :: rat)" "of_int n < (2 powi a :: rat)"
      "2 powi (b - 1) \<le> (of_int d :: rat)" "of_int d < (2 powi b :: rat)"
      using ab pw [of "a - 1"] pw [of a] pw [of "b - 1"] pw [of b] by simp_all
  qed
  have lo: "2 powi (a - b - 1) \<le> x"
  proof -
    have "2 powi (a - b - 1) * of_int d \<le> 2 powi (a - b - 1) * (2 powi b :: rat)" using D(2) by (intro mult_left_mono) auto
    also have "\<dots> = 2 powi (a - 1)" by (simp add: power_int_add [symmetric])
    also have "\<dots> \<le> of_int n" by (rule N(1))
    finally show ?thesis using d by (simp add: pos_le_divide_eq)
  qed
  have hi: "x < 2 powi (a - b + 1)"
  proof -
    have "of_int n < (2 powi a :: rat)" by (rule N(2))
    also have "\<dots> = 2 powi (a - b + 1) * 2 powi (b - 1)" by (simp add: power_int_add [symmetric])
    also have "\<dots> \<le> 2 powi (a - b + 1) * of_int d" using D(1) by (intro mult_left_mono) auto
    finally show ?thesis using d by (simp add: pos_divide_less_eq)
  qed
  have f: "flog2 x = (if 2 powi (a - b) \<le> x then a - b else a - b - 1)"
    by (simp add: flog2_def q a_def b_def Let_def)
  show "2 powi (flog2 x) \<le> x" using f lo by simp
  show "x < 2 powi (flog2 x + 1)" using f hi by simp
qed

lemma ulp_pos: "0 < ulp x"
  by (simp add: ulp_def)

lemma ulp_le: "0 < x \<Longrightarrow> ulp x \<le> x / 2 ^ 23 + 1 / 2 ^ 149"
proof (cases "-126 \<le> flog2 x")
  case True
  assume "0 < x"
  have "ulp x = 2 powi (flog2 x) / 2 ^ 23" using True by (simp add: ulp_def power_int_diff)
  also have "\<dots> \<le> x / 2 ^ 23" using flog2_bounds(1) [OF \<open>0 < x\<close>] by (intro divide_right_mono) auto
  finally show ?thesis by (rule order_trans) simp
next
  case False
  assume "0 < x"
  have "ulp x = 2 powi (- int 149)" using False by (simp add: ulp_def)
  also have "\<dots> = 1 / 2 ^ 149" by (simp only: power_int_minus power_int_of_nat inverse_eq_divide)
  finally have "ulp x = 1 / 2 ^ 149" .
  moreover have "0 \<le> x / 2 ^ 23" using \<open>0 < x\<close> by simp
  ultimately show ?thesis by linarith
qed

lemma round_half_even_err: "\<bar>of_int (round_half_even q) - q\<bar> \<le> 1 / 2"
proof -
  have "of_int \<lfloor>q\<rfloor> \<le> q" "q < of_int \<lfloor>q\<rfloor> + 1" using of_int_floor_le [of q] floor_correct [of q] by auto
  then show ?thesis unfolding round_half_even_def Let_def by auto
qed

lemma rnd_mag_err: "0 \<le> x \<Longrightarrow> \<bar>rnd_mag x - x\<bar> \<le> x / 2 ^ 24 + 1 / 2 ^ 150"
proof (cases "x = 0")
  case False
  assume "0 \<le> x"
  then have x: "0 < x" using False by simp
  have "rnd_mag x - x = (of_int (round_half_even (x / ulp x)) - x / ulp x) * ulp x"
    using False ulp_pos [of x] by (simp add: rnd_mag_def algebra_simps)
  then have "\<bar>rnd_mag x - x\<bar> = \<bar>of_int (round_half_even (x / ulp x)) - x / ulp x\<bar> * ulp x"
    using ulp_pos [of x] by (simp add: abs_mult)
  also have "\<dots> \<le> 1 / 2 * ulp x" using round_half_even_err ulp_pos [of x] by (intro mult_right_mono) auto
  also have "\<dots> \<le> 1 / 2 * (x / 2 ^ 23 + 1 / 2 ^ 149)" using ulp_le [OF x] by (intro mult_left_mono) auto
  finally show ?thesis by simp
qed (simp add: rnd_mag_def)

lemma round_half_even_nonneg: "0 \<le> q \<Longrightarrow> 0 \<le> round_half_even q"
  by (auto simp: round_half_even_def Let_def)

lemma rnd_mag_nonneg: "0 \<le> x \<Longrightarrow> 0 \<le> rnd_mag x"
  using ulp_pos [of x] round_half_even_nonneg [of "x / ulp x"] by (simp add: rnd_mag_def)

subsection \<open>Finite values with a bound\<close>

fun bounded :: "rat \<Rightarrow> f32 \<Rightarrow> bool" where
  "bounded B (Fin s m) = (0 \<le> m \<and> m \<le> B)"
| "bounded B _ = False"

lemma bounded_iff: "bounded B x \<longleftrightarrow> (\<exists>s m. x = Fin s m \<and> 0 \<le> m \<and> m \<le> B)"
  by (cases x) auto

lemma bounded_mono: "bounded B x \<Longrightarrow> B \<le> C \<Longrightarrow> bounded C x"
  by (auto simp: bounded_iff)

lemma bounded_val: "bounded B x \<Longrightarrow> \<bar>val x\<bar> \<le> B"
  by (auto simp: bounded_iff)

lemma bounded_neg [simp]: "bounded B (fneg x) = bounded B x"
  by (cases x) auto

lemma bounded_nonneg: "bounded B x \<Longrightarrow> 0 \<le> B"
  by (auto simp: bounded_iff)

lemma rnd_mag_le:
  assumes "0 \<le> m" "m \<le> B" "1 \<le> B"
  shows "rnd_mag m \<le> 2 * B"
proof -
  have "rnd_mag m \<le> m + (m / 2 ^ 24 + 1 / 2 ^ 150)" using rnd_mag_err [OF assms(1)] by linarith
  also have "\<dots> \<le> B + (B / 2 + 1 / 2)"
  proof (intro add_mono)
    show "m / 2 ^ 24 \<le> B / 2" using assms by (intro frac_le) auto
    show "(1 / 2 ^ 150 :: rat) \<le> 1 / 2" by (rule divide_left_mono) simp_all
  qed (rule assms)
  also have "\<dots> \<le> 2 * B" using assms(3) by simp
  finally show ?thesis .
qed

lemma bounded_mk:
  assumes "0 \<le> m" "m \<le> B" "1 \<le> B" "2 * B < 2 ^ 128"
  shows "bounded (2 * B) (mk s m)"
  using rnd_mag_le [OF assms(1-3)] rnd_mag_nonneg [OF assms(1)] assms(4) by (auto simp: mk_def Let_def)

lemma bounded_f32_of:
  "\<bar>q\<bar> \<le> B \<Longrightarrow> 1 \<le> B \<Longrightarrow> 2 * B < 2 ^ 128 \<Longrightarrow> bounded (2 * B) (f32_of q)"
  unfolding f32_of_def by (rule bounded_mk) auto

lemma bounded_add:
  assumes "bounded A x" "bounded B y" "1 \<le> A + B" "2 * (A + B) < 2 ^ 128"
  shows "bounded (2 * (A + B)) (fadd x y)"
proof -
  obtain s a where x: "x = Fin s a" "0 \<le> a" "a \<le> A" using assms(1) by (auto simp: bounded_iff)
  obtain t b where y: "y = Fin t b" "0 \<le> b" "b \<le> B" using assms(2) by (auto simp: bounded_iff)
  have "\<bar>val (Fin s a) + val (Fin t b)\<bar> \<le> A + B" using x y by auto
  then have "bounded (2 * (A + B)) (mk (val (Fin s a) + val (Fin t b) < 0) \<bar>val (Fin s a) + val (Fin t b)\<bar>)"
    by (intro bounded_mk) (use assms in auto)
  then show ?thesis using assms(3) by (simp add: x(1) y(1) Let_def del: val.simps)
qed

lemma bounded_sub:
  "bounded A x \<Longrightarrow> bounded B y \<Longrightarrow> 1 \<le> A + B \<Longrightarrow> 2 * (A + B) < 2 ^ 128 \<Longrightarrow>
   bounded (2 * (A + B)) (fsub x y)"
  unfolding fsub_def by (rule bounded_add) simp_all

lemma bounded_mul:
  assumes "bounded A x" "bounded B y" "1 \<le> A * B" "2 * (A * B) < 2 ^ 128"
  shows "bounded (2 * (A * B)) (fmul x y)"
proof -
  obtain s a where x: "x = Fin s a" "0 \<le> a" "a \<le> A" using assms(1) by (auto simp: bounded_iff)
  obtain t b where y: "y = Fin t b" "0 \<le> b" "b \<le> B" using assms(2) by (auto simp: bounded_iff)
  have "bounded (2 * (A * B)) (mk (s \<noteq> t) (a * b))"
    by (rule bounded_mk) (use x y assms(3,4) in \<open>auto intro: mult_mono\<close>)
  then show ?thesis by (simp add: x(1) y(1))
qed

lemma flt_bounded: "bounded B x \<Longrightarrow> bounded C y \<Longrightarrow> flt x y = (val x < val y)"
  by (auto simp: bounded_iff simp del: val.simps)

text \<open>A value of magnitude at most 32767 converts to \<open>int16_t\<close> without undefined behaviour.\<close>

lemma trunc_rat_le: "\<bar>q\<bar> \<le> of_int k \<Longrightarrow> \<bar>trunc_rat q\<bar> \<le> k"
proof -
  assume q: "\<bar>q\<bar> \<le> of_int k"
  have "0 \<le> \<lfloor>r\<rfloor> \<and> \<lfloor>r\<rfloor> \<le> k" if "0 \<le> r" "r \<le> of_int k" for r :: rat
    using that by (auto intro: order_trans [OF floor_mono [OF that(2)]])
  from this [of q] this [of "- q"] q show ?thesis unfolding trunc_rat_def by (cases "q < 0") auto
qed

lemma f32_to_int16_bounded:
  assumes "bounded (of_int k) x" "k \<le> 32767"
  obtains i where "f32_to_int16 x = Some i" "\<bar>i\<bar> \<le> k"
proof -
  have t: "\<bar>trunc_rat (val x)\<bar> \<le> k" using assms(1) by (intro trunc_rat_le bounded_val)
  show thesis
  proof (rule that)
    show "f32_to_int16 x = Some (trunc_rat (val x))"
      using assms t by (cases x) (simp_all add: Let_def abs_le_iff del: val.simps)
  qed (rule t)
qed

subsection \<open>NaN\<close>

lemma fadd_NaN [simp]: "fadd NaN x = NaN" "fadd x NaN = NaN"
  by (cases x; simp)+

lemma fmul_NaN [simp]: "fmul NaN x = NaN" "fmul x NaN = NaN"
  by (cases x; simp)+

lemma fsub_NaN [simp]: "fsub NaN x = NaN" "fsub x NaN = NaN"
  by (simp_all add: fsub_def)

lemma flt_NaN [simp]: "flt NaN x = False" "flt x NaN = False"
  by (cases x; simp)+

subsection \<open>Well-formed values\<close>

text \<open>Magnitudes are non-negative and below the overflow threshold; every operation keeps this.\<close>

fun f32_ok :: "f32 \<Rightarrow> bool" where
  "f32_ok (Fin s m) = (0 \<le> m \<and> m < 2 ^ 128)"
| "f32_ok _ = True"

lemma f32_ok_mk: "0 \<le> m \<Longrightarrow> f32_ok (mk s m)"
  using rnd_mag_nonneg [of m] by (simp add: mk_def Let_def not_le)

lemma f32_ok_of [simp]: "f32_ok (f32_of q)"
  by (simp add: f32_of_def f32_ok_mk)

lemma f32_ok_neg [simp]: "f32_ok (fneg x) = f32_ok x"
  by (cases x) auto

lemma f32_ok_add: "f32_ok x \<Longrightarrow> f32_ok y \<Longrightarrow> f32_ok (fadd x y)"
  by (cases x; cases y) (simp_all add: Let_def f32_ok_mk del: val.simps)

lemma f32_ok_sub: "f32_ok x \<Longrightarrow> f32_ok y \<Longrightarrow> f32_ok (fsub x y)"
  by (simp add: fsub_def f32_ok_add)

lemma f32_ok_mul: "f32_ok x \<Longrightarrow> f32_ok y \<Longrightarrow> f32_ok (fmul x y)"
  by (cases x; cases y) (simp_all add: f32_ok_mk)

lemma f32_ok_div: "f32_ok x \<Longrightarrow> f32_ok y \<Longrightarrow> f32_ok (fdiv x y)"
  by (cases x; cases y) (simp_all add: f32_ok_mk)

lemmas f32_ok_ops = f32_ok_add f32_ok_sub f32_ok_mul f32_ok_div

lemma bounded_ok: "bounded B x \<Longrightarrow> B < 2 ^ 128 \<Longrightarrow> f32_ok x"
  by (auto simp: bounded_iff)

lemma bounded_not_NaN: "bounded B x \<Longrightarrow> x \<noteq> NaN"
  by (cases x) auto

end
