(* ===== verification/Pid.thy ===== *)
theory Pid
  imports Float32 "HOL-Library.Word"
begin

text \<open>
  The PID controller of the chassis and gimbal loops (\<open>src/dji/pid.c\<close>) on binary32 numbers: position and
  delta mode, with the output and the integral limited after every step.  A null pointer is \<open>None\<close>.
\<close>

definition PID_POSITION :: "8 word" where "PID_POSITION = 0"

definition PID_DELTA :: "8 word" where "PID_DELTA = 1"

record pid_type_def =
  pid_mode :: "8 word"
  Kp :: f32
  Ki :: f32
  Kd :: f32
  max_out :: f32
  max_iout :: f32
  pid_set :: f32
  pid_fdb :: f32
  pid_out :: f32
  Pout :: f32
  Iout :: f32
  Dout :: f32
  Dbuf0 :: f32
  Dbuf1 :: f32
  Dbuf2 :: f32
  error0 :: f32
  error1 :: f32
  error2 :: f32

abbreviation f0 :: f32 where "f0 \<equiv> Fin False 0"

abbreviation f2 :: f32 where "f2 \<equiv> Fin False 2"

definition LimitMax :: "f32 \<Rightarrow> f32 \<Rightarrow> f32" where
  "LimitMax input m =
     (if flt m input then m else if flt input (fneg m) then fneg m else input)"

fun PID_init ::
  "pid_type_def option \<Rightarrow> 8 word \<Rightarrow> (f32 \<times> f32 \<times> f32) option \<Rightarrow> f32 \<Rightarrow> f32 \<Rightarrow> pid_type_def option" where
  "PID_init (Some p) mode (Some (k0, k1, k2)) mo mi =
     Some (p\<lparr>pid_mode := mode, Kp := k0, Ki := k1, Kd := k2, max_out := mo, max_iout := mi,
             Dbuf0 := f0, Dbuf1 := f0, Dbuf2 := f0, error0 := f0, error1 := f0, error2 := f0,
             Pout := f0, Iout := f0, Dout := f0, pid_out := f0\<rparr>)"
| "PID_init p _ _ _ _ = p"

fun PID_calc :: "pid_type_def option \<Rightarrow> f32 \<Rightarrow> f32 \<Rightarrow> pid_type_def option \<times> f32" where
  "PID_calc None ref st = (None, f0)"
| "PID_calc (Some p0) ref st =
     (let p = p0\<lparr>error2 := error1 p0, error1 := error0 p0, pid_set := st, pid_fdb := ref,
                 error0 := fsub st ref\<rparr>;
          p' =
            (if pid_mode p = PID_POSITION then
               let p = p\<lparr>Pout := fmul (Kp p) (error0 p), Iout := fadd (Iout p) (fmul (Ki p) (error0 p)),
                         Dbuf2 := Dbuf1 p, Dbuf1 := Dbuf0 p, Dbuf0 := fsub (error0 p) (error1 p)\<rparr>;
                   p = p\<lparr>Dout := fmul (Kd p) (Dbuf0 p), Iout := LimitMax (Iout p) (max_iout p)\<rparr>;
                   p = p\<lparr>pid_out := fadd (fadd (Pout p) (Iout p)) (Dout p)\<rparr>
               in p\<lparr>pid_out := LimitMax (pid_out p) (max_out p)\<rparr>
             else if pid_mode p = PID_DELTA then
               let p = p\<lparr>Pout := fmul (Kp p) (fsub (error0 p) (error1 p)), Iout := fmul (Ki p) (error0 p),
                         Dbuf2 := Dbuf1 p, Dbuf1 := Dbuf0 p,
                         Dbuf0 := fadd (fsub (error0 p) (fmul f2 (error1 p))) (error2 p)\<rparr>;
                   p = p\<lparr>Dout := fmul (Kd p) (Dbuf0 p)\<rparr>;
                   p = p\<lparr>pid_out := fadd (pid_out p) (fadd (fadd (Pout p) (Iout p)) (Dout p))\<rparr>
               in p\<lparr>pid_out := LimitMax (pid_out p) (max_out p)\<rparr>
             else p)
      in (Some p', pid_out p'))"

fun PID_clear :: "pid_type_def option \<Rightarrow> pid_type_def option" where
  "PID_clear None = None"
| "PID_clear (Some p) =
     Some (p\<lparr>error0 := f0, error1 := f0, error2 := f0, Dbuf0 := f0, Dbuf1 := f0, Dbuf2 := f0,
             pid_out := f0, Pout := f0, Iout := f0, Dout := f0, pid_fdb := f0, pid_set := f0\<rparr>)"

text \<open>A control loop: the controller called on a sequence of feedback and set-point pairs.\<close>

primrec PID_run :: "pid_type_def option \<Rightarrow> (f32 \<times> f32) list \<Rightarrow> pid_type_def option \<times> f32 list" where
  "PID_run p [] = (p, [])"
| "PID_run p (x # xs) =
     (case PID_calc p (fst x) (snd x) of (p', y) \<Rightarrow>
        case PID_run p' xs of (p'', ys) \<Rightarrow> (p'', y # ys))"

subsection \<open>Saturation\<close>

lemma LimitMax_NaN: "LimitMax NaN m = NaN"
  by (cases m) (simp_all add: LimitMax_def)

lemma LimitMax_bounded: "f32_ok x \<Longrightarrow> x \<noteq> NaN \<Longrightarrow> bounded B m \<Longrightarrow> 0 \<le> val m \<Longrightarrow> bounded B (LimitMax x m)"
  by (cases x; cases m) (auto simp: LimitMax_def split: if_splits)

lemma LimitMax_in: "flt m x = False \<Longrightarrow> flt x (fneg m) = False \<Longrightarrow> LimitMax x m = x"
  by (simp add: LimitMax_def)

definition limits_ok :: "rat \<Rightarrow> rat \<Rightarrow> pid_type_def \<Rightarrow> bool" where
  "limits_ok M N p \<longleftrightarrow> bounded M (max_out p) \<and> 0 \<le> val (max_out p) \<and> bounded N (max_iout p) \<and> 0 \<le> val (max_iout p)"

text \<open>
  The state a running controller keeps: gains bounded by \<open>G\<close>, past errors by \<open>E\<close>, the output by
  \<open>M\<close> and the integral by \<open>N\<close>; the product of gain and error leaves room below the largest finite number.
\<close>

definition gains_ok :: "rat \<Rightarrow> rat \<Rightarrow> rat \<Rightarrow> pid_type_def \<Rightarrow> bool" where
  "gains_ok G M N p \<longleftrightarrow> bounded G (Kp p) \<and> bounded G (Ki p) \<and> bounded G (Kd p) \<and> limits_ok M N p"

definition room :: "rat \<Rightarrow> rat \<Rightarrow> rat \<Rightarrow> rat \<Rightarrow> bool" where
  "room G E M N \<longleftrightarrow> 1 \<le> G \<and> 1 \<le> E \<and> G * E \<le> 2 ^ 100 \<and> 0 \<le> M \<and> M \<le> 2 ^ 100 \<and> 0 \<le> N \<and> N \<le> 2 ^ 100"

definition pid_inv :: "rat \<Rightarrow> rat \<Rightarrow> rat \<Rightarrow> rat \<Rightarrow> pid_type_def \<Rightarrow> bool" where
  "pid_inv G E M N p \<longleftrightarrow> gains_ok G M N p \<and> bounded E (error0 p) \<and> bounded E (error1 p) \<and> bounded E (error2 p) \<and>
     bounded M (pid_out p) \<and> (pid_mode p = PID_POSITION \<longrightarrow> bounded N (Iout p))"

lemma room_facts:
  assumes "room G E M N"
  obtains X where "X = G * E" "1 \<le> X" "E \<le> X" "X \<le> 2 ^ 100" "0 \<le> M" "M \<le> 2 ^ 100" "1 \<le> E" "0 \<le> N" "N \<le> 2 ^ 100"
proof (rule that [OF refl])
  have g: "1 \<le> G" "1 \<le> E" using assms by (auto simp: room_def)
  then show "E \<le> G * E" using mult_right_mono [of 1 G E] by simp
  then show "1 \<le> G * E" using g by linarith
qed (use assms in \<open>auto simp: room_def\<close>)

lemma bounded_gain:
  assumes "bounded G k" "bounded (c * E) e" "X = G * E" "1 \<le> X" "X \<le> 2 ^ 100" "1 \<le> c" "c \<le> 2 ^ 20"
  shows "bounded (2 * c * X) (fmul k e)"
proof -
  have g: "G * (c * E) = c * X" by (simp add: assms(3))
  have cX: "c * X \<le> 2 ^ 20 * 2 ^ 100" "1 * 1 \<le> c * X" using assms by (intro mult_mono; simp)+
  have "2 * (c * X) \<le> 2 * (2 ^ 20 * 2 ^ 100)" using cX(1) by (rule mult_left_mono) simp
  also have "\<dots> < (2 :: rat) ^ 128" by simp
  finally have "1 \<le> G * (c * E)" "2 * (G * (c * E)) < 2 ^ 128" using cX(2) by (simp_all only: g mult_1)
  then have "bounded (2 * (G * (c * E))) (fmul k e)" by (intro bounded_mul assms(1,2))
  then show ?thesis by (simp add: g mult.assoc)
qed

lemma position_terms:
  assumes r: "room G E M N" and b: "bounded G kp" "bounded G ki" "bounded G kd" "bounded E e0" "bounded E e1" "bounded N i"
  shows "bounded (2 ^ 110) (fadd i (fmul ki e0))"
    "bounded N i' \<Longrightarrow> bounded (2 ^ 110) (fadd (fadd (fmul kp e0) i') (fmul kd (fsub e0 e1)))"
proof -
  obtain X where X: "X = G * E" "1 \<le> X" "E \<le> X" "X \<le> 2 ^ 100" "0 \<le> M" "M \<le> 2 ^ 100" "1 \<le> E" "0 \<le> N" "N \<le> 2 ^ 100"
    using r by (rule room_facts)
  note gain = bounded_gain [OF _ _ X(1,2,4)]
  have p: "bounded (2 * 1 * X) (fmul kp e0)" by (rule gain) (use b in simp_all)
  have "bounded (2 * (E + E)) (fsub e0 e1)" by (rule bounded_sub [OF b(4,5)]) (use X(2-9) in simp)+
  then have d: "bounded (2 * 4 * X) (fmul kd (fsub e0 e1))" by (intro gain) (use b in \<open>simp_all add: algebra_simps\<close>)
  have k: "bounded (2 * 1 * X) (fmul ki e0)" by (rule gain) (use b in simp_all)
  show "bounded (2 ^ 110) (fadd i (fmul ki e0))"
    by (rule bounded_mono [OF bounded_add [OF b(6) k]]) (use X(2-9) in simp)+
  show "bounded (2 ^ 110) (fadd (fadd (fmul kp e0) i') (fmul kd (fsub e0 e1)))" if i: "bounded N i'"
    by (rule bounded_mono [OF bounded_add [OF bounded_add [OF p i] d]]) (use X(2-9) in simp)+
qed

lemma delta_terms:
  assumes r: "room G E M N" and b: "bounded G kp" "bounded G ki" "bounded G kd" "bounded E e0" "bounded E e1" "bounded E e2" "bounded M o0"
  shows "bounded (2 ^ 110) (fadd o0 (fadd (fadd (fmul kp (fsub e0 e1)) (fmul ki e0))
           (fmul kd (fadd (fsub e0 (fmul f2 e1)) e2))))"
proof -
  obtain X where X: "X = G * E" "1 \<le> X" "E \<le> X" "X \<le> 2 ^ 100" "0 \<le> M" "M \<le> 2 ^ 100" "1 \<le> E" "0 \<le> N" "N \<le> 2 ^ 100"
    using r by (rule room_facts)
  note gain = bounded_gain [OF _ _ X(1,2,4)]
  have "bounded (2 * (E + E)) (fsub e0 e1)" by (rule bounded_sub [OF b(4,5)]) (use X(2-9) in simp)+
  then have p: "bounded (2 * 4 * X) (fmul kp (fsub e0 e1))" by (intro gain) (use b in \<open>simp_all add: algebra_simps\<close>)
  have i: "bounded (2 * 1 * X) (fmul ki e0)" by (rule gain) (use b in simp_all)
  have "bounded (2 * (2 * E)) (fmul f2 e1)" by (rule bounded_mul [OF _ b(5)]) (simp, (use X(2-9) in simp)+)
  then have "bounded (2 * (E + 2 * (2 * E))) (fsub e0 (fmul f2 e1))"
    by (rule bounded_sub [OF b(4)]) (use X(2-9) in simp)+
  then have "bounded (2 * (2 * (E + 2 * (2 * E)) + E)) (fadd (fsub e0 (fmul f2 e1)) e2)"
    by (rule bounded_add [OF _ b(6)]) (use X(2-9) in simp)+
  then have d: "bounded (2 * 22 * X) (fmul kd (fadd (fsub e0 (fmul f2 e1)) e2))"
    by (intro gain) (use b in \<open>simp_all add: algebra_simps\<close>)
  show ?thesis
    by (rule bounded_mono [OF bounded_add [OF b(7) bounded_add [OF bounded_add [OF p i] d]]]) (use X(2-9) in simp)+
qed

subsection \<open>One step of a running controller\<close>

lemma pid_inv_step:
  assumes r: "room G E M N" and p: "pid_inv G E M N p" and e: "bounded E (fsub st ref)"
  obtains p' where "PID_calc (Some p) ref st = (Some p', pid_out p')" "pid_inv G E M N p'"
    "pid_mode p' = pid_mode p"
proof -
  note i = p [unfolded pid_inv_def gains_ok_def limits_ok_def]
  have big: "(2 :: rat) ^ 110 < 2 ^ 128" by simp
  have lim: "bounded B (LimitMax x m)" if "bounded (2 ^ 110) x" "bounded B m" "0 \<le> val m" for x m B
    using that bounded_ok [OF that(1) big] bounded_not_NaN [OF that(1)] by (intro LimitMax_bounded)
  consider (pos) "pid_mode p = PID_POSITION" | (del) "pid_mode p = PID_DELTA" "pid_mode p \<noteq> PID_POSITION"
    | (other) "pid_mode p \<noteq> PID_POSITION" "pid_mode p \<noteq> PID_DELTA" by blast
  then show thesis
  proof cases
    case pos
    define io where "io = LimitMax (fadd (Iout p) (fmul (Ki p) (fsub st ref))) (max_iout p)"
    have io: "bounded N io" unfolding io_def
      by (rule lim [OF position_terms(1) [OF r, where kp = "Kp p" and kd = "Kd p" and ?e1.0 = "error0 p"]]) (use i e pos in auto)
    have o: "bounded M (LimitMax (fadd (fadd (fmul (Kp p) (fsub st ref)) io) (fmul (Kd p) (fsub (fsub st ref) (error0 p)))) (max_out p))"
      by (rule lim [OF position_terms(2) [OF r, where ki = "Ki p" and i = "Iout p"]]) (use i e pos io in auto)
    show thesis
      by (rule that [of "the (fst (PID_calc (Some p) ref st))"]) (use i e io o in \<open>simp_all add: pos Let_def pid_inv_def gains_ok_def limits_ok_def io_def\<close>)
  next
    case del
    have o: "bounded M (LimitMax (fadd (pid_out p) (fadd (fadd (fmul (Kp p) (fsub (fsub st ref) (error0 p))) (fmul (Ki p) (fsub st ref)))
          (fmul (Kd p) (fadd (fsub (fsub st ref) (fmul f2 (error0 p))) (error1 p))))) (max_out p))"
      by (rule lim [OF delta_terms [OF r]]) (use i e in auto)
    show thesis
      by (rule that [of "the (fst (PID_calc (Some p) ref st))"]) (use i e o del in \<open>simp_all add: Let_def pid_inv_def gains_ok_def limits_ok_def\<close>)
  next
    case other
    show thesis
      by (rule that [of "the (fst (PID_calc (Some p) ref st))"]) (use i e other in \<open>simp_all add: Let_def pid_inv_def gains_ok_def limits_ok_def\<close>)
  qed
qed

lemma pid_inv_run:
  assumes r: "room G E M N" and "pid_inv G E M N p" "\<forall>x \<in> set xs. bounded E (fsub (snd x) (fst x))"
  shows "\<exists>p' ys. PID_run (Some p) xs = (Some p', ys) \<and> pid_inv G E M N p' \<and> pid_mode p' = pid_mode p \<and> length ys = length xs \<and>
           (\<forall>y \<in> set ys. bounded M y)"
  using assms(2,3)
proof (induction xs arbitrary: p)
  case (Cons x xs)
  obtain p1 where p1: "PID_calc (Some p) (fst x) (snd x) = (Some p1, pid_out p1)" "pid_inv G E M N p1" "pid_mode p1 = pid_mode p"
    using pid_inv_step [OF r Cons.prems(1), of "snd x" "fst x"] Cons.prems(2) by auto
  then have "bounded M (pid_out p1)" by (simp add: pid_inv_def)
  moreover obtain p' ys where "PID_run (Some p1) xs = (Some p', ys)" "pid_inv G E M N p'" "pid_mode p' = pid_mode p1" "length ys = length xs"
    "\<forall>y \<in> set ys. bounded M y"
    using Cons.IH [OF p1(2)] Cons.prems(2) by auto
  ultimately show ?case using p1(1,3) by simp
qed simp

lemma pid_inv_init:
  assumes "room G E M N" "bounded G kp" "bounded G ki" "bounded G kd" "bounded M mo" "0 \<le> val mo" "bounded N mi" "0 \<le> val mi"
  obtains p' where "PID_init (Some p) mode (Some (kp, ki, kd)) mo mi = Some p'" "pid_inv G E M N p'" "pid_mode p' = mode"
  by (rule that) (use assms in \<open>auto simp: pid_inv_def gains_ok_def limits_ok_def room_def\<close>)

subsection \<open>Properties\<close>


definition pid_zero :: pid_type_def where
  "pid_zero = \<lparr>pid_mode = 0, Kp = f0, Ki = f0, Kd = f0, max_out = f0, max_iout = f0, pid_set = f0, pid_fdb = f0,
     pid_out = f0, Pout = f0, Iout = f0, Dout = f0, Dbuf0 = f0, Dbuf1 = f0, Dbuf2 = f0, error0 = f0, error1 = f0, error2 = f0\<rparr>"


lemma PID_run_NaN:
  assumes "pid_mode p = PID_POSITION" "Iout p = NaN"
  shows "\<exists>p'. PID_run (Some p) xs = (Some p', replicate (length xs) NaN) \<and> Iout p' = NaN"
  using assms
proof (induction xs arbitrary: p)
  case (Cons x xs)
  define q where "q = fst (PID_calc (Some p) (fst x) (snd x))"
  have "PID_calc (Some p) (fst x) (snd x) = (Some (the q), NaN)" "pid_mode (the q) = PID_POSITION" "Iout (the q) = NaN"
    using Cons.prems by (simp_all add: q_def Let_def LimitMax_NaN)
  then show ?case using Cons.IH [of "the q"] by auto
qed auto

text \<open>
  NaN is not limited: one feedback value that is not a number makes the integral of a position controller
  NaN, and from then on every output is NaN, whatever the later measurements are.
\<close>

theorem PID_NaN_sticks:
  assumes "pid_mode p = PID_POSITION"
  shows "\<exists>p'. PID_run (Some p) ((NaN, st) # xs) = (Some p', replicate (Suc (length xs)) NaN) \<and> Iout p' = NaN"
proof -
  define q where "q = fst (PID_calc (Some p) NaN st)"
  have "PID_calc (Some p) NaN st = (Some (the q), NaN)" "pid_mode (the q) = PID_POSITION" "Iout (the q) = NaN"
    using assms by (simp_all add: q_def Let_def LimitMax_NaN)
  then show ?thesis using PID_run_NaN [of "the q" xs] by auto
qed

theorem PID_NaN_sticks_witness:
  "pid_mode pid_zero = PID_POSITION \<and>
   (\<exists>p'. PID_run (Some pid_zero) ((NaN, f32_of 1) # [(f32_of 1, f32_of 1)]) = (Some p', replicate 2 NaN) \<and> Iout p' = NaN)"
proof -
  have m: "pid_mode pid_zero = PID_POSITION" by (simp add: pid_zero_def PID_POSITION_def)
  from PID_NaN_sticks [OF this, of "f32_of 1" "[(f32_of 1, f32_of 1)]"] m show ?thesis by (simp add: numeral_2_eq_2 del: PID_run.simps)
qed

text \<open>
  \<open>PID_clear\<close> restarts a controller: from a cleared controller every sequence of inputs produces the outputs it
  produces from a freshly initialised one with the same mode, gains and limits, and ends in the same state
  once a step has been made.
\<close>

theorem PID_clear_restarts:
  "snd (PID_run (PID_clear (Some p)) xs) =
     snd (PID_run (PID_init (Some q) (pid_mode p) (Some (Kp p, Ki p, Kd p)) (max_out p) (max_iout p)) xs) \<and>
   (xs \<noteq> [] \<longrightarrow>
     fst (PID_run (PID_clear (Some p)) xs) =
     fst (PID_run (PID_init (Some q) (pid_mode p) (Some (Kp p, Ki p, Kd p)) (max_out p) (max_iout p)) xs))"
proof (cases xs)
  case (Cons x ys)
  have "PID_calc (PID_clear (Some p)) (fst x) (snd x) =
      PID_calc (PID_init (Some q) (pid_mode p) (Some (Kp p, Ki p, Kd p)) (max_out p) (max_iout p)) (fst x) (snd x)"
    by (cases p; cases q) (simp add: Let_def)
  then show ?thesis by (simp add: Cons del: PID_calc.simps PID_init.simps PID_clear.simps)
qed simp

theorem PID_clear_restarts_witness:
  "fst (PID_run (PID_clear (Some (pid_zero\<lparr>pid_out := f32_of 3\<rparr>))) [(f0, f0)]) =
   fst (PID_run (PID_init (Some pid_zero) 0 (Some (f0, f0, f0)) f0 f0) [(f0, f0)])"
  using PID_clear_restarts [of "pid_zero\<lparr>pid_out := f32_of 3\<rparr>" "[(f0, f0)]" pid_zero]
  by (simp add: pid_zero_def)

end
