(* ===== verification/Can_Receive.thy ===== *)
theory Can_Receive
  imports RM_Prelude
begin

text \<open>
  The CAN frames of the motor controllers (\<open>src/dji/CAN_receive.c\<close>): the commands that pack four 16-bit
  currents into a data frame, the macro that unpacks a motor's feedback frame, and the accessors of the
  measurement table.  \<open>HAL_CAN_AddTxMessage\<close> belongs to the vendor's library: a command returns the call it
  makes, the bus with the header and the data bytes.
\<close>

datatype can_bus = hcan1 | hcan2

definition CHASSIS_CAN :: can_bus where "CHASSIS_CAN = hcan1"

definition GIMBAL_CAN :: can_bus where "GIMBAL_CAN = hcan2"

definition CAN_CHASSIS_ALL_ID :: "u32" where "CAN_CHASSIS_ALL_ID = 0x1FF"

definition CAN_GIMBAL_ALL_ID :: "u32" where "CAN_GIMBAL_ALL_ID = 0x1FF"

definition CAN_ID_STD :: "u32" where "CAN_ID_STD = 0"

definition CAN_RTR_DATA :: "u32" where "CAN_RTR_DATA = 0"

record motor_measure_t =
  ecd :: "u16"
  speed_rpm :: "u16"
  given_current :: "u16"
  temperate :: "u8"
  last_ecd :: "u16"

record CAN_TxHeader =
  StdId :: "u32"
  ExtId :: "u32"
  IDE :: "u32"
  RTR :: "u32"
  DLC :: "u32"

record can_state =
  motor_chassis :: "motor_measure_t list"
  gimbal_tx_message :: CAN_TxHeader
  gimbal_can_send_data :: "u8 list"
  chassis_tx_message :: CAN_TxHeader
  chassis_can_send_data :: "u8 list"

type_synonym can_call = "can_bus \<times> CAN_TxHeader \<times> u8 list"

text \<open>The macro widens the bytes to \<open>int\<close>, shifts, joins and truncates to 16 bits.\<close>

definition be16 :: "u8 \<Rightarrow> u8 \<Rightarrow> u16" where
  "be16 a b = ucast (push_bit 8 (ucast a :: u32) OR ucast b)"

definition get_motor_measure :: "motor_measure_t \<Rightarrow> u8 list \<Rightarrow> motor_measure_t" where
  "get_motor_measure m d =
     (let m = m\<lparr>last_ecd := ecd m\<rparr>;
          m = m\<lparr>ecd := be16 (d ! 0) (d ! 1)\<rparr>;
          m = m\<lparr>speed_rpm := be16 (d ! 2) (d ! 3)\<rparr>;
          m = m\<lparr>given_current := be16 (d ! 4) (d ! 5)\<rparr>
      in m\<lparr>temperate := d ! 6\<rparr>)"

text \<open>A 16-bit signed value stored into two bytes: \<open>x >> 8\<close> is an arithmetic shift, both stores truncate.\<close>

definition hi_byte :: "u16 \<Rightarrow> u8" where
  "hi_byte x = ucast (signed_drop_bit 8 (scast x :: u32))"

definition lo_byte :: "u16 \<Rightarrow> u8" where
  "lo_byte x = ucast (scast x :: u32)"

definition tx_header :: "u32 \<Rightarrow> CAN_TxHeader \<Rightarrow> CAN_TxHeader" where
  "tx_header i h = h\<lparr>StdId := i, IDE := CAN_ID_STD, RTR := CAN_RTR_DATA, DLC := 8\<rparr>"

definition CAN_cmd_gimbal :: "u16 \<Rightarrow> u16 \<Rightarrow> u16 \<Rightarrow> u16 \<Rightarrow> can_state \<Rightarrow> can_state \<times> can_call" where
  "CAN_cmd_gimbal yaw pitch shoot rev0 s =
     (let s = s\<lparr>gimbal_tx_message := tx_header CAN_GIMBAL_ALL_ID (gimbal_tx_message s),
                gimbal_can_send_data := [hi_byte yaw, lo_byte yaw, hi_byte pitch, lo_byte pitch,
                                         hi_byte shoot, lo_byte shoot, hi_byte rev0, lo_byte rev0]\<rparr>
      in (s, (GIMBAL_CAN, gimbal_tx_message s, gimbal_can_send_data s)))"

definition CAN_cmd_chassis_reset_ID :: "can_state \<Rightarrow> can_state \<times> can_call" where
  "CAN_cmd_chassis_reset_ID s =
     (let s = s\<lparr>chassis_tx_message := tx_header 0x700 (chassis_tx_message s),
                chassis_can_send_data := [0, 0, 0, 0, 0, 0, 0, 0]\<rparr>
      in (s, (CHASSIS_CAN, chassis_tx_message s, chassis_can_send_data s)))"

definition CAN_cmd_chassis :: "u16 \<Rightarrow> u16 \<Rightarrow> u16 \<Rightarrow> u16 \<Rightarrow> can_state \<Rightarrow> can_state \<times> can_call" where
  "CAN_cmd_chassis motor1 motor2 motor3 motor4 s =
     (let s = s\<lparr>chassis_tx_message := tx_header CAN_CHASSIS_ALL_ID (chassis_tx_message s),
                chassis_can_send_data := [hi_byte motor1, lo_byte motor1, hi_byte motor2, lo_byte motor2,
                                          hi_byte motor3, lo_byte motor3, hi_byte motor4, lo_byte motor4]\<rparr>
      in (s, (CHASSIS_CAN, chassis_tx_message s, chassis_can_send_data s)))"

definition get_yaw_gimbal_motor_measure_point :: nat where
  "get_yaw_gimbal_motor_measure_point = 4"

definition get_pitch_gimbal_motor_measure_point :: nat where
  "get_pitch_gimbal_motor_measure_point = 5"

definition get_trigger_motor_measure_point :: nat where
  "get_trigger_motor_measure_point = 6"

text \<open>A pointer into the table is the index of the entry.\<close>

definition get_chassis_motor_measure_point :: "u8 \<Rightarrow> nat" where
  "get_chassis_motor_measure_point i = unat (i AND 3)"

subsection \<open>Bytes\<close>

lemma be16_bytes [simp]: "be16 (hi_byte x) (lo_byte x) = x"
proof (rule bit_eqI)
  fix n assume "possible_bit TYPE(u16) n"
  then have n: "n < 16" by simp
  show "bit (be16 (hi_byte x) (lo_byte x)) n = bit x n"
    using n by (cases "n < 8")
      (auto simp: be16_def hi_byte_def lo_byte_def bit_simps)
qed

lemma bytes_be16 [simp]: "hi_byte (be16 a b) = a" "lo_byte (be16 a b) = b"
proof -
  show "hi_byte (be16 a b) = a"
  proof (rule bit_eqI)
    fix n assume "possible_bit TYPE(u8) n"
    then have n: "n < 8" by simp
    have "\<not> bit b (8 + n)" using bit_imp_le_length [of b "8 + n"] by auto
    then show "bit (hi_byte (be16 a b)) n = bit a n"
      using n by (auto simp: be16_def hi_byte_def bit_simps)
  qed
  show "lo_byte (be16 a b) = b"
    by (rule bit_eqI) (auto simp: be16_def lo_byte_def bit_simps)
qed

text \<open>What the receiver of a command frame reads: the signed currents of the four controllers.\<close>

definition frame_currents :: "u8 list \<Rightarrow> int list" where
  "frame_currents d = map (\<lambda>k. sint (be16 (d ! (2 * k)) (d ! (2 * k + 1)))) [0, 1, 2, 3]"

subsection \<open>Properties\<close>

text \<open>C35.
  A chassis command puts exactly one eight-byte standard data frame with identifier 0x1FF on the first
  bus; reading its bytes back as big-endian signed numbers gives the four commanded currents, and the
  gimbal's buffers and the measurements are left alone.
\<close>

theorem CAN_cmd_chassis_roundtrip:
  "\<exists>s' h d. CAN_cmd_chassis m1 m2 m3 m4 s = (s', (hcan1, h, d)) \<and>
     StdId h = 0x1FF \<and> IDE h = CAN_ID_STD \<and> RTR h = CAN_RTR_DATA \<and> unat (DLC h) = length d \<and> length d = 8 \<and>
     frame_currents d = [sint m1, sint m2, sint m3, sint m4] \<and>
     motor_chassis s' = motor_chassis s \<and> gimbal_tx_message s' = gimbal_tx_message s \<and>
     gimbal_can_send_data s' = gimbal_can_send_data s"
  by (simp add: CAN_cmd_chassis_def tx_header_def Let_def CHASSIS_CAN_def CAN_CHASSIS_ALL_ID_def frame_currents_def)

text \<open>
  Chassis and gimbal commands carry the same identifier but never meet: they go to different buses and use
  different buffers, so that commands of the two kinds can be issued in either order with the same
  frames and the same resulting buffers.
\<close>

theorem CAN_cmd_independent:
  "let (s1, c1) = CAN_cmd_chassis a b c d s; (s2, g2) = CAN_cmd_gimbal e f g h s1;
       (t1, g1) = CAN_cmd_gimbal e f g h s; (t2, c2) = CAN_cmd_chassis a b c d t1
   in s2 = t2 \<and> c1 = c2 \<and> g1 = g2 \<and> fst c1 \<noteq> fst g1 \<and> StdId (fst (snd c1)) = StdId (fst (snd g1))"
  by (simp add: CAN_cmd_chassis_def CAN_cmd_gimbal_def tx_header_def Let_def CHASSIS_CAN_def GIMBAL_CAN_def
      CAN_CHASSIS_ALL_ID_def CAN_GIMBAL_ALL_ID_def)

text \<open>
  The feedback macro recovers angle, speed, current and temperature from a frame that carries them as
  big-endian numbers, and keeps the previous angle; negative speeds survive.
\<close>

theorem get_motor_measure_decodes:
  "get_motor_measure m [hi_byte e, lo_byte e, hi_byte r, lo_byte r, hi_byte c, lo_byte c, t, u] =
     \<lparr>ecd = e, speed_rpm = r, given_current = c, temperate = t, last_ecd = ecd m\<rparr>"
  by (cases m) (simp add: get_motor_measure_def Let_def numeral_eq_Suc)

lemma chassis_index: "get_chassis_motor_measure_point i = unat i mod 4"
proof -
  have "i AND 3 = take_bit 2 i" by (simp add: take_bit_eq_mask mask_eq_exp_minus_1)
  moreover have "unat (take_bit 2 i) = take_bit 2 (unat i)" by (rule unsigned_take_bit_eq)
  ultimately show ?thesis by (simp add: get_chassis_motor_measure_point_def take_bit_eq_mod)
qed

text \<open>
  Every accessor stays inside the seven entries of the table whatever number it is given, and the chassis
  motors never share an entry with the yaw, pitch or trigger motor.
\<close>

theorem motor_measure_points:
  "get_chassis_motor_measure_point i < 4 \<and>
   get_chassis_motor_measure_point i \<notin> {get_yaw_gimbal_motor_measure_point, get_pitch_gimbal_motor_measure_point, get_trigger_motor_measure_point} \<and>
   {get_yaw_gimbal_motor_measure_point, get_pitch_gimbal_motor_measure_point, get_trigger_motor_measure_point} = {4..<7} \<and>
   get_chassis_motor_measure_point (word_of_nat k) = k mod 4"
proof -
  have "unat i mod 4 < 4" by simp
  moreover have "k mod 256 mod 4 = k mod 4" by (rule mod_mod_cancel) simp
  ultimately show ?thesis
    by (auto simp: chassis_index get_yaw_gimbal_motor_measure_point_def get_pitch_gimbal_motor_measure_point_def
        get_trigger_motor_measure_point_def unat_of_nat)
qed

end
