(* ===== verification/Detect_Task.thy ===== *)
theory Detect_Task
  imports RM_Prelude Float32
begin

text \<open>
  Supervision of the devices (\<open>src/dji/detect_task.c\<close>): every device calls \<open>detect_hook\<close> when its data
  arrive, the detection task scans the table every ten ticks and other tasks ask \<open>toe_is_error\<close>.  The tick
  count is an argument.  The three function pointers of an entry are callbacks on a state \<open>'w\<close> of their own;
  an access outside the table is undefined behaviour and the value \<open>None\<close>.
\<close>

record 'w error_t =
  new_time :: u32
  last_time :: u32
  lost_time :: u32
  work_time :: u32
  set_offline_time :: u16
  set_online_time :: u16
  enable :: u8
  priority :: u8
  error_exist :: u8
  is_lost :: u8
  data_is_error :: u8
  frequency :: f32
  data_is_error_fun :: "('w \<Rightarrow> u8 \<times> 'w) option"
  solve_lost_fun :: "('w \<Rightarrow> 'w) option"
  solve_data_error_fun :: "('w \<Rightarrow> 'w) option"

type_synonym 'w error_list = "'w error_t list"

definition ERROR_LIST_LENGHT :: nat where "ERROR_LIST_LENGHT = 14"

definition configTICK_RATE_HZ :: u32 where "configTICK_RATE_HZ = 1000"

text \<open>Offline time, online time and priority of the devices.\<close>

definition set_item :: "(u16 \<times> u16 \<times> u16) list" where
  "set_item =
     [(30, 40, 15), (10, 10, 11), (10, 10, 10), (10, 10, 9), (10, 10, 8), (2, 3, 14), (2, 3, 13),
      (10, 10, 12), (2, 3, 7), (5, 5, 7), (40, 200, 7), (100, 100, 5), (10, 10, 7), (100, 100, 1)]"

text \<open>The times are bit fields of 12 bits, the priority of 4.\<close>

definition init_entry :: "u32 \<Rightarrow> u16 \<times> u16 \<times> u16 \<Rightarrow> 'w error_t \<Rightarrow> 'w error_t" where
  "init_entry t = (\<lambda>(off, on, pri) e.
     e\<lparr>set_offline_time := take_bit 12 off, set_online_time := take_bit 12 on, priority := ucast (take_bit 4 pri),
       data_is_error_fun := None, solve_lost_fun := None, solve_data_error_fun := None,
       enable := 1, error_exist := 1, is_lost := 1, data_is_error := 1, frequency := Fin False 0,
       new_time := t, last_time := t, lost_time := t, work_time := t\<rparr>)"

definition detect_init :: "u32 \<Rightarrow> 'w error_list \<Rightarrow> 'w error_list" where
  "detect_init t L =
     fold (\<lambda>i L. L[i := init_entry t (set_item ! i) (L ! i)]) [0..<ERROR_LIST_LENGHT] L"

definition f32_of_u32 :: "u32 \<Rightarrow> f32" where
  "f32_of_u32 w = f32_of (of_nat (unat w))"

definition offline :: "u32 \<Rightarrow> 'w error_t \<Rightarrow> bool" where
  "offline now e \<longleftrightarrow> ucast (set_offline_time e) < now - new_time e"

definition settling :: "u32 \<Rightarrow> 'w error_t \<Rightarrow> bool" where
  "settling now e \<longleftrightarrow> now - work_time e < ucast (set_online_time e)"

text \<open>One turn of the for loop: the table, the number of the error to display and the callbacks' state.\<close>

definition detect_item :: "u32 \<Rightarrow> nat \<Rightarrow> 'w error_list \<times> nat \<times> 'w \<Rightarrow> 'w error_list \<times> nat \<times> 'w" where
  "detect_item now i = (\<lambda>(L, d, w).
     if enable (L ! i) = 0 then (L, d, w)
     else if offline now (L ! i) then
       let L = (if error_exist (L ! i) = 0
                then L[i := (L ! i)\<lparr>is_lost := 1, error_exist := 1, lost_time := now\<rparr>] else L);
           d = (if priority (L ! d) < priority (L ! i) then i else d);
           L = L[ERROR_LIST_LENGHT := (L ! ERROR_LIST_LENGHT)\<lparr>is_lost := 1, error_exist := 1\<rparr>];
           w = (case solve_lost_fun (L ! i) of None \<Rightarrow> w | Some f \<Rightarrow> f w)
       in (L, d, w)
     else if settling now (L ! i) then
       (L[i := (L ! i)\<lparr>is_lost := 0, error_exist := 1\<rparr>], d, w)
     else
       let L = L[i := (L ! i)\<lparr>is_lost := 0\<rparr>];
           L = L[i := (L ! i)\<lparr>error_exist := (if data_is_error (L ! i) \<noteq> 0 then 1 else 0)\<rparr>];
           L = (if last_time (L ! i) < new_time (L ! i)
                then L[i := (L ! i)\<lparr>frequency := fdiv (f32_of_u32 configTICK_RATE_HZ)
                                                (f32_of_u32 (new_time (L ! i) - last_time (L ! i)))\<rparr>] else L)
       in (L, d, w))"

text \<open>One turn of the task's endless loop, up to the delay.\<close>

definition detect_scan :: "u32 \<Rightarrow> 'w error_list \<times> 'w \<Rightarrow> 'w error_list \<times> nat \<times> 'w" where
  "detect_scan now = (\<lambda>(L, w).
     fold (detect_item now) [0..<ERROR_LIST_LENGHT]
       (L[ERROR_LIST_LENGHT := (L ! ERROR_LIST_LENGHT)\<lparr>is_lost := 0, error_exist := 0\<rparr>], ERROR_LIST_LENGHT, w))"

definition toe_is_error :: "u8 \<Rightarrow> 'w error_list \<Rightarrow> bool option" where
  "toe_is_error toe L = (if unat toe < length L then Some (error_exist (L ! unat toe) = 1) else None)"

definition detect_hook :: "u8 \<Rightarrow> u32 \<Rightarrow> 'w error_list \<times> 'w \<Rightarrow> ('w error_list \<times> 'w) option" where
  "detect_hook toe now = (\<lambda>(L, w).
     if unat toe < length L then
       let i = unat toe; e = L ! i;
           e = e\<lparr>last_time := new_time e\<rparr>;
           e = e\<lparr>new_time := now\<rparr>;
           e = (if is_lost e \<noteq> 0 then e\<lparr>is_lost := 0, work_time := new_time e\<rparr> else e)
       in Some (case data_is_error_fun e of
            None \<Rightarrow> (L[i := e\<lparr>data_is_error := 0\<rparr>], w)
          | Some f \<Rightarrow>
              (case f w of (r, w) \<Rightarrow>
                 if r \<noteq> 0 then
                   (L[i := e\<lparr>error_exist := 1, data_is_error := 1\<rparr>],
                    case solve_data_error_fun e of None \<Rightarrow> w | Some g \<Rightarrow> g w)
                 else (L[i := e\<lparr>data_is_error := 0\<rparr>], w)))
     else None)"

definition get_error_list_point :: "'w error_list \<Rightarrow> 'w error_list" where
  "get_error_list_point L = L"

text \<open>The task from its start: initialisation, then hooks of the devices and scans in any order.\<close>

datatype devent = Hook u8 u32 | Scan u32

fun detect_step :: "devent \<Rightarrow> 'w error_list \<times> 'w \<Rightarrow> ('w error_list \<times> 'w) option" where
  "detect_step (Hook toe t) s = detect_hook toe t s"
| "detect_step (Scan t) s = (case detect_scan t s of (L, d, w) \<Rightarrow> Some (L, w))"

fun detect_run :: "devent list \<Rightarrow> 'w error_list \<times> 'w \<Rightarrow> ('w error_list \<times> 'w) option" where
  "detect_run [] s = Some s"
| "detect_run (v # vs) s = (case detect_step v s of None \<Rightarrow> None | Some s' \<Rightarrow> detect_run vs s')"

subsection \<open>What a scan does\<close>

definition lost :: "u32 \<Rightarrow> 'w error_t \<Rightarrow> bool" where
  "lost now e \<longleftrightarrow> enable e \<noteq> 0 \<and> offline now e"

text \<open>The entry of a device after a scan, as a function of the entry before.\<close>

definition scan_entry :: "u32 \<Rightarrow> 'w error_t \<Rightarrow> 'w error_t" where
  "scan_entry now e =
     (if enable e = 0 then e
      else if offline now e then
        (if error_exist e = 0 then e\<lparr>is_lost := 1, error_exist := 1, lost_time := now\<rparr> else e)
      else if settling now e then e\<lparr>is_lost := 0, error_exist := 1\<rparr>
      else e\<lparr>is_lost := 0, error_exist := (if data_is_error e \<noteq> 0 then 1 else 0),
             frequency := (if last_time e < new_time e
                           then fdiv (f32_of_u32 configTICK_RATE_HZ) (f32_of_u32 (new_time e - last_time e))
                           else frequency e)\<rparr>)"

lemma scan_entry_keeps [simp]:
  "enable (scan_entry now e) = enable e" "priority (scan_entry now e) = priority e"
  "new_time (scan_entry now e) = new_time e" "last_time (scan_entry now e) = last_time e"
  "work_time (scan_entry now e) = work_time e" "data_is_error (scan_entry now e) = data_is_error e"
  "set_offline_time (scan_entry now e) = set_offline_time e" "set_online_time (scan_entry now e) = set_online_time e"
  "data_is_error_fun (scan_entry now e) = data_is_error_fun e" "solve_lost_fun (scan_entry now e) = solve_lost_fun e"
  "solve_data_error_fun (scan_entry now e) = solve_data_error_fun e"
  by (simp_all add: scan_entry_def)

definition summary :: "bool \<Rightarrow> 'w error_t \<Rightarrow> 'w error_t" where
  "summary b e = e\<lparr>is_lost := (if b then 1 else 0), error_exist := (if b then 1 else 0)\<rparr>"

lemma summary_keeps [simp]: "priority (summary b e) = priority e" "enable (summary b e) = enable e"
  by (simp_all add: summary_def)

lemma detect_item_eq:
  assumes "length L = 15" "i < 14" "d < 15"
  shows "detect_item now i (L, d, w) =
    (if lost now (L ! i)
     then (L[i := scan_entry now (L ! i), 14 := summary True (L ! 14)],
           (if priority (L ! d) < priority (L ! i) then i else d),
           case solve_lost_fun (L ! i) of None \<Rightarrow> w | Some f \<Rightarrow> f w)
     else (L[i := scan_entry now (L ! i)], d, w))"
proof -
  have p: "priority (L[i := (L ! i)\<lparr>is_lost := 1, error_exist := 1, lost_time := now\<rparr>] ! d) = priority (L ! d)"
    using assms by (simp add: nth_list_update)
  show ?thesis using assms
    by (auto simp: detect_item_def lost_def scan_entry_def summary_def Let_def ERROR_LIST_LENGHT_def p)
qed

text \<open>The table after the first \<open>k\<close> turns of the loop.\<close>

definition scanned :: "u32 \<Rightarrow> 'w error_list \<Rightarrow> nat \<Rightarrow> 'w error_list \<times> nat \<times> 'w \<Rightarrow> bool" where
  "scanned now L k = (\<lambda>(M, d, w). length M = 15 \<and> d < 15 \<and>
     (\<forall>j < 14. M ! j = (if j < k then scan_entry now (L ! j) else L ! j)) \<and>
     M ! 14 = summary (\<exists>j < k. lost now (L ! j)) (L ! 14) \<and>
     (if d = 14 then True else d < k \<and> lost now (L ! d)) \<and>
     (\<forall>j < k. lost now (L ! j) \<longrightarrow> priority (L ! j) \<le> priority (L ! d)))"

lemma scanned_priority:
  assumes "scanned now L k (M, d, w)" "j < 15"
  shows "priority (M ! j) = priority (L ! j)"
proof (cases "j < 14")
  case False
  then have "j = 14" using assms(2) by simp
  then show ?thesis using assms(1) by (auto simp: scanned_def)
qed (use assms in \<open>auto simp: scanned_def\<close>)

lemma scanned_step:
  assumes L: "length L = 15" and s: "scanned now L k s" and k: "k < 14"
  shows "scanned now L (Suc k) (detect_item now k s)"
proof -
  obtain M d w where s': "s = (M, d, w)" by (cases s)
  note i = s [unfolded s' scanned_def prod.case]
  have Mk: "M ! k = L ! k" and M: "length M = 15" and d: "d < 15" using i k by auto
  have pd: "priority (M ! d) = priority (L ! d)" by (rule scanned_priority [OF s [unfolded s'] d])
  note eq = detect_item_eq [OF M k d, of now w, unfolded Mk pd]
  show ?thesis
  proof (cases "lost now (L ! k)")
    case True
    define d' where "d' = (if priority (L ! d) < priority (L ! k) then k else d)"
    have "M[k := scan_entry now (L ! k), 14 := summary True (M ! 14)] ! j = (if j < Suc k then scan_entry now (L ! j) else L ! j)"
      if "j < 14" for j using i that k M by (auto simp: nth_list_update less_Suc_eq)
    moreover have "(\<exists>j < Suc k. lost now (L ! j))" using True by blast
    moreover have "summary True (M ! 14) = summary True (L ! 14)" using i by (simp add: summary_def)
    moreover have "priority (L ! j) \<le> priority (L ! d')" if "j < Suc k" "lost now (L ! j)" for j
      using i that by (auto simp: d'_def less_Suc_eq)
    ultimately show ?thesis
      unfolding s' eq if_P [OF True] d'_def [symmetric] scanned_def prod.case
      using i True k M by (auto simp: d'_def)
  next
    case False
    have "(\<exists>j < Suc k. lost now (L ! j)) = (\<exists>j < k. lost now (L ! j))" using False by (auto simp: less_Suc_eq)
    then show ?thesis
      unfolding s' eq if_not_P [OF False] scanned_def prod.case
      using i False k M by (auto simp: nth_list_update less_Suc_eq)
  qed
qed

lemma detect_scan_spec:
  assumes "length L = 15"
  shows "scanned now L 14 (detect_scan now (L, w))"
proof -
  have "scanned now L k (fold (detect_item now) [0..<k] (L[14 := (L ! 14)\<lparr>is_lost := 0, error_exist := 0\<rparr>], 14, w))"
    if "k \<le> 14" for k using that
  proof (induction k)
    case 0
    then show ?case using assms by (simp add: scanned_def summary_def)
  next
    case (Suc k)
    then show ?case using scanned_step [OF assms Suc.IH] by simp
  qed
  then show ?thesis unfolding detect_scan_def ERROR_LIST_LENGHT_def by simp
qed

subsection \<open>The invariant of the table\<close>

definition entry_ok :: "nat \<Rightarrow> 'w error_t \<Rightarrow> bool" where
  "entry_ok i e \<longleftrightarrow>
     (set_offline_time e, set_online_time e, ucast (priority e)) = set_item ! i \<and> enable e = 1 \<and>
     error_exist e \<in> {0, 1} \<and> is_lost e \<in> {0, 1} \<and> data_is_error e \<in> {0, 1} \<and>
     data_is_error_fun e = None \<and> solve_lost_fun e = None \<and> solve_data_error_fun e = None"

definition detect_inv :: "'w error_list \<Rightarrow> bool" where
  "detect_inv L \<longleftrightarrow> length L = 15 \<and> (\<forall>i < 14. entry_ok i (L ! i))"

lemma set_item_fits:
  "list_all (\<lambda>(a, b, c). take_bit 12 a = a \<and> take_bit 12 b = b \<and> ucast (ucast (take_bit 4 c) :: u8) = c) set_item"
  by code_simp

lemma set_item_length: "length set_item = 14"
  by (simp add: set_item_def)

lemma init_entry_ok:
  assumes "i < 14"
  shows "entry_ok i (init_entry t (set_item ! i) e)"
proof -
  have "case set_item ! i of (a, b, c) \<Rightarrow> take_bit 12 a = a \<and> take_bit 12 b = b \<and> ucast (ucast (take_bit 4 c) :: u8) = c"
    using set_item_fits assms by (simp add: list_all_length set_item_length)
  then show ?thesis by (auto simp: entry_ok_def init_entry_def split: prod.splits)
qed

lemma detect_init_nth:
  assumes "length L = 15" "j < 15"
  shows "detect_init t L ! j = (if j < 14 then init_entry t (set_item ! j) (L ! j) else L ! j)"
    and "length (detect_init t L) = 15"
proof -
  have "length (fold (\<lambda>i L. L[i := init_entry t (set_item ! i) (L ! i)]) [0..<k] L) = 15 \<and>
      (\<forall>j < 15. fold (\<lambda>i L. L[i := init_entry t (set_item ! i) (L ! i)]) [0..<k] L ! j =
         (if j < k then init_entry t (set_item ! j) (L ! j) else L ! j))" if "k \<le> 14" for k
    using that assms(1) by (induction k) (auto simp: nth_list_update less_Suc_eq)
  from this [of 14] show "detect_init t L ! j = (if j < 14 then init_entry t (set_item ! j) (L ! j) else L ! j)"
    "length (detect_init t L) = 15" using assms(2) by (simp_all add: detect_init_def ERROR_LIST_LENGHT_def)
qed

lemma detect_init_inv: "length L = 15 \<Longrightarrow> detect_inv (detect_init t L)"
  using detect_init_nth(2) [of L 0 t] by (simp add: detect_inv_def detect_init_nth(1) init_entry_ok)

lemma scan_entry_ok: "entry_ok i e \<Longrightarrow> entry_ok i (scan_entry now e)"
  unfolding entry_ok_def by (auto simp: scan_entry_def)

lemma scan_inv:
  assumes "detect_inv L" "detect_scan now (L, w) = (M, d, w')"
  shows "detect_inv M" "\<And>i. i < 14 \<Longrightarrow> M ! i = scan_entry now (L ! i)"
  using detect_scan_spec [of L now w] assms by (auto simp: scanned_def detect_inv_def scan_entry_ok)

text \<open>With no callbacks installed, a hook changes one entry.\<close>

definition hook_entry :: "u32 \<Rightarrow> 'w error_t \<Rightarrow> 'w error_t" where
  "hook_entry now e =
     e\<lparr>last_time := new_time e, new_time := now, is_lost := 0,
       work_time := (if is_lost e \<noteq> 0 then now else work_time e), data_is_error := 0\<rparr>"

lemma hook_eq:
  assumes "detect_inv L" "unat toe < 14"
  shows "detect_hook toe now (L, w) = Some (L[unat toe := hook_entry now (L ! unat toe)], w)"
proof -
  have "entry_ok (unat toe) (L ! unat toe)" "length L = 15" using assms by (auto simp: detect_inv_def)
  then show ?thesis using assms(2)
    by (cases "L ! unat toe") (auto simp: detect_hook_def hook_entry_def Let_def entry_ok_def)
qed

lemma hook_inv:
  assumes "detect_inv L" "unat toe < 14"
  shows "detect_inv (L[unat toe := hook_entry now (L ! unat toe)])"
  using assms by (auto simp: detect_inv_def nth_list_update entry_ok_def hook_entry_def)

text \<open>The time a device was last seen, and whether it has been seen at all.\<close>

fun last_seen :: "nat \<Rightarrow> u32 \<Rightarrow> devent list \<Rightarrow> u32" where
  "last_seen i t [] = t"
| "last_seen i t (Hook toe now # vs) = last_seen i (if unat toe = i then now else t) vs"
| "last_seen i t (Scan now # vs) = last_seen i t vs"

definition seen :: "nat \<Rightarrow> devent list \<Rightarrow> bool" where
  "seen i vs \<longleftrightarrow> (\<exists>toe now. Hook toe now \<in> set vs \<and> unat toe = i)"

lemma seen_simps [simp]:
  "\<not> seen i []" "seen i (Hook toe t # vs) = (unat toe = i \<or> seen i vs)" "seen i (Scan t # vs) = seen i vs"
  by (auto simp: seen_def)

fun device_event :: "devent \<Rightarrow> bool" where
  "device_event (Hook toe _) = (unat toe < 14)"
| "device_event (Scan _) = True"

lemma scan_no_callbacks:
  assumes "detect_inv L"
  obtains M d where "detect_scan now (L, w) = (M, d, w)"
proof -
  have "snd (snd (fold (detect_item now) [0..<k] (M, d, w))) = w"
    if "length M = 15" "d < 15" "k \<le> 14" "\<forall>i < 14. solve_lost_fun (M ! i) = None" for k M d
  proof -
    have "case fold (detect_item now) [0..<k] (M, d, w) of (M', d', w') \<Rightarrow>
        length M' = 15 \<and> d' < 15 \<and> (\<forall>i < 14. solve_lost_fun (M' ! i) = None) \<and> w' = w"
      using that(3)
    proof (induction k)
      case (Suc k)
      then show ?case by (auto simp: detect_item_eq nth_list_update split: prod.splits)
    qed (use that in simp)
    then show ?thesis by (simp split: prod.splits)
  qed
  moreover have "\<forall>i < 14. solve_lost_fun (L ! i) = None" "length L = 15" using assms by (auto simp: detect_inv_def entry_ok_def)
  ultimately have "snd (snd (detect_scan now (L, w))) = w"
    unfolding detect_scan_def ERROR_LIST_LENGHT_def by simp
  then show thesis using that by (metis prod.collapse)
qed

lemma detect_run_spec:
  assumes "detect_inv L" "\<forall>v \<in> set vs. device_event v"
  obtains M where "detect_run vs (L, w) = Some (M, w)" "detect_inv M"
    "\<And>i. i < 14 \<Longrightarrow> new_time (M ! i) = last_seen i (new_time (L ! i)) vs"
    "\<And>i. i < 14 \<Longrightarrow> data_is_error (M ! i) = (if seen i vs then 0 else data_is_error (L ! i))"
proof -
  have "\<exists>M. detect_run vs (L, w) = Some (M, w) \<and> detect_inv M \<and>
      (\<forall>i < 14. new_time (M ! i) = last_seen i (new_time (L ! i)) vs \<and>
         data_is_error (M ! i) = (if seen i vs then 0 else data_is_error (L ! i)))"
    using assms
  proof (induction vs arbitrary: L)
    case Nil
    then show ?case by simp
  next
    case (Cons v vs)
    show ?case
    proof (cases v)
      case (Hook toe t)
      have toe: "unat toe < 14" using Cons.prems(2) Hook by simp
      note h = hook_eq [OF Cons.prems(1) toe] hook_inv [OF Cons.prems(1) toe, of t]
      have n: "new_time (L[unat toe := hook_entry t (L ! unat toe)] ! i) = (if unat toe = i then t else new_time (L ! i))"
        "data_is_error (L[unat toe := hook_entry t (L ! unat toe)] ! i) = (if unat toe = i then 0 else data_is_error (L ! i))"
        if "i < 14" for i
        using that Cons.prems(1) by (simp_all add: detect_inv_def nth_list_update hook_entry_def)
      obtain M where M: "detect_run vs (L[unat toe := hook_entry t (L ! unat toe)], w) = Some (M, w)" "detect_inv M"
        "\<forall>i < 14. new_time (M ! i) = last_seen i (new_time (L[unat toe := hook_entry t (L ! unat toe)] ! i)) vs \<and>
           data_is_error (M ! i) = (if seen i vs then 0 else data_is_error (L[unat toe := hook_entry t (L ! unat toe)] ! i))"
        using Cons.IH [OF h(2)] Cons.prems(2) by auto
      have "detect_run (v # vs) (L, w) = Some (M, w)" by (simp add: Hook h(1) M(1))
      moreover have "\<forall>i < 14. new_time (M ! i) = last_seen i (new_time (L ! i)) (v # vs) \<and>
          data_is_error (M ! i) = (if seen i (v # vs) then 0 else data_is_error (L ! i))"
        using M(3) by (simp add: n Hook)
      ultimately show ?thesis using M(2) by blast
    next
      case (Scan t)
      obtain M d where s: "detect_scan t (L, w) = (M, d, w)" using Cons.prems(1) by (rule scan_no_callbacks)
      note i = scan_inv [OF Cons.prems(1) s]
      show ?thesis using Cons.IH [OF i(1)] Cons.prems(2) i(2)
        by (auto simp: Scan s)
    qed
  qed
  then show thesis using that by blast
qed

subsection \<open>Properties\<close>

text \<open>The offline and online time of a device as numbers.\<close>

definition off_time :: "nat \<Rightarrow> u32" where
  "off_time i = ucast (fst (set_item ! i))"

definition on_time :: "nat \<Rightarrow> u32" where
  "on_time i = ucast (fst (snd (set_item ! i)))"

lemma entry_times:
  "entry_ok i e \<Longrightarrow> offline now e = (off_time i < now - new_time e) \<and> settling now e = (now - work_time e < on_time i)"
  by (auto simp: entry_ok_def offline_def settling_def off_time_def on_time_def prod_eq_iff)

lemma scan_entry_error:
  assumes "entry_ok i e"
  shows "(error_exist (scan_entry now e) = 1) =
    (off_time i < now - new_time e \<or> now - work_time e < on_time i \<or> data_is_error e \<noteq> 0)"
proof -
  have "enable e \<noteq> 0" "error_exist e = 0 \<or> error_exist e = 1" using assms by (auto simp: entry_ok_def)
  then show ?thesis using entry_times [OF assms, of now] by (auto simp: scan_entry_def)
qed


definition blank_entry :: "unit error_t" where
  "blank_entry = \<lparr>new_time = 0, last_time = 0, lost_time = 0, work_time = 0, set_offline_time = 0, set_online_time = 0,
     enable = 0, priority = 0, error_exist = 0, is_lost = 0, data_is_error = 0, frequency = Fin False 0,
     data_is_error_fun = None, solve_lost_fun = None, solve_data_error_fun = None\<rparr>"


text \<open>
  The summary entry and the number to display are those of the devices that are offline: the summary is
  raised exactly when some enabled device is offline, and the number is that of an offline device whose
  priority no other offline device exceeds, or the number of the summary when every device is online.
\<close>

theorem detect_scan_display:
  assumes "length L = 15" "priority (L ! 14) = 0" "\<forall>j < 14. 0 < priority (L ! j)" "detect_scan now (L, w) = (M, d, w')"
  shows "(error_exist (M ! 14) = 1 \<longleftrightarrow> (\<exists>j < 14. lost now (L ! j))) \<and>
     (if \<exists>j < 14. lost now (L ! j)
      then d < 14 \<and> lost now (L ! d) \<and> (\<forall>j < 14. lost now (L ! j) \<longrightarrow> priority (L ! j) \<le> priority (L ! d))
      else d = 14)"
proof -
  have s: "scanned now L 14 (M, d, w')" using detect_scan_spec [OF assms(1), of now w] by (simp add: assms(4))
  then have "error_exist (M ! 14) = 1 \<longleftrightarrow> (\<exists>j < 14. lost now (L ! j))" by (simp add: scanned_def summary_def)
  moreover have "d \<noteq> 14" if "j < 14" "lost now (L ! j)" for j
    using s that assms(2,3) by (force simp: scanned_def)
  ultimately show ?thesis using s by (auto simp: scanned_def split: if_splits)
qed

definition ex_table :: "unit error_list" where
  "ex_table = map (\<lambda>i. blank_entry\<lparr>enable := 1, priority := (if i = 3 then 9 else 1), set_offline_time := 10,
     new_time := (if i = 3 \<or> i = 5 then 0 else 95)\<rparr>) [0..<14] @ [blank_entry]"

theorem detect_scan_display_witness:
  "\<exists>M d. detect_scan 100 (ex_table, ()) = (M, d, ()) \<and> error_exist (M ! 14) = 1 \<and> d < 14 \<and> lost 100 (ex_table ! d) \<and>
     priority (ex_table ! 3) \<le> priority (ex_table ! d)"
proof -
  obtain M d where s: "detect_scan 100 (ex_table, ()) = (M, d, ())" by (metis old.unit.exhaust prod.collapse)
  have len: "length ex_table = 15" by (simp add: ex_table_def)
  have p: "priority (ex_table ! 14) = 0" "\<forall>j < 14. 0 < priority (ex_table ! j)"
    by (auto simp: ex_table_def nth_append blank_entry_def)
  have l: "lost 100 (ex_table ! 3)"
    by (simp add: ex_table_def nth_append blank_entry_def lost_def offline_def)
  have "\<exists>j < 14. lost 100 (ex_table ! j)" using l by (intro exI [of _ 3]) simp
  then show ?thesis using detect_scan_display [OF len p s] l s by auto
qed

text \<open>
  A device that falls silent while it is still in its online window keeps its error but is not marked as
  lost: the scan that finds it offline leaves \<open>is_lost\<close> and \<open>lost_time\<close> as they were, and when the device
  comes back the hook does not restart the window, so that the next scan may trust it at once.
\<close>

theorem detect_offline_while_settling:
  assumes "detect_inv L" "unat toe < 14" "error_exist (L ! unat toe) = 1" "is_lost (L ! unat toe) = 0"
    and "offline now (L ! unat toe)" "detect_scan now (L, w) = (M, d, w)"
  shows "M ! unat toe = L ! unat toe \<and>
     (\<exists>M'. detect_hook toe later (M, w) = Some (M', w) \<and> work_time (M' ! unat toe) = work_time (L ! unat toe) \<and>
        (on_time (unat toe) \<le> later - work_time (L ! unat toe) \<longrightarrow>
           (\<forall>M'' d w''. detect_scan later (M', w) = (M'', d, w'') \<longrightarrow> toe_is_error toe M'' = Some False)))"
proof -
  note i = scan_inv [OF assms(1,6)]
  have m: "M ! unat toe = L ! unat toe" using i(2) [OF assms(2)] assms(3,5) by (simp add: scan_entry_def)
  define M' where "M' = M[unat toe := hook_entry later (M ! unat toe)]"
  have h: "detect_hook toe later (M, w) = Some (M', w)" and inv: "detect_inv M'"
    using hook_eq [OF i(1) assms(2)] hook_inv [OF i(1) assms(2)] by (simp_all add: M'_def)
  have e: "M' ! unat toe = hook_entry later (L ! unat toe)" using i(1) assms(2) m by (simp add: M'_def detect_inv_def)
  have "toe_is_error toe M'' = Some False"
    if "on_time (unat toe) \<le> later - work_time (L ! unat toe)" "detect_scan later (M', w) = (M'', d', w'')" for M'' d' w''
  proof -
    note j = scan_inv [OF inv that(2)]
    have ok: "entry_ok (unat toe) (M' ! unat toe)" "length M'' = 15" using inv j(1) assms(2) by (auto simp: detect_inv_def)
    then have "error_exist (M'' ! unat toe) \<noteq> 1"
      using scan_entry_error [OF ok(1), of later] j(2) [OF assms(2)] that(1) assms(4) e by (simp add: hook_entry_def)
    then show ?thesis using ok(2) assms(2) by (simp add: toe_is_error_def)
  qed
  moreover have "work_time (M' ! unat toe) = work_time (L ! unat toe)" using e assms(4) by (simp add: hook_entry_def)
  ultimately show ?thesis using m h by blast
qed

definition ex_settling :: "unit error_list" where
  "ex_settling = (detect_init 7 (replicate 15 blank_entry))[1 := hook_entry 100 (init_entry 7 (10, 10, 11) blank_entry)]"

theorem detect_offline_while_settling_witness:
  "detect_hook 1 100 (detect_init 7 (replicate 15 blank_entry), ()) = Some (ex_settling, ()) \<and>
   (\<exists>M d M'. detect_scan 200 (ex_settling, ()) = (M, d, ()) \<and> is_lost (M ! 1) = 0 \<and>
      detect_hook 1 1000 (M, ()) = Some (M', ()) \<and> work_time (M' ! 1) = 100 \<and>
      toe_is_error 1 (fst (detect_scan 1000 (M', ()))) = Some False)"
proof -
  let ?L0 = "detect_init 7 (replicate 15 blank_entry)"
  have inv0: "detect_inv ?L0" by (rule detect_init_inv) simp
  have e1: "?L0 ! 1 = init_entry 7 (10, 10, 11) blank_entry"
    using detect_init_nth(1) [of "replicate 15 blank_entry" 1 7] by (simp add: set_item_def)
  have u: "unat (1 :: u8) = 1" by simp
  have h: "detect_hook 1 100 (?L0, ()) = Some (ex_settling, ())" and inv: "detect_inv ex_settling"
    using hook_eq [OF inv0, of 1 100 "()"] hook_inv [OF inv0, of 1 100] by (simp_all add: u ex_settling_def e1 [unfolded One_nat_def])
  have len: "length ?L0 = 15" using inv0 by (simp add: detect_inv_def)
  have e: "error_exist (ex_settling ! 1) = 1" "is_lost (ex_settling ! 1) = 0" "work_time (ex_settling ! 1) = 100"
    "offline 200 (ex_settling ! 1)" "on_time 1 \<le> 1000 - 100"
    unfolding ex_settling_def on_time_def set_item_def
    by (simp_all add: len hook_entry_def init_entry_def offline_def take_bit_eq_mod)
  obtain M d where s: "detect_scan 200 (ex_settling, ()) = (M, d, ())" using inv by (rule scan_no_callbacks)
  have "M ! 1 = ex_settling ! 1 \<and>
     (\<exists>M'. detect_hook 1 1000 (M, ()) = Some (M', ()) \<and> work_time (M' ! 1) = work_time (ex_settling ! 1) \<and>
        (on_time 1 \<le> 1000 - work_time (ex_settling ! 1) \<longrightarrow>
           (\<forall>M'' d w''. detect_scan 1000 (M', ()) = (M'', d, w'') \<longrightarrow> toe_is_error 1 M'' = Some False)))"
    using detect_offline_while_settling [OF inv, of 1 200 "()" M d 1000] e s by (simp add: u)
  then obtain M' where m: "M ! 1 = ex_settling ! 1" "detect_hook 1 1000 (M, ()) = Some (M', ())" "work_time (M' ! 1) = 100"
    "\<forall>M'' d w''. detect_scan 1000 (M', ()) = (M'', d, w'') \<longrightarrow> toe_is_error 1 M'' = Some False"
    using e by auto
  then have "toe_is_error 1 (fst (detect_scan 1000 (M', ()))) = Some False" by (metis prod.collapse)
  then show ?thesis using h s e m(1-3) by auto
qed

end
