(* ===== verification/Chassis.thy ===== *)
theory Chassis
  imports Pid Can_Receive Detect_Task
begin

text \<open>
  The chassis control task (\<open>src/dji/chassis_task.c\<close>) and the behaviours that give its set-points
  (\<open>src/dji/chassis_behaviour.c\<close>).  The only chassis is the global \<open>chassis_move\<close>, so the guards against
  null pointers never fire and the functions act on the record itself; the static variables of the two
  files are one record.  Remote-control data, the measurement table and the table of devices are
  arguments, as is \<open>arm_sin_f32\<close> of the vendor's library.  The conversion of a \<open>float\<close> that does not fit
  \<open>int16_t\<close> is undefined behaviour and the value \<open>None\<close>.
\<close>

datatype chassis_behaviour_e =
    CHASSIS_ZERO_FORCE | CHASSIS_NO_MOVE | CHASSIS_INFANTRY_FOLLOW_GIMBAL_YAW
  | CHASSIS_ENGINEER_FOLLOW_CHASSIS_YAW | CHASSIS_NO_FOLLOW_YAW | CHASSIS_OPEN

datatype chassis_mode_e =
    CHASSIS_VECTOR_FOLLOW_GIMBAL_YAW | CHASSIS_VECTOR_FOLLOW_CHASSIS_YAW | CHASSIS_VECTOR_NO_FOLLOW_YAW
  | CHASSIS_VECTOR_RAW

record RC_ctrl =
  rc_channel :: "nat \<Rightarrow> 16 word"
  key_v :: "16 word"

record chassis_motor_t =
  chassis_motor_measure :: nat
  accel :: f32
  speed :: f32
  speed_set :: f32
  give_current :: int

record chassis_move_t =
  chassis_mode :: chassis_mode_e
  last_chassis_mode :: chassis_mode_e
  chassis_motors :: "chassis_motor_t list"
  motor_speed_pid :: "pid_type_def list"
  chassis_angle_pid :: pid_type_def
  vx :: f32
  vy :: f32
  wz :: f32
  vx_set :: f32
  vy_set :: f32
  wz_set :: f32
  chassis_relative_angle_set :: f32
  chassis_yaw_set :: f32
  vx_max_speed :: f32
  vx_min_speed :: f32
  vy_max_speed :: f32
  vy_min_speed :: f32
  chassis_yaw :: f32
  chassis_behaviour_mode :: chassis_behaviour_e
  swing_time :: f32
  swing_angle :: f32
  max_angle :: f32
  swing_flag :: u8

subsection \<open>Constants\<close>

definition CHASSIS_VX_RC_SEN :: f32 where "CHASSIS_VX_RC_SEN = f32_of (6 / 1000)"
definition CHASSIS_VY_RC_SEN :: f32 where "CHASSIS_VY_RC_SEN = f32_of (5 / 1000)"
definition CHASSIS_ANGLE_Z_RC_SEN :: f32 where "CHASSIS_ANGLE_Z_RC_SEN = f32_of (2 / 1000000)"
definition CHASSIS_WZ_RC_SEN :: f32 where "CHASSIS_WZ_RC_SEN = f32_of (1 / 100)"
definition MOTOR_SPEED_TO_CHASSIS_SPEED :: f32 where "MOTOR_SPEED_TO_CHASSIS_SPEED = f32_of (1 / 4)"
definition MOTOR_DISTANCE_TO_CENTER :: f32 where "MOTOR_DISTANCE_TO_CENTER = f32_of (2 / 10)"
definition CHASSIS_CONTROL_FREQUENCE :: f32 where "CHASSIS_CONTROL_FREQUENCE = f32_of 500"
definition MAX_MOTOR_CAN_CURRENT :: f32 where "MAX_MOTOR_CAN_CURRENT = f32_of 30000"
definition CHASSIS_MOTOR_RPM_TO_VECTOR_SEN :: f32 where
  "CHASSIS_MOTOR_RPM_TO_VECTOR_SEN = f32_of (415809748903494517209 / 10 ^ 24)"
definition MAX_WHEEL_SPEED :: f32 where "MAX_WHEEL_SPEED = f32_of 4"
definition NORMAL_MAX_CHASSIS_SPEED_X :: f32 where "NORMAL_MAX_CHASSIS_SPEED_X = f32_of 2"
definition NORMAL_MAX_CHASSIS_SPEED_Y :: f32 where "NORMAL_MAX_CHASSIS_SPEED_Y = f32_of (15 / 10)"
definition CHASSIS_WZ_SET_SCALE :: f32 where "CHASSIS_WZ_SET_SCALE = f32_of (1 / 10)"
definition SWING_NO_MOVE_ANGLE :: f32 where "SWING_NO_MOVE_ANGLE = f32_of (7 / 10)"
definition SWING_MOVE_ANGLE :: f32 where
  "SWING_MOVE_ANGLE = f32_of (31415926535897932384626433832795 / 10 ^ 32)"
definition PI_f32 :: f32 where "PI_f32 = f32_of (314159265358979 / 10 ^ 14)"

definition motor_speed_pid_gains :: "f32 \<times> f32 \<times> f32" where
  "motor_speed_pid_gains = (f32_of 10000, f32_of 0, f32_of (2 / 10))"

definition chassis_yaw_pid_gains :: "f32 \<times> f32 \<times> f32" where
  "chassis_yaw_pid_gains = (f32_of 40, f32_of 0, f32_of 0)"

definition SWING_KEY :: "16 word" where "SWING_KEY = 32"
definition CHASSIS_FRONT_KEY :: "16 word" where "CHASSIS_FRONT_KEY = 1"
definition CHASSIS_BACK_KEY :: "16 word" where "CHASSIS_BACK_KEY = 2"
definition CHASSIS_LEFT_KEY :: "16 word" where "CHASSIS_LEFT_KEY = 4"
definition CHASSIS_RIGHT_KEY :: "16 word" where "CHASSIS_RIGHT_KEY = 8"

definition f32_of_i16 :: "16 word \<Rightarrow> f32" where
  "f32_of_i16 w = f32_of (of_int (sint w))"

definition rad_format :: "f32 \<Rightarrow> f32" where
  "rad_format ang = ang"

definition float_constrain :: "f32 \<Rightarrow> f32 \<Rightarrow> f32 \<Rightarrow> f32" where
  "float_constrain x lo hi = (if flt x hi then (if flt x lo then lo else x) else hi)"

subsection \<open>Behaviours\<close>

definition chassis_behaviour_mode_set :: "chassis_move_t \<Rightarrow> chassis_move_t" where
  "chassis_behaviour_mode_set c =
     c\<lparr>chassis_mode := (case chassis_behaviour_mode c of
          CHASSIS_ZERO_FORCE \<Rightarrow> CHASSIS_VECTOR_RAW
        | CHASSIS_NO_MOVE \<Rightarrow> CHASSIS_VECTOR_NO_FOLLOW_YAW
        | CHASSIS_INFANTRY_FOLLOW_GIMBAL_YAW \<Rightarrow> CHASSIS_VECTOR_FOLLOW_GIMBAL_YAW
        | CHASSIS_ENGINEER_FOLLOW_CHASSIS_YAW \<Rightarrow> CHASSIS_VECTOR_FOLLOW_CHASSIS_YAW
        | CHASSIS_NO_FOLLOW_YAW \<Rightarrow> CHASSIS_VECTOR_NO_FOLLOW_YAW
        | CHASSIS_OPEN \<Rightarrow> CHASSIS_VECTOR_RAW)\<rparr>"

definition rc_deadband_limit :: "16 word \<Rightarrow> int \<Rightarrow> 16 word" where
  "rc_deadband_limit input dead = (if sint input > dead \<or> sint input < - dead then input else 0)"

text \<open>
  The local speeds computed from rocker and keyboard.  The statements that would filter them and store
  them through the pointers are commented out: the function leaves both set-points as the caller passed
  them.
\<close>

definition rc_vector_channels :: "RC_ctrl \<Rightarrow> chassis_move_t \<Rightarrow> f32 \<times> f32" where
  "rc_vector_channels rc c =
     (let vx_channel = rc_deadband_limit (rc_channel rc 1) 10;
          vy_channel = rc_deadband_limit (rc_channel rc 0) 10;
          vx_set_channel = fmul (f32_of_i16 vx_channel) CHASSIS_VX_RC_SEN;
          vy_set_channel = fmul (f32_of_i16 vy_channel) (fneg CHASSIS_VY_RC_SEN)
      in (if key_v rc AND CHASSIS_FRONT_KEY \<noteq> 0 then vx_max_speed c
          else if key_v rc AND CHASSIS_BACK_KEY \<noteq> 0 then vx_min_speed c else vx_set_channel,
          if key_v rc AND CHASSIS_LEFT_KEY \<noteq> 0 then vy_max_speed c
          else if key_v rc AND CHASSIS_RIGHT_KEY \<noteq> 0 then vy_min_speed c else vy_set_channel))"

definition chassis_rc_to_control_vector :: "RC_ctrl \<Rightarrow> f32 \<times> f32 \<Rightarrow> chassis_move_t \<Rightarrow> f32 \<times> f32" where
  "chassis_rc_to_control_vector rc s c =
     (let (vx_set_channel, vy_set_channel) = rc_vector_channels rc c in s)"

definition chassis_zero_force_control :: "f32 \<times> f32 \<times> f32" where
  "chassis_zero_force_control = (f0, f0, f0)"

definition chassis_no_move_control :: "f32 \<times> f32 \<times> f32" where
  "chassis_no_move_control = (f0, f0, f0)"

definition swing_add_time :: f32 where
  "swing_add_time = fdiv (fmul (fmul PI_f32 (f32_of (1 / 2))) (f32_of 1000)) (f32_of 2)"

definition two_PI :: f32 where
  "two_PI = fmul (f32_of 2) PI_f32"

text \<open>The static variables of the swing, from the key to the angle.\<close>

definition swing_step :: "(f32 \<Rightarrow> f32) \<Rightarrow> RC_ctrl \<Rightarrow> chassis_move_t \<Rightarrow> chassis_move_t" where
  "swing_step arm_sin_f32 rc c =
     (let c = (if key_v rc AND SWING_KEY \<noteq> 0
               then (if swing_flag c = 0 then c\<lparr>swing_flag := 1, swing_time := f0\<rparr> else c)
               else c\<lparr>swing_flag := 0\<rparr>);
          c = c\<lparr>max_angle :=
                (if key_v rc AND CHASSIS_FRONT_KEY \<noteq> 0 \<or> key_v rc AND CHASSIS_BACK_KEY \<noteq> 0 \<or>
                    key_v rc AND CHASSIS_LEFT_KEY \<noteq> 0 \<or> key_v rc AND CHASSIS_RIGHT_KEY \<noteq> 0
                 then SWING_MOVE_ANGLE else SWING_NO_MOVE_ANGLE)\<rparr>;
          c = (if swing_flag c \<noteq> 0
               then c\<lparr>swing_angle := fmul (max_angle c) (arm_sin_f32 (swing_time c)),
                      swing_time := fadd (swing_time c) swing_add_time\<rparr>
               else c\<lparr>swing_angle := f0\<rparr>)
      in (if flt two_PI (swing_time c) then c\<lparr>swing_time := fsub (swing_time c) two_PI\<rparr> else c))"

definition chassis_infantry_follow_gimbal_yaw_control ::
  "(f32 \<Rightarrow> f32) \<Rightarrow> RC_ctrl \<Rightarrow> f32 \<times> f32 \<Rightarrow> chassis_move_t \<Rightarrow> (f32 \<times> f32 \<times> f32) \<times> chassis_move_t" where
  "chassis_infantry_follow_gimbal_yaw_control arm_sin_f32 rc s c =
     (let (x, y) = chassis_rc_to_control_vector rc s c;
          c = swing_step arm_sin_f32 rc c
      in ((x, y, swing_angle c), c))"

definition chassis_engineer_follow_chassis_yaw_control ::
  "RC_ctrl \<Rightarrow> f32 \<times> f32 \<Rightarrow> chassis_move_t \<Rightarrow> f32 \<times> f32 \<times> f32" where
  "chassis_engineer_follow_chassis_yaw_control rc s c =
     (let (x, y) = chassis_rc_to_control_vector rc s c
      in (x, y, rad_format (fsub (chassis_yaw_set c) (fmul CHASSIS_ANGLE_Z_RC_SEN (f32_of_i16 (rc_channel rc 2))))))"

definition chassis_no_follow_yaw_control :: "RC_ctrl \<Rightarrow> f32 \<times> f32 \<Rightarrow> chassis_move_t \<Rightarrow> f32 \<times> f32 \<times> f32" where
  "chassis_no_follow_yaw_control rc s c =
     (let (x, y) = chassis_rc_to_control_vector rc s c
      in (x, y, fmul (fneg CHASSIS_WZ_RC_SEN) (f32_of_i16 (rc_channel rc 2))))"

text \<open>Products of channels and the scale are \<open>int\<close> and converted when stored.\<close>

definition chassis_open_set_control :: "RC_ctrl \<Rightarrow> f32 \<times> f32 \<times> f32" where
  "chassis_open_set_control rc =
     (f32_of (of_int (sint (rc_channel rc 1) * 10)),
      f32_of (of_int (- sint (rc_channel rc 0) * 10)),
      f32_of (of_int (- sint (rc_channel rc 2) * 10)))"

definition chassis_behaviour_control_set ::
  "(f32 \<Rightarrow> f32) \<Rightarrow> RC_ctrl \<Rightarrow> f32 \<times> f32 \<Rightarrow> chassis_move_t \<Rightarrow> (f32 \<times> f32 \<times> f32) \<times> chassis_move_t" where
  "chassis_behaviour_control_set arm_sin_f32 rc s c =
     (case chassis_behaviour_mode c of
        CHASSIS_ZERO_FORCE \<Rightarrow> (chassis_zero_force_control, c)
      | CHASSIS_NO_MOVE \<Rightarrow> (chassis_no_move_control, c)
      | CHASSIS_INFANTRY_FOLLOW_GIMBAL_YAW \<Rightarrow> chassis_infantry_follow_gimbal_yaw_control arm_sin_f32 rc s c
      | CHASSIS_ENGINEER_FOLLOW_CHASSIS_YAW \<Rightarrow> (chassis_engineer_follow_chassis_yaw_control rc s c, c)
      | CHASSIS_NO_FOLLOW_YAW \<Rightarrow> (chassis_no_follow_yaw_control rc s c, c)
      | CHASSIS_OPEN \<Rightarrow> (chassis_open_set_control rc, c))"

subsection \<open>The task\<close>

definition chassis_feedback_update :: "motor_measure_t list \<Rightarrow> chassis_move_t \<Rightarrow> chassis_move_t" where
  "chassis_feedback_update table c =
     (let c = c\<lparr>chassis_motors := map (\<lambda>i. (chassis_motors c ! i)
            \<lparr>speed := fmul CHASSIS_MOTOR_RPM_TO_VECTOR_SEN
                       (f32_of_i16 (speed_rpm (table ! chassis_motor_measure (chassis_motors c ! i)))),
             accel := fmul (Dbuf0 (motor_speed_pid c ! i)) CHASSIS_CONTROL_FREQUENCE\<rparr>) [0..<4]\<rparr>;
          s = (\<lambda>i. speed (chassis_motors c ! i))
      in c\<lparr>vx := fmul (fsub (fadd (fadd (fneg (s 0)) (s 1)) (s 2)) (s 3)) MOTOR_SPEED_TO_CHASSIS_SPEED,
           vy := fmul (fadd (fadd (fsub (fneg (s 0)) (s 1)) (s 2)) (s 3)) MOTOR_SPEED_TO_CHASSIS_SPEED,
           wz := fdiv (fmul (fsub (fsub (fsub (fneg (s 0)) (s 1)) (s 2)) (s 3)) MOTOR_SPEED_TO_CHASSIS_SPEED)
                   MOTOR_DISTANCE_TO_CENTER\<rparr>)"

definition chassis_init :: "motor_measure_t list \<Rightarrow> chassis_move_t \<Rightarrow> chassis_move_t" where
  "chassis_init table c =
     (let c = c\<lparr>chassis_mode := CHASSIS_VECTOR_RAW\<rparr>;
          c = c\<lparr>chassis_motors := map (\<lambda>i. (chassis_motors c ! i)
                  \<lparr>chassis_motor_measure := get_chassis_motor_measure_point (of_nat i)\<rparr>) [0..<4],
                motor_speed_pid := map (\<lambda>i. the (PID_init (Some (motor_speed_pid c ! i)) PID_POSITION
                  (Some motor_speed_pid_gains) MAX_MOTOR_CAN_CURRENT (f32_of 2000))) [0..<4]\<rparr>;
          c = c\<lparr>chassis_angle_pid := the (PID_init (Some (chassis_angle_pid c)) PID_POSITION
                  (Some chassis_yaw_pid_gains) (f32_of 6) (f32_of (2 / 10)))\<rparr>;
          c = c\<lparr>vx_max_speed := NORMAL_MAX_CHASSIS_SPEED_X, vx_min_speed := fneg NORMAL_MAX_CHASSIS_SPEED_X,
                vy_max_speed := NORMAL_MAX_CHASSIS_SPEED_Y, vy_min_speed := fneg NORMAL_MAX_CHASSIS_SPEED_Y\<rparr>
      in chassis_feedback_update table c)"

definition chassis_set_mode :: "chassis_move_t \<Rightarrow> chassis_move_t" where
  "chassis_set_mode c = chassis_behaviour_mode_set c"

definition chassis_mode_change_control_transit :: "chassis_move_t \<Rightarrow> chassis_move_t" where
  "chassis_mode_change_control_transit c =
     (if last_chassis_mode c = chassis_mode c then c
      else
        let c = (if last_chassis_mode c \<noteq> CHASSIS_VECTOR_FOLLOW_GIMBAL_YAW \<and> chassis_mode c = CHASSIS_VECTOR_FOLLOW_GIMBAL_YAW
                 then c\<lparr>chassis_relative_angle_set := f0\<rparr>
                 else if last_chassis_mode c \<noteq> CHASSIS_VECTOR_FOLLOW_CHASSIS_YAW \<and> chassis_mode c = CHASSIS_VECTOR_FOLLOW_CHASSIS_YAW
                 then c\<lparr>chassis_yaw_set := chassis_yaw c\<rparr>
                 else if last_chassis_mode c \<noteq> CHASSIS_VECTOR_NO_FOLLOW_YAW \<and> chassis_mode c = CHASSIS_VECTOR_NO_FOLLOW_YAW
                 then c\<lparr>chassis_yaw_set := chassis_yaw c\<rparr> else c)
        in c\<lparr>last_chassis_mode := chassis_mode c\<rparr>)"

definition constrain_speeds :: "f32 \<Rightarrow> f32 \<Rightarrow> chassis_move_t \<Rightarrow> chassis_move_t" where
  "constrain_speeds x y c =
     c\<lparr>vx_set := float_constrain x (vx_min_speed c) (vx_max_speed c),
       vy_set := float_constrain y (vy_min_speed c) (vy_max_speed c)\<rparr>"

definition chassis_set_contorl :: "(f32 \<Rightarrow> f32) \<Rightarrow> RC_ctrl \<Rightarrow> chassis_move_t \<Rightarrow> chassis_move_t" where
  "chassis_set_contorl arm_sin_f32 rc c =
     (let ((x, y, angle_set), c) = chassis_behaviour_control_set arm_sin_f32 rc (f0, f0) c in
      case chassis_mode c of
        CHASSIS_VECTOR_FOLLOW_GIMBAL_YAW \<Rightarrow>
          (let c = c\<lparr>vx_set := x, vy_set := y, chassis_relative_angle_set := rad_format angle_set\<rparr>
           in constrain_speeds (vx_set c) (vy_set c) c)
      | CHASSIS_VECTOR_FOLLOW_CHASSIS_YAW \<Rightarrow>
          (let c = c\<lparr>chassis_yaw_set := rad_format angle_set\<rparr>;
               delat_angle = rad_format (fsub (chassis_yaw_set c) (chassis_yaw c));
               (p, r) = PID_calc (Some (chassis_angle_pid c)) f0 delat_angle;
               c = c\<lparr>chassis_angle_pid := the p, wz_set := r\<rparr>
           in constrain_speeds x y c)
      | CHASSIS_VECTOR_NO_FOLLOW_YAW \<Rightarrow>
          constrain_speeds x y (c\<lparr>wz_set := angle_set\<rparr>)
      | CHASSIS_VECTOR_RAW \<Rightarrow> c\<lparr>vx_set := x, vy_set := y, wz_set := angle_set\<rparr>)"

definition chassis_vector_to_mecanum_wheel_speed :: "f32 \<Rightarrow> f32 \<Rightarrow> f32 \<Rightarrow> f32 list" where
  "chassis_vector_to_mecanum_wheel_speed x y w =
     (let front = fmul (fmul (fsub CHASSIS_WZ_SET_SCALE (f32_of 1)) MOTOR_DISTANCE_TO_CENTER) w;
          rear = fmul (fmul (fsub (fneg CHASSIS_WZ_SET_SCALE) (f32_of 1)) MOTOR_DISTANCE_TO_CENTER) w
      in [fadd (fsub (fneg x) y) front, fadd (fsub x y) front,
          fadd (fadd x y) rear, fadd (fadd (fneg x) y) rear])"

text \<open>The largest magnitude of the four speeds, by the loop's comparison.\<close>

definition max_magnitude :: "f32 list \<Rightarrow> f32" where
  "max_magnitude ws = fold (\<lambda>w m. if flt m (fabs w) then fabs w else m) ws f0"

definition limit_wheels :: "f32 list \<Rightarrow> f32 list" where
  "limit_wheels ws =
     (let max_vector = max_magnitude ws in
      if flt MAX_WHEEL_SPEED max_vector
      then (let vector_rate = fdiv MAX_WHEEL_SPEED max_vector in map (\<lambda>w. fmul w vector_rate) ws)
      else ws)"

text \<open>Conversion of four commanded currents; one that is undefined makes the whole step undefined.\<close>

fun currents :: "f32 list \<Rightarrow> int list option" where
  "currents [] = Some []"
| "currents (x # xs) =
     (case f32_to_int16 x of None \<Rightarrow> None
      | Some i \<Rightarrow> (case currents xs of None \<Rightarrow> None | Some is \<Rightarrow> Some (i # is)))"

definition store_currents :: "int list \<Rightarrow> chassis_move_t \<Rightarrow> chassis_move_t" where
  "store_currents is c =
     c\<lparr>chassis_motors := map (\<lambda>i. (chassis_motors c ! i)\<lparr>give_current := is ! i\<rparr>) [0..<4]\<rparr>"

definition chassis_control_loop :: "chassis_move_t \<Rightarrow> chassis_move_t option" where
  "chassis_control_loop c =
     (let wheel_speed = chassis_vector_to_mecanum_wheel_speed (vx_set c) (vy_set c) (wz_set c) in
      if chassis_mode c = CHASSIS_VECTOR_RAW
      then (case currents wheel_speed of None \<Rightarrow> None | Some is \<Rightarrow> Some (store_currents is c))
      else
        let c = c\<lparr>chassis_motors := map (\<lambda>i. (chassis_motors c ! i)\<lparr>speed_set := limit_wheels wheel_speed ! i\<rparr>) [0..<4]\<rparr>;
            c = c\<lparr>motor_speed_pid := map (\<lambda>i. the (fst (PID_calc (Some (motor_speed_pid c ! i))
                    (speed (chassis_motors c ! i)) (speed_set (chassis_motors c ! i))))) [0..<4]\<rparr>
        in (case currents (map pid_out (motor_speed_pid c)) of None \<Rightarrow> None | Some is \<Rightarrow> Some (store_currents is c)))"

definition toe_error :: "'w error_list \<Rightarrow> nat \<Rightarrow> bool" where
  "toe_error L i = (toe_is_error (of_nat i) L = Some True)"

definition motors_offline :: "'w error_list \<Rightarrow> bool" where
  "motors_offline L \<longleftrightarrow> toe_error L 1 \<and> toe_error L 2 \<and> toe_error L 3 \<and> toe_error L 4"

text \<open>The loop that holds the task back until every motor and the remote control are online.\<close>

definition chassis_may_start :: "'w error_list \<Rightarrow> bool" where
  "chassis_may_start L \<longleftrightarrow>
     \<not> (toe_error L 1 \<or> toe_error L 2 \<or> toe_error L 3 \<or> toe_error L 4 \<or> toe_error L 0)"

text \<open>One turn of the endless loop, with the frame it sends.\<close>

definition chassis_cycle ::
  "(f32 \<Rightarrow> f32) \<Rightarrow> RC_ctrl \<Rightarrow> 'w error_list \<Rightarrow> can_state \<times> chassis_move_t \<Rightarrow>
     ((can_state \<times> chassis_move_t) \<times> can_call option) option" where
  "chassis_cycle arm_sin_f32 rc L = (\<lambda>(s, c).
     let c = chassis_set_mode c;
         c = chassis_mode_change_control_transit c;
         c = chassis_feedback_update (motor_chassis s) c;
         c = chassis_set_contorl arm_sin_f32 rc c
     in (case chassis_control_loop c of
           None \<Rightarrow> None
         | Some c \<Rightarrow>
             if \<not> motors_offline L then
               (if toe_error L 0
                then (case CAN_cmd_chassis 0 0 0 0 s of (s, f) \<Rightarrow> Some ((s, c), Some f))
                else (case CAN_cmd_chassis (word_of_int (give_current (chassis_motors c ! 0)))
                             (word_of_int (give_current (chassis_motors c ! 1)))
                             (word_of_int (give_current (chassis_motors c ! 2)))
                             (word_of_int (give_current (chassis_motors c ! 3))) s
                      of (s, f) \<Rightarrow> Some ((s, c), Some f)))
             else Some ((s, c), None)))"

end
