(* ===== verification/Float32_Exact.thy ===== *)
theory Float32_Exact
  imports Float32
begin

text \<open>
  Rounding never crosses a representable number.  Integers below \<open>2 ^ 24\<close> are representable, so integer
  bounds survive every operation unchanged; and a sum that exceeds a power of two by less than a quarter
  of the last place falls back on it, which is why repeated additions saturate instead of diverging.
\<close>

lemma round_half_even_le:
  assumes "q \<le> of_int n + 1 / 4"
  shows "round_half_even q \<le> n"
proof -
  have "\<lfloor>q\<rfloor> \<le> n" using assms by (simp add: floor_le_iff)
  then consider "\<lfloor>q\<rfloor> = n" | "\<lfloor>q\<rfloor> + 1 \<le> n" by linarith
  then show ?thesis
  proof cases
    case 1
    then have "q - of_int \<lfloor>q\<rfloor> < 1 / 2" using assms by simp
    then show ?thesis using 1 by (simp add: round_half_even_def Let_def)
  qed (auto simp: round_half_even_def Let_def)
qed

lemma rnd_mag_le_multiple:
  assumes "0 < m" "b = of_int n * ulp m" "m \<le> b + ulp m / 4"
  shows "rnd_mag m \<le> b"
proof -
  have u: "0 < ulp m" by (rule ulp_pos)
  have "m / ulp m \<le> of_int n + 1 / 4" using assms u by (simp add: field_simps)
  then have "round_half_even (m / ulp m) \<le> n" by (rule round_half_even_le)
  then have "of_int (round_half_even (m / ulp m)) * ulp m \<le> of_int n * ulp m" using u by simp
  then show ?thesis using assms(1,2) by (simp add: rnd_mag_def)
qed

lemma powi_eq_power: "0 \<le> k \<Longrightarrow> (2 :: rat) powi k = 2 ^ nat k"
  by (simp add: power_int_def)

lemma powi_less_cancel: "(2 :: rat) powi a < 2 powi b \<Longrightarrow> a < b"
  using power_int_increasing [of b a "2 :: rat"] by (force simp: not_less)

lemma flog2_less: "0 < m \<Longrightarrow> m < 2 powi k \<Longrightarrow> flog2 m < k"
proof -
  assume m: "0 < m" "m < 2 powi k"
  then have "(2 :: rat) powi flog2 m < 2 powi k" using flog2_bounds(1) [OF m(1)] by linarith
  then show ?thesis by (rule powi_less_cancel)
qed

lemma rnd_mag_le_int:
  assumes "0 \<le> m" "m \<le> of_int b" "b < 2 ^ 24"
  shows "rnd_mag m \<le> of_int b"
proof (cases "m = 0")
  case True
  then show ?thesis using assms by (simp add: rnd_mag_def)
next
  case False
  then have m: "0 < m" using assms(1) by simp
  have "(of_int b :: rat) < of_int (2 ^ 24)" using assms(3) by (simp only: of_int_less_iff)
  then have "m < 2 powi 24" using assms(2) powi_eq_power [of 24] by simp
  then have "flog2 m < 24" by (rule flog2_less [OF m])
  then have e: "0 \<le> 23 - max (flog2 m) (-126)" by simp
  define k where "k = nat (23 - max (flog2 m) (-126))"
  have "ulp m * 2 ^ k = 1"
    using e by (simp add: ulp_def k_def powi_eq_power [symmetric] power_int_add [symmetric])
  then have b: "of_int b = of_int (b * 2 ^ k) * ulp m" by (simp add: mult.commute mult.left_commute)
  show ?thesis by (rule rnd_mag_le_multiple [OF m b]) (use assms(2) ulp_pos [of m] in simp)
qed

lemma rnd_mag_saturates:
  assumes "0 \<le> m" "m \<le> 2 ^ k + 2 ^ k / 2 ^ 25"
  shows "rnd_mag m \<le> 2 ^ k"
proof (cases "m = 0")
  case False
  then have m: "0 < m" using assms(1) by simp
  have "(2 :: rat) ^ k + 2 ^ k / 2 ^ 25 < 2 powi (int k + 1)" by (simp add: power_int_add)
  then have "flog2 m < int k + 1" using assms(2) by (intro flog2_less [OF m]) linarith
  then have f: "flog2 m \<le> int k" by simp
  then have e: "0 \<le> int k + 23 - max (flog2 m) (-126)" by simp
  define d where "d = nat (int k + 23 - max (flog2 m) (-126))"
  have u: "ulp m * 2 ^ d = 2 ^ k"
    using e by (simp add: ulp_def d_def powi_eq_power [symmetric] power_int_add [symmetric])
  then have p: "2 ^ k = of_int (2 ^ d) * ulp m" by (simp add: mult.commute)
  show ?thesis
  proof (rule rnd_mag_le_multiple [OF m p])
    show "m \<le> 2 ^ k + ulp m / 4"
    proof (cases "m \<le> 2 ^ k")
      case False
      then have "(2 :: rat) powi int k < 2 powi (flog2 m + 1)" using flog2_bounds(2) [OF m] by simp
      then have "int k < flog2 m + 1" by (rule powi_less_cancel)
      then have "d = 23" using f by (simp add: d_def)
      then have "ulp m = 2 ^ k / 2 ^ 23" using u by (simp add: field_simps)
      then show ?thesis using assms(2) by simp
    qed (use ulp_pos [of m] in linarith)
  qed
qed (simp add: rnd_mag_def)

subsection \<open>Exact results\<close>

text \<open>A multiple of a power of two with at most 24 bits is a \<open>float\<close>: rounding leaves it alone.\<close>

lemma round_half_even_int: "round_half_even (of_int n) = n"
  by (simp add: round_half_even_def)

lemma rnd_mag_exact:
  assumes "m = of_int n / 2 ^ k" "0 \<le> n" "n < 2 ^ 24" "k \<le> 126"
  shows "rnd_mag m = m"
proof (cases "n = 0")
  case False
  then have m: "0 < m" using assms(1,2) by simp
  have "(of_int n :: rat) < of_int (2 ^ 24)" using assms(3) by (simp only: of_int_less_iff)
  then have "m < 2 ^ 24 / 2 ^ k" by (simp add: assms(1) divide_strict_right_mono)
  also have "\<dots> = 2 powi (24 - int k)" by (simp add: power_int_diff)
  finally have "flog2 m < 24 - int k" by (rule flog2_less [OF m])
  then have e: "0 \<le> 23 - int k - max (flog2 m) (-126)" using assms(4) by simp
  define j where "j = nat (23 - int k - max (flog2 m) (-126))"
  have "ulp m * 2 ^ k * 2 ^ j = (2 :: rat) powi (max (flog2 m) (-126) - 23 + int k + int j)"
    by (simp add: ulp_def power_int_add)
  also have "\<dots> = 1" using e by (simp add: j_def)
  finally have u: "ulp m * 2 ^ k * 2 ^ j = 1" .
  have q: "m / ulp m = of_int (n * 2 ^ j)" using ulp_pos [of m] u by (simp add: assms(1) field_simps)
  have "rnd_mag m = m / ulp m * ulp m" using m unfolding rnd_mag_def q round_half_even_int by simp
  then show ?thesis using ulp_pos [of m] by simp
qed (simp add: assms(1) rnd_mag_def)

lemma mk_exact:
  assumes "m = of_int n / 2 ^ k" "0 \<le> n" "n < 2 ^ 24" "k \<le> 126"
  shows "mk s m = Fin s m"
proof -
  have "of_int n / 2 ^ k \<le> (of_int n :: rat) / 1" using assms(2) by (intro divide_left_mono) simp_all
  then have "m \<le> of_int n" by (simp add: assms(1))
  also have "(of_int n :: rat) < of_int (2 ^ 24)" using assms(3) by (simp only: of_int_less_iff)
  also have "\<dots> < 2 ^ 128" by simp
  finally show ?thesis using rnd_mag_exact [OF assms] by (simp add: mk_def)
qed

subsection \<open>Integer bounds\<close>

lemma bounded_mk_int:
  assumes "0 \<le> m" "m \<le> of_int b" "b < 2 ^ 24"
  shows "bounded (of_int b) (mk s m)"
proof -
  have r: "0 \<le> rnd_mag m" "rnd_mag m \<le> of_int b" using assms by (auto intro: rnd_mag_nonneg rnd_mag_le_int)
  have "(of_int b :: rat) < of_int (2 ^ 24)" using assms(3) by (simp only: of_int_less_iff)
  also have "\<dots> < 2 ^ 128" by simp
  finally show ?thesis using r by (simp add: mk_def Let_def)
qed

lemma bounded_of_int: "\<bar>q\<bar> \<le> of_int b \<Longrightarrow> b < 2 ^ 24 \<Longrightarrow> bounded (of_int b) (f32_of q)"
  unfolding f32_of_def by (rule bounded_mk_int) simp_all

lemma bounded_add_mk:
  assumes "bounded A x" "bounded B y" "0 \<le> C" "\<And>s m. 0 \<le> m \<Longrightarrow> m \<le> A + B \<Longrightarrow> bounded C (mk s m)"
  shows "bounded C (fadd x y)"
proof -
  obtain s a where x: "x = Fin s a" "0 \<le> a" "a \<le> A" using assms(1) by (auto simp: bounded_iff)
  obtain t b where y: "y = Fin t b" "0 \<le> b" "b \<le> B" using assms(2) by (auto simp: bounded_iff)
  have "\<bar>val (Fin s a) + val (Fin t b)\<bar> \<le> A + B" using x y by auto
  then show ?thesis using assms(3,4) by (simp add: x(1) y(1) Let_def del: val.simps)
qed

lemma bounded_add_int:
  assumes "bounded A x" "bounded B y" "A + B \<le> of_int c" "c < 2 ^ 24"
  shows "bounded (of_int c) (fadd x y)"
proof (rule bounded_add_mk [OF assms(1,2)])
  show "(0 :: rat) \<le> of_int c" using bounded_nonneg [OF assms(1)] bounded_nonneg [OF assms(2)] assms(3) by linarith
qed (use assms(3,4) in \<open>auto intro: bounded_mk_int\<close>)

lemma bounded_sub_int:
  "bounded A x \<Longrightarrow> bounded B y \<Longrightarrow> A + B \<le> of_int c \<Longrightarrow> c < 2 ^ 24 \<Longrightarrow> bounded (of_int c) (fsub x y)"
  unfolding fsub_def by (rule bounded_add_int) simp_all

lemma bounded_mul_int:
  assumes "bounded A x" "bounded B y" "A * B \<le> of_int c" "c < 2 ^ 24"
  shows "bounded (of_int c) (fmul x y)"
proof -
  obtain s a where x: "x = Fin s a" "0 \<le> a" "a \<le> A" using assms(1) by (auto simp: bounded_iff)
  obtain t b where y: "y = Fin t b" "0 \<le> b" "b \<le> B" using assms(2) by (auto simp: bounded_iff)
  have "a * b \<le> A * B" using x y by (intro mult_mono) auto
  then have "bounded (of_int c) (mk (s \<noteq> t) (a * b))" using assms(3,4) x y by (intro bounded_mk_int) auto
  then show ?thesis by (simp add: x(1) y(1))
qed

text \<open>A small step never leaves a power of two.\<close>

lemma bounded_sub_saturates:
  assumes "bounded (2 ^ k) x" "bounded d y" "d \<le> 2 ^ k / 2 ^ 25" "k < 128"
  shows "bounded (2 ^ k) (fsub x y)"
  unfolding fsub_def
proof (rule bounded_add_mk [OF assms(1)])
  show "bounded d (fneg y)" using assms(2) by simp
  fix s m assume m: "(0 :: rat) \<le> m" "m \<le> 2 ^ k + d"
  have "rnd_mag m \<le> 2 ^ k" using m assms(3) by (intro rnd_mag_saturates) auto
  moreover have "(2 :: rat) ^ k < 2 ^ 128" using assms(4) by (intro power_strict_increasing) simp_all
  ultimately show "bounded (2 ^ k) (mk s m)" using rnd_mag_nonneg [OF m(1)] by (simp add: mk_def Let_def)
qed simp

end
