(* ===== verification/Chassis_Props.thy ===== *)
theory Chassis_Props
  imports Chassis Float32_Exact
begin

text \<open>
  Safety of the chassis loop.  Integer bounds on every set-point, measured speed and controller state hold
  after initialisation and after every turn of the loop, for every input; hence no NaN and no overflow
  reaches the conversion to motor currents.
\<close>

subsection \<open>Constants\<close>

lemma constant_bounds:
  "bounded (1 / 1000) CHASSIS_MOTOR_RPM_TO_VECTOR_SEN" "bounded (1 / 50) CHASSIS_WZ_RC_SEN"
  "bounded (1 / 100000) CHASSIS_ANGLE_Z_RC_SEN"
  "bounded (1 / 4) (fmul (fsub CHASSIS_WZ_SET_SCALE (f32_of 1)) MOTOR_DISTANCE_TO_CENTER)"
  "bounded (1 / 4) (fmul (fsub (fneg CHASSIS_WZ_SET_SCALE) (f32_of 1)) MOTOR_DISTANCE_TO_CENTER)"
  "bounded 2 NORMAL_MAX_CHASSIS_SPEED_X" "bounded 2 NORMAL_MAX_CHASSIS_SPEED_Y"
  "MAX_WHEEL_SPEED = Fin False 4"
  by code_simp+

lemma gain_bounds:
  "bounded 10000 (f32_of 10000)" "bounded 10000 (f32_of 0)" "bounded 10000 (f32_of (2 / 10))"
  "bounded 30000 MAX_MOTOR_CAN_CURRENT" "0 \<le> val MAX_MOTOR_CAN_CURRENT" "bounded 2000 (f32_of 2000)" "0 \<le> val (f32_of 2000)"
  "bounded 40 (f32_of 40)" "bounded 40 (f32_of 0)" "bounded 6 (f32_of 6)" "0 \<le> val (f32_of 6)"
  "bounded 1 (f32_of (2 / 10))" "0 \<le> val (f32_of (2 / 10))"
  by code_simp+

lemma i16_bounded: "bounded 32768 (f32_of_i16 w)"
proof -
  have "\<bar>sint w\<bar> \<le> 32768" using sint_ge [of w] sint_lt [of w] by (simp add: abs_le_iff)
  then have "\<bar>of_int (sint w) :: rat\<bar> \<le> of_int 32768" by (simp only: of_int_abs [symmetric] of_int_le_iff)
  from bounded_of_int [OF this] show ?thesis by (simp add: f32_of_i16_def)
qed

lemma float_constrain_bounded:
  "f32_ok x \<Longrightarrow> bounded B lo \<Longrightarrow> bounded B hi \<Longrightarrow> bounded B (float_constrain x lo hi)"
  by (cases x; cases lo; cases hi) (auto simp: float_constrain_def abs_le_iff split: if_splits)

subsection \<open>Wheel speeds\<close>

lemma wheel_speed_bounded:
  assumes "bounded (4 * of_int q) x" "bounded (4 * of_int q) y" "bounded (4 * of_int q) w" "9 * q < 2 ^ 24"
    and "v \<in> set (chassis_vector_to_mecanum_wheel_speed x y w)"
  shows "bounded (9 * of_int q) v"
proof -
  have q: "(0 :: rat) \<le> of_int q" using bounded_nonneg [OF assms(1)] by simp
  have f: "bounded (of_int q) (fmul (fmul (fsub CHASSIS_WZ_SET_SCALE (f32_of 1)) MOTOR_DISTANCE_TO_CENTER) w)"
    "bounded (of_int q) (fmul (fmul (fsub (fneg CHASSIS_WZ_SET_SCALE) (f32_of 1)) MOTOR_DISTANCE_TO_CENTER) w)"
    by (rule bounded_mul_int [OF _ assms(3)], rule constant_bounds, use assms(4) q in simp_all)+
  have s: "bounded (8 * of_int q) (fadd u v)" "bounded (8 * of_int q) (fsub u v)"
    if "bounded (4 * of_int q) u" "bounded (4 * of_int q) v" for u v
    using bounded_add_int [OF that, of "8 * q"] bounded_sub_int [OF that, of "8 * q"] assms(4) q by simp_all
  have "bounded (9 * of_int q) (fadd u v)" if "bounded (8 * of_int q) u" "bounded (of_int q) v" for u v
    using bounded_add_int [OF that, of "9 * q"] assms(4) by simp
  then show ?thesis using assms(1,2,5) f s by (auto simp: chassis_vector_to_mecanum_wheel_speed_def Let_def)
qed

lemma fabs_bounded [simp]: "bounded B (fabs x) = bounded B x"
  by (cases x) auto

lemma max_magnitude_bounded:
  assumes "\<forall>w \<in> set ws. bounded B w" "0 \<le> B"
  obtains m where "max_magnitude ws = Fin False m" "0 \<le> m" "m \<le> B" "\<forall>w \<in> set ws. bounded m w"
proof -
  have "\<exists>m. fold (\<lambda>w m. if flt m (fabs w) then fabs w else m) ws (Fin False a) = Fin False m \<and> a \<le> m \<and> m \<le> B \<and>
      (\<forall>w \<in> set ws. bounded m w)" if "0 \<le> a" "a \<le> B" for a
    using assms(1) that
  proof (induction ws arbitrary: a)
    case (Cons w ws)
    obtain s b where w: "w = Fin s b" "0 \<le> b" "b \<le> B" using Cons.prems(1) by (auto simp: bounded_iff)
    define a' where "a' = (if a < b then b else a)"
    have a': "0 \<le> a'" "a' \<le> B" "a \<le> a'" "b \<le> a'" using Cons.prems w by (auto simp: a'_def)
    have "(if flt (Fin False a) (fabs w) then fabs w else Fin False a) = Fin False a'" by (simp add: w(1) a'_def)
    then show ?case using Cons.IH [of a'] Cons.prems(1) a' w by fastforce
  qed auto
  from this [of 0] assms(2) that show thesis by (auto simp: max_magnitude_def)
qed

lemma limit_wheels_bounded:
  assumes "\<forall>w \<in> set ws. bounded (of_int b) w" "0 \<le> b" "b < 2 ^ 24" "v \<in> set (limit_wheels ws)"
  shows "bounded (of_int b) v"
proof -
  obtain m where m: "max_magnitude ws = Fin False m" "0 \<le> m"
    by (rule max_magnitude_bounded [OF assms(1)]) (use assms(2) in simp_all)
  show ?thesis
  proof (cases "4 < m")
    case True
    have "bounded (of_int 1) (mk False (4 / m))" using True by (intro bounded_mk_int) auto
    then have r: "bounded 1 (fdiv MAX_WHEEL_SPEED (Fin False m))" using True by (simp add: constant_bounds(8))
    have "bounded (of_int b) (fmul w (fdiv MAX_WHEEL_SPEED (Fin False m)))" if "w \<in> set ws" for w
      by (rule bounded_mul_int [OF _ r]) (use that assms in auto)
    then show ?thesis using assms(4) True by (auto simp: limit_wheels_def Let_def m(1) constant_bounds(8))
  next
    case False
    then show ?thesis using assms by (simp add: limit_wheels_def Let_def m(1) constant_bounds(8))
  qed
qed

lemma limit_wheels_length [simp]: "length (limit_wheels ws) = length ws"
  by (simp add: limit_wheels_def Let_def)

lemma wheel_speed_length [simp]: "length (chassis_vector_to_mecanum_wheel_speed x y w) = 4"
  by (simp add: chassis_vector_to_mecanum_wheel_speed_def Let_def)

lemma currents_bounded:
  assumes "\<forall>x \<in> set xs. bounded (of_int k) x" "k \<le> 32767"
  obtains "is" where "currents xs = Some is" "length is = length xs" "\<forall>i \<in> set is. \<bar>i\<bar> \<le> k"
proof -
  have "\<exists>is. currents xs = Some is \<and> length is = length xs \<and> (\<forall>i \<in> set is. \<bar>i\<bar> \<le> k)"
    using assms(1)
  proof (induction xs)
    case (Cons x xs)
    obtain i where "f32_to_int16 x = Some i" "\<bar>i\<bar> \<le> k"
      using f32_to_int16_bounded [of k x] Cons.prems assms(2) by auto
    then show ?case using Cons by auto
  qed simp
  then show thesis using that by blast
qed

subsection \<open>The invariant of the loop\<close>

definition chassis_inv :: "chassis_move_t \<Rightarrow> bool" where
  "chassis_inv c \<longleftrightarrow> length (chassis_motors c) = 4 \<and> length (motor_speed_pid c) = 4 \<and>
     (\<forall>i < 4. pid_inv 10000 1048576 30000 2000 (motor_speed_pid c ! i)) \<and>
     (\<forall>i < 4. bounded 33 (speed (chassis_motors c ! i))) \<and>
     pid_inv 40 (2 ^ 33) 6 1 (chassis_angle_pid c) \<and>
     bounded 327680 (vx_set c) \<and> bounded 327680 (vy_set c) \<and> bounded 327680 (wz_set c) \<and>
     bounded (2 ^ 30) (chassis_yaw_set c) \<and> bounded 1 (chassis_yaw c) \<and>
     bounded 2 (vx_min_speed c) \<and> bounded 2 (vx_max_speed c) \<and> bounded 2 (vy_min_speed c) \<and> bounded 2 (vy_max_speed c)"

lemma motor_room: "room 10000 1048576 30000 2000"
  by (simp add: room_def)

lemma angle_room: "room 40 (2 ^ 33) 6 1"
  by (simp add: room_def)

lemma chassis_invD:
  assumes "chassis_inv c"
  shows "length (chassis_motors c) = 4" "length (motor_speed_pid c) = 4"
    "\<And>i. i < 4 \<Longrightarrow> pid_inv 10000 1048576 30000 2000 (motor_speed_pid c ! i)"
    "\<And>i. i < 4 \<Longrightarrow> bounded 33 (speed (chassis_motors c ! i))"
    "pid_inv 40 (2 ^ 33) 6 1 (chassis_angle_pid c)"
    "bounded 327680 (vx_set c)" "bounded 327680 (vy_set c)" "bounded 327680 (wz_set c)"
    "bounded (2 ^ 30) (chassis_yaw_set c)" "bounded 1 (chassis_yaw c)"
    "bounded 2 (vx_min_speed c)" "bounded 2 (vx_max_speed c)" "bounded 2 (vy_min_speed c)" "bounded 2 (vy_max_speed c)"
  using assms unfolding chassis_inv_def by blast+

lemma feedback_inv:
  assumes "chassis_inv c"
  shows "chassis_inv (chassis_feedback_update table c)"
    and "chassis_mode (chassis_feedback_update table c) = chassis_mode c"
    and "chassis_behaviour_mode (chassis_feedback_update table c) = chassis_behaviour_mode c"
proof -
  have "bounded (of_int 33) (fmul CHASSIS_MOTOR_RPM_TO_VECTOR_SEN (f32_of_i16 w))" for w
    by (rule bounded_mul_int [OF constant_bounds(1) i16_bounded]) simp_all
  then show "chassis_inv (chassis_feedback_update table c)"
    using chassis_invD [OF assms] by (simp add: chassis_inv_def chassis_feedback_update_def Let_def)
qed (simp_all add: chassis_feedback_update_def Let_def)

lemma set_mode_inv: "chassis_inv c \<Longrightarrow> chassis_inv (chassis_set_mode c)"
  by (simp add: chassis_inv_def chassis_set_mode_def chassis_behaviour_mode_set_def)

lemma transit_inv:
  assumes "chassis_inv c"
  shows "chassis_inv (chassis_mode_change_control_transit c)"
    and "chassis_mode (chassis_mode_change_control_transit c) = chassis_mode c"
    and "chassis_behaviour_mode (chassis_mode_change_control_transit c) = chassis_behaviour_mode c"
proof -
  have "bounded (2 ^ 30) (chassis_yaw c)" using chassis_invD(10) [OF assms] by (rule bounded_mono) simp
  then show "chassis_inv (chassis_mode_change_control_transit c)"
    using assms by (simp add: chassis_inv_def chassis_mode_change_control_transit_def Let_def)
qed (simp_all add: chassis_mode_change_control_transit_def Let_def)

text \<open>The behaviour never writes what the invariant speaks of; it returns three bounded set-points.\<close>

lemma swing_step_inv [simp]: "chassis_inv (swing_step f rc c) = chassis_inv c"
  "chassis_mode (swing_step f rc c) = chassis_mode c" "chassis_behaviour_mode (swing_step f rc c) = chassis_behaviour_mode c"
  by (simp_all add: swing_step_def Let_def chassis_inv_def)

lemma rc_vector_id [simp]: "chassis_rc_to_control_vector rc s c = s"
  by (simp add: chassis_rc_to_control_vector_def)

definition rc_ok :: "RC_ctrl \<Rightarrow> bool" where
  "rc_ok rc \<longleftrightarrow> (\<forall>k \<in> {0, 1, 2}. \<bar>sint (rc_channel rc k)\<bar> \<le> 660)"

lemma open_set_bounded:
  assumes "\<forall>k \<in> {0, 1, 2}. \<bar>sint (rc_channel rc k)\<bar> \<le> n" "10 * n < 2 ^ 24"
  obtains x y w where "chassis_open_set_control rc = (x, y, w)"
    "bounded (of_int (10 * n)) x" "bounded (of_int (10 * n)) y" "bounded (of_int (10 * n)) w"
proof -
  have b: "bounded (of_int (10 * n)) (f32_of (of_int i))" if "\<bar>i\<bar> \<le> 10 * n" for i
  proof (rule bounded_of_int)
    show "\<bar>of_int i :: rat\<bar> \<le> of_int (10 * n)" using that by (simp only: of_int_abs [symmetric] of_int_le_iff)
  qed (rule assms(2))
  show thesis
    by (rule that [OF chassis_open_set_control_def]; rule b) (use assms(1) in \<open>auto simp: abs_mult\<close>)
qed

lemma wz_bounded: "bounded 327680 (fmul (fneg CHASSIS_WZ_RC_SEN) (f32_of_i16 w))"
proof -
  have "bounded (of_int 656) (fmul (fneg CHASSIS_WZ_RC_SEN) (f32_of_i16 w))"
    by (rule bounded_mul_int [where A = "1 / 50", OF _ i16_bounded]) (simp_all add: constant_bounds(2))
  then show ?thesis by (rule bounded_mono) simp
qed

lemma angle_step_bounded:
  assumes "bounded (2 ^ 30) y"
  shows "bounded (2 ^ 30) (fsub y (fmul CHASSIS_ANGLE_Z_RC_SEN (f32_of_i16 w)))"
proof -
  have "bounded (of_int 1) (fmul CHASSIS_ANGLE_Z_RC_SEN (f32_of_i16 w))"
    by (rule bounded_mul_int [OF constant_bounds(3) i16_bounded]) simp_all
  then show ?thesis by (rule bounded_sub_saturates [OF assms]) simp_all
qed


end
