(* ===== verification/Chassis_Safety.thy ===== *)
theory Chassis_Safety
  imports Chassis_Props
begin

text \<open>
  Every turn of the chassis loop keeps the invariant of \<open>Chassis_Props\<close> and sends only frames that are safe;
  runs of the task from its initialisation, for arbitrary inputs from the other tasks.
\<close>

subsection \<open>Set-points\<close>

lemma constrain_inv:
  assumes "chassis_inv c"
  shows "chassis_inv (constrain_speeds f0 f0 c)"
proof -
  have "bounded 327680 (float_constrain f0 lo hi)" if "bounded 2 lo" "bounded 2 hi" for lo hi
    by (rule bounded_mono [OF float_constrain_bounded [OF _ that]]) simp_all
  then show ?thesis using assms by (simp add: chassis_inv_def constrain_speeds_def)
qed

lemma constrain_keeps [simp]:
  "chassis_mode (constrain_speeds x y c) = chassis_mode c"
  "chassis_behaviour_mode (constrain_speeds x y c) = chassis_behaviour_mode c"
  by (simp_all add: constrain_speeds_def)

lemma wz_inv: "chassis_inv c \<Longrightarrow> bounded 327680 w \<Longrightarrow> chassis_inv (c\<lparr>wz_set := w\<rparr>)"
  by (simp add: chassis_inv_def)

lemma set_contorl_engineer:
  assumes c: "chassis_inv c" and m: "chassis_mode c = CHASSIS_VECTOR_FOLLOW_CHASSIS_YAW"
    and b: "chassis_behaviour_mode c = CHASSIS_ENGINEER_FOLLOW_CHASSIS_YAW"
  obtains y p where "chassis_set_contorl f rc c =
      constrain_speeds f0 f0 (c\<lparr>chassis_yaw_set := y, chassis_angle_pid := p, wz_set := pid_out p\<rparr>)"
    "bounded (2 ^ 30) y" "pid_inv 40 (2 ^ 33) 6 1 p"
proof -
  note i = chassis_invD [OF c]
  define y where "y = fsub (chassis_yaw_set c) (fmul CHASSIS_ANGLE_Z_RC_SEN (f32_of_i16 (rc_channel rc 2)))"
  have y: "bounded (2 ^ 30) y" unfolding y_def by (rule angle_step_bounded [OF i(9)])
  have "bounded (2 * (2 ^ 30 + 1)) (fsub y (chassis_yaw c))" by (rule bounded_sub [OF y i(10)]) simp_all
  then have "bounded (2 * (2 * (2 ^ 30 + 1) + 1)) (fsub (fsub y (chassis_yaw c)) f0)"
    by (rule bounded_sub [where B = 1]) simp_all
  then have "bounded (2 ^ 33) (fsub (fsub y (chassis_yaw c)) f0)" by (rule bounded_mono) simp
  then obtain p where p: "PID_calc (Some (chassis_angle_pid c)) f0 (fsub y (chassis_yaw c)) = (Some p, pid_out p)"
    "pid_inv 40 (2 ^ 33) 6 1 p" by (rule pid_inv_step [OF angle_room i(5)])
  show thesis
  proof (rule that [OF _ y p(2)])
    show "chassis_set_contorl f rc c =
      constrain_speeds f0 f0 (c\<lparr>chassis_yaw_set := y, chassis_angle_pid := p, wz_set := pid_out p\<rparr>)"
      by (simp add: chassis_set_contorl_def chassis_behaviour_control_set_def b m Let_def rad_format_def
          chassis_engineer_follow_chassis_yaw_control_def y_def [symmetric] p(1) del: PID_calc.simps)
  qed
qed

lemma set_contorl_inv:
  assumes c: "chassis_inv c" and m: "chassis_mode c = chassis_mode (chassis_behaviour_mode_set c)"
  shows "chassis_inv (chassis_set_contorl f rc c) \<and> chassis_mode (chassis_set_contorl f rc c) = chassis_mode c \<and>
     chassis_behaviour_mode (chassis_set_contorl f rc c) = chassis_behaviour_mode c"
proof (cases "chassis_behaviour_mode c")
  case CHASSIS_ENGINEER_FOLLOW_CHASSIS_YAW
  then have "chassis_mode c = CHASSIS_VECTOR_FOLLOW_CHASSIS_YAW" using m by (simp add: chassis_behaviour_mode_set_def)
  then obtain y p where s: "chassis_set_contorl f rc c =
      constrain_speeds f0 f0 (c\<lparr>chassis_yaw_set := y, chassis_angle_pid := p, wz_set := pid_out p\<rparr>)"
    "bounded (2 ^ 30) y" "pid_inv 40 (2 ^ 33) 6 1 p"
    using CHASSIS_ENGINEER_FOLLOW_CHASSIS_YAW by (rule set_contorl_engineer [OF c])
  have "bounded 327680 (pid_out p)" by (rule bounded_mono [of 6]) (use s(3) in \<open>simp_all add: pid_inv_def\<close>)
  then have "chassis_inv (c\<lparr>chassis_yaw_set := y, chassis_angle_pid := p, wz_set := pid_out p\<rparr>)"
    using c s(2,3) by (simp add: chassis_inv_def)
  then show ?thesis by (simp add: s(1) constrain_inv)
next
  case CHASSIS_OPEN
  have "\<bar>sint (rc_channel rc k)\<bar> \<le> 32768" for k
    using sint_ge [of "rc_channel rc k"] sint_lt [of "rc_channel rc k"] by (simp add: abs_le_iff)
  then have "\<forall>k \<in> {0, 1, 2}. \<bar>sint (rc_channel rc k)\<bar> \<le> 32768" by blast
  then obtain x y w where "chassis_open_set_control rc = (x, y, w)" "bounded (of_int (10 * 32768)) x"
    "bounded (of_int (10 * 32768)) y" "bounded (of_int (10 * 32768)) w" by (rule open_set_bounded) simp
  then show ?thesis using CHASSIS_OPEN m c
    by (simp add: chassis_set_contorl_def chassis_behaviour_control_set_def chassis_behaviour_mode_set_def Let_def chassis_inv_def)
next
  case CHASSIS_INFANTRY_FOLLOW_GIMBAL_YAW
  define d where "d = swing_step f rc c"
  have "chassis_inv (d\<lparr>vx_set := f0, vy_set := f0, chassis_relative_angle_set := swing_angle d\<rparr>)"
    using c unfolding swing_step_inv(1) [of f rc c, symmetric] d_def [symmetric] by (simp add: chassis_inv_def)
  then show ?thesis using CHASSIS_INFANTRY_FOLLOW_GIMBAL_YAW m constrain_inv
    by (simp add: chassis_set_contorl_def chassis_behaviour_control_set_def chassis_infantry_follow_gimbal_yaw_control_def
        chassis_behaviour_mode_set_def Let_def rad_format_def d_def)
next
  case CHASSIS_ZERO_FORCE
  then show ?thesis using m c
    by (simp add: chassis_set_contorl_def chassis_behaviour_control_set_def chassis_zero_force_control_def
        chassis_behaviour_mode_set_def Let_def chassis_inv_def)
next
  case CHASSIS_NO_MOVE
  then show ?thesis using m constrain_inv [OF wz_inv [OF c]]
    by (simp add: chassis_set_contorl_def chassis_behaviour_control_set_def chassis_no_move_control_def
        chassis_behaviour_mode_set_def Let_def)
next
  case CHASSIS_NO_FOLLOW_YAW
  then show ?thesis using m constrain_inv [OF wz_inv [OF c wz_bounded]]
    by (simp add: chassis_set_contorl_def chassis_behaviour_control_set_def chassis_no_follow_yaw_control_def
        chassis_behaviour_mode_set_def Let_def)
qed

subsection \<open>Currents\<close>

lemma store_currents_inv:
  "chassis_inv c \<Longrightarrow> chassis_inv (store_currents is c)"
  "chassis_mode (store_currents is c) = chassis_mode c"
  "chassis_behaviour_mode (store_currents is c) = chassis_behaviour_mode c"
  "i < 4 \<Longrightarrow> give_current (chassis_motors (store_currents is c) ! i) = is ! i"
  by (simp_all add: store_currents_def chassis_inv_def)

text \<open>What the loop leaves in the motors: four currents of magnitude at most \<open>k\<close>.\<close>

definition currents_within :: "int \<Rightarrow> chassis_move_t \<Rightarrow> bool" where
  "currents_within k c \<longleftrightarrow> (\<forall>i < 4. \<bar>give_current (chassis_motors c ! i)\<bar> \<le> k)"

lemma control_loop_raw:
  assumes c: "chassis_inv c" and m: "chassis_mode c = CHASSIS_VECTOR_RAW"
    and b: "bounded (4 * of_int q) (vx_set c)" "bounded (4 * of_int q) (vy_set c)" "bounded (4 * of_int q) (wz_set c)" "9 * q \<le> 32767"
  obtains c' where "chassis_control_loop c = Some c'" "chassis_inv c'" "currents_within (9 * q) c'"
    "chassis_behaviour_mode c' = chassis_behaviour_mode c"
proof -
  have w: "\<forall>v \<in> set (chassis_vector_to_mecanum_wheel_speed (vx_set c) (vy_set c) (wz_set c)). bounded (of_int (9 * q)) v"
    using wheel_speed_bounded [OF b(1-3)] b(4) by simp
  obtain "is" where "is": "currents (chassis_vector_to_mecanum_wheel_speed (vx_set c) (vy_set c) (wz_set c)) = Some is"
    "length is = 4" "\<forall>i \<in> set is. \<bar>i\<bar> \<le> 9 * q"
    using currents_bounded [OF w b(4)] by (metis wheel_speed_length)
  show thesis
  proof (rule that)
    show "chassis_control_loop c = Some (store_currents is c)" by (simp add: chassis_control_loop_def m "is" Let_def)
    show "currents_within (9 * q) (store_currents is c)" using "is" by (simp add: currents_within_def store_currents_inv)
  qed (use c in \<open>simp_all add: store_currents_inv\<close>)
qed

lemma control_loop_closed:
  assumes c: "chassis_inv c" and m: "chassis_mode c \<noteq> CHASSIS_VECTOR_RAW"
  obtains c' where "chassis_control_loop c = Some c'" "chassis_inv c'" "currents_within 30000 c'"
    "chassis_behaviour_mode c' = chassis_behaviour_mode c"
proof -
  note i = chassis_invD [OF c]
  define ws where "ws = limit_wheels (chassis_vector_to_mecanum_wheel_speed (vx_set c) (vy_set c) (wz_set c))"
  have len: "length ws = 4" by (simp add: ws_def)
  have "bounded (of_int 737280) v" if "v \<in> set (chassis_vector_to_mecanum_wheel_speed (vx_set c) (vy_set c) (wz_set c))" for v
    using wheel_speed_bounded [of 81920 "vx_set c" "vy_set c" "wz_set c" v] i(6-8) that by simp
  then have "bounded (of_int 737280) v" if "v \<in> set ws" for v
    using that unfolding ws_def by (intro limit_wheels_bounded [OF _ _ _ that [unfolded ws_def]]) auto
  then have ws: "bounded 737280 (ws ! j)" if "j < 4" for j using that len by simp
  define P where "P = (\<lambda>j. the (fst (PID_calc (Some (motor_speed_pid c ! j)) (speed (chassis_motors c ! j)) (ws ! j))))"
  have P: "pid_inv 10000 1048576 30000 2000 (P j)" if "j < 4" for j
  proof -
    have "bounded (of_int 737313) (fsub (ws ! j) (speed (chassis_motors c ! j)))"
      by (rule bounded_sub_int [OF ws [OF that] i(4) [OF that]]) simp_all
    then have "bounded 1048576 (fsub (ws ! j) (speed (chassis_motors c ! j)))" by (rule bounded_mono) simp
    from pid_inv_step [OF motor_room i(3) [OF that] this] show ?thesis unfolding P_def by (metis fst_conv option.sel)
  qed
  define c1 where "c1 = c\<lparr>chassis_motors := map (\<lambda>i. (chassis_motors c ! i)\<lparr>speed_set := ws ! i\<rparr>) [0..<4],
     motor_speed_pid := map P [0..<4]\<rparr>"
  have inv1: "chassis_inv c1" using c P by (simp add: chassis_inv_def c1_def)
  have "\<forall>x \<in> set (map pid_out (motor_speed_pid c1)). bounded (of_int 30000) x"
    using P by (auto simp: c1_def pid_inv_def)
  then obtain "is" where "is": "currents (map pid_out (motor_speed_pid c1)) = Some is" "\<forall>i \<in> set is. \<bar>i\<bar> \<le> 30000"
    "length is = length (map pid_out (motor_speed_pid c1))" by (rule currents_bounded) simp
  let ?c = "c\<lparr>chassis_motors := map (\<lambda>i. (chassis_motors c ! i)\<lparr>speed_set := ws ! i\<rparr>) [0..<4]\<rparr>"
  have e: "?c\<lparr>motor_speed_pid := map (\<lambda>i. the (fst (PID_calc (Some (motor_speed_pid ?c ! i))
       (speed (chassis_motors ?c ! i)) (speed_set (chassis_motors ?c ! i))))) [0..<4]\<rparr> = c1"
    by (simp add: c1_def P_def cong: map_cong del: PID_calc.simps)
  have "chassis_control_loop c = Some (store_currents is c1)"
    unfolding chassis_control_loop_def Let_def ws_def [symmetric] if_not_P [OF m] e "is"(1) by simp
  moreover have "currents_within 30000 (store_currents is c1)"
    using "is" by (simp add: currents_within_def store_currents_inv c1_def)
  moreover have "chassis_behaviour_mode (store_currents is c1) = chassis_behaviour_mode c"
    by (simp add: store_currents_inv c1_def)
  ultimately show thesis using store_currents_inv(1) [OF inv1] by (intro that)
qed

lemma zero_currents: "currents (chassis_vector_to_mecanum_wheel_speed f0 f0 f0) = Some [0, 0, 0, 0]"
  by code_simp

lemma control_loop_zero:
  assumes "chassis_inv c" "chassis_mode c = CHASSIS_VECTOR_RAW" "vx_set c = f0" "vy_set c = f0" "wz_set c = f0"
  obtains c' where "chassis_control_loop c = Some c'" "chassis_inv c'" "currents_within 0 c'"
    "chassis_behaviour_mode c' = chassis_behaviour_mode c"
proof (rule that)
  show "chassis_control_loop c = Some (store_currents [0, 0, 0, 0] c)"
    using assms by (simp add: chassis_control_loop_def Let_def zero_currents)
  show "currents_within 0 (store_currents [0, 0, 0, 0] c)"
    by (auto simp: currents_within_def store_currents_inv less_Suc_eq numeral_eq_Suc)
qed (use assms(1) in \<open>simp_all add: store_currents_inv\<close>)

subsection \<open>Turns of the loop\<close>

definition input_ok :: "chassis_behaviour_e \<Rightarrow> RC_ctrl \<Rightarrow> bool" where
  "input_ok b rc \<longleftrightarrow> (b = CHASSIS_OPEN \<longrightarrow> rc_ok rc)"

lemma cycle_prepare:
  assumes "chassis_inv c"
    and d_def: "d = chassis_set_contorl f rc (chassis_feedback_update table (chassis_mode_change_control_transit (chassis_set_mode c)))"
  shows "chassis_inv d" "chassis_behaviour_mode d = chassis_behaviour_mode c"
    "chassis_mode d = chassis_mode (chassis_behaviour_mode_set c)"
    "chassis_behaviour_mode c = CHASSIS_ZERO_FORCE \<Longrightarrow> vx_set d = f0 \<and> vy_set d = f0 \<and> wz_set d = f0"
    "chassis_behaviour_mode c = CHASSIS_OPEN \<Longrightarrow> chassis_open_set_control rc = (vx_set d, vy_set d, wz_set d)"
proof -
  define e where "e = chassis_feedback_update table (chassis_mode_change_control_transit (chassis_set_mode c))"
  note t = transit_inv [OF set_mode_inv [OF assms(1)]]
  have e: "chassis_inv e" "chassis_behaviour_mode e = chassis_behaviour_mode c" "chassis_mode e = chassis_mode (chassis_behaviour_mode_set c)"
    unfolding e_def using feedback_inv [OF t(1)] t(2,3) by (simp_all add: chassis_set_mode_def chassis_behaviour_mode_set_def)
  have "chassis_mode e = chassis_mode (chassis_behaviour_mode_set e)" using e by (simp add: chassis_behaviour_mode_set_def)
  note s = set_contorl_inv [OF e(1) this, of f rc]
  show "chassis_inv d" "chassis_behaviour_mode d = chassis_behaviour_mode c" "chassis_mode d = chassis_mode (chassis_behaviour_mode_set c)"
    using s e by (simp_all add: d_def e_def)
  show "vx_set d = f0 \<and> vy_set d = f0 \<and> wz_set d = f0" if "chassis_behaviour_mode c = CHASSIS_ZERO_FORCE"
    unfolding d_def e_def [symmetric] using that e(2,3)
    by (simp add: chassis_set_contorl_def chassis_behaviour_control_set_def chassis_zero_force_control_def chassis_behaviour_mode_set_def)
  show "chassis_open_set_control rc = (vx_set d, vy_set d, wz_set d)" if "chassis_behaviour_mode c = CHASSIS_OPEN"
    unfolding d_def e_def [symmetric] using that e(2,3)
    by (simp add: chassis_set_contorl_def chassis_behaviour_control_set_def chassis_behaviour_mode_set_def split: prod.splits)
qed

lemma cycle_loop:
  assumes "chassis_inv c" "input_ok (chassis_behaviour_mode c) rc"
  obtains c' where
    "chassis_control_loop (chassis_set_contorl f rc (chassis_feedback_update table
       (chassis_mode_change_control_transit (chassis_set_mode c)))) = Some c'"
    "chassis_inv c'" "currents_within 30000 c'"
    "chassis_behaviour_mode c = CHASSIS_ZERO_FORCE \<longrightarrow> currents_within 0 c'"
proof -
  define d where "d = chassis_set_contorl f rc (chassis_feedback_update table (chassis_mode_change_control_transit (chassis_set_mode c)))"
  note p = cycle_prepare [OF assms(1) d_def]
  have mono: "currents_within 30000 x" if "currents_within k x" "k \<le> 30000" for k x
    using that by (force simp: currents_within_def)
  consider "chassis_behaviour_mode c = CHASSIS_ZERO_FORCE" | "chassis_behaviour_mode c = CHASSIS_OPEN"
    | "chassis_mode d \<noteq> CHASSIS_VECTOR_RAW" "chassis_behaviour_mode c \<noteq> CHASSIS_ZERO_FORCE"
    using p(3) by (cases "chassis_behaviour_mode c") (simp_all add: chassis_behaviour_mode_set_def)
  then show thesis
  proof cases
    case 1
    then have "chassis_mode d = CHASSIS_VECTOR_RAW" using p(3) by (simp add: chassis_behaviour_mode_set_def)
    then obtain c' where "chassis_control_loop d = Some c'" "chassis_inv c'" "currents_within 0 c'"
      using control_loop_zero [OF p(1)] p(4) [OF 1] by metis
    then show thesis using mono [of 0 c'] that unfolding d_def by simp
  next
    case 2
    then have m: "chassis_mode d = CHASSIS_VECTOR_RAW" using p(3) by (simp add: chassis_behaviour_mode_set_def)
    have "\<forall>k \<in> {0, 1, 2}. \<bar>sint (rc_channel rc k)\<bar> \<le> 660" using assms(2) 2 by (simp add: input_ok_def rc_ok_def)
    then have b: "bounded (4 * of_int 1650) (vx_set d)" "bounded (4 * of_int 1650) (vy_set d)" "bounded (4 * of_int 1650) (wz_set d)"
      using open_set_bounded [of rc 660] p(5) [OF 2] by auto
    obtain c' where "chassis_control_loop d = Some c'" "chassis_inv c'" "currents_within (9 * 1650) c'"
      using control_loop_raw [OF p(1) m b] by auto
    then show thesis using mono [of "9 * 1650" c'] that 2 unfolding d_def by simp
  next
    case 3
    obtain c' where "chassis_control_loop d = Some c'" "chassis_inv c'" "currents_within 30000 c'"
      using control_loop_closed [OF p(1) 3(1)] by metis
    then show thesis using that 3(2) unfolding d_def by simp
  qed
qed

text \<open>
  What may be sent after a turn: nothing when every chassis motor is offline; otherwise one frame to the
  chassis bus whose currents stay within the limit and are zero when the remote control is offline or the
  behaviour asks for no force.
\<close>

fun frame_ok :: "chassis_behaviour_e \<Rightarrow> 'w error_list \<Rightarrow> can_call option \<Rightarrow> bool" where
  "frame_ok b L None = motors_offline L"
| "frame_ok b L (Some (bus, h, d)) \<longleftrightarrow> \<not> motors_offline L \<and> bus = hcan1 \<and> StdId h = 0x1FF \<and> length d = 8 \<and>
     (\<forall>i \<in> set (frame_currents d). \<bar>i\<bar> \<le> 30000) \<and>
     (toe_error L 0 \<or> b = CHASSIS_ZERO_FORCE \<longrightarrow> frame_currents d = [0, 0, 0, 0])"

lemma CAN_cmd_chassis_frame:
  obtains s' h d where "CAN_cmd_chassis m1 m2 m3 m4 s = (s', (hcan1, h, d))" "StdId h = 0x1FF" "length d = 8"
    "frame_currents d = [sint m1, sint m2, sint m3, sint m4]"
  by (simp add: CAN_cmd_chassis_def tx_header_def Let_def CHASSIS_CAN_def CAN_CHASSIS_ALL_ID_def frame_currents_def)

lemma sint_current: "\<bar>i\<bar> \<le> 30000 \<Longrightarrow> sint (word_of_int i :: u16) = i"
  by (simp add: sint_sbintrunc' signed_take_bit_int_eq_self abs_le_iff)

lemma cycle_safe:
  assumes "chassis_inv c" "input_ok (chassis_behaviour_mode c) rc"
  obtains s' c' fr where "chassis_cycle f rc L (s, c) = Some ((s', c'), fr)" "chassis_inv c'"
    "frame_ok (chassis_behaviour_mode c) L fr"
proof -
  obtain c' where c': "chassis_control_loop (chassis_set_contorl f rc (chassis_feedback_update (motor_chassis s)
       (chassis_mode_change_control_transit (chassis_set_mode c)))) = Some c'"
    "chassis_inv c'" "currents_within 30000 c'"
    "chassis_behaviour_mode c = CHASSIS_ZERO_FORCE \<longrightarrow> currents_within 0 c'" using assms by (rule cycle_loop)
  let ?m = "\<lambda>i. word_of_int (give_current (chassis_motors c' ! i)) :: u16"
  have m: "sint (?m i) = give_current (chassis_motors c' ! i)" if "i < 4" for i
    using c'(3) that by (intro sint_current) (simp add: currents_within_def)
  obtain s1 h1 d1 where f1: "CAN_cmd_chassis 0 0 0 0 s = (s1, (hcan1, h1, d1))" "StdId h1 = 0x1FF" "length d1 = 8"
    "frame_currents d1 = [sint (0 :: u16), sint (0 :: u16), sint (0 :: u16), sint (0 :: u16)]" by (rule CAN_cmd_chassis_frame)
  obtain s2 h2 d2 where f2: "CAN_cmd_chassis (?m 0) (?m 1) (?m 2) (?m 3) s = (s2, (hcan1, h2, d2))" "StdId h2 = 0x1FF" "length d2 = 8"
    "frame_currents d2 = [sint (?m 0), sint (?m 1), sint (?m 2), sint (?m 3)]" by (rule CAN_cmd_chassis_frame)
  have fr2: "frame_ok (chassis_behaviour_mode c) L (Some (hcan1, h2, d2))" if "\<not> motors_offline L" "\<not> toe_error L 0"
    using that f2(2-4) c'(3,4) m [of 0] m [of 1] m [of 2] m [of 3] by (auto simp: currents_within_def)
  have eq: "chassis_cycle f rc L (s, c) =
      (if motors_offline L then Some ((s, c'), None)
       else if toe_error L 0 then Some ((s1, c'), Some (hcan1, h1, d1)) else Some ((s2, c'), Some (hcan1, h2, d2)))"
    by (simp add: chassis_cycle_def Let_def c'(1) f1(1) f2(1) [unfolded One_nat_def])
  show thesis
  proof (cases "motors_offline L")
    case True
    then show thesis using eq c'(2) by (intro that [of s c' None]) simp_all
  next
    case False
    then show thesis
      using eq c'(2) f1(2-4) fr2 by (cases "toe_error L 0") (auto intro: that)
  qed
qed

text \<open>The zero-initialised global of the task, with the initialisers of the other variables.\<close>

definition chassis_zero :: chassis_move_t where
  "chassis_zero = \<lparr>chassis_mode = CHASSIS_VECTOR_FOLLOW_GIMBAL_YAW, last_chassis_mode = CHASSIS_VECTOR_FOLLOW_GIMBAL_YAW,
     chassis_motors = replicate 4 \<lparr>chassis_motor_measure = 0, accel = f0, speed = f0, speed_set = f0, give_current = 0\<rparr>,
     motor_speed_pid = replicate 4 pid_zero, chassis_angle_pid = pid_zero, vx = f0, vy = f0, wz = f0,
     vx_set = f0, vy_set = f0, wz_set = f0, chassis_relative_angle_set = f0, chassis_yaw_set = f0,
     vx_max_speed = f0, vx_min_speed = f0, vy_max_speed = f0, vy_min_speed = f0, chassis_yaw = f0,
     chassis_behaviour_mode = CHASSIS_ZERO_FORCE, swing_time = f0, swing_angle = f0, max_angle = SWING_NO_MOVE_ANGLE, swing_flag = 0\<rparr>"

lemma init_inv: "chassis_inv (chassis_init table chassis_zero)"
proof -
  obtain p where p: "PID_init (Some pid_zero) PID_POSITION (Some motor_speed_pid_gains) MAX_MOTOR_CAN_CURRENT (f32_of 2000) = Some p"
    "pid_inv 10000 1048576 30000 2000 p"
    unfolding motor_speed_pid_gains_def by (rule pid_inv_init [OF motor_room gain_bounds(1-7)])
  obtain q where q: "PID_init (Some pid_zero) PID_POSITION (Some chassis_yaw_pid_gains) (f32_of 6) (f32_of (2 / 10)) = Some q"
    "pid_inv 40 (2 ^ 33) 6 1 q"
    unfolding chassis_yaw_pid_gains_def by (rule pid_inv_init [OF angle_room gain_bounds(8,9,9-13)])
  show ?thesis
    unfolding chassis_init_def Let_def
    by (rule feedback_inv) (use p q constant_bounds(6,7) in \<open>simp add: chassis_inv_def chassis_zero_def del: PID_init.simps\<close>)
qed

text \<open>
  A run of the task: before every turn other tasks may have changed the behaviour, the remote-control data,
  the motors' measurements and the table of devices.
\<close>

type_synonym 'w cinput = "chassis_behaviour_e \<times> RC_ctrl \<times> motor_measure_t list \<times> 'w error_list"

fun chassis_run ::
  "(f32 \<Rightarrow> f32) \<Rightarrow> 'w cinput list \<Rightarrow> can_state \<times> chassis_move_t \<Rightarrow>
     ((can_state \<times> chassis_move_t) \<times> can_call option list) option" where
  "chassis_run f [] st = Some (st, [])"
| "chassis_run f ((b, rc, table, L) # xs) (s, c) =
     (case chassis_cycle f rc L (s\<lparr>motor_chassis := table\<rparr>, c\<lparr>chassis_behaviour_mode := b\<rparr>) of
        None \<Rightarrow> None
      | Some (st, fr) \<Rightarrow> map_option (\<lambda>(st', frs). (st', fr # frs)) (chassis_run f xs st))"

lemma run_safe:
  assumes "chassis_inv c" "\<forall>(b, rc, table, L) \<in> set xs. input_ok b rc"
  shows "\<exists>s' c' frs. chassis_run f xs (s, c) = Some ((s', c'), frs) \<and> chassis_inv c' \<and>
           list_all2 (\<lambda>(b, rc, table, L) fr. frame_ok b L fr) xs frs"
  using assms
proof (induction xs arbitrary: s c)
  case (Cons x xs)
  obtain b rc table L where x: "x = (b, rc, table, L)" by (cases x)
  have ok: "input_ok (chassis_behaviour_mode (c\<lparr>chassis_behaviour_mode := b\<rparr>)) rc" using Cons.prems(2) by (simp add: x)
  have "chassis_inv (c\<lparr>chassis_behaviour_mode := b\<rparr>)" using Cons.prems(1) by (simp add: chassis_inv_def)
  then obtain s1 c1 fr where "chassis_cycle f rc L (s\<lparr>motor_chassis := table\<rparr>, c\<lparr>chassis_behaviour_mode := b\<rparr>) = Some ((s1, c1), fr)"
    "chassis_inv c1" "frame_ok (chassis_behaviour_mode (c\<lparr>chassis_behaviour_mode := b\<rparr>)) L fr"
    using ok by (rule cycle_safe)
  then show ?case using Cons.IH [of c1 s1] Cons.prems(2) by (fastforce simp: x)
qed simp

subsection \<open>Properties\<close>

text \<open>C7.
  The chassis task is safe in every run.  From initialisation on, for all measurements, all device states and
  all behaviours (in the open-loop behaviour with rocker values in their range), no turn of the loop
  converts a NaN or an out-of-range number to a current; every frame sent commands currents within the
  limit of 30000, and exactly zero when the remote control is offline or the behaviour is zero force; no
  frame is sent when all four motors are offline.
\<close>

theorem chassis_run_safe:
  assumes "\<forall>(b, rc, table, L) \<in> set xs. input_ok b rc"
  shows "\<exists>s' c' frs. chassis_run arm_sin_f32 xs (s, chassis_init table0 chassis_zero) = Some ((s', c'), frs) \<and>
           list_all2 (\<lambda>(b, rc, table, L) fr. frame_ok b L fr) xs frs"
  using run_safe [OF init_inv assms] by blast

definition ex_rc :: RC_ctrl where
  "ex_rc = \<lparr>rc_channel = (\<lambda>k. if k = 2 then 100 else - 300), key_v = 33\<rparr>"

definition ex_measure :: motor_measure_t where
  "ex_measure = \<lparr>ecd = 0, speed_rpm = - 1200, given_current = 0, temperate = 0, last_ecd = 0\<rparr>"

definition ex_can :: can_state where
  "ex_can = (let h = \<lparr>StdId = 0, ExtId = 0, IDE = 0, RTR = 0, DLC = 0\<rparr> in
     \<lparr>motor_chassis = replicate 7 ex_measure, gimbal_tx_message = h, gimbal_can_send_data = replicate 8 0,
      chassis_tx_message = h, chassis_can_send_data = replicate 8 0\<rparr>)"

theorem chassis_run_safe_witness:
  "\<exists>s' c' frs.
     chassis_run fneg [(CHASSIS_OPEN, ex_rc, replicate 7 ex_measure, replicate 15 blank_entry),
                       (CHASSIS_NO_FOLLOW_YAW, ex_rc, replicate 7 ex_measure, replicate 15 blank_entry)]
       (ex_can, chassis_init (replicate 7 ex_measure) chassis_zero) = Some ((s', c'), frs) \<and> length frs = 2"
proof -
  have ok: "\<forall>(b, rc, table, L) \<in> set [(CHASSIS_OPEN, ex_rc, replicate 7 ex_measure, replicate 15 blank_entry),
      (CHASSIS_NO_FOLLOW_YAW, ex_rc, replicate 7 ex_measure, replicate 15 blank_entry)]. input_ok b rc"
    by (simp add: input_ok_def rc_ok_def ex_rc_def)
  show ?thesis using chassis_run_safe [OF ok, of fneg ex_can "replicate 7 ex_measure"]
    by (metis list_all2_lengthD length_Cons list.size(3) numeral_2_eq_2)
qed

lemma scaled_wheel:
  assumes "bounded m w" "4 < m" "m \<le> 2 ^ 24"
  shows "bounded (4 + 1 / 2 ^ 18) (fmul w (mk False (4 / m)))"
proof -
  obtain s a where w: "w = Fin s a" "0 \<le> a" "a \<le> m" using assms(1) by (auto simp: bounded_iff)
  define r where "r = rnd_mag (4 / m)"
  have d: "0 \<le> 4 / m" "4 / m \<le> 1" using assms(2) by auto
  have r: "r \<le> 4 / m + (4 / m / 2 ^ 24 + 1 / 2 ^ 150)" "0 \<le> r" "r \<le> 1"
    using rnd_mag_err [OF d(1)] rnd_mag_nonneg [OF d(1)] rnd_mag_le_int [of "4 / m" 1] d by (simp_all add: r_def)
  have mk: "mk False (4 / m) = Fin False r" using r(3) by (simp add: mk_def Let_def r_def [symmetric])
  have "a * r \<le> m * (4 / m + (4 / m / 2 ^ 24 + 1 / 2 ^ 150))" using w r by (intro mult_mono) auto
  also have "\<dots> = 4 + 4 / 2 ^ 24 + m / 2 ^ 150" using assms(2) by (simp add: field_simps)
  also have "\<dots> \<le> 4 + 4 / 2 ^ 24 + 2 ^ 24 / 2 ^ 150" using assms(3) by (intro add_left_mono divide_right_mono) simp_all
  also have "\<dots> \<le> 4 + 1 / 2 ^ 20" by simp
  finally have ar: "a * r \<le> 4 + 1 / 2 ^ 20" .
  have p: "0 \<le> a * r" using w r by simp
  have "rnd_mag (a * r) \<le> a * r + (a * r / 2 ^ 24 + 1 / 2 ^ 150)" using rnd_mag_err [OF p] by linarith
  also have "\<dots> \<le> (4 + 1 / 2 ^ 20) + ((4 + 1 / 2 ^ 20) / 2 ^ 24 + 1 / 2 ^ 150)"
    using ar by (intro add_mono divide_right_mono) simp_all
  also have "\<dots> \<le> 4 + 1 / 2 ^ 18" by simp
  finally have "rnd_mag (a * r) \<le> 4 + 1 / 2 ^ 18" .
  moreover have "(4 + 1 / 2 ^ 18 :: rat) < 2 ^ 128" by simp
  moreover have "fmul w (mk False (4 / m)) = mk s (a * r)" by (simp add: w(1) mk)
  ultimately show ?thesis using rnd_mag_nonneg [OF p] by (simp add: mk_def Let_def)
qed

text \<open>
  Whatever finite speeds the four wheels are asked for, the speeds handed to the controllers are at most
  \<open>MAX_WHEEL_SPEED\<close>, up to one part in a million of rounding; speeds that are all within the limit are
  passed on unchanged.
\<close>

theorem limit_wheels_limits:
  assumes "\<forall>w \<in> set ws. bounded (2 ^ 24) w"
  shows "(\<forall>v \<in> set (limit_wheels ws). bounded (4 + 1 / 2 ^ 18) v) \<and>
     ((\<forall>w \<in> set ws. bounded 4 w) \<longrightarrow> limit_wheels ws = ws)"
proof -
  obtain m where m: "max_magnitude ws = Fin False m" "0 \<le> m" "m \<le> 2 ^ 24" "\<forall>w \<in> set ws. bounded m w"
    by (rule max_magnitude_bounded [OF assms]) simp_all
  have b: "bounded (4 + 1 / 2 ^ 18) v" if "v \<in> set (limit_wheels ws)" for v
  proof (cases "4 < m")
    case True
    then show ?thesis using that m scaled_wheel
      by (auto simp: limit_wheels_def Let_def constant_bounds(8))
  next
    case False
    then show ?thesis using that m by (auto simp: limit_wheels_def Let_def constant_bounds(8) intro: bounded_mono)
  qed
  have "limit_wheels ws = ws" if four: "\<forall>w \<in> set ws. bounded 4 w"
  proof -
    obtain k where "max_magnitude ws = Fin False k" "k \<le> 4" by (rule max_magnitude_bounded [OF four]) simp_all
    then show ?thesis by (simp add: limit_wheels_def constant_bounds(8))
  qed
  then show ?thesis using b by blast
qed

theorem limit_wheels_limits_witness:
  "list_all (bounded (4 + 1 / 2 ^ 18)) (limit_wheels [f32_of 9, f32_of (- 3), f32_of 7, f32_of 0])"
proof -
  have "\<forall>w \<in> set [f32_of 9, f32_of (- 3), f32_of 7, f32_of 0]. bounded (2 ^ 24) w" by code_simp
  from limit_wheels_limits [OF this] show ?thesis unfolding list_all_iff by blast
qed

text \<open>
  In every closed-loop behaviour the chassis can only turn: the translation set-points are zero whatever
  rocker and keys say, because the function that should compute them never stores its result.
\<close>

theorem chassis_never_translates:
  assumes "chassis_behaviour_mode c \<noteq> CHASSIS_OPEN" "chassis_mode c = chassis_mode (chassis_behaviour_mode_set c)"
    and "vx_max_speed c = NORMAL_MAX_CHASSIS_SPEED_X" "vx_min_speed c = fneg NORMAL_MAX_CHASSIS_SPEED_X"
    and "vy_max_speed c = NORMAL_MAX_CHASSIS_SPEED_Y" "vy_min_speed c = fneg NORMAL_MAX_CHASSIS_SPEED_Y"
  shows "vx_set (chassis_set_contorl arm_sin_f32 rc c) = f0 \<and> vy_set (chassis_set_contorl arm_sin_f32 rc c) = f0"
proof -
  have z: "float_constrain f0 (fneg NORMAL_MAX_CHASSIS_SPEED_X) NORMAL_MAX_CHASSIS_SPEED_X = f0"
    "float_constrain f0 (fneg NORMAL_MAX_CHASSIS_SPEED_Y) NORMAL_MAX_CHASSIS_SPEED_Y = f0" by code_simp+
  have sw: "vx_max_speed (swing_step f rc c) = vx_max_speed c" "vx_min_speed (swing_step f rc c) = vx_min_speed c"
    "vy_max_speed (swing_step f rc c) = vy_max_speed c" "vy_min_speed (swing_step f rc c) = vy_min_speed c" for f
    by (simp_all add: swing_step_def Let_def)
  show ?thesis using assms
    by (cases "chassis_behaviour_mode c")
      (simp_all add: chassis_set_contorl_def chassis_behaviour_control_set_def chassis_behaviour_mode_set_def Let_def
        chassis_zero_force_control_def chassis_no_move_control_def chassis_no_follow_yaw_control_def
        chassis_infantry_follow_gimbal_yaw_control_def chassis_engineer_follow_chassis_yaw_control_def
        constrain_speeds_def z sw case_prod_beta del: PID_calc.simps)
qed

theorem chassis_never_translates_witness:
  "vx_set (chassis_set_contorl fneg ex_rc (chassis_behaviour_mode_set ((chassis_init (replicate 7 ex_measure) chassis_zero)
      \<lparr>chassis_behaviour_mode := CHASSIS_NO_FOLLOW_YAW\<rparr>))) = f0"
proof -
  let ?c = "chassis_behaviour_mode_set ((chassis_init (replicate 7 ex_measure) chassis_zero)\<lparr>chassis_behaviour_mode := CHASSIS_NO_FOLLOW_YAW\<rparr>)"
  have "chassis_behaviour_mode ?c \<noteq> CHASSIS_OPEN" "chassis_mode ?c = chassis_mode (chassis_behaviour_mode_set ?c)"
    "vx_max_speed ?c = NORMAL_MAX_CHASSIS_SPEED_X" "vx_min_speed ?c = fneg NORMAL_MAX_CHASSIS_SPEED_X"
    "vy_max_speed ?c = NORMAL_MAX_CHASSIS_SPEED_Y" "vy_min_speed ?c = fneg NORMAL_MAX_CHASSIS_SPEED_Y"
    by (simp_all add: chassis_behaviour_mode_set_def chassis_init_def chassis_feedback_update_def Let_def)
  from chassis_never_translates [OF this, of fneg ex_rc] show ?thesis by simp
qed

lemma swing_constants:
  "swing_add_time = Fin False (3216991 / 4096)" "two_PI = Fin False (13176795 / 2097152)"
  by code_simp+

lemma swing_first_step:
  "mk False (3216991 / 4096) = Fin False (3216991 / 4096)"
  "fsub (Fin False (3216991 / 4096)) (Fin False (13176795 / 2097152)) = Fin False (3191255 / 4096)"
  by code_simp+

text \<open>
  The swing does not keep its phase within one period: a turn adds a quarter period for every tick of a
  second over the control time, about 785 radians, and takes at most one period off, so that the phase is
  beyond \<open>2 * PI\<close> from the first turn on.
\<close>

theorem swing_time_escapes:
  assumes "key_v rc AND SWING_KEY \<noteq> 0" "swing_flag c = 0"
  shows "flt two_PI (swing_time (swing_step arm_sin_f32 rc c)) \<and> 700 < val (swing_time (swing_step arm_sin_f32 rc c))"
  using assms by (simp add: swing_step_def Let_def swing_constants swing_first_step)

theorem swing_time_escapes_witness:
  "flt two_PI (swing_time (swing_step fneg ex_rc chassis_zero))"
  using swing_time_escapes [of ex_rc chassis_zero fneg] by (simp add: ex_rc_def SWING_KEY_def chassis_zero_def)

end
