(* ===== verification/Register_Device.thy ===== *)
theory Register_Device
  imports RM_Prelude "HOL-Library.State_Monad"
begin

text \<open>
  Sensors seen as banks of registers.  The drivers run in the state monad over a state \<open>'d\<close> that holds the sensor and
  everything else on its bus.  \<open>wp\<close> is the weakest precondition of such a program; a configuration table lists a
  register, the value to store and the code to report when the value does not read back.  The two locales are the
  documented behaviour of a sensor that the drivers rely on.
\<close>

definition wp :: "('d, 'a) state \<Rightarrow> 'd \<Rightarrow> ('a \<Rightarrow> 'd \<Rightarrow> bool) \<Rightarrow> bool" where
  "wp m d Q = (case run_state m d of (x, d') \<Rightarrow> Q x d')"

lemma wp_return [simp]: "wp (State_Monad.return x) d Q = Q x d"
  by (simp add: wp_def)

lemma wp_bind [simp]: "wp (State_Monad.bind m f) d Q = wp m d (\<lambda>x d'. wp (f x) d' Q)"
  by (simp add: wp_def split: prod.splits)

lemma wp_mono: "wp m d Q \<Longrightarrow> (\<And>x d'. Q x d' \<Longrightarrow> R x d') \<Longrightarrow> wp m d R"
  by (auto simp: wp_def split: prod.splits)

lemma wp_run: "wp m d Q \<Longrightarrow> \<exists>x d'. run_state m d = (x, d') \<and> Q x d'"
  by (auto simp: wp_def split: prod.splits)

lemma wp_any: "(\<And>x d'. Q x d') \<Longrightarrow> wp m d Q"
  by (simp add: wp_def split: prod.splits)

type_synonym reg_table = "(u8 \<times> u8 \<times> u8) list"

text \<open>
  What a configuration does to the registers of a device that stores \<open>keep r v\<close> when \<open>v\<close> is written to \<open>r\<close>: the
  table is written in order up to the first register that does not read back, whose code is the result; the
  whole initialisation first compares the identification after the reset.
\<close>

fun configure :: "(u8 \<Rightarrow> u8 \<Rightarrow> u8) \<Rightarrow> reg_table \<Rightarrow> (u8 \<Rightarrow> u8) \<Rightarrow> u8 \<times> (u8 \<Rightarrow> u8)" where
  "configure keep [] f = (0, f)"
| "configure keep ((r, v, e) # t) f =
     (if keep r v = v then configure keep t (f(r := v)) else (e, f(r := keep r v)))"

definition device_init :: "(u8 \<Rightarrow> u8 \<Rightarrow> u8) \<Rightarrow> u8 \<Rightarrow> u8 \<Rightarrow> reg_table \<Rightarrow> (u8 \<Rightarrow> u8) \<Rightarrow> u8 \<times> (u8 \<Rightarrow> u8)" where
  "device_init keep ident missing table r0 = (if r0 0 \<noteq> ident then (missing, r0) else configure keep table r0)"

lemma configure_other: "r \<notin> fst ` set t \<Longrightarrow> snd (configure keep t f) r = f r"
  by (induction keep t f rule: configure.induct) auto

lemma configure_zero_iff:
  "list_all (\<lambda>(r, v, e). e \<noteq> 0) t \<Longrightarrow> fst (configure keep t f) = 0 \<longleftrightarrow> list_all (\<lambda>(r, v, e). keep r v = v) t"
  by (induction keep t f rule: configure.induct) auto

lemma configure_stored:
  "list_all (\<lambda>(r, v, e). keep r v = v) t \<Longrightarrow> distinct (map fst t) \<Longrightarrow> (r, v, e) \<in> set t \<Longrightarrow>
   snd (configure keep t f) r = v"
  by (induction keep t f rule: configure.induct) (auto simp: configure_other)

lemma device_init_stored:
  assumes "device_init keep ident missing t r0 = (c, f)" "list_all (\<lambda>(r, v, e). e \<noteq> 0) t" "distinct (map fst t)"
    and "c = 0" "missing \<noteq> 0"
  shows "\<forall>(r, v, e) \<in> set t. f r = v"
proof -
  have c: "configure keep t r0 = (0, f)" using assms(1,4,5) by (auto simp: device_init_def split: if_splits)
  then have "list_all (\<lambda>(r, v, e). keep r v = v) t" using configure_zero_iff [OF assms(2), of keep r0] by simp
  then show ?thesis using configure_stored [of keep t _ _ _ r0] assms(3) c by fastforce
qed

text \<open>
  Register accesses and delays of one sensor: \<open>R\<close> reads its registers, \<open>R'\<close> what else is on the bus.  Reads of the
  identification (register 0) and of configuration registers return them, writes of table values store what the
  device keeps of them, and nothing else happens to either side.
\<close>

locale register_device =
  fixes read_reg :: "u8 \<Rightarrow> ('d, u8) state"
    and write_reg :: "u8 \<Rightarrow> u8 \<Rightarrow> ('d, unit) state"
    and delays :: "('d, unit) state set"
    and table :: reg_table
    and keep :: "u8 \<Rightarrow> u8 \<Rightarrow> u8"
    and R :: "'d \<Rightarrow> u8 \<Rightarrow> u8"
    and R' :: "'d \<Rightarrow> 'e"
  assumes read_law: "r \<in> set (0 # map fst table) \<Longrightarrow>
      \<exists>d'. run_state (read_reg r) d = (R d r, d') \<and> R d' = R d \<and> R' d' = R' d"
    and write_law: "(r, v, e) \<in> set table \<Longrightarrow>
      \<exists>d'. run_state (write_reg r v) d = ((), d') \<and> R d' = (R d)(r := keep r v) \<and> R' d' = R' d"
    and delay_law: "w \<in> delays \<Longrightarrow> \<exists>d'. run_state w d = ((), d') \<and> R d' = R d \<and> R' d' = R' d"
begin

lemma wp_read:
  assumes "r \<in> set (0 # map fst table)" "\<And>d'. R d' = R d \<Longrightarrow> R' d' = R' d \<Longrightarrow> Q (R d r) d'"
  shows "wp (read_reg r) d Q"
  using read_law [OF assms(1), of d] assms(2) by (auto simp: wp_def)

lemma wp_write:
  assumes "(r, v, e) \<in> set table" "\<And>d'. R d' = (R d)(r := keep r v) \<Longrightarrow> R' d' = R' d \<Longrightarrow> Q () d'"
  shows "wp (write_reg r v) d Q"
  using write_law [OF assms(1), of d] assms(2) by (auto simp: wp_def)

lemma wp_delay:
  assumes "w \<in> delays" "\<And>d'. R d' = R d \<Longrightarrow> R' d' = R' d \<Longrightarrow> Q () d'"
  shows "wp w d Q"
  using delay_law [OF assms(1), of d] assms(2) by (auto simp: wp_def)

text \<open>A configuration loop refines \<open>configure\<close>, whatever the delays of its steps are.\<close>

lemma wp_table:
  assumes step: "\<And>i r v e xs. loop i ((r, v, e) # xs) =
        State_Monad.bind (check i r v) (\<lambda>ok. if ok then loop (Suc i) xs else State_Monad.return e)"
    and stop: "\<And>i. loop i [] = State_Monad.return (0 :: u8)"
    and check: "\<And>i r v e d Q. (r, v, e) \<in> set table \<Longrightarrow>
        (\<And>d'. R d' = (R d)(r := keep r v) \<Longrightarrow> R' d' = R' d \<Longrightarrow> Q (keep r v = v) d') \<Longrightarrow> wp (check i r v) d Q"
    and "set t \<subseteq> set table"
    and "\<And>d'. R d' = snd (configure keep t (R d)) \<Longrightarrow> R' d' = R' d \<Longrightarrow> Q (fst (configure keep t (R d))) d'"
  shows "wp (loop i t) d Q"
  using assms(4,5)
proof (induction t arbitrary: i d)
  case (Cons x t)
  obtain r v e where x: "x = (r, v, e)" by (cases x)
  have m: "(r, v, e) \<in> set table" using Cons.prems(1) by (simp add: x)
  show ?case unfolding x step wp_bind
  proof (rule check [OF m])
    fix d1 assume d1: "R d1 = (R d)(r := keep r v)" "R' d1 = R' d"
    show "wp (if keep r v = v then loop (Suc i) t else State_Monad.return e) d1 Q"
    proof (cases "keep r v = v")
      case True
      have "wp (loop (Suc i) t) d1 Q"
      proof (rule Cons.IH)
        fix d2 assume "R d2 = snd (configure keep t (R d1))" "R' d2 = R' d1"
        then show "Q (fst (configure keep t (R d1))) d2"
          using Cons.prems(2) [of d2] by (simp only: x configure.simps d1 True if_True simp_thms)
      qed (use Cons.prems(1) in simp)
      then show ?thesis using True by simp
    next
      case False
      then show ?thesis using Cons.prems(2) [of d1] d1 by (simp add: x)
    qed
  qed
qed (simp add: stop)

end

text \<open>A sensor with a command that restores its power-on registers \<open>r0\<close>.\<close>

locale resettable_device = register_device read_reg write_reg delays table keep R R'
  for read_reg :: "u8 \<Rightarrow> ('d, u8) state" and write_reg delays table keep and R :: "'d \<Rightarrow> u8 \<Rightarrow> u8" and R' :: "'d \<Rightarrow> 'e" +
  fixes reset :: "('d, unit) state" and r0 :: "u8 \<Rightarrow> u8"
  assumes reset_law: "\<exists>d'. run_state reset d = ((), d') \<and> R d' = r0 \<and> R' d' = R' d"
begin

lemma wp_reset:
  assumes "\<And>d'. R d' = r0 \<Longrightarrow> R' d' = R' d \<Longrightarrow> Q () d'"
  shows "wp reset d Q"
  using reset_law [of d] assms by (auto simp: wp_def)

end

subsection \<open>Signed samples\<close>

text \<open>The signed value of a pair of bytes, low byte first, and words that hold such a pair.\<close>

definition signed16 :: "u8 \<Rightarrow> u8 \<Rightarrow> int" where
  "signed16 lo hi = (let u = 256 * uint hi + uint lo in if u < 32768 then u else u - 65536)"

lemma signed16_range: "\<bar>signed16 lo hi\<bar> \<le> 32768"
  using uint_lt2p [of lo] uint_lt2p [of hi] by (simp add: signed16_def Let_def)

lemma sint_pair:
  assumes w: "\<And>n. n < 16 \<Longrightarrow> bit (w :: u16) n = (if n < 8 then bit lo n else bit hi (n - 8))"
  shows "sint w = signed16 lo hi"
proof -
  have b: "0 \<le> uint lo" "uint lo < 256" "0 \<le> uint hi" "uint hi < 256"
    using uint_lt2p [of lo] uint_lt2p [of hi] by simp_all
  define u where "u = 256 * uint hi + uint lo"
  have u: "0 \<le> u" "u < 65536" using b by (simp_all add: u_def)
  have "push_bit 8 (uint hi) OR uint lo = push_bit 8 (uint hi) + uint lo"
    by (rule disjunctive_add [symmetric]) (auto simp: bit_push_bit_iff bit_uint_iff)
  then have "u = push_bit 8 (uint hi) OR uint lo" by (simp add: u_def push_bit_eq_mult)
  then have "w = word_of_int u" by (intro bit_word_eqI) (auto simp: w bit_simps bit_uint_iff dest: bit_imp_le_length)
  then have "sint w = signed_take_bit 15 u" by (simp add: sint_sbintrunc')
  also have "\<dots> = signed_take_bit 15 (if u < 32768 then u else u - 65536)"
    by (simp add: signed_take_bit_eq_iff_take_bit_eq take_bit_eq_mod)
  also have "\<dots> = (if u < 32768 then u else u - 65536)" using u by (simp add: signed_take_bit_int_eq_self)
  finally show ?thesis by (simp only: signed16_def u_def [symmetric] Let_def)
qed

end
