(* ===== verification/Bmi088.thy ===== *)
theory Bmi088
  imports Register_Device Float32_Exact
begin

text \<open>
  The driver of the inertial measurement unit (\<open>src/devices/bmi088.c\<close> on \<open>bmi088_middleware.c\<close>).  The code threads
  the sensor through long sequences of transfers, so it is written in the state monad.  The pins, the SPI
  peripheral and the delays belong to the vendor's library: they are a record of functions on a state \<open>'d\<close>
  of the sensor.  Functions declared \<open>bool\<close> convert the code they return to 0 or 1.
\<close>

record 'd imu_bus =
  CS1_ACCEL :: "bool \<Rightarrow> 'd \<Rightarrow> 'd"
  CS1_GYRO :: "bool \<Rightarrow> 'd \<Rightarrow> 'd"
  SPI_TransmitReceive :: "u8 \<Rightarrow> 'd \<Rightarrow> u8 \<times> 'd"
  wait_ms :: "nat \<Rightarrow> 'd \<Rightarrow> 'd"
  wait_us :: "nat \<Rightarrow> 'd \<Rightarrow> 'd"

subsection \<open>Middleware\<close>

definition bmi088_ACCEL_NS_L :: "'d imu_bus \<Rightarrow> ('d, unit) state" where
  "bmi088_ACCEL_NS_L B = State_Monad.update (CS1_ACCEL B False)"

definition bmi088_ACCEL_NS_H :: "'d imu_bus \<Rightarrow> ('d, unit) state" where
  "bmi088_ACCEL_NS_H B = State_Monad.update (CS1_ACCEL B True)"

definition bmi088_GYRO_NS_L :: "'d imu_bus \<Rightarrow> ('d, unit) state" where
  "bmi088_GYRO_NS_L B = State_Monad.update (CS1_GYRO B False)"

definition bmi088_GYRO_NS_H :: "'d imu_bus \<Rightarrow> ('d, unit) state" where
  "bmi088_GYRO_NS_H B = State_Monad.update (CS1_GYRO B True)"

definition bmi088_read_write_byte :: "'d imu_bus \<Rightarrow> u8 \<Rightarrow> ('d, u8) state" where
  "bmi088_read_write_byte B txdata = State (SPI_TransmitReceive B txdata)"

definition bmi088_delay_ms :: "'d imu_bus \<Rightarrow> nat \<Rightarrow> ('d, unit) state" where
  "bmi088_delay_ms B ms = State_Monad.update (wait_ms B ms)"

definition bmi088_delay_us :: "'d imu_bus \<Rightarrow> nat \<Rightarrow> ('d, unit) state" where
  "bmi088_delay_us B us = State_Monad.update (wait_us B us)"

subsection \<open>Registers\<close>

definition bmi088_write_single_reg :: "'d imu_bus \<Rightarrow> u8 \<Rightarrow> u8 \<Rightarrow> ('d, unit) state" where
  "bmi088_write_single_reg B reg data =
     do { _ \<leftarrow> bmi088_read_write_byte B reg; _ \<leftarrow> bmi088_read_write_byte B data; State_Monad.return () }"

definition bmi088_read_single_reg :: "'d imu_bus \<Rightarrow> u8 \<Rightarrow> ('d, u8) state" where
  "bmi088_read_single_reg B reg =
     do { _ \<leftarrow> bmi088_read_write_byte B (reg OR 0x80); bmi088_read_write_byte B 0x55 }"

fun write_bytes_loop :: "'d imu_bus \<Rightarrow> u8 list \<Rightarrow> ('d, unit) state" where
  "write_bytes_loop B [] = State_Monad.return ()"
| "write_bytes_loop B (x # xs) = do { _ \<leftarrow> bmi088_read_write_byte B x; write_bytes_loop B xs }"

definition bmi088_write_muli_reg :: "'d imu_bus \<Rightarrow> u8 \<Rightarrow> u8 list \<Rightarrow> ('d, unit) state" where
  "bmi088_write_muli_reg B reg buf = do { _ \<leftarrow> bmi088_read_write_byte B reg; write_bytes_loop B buf }"

fun read_bytes_loop :: "'d imu_bus \<Rightarrow> nat \<Rightarrow> ('d, u8 list) state" where
  "read_bytes_loop B 0 = State_Monad.return []"
| "read_bytes_loop B (Suc n) =
     do { x \<leftarrow> bmi088_read_write_byte B 0x55; xs \<leftarrow> read_bytes_loop B n; State_Monad.return (x # xs) }"

definition bmi088_read_muli_reg :: "'d imu_bus \<Rightarrow> u8 \<Rightarrow> nat \<Rightarrow> ('d, u8 list) state" where
  "bmi088_read_muli_reg B reg len = do { _ \<leftarrow> bmi088_read_write_byte B (reg OR 0x80); read_bytes_loop B len }"

text \<open>Access macros; an accelerometer read has one byte more than a gyroscope read.\<close>

definition bmi088_accel_write_single_reg :: "'d imu_bus \<Rightarrow> u8 \<Rightarrow> u8 \<Rightarrow> ('d, unit) state" where
  "bmi088_accel_write_single_reg B reg data =
     do { bmi088_ACCEL_NS_L B; bmi088_write_single_reg B reg data; bmi088_ACCEL_NS_H B }"

definition bmi088_accel_read_single_reg :: "'d imu_bus \<Rightarrow> u8 \<Rightarrow> ('d, u8) state" where
  "bmi088_accel_read_single_reg B reg =
     do { bmi088_ACCEL_NS_L B; _ \<leftarrow> bmi088_read_write_byte B (reg OR 0x80); _ \<leftarrow> bmi088_read_write_byte B 0x55;
          data \<leftarrow> bmi088_read_write_byte B 0x55; bmi088_ACCEL_NS_H B; State_Monad.return data }"

definition bmi088_accel_read_muli_reg :: "'d imu_bus \<Rightarrow> u8 \<Rightarrow> nat \<Rightarrow> ('d, u8 list) state" where
  "bmi088_accel_read_muli_reg B reg len =
     do { bmi088_ACCEL_NS_L B; _ \<leftarrow> bmi088_read_write_byte B (reg OR 0x80);
          data \<leftarrow> bmi088_read_muli_reg B reg len; bmi088_ACCEL_NS_H B; State_Monad.return data }"

definition bmi088_gyro_write_single_reg :: "'d imu_bus \<Rightarrow> u8 \<Rightarrow> u8 \<Rightarrow> ('d, unit) state" where
  "bmi088_gyro_write_single_reg B reg data =
     do { bmi088_GYRO_NS_L B; bmi088_write_single_reg B reg data; bmi088_GYRO_NS_H B }"

definition bmi088_gyro_read_single_reg :: "'d imu_bus \<Rightarrow> u8 \<Rightarrow> ('d, u8) state" where
  "bmi088_gyro_read_single_reg B reg =
     do { bmi088_GYRO_NS_L B; data \<leftarrow> bmi088_read_single_reg B reg; bmi088_GYRO_NS_H B; State_Monad.return data }"

definition bmi088_gyro_read_muli_reg :: "'d imu_bus \<Rightarrow> u8 \<Rightarrow> nat \<Rightarrow> ('d, u8 list) state" where
  "bmi088_gyro_read_muli_reg B reg len =
     do { bmi088_GYRO_NS_L B; data \<leftarrow> bmi088_read_muli_reg B reg len; bmi088_GYRO_NS_H B; State_Monad.return data }"

subsection \<open>Initialisation and self tests\<close>

definition BMI088_SELF_TEST_ACCEL_ERROR :: u8 where "BMI088_SELF_TEST_ACCEL_ERROR = 0x80"

definition BMI088_SELF_TEST_GYRO_ERROR :: u8 where "BMI088_SELF_TEST_GYRO_ERROR = 0x40"

definition BMI088_NO_SENSOR :: u8 where "BMI088_NO_SENSOR = 0xFF"

definition BMI088_LONG_DELAY_TIME :: nat where "BMI088_LONG_DELAY_TIME = 80"

definition BMI088_COM_WAIT_SENSOR_TIME :: nat where "BMI088_COM_WAIT_SENSOR_TIME = 150"

text \<open>Register, value and error code of every configuration step.\<close>

definition write_bmi088_accel_self_test_reg_data_error :: "reg_table" where
  "write_bmi088_accel_self_test_reg_data_error =
     [(0x40, 0xAC, 0x03), (0x7D, 0x04, 0x01), (0x41, 0x03, 0x05), (0x7C, 0x00, 0x02), (0x6D, 0x0D, 0x02), (0x6D, 0x09, 0x02)]"

definition write_bmi088_accel_reg_data_error :: "reg_table" where
  "write_bmi088_accel_reg_data_error =
     [(0x7D, 0x04, 0x01), (0x7C, 0x00, 0x02), (0x40, 0xAB, 0x03), (0x41, 0x00, 0x05), (0x53, 0x08, 0x06), (0x58, 0x04, 0x07)]"

definition write_bmi088_gyro_reg_data_error :: "reg_table" where
  "write_bmi088_gyro_reg_data_error =
     [(0x0F, 0x00, 0x08), (0x10, 0x82, 0x09), (0x11, 0x00, 0x0A), (0x15, 0x80, 0x0B), (0x16, 0x00, 0x0C), (0x18, 0x01, 0x0D)]"

text \<open>Two reads of the identification before and after a software reset; the last one counts.\<close>

definition accel_check_reset :: "'d imu_bus \<Rightarrow> ('d, u8) state" where
  "accel_check_reset B =
     do { _ \<leftarrow> bmi088_accel_read_single_reg B 0x00; bmi088_delay_us B BMI088_COM_WAIT_SENSOR_TIME;
          _ \<leftarrow> bmi088_accel_read_single_reg B 0x00; bmi088_delay_us B BMI088_COM_WAIT_SENSOR_TIME;
          bmi088_accel_write_single_reg B 0x7E 0xB6; bmi088_delay_ms B BMI088_LONG_DELAY_TIME;
          _ \<leftarrow> bmi088_accel_read_single_reg B 0x00; bmi088_delay_us B BMI088_COM_WAIT_SENSOR_TIME;
          res \<leftarrow> bmi088_accel_read_single_reg B 0x00; bmi088_delay_us B BMI088_COM_WAIT_SENSOR_TIME;
          State_Monad.return res }"

definition gyro_check_reset :: "'d imu_bus \<Rightarrow> ('d, u8) state" where
  "gyro_check_reset B =
     do { _ \<leftarrow> bmi088_gyro_read_single_reg B 0x00; bmi088_delay_us B BMI088_COM_WAIT_SENSOR_TIME;
          _ \<leftarrow> bmi088_gyro_read_single_reg B 0x00; bmi088_delay_us B BMI088_COM_WAIT_SENSOR_TIME;
          bmi088_gyro_write_single_reg B 0x14 0xB6; bmi088_delay_ms B BMI088_LONG_DELAY_TIME;
          _ \<leftarrow> bmi088_gyro_read_single_reg B 0x00; bmi088_delay_us B BMI088_COM_WAIT_SENSOR_TIME;
          res \<leftarrow> bmi088_gyro_read_single_reg B 0x00; bmi088_delay_us B BMI088_COM_WAIT_SENSOR_TIME;
          State_Monad.return res }"

text \<open>One configuration step of the accelerometer: write, wait, read back; the first two steps wait a millisecond more.\<close>

definition accel_write_check :: "'d imu_bus \<Rightarrow> bool \<Rightarrow> u8 \<Rightarrow> u8 \<Rightarrow> ('d, bool) state" where
  "accel_write_check B slow reg v =
     do { bmi088_accel_write_single_reg B reg v; bmi088_delay_us B BMI088_COM_WAIT_SENSOR_TIME;
          (if slow then bmi088_delay_ms B 1 else State_Monad.return ());
          res \<leftarrow> bmi088_accel_read_single_reg B reg; bmi088_delay_us B BMI088_COM_WAIT_SENSOR_TIME;
          State_Monad.return (res = v) }"

definition gyro_write_check :: "'d imu_bus \<Rightarrow> u8 \<Rightarrow> u8 \<Rightarrow> ('d, bool) state" where
  "gyro_write_check B reg v =
     do { bmi088_gyro_write_single_reg B reg v; bmi088_delay_us B BMI088_COM_WAIT_SENSOR_TIME;
          res \<leftarrow> bmi088_gyro_read_single_reg B reg; bmi088_delay_us B BMI088_COM_WAIT_SENSOR_TIME;
          State_Monad.return (res = v) }"

text \<open>The loops over the tables: the code of the first step that does not read back, or 0.\<close>

fun accel_config :: "'d imu_bus \<Rightarrow> nat \<Rightarrow> reg_table \<Rightarrow> ('d, u8) state" where
  "accel_config B i [] = State_Monad.return 0"
| "accel_config B i ((reg, v, e) # xs) =
     do { ok \<leftarrow> accel_write_check B (i < 2) reg v;
          if ok then accel_config B (Suc i) xs else State_Monad.return e }"

fun gyro_config :: "'d imu_bus \<Rightarrow> reg_table \<Rightarrow> ('d, u8) state" where
  "gyro_config B [] = State_Monad.return 0"
| "gyro_config B ((reg, v, e) # xs) =
     do { ok \<leftarrow> gyro_write_check B reg v;
          if ok then gyro_config B xs else State_Monad.return e }"

definition to_bool :: "u8 \<Rightarrow> u8" where
  "to_bool c = (if c = 0 then 0 else 1)"

definition bmi088_accel_init :: "'d imu_bus \<Rightarrow> ('d, u8) state" where
  "bmi088_accel_init B =
     do { res \<leftarrow> accel_check_reset B;
          if res \<noteq> 0x1E then State_Monad.return (to_bool BMI088_NO_SENSOR)
          else do { e \<leftarrow> accel_config B 0 write_bmi088_accel_reg_data_error; State_Monad.return (to_bool e) } }"

definition bmi088_gyro_init :: "'d imu_bus \<Rightarrow> ('d, u8) state" where
  "bmi088_gyro_init B =
     do { res \<leftarrow> gyro_check_reset B;
          if res \<noteq> 0x0F then State_Monad.return (to_bool BMI088_NO_SENSOR)
          else do { e \<leftarrow> gyro_config B write_bmi088_gyro_reg_data_error; State_Monad.return (to_bool e) } }"

text \<open>Little-endian pairs: the high byte is shifted, converted to 16 bits and joined with the low byte.\<close>

definition le16 :: "u8 \<Rightarrow> u8 \<Rightarrow> u16" where
  "le16 lo hi = ucast ((scast (ucast (push_bit 8 (ucast hi :: u32)) :: u16) :: u32) OR ucast lo)"

definition le16s :: "u8 list \<Rightarrow> int list" where
  "le16s b = [sint (le16 (b ! 0) (b ! 1)), sint (le16 (b ! 2) (b ! 3)), sint (le16 (b ! 4) (b ! 5))]"

fun self_test_config :: "'d imu_bus \<Rightarrow> nat \<Rightarrow> reg_table \<Rightarrow> ('d, u8) state" where
  "self_test_config B i [] = State_Monad.return 0"
| "self_test_config B i ((reg, v, e) # xs) =
     do { ok \<leftarrow> accel_write_check B (i < 2) reg v;
          if ok then do { bmi088_delay_ms B BMI088_LONG_DELAY_TIME; self_test_config B (Suc i) xs }
          else State_Monad.return e }"

text \<open>The positive and the negative signal: the responses, or the code of a failed step.\<close>

fun self_test_signals :: "'d imu_bus \<Rightarrow> reg_table \<Rightarrow> ('d, u8 + int list list) state" where
  "self_test_signals B [] = State_Monad.return (Inr [])"
| "self_test_signals B ((reg, v, e) # xs) =
     do { ok \<leftarrow> accel_write_check B False reg v;
          if ok then
            do { bmi088_delay_ms B BMI088_LONG_DELAY_TIME;
                 buf \<leftarrow> bmi088_accel_read_muli_reg B 0x12 6;
                 r \<leftarrow> self_test_signals B xs;
                 State_Monad.return (case r of Inl c \<Rightarrow> Inl c | Inr ys \<Rightarrow> Inr (le16s buf # ys)) }
          else State_Monad.return (Inl e) }"

definition self_test_weak :: "int list list \<Rightarrow> bool" where
  "self_test_weak a \<longleftrightarrow> a ! 0 ! 0 - a ! 1 ! 0 < 1365 \<or> a ! 0 ! 1 - a ! 1 ! 1 < 1365 \<or> a ! 0 ! 2 - a ! 1 ! 2 < 680"

definition bmi088_accel_self_test :: "'d imu_bus \<Rightarrow> ('d, u8) state" where
  "bmi088_accel_self_test B =
     do { res \<leftarrow> accel_check_reset B;
          if res \<noteq> 0x1E then State_Monad.return (to_bool BMI088_NO_SENSOR)
          else do {
            e \<leftarrow> self_test_config B 0 (take 4 write_bmi088_accel_self_test_reg_data_error);
            if e \<noteq> 0 then State_Monad.return (to_bool e)
            else do {
              r \<leftarrow> self_test_signals B (drop 4 write_bmi088_accel_self_test_reg_data_error);
              (case r of
                 Inl c \<Rightarrow> State_Monad.return (to_bool c)
               | Inr acc \<Rightarrow> do {
                   ok \<leftarrow> accel_write_check B False 0x6D 0x00;
                   if \<not> ok then State_Monad.return (to_bool 0x04)
                   else do {
                     bmi088_accel_write_single_reg B 0x7E 0xB6; bmi088_delay_ms B BMI088_LONG_DELAY_TIME;
                     if self_test_weak acc then State_Monad.return (to_bool BMI088_SELF_TEST_ACCEL_ERROR)
                     else do {
                       _ \<leftarrow> bmi088_accel_read_single_reg B 0x00; bmi088_delay_us B BMI088_COM_WAIT_SENSOR_TIME;
                       _ \<leftarrow> bmi088_accel_read_single_reg B 0x00; bmi088_delay_us B BMI088_COM_WAIT_SENSOR_TIME;
                       State_Monad.return (to_bool 0) } } }) } } }"

text \<open>The polling loop of the gyroscope's self test: the last status and the number of reads, at most ten.\<close>

fun bist_poll :: "'d imu_bus \<Rightarrow> nat \<Rightarrow> nat \<Rightarrow> ('d, u8 \<times> nat) state" where
  "bist_poll B retry n =
     do { res \<leftarrow> bmi088_gyro_read_single_reg B 0x3C; bmi088_delay_us B BMI088_COM_WAIT_SENSOR_TIME;
          (case n of 0 \<Rightarrow> State_Monad.return (res, Suc retry)
           | Suc m \<Rightarrow> if res AND 0x02 = 0 then bist_poll B (Suc retry) m else State_Monad.return (res, Suc retry)) }"

definition bmi088_gyro_self_test :: "'d imu_bus \<Rightarrow> ('d, u8) state" where
  "bmi088_gyro_self_test B =
     do { _ \<leftarrow> gyro_check_reset B;
          bmi088_gyro_write_single_reg B 0x3C 0x01; bmi088_delay_ms B BMI088_LONG_DELAY_TIME;
          (res, retry) \<leftarrow> bist_poll B 0 9;
          State_Monad.return (to_bool (if retry = 10 then BMI088_SELF_TEST_GYRO_ERROR
            else if res AND 0x04 \<noteq> 0 then BMI088_SELF_TEST_GYRO_ERROR else 0)) }"

definition deviceBmi088Init :: "'d imu_bus \<Rightarrow> ('d, u8) state" where
  "deviceBmi088Init B =
     do { t \<leftarrow> bmi088_accel_self_test B;
          e1 \<leftarrow> (if t \<noteq> 0 then State_Monad.return BMI088_SELF_TEST_ACCEL_ERROR else bmi088_accel_init B);
          g \<leftarrow> bmi088_gyro_self_test B;
          e2 \<leftarrow> (if g \<noteq> 0 then State_Monad.return BMI088_SELF_TEST_GYRO_ERROR else bmi088_gyro_init B);
          State_Monad.return (e1 OR e2) }"

subsection \<open>Measurements\<close>

definition BMI088_ACCEL_SEN :: f32 where "BMI088_ACCEL_SEN = f32_of (8974358974 / 10 ^ 13)"

definition BMI088_GYRO_SEN :: f32 where
  "BMI088_GYRO_SEN = f32_of (106526443603169529841533860381 / 10 ^ 32)"

definition BMI088_TEMP_FACTOR :: f32 where "BMI088_TEMP_FACTOR = f32_of (125 / 1000)"

definition BMI088_TEMP_OFFSET :: f32 where "BMI088_TEMP_OFFSET = f32_of 23"

definition scale3 :: "f32 \<Rightarrow> int list \<Rightarrow> f32 list" where
  "scale3 sen raw = map (\<lambda>i. fmul (f32_of (of_int i)) sen) raw"

text \<open>An 11-bit temperature: the high byte and the top three bits of the low byte, in two's complement.\<close>

definition raw_temperature :: "u8 \<Rightarrow> u8 \<Rightarrow> int" where
  "raw_temperature b0 b1 =
     (let t = sint (ucast (push_bit 3 (ucast b0 :: u32) OR drop_bit 5 (ucast b1)) :: u16)
      in if t > 1023 then sint (word_of_int (t - 2048) :: u16) else t)"

definition temperature :: "u8 \<Rightarrow> u8 \<Rightarrow> f32" where
  "temperature b0 b1 = fadd (fmul (f32_of (of_int (raw_temperature b0 b1))) BMI088_TEMP_FACTOR) BMI088_TEMP_OFFSET"

definition le24 :: "u8 \<Rightarrow> u8 \<Rightarrow> u8 \<Rightarrow> u32" where
  "le24 a b c = push_bit 16 (ucast c) OR push_bit 8 (ucast b) OR ucast a"

definition bmi088_temperature_read_over :: "u8 list \<Rightarrow> f32" where
  "bmi088_temperature_read_over rx_buf = temperature (rx_buf ! 0) (rx_buf ! 1)"

definition bmi088_accel_read_over :: "u8 list \<Rightarrow> f32 list \<times> f32" where
  "bmi088_accel_read_over rx_buf =
     (scale3 BMI088_ACCEL_SEN (le16s rx_buf),
      fmul (f32_of (of_nat (unat (le24 (rx_buf ! 6) (rx_buf ! 7) (rx_buf ! 8))))) (f32_of (390625 / 10000)))"

definition bmi088_gyro_read_over :: "u8 list \<Rightarrow> f32 list" where
  "bmi088_gyro_read_over rx_buf = scale3 BMI088_GYRO_SEN (le16s rx_buf)"

definition deviceBmi088Read :: "'d imu_bus \<Rightarrow> f32 list \<Rightarrow> ('d, f32 list \<times> f32 list \<times> f32) state" where
  "deviceBmi088Read B gyro =
     do { buf \<leftarrow> bmi088_accel_read_muli_reg B 0x12 6;
          let accel = scale3 BMI088_ACCEL_SEN (le16s buf);
          buf \<leftarrow> bmi088_gyro_read_muli_reg B 0x00 8;
          let gyro = (if buf ! 0 = 0x0F then scale3 BMI088_GYRO_SEN (le16s (drop 2 buf)) else gyro);
          buf \<leftarrow> bmi088_accel_read_muli_reg B 0x22 2;
          State_Monad.return (gyro, accel, temperature (buf ! 0) (buf ! 1)) }"

definition get_bmi088_sensor_time :: "'d imu_bus \<Rightarrow> ('d, u32) state" where
  "get_bmi088_sensor_time B =
     do { buf \<leftarrow> bmi088_accel_read_muli_reg B 0x18 3; State_Monad.return (le24 (buf ! 0) (buf ! 1) (buf ! 2)) }"

definition get_bmi088_temperate :: "'d imu_bus \<Rightarrow> ('d, f32) state" where
  "get_bmi088_temperate B =
     do { buf \<leftarrow> bmi088_accel_read_muli_reg B 0x22 2; State_Monad.return (temperature (buf ! 0) (buf ! 1)) }"

definition get_bmi088_gyro :: "'d imu_bus \<Rightarrow> ('d, int list) state" where
  "get_bmi088_gyro B = do { buf \<leftarrow> bmi088_gyro_read_muli_reg B 0x02 6; State_Monad.return (le16s buf) }"

definition get_bmi088_accel :: "'d imu_bus \<Rightarrow> ('d, f32 list) state" where
  "get_bmi088_accel B =
     do { buf \<leftarrow> bmi088_accel_read_muli_reg B 0x12 6; State_Monad.return (scale3 BMI088_ACCEL_SEN (le16s buf)) }"

definition bmi088_read_gyro_who_am_i :: "'d imu_bus \<Rightarrow> ('d, unit) state" where
  "bmi088_read_gyro_who_am_i B = do { _ \<leftarrow> bmi088_gyro_read_single_reg B 0x00; State_Monad.return () }"

definition bmi088_read_accel_who_am_i :: "'d imu_bus \<Rightarrow> ('d, unit) state" where
  "bmi088_read_accel_who_am_i B = do { _ \<leftarrow> bmi088_accel_read_single_reg B 0x00; State_Monad.return () }"

end
