(* ===== verification/Bmi088_Props.thy ===== *)
theory Bmi088_Props
  imports Bmi088
begin

text \<open>What the driver of the inertial measurement unit achieves on a sensor that obeys its register laws.\<close>

text \<open>
  The laws of the two sensors, as instances of the register contract: both share the bus, and the delays of the
  middleware leave them alone.  \<open>A\<close> and \<open>G\<close> read the registers, \<open>a0\<close> and \<open>g0\<close> are the power-on values, and \<open>ka\<close> and \<open>kg\<close>
  say what a register keeps of the value written to it.
\<close>

definition imu_delays :: "'d imu_bus \<Rightarrow> ('d, unit) state set" where
  "imu_delays B = range (bmi088_delay_ms B) \<union> range (bmi088_delay_us B)"

definition accel_laws :: "'d imu_bus \<Rightarrow> (u8 \<Rightarrow> u8 \<Rightarrow> u8) \<Rightarrow> ('d \<Rightarrow> u8 \<Rightarrow> u8) \<Rightarrow> ('d \<Rightarrow> u8 \<Rightarrow> u8) \<Rightarrow> (u8 \<Rightarrow> u8) \<Rightarrow> bool" where
  "accel_laws B ka A G a0 = resettable_device (bmi088_accel_read_single_reg B) (bmi088_accel_write_single_reg B)
     (imu_delays B) write_bmi088_accel_reg_data_error ka A G (bmi088_accel_write_single_reg B 0x7E 0xB6) a0"

definition gyro_laws :: "'d imu_bus \<Rightarrow> (u8 \<Rightarrow> u8 \<Rightarrow> u8) \<Rightarrow> ('d \<Rightarrow> u8 \<Rightarrow> u8) \<Rightarrow> ('d \<Rightarrow> u8 \<Rightarrow> u8) \<Rightarrow> (u8 \<Rightarrow> u8) \<Rightarrow> bool" where
  "gyro_laws B kg A G g0 = resettable_device (bmi088_gyro_read_single_reg B) (bmi088_gyro_write_single_reg B)
     (imu_delays B) write_bmi088_gyro_reg_data_error kg G A (bmi088_gyro_write_single_reg B 0x14 0xB6) g0"

lemma imu_delays [simp]: "bmi088_delay_ms B n \<in> imu_delays B" "bmi088_delay_us B n \<in> imu_delays B"
  by (simp_all add: imu_delays_def)

lemma bmi088_accel_init_refines:
  assumes a: "accel_laws B ka A G a0"
    and spec: "device_init ka 0x1E BMI088_NO_SENSOR write_bmi088_accel_reg_data_error a0 = (c, f)"
  shows "\<exists>d'. run_state (bmi088_accel_init B) d = (to_bool c, d') \<and> A d' = f \<and> G d' = G d"
proof -
  note D = a [unfolded accel_laws_def]
  note R = resettable_device.axioms(1) [OF D]
  note rules = register_device.wp_read [OF R] register_device.wp_write [OF R] register_device.wp_delay [OF R]
    resettable_device.wp_reset [OF D]
  have check: "wp (accel_write_check B slow r v) d Q"
    if m: "(r, v, e) \<in> set write_bmi088_accel_reg_data_error"
      and Q: "\<And>d'. A d' = (A d)(r := ka r v) \<Longrightarrow> G d' = G d \<Longrightarrow> Q (ka r v = v) d'" for slow r v e d Q
  proof -
    have r: "r \<in> set (0 # map fst write_bmi088_accel_reg_data_error)" using m by force
    show ?thesis unfolding accel_write_check_def wp_bind
      by (rule rules(2) [OF m], rule rules(3), simp, cases slow; simp only: if_True if_False wp_return;
          intro rules(1) [OF r] rules(3)) (use Q in simp_all)
  qed
  have "wp (bmi088_accel_init B) d (\<lambda>x d'. x = to_bool c \<and> A d' = f \<and> G d' = G d)"
    unfolding bmi088_accel_init_def accel_check_reset_def wp_bind wp_return
    by (intro rules(1,3,4)) (use spec in \<open>simp_all add: device_init_def check split: if_splits,
      auto intro!: register_device.wp_table [OF R, where loop = "accel_config B" and check = "\<lambda>i. accel_write_check B (i < 2)"] check\<close>)
  then show ?thesis by (auto dest: wp_run)
qed

lemma bmi088_gyro_init_refines:
  assumes g: "gyro_laws B kg A G g0"
    and spec: "device_init kg 0x0F BMI088_NO_SENSOR write_bmi088_gyro_reg_data_error g0 = (c, f)"
  shows "\<exists>d'. run_state (bmi088_gyro_init B) d = (to_bool c, d') \<and> G d' = f \<and> A d' = A d"
proof -
  note D = g [unfolded gyro_laws_def]
  note R = resettable_device.axioms(1) [OF D]
  note rules = register_device.wp_read [OF R] register_device.wp_write [OF R] register_device.wp_delay [OF R]
    resettable_device.wp_reset [OF D]
  have check: "wp (gyro_write_check B r v) d Q"
    if m: "(r, v, e) \<in> set write_bmi088_gyro_reg_data_error"
      and Q: "\<And>d'. G d' = (G d)(r := kg r v) \<Longrightarrow> A d' = A d \<Longrightarrow> Q (kg r v = v) d'" for r v e d Q
  proof -
    have r: "r \<in> set (0 # map fst write_bmi088_gyro_reg_data_error)" using m by force
    show ?thesis unfolding gyro_write_check_def wp_bind
      by (rule rules(2) [OF m], intro rules(1) [OF r] rules(3)) (use Q in simp_all)
  qed
  have "wp (bmi088_gyro_init B) d (\<lambda>x d'. x = to_bool c \<and> G d' = f \<and> A d' = A d)"
    unfolding bmi088_gyro_init_def gyro_check_reset_def wp_bind wp_return
    by (intro rules(1,3,4)) (use spec in \<open>simp_all add: device_init_def check split: if_splits,
      auto intro!: register_device.wp_table [OF R, where loop = "\<lambda>_. gyro_config B" and check = "\<lambda>_. gyro_write_check B"] check\<close>)
  then show ?thesis by (auto dest: wp_run)
qed

subsection \<open>A sensor on the bus\<close>

text \<open>
  The sensor's side of the protocol, byte by byte: the first byte after a chip select is the register with
  the read flag; the accelerometer answers a read after one more byte, the gyroscope at once; consecutive
  bytes read consecutive registers.
\<close>

record sensor =
  sel_a :: bool
  sel_g :: bool
  sel_pos :: nat
  sel_reg :: u8
  aregs :: "u8 \<Rightarrow> u8"
  gregs :: "u8 \<Rightarrow> u8"

definition accel_on :: "u8 \<Rightarrow> u8" where "accel_on = (\<lambda>_. 0)(0 := 0x1E)"

definition gyro_on :: "u8 \<Rightarrow> u8" where "gyro_on = (\<lambda>_. 0)(0 := 0x0F)"

definition is_read :: "u8 \<Rightarrow> bool" where "is_read r = (r AND 0x80 \<noteq> 0)"

definition sensor_byte :: "(u8 \<Rightarrow> u8 \<Rightarrow> u8) \<Rightarrow> (u8 \<Rightarrow> u8 \<Rightarrow> u8) \<Rightarrow> u8 \<Rightarrow> sensor \<Rightarrow> u8 \<times> sensor" where
  "sensor_byte ka kg x d =
     (let d' = d\<lparr>sel_pos := Suc (sel_pos d)\<rparr> in
      if sel_pos d = 0 then (0, d'\<lparr>sel_reg := x\<rparr>)
      else if is_read (sel_reg d) then
        (if sel_a d then (if sel_pos d = 1 then 0 else aregs d ((sel_reg d AND 0x7F) + of_nat (sel_pos d - 2)))
         else gregs d ((sel_reg d AND 0x7F) + of_nat (sel_pos d - 1)), d')
      else if sel_a d then
        (0, d'\<lparr>aregs := (if sel_reg d = 0x7E \<and> x = 0xB6 then accel_on else (aregs d)(sel_reg d := ka (sel_reg d) x))\<rparr>)
      else (0, d'\<lparr>gregs := (if sel_reg d = 0x14 \<and> x = 0xB6 then gyro_on else (gregs d)(sel_reg d := kg (sel_reg d) x))\<rparr>))"

definition sensor_bus :: "(u8 \<Rightarrow> u8 \<Rightarrow> u8) \<Rightarrow> (u8 \<Rightarrow> u8 \<Rightarrow> u8) \<Rightarrow> sensor imu_bus" where
  "sensor_bus ka kg = \<lparr>CS1_ACCEL = (\<lambda>b d. d\<lparr>sel_a := \<not> b, sel_pos := 0\<rparr>), CS1_GYRO = (\<lambda>b d. d\<lparr>sel_g := \<not> b, sel_a := False, sel_pos := 0\<rparr>),
     SPI_TransmitReceive = sensor_byte ka kg, wait_ms = (\<lambda>_ d. d), wait_us = (\<lambda>_ d. d)\<rparr>"

lemmas access_defs = bmi088_accel_read_single_reg_def bmi088_accel_write_single_reg_def bmi088_gyro_read_single_reg_def
  bmi088_gyro_write_single_reg_def bmi088_read_single_reg_def bmi088_write_single_reg_def bmi088_read_write_byte_def
  bmi088_ACCEL_NS_L_def bmi088_ACCEL_NS_H_def bmi088_GYRO_NS_L_def bmi088_GYRO_NS_H_def State_Monad.update_def

lemma sensor_delays: "w \<in> imu_delays (sensor_bus ka kg) \<Longrightarrow> run_state w d = ((), d)"
  by (auto simp: imu_delays_def sensor_bus_def bmi088_delay_ms_def bmi088_delay_us_def State_Monad.update_def)

lemmas tables = write_bmi088_accel_reg_data_error_def write_bmi088_gyro_reg_data_error_def

interpretation accel: resettable_device "bmi088_accel_read_single_reg (sensor_bus ka kg)"
  "bmi088_accel_write_single_reg (sensor_bus ka kg)" "imu_delays (sensor_bus ka kg)" write_bmi088_accel_reg_data_error
  ka aregs gregs "bmi088_accel_write_single_reg (sensor_bus ka kg) 0x7E 0xB6" accel_on for ka kg
  by unfold_locales
    (auto simp: tables access_defs sensor_bus_def sensor_byte_def Let_def is_read_def sensor_delays)

interpretation gyro: resettable_device "bmi088_gyro_read_single_reg (sensor_bus ka kg)"
  "bmi088_gyro_write_single_reg (sensor_bus ka kg)" "imu_delays (sensor_bus ka kg)" write_bmi088_gyro_reg_data_error
  kg gregs aregs "bmi088_gyro_write_single_reg (sensor_bus ka kg) 0x14 0xB6" gyro_on for ka kg
  by unfold_locales
    (auto simp: tables access_defs sensor_bus_def sensor_byte_def Let_def is_read_def sensor_delays)

lemma sensor_laws:
  "accel_laws (sensor_bus ka kg) ka aregs gregs accel_on" "gyro_laws (sensor_bus ka kg) kg aregs gregs gyro_on"
  unfolding accel_laws_def gyro_laws_def by unfold_locales

text \<open>C24.
  Both initialisations refine the abstract configuration of a register bank, whatever state the sensor is in: the
  identification is checked after the reset, the table is stored up to the first register that does not keep its
  value, the result is 0 exactly when there is none, and the other sensor is not disturbed.  When everything is
  kept, every register of the table holds its value afterwards.
\<close>

theorem bmi088_init_refines:
  assumes "accel_laws B ka A G a0" "gyro_laws B kg A G g0"
    "device_init ka 0x1E BMI088_NO_SENSOR write_bmi088_accel_reg_data_error a0 = (ca, fa)"
    "device_init kg 0x0F BMI088_NO_SENSOR write_bmi088_gyro_reg_data_error g0 = (cg, fg)"
  shows "(\<exists>d'. run_state (bmi088_accel_init B) d = (to_bool ca, d') \<and> A d' = fa \<and> G d' = G d) \<and>
     (\<exists>d'. run_state (bmi088_gyro_init B) d = (to_bool cg, d') \<and> G d' = fg \<and> A d' = A d) \<and>
     (to_bool ca = 0 \<longrightarrow> (\<forall>(reg, v, e) \<in> set write_bmi088_accel_reg_data_error. fa reg = v)) \<and>
     (to_bool cg = 0 \<longrightarrow> (\<forall>(reg, v, e) \<in> set write_bmi088_gyro_reg_data_error. fg reg = v))"
proof -
  have t: "list_all (\<lambda>(r, v, e). e \<noteq> 0) t" "distinct (map fst t)"
    if "t = write_bmi088_accel_reg_data_error \<or> t = write_bmi088_gyro_reg_data_error" for t
    using that by (auto simp: tables)
  have "\<forall>(reg, v, e) \<in> set write_bmi088_accel_reg_data_error. fa reg = v" if "to_bool ca = 0"
    using device_init_stored [OF assms(3) t] that by (auto simp: to_bool_def BMI088_NO_SENSOR_def split: if_splits)
  moreover have "\<forall>(reg, v, e) \<in> set write_bmi088_gyro_reg_data_error. fg reg = v" if "to_bool cg = 0"
    using device_init_stored [OF assms(4) t] that by (auto simp: to_bool_def BMI088_NO_SENSOR_def split: if_splits)
  ultimately show ?thesis
    using bmi088_accel_init_refines [OF assms(1,3)] bmi088_gyro_init_refines [OF assms(2,4)] by blast
qed

definition ex_sensor :: sensor where
  "ex_sensor = \<lparr>sel_a = False, sel_g = False, sel_pos = 0, sel_reg = 0, aregs = (\<lambda>_. 0x77), gregs = (\<lambda>_. 0x55)\<rparr>"

text \<open>A sensor whose gyroscope does not keep the bandwidth.\<close>

theorem bmi088_init_refines_witness:
  "\<exists>d1 d2. run_state (bmi088_accel_init (sensor_bus (\<lambda>r v. v) (\<lambda>r v. if r = 0x10 then 0 else v))) ex_sensor = (0, d1) \<and>
     aregs d1 0x40 = 0xAB \<and> gregs d1 = gregs ex_sensor \<and>
     run_state (bmi088_gyro_init (sensor_bus (\<lambda>r v. v) (\<lambda>r v. if r = 0x10 then 0 else v))) ex_sensor = (1, d2) \<and>
     gregs d2 0x10 = 0"
proof -
  obtain ca fa cg fg where
    1: "device_init (\<lambda>r v. v) 0x1E BMI088_NO_SENSOR write_bmi088_accel_reg_data_error accel_on = (ca, fa)" and
    2: "device_init (\<lambda>r v. if r = 0x10 then 0 else v) 0x0F BMI088_NO_SENSOR write_bmi088_gyro_reg_data_error gyro_on = (cg, fg)"
    by (meson surj_pair)
  have c: "ca = 0" "fa 0x40 = 0xAB" "cg = 9" "fg 0x10 = 0"
    using 1 2 by (auto simp: device_init_def tables accel_on_def gyro_on_def)
  show ?thesis
    using bmi088_init_refines [OF sensor_laws 1 2, of ex_sensor] c by (force simp: to_bool_def)
qed

lemma to_bool_01: "to_bool c = 0 \<or> to_bool c = 1"
  by (simp add: to_bool_def)

lemma init_is_bool:
  "wp (bmi088_accel_init B) d (\<lambda>x _. x = 0 \<or> x = 1)" "wp (bmi088_gyro_init B) d (\<lambda>x _. x = 0 \<or> x = 1)"
  by (simp_all add: bmi088_accel_init_def bmi088_gyro_init_def wp_def to_bool_01 split: prod.splits)

text \<open>
  The error codes of the configuration steps never reach the caller: the two initialisations are declared
  \<open>bool\<close>, so that for every sensor whatsoever the result of \<open>deviceBmi088Init\<close> is 0, 1, a self-test code or a
  combination of these, and a missing sensor and a refused register are indistinguishable.
\<close>

theorem deviceBmi088Init_codes:
  "fst (run_state (deviceBmi088Init B) d) \<in> {0, 1, 0x80, 0x40, 0x81, 0x41, 0xC0}"
proof -
  have a: "wp (if t \<noteq> 0 then State_Monad.return BMI088_SELF_TEST_ACCEL_ERROR else bmi088_accel_init B) d (\<lambda>x _. x \<in> {0, 1, 0x80})" for t :: u8 and d
    using init_is_bool(1) [of B d] by (auto simp: BMI088_SELF_TEST_ACCEL_ERROR_def intro: wp_mono)
  have g: "wp (if t \<noteq> 0 then State_Monad.return BMI088_SELF_TEST_GYRO_ERROR else bmi088_gyro_init B) d (\<lambda>x _. x \<in> {0, 1, 0x40})" for t :: u8 and d
    using init_is_bool(2) [of B d] by (auto simp: BMI088_SELF_TEST_GYRO_ERROR_def intro: wp_mono)
  have "wp (deviceBmi088Init B) d (\<lambda>x _. x \<in> {0, 1, 0x80, 0x40, 0x81, 0x41, 0xC0})"
    unfolding deviceBmi088Init_def wp_bind wp_return
    by (rule wp_any, rule wp_mono [OF a], rule wp_any, rule wp_mono [OF g]) auto
  then show ?thesis by (auto simp: wp_def split: prod.splits)
qed

subsection \<open>Measurements\<close>

text \<open>The temperature as the data sheet defines it: eleven bits in two's complement, eighths of a degree from 23.\<close>

definition sheet_temperature :: "u8 \<Rightarrow> u8 \<Rightarrow> int" where
  "sheet_temperature b0 b1 =
     (let u = 8 * uint b0 + uint b1 div 32 in if u > 1023 then u - 2048 else u)"

lemma raw_temperature_sheet: "raw_temperature b0 b1 = sheet_temperature b0 b1" "\<bar>sheet_temperature b0 b1\<bar> \<le> 1024"
proof -
  define u where "u = 8 * uint b0 + uint b1 div 32"
  have b: "0 \<le> uint b0" "uint b0 < 256" "0 \<le> uint b1" "uint b1 < 256"
    using uint_lt2p [of b0] uint_lt2p [of b1] by simp_all
  have "0 \<le> uint b1 div 32" "uint b1 div 32 < 8" using b by (simp_all add: pos_imp_zdiv_nonneg_iff)
  then have u: "0 \<le> u" "u < 2048" using b unfolding u_def by linarith+
  have "uint (push_bit 3 (ucast b0 :: u32) OR drop_bit 5 (ucast b1)) = push_bit 3 (uint b0) OR drop_bit 5 (uint b1)"
  proof -
    have c: "uint (ucast b0 :: u32) = uint b0" "uint (ucast b1 :: u32) = uint b1"
      using b by (simp_all add: unsigned_ucast_eq take_bit_int_eq_self)
    have "uint (push_bit 3 (ucast b0 :: u32)) = push_bit 3 (uint b0)"
      unfolding unsigned_push_bit_eq c using b by (simp add: take_bit_int_eq_self push_bit_eq_mult)
    moreover have "uint (drop_bit 5 (ucast b1 :: u32)) = drop_bit 5 (uint b1)" unfolding unsigned_drop_bit_eq c
      using b by (simp add: take_bit_int_eq_self)
    ultimately show ?thesis by (simp only: uint_or)
  qed
  also have "\<dots> = push_bit 3 (uint b0) + drop_bit 5 (uint b1)"
  proof (rule disjunctive_add [symmetric])
    fix n
    have "\<not> bit (drop_bit 5 (uint b1)) n" if "3 \<le> n"
      using that bit_imp_le_length [of b1 "n + 5"] by (auto simp: bit_drop_bit_eq bit_uint_iff ac_simps)
    then show "\<not> bit (push_bit 3 (uint b0)) n \<or> \<not> bit (drop_bit 5 (uint b1)) n" by (auto simp: bit_push_bit_iff)
  qed
  also have "\<dots> = u" by (simp add: u_def push_bit_eq_mult drop_bit_eq_div)
  finally have w: "(push_bit 3 (ucast b0 :: u32) OR drop_bit 5 (ucast b1)) = word_of_int u" by (metis word_of_int_uint)
  have s: "sint (word_of_int i :: u16) = i" if "- 2048 \<le> i" "i < 2048" for i
    using that by (simp add: sint_sbintrunc' signed_take_bit_int_eq_self)
  have "sint (ucast (word_of_int u :: u32) :: u16) = u"
  proof -
    have "uint (ucast (word_of_int u :: u32) :: u16) = uint (word_of_int u :: u16)"
      using u by (simp add: unsigned_ucast_eq uint_word_of_int take_bit_int_eq_self)
    then have "(ucast (word_of_int u :: u32) :: u16) = word_of_int u" by (metis word_of_int_uint)
    then show ?thesis using s [of u] u by simp
  qed
  then show "raw_temperature b0 b1 = sheet_temperature b0 b1"
    using s [of "u - 2048"] u unfolding raw_temperature_def w by (simp add: sheet_temperature_def u_def [symmetric] Let_def)
  show "\<bar>sheet_temperature b0 b1\<bar> \<le> 1024" using u by (simp add: sheet_temperature_def u_def [symmetric] Let_def)
qed

lemma temperature_constants: "BMI088_TEMP_FACTOR = Fin False (1 / 8)" "BMI088_TEMP_OFFSET = Fin False 23"
  by code_simp+

lemma temperature_exact:
  "val (temperature b0 b1) = of_int (sheet_temperature b0 b1) / 8 + 23 \<and>
   bounded 151 (temperature b0 b1)"
proof -
  define t where "t = sheet_temperature b0 b1"
  have t: "\<bar>t\<bar> \<le> 1024" using raw_temperature_sheet(2) by (simp add: t_def)
  have f: "f32_of (of_int t) = Fin (t < 0) (of_int \<bar>t\<bar>)"
    using mk_exact [of "of_int \<bar>t\<bar>" "\<bar>t\<bar>" 0] t by (simp add: f32_of_def)
  have m: "fmul (f32_of (of_int t)) BMI088_TEMP_FACTOR = Fin (t < 0) (of_int \<bar>t\<bar> / 8)"
    using mk_exact [of "of_int \<bar>t\<bar> / 8" "\<bar>t\<bar>" 3] t by (simp add: f temperature_constants)
  have v: "val (Fin (t < 0) (of_int \<bar>t\<bar> / 8)) + val (Fin False 23) = of_int (t + 184) / 8" by (auto simp: field_simps)
  have a: "fadd (Fin (t < 0) (of_int \<bar>t\<bar> / 8)) (Fin False 23) =
      (if t + 184 = 0 then Fin False 0 else Fin (t + 184 < 0) (of_int \<bar>t + 184\<bar> / 8))"
  proof -
    have "mk (of_int (t + 184) / 8 < (0 :: rat)) \<bar>of_int (t + 184) / 8\<bar> = Fin (t + 184 < 0) (of_int \<bar>t + 184\<bar> / 8)"
      using mk_exact [of "of_int \<bar>t + 184\<bar> / 8" "\<bar>t + 184\<bar>" 3] t
      by (simp add: divide_less_0_iff abs_divide del: of_int_add)
    then show ?thesis unfolding fadd.simps Let_def v by (simp del: of_int_add)
  qed
  have "temperature b0 b1 = fadd (fmul (f32_of (of_int t)) BMI088_TEMP_FACTOR) BMI088_TEMP_OFFSET"
    by (simp add: temperature_def raw_temperature_sheet(1) t_def)
  also have "\<dots> = (if t + 184 = 0 then Fin False 0 else Fin (t + 184 < 0) (of_int \<bar>t + 184\<bar> / 8))"
    unfolding m temperature_constants(2) by (rule a)
  finally have e: "temperature b0 b1 =
    (if t + 184 = 0 then Fin False 0 else Fin (t + 184 < 0) (of_int \<bar>t + 184\<bar> / 8))" .
  have "of_int (t + 184) / 8 = of_int t / 8 + (23 :: rat)" by (simp add: field_simps)
  moreover have "(of_int \<bar>t + 184\<bar> :: rat) \<le> of_int 1208" using t by (simp only: of_int_le_iff)
  ultimately show ?thesis unfolding e t_def [symmetric] by (auto simp del: of_int_add)
qed

text \<open>
  The temperature is exact: for every pair of bytes the computed \<open>float\<close> is the value the data sheet defines,
  without any rounding error.
\<close>

theorem bmi088_temperature_exact:
  "val (bmi088_temperature_read_over [b0, b1]) = of_int (sheet_temperature b0 b1) / 8 + 23"
  using temperature_exact [of b0 b1] by (simp add: bmi088_temperature_read_over_def)

subsection \<open>Samples\<close>

lemma sint_le16: "sint (le16 lo hi) = signed16 lo hi"
  by (rule sint_pair) (auto simp: le16_def bit_simps dest: bit_imp_le_length)

lemma bounded_scale3:
  assumes "bounded B sen" "32768 * B \<le> of_int c" "c < 2 ^ 24"
  shows "list_all (bounded (of_int c)) (scale3 sen (le16s b))"
proof -
  have "bounded (of_int c) (fmul (f32_of (of_int (sint (le16 x y)))) sen)" for x y
  proof (rule bounded_mul_int [OF _ assms(1)])
    have "\<bar>of_int (signed16 x y) :: rat\<bar> \<le> of_int 32768"
      using signed16_range [of x y] by (simp only: of_int_abs [symmetric] of_int_le_iff)
    then show "bounded (of_int 32768) (f32_of (of_int (sint (le16 x y))))" unfolding sint_le16 by (rule bounded_of_int) simp
  qed (use assms in simp_all)
  then show ?thesis by (simp add: scale3_def le16s_def)
qed

lemma length_scale3: "length (scale3 sen (le16s b)) = 3"
  by (simp add: scale3_def le16s_def)

lemma sensitivity_bounds: "bounded (1 / 1000) BMI088_ACCEL_SEN" "bounded (1066 / 1000000) BMI088_GYRO_SEN"
  by code_simp+

text \<open>C38.
  Whatever bytes come over the bus, every sample handed to the caller is a finite number in range: three
  accelerations of at most 33 m/s2, a temperature of at most 151 degrees, and either three angular rates of at
  most 35 rad/s or, when the gyroscope does not identify itself, the caller's old rates untouched.
\<close>

theorem deviceBmi088Read_finite:
  "case fst (run_state (deviceBmi088Read B gyro) d) of (g, a, t) \<Rightarrow>
     length a = 3 \<and> list_all (bounded 33) a \<and> bounded 151 t \<and>
     (g = gyro \<or> length g = 3 \<and> list_all (bounded 35) g)"
proof -
  have "bounded 151 (temperature b0 b1)" for b0 b1 using temperature_exact [of b0 b1] ..
  moreover have "list_all (bounded 33) (scale3 BMI088_ACCEL_SEN (le16s b))" for b
    using bounded_scale3 [OF sensitivity_bounds(1), of 33 b] by simp
  moreover have "list_all (bounded 35) (scale3 BMI088_GYRO_SEN (le16s b))" for b
    using bounded_scale3 [OF sensitivity_bounds(2), of 35 b] by simp
  ultimately show ?thesis
    by (simp add: deviceBmi088Read_def Let_def length_scale3 split: prod.splits)
qed

end
