(* ===== verification/Ist8310.thy ===== *)
theory Ist8310
  imports Register_Device Float32_Exact
begin

text \<open>
  The driver of the magnetometer (\<open>src/devices/ist8310.c\<close> on \<open>ist8310_middleware.c\<close>), in the state monad over the
  sensor.  The I2C peripheral, the reset pin and the delays are a record of functions; a read of the peripheral may
  fail (\<open>None\<close>), which the code does not test, so that the destination keeps the indeterminate bytes it had:
  \<open>uninit\<close> stands for the contents of an uninitialised automatic array.
\<close>

record 'd mag_bus =
  I2C_Mem_Read :: "u16 \<Rightarrow> u8 \<Rightarrow> nat \<Rightarrow> 'd \<Rightarrow> u8 list option \<times> 'd"
  I2C_Mem_Write :: "u16 \<Rightarrow> u8 \<Rightarrow> u8 list \<Rightarrow> 'd \<Rightarrow> 'd"
  CMPS_RESET :: "bool \<Rightarrow> 'd \<Rightarrow> 'd"
  mag_wait_ms :: "u16 \<Rightarrow> 'd \<Rightarrow> 'd"
  mag_wait_us :: "u16 \<Rightarrow> 'd \<Rightarrow> 'd"
  uninit :: "nat \<Rightarrow> 'd \<Rightarrow> u8 list"

subsection \<open>Middleware\<close>

definition IST8310_IIC_ADDRESS :: u16 where "IST8310_IIC_ADDRESS = push_bit 1 0x0E"

definition mem_read_into :: "'d mag_bus \<Rightarrow> u8 \<Rightarrow> u8 list \<Rightarrow> ('d, u8 list) state" where
  "mem_read_into B reg buf = State (\<lambda>d. case I2C_Mem_Read B IST8310_IIC_ADDRESS reg (length buf) d of
     (Some data, d') \<Rightarrow> (data, d') | (None, d') \<Rightarrow> (buf, d'))"

definition uninitialised :: "'d mag_bus \<Rightarrow> nat \<Rightarrow> ('d, u8 list) state" where
  "uninitialised B n = State (\<lambda>d. (uninit B n d, d))"

definition ist8310_IIC_read_single_reg :: "'d mag_bus \<Rightarrow> u8 \<Rightarrow> ('d, u8) state" where
  "ist8310_IIC_read_single_reg B reg =
     do { res \<leftarrow> uninitialised B 1; buf \<leftarrow> mem_read_into B reg res; State_Monad.return (hd buf) }"

definition ist8310_IIC_write_single_reg :: "'d mag_bus \<Rightarrow> u8 \<Rightarrow> u8 \<Rightarrow> ('d, unit) state" where
  "ist8310_IIC_write_single_reg B reg data = State_Monad.update (I2C_Mem_Write B IST8310_IIC_ADDRESS reg [data])"

definition ist8310_IIC_read_muli_reg :: "'d mag_bus \<Rightarrow> u8 \<Rightarrow> u8 list \<Rightarrow> ('d, u8 list) state" where
  "ist8310_IIC_read_muli_reg B reg buf = mem_read_into B reg buf"

definition ist8310_IIC_write_muli_reg :: "'d mag_bus \<Rightarrow> u8 \<Rightarrow> u8 list \<Rightarrow> ('d, unit) state" where
  "ist8310_IIC_write_muli_reg B reg data = State_Monad.update (I2C_Mem_Write B IST8310_IIC_ADDRESS reg data)"

definition deviceIst8310DelayMs :: "'d mag_bus \<Rightarrow> u16 \<Rightarrow> ('d, unit) state" where
  "deviceIst8310DelayMs B ms = State_Monad.update (mag_wait_ms B ms)"

definition deviceIst8310DelayUs :: "'d mag_bus \<Rightarrow> u16 \<Rightarrow> ('d, unit) state" where
  "deviceIst8310DelayUs B us = State_Monad.update (mag_wait_us B us)"

definition deviceIst8310ResetRise :: "'d mag_bus \<Rightarrow> ('d, unit) state" where
  "deviceIst8310ResetRise B = State_Monad.update (CMPS_RESET B True)"

definition deviceIst8310ResetFall :: "'d mag_bus \<Rightarrow> ('d, unit) state" where
  "deviceIst8310ResetFall B = State_Monad.update (CMPS_RESET B False)"

subsection \<open>Initialisation\<close>

definition IST8310_WHO_AM_I_VALUE :: u8 where "IST8310_WHO_AM_I_VALUE = 0x10"

definition IST8310_NO_SENSOR :: u8 where "IST8310_NO_SENSOR = 0x40"

definition ist8310_write_reg_data_error :: reg_table where
  "ist8310_write_reg_data_error = [(0x0B, 0x08, 0x01), (0x41, 0x09, 0x02), (0x42, 0xC0, 0x03), (0x0A, 0x0B, 0x04)]"

definition mag_write_check :: "'d mag_bus \<Rightarrow> u8 \<Rightarrow> u8 \<Rightarrow> ('d, bool) state" where
  "mag_write_check B reg v =
     do { ist8310_IIC_write_single_reg B reg v; deviceIst8310DelayMs B 1;
          res \<leftarrow> ist8310_IIC_read_single_reg B reg; deviceIst8310DelayMs B 1;
          State_Monad.return (res = v) }"

fun mag_config :: "'d mag_bus \<Rightarrow> reg_table \<Rightarrow> ('d, u8) state" where
  "mag_config B [] = State_Monad.return 0"
| "mag_config B ((reg, v, e) # xs) =
     do { ok \<leftarrow> mag_write_check B reg v; if ok then mag_config B xs else State_Monad.return e }"

definition mag_reset :: "'d mag_bus \<Rightarrow> ('d, unit) state" where
  "mag_reset B =
     do { deviceIst8310ResetFall B; deviceIst8310DelayMs B 50; deviceIst8310ResetRise B; deviceIst8310DelayMs B 50 }"

definition deviceIst8310Init :: "'d mag_bus \<Rightarrow> ('d, u8) state" where
  "deviceIst8310Init B =
     do { mag_reset B;
          res \<leftarrow> ist8310_IIC_read_single_reg B 0x00;
          if res \<noteq> IST8310_WHO_AM_I_VALUE then State_Monad.return IST8310_NO_SENSOR
          else do { deviceIst8310DelayMs B 1; mag_config B ist8310_write_reg_data_error } }"

subsection \<open>Measurements\<close>

record ist8310_real_data =
  status :: u8
  mag :: "f32 list"

definition MAG_SEN :: f32 where "MAG_SEN = f32_of (3 / 10)"

definition mag16 :: "u8 \<Rightarrow> u8 \<Rightarrow> u16" where
  "mag16 lo hi = ucast (push_bit 8 (ucast hi :: u32) OR ucast lo)"

text \<open>The three axes from the bytes at an offset.\<close>

definition mag_axes :: "nat \<Rightarrow> u8 list \<Rightarrow> f32 list" where
  "mag_axes n b = map (\<lambda>i. fmul MAG_SEN (f32_of (of_int (sint (mag16 (b ! i) (b ! (i + 1))))))) [n, n + 2, n + 4]"

definition ist8310_read_over :: "u8 list \<Rightarrow> ist8310_real_data \<Rightarrow> ist8310_real_data" where
  "ist8310_read_over status_buf m =
     (if status_buf ! 0 AND 0x01 \<noteq> 0
      then m\<lparr>status := status m OR push_bit 2 1, mag := mag_axes 1 status_buf\<rparr>
      else m\<lparr>status := status m AND NOT (push_bit 2 1)\<rparr>)"

definition deviceIst8310ReadMagnitude :: "'d mag_bus \<Rightarrow> ('d, f32 list) state" where
  "deviceIst8310ReadMagnitude B =
     do { buf \<leftarrow> uninitialised B 6; buf \<leftarrow> ist8310_IIC_read_muli_reg B 0x03 buf; State_Monad.return (mag_axes 0 buf) }"

subsection \<open>Initialisation refines the configuration of a register bank\<close>

text \<open>The magnetometer's laws: the register contract, with the pulse on the reset pin as the reset.\<close>

definition mag_laws :: "'d mag_bus \<Rightarrow> (u8 \<Rightarrow> u8 \<Rightarrow> u8) \<Rightarrow> ('d \<Rightarrow> u8 \<Rightarrow> u8) \<Rightarrow> ('d \<Rightarrow> 'e) \<Rightarrow> (u8 \<Rightarrow> u8) \<Rightarrow> bool" where
  "mag_laws B k R R' r0 = resettable_device (ist8310_IIC_read_single_reg B) (ist8310_IIC_write_single_reg B)
     (range (deviceIst8310DelayMs B)) ist8310_write_reg_data_error k R R' (mag_reset B) r0"

lemma deviceIst8310Init_run:
  assumes m: "mag_laws B k R R' r0"
    and spec: "device_init k IST8310_WHO_AM_I_VALUE IST8310_NO_SENSOR ist8310_write_reg_data_error r0 = (c, f)"
  shows "\<exists>d'. run_state (deviceIst8310Init B) d = (c, d') \<and> R d' = f \<and> R' d' = R' d"
proof -
  note D = m [unfolded mag_laws_def]
  note R = resettable_device.axioms(1) [OF D]
  note rules = register_device.wp_read [OF R] register_device.wp_write [OF R] register_device.wp_delay [OF R]
    resettable_device.wp_reset [OF D]
  have check: "wp (mag_write_check B r v) d Q"
    if i: "(r, v, e) \<in> set ist8310_write_reg_data_error"
      and Q: "\<And>d'. R d' = (R d)(r := k r v) \<Longrightarrow> R' d' = R' d \<Longrightarrow> Q (k r v = v) d'" for r v e d Q
  proof -
    have r: "r \<in> set (0 # map fst ist8310_write_reg_data_error)" using i by force
    show ?thesis unfolding mag_write_check_def wp_bind
      by (rule rules(2) [OF i], intro rules(1) [OF r] rules(3)) (use Q in simp_all)
  qed
  have loop: "wp (mag_config B ist8310_write_reg_data_error) d1 (\<lambda>x d'. x = c \<and> R d' = f \<and> R' d' = R' d)"
    if "R d1 = r0" "R' d1 = R' d" "r0 0 = IST8310_WHO_AM_I_VALUE" for d1
    by (rule register_device.wp_table [OF R, where loop = "\<lambda>_. mag_config B" and check = "\<lambda>_. mag_write_check B"])
      (use that spec in \<open>auto simp: device_init_def intro: check\<close>)
  have "wp (deviceIst8310Init B) d (\<lambda>x d'. x = c \<and> R d' = f \<and> R' d' = R' d)"
    unfolding deviceIst8310Init_def wp_bind
    by (intro rules(1,4)) (use spec in \<open>auto simp: device_init_def intro!: rules(3) loop\<close>)
  then show ?thesis by (auto dest: wp_run)
qed

subsection \<open>A magnetometer on the bus\<close>

text \<open>A chip that keeps what \<open>k\<close> says of a written value and powers up when its reset pin is pulled down.\<close>

definition mag_on :: "u8 \<Rightarrow> u8" where "mag_on = (\<lambda>_. 0)(0 := 0x10)"

definition chip_bus :: "(u8 \<Rightarrow> u8 \<Rightarrow> u8) \<Rightarrow> (u8 \<Rightarrow> u8) mag_bus" where
  "chip_bus k = \<lparr>I2C_Mem_Read = (\<lambda>_ reg n f. (Some (map (\<lambda>i. f (reg + of_nat i)) [0..<n]), f)),
     I2C_Mem_Write = (\<lambda>_ reg data f. f(reg := k reg (hd data))),
     CMPS_RESET = (\<lambda>b f. if b then f else mag_on), mag_wait_ms = (\<lambda>_ f. f), mag_wait_us = (\<lambda>_ f. f),
     uninit = (\<lambda>n _. replicate n 0xA5)\<rparr>"

lemmas mag_defs = ist8310_IIC_read_single_reg_def ist8310_IIC_write_single_reg_def mem_read_into_def uninitialised_def
  deviceIst8310DelayMs_def deviceIst8310ResetRise_def deviceIst8310ResetFall_def mag_reset_def State_Monad.update_def

interpretation magnetometer: resettable_device "ist8310_IIC_read_single_reg (chip_bus k)"
  "ist8310_IIC_write_single_reg (chip_bus k)" "range (deviceIst8310DelayMs (chip_bus k))" ist8310_write_reg_data_error
  k "\<lambda>f. f" "\<lambda>f. ()" "mag_reset (chip_bus k)" mag_on for k
  by unfold_locales (auto simp: mag_defs chip_bus_def)

lemma chip_laws: "mag_laws (chip_bus k) k (\<lambda>f. f) (\<lambda>f. ()) mag_on"
  unfolding mag_laws_def by unfold_locales

text \<open>
  The initialisation of the magnetometer refines the abstract configuration of a register bank: the code it
  returns names the first register that does not keep its value, or a missing sensor, and when it returns 0 every
  register of the table holds its value.
\<close>

theorem deviceIst8310Init_refines:
  assumes "mag_laws B k R R' r0"
    "device_init k IST8310_WHO_AM_I_VALUE IST8310_NO_SENSOR ist8310_write_reg_data_error r0 = (c, f)"
  shows "(\<exists>d'. run_state (deviceIst8310Init B) d = (c, d') \<and> R d' = f \<and> R' d' = R' d) \<and>
     (c = 0 \<longrightarrow> (\<forall>(reg, v, e) \<in> set ist8310_write_reg_data_error. f reg = v))"
proof -
  have "\<forall>(reg, v, e) \<in> set ist8310_write_reg_data_error. f reg = v" if "c = 0"
    using device_init_stored [OF assms(2)] that by (simp add: ist8310_write_reg_data_error_def IST8310_NO_SENSOR_def)
  then show ?thesis using deviceIst8310Init_run [OF assms] by blast
qed

theorem deviceIst8310Init_refines_witness:
  "\<exists>d'. run_state (deviceIst8310Init (chip_bus (\<lambda>r v. if r = 0x42 then 0 else v))) (\<lambda>_. 0x33) = (3, d') \<and> d' 0x41 = 0x09"
proof -
  obtain c f where s: "device_init (\<lambda>r v. if r = 0x42 then 0 else v) IST8310_WHO_AM_I_VALUE IST8310_NO_SENSOR
      ist8310_write_reg_data_error mag_on = (c, f)" by (meson surj_pair)
  have c: "c = 3" "f 0x41 = 0x09"
    using s by (auto simp: device_init_def ist8310_write_reg_data_error_def mag_on_def IST8310_WHO_AM_I_VALUE_def)
  show ?thesis using deviceIst8310Init_refines [OF chip_laws s, of "\<lambda>_. 0x33"] c by auto
qed

subsection \<open>Samples\<close>

lemma sint_mag16: "sint (mag16 lo hi) = signed16 lo hi"
  by (rule sint_pair) (auto simp: mag16_def bit_simps dest: bit_imp_le_length)

lemma bounded_mag_axis: "bounded 9831 (fmul MAG_SEN (f32_of (of_int (signed16 lo hi))))"
proof -
  have "\<bar>of_int (signed16 lo hi) :: rat\<bar> \<le> of_int 32768"
    using signed16_range [of lo hi] by (simp only: of_int_abs [symmetric] of_int_le_iff)
  then have "bounded (of_int 32768) (f32_of (of_int (signed16 lo hi)))" by (rule bounded_of_int) simp
  moreover have "bounded (300001 / 1000000) MAG_SEN" by code_simp
  ultimately show ?thesis using bounded_mul_int [of "300001 / 1000000" MAG_SEN 32768 _ 9831] by simp
qed

text \<open>
  A status block that reports new data replaces the field by three finite values of at most 9831 uT, decoded from
  the signed samples, and raises only the ready bit; any other block keeps the old field and lowers only that bit.
\<close>

theorem ist8310_read_over_effect:
  "let m' = ist8310_read_over b m in
   (\<forall>i < 8. bit (status m') i = (if i = 2 then odd (b ! 0) else bit (status m) i)) \<and>
   mag m' = (if odd (b ! 0)
     then map (\<lambda>i. fmul MAG_SEN (f32_of (of_int (signed16 (b ! i) (b ! (i + 1)))))) [1, 3, 5] else mag m) \<and>
   (odd (b ! 0) \<longrightarrow> list_all (bounded 9831) (mag m'))"
proof -
  have odd: "(b ! 0 AND 1 \<noteq> 0) = odd (b ! 0)" by (simp add: and_one_eq odd_iff_mod_2_eq_one)
  show ?thesis
    unfolding ist8310_read_over_def odd Let_def
    by (auto simp: mag_axes_def sint_mag16 bounded_mag_axis bit_simps less_Suc_eq numeral_eq_Suc)
qed

theorem ist8310_read_over_effect_witness:
  "let m' = ist8310_read_over [1, 10, 0, 0, 0, 0, 0x80] \<lparr>status = 0x81, mag = []\<rparr> in
   bit (status m') 2 \<and> bit (status m') 7 \<and> list_all (bounded 9831) (mag m')"
  using ist8310_read_over_effect [of "[1, 10, 0, 0, 0, 0, 0x80]" "\<lparr>status = 0x81, mag = []\<rparr>"]
  by (auto simp: Let_def bounded_mag_axis)

end
