(* ===== verification/Ins_Task.thy ===== *)
theory Ins_Task
  imports Bmi088 Ist8310 "HOL-Library.Monad_Syntax"
begin

text \<open>
  The inertial measurement task (\<open>src/dji/ins_task.c\<close>).  Three transfers share one SPI bus: the gyroscope on its own
  chip select, accelerations and temperature on the accelerometer's.  Data-ready interrupts and the end of each DMA
  transfer drive four bits per transfer (requested, under way, received, to be reported), and the task collects what was
  received.  Each interrupt handler is one step; the DMA controller is part of the state, \<open>SPI1_DMA_enable\<close>, which is
  not part of the repository, a parameter that starts a transfer.
\<close>

datatype dma_job = GyroJob | AccelJob | TempJob

fun job_length :: "dma_job \<Rightarrow> nat" where
  "job_length GyroJob = 8"
| "job_length AccelJob = 9"
| "job_length TempJob = 4"

text \<open>The enable bits of the two DMA streams, the transfer-complete flag, the chip-select pins and the buffers of the transfer.\<close>

record spi_hw =
  tx_en :: bool
  rx_en :: bool
  rx_tc :: bool
  cs_gyro :: bool
  cs_accel :: bool
  job :: "dma_job option"

record bmi088_real_data =
  b_accel :: "f32 list"
  b_temp :: f32
  b_gyro :: "f32 list"
  b_time :: f32

record ins =
  hw :: spi_hw
  gyro_update_flag :: u8
  accel_update_flag :: u8
  accel_temp_update_flag :: u8
  mag_update_flag :: u8
  imu_start_dma_flag :: u8
  gyro_dma_rx_buf :: "u8 list"
  accel_dma_rx_buf :: "u8 list"
  accel_temp_dma_rx_buf :: "u8 list"
  after_accel_buf :: "u8 list"
  notified :: nat
  scheduler_started :: bool
  swit_pin0 :: bool
  first_temperate :: u8
  temp_constant_time :: u8
  temp_pwm :: u16
  bmi088_data :: bmi088_real_data
  ist8310_data :: ist8310_real_data
  gyro_offset :: "f32 list"
  gyro_cali_offset :: "f32 list"
  accel_offset :: "f32 list"
  mag_offset :: "f32 list"
  INS_gyro :: "f32 list"
  INS_accel :: "f32 list"
  INS_mag :: "f32 list"
  INS_quat :: "f32 list"
  INS_angle :: "f32 list"
  accel_fliter_1 :: "f32 list"
  accel_fliter_2 :: "f32 list"
  accel_fliter_3 :: "f32 list"

definition IMU_DR_SHFITS :: nat where "IMU_DR_SHFITS = 0"

definition IMU_SPI_SHFITS :: nat where "IMU_SPI_SHFITS = 1"

definition IMU_UPDATE_SHFITS :: nat where "IMU_UPDATE_SHFITS = 2"

definition IMU_NOTIFY_SHFITS :: nat where "IMU_NOTIFY_SHFITS = 3"

lemmas shifts = IMU_DR_SHFITS_def IMU_SPI_SHFITS_def IMU_UPDATE_SHFITS_def IMU_NOTIFY_SHFITS_def

text \<open>The updates of a flag: \<open>flag |= (1 << i)\<close>, \<open>flag &= ~(1 << i)\<close>, and moving on from one stage to the next.\<close>

definition raise_bit :: "nat \<Rightarrow> u8 \<Rightarrow> u8" where
  "raise_bit i f = f OR push_bit i 1"

definition clear_bit :: "nat \<Rightarrow> u8 \<Rightarrow> u8" where
  "clear_bit i f = f AND NOT (push_bit i 1)"

definition move_bit :: "nat \<Rightarrow> nat \<Rightarrow> u8 \<Rightarrow> u8" where
  "move_bit i j f = raise_bit j (clear_bit i f)"

subsection \<open>Bus arbitration\<close>

definition dma_idle :: "spi_hw \<Rightarrow> bool" where
  "dma_idle h \<longleftrightarrow> \<not> tx_en h \<and> \<not> rx_en h"

definition imu_cmd_spi_dma :: "(dma_job \<Rightarrow> spi_hw \<Rightarrow> spi_hw) \<Rightarrow> ins \<Rightarrow> ins" where
  "imu_cmd_spi_dma SPI1_DMA_enable s =
     (if bit (gyro_update_flag s) IMU_DR_SHFITS \<and> dma_idle (hw s) \<and>
         \<not> bit (accel_update_flag s) IMU_SPI_SHFITS \<and> \<not> bit (accel_temp_update_flag s) IMU_SPI_SHFITS
      then s\<lparr>gyro_update_flag := move_bit IMU_DR_SHFITS IMU_SPI_SHFITS (gyro_update_flag s),
             hw := SPI1_DMA_enable GyroJob (hw s\<lparr>cs_gyro := False\<rparr>)\<rparr>
      else if bit (accel_update_flag s) IMU_DR_SHFITS \<and> dma_idle (hw s) \<and>
         \<not> bit (gyro_update_flag s) IMU_SPI_SHFITS \<and> \<not> bit (accel_temp_update_flag s) IMU_SPI_SHFITS
      then s\<lparr>accel_update_flag := move_bit IMU_DR_SHFITS IMU_SPI_SHFITS (accel_update_flag s),
             hw := SPI1_DMA_enable AccelJob (hw s\<lparr>cs_accel := False\<rparr>)\<rparr>
      else if bit (accel_temp_update_flag s) IMU_DR_SHFITS \<and> dma_idle (hw s) \<and>
         \<not> bit (gyro_update_flag s) IMU_SPI_SHFITS \<and> \<not> bit (accel_update_flag s) IMU_SPI_SHFITS
      then s\<lparr>accel_temp_update_flag := move_bit IMU_DR_SHFITS IMU_SPI_SHFITS (accel_temp_update_flag s),
             hw := SPI1_DMA_enable TempJob (hw s\<lparr>cs_accel := False\<rparr>)\<rparr>
      else s)"

text \<open>The data-ready handler; the conditions on the pin are commented out in the source, so that every call does everything.\<close>

definition ins_exti :: "(dma_job \<Rightarrow> spi_hw \<Rightarrow> spi_hw) \<Rightarrow> ins \<Rightarrow> ins" where
  "ins_exti E s =
     (let s = s\<lparr>accel_update_flag := raise_bit IMU_DR_SHFITS (accel_update_flag s),
                accel_temp_update_flag := raise_bit IMU_DR_SHFITS (accel_temp_update_flag s)\<rparr>;
          s = (if imu_start_dma_flag s \<noteq> 0 then imu_cmd_spi_dma E s else s);
          s = s\<lparr>gyro_update_flag := raise_bit IMU_DR_SHFITS (gyro_update_flag s)\<rparr>;
          s = (if imu_start_dma_flag s \<noteq> 0 then imu_cmd_spi_dma E s else s);
          s = s\<lparr>mag_update_flag := raise_bit IMU_DR_SHFITS (mag_update_flag s)\<rparr>
      in if scheduler_started s then s\<lparr>notified := Suc (notified s)\<rparr> else s)"

definition gyro_read_done :: "ins \<Rightarrow> ins" where
  "gyro_read_done s =
     (if bit (gyro_update_flag s) IMU_SPI_SHFITS
      then s\<lparr>gyro_update_flag := move_bit IMU_SPI_SHFITS IMU_UPDATE_SHFITS (gyro_update_flag s), hw := hw s\<lparr>cs_gyro := True\<rparr>\<rparr>
      else s)"

definition accel_read_done :: "ins \<Rightarrow> ins" where
  "accel_read_done s =
     (if bit (accel_update_flag s) IMU_SPI_SHFITS
      then s\<lparr>accel_update_flag := move_bit IMU_SPI_SHFITS IMU_UPDATE_SHFITS (accel_update_flag s), hw := hw s\<lparr>cs_accel := True\<rparr>\<rparr>
      else s)"

definition temp_read_done :: "ins \<Rightarrow> ins" where
  "temp_read_done s =
     (if bit (accel_temp_update_flag s) IMU_SPI_SHFITS
      then s\<lparr>accel_temp_update_flag := move_bit IMU_SPI_SHFITS IMU_UPDATE_SHFITS (accel_temp_update_flag s), hw := hw s\<lparr>cs_accel := True\<rparr>\<rparr>
      else s)"

definition report_gyro :: "ins \<Rightarrow> ins" where
  "report_gyro s =
     (if bit (gyro_update_flag s) IMU_UPDATE_SHFITS
      then s\<lparr>gyro_update_flag := move_bit IMU_UPDATE_SHFITS IMU_NOTIFY_SHFITS (gyro_update_flag s), swit_pin0 := True\<rparr>
      else s)"

definition spiDmaCallback :: "(dma_job \<Rightarrow> spi_hw \<Rightarrow> spi_hw) \<Rightarrow> ins \<Rightarrow> ins" where
  "spiDmaCallback E s =
     (if rx_tc (hw s) then
        report_gyro (imu_cmd_spi_dma E (temp_read_done (accel_read_done (gyro_read_done (s\<lparr>hw := hw s\<lparr>rx_tc := False\<rparr>\<rparr>)))))
      else s)"

subsection \<open>Calibration\<close>

definition BMI088_BOARD_INSTALL_SPIN_MATRIX :: "f32 list list" where
  "BMI088_BOARD_INSTALL_SPIN_MATRIX = map (map f32_of) [[0, 1, 0], [-1, 0, 0], [0, 0, 1]]"

definition IST8310_BOARD_INSTALL_SPIN_MATRIX :: "f32 list list" where
  "IST8310_BOARD_INSTALL_SPIN_MATRIX = map (map f32_of) [[1, 0, 0], [0, 1, 0], [0, 0, 1]]"

definition rotate_axis :: "f32 list \<Rightarrow> f32 list \<Rightarrow> f32 \<Rightarrow> f32" where
  "rotate_axis x row off = fadd (fadd (fadd (fmul (x ! 0) (row ! 0)) (fmul (x ! 1) (row ! 1))) (fmul (x ! 2) (row ! 2))) off"

definition rotate_axes :: "f32 list list \<Rightarrow> f32 list \<Rightarrow> f32 list \<Rightarrow> f32 list" where
  "rotate_axes M off x = map (\<lambda>i. rotate_axis x (M ! i) (off ! i)) [0, 1, 2]"

definition imu_cali_slove :: "ins \<Rightarrow> ins" where
  "imu_cali_slove s = s\<lparr>INS_gyro := rotate_axes BMI088_BOARD_INSTALL_SPIN_MATRIX (gyro_offset s) (b_gyro (bmi088_data s)),
     INS_accel := rotate_axes BMI088_BOARD_INSTALL_SPIN_MATRIX (accel_offset s) (b_accel (bmi088_data s)),
     INS_mag := rotate_axes IST8310_BOARD_INSTALL_SPIN_MATRIX (mag_offset s) (mag (ist8310_data s))\<rparr>"

text \<open>Null pointers are \<open>None\<close>.\<close>

definition gyro_offset_calc :: "f32 list option \<Rightarrow> f32 list option \<Rightarrow> u16 option \<Rightarrow> f32 list option \<times> u16 option" where
  "gyro_offset_calc off gyro count =
     (case (off, gyro, count) of
        (Some o3, Some g, Some n) \<Rightarrow>
          (Some (map (\<lambda>i. fsub (o3 ! i) (fmul (f32_of (3 / 10000)) (g ! i))) [0, 1, 2]), Some (n + 1))
      | _ \<Rightarrow> (off, count))"

text \<open>The new state, the scale factors, the offsets and the counter that are handed back.\<close>

definition INS_cali_gyro :: "u16 \<Rightarrow> ins \<Rightarrow> ins \<times> f32 list \<times> f32 list \<times> u16" where
  "INS_cali_gyro time_count s =
     (let s = (if time_count = 0 then s\<lparr>gyro_offset := gyro_cali_offset s\<rparr> else s)
      in case gyro_offset_calc (Some (gyro_offset s)) (Some (INS_gyro s)) (Some time_count) of (off, n) \<Rightarrow>
           (s\<lparr>gyro_offset := the off\<rparr>, [f32_of 1, f32_of 1, f32_of 1], the off, the n))"

definition INS_set_cali_gyro :: "f32 list \<Rightarrow> f32 list \<Rightarrow> ins \<Rightarrow> ins" where
  "INS_set_cali_gyro cali_scale cali_offset s = s\<lparr>gyro_cali_offset := cali_offset, gyro_offset := cali_offset\<rparr>"

definition get_INS_quat_point :: "ins \<Rightarrow> f32 list" where "get_INS_quat_point s = INS_quat s"

definition get_INS_angle_point :: "ins \<Rightarrow> f32 list" where "get_INS_angle_point s = INS_angle s"

definition get_gyro_data_point :: "ins \<Rightarrow> f32 list" where "get_gyro_data_point s = INS_gyro s"

definition get_accel_data_point :: "ins \<Rightarrow> f32 list" where "get_accel_data_point s = INS_accel s"

definition get_mag_data_point :: "ins \<Rightarrow> f32 list" where "get_mag_data_point s = INS_mag s"

subsection \<open>The task\<close>

definition MPU6500_TEMP_PWM_MAX :: u16 where "MPU6500_TEMP_PWM_MAX = 5000"

text \<open>
  The controller of the heater is commented out: once the warm-up is over an uninitialised variable is sent to it,
  \<open>tempPWM\<close>, whose contents are the argument.  \<open>temp_pwm\<close> is what \<open>IMU_temp_PWM\<close> was called with last.
\<close>

definition imu_temp_control :: "u16 \<Rightarrow> ins \<Rightarrow> ins" where
  "imu_temp_control tempPWM s =
     (if first_temperate s \<noteq> 0 then s\<lparr>temp_pwm := tempPWM\<rparr>
      else
        let s = s\<lparr>temp_constant_time := temp_constant_time s + 1\<rparr>;
            s = (if temp_constant_time s > 200 then s\<lparr>first_temperate := 1\<rparr> else s)
        in s\<lparr>temp_pwm := MPU6500_TEMP_PWM_MAX - 1\<rparr>)"

definition collect_gyro :: "ins \<Rightarrow> ins" where
  "collect_gyro s =
     (if bit (gyro_update_flag s) IMU_NOTIFY_SHFITS
      then s\<lparr>gyro_update_flag := clear_bit IMU_NOTIFY_SHFITS (gyro_update_flag s),
             bmi088_data := bmi088_data s\<lparr>b_gyro := bmi088_gyro_read_over (drop 1 (gyro_dma_rx_buf s))\<rparr>\<rparr>
      else s)"

text \<open>Decoding the accelerations reads two bytes past the end of their buffer, \<open>after_accel_buf\<close>.\<close>

definition collect_accel :: "ins \<Rightarrow> ins" where
  "collect_accel s =
     (if bit (accel_update_flag s) IMU_UPDATE_SHFITS
      then case bmi088_accel_read_over (drop 2 (accel_dma_rx_buf s @ after_accel_buf s)) of (a, t) \<Rightarrow>
        s\<lparr>accel_update_flag := clear_bit IMU_UPDATE_SHFITS (accel_update_flag s),
          bmi088_data := bmi088_data s\<lparr>b_accel := a, b_time := t\<rparr>\<rparr>
      else s)"

definition collect_temp :: "u16 \<Rightarrow> ins \<Rightarrow> ins" where
  "collect_temp tempPWM s =
     (if bit (accel_temp_update_flag s) IMU_UPDATE_SHFITS
      then imu_temp_control tempPWM
        (s\<lparr>accel_temp_update_flag := clear_bit IMU_UPDATE_SHFITS (accel_temp_update_flag s),
           bmi088_data := bmi088_data s\<lparr>b_temp := bmi088_temperature_read_over (drop 2 (accel_temp_dma_rx_buf s))\<rparr>\<rparr>)
      else s)"

definition fliter_num :: "f32 list" where
  "fliter_num = [f32_of (1929454039488895 / 10 ^ 15), f32_of (- 93178349823448126 / 10 ^ 17), f32_of (2329458745586203 / 10 ^ 18)]"

definition fliter :: "ins \<Rightarrow> ins" where
  "fliter s = s\<lparr>accel_fliter_1 := accel_fliter_2 s, accel_fliter_2 := accel_fliter_3 s,
     accel_fliter_3 := map (\<lambda>i. fadd (fadd (fmul (accel_fliter_3 s ! i) (fliter_num ! 0)) (fmul (accel_fliter_2 s ! i) (fliter_num ! 1)))
        (fmul (INS_accel s ! i) (fliter_num ! 2))) [0, 1, 2]\<rparr>"

definition collect_mag :: "ins \<Rightarrow> ins" where
  "collect_mag s =
     (let f = mag_update_flag s AND push_bit IMU_DR_SHFITS 1
      in s\<lparr>mag_update_flag := (if f \<noteq> 0 then move_bit IMU_DR_SHFITS IMU_SPI_SHFITS f else f)\<rparr>)"

definition INS_work :: "u16 \<Rightarrow> ins \<Rightarrow> ins" where
  "INS_work tempPWM s = collect_mag (fliter (imu_cali_slove (collect_temp tempPWM (collect_accel (collect_gyro s)))))"

text \<open>
  One return of \<open>ulTaskNotifyTake\<close>, which blocks while there is no notification, returns their number and clears it;
  the task goes on only when the number is 1.
\<close>

definition INS_turn :: "u16 \<Rightarrow> ins \<Rightarrow> ins" where
  "INS_turn tempPWM s =
     (if notified s = 0 then s
      else let n = notified s; s = s\<lparr>notified := 0\<rparr> in if n = 1 then INS_work tempPWM s else s)"

text \<open>The static variables as they are initialised, with the bus at rest.\<close>

definition ins_boot :: ins where
  "ins_boot = \<lparr>hw = \<lparr>tx_en = False, rx_en = False, rx_tc = False, cs_gyro = True, cs_accel = True, job = None\<rparr>,
     gyro_update_flag = 0, accel_update_flag = 0, accel_temp_update_flag = 0, mag_update_flag = 0, imu_start_dma_flag = 0,
     gyro_dma_rx_buf = replicate 8 0, accel_dma_rx_buf = replicate 9 0, accel_temp_dma_rx_buf = replicate 4 0, after_accel_buf = [0, 0],
     notified = 0, scheduler_started = True, swit_pin0 = False, first_temperate = 0, temp_constant_time = 0, temp_pwm = 0,
     bmi088_data = \<lparr>b_accel = replicate 3 (f32_of 0), b_temp = f32_of 0, b_gyro = replicate 3 (f32_of 0), b_time = f32_of 0\<rparr>,
     ist8310_data = \<lparr>status = 0, mag = replicate 3 (f32_of 0)\<rparr>, gyro_offset = replicate 3 (f32_of 0),
     gyro_cali_offset = replicate 3 (f32_of 0), accel_offset = replicate 3 (f32_of 0), mag_offset = replicate 3 (f32_of 0),
     INS_gyro = replicate 3 (f32_of 0), INS_accel = replicate 3 (f32_of 0), INS_mag = replicate 3 (f32_of 0),
     INS_quat = replicate 4 (f32_of 0), INS_angle = replicate 3 (f32_of 0), accel_fliter_1 = replicate 3 (f32_of 0),
     accel_fliter_2 = replicate 3 (f32_of 0), accel_fliter_3 = replicate 3 (f32_of 0)\<rparr>"

text \<open>
  Start-up: the drivers are initialised until they succeed, with a pause in between; \<open>None\<close> is never getting past it.
  \<open>ist8310_init\<close> is a parameter, since no file of the repository defines it (the driver's function has another name).
\<close>

partial_function (option) init_retry :: "('d, u8) state \<Rightarrow> ('d \<Rightarrow> 'd) \<Rightarrow> 'd \<Rightarrow> 'd option" where
  "init_retry init pause d =
     (case run_state init d of (c, d') \<Rightarrow> if c \<noteq> 0 then init_retry init pause (pause d') else Some d')"

definition INS_start :: "'d imu_bus \<Rightarrow> ('d, u8) state \<Rightarrow> bool \<Rightarrow> ins \<Rightarrow> 'd \<Rightarrow> (ins \<times> 'd) option" where
  "INS_start B ist8310_init spi_init_ok s d =
     do { d \<leftarrow> init_retry (deviceBmi088Init B) (wait_ms B 100) (wait_ms B 7 d);
          d \<leftarrow> init_retry ist8310_init (wait_ms B 100) d;
          (case run_state (deviceBmi088Read B (b_gyro (bmi088_data s))) d of ((g, a, t), d) \<Rightarrow>
             let s = s\<lparr>bmi088_data := bmi088_data s\<lparr>b_gyro := g, b_accel := a, b_temp := t\<rparr>\<rparr>;
                 s = imu_cali_slove s;
                 s = s\<lparr>accel_fliter_1 := INS_accel s, accel_fliter_2 := INS_accel s, accel_fliter_3 := INS_accel s\<rparr>
             in if spi_init_ok then Some (s\<lparr>imu_start_dma_flag := 1\<rparr>, d) else None) }"

end
