(* ===== verification/Ins_Props.thy ===== *)
theory Ins_Props
  imports Ins_Task
begin

text \<open>
  What the measurement task guarantees: the two chips are never selected together, a sampling round delivers what the
  sensors sent, and the rotation is exact; and where it fails: updates of the shared flags outside the handlers.
\<close>

text \<open>Starting a transfer enables both streams and leaves the pins and the completion flag alone.\<close>

locale spi_dma =
  fixes E :: "dma_job \<Rightarrow> spi_hw \<Rightarrow> spi_hw"
  assumes enables: "tx_en (E j h)" "rx_en (E j h)" "job (E j h) = Some j"
    and keeps: "cs_gyro (E j h) = cs_gyro h" "cs_accel (E j h) = cs_accel h" "rx_tc (E j h) = rx_tc h"

definition start_dma :: "dma_job \<Rightarrow> spi_hw \<Rightarrow> spi_hw" where
  "start_dma j h = h\<lparr>tx_en := True, rx_en := True, job := Some j\<rparr>"

interpretation dma: spi_dma start_dma
  by unfold_locales (simp_all add: start_dma_def)

text \<open>The end of a transfer: the received bytes are in the buffer, both streams stop and the flag is raised.\<close>

definition dma_complete :: "u8 list \<Rightarrow> ins \<Rightarrow> ins" where
  "dma_complete data s =
     (if tx_en (hw s) \<and> rx_en (hw s) then
        (case job (hw s) of
           None \<Rightarrow> s
         | Some j \<Rightarrow>
             if length data \<noteq> job_length j then s
             else let s = s\<lparr>hw := hw s\<lparr>tx_en := False, rx_en := False, rx_tc := True\<rparr>\<rparr>
                  in (case j of GyroJob \<Rightarrow> s\<lparr>gyro_dma_rx_buf := data\<rparr>
                      | AccelJob \<Rightarrow> s\<lparr>accel_dma_rx_buf := data\<rparr>
                      | TempJob \<Rightarrow> s\<lparr>accel_temp_dma_rx_buf := data\<rparr>))
      else s)"

text \<open>What can happen: a data-ready interrupt, the end of a transfer, its interrupt, and a return of the task's wait.\<close>

datatype ins_event = Ready | Complete "u8 list" | Irq | Turn u16

fun ins_exec :: "(dma_job \<Rightarrow> spi_hw \<Rightarrow> spi_hw) \<Rightarrow> ins_event \<Rightarrow> ins \<Rightarrow> ins" where
  "ins_exec E Ready s = ins_exti E s"
| "ins_exec E (Complete data) s = dma_complete data s"
| "ins_exec E Irq s = spiDmaCallback E s"
| "ins_exec E (Turn p) s = INS_turn p s"

definition ins_run :: "(dma_job \<Rightarrow> spi_hw \<Rightarrow> spi_hw) \<Rightarrow> ins_event list \<Rightarrow> ins \<Rightarrow> ins" where
  "ins_run E evs s = fold (ins_exec E) evs s"

lemma ins_run_simps [simp]: "ins_run E [] s = s" "ins_run E (e # evs) s = ins_run E evs (ins_exec E e s)"
  by (simp_all add: ins_run_def)

subsection \<open>Exclusion\<close>

definition ins_quiet :: "ins \<Rightarrow> bool" where
  "ins_quiet s \<longleftrightarrow> cs_gyro (hw s) \<and> cs_accel (hw s) \<and> gyro_update_flag s = 0 \<and> accel_update_flag s = 0 \<and>
     accel_temp_update_flag s = 0 \<and> dma_idle (hw s) \<and> \<not> rx_tc (hw s)"

text \<open>The part of the state that decides who owns the bus.\<close>

definition bus_view :: "ins \<Rightarrow> bool \<times> bool \<times> bool \<times> bool \<times> bool" where
  "bus_view s = (bit (gyro_update_flag s) IMU_SPI_SHFITS, bit (accel_update_flag s) IMU_SPI_SHFITS,
     bit (accel_temp_update_flag s) IMU_SPI_SHFITS, cs_gyro (hw s), cs_accel (hw s))"

fun view_ok :: "bool \<times> bool \<times> bool \<times> bool \<times> bool \<Rightarrow> bool" where
  "view_ok (g, a, t, cg, ca) \<longleftrightarrow> \<not> (g \<and> a) \<and> \<not> (g \<and> t) \<and> \<not> (a \<and> t) \<and> (cg \<or> g) \<and> (ca \<or> a \<or> t)"

abbreviation ins_inv :: "ins \<Rightarrow> bool" where "ins_inv s \<equiv> view_ok (bus_view s)"

lemma bit_raise_bit [simp]: "i < 8 \<Longrightarrow> bit (raise_bit i f) n = (n = i \<or> bit f n)"
  by (auto simp: raise_bit_def bit_simps)

lemma bit_clear_bit [simp]: "i < 8 \<Longrightarrow> bit (clear_bit i f) n = (n \<noteq> i \<and> bit f n)"
  by (auto simp: clear_bit_def bit_simps dest: bit_imp_le_length)

lemma bit_move_bit [simp]: "i < 8 \<Longrightarrow> j < 8 \<Longrightarrow> bit (move_bit i j f) n = (n = j \<or> n \<noteq> i \<and> bit f n)"
  by (auto simp: move_bit_def)

context spi_dma
begin

lemma inv_cmd: "ins_inv s \<Longrightarrow> ins_inv (imu_cmd_spi_dma E s)"
  by (auto simp: imu_cmd_spi_dma_def bus_view_def keeps shifts)

lemma view_exti: "ins_inv s \<Longrightarrow> ins_inv (ins_exti E s)"
proof -
  assume s: "ins_inv s"
  have flags: "bus_view (s\<lparr>accel_update_flag := raise_bit IMU_DR_SHFITS (accel_update_flag s),
      accel_temp_update_flag := raise_bit IMU_DR_SHFITS (accel_temp_update_flag s)\<rparr>) = bus_view s"
    "bus_view (s\<lparr>gyro_update_flag := raise_bit IMU_DR_SHFITS (gyro_update_flag s)\<rparr>) = bus_view s"
    "bus_view (s\<lparr>mag_update_flag := f\<rparr>) = bus_view s" "bus_view (s\<lparr>notified := n\<rparr>) = bus_view s" for s f n
    by (simp_all add: bus_view_def shifts)
  show ?thesis using s by (simp add: ins_exti_def Let_def flags inv_cmd)
qed

lemma inv_callback: "ins_inv s \<Longrightarrow> ins_inv (spiDmaCallback E s)"
proof -
  assume s: "ins_inv s"
  have rd: "ins_inv (temp_read_done (accel_read_done (gyro_read_done (s\<lparr>hw := hw s\<lparr>rx_tc := False\<rparr>\<rparr>))))"
    using s by (auto simp: temp_read_done_def accel_read_done_def gyro_read_done_def bus_view_def shifts)
  have "bus_view (report_gyro s) = bus_view s" for s
    by (simp add: report_gyro_def bus_view_def shifts)
  then show ?thesis using s inv_cmd [OF rd] by (simp add: spiDmaCallback_def)
qed

end

lemma view_collect:
  "bus_view (collect_gyro s) = bus_view s" "bus_view (collect_accel s) = bus_view s"
  "bus_view (collect_temp p s) = bus_view s" "bus_view (imu_cali_slove s) = bus_view s"
  "bus_view (fliter s) = bus_view s" "bus_view (collect_mag s) = bus_view s"
  by (simp_all add: collect_gyro_def collect_accel_def collect_temp_def imu_temp_control_def imu_cali_slove_def
      fliter_def collect_mag_def bus_view_def Let_def shifts split: prod.splits)

lemma view_turn: "bus_view (INS_turn p s) = bus_view s"
proof -
  have "bus_view (s\<lparr>notified := 0\<rparr>) = bus_view s" by (simp add: bus_view_def)
  then show ?thesis by (simp add: INS_turn_def INS_work_def view_collect Let_def)
qed

lemma view_complete: "bus_view (dma_complete data s) = bus_view s"
  by (simp add: dma_complete_def bus_view_def Let_def split: option.splits dma_job.splits)

context spi_dma
begin

lemma inv_exec: "ins_inv s \<Longrightarrow> ins_inv (ins_exec E e s)"
  by (cases e) (simp_all add: view_exti inv_callback view_complete view_turn)

lemma inv_run: "ins_inv s \<Longrightarrow> ins_inv (ins_run E evs s)"
  by (induction evs arbitrary: s) (simp_all add: inv_exec)

end


lemma ins_boot_quiet: "ins_quiet ins_boot"
  by (simp add: ins_quiet_def ins_boot_def dma_idle_def)


subsection \<open>A sampling round\<close>

lemma le16s_append: "6 \<le> length b \<Longrightarrow> le16s (b @ c) = le16s b"
  by (cases "b = []") (auto simp: le16s_def nth_append)

lemma stages: "raise_bit 0 0 = 1" "move_bit 0 (Suc 0) 1 = 2" "move_bit (Suc 0) 2 2 = 4" "move_bit 2 3 4 = 8"
  "clear_bit 2 4 = 0" "clear_bit 3 8 = 0"
  by (simp_all add: raise_bit_def move_bit_def clear_bit_def)

context spi_dma
begin

lemma round_ready:
  assumes "ins_quiet s" "imu_start_dma_flag s \<noteq> 0" "scheduler_started s" "notified s = 0"
  shows "ins_exti E s = s\<lparr>gyro_update_flag := 1, accel_update_flag := 2, accel_temp_update_flag := 1,
     mag_update_flag := raise_bit 0 (mag_update_flag s), notified := 1, hw := E AccelJob (hw s\<lparr>cs_accel := False\<rparr>)\<rparr>"
  using assms by (simp add: ins_exti_def imu_cmd_spi_dma_def ins_quiet_def Let_def shifts stages enables dma_idle_def)

lemma round_complete:
  assumes "hw s = E j h" "length data = job_length j"
  shows "dma_complete data s =
    (let s = s\<lparr>hw := E j h\<lparr>tx_en := False, rx_en := False, rx_tc := True\<rparr>\<rparr>
     in (case j of GyroJob \<Rightarrow> s\<lparr>gyro_dma_rx_buf := data\<rparr> | AccelJob \<Rightarrow> s\<lparr>accel_dma_rx_buf := data\<rparr>
         | TempJob \<Rightarrow> s\<lparr>accel_temp_dma_rx_buf := data\<rparr>))"
  using assms by (simp add: dma_complete_def enables)

lemmas irq_defs = spiDmaCallback_def gyro_read_done_def accel_read_done_def temp_read_done_def report_gyro_def
  imu_cmd_spi_dma_def dma_idle_def shifts stages

lemma round_irq_accel:
  assumes "gyro_update_flag s = 1" "accel_update_flag s = 2" "accel_temp_update_flag s = 1"
    "rx_tc (hw s)" "\<not> tx_en (hw s)" "\<not> rx_en (hw s)"
  shows "spiDmaCallback E s = s\<lparr>gyro_update_flag := 2, accel_update_flag := 4,
    hw := E GyroJob (hw s\<lparr>rx_tc := False, cs_accel := True, cs_gyro := False\<rparr>)\<rparr>"
  using assms by (simp add: irq_defs)

lemma round_irq_gyro:
  assumes "gyro_update_flag s = 2" "accel_update_flag s = 4" "accel_temp_update_flag s = 1"
    "rx_tc (hw s)" "\<not> tx_en (hw s)" "\<not> rx_en (hw s)"
  shows "spiDmaCallback E s = s\<lparr>gyro_update_flag := 8, accel_temp_update_flag := 2, swit_pin0 := True,
    hw := E TempJob (hw s\<lparr>rx_tc := False, cs_gyro := True, cs_accel := False\<rparr>)\<rparr>"
  using assms by (simp add: irq_defs)

lemma round_irq_temp:
  assumes "gyro_update_flag s = 8" "accel_update_flag s = 4" "accel_temp_update_flag s = 2"
    "rx_tc (hw s)" "\<not> tx_en (hw s)" "\<not> rx_en (hw s)"
  shows "spiDmaCallback E s = s\<lparr>accel_temp_update_flag := 4, hw := hw s\<lparr>rx_tc := False, cs_accel := True\<rparr>\<rparr>"
  using assms by (simp add: irq_defs)

end

lemma round_turn:
  assumes "gyro_update_flag s = 8" "accel_update_flag s = 4" "accel_temp_update_flag s = 4" "notified s = 1"
  shows "let s' = INS_turn p s in gyro_update_flag s' = 0 \<and> accel_update_flag s' = 0 \<and> accel_temp_update_flag s' = 0 \<and>
    hw s' = hw s \<and> notified s' = 0 \<and> b_gyro (bmi088_data s') = bmi088_gyro_read_over (drop 1 (gyro_dma_rx_buf s)) \<and>
    b_accel (bmi088_data s') = fst (bmi088_accel_read_over (drop 2 (accel_dma_rx_buf s @ after_accel_buf s))) \<and>
    b_temp (bmi088_data s') = bmi088_temperature_read_over (drop 2 (accel_temp_dma_rx_buf s))"
  using assms
  by (simp add: INS_turn_def INS_work_def collect_mag_def fliter_def imu_cali_slove_def collect_temp_def imu_temp_control_def
      collect_accel_def collect_gyro_def Let_def shifts stages split: prod.splits)

context spi_dma
begin

lemma sample_round:
  assumes "ins_quiet s" "imu_start_dma_flag s \<noteq> 0" "scheduler_started s" "notified s = 0"
    "length a = 9" "length g = 8" "length t = 4"
  shows "let s' = ins_run E [Ready, Complete a, Irq, Complete g, Irq, Complete t, Irq, Turn p] s in
    ins_quiet s' \<and> notified s' = 0 \<and>
    b_accel (bmi088_data s') = fst (bmi088_accel_read_over (drop 2 a)) \<and>
    b_gyro (bmi088_data s') = bmi088_gyro_read_over (drop 1 g) \<and>
    b_temp (bmi088_data s') = bmi088_temperature_read_over (drop 2 t)"
proof -
  define s1 where "s1 = dma_complete a (ins_exti E s)"
  define s2 where "s2 = dma_complete g (spiDmaCallback E s1)"
  define s3 where "s3 = spiDmaCallback E (dma_complete t (spiDmaCallback E s2))"
  have q: "cs_gyro (hw s)" "cs_accel (hw s)" using assms(1) by (simp_all add: ins_quiet_def)
  have s1: "gyro_update_flag s1 = 1" "accel_update_flag s1 = 2" "accel_temp_update_flag s1 = 1" "rx_tc (hw s1)"
    "\<not> tx_en (hw s1)" "\<not> rx_en (hw s1)" "cs_gyro (hw s1)" "accel_dma_rx_buf s1 = a" "notified s1 = 1"
    unfolding s1_def round_ready [OF assms(1-4)] 
    by (simp_all add: round_complete [where j = AccelJob and h = "hw s\<lparr>cs_accel := False\<rparr>"] assms(5) keeps q)
  have s2: "gyro_update_flag s2 = 2" "accel_update_flag s2 = 4" "accel_temp_update_flag s2 = 1" "rx_tc (hw s2)"
    "\<not> tx_en (hw s2)" "\<not> rx_en (hw s2)" "cs_accel (hw s2)" "accel_dma_rx_buf s2 = a" "gyro_dma_rx_buf s2 = g" "notified s2 = 1"
    unfolding s2_def round_irq_accel [OF s1(1-6)] 
    by (simp_all add: round_complete [where j = GyroJob and h = "hw s1\<lparr>rx_tc := False, cs_accel := True, cs_gyro := False\<rparr>"]
        assms(6) keeps s1)
  have s3: "gyro_update_flag s3 = 8" "accel_update_flag s3 = 4" "accel_temp_update_flag s3 = 4" "notified s3 = 1"
    "cs_gyro (hw s3)" "cs_accel (hw s3)" "\<not> rx_tc (hw s3)" "\<not> tx_en (hw s3)" "\<not> rx_en (hw s3)"
    "accel_dma_rx_buf s3 = a" "gyro_dma_rx_buf s3 = g" "accel_temp_dma_rx_buf s3 = t"
    unfolding s3_def round_irq_gyro [OF s2(1-6)]

    by (simp_all add: round_complete [where j = TempJob and h = "hw s2\<lparr>rx_tc := False, cs_gyro := True, cs_accel := False\<rparr>"]
        round_irq_temp assms(7) keeps s2)
  have "ins_run E [Ready, Complete a, Irq, Complete g, Irq, Complete t, Irq, Turn p] s = INS_turn p s3"
    by (simp add: s1_def s2_def s3_def)
  moreover have "fst (bmi088_accel_read_over (drop 2 (a @ x))) = fst (bmi088_accel_read_over (drop 2 a))" for x
    using assms(5) by (simp add: bmi088_accel_read_over_def le16s_append)
  ultimately show ?thesis using round_turn [OF s3(1-4), of p] s3 by (simp add: Let_def ins_quiet_def dma_idle_def)
qed

end



subsection \<open>Lost notifications\<close>

fun is_turn :: "ins_event \<Rightarrow> bool" where
  "is_turn (Turn p) = True"
| "is_turn _ = False"

text \<open>Only the task changes its data, and only a data-ready interrupt notifies it.\<close>

definition task_view :: "ins \<Rightarrow> bmi088_real_data \<times> nat \<times> bool" where
  "task_view s = (bmi088_data s, notified s, scheduler_started s)"

lemma task_view_cmd [simp]: "task_view (imu_cmd_spi_dma E s) = task_view s"
  by (simp add: imu_cmd_spi_dma_def task_view_def)

lemma task_view_exti: "task_view (ins_exti E s) = (case task_view s of (d, n, b) \<Rightarrow> (d, n + (if b then 1 else 0), b))"
proof -
  have upd: "task_view (s\<lparr>accel_update_flag := x, accel_temp_update_flag := y\<rparr>) = task_view s"
    "task_view (s\<lparr>gyro_update_flag := x\<rparr>) = task_view s" "task_view (s\<lparr>mag_update_flag := x\<rparr>) = task_view s"
    "task_view (if scheduler_started s then s\<lparr>notified := Suc (notified s)\<rparr> else s) =
     (case task_view s of (d, n, b) \<Rightarrow> (d, n + (if b then 1 else 0), b))"
    "task_view (if c then imu_cmd_spi_dma E s else s) = task_view s" for s x y c
    by (simp_all add: task_view_def [of s] del: task_view_cmd, simp_all add: task_view_def imu_cmd_spi_dma_def)
  show ?thesis unfolding ins_exti_def Let_def upd ..
qed

lemma task_view_callback: "task_view (spiDmaCallback E s) = task_view s"
proof -
  have "task_view (report_gyro s) = task_view s" "task_view (temp_read_done s) = task_view s"
    "task_view (accel_read_done s) = task_view s" "task_view (gyro_read_done s) = task_view s"
    "task_view (s\<lparr>hw := h\<rparr>) = task_view s" for s h
    by (simp_all add: task_view_def report_gyro_def temp_read_done_def accel_read_done_def gyro_read_done_def)
  then show ?thesis by (simp add: spiDmaCallback_def)
qed

lemma task_view_complete: "task_view (dma_complete data s) = task_view s"
  by (simp add: dma_complete_def task_view_def Let_def split: option.splits dma_job.splits)

lemma task_view_run:
  "list_all (\<lambda>e. \<not> is_turn e) evs \<Longrightarrow> scheduler_started s \<Longrightarrow>
   task_view (ins_run E evs s) = (bmi088_data s, notified s + length (filter ((=) Ready) evs), True)"
proof (induction evs arbitrary: s)
  case (Cons e evs)
  have v: "task_view (ins_exec E e s) = (bmi088_data s, notified s + (if e = Ready then 1 else 0), True)"
    using Cons.prems by (cases e) (simp_all add: task_view_exti task_view_callback task_view_complete, simp_all add: task_view_def)
  then show ?case using Cons.prems Cons.IH [of "ins_exec E e s"] by (auto simp: task_view_def)
qed (simp add: task_view_def)

text \<open>
  Notifications that accumulate are lost: when the task is late and two or more data-ready interrupts have notified
  it, its next return from the wait clears them all and collects nothing, whatever was received in between.
\<close>

theorem ins_notifications_lost:
  assumes "scheduler_started s" "notified s = 0" "list_all (\<lambda>e. \<not> is_turn e) evs" "2 \<le> length (filter ((=) Ready) evs)"
  shows "bmi088_data (ins_run E (evs @ [Turn p]) s) = bmi088_data s \<and> notified (ins_run E (evs @ [Turn p]) s) = 0"
proof -
  have "task_view (ins_run E evs s) = (bmi088_data s, length (filter ((=) Ready) evs), True)"
    using task_view_run [OF assms(3,1)] assms(2) by simp
  moreover have "ins_run E (evs @ [Turn p]) s = INS_turn p (ins_run E evs s)" by (simp add: ins_run_def)
  ultimately show ?thesis using assms(4) by (auto simp: INS_turn_def task_view_def Let_def)
qed

theorem ins_notifications_lost_witness:
  "bmi088_data (ins_run start_dma [Ready, Complete (replicate 9 7), Irq, Ready, Turn 0] (ins_boot\<lparr>imu_start_dma_flag := 1\<rparr>)) =
   bmi088_data ins_boot"
  using ins_notifications_lost [of "ins_boot\<lparr>imu_start_dma_flag := 1\<rparr>" "[Ready, Complete (replicate 9 7), Irq, Ready]" start_dma 0]
  by (simp add: ins_boot_def)

subsection \<open>Updates that are interrupted\<close>

text \<open>
  The task's update of the gyroscope's flag is a load, a change of one bit and a store, and interrupts may come in
  between: \<open>gyro_store\<close> is the store of a value loaded earlier.
\<close>

definition gyro_store :: "u8 \<Rightarrow> ins \<Rightarrow> ins" where
  "gyro_store v s = s\<lparr>gyro_update_flag := clear_bit IMU_NOTIFY_SHFITS v\<rparr>"

text \<open>
  An interrupted update breaks the exclusion: when a gyroscope transfer starts between the load and the store of the
  task's update, the store erases the mark of the transfer, its chip select is never raised, and the next transfer
  selects the accelerometer as well, so that both sensors drive the bus.
\<close>

theorem ins_flag_race:
  "\<exists>before between after.
     let s = ins_run start_dma before (ins_boot\<lparr>imu_start_dma_flag := 1\<rparr>); v = gyro_update_flag s;
         s' = ins_run start_dma after (gyro_store v (ins_run start_dma between s)) in
     bit v IMU_NOTIFY_SHFITS \<and> \<not> cs_gyro (hw s') \<and> \<not> cs_accel (hw s') \<and> tx_en (hw s')"
proof -
  let ?before = "[Ready, Complete (replicate 9 0), Irq, Complete (replicate 8 0), Irq]"
  let ?between = "[Ready, Complete (replicate 4 0), Irq]"
  let ?after = "[Complete (replicate 8 0), Irq]"
  have "let s = ins_run start_dma ?before (ins_boot\<lparr>imu_start_dma_flag := 1\<rparr>); v = gyro_update_flag s;
         s' = ins_run start_dma ?after (gyro_store v (ins_run start_dma ?between s)) in
     bit v IMU_NOTIFY_SHFITS \<and> \<not> cs_gyro (hw s') \<and> \<not> cs_accel (hw s') \<and> tx_en (hw s')"
    by code_simp
  then show ?thesis by blast
qed

subsection \<open>Rotation\<close>

text \<open>Numbers that are not changed by rounding, and equality up to the sign of zero.\<close>

fun representable :: "f32 \<Rightarrow> bool" where
  "representable (Fin s m) = (0 \<le> m \<and> mk s m = Fin s m)"
| "representable _ = False"

fun same_value :: "f32 \<Rightarrow> f32 \<Rightarrow> bool" where
  "same_value (Fin s m) (Fin t n) = (m = n \<and> (s = t \<or> m = 0))"
| "same_value x y = (x = y)"

lemma same_value_refl [simp]: "same_value x x"
  by (cases x) auto

lemma mk_zero: "mk s 0 = Fin s 0"
  by (simp add: mk_def rnd_mag_def)

lemma fmul_units:
  assumes "representable x"
  shows "fmul x (f32_of 1) = x" "fmul x (f32_of (- 1)) = fneg x" "\<exists>s. fmul x (f32_of 0) = Fin s 0"
proof -
  have c: "f32_of 1 = Fin False 1" "f32_of (- 1) = Fin True 1" "f32_of 0 = Fin False 0" by code_simp+
  obtain s m where x: "x = Fin s m" "mk s m = Fin s m" using assms by (cases x) auto
  have "mk (\<not> s) m = Fin (\<not> s) m" using x(2) by (auto simp: mk_def Let_def split: if_splits)
  then show "fmul x (f32_of 1) = x" "fmul x (f32_of (- 1)) = fneg x" "\<exists>s. fmul x (f32_of 0) = Fin s 0"
    using x by (simp_all add: c mk_zero)
qed

lemma fadd_zero:
  assumes "representable x"
  shows "same_value (fadd (Fin s 0) x) x" "representable (fadd (Fin s 0) x)"
    "same_value (fadd x (Fin s 0)) x" "representable (fadd x (Fin s 0))"
  using assms by (cases x; auto simp: Let_def mk_zero mk_def split: if_splits)+

lemma same_value_add: "same_value x y \<Longrightarrow> same_value (fadd x z) (fadd y z)"
  by (cases x; cases y; cases z) (auto simp: Let_def)

lemma same_value_trans: "same_value x y \<Longrightarrow> same_value y z \<Longrightarrow> same_value x z"
  by (cases x; cases y; cases z) auto

lemma representable_neg: "representable (fneg x) = representable x"
  by (cases x) (auto simp: mk_def Let_def split: if_splits)

lemma three_terms:
  assumes "representable x"
  shows "same_value (fadd (fadd (fadd (Fin s 0) x) (Fin t 0)) z) (fadd x z)"
    "same_value (fadd (fadd (fadd x (Fin s 0)) (Fin t 0)) z) (fadd x z)"
    "same_value (fadd (fadd (fadd (Fin s 0) (Fin t 0)) x) z) (fadd x z)"
proof -
  have zz: "\<exists>u. fadd (Fin s 0) (Fin t 0) = Fin u 0" by (auto simp: Let_def mk_zero)
  show "same_value (fadd (fadd (fadd (Fin s 0) (Fin t 0)) x) z) (fadd x z)"
    using zz fadd_zero [OF assms] by (auto intro: same_value_add)
  show "same_value (fadd (fadd (fadd (Fin s 0) x) (Fin t 0)) z) (fadd x z)"
    by (rule same_value_add, rule same_value_trans [OF fadd_zero(3)], rule fadd_zero(2) [OF assms], rule fadd_zero(1) [OF assms])
  show "same_value (fadd (fadd (fadd x (Fin s 0)) (Fin t 0)) z) (fadd x z)"
    by (rule same_value_add, rule same_value_trans [OF fadd_zero(3)], rule fadd_zero(4) [OF assms], rule fadd_zero(3) [OF assms])
qed

lemma rotate_board:
  assumes "representable x0" "representable x1" "representable x2"
  shows "list_all2 same_value (rotate_axes BMI088_BOARD_INSTALL_SPIN_MATRIX off [x0, x1, x2])
     [fadd x1 (off ! 0), fadd (fneg x0) (off ! 1), fadd x2 (off ! 2)]"
proof -
  obtain s0 s1 s2 where z: "fmul x0 (f32_of 0) = Fin s0 0" "fmul x1 (f32_of 0) = Fin s1 0" "fmul x2 (f32_of 0) = Fin s2 0"
    using fmul_units(3) assms by meson
  note u = fmul_units(1,2) [OF assms(1)] fmul_units(1,2) [OF assms(2)] fmul_units(1,2) [OF assms(3)] z
  show ?thesis
    using three_terms(1) [OF assms(2)] three_terms(2) [of "fneg x0"] three_terms(3) [OF assms(3)] assms(1)
    by (simp add: rotate_axes_def rotate_axis_def BMI088_BOARD_INSTALL_SPIN_MATRIX_def u representable_neg
        del: fadd.simps fmul.simps)
qed

text \<open>
  The change of axes loses nothing: for finite samples the calibrated rates and accelerations are the samples with
  the x axis taken from y, the y axis from the negated x and the z axis from z, plus the offset of the axis, with no
  rounding but that of the last addition.
\<close>

theorem imu_cali_slove_rotates:
  assumes "b_gyro (bmi088_data s) = [g0, g1, g2]" "b_accel (bmi088_data s) = [a0, a1, a2]"
    "list_all representable [g0, g1, g2, a0, a1, a2]"
  shows "list_all2 same_value (INS_gyro (imu_cali_slove s))
       [fadd g1 (gyro_offset s ! 0), fadd (fneg g0) (gyro_offset s ! 1), fadd g2 (gyro_offset s ! 2)] \<and>
     list_all2 same_value (INS_accel (imu_cali_slove s))
       [fadd a1 (accel_offset s ! 0), fadd (fneg a0) (accel_offset s ! 1), fadd a2 (accel_offset s ! 2)]"
  using rotate_board [of g0 g1 g2 "gyro_offset s"] rotate_board [of a0 a1 a2 "accel_offset s"] assms(3)
  by (simp add: imu_cali_slove_def assms(1,2))

theorem imu_cali_slove_rotates_witness:
  "let s = ins_boot\<lparr>bmi088_data := \<lparr>b_accel = [f32_of (1 / 2), f32_of 2, f32_of 3], b_temp = f32_of 0,
     b_gyro = [f32_of 1, f32_of (- 2), f32_of (1 / 4)], b_time = f32_of 0\<rparr>\<rparr>
   in same_value (INS_gyro (imu_cali_slove s) ! 1) (fadd (fneg (f32_of 1)) (f32_of 0))"
proof -
  have "list_all representable [f32_of 1, f32_of (- 2), f32_of (1 / 4), f32_of (1 / 2), f32_of 2, f32_of 3]" by code_simp
  from imu_cali_slove_rotates [OF _ _ this, of "ins_boot\<lparr>bmi088_data := \<lparr>b_accel = [f32_of (1 / 2), f32_of 2, f32_of 3], b_temp = f32_of 0,
     b_gyro = [f32_of 1, f32_of (- 2), f32_of (1 / 4)], b_time = f32_of 0\<rparr>\<rparr>"]
  show ?thesis by (auto simp: Let_def ins_boot_def list_all2_conv_all_nth dest: spec [of _ 1] simp del: fadd.simps)
qed

subsection \<open>Start-up\<close>

text \<open>The result and the state of the attempt with the given number, when the ones before it failed.\<close>

fun attempt :: "('d, u8) state \<Rightarrow> ('d \<Rightarrow> 'd) \<Rightarrow> nat \<Rightarrow> 'd \<Rightarrow> u8 \<times> 'd" where
  "attempt init pause 0 d = run_state init d"
| "attempt init pause (Suc n) d = attempt init pause n (pause (snd (run_state init d)))"

lemma init_retry_returns:
  "fst (attempt init pause n d) = 0 \<Longrightarrow> \<exists>m \<le> n. fst (attempt init pause m d) = 0 \<and> init_retry init pause d = Some (snd (attempt init pause m d))"
proof (induction n arbitrary: d)
  case 0
  then show ?case by (subst init_retry.simps) (simp add: case_prod_beta)
next
  case (Suc n)
  show ?case
  proof (cases "fst (run_state init d) = 0")
    case True
    then show ?thesis by (intro exI [of _ 0]) (subst init_retry.simps, simp add: case_prod_beta)
  next
    case False
    obtain m where "m \<le> n" "fst (attempt init pause (Suc m) d) = 0"
      "init_retry init pause (pause (snd (run_state init d))) = Some (snd (attempt init pause (Suc m) d))"
      using Suc by fastforce
    then show ?thesis using False by (intro exI [of _ "Suc m"]) (subst init_retry.simps, simp add: case_prod_beta)
  qed
qed

text \<open>
  Start-up ends when both sensors answer in the end: when some attempt to initialise the inertial sensor succeeds, and in
  every state some attempt to initialise the magnetometer does, the task gets past start-up; transfers are then allowed,
  the samples have been calibrated and the filter has been set to them.
\<close>

lemma INS_start_returns:
  assumes "fst (attempt (deviceBmi088Init B) (wait_ms B 100) n (wait_ms B 7 d)) = 0"
    and "\<And>d. \<exists>m. fst (attempt ist8310_init (wait_ms B 100) m d) = 0"
  shows "\<exists>s' d'. INS_start B ist8310_init True s d = Some (s', d') \<and> imu_start_dma_flag s' = 1 \<and>
     INS_gyro s' = rotate_axes BMI088_BOARD_INSTALL_SPIN_MATRIX (gyro_offset s) (b_gyro (bmi088_data s')) \<and>
     accel_fliter_1 s' = INS_accel s' \<and> accel_fliter_2 s' = INS_accel s' \<and> accel_fliter_3 s' = INS_accel s'"
proof -
  obtain d1 where d1: "init_retry (deviceBmi088Init B) (wait_ms B 100) (wait_ms B 7 d) = Some d1"
    using init_retry_returns [OF assms(1)] by blast
  obtain d2 where d2: "init_retry ist8310_init (wait_ms B 100) d1 = Some d2"
    using init_retry_returns assms(2) by meson
  obtain g a t d3 where r: "run_state (deviceBmi088Read B (b_gyro (bmi088_data s))) d2 = ((g, a, t), d3)"
    by (metis surj_pair)
  show ?thesis by (simp add: INS_start_def d1 d2 r Let_def imu_cali_slove_def)
qed

end
