(* ===== verification/Usb_Desc.thy ===== *)
theory Usb_Desc
  imports RM_Prelude
begin

text \<open>
  The descriptors of the USB device: the configurations of the two serial ports (\<open>lib/CDC/Src/usbd_cdc.c\<close>) and the
  device and serial-number descriptors (\<open>lib/CDC-Describe/Src/usbd_desc.c\<close>).  The maximum power, \<open>USBD_MAX_POWER\<close>, is a
  constant of the USB library and a parameter; descriptor types and string indices have the values of the USB standard.
\<close>

definition CDC_IN_EP :: u8 where "CDC_IN_EP = 0x81"

definition CDC_OUT_EP :: u8 where "CDC_OUT_EP = 0x01"

definition CDC_CMD_EP :: u8 where "CDC_CMD_EP = 0x82"

definition CDC_DATA_HS_MAX_PACKET_SIZE :: u16 where "CDC_DATA_HS_MAX_PACKET_SIZE = 512"

definition CDC_DATA_FS_MAX_PACKET_SIZE :: u16 where "CDC_DATA_FS_MAX_PACKET_SIZE = 64"

definition CDC_CMD_PACKET_SIZE :: u16 where "CDC_CMD_PACKET_SIZE = 8"

definition CDC_HS_BINTERVAL :: u8 where "CDC_HS_BINTERVAL = 0x10"

definition CDC_FS_BINTERVAL :: u8 where "CDC_FS_BINTERVAL = 0x10"

definition USB_CDC_CONFIG_DESC_SIZ :: nat where "USB_CDC_CONFIG_DESC_SIZ = (67 - 9 + 8) * 2 + 9"

definition LOBYTE :: "u16 \<Rightarrow> u8" where "LOBYTE x = ucast (x AND 0x00FF)"

definition HIBYTE :: "u16 \<Rightarrow> u8" where "HIBYTE x = ucast (drop_bit 8 (x AND 0xFF00))"

text \<open>
  The descriptors of one port, first interface \<open>n\<close>, endpoints shifted by \<open>n\<close>: association, communication interface
  with its functional descriptors and command endpoint, data interface with its two bulk endpoints.
\<close>

definition port_desc :: "u8 \<Rightarrow> u8 \<Rightarrow> u16 \<Rightarrow> u8 list" where
  "port_desc n interval packet =
     [0x08, 0x0B, n, 0x02, 0x02, 0x02, 0x01, 0x02] @
     [0x09, 4, 0x00 + n, 0x00, 0x01, 0x02, 0x02, 0x01, 0x00] @
     [0x05, 0x24, 0x00, 0x10, 0x01] @
     [0x05, 0x24, 0x01, 0x00, 0x01 + n] @
     [0x04, 0x24, 0x02, 0x02] @
     [0x05, 0x24, 0x06, 0x00 + n, 0x01 + n] @
     [0x07, 5, CDC_CMD_EP + n, 0x03, LOBYTE CDC_CMD_PACKET_SIZE, HIBYTE CDC_CMD_PACKET_SIZE, interval] @
     [0x09, 4, 0x01 + n, 0x00, 0x02, 0x0A, 0x00, 0x00, 0x00] @
     [0x07, 5, CDC_OUT_EP + n, 0x02, LOBYTE packet, HIBYTE packet, 0x00] @
     [0x07, 5, CDC_IN_EP + n, 0x02, LOBYTE packet, HIBYTE packet, 0x00]"

definition config_desc :: "u8 \<Rightarrow> u8 list" where
  "config_desc mp = [0x09, 2, of_nat USB_CDC_CONFIG_DESC_SIZ, 0x00, push_bit 1 0x02, 0x01, 0x00, 0xC0, mp]"

definition USBD_CDC_CfgHSDesc :: "u8 \<Rightarrow> u8 list" where
  "USBD_CDC_CfgHSDesc mp =
     config_desc mp @ port_desc 0 CDC_HS_BINTERVAL CDC_DATA_HS_MAX_PACKET_SIZE @
     port_desc 2 CDC_HS_BINTERVAL CDC_DATA_HS_MAX_PACKET_SIZE"

definition USBD_CDC_CfgFSDesc :: "u8 \<Rightarrow> u8 list" where
  "USBD_CDC_CfgFSDesc mp =
     config_desc mp @ port_desc 0 CDC_FS_BINTERVAL CDC_DATA_FS_MAX_PACKET_SIZE @
     port_desc 2 CDC_HS_BINTERVAL CDC_DATA_HS_MAX_PACKET_SIZE"

text \<open>An array of the declared size; the initialiser lists only the first port, the rest is zero.\<close>

definition USBD_CDC_OtherSpeedCfgDesc :: "u8 \<Rightarrow> u8 list" where
  "USBD_CDC_OtherSpeedCfgDesc mp =
     (let d = [0x09, 7, of_nat USB_CDC_CONFIG_DESC_SIZ, 0x00, 0x02, 0x01, 0x04, 0xC0, mp] @
        [0x09, 4, 0x00, 0x00, 0x01, 0x02, 0x02, 0x01, 0x00] @
        [0x05, 0x24, 0x00, 0x10, 0x01] @
        [0x05, 0x24, 0x01, 0x00, 0x01] @
        [0x04, 0x24, 0x02, 0x02] @
        [0x05, 0x24, 0x06, 0x00, 0x01] @
        [0x07, 5, CDC_CMD_EP, 0x03, LOBYTE CDC_CMD_PACKET_SIZE, HIBYTE CDC_CMD_PACKET_SIZE, CDC_FS_BINTERVAL] @
        [0x09, 4, 0x01, 0x00, 0x02, 0x0A, 0x00, 0x00, 0x00] @
        [0x07, 5, CDC_OUT_EP, 0x02, 0x40, 0x00, 0x00] @
        [0x07, 5, CDC_IN_EP, 0x02, 0x40, 0x00, 0x00]
      in d @ replicate (USB_CDC_CONFIG_DESC_SIZ - length d) 0)"

definition USBD_CDC_DeviceQualifierDesc :: "u8 list" where
  "USBD_CDC_DeviceQualifierDesc = [10, 6, 0x00, 0x02, 0x00, 0x00, 0x00, 0x40, 0x01, 0x00]"

text \<open>The functions that hand out a descriptor return it with its length.\<close>

definition USBD_CDC_GetFSCfgDesc :: "u8 \<Rightarrow> u8 list \<times> u16" where
  "USBD_CDC_GetFSCfgDesc mp = (USBD_CDC_CfgFSDesc mp, of_nat (length (USBD_CDC_CfgFSDesc mp)))"

definition USBD_CDC_GetHSCfgDesc :: "u8 \<Rightarrow> u8 list \<times> u16" where
  "USBD_CDC_GetHSCfgDesc mp = (USBD_CDC_CfgHSDesc mp, of_nat (length (USBD_CDC_CfgHSDesc mp)))"

definition USBD_CDC_GetOtherSpeedCfgDesc :: "u8 \<Rightarrow> u8 list \<times> u16" where
  "USBD_CDC_GetOtherSpeedCfgDesc mp =
     (USBD_CDC_OtherSpeedCfgDesc mp, of_nat (length (USBD_CDC_OtherSpeedCfgDesc mp)))"

definition USBD_CDC_GetDeviceQualifierDescriptor :: "u8 list \<times> u16" where
  "USBD_CDC_GetDeviceQualifierDescriptor = (USBD_CDC_DeviceQualifierDesc, of_nat (length USBD_CDC_DeviceQualifierDesc))"

subsection \<open>Device and serial number\<close>

definition USBD_FS_DeviceDesc :: "u8 list" where
  "USBD_FS_DeviceDesc = [0x12, 1, 0x00, 0x02, 0x02, 0x02, 0x00, 64, LOBYTE 1155, HIBYTE 1155, LOBYTE 22336, HIBYTE 22336,
     0x00, 0x02, 1, 2, 3, 1]"

definition USBD_LangIDDesc :: "u8 list" where
  "USBD_LangIDDesc = [4, 3, LOBYTE 1033, HIBYTE 1033]"

definition USBD_FS_DeviceDescriptor :: "u8 list \<times> u16" where
  "USBD_FS_DeviceDescriptor = (USBD_FS_DeviceDesc, of_nat (length USBD_FS_DeviceDesc))"

definition USBD_FS_LangIDStrDescriptor :: "u8 list \<times> u16" where
  "USBD_FS_LangIDStrDescriptor = (USBD_LangIDDesc, of_nat (length USBD_LangIDDesc))"

definition USB_SIZ_STRING_SERIAL :: nat where "USB_SIZ_STRING_SERIAL = 0x1A"

definition USBD_StringSerial_init :: "u8 list" where
  "USBD_StringSerial_init = [of_nat USB_SIZ_STRING_SERIAL, 3] @ replicate (USB_SIZ_STRING_SERIAL - 2) 0"

text \<open>The bytes the loop stores, in ascending order of the addresses: \<open>len\<close> digits, each with a zero byte.\<close>

definition hex_char :: "u32 \<Rightarrow> u8" where
  "hex_char v = (if drop_bit 28 v < 0xA then ucast (drop_bit 28 v) + 48 else ucast (drop_bit 28 v) + 65 - 10)"

fun IntToUnicode :: "u32 \<Rightarrow> nat \<Rightarrow> u8 list" where
  "IntToUnicode v 0 = []"
| "IntToUnicode v (Suc len) = hex_char v # 0 # IntToUnicode (push_bit 4 v) len"

text \<open>Stores into the static array: bytes from an index on are replaced.\<close>

definition store_at :: "nat \<Rightarrow> u8 list \<Rightarrow> u8 list \<Rightarrow> u8 list" where
  "store_at i xs a = take i a @ xs @ drop (i + length xs) a"

definition Get_SerialNum :: "u32 \<Rightarrow> u32 \<Rightarrow> u32 \<Rightarrow> u8 list \<Rightarrow> u8 list" where
  "Get_SerialNum id1 id2 id3 USBD_StringSerial =
     (let deviceserial0 = id1 + id3 in
      if deviceserial0 \<noteq> 0
      then store_at 18 (IntToUnicode id2 4) (store_at 2 (IntToUnicode deviceserial0 8) USBD_StringSerial)
      else USBD_StringSerial)"

definition USBD_FS_SerialStrDescriptor :: "u32 \<Rightarrow> u32 \<Rightarrow> u32 \<Rightarrow> u8 list \<Rightarrow> u8 list \<times> u16" where
  "USBD_FS_SerialStrDescriptor id1 id2 id3 a = (Get_SerialNum id1 id2 id3 a, of_nat USB_SIZ_STRING_SERIAL)"

subsection \<open>Well-formed configurations\<close>

text \<open>A configuration is a sequence of descriptors, each opened by its length.\<close>

function chunks :: "u8 list \<Rightarrow> u8 list list option" where
  "chunks [] = Some []"
| "chunks (x # xs) =
     (if unat x < 2 \<or> unat x > Suc (length xs) then None
      else map_option (Cons (take (unat x) (x # xs))) (chunks (drop (unat x) (x # xs))))"
  by pat_completeness auto
termination by (relation "measure length") auto

definition interfaces :: "u8 list list \<Rightarrow> u8 list list" where
  "interfaces ds = filter (\<lambda>d. d ! 1 = 4) ds"

definition endpoints :: "u8 list list \<Rightarrow> u8 list list" where
  "endpoints ds = filter (\<lambda>d. d ! 1 = 5) ds"

text \<open>Each interface is followed by as many endpoints as it declares.\<close>

fun endpoints_follow :: "u8 list list \<Rightarrow> bool" where
  "endpoints_follow [] = True"
| "endpoints_follow (d # ds) =
     ((d ! 1 = 4 \<longrightarrow> length (endpoints (takeWhile (\<lambda>e. e ! 1 \<noteq> 4) ds)) = unat (d ! 4)) \<and> endpoints_follow ds)"

definition config_ok :: "u8 list \<Rightarrow> bool" where
  "config_ok d \<longleftrightarrow>
     (case chunks d of
        Some (c # ds) \<Rightarrow> length c = 9 \<and> unat (c ! 2) + 256 * unat (c ! 3) = length d \<and>
          map (\<lambda>i. i ! 2) (interfaces ds) = map of_nat [0..<unat (c ! 4)] \<and> list_all (\<lambda>i. length i = 9) (interfaces ds) \<and>
          endpoints_follow ds \<and> distinct (map (\<lambda>e. e ! 2) (endpoints ds)) \<and> list_all (\<lambda>e. length e = 7) (endpoints ds)
      | _ \<Rightarrow> False)"

definition packet_size :: "u8 list \<Rightarrow> nat" where
  "packet_size e = unat (e ! 4) + 256 * unat (e ! 5)"

definition endpoint_descs :: "u8 list \<Rightarrow> u8 list list" where
  "endpoint_descs d = (case chunks d of Some ds \<Rightarrow> endpoints ds | None \<Rightarrow> [])"

subsection \<open>Results\<close>

lemmas usb_constants = CDC_IN_EP_def CDC_OUT_EP_def CDC_CMD_EP_def CDC_DATA_HS_MAX_PACKET_SIZE_def
  CDC_DATA_FS_MAX_PACKET_SIZE_def CDC_CMD_PACKET_SIZE_def CDC_HS_BINTERVAL_def CDC_FS_BINTERVAL_def
  USB_CDC_CONFIG_DESC_SIZ_def LOBYTE_def HIBYTE_def

lemmas usb_descs = USBD_CDC_CfgHSDesc_def USBD_CDC_CfgFSDesc_def config_desc_def port_desc_def usb_constants

lemma chunks_HS:
  "chunks (USBD_CDC_CfgHSDesc mp) = Some (config_desc mp # the (chunks (drop 9 (USBD_CDC_CfgHSDesc 0))))"
  "chunks (USBD_CDC_CfgFSDesc mp) = Some (config_desc mp # the (chunks (drop 9 (USBD_CDC_CfgFSDesc 0))))"
  by (simp_all add: usb_descs)

text \<open>
  The configurations for high and full speed are well formed: the descriptors follow each other without gap or overlap,
  the total length and the number of interfaces are the declared ones, interfaces are numbered consecutively, each is
  followed by the endpoints it declares, and no endpoint address is used twice.
\<close>

theorem configurations_ok:
  "config_ok (fst (USBD_CDC_GetHSCfgDesc mp)) \<and> config_ok (fst (USBD_CDC_GetFSCfgDesc mp)) \<and>
   snd (USBD_CDC_GetHSCfgDesc mp) = of_nat USB_CDC_CONFIG_DESC_SIZ \<and>
   snd (USBD_CDC_GetFSCfgDesc mp) = of_nat USB_CDC_CONFIG_DESC_SIZ"
proof -
  have "config_ok (USBD_CDC_CfgHSDesc mp)" "config_ok (USBD_CDC_CfgFSDesc mp)"
    by (simp_all add: config_ok_def usb_descs interfaces_def endpoints_def upt_rec)
  moreover have "length (USBD_CDC_CfgHSDesc mp) = USB_CDC_CONFIG_DESC_SIZ" "length (USBD_CDC_CfgFSDesc mp) = USB_CDC_CONFIG_DESC_SIZ"
    by (simp_all add: usb_descs)
  ultimately show ?thesis by (simp add: USBD_CDC_GetHSCfgDesc_def USBD_CDC_GetFSCfgDesc_def)
qed

lemma chunks_zeros: "0 < n \<Longrightarrow> chunks (replicate n 0) = None"
  by (cases n) simp_all

text \<open>
  Two descriptors break the USB standard: the configuration for full speed announces bulk endpoints of 512 bytes for the
  second port, where 64 is the maximum, and the one for the other speed declares the length of two ports but holds only
  one, followed by zeros, so that it is not a sequence of descriptors.
\<close>

theorem configurations_wrong:
  "map packet_size (endpoint_descs (fst (USBD_CDC_GetFSCfgDesc mp))) = [8, 64, 64, 8, 512, 512] \<and>
   chunks (fst (USBD_CDC_GetOtherSpeedCfgDesc mp)) = None"
proof -
  have "map packet_size (endpoint_descs (USBD_CDC_CfgFSDesc mp)) = [8, 64, 64, 8, 512, 512]"
    by (simp add: endpoint_descs_def usb_descs endpoints_def packet_size_def)
  moreover have "chunks (USBD_CDC_OtherSpeedCfgDesc mp) = None"
    by (simp add: USBD_CDC_OtherSpeedCfgDesc_def usb_constants Let_def chunks_zeros)
  ultimately show ?thesis by (simp add: USBD_CDC_GetFSCfgDesc_def USBD_CDC_GetOtherSpeedCfgDesc_def)
qed

subsection \<open>The serial number\<close>

text \<open>Reading back a string of hexadecimal digits in UTF-16.\<close>

definition hex_digit :: "u8 \<Rightarrow> nat" where
  "hex_digit c = (if unat c < 58 then unat c - 48 else unat c - 55)"

fun hex_value :: "nat \<Rightarrow> u8 list \<Rightarrow> nat" where
  "hex_value a (c # z # cs) = hex_value (16 * a + hex_digit c) cs"
| "hex_value a _ = a"

lemma length_IntToUnicode [simp]: "length (IntToUnicode v n) = 2 * n"
  by (induction v n rule: IntToUnicode.induct) simp_all

lemma unat_bound: "unat (v :: u32) < 2 ^ 32"
  using unsigned_less [of v] by simp

lemma hex_digit_char: "hex_digit (hex_char v) = unat v div 2 ^ 28"
proof -
  define d where "d = drop_bit 28 v"
  have e: "unat d = unat v div 2 ^ 28"
    unfolding d_def unsigned_drop_bit_eq using unat_bound [of v] by (simp add: drop_bit_eq_div take_bit_nat_eq_self)
  then have d: "unat d < 16" using unat_bound [of v] by (simp add: less_mult_imp_div_less)
  have u: "unat (ucast d :: u8) = unat d" using d by (simp add: unsigned_ucast_eq take_bit_nat_eq_self)
  have "hex_digit (if d < 0xA then ucast d + 48 else ucast d + 65 - 10) = unat d"
    using d by (auto simp: hex_digit_def unat_word_ariths u word_less_nat_alt)
  then show ?thesis unfolding hex_char_def d_def [symmetric] e .
qed

lemma unat_push4: "unat (push_bit 4 (v :: u32)) = (16 * unat v) mod 2 ^ 32"
  by (simp add: unat_word_ariths push_bit_eq_mult mult.commute)

text \<open>The digits read back as the leading hexadecimal digits of the word they were made from.\<close>

lemma hex_value_IntToUnicode:
  assumes "n \<le> 8"
  shows "hex_value 0 (IntToUnicode v n) = unat v div 16 ^ (8 - n)"
proof -
  have "hex_value a (IntToUnicode v n) = 16 ^ n * a + unat v div 16 ^ (8 - n)" for a
    using assms
  proof (induction n arbitrary: a v)
    case 0
    have "unat v div 16 ^ 8 = 0" using unat_bound [of v] by simp
    then show ?case by simp
  next
    case (Suc n)
    define q where "q = unat v div 2 ^ 28"
    define r where "r = unat v mod 2 ^ 28"
    have v: "unat v = 2 ^ 28 * q + r" "r < 2 ^ 28" by (simp_all add: q_def r_def)
    have "unat (push_bit 4 v) = 16 * r"
      unfolding unat_push4 v(1) using v(2) by (simp add: mod_mult_right_eq algebra_simps)
    then have "hex_value a (IntToUnicode v (Suc n)) = 16 ^ n * (16 * a + q) + 16 * r div 16 ^ (8 - n)"
      using Suc.prems by (simp add: Suc.IH hex_digit_char q_def)
    also have "\<dots> = 16 ^ Suc n * a + (16 ^ n * q + 16 * r div 16 ^ (8 - n))" by (simp add: algebra_simps)
    also have "16 ^ n * q + 16 * r div 16 ^ (8 - n) = unat v div 16 ^ (8 - Suc n)"
    proof -
      have e: "(2 :: nat) ^ 28 = 16 ^ n * 16 ^ (7 - n)" using Suc.prems by (simp flip: power_add)
      have d: "16 * r div 16 ^ (8 - n) = r div 16 ^ (7 - n)"
      proof -
        have "(16 :: nat) ^ (8 - n) = 16 * 16 ^ (7 - n)" using Suc.prems by (simp add: Suc_diff_le flip: power_Suc)
        then show ?thesis by simp
      qed
      have "unat v = 16 ^ (7 - n) * (16 ^ n * q) + r" unfolding v(1) e by (simp only: ac_simps)
      then have "unat v div 16 ^ (7 - n) = 16 ^ n * q + r div 16 ^ (7 - n)" by simp
      then show ?thesis by (simp add: d)
    qed
    finally show ?case .
  qed
  then show ?thesis by simp
qed

text \<open>
  The serial-number descriptor reads back: unless the sum of the first and the last word of the chip's identifier is
  zero, it is a string descriptor of 26 bytes whose first eight digits are that sum and whose last four are the upper
  half of the middle word.
\<close>

theorem serial_roundtrip:
  assumes "id1 + id3 \<noteq> 0" "length a = 26" "a ! 0 = 0x1A" "a ! 1 = 3"
  shows "case USBD_FS_SerialStrDescriptor id1 id2 id3 a of (d, n) \<Rightarrow>
     n = 26 \<and> length d = 26 \<and> d ! 0 = 0x1A \<and> d ! 1 = 3 \<and>
     hex_value 0 (take 16 (drop 2 d)) = unat (id1 + id3) \<and> hex_value 0 (drop 18 d) = unat id2 div 2 ^ 16"
proof -
  define d where "d = Get_SerialNum id1 id2 id3 a"
  have d: "d = take 2 a @ IntToUnicode (id1 + id3) 8 @ IntToUnicode id2 4"
    using assms(1,2) by (simp add: d_def Get_SerialNum_def store_at_def)
  have "hex_value 0 (IntToUnicode (id1 + id3) 8) = unat (id1 + id3)" "hex_value 0 (IntToUnicode id2 4) = unat id2 div 2 ^ 16"
    using hex_value_IntToUnicode [of 8 "id1 + id3"] hex_value_IntToUnicode [of 4 id2] by simp_all
  moreover have "take 16 (drop 2 d) = IntToUnicode (id1 + id3) 8" "drop 18 d = IntToUnicode id2 4" "length d = 26"
    using assms(2) by (simp_all add: d)
  moreover have "d ! 0 = 0x1A" "d ! 1 = 3" using assms(2-4) by (simp_all add: d nth_append)
  ultimately show ?thesis
    by (simp add: USBD_FS_SerialStrDescriptor_def d_def [symmetric] USB_SIZ_STRING_SERIAL_def)
qed

theorem serial_roundtrip_witness:
  "case USBD_FS_SerialStrDescriptor 0x00110022 0xABCD1234 0x1 USBD_StringSerial_init of (d, n) \<Rightarrow>
     n = 26 \<and> hex_value 0 (take 16 (drop 2 d)) = 0x00110023 \<and> hex_value 0 (drop 18 d) = 0xABCD"
  using serial_roundtrip [of "0x00110022" "0x1" USBD_StringSerial_init "0xABCD1234"]
  by (simp add: USBD_StringSerial_init_def USB_SIZ_STRING_SERIAL_def split: prod.splits)

end
