(* ===== verification/Usb_Cdc.thy ===== *)
theory Usb_Cdc
  imports Usb_Desc "HOL-Library.Monad_Syntax"
begin

text \<open>
  The serial ports over USB: the class driver (\<open>lib/CDC/Src/usbd_cdc.c\<close>), its application side
  (\<open>lib/CDC-Describe/Src/usbd_cdc_if.c\<close>) and the transport of micro-ROS on top of it
  (\<open>src/freertos/microros/microros_transports.c\<close>).  The USB core and the peripheral belong to the vendor's library; what
  the driver asks of them is a trace of calls in the state.  \<open>None\<close> is an access through a null pointer or past the end
  of a buffer.
\<close>

datatype usbd_status = USBD_OK | USBD_BUSY | USBD_EMEM | USBD_FAIL

datatype usb_speed = SPEED_HIGH | SPEED_FULL

datatype cdc_ptr = NullPtr | UserRxBuffer | UserTxBuffer | OtherPtr u32

datatype ep_type = BULK | INTR

datatype usb_call =
    OpenEP u8 ep_type u16
  | CloseEP u8
  | Transmit u8 "u8 list"
  | PrepareReceive u8 cdc_ptr u16
  | CtlSendData nat
  | CtlPrepareRx u16
  | CtlError
  | ItfControl u8 u16 u8
  | CdcRx cdc_ptr u32 u8

record cdc_handle =
  CmdOpCode :: u8
  CmdLength :: u8
  RxBuffer :: cdc_ptr
  TxBuffer :: cdc_ptr
  RxLength :: u32
  TxLength :: u32
  TxState :: u32
  RxState :: u32

record usbd =
  pClassData :: "cdc_handle option"
  dev_speed :: usb_speed
  dev_configured :: bool
  ep_in_used :: "u8 \<Rightarrow> bool"
  ep_out_used :: "u8 \<Rightarrow> bool"
  ep_in_interval :: "u8 \<Rightarrow> u8"
  ep_in_total :: "u8 \<Rightarrow> u32"
  request_wIndex :: u16
  UserTxBufferFS :: "u8 list"
  calls :: "usb_call list"

definition call :: "usb_call \<Rightarrow> usbd \<Rightarrow> usbd" where
  "call c s = s\<lparr>calls := calls s @ [c]\<rparr>"

text \<open>The bytes at a pointer; the only buffer the driver sends from is the application's.\<close>

definition bytes_at :: "usbd \<Rightarrow> cdc_ptr \<Rightarrow> u32 \<Rightarrow> u8 list" where
  "bytes_at s p n = (if p = UserTxBuffer then take (unat n) (UserTxBufferFS s) else [])"

definition ep_number :: "u8 \<Rightarrow> u8" where "ep_number ep = ep AND 0xF"

subsection \<open>Buffers and packets\<close>

definition USBD_CDC_SetTxBuffer :: "cdc_ptr \<Rightarrow> u32 \<Rightarrow> usbd \<Rightarrow> usbd_status \<times> usbd" where
  "USBD_CDC_SetTxBuffer p n s =
     (case pClassData s of None \<Rightarrow> (USBD_FAIL, s)
      | Some hcdc \<Rightarrow> (USBD_OK, s\<lparr>pClassData := Some (hcdc\<lparr>TxBuffer := p, TxLength := n\<rparr>)\<rparr>))"

definition USBD_CDC_SetRxBuffer :: "cdc_ptr \<Rightarrow> usbd \<Rightarrow> usbd_status \<times> usbd" where
  "USBD_CDC_SetRxBuffer p s =
     (case pClassData s of None \<Rightarrow> (USBD_FAIL, s)
      | Some hcdc \<Rightarrow> (USBD_OK, s\<lparr>pClassData := Some (hcdc\<lparr>RxBuffer := p\<rparr>)\<rparr>))"

definition USBD_CDC_TransmitPacket :: "u8 \<Rightarrow> usbd \<Rightarrow> usbd_status \<times> usbd" where
  "USBD_CDC_TransmitPacket epindex s =
     (case pClassData s of None \<Rightarrow> (USBD_FAIL, s)
      | Some hcdc \<Rightarrow>
          if TxState hcdc = 0 then
            (USBD_OK, call (Transmit (if epindex < 2 then CDC_IN_EP else CDC_IN_EP + 2) (bytes_at s (TxBuffer hcdc) (TxLength hcdc)))
               (s\<lparr>pClassData := Some (hcdc\<lparr>TxState := 1\<rparr>),
                  ep_in_total := (ep_in_total s)(ep_number CDC_IN_EP := TxLength hcdc)\<rparr>))
          else (USBD_BUSY, s))"

definition USBD_CDC_ReceivePacket :: "u8 \<Rightarrow> usbd \<Rightarrow> usbd_status \<times> usbd" where
  "USBD_CDC_ReceivePacket epindex s =
     (case pClassData s of None \<Rightarrow> (USBD_FAIL, s)
      | Some hcdc \<Rightarrow>
          (USBD_OK, call (PrepareReceive (if epindex < 2 then CDC_OUT_EP else CDC_OUT_EP + 2) (RxBuffer hcdc)
             (if dev_speed s = SPEED_HIGH then CDC_DATA_HS_MAX_PACKET_SIZE else CDC_DATA_FS_MAX_PACKET_SIZE)) s))"

subsection \<open>The application side\<close>

definition APP_TX_DATA_SIZE :: nat where "APP_TX_DATA_SIZE = 2048"

definition CDC_Init_FS :: "usbd \<Rightarrow> usbd_status \<times> usbd" where
  "CDC_Init_FS s = (USBD_OK, snd (USBD_CDC_SetRxBuffer UserRxBuffer (snd (USBD_CDC_SetTxBuffer UserTxBuffer 0 s))))"

definition CDC_DeInit_FS :: "usbd \<Rightarrow> usbd_status \<times> usbd" where
  "CDC_DeInit_FS s = (USBD_OK, s)"

text \<open>Every command is accepted; the handling of the line coding is commented out.\<close>

definition CDC_Control_FS :: "u8 \<Rightarrow> u16 \<Rightarrow> u8 \<Rightarrow> usbd \<Rightarrow> usbd_status \<times> usbd" where
  "CDC_Control_FS cmd len epindex s = (USBD_OK, call (ItfControl cmd len epindex) s)"

definition CDC_Receive_FS :: "cdc_ptr \<Rightarrow> u32 \<Rightarrow> u8 \<Rightarrow> usbd \<Rightarrow> usbd_status \<times> usbd" where
  "CDC_Receive_FS Buf Len epindex s =
     (USBD_OK, call (CdcRx Buf Len epindex) (snd (USBD_CDC_ReceivePacket epindex (snd (USBD_CDC_SetRxBuffer Buf s)))))"

definition CDC_TransmitCplt_FS :: "usbd \<Rightarrow> usbd_status \<times> usbd" where
  "CDC_TransmitCplt_FS s = (USBD_OK, s)"

definition CDC_Transmit_FS :: "u8 list \<Rightarrow> u16 \<Rightarrow> u8 \<Rightarrow> usbd \<Rightarrow> (usbd_status \<times> usbd) option" where
  "CDC_Transmit_FS Buf Len epindex s =
     (case pClassData s of None \<Rightarrow> None
      | Some hcdc \<Rightarrow>
          if TxState hcdc \<noteq> 0 then Some (USBD_BUSY, s)
          else if unat Len > APP_TX_DATA_SIZE \<or> unat Len > length Buf then None
          else
            let s = s\<lparr>UserTxBufferFS := take (unat Len) Buf @ drop (unat Len) (UserTxBufferFS s)\<rparr>;
                s = snd (USBD_CDC_SetTxBuffer UserTxBuffer (ucast Len) s)
            in Some (USBD_CDC_TransmitPacket epindex s))"

definition UART_RxCplCallback :: "u8 list \<Rightarrow> u16 \<Rightarrow> usbd \<Rightarrow> usbd option" where
  "UART_RxCplCallback pRxBuffPtr RxXferCount s = map_option snd (CDC_Transmit_FS pRxBuffPtr RxXferCount 2 s)"

subsection \<open>The class driver\<close>

text \<open>
  The registered interface is the argument; the operations below are those of a device whose registered interface is the
  application side above.
\<close>

definition USBD_CDC_RegisterInterface :: "'f option \<Rightarrow> 'f option \<Rightarrow> usbd_status \<times> 'f option" where
  "USBD_CDC_RegisterInterface fops pUserData = (case fops of None \<Rightarrow> (USBD_FAIL, pUserData) | Some f \<Rightarrow> (USBD_OK, Some f))"

text \<open>\<open>block\<close> is the memory \<open>USBD_malloc\<close> returns, with whatever it holds, or \<open>None\<close>.\<close>

definition USBD_CDC_Init :: "cdc_handle option \<Rightarrow> usbd \<Rightarrow> usbd_status \<times> usbd" where
  "USBD_CDC_Init block s =
     (case block of
        None \<Rightarrow> (USBD_EMEM, s\<lparr>pClassData := None\<rparr>)
      | Some hcdc \<Rightarrow>
          let s = s\<lparr>pClassData := Some hcdc\<rparr>;
              packet = (if dev_speed s = SPEED_HIGH then CDC_DATA_HS_MAX_PACKET_SIZE else CDC_DATA_FS_MAX_PACKET_SIZE);
              interval = (if dev_speed s = SPEED_HIGH then CDC_HS_BINTERVAL else CDC_FS_BINTERVAL);
              s = call (OpenEP CDC_IN_EP BULK packet) s;
              s = s\<lparr>ep_in_used := (ep_in_used s)(ep_number CDC_IN_EP := True)\<rparr>;
              s = call (OpenEP CDC_OUT_EP BULK packet) s;
              s = s\<lparr>ep_out_used := (ep_out_used s)(ep_number CDC_OUT_EP := True)\<rparr>;
              s = s\<lparr>ep_in_interval := (ep_in_interval s)(ep_number CDC_CMD_EP := interval)\<rparr>;
              s = call (OpenEP CDC_CMD_EP INTR CDC_CMD_PACKET_SIZE) s;
              s = s\<lparr>ep_in_used := (ep_in_used s)(ep_number CDC_CMD_EP := True)\<rparr>;
              s = snd (CDC_Init_FS s)
          in (case pClassData s of None \<Rightarrow> (USBD_OK, s)
              | Some hcdc \<Rightarrow>
                  (USBD_OK, call (PrepareReceive CDC_OUT_EP (RxBuffer hcdc) packet)
                     (s\<lparr>pClassData := Some (hcdc\<lparr>TxState := 0, RxState := 0\<rparr>)\<rparr>))))"

definition USBD_CDC_DeInit :: "usbd \<Rightarrow> usbd_status \<times> usbd" where
  "USBD_CDC_DeInit s =
     (let s = call (CloseEP CDC_IN_EP) s;
          s = s\<lparr>ep_in_used := (ep_in_used s)(ep_number CDC_IN_EP := False)\<rparr>;
          s = call (CloseEP CDC_OUT_EP) s;
          s = s\<lparr>ep_out_used := (ep_out_used s)(ep_number CDC_OUT_EP := False)\<rparr>;
          s = call (CloseEP CDC_CMD_EP) s;
          s = s\<lparr>ep_in_used := (ep_in_used s)(ep_number CDC_CMD_EP := False),
                ep_in_interval := (ep_in_interval s)(ep_number CDC_CMD_EP := 0)\<rparr>
      in (USBD_OK, if pClassData s \<noteq> None then (snd (CDC_DeInit_FS s))\<lparr>pClassData := None\<rparr> else s))"

record setup_req =
  bmRequest :: u8
  bRequest :: u8
  wIndex :: u16
  wLength :: u16

definition CDC_REQ_MAX_DATA_SIZE :: u16 where "CDC_REQ_MAX_DATA_SIZE = 7"

definition ctl_error :: "usbd \<Rightarrow> usbd_status \<times> usbd" where
  "ctl_error s = (USBD_FAIL, call CtlError s)"

text \<open>Request types and codes have the values of the USB standard.\<close>

definition setup_class :: "cdc_handle \<Rightarrow> setup_req \<Rightarrow> usbd \<Rightarrow> usbd_status \<times> usbd" where
  "setup_class hcdc req s =
     (if wLength req \<noteq> 0 then
        (if bmRequest req AND 0x80 \<noteq> 0 then
           let s = snd (CDC_Control_FS (bRequest req) (wLength req) (ucast (wIndex req)) s)
           in (USBD_OK, call (CtlSendData (min (unat CDC_REQ_MAX_DATA_SIZE) (unat (wLength req)))) s)
         else (USBD_OK, call (CtlPrepareRx (wLength req))
           (s\<lparr>pClassData := Some (hcdc\<lparr>CmdOpCode := bRequest req, CmdLength := ucast (wLength req)\<rparr>)\<rparr>)))
      else (USBD_OK, snd (CDC_Control_FS (bRequest req) 0 (ucast (wIndex req)) s)))"

definition setup_standard :: "setup_req \<Rightarrow> usbd \<Rightarrow> usbd_status \<times> usbd" where
  "setup_standard req s =
     (if bRequest req = 0x00 then (if dev_configured s then (USBD_OK, call (CtlSendData 2) s) else ctl_error s)
      else if bRequest req = 0x0A then (if dev_configured s then (USBD_OK, call (CtlSendData 1) s) else ctl_error s)
      else if bRequest req = 0x0B then (if \<not> dev_configured s then ctl_error s else (USBD_OK, s))
      else if bRequest req = 0x01 then (USBD_OK, s)
      else ctl_error s)"

definition USBD_CDC_Setup :: "setup_req \<Rightarrow> usbd \<Rightarrow> usbd_status \<times> usbd" where
  "USBD_CDC_Setup req s =
     (case pClassData s of None \<Rightarrow> (USBD_FAIL, s)
      | Some hcdc \<Rightarrow>
          if bmRequest req AND 0x60 = 0x20 then setup_class hcdc req s
          else if bmRequest req AND 0x60 = 0x00 then setup_standard req s
          else ctl_error s)"

text \<open>The end of a transmission on an endpoint; \<open>maxpacket\<close> is the packet size of the peripheral's endpoint.\<close>

definition USBD_CDC_DataIn :: "u32 \<Rightarrow> u8 \<Rightarrow> usbd \<Rightarrow> usbd_status \<times> usbd" where
  "USBD_CDC_DataIn maxpacket epnum s =
     (case pClassData s of None \<Rightarrow> (USBD_FAIL, s)
      | Some hcdc \<Rightarrow>
          if ep_in_total s epnum > 0 \<and> ep_in_total s epnum mod maxpacket = 0
          then (USBD_OK, call (Transmit epnum []) (s\<lparr>ep_in_total := (ep_in_total s)(epnum := 0)\<rparr>))
          else (USBD_OK, snd (CDC_TransmitCplt_FS (s\<lparr>pClassData := Some (hcdc\<lparr>TxState := 0\<rparr>)\<rparr>))))"

definition USBD_CDC_DataOut :: "u32 \<Rightarrow> u8 \<Rightarrow> usbd \<Rightarrow> usbd_status \<times> usbd" where
  "USBD_CDC_DataOut rx_size epnum s =
     (case pClassData s of None \<Rightarrow> (USBD_FAIL, s)
      | Some hcdc \<Rightarrow>
          (USBD_OK, snd (CDC_Receive_FS (RxBuffer hcdc) rx_size (if epnum = CDC_OUT_EP then 0 else 2)
             (s\<lparr>pClassData := Some (hcdc\<lparr>RxLength := rx_size\<rparr>)\<rparr>))))"

definition USBD_CDC_EP0_RxReady :: "usbd \<Rightarrow> usbd_status \<times> usbd" where
  "USBD_CDC_EP0_RxReady s =
     (case pClassData s of None \<Rightarrow> (USBD_FAIL, s)
      | Some hcdc \<Rightarrow>
          if CmdOpCode hcdc \<noteq> 0xFF then
            let s = snd (CDC_Control_FS (CmdOpCode hcdc) (ucast (CmdLength hcdc)) (ucast (request_wIndex s)) s)
            in (USBD_OK, s\<lparr>pClassData := Some (hcdc\<lparr>CmdOpCode := 0xFF\<rparr>)\<rparr>)
          else (USBD_OK, s))"

subsection \<open>The transport of micro-ROS\<close>

definition transportUxrCdcOpen :: bool where "transportUxrCdcOpen = True"

definition transportUxrCdcClose :: bool where "transportUxrCdcClose = True"

text \<open>
  Writing polls the port until it accepts the message; \<open>env n\<close> is what the interrupts do to the state before the
  \<open>n\<close>-th poll.
\<close>

partial_function (option) cdc_write_loop ::
    "(nat \<Rightarrow> usbd \<Rightarrow> usbd) \<Rightarrow> u8 list \<Rightarrow> u32 \<Rightarrow> nat \<Rightarrow> usbd \<Rightarrow> (u32 \<times> usbd) option" where
  "cdc_write_loop env buf len n s =
     do { (r, s) \<leftarrow> CDC_Transmit_FS buf (ucast len) 0 (env n s);
          if r = USBD_OK then Some (len, s)
          else if r \<noteq> USBD_BUSY then Some (0, s)
          else cdc_write_loop env buf len (Suc n) s }"

definition transportUxrCdcWrite :: "(nat \<Rightarrow> usbd \<Rightarrow> usbd) \<Rightarrow> u8 list \<Rightarrow> u32 \<Rightarrow> usbd \<Rightarrow> (u32 \<times> usbd) option" where
  "transportUxrCdcWrite env buf len s = cdc_write_loop env buf len 0 s"

definition transportUxrCdcRead :: "('b \<Rightarrow> u32 \<Rightarrow> u8 \<Rightarrow> u32 \<Rightarrow> 'r) \<Rightarrow> 'b \<Rightarrow> u32 \<Rightarrow> u32 \<Rightarrow> 'r" where
  "transportUxrCdcRead transimitionUsbCdcReadBlock buf len timeout = transimitionUsbCdcReadBlock buf len 0 timeout"

end
