(* ===== verification/Usb_Props.thy ===== *)
theory Usb_Props
  imports Usb_Cdc
begin

text \<open>What the serial ports guarantee to the transport of micro-ROS, and where they fail.\<close>

fun tx_free :: "usbd \<Rightarrow> bool" where
  "tx_free s = (case pClassData s of None \<Rightarrow> False | Some h \<Rightarrow> TxState h = 0)"

lemma unat_ucast16: "unat (ucast (n :: u16) :: u32) = unat n"
  by (simp add: unsigned_ucast_eq take_bit_nat_eq_self less_le_trans [OF unsigned_less])

lemma Transmit_FS_accepts:
  assumes "tx_free s" "length buf \<ge> unat len" "unat len \<le> 2048"
  obtains h where "CDC_Transmit_FS buf len ep s = Some (USBD_OK,
      s\<lparr>UserTxBufferFS := take (unat len) buf @ drop (unat len) (UserTxBufferFS s),
        pClassData := Some (h\<lparr>TxBuffer := UserTxBuffer, TxLength := ucast len, TxState := 1\<rparr>),
        ep_in_total := (ep_in_total s)(1 := ucast len),
        calls := calls s @ [Transmit (if ep < 2 then 0x81 else 0x83) (take (unat len) buf)]\<rparr>)" "pClassData s = Some h"
proof -
  obtain h where h: "pClassData s = Some h" "TxState h = 0" using assms(1) by (auto split: option.splits)
  show thesis
    by (rule that [of h]) (use assms h in \<open>simp_all add: CDC_Transmit_FS_def USBD_CDC_SetTxBuffer_def USBD_CDC_TransmitPacket_def
        Let_def APP_TX_DATA_SIZE_def bytes_at_def call_def CDC_IN_EP_def ep_number_def unat_ucast16\<close>)
qed

subsection \<open>Messages\<close>

text \<open>
  A message is one transmission, closed by an empty packet when it fills its packets exactly: the port is busy until
  the completion of the last packet and free afterwards.
\<close>

theorem cdc_message:
  assumes "tx_free s" "length buf = unat len" "unat len \<le> 2048" "0 < len" "0 < mp"
  shows "\<exists>s1. CDC_Transmit_FS buf len 0 s = Some (USBD_OK, s1) \<and> \<not> tx_free s1 \<and>
     calls s1 = calls s @ [Transmit CDC_IN_EP buf] \<and>
     (let s2 = snd (USBD_CDC_DataIn mp 1 s1); s3 = snd (USBD_CDC_DataIn mp 1 s2) in
      if (ucast len :: u32) mod mp = 0
      then \<not> tx_free s2 \<and> calls s2 = calls s1 @ [Transmit 1 []] \<and> tx_free s3 \<and> calls s3 = calls s2
      else tx_free s2 \<and> calls s2 = calls s1)"
proof -
  obtain h where t: "CDC_Transmit_FS buf len 0 s = Some (USBD_OK,
      s\<lparr>UserTxBufferFS := take (unat len) buf @ drop (unat len) (UserTxBufferFS s),
        pClassData := Some (h\<lparr>TxBuffer := UserTxBuffer, TxLength := ucast len, TxState := 1\<rparr>),
        ep_in_total := (ep_in_total s)(1 := ucast len),
        calls := calls s @ [Transmit (if (0 :: u8) < 2 then 0x81 else 0x83) (take (unat len) buf)]\<rparr>)"
    using Transmit_FS_accepts [OF assms(1) _ assms(3), of buf 0] assms(2) by auto
  have "(0 :: u32) < ucast len" using assms(4) by (simp add: word_less_nat_alt unat_ucast16)
  then show ?thesis
    using assms(2) by (simp add: t CDC_IN_EP_def USBD_CDC_DataIn_def CDC_TransmitCplt_FS_def call_def Let_def)
qed

subsection \<open>The transport\<close>

text \<open>What the \<open>k\<close>-th poll from now on sees while the port stays busy.\<close>

fun seen :: "(nat \<Rightarrow> usbd \<Rightarrow> usbd) \<Rightarrow> nat \<Rightarrow> nat \<Rightarrow> usbd \<Rightarrow> usbd" where
  "seen env n 0 s = env n s"
| "seen env n (Suc k) s = seen env (Suc n) k (env n s)"

lemma cdc_write_busy:
  assumes "\<not> tx_free (env n s)" "pClassData (env n s) \<noteq> None"
  shows "cdc_write_loop env buf len n s = cdc_write_loop env buf len (Suc n) (env n s)"
  using assms by (subst cdc_write_loop.simps) (auto simp: CDC_Transmit_FS_def)

lemma cdc_write_returns:
  assumes "tx_free (seen env n k s)" "\<forall>i < k. \<not> tx_free (seen env n i s) \<and> pClassData (seen env n i s) \<noteq> None"
    "CDC_Transmit_FS buf (ucast len) 0 (seen env n k s) = Some (USBD_OK, s')"
  shows "cdc_write_loop env buf len n s = Some (len, s')"
  using assms
proof (induction k arbitrary: n s)
  case 0
  then show ?case by (subst cdc_write_loop.simps) simp
next
  case (Suc k)
  have "cdc_write_loop env buf len n s = cdc_write_loop env buf len (Suc n) (env n s)"
    using Suc.prems(2) by (intro cdc_write_busy) force+
  also have "\<dots> = Some (len, s')" by (rule Suc.IH) (use Suc.prems in force)+
  finally show ?case .
qed

lemma cdc_write_SomeD:
  assumes "cdc_write_loop env buf len n s = Some r"
  shows "\<exists>k. tx_free (seen env n k s)"
proof (rule cdc_write_loop.raw_induct [OF _ assms, where P = "\<lambda>env buf len n s r. \<exists>k. tx_free (seen env n k s)"])
  fix w and env :: "nat \<Rightarrow> usbd \<Rightarrow> usbd" and buf :: "u8 list" and len :: u32 and n s r
  assume ih: "\<And>env buf len n s r. w env buf len n s = Some r \<Longrightarrow> \<exists>k. tx_free (seen env n k s)"
    and eq: "Option.bind (CDC_Transmit_FS buf (ucast len) 0 (env n s)) (\<lambda>(r, s). if r = USBD_OK then Some (len, s)
      else if r \<noteq> USBD_BUSY then Some (0, s) else w env buf len (Suc n) s) = Some r"
  show "\<exists>k. tx_free (seen env n k s)"
  proof (cases "tx_free (env n s)")
    case False
    then have "CDC_Transmit_FS buf (ucast len) 0 (env n s) = Some (USBD_BUSY, env n s)"
      using eq by (auto simp: CDC_Transmit_FS_def split: option.splits)
    then have "w env buf len (Suc n) (env n s) = Some r" using eq by simp
    then obtain k where "tx_free (seen env (Suc n) k (env n s))" using ih by blast
    then show ?thesis by (intro exI [of _ "Suc k"]) simp
  qed (auto intro: exI [of _ 0])
qed

text \<open>
  Writing returns exactly when the host collects the message before: as soon as a poll finds the port free, the whole
  message is handed over in one transmission and its length is returned; while the port is never free, the call never
  returns, since it polls without a limit.
\<close>

theorem transportUxrCdcWrite_returns:
  assumes "length buf = unat len" "unat len \<le> 2048" "\<forall>i. pClassData (seen env 0 i s) \<noteq> None"
  shows "(\<forall>k. tx_free (seen env 0 k s) \<and> (\<forall>i < k. \<not> tx_free (seen env 0 i s)) \<longrightarrow>
       (\<exists>s'. transportUxrCdcWrite env buf len s = Some (len, s') \<and>
          calls s' = calls (seen env 0 k s) @ [Transmit CDC_IN_EP buf])) \<and>
     (\<forall>k. \<not> tx_free (seen env 0 k s)) = (transportUxrCdcWrite env buf len s = None)"
proof -
  have l: "unat (ucast len :: u16) = unat len" using assms(2) by (simp add: unsigned_ucast_eq take_bit_nat_eq_self)
  have first: "\<exists>s'. transportUxrCdcWrite env buf len s = Some (len, s') \<and> calls s' = calls (seen env 0 k s) @ [Transmit CDC_IN_EP buf]"
    if k: "tx_free (seen env 0 k s)" "\<forall>i < k. \<not> tx_free (seen env 0 i s)" for k
  proof -
    obtain h where "CDC_Transmit_FS buf (ucast len) 0 (seen env 0 k s) = Some (USBD_OK, (seen env 0 k s)\<lparr>
        UserTxBufferFS := take (unat (ucast len :: u16)) buf @ drop (unat (ucast len :: u16)) (UserTxBufferFS (seen env 0 k s)),
        pClassData := Some (h\<lparr>TxBuffer := UserTxBuffer, TxLength := ucast (ucast len :: u16), TxState := 1\<rparr>),
        ep_in_total := (ep_in_total (seen env 0 k s))(1 := ucast (ucast len :: u16)),
        calls := calls (seen env 0 k s) @ [Transmit (if (0 :: u8) < 2 then 0x81 else 0x83) (take (unat (ucast len :: u16)) buf)]\<rparr>)"
      by (rule Transmit_FS_accepts [OF k(1), of "ucast len" buf 0]) (use assms l in simp_all)
    note cdc_write_returns [OF k(1) _ this]
    then show ?thesis using k(2) assms l by (simp add: transportUxrCdcWrite_def CDC_IN_EP_def)
  qed
  have none: "transportUxrCdcWrite env buf len s = None" if "\<forall>k. \<not> tx_free (seen env 0 k s)"
    using that cdc_write_SomeD [of env buf len 0 s] by (cases "cdc_write_loop env buf len 0 s") (auto simp: transportUxrCdcWrite_def)
  have "\<not> tx_free (seen env 0 k s)" if "transportUxrCdcWrite env buf len s = None" for k
  proof
    assume "tx_free (seen env 0 k s)"
    then have "tx_free (seen env 0 (LEAST k. tx_free (seen env 0 k s)) s)" by (rule LeastI)
    then show False using first not_less_Least that by fastforce
  qed
  then show ?thesis using first none by blast
qed

lemma seen_connected:
  assumes "\<And>n s. pClassData s \<noteq> None \<Longrightarrow> pClassData (env n s) \<noteq> None"
  shows "pClassData s \<noteq> None \<Longrightarrow> pClassData (seen env n i s) \<noteq> None"
  by (induction i arbitrary: n s) (simp_all add: assms del: not_None_eq)

definition ex_cdc :: usbd where
  "ex_cdc = \<lparr>pClassData = Some \<lparr>CmdOpCode = 0xFF, CmdLength = 0, RxBuffer = UserRxBuffer, TxBuffer = UserTxBuffer, RxLength = 0,
     TxLength = 0, TxState = 0, RxState = 0\<rparr>, dev_speed = SPEED_FULL, dev_configured = True, ep_in_used = (\<lambda>_. False),
     ep_out_used = (\<lambda>_. False), ep_in_interval = (\<lambda>_. 0), ep_in_total = (\<lambda>_. 0), request_wIndex = 0,
     UserTxBufferFS = replicate 2048 0, calls = []\<rparr>"

text \<open>A message is still under way; its completion comes before the second poll.\<close>

theorem transportUxrCdcWrite_returns_witness:
  "\<exists>s'. transportUxrCdcWrite (\<lambda>n s. if n = 1 then snd (USBD_CDC_DataIn 64 1 s) else s) [1, 2, 3] 3
     (snd (the (CDC_Transmit_FS [9] 1 0 ex_cdc))) = Some (3, s') \<and> calls s' = [Transmit 0x81 [9], Transmit 0x81 [1, 2, 3]]"
proof -
  let ?env = "\<lambda>n s. if n = 1 then snd (USBD_CDC_DataIn 64 1 s) else s"
  let ?s = "snd (the (CDC_Transmit_FS [9] 1 0 ex_cdc))"
  have s: "?s = ex_cdc\<lparr>UserTxBufferFS := 9 # replicate 2047 0, calls := [Transmit 0x81 [9]], ep_in_total := (\<lambda>_. 0)(1 := 1),
      pClassData := Some \<lparr>CmdOpCode = 0xFF, CmdLength = 0, RxBuffer = UserRxBuffer, TxBuffer = UserTxBuffer, RxLength = 0,
        TxLength = 1, TxState = 1, RxState = 0\<rparr>\<rparr>"
    by (simp add: CDC_Transmit_FS_def ex_cdc_def APP_TX_DATA_SIZE_def USBD_CDC_SetTxBuffer_def USBD_CDC_TransmitPacket_def
        bytes_at_def call_def Let_def CDC_IN_EP_def ep_number_def)
  have p: "pClassData (?env n s) \<noteq> None" if "pClassData s \<noteq> None" for n s
    using that by (auto simp: USBD_CDC_DataIn_def call_def CDC_TransmitCplt_FS_def)
  have "pClassData ?s \<noteq> None" by (simp add: s)
  then have a: "\<forall>i. pClassData (seen ?env 0 i ?s) \<noteq> None" using seen_connected [of ?env ?s 0, OF p] by blast
  have "tx_free (seen ?env 0 1 ?s) \<and> (\<forall>i < 1. \<not> tx_free (seen ?env 0 i ?s))" "calls (seen ?env 0 1 ?s) = [Transmit 0x81 [9]]"
    by (simp_all add: s USBD_CDC_DataIn_def CDC_TransmitCplt_FS_def)
  then show ?thesis
    using transportUxrCdcWrite_returns [of "[1, 2, 3]" 3 ?env ?s, OF _ _ a] by (fastforce simp: CDC_IN_EP_def)
qed

theorem cdc_message_witness:
  "\<exists>s1. CDC_Transmit_FS (replicate 64 7) 64 0 ex_cdc = Some (USBD_OK, s1) \<and>
     calls (snd (USBD_CDC_DataIn 64 1 s1)) = [Transmit 0x81 (replicate 64 7), Transmit 1 []]"
  using cdc_message [of ex_cdc "replicate 64 7" 64 64] by (auto simp: ex_cdc_def CDC_IN_EP_def Let_def)

subsection \<open>The message in flight\<close>

text \<open>Everything that can happen to a port: writes, completions, receptions, control requests and (re)configuration.\<close>

datatype cdc_op = Send "u8 list" u16 u8 | Sent u32 u8 | Received u32 u8 | Control setup_req | ControlData | Configure "cdc_handle option" | Deconfigure

fun cdc_exec :: "cdc_op \<Rightarrow> usbd \<Rightarrow> usbd option" where
  "cdc_exec (Send buf len ep) s = map_option snd (CDC_Transmit_FS buf len ep s)"
| "cdc_exec (Sent mp ep) s = Some (snd (USBD_CDC_DataIn mp ep s))"
| "cdc_exec (Received n ep) s = Some (snd (USBD_CDC_DataOut n ep s))"
| "cdc_exec (Control req) s = Some (snd (USBD_CDC_Setup req s))"
| "cdc_exec ControlData s = Some (snd (USBD_CDC_EP0_RxReady s))"
| "cdc_exec (Configure b) s = Some (snd (USBD_CDC_Init b s))"
| "cdc_exec Deconfigure s = Some (snd (USBD_CDC_DeInit s))"

inductive cdc_reach :: "usbd \<Rightarrow> usbd \<Rightarrow> bool" for s0 where
  start: "cdc_reach s0 s0"
| step: "cdc_reach s0 s \<Longrightarrow> cdc_exec op s = Some s' \<Longrightarrow> cdc_reach s0 s'"

text \<open>The last bytes handed to the peripheral; empty packets do not count.\<close>

fun sent_bytes :: "usb_call \<Rightarrow> u8 list" where
  "sent_bytes (Transmit ep bs) = bs"
| "sent_bytes _ = []"

definition last_sent :: "usbd \<Rightarrow> u8 list" where
  "last_sent s = last ([] # filter (\<lambda>bs. bs \<noteq> []) (map sent_bytes (calls s)))"

definition cdc_inv :: "usbd \<Rightarrow> bool" where
  "cdc_inv s \<longleftrightarrow> length (UserTxBufferFS s) = 2048 \<and>
     (case pClassData s of None \<Rightarrow> True | Some h \<Rightarrow>
        TxState h \<noteq> 0 \<and> TxLength h \<noteq> 0 \<longrightarrow> TxBuffer h = UserTxBuffer \<and> last_sent s = take (unat (TxLength h)) (UserTxBufferFS s))"

lemma last_sent_call: "last_sent (call c s) = (if sent_bytes c = [] then last_sent s else sent_bytes c)"
  by (simp add: last_sent_def call_def)

lemma last_sent_cong [simp]:
  "last_sent (s\<lparr>pClassData := x\<rparr>) = last_sent s" "last_sent (s\<lparr>ep_in_used := e\<rparr>) = last_sent s"
  "last_sent (s\<lparr>ep_out_used := e\<rparr>) = last_sent s" "last_sent (s\<lparr>ep_in_interval := i\<rparr>) = last_sent s"
  "last_sent (s\<lparr>ep_in_total := t\<rparr>) = last_sent s"
  by (simp_all add: last_sent_def)

lemma call_simps [simp]: "pClassData (call c s) = pClassData s" "UserTxBufferFS (call c s) = UserTxBufferFS s"
  by (simp_all add: call_def)

lemma cdc_inv_Send:
  assumes "cdc_inv s" "CDC_Transmit_FS buf len ep s = Some (r, s')"
  shows "cdc_inv s'"
proof (cases "tx_free s")
  case False
  then show ?thesis using assms by (auto simp: CDC_Transmit_FS_def split: option.splits if_splits)
next
  case True
  have l: "unat len \<le> length buf" "unat len \<le> 2048"
    using True assms(2) by (auto simp: CDC_Transmit_FS_def APP_TX_DATA_SIZE_def split: option.splits if_splits)
  obtain h where "CDC_Transmit_FS buf len ep s = Some (USBD_OK,
      s\<lparr>UserTxBufferFS := take (unat len) buf @ drop (unat len) (UserTxBufferFS s),
        pClassData := Some (h\<lparr>TxBuffer := UserTxBuffer, TxLength := ucast len, TxState := 1\<rparr>),
        ep_in_total := (ep_in_total s)(1 := ucast len),
        calls := calls s @ [Transmit (if ep < 2 then 0x81 else 0x83) (take (unat len) buf)]\<rparr>)"
    by (rule Transmit_FS_accepts [OF True l])
  then have s': "s' = call (Transmit (if ep < 2 then 0x81 else 0x83) (take (unat len) buf))
      (s\<lparr>UserTxBufferFS := take (unat len) buf @ drop (unat len) (UserTxBufferFS s),
        pClassData := Some (h\<lparr>TxBuffer := UserTxBuffer, TxLength := ucast len, TxState := 1\<rparr>),
        ep_in_total := (ep_in_total s)(1 := ucast len)\<rparr>)"
    using assms(2) by (simp add: call_def)
  show ?thesis using assms(1) l unfolding s'
    by (auto simp: cdc_inv_def last_sent_call unat_ucast16 unsigned_eq_0_iff)
qed

lemma cdc_inv_exec: "cdc_inv s \<Longrightarrow> cdc_exec op s = Some s' \<Longrightarrow> cdc_inv s'"
proof (cases op)
  case (Send buf len ep)
  assume "cdc_inv s" "cdc_exec op s = Some s'"
  then show ?thesis using cdc_inv_Send by (auto simp: Send)
qed (auto simp: cdc_inv_def USBD_CDC_DataIn_def CDC_TransmitCplt_FS_def USBD_CDC_DataOut_def CDC_Receive_FS_def USBD_CDC_ReceivePacket_def
      USBD_CDC_SetRxBuffer_def USBD_CDC_Setup_def setup_class_def setup_standard_def ctl_error_def CDC_Control_FS_def
      USBD_CDC_EP0_RxReady_def USBD_CDC_Init_def CDC_Init_FS_def USBD_CDC_SetTxBuffer_def USBD_CDC_DeInit_def CDC_DeInit_FS_def
      last_sent_call Let_def split: option.splits if_splits)

text \<open>C26.
  The message in flight is never overwritten: from an unconfigured port, in every sequence of writes, completions,
  receptions, control requests and reconfigurations, a busy port still holds in its transmit buffer exactly the bytes
  that were last handed to the peripheral.
\<close>

theorem cdc_in_flight:
  assumes "cdc_reach s0 s" "pClassData s0 = None" "length (UserTxBufferFS s0) = 2048"
    and "pClassData s = Some h" "TxState h \<noteq> 0" "TxLength h \<noteq> 0"
  shows "take (unat (TxLength h)) (UserTxBufferFS s) = last_sent s"
proof -
  from assms(1) have "cdc_inv s"
  proof induction
    case start
    then show ?case using assms(2,3) by (simp add: cdc_inv_def)
  qed (rule cdc_inv_exec)
  then show ?thesis using assms(4-6) by (simp add: cdc_inv_def)
qed

definition ex_usb :: usbd where "ex_usb = ex_cdc\<lparr>pClassData := None\<rparr>"

theorem cdc_in_flight_witness:
  "\<exists>s h. cdc_reach ex_usb s \<and> pClassData s = Some h \<and> take (unat (TxLength h)) (UserTxBufferFS s) = last_sent s \<and> last_sent s = [5, 6]"
proof -
  obtain s1 where s1: "cdc_exec (Configure (pClassData ex_cdc)) ex_usb = Some s1" by simp
  obtain s2 where s2: "cdc_exec (Send [5, 6] 2 0) s1 = Some s2"
    using s1 by (auto simp: USBD_CDC_Init_def ex_usb_def ex_cdc_def CDC_Init_FS_def USBD_CDC_SetTxBuffer_def USBD_CDC_SetRxBuffer_def
        CDC_Transmit_FS_def APP_TX_DATA_SIZE_def Let_def USBD_CDC_TransmitPacket_def call_def)
  have r: "cdc_reach ex_usb s2" using cdc_reach.step [OF cdc_reach.step [OF cdc_reach.start s1] s2] .
  obtain h where h: "pClassData s2 = Some h" "TxState h = 1" "TxLength h = 2" "last_sent s2 = [5, 6]"
    using s1 s2 by (auto simp: USBD_CDC_Init_def ex_usb_def ex_cdc_def CDC_Init_FS_def USBD_CDC_SetTxBuffer_def USBD_CDC_SetRxBuffer_def
        CDC_Transmit_FS_def APP_TX_DATA_SIZE_def Let_def USBD_CDC_TransmitPacket_def bytes_at_def call_def last_sent_def)
  have "take (unat (TxLength h)) (UserTxBufferFS s2) = last_sent s2"
    by (rule cdc_in_flight [OF r _ _ h(1)]) (simp_all add: h ex_usb_def ex_cdc_def)
  then show ?thesis using r h by blast
qed

subsection \<open>Defects\<close>

text \<open>
  Long messages are cut silently: the length is passed on as 16 bits, so that of 65536 + k bytes only k are sent, while
  the caller is told that all of them were.
\<close>

theorem transportUxrCdcWrite_truncates:
  assumes "tx_free (env 0 s)" "k \<le> 2048" "length buf = 65536 + k"
  shows "\<exists>s'. transportUxrCdcWrite env buf (of_nat (65536 + k)) s = Some (of_nat (65536 + k), s') \<and>
     calls s' = calls (env 0 s) @ [Transmit CDC_IN_EP (take k buf)]"
proof -
  have l: "unat (ucast (of_nat (65536 + k) :: u32) :: u16) = k"
  proof -
    have "unat (of_nat (65536 + k) :: u32) = 65536 + k" using assms(2) by (intro unat_of_nat_u32) simp
    then show ?thesis using assms(2) by (simp add: unsigned_ucast_eq take_bit_eq_mod del: of_nat_add)
  qed
  obtain h where "CDC_Transmit_FS buf (ucast (of_nat (65536 + k) :: u32)) 0 (env 0 s) = Some (USBD_OK, (env 0 s)\<lparr>
      UserTxBufferFS := take k buf @ drop k (UserTxBufferFS (env 0 s)),
      pClassData := Some (h\<lparr>TxBuffer := UserTxBuffer, TxLength := ucast (ucast (of_nat (65536 + k) :: u32) :: u16), TxState := 1\<rparr>),
      ep_in_total := (ep_in_total (env 0 s))(1 := ucast (ucast (of_nat (65536 + k) :: u32) :: u16)),
      calls := calls (env 0 s) @ [Transmit (if (0 :: u8) < 2 then 0x81 else 0x83) (take k buf)]\<rparr>)"
    by (rule Transmit_FS_accepts [OF assms(1), of "ucast (of_nat (65536 + k) :: u32)" buf 0, unfolded l]) (use assms in simp_all)
  then have "cdc_write_loop env buf (of_nat (65536 + k)) 0 s = Some (of_nat (65536 + k), (env 0 s)\<lparr>
      UserTxBufferFS := take k buf @ drop k (UserTxBufferFS (env 0 s)),
      pClassData := Some (h\<lparr>TxBuffer := UserTxBuffer, TxLength := ucast (ucast (of_nat (65536 + k) :: u32) :: u16), TxState := 1\<rparr>),
      ep_in_total := (ep_in_total (env 0 s))(1 := ucast (ucast (of_nat (65536 + k) :: u32) :: u16)),
      calls := calls (env 0 s) @ [Transmit (if (0 :: u8) < 2 then 0x81 else 0x83) (take k buf)]\<rparr>)"
    by (intro cdc_write_returns [where k = 0]) (use assms(1) in simp_all)
  then show ?thesis by (simp add: transportUxrCdcWrite_def CDC_IN_EP_def)
qed

theorem transportUxrCdcWrite_truncates_witness:
  "\<exists>s'. transportUxrCdcWrite (\<lambda>_ s. s) (replicate 65538 1) 65538 ex_cdc = Some (65538, s') \<and> calls s' = [Transmit 0x81 [1, 1]]"
  using transportUxrCdcWrite_truncates [of "\<lambda>_ s. s" ex_cdc 2 "replicate 65538 1"]
  by (simp add: ex_cdc_def CDC_IN_EP_def numeral_2_eq_2)

text \<open>
  The second port is announced but dead: the configuration lists six endpoints, while configuring the class opens only
  the three of the first port.
\<close>

theorem second_port_not_opened:
  "map (\<lambda>e. e ! 2) (endpoint_descs (fst (USBD_CDC_GetFSCfgDesc mp))) = [0x82, 0x01, 0x81, 0x84, 0x03, 0x83] \<and>
   (\<exists>cs. calls (snd (USBD_CDC_Init (Some h) s)) = calls s @ cs \<and>
      map (\<lambda>c. case c of OpenEP ep t p \<Rightarrow> Some ep | _ \<Rightarrow> None) cs = [Some 0x81, Some 0x01, Some 0x82, None])"
  by (simp add: USBD_CDC_GetFSCfgDesc_def endpoint_descs_def usb_descs endpoints_def USBD_CDC_Init_def CDC_Init_FS_def
      USBD_CDC_SetTxBuffer_def USBD_CDC_SetRxBuffer_def Let_def call_def)

text \<open>
  A control request of the host may overrun the handle: the data stage of a class request is received into a buffer of
  512 bytes with the length the host asked for, which is not limited.
\<close>

lemma setup_unbounded:
  assumes "pClassData s = Some h" "bmRequest req AND 0x60 = 0x20" "bmRequest req AND 0x80 = 0" "wLength req \<noteq> 0"
  shows "calls (snd (USBD_CDC_Setup req s)) = calls s @ [CtlPrepareRx (wLength req)]"
  using assms by (simp add: USBD_CDC_Setup_def setup_class_def call_def)

end
