(* ===== verification/Delay_Us.thy ===== *)
theory Delay_Us
  imports RM_Prelude
begin

text \<open>
  Busy waiting on the system timer (\<open>delay_us\<close> of \<open>src/override.c\<close>), which the sensor drivers use.  The timer counts down
  from \<open>LOAD\<close> to 0 and starts again; \<open>val n\<close> is what the \<open>n\<close>-th read of \<open>SysTick->VAL\<close> returns.
\<close>

definition systick_step :: "u32 \<Rightarrow> u32 \<Rightarrow> u32 \<Rightarrow> u32 \<Rightarrow> u32" where
  "systick_step load tnow told tcnt = (if tnow \<le> told then tcnt + (told - tnow) else tcnt + (load - tnow + told))"

text \<open>The number of the read at which the loop ends; \<open>None\<close> when it never does.\<close>

partial_function (option) delay_loop :: "u32 \<Rightarrow> (nat \<Rightarrow> u32) \<Rightarrow> u32 \<Rightarrow> nat \<Rightarrow> u32 \<Rightarrow> u32 \<Rightarrow> nat option" where
  "delay_loop load val ticks n told tcnt =
     (let tnow = val n; tcnt = systick_step load tnow told tcnt
      in if tcnt \<ge> ticks then Some n else delay_loop load val ticks (Suc n) tnow tcnt)"

definition delay_us :: "u32 \<Rightarrow> u32 \<Rightarrow> (nat \<Rightarrow> u32) \<Rightarrow> u16 \<Rightarrow> nat option" where
  "delay_us SystemCoreClock load val nus =
     (let us_clock = SystemCoreClock div 100000000; ticks = ucast nus * us_clock
      in delay_loop load val ticks 1 (val 0) 0)"

subsection \<open>A running timer\<close>

text \<open>
  \<open>T n\<close> is the time of the \<open>n\<close>-th read in cycles of the timer: it grows by at least \<open>lo\<close> and at most \<open>hi\<close> cycles from
  one read to the next, less than a period of the timer.
\<close>

definition systick_val :: "nat \<Rightarrow> (nat \<Rightarrow> nat) \<Rightarrow> nat \<Rightarrow> u32" where
  "systick_val load T n = of_nat (load - T n mod (load + 1))"

definition polls :: "nat \<Rightarrow> nat \<Rightarrow> (nat \<Rightarrow> nat) \<Rightarrow> bool" where
  "polls lo hi T \<longleftrightarrow> (\<forall>n. T n + lo \<le> T (Suc n) \<and> T (Suc n) \<le> T n + hi)"

lemma systick_elapsed:
  fixes t t' load :: nat
  assumes "t \<le> t'" "t' \<le> t + load"
  shows "let a = load - t mod (load + 1); b = load - t' mod (load + 1) in
     if b \<le> a then t' - t = a - b else t' - t = load - b + a + 1"
proof -
  define p where "p = load + 1"
  have same: "if load - y \<le> load - x then t' - t = load - x - (load - y) else t' - t = load - (load - y) + (load - x) + 1"
    if "t' - t = y - x" "x \<le> y" "x \<le> load" "y \<le> load" for x y
    using that by (auto simp: Let_def)
  have next_period: "if load - y \<le> load - x then t' - t = load - x - (load - y) else t' - t = load - (load - y) + (load - x) + 1"
    if "y < x" "x \<le> load" "y \<le> load" "t' + x = t + load + 1 + y" for x y
    using that by auto
  have m: "t mod p < p" "t' mod p < p" by (simp_all add: p_def)
  have e: "t = p * (t div p) + t mod p" "t' = p * (t' div p) + t' mod p" by simp_all
  have "t div p \<le> t' div p" "t' div p \<le> t div p + 1"
  proof -
    show "t div p \<le> t' div p" using assms(1) by (rule div_le_mono)
    have "t' div p \<le> (t + p) div p" using assms(2) by (intro div_le_mono) (simp add: p_def)
    also have "\<dots> = t div p + 1" by (rule div_add_self2) (simp add: p_def)
    finally show "t' div p \<le> t div p + 1" .
  qed
  then consider "t' div p = t div p" | "t' div p = t div p + 1" by linarith
  then show ?thesis
  proof cases
    case 1
    then have "t' - t = t' mod p - t mod p" "t mod p \<le> t' mod p" using e assms(1) by (metis add_diff_cancel_left, metis add_le_cancel_left)
    moreover have "t mod p \<le> load" "t' mod p \<le> load" using m by (simp_all add: p_def)
    ultimately show ?thesis unfolding p_def Let_def by (rule same)
  next
    case 2
    then have "t' = p * (t div p) + p + t' mod p" using e(2) by (metis add.assoc distrib_left mult.right_neutral)
    then have d: "t' + t mod p = t + p + t' mod p" using e(1) by linarith
    then have "t' mod p < t mod p" using assms(2) by (simp add: p_def)
    moreover have "t mod p \<le> load" "t' mod p \<le> load" "t' + t mod p = t + load + 1 + t' mod p"
      using m d by (simp_all add: p_def)
    ultimately show ?thesis unfolding p_def Let_def by (rule next_period)
  qed
qed

text \<open>A poll counts the cycles since the last one, one too few when the timer has started again.\<close>

lemma unat_systick_step:
  assumes "a \<le> load" "b \<le> load" "load < 2 ^ 24" "unat c \<le> 2 ^ 24"
  shows "unat (systick_step (of_nat load) (of_nat b) (of_nat a) c) = unat c + (if b \<le> a then a - b else load - b + a)"
proof -
  have u: "unat (of_nat a :: u32) = a" "unat (of_nat b :: u32) = b" "unat (of_nat load :: u32) = load"
    using assms(1-3) by (simp_all add: unat_of_nat_u32)
  have c: "(of_nat b :: u32) \<le> of_nat a \<longleftrightarrow> b \<le> a" by (simp only: word_le_nat_alt u)
  show ?thesis
  proof (cases "b \<le> a")
    case True
    have d: "unat ((of_nat a :: u32) - of_nat b) = a - b" by (subst unat_sub_u32) (use True in \<open>simp_all only: u\<close>)
    have "unat (c + ((of_nat a :: u32) - of_nat b)) = unat c + (a - b)"
      by (subst unat_add_u32; (subst d)?) (use assms in simp_all)
    then show ?thesis using True by (simp only: systick_step_def c if_True)
  next
    case False
    have d: "unat ((of_nat load :: u32) - of_nat b) = load - b" by (subst unat_sub_u32) (use assms in \<open>simp_all only: u\<close>)
    have f: "unat ((of_nat load :: u32) - of_nat b + of_nat a) = load - b + a"
      by (subst unat_add_u32; (subst d)?; (subst u)?) (use assms in simp_all)
    have "unat (c + ((of_nat load :: u32) - of_nat b + of_nat a)) = unat c + (load - b + a)"
      by (subst unat_add_u32; (subst f)?) (use assms in simp_all)
    then show ?thesis using False by (simp only: systick_step_def c if_False)
  qed
qed

lemma systick_step_elapsed:
  assumes "t + 2 \<le> t'" "t' \<le> t + load" "load < 2 ^ 24" "unat c \<le> 2 ^ 24"
  obtains d where "unat (systick_step (of_nat load) (of_nat (load - t' mod (load + 1))) (of_nat (load - t mod (load + 1))) c) = unat c + d"
    "d \<le> t' - t" "t' - t \<le> d + 1"
proof -
  let ?a = "load - t mod (load + 1)" and ?b = "load - t' mod (load + 1)"
  have "unat (systick_step (of_nat load) (of_nat ?b) (of_nat ?a) c) = unat c + (if ?b \<le> ?a then ?a - ?b else load - ?b + ?a)"
    by (rule unat_systick_step) (use assms in simp_all)
  moreover have "if ?b \<le> ?a then t' - t = ?a - ?b else t' - t = load - ?b + ?a + 1"
    using systick_elapsed [of t t' load] assms(1,2) unfolding Let_def by simp
  ultimately show thesis by (intro that) (auto split: if_splits)
qed

lemma delay_loop_returns:
  assumes "polls 2 hi T" "hi \<le> load" "load < 2 ^ 24" "unat ticks \<le> 2 ^ 24"
    and "unat c \<le> T n - T 0" "T n - T 0 \<le> 2 * unat c" "T 0 \<le> T n" "unat c \<le> unat ticks"
  shows "\<exists>m. delay_loop (of_nat load) (systick_val load T) ticks (Suc n) (systick_val load T n) c = Some m \<and>
     unat ticks \<le> T m - T 0 \<and> T m - T 0 \<le> 2 * unat ticks + hi"
  using assms(5-8)
proof (induction "unat ticks - unat c" arbitrary: n c rule: less_induct)
  case less
  have p: "T n + 2 \<le> T (Suc n)" "T (Suc n) \<le> T n + hi" using assms(1) by (simp_all add: polls_def)
  obtain d where d: "unat (systick_step (of_nat load) (systick_val load T (Suc n)) (systick_val load T n) c) = unat c + d"
    "d \<le> T (Suc n) - T n" "T (Suc n) - T n \<le> d + 1"
    using systick_step_elapsed [of "T n" "T (Suc n)" load c] p assms(2-4) less.prems(4) unfolding systick_val_def by force
  define c' where "c' = systick_step (of_nat load) (systick_val load T (Suc n)) (systick_val load T n) c"
  have c': "unat c' = unat c + d" by (simp add: c'_def d(1))
  show ?case
  proof (cases "c' \<ge> ticks")
    case True
    then have "unat ticks \<le> unat c + d" using c' by (simp add: word_le_nat_alt)
    then show ?thesis using True d p less.prems
      by (subst delay_loop.simps) (auto simp: Let_def c'_def [symmetric])
  next
    case False
    then have f: "unat c' < unat ticks" by (simp add: word_le_nat_alt)
    have "\<exists>m. delay_loop (of_nat load) (systick_val load T) ticks (Suc (Suc n)) (systick_val load T (Suc n)) c' = Some m \<and>
       unat ticks \<le> T m - T 0 \<and> T m - T 0 \<le> 2 * unat ticks + hi"
      by (rule less.hyps) (use f c' d p less.prems in linarith)+
    then show ?thesis using False by (subst delay_loop.simps) (simp add: Let_def c'_def [symmetric])
  qed
qed

lemma delay_us_effect:
  assumes "polls 2 hi T" "hi \<le> load" "load < 2 ^ 24" "unat (ucast nus * (clock div 100000000) :: u32) \<le> 2 ^ 24"
  shows "\<exists>m. delay_us clock (of_nat load) (systick_val load T) nus = Some m \<and>
     unat (ucast nus * (clock div 100000000) :: u32) \<le> T m - T 0 \<and>
     T m - T 0 \<le> 2 * unat (ucast nus * (clock div 100000000) :: u32) + hi"
  using delay_loop_returns [OF assms, of 0 0] by (simp add: delay_us_def)

text \<open>
  The delay ends: on a running timer whose reads are at least two and at most \<open>hi\<close> cycles apart, less than a period,
  the loop returns, never before the number of cycles it computed has passed, and at most twice that number and one
  read later.
\<close>

theorem delay_us_returns:
  assumes "polls 2 hi T" "hi \<le> load" "load < 2 ^ 24" "unat (ucast nus * (clock div 100000000) :: u32) \<le> 2 ^ 24"
  shows "\<exists>m. delay_us clock (of_nat load) (systick_val load T) nus = Some m \<and>
     unat (ucast nus * (clock div 100000000) :: u32) \<le> T m - T 0 \<and>
     T m - T 0 \<le> 2 * unat (ucast nus * (clock div 100000000) :: u32) + hi"
  using assms by (rule delay_us_effect)

theorem delay_us_returns_witness:
  "\<exists>m. delay_us 168000000 (of_nat 167999) (systick_val 167999 (\<lambda>n. 20 * n)) 150 = Some m \<and> 150 \<le> 20 * m"
  using delay_us_returns [of 20 "\<lambda>n. 20 * n" 167999 150 168000000] by (auto simp: polls_def)

text \<open>
  The delay is too short: at the clock of the board the divisor makes one microsecond one cycle instead of 168, so that
  with reads every 2 to 20 cycles a delay of \<open>nus\<close> microseconds ends after at most \<open>2 * nus + 20\<close> cycles, and always
  before the \<open>168 * nus\<close> cycles that \<open>nus\<close> microseconds take.
\<close>

theorem delay_us_too_short:
  assumes "polls 2 20 T" "0 < nus"
  shows "\<exists>m. delay_us 168000000 (of_nat 167999) (systick_val 167999 T) nus = Some m \<and> T m - T 0 \<le> 2 * unat nus + 20 \<and>
     T m - T 0 < 168 * unat nus"
proof -
  have u: "unat (ucast nus :: u32) = unat nus"
    by (simp add: unsigned_ucast_eq take_bit_nat_eq_self less_le_trans [OF unsigned_less])
  have n: "unat nus < 2 ^ 16" "0 < unat nus" using unsigned_less [of nus] assms(2) by (simp_all add: word_less_nat_alt)
  have "\<exists>m. delay_us 168000000 (of_nat 167999) (systick_val 167999 T) nus = Some m \<and>
     unat (ucast nus * (168000000 div 100000000) :: u32) \<le> T m - T 0 \<and>
     T m - T 0 \<le> 2 * unat (ucast nus * (168000000 div 100000000) :: u32) + 20"
    by (rule delay_us_effect [OF assms(1)]) (use n u in simp_all)
  then show ?thesis using n by (auto simp: u)
qed

theorem delay_us_too_short_witness:
  "\<exists>m. delay_us 168000000 (of_nat 167999) (systick_val 167999 (\<lambda>n. 20 * n)) 150 = Some m \<and> 20 * m \<le> 320"
  using delay_us_too_short [of "\<lambda>n. 20 * n" 150] by (auto simp: polls_def)

end
