(* ===== verification/Linked_List.thy ===== *)
theory Linked_List
  imports RM_Prelude "HOL-Library.Monad_Syntax"
begin

text \<open>
  Doubly linked lists, \<open>iot_doubly_linked_list.h\<close>: circular lists through a head, with the links inside the elements.  The
  state is the two pointer fields of every address.  \<open>dlist m h xs\<close> says that the head \<open>h\<close> and the links \<open>xs\<close> form such a
  list; every macro is shown to be the operation on \<open>xs\<close> it stands for, and to leave other lists alone.  The loops of the
  iteration macros are partial functions that are shown to end.
\<close>

record links =
  pxPrev :: "u32 \<Rightarrow> u32"
  pxNext :: "u32 \<Rightarrow> u32"

definition set_prev :: "u32 \<Rightarrow> u32 \<Rightarrow> links \<Rightarrow> links" where
  "set_prev p v m = m\<lparr>pxPrev := (pxPrev m)(p := v)\<rparr>"

definition set_next :: "u32 \<Rightarrow> u32 \<Rightarrow> links \<Rightarrow> links" where
  "set_next p v m = m\<lparr>pxNext := (pxNext m)(p := v)\<rparr>"

definition listINIT_HEAD :: "u32 \<Rightarrow> links \<Rightarrow> links" where
  "listINIT_HEAD pxHead m = set_next pxHead pxHead (set_prev pxHead pxHead m)"

definition listADD :: "u32 \<Rightarrow> u32 \<Rightarrow> links \<Rightarrow> links" where
  "listADD pxHead pxLink m =
     (let pxPrevLink = pxHead;
          pxNextLink = pxNext m pxHead;
          m = set_next pxLink pxNextLink m;
          m = set_prev pxNextLink pxLink m;
          m = set_next pxPrevLink pxLink m
      in set_prev pxLink pxPrevLink m)"

definition listREMOVE :: "u32 \<Rightarrow> links \<Rightarrow> links" where
  "listREMOVE pxLink m =
     (let m = (if pxNext m pxLink \<noteq> 0 \<and> pxPrev m pxLink \<noteq> 0
               then let m = set_next (pxPrev m pxLink) (pxNext m pxLink) m
                    in set_prev (pxNext m pxLink) (pxPrev m pxLink) m
               else m)
      in set_next pxLink 0 (set_prev pxLink 0 m))"

definition listIS_EMPTY :: "u32 \<Rightarrow> links \<Rightarrow> bool" where
  "listIS_EMPTY pxHead m \<longleftrightarrow> pxHead = 0 \<or> pxNext m pxHead = pxHead"

text \<open>The link that is taken out (0 for none) and the state.\<close>

definition listPOP :: "u32 \<Rightarrow> links \<Rightarrow> u32 \<times> links" where
  "listPOP pxHead m =
     (if listIS_EMPTY pxHead m then (0, m)
      else
        let pxLink = pxNext m pxHead;
            m = (if pxNext m pxLink \<noteq> 0 \<and> pxPrev m pxLink \<noteq> 0
                 then let m = set_next (pxPrev m pxLink) (pxNext m pxLink) m
                      in set_prev (pxNext m pxLink) (pxPrev m pxLink) m
                 else m)
        in (pxLink, set_next pxLink 0 (set_prev pxLink 0 m)))"

definition listMERGE :: "u32 \<Rightarrow> u32 \<Rightarrow> links \<Rightarrow> links" where
  "listMERGE pxHeadResultList pxHeadListToMerge m =
     (if \<not> listIS_EMPTY pxHeadListToMerge m then
        let m = set_next (pxPrev m pxHeadListToMerge) (pxNext m pxHeadResultList) m;
            m = set_prev (pxNext m pxHeadResultList) (pxPrev m pxHeadListToMerge) m;
            m = set_prev (pxNext m pxHeadListToMerge) pxHeadResultList m;
            m = set_next pxHeadResultList (pxNext m pxHeadListToMerge) m
        in listINIT_HEAD pxHeadListToMerge m
      else m)"

text \<open>
  The iteration macros with their bodies: a search that leaves the loop at the first link with the property (\<open>Some None\<close>
  when there is none), and a loop whose body may change the list.
\<close>

partial_function (option) find_loop :: "(u32 \<Rightarrow> bool) \<Rightarrow> u32 \<Rightarrow> links \<Rightarrow> u32 \<Rightarrow> u32 option option" where
  "find_loop P pxHead m pxLink =
     (if pxLink = pxHead then Some None
      else if P pxLink then Some (Some pxLink)
      else find_loop P pxHead m (pxNext m pxLink))"

definition listFOR_EACH :: "(u32 \<Rightarrow> bool) \<Rightarrow> u32 \<Rightarrow> links \<Rightarrow> u32 option option" where
  "listFOR_EACH P pxHead m = find_loop P pxHead m (pxNext m pxHead)"

partial_function (option) safe_loop :: "(u32 \<Rightarrow> links \<Rightarrow> links) \<Rightarrow> u32 \<Rightarrow> u32 \<Rightarrow> u32 \<Rightarrow> links \<Rightarrow> links option" where
  "safe_loop body pxHead pxLink pxTempLink m =
     (if pxLink = pxHead then Some m
      else let m = body pxLink m
           in safe_loop body pxHead pxTempLink (pxNext m pxTempLink) m)"

definition listFOR_EACH_SAFE :: "(u32 \<Rightarrow> links \<Rightarrow> links) \<Rightarrow> u32 \<Rightarrow> links \<Rightarrow> links option" where
  "listFOR_EACH_SAFE body pxHead m = safe_loop body pxHead (pxNext m pxHead) (pxNext m (pxNext m pxHead)) m"

definition listCONTAINER :: "u32 \<Rightarrow> u32 \<Rightarrow> u32" where
  "listCONTAINER offset_of_member pxLink = pxLink - offset_of_member"

lemma links_sel [simp]:
  "pxNext (set_next p v m) = (pxNext m)(p := v)" "pxPrev (set_next p v m) = pxPrev m"
  "pxPrev (set_prev p v m) = (pxPrev m)(p := v)" "pxNext (set_prev p v m) = pxNext m"
  by (simp_all add: set_next_def set_prev_def)

subsection \<open>Chains\<close>

text \<open>From \<open>a\<close> through \<open>xs\<close> to \<open>b\<close>, linked both ways.\<close>

fun chain :: "links \<Rightarrow> u32 \<Rightarrow> u32 list \<Rightarrow> u32 \<Rightarrow> bool" where
  "chain m a [] b \<longleftrightarrow> pxNext m a = b \<and> pxPrev m b = a"
| "chain m a (x # xs) b \<longleftrightarrow> pxNext m a = x \<and> pxPrev m x = a \<and> chain m x xs b"

definition dlist :: "links \<Rightarrow> u32 \<Rightarrow> u32 list \<Rightarrow> bool" where
  "dlist m h xs \<longleftrightarrow> chain m h xs h \<and> distinct (h # xs) \<and> 0 \<notin> set (h # xs)"

lemma ends_in: "last (a # ys) \<in> set (a # ys)" "hd (zs @ [b]) \<in> set (b # zs)"
  by (rule last_in_set, simp) (cases zs, auto)

lemma chain_append: "chain m a (xs @ x # ys) b \<longleftrightarrow> chain m a xs x \<and> chain m x ys b"
  by (induction xs arbitrary: a) auto

lemma chain_cong:
  "(\<And>x. x \<in> set (a # xs) \<Longrightarrow> pxNext m' x = pxNext m x) \<Longrightarrow> (\<And>x. x \<in> set (b # xs) \<Longrightarrow> pxPrev m' x = pxPrev m x) \<Longrightarrow>
   chain m' a xs b = chain m a xs b"
  by (induction xs arbitrary: a) auto

lemma chain_ends:
  assumes "chain m a xs b"
  shows "pxNext m a = hd (xs @ [b])" "pxPrev m b = last (a # xs)"
  using assms by (induction xs arbitrary: a) auto

text \<open>Leading a chain to another end.\<close>

lemma chain_retarget:
  "chain m a ys l \<Longrightarrow> distinct (a # ys) \<Longrightarrow> pxNext m' (last (a # ys)) = q \<Longrightarrow> pxPrev m' q = last (a # ys) \<Longrightarrow>
   (\<And>x. x \<in> set (a # ys) \<Longrightarrow> x \<noteq> last (a # ys) \<Longrightarrow> pxNext m' x = pxNext m x) \<Longrightarrow>
   (\<And>x. x \<in> set ys \<Longrightarrow> pxPrev m' x = pxPrev m x) \<Longrightarrow> chain m' a ys q"
proof (induction ys arbitrary: a)
  case (Cons y ys)
  have "chain m' y ys q" using Cons.prems by (intro Cons.IH) auto
  moreover have "a \<noteq> last (y # ys)" using Cons.prems(2) by (metis distinct.simps(2) last_in_set list.distinct(1))
  ultimately show ?case using Cons.prems(1) Cons.prems(5) [of a] Cons.prems(6) [of y] by simp
qed simp

lemma chain_glue:
  assumes c: "chain m a ys l" "chain m l zs b" and d: "distinct (a # ys @ l # zs)" "b \<notin> set (ys @ l # zs)"
    and n: "\<And>x. x \<noteq> l \<Longrightarrow> pxNext m' x = (if x = last (a # ys) then hd (zs @ [b]) else pxNext m x)"
    and p: "\<And>x. x \<noteq> l \<Longrightarrow> pxPrev m' x = (if x = hd (zs @ [b]) then last (a # ys) else pxPrev m x)"
  shows "chain m' a (ys @ zs) b"
proof -
  note l = ends_in(1) [of a ys] ends_in(2) [of zs b]
  then have l': "last (a # ys) \<noteq> l" "hd (zs @ [b]) \<noteq> l" "hd (zs @ [b]) \<notin> set ys" "last (a # ys) \<notin> set zs" using d by fastforce+
  have r: "chain m' a ys (hd (zs @ [b]))"
  proof (rule chain_retarget [OF c(1)])
    show "distinct (a # ys)" using d(1) by simp
    show "pxNext m' (last (a # ys)) = hd (zs @ [b])" using n [OF l'(1)] by simp
    show "pxPrev m' (hd (zs @ [b])) = last (a # ys)" using p [OF l'(2)] by simp
  next
    fix x
    assume x: "x \<in> set (a # ys)" "x \<noteq> last (a # ys)"
    then have "x \<noteq> l" using d(1) by auto
    then show "pxNext m' x = pxNext m x" using n x(2) by simp
  next
    fix x
    assume x: "x \<in> set ys"
    then have "x \<noteq> l" "x \<noteq> hd (zs @ [b])" using d(1) l'(3) by auto
    then show "pxPrev m' x = pxPrev m x" using p by simp
  qed
  show ?thesis
  proof (cases zs)
    case Nil
    then show ?thesis using r by simp
  next
    case (Cons z zs')
    have "chain m' z zs' b = chain m z zs' b"
    proof (rule chain_cong)
      fix x
      assume "x \<in> set (z # zs')"
      then show "pxNext m' x = pxNext m x" using d l' Cons by (subst n) auto
    next
      fix x
      assume "x \<in> set (b # zs')"
      then show "pxPrev m' x = pxPrev m x" using d l' Cons by (subst p) auto
    qed
    then show ?thesis using r c(2) Cons by (simp add: chain_append)
  qed
qed

subsection \<open>The operations\<close>

text \<open>Two states that agree outside a set of links.\<close>

definition same_outside :: "u32 set \<Rightarrow> links \<Rightarrow> links \<Rightarrow> bool" where
  "same_outside S m m' \<longleftrightarrow> (\<forall>x. x \<notin> S \<longrightarrow> pxNext m' x = pxNext m x \<and> pxPrev m' x = pxPrev m x)"

lemma dlist_frame: "dlist m h xs \<Longrightarrow> same_outside S m m' \<Longrightarrow> S \<inter> set (h # xs) = {} \<Longrightarrow> dlist m' h xs"
  unfolding dlist_def by (subst chain_cong [of h xs m' m h]) (auto simp: same_outside_def)

lemma listINIT_HEAD_effect:
  "h \<noteq> 0 \<Longrightarrow> dlist (listINIT_HEAD h m) h [] \<and> same_outside {h} m (listINIT_HEAD h m)"
  by (simp add: dlist_def listINIT_HEAD_def same_outside_def)

lemma listADD_effect:
  assumes "dlist m h xs" "l \<notin> set (h # xs)" "l \<noteq> 0"
  shows "dlist (listADD h l m) h (l # xs)" "same_outside (set (h # l # xs)) m (listADD h l m)"
proof -
  have n: "pxNext m h = hd (xs @ [h])" using assms(1) chain_ends(1) by (auto simp: dlist_def)
  show "same_outside (set (h # l # xs)) m (listADD h l m)"
    using n by (cases xs) (auto simp: same_outside_def listADD_def)
  show "dlist (listADD h l m) h (l # xs)"
  proof (cases xs)
    case Nil
    then show ?thesis using assms n by (auto simp: dlist_def listADD_def)
  next
    case (Cons x xs')
    have "chain (listADD h l m) x xs' h = chain m x xs' h"
      using assms n Cons by (intro chain_cong) (auto simp: dlist_def listADD_def)
    then show ?thesis using assms n Cons by (auto simp: dlist_def listADD_def)
  qed
qed

lemma dlist_links:
  assumes "dlist m h (ys @ l # zs)"
  shows "pxNext m l = hd (zs @ [h])" "pxPrev m l = last (h # ys)" "pxNext m l \<noteq> 0" "pxPrev m l \<noteq> 0"
proof -
  show e: "pxNext m l = hd (zs @ [h])" "pxPrev m l = last (h # ys)"
    using assms chain_ends by (auto simp: dlist_def chain_append)
  have "0 \<notin> set (h # ys)" "0 \<notin> set (h # zs)" using assms by (auto simp: dlist_def)
  then show "pxNext m l \<noteq> 0" "pxPrev m l \<noteq> 0" unfolding e using ends_in by metis+
qed

lemma listREMOVE_effect:
  assumes "dlist m h (ys @ l # zs)"
  shows "dlist (listREMOVE l m) h (ys @ zs)" "same_outside (set (h # ys @ l # zs)) m (listREMOVE l m)"
    "pxNext (listREMOVE l m) l = 0" "pxPrev (listREMOVE l m) l = 0"
proof -
  note k = dlist_links [OF assms]
  note l = ends_in(1) [of h ys] ends_in(2) [of zs h]
  have d: "distinct (h # ys @ l # zs)" "h \<notin> set (ys @ l # zs)" using assms by (auto simp: dlist_def)
  have ne: "last (h # ys) \<noteq> l" using l d by auto
  have e: "listREMOVE l m = set_next l 0 (set_prev l 0 (set_prev (hd (zs @ [h])) (last (h # ys))
      (set_next (last (h # ys)) (hd (zs @ [h])) m)))"
    using k ne by (simp add: listREMOVE_def Let_def)
  show "pxNext (listREMOVE l m) l = 0" "pxPrev (listREMOVE l m) l = 0" by (simp_all add: e)
  show "same_outside (set (h # ys @ l # zs)) m (listREMOVE l m)"
    using l by (auto simp: e same_outside_def)
  have "chain (listREMOVE l m) h (ys @ zs) h"
    by (rule chain_glue [where l = l and m = m]) (use assms d in \<open>auto simp: dlist_def chain_append e\<close>)
  then show "dlist (listREMOVE l m) h (ys @ zs)" using assms by (auto simp: dlist_def)
qed

lemma listIS_EMPTY_iff: "dlist m h xs \<Longrightarrow> listIS_EMPTY h m \<longleftrightarrow> xs = []"
  using chain_ends(1) [of m h xs h] by (cases xs) (auto simp: dlist_def listIS_EMPTY_def)

lemma listPOP_remove: "\<not> listIS_EMPTY h m \<Longrightarrow> listPOP h m = (pxNext m h, listREMOVE (pxNext m h) m)"
  by (simp add: listPOP_def listREMOVE_def Let_def)

lemma listPOP_effect:
  assumes "dlist m h (x # xs)"
  shows "listPOP h m = (x, listREMOVE x m)" "dlist (listREMOVE x m) h xs" "same_outside (set (h # x # xs)) m (listREMOVE x m)"
proof -
  have "pxNext m h = x" using assms by (simp add: dlist_def)
  then show "listPOP h m = (x, listREMOVE x m)" using assms by (simp add: listPOP_remove listIS_EMPTY_iff)
  show "dlist (listREMOVE x m) h xs" "same_outside (set (h # x # xs)) m (listREMOVE x m)"
    using listREMOVE_effect(1,2) [of m h "[]" x xs] assms by simp_all
qed

lemma listMERGE_splice:
  assumes "dlist m h xs" "dlist m g (y # ys)" "set (h # xs) \<inter> set (g # y # ys) = {}"
    and n: "pxNext m' = (pxNext m)(last (y # ys) := hd (xs @ [h]), h := y, g := g)"
    and p: "pxPrev m' = (pxPrev m)(hd (xs @ [h]) := last (y # ys), y := h, g := g)"
  shows "dlist m' h ((y # ys) @ xs)"
proof -
  note l = ends_in(2) [of xs h] ends_in(1) [of y ys]
  have d: "y \<notin> set (g # h # ys @ xs)" "g \<notin> set (h # ys @ xs)" "h \<notin> set (ys @ xs)" "distinct ys" "distinct xs" "set xs \<inter> set ys = {}"
    using assms(1-3) by (auto simp: dlist_def)
  have nq: "hd (xs @ [h]) \<notin> {g, y}" "hd (xs @ [h]) \<notin> set ys" "last (y # ys) \<notin> {g, h}" "last (y # ys) \<notin> set xs" using l d by auto
  have c: "chain m' y ys (hd (xs @ [h]))"
  proof (rule chain_retarget [where m = m and l = g])
    show "chain m y ys g" using assms(2) by (simp add: dlist_def)
  qed (use d nq in \<open>auto simp: n p\<close>)
  have "chain m' h ((y # ys) @ xs) h"
  proof (cases xs)
    case Nil
    then show ?thesis using c d by (auto simp: n p)
  next
    case (Cons x xs')
    have "chain m' x xs' h = chain m x xs' h"
      by (rule chain_cong) (use d nq assms(3) Cons in \<open>auto simp: n p\<close>)
    then show ?thesis using c d Cons assms(1) by (auto simp: chain_append n p dlist_def)
  qed
  then show ?thesis using assms(1-3) by (auto simp: dlist_def)
qed

lemma listMERGE_run:
  assumes "dlist m h xs" "dlist m g (y # ys)" "set (h # xs) \<inter> set (g # y # ys) = {}"
  shows "pxNext (listMERGE h g m) = (pxNext m)(last (y # ys) := hd (xs @ [h]), h := y, g := g)"
    "pxPrev (listMERGE h g m) = (pxPrev m)(hd (xs @ [h]) := last (y # ys), y := h, g := g)"
proof -
  note l = ends_in(2) [of xs h] ends_in(1) [of y ys]
  have nq: "hd (xs @ [h]) \<noteq> g" "last (y # ys) \<noteq> g" "last (y # ys) \<noteq> h" "g \<noteq> h" using l assms by (auto simp: dlist_def)
  have c: "pxNext m h = hd (xs @ [h])" "pxNext m g = y" "pxPrev m g = last (y # ys)"
    using chain_ends [of m h xs h] chain_ends [of m g "y # ys" g] assms(1,2) by (auto simp: dlist_def)
  show "pxNext (listMERGE h g m) = (pxNext m)(last (y # ys) := hd (xs @ [h]), h := y, g := g)"
    "pxPrev (listMERGE h g m) = (pxPrev m)(hd (xs @ [h]) := last (y # ys), y := h, g := g)"
    using nq by (simp_all add: listMERGE_def listIS_EMPTY_iff [OF assms(2)] Let_def listINIT_HEAD_def c del: last.simps)
qed

lemma listMERGE_effect:
  assumes "dlist m h xs" "dlist m g ys" "set (h # xs) \<inter> set (g # ys) = {}"
  shows "dlist (listMERGE h g m) h (ys @ xs)" "dlist (listMERGE h g m) g []"
    "same_outside (set (h # xs) \<union> set (g # ys)) m (listMERGE h g m)"
proof -
  have "dlist (listMERGE h g m) h (ys @ xs) \<and> dlist (listMERGE h g m) g [] \<and>
    same_outside (set (h # xs) \<union> set (g # ys)) m (listMERGE h g m)"
  proof (cases ys)
    case Nil
    then show ?thesis using assms by (simp add: listMERGE_def listIS_EMPTY_iff same_outside_def)
  next
    case (Cons y ys')
    note r = listMERGE_run [OF assms(1) assms(2,3) [unfolded Cons]]
    note l = ends_in(2) [of xs h] ends_in(1) [of y ys']
    have "dlist (listMERGE h g m) h (ys @ xs)"
      using listMERGE_splice [OF assms(1) assms(2,3) [unfolded Cons] r] by (simp add: Cons)
    moreover have "dlist (listMERGE h g m) g []" using assms(2) by (simp add: dlist_def r)
    moreover have "same_outside (set (h # xs) \<union> set (g # ys)) m (listMERGE h g m)"
      using l by (auto simp: same_outside_def r Cons)
    ultimately show ?thesis by blast
  qed
  then show "dlist (listMERGE h g m) h (ys @ xs)" "dlist (listMERGE h g m) g []"
    "same_outside (set (h # xs) \<union> set (g # ys)) m (listMERGE h g m)" by blast+
qed

subsection \<open>The loops\<close>

lemma find_loop_chain:
  "chain m a xs h \<Longrightarrow> h \<notin> set xs \<Longrightarrow> find_loop P h m (hd (xs @ [h])) = Some (find P xs)"
proof (induction xs arbitrary: a)
  case Nil
  then show ?case by (subst find_loop.simps) simp
next
  case (Cons x xs)
  then have "pxNext m x = hd (xs @ [h])" using chain_ends(1) by auto
  then show ?case using Cons by (subst find_loop.simps) auto
qed

lemma listFOR_EACH_finds: "dlist m h xs \<Longrightarrow> listFOR_EACH P h m = Some (find P xs)"
  using find_loop_chain [of m h xs h P] chain_ends(1) [of m h xs h] by (simp add: dlist_def listFOR_EACH_def)

lemma safe_loop_removes:
  "dlist m h (ys @ zs) \<Longrightarrow>
   \<exists>m'. safe_loop (\<lambda>l m. if P l then listREMOVE l m else m) h (hd (zs @ [h])) (hd (tl (zs @ [h]) @ [pxNext m h])) m = Some m' \<and>
        dlist m' h (ys @ filter (\<lambda>l. \<not> P l) zs)"
proof (induction zs arbitrary: ys m)
  case Nil
  then show ?case by (subst safe_loop.simps) simp
next
  case (Cons z zs)
  let ?m = "if P z then listREMOVE z m else m" and ?ys = "if P z then ys else ys @ [z]"
  have z: "z \<noteq> h" using Cons.prems by (auto simp: dlist_def)
  have d: "dlist ?m h (?ys @ zs)" using listREMOVE_effect(1) [OF Cons.prems] Cons.prems by simp
  have n: "pxNext ?m (hd (zs @ [h])) = hd (tl (zs @ [h]) @ [pxNext ?m h])"
  proof (cases zs)
    case (Cons w ws)
    then show ?thesis using dlist_links(1) [of ?m h ?ys w ws] d by (cases ws) auto
  qed simp
  obtain m' where "safe_loop (\<lambda>l m. if P l then listREMOVE l m else m) h (hd (zs @ [h])) (hd (tl (zs @ [h]) @ [pxNext ?m h])) ?m = Some m'"
    "dlist m' h (?ys @ filter (\<lambda>l. \<not> P l) zs)"
    using Cons.IH [OF d] by blast
  then show ?case using z n by (subst safe_loop.simps) (auto simp: Let_def hd_append split: if_splits)
qed

lemma listFOR_EACH_SAFE_removes:
  assumes "dlist m h xs"
  shows "\<exists>m'. listFOR_EACH_SAFE (\<lambda>l m. if P l then listREMOVE l m else m) h m = Some m' \<and> dlist m' h (filter (\<lambda>l. \<not> P l) xs)"
proof -
  have "pxNext m (hd (xs @ [h])) = hd (tl (xs @ [h]) @ [pxNext m h])"
  proof (cases xs)
    case (Cons x xs')
    then show ?thesis using dlist_links(1) [of m h "[]" x xs'] assms by (cases xs') auto
  qed simp
  then show ?thesis
    using safe_loop_removes [of m h "[]" xs P] assms chain_ends(1) [of m h xs h] by (simp add: dlist_def listFOR_EACH_SAFE_def)
qed

subsection \<open>Programs over several lists\<close>

text \<open>What the macros stand for: every head has a list of links, and a link is in one list at most.  \<open>None\<close> is a call outside the documented use.\<close>

datatype list_cmd = Init u32 | Add u32 u32 | Remove u32 | Pop u32 | Merge u32 u32

type_synonym lists = "u32 \<rightharpoonup> u32 list"

definition nodes :: "lists \<Rightarrow> u32 set" where
  "nodes A = {x. \<exists>h xs. A h = Some xs \<and> x \<in> set (h # xs)}"

inductive list_spec :: "lists \<Rightarrow> list_cmd \<Rightarrow> u32 \<Rightarrow> lists \<Rightarrow> bool" where
  Init: "h \<noteq> 0 \<Longrightarrow> h \<notin> nodes A \<Longrightarrow> list_spec A (Init h) 0 (A(h \<mapsto> []))"
| Add: "A h = Some xs \<Longrightarrow> l \<noteq> 0 \<Longrightarrow> l \<notin> nodes A \<Longrightarrow> list_spec A (Add h l) 0 (A(h \<mapsto> l # xs))"
| Remove: "A h = Some (ys @ l # zs) \<Longrightarrow> list_spec A (Remove l) 0 (A(h \<mapsto> ys @ zs))"
| PopEmpty: "A h = Some [] \<Longrightarrow> list_spec A (Pop h) 0 A"
| Pop: "A h = Some (x # xs) \<Longrightarrow> list_spec A (Pop h) x (A(h \<mapsto> xs))"
| Merge: "A h = Some xs \<Longrightarrow> A g = Some ys \<Longrightarrow> h \<noteq> g \<Longrightarrow> list_spec A (Merge h g) 0 (A(h \<mapsto> ys @ xs, g \<mapsto> []))"

inductive list_specs :: "lists \<Rightarrow> list_cmd list \<Rightarrow> u32 list \<Rightarrow> lists \<Rightarrow> bool" where
  Nil: "list_specs A [] [] A"
| Cons: "list_spec A c r B \<Longrightarrow> list_specs B cs rs C \<Longrightarrow> list_specs A (c # cs) (r # rs) C"

fun list_exec :: "list_cmd \<Rightarrow> links \<Rightarrow> u32 \<times> links" where
  "list_exec (Init h) m = (0, listINIT_HEAD h m)"
| "list_exec (Add h l) m = (0, listADD h l m)"
| "list_exec (Remove l) m = (0, listREMOVE l m)"
| "list_exec (Pop h) m = listPOP h m"
| "list_exec (Merge h g) m = (0, listMERGE h g m)"

fun list_execs :: "list_cmd list \<Rightarrow> links \<Rightarrow> u32 list \<times> links" where
  "list_execs [] m = ([], m)"
| "list_execs (c # cs) m = (case list_exec c m of (r, m) \<Rightarrow> case list_execs cs m of (rs, m) \<Rightarrow> (r # rs, m))"

definition rep :: "links \<Rightarrow> lists \<Rightarrow> bool" where
  "rep m A \<longleftrightarrow> (\<forall>h xs. A h = Some xs \<longrightarrow> dlist m h xs) \<and>
     (\<forall>h xs g ys. A h = Some xs \<longrightarrow> A g = Some ys \<longrightarrow> h \<noteq> g \<longrightarrow> set (h # xs) \<inter> set (g # ys) = {})"

lemma repD: "rep m A \<Longrightarrow> A h = Some xs \<Longrightarrow> dlist m h xs"
  by (simp add: rep_def)

lemma rep_upd:
  assumes "rep m A" "dlist m' h xs" "same_outside S m m'"
    and "\<And>k ys. k \<noteq> h \<Longrightarrow> A k = Some ys \<Longrightarrow> (S \<union> set (h # xs)) \<inter> set (k # ys) = {}"
  shows "rep m' (A(h \<mapsto> xs))"
proof -
  have "dlist m' k ys" if "k \<noteq> h" "A k = Some ys" for k ys
    by (rule dlist_frame [OF repD [OF assms(1) that(2)] assms(3)]) (use assms(4) [OF that] in blast)
  then show ?thesis using assms(1,2,4) unfolding rep_def by (auto split: if_splits) blast+
qed

lemma rep_disjoint: "rep m A \<Longrightarrow> A h = Some xs \<Longrightarrow> k \<noteq> h \<Longrightarrow> A k = Some ys \<Longrightarrow> set (h # xs) \<inter> set (k # ys) = {}"
  unfolding rep_def by blast

lemma fresh_node: "l \<notin> nodes A \<Longrightarrow> A k = Some ys \<Longrightarrow> l \<notin> set (k # ys)"
  unfolding nodes_def by blast

lemma rep_Remove:
  assumes "rep m A" "A h = Some (ys @ l # zs)"
  shows "rep (listREMOVE l m) (A(h \<mapsto> ys @ zs))"
proof -
  note e = listREMOVE_effect [OF repD [OF assms]]
  show ?thesis by (rule rep_upd [OF assms(1) e(1,2)]) (use rep_disjoint [OF assms] in fastforce)
qed

lemma rep_Merge:
  assumes "rep m A" "A h = Some xs" "A g = Some ys" "h \<noteq> g"
  shows "rep (listMERGE h g m) (A(h \<mapsto> ys @ xs, g \<mapsto> []))"
proof -
  have d: "set (h # xs) \<inter> set (g # ys) = {}" using rep_disjoint [OF assms(1,2) _ assms(3)] assms(4) by blast
  note e = listMERGE_effect [OF repD [OF assms(1,2)] repD [OF assms(1,3)] d]
  have k: "(set (h # xs) \<union> set (g # ys)) \<inter> set (k # ws) = {}" if "A k = Some ws" "k \<noteq> h" "k \<noteq> g" for k ws
    using rep_disjoint [OF assms(1,2) that(2,1)] rep_disjoint [OF assms(1,3) that(3,1)] by blast
  have o: "dlist (listMERGE h g m) k ws" if "A k = Some ws" "k \<noteq> h" "k \<noteq> g" for k ws
    by (rule dlist_frame [OF repD [OF assms(1) that(1)] e(3) k [OF that]])
  have g: "g \<notin> set (h # xs)" "g \<notin> set ys" using d repD [OF assms(1,3)] by (auto simp: dlist_def)
  show ?thesis
    unfolding rep_def
  proof (intro conjI allI impI)
    fix k ws
    assume "(A(h \<mapsto> ys @ xs, g \<mapsto> [])) k = Some ws"
    then show "dlist (listMERGE h g m) k ws" using o e(1,2) assms(4) by (auto split: if_splits)
  next
    fix k ws k' ws'
    assume w: "(A(h \<mapsto> ys @ xs, g \<mapsto> [])) k = Some ws" "(A(h \<mapsto> ys @ xs, g \<mapsto> [])) k' = Some ws'" "k \<noteq> k'"
    have n: "set (k # ws) \<inter> set (j # us) = {}" if "(A(h \<mapsto> ys @ xs, g \<mapsto> [])) j = Some us" "j \<noteq> h" "j \<noteq> g" "k \<noteq> j" for j us
      using that w(1) k [of j us] rep_disjoint [OF assms(1), of k ws j us] assms(2-4) by (auto split: if_splits)
    show "set (k # ws) \<inter> set (k' # ws') = {}"
    proof (cases "k' = h \<or> k' = g")
      case False
      then show ?thesis using n w by blast
    next
      case True
      then show ?thesis using w g k [of k ws] assms(4) by (auto split: if_splits)
    qed
  qed
qed

lemma rep_step:
  assumes "list_spec A c r B" "rep m A"
  shows "fst (list_exec c m) = r \<and> rep (snd (list_exec c m)) B"
  using assms
proof induction
  case (Init h A)
  have "rep (listINIT_HEAD h m) (A(h \<mapsto> []))"
    by (rule rep_upd [OF Init(3)]) (use listINIT_HEAD_effect [OF Init(1)] fresh_node [OF Init(2)] in auto)
  then show ?case by (simp del: fun_upd_apply)
next
  case (Add A h xs l)
  have l: "l \<notin> set (h # xs)" using fresh_node [OF Add(3,1)] .
  note e = listADD_effect [OF repD [OF Add(4,1)] l Add(2)]
  have "rep (listADD h l m) (A(h \<mapsto> l # xs))"
    by (rule rep_upd [OF Add(4) e]) (use rep_disjoint [OF Add(4,1)] fresh_node [OF Add(3)] in fastforce)
  then show ?case by (simp del: fun_upd_apply)
next
  case (Remove A h ys l zs)
  then show ?case using rep_Remove [OF Remove(2,1)] by (simp del: fun_upd_apply)
next
  case (PopEmpty A h)
  then show ?case using listIS_EMPTY_iff [OF repD] by (simp add: listPOP_def)
next
  case (Pop A h x xs)
  then show ?case using listPOP_effect(1) [OF repD [OF Pop(2,1)]] rep_Remove [of m A h "[]" x xs] by (simp del: fun_upd_apply)
next
  case (Merge A h xs g ys)
  then show ?case using rep_Merge [OF Merge(4,1,2,3)] by (simp del: fun_upd_apply)
qed



text \<open>C37.
  The iteration macros end and see every link: a search returns the first link of the list with the property, or none, and
  the safe form visits all links also when its body removes the link it is at.
\<close>

theorem list_loops:
  assumes "dlist m h xs"
  shows "listFOR_EACH P h m = Some (find P xs) \<and>
    (\<exists>m'. listFOR_EACH_SAFE (\<lambda>l m. if P l then listREMOVE l m else m) h m = Some m' \<and> dlist m' h (filter (\<lambda>l. \<not> P l) xs))"
  using listFOR_EACH_finds [OF assms] listFOR_EACH_SAFE_removes [OF assms] by simp

theorem list_loops_witness:
  "let m = listADD 4 30 (listADD 4 20 (listINIT_HEAD 4 \<lparr>pxPrev = \<lambda>_. 0, pxNext = \<lambda>_. 0\<rparr>))
   in dlist m 4 [30, 20] \<and> listFOR_EACH (\<lambda>l. l < 25) 4 m = Some (Some 20)"
proof -
  have "dlist (listADD 4 30 (listADD 4 20 (listINIT_HEAD 4 \<lparr>pxPrev = \<lambda>_. 0, pxNext = \<lambda>_. 0\<rparr>))) 4 [30, 20]"
    by (simp add: dlist_def listADD_def listINIT_HEAD_def Let_def)
  then show ?thesis using list_loops [of _ 4 "[30, 20]" "\<lambda>l. l < 25"] by (simp add: Let_def)
qed

subsection \<open>The interface to clients\<close>

text \<open>What a client of the list relies on when it keeps its elements, found at the addresses \<open>addr\<close>, in one list.\<close>

locale intrusive_list =
  fixes lst :: "'m \<Rightarrow> u32 \<Rightarrow> u32 list \<Rightarrow> bool"
    and add :: "u32 \<Rightarrow> u32 \<Rightarrow> 'm \<Rightarrow> 'm"
    and remove :: "u32 \<Rightarrow> 'm \<Rightarrow> 'm"
    and search :: "(u32 \<Rightarrow> bool) \<Rightarrow> u32 \<Rightarrow> 'm \<Rightarrow> u32 option option"
  assumes lst_add: "lst m h xs \<Longrightarrow> l \<notin> set (h # xs) \<Longrightarrow> l \<noteq> 0 \<Longrightarrow> lst (add h l m) h (l # xs)"
    and lst_remove: "lst m h xs \<Longrightarrow> l \<in> set xs \<Longrightarrow> lst (remove l m) h (remove1 l xs)"
    and lst_search: "lst m h xs \<Longrightarrow> search P h m = Some (find P xs)"
    and lst_distinct: "lst m h xs \<Longrightarrow> distinct xs"
begin

lemma elements_search:
  assumes "lst m h (map addr es)"
  shows "search P h m = Some (map_option addr (find (\<lambda>e. P (addr e)) es))"
proof -
  have "find P (map addr es) = map_option addr (find (\<lambda>e. P (addr e)) es)" by (induction es) auto
  then show ?thesis using lst_search [OF assms] by simp
qed

lemma elements_remove:
  assumes "lst m h (map addr es)" "e \<in> set es"
  shows "lst (remove (addr e) m) h (map addr (filter (\<lambda>x. addr x \<noteq> addr e) es))"
proof -
  have "remove1 (addr e) (map addr es) = map addr (filter (\<lambda>x. addr x \<noteq> addr e) es)"
    using lst_distinct [OF assms(1)] by (simp add: distinct_remove1_removeAll removeAll_filter_not_eq filter_map comp_def eq_commute)
  then show ?thesis using lst_remove [OF assms(1), of "addr e"] assms(2) by simp
qed

end

interpretation dll: intrusive_list dlist listADD listREMOVE listFOR_EACH
proof
  show "dlist (listADD h l m) h (l # xs)" if "dlist m h xs" "l \<notin> set (h # xs)" "l \<noteq> 0" for m h xs l
    by (rule listADD_effect(1) [OF that])
  show "dlist (listREMOVE l m) h (remove1 l xs)" if d: "dlist m h xs" and l: "l \<in> set xs" for m h xs l
  proof -
    obtain ys zs where x: "xs = ys @ l # zs" using l by (meson split_list)
    then have "remove1 l xs = ys @ zs" using d by (auto simp: dlist_def remove1_append)
    then show ?thesis using listREMOVE_effect(1) d x by simp
  qed
  show "listFOR_EACH P h m = Some (find P xs)" if "dlist m h xs" for m h xs P by (rule listFOR_EACH_finds [OF that])
  show "distinct xs" if "dlist m h xs" for m h xs using that by (simp add: dlist_def)
qed

end
