(* ===== verification/Posix_Mqueue_Links.thy ===== *)
theory Posix_Mqueue_Links
  imports Posix_Mqueue Linked_List
begin

text \<open>
  The list of message queues in memory.  \<open>Posix_Mqueue\<close> keeps the queues as a list of elements; the source threads them
  through \<open>Link_t\<close> fields with the macros of \<open>Linked_List\<close>.  The link is the first member of an element, so that both have
  the same address.
\<close>

text \<open>What the loop of \<open>prvFindQueueInList\<close> tests at a link: the element that contains it, by name, then by descriptor.\<close>

definition queue_matches :: "heap4 \<Rightarrow> QueueListElement list \<Rightarrow> u8 list option \<Rightarrow> u32 \<Rightarrow> u32 \<Rightarrow> bool" where
  "queue_matches h es name des pxQueueListLink =
     (case find (\<lambda>e. q_addr e = listCONTAINER 0 pxQueueListLink) es of
        None \<Rightarrow> False
      | Some e \<Rightarrow> (case name of None \<Rightarrow> False | Some n \<Rightarrow> strcmp_eq h (pcName e) n) \<or> q_addr e = des)"

lemma find_by_addr: "distinct (map q_addr es) \<Longrightarrow> e \<in> set es \<Longrightarrow> find (\<lambda>x. q_addr x = q_addr e) es = Some e"
  by (induction es) auto

lemma prvFindQueueInList_find:
  "prvFindQueueInList h es name des = find (\<lambda>e. (case name of None \<Rightarrow> False | Some n \<Rightarrow> strcmp_eq h (pcName e) n) \<or> q_addr e = des) es"
  by (induction es) (auto split: option.splits)

lemma find_cong_set: "(\<And>x. x \<in> set xs \<Longrightarrow> P x = Q x) \<Longrightarrow> find P xs = find Q xs"
  by (induction xs) auto

text \<open>C28.
  The queues in memory are the queues of the model: when the links of the elements form a list, the search of the source
  ends with the element that the model finds, removing the link of an element leaves the links of the remaining elements,
  and adding a new element puts its link in front.
\<close>

theorem queue_list_links:
  assumes "dlist m pxHead (map q_addr es)"
  shows "listFOR_EACH (queue_matches h es name des) pxHead m = Some (map_option q_addr (prvFindQueueInList h es name des)) \<and>
    (\<forall>e. e \<in> set es \<longrightarrow> dlist (Linked_List.listREMOVE (q_addr e) m) pxHead (map q_addr (Posix_Mqueue.listREMOVE e es))) \<and>
    (\<forall>e. q_addr e \<notin> set (pxHead # map q_addr es) \<longrightarrow> q_addr e \<noteq> 0 \<longrightarrow> dlist (listADD pxHead (q_addr e) m) pxHead (map q_addr (e # es)))"
proof -
  have d: "distinct (map q_addr es)" using assms by (simp add: dlist_def)
  have "find (\<lambda>e. queue_matches h es name des (q_addr e)) es = prvFindQueueInList h es name des"
    unfolding prvFindQueueInList_find
    by (rule find_cong_set) (simp add: queue_matches_def listCONTAINER_def find_by_addr [OF d])
  then show ?thesis
    using dll.elements_search [OF assms] dll.elements_remove [OF assms] dll.lst_add [OF assms]
    by (simp add: Posix_Mqueue.listREMOVE_def)
qed

definition ex_queue :: "u32 \<Rightarrow> QueueListElement" where
  "ex_queue a = \<lparr>q_addr = a, xQueue = 1, xOpenDescriptors = 1, pcName = 0,
     xAttr = \<lparr>mq_flags = 0, mq_maxmsg = 10, mq_msgsize = 128, mq_curmsgs = 0\<rparr>, xPendingUnlink = False\<rparr>"

theorem queue_list_links_witness:
  "let m = listADD 4 100 (listADD 4 200 (listINIT_HEAD 4 \<lparr>pxPrev = \<lambda>_. 0, pxNext = \<lambda>_. 0\<rparr>)); es = [ex_queue 100, ex_queue 200]
   in listFOR_EACH (queue_matches (heap_reset (\<lambda>_. 0) 64 16) es None 200) 4 m = Some (Some 200) \<and> dlist (Linked_List.listREMOVE 100 m) 4 [200]"
proof -
  let ?m = "listADD 4 100 (listADD 4 200 (listINIT_HEAD 4 \<lparr>pxPrev = \<lambda>_. 0, pxNext = \<lambda>_. 0\<rparr>))"
  let ?es = "[ex_queue 100, ex_queue 200]"
  have d: "dlist ?m 4 (map q_addr ?es)" by (simp add: dlist_def listADD_def listINIT_HEAD_def Let_def ex_queue_def)
  have "Posix_Mqueue.listREMOVE (ex_queue 100) ?es = [ex_queue 200]" by (simp add: Posix_Mqueue.listREMOVE_def ex_queue_def)
  then show ?thesis using queue_list_links [OF d, of "heap_reset (\<lambda>_. 0) 64 16" None 200] by (auto simp: Let_def ex_queue_def)
qed

end
