(* ===== verification/Posix_Mutex.thy ===== *)
theory Posix_Mutex
  imports Posix_Pthread
begin

text \<open>
  POSIX mutexes, \<open>FreeRTOS_POSIX_pthread_mutex.c\<close> (in the repository under a name with a leading dot).  The kernel's mutex is
  not part of the sources: its operations are arguments (\<open>kmutex\<close>), each with the task that calls it, and \<open>kmutex_laws\<close>
  states what the documentation says of them.  \<open>depth\<close> counts how often the holder has taken the mutex.
\<close>

definition EBUSY :: int where "EBUSY = 16"
definition ENOMEM :: int where "ENOMEM = 12"
definition PTHREAD_MUTEX_NORMAL :: int where "PTHREAD_MUTEX_NORMAL = 0"
definition PTHREAD_MUTEX_ERRORCHECK :: int where "PTHREAD_MUTEX_ERRORCHECK = 1"
definition PTHREAD_MUTEX_RECURSIVE :: int where "PTHREAD_MUTEX_RECURSIVE = 2"
definition PTHREAD_MUTEX_DEFAULT :: int where "PTHREAD_MUTEX_DEFAULT = PTHREAD_MUTEX_NORMAL"

lemmas mutex_consts = EBUSY_def EDEADLK_def ENOMEM_def PTHREAD_MUTEX_NORMAL_def PTHREAD_MUTEX_ERRORCHECK_def
  PTHREAD_MUTEX_RECURSIVE_def PTHREAD_MUTEX_DEFAULT_def EINVAL_def ETIMEDOUT_def EPERM_def

record 'k pthread_mutex =
  xIsInitialized :: bool
  xMutex :: 'k
  xTaskOwner :: u32
  iType :: int

record 'k kmutex =
  CreateMutexStatic :: 'k
  CreateRecursiveMutexStatic :: 'k
  kDelete :: "'k \<Rightarrow> 'k"
  Take :: "u32 \<Rightarrow> u32 \<Rightarrow> 'k \<Rightarrow> bool \<times> 'k"
  TakeRecursive :: "u32 \<Rightarrow> u32 \<Rightarrow> 'k \<Rightarrow> bool \<times> 'k"
  Give :: "u32 \<Rightarrow> 'k \<Rightarrow> 'k"
  GiveRecursive :: "u32 \<Rightarrow> 'k \<Rightarrow> 'k"
  GetMutexHolder :: "'k \<Rightarrow> u32"

definition xDefaultMutexAttributes :: int where
  "xDefaultMutexAttributes = PTHREAD_MUTEX_DEFAULT"

definition prvInitializeStaticMutex :: "'k kmutex \<Rightarrow> 'k pthread_mutex \<Rightarrow> 'k pthread_mutex" where
  "prvInitializeStaticMutex M pxMutex =
     (if \<not> xIsInitialized pxMutex
      then pxMutex\<lparr>iType := PTHREAD_MUTEX_DEFAULT, xMutex := CreateMutexStatic M, xIsInitialized := True\<rparr>
      else pxMutex)"

definition pthread_mutex_destroy :: "'k kmutex \<Rightarrow> 'k pthread_mutex \<Rightarrow> int \<times> 'k pthread_mutex" where
  "pthread_mutex_destroy M pxMutex =
     (0, if xTaskOwner pxMutex = 0 then pxMutex\<lparr>xMutex := kDelete M (xMutex pxMutex)\<rparr> else pxMutex)"

text \<open>A null pointer is \<open>None\<close>; the kernel creates mutexes in the memory it is given, so that creation does not fail.\<close>

definition pthread_mutex_init :: "'k kmutex \<Rightarrow> 'k pthread_mutex option \<Rightarrow> int option \<Rightarrow> int \<times> 'k pthread_mutex option" where
  "pthread_mutex_init M mutex attr =
     (case mutex of None \<Rightarrow> (ENOMEM, None)
      | Some pxMutex \<Rightarrow>
          let pxMutex = pxMutex\<lparr>xIsInitialized := False, xTaskOwner := 0, iType := 0\<rparr>;
              pxMutex = pxMutex\<lparr>iType := (case attr of None \<Rightarrow> xDefaultMutexAttributes | Some a \<Rightarrow> a)\<rparr>;
              pxMutex = (if iType pxMutex = PTHREAD_MUTEX_RECURSIVE
                         then pxMutex\<lparr>xMutex := CreateRecursiveMutexStatic M\<rparr>
                         else pxMutex\<lparr>xMutex := CreateMutexStatic M\<rparr>)
          in (0, Some (pxMutex\<lparr>xIsInitialized := True\<rparr>)))"

text \<open>The status and the delay that are computed from an absolute time; \<open>now\<close> is the kernel's time.\<close>

definition absolute_delay :: "timespec option \<Rightarrow> TimeOut_t \<Rightarrow> int \<times> u32" where
  "absolute_delay abstime now =
     (case abstime of None \<Rightarrow> (0, portMAX_DELAY)
      | Some _ \<Rightarrow>
          (case clock_gettime now of (st, xCurrentTime) \<Rightarrow>
             if st \<noteq> 0 then (EINVAL, portMAX_DELAY)
             else (case UTILS_AbsoluteTimespecToDeltaTicks abstime (Some xCurrentTime) (Some portMAX_DELAY) of
                     (iStatus, xDelay) \<Rightarrow> (iStatus, the xDelay))))"

text \<open>The call of the kernel that takes the mutex, and, after it, the record of the new owner.\<close>

definition take_kernel :: "'k kmutex \<Rightarrow> u32 \<Rightarrow> u32 \<Rightarrow> 'k pthread_mutex \<Rightarrow> bool \<times> 'k pthread_mutex" where
  "take_kernel M self xDelay pxMutex =
     (case (if iType pxMutex = PTHREAD_MUTEX_RECURSIVE then TakeRecursive M self xDelay (xMutex pxMutex)
            else Take M self xDelay (xMutex pxMutex)) of
        (taken, k) \<Rightarrow> (taken, pxMutex\<lparr>xMutex := k\<rparr>))"

definition pthread_mutex_timedlock ::
    "'k kmutex \<Rightarrow> u32 \<Rightarrow> timespec option \<Rightarrow> TimeOut_t \<Rightarrow> 'k pthread_mutex \<Rightarrow> int \<times> 'k pthread_mutex" where
  "pthread_mutex_timedlock M self abstime now pxMutex =
     (let pxMutex = prvInitializeStaticMutex M pxMutex;
          (iStatus, xDelay) = absolute_delay abstime now;
          (iStatus, xDelay) = (if iStatus = ETIMEDOUT then (0, 0) else (iStatus, xDelay));
          iStatus = (if iStatus = 0 \<and> iType pxMutex = PTHREAD_MUTEX_ERRORCHECK \<and> xTaskOwner pxMutex = self then EDEADLK else iStatus)
      in if iStatus = 0 then
           (case take_kernel M self xDelay pxMutex of
              (taken, pxMutex) \<Rightarrow> if taken then (0, pxMutex\<lparr>xTaskOwner := self\<rparr>) else (ETIMEDOUT, pxMutex))
         else (iStatus, pxMutex))"

definition pthread_mutex_lock :: "'k kmutex \<Rightarrow> u32 \<Rightarrow> TimeOut_t \<Rightarrow> 'k pthread_mutex \<Rightarrow> int \<times> 'k pthread_mutex" where
  "pthread_mutex_lock M self now mutex = pthread_mutex_timedlock M self None now mutex"

definition pthread_mutex_trylock :: "'k kmutex \<Rightarrow> u32 \<Rightarrow> TimeOut_t \<Rightarrow> 'k pthread_mutex \<Rightarrow> int \<times> 'k pthread_mutex" where
  "pthread_mutex_trylock M self now mutex =
     (case pthread_mutex_timedlock M self (Some \<lparr>tv_sec = 0, tv_nsec = 0\<rparr>) now mutex of
        (iStatus, mutex) \<Rightarrow> (if iStatus = ETIMEDOUT then EBUSY else iStatus, mutex))"

text \<open>The check of \<open>pthread_mutex_unlock\<close>, and what it does with the scheduler suspended.\<close>

definition unlock_refused :: "u32 \<Rightarrow> 'k pthread_mutex \<Rightarrow> bool" where
  "unlock_refused self pxMutex \<longleftrightarrow>
     (iType pxMutex = PTHREAD_MUTEX_ERRORCHECK \<or> iType pxMutex = PTHREAD_MUTEX_RECURSIVE) \<and> xTaskOwner pxMutex \<noteq> self"

definition give_kernel :: "'k kmutex \<Rightarrow> u32 \<Rightarrow> 'k pthread_mutex \<Rightarrow> 'k pthread_mutex" where
  "give_kernel M self pxMutex =
     (let k = (if iType pxMutex = PTHREAD_MUTEX_RECURSIVE then GiveRecursive M self (xMutex pxMutex) else Give M self (xMutex pxMutex))
      in pxMutex\<lparr>xMutex := k, xTaskOwner := GetMutexHolder M k\<rparr>)"

definition pthread_mutex_unlock :: "'k kmutex \<Rightarrow> u32 \<Rightarrow> 'k pthread_mutex \<Rightarrow> int \<times> 'k pthread_mutex" where
  "pthread_mutex_unlock M self mutex =
     (let pxMutex = prvInitializeStaticMutex M mutex
      in if unlock_refused self pxMutex then (EPERM, pxMutex) else (0, give_kernel M self pxMutex))"

definition pthread_mutexattr_destroy :: "int \<Rightarrow> int" where "pthread_mutexattr_destroy attr = 0"

definition pthread_mutexattr_gettype :: "int \<Rightarrow> int \<times> int" where "pthread_mutexattr_gettype attr = (0, attr)"

definition pthread_mutexattr_init :: "int \<times> int" where "pthread_mutexattr_init = (0, xDefaultMutexAttributes)"

definition pthread_mutexattr_settype :: "int \<Rightarrow> int \<Rightarrow> int \<times> int" where
  "pthread_mutexattr_settype attr type =
     (if type = PTHREAD_MUTEX_NORMAL \<or> type = PTHREAD_MUTEX_RECURSIVE \<or> type = PTHREAD_MUTEX_ERRORCHECK then (0, type)
      else (EINVAL, attr))"

subsection \<open>The kernel's mutex\<close>

definition kmutex_laws :: "'k kmutex \<Rightarrow> ('k \<Rightarrow> nat) \<Rightarrow> bool" where
  "kmutex_laws M depth \<longleftrightarrow>
     GetMutexHolder M (CreateMutexStatic M) = 0 \<and> depth (CreateMutexStatic M) = 0 \<and>
     GetMutexHolder M (CreateRecursiveMutexStatic M) = 0 \<and> depth (CreateRecursiveMutexStatic M) = 0 \<and>
     (\<forall>t d k. t \<noteq> 0 \<longrightarrow> GetMutexHolder M k = 0 \<longrightarrow>
        fst (Take M t d k) \<and> GetMutexHolder M (snd (Take M t d k)) = t \<and> depth (snd (Take M t d k)) = 1 \<and>
        fst (TakeRecursive M t d k) \<and> GetMutexHolder M (snd (TakeRecursive M t d k)) = t \<and> depth (snd (TakeRecursive M t d k)) = 1) \<and>
     (\<forall>t k. GetMutexHolder M k \<noteq> 0 \<longrightarrow> Take M t 0 k = (False, k)) \<and>
     (\<forall>t k. GetMutexHolder M k \<noteq> 0 \<longrightarrow> GetMutexHolder M k \<noteq> t \<longrightarrow> TakeRecursive M t 0 k = (False, k)) \<and>
     (\<forall>t d k. t \<noteq> 0 \<longrightarrow> GetMutexHolder M k = t \<longrightarrow>
        fst (TakeRecursive M t d k) \<and> GetMutexHolder M (snd (TakeRecursive M t d k)) = t \<and>
        depth (snd (TakeRecursive M t d k)) = depth k + 1) \<and>
     (\<forall>t k. t \<noteq> 0 \<longrightarrow> GetMutexHolder M k = t \<longrightarrow> GetMutexHolder M (Give M t k) = 0 \<and> depth (Give M t k) = 0) \<and>
     (\<forall>t k. t \<noteq> 0 \<longrightarrow> GetMutexHolder M k = t \<longrightarrow> depth (GiveRecursive M t k) = depth k - 1 \<and>
        GetMutexHolder M (GiveRecursive M t k) = (if depth k \<le> 1 then 0 else t))"


text \<open>An instance: the holder and the depth.\<close>

definition pair_mutex :: "(u32 \<times> nat) kmutex" where
  "pair_mutex = \<lparr>CreateMutexStatic = (0, 0), CreateRecursiveMutexStatic = (0, 0), kDelete = id,
     Take = (\<lambda>t d (h, n). if h = 0 then (True, (t, 1)) else (False, (h, n))),
     TakeRecursive = (\<lambda>t d (h, n). if h = 0 then (True, (t, 1)) else if h = t then (True, (t, n + 1)) else (False, (h, n))),
     Give = (\<lambda>t (h, n). if h = t then (0, 0) else (h, n)),
     GiveRecursive = (\<lambda>t (h, n). if h = t then (if n \<le> 1 then (0, 0) else (h, n - 1)) else (h, n)),
     GetMutexHolder = fst\<rparr>"

lemma pair_mutex_laws: "kmutex_laws pair_mutex snd"
  by (auto simp: kmutex_laws_def pair_mutex_def)

lemma kmutex_create:
  assumes "kmutex_laws M depth"
  shows "GetMutexHolder M (CreateMutexStatic M) = 0" "GetMutexHolder M (CreateRecursiveMutexStatic M) = 0"
  using assms by (simp_all add: kmutex_laws_def)

lemma kmutex_take:
  assumes "kmutex_laws M depth" "t \<noteq> 0"
  shows "GetMutexHolder M k = 0 \<Longrightarrow> fst (Take M t d k) \<and> GetMutexHolder M (snd (Take M t d k)) = t \<and> depth (snd (Take M t d k)) = 1"
    and "GetMutexHolder M k = 0 \<Longrightarrow>
      fst (TakeRecursive M t d k) \<and> GetMutexHolder M (snd (TakeRecursive M t d k)) = t \<and> depth (snd (TakeRecursive M t d k)) = 1"
    and "GetMutexHolder M k \<noteq> 0 \<Longrightarrow> Take M t 0 k = (False, k)"
    and "GetMutexHolder M k \<noteq> 0 \<Longrightarrow> GetMutexHolder M k \<noteq> t \<Longrightarrow> TakeRecursive M t 0 k = (False, k)"
    and "GetMutexHolder M k = t \<Longrightarrow>
      fst (TakeRecursive M t d k) \<and> GetMutexHolder M (snd (TakeRecursive M t d k)) = t \<and>
      depth (snd (TakeRecursive M t d k)) = depth k + 1"
  using assms unfolding kmutex_laws_def by blast+

lemma kmutex_give:
  assumes "kmutex_laws M depth" "t \<noteq> 0" "GetMutexHolder M k = t"
  shows "GetMutexHolder M (Give M t k) = 0" "depth (GiveRecursive M t k) = depth k - 1"
    "GetMutexHolder M (GiveRecursive M t k) = (if depth k \<le> 1 then 0 else t)"
  using assms unfolding kmutex_laws_def by blast+

subsection \<open>The abstract mutex\<close>

text \<open>What the calls promise: a holder (0 when there is none) and how often it has locked the mutex.\<close>

definition spec_trylock :: "int \<Rightarrow> u32 \<Rightarrow> u32 \<times> nat \<Rightarrow> int \<times> u32 \<times> nat" where
  "spec_trylock ty t a =
     (if fst a = 0 then (0, t, 1)
      else if fst a = t \<and> ty = PTHREAD_MUTEX_RECURSIVE then (0, t, snd a + 1)
      else if fst a = t \<and> ty = PTHREAD_MUTEX_ERRORCHECK then (EDEADLK, a)
      else (EBUSY, a))"

definition spec_unlock :: "u32 \<Rightarrow> u32 \<times> nat \<Rightarrow> int \<times> u32 \<times> nat" where
  "spec_unlock t a =
     (if fst a \<noteq> t then (EPERM, a) else if snd a \<le> 1 then (0, 0, 0) else (0, t, snd a - 1))"

definition abs_mutex :: "'k kmutex \<Rightarrow> ('k \<Rightarrow> nat) \<Rightarrow> 'k pthread_mutex \<Rightarrow> u32 \<times> nat" where
  "abs_mutex M depth m =
     (let m = prvInitializeStaticMutex M m; h = GetMutexHolder M (xMutex m) in (h, if h = 0 then 0 else depth (xMutex m)))"

definition mutex_ok :: "'k kmutex \<Rightarrow> ('k \<Rightarrow> nat) \<Rightarrow> 'k pthread_mutex \<Rightarrow> bool" where
  "mutex_ok M depth m \<longleftrightarrow>
     (let m = prvInitializeStaticMutex M m; h = GetMutexHolder M (xMutex m)
      in xTaskOwner m = h \<and> iType m \<in> {PTHREAD_MUTEX_NORMAL, PTHREAD_MUTEX_ERRORCHECK, PTHREAD_MUTEX_RECURSIVE} \<and>
         (h \<noteq> 0 \<longrightarrow> 0 < depth (xMutex m) \<and> (iType m \<noteq> PTHREAD_MUTEX_RECURSIVE \<longrightarrow> depth (xMutex m) = 1)))"

lemma initialized_static [simp]:
  "xIsInitialized (prvInitializeStaticMutex M m)"
  "xIsInitialized m \<Longrightarrow> prvInitializeStaticMutex M m = m"
  "prvInitializeStaticMutex M (prvInitializeStaticMutex M m) = prvInitializeStaticMutex M m"
  by (simp_all add: prvInitializeStaticMutex_def)

text \<open>The delay of a call that must not block.\<close>

lemma absolute_delay_zero:
  assumes "ticking now"
  shows "fst (absolute_delay (Some \<lparr>tv_sec = 0, tv_nsec = 0\<rparr>) now) = ETIMEDOUT"
proof -
  have "wait_delay (Some \<lparr>tv_sec = 0, tv_nsec = 0\<rparr>) now = (ETIMEDOUT, 0)"
    using assms by (intro trywait_delay) (auto simp: ticking_def)
  then show ?thesis
    by (auto simp: wait_delay_def absolute_delay_def EINVAL_def ETIMEDOUT_def Let_def split: prod.splits if_splits)
qed

lemma trylock_cases:
  assumes "ticking now"
  shows "pthread_mutex_trylock M t now m =
    (let m = prvInitializeStaticMutex M m
     in if iType m = PTHREAD_MUTEX_ERRORCHECK \<and> xTaskOwner m = t then (EDEADLK, m)
        else case take_kernel M t 0 m of (taken, m) \<Rightarrow> if taken then (0, m\<lparr>xTaskOwner := t\<rparr>) else (EBUSY, m))"
  using absolute_delay_zero [OF assms]
  by (cases "absolute_delay (Some \<lparr>tv_sec = 0, tv_nsec = 0\<rparr>) now")
     (simp add: pthread_mutex_trylock_def pthread_mutex_timedlock_def Let_def mutex_consts split: prod.splits)

lemma trylock_refines_initialized:
  assumes k: "kmutex_laws M depth" and t: "t \<noteq> 0" and i: "xIsInitialized m" and ok: "mutex_ok M depth m" and now: "ticking now"
  shows "mutex_ok M depth (snd (pthread_mutex_trylock M t now m)) \<and>
    (fst (pthread_mutex_trylock M t now m), abs_mutex M depth (snd (pthread_mutex_trylock M t now m))) =
    spec_trylock (iType m) t (abs_mutex M depth m)"
proof -
  note tk = kmutex_take [OF k t, of "xMutex m"]
  let ?h = "GetMutexHolder M (xMutex m)"
  show ?thesis
  proof (cases "iType m = PTHREAD_MUTEX_RECURSIVE")
    case True
    obtain a b where r: "TakeRecursive M t 0 (xMutex m) = (a, b)" by (cases "TakeRecursive M t 0 (xMutex m)")
    show ?thesis
      using ok i t True r tk(2) [of 0] tk(4) tk(5) [of 0]
      by (cases "?h = 0"; cases "?h = t")
         (auto simp: trylock_cases [OF now] take_kernel_def mutex_ok_def abs_mutex_def spec_trylock_def Let_def mutex_consts)
  next
    case False
    obtain a b where r: "Take M t 0 (xMutex m) = (a, b)" by (cases "Take M t 0 (xMutex m)")
    show ?thesis
      using ok i t False r tk(1) [of 0] tk(3)
      by (cases "?h = 0"; cases "?h = t")
         (auto simp: trylock_cases [OF now] take_kernel_def mutex_ok_def abs_mutex_def spec_trylock_def Let_def mutex_consts)
  qed
qed

lemma unlock_refines_initialized:
  assumes k: "kmutex_laws M depth" and t: "t \<noteq> 0" and i: "xIsInitialized m" and ok: "mutex_ok M depth m"
    and n: "iType m = PTHREAD_MUTEX_NORMAL \<Longrightarrow> fst (abs_mutex M depth m) = t"
  shows "mutex_ok M depth (snd (pthread_mutex_unlock M t m)) \<and>
    (fst (pthread_mutex_unlock M t m), abs_mutex M depth (snd (pthread_mutex_unlock M t m))) = spec_unlock t (abs_mutex M depth m)"
proof (cases "GetMutexHolder M (xMutex m) = t")
  case True
  show ?thesis
    using ok i t n kmutex_give [OF k t True] True
    by (auto simp: pthread_mutex_unlock_def unlock_refused_def give_kernel_def mutex_ok_def abs_mutex_def spec_unlock_def Let_def)
next
  case False
  then show ?thesis
    using ok i t n
    by (auto simp: pthread_mutex_unlock_def unlock_refused_def give_kernel_def mutex_ok_def abs_mutex_def spec_unlock_def Let_def)
qed

lemma static_first:
  "pthread_mutex_trylock M t now (prvInitializeStaticMutex M m) = pthread_mutex_trylock M t now m"
  "pthread_mutex_unlock M t (prvInitializeStaticMutex M m) = pthread_mutex_unlock M t m"
  "mutex_ok M depth (prvInitializeStaticMutex M m) = mutex_ok M depth m"
  "abs_mutex M depth (prvInitializeStaticMutex M m) = abs_mutex M depth m"
  by (simp_all add: pthread_mutex_trylock_def pthread_mutex_timedlock_def pthread_mutex_unlock_def mutex_ok_def abs_mutex_def)

text \<open>C27.
  The calls implement the abstract mutex, on a mutex from \<open>pthread_mutex_init\<close> and on one that its first call initialises:
  \<open>pthread_mutex_trylock\<close> takes a free mutex, counts one more level for the holder of a recursive one, reports
  \<open>EDEADLK\<close> to the holder of an error-checking one and \<open>EBUSY\<close> otherwise; \<open>pthread_mutex_unlock\<close> releases one level for the
  holder and reports \<open>EPERM\<close> to any other thread, for every type but the normal one, where only the holder may call it.
\<close>

theorem mutex_refines:
  assumes k: "kmutex_laws M depth" and t: "t \<noteq> 0" and ok: "mutex_ok M depth m" and now: "ticking now"
    and n: "iType (prvInitializeStaticMutex M m) = PTHREAD_MUTEX_NORMAL \<Longrightarrow> f = pthread_mutex_unlock M t \<Longrightarrow> fst (abs_mutex M depth m) = t"
    and f: "(f, g) = (pthread_mutex_trylock M t now, spec_trylock (iType (prvInitializeStaticMutex M m)) t) \<or>
      (f, g) = (pthread_mutex_unlock M t, spec_unlock t)"
  shows "mutex_ok M depth (snd (f m)) \<and> (fst (f m), abs_mutex M depth (snd (f m))) = g (abs_mutex M depth m)"
proof -
  let ?m = "prvInitializeStaticMutex M m"
  have ok': "mutex_ok M depth ?m" using ok by (simp add: static_first)
  from f show ?thesis
  proof
    assume e: "(f, g) = (pthread_mutex_trylock M t now, spec_trylock (iType ?m) t)"
    show ?thesis
      using trylock_refines_initialized [OF k t _ ok' now] e by (simp add: static_first)
  next
    assume e: "(f, g) = (pthread_mutex_unlock M t, spec_unlock t)"
    then have "iType ?m = PTHREAD_MUTEX_NORMAL \<Longrightarrow> fst (abs_mutex M depth ?m) = t" using n by (simp add: static_first)
    from unlock_refines_initialized [OF k t _ ok' this] e show ?thesis by (simp add: static_first)
  qed
qed

text \<open>A mutex from an initialiser or from \<open>pthread_mutex_init\<close> is free and well-formed.\<close>

lemma mutex_init_ok:
  assumes "kmutex_laws M depth" "attr \<in> {None, Some PTHREAD_MUTEX_NORMAL, Some PTHREAD_MUTEX_ERRORCHECK, Some PTHREAD_MUTEX_RECURSIVE}"
  shows "\<exists>m'. pthread_mutex_init M (Some m) attr = (0, Some m') \<and> mutex_ok M depth m' \<and> abs_mutex M depth m' = (0, 0)"
  using assms(2) kmutex_create [OF assms(1)]
  by (auto simp: pthread_mutex_init_def mutex_ok_def abs_mutex_def Let_def xDefaultMutexAttributes_def mutex_consts)

lemma mutex_static_ok:
  assumes "kmutex_laws M depth" "\<not> xIsInitialized m" "xTaskOwner m = 0"
  shows "mutex_ok M depth m \<and> abs_mutex M depth m = (0, 0)"
  using assms(2,3) kmutex_create [OF assms(1)]
  by (auto simp: prvInitializeStaticMutex_def mutex_ok_def abs_mutex_def Let_def mutex_consts)

theorem mutex_refines_witness:
  "pthread_mutex_unlock pair_mutex 7 \<lparr>xIsInitialized = True, xMutex = (5, 2), xTaskOwner = 5, iType = 2\<rparr> =
     (EPERM, \<lparr>xIsInitialized = True, xMutex = (5, 2), xTaskOwner = 5, iType = 2\<rparr>) \<and>
   (fst (pthread_mutex_unlock pair_mutex 7 \<lparr>xIsInitialized = True, xMutex = (5, 2), xTaskOwner = 5, iType = 2\<rparr>),
    abs_mutex pair_mutex snd (snd (pthread_mutex_unlock pair_mutex 7 \<lparr>xIsInitialized = True, xMutex = (5, 2), xTaskOwner = 5, iType = 2\<rparr>))) =
   spec_unlock 7 (abs_mutex pair_mutex snd \<lparr>xIsInitialized = True, xMutex = (5, 2), xTaskOwner = 5, iType = 2\<rparr>)"
proof -
  let ?m = "\<lparr>xIsInitialized = True, xMutex = (5 :: u32, 2 :: nat), xTaskOwner = 5, iType = 2\<rparr>"
  have "mutex_ok pair_mutex snd ?m" by (simp add: mutex_ok_def pair_mutex_def mutex_consts)
  moreover have "ticking \<lparr>xOverflowCount = 0, xTimeOnEntering = 5\<rparr>" by (simp add: ticking_def)
  moreover have "iType (prvInitializeStaticMutex pair_mutex ?m) \<noteq> PTHREAD_MUTEX_NORMAL" by (simp add: mutex_consts)
  ultimately have "(fst (pthread_mutex_unlock pair_mutex 7 ?m), abs_mutex pair_mutex snd (snd (pthread_mutex_unlock pair_mutex 7 ?m))) =
      spec_unlock 7 (abs_mutex pair_mutex snd ?m)"
    using mutex_refines [OF pair_mutex_laws, of 7 ?m "\<lparr>xOverflowCount = 0, xTimeOnEntering = 5\<rparr>" "pthread_mutex_unlock pair_mutex 7" "spec_unlock 7"]
    by simp
  then show ?thesis by (simp add: pthread_mutex_unlock_def unlock_refused_def mutex_consts)
qed

subsection \<open>Interleaved threads\<close>

text \<open>
  The steps of any number of threads: a call that locks takes the kernel's mutex and writes the owner afterwards; a call that
  unlocks checks the owner and releases with the scheduler suspended.  A thread that blocks in the kernel gets the mutex by a take
  without delay at a later moment, or gives up and leaves the mutex as it is.  A normal mutex is unlocked by its holder
  only, as POSIX requires.  \<open>held t\<close> counts the calls of \<open>t\<close> that locked the mutex, less those that unlocked it.
\<close>

datatype mutex_pc = MIdle | MTook | MChecked

record 'k mutex_sys =
  mtx :: "'k pthread_mutex"
  mpc :: "u32 \<Rightarrow> mutex_pc"
  held :: "u32 \<Rightarrow> nat"

inductive mutex_step :: "'k kmutex \<Rightarrow> 'k mutex_sys \<Rightarrow> 'k mutex_sys \<Rightarrow> bool" for M :: "'k kmutex" where
  lock_take: "t \<noteq> 0 \<Longrightarrow> mpc s t = MIdle \<Longrightarrow> \<not> (iType (mtx s) = PTHREAD_MUTEX_ERRORCHECK \<and> xTaskOwner (mtx s) = t) \<Longrightarrow>
     take_kernel M t 0 (mtx s) = (True, m) \<Longrightarrow> mutex_step M s (s\<lparr>mtx := m, mpc := (mpc s)(t := MTook)\<rparr>)"
| lock_owner: "mpc s t = MTook \<Longrightarrow>
     mutex_step M s (s\<lparr>mtx := (mtx s)\<lparr>xTaskOwner := t\<rparr>, mpc := (mpc s)(t := MIdle), held := (held s)(t := held s t + 1)\<rparr>)"
| unlock_check: "t \<noteq> 0 \<Longrightarrow> mpc s t = MIdle \<Longrightarrow> \<not> unlock_refused t (mtx s) \<Longrightarrow>
     (iType (mtx s) = PTHREAD_MUTEX_NORMAL \<Longrightarrow> 0 < held s t) \<Longrightarrow> mutex_step M s (s\<lparr>mpc := (mpc s)(t := MChecked)\<rparr>)"
| unlock_give: "mpc s t = MChecked \<Longrightarrow>
     mutex_step M s (s\<lparr>mtx := give_kernel M t (mtx s), mpc := (mpc s)(t := MIdle), held := (held s)(t := held s t - 1)\<rparr>)"

inductive_cases mutex_stepE: "mutex_step M s s'"

definition mutex_start :: "'k pthread_mutex \<Rightarrow> 'k mutex_sys" where
  "mutex_start m = \<lparr>mtx = m, mpc = (\<lambda>_. MIdle), held = (\<lambda>_. 0)\<rparr>"

text \<open>The calls are these steps, one after the other.\<close>

lemma timedlock_steps:
  "pthread_mutex_trylock M t now m = (0, m') \<Longrightarrow> ticking now \<Longrightarrow> xIsInitialized m \<Longrightarrow> t \<noteq> 0 \<Longrightarrow>
   (mutex_step M)\<^sup>*\<^sup>* \<lparr>mtx = m, mpc = (\<lambda>_. MIdle), held = h\<rparr> \<lparr>mtx = m', mpc = (\<lambda>_. MIdle), held = h(t := h t + 1)\<rparr>"
proof -
  assume a: "pthread_mutex_trylock M t now m = (0, m')" "ticking now" "xIsInitialized m" "t \<noteq> 0"
  obtain m1 where m: "take_kernel M t 0 m = (True, m1)" "m' = m1\<lparr>xTaskOwner := t\<rparr>"
      "\<not> (iType m = PTHREAD_MUTEX_ERRORCHECK \<and> xTaskOwner m = t)"
    using a(1,3) by (auto simp: trylock_cases [OF a(2)] Let_def mutex_consts split: prod.splits if_splits)
  let ?s = "\<lparr>mtx = m, mpc = (\<lambda>_. MIdle), held = h\<rparr>"
  have "mutex_step M ?s (?s\<lparr>mtx := m1, mpc := (mpc ?s)(t := MTook)\<rparr>)"
    using m a(4) by (intro lock_take) auto
  moreover have "mutex_step M (?s\<lparr>mtx := m1, mpc := (mpc ?s)(t := MTook)\<rparr>) \<lparr>mtx = m', mpc = (\<lambda>_. MIdle), held = h(t := h t + 1)\<rparr>"
    using lock_owner [of "?s\<lparr>mtx := m1, mpc := (mpc ?s)(t := MTook)\<rparr>" t M] m(2) by (simp add: fun_upd_def cong: if_cong)
  ultimately show ?thesis by (meson r_into_rtranclp rtranclp_trans)
qed

definition mutex_inv :: "'k kmutex \<Rightarrow> ('k \<Rightarrow> nat) \<Rightarrow> 'k mutex_sys \<Rightarrow> bool" where
  "mutex_inv M depth s \<longleftrightarrow>
     iType (mtx s) \<in> {PTHREAD_MUTEX_NORMAL, PTHREAD_MUTEX_ERRORCHECK, PTHREAD_MUTEX_RECURSIVE} \<and>
     (GetMutexHolder M (xMutex (mtx s)) \<noteq> 0 \<longrightarrow> 0 < depth (xMutex (mtx s))) \<and>
     (GetMutexHolder M (xMutex (mtx s)) \<noteq> 0 \<longrightarrow> iType (mtx s) \<noteq> PTHREAD_MUTEX_RECURSIVE \<longrightarrow> depth (xMutex (mtx s)) = 1) \<and>
     mpc s 0 = MIdle \<and>
     (\<forall>t. mpc s t \<noteq> MIdle \<longrightarrow> GetMutexHolder M (xMutex (mtx s)) = t) \<and>
     (\<forall>t. held s t = (if t \<noteq> 0 \<and> GetMutexHolder M (xMutex (mtx s)) = t
                      then depth (xMutex (mtx s)) - (if mpc s t = MTook then 1 else 0) else 0)) \<and>
     (\<forall>t. mpc s t = MChecked \<longrightarrow> 0 < held s t) \<and>
     (\<forall>t. t \<noteq> 0 \<longrightarrow> (xTaskOwner (mtx s) = t \<longleftrightarrow> 0 < held s t))"

lemma take_kernel_effect:
  assumes "kmutex_laws M depth" "t \<noteq> 0" "take_kernel M t 0 m = (True, m')"
  shows "xTaskOwner m' = xTaskOwner m" "iType m' = iType m" "GetMutexHolder M (xMutex m') = t"
    "GetMutexHolder M (xMutex m) = 0 \<and> depth (xMutex m') = 1 \<or>
     GetMutexHolder M (xMutex m) = t \<and> iType m = PTHREAD_MUTEX_RECURSIVE \<and> depth (xMutex m') = depth (xMutex m) + 1"
proof -
  note tk = kmutex_take [OF assms(1,2), of "xMutex m"]
  have m: "xTaskOwner m' = xTaskOwner m \<and> iType m' = iType m \<and> GetMutexHolder M (xMutex m') = t \<and>
    (GetMutexHolder M (xMutex m) = 0 \<and> depth (xMutex m') = 1 \<or>
     GetMutexHolder M (xMutex m) = t \<and> iType m = PTHREAD_MUTEX_RECURSIVE \<and> depth (xMutex m') = depth (xMutex m) + 1)"
  proof (cases "iType m = PTHREAD_MUTEX_RECURSIVE")
    case True
    obtain a b where r: "TakeRecursive M t 0 (xMutex m) = (a, b)" by (cases "TakeRecursive M t 0 (xMutex m)")
    show ?thesis using assms(3) True r tk(2) [of 0] tk(4) tk(5) [of 0]
      by (cases "GetMutexHolder M (xMutex m) = 0"; cases "GetMutexHolder M (xMutex m) = t") (auto simp: take_kernel_def)
  next
    case False
    obtain a b where r: "Take M t 0 (xMutex m) = (a, b)" by (cases "Take M t 0 (xMutex m)")
    show ?thesis using assms(3) False r tk(1) [of 0] tk(3)
      by (cases "GetMutexHolder M (xMutex m) = 0") (auto simp: take_kernel_def)
  qed
  from m show "xTaskOwner m' = xTaskOwner m" "iType m' = iType m" "GetMutexHolder M (xMutex m') = t"
    "GetMutexHolder M (xMutex m) = 0 \<and> depth (xMutex m') = 1 \<or>
     GetMutexHolder M (xMutex m) = t \<and> iType m = PTHREAD_MUTEX_RECURSIVE \<and> depth (xMutex m') = depth (xMutex m) + 1"
    by blast+
qed

lemma give_kernel_effect:
  assumes "kmutex_laws M depth" "t \<noteq> 0" "GetMutexHolder M (xMutex m) = t"
    and "iType m \<noteq> PTHREAD_MUTEX_RECURSIVE \<Longrightarrow> depth (xMutex m) = 1"
  shows "iType (give_kernel M t m) = iType m"
    "xTaskOwner (give_kernel M t m) = GetMutexHolder M (xMutex (give_kernel M t m))"
    "GetMutexHolder M (xMutex (give_kernel M t m)) = (if depth (xMutex m) \<le> 1 then 0 else t)"
    "1 < depth (xMutex m) \<Longrightarrow> depth (xMutex (give_kernel M t m)) = depth (xMutex m) - 1"
  using kmutex_give [OF assms(1-3)] assms(4) by (auto simp: give_kernel_def Let_def)

lemma mutex_inv_take:
  assumes k: "kmutex_laws M depth" and inv: "mutex_inv M depth s" and t: "t \<noteq> 0" "mpc s t = MIdle"
    and tk: "take_kernel M t 0 (mtx s) = (True, m)"
  shows "mutex_inv M depth (s\<lparr>mtx := m, mpc := (mpc s)(t := MTook)\<rparr>)"
proof -
  note e = take_kernel_effect(1-3) [OF k t(1) tk]
  from take_kernel_effect(4) [OF k t(1) tk] show ?thesis
  proof
    assume f: "GetMutexHolder M (xMutex (mtx s)) = 0 \<and> depth (xMutex m) = 1"
    then have z: "held s = (\<lambda>_. 0)" "mpc s = (\<lambda>_. MIdle)" using inv by (auto simp: mutex_inv_def)
    show ?thesis using inv t(1) e f z by (simp add: mutex_inv_def)
  next
    assume f: "GetMutexHolder M (xMutex (mtx s)) = t \<and> iType (mtx s) = PTHREAD_MUTEX_RECURSIVE \<and>
      depth (xMutex m) = depth (xMutex (mtx s)) + 1"
    then show ?thesis using inv t e by (auto simp: mutex_inv_def)
  qed
qed

lemma mutex_inv_owner:
  assumes inv: "mutex_inv M depth s" and t: "mpc s t = MTook"
  shows "mutex_inv M depth (s\<lparr>mtx := (mtx s)\<lparr>xTaskOwner := t\<rparr>, mpc := (mpc s)(t := MIdle), held := (held s)(t := held s t + 1)\<rparr>)"
proof -
  have "t \<noteq> 0" using inv t by (auto simp: mutex_inv_def)
  then show ?thesis using inv t unfolding mutex_inv_def by auto
qed

lemma mutex_inv_give:
  assumes k: "kmutex_laws M depth" and inv: "mutex_inv M depth s" and t: "mpc s t = MChecked"
  shows "mutex_inv M depth (s\<lparr>mtx := give_kernel M t (mtx s), mpc := (mpc s)(t := MIdle), held := (held s)(t := held s t - 1)\<rparr>)"
proof -
  have nz: "t \<noteq> 0" and h: "GetMutexHolder M (xMutex (mtx s)) = t" using inv t by (auto simp: mutex_inv_def)
  have d: "iType (mtx s) \<noteq> PTHREAD_MUTEX_RECURSIVE \<Longrightarrow> depth (xMutex (mtx s)) = 1" using inv nz h by (auto simp: mutex_inv_def)
  note g = give_kernel_effect [OF k nz h d]
  show ?thesis using inv t nz h g d unfolding mutex_inv_def by auto
qed

lemma mutex_step_inv: "mutex_step M s s' \<Longrightarrow> kmutex_laws M depth \<Longrightarrow> mutex_inv M depth s \<Longrightarrow> mutex_inv M depth s'"
proof (induction rule: mutex_step.induct)
  case (unlock_check t s)
  then show ?case by (auto simp: mutex_inv_def unlock_refused_def)
next
  case (lock_take t s m)
  then show ?case by (intro mutex_inv_take) auto
next
  case (lock_owner s t)
  then show ?case by (intro mutex_inv_owner) auto
next
  case (unlock_give s t)
  then show ?case by (intro mutex_inv_give) auto
qed

lemma mutex_reach_inv:
  assumes "(mutex_step M)\<^sup>*\<^sup>* (mutex_start m) s" "kmutex_laws M depth" "xIsInitialized m" "mutex_ok M depth m" "abs_mutex M depth m = (0, 0)"
  shows "mutex_inv M depth s"
  using assms(1)
proof (induction rule: rtranclp_induct)
  case base
  show ?case using assms(3-5) by (auto simp: mutex_start_def mutex_inv_def mutex_ok_def abs_mutex_def Let_def)
next
  case (step y z)
  then show ?case using mutex_step_inv assms(2) by blast
qed

text \<open>C14.
  In every interleaving of calls at most one thread has locked the mutex, the owner that is recorded is that thread, so that
  \<open>pthread_mutex_unlock\<close> never refuses the thread that has locked it, and refuses every other one unless the type is normal.
\<close>

theorem mutex_exclusive:
  assumes "kmutex_laws M depth" "xIsInitialized m" "mutex_ok M depth m" "abs_mutex M depth m = (0, 0)"
    and "(mutex_step M)\<^sup>*\<^sup>* (mutex_start m) s" "0 < held s t"
  shows "(\<forall>u. u \<noteq> t \<longrightarrow> held s u = 0) \<and> xTaskOwner (mtx s) = t \<and> \<not> unlock_refused t (mtx s) \<and>
    (iType (mtx s) \<noteq> PTHREAD_MUTEX_NORMAL \<longrightarrow> (\<forall>u. u \<noteq> t \<longrightarrow> unlock_refused u (mtx s)))"
proof -
  have inv: "mutex_inv M depth s" using mutex_reach_inv assms(1-5) by blast
  have h: "held s u = (if u \<noteq> 0 \<and> GetMutexHolder M (xMutex (mtx s)) = u
      then depth (xMutex (mtx s)) - (if mpc s u = MTook then 1 else 0) else 0)" for u
    using inv by (simp add: mutex_inv_def)
  have t: "t \<noteq> 0" "GetMutexHolder M (xMutex (mtx s)) = t" using h [of t] assms(6) by (auto split: if_splits)
  have o: "xTaskOwner (mtx s) = t" using inv t(1) assms(6) by (auto simp: mutex_inv_def)
  have ty: "iType (mtx s) \<in> {PTHREAD_MUTEX_NORMAL, PTHREAD_MUTEX_ERRORCHECK, PTHREAD_MUTEX_RECURSIVE}"
    using inv by (simp add: mutex_inv_def)
  show ?thesis using h t o ty by (auto simp: unlock_refused_def)
qed

theorem mutex_exclusive_witness:
  "\<exists>s. (mutex_step pair_mutex)\<^sup>*\<^sup>* (mutex_start \<lparr>xIsInitialized = True, xMutex = (0, 0), xTaskOwner = 0, iType = 2\<rparr>) s \<and>
     0 < held s 7 \<and> held s 5 = 0 \<and> xTaskOwner (mtx s) = 7"
proof -
  let ?m = "\<lparr>xIsInitialized = True, xMutex = (0 :: u32, 0 :: nat), xTaskOwner = 0, iType = 2\<rparr>"
  let ?s = "\<lparr>mtx = ?m\<lparr>xMutex := (7, 1), xTaskOwner := 7\<rparr>, mpc = (\<lambda>_. MIdle), held = (\<lambda>_. 0)(7 := 1)\<rparr>"
  have ok: "mutex_ok pair_mutex snd ?m" "abs_mutex pair_mutex snd ?m = (0, 0)"
    by (simp_all add: mutex_ok_def abs_mutex_def pair_mutex_def mutex_consts Let_def)
  have tr: "pthread_mutex_trylock pair_mutex 7 \<lparr>xOverflowCount = 0, xTimeOnEntering = 5\<rparr> ?m = (0, mtx ?s)"
    by (subst trylock_cases) (simp_all add: ticking_def Let_def mutex_consts take_kernel_def pair_mutex_def)
  have r: "(mutex_step pair_mutex)\<^sup>*\<^sup>* (mutex_start ?m) ?s"
    using timedlock_steps [OF tr, of "\<lambda>_. 0"] by (simp add: ticking_def mutex_start_def fun_upd_def cong: if_cong)
  from mutex_exclusive [OF pair_mutex_laws _ ok r, of 7] r show ?thesis by (intro exI [of _ ?s]) simp
qed

end
