(* ===== verification/Posix_Barrier.thy ===== *)
theory Posix_Barrier
  imports Posix_Mutex
begin

text \<open>
  POSIX barriers, \<open>FreeRTOS_POSIX_pthread_barrier.c\<close> (in the repository under a name with a leading dot).  A barrier is a
  counter, a threshold, a kernel semaphore that admits as many threads as the threshold, and a kernel event group in which
  every admitted thread has a bit.  \<open>pthread_barrier_wait\<close> is split into its atomic steps, so that any number of threads
  interleave in it.  The event group is not part of the sources: its operations are arguments and \<open>egroup_laws\<close> states
  what its documentation says of groups whose waiters all wait for the same bits.
\<close>

definition posixPTHREAD_BARRIER_MAX_COUNT :: u32 where "posixPTHREAD_BARRIER_MAX_COUNT = 24"

definition PTHREAD_BARRIER_SERIAL_THREAD :: int where "PTHREAD_BARRIER_SERIAL_THREAD = - 2"

record 'e barrier =
  uThreadCount :: u32
  uThreshold :: u32
  xThreadCountSemaphore :: nat
  xBarrierEventGroup :: 'e

text \<open>
  \<open>xEventGroupSync t set waitfor\<close> sets bits for a thread and makes it wait for bits; \<open>eg_blocked\<close> says whether a thread
  still waits.
\<close>

record 'e egroup =
  xEventGroupCreate :: 'e
  vEventGroupDelete :: "'e \<Rightarrow> 'e"
  xEventGroupSync :: "nat \<Rightarrow> u32 \<Rightarrow> u32 \<Rightarrow> 'e \<Rightarrow> 'e"
  eg_blocked :: "'e \<Rightarrow> nat \<Rightarrow> bool"

definition pthread_barrier_destroy :: "'e egroup \<Rightarrow> (nat \<Rightarrow> nat) \<Rightarrow> 'e barrier \<Rightarrow> int \<times> 'e barrier" where
  "pthread_barrier_destroy K delete_sem b =
     (0, b\<lparr>xBarrierEventGroup := vEventGroupDelete K (xBarrierEventGroup b),
           xThreadCountSemaphore := delete_sem (xThreadCountSemaphore b)\<rparr>)"

definition pthread_barrier_init :: "'e egroup \<Rightarrow> 'e barrier \<Rightarrow> u32 \<Rightarrow> int \<times> 'e barrier" where
  "pthread_barrier_init K b count =
     (let iStatus = (if count = 0 then EINVAL else 0);
          iStatus = (if iStatus = 0 then if count > posixPTHREAD_BARRIER_MAX_COUNT then ENOMEM else iStatus else iStatus)
      in (iStatus,
          if iStatus = 0
          then b\<lparr>uThreadCount := 0, uThreshold := count, xBarrierEventGroup := xEventGroupCreate K, xThreadCountSemaphore := unat count\<rparr>
          else b))"

subsection \<open>Waiting\<close>

text \<open>
  Where a thread is in \<open>pthread_barrier_wait\<close>: not in it, past the semaphore, with its number, in the event group, or, as
  the serial thread, in the loop that resets the semaphore.
\<close>

datatype bpc = Outside | Admitted | Numbered u32 | Syncing u32 | Resetting u32

text \<open>The barrier and its threads, with the numbers of calls that have reached the event group, returned, and returned as the serial thread.\<close>

record 'e bsys =
  bar :: "'e barrier"
  pc :: "nat \<Rightarrow> bpc"
  reached :: nat
  returned :: nat
  serials :: nat

definition barrier_mask :: "'e barrier \<Rightarrow> u32" where
  "barrier_mask b = push_bit (unat (uThreshold b)) 1 - 1"

text \<open>The semaphore never holds more than the maximum it was created with, the threshold.\<close>

definition give_thread :: "'e barrier \<Rightarrow> 'e barrier" where
  "give_thread b = b\<lparr>xThreadCountSemaphore := min (unat (uThreshold b)) (xThreadCountSemaphore b + 1)\<rparr>"

text \<open>The next step of a thread, or \<open>None\<close> while it is blocked.\<close>

fun barrier_wait_step :: "'e egroup \<Rightarrow> nat \<Rightarrow> 'e bsys \<Rightarrow> 'e bsys option" where
  "barrier_wait_step K t s =
     (let b = bar s in
      case pc s t of
        Outside \<Rightarrow>
          if xThreadCountSemaphore b = 0 then None
          else Some (s\<lparr>bar := b\<lparr>xThreadCountSemaphore := xThreadCountSemaphore b - 1\<rparr>, pc := (pc s)(t := Admitted)\<rparr>)
      | Admitted \<Rightarrow>
          Some (s\<lparr>bar := b\<lparr>uThreadCount := uThreadCount b + 1\<rparr>, pc := (pc s)(t := Numbered (uThreadCount b))\<rparr>)
      | Numbered uThreadNumber \<Rightarrow>
          Some (s\<lparr>bar := b\<lparr>xBarrierEventGroup :=
                  xEventGroupSync K t (push_bit (unat uThreadNumber) 1) (barrier_mask b) (xBarrierEventGroup b)\<rparr>,
                  pc := (pc s)(t := Syncing uThreadNumber), reached := reached s + 1\<rparr>)
      | Syncing uThreadNumber \<Rightarrow>
          if eg_blocked K (xBarrierEventGroup b) t then None
          else if uThreadNumber = 0
          then Some (s\<lparr>bar := b\<lparr>uThreadCount := 0\<rparr>, pc := (pc s)(t := Resetting 0)\<rparr>)
          else Some (s\<lparr>pc := (pc s)(t := Outside), returned := returned s + 1\<rparr>)
      | Resetting i \<Rightarrow>
          (let s = s\<lparr>bar := give_thread b\<rparr>
           in if i + 1 < uThreshold b then Some (s\<lparr>pc := (pc s)(t := Resetting (i + 1))\<rparr>)
              else Some (s\<lparr>pc := (pc s)(t := Outside), returned := returned s + 1, serials := serials s + 1\<rparr>)))"

definition egroup_laws :: "'e egroup \<Rightarrow> ('e \<Rightarrow> u32) \<Rightarrow> u32 \<Rightarrow> bool" where
  "egroup_laws K bits m \<longleftrightarrow>
     bits (xEventGroupCreate K) = 0 \<and> (\<forall>t. \<not> eg_blocked K (xEventGroupCreate K) t) \<and>
     (\<forall>e t v.
        (bits e OR v) AND m = m \<longrightarrow> bits (xEventGroupSync K t v m e) = (bits e OR v) AND NOT m \<and>
           (\<forall>u. \<not> eg_blocked K (xEventGroupSync K t v m e) u)) \<and>
     (\<forall>e t v.
        (bits e OR v) AND m \<noteq> m \<longrightarrow> bits (xEventGroupSync K t v m e) = bits e OR v \<and>
           (\<forall>u. eg_blocked K (xEventGroupSync K t v m e) u \<longleftrightarrow> u = t \<or> eg_blocked K e u))"

text \<open>Every sequence of steps of the threads below \<open>N\<close> on a barrier that has been initialised.\<close>

inductive barrier_reach :: "'e egroup \<Rightarrow> nat \<Rightarrow> 'e barrier \<Rightarrow> 'e bsys \<Rightarrow> bool" for K N b0 where
  start: "barrier_reach K N b0 \<lparr>bar = b0, pc = \<lambda>_. Outside, reached = 0, returned = 0, serials = 0\<rparr>"
| step: "barrier_reach K N b0 s \<Longrightarrow> t < N \<Longrightarrow> barrier_wait_step K t s = Some s' \<Longrightarrow> barrier_reach K N b0 s'"

subsection \<open>The invariant\<close>

text \<open>
  A thread counts towards what follows by its place and by whether it waits: as one of the current round, as one with a
  number, as one that waits, as one that is let go, as the serial thread before it resets the counter, and as the one that
  owes tokens to the semaphore.
\<close>

type_synonym weight = "bpc \<Rightarrow> bool \<Rightarrow> nat"

fun in_round :: weight where
  "in_round Admitted w = 1"
| "in_round (Numbered n) w = 1"
| "in_round (Syncing n) w = (if w then 1 else 0)"
| "in_round _ w = 0"

fun has_number :: weight where
  "has_number (Numbered n) w = 1"
| "has_number (Syncing n) w = (if w then 1 else 0)"
| "has_number _ w = 0"

fun in_group :: weight where
  "in_group (Syncing n) w = (if w then 1 else 0)"
| "in_group _ w = 0"

fun let_go :: weight where
  "let_go (Syncing n) w = (if w then 0 else 1)"
| "let_go (Resetting i) w = 1"
| "let_go _ w = 0"

fun first_out :: weight where
  "first_out (Syncing n) w = (if n = 0 \<and> \<not> w then 1 else 0)"
| "first_out _ w = 0"

fun serial_thread :: weight where
  "serial_thread (Resetting i) w = 1"
| "serial_thread _ w = 0"

fun owes :: "u32 \<Rightarrow> weight" where
  "owes th (Resetting i) w = unat th - unat i"
| "owes th _ w = 0"

definition waits :: "'e egroup \<Rightarrow> 'e bsys \<Rightarrow> nat \<Rightarrow> bool" where
  "waits K s t = eg_blocked K (xBarrierEventGroup (bar s)) t"

definition tally :: "'e egroup \<Rightarrow> nat \<Rightarrow> weight \<Rightarrow> 'e bsys \<Rightarrow> nat" where
  "tally K N f s = (\<Sum>t<N. f (pc s t) (waits K s t))"

text \<open>The number of a thread of the current round.\<close>

definition number :: "'e egroup \<Rightarrow> 'e bsys \<Rightarrow> nat \<Rightarrow> u32 \<Rightarrow> bool" where
  "number K s t n \<longleftrightarrow> pc s t = Numbered n \<or> (pc s t = Syncing n \<and> waits K s t)"

definition group_bit :: "'e egroup \<Rightarrow> 'e bsys \<Rightarrow> nat \<Rightarrow> bool" where
  "group_bit K s k \<longleftrightarrow> (\<exists>t n. pc s t = Syncing n \<and> waits K s t \<and> k = unat n)"

definition barrier_inv :: "'e egroup \<Rightarrow> ('e \<Rightarrow> u32) \<Rightarrow> nat \<Rightarrow> u32 \<Rightarrow> 'e bsys \<Rightarrow> bool" where
  "barrier_inv K bits N th s \<longleftrightarrow>
     uThreshold (bar s) = th \<and>
     (\<forall>t. N \<le> t \<longrightarrow> pc s t = Outside) \<and>
     (\<forall>t. waits K s t \<longrightarrow> (\<exists>n. pc s t = Syncing n)) \<and>
     (\<forall>t i. pc s t = Resetting i \<longrightarrow> i < th) \<and>
     (\<forall>t u n. number K s t n \<longrightarrow> number K s u n \<longrightarrow> t = u) \<and>
     (\<forall>t n. number K s t n \<longrightarrow> n < uThreadCount (bar s)) \<and>
     (\<forall>k. bit (bits (xBarrierEventGroup (bar s))) k \<longleftrightarrow> group_bit K s k) \<and>
     bits (xBarrierEventGroup (bar s)) AND (push_bit (unat th) 1 - 1) \<noteq> push_bit (unat th) 1 - 1 \<and>
     (tally K N first_out s = 0 \<longrightarrow> unat (uThreadCount (bar s)) = tally K N has_number s) \<and>
     xThreadCountSemaphore (bar s) + tally K N in_round s + tally K N (owes th) s + unat th * tally K N first_out s = unat th \<and>
     (\<exists>rounds. serials s + tally K N serial_thread s + tally K N first_out s = rounds \<and>
        returned s + tally K N let_go s = unat th * rounds \<and>
        reached s = unat th * rounds + tally K N in_group s)"

lemma tally_upd:
  assumes "t < N" "pc s' = (pc s)(t := p)" "\<And>u. u \<noteq> t \<Longrightarrow> waits K s' u = waits K s u"
  shows "tally K N f s' + f (pc s t) (waits K s t) = tally K N f s + f p (waits K s' t)"
proof -
  have "tally K N f s' = (\<Sum>u \<in> {..<N} - {t}. f (pc s u) (waits K s u)) + f p (waits K s' t)"
    unfolding tally_def using assms by (subst sum.remove [of _ t]) (auto intro!: sum.cong)
  moreover have "tally K N f s = (\<Sum>u \<in> {..<N} - {t}. f (pc s u) (waits K s u)) + f (pc s t) (waits K s t)"
    unfolding tally_def using assms(1) by (subst sum.remove [of _ t]) (auto intro!: sum.cong)
  ultimately show ?thesis by simp
qed

lemma tally_le: "(\<And>p w. f p w \<le> g p w) \<Longrightarrow> tally K N f s \<le> tally K N g s"
  unfolding tally_def by (rule sum_mono) simp

lemma has_number_le: "tally K N has_number s \<le> tally K N in_round s"
  by (rule tally_le, rename_tac p w, case_tac p) auto

lemma waits_local: "xBarrierEventGroup (bar s') = xBarrierEventGroup (bar s) \<Longrightarrow> waits K s' = waits K s"
  by (simp add: waits_def fun_eq_iff)

lemma tally_local:
  assumes "t < N" "pc s' = (pc s)(t := p)" "xBarrierEventGroup (bar s') = xBarrierEventGroup (bar s)"
  shows "tally K N f s' + f (pc s t) (waits K s t) = tally K N f s + f p (waits K s t)"
  using tally_upd [OF assms(1,2), of K f] waits_local [OF assms(3), of K] by simp

lemma group_bit_local:
  assumes "pc s' = (pc s)(t := p)" "xBarrierEventGroup (bar s') = xBarrierEventGroup (bar s)" "\<not> waits K s t"
  shows "group_bit K s' k = group_bit K s k"
proof -
  have "pc s' u = Syncing n \<and> waits K s u \<longleftrightarrow> pc s u = Syncing n \<and> waits K s u" for u n using assms(1,3) by auto
  then show ?thesis unfolding group_bit_def waits_local [OF assms(2), of K] by blast
qed

lemma tally_pos: "t < N \<Longrightarrow> 0 < f (pc s t) (waits K s t) \<Longrightarrow> 0 < tally K N f s"
  unfolding tally_def by (subst sum.remove [of _ t]) auto

lemma phase:
  assumes "k + a + b + th * z = (th :: nat)" "0 < th"
  shows "z = 0 \<or> z = 1 \<and> k = 0 \<and> a = 0 \<and> b = 0"
proof -
  have "z \<le> 1"
  proof (rule ccontr)
    assume "\<not> z \<le> 1"
    then have "th * 2 \<le> th * z" by (intro mult_le_mono2) simp
    then show False using assms by linarith
  qed
  then consider "z = 0" | "z = 1" by linarith
  then show ?thesis using assms by cases auto
qed

lemma inv_phase:
  assumes "barrier_inv K bits N th s" "0 < th"
  shows "tally K N first_out s = 0 \<or>
    tally K N first_out s = 1 \<and> xThreadCountSemaphore (bar s) = 0 \<and> tally K N in_round s = 0 \<and> tally K N (owes th) s = 0"
  by (rule phase [of _ _ _ "unat th"]) (use assms in \<open>simp_all add: barrier_inv_def word_less_nat_alt\<close>)

lemma inv_inside: "barrier_inv K bits N th s \<Longrightarrow> pc s t \<noteq> Outside \<Longrightarrow> t < N"
  by (rule ccontr) (simp add: barrier_inv_def)

lemma inv_waits: "barrier_inv K bits N th s \<Longrightarrow> waits K s t \<Longrightarrow> \<exists>n. pc s t = Syncing n"
  by (simp add: barrier_inv_def)

lemma inv_number: "barrier_inv K bits N th s \<Longrightarrow> number K s t n \<Longrightarrow> t < N"
  by (rule inv_inside) (auto simp: number_def)

lemma tally_group: "barrier_inv K bits N th s \<Longrightarrow> tally K N in_group s = card {u \<in> {..<N}. waits K s u}"
proof -
  assume "barrier_inv K bits N th s"
  then have "in_group (pc s u) (waits K s u) = (if waits K s u then 1 else 0)" for u
    using inv_waits [of K bits N th s u] by (cases "pc s u") auto
  then show ?thesis by (simp add: tally_def sum.If_cases Int_def)
qed

lemma inv_distinct: "barrier_inv K bits N th s \<Longrightarrow> number K s t n \<Longrightarrow> number K s u n \<Longrightarrow> t = u"
  unfolding barrier_inv_def by blast

lemma step_admit:
  assumes "barrier_inv K bits N th s" "t < N" "pc s t = Outside" "0 < th"
    and s': "bar s' = (bar s)\<lparr>xThreadCountSemaphore := k\<rparr>" "pc s' = (pc s)(t := Admitted)" "k + 1 = xThreadCountSemaphore (bar s)"
      "reached s' = reached s" "returned s' = returned s" "serials s' = serials s"
  shows "barrier_inv K bits N th s'"
proof -
  have w: "waits K s' = waits K s" by (rule waits_local) (simp add: s')
  have nw: "\<not> waits K s t" using assms(1,3) by (auto simp: barrier_inv_def)
  have T: "tally K N f s' + f Outside (waits K s t) = tally K N f s + f Admitted (waits K s t)" for f
    using tally_local [OF assms(2) s'(2), of K f] assms(3) s'(1) by simp
  note t = T [of in_round] T [of has_number] T [of in_group] T [of let_go] T [of first_out] T [of serial_thread] T [of "owes th"]
  have n: "number K s' u n = number K s u n" for u n using assms(3) by (simp add: number_def w s')
  have b: "group_bit K s' k = group_bit K s k" for k by (rule group_bit_local [OF s'(2) _ nw]) (simp add: s')
  show ?thesis using assms(1-3) t s'(3-) unfolding barrier_inv_def n w b by (auto simp: s')
qed

lemma step_number:
  assumes "barrier_inv K bits N th s" "t < N" "pc s t = Admitted" "0 < th" "th \<le> 24"
    and s': "bar s' = (bar s)\<lparr>uThreadCount := uThreadCount (bar s) + 1\<rparr>" "pc s' = (pc s)(t := Numbered (uThreadCount (bar s)))"
      "reached s' = reached s" "returned s' = returned s" "serials s' = serials s"
  shows "barrier_inv K bits N th s'"
proof -
  let ?c = "uThreadCount (bar s)"
  have w: "waits K s' = waits K s" by (rule waits_local) (simp add: s')
  have nw: "\<not> waits K s t" using assms(1,3) by (auto simp: barrier_inv_def)
  have T: "tally K N f s' + f Admitted (waits K s t) = tally K N f s + f (Numbered ?c) (waits K s t)" for f
    using tally_local [OF assms(2) s'(2), of K f] assms(3) s'(1) by simp
  note t = T [of in_round] T [of has_number] T [of in_group] T [of let_go] T [of first_out] T [of serial_thread] T [of "owes th"]
  have pos: "0 < tally K N in_round s" by (rule tally_pos [OF assms(2)]) (simp add: assms(3))
  have th: "0 < unat th" "unat th \<le> 24" using assms(4,5) by (simp_all add: word_less_nat_alt word_le_nat_alt)
  have z: "tally K N first_out s = 0" using inv_phase [OF assms(1,4)] pos by auto
  then have c: "unat ?c = tally K N has_number s" "unat ?c \<le> 24"
    using assms(1) has_number_le [of K N s] th by (auto simp: barrier_inv_def)
  have c1: "unat (?c + 1) = unat ?c + 1" using c(2) by (subst unat_add_u32) simp_all
  have n: "number K s' u n \<longleftrightarrow> (if u = t then n = ?c else number K s u n)" for u n by (auto simp: number_def w nw s')
  have lt: "n < ?c + 1" if "n < ?c \<or> n = ?c" for n using that c1 by (auto simp: word_less_nat_alt)
  have fresh: "\<not> number K s u ?c" for u using assms(1) by (auto simp: barrier_inv_def)
  have b: "group_bit K s' k = group_bit K s k" for k by (rule group_bit_local [OF s'(2) _ nw]) (simp add: s')
  show ?thesis using assms(1) t z c c1 lt fresh assms(2,3) s'(3-) unfolding barrier_inv_def b n w by (auto simp: s')
qed

lemma step_return:
  assumes "barrier_inv K bits N th s" "t < N" "pc s t = Syncing n" "\<not> waits K s t" "n \<noteq> 0"
    and s': "bar s' = bar s" "pc s' = (pc s)(t := Outside)"
      "reached s' = reached s" "returned s' = returned s + 1" "serials s' = serials s"
  shows "barrier_inv K bits N th s'"
proof -
  have w: "waits K s' = waits K s" by (rule waits_local) (simp add: s')
  have T: "tally K N f s' + f (Syncing n) False = tally K N f s + f Outside False" for f
    using tally_local [OF assms(2) s'(2), of K f] assms(3,4) s'(1) by simp
  note t = T [of in_round] T [of has_number] T [of in_group] T [of let_go] T [of first_out] T [of serial_thread] T [of "owes th"]
  have n: "number K s' u m = number K s u m" for u m using assms(3,4) by (auto simp: number_def w s')
  have b: "group_bit K s' k = group_bit K s k" for k by (rule group_bit_local [OF s'(2) _ assms(4)]) (simp add: s')
  show ?thesis using assms(1-5) t s'(3-) unfolding barrier_inv_def n w b by (auto simp: s')
qed

lemma step_serial:
  assumes "barrier_inv K bits N th s" "t < N" "pc s t = Syncing 0" "\<not> waits K s t" "0 < th"
    and s': "bar s' = (bar s)\<lparr>uThreadCount := 0\<rparr>" "pc s' = (pc s)(t := Resetting 0)"
      "reached s' = reached s" "returned s' = returned s" "serials s' = serials s"
  shows "barrier_inv K bits N th s'"
proof -
  have w: "waits K s' = waits K s" by (rule waits_local) (simp add: s')
  have T: "tally K N f s' + f (Syncing 0) False = tally K N f s + f (Resetting 0) False" for f
    using tally_local [OF assms(2) s'(2), of K f] assms(3,4) s'(1) by simp
  note t = T [of in_round] T [of has_number] T [of in_group] T [of let_go] T [of first_out] T [of serial_thread] T [of "owes th"]
  have pos: "0 < tally K N first_out s" by (rule tally_pos [OF assms(2)]) (simp add: assms(3,4))
  have th: "0 < unat th" using assms(5) by (simp add: word_less_nat_alt)
  have z: "tally K N first_out s = 1" "xThreadCountSemaphore (bar s) = 0" "tally K N in_round s = 0" "tally K N (owes th) s = 0"
    using inv_phase [OF assms(1,5)] pos by auto
  have r: "\<not> number K s u m" for u m
  proof
    assume "number K s u m"
    moreover from this have "u < N" by (rule inv_number [OF assms(1)])
    ultimately have "0 < tally K N in_round s" by (intro tally_pos) (auto simp: number_def)
    then show False using z by simp
  qed
  have n: "number K s' u m = number K s u m" for u m using assms(3,4) by (auto simp: number_def w s')
  have b: "group_bit K s' k = group_bit K s k" for k by (rule group_bit_local [OF s'(2) _ assms(4)]) (simp add: s')
  have h: "tally K N has_number s = 0" using has_number_le [of K N s] z by simp
  show ?thesis using assms(1-5) t s'(3-) z r h th unfolding barrier_inv_def n w b by (auto simp: s')
qed

lemma step_give:
  assumes "barrier_inv K bits N th s" "t < N" "pc s t = Resetting i" "0 < th" "th \<le> 24"
    and s': "bar s' = give_thread (bar s)"
      "pc s' = (pc s)(t := (if i + 1 < th then Resetting (i + 1) else Outside))"
      "reached s' = reached s" "returned s' = returned s + (if i + 1 < th then 0 else 1)"
      "serials s' = serials s + (if i + 1 < th then 0 else 1)"
  shows "barrier_inv K bits N th s'"
proof -
  have w: "waits K s' = waits K s" by (rule waits_local) (simp add: s' give_thread_def)
  have nw: "\<not> waits K s t" using assms(1,3) by (auto simp: barrier_inv_def)
  have T: "tally K N f s' + f (Resetting i) False = tally K N f s + f (if i + 1 < th then Resetting (i + 1) else Outside) False" for f
    using tally_local [OF assms(2) s'(2), of K f] assms(3) nw s'(1) by (simp add: give_thread_def)
  note t = T [of in_round] T [of has_number] T [of in_group] T [of let_go] T [of first_out] T [of serial_thread] T [of "owes th"]
  have th: "0 < unat th" "unat th \<le> 24" using assms(4,5) by (simp_all add: word_less_nat_alt word_le_nat_alt)
  have i: "unat i < unat th" using assms(1,3) by (auto simp: barrier_inv_def word_less_nat_alt)
  then have i1: "unat (i + 1) = unat i + 1" using th by (subst unat_add_u32) simp_all
  have l: "i + 1 < th \<longleftrightarrow> unat i + 1 < unat th" using i1 by (simp add: word_less_nat_alt)
  have pos: "0 < tally K N (owes th) s" by (rule tally_pos [OF assms(2)]) (simp add: assms(3) i)
  have n: "number K s' u m = number K s u m" for u m using assms(3) by (auto simp: number_def w s')
  have b: "group_bit K s' k = group_bit K s k" for k by (rule group_bit_local [OF s'(2) _ nw]) (simp add: s' give_thread_def)
  have k: "xThreadCountSemaphore (bar s') = xThreadCountSemaphore (bar s) + 1"
    using assms(1) pos by (auto simp: s' give_thread_def barrier_inv_def)
  have o: "tally K N (owes th) s' + 1 = tally K N (owes th) s" using t(7) i i1 l by (auto split: if_splits)
  have r: "\<forall>u j. pc s' u = Resetting j \<longrightarrow> j < th" using assms(1) by (auto simp: s' barrier_inv_def split: if_splits)
  have f: "tally K N in_round s' = tally K N in_round s" "tally K N has_number s' = tally K N has_number s"
    "tally K N in_group s' = tally K N in_group s" "tally K N first_out s' = tally K N first_out s"
    "returned s' + tally K N let_go s' = returned s + tally K N let_go s"
    "serials s' + tally K N serial_thread s' = serials s + tally K N serial_thread s"
    using t(1-6) s'(4,5) by (auto split: if_splits)
  have p: "\<forall>u. N \<le> u \<longrightarrow> pc s' u = Outside" using assms(1,2) by (auto simp: s' barrier_inv_def)
  have q: "\<forall>u. waits K s u \<longrightarrow> (\<exists>n. pc s' u = Syncing n)" using assms(1) nw by (auto simp: s' barrier_inv_def)
  have e: "uThreadCount (bar s') = uThreadCount (bar s)" "uThreshold (bar s') = uThreshold (bar s)"
    "xBarrierEventGroup (bar s') = xBarrierEventGroup (bar s)" by (simp_all add: s'(1) give_thread_def)
  show ?thesis using assms(1) f o k r p q s'(3) unfolding barrier_inv_def n w b e by force
qed

text \<open>Reaching the event group: the thread is the last of its round when the bits of all others are set.\<close>

lemma barrier_bits:
  assumes "n < th" "th \<le> (24 :: u32)"
  shows "bit (push_bit (unat n) 1 :: u32) k \<longleftrightarrow> k = unat n" "bit (push_bit (unat th) 1 - 1 :: u32) k \<longleftrightarrow> k < unat th"
proof -
  have u: "unat th \<le> 24" "unat n < unat th" using assms by (simp_all add: word_less_nat_alt word_le_nat_alt)
  show "bit (push_bit (unat n) 1 :: u32) k \<longleftrightarrow> k = unat n" using u by (auto simp: bit_exp_iff)
  have "push_bit (unat th) 1 - 1 = (mask (unat th) :: u32)" by (simp add: mask_eq_exp_minus_1)
  then show "bit (push_bit (unat th) 1 - 1 :: u32) k \<longleftrightarrow> k < unat th" using u by (auto simp: bit_mask_iff)
qed

lemma numbered_facts:
  assumes "barrier_inv K bits N th s" "t < N" "pc s t = Numbered n" "0 < th"
  shows "tally K N first_out s = 0" "\<not> waits K s t" "n < th" "unat (uThreadCount (bar s)) = tally K N has_number s"
    "number K s t n" "uThreadCount (bar s) \<le> th"
proof -
  have "0 < tally K N in_round s" by (rule tally_pos [OF assms(2)]) (simp add: assms(3))
  then show z: "tally K N first_out s = 0" using inv_phase [OF assms(1,4)] by auto
  show "\<not> waits K s t" using assms(1,3) by (auto simp: barrier_inv_def)
  show k: "number K s t n" using assms(3) by (simp add: number_def)
  show c: "unat (uThreadCount (bar s)) = tally K N has_number s" using assms(1) z by (simp add: barrier_inv_def)
  also have "\<dots> \<le> unat th" using has_number_le [of K N s] assms(1) by (auto simp: barrier_inv_def)
  finally show "uThreadCount (bar s) \<le> th" by (simp add: word_le_nat_alt)
  moreover have "n < uThreadCount (bar s)" using assms(1) k by (auto simp: barrier_inv_def)
  ultimately show "n < th" by simp
qed

lemma step_block:
  assumes "barrier_inv K bits N th s" "t < N" "pc s t = Numbered n" "0 < th" "th \<le> 24"
    and s': "uThreadCount (bar s') = uThreadCount (bar s)" "uThreshold (bar s') = uThreshold (bar s)"
      "xThreadCountSemaphore (bar s') = xThreadCountSemaphore (bar s)" "pc s' = (pc s)(t := Syncing n)"
      "reached s' = reached s + 1" "returned s' = returned s" "serials s' = serials s"
    and g: "bits (xBarrierEventGroup (bar s')) = bits (xBarrierEventGroup (bar s)) OR push_bit (unat n) 1"
      "\<And>u. waits K s' u \<longleftrightarrow> u = t \<or> waits K s u"
      "bits (xBarrierEventGroup (bar s')) AND (push_bit (unat th) 1 - 1) \<noteq> push_bit (unat th) 1 - 1"
  shows "barrier_inv K bits N th s'"
proof -
  note f = numbered_facts [OF assms(1-4)]
  have T: "tally K N f s' + f (Numbered n) False = tally K N f s + f (Syncing n) True" for f
    using tally_upd [OF assms(2) s'(4), of K f] assms(3) f(2) g(2) by simp
  note t = T [of in_round] T [of has_number] T [of in_group] T [of let_go] T [of first_out] T [of serial_thread] T [of "owes th"]
  have n: "number K s' u m = number K s u m" for u m using assms(3) g(2) by (auto simp: number_def s')
  have b: "group_bit K s' k \<longleftrightarrow> group_bit K s k \<or> k = unat n" for k
    using f(2) unfolding group_bit_def g(2) s'(4) by (auto split: if_splits)
  have "bit (bits (xBarrierEventGroup (bar s'))) k \<longleftrightarrow> group_bit K s' k" for k
    using assms(1) barrier_bits(1) [OF f(3) assms(5)] by (simp add: g(1) bit_or_iff b barrier_inv_def)
  then show ?thesis using assms(1-3) t s' g(2,3) unfolding barrier_inv_def n by auto
qed

text \<open>The last thread of a round: all threads of the round are in the group, and there are as many as the threshold.\<close>

lemma full_round:
  assumes "barrier_inv K bits N th s" "t < N" "pc s t = Numbered n" "0 < th" "th \<le> 24"
    and "(bits (xBarrierEventGroup (bar s)) OR push_bit (unat n) 1) AND (push_bit (unat th) 1 - 1) = push_bit (unat th) 1 - 1"
  shows "tally K N in_round s = unat th" "tally K N in_group s + 1 = unat th" "xThreadCountSemaphore (bar s) = 0"
    "\<And>u. u < N \<Longrightarrow> u \<noteq> t \<Longrightarrow> in_round (pc s u) (waits K s u) = in_group (pc s u) (waits K s u)"
    "\<exists>u < N. number K s u 0"
proof -
  note f = numbered_facts [OF assms(1-4)]
  define num where "num u = (case pc s u of Numbered n \<Rightarrow> n | Syncing n \<Rightarrow> n | _ \<Rightarrow> 0)" for u
  let ?W = "{u \<in> {..<N}. waits K s u}"
  have inN: "u < N" if "waits K s u" for u
    using inv_inside [OF assms(1)] inv_waits [OF assms(1) that] by force
  have all: "\<exists>u \<in> insert t ?W. unat (num u) = k \<and> number K s u (num u)" if "k < unat th" for k
  proof -
    have "bit ((bits (xBarrierEventGroup (bar s)) OR push_bit (unat n) 1) AND (push_bit (unat th) 1 - 1)) k"
      unfolding assms(6) using barrier_bits(2) [OF f(3) assms(5)] that by simp
    then have "group_bit K s k \<or> k = unat n"
      using barrier_bits(1) [OF f(3) assms(5)] assms(1) by (simp add: bit_and_iff bit_or_iff barrier_inv_def)
    then show ?thesis
    proof
      assume "group_bit K s k"
      then obtain u m where "pc s u = Syncing m" "waits K s u" "k = unat m" by (auto simp: group_bit_def)
      then show ?thesis using inN by (intro bexI [of _ u]) (auto simp: num_def number_def)
    next
      assume "k = unat n"
      then show ?thesis using assms(3) f(5) by (intro bexI [of _ t]) (auto simp: num_def)
    qed
  qed
  have "{..<unat th} \<subseteq> (\<lambda>u. unat (num u)) ` insert t ?W" using all by (auto simp: image_iff)
  then have "card {..<unat th} \<le> card ((\<lambda>u. unat (num u)) ` insert t ?W)" by (intro card_mono) auto
  also have "\<dots> \<le> card (insert t ?W)" by (rule card_image_le) simp
  also have "\<dots> = card ?W + 1" using f(2) by simp
  also have "card ?W = tally K N in_group s" by (rule tally_group [OF assms(1), symmetric])
  finally have le: "unat th \<le> tally K N in_group s + 1" by simp
  have u1: "tally K N f s = (\<Sum>u \<in> {..<N} - {t}. f (pc s u) (waits K s u)) + f (Numbered n) False" for f
    unfolding tally_def using assms(2,3) f(2) by (subst sum.remove [of _ t]) auto
  have pw: "in_group p w \<le> in_round p w" for p w by (cases p) auto
  then have "(\<Sum>u \<in> {..<N} - {t}. in_group (pc s u) (waits K s u)) \<le> (\<Sum>u \<in> {..<N} - {t}. in_round (pc s u) (waits K s u))"
    by (intro sum_mono) simp
  moreover have "xThreadCountSemaphore (bar s) + tally K N in_round s + tally K N (owes th) s = unat th"
    using assms(1) f(1) by (simp add: barrier_inv_def)
  ultimately have e: "(\<Sum>u \<in> {..<N} - {t}. in_group (pc s u) (waits K s u)) = (\<Sum>u \<in> {..<N} - {t}. in_round (pc s u) (waits K s u))"
    "tally K N in_round s = unat th" "tally K N in_group s + 1 = unat th" "xThreadCountSemaphore (bar s) = 0"
    using le u1 [of in_group] u1 [of in_round] by simp_all
  show "tally K N in_round s = unat th" "tally K N in_group s + 1 = unat th" "xThreadCountSemaphore (bar s) = 0" by (fact e)+
  show "in_round (pc s u) (waits K s u) = in_group (pc s u) (waits K s u)" if "u < N" "u \<noteq> t" for u
    by (rule sum_mono_inv [OF e(1), symmetric]) (use that pw in auto)
  obtain u where "number K s u (num u)" "unat (num u) = 0" using all [of 0] assms(4) by (auto simp: word_less_nat_alt)
  then show "\<exists>u < N. number K s u 0" using inv_number [OF assms(1)] by (auto simp: unsigned_eq_0_iff)
qed

lemma sum_one: "finite A \<Longrightarrow> a \<in> A \<Longrightarrow> f a = 1 \<Longrightarrow> (\<And>x. x \<in> A \<Longrightarrow> x \<noteq> a \<Longrightarrow> f x = 0) \<Longrightarrow> sum f A = (1 :: nat)"
  by (subst sum.remove [of _ a]) auto

lemma step_release:
  assumes "barrier_inv K bits N th s" "t < N" "pc s t = Numbered n" "0 < th" "th \<le> 24"
    and s': "uThreadCount (bar s') = uThreadCount (bar s)" "uThreshold (bar s') = uThreshold (bar s)"
      "xThreadCountSemaphore (bar s') = xThreadCountSemaphore (bar s)" "pc s' = (pc s)(t := Syncing n)"
      "reached s' = reached s + 1" "returned s' = returned s" "serials s' = serials s"
    and full: "(bits (xBarrierEventGroup (bar s)) OR push_bit (unat n) 1) AND (push_bit (unat th) 1 - 1) = push_bit (unat th) 1 - 1"
    and g: "bits (xBarrierEventGroup (bar s')) = (bits (xBarrierEventGroup (bar s)) OR push_bit (unat n) 1) AND NOT (push_bit (unat th) 1 - 1)"
      "\<And>u. \<not> waits K s' u"
  shows "barrier_inv K bits N th s'"
proof -
  note f = numbered_facts [OF assms(1-4)] and r = full_round [OF assms(1-5) full]
  note mask = barrier_bits [OF f(3) assms(5)]
  have other: "in_round (pc s u) (waits K s u) = in_group (pc s u) (waits K s u)" if "u \<noteq> t" for u
    using r(4) [OF _ that] inv_inside [OF assms(1), of u] by (cases "u < N"; cases "pc s u = Outside") auto
  have none: "in_round (pc s' u) False = 0" "has_number (pc s' u) False = 0" "in_group (pc s' u) False = 0"
    "let_go (pc s' u) False = let_go (pc s u) (waits K s u) + in_round (pc s u) (waits K s u)"
    "owes th (pc s' u) False = owes th (pc s u) (waits K s u)"
    "serial_thread (pc s' u) False = serial_thread (pc s u) (waits K s u)" for u
    using other [of u] assms(3) by (cases "pc s u"; auto simp: s'(4) split: if_splits)+
  have t: "tally K N in_round s' = 0" "tally K N has_number s' = 0" "tally K N in_group s' = 0"
    "tally K N let_go s' = tally K N let_go s + tally K N in_round s"
    "tally K N (owes th) s' = tally K N (owes th) s" "tally K N serial_thread s' = tally K N serial_thread s"
    by (simp_all add: tally_def g(2) none sum.distrib)
  obtain u0 where u0: "u0 < N" "number K s u0 0" using r(5) by blast
  have uniq: "u = v" if "number K s u m" "number K s v m" for u v m using inv_distinct [OF assms(1) that] .
  have first: "first_out (pc s' u) False = (if u = u0 then 1 else 0)" if "u < N" for u
  proof -
    have "\<not> waits K s u \<Longrightarrow> pc s u \<noteq> Syncing 0" using tally_pos [OF that, of first_out s K] f(1) by auto
    then have "number K s u 0 \<longleftrightarrow> pc s' u = Syncing 0"
      using assms(3) other [of u] by (cases "u = t"; cases "pc s u"; auto simp: number_def s'(4) split: if_splits)
    moreover have "u = u0 \<longleftrightarrow> number K s u 0" using u0(2) uniq by blast
    ultimately have "u = u0 \<longleftrightarrow> pc s' u = Syncing 0" by simp
    then show ?thesis by (cases "pc s' u") auto
  qed
  have z: "tally K N first_out s' = 1"
    unfolding tally_def by (rule sum_one [of _ u0]) (use u0(1) first g(2) in auto)
  have nn: "\<not> number K s' u m" for u m using none(2) [of u] g(2) by (auto simp: number_def)
  have nb: "\<not> group_bit K s' k" for k using g(2) by (simp add: group_bit_def)
  have "\<not> bit (bits (xBarrierEventGroup (bar s'))) k" for k
  proof -
    have "k < unat th" if "group_bit K s k \<or> k = unat n"
    proof -
      have "m < th" if "number K s u m" for u m using assms(1) that f(6) by (simp add: barrier_inv_def) (meson less_le_trans)
      then show ?thesis using that f(3) by (auto simp: group_bit_def number_def word_less_nat_alt)
    qed
    then show ?thesis using assms(1) mask by (auto simp: g(1) bit_and_iff bit_or_iff bit_not_iff barrier_inv_def)
  qed
  moreover have "bits (xBarrierEventGroup (bar s')) AND (push_bit (unat th) 1 - 1) \<noteq> push_bit (unat th) 1 - 1"
    using mask(2) [of 0] assms(4) by (metis and_zero_eq bit_and_iff calculation word_less_nat_alt unat_0)
  moreover have "\<exists>rounds. serials s' + tally K N serial_thread s' + tally K N first_out s' = rounds \<and>
      returned s' + tally K N let_go s' = unat th * rounds \<and> reached s' = unat th * rounds + tally K N in_group s'"
    using assms(1) f(1) t z r(1,2) s'(5-7) by (auto simp: barrier_inv_def algebra_simps)
  moreover have "\<forall>u i. pc s' u = Resetting i \<longrightarrow> i < th" "\<forall>u. N \<le> u \<longrightarrow> pc s' u = Outside"
    using assms(1,2) by (auto simp: s'(4) barrier_inv_def)
  ultimately show ?thesis
    using assms(1) f(1) s'(2,3) t z r(1,3) g(2) nn nb unfolding barrier_inv_def by simp
qed

lemma group_not_full:
  assumes "barrier_inv K bits N th s" "0 < th" "th \<le> 24"
  shows "tally K N in_group s < unat th"
proof (rule ccontr)
  assume "\<not> tally K N in_group s < unat th"
  define num where "num u = (case pc s u of Syncing n \<Rightarrow> n | _ \<Rightarrow> 0)" for u
  let ?W = "{u \<in> {..<N}. waits K s u}"
  have le: "tally K N in_group s \<le> tally K N in_round s" by (rule tally_le, rename_tac p w, case_tac p) auto
  have th: "0 < unat th" using assms(2) by (simp add: word_less_nat_alt)
  then have z: "tally K N first_out s = 0" using inv_phase [OF assms(1,2)] le \<open>\<not> _\<close> by linarith
  have num: "number K s u (num u)" if "waits K s u" for u
    using inv_waits [OF assms(1) that] that by (auto simp: num_def number_def)
  have inj: "inj_on (\<lambda>u. unat (num u)) ?W"
  proof (rule inj_onI)
    fix u v
    assume "u \<in> ?W" "v \<in> ?W" "unat (num u) = unat (num v)"
    then have "num u = num v" "waits K s u" "waits K s v" by (simp_all add: word_unat_eq_iff)
    then have "number K s u (num u)" "number K s v (num u)" using num [of u] num [of v] by simp_all
    then show "u = v" by (rule inv_distinct [OF assms(1)])
  qed
  have c: "unat (uThreadCount (bar s)) \<le> unat th"
    using assms(1) z has_number_le [of K N s] by (auto simp: barrier_inv_def)
  have sub: "(\<lambda>u. unat (num u)) ` ?W \<subseteq> {..<unat th}"
  proof
    fix k
    assume "k \<in> (\<lambda>u. unat (num u)) ` ?W"
    then obtain u where "waits K s u" "k = unat (num u)" by auto
    then have "num u < uThreadCount (bar s)" "k = unat (num u)" using num [of u] assms(1) by (simp_all add: barrier_inv_def)
    then show "k \<in> {..<unat th}" using c by (simp add: word_less_nat_alt)
  qed
  have "card {..<unat th} \<le> card ((\<lambda>u. unat (num u)) ` ?W)"
    using \<open>\<not> tally K N in_group s < unat th\<close> tally_group [OF assms(1)] card_image [OF inj] by simp
  then have eq: "(\<lambda>u. unat (num u)) ` ?W = {..<unat th}" using sub by (intro card_seteq) auto
  have "bit (bits (xBarrierEventGroup (bar s))) k" if "k < unat th" for k
  proof -
    have "k \<in> (\<lambda>u. unat (num u)) ` ?W" unfolding eq using that by simp
    then obtain u where u: "waits K s u" "k = unat (num u)" by auto
    moreover obtain n where "pc s u = Syncing n" using inv_waits [OF assms(1) u(1)] by blast
    ultimately have "group_bit K s k" by (auto simp: group_bit_def num_def)
    then show ?thesis using assms(1) by (simp add: barrier_inv_def)
  qed
  then have "bits (xBarrierEventGroup (bar s)) AND (push_bit (unat th) 1 - 1) = push_bit (unat th) 1 - 1"
    by (intro bit_eqI) (unfold bit_and_iff barrier_bits(2) [OF assms(2,3)], blast)
  then show False using assms(1) by (simp add: barrier_inv_def)
qed

lemma barrier_step_inv:
  assumes "egroup_laws K bits (push_bit (unat th) 1 - 1)" "0 < th" "th \<le> 24"
    and "barrier_inv K bits N th s" "t < N" "barrier_wait_step K t s = Some s'"
  shows "barrier_inv K bits N th s'"
proof (cases "pc s t")
  case Outside
  then show ?thesis using assms by (intro step_admit [OF assms(4,5) Outside assms(2)]) (auto simp: Let_def split: if_splits)
next
  case Admitted
  then show ?thesis using assms by (intro step_number [OF assms(4,5) Admitted assms(2,3)]) (auto simp: Let_def)
next
  case (Syncing n)
  then have w: "\<not> waits K s t" using assms(6) by (auto simp: waits_def split: if_splits)
  show ?thesis
  proof (cases "n = 0")
    case True
    then show ?thesis using assms(6) Syncing w
      by (intro step_serial [OF assms(4,5) _ w assms(2)]) (auto simp: waits_def Let_def)
  next
    case False
    then show ?thesis using assms(6) Syncing w
      by (intro step_return [OF assms(4,5) Syncing w]) (auto simp: waits_def Let_def)
  qed
next
  case (Resetting i)
  have "uThreshold (bar s) = th" using assms(4) by (simp add: barrier_inv_def)
  then show ?thesis using assms(6) Resetting
    by (intro step_give [OF assms(4,5) Resetting assms(2,3)]) (auto simp: Let_def split: if_splits)
next
  case (Numbered n)
  let ?e = "xBarrierEventGroup (bar s)" and ?v = "push_bit (unat n) 1 :: u32" and ?m = "push_bit (unat th) 1 - 1 :: u32"
  have th: "uThreshold (bar s) = th" using assms(4) by (simp add: barrier_inv_def)
  have s': "s' = s\<lparr>bar := (bar s)\<lparr>xBarrierEventGroup := xEventGroupSync K t ?v ?m ?e\<rparr>, pc := (pc s)(t := Syncing n), reached := reached s + 1\<rparr>"
    using assms(6) by (simp add: Numbered Let_def barrier_mask_def th)
  show ?thesis
  proof (cases "(bits ?e OR ?v) AND ?m = ?m")
    case True
    then have "bits (xEventGroupSync K t ?v ?m ?e) = (bits ?e OR ?v) AND NOT ?m" "\<And>u. \<not> eg_blocked K (xEventGroupSync K t ?v ?m ?e) u"
      using assms(1) unfolding egroup_laws_def by blast+
    then show ?thesis using True by (intro step_release [OF assms(4,5) Numbered assms(2,3)]) (simp_all add: s' waits_def)
  next
    case False
    then have "bits (xEventGroupSync K t ?v ?m ?e) = bits ?e OR ?v" "\<And>u. eg_blocked K (xEventGroupSync K t ?v ?m ?e) u \<longleftrightarrow> u = t \<or> eg_blocked K ?e u"
      using assms(1) unfolding egroup_laws_def by blast+
    then show ?thesis using False by (intro step_block [OF assms(4,5) Numbered assms(2,3)]) (simp_all add: s' waits_def)
  qed
qed

lemma barrier_init_ok:
  assumes "pthread_barrier_init K b count = (0, b0)"
  shows "0 < count" "count \<le> 24" "b0 = b\<lparr>uThreadCount := 0, uThreshold := count, xBarrierEventGroup := xEventGroupCreate K, xThreadCountSemaphore := unat count\<rparr>"
  using assms by (auto simp: pthread_barrier_init_def Let_def EINVAL_def ENOMEM_def posixPTHREAD_BARRIER_MAX_COUNT_def word_neq_0_conv split: if_splits)

lemma barrier_reach_inv:
  assumes "pthread_barrier_init K b count = (0, b0)" "egroup_laws K bits (push_bit (unat count) 1 - 1)" "barrier_reach K N b0 s"
  shows "barrier_inv K bits N count s"
  using assms(3)
proof induction
  case start
  note i = barrier_init_ok [OF assms(1)]
  let ?s = "\<lparr>bar = b0, pc = \<lambda>_. Outside, reached = 0, returned = 0, serials = 0\<rparr>"
  have e: "bits (xEventGroupCreate K) = 0" "\<And>t. \<not> eg_blocked K (xEventGroupCreate K) t" using assms(2) by (simp_all add: egroup_laws_def)
  have sel: "uThreadCount b0 = 0" "uThreshold b0 = count" "xBarrierEventGroup b0 = xEventGroupCreate K" "xThreadCountSemaphore b0 = unat count"
    by (simp_all add: i(3))
  have w: "waits K ?s = (\<lambda>_. False)" using e by (simp add: waits_def sel fun_eq_iff)
  have t: "tally K N f ?s = 0" if "f Outside False = 0" for f unfolding tally_def w using that by simp
  have t: "tally K N in_round ?s = 0" "tally K N has_number ?s = 0" "tally K N in_group ?s = 0" "tally K N let_go ?s = 0"
    "tally K N first_out ?s = 0" "tally K N serial_thread ?s = 0" "tally K N (owes count) ?s = 0"
    by (simp_all add: t)
  have "push_bit (unat count) 1 - 1 \<noteq> (0 :: u32)"
    using barrier_bits(2) [OF i(1,2), of 0] i(1) by (metis bit_0_eq bot_apply bot_bool_def word_less_nat_alt unat_0)
  then show ?case unfolding barrier_inv_def w number_def group_bit_def t by (simp add: sel e(1))
next
  case (step s t s')
  show ?case by (rule barrier_step_inv [OF assms(2) barrier_init_ok(1,2) [OF assms(1)] step(4,2,3)])
qed

text \<open>C11.
  The barrier holds: in every interleaving, no call returns before all calls of its round have arrived, since the number of
  returned calls never exceeds the number of complete rounds times the threshold; each round has at most one serial
  thread, and exactly one once all calls have returned.
\<close>

theorem barrier_rounds:
  assumes "pthread_barrier_init K b count = (0, b0)" "egroup_laws K bits (push_bit (unat count) 1 - 1)" "barrier_reach K N b0 s"
  shows "returned s \<le> unat count * (reached s div unat count) \<and> serials s \<le> reached s div unat count \<and>
     (returned s = reached s \<longrightarrow> unat count * serials s = returned s)"
proof -
  note i = barrier_init_ok [OF assms(1)] and inv = barrier_reach_inv [OF assms]
  have g: "tally K N in_group s < unat count" by (rule group_not_full [OF inv i(1,2)])
  obtain rounds where r: "serials s + tally K N serial_thread s + tally K N first_out s = rounds"
    "returned s + tally K N let_go s = unat count * rounds" "reached s = unat count * rounds + tally K N in_group s"
    using inv unfolding barrier_inv_def by blast
  have d: "reached s div unat count = rounds" using r(3) g by simp
  have le: "tally K N serial_thread s + tally K N first_out s \<le> tally K N let_go s"
  proof -
    have "serial_thread p w + first_out p w \<le> let_go p w" for p w by (cases p) auto
    then show ?thesis unfolding tally_def sum.distrib [symmetric] by (intro sum_mono) simp
  qed
  show ?thesis using r d le by auto
qed

text \<open>
  The barrier is never stuck: with at least as many threads as the threshold, some thread can take a step in every
  reachable state.
\<close>

theorem barrier_not_stuck:
  assumes "pthread_barrier_init K b count = (0, b0)" "egroup_laws K bits (push_bit (unat count) 1 - 1)" "barrier_reach K N b0 s"
    and "unat count \<le> N"
  shows "\<exists>t s'. t < N \<and> barrier_wait_step K t s = Some s'"
proof (rule ccontr)
  assume stuck: "\<nexists>t s'. t < N \<and> barrier_wait_step K t s = Some s'"
  note i = barrier_init_ok [OF assms(1)] and inv = barrier_reach_inv [OF assms(1-3)]
  have n: "barrier_wait_step K t s = None" if "t < N" for t using stuck that by (metis not_None_eq)
  have p: "pc s t = Outside \<or> (\<exists>n. pc s t = Syncing n \<and> waits K s t)" if "t < N" for t
    using n [OF that] by (cases "pc s t") (auto simp: Let_def waits_def split: if_splits)
  have w: "first_out (pc s t) (waits K s t) = 0" "owes count (pc s t) (waits K s t) = 0"
    "in_round (pc s t) (waits K s t) = in_group (pc s t) (waits K s t)" if "t < N" for t
    using p [OF that] by auto
  have z: "tally K N first_out s = 0" "tally K N (owes count) s = 0" "tally K N in_round s = tally K N in_group s"
    unfolding tally_def using w by simp_all
  have g: "tally K N in_group s < unat count" by (rule group_not_full [OF inv i(1,2)])
  then have "xThreadCountSemaphore (bar s) \<noteq> 0" using inv z by (simp add: barrier_inv_def)
  moreover obtain t where "t < N" "\<not> waits K s t"
  proof (rule ccontr)
    assume "\<not> thesis"
    then have "{u \<in> {..<N}. waits K s u} = {..<N}" using that by blast
    then show False using g tally_group [OF inv] assms(4) by simp
  qed
  ultimately show False using p [of t] n [of t] by (simp add: Let_def)
qed

text \<open>A group as a pair of its bits and its waiting threads.\<close>

definition list_egroup :: "(u32 \<times> nat list) egroup" where
  "list_egroup = \<lparr>xEventGroupCreate = (0, []), vEventGroupDelete = (\<lambda>e. e),
     xEventGroupSync = (\<lambda>t v m (bs, ts). if (bs OR v) AND m = m then ((bs OR v) AND NOT m, []) else (bs OR v, t # ts)),
     eg_blocked = (\<lambda>(bs, ts) t. t \<in> set ts)\<rparr>"

lemma list_egroup_laws: "egroup_laws list_egroup fst m"
  by (auto simp: egroup_laws_def list_egroup_def)

definition ex_barrier :: "(u32 \<times> nat list) barrier" where
  "ex_barrier = \<lparr>uThreadCount = 0, uThreshold = 2, xThreadCountSemaphore = 2, xBarrierEventGroup = (0, [])\<rparr>"

lemma ex_barrier_init: "pthread_barrier_init list_egroup ex_barrier 2 = (0, ex_barrier)"
  by (simp add: pthread_barrier_init_def ex_barrier_def list_egroup_def posixPTHREAD_BARRIER_MAX_COUNT_def)

text \<open>Two threads arrive, and the second returns before the first, the serial one.\<close>

fun barrier_run :: "'e egroup \<Rightarrow> nat list \<Rightarrow> 'e bsys \<Rightarrow> 'e bsys option" where
  "barrier_run K [] s = Some s"
| "barrier_run K (t # ts) s = (case barrier_wait_step K t s of None \<Rightarrow> None | Some s' \<Rightarrow> barrier_run K ts s')"

lemma barrier_run_reach: "barrier_reach K N b0 s \<Longrightarrow> list_all (\<lambda>t. t < N) ts \<Longrightarrow> barrier_run K ts s = Some s' \<Longrightarrow> barrier_reach K N b0 s'"
  by (induction ts arbitrary: s) (auto split: option.splits intro: barrier_reach.step simp del: barrier_wait_step.simps)

theorem barrier_rounds_witness:
  "\<exists>s. barrier_reach list_egroup 3 ex_barrier s \<and> reached s = 2 \<and> returned s = 2 \<and> 2 * serials s = 2"
proof -
  let ?s0 = "\<lparr>bar = ex_barrier, pc = \<lambda>_. Outside, reached = 0, returned = 0, serials = 0\<rparr>"
  obtain s where s: "barrier_run list_egroup [0, 1, 0, 1, 0, 1, 1, 0, 0, 0] ?s0 = Some s" "reached s = 2" "returned s = 2"
    by (simp add: ex_barrier_def list_egroup_def barrier_mask_def give_thread_def)
  have r: "barrier_reach list_egroup 3 ex_barrier s" by (intro barrier_run_reach [OF barrier_reach.start _ s(1)]) simp
  from barrier_rounds [OF ex_barrier_init list_egroup_laws r] r s show ?thesis by auto
qed

theorem barrier_not_stuck_witness:
  "\<exists>t s'. t < 2 \<and> barrier_wait_step list_egroup t \<lparr>bar = ex_barrier, pc = \<lambda>_. Outside, reached = 0, returned = 0, serials = 0\<rparr> = Some s'"
  by (rule barrier_not_stuck [OF ex_barrier_init list_egroup_laws barrier_reach.start]) simp

end
