(* ===== verification/Posix_Cond.thy ===== *)
theory Posix_Cond
  imports Posix_Barrier
begin

text \<open>
  POSIX condition variables, \<open>FreeRTOS_POSIX_pthread_cond.c\<close> (in the repository under a name with a leading dot): a counter of
  the waiting threads, changed by compare-and-swap, and a kernel counting semaphore on which they block.  The kernel's
  semaphore is a parameter, as in \<open>Posix_Sem\<close>, with the bound \<open>INT_MAX\<close>.  First the calls, \<open>pthread_cond_timedwait\<close>
  split where it blocks; then their atomic steps, interleaved by any number of threads.
\<close>

definition INT_MAX :: nat where "INT_MAX = 2147483647"

record 'k pthread_cond =
  xCondInitialized :: bool
  xCondWaitSemaphore :: 'k
  iWaitingThreads :: u32

record 'k ksem_ops =
  xSemaphoreCreateCounting :: 'k
  xSemaphoreDelete :: "'k \<Rightarrow> 'k"
  xSemaphoreGive :: "'k \<Rightarrow> 'k"
  xSemaphoreTake :: "'k \<Rightarrow> u32 \<Rightarrow> bool \<times> 'k"

definition prvInitializeStaticCond :: "'k ksem_ops \<Rightarrow> 'k pthread_cond \<Rightarrow> 'k pthread_cond" where
  "prvInitializeStaticCond K pxCond =
     (if \<not> xCondInitialized pxCond
      then pxCond\<lparr>xCondInitialized := True, xCondWaitSemaphore := xSemaphoreCreateCounting K, iWaitingThreads := 0\<rparr>
      else pxCond)"

text \<open>\<open>Atomic_CompareAndSwap_u32\<close> on the counter.\<close>

definition cas_waiting :: "u32 \<Rightarrow> u32 \<Rightarrow> 'k pthread_cond \<Rightarrow> bool \<times> 'k pthread_cond" where
  "cas_waiting exchange comparand pxCond =
     (if iWaitingThreads pxCond = comparand then (True, pxCond\<lparr>iWaitingThreads := exchange\<rparr>) else (False, pxCond))"

text \<open>
  The three loops reload the counter when the comparison fails.  Here they run without interference, so that they end after
  one reload; under interference each attempt is a step of its own (below).
\<close>

function prvTestAndDecrement :: "'k pthread_cond \<Rightarrow> u32 \<Rightarrow> 'k pthread_cond" where
  "prvTestAndDecrement pxCond iLocalWaitingThreads =
     (if iLocalWaitingThreads > 0
      then (case cas_waiting (iLocalWaitingThreads - 1) iLocalWaitingThreads pxCond of
              (swapped, pxCond') \<Rightarrow> if swapped then pxCond' else prvTestAndDecrement pxCond (iWaitingThreads pxCond))
      else pxCond)"
  by pat_completeness auto
termination
  by (relation "measure (\<lambda>(c, n). if n = iWaitingThreads c then 0 else 1)")
     (auto simp: cas_waiting_def split: if_splits)

function broadcast_loop :: "'k ksem_ops \<Rightarrow> 'k pthread_cond \<Rightarrow> u32 \<Rightarrow> 'k pthread_cond" where
  "broadcast_loop K pxCond iLocalWaitingThreads =
     (if iLocalWaitingThreads > 0
      then (case cas_waiting 0 iLocalWaitingThreads pxCond of
              (swapped, pxCond') \<Rightarrow>
                if swapped
                then pxCond'\<lparr>xCondWaitSemaphore := (xSemaphoreGive K ^^ unat iLocalWaitingThreads) (xCondWaitSemaphore pxCond')\<rparr>
                else broadcast_loop K pxCond (iWaitingThreads pxCond))
      else pxCond)"
  by pat_completeness auto
termination
  by (relation "measure (\<lambda>(K, c, n). if n = iWaitingThreads c then 0 else 1)")
     (auto simp: cas_waiting_def split: if_splits)

function signal_loop :: "'k ksem_ops \<Rightarrow> 'k pthread_cond \<Rightarrow> u32 \<Rightarrow> 'k pthread_cond" where
  "signal_loop K pxCond iLocalWaitingThreads =
     (if iLocalWaitingThreads > 0
      then (case cas_waiting (iLocalWaitingThreads - 1) iLocalWaitingThreads pxCond of
              (swapped, pxCond') \<Rightarrow>
                if swapped then pxCond'\<lparr>xCondWaitSemaphore := xSemaphoreGive K (xCondWaitSemaphore pxCond')\<rparr>
                else signal_loop K pxCond (iWaitingThreads pxCond))
      else pxCond)"
  by pat_completeness auto
termination
  by (relation "measure (\<lambda>(K, c, n). if n = iWaitingThreads c then 0 else 1)")
     (auto simp: cas_waiting_def split: if_splits)

declare prvTestAndDecrement.simps [simp del] broadcast_loop.simps [simp del] signal_loop.simps [simp del]

definition pthread_cond_broadcast :: "'k ksem_ops \<Rightarrow> 'k pthread_cond \<Rightarrow> int \<times> 'k pthread_cond" where
  "pthread_cond_broadcast K cond =
     (let pxCond = prvInitializeStaticCond K cond in (0, broadcast_loop K pxCond (iWaitingThreads pxCond)))"

definition pthread_cond_destroy :: "'k ksem_ops \<Rightarrow> 'k pthread_cond \<Rightarrow> int \<times> 'k pthread_cond" where
  "pthread_cond_destroy K pxCond = (0, pxCond\<lparr>xCondWaitSemaphore := xSemaphoreDelete K (xCondWaitSemaphore pxCond)\<rparr>)"

definition pthread_cond_init :: "'k ksem_ops \<Rightarrow> 'k pthread_cond option \<Rightarrow> int \<times> 'k pthread_cond option" where
  "pthread_cond_init K cond =
     (case cond of None \<Rightarrow> (ENOMEM, None)
      | Some pxCond \<Rightarrow>
          (0, Some (pxCond\<lparr>xCondInitialized := True, xCondWaitSemaphore := xSemaphoreCreateCounting K, iWaitingThreads := 0\<rparr>)))"

definition pthread_cond_signal :: "'k ksem_ops \<Rightarrow> 'k pthread_cond \<Rightarrow> int \<times> 'k pthread_cond" where
  "pthread_cond_signal K cond =
     (let pxCond = prvInitializeStaticCond K cond in (0, signal_loop K pxCond (iWaitingThreads pxCond)))"

subsection \<open>Waiting\<close>

text \<open>
  Up to the blocking take.  \<open>junk\<close> is what the uninitialised local variable \<open>iLocalWaitingThreads\<close> holds.  \<open>Inl\<close>: the call has
  returned with this status; \<open>Inr\<close>: it blocks, with the local copy of the counter and the delay.
\<close>

definition timedwait_begin ::
    "'k ksem_ops \<Rightarrow> 'm kmutex \<Rightarrow> u32 \<Rightarrow> u32 \<Rightarrow> timespec option \<Rightarrow> TimeOut_t \<Rightarrow> 'k pthread_cond \<Rightarrow> 'm pthread_mutex \<Rightarrow>
     (int + u32 \<times> u32) \<times> 'k pthread_cond \<times> 'm pthread_mutex" where
  "timedwait_begin K M self junk abstime now cond mutex =
     (let pxCond = prvInitializeStaticCond K cond;
          (iStatus, xDelay) = absolute_delay abstime now;
          (iStatus, iLocalWaitingThreads, pxCond, mutex) =
            (if iStatus = 0
             then (case pthread_mutex_unlock M self mutex of
                     (st, mutex) \<Rightarrow> (st, iWaitingThreads pxCond, pxCond\<lparr>iWaitingThreads := iWaitingThreads pxCond + 1\<rparr>, mutex))
             else (iStatus, junk, pxCond, mutex))
      in if iStatus = 0 then (Inr (iLocalWaitingThreads, xDelay), pxCond, mutex)
         else (Inl iStatus, prvTestAndDecrement pxCond (iLocalWaitingThreads + 1), mutex))"

definition timedwait_end ::
    "'m kmutex \<Rightarrow> u32 \<Rightarrow> TimeOut_t \<Rightarrow> bool \<Rightarrow> u32 \<Rightarrow> 'k pthread_cond \<Rightarrow> 'm pthread_mutex \<Rightarrow> int \<times> 'k pthread_cond \<times> 'm pthread_mutex" where
  "timedwait_end M self now taken iLocalWaitingThreads pxCond mutex =
     (case pthread_mutex_lock M self now mutex of
        (st, mutex) \<Rightarrow>
          if taken then (st, pxCond, mutex)
          else (ETIMEDOUT, prvTestAndDecrement pxCond (iLocalWaitingThreads + 1), mutex))"

definition pthread_cond_timedwait ::
    "'k ksem_ops \<Rightarrow> 'm kmutex \<Rightarrow> u32 \<Rightarrow> u32 \<Rightarrow> timespec option \<Rightarrow> TimeOut_t \<Rightarrow> 'k pthread_cond \<Rightarrow> 'm pthread_mutex \<Rightarrow>
     int \<times> 'k pthread_cond \<times> 'm pthread_mutex" where
  "pthread_cond_timedwait K M self junk abstime now cond mutex =
     (case timedwait_begin K M self junk abstime now cond mutex of
        (Inl iStatus, pxCond, mutex) \<Rightarrow> (iStatus, pxCond, mutex)
      | (Inr (iLocalWaitingThreads, xDelay), pxCond, mutex) \<Rightarrow>
          (case xSemaphoreTake K (xCondWaitSemaphore pxCond) xDelay of
             (taken, k) \<Rightarrow> timedwait_end M self now taken iLocalWaitingThreads (pxCond\<lparr>xCondWaitSemaphore := k\<rparr>) mutex))"

definition pthread_cond_wait ::
    "'k ksem_ops \<Rightarrow> 'm kmutex \<Rightarrow> u32 \<Rightarrow> u32 \<Rightarrow> TimeOut_t \<Rightarrow> 'k pthread_cond \<Rightarrow> 'm pthread_mutex \<Rightarrow>
     int \<times> 'k pthread_cond \<times> 'm pthread_mutex" where
  "pthread_cond_wait K M self junk now cond mutex = pthread_cond_timedwait K M self junk None now cond mutex"

subsection \<open>The loops without interference\<close>

lemma test_and_decrement:
  "0 < n \<Longrightarrow> prvTestAndDecrement c n = (if iWaitingThreads c = 0 then c else c\<lparr>iWaitingThreads := iWaitingThreads c - 1\<rparr>)"
  by (subst prvTestAndDecrement.simps, subst prvTestAndDecrement.simps) (auto simp: cas_waiting_def word_gt_0)

lemma signal_effect:
  "xCondInitialized c \<Longrightarrow> pthread_cond_signal K c =
     (0, if iWaitingThreads c = 0 then c
         else c\<lparr>iWaitingThreads := iWaitingThreads c - 1, xCondWaitSemaphore := xSemaphoreGive K (xCondWaitSemaphore c)\<rparr>)"
  by (auto simp: pthread_cond_signal_def prvInitializeStaticCond_def signal_loop.simps cas_waiting_def word_gt_0)

lemma broadcast_effect:
  "xCondInitialized c \<Longrightarrow> pthread_cond_broadcast K c =
     (0, if iWaitingThreads c = 0 then c
         else c\<lparr>iWaitingThreads := 0,
                xCondWaitSemaphore := (xSemaphoreGive K ^^ unat (iWaitingThreads c)) (xCondWaitSemaphore c)\<rparr>)"
  by (auto simp: pthread_cond_broadcast_def prvInitializeStaticCond_def broadcast_loop.simps cas_waiting_def word_gt_0)


text \<open>The laws of the kernel's counting semaphore, and an instance.\<close>

definition cond_kernel :: "('k \<Rightarrow> nat) \<Rightarrow> 'k ksem_ops \<Rightarrow> bool" where
  "cond_kernel count K \<longleftrightarrow>
     count (xSemaphoreCreateCounting K) = 0 \<and>
     (\<forall>k. count k < INT_MAX \<longrightarrow> count (xSemaphoreGive K k) = count k + 1) \<and>
     (\<forall>k d. 0 < count k \<longrightarrow> fst (xSemaphoreTake K k d) \<and> count (snd (xSemaphoreTake K k d)) = count k - 1) \<and>
     (\<forall>k. count k = 0 \<longrightarrow> \<not> fst (xSemaphoreTake K k 0) \<and> count (snd (xSemaphoreTake K k 0)) = 0)"

definition nat_ksem :: "nat ksem_ops" where
  "nat_ksem = \<lparr>xSemaphoreCreateCounting = 0, xSemaphoreDelete = id,
     xSemaphoreGive = (\<lambda>n. if n < INT_MAX then n + 1 else n), xSemaphoreTake = (\<lambda>n d. if 0 < n then (True, n - 1) else (False, n))\<rparr>"

lemma nat_ksem_laws: "cond_kernel id nat_ksem"
  by (simp add: cond_kernel_def nat_ksem_def INT_MAX_def)

lemma give_many:
  assumes "cond_kernel count K"
  shows "count k + n \<le> INT_MAX \<Longrightarrow> count ((xSemaphoreGive K ^^ n) k) = count k + n"
proof (induction n)
  case (Suc n)
  then show ?case using assms by (simp add: cond_kernel_def)
qed simp

subsection \<open>Interleaved threads\<close>

text \<open>
  The atomic steps of any number of threads that wait, signal and broadcast.  \<open>gives\<close> counts the tokens that signals and
  broadcasts still have to give after a compare-and-swap that succeeded, \<open>blocked\<close> the threads between the increment of the counter
  and the end of the take, \<open>leaving\<close> those whose take timed out and that have not yet taken themselves off the counter
  (their loop ends by a compare-and-swap or when it reads 0).  A compare-and-swap that fails changes nothing.
\<close>

record 'k cond_sys =
  cv :: "'k pthread_cond"
  cgives :: nat
  blocked :: nat
  leaving :: nat

inductive cond_step :: "'k ksem_ops \<Rightarrow> ('k \<Rightarrow> nat) \<Rightarrow> 'k cond_sys \<Rightarrow> 'k cond_sys \<Rightarrow> bool"
  for K :: "'k ksem_ops" and count :: "'k \<Rightarrow> nat" where
  wait_inc: "iWaitingThreads (cv s) < 0xFFFFFFFF \<Longrightarrow>
     cond_step K count s (s\<lparr>cv := (cv s)\<lparr>iWaitingThreads := iWaitingThreads (cv s) + 1\<rparr>, blocked := blocked s + 1\<rparr>)"
| wait_take: "0 < blocked s \<Longrightarrow> xSemaphoreTake K (xCondWaitSemaphore (cv s)) 0 = (True, k) \<Longrightarrow>
     cond_step K count s (s\<lparr>cv := (cv s)\<lparr>xCondWaitSemaphore := k\<rparr>, blocked := blocked s - 1\<rparr>)"
| wait_timeout: "0 < blocked s \<Longrightarrow> cond_step K count s (s\<lparr>blocked := blocked s - 1, leaving := leaving s + 1\<rparr>)"
| leave_cas: "0 < leaving s \<Longrightarrow> n > 0 \<Longrightarrow> cas_waiting (n - 1) n (cv s) = (True, c) \<Longrightarrow>
     cond_step K count s (s\<lparr>cv := c, leaving := leaving s - 1\<rparr>)"
| leave_zero: "0 < leaving s \<Longrightarrow> iWaitingThreads (cv s) = 0 \<Longrightarrow> cond_step K count s (s\<lparr>leaving := leaving s - 1\<rparr>)"
| signal_cas: "n > 0 \<Longrightarrow> cas_waiting (n - 1) n (cv s) = (True, c) \<Longrightarrow> cond_step K count s (s\<lparr>cv := c, cgives := cgives s + 1\<rparr>)"
| broadcast_cas: "n > 0 \<Longrightarrow> cas_waiting 0 n (cv s) = (True, c) \<Longrightarrow> cond_step K count s (s\<lparr>cv := c, cgives := cgives s + unat n\<rparr>)"
| give_token: "0 < cgives s \<Longrightarrow> count (xCondWaitSemaphore (cv s)) < INT_MAX \<Longrightarrow>
     cond_step K count s (s\<lparr>cv := (cv s)\<lparr>xCondWaitSemaphore := xSemaphoreGive K (xCondWaitSemaphore (cv s))\<rparr>, cgives := cgives s - 1\<rparr>)"


definition cond_start :: "'k ksem_ops \<Rightarrow> 'k cond_sys" where
  "cond_start K = \<lparr>cv = \<lparr>xCondInitialized = True, xCondWaitSemaphore = xSemaphoreCreateCounting K, iWaitingThreads = 0\<rparr>,
     cgives = 0, blocked = 0, leaving = 0\<rparr>"

definition cond_inv :: "('k \<Rightarrow> nat) \<Rightarrow> 'k cond_sys \<Rightarrow> bool" where
  "cond_inv count s \<longleftrightarrow> xCondInitialized (cv s) \<and>
     blocked s + leaving s \<le> unat (iWaitingThreads (cv s)) + cgives s + count (xCondWaitSemaphore (cv s))"

lemma cas_waiting_True:
  "cas_waiting e n c = (True, c') \<longleftrightarrow> iWaitingThreads c = n \<and> c' = c\<lparr>iWaitingThreads := e\<rparr>"
  by (auto simp: cas_waiting_def)

lemma unat_dec: "0 < (n :: u32) \<Longrightarrow> unat (n - 1) = unat n - 1 \<and> 0 < unat n"
  by (simp add: unat_sub word_le_nat_alt unat_gt_0 word_gt_0 unat_eq_zero) (metis One_nat_def Suc_leI unat_eq_zero neq0_conv unat_1 unat_sub word_le_nat_alt)

lemma unat_inc: "(n :: u32) < 0xFFFFFFFF \<Longrightarrow> unat (n + 1) = unat n + 1"
  by (simp add: unat_plus_if' word_less_nat_alt)

lemma cond_step_inv:
  assumes "cond_step K count s s'" "cond_kernel count K" "cond_inv count s"
  shows "cond_inv count s'"
  using assms
proof (induction rule: cond_step.induct)
  case (wait_take s k)
  then have t: "fst (xSemaphoreTake K (xCondWaitSemaphore (cv s)) 0)" "snd (xSemaphoreTake K (xCondWaitSemaphore (cv s)) 0) = k" by simp_all
  have z: "0 < count (xCondWaitSemaphore (cv s))" using t(1) wait_take(3) by (auto simp: cond_kernel_def)
  then have "count k = count (xCondWaitSemaphore (cv s)) - 1" using t(2) wait_take(3) by (auto simp: cond_kernel_def)
  then show ?case using wait_take(1,4) z diff_le_mono [of "blocked s + leaving s" _ 1] by (simp add: cond_inv_def)
next
  case (give_token s)
  then show ?case by (auto simp: cond_inv_def cond_kernel_def)
qed (use unat_dec unat_inc in \<open>auto simp: cond_inv_def cas_waiting_True\<close>)

lemma cond_reach_inv:
  assumes "(cond_step K count)\<^sup>*\<^sup>* (cond_start K) s" "cond_kernel count K"
  shows "cond_inv count s"
  using assms(1)
proof (induction rule: rtranclp_induct)
  case base
  show ?case by (simp add: cond_start_def cond_inv_def)
qed (use cond_step_inv assms(2) in blast)

text \<open>The calls are made of these steps: a call that is not interrupted takes the system to the state that it returns.\<close>

lemma give_steps:
  assumes "cond_kernel count K"
  shows "count (xCondWaitSemaphore (cv s)) + n \<le> INT_MAX \<Longrightarrow> cgives s = g + n \<Longrightarrow>
    (cond_step K count)\<^sup>*\<^sup>* s (s\<lparr>cv := (cv s)\<lparr>xCondWaitSemaphore := (xSemaphoreGive K ^^ n) (xCondWaitSemaphore (cv s))\<rparr>, cgives := g\<rparr>)"
proof (induction n arbitrary: s)
  case 0
  then show ?case by (cases s) auto
next
  case (Suc n)
  let ?s = "s\<lparr>cv := (cv s)\<lparr>xCondWaitSemaphore := xSemaphoreGive K (xCondWaitSemaphore (cv s))\<rparr>, cgives := cgives s - 1\<rparr>"
  have "cond_step K count s ?s" using Suc.prems by (intro give_token) simp_all
  moreover have "(cond_step K count)\<^sup>*\<^sup>* ?s
      (?s\<lparr>cv := (cv ?s)\<lparr>xCondWaitSemaphore := (xSemaphoreGive K ^^ n) (xCondWaitSemaphore (cv ?s))\<rparr>, cgives := g\<rparr>)"
    using Suc.prems assms by (intro Suc.IH) (auto simp: cond_kernel_def)
  ultimately show ?case by (simp add: funpow_swap1 converse_rtranclp_into_rtranclp)
qed

lemma calls_are_steps:
  assumes "cond_kernel count K" "xCondInitialized (cv s)" "cgives s = 0"
    and "count (xCondWaitSemaphore (cv s)) + unat (iWaitingThreads (cv s)) \<le> INT_MAX"
  shows "(cond_step K count)\<^sup>*\<^sup>* s (s\<lparr>cv := snd (pthread_cond_signal K (cv s))\<rparr>)"
    and "(cond_step K count)\<^sup>*\<^sup>* s (s\<lparr>cv := snd (pthread_cond_broadcast K (cv s))\<rparr>)"
proof -
  let ?n = "iWaitingThreads (cv s)"
  let ?sig = "s\<lparr>cv := (cv s)\<lparr>iWaitingThreads := ?n - 1\<rparr>, cgives := cgives s + 1\<rparr>"
  let ?bc = "s\<lparr>cv := (cv s)\<lparr>iWaitingThreads := 0\<rparr>, cgives := cgives s + unat ?n\<rparr>"
  have e: "s\<lparr>cv := x\<rparr> = s\<lparr>cv := x, cgives := 0\<rparr>" for x using assms(3) by (cases s) simp
  have "(cond_step K count)\<^sup>*\<^sup>* s (s\<lparr>cv := snd (pthread_cond_signal K (cv s))\<rparr>) \<and>
        (cond_step K count)\<^sup>*\<^sup>* s (s\<lparr>cv := snd (pthread_cond_broadcast K (cv s))\<rparr>)"
  proof (cases "?n = 0")
    case True
    then show ?thesis using assms(2) by (simp add: signal_effect broadcast_effect)
  next
    case False
    then have p: "?n > 0" "1 \<le> unat ?n" using unat_dec [of ?n] by (auto simp: word_gt_0)
    have "cond_step K count s ?sig" "cond_step K count s ?bc"
      using signal_cas [OF p(1), of s] broadcast_cas [OF p(1), of s] by (simp_all add: cas_waiting_True)
    moreover have "(cond_step K count)\<^sup>*\<^sup>* ?sig (s\<lparr>cv := snd (pthread_cond_signal K (cv s))\<rparr>)"
      using give_steps [OF assms(1), of ?sig 1 0] assms p(2) False by (subst e) (simp add: signal_effect)
    moreover have "(cond_step K count)\<^sup>*\<^sup>* ?bc (s\<lparr>cv := snd (pthread_cond_broadcast K (cv s))\<rparr>)"
      using give_steps [OF assms(1), of ?bc "unat ?n" 0] assms False by (subst e) (simp add: broadcast_effect)
    ultimately show ?thesis by (meson converse_rtranclp_into_rtranclp)
  qed
  then show "(cond_step K count)\<^sup>*\<^sup>* s (s\<lparr>cv := snd (pthread_cond_signal K (cv s))\<rparr>)"
    "(cond_step K count)\<^sup>*\<^sup>* s (s\<lparr>cv := snd (pthread_cond_broadcast K (cv s))\<rparr>)" by blast+
qed

lemma timedwait_begin_step:
  assumes "timedwait_begin K M self junk abstime now (cv s) mutex = (Inr (n, d), c, mutex')" "xCondInitialized (cv s)"
    "iWaitingThreads (cv s) < 0xFFFFFFFF"
  shows "cond_step K count s (s\<lparr>cv := c, blocked := blocked s + 1\<rparr>)"
proof -
  have "c = (cv s)\<lparr>iWaitingThreads := iWaitingThreads (cv s) + 1\<rparr>"
    using assms(1,2) by (auto simp: timedwait_begin_def prvInitializeStaticCond_def Let_def split: prod.splits if_splits)
  then show ?thesis using wait_inc [OF assms(3)] by simp
qed


text \<open>C34.
  A wait whose time has already passed spoils this: it returns \<open>ETIMEDOUT\<close> without having counted itself, but takes one thread off
  the counter all the same (unless the uninitialised variable happens to hold -1).  When another thread is blocked and was the only one
  that is counted, no later signal or broadcast wakes it.
\<close>

theorem cond_past_time_loses_wakeup:
  assumes "fst (absolute_delay abstime now) = ETIMEDOUT" "junk \<noteq> 0xFFFFFFFF" "xCondInitialized c" "iWaitingThreads c = 1"
  shows "case pthread_cond_timedwait K M self junk abstime now c m of
    (st, c', m') \<Rightarrow> st = ETIMEDOUT \<and> m' = m \<and> xCondWaitSemaphore c' = xCondWaitSemaphore c \<and>
      pthread_cond_signal K c' = (0, c') \<and> pthread_cond_broadcast K c' = (0, c')"
proof -
  have "(0xFFFFFFFF :: u32) + 1 = 0" by simp
  then have "junk + 1 \<noteq> 0" using assms(2) by (metis add_right_cancel)
  then have "0 < junk + 1" by (simp add: word_gt_0)
  then show ?thesis
    using assms(1,3,4)
    by (cases "absolute_delay abstime now")
       (simp add: pthread_cond_timedwait_def timedwait_begin_def prvInitializeStaticCond_def test_and_decrement
          signal_effect broadcast_effect mutex_consts)
qed


theorem cond_past_time_loses_wakeup_witness:
  "case pthread_cond_timedwait nat_ksem pair_mutex 7 0 (Some \<lparr>tv_sec = 0, tv_nsec = 0\<rparr>) \<lparr>xOverflowCount = 0, xTimeOnEntering = 5\<rparr>
      \<lparr>xCondInitialized = True, xCondWaitSemaphore = 0, iWaitingThreads = 1\<rparr>
      \<lparr>xIsInitialized = True, xMutex = (7, 1), xTaskOwner = 7, iType = 0\<rparr> of
    (st, c', m') \<Rightarrow> st = ETIMEDOUT \<and> xCondWaitSemaphore c' = 0 \<and> pthread_cond_signal nat_ksem c' = (0, c')"
proof -
  have "fst (absolute_delay (Some \<lparr>tv_sec = 0, tv_nsec = 0\<rparr>) \<lparr>xOverflowCount = 0, xTimeOnEntering = 5\<rparr>) = ETIMEDOUT"
    by (rule absolute_delay_zero) (simp add: ticking_def)
  from cond_past_time_loses_wakeup [OF this, where junk = 0 and c = "\<lparr>xCondInitialized = True, xCondWaitSemaphore = 0, iWaitingThreads = 1\<rparr>" and K = nat_ksem and M = pair_mutex and self = 7
      and m = "\<lparr>xIsInitialized = True, xMutex = (7, 1), xTaskOwner = 7, iType = 0\<rparr>"]
  show ?thesis by (auto split: prod.splits)
qed

end
