(* ===== verification/Rcl_Types.thy ===== *)
theory Rcl_Types
  imports Posix_Time
begin

text \<open>
  Common parts of the micro-ROS client library: the return codes of \<open>rcl\<close> and \<open>rcutils\<close>, and the allocator that its functions are
  given as a structure of function pointers.  An arena is what an allocator has handed out and not got back; whether each
  request succeeds is decided by an arbitrary list of answers.  A pointer is a number, 0 is null.
\<close>

definition RCL_RET_OK :: int where "RCL_RET_OK = 0"
definition RCL_RET_ERROR :: int where "RCL_RET_ERROR = 1"
definition RCL_RET_TIMEOUT :: int where "RCL_RET_TIMEOUT = 2"
definition RCL_RET_BAD_ALLOC :: int where "RCL_RET_BAD_ALLOC = 10"
definition RCL_RET_INVALID_ARGUMENT :: int where "RCL_RET_INVALID_ARGUMENT = 11"
definition RCL_RET_ALREADY_INIT :: int where "RCL_RET_ALREADY_INIT = 100"
definition RCL_RET_NOT_INIT :: int where "RCL_RET_NOT_INIT = 101"
definition RCL_RET_SUBSCRIPTION_TAKE_FAILED :: int where "RCL_RET_SUBSCRIPTION_TAKE_FAILED = 401"
definition RCL_RET_CLIENT_TAKE_FAILED :: int where "RCL_RET_CLIENT_TAKE_FAILED = 501"
definition RCL_RET_SERVICE_TAKE_FAILED :: int where "RCL_RET_SERVICE_TAKE_FAILED = 601"
definition RCL_RET_TIMER_INVALID :: int where "RCL_RET_TIMER_INVALID = 800"
definition RCL_RET_TIMER_CANCELED :: int where "RCL_RET_TIMER_CANCELED = 801"
definition RCL_RET_WAIT_SET_INVALID :: int where "RCL_RET_WAIT_SET_INVALID = 900"
definition RCL_RET_WAIT_SET_EMPTY :: int where "RCL_RET_WAIT_SET_EMPTY = 901"
definition RCL_RET_WAIT_SET_FULL :: int where "RCL_RET_WAIT_SET_FULL = 902"

lemmas rcl_rets = RCL_RET_OK_def RCL_RET_ERROR_def RCL_RET_TIMEOUT_def RCL_RET_BAD_ALLOC_def RCL_RET_INVALID_ARGUMENT_def
  RCL_RET_ALREADY_INIT_def RCL_RET_NOT_INIT_def RCL_RET_SUBSCRIPTION_TAKE_FAILED_def RCL_RET_CLIENT_TAKE_FAILED_def
  RCL_RET_SERVICE_TAKE_FAILED_def RCL_RET_TIMER_INVALID_def RCL_RET_TIMER_CANCELED_def RCL_RET_WAIT_SET_INVALID_def
  RCL_RET_WAIT_SET_EMPTY_def RCL_RET_WAIT_SET_FULL_def

record arena =
  answers :: "bool list"
  next_block :: nat
  blocks :: "nat list"
  bad_free :: bool

definition allocate :: "arena \<Rightarrow> nat \<times> arena" where
  "allocate a =
     (case answers a of
        False # r \<Rightarrow> (0, a\<lparr>answers := r\<rparr>)
      | _ \<Rightarrow> (next_block a, a\<lparr>answers := tl (answers a), next_block := next_block a + 1, blocks := next_block a # blocks a\<rparr>))"

definition deallocate :: "nat \<Rightarrow> arena \<Rightarrow> arena" where
  "deallocate p a =
     (if p = 0 then a
      else if p \<in> set (blocks a) then a\<lparr>blocks := remove1 p (blocks a)\<rparr> else a\<lparr>bad_free := True\<rparr>)"

text \<open>A block that cannot be resized stays allocated.\<close>

definition reallocate :: "nat \<Rightarrow> arena \<Rightarrow> nat \<times> arena" where
  "reallocate p a =
     (case allocate a of (q, a') \<Rightarrow> if q = 0 then (0, a') else (q, deallocate p a'))"

definition arena_ok :: "arena \<Rightarrow> bool" where
  "arena_ok a \<longleftrightarrow> distinct (blocks a) \<and> 0 \<notin> set (blocks a) \<and> (\<forall>p \<in> set (blocks a). p < next_block a) \<and> 0 < next_block a \<and> \<not> bad_free a"

definition new_arena :: "bool list \<Rightarrow> arena" where
  "new_arena as = \<lparr>answers = as, next_block = 1, blocks = [], bad_free = False\<rparr>"

lemma new_arena_ok [simp]: "arena_ok (new_arena as)"
  by (simp add: arena_ok_def new_arena_def)

lemma allocate_cases:
  assumes "arena_ok a"
  obtains (fail) a' where "allocate a = (0, a')" "arena_ok a'" "set (blocks a') = set (blocks a)" "blocks a' = blocks a"
  | (ok) p a' where "allocate a = (p, a')" "p \<noteq> 0" "p \<notin> set (blocks a)" "arena_ok a'" "set (blocks a') = insert p (set (blocks a))"
      "blocks a' = p # blocks a"
proof (cases "answers a = False # tl (answers a)")
  case True
  then obtain r where "answers a = False # r" by blast
  then show ?thesis using assms by (intro fail [of "a\<lparr>answers := r\<rparr>"]) (auto simp: allocate_def arena_ok_def)
next
  case False
  let ?a = "a\<lparr>answers := tl (answers a), next_block := next_block a + 1, blocks := next_block a # blocks a\<rparr>"
  have "allocate a = (next_block a, ?a)" using False by (auto simp: allocate_def split: list.splits bool.splits)
  then show ?thesis using assms by (intro ok [of "next_block a" ?a]) (auto simp: arena_ok_def less_Suc_eq)
qed

lemma deallocate_ok:
  assumes "arena_ok a" "p \<in> set (blocks a)"
  shows "arena_ok (deallocate p a)" "set (blocks (deallocate p a)) = set (blocks a) - {p}"
  using assms by (auto simp: arena_ok_def deallocate_def dest: in_set_remove1 set_remove1_subset [THEN subsetD])

lemma deallocate_null [simp]: "deallocate 0 a = a"
  by (simp add: deallocate_def)


lemma reallocate_ok:
  assumes "arena_ok a" "p = 0 \<or> p \<in> set (blocks a)" "reallocate p a = (q, a')"
  shows "arena_ok a'" "q = 0 \<Longrightarrow> set (blocks a') = set (blocks a)"
    "q \<noteq> 0 \<Longrightarrow> q \<notin> set (blocks a) \<and> set (blocks a') = insert q (set (blocks a) - {p})"
proof -
  have "arena_ok a' \<and> (q = 0 \<longrightarrow> set (blocks a') = set (blocks a)) \<and>
      (q \<noteq> 0 \<longrightarrow> q \<notin> set (blocks a) \<and> set (blocks a') = insert q (set (blocks a) - {p}))"
    using assms(1)
  proof (cases rule: allocate_cases)
    case (fail a1)
    then show ?thesis using assms(3) by (auto simp: reallocate_def)
  next
    case (ok r a1)
    then have e: "q = r" "a' = deallocate p a1" using assms(3) by (auto simp: reallocate_def)
    show ?thesis
    proof (cases "p = 0")
      case True
      then show ?thesis using e ok assms(1) by (auto simp: arena_ok_def)
    next
      case False
      then have "p \<in> set (blocks a1)" "p \<noteq> r" using assms(2) ok(3,5) by auto
      then show ?thesis using e deallocate_ok [OF ok(4), of p] ok(2,3,5) by auto
    qed
  qed
  then show "arena_ok a'" "q = 0 \<Longrightarrow> set (blocks a') = set (blocks a)"
    "q \<noteq> 0 \<Longrightarrow> q \<notin> set (blocks a) \<and> set (blocks a') = insert q (set (blocks a) - {p})" by blast+
qed

end
