(* ===== verification/Rcl_Clock.thy ===== *)
theory Rcl_Clock
  imports Rcl_Types
begin

text \<open>
  Clocks of the client library, \<open>rcl/time.c\<close> with \<open>rcutils/time_unix.c\<close> below it: system and steady time come from the POSIX
  clock of \<open>Posix_Time\<close>, ROS time can be overridden, and callbacks are told before and after such a jump.  A callback is a number
  that \<open>cb\<close> maps to its effect on a state \<open>'w\<close> of the program; callbacks read the clock and do not change it.  Pointer
  arguments that may be null are options; atomics are plain fields.
\<close>

datatype clock_type = RCL_CLOCK_UNINITIALIZED | RCL_ROS_TIME | RCL_SYSTEM_TIME | RCL_STEADY_TIME

datatype clock_change = RCL_ROS_TIME_NO_CHANGE | RCL_ROS_TIME_ACTIVATED | RCL_ROS_TIME_DEACTIVATED | RCL_SYSTEM_TIME_NO_CHANGE

record time_jump =
  clock_change :: clock_change
  delta :: int

record jump_threshold =
  on_clock_change :: bool
  min_forward :: int
  min_backward :: int

record jump_callback_info =
  callback :: u32
  threshold :: jump_threshold
  user_data :: u32

record ros_clock_storage =
  current_time :: int
  active :: bool

text \<open>The function that \<open>get_now\<close> points to.\<close>

datatype getter = NoGetter | rcl_get_ros_time | rcl_get_system_time | rcl_get_steady_time

record rcl_clock =
  ctype :: clock_type
  jump_callbacks :: "jump_callback_info list"
  jump_block :: nat
  get_now :: getter
  cdata :: nat
  storage :: ros_clock_storage

subsection \<open>The system's time\<close>

definition RCUTILS_RET_ERROR :: int where "RCUTILS_RET_ERROR = 2"

definition would_be_negative :: "int \<Rightarrow> int \<Rightarrow> bool" where
  "would_be_negative seconds subseconds \<longleftrightarrow> seconds < 0 \<or> (subseconds < 0 \<and> seconds = 0)"

definition rcutils_system_time_now :: "TimeOut_t \<Rightarrow> int \<times> int option" where
  "rcutils_system_time_now t =
     (let timespec_now = snd (clock_gettime t)
      in if would_be_negative (tv_sec timespec_now) (tv_nsec timespec_now) then (RCUTILS_RET_ERROR, None)
         else (RCL_RET_OK, Some (s64 (s64 (tv_sec timespec_now * 1000000000) + tv_nsec timespec_now))))"

definition rcutils_steady_time_now :: "TimeOut_t \<Rightarrow> int \<times> int option" where
  "rcutils_steady_time_now t =
     (let timespec_now = snd (clock_gettime t)
      in if would_be_negative (tv_sec timespec_now) (tv_nsec timespec_now) then (RCUTILS_RET_ERROR, None)
         else (RCL_RET_OK, Some (s64 (s64 (tv_sec timespec_now * 1000000000) + tv_nsec timespec_now))))"

fun call_get_now :: "getter \<Rightarrow> TimeOut_t \<Rightarrow> ros_clock_storage \<Rightarrow> int \<times> int option" where
  "call_get_now rcl_get_ros_time t d = (if \<not> active d then rcutils_system_time_now t else (RCL_RET_OK, Some (s64 (current_time d))))"
| "call_get_now rcl_get_system_time t d = rcutils_system_time_now t"
| "call_get_now rcl_get_steady_time t d = rcutils_steady_time_now t"
| "call_get_now NoGetter t d = (RCL_RET_ERROR, None)"

definition rcl_clock_get_now :: "rcl_clock option \<Rightarrow> TimeOut_t \<Rightarrow> int \<times> int option" where
  "rcl_clock_get_now clock t =
     (case clock of None \<Rightarrow> (RCL_RET_INVALID_ARGUMENT, None)
      | Some c \<Rightarrow>
          if ctype c \<noteq> RCL_CLOCK_UNINITIALIZED \<and> get_now c \<noteq> NoGetter then call_get_now (get_now c) t (storage c)
          else (RCL_RET_ERROR, None))"

subsection \<open>Initialisation\<close>

definition rcl_init_generic_clock :: "rcl_clock \<Rightarrow> rcl_clock" where
  "rcl_init_generic_clock clock =
     clock\<lparr>ctype := RCL_CLOCK_UNINITIALIZED, jump_callbacks := [], jump_block := 0, get_now := NoGetter, cdata := 0\<rparr>"

definition rcl_clock_valid :: "rcl_clock option \<Rightarrow> bool" where
  "rcl_clock_valid clock = (case clock of None \<Rightarrow> False | Some c \<Rightarrow> ctype c \<noteq> RCL_CLOCK_UNINITIALIZED \<and> get_now c \<noteq> NoGetter)"

definition rcl_ros_clock_init :: "rcl_clock \<Rightarrow> arena \<Rightarrow> int \<times> rcl_clock \<times> arena" where
  "rcl_ros_clock_init clock a =
     (let clock = rcl_init_generic_clock clock
      in case allocate a of
           (p, a) \<Rightarrow>
             let clock = clock\<lparr>cdata := p\<rparr>
             in if p = 0 then (RCL_RET_BAD_ALLOC, clock, a)
                else (RCL_RET_OK, clock\<lparr>storage := \<lparr>current_time = 0, active = False\<rparr>, get_now := rcl_get_ros_time, ctype := RCL_ROS_TIME\<rparr>, a))"

definition rcl_steady_clock_init :: "rcl_clock \<Rightarrow> int \<times> rcl_clock" where
  "rcl_steady_clock_init clock =
     (RCL_RET_OK, (rcl_init_generic_clock clock)\<lparr>get_now := rcl_get_steady_time, ctype := RCL_STEADY_TIME\<rparr>)"

definition rcl_system_clock_init :: "rcl_clock \<Rightarrow> int \<times> rcl_clock" where
  "rcl_system_clock_init clock =
     (RCL_RET_OK, (rcl_init_generic_clock clock)\<lparr>get_now := rcl_get_system_time, ctype := RCL_SYSTEM_TIME\<rparr>)"

definition rcl_clock_init :: "clock_type \<Rightarrow> rcl_clock option \<Rightarrow> arena \<Rightarrow> int \<times> rcl_clock option \<times> arena" where
  "rcl_clock_init clock_type clock a =
     (case clock of None \<Rightarrow> (RCL_RET_INVALID_ARGUMENT, None, a)
      | Some c \<Rightarrow>
          (case clock_type of
             RCL_CLOCK_UNINITIALIZED \<Rightarrow> (RCL_RET_OK, Some (rcl_init_generic_clock c), a)
           | RCL_ROS_TIME \<Rightarrow> (case rcl_ros_clock_init c a of (r, c, a) \<Rightarrow> (r, Some c, a))
           | RCL_SYSTEM_TIME \<Rightarrow> (case rcl_system_clock_init c of (r, c) \<Rightarrow> (r, Some c, a))
           | RCL_STEADY_TIME \<Rightarrow> (case rcl_steady_clock_init c of (r, c) \<Rightarrow> (r, Some c, a))))"

definition rcl_clock_generic_fini :: "rcl_clock \<Rightarrow> arena \<Rightarrow> rcl_clock \<times> arena" where
  "rcl_clock_generic_fini clock a =
     (if length (jump_callbacks clock) > 0
      then (clock\<lparr>jump_callbacks := [], jump_block := 0\<rparr>, deallocate (jump_block clock) a) else (clock, a))"

definition rcl_ros_clock_fini :: "rcl_clock \<Rightarrow> arena \<Rightarrow> int \<times> rcl_clock \<times> arena" where
  "rcl_ros_clock_fini clock a =
     (if ctype clock \<noteq> RCL_ROS_TIME then (RCL_RET_ERROR, clock, a)
      else (case rcl_clock_generic_fini clock a of
              (clock, a) \<Rightarrow> (RCL_RET_OK, clock\<lparr>cdata := 0\<rparr>, deallocate (cdata clock) a)))"

definition rcl_steady_clock_fini :: "rcl_clock \<Rightarrow> arena \<Rightarrow> int \<times> rcl_clock \<times> arena" where
  "rcl_steady_clock_fini clock a =
     (if ctype clock \<noteq> RCL_STEADY_TIME then (RCL_RET_ERROR, clock, a) else (RCL_RET_OK, rcl_clock_generic_fini clock a))"

definition rcl_system_clock_fini :: "rcl_clock \<Rightarrow> arena \<Rightarrow> int \<times> rcl_clock \<times> arena" where
  "rcl_system_clock_fini clock a =
     (if ctype clock \<noteq> RCL_SYSTEM_TIME then (RCL_RET_ERROR, clock, a) else (RCL_RET_OK, rcl_clock_generic_fini clock a))"

definition rcl_clock_fini :: "rcl_clock option \<Rightarrow> arena \<Rightarrow> int \<times> rcl_clock option \<times> arena" where
  "rcl_clock_fini clock a =
     (case clock of None \<Rightarrow> (RCL_RET_INVALID_ARGUMENT, None, a)
      | Some c \<Rightarrow>
          (case ctype c of
             RCL_ROS_TIME \<Rightarrow> (case rcl_ros_clock_fini c a of (r, c, a) \<Rightarrow> (r, Some c, a))
           | RCL_SYSTEM_TIME \<Rightarrow> (case rcl_system_clock_fini c a of (r, c, a) \<Rightarrow> (r, Some c, a))
           | RCL_STEADY_TIME \<Rightarrow> (case rcl_steady_clock_fini c a of (r, c, a) \<Rightarrow> (r, Some c, a))
           | RCL_CLOCK_UNINITIALIZED \<Rightarrow> (RCL_RET_INVALID_ARGUMENT, Some c, a)))"

text \<open>Time points of the same clock type; the result is \<open>None\<close> when there is none.\<close>

definition rcl_difference_times :: "int \<times> clock_type \<Rightarrow> int \<times> clock_type \<Rightarrow> int \<times> int option" where
  "rcl_difference_times start finish =
     (if snd start \<noteq> snd finish then (RCL_RET_ERROR, None)
      else if fst finish < fst start then (RCL_RET_OK, Some (s64 (- 1 * s64 (fst start - fst finish))))
      else (RCL_RET_OK, Some (s64 (fst finish - fst start))))"

subsection \<open>Overriding ROS time\<close>

type_synonym 'w callbacks = "u32 \<Rightarrow> time_jump \<Rightarrow> bool \<Rightarrow> u32 \<Rightarrow> rcl_clock \<Rightarrow> 'w \<Rightarrow> 'w"

definition threshold_exceeded :: "time_jump \<Rightarrow> jump_threshold \<Rightarrow> bool" where
  "threshold_exceeded time_jump th \<longleftrightarrow>
     ((clock_change time_jump = RCL_ROS_TIME_ACTIVATED \<or> clock_change time_jump = RCL_ROS_TIME_DEACTIVATED) \<and> on_clock_change th) \<or>
     (delta time_jump < 0 \<and> delta time_jump \<le> min_backward th) \<or>
     (delta time_jump > 0 \<and> delta time_jump \<ge> min_forward th)"

definition rcl_clock_call_callbacks :: "'w callbacks \<Rightarrow> rcl_clock \<Rightarrow> time_jump \<Rightarrow> bool \<Rightarrow> 'w \<Rightarrow> 'w" where
  "rcl_clock_call_callbacks cb clock time_jump before_jump =
     fold (\<lambda>info w. if threshold_exceeded time_jump (threshold info)
                    then cb (callback info) time_jump before_jump (user_data info) clock w else w)
          (jump_callbacks clock)"

definition rcl_enable_ros_time_override :: "'w callbacks \<Rightarrow> rcl_clock \<Rightarrow> 'w \<Rightarrow> int \<times> rcl_clock \<times> 'w" where
  "rcl_enable_ros_time_override cb clock w =
     (if ctype clock \<noteq> RCL_ROS_TIME \<or> cdata clock = 0 then (RCL_RET_ERROR, clock, w)
      else if \<not> active (storage clock) then
        let time_jump = \<lparr>clock_change = RCL_ROS_TIME_ACTIVATED, delta = 0\<rparr>;
            w = rcl_clock_call_callbacks cb clock time_jump True w;
            clock = clock\<lparr>storage := (storage clock)\<lparr>active := True\<rparr>\<rparr>
        in (RCL_RET_OK, clock, rcl_clock_call_callbacks cb clock time_jump False w)
      else (RCL_RET_OK, clock, w))"

definition rcl_disable_ros_time_override :: "'w callbacks \<Rightarrow> rcl_clock \<Rightarrow> 'w \<Rightarrow> int \<times> rcl_clock \<times> 'w" where
  "rcl_disable_ros_time_override cb clock w =
     (if ctype clock \<noteq> RCL_ROS_TIME \<or> cdata clock = 0 then (RCL_RET_ERROR, clock, w)
      else if active (storage clock) then
        let time_jump = \<lparr>clock_change = RCL_ROS_TIME_DEACTIVATED, delta = 0\<rparr>;
            w = rcl_clock_call_callbacks cb clock time_jump True w;
            clock = clock\<lparr>storage := (storage clock)\<lparr>active := False\<rparr>\<rparr>
        in (RCL_RET_OK, clock, rcl_clock_call_callbacks cb clock time_jump False w)
      else (RCL_RET_OK, clock, w))"

definition rcl_is_enabled_ros_time_override :: "rcl_clock \<Rightarrow> int \<times> bool option" where
  "rcl_is_enabled_ros_time_override clock =
     (if ctype clock \<noteq> RCL_ROS_TIME \<or> cdata clock = 0 then (RCL_RET_ERROR, None) else (RCL_RET_OK, Some (active (storage clock))))"

definition rcl_set_ros_time_override :: "'w callbacks \<Rightarrow> rcl_clock \<Rightarrow> int \<Rightarrow> 'w \<Rightarrow> int \<times> rcl_clock \<times> 'w" where
  "rcl_set_ros_time_override cb clock time_value w =
     (if ctype clock \<noteq> RCL_ROS_TIME \<or> cdata clock = 0 then (RCL_RET_ERROR, clock, w)
      else if active (storage clock) then
        let time_jump = \<lparr>clock_change = RCL_ROS_TIME_NO_CHANGE, delta = s64 (time_value - s64 (current_time (storage clock)))\<rparr>;
            w = rcl_clock_call_callbacks cb clock time_jump True w;
            clock = clock\<lparr>storage := (storage clock)\<lparr>current_time := time_value\<rparr>\<rparr>
        in (RCL_RET_OK, clock, rcl_clock_call_callbacks cb clock time_jump False w)
      else (RCL_RET_OK, clock\<lparr>storage := (storage clock)\<lparr>current_time := time_value\<rparr>\<rparr>, w))"

text \<open>A null callback is 0.  The array of callbacks is one block of the arena.\<close>

definition rcl_clock_add_jump_callback ::
    "rcl_clock option \<Rightarrow> jump_threshold \<Rightarrow> u32 \<Rightarrow> u32 \<Rightarrow> arena \<Rightarrow> int \<times> rcl_clock option \<times> arena" where
  "rcl_clock_add_jump_callback clock th cb data a =
     (case clock of None \<Rightarrow> (RCL_RET_INVALID_ARGUMENT, None, a)
      | Some c \<Rightarrow>
          if cb = 0 then (RCL_RET_INVALID_ARGUMENT, Some c, a)
          else if min_forward th < 0 then (RCL_RET_INVALID_ARGUMENT, Some c, a)
          else if min_backward th > 0 then (RCL_RET_INVALID_ARGUMENT, Some c, a)
          else if \<exists>info \<in> set (jump_callbacks c). callback info = cb \<and> user_data info = data then (RCL_RET_ERROR, Some c, a)
          else (case reallocate (jump_block c) a of
                  (p, a) \<Rightarrow>
                    if p = 0 then (RCL_RET_BAD_ALLOC, Some c, a)
                    else (RCL_RET_OK, Some (c\<lparr>jump_block := p,
                            jump_callbacks := jump_callbacks c @ [\<lparr>callback = cb, threshold = th, user_data = data\<rparr>]\<rparr>), a)))"

text \<open>The loop that moves the callbacks after the one found back by one, and says whether it found it.\<close>

fun remove_callback :: "u32 \<Rightarrow> u32 \<Rightarrow> jump_callback_info list \<Rightarrow> jump_callback_info list \<times> bool" where
  "remove_callback cb data [] = ([], False)"
| "remove_callback cb data (info # infos) =
     (if callback info = cb \<and> user_data info = data then (infos, True)
      else (case remove_callback cb data infos of (infos, found) \<Rightarrow> (info # infos, found)))"

definition rcl_clock_remove_jump_callback :: "rcl_clock option \<Rightarrow> u32 \<Rightarrow> u32 \<Rightarrow> arena \<Rightarrow> int \<times> rcl_clock option \<times> arena" where
  "rcl_clock_remove_jump_callback clock cb data a =
     (case clock of None \<Rightarrow> (RCL_RET_INVALID_ARGUMENT, None, a)
      | Some c \<Rightarrow>
          if cb = 0 then (RCL_RET_INVALID_ARGUMENT, Some c, a)
          else (case remove_callback cb data (jump_callbacks c) of
                  (infos, found_callback) \<Rightarrow>
                    if \<not> found_callback then (RCL_RET_ERROR, Some c, a)
                    else let c = c\<lparr>jump_callbacks := infos\<rparr>
                         in if length infos = 0
                            then (RCL_RET_OK, Some (c\<lparr>jump_block := 0\<rparr>), deallocate (jump_block c) a)
                            else (case reallocate (jump_block c) a of
                                    (p, a) \<Rightarrow> if p = 0 then (RCL_RET_BAD_ALLOC, Some c, a)
                                              else (RCL_RET_OK, Some (c\<lparr>jump_block := p\<rparr>), a))))"

end
