(* ===== verification/Rcl_Timer.thy ===== *)
theory Rcl_Timer
  imports Rcl_Clock
begin

text \<open>
  Timers of the client library, \<open>rcl/timer.c\<close>.  A timer reads a clock of \<open>Rcl_Clock\<close>; times and periods are 64-bit numbers with their
  wrap-around.  A timer on ROS time registers \<open>_rcl_timer_time_jump\<close> with its clock and is adjusted when the time jumps.  Of the guard
  condition, which wakes a thread that waits, the number of times it was triggered is kept.  The state of the program is a
  store of timers: \<open>None\<close> at the address of a timer without implementation.
\<close>

record timer =
  timer_callback :: u32
  period :: int
  last_call_time :: int
  next_call_time :: int
  time_credit :: int
  canceled :: bool
  impl_block :: nat
  triggered :: nat

type_synonym timers = "u32 \<Rightarrow> timer option"

definition upd_timer :: "u32 \<Rightarrow> (timer \<Rightarrow> timer) \<Rightarrow> timers \<Rightarrow> timers" where
  "upd_timer p f ts = (case ts p of None \<Rightarrow> ts | Some t \<Rightarrow> ts(p \<mapsto> f t))"

text \<open>The number that stands for the function \<open>_rcl_timer_time_jump\<close>.\<close>

definition TIMER_JUMP :: u32 where "TIMER_JUMP = 1"

text \<open>What \<open>_rcl_timer_time_jump\<close> does to the timer, \<open>now\<close> being what the clock says at that moment.\<close>

definition jump_before :: "time_jump \<Rightarrow> int \<Rightarrow> timer \<Rightarrow> timer" where
  "jump_before time_jump now tm =
     (if clock_change time_jump = RCL_ROS_TIME_ACTIVATED \<or> clock_change time_jump = RCL_ROS_TIME_DEACTIVATED
      then if now = 0 then tm else tm\<lparr>time_credit := s64 (next_call_time tm - now)\<rparr>
      else tm)"

definition jump_after :: "time_jump \<Rightarrow> int \<Rightarrow> timer \<Rightarrow> timer" where
  "jump_after time_jump now tm =
     (if clock_change time_jump = RCL_ROS_TIME_ACTIVATED \<or> clock_change time_jump = RCL_ROS_TIME_DEACTIVATED
      then if now = 0 then tm
           else let credit = time_credit tm; tm = tm\<lparr>time_credit := 0\<rparr>
                in if credit \<noteq> 0
                   then tm\<lparr>next_call_time := s64 (s64 (now - credit) + period tm), last_call_time := s64 (now - credit)\<rparr> else tm
      else if next_call_time tm \<le> now then tm\<lparr>triggered := triggered tm + 1\<rparr>
      else if now < last_call_time tm then tm\<lparr>next_call_time := s64 (now + period tm), last_call_time := now\<rparr>
      else tm)"

definition rcl_timer_time_jump :: "TimeOut_t \<Rightarrow> time_jump \<Rightarrow> bool \<Rightarrow> u32 \<Rightarrow> rcl_clock \<Rightarrow> timers \<Rightarrow> timers" where
  "rcl_timer_time_jump t time_jump before_jump data clock ts =
     (case rcl_clock_get_now (Some clock) t of
        (ret, now) \<Rightarrow>
          if ret \<noteq> RCL_RET_OK then ts
          else upd_timer data ((if before_jump then jump_before else jump_after) time_jump (the now)) ts)"

text \<open>The callbacks of a clock: that of the timers, and others that do not touch them.\<close>

definition timer_callbacks :: "TimeOut_t \<Rightarrow> timers callbacks" where
  "timer_callbacks t cb = (if cb = TIMER_JUMP then rcl_timer_time_jump t else (\<lambda>_ _ _ _ ts. ts))"

text \<open>\<open>gc\<close> is the result of \<open>rcl_guard_condition_init\<close>.\<close>

definition rcl_timer_init ::
    "u32 \<Rightarrow> rcl_clock option \<Rightarrow> int \<Rightarrow> u32 \<Rightarrow> int \<Rightarrow> TimeOut_t \<Rightarrow> timers \<Rightarrow> arena \<Rightarrow> int \<times> timers \<times> rcl_clock option \<times> arena" where
  "rcl_timer_init timer clock per cb gc t ts a =
     (if timer = 0 then (RCL_RET_INVALID_ARGUMENT, ts, clock, a)
      else case clock of None \<Rightarrow> (RCL_RET_INVALID_ARGUMENT, ts, None, a)
      | Some c \<Rightarrow>
          if per < 0 then (RCL_RET_INVALID_ARGUMENT, ts, clock, a)
          else if ts timer \<noteq> None then (RCL_RET_ALREADY_INIT, ts, clock, a)
          else (case rcl_clock_get_now clock t of
            (now_ret, now) \<Rightarrow>
              if now_ret \<noteq> RCL_RET_OK then (now_ret, ts, clock, a)
              else if gc \<noteq> RCL_RET_OK then (gc, ts, clock, a)
              else (case (if ctype c = RCL_ROS_TIME
                          then rcl_clock_add_jump_callback clock \<lparr>on_clock_change = True, min_forward = 1, min_backward = - 1\<rparr> TIMER_JUMP timer a
                          else (RCL_RET_OK, clock, a)) of
                (ret, clock, a) \<Rightarrow>
                  if ret \<noteq> RCL_RET_OK then (ret, ts, clock, a)
                  else (case allocate a of
                    (p, a) \<Rightarrow>
                      if p = 0 then (case rcl_clock_remove_jump_callback clock TIMER_JUMP timer a of (_, clock, a) \<Rightarrow> (RCL_RET_BAD_ALLOC, ts, clock, a))
                      else (RCL_RET_OK,
                            ts(timer \<mapsto> \<lparr>timer_callback = cb, period = per, last_call_time = the now, next_call_time = s64 (the now + per),
                                        time_credit = 0, canceled = False, impl_block = p, triggered = 0\<rparr>), clock, a)))))"

definition rcl_timer_cancel :: "u32 \<Rightarrow> timers \<Rightarrow> int \<times> timers" where
  "rcl_timer_cancel timer ts =
     (if timer = 0 then (RCL_RET_INVALID_ARGUMENT, ts)
      else if ts timer = None then (RCL_RET_TIMER_INVALID, ts)
      else (RCL_RET_OK, upd_timer timer (\<lambda>tm. tm\<lparr>canceled := True\<rparr>) ts))"

definition rcl_timer_fini :: "u32 \<Rightarrow> rcl_clock option \<Rightarrow> timers \<Rightarrow> arena \<Rightarrow> int \<times> timers \<times> rcl_clock option \<times> arena" where
  "rcl_timer_fini timer clock ts a =
     (if timer = 0 \<or> ts timer = None then (RCL_RET_OK, ts, clock, a)
      else
        (case rcl_timer_cancel timer ts of
           (result, ts) \<Rightarrow>
             (case (if map_option ctype clock = Some RCL_ROS_TIME
                    then (case rcl_clock_remove_jump_callback clock TIMER_JUMP timer a of (_, clock, a) \<Rightarrow> (clock, a))
                    else (clock, a)) of
                (clock, a) \<Rightarrow> (result, ts(timer := None), clock, deallocate (case ts timer of None \<Rightarrow> 0 | Some tm \<Rightarrow> impl_block tm) a))))"

text \<open>The next call: one period after the last, or after as many periods as it takes to reach \<open>now\<close>; \<open>/\<close> truncates.\<close>

definition advance :: "int \<Rightarrow> int \<Rightarrow> int \<Rightarrow> int" where
  "advance now per next =
     (let next = s64 (next + per)
      in if next < now
         then if per = 0 then now
              else let now_ahead = s64 (now - next); periods_ahead = s64 (1 + (now_ahead - 1) sdiv per)
                   in s64 (next + s64 (periods_ahead * per))
         else next)"

text \<open>With the status, the call that is made: the callback and the time since the last call.\<close>

definition rcl_timer_call :: "rcl_clock \<Rightarrow> TimeOut_t \<Rightarrow> u32 \<Rightarrow> timers \<Rightarrow> int \<times> timers \<times> (u32 \<times> int) option" where
  "rcl_timer_call clock t timer ts =
     (case ts timer of None \<Rightarrow> (RCL_RET_INVALID_ARGUMENT, ts, None)
      | Some tm \<Rightarrow>
          if canceled tm then (RCL_RET_TIMER_CANCELED, ts, None)
          else (case rcl_clock_get_now (Some clock) t of
            (now_ret, now) \<Rightarrow>
              if now_ret \<noteq> RCL_RET_OK then (now_ret, ts, None)
              else if the now < 0 then (RCL_RET_ERROR, ts, None)
              else
                let previous_ns = last_call_time tm;
                    tm = tm\<lparr>last_call_time := the now, next_call_time := advance (the now) (period tm) (next_call_time tm)\<rparr>
                in (RCL_RET_OK, ts(timer \<mapsto> tm),
                    if timer_callback tm \<noteq> 0 then Some (timer_callback tm, s64 (the now - previous_ns)) else None)))"

definition rcl_timer_get_time_until_next_call :: "rcl_clock \<Rightarrow> TimeOut_t \<Rightarrow> timer \<Rightarrow> int \<times> int option" where
  "rcl_timer_get_time_until_next_call clock t tm =
     (case rcl_clock_get_now (Some clock) t of
        (ret, now) \<Rightarrow> if ret \<noteq> RCL_RET_OK then (ret, None) else (RCL_RET_OK, Some (s64 (next_call_time tm - the now))))"

definition rcl_timer_is_ready :: "rcl_clock \<Rightarrow> TimeOut_t \<Rightarrow> timer \<Rightarrow> int \<times> bool option" where
  "rcl_timer_is_ready clock t tm =
     (case rcl_timer_get_time_until_next_call clock t tm of
        (ret, time_until_next_call) \<Rightarrow>
          if ret \<noteq> RCL_RET_OK then (ret, None)
          else (RCL_RET_OK, Some (the time_until_next_call \<le> 0 \<and> \<not> canceled tm)))"

definition rcl_timer_get_time_since_last_call :: "rcl_clock \<Rightarrow> TimeOut_t \<Rightarrow> timer \<Rightarrow> int \<times> int option" where
  "rcl_timer_get_time_since_last_call clock t tm =
     (case rcl_clock_get_now (Some clock) t of
        (ret, now) \<Rightarrow> if ret \<noteq> RCL_RET_OK then (ret, None) else (RCL_RET_OK, Some (s64 (the now - last_call_time tm))))"

definition rcl_timer_get_period :: "timer \<Rightarrow> int \<times> int" where
  "rcl_timer_get_period tm = (RCL_RET_OK, period tm)"

definition rcl_timer_exchange_period :: "timer \<Rightarrow> int \<Rightarrow> int \<times> int \<times> timer" where
  "rcl_timer_exchange_period tm new_period = (RCL_RET_OK, period tm, tm\<lparr>period := new_period\<rparr>)"

definition rcl_timer_exchange_callback :: "timer \<Rightarrow> u32 \<Rightarrow> u32 \<times> timer" where
  "rcl_timer_exchange_callback tm new_callback = (timer_callback tm, tm\<lparr>timer_callback := new_callback\<rparr>)"

definition rcl_timer_is_canceled :: "timer \<Rightarrow> int \<times> bool" where
  "rcl_timer_is_canceled tm = (RCL_RET_OK, canceled tm)"

definition rcl_timer_reset :: "rcl_clock \<Rightarrow> TimeOut_t \<Rightarrow> u32 \<Rightarrow> timers \<Rightarrow> int \<times> timers" where
  "rcl_timer_reset clock t timer ts =
     (if timer = 0 then (RCL_RET_INVALID_ARGUMENT, ts)
      else if ts timer = None then (RCL_RET_TIMER_INVALID, ts)
      else (case rcl_clock_get_now (Some clock) t of
        (now_ret, now) \<Rightarrow>
          if now_ret \<noteq> RCL_RET_OK then (now_ret, ts)
          else (RCL_RET_OK,
                upd_timer timer (\<lambda>tm. tm\<lparr>next_call_time := s64 (the now + period tm), canceled := False, triggered := triggered tm + 1\<rparr>) ts)))"

end
