(* ===== verification/Rcl_Wait.thy ===== *)
theory Rcl_Wait
  imports Rcl_Timer
begin

text \<open>
  Wait sets, \<open>rcl/wait.c\<close>, and the waiting itself, \<open>rmw_wait.c\<close>.  The macros that the source expands for each kind of entity are
  functions of the kind; arrays are lists, with the blocks they occupy.  Of the middleware the state holds which entities have
  received data and which guard conditions are triggered; \<open>run_sessions\<close> is the XRCE client library that receives data for a time.
  The middleware's handle of an entity is a number, 0 when there is none.
\<close>

datatype entity = Subscription | GuardCondition | Client | Service | Event | Timer

record wait_set =
  ws_impl :: nat
  slots :: "entity \<Rightarrow> u32 list"
  slot_block :: "entity \<Rightarrow> nat"
  added :: "entity \<Rightarrow> nat"
  rmw_slots :: "entity \<Rightarrow> u32 list"
  rmw_block :: "entity \<Rightarrow> nat"
  rmw_count :: "entity \<Rightarrow> nat"
  rmw_wait_set :: nat

definition rcl_get_zero_initialized_wait_set :: wait_set where
  "rcl_get_zero_initialized_wait_set = \<lparr>ws_impl = 0, slots = (\<lambda>_. []), slot_block = (\<lambda>_. 0), added = (\<lambda>_. 0),
     rmw_slots = (\<lambda>_. []), rmw_block = (\<lambda>_. 0), rmw_count = (\<lambda>_. 0), rmw_wait_set = 0\<rparr>"

definition rcl_wait_set_is_valid :: "wait_set \<Rightarrow> bool" where
  "rcl_wait_set_is_valid ws \<longleftrightarrow> ws_impl ws \<noteq> 0"

definition has_rmw :: "entity \<Rightarrow> bool" where
  "has_rmw k \<longleftrightarrow> k \<in> {Subscription, Client, Service, Event}"

subsection \<open>Memory\<close>

text \<open>\<open>SET_RESIZE\<close> for one kind, with the middleware's array for the kinds that have one of their own.\<close>

definition set_resize :: "entity \<Rightarrow> nat \<Rightarrow> wait_set \<Rightarrow> arena \<Rightarrow> int \<times> wait_set \<times> arena" where
  "set_resize k n ws a =
     (let ws = ws\<lparr>slots := (slots ws)(k := []), added := (added ws)(k := 0)\<rparr>
      in if n = 0 then
           let a = deallocate (slot_block ws k) a; ws = ws\<lparr>slot_block := (slot_block ws)(k := 0)\<rparr>
           in if has_rmw k \<and> rmw_block ws k \<noteq> 0
              then (RCL_RET_OK, ws\<lparr>rmw_slots := (rmw_slots ws)(k := []), rmw_block := (rmw_block ws)(k := 0),
                                   rmw_count := (rmw_count ws)(k := 0)\<rparr>, deallocate (rmw_block ws k) a)
              else (RCL_RET_OK, ws, a)
         else
           (case reallocate (slot_block ws k) a of
              (p, a) \<Rightarrow>
                let ws = ws\<lparr>slot_block := (slot_block ws)(k := p)\<rparr>
                in if p = 0 then (RCL_RET_BAD_ALLOC, ws, a)
                   else
                     let ws = ws\<lparr>slots := (slots ws)(k := replicate n 0)\<rparr>
                     in if has_rmw k then
                          (case reallocate (rmw_block ws k) a of
                             (q, a) \<Rightarrow>
                               let ws = ws\<lparr>rmw_count := (rmw_count ws)(k := 0), rmw_block := (rmw_block ws)(k := q)\<rparr>
                               in if q = 0
                                  then (RCL_RET_BAD_ALLOC, ws\<lparr>slots := (slots ws)(k := []), slot_block := (slot_block ws)(k := 0)\<rparr>,
                                        deallocate p a)
                                  else (RCL_RET_OK, ws\<lparr>rmw_slots := (rmw_slots ws)(k := replicate n 0)\<rparr>, a))
                        else (RCL_RET_OK, ws, a)))"

text \<open>The middleware's array of guard conditions has room for those of the timers as well.\<close>

definition resize_rmw_guards :: "nat \<Rightarrow> wait_set \<Rightarrow> arena \<Rightarrow> int \<times> wait_set \<times> arena" where
  "resize_rmw_guards num_rmw_gc ws a =
     (let ws = ws\<lparr>rmw_count := (rmw_count ws)(GuardCondition := 0)\<rparr>
      in if num_rmw_gc = 0
         then (RCL_RET_OK, ws\<lparr>rmw_slots := (rmw_slots ws)(GuardCondition := []), rmw_block := (rmw_block ws)(GuardCondition := 0)\<rparr>,
               deallocate (rmw_block ws GuardCondition) a)
         else (case reallocate (rmw_block ws GuardCondition) a of
                 (p, a) \<Rightarrow>
                   let ws = ws\<lparr>rmw_block := (rmw_block ws)(GuardCondition := p)\<rparr>
                   in if p = 0
                      then (RCL_RET_BAD_ALLOC,
                            ws\<lparr>slots := (slots ws)(GuardCondition := [], Timer := []),
                               slot_block := (slot_block ws)(GuardCondition := 0, Timer := 0)\<rparr>,
                            deallocate (slot_block ws Timer) (deallocate (slot_block ws GuardCondition) a))
                      else (RCL_RET_OK, ws\<lparr>rmw_slots := (rmw_slots ws)(GuardCondition := replicate num_rmw_gc 0)\<rparr>, a)))"

definition and_then :: "int \<times> wait_set \<times> arena \<Rightarrow> (wait_set \<Rightarrow> arena \<Rightarrow> int \<times> wait_set \<times> arena) \<Rightarrow> int \<times> wait_set \<times> arena" where
  "and_then x f = (case x of (r, ws, a) \<Rightarrow> if r \<noteq> RCL_RET_OK then (r, ws, a) else f ws a)"

definition rcl_wait_set_resize :: "(entity \<Rightarrow> nat) \<Rightarrow> wait_set \<Rightarrow> arena \<Rightarrow> int \<times> wait_set \<times> arena" where
  "rcl_wait_set_resize n ws a =
     (if ws_impl ws = 0 then (RCL_RET_WAIT_SET_INVALID, ws, a)
      else and_then (and_then (and_then (and_then (and_then (and_then
        (set_resize Subscription (n Subscription) ws a)
        (set_resize GuardCondition (n GuardCondition)))
        (resize_rmw_guards (n GuardCondition + n Timer)))
        (set_resize Timer (n Timer)))
        (set_resize Client (n Client)))
        (set_resize Service (n Service)))
        (set_resize Event (n Event)))"

definition wait_set_clean_up :: "wait_set \<Rightarrow> arena \<Rightarrow> wait_set \<times> arena" where
  "wait_set_clean_up ws a =
     (case rcl_wait_set_resize (\<lambda>_. 0) ws a of (_, ws, a) \<Rightarrow> (ws\<lparr>ws_impl := 0\<rparr>, deallocate (ws_impl ws) a))"

text \<open>
  \<open>created\<close> is the middleware's wait set, 0 when it could not be created, and \<open>destroyed\<close> the result of destroying it;
  \<open>context_valid\<close> that of \<open>rcl_context_is_valid\<close>.
\<close>

definition rcl_wait_set_init :: "bool \<Rightarrow> nat \<Rightarrow> int \<Rightarrow> (entity \<Rightarrow> nat) \<Rightarrow> wait_set \<Rightarrow> arena \<Rightarrow> int \<times> wait_set \<times> arena" where
  "rcl_wait_set_init context_valid created destroyed n ws a =
     (if rcl_wait_set_is_valid ws then (RCL_RET_ALREADY_INIT, ws, a)
      else if \<not> context_valid then (RCL_RET_NOT_INIT, ws, a)
      else (case allocate a of
        (p, a) \<Rightarrow>
          if p = 0 then (RCL_RET_BAD_ALLOC, ws\<lparr>ws_impl := 0\<rparr>, a)
          else
            let ws = ws\<lparr>ws_impl := p, added := (\<lambda>_. 0), rmw_slots := (\<lambda>_. []), rmw_block := (\<lambda>_. 0), rmw_count := (\<lambda>_. 0),
                        rmw_wait_set := created\<rparr>;
                (ret, ws, a) = (if created = 0 then (RCL_RET_ERROR, ws, a) else rcl_wait_set_resize n ws a)
            in if ret = RCL_RET_OK then (RCL_RET_OK, ws, a)
               else (case wait_set_clean_up ws a of (ws, a) \<Rightarrow> (if destroyed \<noteq> RCL_RET_OK then RCL_RET_WAIT_SET_INVALID else ret, ws, a))))"

definition rcl_wait_set_fini :: "int \<Rightarrow> wait_set \<Rightarrow> arena \<Rightarrow> int \<times> wait_set \<times> arena" where
  "rcl_wait_set_fini destroyed ws a =
     (if rcl_wait_set_is_valid ws
      then (case wait_set_clean_up ws a of (ws, a) \<Rightarrow> (if destroyed \<noteq> RCL_RET_OK then RCL_RET_WAIT_SET_INVALID else RCL_RET_OK, ws, a))
      else (RCL_RET_OK, ws, a))"

subsection \<open>Adding entities\<close>

text \<open>\<open>SET_ADD\<close>; the index is \<open>None\<close> when the entity was not added.\<close>

definition set_add :: "entity \<Rightarrow> u32 \<Rightarrow> wait_set \<Rightarrow> int \<times> nat option \<times> wait_set" where
  "set_add k x ws =
     (if \<not> rcl_wait_set_is_valid ws then (RCL_RET_WAIT_SET_INVALID, None, ws)
      else if x = 0 then (RCL_RET_INVALID_ARGUMENT, None, ws)
      else if \<not> added ws k < length (slots ws k) then (RCL_RET_WAIT_SET_FULL, None, ws)
      else
        let current_index = added ws k
        in (RCL_RET_OK, Some current_index,
            ws\<lparr>added := (added ws)(k := current_index + 1), slots := (slots ws)(k := (slots ws k)[current_index := x])\<rparr>))"

text \<open>\<open>SET_ADD\<close> and \<open>SET_ADD_RMW\<close>, for every kind but timers; \<open>h\<close> is the handle of the entity.\<close>

definition rcl_wait_set_add :: "entity \<Rightarrow> u32 \<Rightarrow> u32 \<Rightarrow> wait_set \<Rightarrow> int \<times> nat option \<times> wait_set" where
  "rcl_wait_set_add k x h ws =
     (case set_add k x ws of
        (r, i, ws) \<Rightarrow>
          if r \<noteq> RCL_RET_OK then (r, i, ws)
          else if h = 0 then (RCL_RET_ERROR, i, ws)
          else (RCL_RET_OK, i, ws\<lparr>rmw_slots := (rmw_slots ws)(k := (rmw_slots ws k)[the i := h]),
                                  rmw_count := (rmw_count ws)(k := rmw_count ws k + 1)\<rparr>))"

text \<open>\<open>gc\<close> is the handle of the timer's guard condition: \<open>None\<close> when the timer has none.\<close>

definition rcl_wait_set_add_timer :: "u32 \<Rightarrow> u32 option \<Rightarrow> wait_set \<Rightarrow> int \<times> nat option \<times> wait_set" where
  "rcl_wait_set_add_timer x gc ws =
     (case set_add Timer x ws of
        (r, i, ws) \<Rightarrow>
          if r \<noteq> RCL_RET_OK then (r, i, ws)
          else (case gc of None \<Rightarrow> (RCL_RET_OK, i, ws)
                | Some h \<Rightarrow>
                    let ix = length (slots ws GuardCondition) + (added ws Timer - 1)
                    in if h = 0 then (RCL_RET_ERROR, i, ws)
                       else (RCL_RET_OK, i, ws\<lparr>rmw_slots := (rmw_slots ws)(GuardCondition := (rmw_slots ws GuardCondition)[ix := h])\<rparr>)))"

definition zero_first :: "nat \<Rightarrow> u32 list \<Rightarrow> u32 list" where
  "zero_first n xs = replicate (min n (length xs)) 0 @ drop n xs"

definition rcl_wait_set_clear :: "wait_set \<Rightarrow> int \<times> wait_set" where
  "rcl_wait_set_clear ws =
     (if ws_impl ws = 0 then (RCL_RET_WAIT_SET_INVALID, ws)
      else (RCL_RET_OK,
        ws\<lparr>slots := (\<lambda>k. if slot_block ws k \<noteq> 0 then replicate (length (slots ws k)) 0 else slots ws k),
           added := (\<lambda>k. if slot_block ws k \<noteq> 0 then 0 else added ws k),
           rmw_slots := (\<lambda>k. if k \<noteq> Timer \<and> rmw_block ws k \<noteq> 0 then zero_first (rmw_count ws k) (rmw_slots ws k) else rmw_slots ws k),
           rmw_count := (\<lambda>k. if k \<noteq> Timer \<and> rmw_block ws k \<noteq> 0 then 0 else rmw_count ws k)\<rparr>))"

subsection \<open>Waiting\<close>

record middleware =
  buffered :: "u32 \<Rightarrow> bool"
  gc_triggered :: "u32 \<Rightarrow> bool"

definition RMW_RET_TIMEOUT :: int where "RMW_RET_TIMEOUT = 2"

text \<open>The timeout in milliseconds, with its overflow checks; \<open>None\<close> is no timeout (\<open>UXR_TIMEOUT_INF\<close>).\<close>

definition rmw_timeout :: "(int \<times> int) option \<Rightarrow> int option" where
  "rmw_timeout wait_timeout =
     (case wait_timeout of None \<Rightarrow> None
      | Some (sec, nsec) \<Rightarrow>
          Some (if sec \<ge> (2 ^ 64 - 1) div 1000 then 2147483647
                else
                  let timeout = sec * 1000; timeout_ms = nsec div 1000000
                  in if 2 ^ 64 - 1 - timeout \<le> timeout_ms then 2147483647
                     else if timeout + timeout_ms > 2147483647 then 2147483647 else timeout + timeout_ms))"

definition keep_ready :: "(u32 \<Rightarrow> bool) \<Rightarrow> nat \<Rightarrow> u32 list \<Rightarrow> u32 list" where
  "keep_ready P n xs = map (\<lambda>x. if P x then x else 0) (take n xs) @ drop n xs"

text \<open>The loop over the guard conditions, which clears each one that it finds triggered; the first component says whether there was one.\<close>

fun read_guards :: "(u32 \<Rightarrow> bool) \<Rightarrow> u32 list \<Rightarrow> bool \<times> u32 list \<times> (u32 \<Rightarrow> bool)" where
  "read_guards trig [] = (False, [], trig)"
| "read_guards trig (x # xs) =
     (if \<not> trig x then (case read_guards trig xs of (b, ys, trig) \<Rightarrow> (b, 0 # ys, trig))
      else (case read_guards (trig(x := False)) xs of (_, ys, trig) \<Rightarrow> (True, x # ys, trig)))"

definition rmw_wait :: "(int option \<Rightarrow> middleware \<Rightarrow> middleware) \<Rightarrow> (int \<times> int) option \<Rightarrow> wait_set \<Rightarrow> middleware \<Rightarrow> int \<times> wait_set \<times> middleware" where
  "rmw_wait run_sessions wait_timeout ws mw =
     (let mw = run_sessions (rmw_timeout wait_timeout) mw;
          buffered_status = (\<exists>k \<in> {Service, Client, Subscription}. list_ex (buffered mw) (take (rmw_count ws k) (rmw_slots ws k)));
          (has_triggered, gs, trig) = read_guards (gc_triggered mw) (take (rmw_count ws GuardCondition) (rmw_slots ws GuardCondition))
      in (if buffered_status \<or> has_triggered then RCL_RET_OK else RMW_RET_TIMEOUT,
          ws\<lparr>rmw_slots := (\<lambda>k. if k \<in> {Service, Client, Subscription} then keep_ready (buffered mw) (rmw_count ws k) (rmw_slots ws k)
                                else if k = GuardCondition then gs @ drop (rmw_count ws k) (rmw_slots ws k) else rmw_slots ws k)\<rparr>,
          mw\<lparr>gc_triggered := trig\<rparr>))"

definition INT64_MAX :: int where "INT64_MAX = 2 ^ 63 - 1"

text \<open>The first loop of \<open>rcl_wait\<close> over the timers: the wait set, whether a timer bounds the timeout, and the timeout.\<close>

fun scan_timers :: "rcl_clock \<Rightarrow> TimeOut_t \<Rightarrow> timers \<Rightarrow> nat list \<Rightarrow> wait_set \<Rightarrow> bool \<Rightarrow> int \<Rightarrow> int \<times> wait_set \<times> bool \<times> int" where
  "scan_timers clock t ts [] ws is_timer_timeout min_timeout = (RCL_RET_OK, ws, is_timer_timeout, min_timeout)"
| "scan_timers clock t ts (i # is) ws is_timer_timeout min_timeout =
     (let x = slots ws Timer ! i
      in if x = 0 then scan_timers clock t ts is ws is_timer_timeout min_timeout
         else
           let gc = rmw_slots ws GuardCondition ! (length (slots ws GuardCondition) + i);
               ws = (if gc \<noteq> 0
                     then ws\<lparr>rmw_slots := (rmw_slots ws)(GuardCondition := (rmw_slots ws GuardCondition)[rmw_count ws GuardCondition := gc]),
                             rmw_count := (rmw_count ws)(GuardCondition := rmw_count ws GuardCondition + 1)\<rparr>
                     else ws)
           in case ts x of
                None \<Rightarrow> (RCL_RET_INVALID_ARGUMENT, ws, is_timer_timeout, min_timeout)
              | Some tm \<Rightarrow>
                  if canceled tm
                  then scan_timers clock t ts is (ws\<lparr>slots := (slots ws)(Timer := (slots ws Timer)[i := 0])\<rparr>) is_timer_timeout min_timeout
                  else (case rcl_timer_get_time_until_next_call clock t tm of
                    (ret, timer_timeout) \<Rightarrow>
                      if ret \<noteq> RCL_RET_OK then (ret, ws, is_timer_timeout, min_timeout)
                      else if the timer_timeout < min_timeout then scan_timers clock t ts is ws True (the timer_timeout)
                      else scan_timers clock t ts is ws is_timer_timeout min_timeout))"

text \<open>The second loop: timers that are not ready are taken out.\<close>

fun check_timers :: "rcl_clock \<Rightarrow> TimeOut_t \<Rightarrow> timers \<Rightarrow> nat list \<Rightarrow> wait_set \<Rightarrow> int \<times> wait_set" where
  "check_timers clock t ts [] ws = (RCL_RET_OK, ws)"
| "check_timers clock t ts (i # is) ws =
     (let x = slots ws Timer ! i
      in if x = 0 then check_timers clock t ts is ws
         else (case ts x of
           None \<Rightarrow> (RCL_RET_INVALID_ARGUMENT, ws)
         | Some tm \<Rightarrow>
             (case rcl_timer_is_ready clock t tm of
                (ret, is_ready) \<Rightarrow>
                  if ret \<noteq> RCL_RET_OK then (ret, ws)
                  else if \<not> the is_ready then check_timers clock t ts is (ws\<lparr>slots := (slots ws)(Timer := (slots ws Timer)[i := 0])\<rparr>)
                  else check_timers clock t ts is ws)))"

text \<open>The time passes from \<open>t1\<close> to \<open>t2\<close> while the middleware waits.\<close>

definition wait_timeout :: "int \<Rightarrow> bool \<Rightarrow> int \<Rightarrow> (int \<times> int) option" where
  "wait_timeout timeout is_timer_timeout min_timeout =
     (if timeout = 0 then Some (0, 0)
      else if timeout > 0 \<or> is_timer_timeout
      then let min_timeout = (if min_timeout < 0 then 0 else min_timeout) in Some (min_timeout sdiv 1000000000, min_timeout smod 1000000000)
      else None)"

definition rcl_wait ::
    "(int option \<Rightarrow> middleware \<Rightarrow> middleware) \<Rightarrow> rcl_clock \<Rightarrow> TimeOut_t \<Rightarrow> TimeOut_t \<Rightarrow> timers \<Rightarrow> int \<Rightarrow> wait_set \<Rightarrow> middleware \<Rightarrow>
     int \<times> wait_set \<times> middleware" where
  "rcl_wait run_sessions clock t1 t2 ts timeout ws mw =
     (if \<not> rcl_wait_set_is_valid ws then (RCL_RET_WAIT_SET_INVALID, ws, mw)
      else if slots ws Subscription = [] \<and> slots ws GuardCondition = [] \<and> slots ws Timer = [] \<and> slots ws Client = [] \<and>
              slots ws Service = [] \<and> slots ws Event = []
      then (RCL_RET_WAIT_SET_EMPTY, ws, mw)
      else (case scan_timers clock t1 ts [0..<added ws Timer] ws False (if timeout > 0 then timeout else INT64_MAX) of
        (r, ws, is_timer_timeout, min_timeout) \<Rightarrow>
          if r \<noteq> RCL_RET_OK then (r, ws, mw)
          else (case rmw_wait run_sessions (wait_timeout timeout is_timer_timeout min_timeout) ws mw of
            (ret, ws, mw) \<Rightarrow>
              (case check_timers clock t2 ts [0..<added ws Timer] ws of
                 (r, ws) \<Rightarrow>
                   if r \<noteq> RCL_RET_OK then (r, ws, mw)
                   else if ret \<noteq> RCL_RET_OK \<and> ret \<noteq> RMW_RET_TIMEOUT then (RCL_RET_ERROR, ws, mw)
                   else
                     let ws = ws\<lparr>slots := (\<lambda>k. if k = Timer then slots ws k
                                              else map2 (\<lambda>x y. if y \<noteq> 0 then x else 0) (slots ws k) (rmw_slots ws k))\<rparr>
                     in (if ret = RMW_RET_TIMEOUT \<and> \<not> is_timer_timeout then RCL_RET_TIMEOUT else RCL_RET_OK, ws, mw)))))"

end
