(* ===== verification/Rclc_Executor.thy ===== *)
theory Rclc_Executor
  imports Rcl_Wait
begin

text \<open>
  The executor of the C client library, \<open>executor.c\<close> and \<open>executor_handle.c\<close>: an array of handles in a fixed order, and a turn that
  waits for them, asks the trigger and takes data and calls callbacks.  Pointers are words, 0 is null; the counts of the handles of
  each kind are a function of the kind.  What a callback does is a parameter, which may change the timers, the middleware and
  the application's own state, but not the executor.
\<close>

datatype rclc_executor_handle_type = SUBSCRIPTION | SUBSCRIPTION_WITH_CONTEXT | TIMER | CLIENT | CLIENT_WITH_REQUEST_ID
  | SERVICE | SERVICE_WITH_REQUEST_ID | SERVICE_WITH_CONTEXT | GUARD_CONDITION | NONE

datatype rclc_executor_handle_invocation = ON_NEW_DATA | ALWAYS

datatype rclc_executor_semantics = RCLCPP_EXECUTOR | LET

record rclc_handle =
  htype :: rclc_executor_handle_type
  invocation :: rclc_executor_handle_invocation
  obj :: u32
  data_msg :: u32
  data_response_msg :: u32
  hcallback :: u32
  callback_context :: u32
  req_id :: int
  hindex :: nat
  initialized :: bool
  data_available :: bool

record executor =
  ctx :: u32
  handles :: "rclc_handle list"
  handles_block :: nat
  max_handles :: nat
  next_index :: nat
  has_allocator :: bool
  the_wait_set :: wait_set
  info :: "entity \<Rightarrow> u32"
  timeout_ns :: int
  invocation_time :: int
  trigger_function :: "(rclc_handle list \<Rightarrow> nat \<Rightarrow> u32 \<Rightarrow> bool) option"
  trigger_object :: u32
  data_comm_semantics :: rclc_executor_semantics

text \<open>The calls of the client's code, and what is seen of a turn from outside.\<close>

datatype call =
  Subscription_Call u32 u32 "u32 option"
| Timer_Call u32 u32 int
| Service_Call u32 u32 "int option" u32 "u32 option"
| Client_Call u32 u32 "int option"
| Guard_Call u32

datatype event = Took entity u32 int | Ran call | Fired u32 | Responded u32 int

record world =
  world_timers :: timers
  world_mw :: middleware
  world_clock :: rcl_clock
  world_time :: TimeOut_t

text \<open>What the executor calls: the middleware (\<open>rcl_take\<close>, \<open>rcl_take_request\<close>, \<open>rcl_take_response\<close>, \<open>rcl_send_response\<close>, creating and
  destroying its wait set, receiving data for a time), and the client's callbacks.\<close>

record 'w ports =
  context_valid :: bool
  create_rmw_wait_set :: nat
  destroy_rmw_wait_set :: int
  handle_of :: "entity \<Rightarrow> u32 \<Rightarrow> u32"
  receive :: "int option \<Rightarrow> middleware \<Rightarrow> middleware"
  time_after :: "TimeOut_t \<Rightarrow> TimeOut_t"
  sleep_ms :: "int \<Rightarrow> TimeOut_t \<Rightarrow> TimeOut_t"
  take_data :: "entity \<Rightarrow> u32 \<Rightarrow> u32 \<Rightarrow> 'w world_scheme \<Rightarrow> int \<times> int \<times> 'w world_scheme"
  send_response :: "u32 \<Rightarrow> int \<Rightarrow> u32 \<Rightarrow> 'w world_scheme \<Rightarrow> int \<times> 'w world_scheme"
  run_callback :: "call \<Rightarrow> 'w world_scheme \<Rightarrow> 'w world_scheme"

subsection \<open>Handles\<close>

definition rclc_executor_handle_init :: "nat \<Rightarrow> rclc_handle \<Rightarrow> rclc_handle" where
  "rclc_executor_handle_init maxh h =
     h\<lparr>htype := NONE, invocation := ON_NEW_DATA, obj := 0, data_msg := 0, data_response_msg := 0, callback_context := 0, hcallback := 0,
       hindex := maxh, initialized := False, data_available := False\<rparr>"

definition rclc_executor_handle_clear :: "nat \<Rightarrow> rclc_handle \<Rightarrow> rclc_handle" where
  "rclc_executor_handle_clear maxh h = h\<lparr>hindex := maxh, initialized := False\<rparr>"

fun kind_of :: "rclc_executor_handle_type \<Rightarrow> entity option" where
  "kind_of SUBSCRIPTION = Some Subscription"
| "kind_of SUBSCRIPTION_WITH_CONTEXT = Some Subscription"
| "kind_of TIMER = Some Timer"
| "kind_of CLIENT = Some Client"
| "kind_of CLIENT_WITH_REQUEST_ID = Some Client"
| "kind_of SERVICE = Some Service"
| "kind_of SERVICE_WITH_REQUEST_ID = Some Service"
| "kind_of SERVICE_WITH_CONTEXT = Some Service"
| "kind_of GUARD_CONDITION = Some GuardCondition"
| "kind_of NONE = None"

definition rclc_executor_handle_get_ptr :: "rclc_handle \<Rightarrow> u32" where
  "rclc_executor_handle_get_ptr h = (if kind_of (htype h) = None then 0 else obj h)"

subsection \<open>The executor\<close>

definition rclc_executor_is_valid :: "executor \<Rightarrow> bool" where
  "rclc_executor_is_valid e \<longleftrightarrow> handles_block e \<noteq> 0 \<and> has_allocator e \<and> max_handles e \<noteq> 0"

definition rclc_executor_get_zero_initialized_executor :: executor where
  "rclc_executor_get_zero_initialized_executor = \<lparr>ctx = 0, handles = [], handles_block = 0, max_handles = 0, next_index = 0,
     has_allocator = False, the_wait_set = rcl_get_zero_initialized_wait_set, info = (\<lambda>_. 0), timeout_ns = 0, invocation_time = 0,
     trigger_function = None, trigger_object = 0, data_comm_semantics = RCLCPP_EXECUTOR\<rparr>"

text \<open>The triggers.\<close>

fun rclc_executor_trigger_all :: "rclc_handle list \<Rightarrow> nat \<Rightarrow> u32 \<Rightarrow> bool" where
  "rclc_executor_trigger_all (h # hs) (Suc n) object =
     (if initialized h then if data_available h = False then False else rclc_executor_trigger_all hs n object else True)"
| "rclc_executor_trigger_all hs n object = True"

fun rclc_executor_trigger_any :: "rclc_handle list \<Rightarrow> nat \<Rightarrow> u32 \<Rightarrow> bool" where
  "rclc_executor_trigger_any (h # hs) (Suc n) object =
     (if initialized h then if data_available h = True then True else rclc_executor_trigger_any hs n object else False)"
| "rclc_executor_trigger_any hs n object = False"

fun rclc_executor_trigger_one :: "rclc_handle list \<Rightarrow> nat \<Rightarrow> u32 \<Rightarrow> bool" where
  "rclc_executor_trigger_one (h # hs) (Suc n) object =
     (if initialized h
      then if data_available h = True
           then let handle_obj_ptr = rclc_executor_handle_get_ptr h
                in if handle_obj_ptr = 0 then False
                   else if object = handle_obj_ptr then True else rclc_executor_trigger_one hs n object
           else rclc_executor_trigger_one hs n object
      else False)"
| "rclc_executor_trigger_one hs n object = False"

definition rclc_executor_trigger_always :: "rclc_handle list \<Rightarrow> nat \<Rightarrow> u32 \<Rightarrow> bool" where
  "rclc_executor_trigger_always hs n object = True"

definition rclc_executor_set_trigger :: "(rclc_handle list \<Rightarrow> nat \<Rightarrow> u32 \<Rightarrow> bool) option \<Rightarrow> u32 \<Rightarrow> executor \<Rightarrow> int \<times> executor" where
  "rclc_executor_set_trigger f object e = (RCL_RET_OK, e\<lparr>trigger_function := f, trigger_object := object\<rparr>)"

definition rclc_executor_set_timeout :: "int \<Rightarrow> executor \<Rightarrow> int \<times> executor" where
  "rclc_executor_set_timeout t e = (if rclc_executor_is_valid e then (RCL_RET_OK, e\<lparr>timeout_ns := t\<rparr>) else (RCL_RET_ERROR, e))"

definition rclc_executor_set_semantics :: "rclc_executor_semantics \<Rightarrow> executor \<Rightarrow> int \<times> executor" where
  "rclc_executor_set_semantics m e = (if rclc_executor_is_valid e then (RCL_RET_OK, e\<lparr>data_comm_semantics := m\<rparr>) else (RCL_RET_ERROR, e))"

definition DEFAULT_WAIT_TIMEOUT_NS :: int where "DEFAULT_WAIT_TIMEOUT_NS = 1000000000"

text \<open>\<open>fresh\<close> is what the memory of the array holds.\<close>

definition rclc_executor_init :: "rclc_handle \<Rightarrow> u32 \<Rightarrow> nat \<Rightarrow> bool \<Rightarrow> executor \<Rightarrow> arena \<Rightarrow> int \<times> executor \<times> arena" where
  "rclc_executor_init fresh context number_of_handles allocator_ok e a =
     (if context = 0 then (RCL_RET_INVALID_ARGUMENT, e, a)
      else if \<not> allocator_ok then (RCL_RET_INVALID_ARGUMENT, e, a)
      else if number_of_handles = 0 then (RCL_RET_INVALID_ARGUMENT, e, a)
      else
        let e = rclc_executor_get_zero_initialized_executor\<lparr>ctx := context, max_handles := number_of_handles, next_index := 0,
                  the_wait_set := rcl_get_zero_initialized_wait_set, has_allocator := True, timeout_ns := DEFAULT_WAIT_TIMEOUT_NS\<rparr>
        in case allocate a of
             (p, a) \<Rightarrow>
               let e = e\<lparr>handles_block := p\<rparr>
               in if p = 0 then (RCL_RET_BAD_ALLOC, e, a)
                  else
                    let e = e\<lparr>handles := replicate number_of_handles (rclc_executor_handle_init number_of_handles fresh), info := (\<lambda>_. 0)\<rparr>;
                        e = snd (rclc_executor_set_trigger (Some rclc_executor_trigger_any) 0 e);
                        e = snd (rclc_executor_set_semantics RCLCPP_EXECUTOR e)
                    in (RCL_RET_OK, e, a))"

definition rclc_executor_fini :: "'w ports \<Rightarrow> executor \<Rightarrow> arena \<Rightarrow> int \<times> executor \<times> arena" where
  "rclc_executor_fini P e a =
     (if rclc_executor_is_valid e then
        let a = deallocate (handles_block e) a;
            e = e\<lparr>handles_block := 0, handles := [], max_handles := 0, next_index := 0, info := (\<lambda>_. 0)\<rparr>;
            (e, a) = (if rcl_wait_set_is_valid (the_wait_set e)
                      then (case rcl_wait_set_fini (destroy_rmw_wait_set P) (the_wait_set e) a of (_, ws, a) \<Rightarrow> (e\<lparr>the_wait_set := ws\<rparr>, a))
                      else (e, a))
        in (RCL_RET_OK, e\<lparr>timeout_ns := DEFAULT_WAIT_TIMEOUT_NS\<rparr>, a)
      else (RCL_RET_OK, e, a))"

subsection \<open>Adding handles\<close>

text \<open>
  The part that the functions share: the bound, the fields of the next handle, and the wait set, which is finished so that the next
  turn makes a new one.  The count is not increased when finishing the wait set fails.
\<close>

definition reset_wait_set :: "'w ports \<Rightarrow> executor \<Rightarrow> arena \<Rightarrow> int \<times> executor \<times> arena" where
  "reset_wait_set P e a =
     (if rcl_wait_set_is_valid (the_wait_set e)
      then (case rcl_wait_set_fini (destroy_rmw_wait_set P) (the_wait_set e) a of (ret, ws, a) \<Rightarrow> (ret, e\<lparr>the_wait_set := ws\<rparr>, a))
      else (RCL_RET_OK, e, a))"

definition add_handle :: "'w ports \<Rightarrow> (rclc_handle \<Rightarrow> rclc_handle) \<Rightarrow> entity \<Rightarrow> executor \<Rightarrow> arena \<Rightarrow> int \<times> executor \<times> arena" where
  "add_handle P set_fields k e a =
     (if next_index e \<ge> max_handles e then (RCL_RET_ERROR, e, a)
      else
        let i = next_index e;
            e = e\<lparr>handles := (handles e)[i := (set_fields (handles e ! i))\<lparr>initialized := True\<rparr>], next_index := i + 1\<rparr>
        in case reset_wait_set P e a of
             (ret, e, a) \<Rightarrow>
               if ret \<noteq> RCL_RET_OK then (ret, e, a)
               else (ret, e\<lparr>info := (info e)(k := info e k + 1)\<rparr>, a))"

definition rclc_executor_add_subscription ::
    "'w ports \<Rightarrow> u32 \<Rightarrow> u32 \<Rightarrow> u32 \<Rightarrow> rclc_executor_handle_invocation \<Rightarrow> executor \<Rightarrow> arena \<Rightarrow> int \<times> executor \<times> arena" where
  "rclc_executor_add_subscription P subscription msg cb how e a =
     (if subscription = 0 \<or> msg = 0 \<or> cb = 0 then (RCL_RET_INVALID_ARGUMENT, e, a)
      else add_handle P (\<lambda>h. h\<lparr>htype := SUBSCRIPTION, obj := subscription, data_msg := msg, hcallback := cb, invocation := how,
             callback_context := 0\<rparr>) Subscription e a)"

definition rclc_executor_add_subscription_with_context ::
    "'w ports \<Rightarrow> u32 \<Rightarrow> u32 \<Rightarrow> u32 \<Rightarrow> u32 \<Rightarrow> rclc_executor_handle_invocation \<Rightarrow> executor \<Rightarrow> arena \<Rightarrow> int \<times> executor \<times> arena" where
  "rclc_executor_add_subscription_with_context P subscription msg cb context how e a =
     (if subscription = 0 \<or> msg = 0 \<or> cb = 0 then (RCL_RET_INVALID_ARGUMENT, e, a)
      else add_handle P (\<lambda>h. h\<lparr>htype := SUBSCRIPTION_WITH_CONTEXT, obj := subscription, data_msg := msg, hcallback := cb, invocation := how,
             callback_context := context\<rparr>) Subscription e a)"

definition rclc_executor_add_timer :: "'w ports \<Rightarrow> u32 \<Rightarrow> executor \<Rightarrow> arena \<Rightarrow> int \<times> executor \<times> arena" where
  "rclc_executor_add_timer P timer e a =
     (if timer = 0 then (RCL_RET_INVALID_ARGUMENT, e, a)
      else add_handle P (\<lambda>h. h\<lparr>htype := TIMER, obj := timer, invocation := ON_NEW_DATA, callback_context := 0\<rparr>) Timer e a)"

definition rclc_executor_add_client :: "'w ports \<Rightarrow> u32 \<Rightarrow> u32 \<Rightarrow> u32 \<Rightarrow> executor \<Rightarrow> arena \<Rightarrow> int \<times> executor \<times> arena" where
  "rclc_executor_add_client P client response_msg cb e a =
     (if client = 0 \<or> response_msg = 0 \<or> cb = 0 then (RCL_RET_INVALID_ARGUMENT, e, a)
      else add_handle P (\<lambda>h. h\<lparr>htype := CLIENT, obj := client, data_msg := response_msg, hcallback := cb, invocation := ON_NEW_DATA,
             callback_context := 0\<rparr>) Client e a)"

definition rclc_executor_add_client_with_request_id :: "'w ports \<Rightarrow> u32 \<Rightarrow> u32 \<Rightarrow> u32 \<Rightarrow> executor \<Rightarrow> arena \<Rightarrow> int \<times> executor \<times> arena" where
  "rclc_executor_add_client_with_request_id P client response_msg cb e a =
     (if client = 0 \<or> response_msg = 0 \<or> cb = 0 then (RCL_RET_INVALID_ARGUMENT, e, a)
      else add_handle P (\<lambda>h. h\<lparr>htype := CLIENT_WITH_REQUEST_ID, obj := client, data_msg := response_msg, hcallback := cb,
             invocation := ON_NEW_DATA, callback_context := 0\<rparr>) Client e a)"

definition rclc_executor_add_service :: "'w ports \<Rightarrow> u32 \<Rightarrow> u32 \<Rightarrow> u32 \<Rightarrow> u32 \<Rightarrow> executor \<Rightarrow> arena \<Rightarrow> int \<times> executor \<times> arena" where
  "rclc_executor_add_service P service request_msg response_msg cb e a =
     (if service = 0 \<or> request_msg = 0 \<or> response_msg = 0 \<or> cb = 0 then (RCL_RET_INVALID_ARGUMENT, e, a)
      else add_handle P (\<lambda>h. h\<lparr>htype := SERVICE, obj := service, data_msg := request_msg, data_response_msg := response_msg, hcallback := cb,
             invocation := ON_NEW_DATA, callback_context := 0\<rparr>) Service e a)"

definition rclc_executor_add_service_with_context ::
    "'w ports \<Rightarrow> u32 \<Rightarrow> u32 \<Rightarrow> u32 \<Rightarrow> u32 \<Rightarrow> u32 \<Rightarrow> executor \<Rightarrow> arena \<Rightarrow> int \<times> executor \<times> arena" where
  "rclc_executor_add_service_with_context P service request_msg response_msg cb context e a =
     (if service = 0 \<or> request_msg = 0 \<or> response_msg = 0 \<or> cb = 0 then (RCL_RET_INVALID_ARGUMENT, e, a)
      else add_handle P (\<lambda>h. h\<lparr>htype := SERVICE_WITH_CONTEXT, obj := service, data_msg := request_msg, data_response_msg := response_msg,
             hcallback := cb, invocation := ON_NEW_DATA, callback_context := context\<rparr>) Service e a)"

definition rclc_executor_add_service_with_request_id ::
    "'w ports \<Rightarrow> u32 \<Rightarrow> u32 \<Rightarrow> u32 \<Rightarrow> u32 \<Rightarrow> executor \<Rightarrow> arena \<Rightarrow> int \<times> executor \<times> arena" where
  "rclc_executor_add_service_with_request_id P service request_msg response_msg cb e a =
     (if service = 0 \<or> request_msg = 0 \<or> response_msg = 0 \<or> cb = 0 then (RCL_RET_INVALID_ARGUMENT, e, a)
      else add_handle P (\<lambda>h. h\<lparr>htype := SERVICE_WITH_REQUEST_ID, obj := service, data_msg := request_msg, data_response_msg := response_msg,
             hcallback := cb, invocation := ON_NEW_DATA, callback_context := 0\<rparr>) Service e a)"

definition rclc_executor_add_guard_condition :: "'w ports \<Rightarrow> u32 \<Rightarrow> u32 \<Rightarrow> executor \<Rightarrow> arena \<Rightarrow> int \<times> executor \<times> arena" where
  "rclc_executor_add_guard_condition P gc cb e a =
     (if gc = 0 \<or> cb = 0 then (RCL_RET_INVALID_ARGUMENT, e, a)
      else add_handle P (\<lambda>h. h\<lparr>htype := GUARD_CONDITION, obj := gc, hcallback := cb, invocation := ON_NEW_DATA, callback_context := 0\<rparr>)
             GuardCondition e a)"

subsection \<open>Removing handles\<close>

definition rclc_executor_find_handle :: "u32 \<Rightarrow> executor \<Rightarrow> nat option" where
  "rclc_executor_find_handle rcl_handle e =
     List.find (\<lambda>i. rcl_handle = rclc_executor_handle_get_ptr (handles e ! i)) [0..<next_index e]"

text \<open>The remaining handles move down by one place.\<close>

fun shift_down :: "nat list \<Rightarrow> rclc_handle list \<Rightarrow> rclc_handle list" where
  "shift_down [] hs = hs"
| "shift_down (i # is) hs = shift_down is (hs[i := hs ! (i + 1)])"

definition rclc_executor_remove_handle :: "'w ports \<Rightarrow> nat option \<Rightarrow> executor \<Rightarrow> arena \<Rightarrow> int \<times> executor \<times> arena" where
  "rclc_executor_remove_handle P handle e a =
     (case handle of None \<Rightarrow> (RCL_RET_ERROR, e, a)
      | Some i \<Rightarrow>
          if i \<ge> next_index e then (RCL_RET_ERROR, e, a)
          else if next_index e = 0 then (RCL_RET_ERROR, e, a)
          else
            let final = next_index e - 1;
                hs = shift_down [i..<final] (handles e);
                e = e\<lparr>next_index := final, handles := hs[final := rclc_executor_handle_init (max_handles e) (hs ! final)]\<rparr>
            in reset_wait_set P e a)"

definition remove_kind :: "'w ports \<Rightarrow> entity \<Rightarrow> u32 \<Rightarrow> executor \<Rightarrow> arena \<Rightarrow> int \<times> executor \<times> arena" where
  "remove_kind P k x e a =
     (if x = 0 then (RCL_RET_INVALID_ARGUMENT, e, a)
      else (case rclc_executor_remove_handle P (rclc_executor_find_handle x e) e a of
        (ret, e, a) \<Rightarrow> if ret \<noteq> RCL_RET_OK then (ret, e, a) else (ret, e\<lparr>info := (info e)(k := info e k - 1)\<rparr>, a)))"

definition rclc_executor_remove_subscription :: "'w ports \<Rightarrow> u32 \<Rightarrow> executor \<Rightarrow> arena \<Rightarrow> int \<times> executor \<times> arena" where
  "rclc_executor_remove_subscription P = remove_kind P Subscription"

definition rclc_executor_remove_timer :: "'w ports \<Rightarrow> u32 \<Rightarrow> executor \<Rightarrow> arena \<Rightarrow> int \<times> executor \<times> arena" where
  "rclc_executor_remove_timer P = remove_kind P Timer"

definition rclc_executor_remove_client :: "'w ports \<Rightarrow> u32 \<Rightarrow> executor \<Rightarrow> arena \<Rightarrow> int \<times> executor \<times> arena" where
  "rclc_executor_remove_client P = remove_kind P Client"

definition rclc_executor_remove_service :: "'w ports \<Rightarrow> u32 \<Rightarrow> executor \<Rightarrow> arena \<Rightarrow> int \<times> executor \<times> arena" where
  "rclc_executor_remove_service P = remove_kind P Service"

definition rclc_executor_remove_guard_condition :: "'w ports \<Rightarrow> u32 \<Rightarrow> executor \<Rightarrow> arena \<Rightarrow> int \<times> executor \<times> arena" where
  "rclc_executor_remove_guard_condition P = remove_kind P GuardCondition"

subsection \<open>A turn\<close>

type_synonym 'w seen = "'w world_scheme \<times> event list"

text \<open>Whether the entity of the handle is still in the wait set.\<close>

definition in_wait_set :: "wait_set \<Rightarrow> rclc_handle \<Rightarrow> bool" where
  "in_wait_set ws h \<longleftrightarrow> (case kind_of (htype h) of None \<Rightarrow> False | Some k \<Rightarrow> slots ws k ! hindex h \<noteq> 0)"

definition rclc_check_for_new_data :: "wait_set \<Rightarrow> 'w world_scheme \<Rightarrow> rclc_handle \<Rightarrow> int \<times> rclc_handle" where
  "rclc_check_for_new_data ws w h =
     (case kind_of (htype h) of
        None \<Rightarrow> (RCL_RET_ERROR, h)
      | Some Timer \<Rightarrow>
          if in_wait_set ws h
          then (case world_timers w (obj h) of None \<Rightarrow> (RCL_RET_INVALID_ARGUMENT, h)
                | Some tm \<Rightarrow>
                    (case rcl_timer_is_ready (world_clock w) (world_time w) tm of
                       (rc, timer_is_ready) \<Rightarrow>
                         if rc \<noteq> RCL_RET_OK then (rc, h)
                         else if the timer_is_ready then (RCL_RET_OK, h\<lparr>data_available := True\<rparr>)
                         else (RCL_RET_ERROR, h)))
          else (RCL_RET_OK, h)
      | Some _ \<Rightarrow> (RCL_RET_OK, if in_wait_set ws h then h\<lparr>data_available := True\<rparr> else h))"

definition take_failed :: "entity \<Rightarrow> int" where
  "take_failed k = (if k = Service then RCL_RET_SERVICE_TAKE_FAILED else RCL_RET_SUBSCRIPTION_TAKE_FAILED)"

text \<open>The flag of a subscription or a service is cleared when there was nothing to take; that of a client is not.\<close>

definition rclc_take_new_data :: "'w ports \<Rightarrow> wait_set \<Rightarrow> rclc_handle \<Rightarrow> 'w seen \<Rightarrow> int \<times> rclc_handle \<times> 'w seen" where
  "rclc_take_new_data P ws h s =
     (case kind_of (htype h) of
        None \<Rightarrow> (RCL_RET_ERROR, h, s)
      | Some k \<Rightarrow>
          if k \<in> {Subscription, Service, Client} \<and> in_wait_set ws h
          then (case take_data P k (obj h) (data_msg h) (fst s) of
            (rc, rid, w) \<Rightarrow>
              let s = (w, snd s @ [Took k (obj h) rc]);
                  h = (if k \<noteq> Subscription then h\<lparr>req_id := rid\<rparr> else h)
              in (rc, if rc \<noteq> RCL_RET_OK \<and> k \<noteq> Client \<and> rc = take_failed k then h\<lparr>data_available := False\<rparr> else h, s))
          else (RCL_RET_OK, h, s))"

definition ran :: "'w ports \<Rightarrow> call \<Rightarrow> 'w seen \<Rightarrow> 'w seen" where
  "ran P c s = (run_callback P c (fst s), snd s @ [Ran c])"

definition call_of :: "rclc_handle \<Rightarrow> call" where
  "call_of h =
     (let msg = (if data_available h then data_msg h else 0)
      in case htype h of
           SUBSCRIPTION \<Rightarrow> Subscription_Call (hcallback h) msg None
         | SUBSCRIPTION_WITH_CONTEXT \<Rightarrow> Subscription_Call (hcallback h) msg (Some (callback_context h))
         | SERVICE \<Rightarrow> Service_Call (hcallback h) (data_msg h) None (data_response_msg h) None
         | SERVICE_WITH_REQUEST_ID \<Rightarrow> Service_Call (hcallback h) (data_msg h) (Some (req_id h)) (data_response_msg h) None
         | SERVICE_WITH_CONTEXT \<Rightarrow> Service_Call (hcallback h) (data_msg h) None (data_response_msg h) (Some (callback_context h))
         | CLIENT \<Rightarrow> Client_Call (hcallback h) (data_msg h) None
         | CLIENT_WITH_REQUEST_ID \<Rightarrow> Client_Call (hcallback h) (data_msg h) (Some (req_id h))
         | _ \<Rightarrow> Guard_Call (hcallback h))"

definition invoke_callback :: "rclc_handle \<Rightarrow> bool" where
  "invoke_callback h \<longleftrightarrow> invocation h = ON_NEW_DATA \<and> data_available h = True \<or> invocation h = ALWAYS"

text \<open>A timer and a service can fail; then the flag stays.\<close>

definition rclc_execute :: "'w ports \<Rightarrow> rclc_handle \<Rightarrow> 'w seen \<Rightarrow> int \<times> rclc_handle \<times> 'w seen" where
  "rclc_execute P h s =
     (case (if \<not> invoke_callback h then (RCL_RET_OK, s)
            else (case kind_of (htype h) of
                None \<Rightarrow> (RCL_RET_ERROR, s)
              | Some Timer \<Rightarrow>
                  (case rcl_timer_call (world_clock (fst s)) (world_time (fst s)) (obj h) (world_timers (fst s)) of
                     (rc, ts, c) \<Rightarrow>
                       let w = (fst s)\<lparr>world_timers := ts\<rparr>
                       in if rc \<noteq> RCL_RET_OK then (rc, (w, snd s))
                          else (RCL_RET_OK, (case c of None \<Rightarrow> w | Some (cb, since) \<Rightarrow> run_callback P (Timer_Call cb (obj h) since) w,
                                             snd s @ [Fired (obj h)])))
              | Some Service \<Rightarrow>
                  (case ran P (call_of h) s of
                     (w, es) \<Rightarrow>
                       (case send_response P (obj h) (req_id h) (data_response_msg h) w of
                          (rc, w) \<Rightarrow> (rc, (w, es @ [Responded (obj h) rc]))))
              | Some _ \<Rightarrow> (RCL_RET_OK, ran P (call_of h) s))) of
        (rc, s) \<Rightarrow> if rc \<noteq> RCL_RET_OK then (rc, h, s) else (rc, h\<lparr>data_available := False\<rparr>, s))"

text \<open>The loops over the handles, which end at the first that is not initialised; the first component is the last result.\<close>

fun check_all :: "wait_set \<Rightarrow> 'w world_scheme \<Rightarrow> int \<Rightarrow> rclc_handle list \<Rightarrow> int \<times> rclc_handle list" where
  "check_all ws w rc [] = (rc, [])"
| "check_all ws w rc (h # hs) =
     (if \<not> initialized h then (rc, h # hs)
      else (case rclc_check_for_new_data ws w h of
        (rc, h) \<Rightarrow> if rc \<noteq> RCL_RET_OK \<and> rc \<noteq> RCL_RET_SUBSCRIPTION_TAKE_FAILED then (rc, h # hs)
                   else (case check_all ws w rc hs of (rc, hs) \<Rightarrow> (rc, h # hs))))"

fun take_and_execute_all :: "'w ports \<Rightarrow> wait_set \<Rightarrow> int \<Rightarrow> rclc_handle list \<Rightarrow> 'w seen \<Rightarrow> int \<times> rclc_handle list \<times> 'w seen" where
  "take_and_execute_all P ws rc [] s = (rc, [], s)"
| "take_and_execute_all P ws rc (h # hs) s =
     (if \<not> initialized h then (rc, h # hs, s)
      else (case rclc_take_new_data P ws h s of
        (rc, h, s) \<Rightarrow>
          if rc \<noteq> RCL_RET_OK \<and> rc \<noteq> RCL_RET_SUBSCRIPTION_TAKE_FAILED \<and> rc \<noteq> RCL_RET_SERVICE_TAKE_FAILED then (rc, h # hs, s)
          else (case rclc_execute P h s of
            (rc, h, s) \<Rightarrow>
              if rc \<noteq> RCL_RET_OK then (rc, h # hs, s)
              else (case take_and_execute_all P ws rc hs s of (rc, hs, s) \<Rightarrow> (rc, h # hs, s)))))"

fun take_all :: "'w ports \<Rightarrow> wait_set \<Rightarrow> int \<Rightarrow> rclc_handle list \<Rightarrow> 'w seen \<Rightarrow> int \<times> rclc_handle list \<times> 'w seen" where
  "take_all P ws rc [] s = (rc, [], s)"
| "take_all P ws rc (h # hs) s =
     (if \<not> initialized h then (rc, h # hs, s)
      else (case rclc_take_new_data P ws h s of
        (rc, h, s) \<Rightarrow>
          if rc \<noteq> RCL_RET_OK \<and> rc \<noteq> RCL_RET_SUBSCRIPTION_TAKE_FAILED then (rc, h # hs, s)
          else (case take_all P ws rc hs s of (rc, hs, s) \<Rightarrow> (rc, h # hs, s))))"

fun execute_all :: "'w ports \<Rightarrow> int \<Rightarrow> rclc_handle list \<Rightarrow> 'w seen \<Rightarrow> int \<times> rclc_handle list \<times> 'w seen" where
  "execute_all P rc [] s = (rc, [], s)"
| "execute_all P rc (h # hs) s =
     (if \<not> initialized h then (rc, h # hs, s)
      else (case rclc_execute P h s of
        (rc, h, s) \<Rightarrow>
          if rc \<noteq> RCL_RET_OK then (rc, h # hs, s)
          else (case execute_all P rc hs s of (rc, hs, s) \<Rightarrow> (rc, h # hs, s))))"

definition pull_trigger :: "executor \<Rightarrow> bool" where
  "pull_trigger e = (case trigger_function e of None \<Rightarrow> False | Some f \<Rightarrow> f (handles e) (max_handles e) (trigger_object e))"

definition rclc_default_scheduling :: "'w ports \<Rightarrow> executor \<Rightarrow> 'w seen \<Rightarrow> int \<times> executor \<times> 'w seen" where
  "rclc_default_scheduling P e s =
     (case check_all (the_wait_set e) (fst s) RCL_RET_OK (handles e) of
        (rc, hs) \<Rightarrow>
          let e = e\<lparr>handles := hs\<rparr>
          in if rc \<noteq> RCL_RET_OK \<and> rc \<noteq> RCL_RET_SUBSCRIPTION_TAKE_FAILED then (rc, e, s)
             else if pull_trigger e
             then (case take_and_execute_all P (the_wait_set e) rc (handles e) s of (rc, hs, s) \<Rightarrow> (rc, e\<lparr>handles := hs\<rparr>, s))
             else (rc, e, s))"

definition rclc_let_scheduling :: "'w ports \<Rightarrow> executor \<Rightarrow> 'w seen \<Rightarrow> int \<times> executor \<times> 'w seen" where
  "rclc_let_scheduling P e s =
     (case check_all (the_wait_set e) (fst s) RCL_RET_OK (handles e) of
        (rc, hs) \<Rightarrow>
          let e = e\<lparr>handles := hs\<rparr>
          in if rc \<noteq> RCL_RET_OK \<and> rc \<noteq> RCL_RET_SUBSCRIPTION_TAKE_FAILED then (rc, e, s)
             else if pull_trigger e
             then (case take_all P (the_wait_set e) rc (handles e) s of
               (rc, hs, s) \<Rightarrow>
                 let e = e\<lparr>handles := hs\<rparr>
                 in if rc \<noteq> RCL_RET_OK \<and> rc \<noteq> RCL_RET_SUBSCRIPTION_TAKE_FAILED then (rc, e, s)
                    else (case execute_all P rc (handles e) s of (rc, hs, s) \<Rightarrow> (rc, e\<lparr>handles := hs\<rparr>, s)))
             else (rc, e, s))"

text \<open>The inner \<open>rc\<close> of the source hides the outer: the function returns \<open>RCL_RET_OK\<close> or the error of \<open>rcl_wait_set_init\<close>.\<close>

definition rclc_executor_prepare :: "'w ports \<Rightarrow> executor \<Rightarrow> arena \<Rightarrow> int \<times> executor \<times> arena" where
  "rclc_executor_prepare P e a =
     (if rcl_wait_set_is_valid (the_wait_set e) then (RCL_RET_OK, e, a)
      else (case rcl_wait_set_fini (destroy_rmw_wait_set P) (the_wait_set e) a of
        (_, _, a) \<Rightarrow>
          (case rcl_wait_set_init (context_valid P) (create_rmw_wait_set P) (destroy_rmw_wait_set P) (\<lambda>k. unat (info e k))
                  rcl_get_zero_initialized_wait_set a of
             (rc, ws, a) \<Rightarrow> (if rc \<noteq> RCL_RET_OK then rc else RCL_RET_OK, e\<lparr>the_wait_set := ws\<rparr>, a))))"

text \<open>The loop of \<open>rclc_executor_spin_some\<close> that puts the handles into the wait set.\<close>

definition put_handle :: "'w ports \<Rightarrow> rclc_handle \<Rightarrow> wait_set \<Rightarrow> int \<times> rclc_handle \<times> wait_set" where
  "put_handle P h ws =
     (case kind_of (htype h) of
        None \<Rightarrow> (RCL_RET_ERROR, h, ws)
      | Some k \<Rightarrow>
          (case (if k = Timer then rcl_wait_set_add_timer (obj h) (Some (handle_of P Timer (obj h))) ws
                 else rcl_wait_set_add k (obj h) (handle_of P k (obj h)) ws) of
             (rc, i, ws) \<Rightarrow> (rc, case i of None \<Rightarrow> h | Some j \<Rightarrow> h\<lparr>hindex := j\<rparr>, ws)))"

fun put_handles :: "'w ports \<Rightarrow> rclc_handle list \<Rightarrow> wait_set \<Rightarrow> int \<times> rclc_handle list \<times> wait_set" where
  "put_handles P [] ws = (RCL_RET_OK, [], ws)"
| "put_handles P (h # hs) ws =
     (if \<not> initialized h then (RCL_RET_OK, h # hs, ws)
      else (case put_handle P h ws of
        (rc, h, ws) \<Rightarrow>
          if rc \<noteq> RCL_RET_OK then (rc, h # hs, ws)
          else (case put_handles P hs ws of (rc, hs, ws) \<Rightarrow> (rc, h # hs, ws))))"

text \<open>The result of \<open>rclc_executor_prepare\<close> and that of \<open>rcl_wait\<close> are not used.\<close>

definition rclc_executor_spin_some :: "'w ports \<Rightarrow> int \<Rightarrow> executor \<Rightarrow> arena \<Rightarrow> 'w seen \<Rightarrow> int \<times> executor \<times> arena \<times> 'w seen" where
  "rclc_executor_spin_some P timeout e a s =
     (if \<not> context_valid P then (RCL_RET_ERROR, e, a, s)
      else (case rclc_executor_prepare P e a of
        (_, e, a) \<Rightarrow>
          (case rcl_wait_set_clear (the_wait_set e) of
            (rc, ws) \<Rightarrow>
              let e = e\<lparr>the_wait_set := ws\<rparr>
              in if rc \<noteq> RCL_RET_OK then (rc, e, a, s)
                 else (case put_handles P (handles e) (the_wait_set e) of
                   (rc, hs, ws) \<Rightarrow>
                     let e = e\<lparr>handles := hs, the_wait_set := ws\<rparr>
                     in if rc \<noteq> RCL_RET_OK then (rc, e, a, s)
                        else
                          let w = fst s; t1 = world_time w; t2 = time_after P t1
                          in (case rcl_wait (receive P) (world_clock w) t1 t2 (world_timers w) (s64 timeout) (the_wait_set e) (world_mw w) of
                            (_, ws, mw) \<Rightarrow>
                              let e = e\<lparr>the_wait_set := ws\<rparr>; s = (w\<lparr>world_mw := mw, world_time := t2\<rparr>, snd s)
                              in (case (case data_comm_semantics e of LET \<Rightarrow> rclc_let_scheduling P e s
                                          | RCLCPP_EXECUTOR \<Rightarrow> rclc_default_scheduling P e s) of
                                    (rc, e, s) \<Rightarrow> (rc, e, a, s)))))))"

text \<open>\<open>None\<close>: still spinning after \<open>n\<close> turns.\<close>

fun rclc_executor_spin :: "nat \<Rightarrow> 'w ports \<Rightarrow> executor \<Rightarrow> arena \<Rightarrow> 'w seen \<Rightarrow> int option \<times> executor \<times> arena \<times> 'w seen" where
  "rclc_executor_spin 0 P e a s = (None, e, a, s)"
| "rclc_executor_spin (Suc n) P e a s =
     (case rclc_executor_spin_some P (timeout_ns e) e a s of
        (ret, e, a, s) \<Rightarrow> if \<not> (ret = RCL_RET_OK \<or> ret = RCL_RET_TIMEOUT) then (Some ret, e, a, s) else rclc_executor_spin n P e a s)"

text \<open>\<open>junk\<close> is what is in \<open>end_time_point\<close> when the clock cannot be read.\<close>

definition rclc_executor_spin_one_period ::
    "int \<Rightarrow> 'w ports \<Rightarrow> int \<Rightarrow> executor \<Rightarrow> arena \<Rightarrow> 'w seen \<Rightarrow> int \<times> executor \<times> arena \<times> 'w seen" where
  "rclc_executor_spin_one_period junk P per e a s =
     (let e = (if invocation_time e = 0
               then (case rcutils_system_time_now (world_time (fst s)) of
                       (_, None) \<Rightarrow> e | (_, Some now) \<Rightarrow> e\<lparr>invocation_time := now\<rparr>)
               else e)
      in case rclc_executor_spin_some P (timeout_ns e) e a s of
           (ret, e, a, s) \<Rightarrow>
             if \<not> (ret = RCL_RET_OK \<or> ret = RCL_RET_TIMEOUT) then (ret, e, a, s)
             else (case rcutils_system_time_now (world_time (fst s)) of
               (ret, end_time_point) \<Rightarrow>
                 let sleep_time = s64 (invocation_time e + per - (case end_time_point of None \<Rightarrow> junk | Some v \<Rightarrow> v));
                     w = (if sleep_time > 0 then (fst s)\<lparr>world_time := sleep_ms P (sleep_time div 1000000) (world_time (fst s))\<rparr> else fst s)
                 in (ret, e\<lparr>invocation_time := s64 (invocation_time e + per)\<rparr>, a, (w, snd s))))"

end
