(* ===== verification/Rcl_Wait_Props.thy ===== *)
theory Rcl_Wait_Props
  imports Rcl_Wait
begin

text \<open>
  Wait sets: the blocks a wait set owns, so that a failed initialisation leaks nothing and finalisation gives everything back; the
  places of the entities that were added; and which of them are left after waiting.
\<close>

subsection \<open>Owned blocks\<close>

text \<open>\<open>owns B f a\<close>: of the arena's blocks, those outside of \<open>B\<close> are the blocks of \<open>f\<close>, each of one place.\<close>

definition owns :: "nat set \<Rightarrow> ('s \<Rightarrow> nat) \<Rightarrow> arena \<Rightarrow> bool" where
  "owns B f a \<longleftrightarrow> arena_ok a \<and> set (blocks a) = B \<union> (range f - {0}) \<and> B \<inter> (range f - {0}) = {} \<and>
     (\<forall>s t. f s = f t \<and> f s \<noteq> 0 \<longrightarrow> s = t)"

lemma range_upd: "range (f(s := p)) = insert p (f ` (- {s}))"
  by (auto simp: image_def)

lemma owns_free:
  assumes o: "owns B f a"
  shows "owns B (f(s := 0)) (deallocate (f s) a)"
proof (cases "f s = 0")
  case True
  then show ?thesis using o by (simp add: fun_upd_idem)
next
  case False
  have inj: "\<And>t. f t = f s \<Longrightarrow> t = s" using o False unfolding owns_def by metis
  have m: "f s \<in> set (blocks a)" and n: "f s \<notin> B" using o False by (auto simp: owns_def)
  have r: "range (f(s := 0)) - {0} = (range f - {0}) - {f s}"
    unfolding range_upd using inj by (auto simp: image_def) 
  show ?thesis
    unfolding owns_def r
    using o deallocate_ok [of a "f s"] m n by (auto simp: owns_def)
qed

lemma owns_new:
  assumes o: "owns B f a" and r: "reallocate (f s) a = (q, a')" "q \<noteq> 0"
  shows "owns B (f(s := q)) a'"
proof -
  have m: "f s = 0 \<or> f s \<in> set (blocks a)" using o by (auto simp: owns_def)
  have k: "arena_ok a" using o by (simp add: owns_def)
  have a': "arena_ok a'" "q \<notin> set (blocks a)" "set (blocks a') = insert q (set (blocks a) - {f s})"
    using reallocate_ok [OF k m r(1)] r(2) by auto
  have inj: "\<And>t. f t = f s \<Longrightarrow> f s \<noteq> 0 \<Longrightarrow> t = s" using o unfolding owns_def by metis
  have nb: "f s \<notin> B" using o by (cases "f s = 0") (auto simp: owns_def arena_ok_def)
  have nq: "q \<notin> range f" "q \<notin> B" using a'(2) o r(2) by (auto simp: owns_def)
  have r: "range (f(s := q)) - {0} = insert q ((range f - {0}) - {f s})"
    unfolding range_upd using inj r(2) by (auto simp: image_def)
  have i: "\<forall>x y. (f(s := q)) x = (f(s := q)) y \<and> (f(s := q)) x \<noteq> 0 \<longrightarrow> x = y"
    using o nq(1) by (auto simp: owns_def)
  have b: "set (blocks a) = B \<union> (range f - {0})" "B \<inter> (range f - {0}) = {}" using o by (simp_all add: owns_def)
  have "set (blocks a') = B \<union> (range (f(s := q)) - {0})" unfolding r a'(3) b(1) using nb by auto
  moreover have "B \<inter> (range (f(s := q)) - {0}) = {}" unfolding r using b(2) nq(2) by auto
  ultimately show ?thesis unfolding owns_def using a'(1) i by blast
qed

lemma owns_refused:
  assumes o: "owns B f a" and r: "reallocate (f s) a = (0, a')" and z: "f s = 0"
  shows "owns B f a'"
proof -
  have k: "arena_ok a" using o by (simp add: owns_def)
  show ?thesis using reallocate_ok [OF k _ r] z o by (simp add: owns_def)
qed

datatype place = Impl | Slots entity | Rmw entity

definition places :: "nat \<Rightarrow> (entity \<Rightarrow> nat) \<Rightarrow> (entity \<Rightarrow> nat) \<Rightarrow> place \<Rightarrow> nat" where
  "places i f g s = (case s of Impl \<Rightarrow> i | Slots k \<Rightarrow> f k | Rmw k \<Rightarrow> g k)"

lemma places_simps [simp]:
  "places i f g Impl = i" "places i f g (Slots k) = f k" "places i f g (Rmw k) = g k"
  by (simp_all add: places_def)

lemma places_upd:
  "places i (f(k := p)) g = (places i f g)(Slots k := p)"
  "places i f (g(k := p)) = (places i f g)(Rmw k := p)"
  "(places i f g)(Impl := j) = places j f g"
  by (rule ext, rename_tac s, case_tac s; simp)+

definition block_at :: "wait_set \<Rightarrow> place \<Rightarrow> nat" where
  "block_at ws = places (ws_impl ws) (slot_block ws) (rmw_block ws)"

text \<open>What a step of resizing does to the places \<open>S\<close>: the others are as before, and the arena agrees with the wait set after a
  success, or when the places \<open>C\<close> were empty.\<close>

definition resizes :: "place set \<Rightarrow> place set \<Rightarrow> wait_set \<Rightarrow> arena \<Rightarrow> int \<times> wait_set \<times> arena \<Rightarrow> bool" where
  "resizes S C ws a x \<longleftrightarrow>
     (case x of (r, ws', a') \<Rightarrow>
        ws_impl ws' = ws_impl ws \<and> rmw_block ws' Timer = rmw_block ws Timer \<and> (r = RCL_RET_OK \<longrightarrow> (\<forall>s. s \<notin> S \<longrightarrow> block_at ws' s = block_at ws s)) \<and>
        (\<forall>B. owns B (block_at ws) a \<and> (r = RCL_RET_OK \<or> (\<forall>s \<in> C. block_at ws s = 0)) \<longrightarrow> owns B (block_at ws') a'))"

definition places_of :: "entity \<Rightarrow> place set" where
  "places_of k = (if has_rmw k then {Slots k, Rmw k} else {Slots k})"

lemma set_resize_resizes: "resizes (places_of k) (places_of k) ws a (set_resize k n ws a)"
proof -
  consider (zero) "n = 0" | (none) a' where "n \<noteq> 0" "reallocate (slot_block ws k) a = (0, a')"
    | (one) p a' where "n \<noteq> 0" "reallocate (slot_block ws k) a = (p, a')" "p \<noteq> 0" "\<not> has_rmw k"
    | (half) p a1 a2 where "n \<noteq> 0" "reallocate (slot_block ws k) a = (p, a1)" "p \<noteq> 0" "has_rmw k" "reallocate (rmw_block ws k) a1 = (0, a2)"
    | (two) p a1 q a2 where "n \<noteq> 0" "reallocate (slot_block ws k) a = (p, a1)" "p \<noteq> 0" "has_rmw k" "reallocate (rmw_block ws k) a1 = (q, a2)" "q \<noteq> 0"
    by (metis surj_pair)
  then show ?thesis
  proof cases
    case zero
    let ?f = "block_at ws"
    have "owns B (?f(Slots k := 0)) (deallocate (slot_block ws k) a)" if "owns B ?f a" for B
      using owns_free [OF that, of "Slots k"] by (simp add: block_at_def)
    moreover have "owns B (?f(Slots k := 0, Rmw k := 0)) (deallocate (rmw_block ws k) (deallocate (slot_block ws k) a))"
      if "owns B ?f a" for B
      using owns_free [OF owns_free [OF that, of "Slots k"], of "Rmw k"] by (simp add: block_at_def)
    ultimately show ?thesis using zero
      by (auto simp: resizes_def has_rmw_def places_of_def set_resize_def Let_def block_at_def places_upd(1,2))
  next
    case none
    then show ?thesis using owns_refused [of _ "block_at ws" a "Slots k" a']
      by (auto simp: resizes_def has_rmw_def places_of_def set_resize_def Let_def block_at_def places_upd(1,2) rcl_rets fun_upd_idem)
  next
    case one
    then show ?thesis using owns_new [of _ "block_at ws" a "Slots k" p a']
      by (auto simp: resizes_def has_rmw_def places_of_def set_resize_def Let_def block_at_def places_upd(1,2) rcl_rets)
  next
    case half
    have "owns B ((block_at ws)(Slots k := 0, Rmw k := 0)) (deallocate p a2)"
      if o: "owns B (block_at ws) a" "slot_block ws k = 0" "rmw_block ws k = 0" for B
    proof -
      have "owns B ((block_at ws)(Slots k := p)) a1" using owns_new [OF o(1), of "Slots k"] half by (simp add: block_at_def)
      then have "owns B ((block_at ws)(Slots k := p)) a2" using owns_refused [of B _ a1 "Rmw k" a2] half o by (simp add: block_at_def)
      then show ?thesis using owns_free [of B "(block_at ws)(Slots k := p)" a2 "Slots k"] o by (simp add: fun_upd_idem block_at_def)
    qed
    then show ?thesis using half
      by (auto simp: resizes_def has_rmw_def places_of_def set_resize_def Let_def block_at_def places_upd(1,2) rcl_rets fun_upd_twist)
  next
    case two
    have "owns B ((block_at ws)(Slots k := p, Rmw k := q)) a2" if o: "owns B (block_at ws) a" for B
    proof -
      have "owns B ((block_at ws)(Slots k := p)) a1" using owns_new [OF o, of "Slots k"] two by (simp add: block_at_def)
      then show ?thesis using owns_new [of B _ a1 "Rmw k" q a2] two by (simp add: block_at_def)
    qed
    then show ?thesis using two
      by (auto simp: resizes_def has_rmw_def places_of_def set_resize_def Let_def block_at_def places_upd(1,2))
  qed
qed

lemma resize_rmw_guards_resizes: "resizes {Rmw GuardCondition} {Rmw GuardCondition} ws a (resize_rmw_guards n ws a)"
proof -
  let ?g = "Rmw GuardCondition"
  have z: "owns B ((block_at ws)(?g := 0)) (deallocate (rmw_block ws GuardCondition) a)" if "owns B (block_at ws) a" for B
    using owns_free [OF that, of ?g] by (simp add: block_at_def)
  obtain p a' where r: "reallocate (rmw_block ws GuardCondition) a = (p, a')" by fastforce
  have ok: "owns B ((block_at ws)(?g := p)) a'" if "owns B (block_at ws) a" "p \<noteq> 0" for B
    using owns_new [OF that(1), of ?g p a'] r that by (simp add: block_at_def)
  have no: "owns B ((block_at ws)(Slots GuardCondition := 0, Slots Timer := 0))
      (deallocate (slot_block ws Timer) (deallocate (slot_block ws GuardCondition) a'))"
    if "owns B (block_at ws) a" "p = 0" "rmw_block ws GuardCondition = 0" for B
  proof -
    have "owns B (block_at ws) a'" using owns_refused [OF that(1), of ?g a'] r that by (simp add: block_at_def)
    then show ?thesis using owns_free [OF owns_free, of B "block_at ws" a' "Slots GuardCondition" "Slots Timer"] by (simp add: block_at_def)
  qed
  show ?thesis using z r ok no
    by (auto simp: resizes_def resize_rmw_guards_def Let_def block_at_def places_upd(1,2) rcl_rets fun_upd_idem)
qed

text \<open>A wait set under construction: the places \<open>Z\<close> are still empty.\<close>

definition building :: "nat set \<Rightarrow> place set \<Rightarrow> int \<times> wait_set \<times> arena \<Rightarrow> bool" where
  "building B Z x \<longleftrightarrow> (case x of (r, ws, a) \<Rightarrow> owns B (block_at ws) a \<and> (r = RCL_RET_OK \<longrightarrow> (\<forall>s \<in> Z. block_at ws s = 0)))"

lemma building_step:
  assumes b: "building B Z x" and f: "\<And>ws a. resizes S C ws a (f ws a)" and c: "C \<subseteq> Z"
  shows "building B (Z - S) (and_then x f)"
proof -
  obtain r ws a where x: "x = (r, ws, a)" by (cases x)
  show ?thesis
  proof (cases "r = RCL_RET_OK")
    case True
    obtain r' ws' a' where y: "f ws a = (r', ws', a')" by (cases "f ws a")
    have o: "owns B (block_at ws) a" "\<forall>s \<in> Z. block_at ws s = 0" using b x True by (auto simp: building_def)
    have "\<forall>s \<in> C. block_at ws s = 0" using o(2) c by blast
    then have u: "r' = RCL_RET_OK \<longrightarrow> (\<forall>s. s \<notin> S \<longrightarrow> block_at ws' s = block_at ws s)" "owns B (block_at ws') a'"
      using f [of ws a] y o(1) by (simp_all add: resizes_def)
    then show ?thesis using o x y True by (simp add: building_def and_then_def)
  qed (use b x in \<open>auto simp: building_def and_then_def\<close>)
qed

text \<open>A wait set that is resized: it agrees with the arena as long as every step succeeds.\<close>

definition resized :: "nat set \<Rightarrow> int \<times> wait_set \<times> arena \<Rightarrow> bool" where
  "resized B x \<longleftrightarrow> (case x of (r, ws, a) \<Rightarrow> r = RCL_RET_OK \<longrightarrow> owns B (block_at ws) a)"

lemma resized_step:
  assumes b: "resized B x" and f: "\<And>ws a. resizes S C ws a (f ws a)"
  shows "resized B (and_then x f)"
proof -
  obtain r ws a where x: "x = (r, ws, a)" by (cases x)
  obtain r' ws' a' where y: "f ws a = (r', ws', a')" by (cases "f ws a")
  show ?thesis using b x y f [of ws a] by (auto simp: resized_def and_then_def resizes_def)
qed

lemmas resize_steps = set_resize_resizes resize_rmw_guards_resizes

lemma resize_chain:
  assumes "ws_impl ws \<noteq> 0"
  shows "rcl_wait_set_resize n ws a =
     and_then (and_then (and_then (and_then (and_then (and_then (and_then (RCL_RET_OK, ws, a)
        (set_resize Subscription (n Subscription)))
        (set_resize GuardCondition (n GuardCondition)))
        (resize_rmw_guards (n GuardCondition + n Timer)))
        (set_resize Timer (n Timer)))
        (set_resize Client (n Client)))
        (set_resize Service (n Service)))
        (set_resize Event (n Event))"
proof -
  have "and_then (RCL_RET_OK, ws, a) f = f ws a" for f by (simp add: and_then_def)
  then show ?thesis using assms by (simp add: rcl_wait_set_resize_def)
qed

lemma and_then_keeps:
  assumes "ws_impl (fst (snd x)) = i \<and> rmw_block (fst (snd x)) Timer = t" "\<And>ws a. resizes S C ws a (f ws a)"
  shows "ws_impl (fst (snd (and_then x f))) = i \<and> rmw_block (fst (snd (and_then x f))) Timer = t"
proof -
  obtain r ws a where x: "x = (r, ws, a)" by (cases x)
  obtain r' ws' a' where y: "f ws a = (r', ws', a')" by (cases "f ws a")
  show ?thesis using assms(1) x y assms(2) [of ws a] by (auto simp: and_then_def resizes_def)
qed

lemma resize_keeps:
  assumes "rcl_wait_set_resize n ws a = (r, ws', a')"
  shows "ws_impl ws' = ws_impl ws" "rmw_block ws' Timer = rmw_block ws Timer"
proof -
  have "ws_impl (fst (snd (rcl_wait_set_resize n ws a))) = ws_impl ws \<and> rmw_block (fst (snd (rcl_wait_set_resize n ws a))) Timer = rmw_block ws Timer"
  proof (cases "ws_impl ws = 0")
    case False
    show ?thesis unfolding resize_chain [OF False]
      by (intro and_then_keeps [OF _ set_resize_resizes] and_then_keeps [OF _ resize_rmw_guards_resizes]) simp
  qed (simp add: rcl_wait_set_resize_def)
  then show "ws_impl ws' = ws_impl ws" "rmw_block ws' Timer = rmw_block ws Timer" using assms by simp_all
qed

lemma resize_fresh:
  assumes o: "owns B (block_at ws) a" and z: "\<And>k. slot_block ws k = 0" "\<And>k. rmw_block ws k = 0"
    and r: "rcl_wait_set_resize n ws a = (r, ws', a')"
  shows "owns B (block_at ws') a'"
proof (cases "ws_impl ws = 0")
  case True
  then show ?thesis using o r by (simp add: rcl_wait_set_resize_def)
next
  case False
  have "building B
     (range Slots \<union> range Rmw - places_of Subscription - places_of GuardCondition - {Rmw GuardCondition} - places_of Timer
      - places_of Client - places_of Service - places_of Event) (r, ws', a')"
    unfolding r [symmetric] resize_chain [OF False]
    by (intro building_step [OF _ set_resize_resizes] building_step [OF _ resize_rmw_guards_resizes])
      (use o z in \<open>auto simp: building_def block_at_def places_of_def has_rmw_def\<close>)
  then show ?thesis by (simp add: building_def)
qed

lemma resize_ok:
  assumes o: "owns B (block_at ws) a" and r: "rcl_wait_set_resize n ws a = (RCL_RET_OK, ws', a')"
  shows "owns B (block_at ws') a'"
proof (cases "ws_impl ws = 0")
  case True
  then show ?thesis using o r by (simp add: rcl_wait_set_resize_def)
next
  case False
  have "resized B (RCL_RET_OK, ws', a')"
    unfolding r [symmetric] resize_chain [OF False]
    by (intro resized_step [OF _ set_resize_resizes] resized_step [OF _ resize_rmw_guards_resizes])
      (use o in \<open>simp add: resized_def\<close>)
  then show ?thesis by (simp add: resized_def)
qed

text \<open>Resizing to nothing cannot fail and frees every array.\<close>

lemma set_resize_0:
  "\<exists>ws' a'. set_resize k 0 ws a = (RCL_RET_OK, ws', a') \<and> slot_block ws' = (slot_block ws)(k := 0) \<and>
     rmw_block ws' = (if has_rmw k then (rmw_block ws)(k := 0) else rmw_block ws)"
  by (auto simp: set_resize_def Let_def fun_eq_iff)

lemma resize_0:
  assumes i: "ws_impl ws \<noteq> 0" and t: "rmw_block ws Timer = 0"
  shows "\<exists>ws' a'. rcl_wait_set_resize (\<lambda>_. 0) ws a = (RCL_RET_OK, ws', a') \<and> (\<forall>k. slot_block ws' k = 0 \<and> rmw_block ws' k = 0)"
proof -
  obtain ws1 a1 where 1: "set_resize Subscription 0 ws a = (RCL_RET_OK, ws1, a1)" "slot_block ws1 = (slot_block ws)(Subscription := 0)"
    "rmw_block ws1 = (rmw_block ws)(Subscription := 0)" using set_resize_0 [of Subscription ws a] by (auto simp: has_rmw_def)
  obtain ws2 a2 where 2: "set_resize GuardCondition 0 ws1 a1 = (RCL_RET_OK, ws2, a2)" "slot_block ws2 = (slot_block ws1)(GuardCondition := 0)"
    "rmw_block ws2 = rmw_block ws1" using set_resize_0 [of GuardCondition ws1 a1] by (auto simp: has_rmw_def)
  obtain ws3 a3 where 3: "resize_rmw_guards 0 ws2 a2 = (RCL_RET_OK, ws3, a3)" "slot_block ws3 = slot_block ws2"
    "rmw_block ws3 = (rmw_block ws2)(GuardCondition := 0)" by (simp add: resize_rmw_guards_def Let_def)
  obtain ws4 a4 where 4: "set_resize Timer 0 ws3 a3 = (RCL_RET_OK, ws4, a4)" "slot_block ws4 = (slot_block ws3)(Timer := 0)"
    "rmw_block ws4 = rmw_block ws3" using set_resize_0 [of Timer ws3 a3] by (auto simp: has_rmw_def)
  obtain ws5 a5 where 5: "set_resize Client 0 ws4 a4 = (RCL_RET_OK, ws5, a5)" "slot_block ws5 = (slot_block ws4)(Client := 0)"
    "rmw_block ws5 = (rmw_block ws4)(Client := 0)" using set_resize_0 [of Client ws4 a4] by (auto simp: has_rmw_def)
  obtain ws6 a6 where 6: "set_resize Service 0 ws5 a5 = (RCL_RET_OK, ws6, a6)" "slot_block ws6 = (slot_block ws5)(Service := 0)"
    "rmw_block ws6 = (rmw_block ws5)(Service := 0)" using set_resize_0 [of Service ws5 a5] by (auto simp: has_rmw_def)
  obtain ws7 a7 where 7: "set_resize Event 0 ws6 a6 = (RCL_RET_OK, ws7, a7)" "slot_block ws7 = (slot_block ws6)(Event := 0)"
    "rmw_block ws7 = (rmw_block ws6)(Event := 0)" using set_resize_0 [of Event ws6 a6] by (auto simp: has_rmw_def)
  have "rcl_wait_set_resize (\<lambda>_. 0) ws a = (RCL_RET_OK, ws7, a7)"
    unfolding resize_chain [OF i] by (simp add: and_then_def 1(1) 2(1) 3(1) 4(1) 5(1) 6(1) 7(1))
  moreover have "slot_block ws7 k = 0 \<and> rmw_block ws7 k = 0" for k
    using t by (cases k) (simp_all add: 1 2 3 4 5 6 7)
  ultimately show ?thesis by blast
qed

lemma clean_up_frees:
  assumes o: "owns B (block_at ws) a" and i: "ws_impl ws \<noteq> 0" and t: "rmw_block ws Timer = 0"
    and c: "wait_set_clean_up ws a = (ws', a')"
  shows "arena_ok a'" "set (blocks a') = B" "ws_impl ws' = 0" "\<And>k. slot_block ws' k = 0" "\<And>k. rmw_block ws' k = 0"
proof -
  obtain ws1 a1 where r: "rcl_wait_set_resize (\<lambda>_. 0) ws a = (RCL_RET_OK, ws1, a1)"
    and z: "\<And>k. slot_block ws1 k = 0" "\<And>k. rmw_block ws1 k = 0" using resize_0 [OF i t] by blast
  have e: "ws' = ws1\<lparr>ws_impl := 0\<rparr>" "a' = deallocate (ws_impl ws1) a1" using c r by (auto simp: wait_set_clean_up_def)
  have "owns B (block_at ws1) a1" using resize_ok [OF o r] .
  from owns_free [OF this, of Impl]
  have w: "owns B (block_at ws') a'"
    using e by (simp add: block_at_def places_upd(3))
  have n: "block_at ws' s = 0" for s using e z by (cases s) (simp_all add: block_at_def)
  have "range (block_at ws') - {0} = {}" using n by auto
  then show "arena_ok a'" "set (blocks a') = B" using w by (auto simp: owns_def)
  show "ws_impl ws' = 0" "\<And>k. slot_block ws' k = 0" "\<And>k. rmw_block ws' k = 0" using e z by simp_all
qed

fun resize_all :: "(entity \<Rightarrow> nat) list \<Rightarrow> wait_set \<Rightarrow> arena \<Rightarrow> int \<times> wait_set \<times> arena" where
  "resize_all [] ws a = (RCL_RET_OK, ws, a)"
| "resize_all (n # sizes) ws a = and_then (rcl_wait_set_resize n ws a) (resize_all sizes)"

lemma resize_all_ok:
  assumes "resize_all sizes ws a = (RCL_RET_OK, ws', a')" "owns B (block_at ws) a" "ws_impl ws \<noteq> 0" "rmw_block ws Timer = 0"
  shows "owns B (block_at ws') a' \<and> ws_impl ws' \<noteq> 0 \<and> rmw_block ws' Timer = 0"
  using assms
proof (induction sizes arbitrary: ws a)
  case (Cons n sizes)
  obtain r ws1 a1 where r: "rcl_wait_set_resize n ws a = (r, ws1, a1)" by (metis surj_pair)
  then have 1: "r = RCL_RET_OK" "resize_all sizes ws1 a1 = (RCL_RET_OK, ws', a')"
    using Cons.prems(1) by (auto simp: and_then_def split: if_splits)
  then show ?case using Cons.IH [OF 1(2)] resize_ok [OF Cons.prems(2)] r resize_keeps [OF r] Cons.prems(3,4) by simp
qed simp

lemma owns_nothing:
  assumes "arena_ok a" "\<And>s. f s = 0"
  shows "owns (set (blocks a)) f a"
proof -
  have "range f - {0} = {}" using assms(2) by auto
  then show ?thesis using assms by (auto simp: owns_def)
qed

lemma wait_set_blocks:
  assumes a: "arena_ok a"
    and init: "rcl_wait_set_init context_valid created destroyed n rcl_get_zero_initialized_wait_set a = (r, ws, a1)"
  shows "arena_ok a1" "r \<noteq> RCL_RET_OK \<longrightarrow> set (blocks a1) = set (blocks a) \<and> \<not> rcl_wait_set_is_valid ws"
    "r = RCL_RET_OK \<and> resize_all sizes ws a1 = (RCL_RET_OK, ws2, a2) \<and> rcl_wait_set_fini destroyed' ws2 a2 = (r', ws3, a3) \<longrightarrow>
       rcl_wait_set_is_valid ws \<and> arena_ok a3 \<and> set (blocks a3) = set (blocks a) \<and> \<not> rcl_wait_set_is_valid ws3"
proof -
  let ?z = rcl_get_zero_initialized_wait_set
  let ?B = "set (blocks a)"
  have z: "\<not> rcl_wait_set_is_valid ?z" by (simp add: rcl_wait_set_is_valid_def rcl_get_zero_initialized_wait_set_def)
  have "arena_ok a1 \<and> (r \<noteq> RCL_RET_OK \<longrightarrow> set (blocks a1) = ?B \<and> ws_impl ws = 0) \<and>
      (r = RCL_RET_OK \<longrightarrow> owns ?B (block_at ws) a1 \<and> ws_impl ws \<noteq> 0 \<and> rmw_block ws Timer = 0)"
  proof (cases context_valid)
    case False
    then show ?thesis using init z a by (auto simp: rcl_wait_set_init_def rcl_rets rcl_wait_set_is_valid_def)
  next
    case valid: True
    from a show ?thesis
    proof (cases rule: allocate_cases)
      case (fail a')
      then show ?thesis using init z valid by (auto simp: rcl_wait_set_init_def rcl_rets)
    next
      case (ok p a')
      define w where "w = ?z\<lparr>ws_impl := p, added := (\<lambda>_. 0), rmw_slots := (\<lambda>_. []), rmw_block := (\<lambda>_. 0), rmw_count := (\<lambda>_. 0),
          rmw_wait_set := created\<rparr>"
      have w0: "\<And>k. slot_block w k = 0" "\<And>k. rmw_block w k = 0" "ws_impl w = p"
        by (simp_all add: w_def rcl_get_zero_initialized_wait_set_def)
      have "owns ?B (\<lambda>s :: place. 0) a" using owns_nothing [OF a, of "\<lambda>s :: place. 0"] by simp
      from owns_new [OF this, where s = Impl and q = p and a' = a'] have "owns ?B ((\<lambda>s :: place. 0)(Impl := p)) a'" using ok by (simp add: reallocate_def)
      moreover have "block_at w = (\<lambda>s. 0)(Impl := p)"
        by (rule ext, rename_tac s, case_tac s) (simp_all add: block_at_def w0)
      ultimately have o: "owns ?B (block_at w) a'" by simp
      obtain r1 w1 a2 where s: "(if created = 0 then (RCL_RET_ERROR, w, a') else rcl_wait_set_resize n w a') = (r1, w1, a2)"
        by (metis surj_pair)
      have o1: "owns ?B (block_at w1) a2" and k1: "ws_impl w1 \<noteq> 0" "rmw_block w1 Timer = 0"
        using s o resize_fresh [OF o w0(1,2)] resize_keeps [of n w a'] w0 ok by (auto split: if_splits)
      obtain w2 a3 where c: "wait_set_clean_up w1 a2 = (w2, a3)" by fastforce
      have "(r, ws, a1) = (if r1 = RCL_RET_OK then (RCL_RET_OK, w1, a2) else (if destroyed \<noteq> RCL_RET_OK then RCL_RET_WAIT_SET_INVALID else r1, w2, a3))"
        using init valid z ok s c by (auto simp: rcl_wait_set_init_def Let_def w_def [symmetric] split: if_splits)
      then show ?thesis using clean_up_frees [OF o1 k1 c] o1 k1 by (auto simp: rcl_rets owns_def split: if_splits)
    qed
  qed
  then have i: "arena_ok a1" "r \<noteq> RCL_RET_OK \<Longrightarrow> set (blocks a1) = ?B \<and> ws_impl ws = 0"
    "r = RCL_RET_OK \<Longrightarrow> owns ?B (block_at ws) a1 \<and> ws_impl ws \<noteq> 0 \<and> rmw_block ws Timer = 0" by blast+
  show "arena_ok a1" "r \<noteq> RCL_RET_OK \<longrightarrow> set (blocks a1) = ?B \<and> \<not> rcl_wait_set_is_valid ws"
    using i by (auto simp: rcl_wait_set_is_valid_def)
  show "r = RCL_RET_OK \<and> resize_all sizes ws a1 = (RCL_RET_OK, ws2, a2) \<and> rcl_wait_set_fini destroyed' ws2 a2 = (r', ws3, a3) \<longrightarrow>
       rcl_wait_set_is_valid ws \<and> arena_ok a3 \<and> set (blocks a3) = set (blocks a) \<and> \<not> rcl_wait_set_is_valid ws3"
  proof
    assume p: "r = RCL_RET_OK \<and> resize_all sizes ws a1 = (RCL_RET_OK, ws2, a2) \<and> rcl_wait_set_fini destroyed' ws2 a2 = (r', ws3, a3)"
    then have o: "owns ?B (block_at ws2) a2" "ws_impl ws2 \<noteq> 0" "rmw_block ws2 Timer = 0"
      using resize_all_ok [of sizes ws a1 ws2 a2 ?B] i(3) by blast+
    have c: "wait_set_clean_up ws2 a2 = (ws3, a3)"
      using p o(2) by (auto simp: rcl_wait_set_fini_def rcl_wait_set_is_valid_def split: prod.splits)
    show "rcl_wait_set_is_valid ws \<and> arena_ok a3 \<and> set (blocks a3) = set (blocks a) \<and> \<not> rcl_wait_set_is_valid ws3"
      using clean_up_frees [OF o c] i(3) p by (simp add: rcl_wait_set_is_valid_def)
  qed
qed


lemmas wait_set_run = rcl_wait_set_init_def rcl_get_zero_initialized_wait_set_def rcl_wait_set_is_valid_def new_arena_def
  allocate_def reallocate_def deallocate_def rcl_wait_set_resize_def set_resize_def resize_rmw_guards_def has_rmw_def and_then_def
  wait_set_clean_up_def Let_def rcl_rets numeral_eq_Suc

definition two_each :: "entity \<Rightarrow> nat" where "two_each k = (if k = Event then 0 else 2)"


end
