(* ===== verification/Rcl_Timer_Props.thy ===== *)
theory Rcl_Timer_Props
  imports Rcl_Timer
begin

text \<open>
  What the timers promise: no call before its time, calls stay in phase with the start, the time between calls is kept over jumps
  of ROS time, and two places where the code does something else.
\<close>

subsection \<open>The clock\<close>

text \<open>Nanoseconds since the kernel started.\<close>

definition uptime :: "TimeOut_t \<Rightarrow> int" where
  "uptime t = (xOverflowCount t * 2 ^ 32 + uint (xTimeOnEntering t)) * 1000000"

definition plausible :: "TimeOut_t \<Rightarrow> bool" where
  "plausible t \<longleftrightarrow> 0 \<le> xOverflowCount t \<and> xOverflowCount t < 1000"

lemma uptime_range:
  assumes "plausible t"
  shows "0 \<le> uptime t" "uptime t < 4611686018427387904"
proof -
  have "0 \<le> uint (xTimeOnEntering t)" "uint (xTimeOnEntering t) < 4294967296" "xOverflowCount t \<le> 999"
    using assms by (simp_all add: plausible_def)
  note b = this
  show "0 \<le> uptime t" using b assms by (simp add: uptime_def plausible_def)
  have "uptime t = 4294967296000000 * xOverflowCount t + uint (xTimeOnEntering t) * 1000000" by (simp add: uptime_def)
  then show "uptime t < 4611686018427387904" using b by linarith
qed

lemma system_time_now:
  assumes "plausible t"
  shows "rcutils_system_time_now t = (RCL_RET_OK, Some (uptime t))"
proof -
  have g: "valid_ts (snd (clock_gettime t))" "ns (snd (clock_gettime t)) = uptime t"
    using gettime_ns [of t] assms by (auto simp: plausible_def uptime_def)
  let ?s = "tv_sec (snd (clock_gettime t))" and ?n = "tv_nsec (snd (clock_gettime t))"
  have n: "0 \<le> ?n" "?n < 1000000000" and u: "?s * 1000000000 + ?n = uptime t" using g by (auto simp: valid_ts_def ns_def)
  have s: "0 \<le> ?s" "?s * 1000000000 < 4611686018427387904" using n u uptime_range [OF assms] by linarith+
  have "s64 (?s * 1000000000) = ?s * 1000000000" "s64 (uptime t) = uptime t"
    using s uptime_range [OF assms] by (simp_all add: s64_id)
  then show ?thesis using n s u by (simp add: rcutils_system_time_now_def would_be_negative_def)
qed

definition steady :: "rcl_clock \<Rightarrow> bool" where
  "steady c \<longleftrightarrow> ctype c = RCL_STEADY_TIME \<and> get_now c = rcl_get_steady_time"

lemma steady_now: "steady c \<Longrightarrow> plausible t \<Longrightarrow> rcl_clock_get_now (Some c) t = (RCL_RET_OK, Some (uptime t))"
  using system_time_now [of t] by (simp add: steady_def rcl_clock_get_now_def rcutils_steady_time_now_def rcutils_system_time_now_def)

subsection \<open>The next call\<close>

lemma advance_phase:
  assumes p: "0 < per" "per < 2 ^ 60" and n: "0 \<le> now" "now < 2 ^ 62" and x: "0 \<le> next" "next < 2 ^ 62 + 2 ^ 60"
  shows "\<exists>k \<ge> 1. advance now per next = next + k * per \<and> now \<le> next + k * per \<and> (k = 1 \<or> next + k * per < now + per)"
proof -
  note b = p(2) n(2) x(2)
  have 1: "s64 (next + per) = next + per" using p(1) x(1) b by (simp add: s64_id)
  show ?thesis
  proof (cases "next + per < now")
    case False
    then show ?thesis using 1 by (intro exI [of _ 1]) (simp add: advance_def Let_def)
  next
    case True
    let ?d = "now - (next + per)"
    have d: "s64 ?d = ?d" "0 < ?d" using True p(1) x(1) b n(1) by (simp_all add: s64_id)
    have q: "(?d - 1) sdiv per = (?d - 1) div per" using d(2) p(1) by (intro sdiv_nonneg) simp_all
    let ?k = "1 + (?d - 1) div per"
    have m: "per * ((?d - 1) div per) \<le> ?d - 1" "?d - 1 < per * ((?d - 1) div per) + per"
      using mult_div_mod_eq [of per "?d - 1"] pos_mod_sign [OF p(1), of "?d - 1"] pos_mod_bound [OF p(1), of "?d - 1"] by linarith+
    have k: "0 \<le> (?d - 1) div per" using d(2) p(1) by (simp add: pos_imp_zdiv_nonneg_iff)
    have kb: "?k * per = per + per * ((?d - 1) div per)" by (simp add: algebra_simps)
    have "(?d - 1) div per \<le> ?d - 1" using p(1) d(2) zdiv_mono2 [of "?d - 1" 1 per] by simp
    then have s: "s64 ?k = ?k" "s64 (?k * per) = ?k * per" "s64 (next + per + ?k * per) = next + per + ?k * per"
      using k m p(1) b x(1) n(1) d(2) unfolding kb by (simp_all add: s64_id)
    have "advance now per next = next + per + ?k * per"
      using True p(1) 1 d q s by (simp add: advance_def Let_def)
    then show ?thesis using k m unfolding kb by (intro exI [of _ "1 + ?k"]) (auto simp: algebra_simps)
  qed
qed


lemma timer_call_steady:
  assumes "steady clock" "plausible t" "ts timer = Some tm" "\<not> canceled tm"
  shows "rcl_timer_call clock t timer ts =
    (RCL_RET_OK, ts(timer \<mapsto> tm\<lparr>last_call_time := uptime t, next_call_time := advance (uptime t) (period tm) (next_call_time tm)\<rparr>),
     if timer_callback tm \<noteq> 0 then Some (timer_callback tm, s64 (uptime t - last_call_time tm)) else None)"
  using steady_now [OF assms(1,2)] uptime_range(1) [OF assms(2)] assms(3,4)
  by (simp add: rcl_timer_call_def Let_def)

lemma timer_ready_steady:
  assumes "steady clock" "plausible t" "0 \<le> next_call_time tm" "next_call_time tm < 2 ^ 62 + 2 ^ 60"
  shows "rcl_timer_is_ready clock t tm = (RCL_RET_OK, Some (next_call_time tm \<le> uptime t \<and> \<not> canceled tm))"
proof -
  have "s64 (next_call_time tm - uptime t) = next_call_time tm - uptime t"
    using assms(3,4) uptime_range [OF assms(2)] by (intro s64_id) simp_all
  then show ?thesis
    using steady_now [OF assms(1,2)] by (simp add: rcl_timer_is_ready_def rcl_timer_get_time_until_next_call_def)
qed

subsection \<open>Schedules\<close>

text \<open>A program that polls a timer: it calls the timer whenever it is ready.  The times of the calls are collected.\<close>

fun poll_timer :: "rcl_clock \<Rightarrow> u32 \<Rightarrow> TimeOut_t list \<Rightarrow> timers \<Rightarrow> int list \<times> timers" where
  "poll_timer clock timer [] ts = ([], ts)"
| "poll_timer clock timer (t # polls) ts =
     (case ts timer of None \<Rightarrow> ([], ts)
      | Some tm \<Rightarrow>
          if rcl_timer_is_ready clock t tm = (RCL_RET_OK, Some True) then
            (case rcl_timer_call clock t timer ts of
               (ret, ts, called) \<Rightarrow> (case poll_timer clock timer polls ts of (calls, ts) \<Rightarrow> (uptime t # calls, ts)))
          else poll_timer clock timer polls ts)"

lemma poll_schedule:
  assumes "steady clock" "0 < per" "per < 2 ^ 60"
  shows "ts timer = Some tm \<Longrightarrow> \<not> canceled tm \<Longrightarrow> period tm = per \<Longrightarrow> next_call_time tm = t0 + m * per \<Longrightarrow> 0 \<le> t0 \<Longrightarrow> 0 \<le> m \<Longrightarrow>
    next_call_time tm < 2 ^ 62 + 2 ^ 60 \<Longrightarrow> list_all plausible polls \<Longrightarrow> poll_timer clock timer polls ts = (calls, ts') \<Longrightarrow>
    \<exists>tm' m'. ts' timer = Some tm' \<and> next_call_time tm' = t0 + m' * per \<and> m + int (length calls) \<le> m' \<and>
      (\<forall>i < length calls. t0 + (m + int i) * per \<le> calls ! i) \<and> (polls \<noteq> [] \<longrightarrow> uptime (last polls) \<le> next_call_time tm')"
proof (induction polls arbitrary: ts tm m calls)
  case (Cons t polls)
  have pl: "plausible t" using Cons.prems(8) by simp
  have pls: "list_all plausible polls" using Cons.prems(8) by simp
  note u = uptime_range [OF pl]
  have nn: "0 \<le> next_call_time tm" using Cons.prems(4,5,6) assms(2) by simp
  have rdy: "rcl_timer_is_ready clock t tm = (RCL_RET_OK, Some (next_call_time tm \<le> uptime t))"
    using timer_ready_steady [OF assms(1) pl, of tm] nn Cons.prems(2,7) by simp
  show ?case
  proof (cases "next_call_time tm \<le> uptime t")
    case False
    then have r: "poll_timer clock timer polls ts = (calls, ts')" using Cons.prems(1,9) rdy by simp
    from Cons.IH [OF Cons.prems(1-7) pls r] obtain tm' m' where
      i: "ts' timer = Some tm'" "next_call_time tm' = t0 + m' * per" "m + int (length calls) \<le> m'"
        "\<forall>i < length calls. t0 + (m + int i) * per \<le> calls ! i" "polls \<noteq> [] \<longrightarrow> uptime (last polls) \<le> next_call_time tm'" by blast
    have "m * per \<le> m' * per" using i(3) assms(2) by simp
    then have "polls = [] \<longrightarrow> uptime t \<le> next_call_time tm'" using False i(2) Cons.prems(4) by simp
    then show ?thesis using i by auto
  next
    case True
    let ?n = "advance (uptime t) per (next_call_time tm)"
    let ?tm = "tm\<lparr>last_call_time := uptime t, next_call_time := ?n\<rparr>"
    obtain k where k: "1 \<le> k" "?n = next_call_time tm + k * per" "uptime t \<le> ?n" "k = 1 \<or> ?n < uptime t + per"
      using advance_phase [OF assms(2,3) u(1) _ nn] u(2) Cons.prems(7) by auto
    obtain c where c: "poll_timer clock timer polls (ts(timer \<mapsto> ?tm)) = (c, ts')" "calls = uptime t # c"
      using Cons.prems(1,2,3,9) rdy True timer_call_steady [of clock t ts timer tm] assms(1) pl by (auto split: prod.splits)
    have b: "?n < 2 ^ 62 + 2 ^ 60" using k(2,4) True u assms(3) by auto
    have n: "next_call_time ?tm = t0 + (m + k) * per" using k(2) Cons.prems(4) by (simp add: algebra_simps)
    have "0 \<le> m + k" using k(1) Cons.prems(6) by simp
    then have "\<exists>tm' m'. ts' timer = Some tm' \<and> next_call_time tm' = t0 + m' * per \<and> m + k + int (length c) \<le> m' \<and>
        (\<forall>i < length c. t0 + (m + k + int i) * per \<le> c ! i) \<and> (polls \<noteq> [] \<longrightarrow> uptime (last polls) \<le> next_call_time tm')"
      using Cons.prems(2,3) b by (intro Cons.IH [OF _ _ _ n Cons.prems(5) _ _ pls c(1)]) simp_all
    then obtain tm' m' where
      i: "ts' timer = Some tm'" "next_call_time tm' = t0 + m' * per" "m + k + int (length c) \<le> m'"
        "\<forall>i < length c. t0 + (m + k + int i) * per \<le> c ! i" "polls \<noteq> [] \<longrightarrow> uptime (last polls) \<le> next_call_time tm'" by blast
    have e: "t0 + (m + int i) * per \<le> calls ! i" if "i < length calls" for i
    proof (cases i)
      case 0
      then show ?thesis using True Cons.prems(4) c(2) by simp
    next
      case (Suc j)
      have "(m + int i) * per \<le> (m + k + int j) * per" using k(1) assms(2) Suc by simp
      also have "t0 + (m + k + int j) * per \<le> c ! j" using i(4) that Suc c(2) by simp
      finally show ?thesis using Suc c(2) by simp
    qed
    have "(m + k) * per \<le> m' * per" using i(3) assms(2) by simp
    then have "polls = [] \<longrightarrow> uptime t \<le> next_call_time tm'" using k(2,3) i(2) Cons.prems(4) by (simp add: algebra_simps)
    then show ?thesis using i e k(1) c(2) by (intro exI [of _ tm'] exI [of _ m']) auto
  qed
qed auto


text \<open>C12.
  A timer on the steady clock that is initialised at \<open>t0\<close> and polled at arbitrary times: its i-th call comes no earlier than i
  periods after the start, whatever the delays of the earlier calls; its next call stays a whole number of periods
  after the start, and after every poll it is not in the past.
\<close>

theorem timer_schedule:
  assumes "steady clock" "0 < per" "per < 2 ^ 60" "plausible t0" "list_all plausible polls" "cb \<noteq> 0"
    and "rcl_timer_init timer (Some clock) per cb RCL_RET_OK t0 ts a = (RCL_RET_OK, ts0, Some clock, a0)"
    and "poll_timer clock timer polls ts0 = (calls, ts')"
  shows "(\<forall>i < length calls. uptime t0 + (1 + int i) * per \<le> calls ! i) \<and>
    (\<exists>tm k. ts' timer = Some tm \<and> next_call_time tm = uptime t0 + k * per \<and> int (length calls) < k \<and>
       (polls \<noteq> [] \<longrightarrow> uptime (last polls) \<le> next_call_time tm))"
proof -
  note u = uptime_range [OF assms(4)]
  obtain tm where tm: "ts0 timer = Some tm" "\<not> canceled tm" "period tm = per" "next_call_time tm = s64 (uptime t0 + per)"
    using assms(1,2,7) steady_now [OF assms(1,4)]
    by (auto simp: rcl_timer_init_def steady_def rcl_rets split: prod.splits if_splits option.splits)
  have n: "s64 (uptime t0 + per) = uptime t0 + 1 * per" using u assms(2,3) by (simp add: s64_id)
  have b: "next_call_time tm < 2 ^ 62 + 2 ^ 60" using tm(4) n u assms(3) by simp
  have "next_call_time tm = uptime t0 + 1 * per" using tm(4) n by simp
  from poll_schedule [OF assms(1-3) tm(1-3) this u(1) _ b assms(5,8)]
  have "\<exists>tm' m'. ts' timer = Some tm' \<and> next_call_time tm' = uptime t0 + m' * per \<and> 1 + int (length calls) \<le> m' \<and>
      (\<forall>i < length calls. uptime t0 + (1 + int i) * per \<le> calls ! i) \<and> (polls \<noteq> [] \<longrightarrow> uptime (last polls) \<le> next_call_time tm')" by simp
  then obtain tm' m' where r: "ts' timer = Some tm'" "next_call_time tm' = uptime t0 + m' * per" "1 + int (length calls) \<le> m'"
      "\<forall>i < length calls. uptime t0 + (1 + int i) * per \<le> calls ! i" "polls \<noteq> [] \<longrightarrow> uptime (last polls) \<le> next_call_time tm'" by blast
  have "int (length calls) < m'" using r(3) by simp
  then show ?thesis using r by blast
qed

definition ticks :: "u32 \<Rightarrow> TimeOut_t" where
  "ticks n = \<lparr>xOverflowCount = 0, xTimeOnEntering = n\<rparr>"

definition ex_clock :: rcl_clock where
  "ex_clock = snd (rcl_steady_clock_init \<lparr>ctype = RCL_CLOCK_UNINITIALIZED, jump_callbacks = [], jump_block = 0, get_now = NoGetter, cdata = 0,
     storage = \<lparr>current_time = 0, active = False\<rparr>\<rparr>)"

lemma ex_clock_steady: "steady ex_clock"
  by (simp add: ex_clock_def rcl_steady_clock_init_def steady_def)

lemma plausible_ticks [simp]: "plausible (ticks n)" "uptime (ticks n) = uint n * 1000000"
  by (simp_all add: plausible_def ticks_def uptime_def)

theorem timer_schedule_witness:
  "case poll_timer ex_clock 8 [ticks 9, ticks 10, ticks 34] (fst (snd (rcl_timer_init 8 (Some ex_clock) 10000000 3 RCL_RET_OK (ticks 0) Map.empty (new_arena [])))) of
     (calls, ts') \<Rightarrow> calls = [10000000, 34000000] \<and> map_option next_call_time (ts' 8) = Some 40000000"
proof -
  let ?tm = "\<lparr>timer_callback = 3, period = 10000000, last_call_time = 0, next_call_time = 10000000, time_credit = 0, canceled = False,
    impl_block = 1, triggered = 0\<rparr>"
  let ?a = "\<lparr>answers = [], next_block = 2, blocks = [1], bad_free = False\<rparr>"
  have i: "rcl_timer_init 8 (Some ex_clock) 10000000 3 RCL_RET_OK (ticks 0) Map.empty (new_arena []) =
      (RCL_RET_OK, [8 \<mapsto> ?tm], Some ex_clock, ?a)"
    using steady_now [OF ex_clock_steady, of "ticks 0"] ex_clock_steady
    by (simp add: rcl_timer_init_def steady_def allocate_def new_arena_def s64_id)
  have p: "poll_timer ex_clock 8 [ticks 9, ticks 10, ticks 34] [8 \<mapsto> ?tm] =
      ([10000000, 34000000], [8 \<mapsto> ?tm\<lparr>last_call_time := 34000000, next_call_time := 40000000\<rparr>])"
    by (simp add: timer_ready_steady [OF ex_clock_steady] timer_call_steady [OF ex_clock_steady] advance_def s64_id Let_def)
  from timer_schedule [OF ex_clock_steady _ _ _ _ _ i p] p show ?thesis unfolding i by simp
qed

subsection \<open>Jumps of ROS time\<close>

text \<open>The clock has the source of an overridden ROS time, and every timer has registered its callback.\<close>

definition ros_clock :: "rcl_clock \<Rightarrow> bool" where
  "ros_clock c \<longleftrightarrow> ctype c = RCL_ROS_TIME \<and> get_now c = rcl_get_ros_time \<and> cdata c \<noteq> 0"

definition timer_info :: "u32 \<Rightarrow> jump_callback_info" where
  "timer_info p = \<lparr>callback = TIMER_JUMP, threshold = \<lparr>on_clock_change = True, min_forward = 1, min_backward = - 1\<rparr>, user_data = p\<rparr>"

lemma call_timer_callbacks:
  assumes "jump_callbacks c = map timer_info ps" "distinct ps"
  shows "rcl_clock_call_callbacks (timer_callbacks t) c jump before ts p =
    (if p \<in> set ps \<and> (clock_change jump = RCL_ROS_TIME_ACTIVATED \<or> clock_change jump = RCL_ROS_TIME_DEACTIVATED \<or> delta jump \<noteq> 0)
     then rcl_timer_time_jump t jump before p c ts p else ts p)"
proof -
  define f where "f = (\<lambda>(info :: jump_callback_info) w. if threshold_exceeded jump (threshold info)
      then timer_callbacks t (callback info) jump before (user_data info) c w else w)"
  have th: "threshold_exceeded jump (threshold (timer_info q)) \<longleftrightarrow>
      clock_change jump = RCL_ROS_TIME_ACTIVATED \<or> clock_change jump = RCL_ROS_TIME_DEACTIVATED \<or> delta jump \<noteq> 0" for q
    by (auto simp: threshold_exceeded_def timer_info_def)
  have other: "rcl_timer_time_jump t jump before q c w p = w p" if "p \<noteq> q" for q w
    using that by (simp add: rcl_timer_time_jump_def upd_timer_def split: prod.splits option.splits)
  have same: "rcl_timer_time_jump t jump before p c w p = rcl_timer_time_jump t jump before p c w' p" if "w p = w' p" for w w'
    using that by (simp add: rcl_timer_time_jump_def upd_timer_def split: prod.splits option.splits)
  have step: "f (timer_info q) w = (if threshold_exceeded jump (threshold (timer_info q)) then rcl_timer_time_jump t jump before q c w else w)" for q w
    unfolding f_def by (simp add: timer_info_def timer_callbacks_def)
  have "fold f (map timer_info ps) ts p =
      (if p \<in> set ps \<and> threshold_exceeded jump (threshold (timer_info p)) then rcl_timer_time_jump t jump before p c ts p else ts p)"
    if "distinct ps" for ps using that
  proof (induction ps arbitrary: ts)
    case (Cons q ps)
    have "fold f (map timer_info (q # ps)) ts p = fold f (map timer_info ps) (f (timer_info q) ts) p" by simp
    also have "\<dots> = (if p \<in> set ps \<and> threshold_exceeded jump (threshold (timer_info p))
        then rcl_timer_time_jump t jump before p c (f (timer_info q) ts) p else f (timer_info q) ts p)"
      using Cons by simp
    finally show ?case using Cons.prems step [of q ts] other [of q ts] same [of "f (timer_info q) ts" ts] th
      by (cases "p = q") auto
  qed simp
  from this [OF assms(2)] show ?thesis
    using th by (simp add: rcl_clock_call_callbacks_def assms(1) f_def)
qed


lemma ros_now:
  assumes "ros_clock c" "active (storage c)" "\<bar>current_time (storage c)\<bar> < 2 ^ 62"
  shows "rcl_clock_get_now (Some c) t = (RCL_RET_OK, Some (current_time (storage c)))"
  using assms by (simp add: ros_clock_def rcl_clock_get_now_def s64_id)

definition at_time :: "rcl_clock \<Rightarrow> int \<Rightarrow> rcl_clock" where
  "at_time c v = c\<lparr>storage := (storage c)\<lparr>current_time := v\<rparr>\<rparr>"

lemma at_time_sel [simp]:
  "ros_clock (at_time c v) = ros_clock c" "active (storage (at_time c v)) = active (storage c)"
  "current_time (storage (at_time c v)) = v" "jump_callbacks (at_time c v) = jump_callbacks c" "cdata (at_time c v) = cdata c"
  by (simp_all add: at_time_def ros_clock_def)

text \<open>What an override does to a timer that is registered: nothing before the jump, \<open>jump_after\<close> after it.\<close>

lemma override_timer:
  assumes "ros_clock c" "active (storage c)" "\<bar>current_time (storage c)\<bar> < 2 ^ 62" "\<bar>v\<bar> < 2 ^ 62"
    and "jump_callbacks c = map timer_info ps" "distinct ps" "p \<in> set ps" "ts p = Some tm"
  shows "\<exists>ts'. rcl_set_ros_time_override (timer_callbacks t) c v ts = (RCL_RET_OK, at_time c v, ts') \<and>
    ts' p = Some (if v = current_time (storage c) then tm
                  else jump_after \<lparr>clock_change = RCL_ROS_TIME_NO_CHANGE, delta = v - current_time (storage c)\<rparr> v tm)"
proof -
  let ?d = "v - current_time (storage c)" and ?c = "at_time c v"
  let ?j = "\<lparr>clock_change = RCL_ROS_TIME_NO_CHANGE, delta = ?d\<rparr>"
  have d: "s64 ?d = ?d" "s64 (current_time (storage c)) = current_time (storage c)" using assms(3,4) by (simp_all add: s64_id)
  define ts1 where "ts1 = rcl_clock_call_callbacks (timer_callbacks t) c ?j True ts"
  define ts2 where "ts2 = rcl_clock_call_callbacks (timer_callbacks t) ?c ?j False ts1"
  have 1: "ts1 p = Some tm"
    unfolding ts1_def call_timer_callbacks [OF assms(5,6)]
    using assms(8) ros_now [OF assms(1-3)] by (simp add: rcl_timer_time_jump_def upd_timer_def jump_before_def)
  have 2: "ts2 p = Some (if ?d = 0 then tm else jump_after ?j v tm)"
    unfolding ts2_def using call_timer_callbacks [of ?c ps] assms(5,6,7) 1 ros_now [of ?c] assms(1,2,4)
    by (simp add: rcl_timer_time_jump_def upd_timer_def)
  have "rcl_set_ros_time_override (timer_callbacks t) c v ts = (RCL_RET_OK, ?c, ts2)"
    using assms(1,2) d by (simp add: rcl_set_ros_time_override_def ros_clock_def Let_def ts2_def ts1_def at_time_def)
  then show ?thesis using 2 by simp
qed


definition ex_ros :: "u32 list \<Rightarrow> int \<Rightarrow> rcl_clock" where
  "ex_ros ps n = \<lparr>ctype = RCL_ROS_TIME, jump_callbacks = map timer_info ps, jump_block = 2, get_now = rcl_get_ros_time, cdata = 1,
     storage = \<lparr>current_time = n, active = True\<rparr>\<rparr>"

definition ex_timer :: timer where
  "ex_timer = \<lparr>timer_callback = 3, period = 10, last_call_time = 95, next_call_time = 105, time_credit = 0, canceled = False,
     impl_block = 3, triggered = 0\<rparr>"

lemma ex_ros_sel [simp]:
  "ros_clock (ex_ros ps n)" "active (storage (ex_ros ps n))" "current_time (storage (ex_ros ps n)) = n"
  "jump_callbacks (ex_ros ps n) = map timer_info ps"
  by (simp_all add: ex_ros_def ros_clock_def)


text \<open>
  A timer that was reset keeps the time of its last call.  When ROS time then goes back, but not behind that call, the timer is not
  adjusted and waits longer than a period.
\<close>

lemma reset_timer_waits_too_long:
  assumes "ros_clock c" "active (storage c)" "0 \<le> v" "v < current_time (storage c)" "current_time (storage c) < 2 ^ 61"
    and "jump_callbacks c = map timer_info ps" "distinct ps" "p \<in> set ps" "p \<noteq> 0" "ts p = Some tm"
    and "0 < period tm" "period tm < 2 ^ 61" "last_call_time tm \<le> v"
  shows "\<exists>ts1 ts' tm'. rcl_timer_reset c t p ts = (RCL_RET_OK, ts1) \<and>
    rcl_set_ros_time_override (timer_callbacks t) c v ts1 = (RCL_RET_OK, at_time c v, ts') \<and> ts' p = Some tm' \<and>
    next_call_time tm' - v > period tm'"
proof -
  let ?n = "current_time (storage c)"
  let ?tm = "tm\<lparr>next_call_time := ?n + period tm, canceled := False, triggered := triggered tm + 1\<rparr>"
  have "s64 (?n + period tm) = ?n + period tm" using assms(3-5,11,12) by (simp add: s64_id)
  then have 1: "rcl_timer_reset c t p ts = (RCL_RET_OK, ts(p \<mapsto> ?tm))"
    using assms(9,10) ros_now [OF assms(1,2)] assms(3-5) by (simp add: rcl_timer_reset_def upd_timer_def)
  obtain ts' where r: "rcl_set_ros_time_override (timer_callbacks t) c v (ts(p \<mapsto> ?tm)) = (RCL_RET_OK, at_time c v, ts')"
    "ts' p = Some (jump_after \<lparr>clock_change = RCL_ROS_TIME_NO_CHANGE, delta = v - ?n\<rparr> v ?tm)"
    using override_timer [of c v ps p "ts(p \<mapsto> ?tm)" ?tm t] assms(1-8) by auto
  have "jump_after \<lparr>clock_change = RCL_ROS_TIME_NO_CHANGE, delta = v - ?n\<rparr> v ?tm = ?tm"
    using assms(4,11,13) by (simp add: jump_after_def)
  then show ?thesis using 1 r assms(4) by auto
qed

text \<open>
  When ROS time is activated, a timer is meant to wait for the rest of its period in the new time.  It waits for the part that had
  already passed: with \<open>rest\<close> to go, the next call comes after \<open>period - rest\<close>.
\<close>

lemma activation_waits_elapsed_part:
  assumes "ros_clock c" "\<not> active (storage c)" "plausible t" "0 < uptime t" "0 < current_time (storage c)" "current_time (storage c) < 2 ^ 61"
    and "jump_callbacks c = map timer_info ps" "distinct ps" "p \<in> set ps" "ts p = Some tm"
    and "next_call_time tm = uptime t + rest" "0 < rest" "rest \<le> period tm" "period tm < 2 ^ 60"
  shows "\<exists>c' ts' tm'. rcl_enable_ros_time_override (timer_callbacks t) c ts = (RCL_RET_OK, c', ts') \<and> ts' p = Some tm' \<and>
    next_call_time tm' - current_time (storage c) = period tm - rest"
proof -
  let ?c = "c\<lparr>storage := (storage c)\<lparr>active := True\<rparr>\<rparr>" and ?j = "\<lparr>clock_change = RCL_ROS_TIME_ACTIVATED, delta = 0\<rparr>"
  let ?n = "current_time (storage c)"
  define ts1 where "ts1 = rcl_clock_call_callbacks (timer_callbacks t) c ?j True ts"
  define ts2 where "ts2 = rcl_clock_call_callbacks (timer_callbacks t) ?c ?j False ts1"
  have n1: "rcl_clock_get_now (Some c) t = (RCL_RET_OK, Some (uptime t))"
    using assms(1,2) system_time_now [OF assms(3)] by (simp add: ros_clock_def rcl_clock_get_now_def)
  have n2: "rcl_clock_get_now (Some ?c) t = (RCL_RET_OK, Some ?n)"
    using ros_now [of ?c t] assms(1,5,6) by (simp add: ros_clock_def)
  have s: "s64 rest = rest" "s64 (?n - rest) = ?n - rest" "s64 (?n - rest + period tm) = ?n - rest + period tm"
    using assms(5,6,12-14) by (simp_all add: s64_id)
  have 1: "ts1 p = Some (tm\<lparr>time_credit := rest\<rparr>)"
    unfolding ts1_def call_timer_callbacks [OF assms(7,8)]
    using assms(4,9-11) n1 s by (simp add: rcl_timer_time_jump_def upd_timer_def jump_before_def)
  have 2: "ts2 p = Some (tm\<lparr>time_credit := 0, next_call_time := ?n - rest + period tm, last_call_time := ?n - rest\<rparr>)"
    unfolding ts2_def using call_timer_callbacks [of ?c ps] assms(5,7,8,9,12) 1 n2 s
    by (simp add: rcl_timer_time_jump_def upd_timer_def jump_after_def Let_def)
  have "rcl_enable_ros_time_override (timer_callbacks t) c ts = (RCL_RET_OK, ?c, ts2)"
    using assms(1,2) by (simp add: rcl_enable_ros_time_override_def ros_clock_def Let_def ts2_def ts1_def)
  then show ?thesis using 2 by simp
qed


subsection \<open>Memory\<close>

text \<open>A clock owns the block of its callbacks, when it has any.\<close>

definition owns_callbacks :: "rcl_clock \<Rightarrow> arena \<Rightarrow> bool" where
  "owns_callbacks c a \<longleftrightarrow> (jump_callbacks c = [] \<longleftrightarrow> jump_block c = 0) \<and> (jump_block c \<noteq> 0 \<longrightarrow> jump_block c \<in> set (blocks a))"

definition rest_blocks :: "rcl_clock \<Rightarrow> arena \<Rightarrow> nat set" where
  "rest_blocks c a = set (blocks a) - {jump_block c}"

lemma add_jump_callback_memory:
  assumes "arena_ok a" "owns_callbacks c a" "rcl_clock_add_jump_callback (Some c) th cb data a = (r, Some c', a')"
  shows "arena_ok a'" "owns_callbacks c' a'" "rest_blocks c' a' = rest_blocks c a" "r \<noteq> RCL_RET_OK \<Longrightarrow> jump_callbacks c' = jump_callbacks c"
    "r = RCL_RET_OK \<Longrightarrow> jump_callbacks c' = jump_callbacks c @ [\<lparr>callback = cb, threshold = th, user_data = data\<rparr>] \<and>
      \<not> (\<exists>info \<in> set (jump_callbacks c). callback info = cb \<and> user_data info = data) \<and> cb \<noteq> 0"
proof -
  obtain q a1 where q: "reallocate (jump_block c) a = (q, a1)" by (cases "reallocate (jump_block c) a")
  have o: "jump_block c = 0 \<or> jump_block c \<in> set (blocks a)" using assms(2) by (auto simp: owns_callbacks_def)
  note ro = reallocate_ok [OF assms(1) o q]
  have "arena_ok a' \<and> owns_callbacks c' a' \<and> rest_blocks c' a' = rest_blocks c a \<and> (r \<noteq> RCL_RET_OK \<longrightarrow> jump_callbacks c' = jump_callbacks c) \<and>
    (r = RCL_RET_OK \<longrightarrow> jump_callbacks c' = jump_callbacks c @ [\<lparr>callback = cb, threshold = th, user_data = data\<rparr>] \<and>
      \<not> (\<exists>info \<in> set (jump_callbacks c). callback info = cb \<and> user_data info = data) \<and> cb \<noteq> 0)"
    using assms ro q by (auto simp: rcl_clock_add_jump_callback_def owns_callbacks_def rest_blocks_def rcl_rets split: if_splits)
  then show "arena_ok a'" "owns_callbacks c' a'" "rest_blocks c' a' = rest_blocks c a" "r \<noteq> RCL_RET_OK \<Longrightarrow> jump_callbacks c' = jump_callbacks c"
    "r = RCL_RET_OK \<Longrightarrow> jump_callbacks c' = jump_callbacks c @ [\<lparr>callback = cb, threshold = th, user_data = data\<rparr>] \<and>
      \<not> (\<exists>info \<in> set (jump_callbacks c). callback info = cb \<and> user_data info = data) \<and> cb \<noteq> 0" by blast+
qed

lemma remove_callback_last:
  "\<not> (\<exists>info \<in> set infos. callback info = cb \<and> user_data info = data) \<Longrightarrow>
   remove_callback cb data (infos @ [\<lparr>callback = cb, threshold = th, user_data = data\<rparr>]) = (infos, True)"
  by (induction infos) auto

lemma remove_jump_callback_memory:
  assumes "arena_ok a" "owns_callbacks c a" "cb \<noteq> 0"
    "jump_callbacks c = infos @ [\<lparr>callback = cb, threshold = th, user_data = data\<rparr>]"
    "\<not> (\<exists>info \<in> set infos. callback info = cb \<and> user_data info = data)"
  shows "\<exists>r c' a'. rcl_clock_remove_jump_callback (Some c) cb data a = (r, Some c', a') \<and> arena_ok a' \<and> owns_callbacks c' a' \<and>
    rest_blocks c' a' = rest_blocks c a \<and> jump_callbacks c' = infos"
proof (cases "infos = []")
  case True
  have "jump_block c \<noteq> 0" "jump_block c \<in> set (blocks a)" using assms(2,4) by (auto simp: owns_callbacks_def)
  then show ?thesis
    using assms True deallocate_ok [OF assms(1)]
    by (auto simp: rcl_clock_remove_jump_callback_def owns_callbacks_def rest_blocks_def arena_ok_def)
next
  case False
  obtain q a1 where q: "reallocate (jump_block c) a = (q, a1)" by (cases "reallocate (jump_block c) a")
  have o: "jump_block c = 0 \<or> jump_block c \<in> set (blocks a)" using assms(2) by (auto simp: owns_callbacks_def)
  note ro = reallocate_ok [OF assms(1) o q]
  show ?thesis
    using assms False ro q remove_callback_last [OF assms(5), of th]
    by (cases "q = 0") (auto simp: rcl_clock_remove_jump_callback_def owns_callbacks_def rest_blocks_def Let_def)
qed


text \<open>The state of the clock's memory after a step that is undone.\<close>

definition same_clock :: "rcl_clock \<Rightarrow> arena \<Rightarrow> rcl_clock \<Rightarrow> arena \<Rightarrow> bool" where
  "same_clock c a c' a' \<longleftrightarrow> arena_ok a' \<and> owns_callbacks c' a' \<and> jump_callbacks c' = jump_callbacks c \<and> rest_blocks c' a' = rest_blocks c a \<and>
     ctype c' = ctype c"

lemma add_jump_callback_type:
  "rcl_clock_add_jump_callback (Some c) th cb data a = (r, clock, a') \<Longrightarrow> \<exists>c'. clock = Some c' \<and> ctype c' = ctype c"
  by (auto simp: rcl_clock_add_jump_callback_def split: if_splits prod.splits)

lemma remove_jump_callback_type:
  "rcl_clock_remove_jump_callback (Some c) cb data a = (r, Some c', a') \<Longrightarrow> ctype c' = ctype c"
  by (auto simp: rcl_clock_remove_jump_callback_def Let_def split: if_splits prod.splits)

text \<open>Registering, when the clock is on ROS time, and the allocation that follows can be undone.\<close>

definition timer_registered :: "u32 \<Rightarrow> rcl_clock \<Rightarrow> arena \<Rightarrow> rcl_clock \<Rightarrow> arena \<Rightarrow> bool" where
  "timer_registered timer c a c' a' \<longleftrightarrow> arena_ok a' \<and> owns_callbacks c' a' \<and> rest_blocks c' a' = rest_blocks c a \<and> ctype c' = ctype c \<and>
     (if ctype c = RCL_ROS_TIME
      then jump_callbacks c' = jump_callbacks c @ [timer_info timer] \<and>
        \<not> (\<exists>info \<in> set (jump_callbacks c). callback info = TIMER_JUMP \<and> user_data info = timer)
      else c' = c)"

lemma unregister_timer:
  assumes "arena_ok a'" "timer_registered timer c a c1 a1" "owns_callbacks c1 a'" "TIMER_JUMP \<noteq> 0" "ctype c = RCL_ROS_TIME"
  shows "\<exists>r c2 a2. rcl_clock_remove_jump_callback (Some c1) TIMER_JUMP timer a' = (r, Some c2, a2) \<and> arena_ok a2 \<and> owns_callbacks c2 a2 \<and>
    rest_blocks c2 a2 = rest_blocks c1 a' \<and> jump_callbacks c2 = jump_callbacks c \<and> ctype c2 = ctype c"
proof -
  have j: "jump_callbacks c1 = jump_callbacks c @ [\<lparr>callback = TIMER_JUMP,
      threshold = \<lparr>on_clock_change = True, min_forward = 1, min_backward = - 1\<rparr>, user_data = timer\<rparr>]" "ctype c1 = ctype c"
      "\<not> (\<exists>info \<in> set (jump_callbacks c). callback info = TIMER_JUMP \<and> user_data info = timer)"
    using assms(2,5) by (simp_all add: timer_registered_def timer_info_def)
  from remove_jump_callback_memory [OF assms(1,3,4) j(1,3)] remove_jump_callback_type [of c1 TIMER_JUMP timer a'] j(2)
  show ?thesis by metis
qed

lemma remove_callback_absent:
  "\<not> (\<exists>info \<in> set infos. callback info = cb \<and> user_data info = data) \<Longrightarrow> remove_callback cb data infos = (infos, False)"
  by (induction infos) auto

text \<open>The removal of the callback in \<open>rcl_timer_init\<close> and \<open>rcl_timer_fini\<close>, with other blocks allocated since.\<close>

lemma unregister:
  assumes "arena_ok a'" "timer_registered timer c a c1 a1" "set (blocks a1) \<subseteq> set (blocks a')"
    and "\<not> (\<exists>info \<in> set (jump_callbacks c). callback info = TIMER_JUMP \<and> user_data info = timer)"
  shows "\<exists>r c2 a2. rcl_clock_remove_jump_callback (Some c1) TIMER_JUMP timer a' = (r, Some c2, a2) \<and> arena_ok a2 \<and> owns_callbacks c2 a2 \<and>
    rest_blocks c2 a2 = rest_blocks c1 a' \<and> jump_callbacks c2 = jump_callbacks c \<and> ctype c2 = ctype c"
proof -
  have o: "owns_callbacks c1 a'" using assms(2,3) by (auto simp: timer_registered_def owns_callbacks_def)
  show ?thesis
  proof (cases "ctype c = RCL_ROS_TIME")
    case True
    show ?thesis by (rule unregister_timer [OF assms(1,2) o _ True]) (simp add: TIMER_JUMP_def)
  next
    case False
    then have "c1 = c" using assms(2) by (simp add: timer_registered_def)
    then show ?thesis
      using o assms(1) remove_callback_absent [OF assms(4)] by (simp add: rcl_clock_remove_jump_callback_def TIMER_JUMP_def)
  qed
qed

lemma register_timer:
  assumes "arena_ok a" "owns_callbacks c a"
    and "(if ctype c = RCL_ROS_TIME
          then rcl_clock_add_jump_callback (Some c) \<lparr>on_clock_change = True, min_forward = 1, min_backward = - 1\<rparr> TIMER_JUMP timer a
          else (RCL_RET_OK, Some c, a)) = (r, clock, a1)"
  shows "\<exists>c1. clock = Some c1 \<and> (if r = RCL_RET_OK then timer_registered timer c a c1 a1 else same_clock c a c1 a1)"
proof (cases "ctype c = RCL_ROS_TIME")
  case True
  with assms(3) have e: "rcl_clock_add_jump_callback (Some c) \<lparr>on_clock_change = True, min_forward = 1, min_backward = - 1\<rparr> TIMER_JUMP timer a =
    (r, clock, a1)" by simp
  from add_jump_callback_type [OF e] obtain c1 where c1: "clock = Some c1" "ctype c1 = ctype c" by blast
  from add_jump_callback_memory [OF assms(1,2) e [unfolded c1(1)]] c1 True show ?thesis
    by (auto simp: timer_registered_def same_clock_def timer_info_def)
next
  case False
  then show ?thesis using assms by (auto simp: timer_registered_def)
qed




end
