(* ===== verification/Rcl_Wait_Ready.thy ===== *)
theory Rcl_Wait_Ready
  imports Rcl_Wait_Props Rcl_Timer_Props
begin

text \<open>
  What is in a wait set and what is left of it after waiting: the entities added have the places in the order they came, their
  handles the same places in the middleware's arrays, and \<open>rcl_wait\<close> leaves exactly those that are ready.
\<close>

definition rmw_size :: "(entity \<Rightarrow> nat) \<Rightarrow> entity \<Rightarrow> nat" where
  "rmw_size n k = (if k = GuardCondition then n GuardCondition + n Timer else n k)"

text \<open>A wait set that has been initialised for \<open>n\<close> entities of each kind.\<close>

definition sized :: "(entity \<Rightarrow> nat) \<Rightarrow> wait_set \<Rightarrow> bool" where
  "sized n ws \<longleftrightarrow> ws_impl ws \<noteq> 0 \<and>
     (\<forall>k. length (slots ws k) = n k \<and> (slot_block ws k = 0 \<longleftrightarrow> n k = 0) \<and> (n k = 0 \<longrightarrow> added ws k = 0)) \<and>
     (\<forall>k. k \<noteq> Timer \<longrightarrow> length (rmw_slots ws k) = rmw_size n k \<and> (rmw_block ws k = 0 \<longleftrightarrow> rmw_size n k = 0) \<and>
        (rmw_size n k = 0 \<longrightarrow> rmw_count ws k = 0))"

definition of_kind :: "entity \<Rightarrow> (entity \<times> u32) list \<Rightarrow> u32 list" where
  "of_kind k xs = map snd (filter (\<lambda>x. fst x = k) xs)"

lemma of_kind_simps [simp]:
  "of_kind k [] = []" "of_kind k (xs @ ys) = of_kind k xs @ of_kind k ys"
  "of_kind k ((j, x) # xs) = (if j = k then x # of_kind k xs else of_kind k xs)"
  by (simp_all add: of_kind_def)

lemma mem_of_kind: "x \<in> set (of_kind k xs) \<longleftrightarrow> (k, x) \<in> set xs"
  by (auto simp: of_kind_def image_iff)

text \<open>The entities \<open>xs\<close> have been added, in this order; \<open>h\<close> gives the middleware's handles, for a timer that of its guard condition.\<close>

definition filled :: "(entity \<Rightarrow> nat) \<Rightarrow> (entity \<Rightarrow> u32 \<Rightarrow> u32) \<Rightarrow> (entity \<times> u32) list \<Rightarrow> wait_set \<Rightarrow> bool" where
  "filled n h xs ws \<longleftrightarrow> sized n ws \<and>
     (\<forall>k. added ws k = length (of_kind k xs) \<and> slots ws k = of_kind k xs @ replicate (n k - length (of_kind k xs)) 0) \<and>
     (\<forall>k. k \<noteq> Timer \<longrightarrow> rmw_count ws k = length (of_kind k xs) \<and> take (length (of_kind k xs)) (rmw_slots ws k) = map (h k) (of_kind k xs)) \<and>
     (\<forall>i < length (of_kind Timer xs). rmw_slots ws GuardCondition ! (n GuardCondition + i) = h Timer (of_kind Timer xs ! i))"

lemma filled_fits:
  assumes "filled n h xs ws"
  shows "length (of_kind k xs) \<le> n k"
proof -
  have "length (slots ws k) = n k" "slots ws k = of_kind k xs @ replicate (n k - length (of_kind k xs)) 0"
    using assms unfolding filled_def sized_def by blast+
  then show ?thesis by (metis le_add1 length_append)
qed

lemma clear_fills:
  assumes "sized n ws"
  shows "\<exists>ws'. rcl_wait_set_clear ws = (RCL_RET_OK, ws') \<and> filled n h [] ws'"
proof -
  obtain ws' where c: "rcl_wait_set_clear ws = (RCL_RET_OK, ws')"
    and e: "ws' = ws\<lparr>slots := (\<lambda>k. if slot_block ws k \<noteq> 0 then replicate (length (slots ws k)) 0 else slots ws k),
           added := (\<lambda>k. if slot_block ws k \<noteq> 0 then 0 else added ws k),
           rmw_slots := (\<lambda>k. if k \<noteq> Timer \<and> rmw_block ws k \<noteq> 0 then zero_first (rmw_count ws k) (rmw_slots ws k) else rmw_slots ws k),
           rmw_count := (\<lambda>k. if k \<noteq> Timer \<and> rmw_block ws k \<noteq> 0 then 0 else rmw_count ws k)\<rparr>"
    using assms unfolding rcl_wait_set_clear_def sized_def by simp
  have l: "length (zero_first m xs) = length xs" for m xs by (simp add: zero_first_def)
  have z: "n k = 0 \<Longrightarrow> slots ws k = []" for k using assms by (metis length_0_conv sized_def)
  have "slots ws' k = replicate (n k) 0 \<and> added ws' k = 0" for k
    using assms e z by (cases "n k = 0") (auto simp: sized_def)
  moreover have "k \<noteq> Timer \<Longrightarrow> rmw_count ws' k = 0 \<and> length (rmw_slots ws' k) = rmw_size n k" for k
    using assms e l by (cases "rmw_size n k = 0") (auto simp: sized_def)
  moreover have "sized n ws'"
    using assms calculation by (auto simp: sized_def e)
  ultimately show ?thesis using c by (auto simp: filled_def)
qed

lemma add_fills:
  assumes f: "filled n h xs ws" and k: "k \<noteq> Timer" "length (of_kind k xs) < n k" and x: "x \<noteq> 0" "h k x \<noteq> 0"
  shows "\<exists>ws'. rcl_wait_set_add k x (h k x) ws = (RCL_RET_OK, Some (length (of_kind k xs)), ws') \<and> filled n h (xs @ [(k, x)]) ws'"
proof -
  let ?m = "length (of_kind k xs)"
  have s: "slots ws k = of_kind k xs @ replicate (n k - ?m) 0" "added ws k = ?m" "rmw_count ws k = ?m" "length (rmw_slots ws k) = rmw_size n k"
    "take ?m (rmw_slots ws k) = map (h k) (of_kind k xs)" "sized n ws"
    using f k(1) by (auto simp: filled_def sized_def)
  define ws' where "ws' = ws\<lparr>added := (added ws)(k := ?m + 1), slots := (slots ws)(k := (slots ws k)[?m := x]),
      rmw_slots := (rmw_slots ws)(k := (rmw_slots ws k)[?m := h k x]), rmw_count := (rmw_count ws)(k := ?m + 1)\<rparr>"
  have r: "rcl_wait_set_add k x (h k x) ws = (RCL_RET_OK, Some ?m, ws')"
    using s k x by (auto simp: rcl_wait_set_add_def set_add_def rcl_wait_set_is_valid_def sized_def rcl_rets Let_def ws'_def)
  have m: "?m < length (rmw_slots ws k)" using s(4) k by (cases "k = GuardCondition") (simp_all add: rmw_size_def)
  have "replicate (n k - ?m) (0::u32) = 0 # replicate (n k - Suc ?m) 0" using k(2) by (metis Suc_diff_Suc replicate_Suc)
  then have 1: "slots ws' k = of_kind k (xs @ [(k, x)]) @ replicate (n k - length (of_kind k (xs @ [(k, x)]))) 0"
    using s(1) by (simp add: ws'_def list_update_append)
  have 2: "take (Suc ?m) (rmw_slots ws' k) = map (h k) (of_kind k xs) @ [h k x]"
    using s(5) m by (simp add: ws'_def take_Suc_conv_app_nth)
  have 3: "rmw_slots ws' GuardCondition ! (n GuardCondition + i) = rmw_slots ws GuardCondition ! (n GuardCondition + i)" for i
    using k by (auto simp: ws'_def)
  have 4: "j \<noteq> k \<Longrightarrow> slots ws' j = slots ws j \<and> added ws' j = added ws j \<and> rmw_slots ws' j = rmw_slots ws j \<and> rmw_count ws' j = rmw_count ws j" for j
    by (simp add: ws'_def)
  have 5: "added ws' k = Suc ?m" "rmw_count ws' k = Suc ?m" by (simp_all add: ws'_def)
  have 6: "sized n ws'" using s(6) k by (auto simp: sized_def ws'_def rmw_size_def)
  show ?thesis
  proof (intro exI [of _ ws'] conjI r)
    show "filled n h (xs @ [(k, x)]) ws'"
      unfolding filled_def
    proof (intro conjI 6 allI impI)
      fix j show "added ws' j = length (of_kind j (xs @ [(k, x)]))" using 4 5 f by (cases "j = k") (auto simp: filled_def)
      show "slots ws' j = of_kind j (xs @ [(k, x)]) @ replicate (n j - length (of_kind j (xs @ [(k, x)]))) 0"
        using 1 4 f by (cases "j = k") (auto simp: filled_def)
      assume j: "j \<noteq> Timer"
      show "rmw_count ws' j = length (of_kind j (xs @ [(k, x)]))" using 4 5 f j by (cases "j = k") (auto simp: filled_def)
      show "take (length (of_kind j (xs @ [(k, x)]))) (rmw_slots ws' j) = map (h j) (of_kind j (xs @ [(k, x)]))"
        using 2 4 f j by (cases "j = k") (auto simp: filled_def)
    next
      fix i assume "i < length (of_kind Timer (xs @ [(k, x)]))"
      then show "rmw_slots ws' GuardCondition ! (n GuardCondition + i) = h Timer (of_kind Timer (xs @ [(k, x)]) ! i)"
        using 3 f k by (auto simp: filled_def)
    qed
  qed
qed

lemma add_timer_fills:
  assumes f: "filled n h xs ws" and k: "length (of_kind Timer xs) < n Timer" and x: "x \<noteq> 0" "h Timer x \<noteq> 0"
  shows "\<exists>ws'. rcl_wait_set_add_timer x (Some (h Timer x)) ws = (RCL_RET_OK, Some (length (of_kind Timer xs)), ws') \<and>
      filled n h (xs @ [(Timer, x)]) ws'"
proof -
  let ?m = "length (of_kind Timer xs)"
  let ?g = "length (of_kind GuardCondition xs)"
  have s: "slots ws Timer = of_kind Timer xs @ replicate (n Timer - ?m) 0" "added ws Timer = ?m" "sized n ws"
    "length (rmw_slots ws GuardCondition) = n GuardCondition + n Timer" "length (slots ws GuardCondition) = n GuardCondition"
    using f unfolding filled_def sized_def by (auto simp: rmw_size_def)
  define ws' where "ws' = ws\<lparr>added := (added ws)(Timer := ?m + 1), slots := (slots ws)(Timer := (slots ws Timer)[?m := x]),
      rmw_slots := (rmw_slots ws)(GuardCondition := (rmw_slots ws GuardCondition)[n GuardCondition + ?m := h Timer x])\<rparr>"
  have r: "rcl_wait_set_add_timer x (Some (h Timer x)) ws = (RCL_RET_OK, Some ?m, ws')"
    using s k x by (auto simp: rcl_wait_set_add_timer_def set_add_def rcl_wait_set_is_valid_def sized_def rcl_rets Let_def ws'_def)
  have "replicate (n Timer - ?m) (0::u32) = 0 # replicate (n Timer - Suc ?m) 0" using k by (metis Suc_diff_Suc replicate_Suc)
  then have 1: "slots ws' Timer = of_kind Timer (xs @ [(Timer, x)]) @ replicate (n Timer - Suc ?m) 0"
    using s(1) by (simp add: ws'_def list_update_append)
  have 4: "j \<noteq> Timer \<Longrightarrow> slots ws' j = slots ws j \<and> added ws' j = added ws j" "rmw_count ws' = rmw_count ws"
    "j \<noteq> GuardCondition \<Longrightarrow> rmw_slots ws' j = rmw_slots ws j" "added ws' Timer = Suc ?m" for j
    by (simp_all add: ws'_def)
  have g: "?g \<le> n GuardCondition" using filled_fits [OF f] .
  have 5: "take ?g (rmw_slots ws' GuardCondition) = take ?g (rmw_slots ws GuardCondition)" using g by (simp add: ws'_def)
  have 6: "sized n ws'" using s(3) k by (auto simp: sized_def ws'_def rmw_size_def)
  have 7: "rmw_slots ws' GuardCondition ! (n GuardCondition + i) = (if i = ?m then h Timer x else rmw_slots ws GuardCondition ! (n GuardCondition + i))" for i
    using s(4) k by (auto simp: ws'_def)
  show ?thesis
  proof (intro exI [of _ ws'] conjI r)
    show "filled n h (xs @ [(Timer, x)]) ws'"
      unfolding filled_def
    proof (intro conjI 6 allI impI)
      fix j show "added ws' j = length (of_kind j (xs @ [(Timer, x)]))" using 4 f by (cases "j = Timer") (auto simp: filled_def)
      show "slots ws' j = of_kind j (xs @ [(Timer, x)]) @ replicate (n j - length (of_kind j (xs @ [(Timer, x)]))) 0"
        using 1 4 f by (cases "j = Timer") (auto simp: filled_def)
      assume j: "j \<noteq> Timer"
      show "rmw_count ws' j = length (of_kind j (xs @ [(Timer, x)]))" using 4 f j by (auto simp: filled_def)
      show "take (length (of_kind j (xs @ [(Timer, x)]))) (rmw_slots ws' j) = map (h j) (of_kind j (xs @ [(Timer, x)]))"
        using 4 5 f j by (cases "j = GuardCondition") (auto simp: filled_def)
    next
      fix i assume "i < length (of_kind Timer (xs @ [(Timer, x)]))"
      then show "rmw_slots ws' GuardCondition ! (n GuardCondition + i) = h Timer (of_kind Timer (xs @ [(Timer, x)]) ! i)"
        using 7 f by (auto simp: filled_def nth_append less_Suc_eq)
    qed
  qed
qed

text \<open>A wait set that \<open>rcl_wait_set_init\<close> has initialised has the sizes asked for.\<close>

lemma set_resize_slots:
  assumes "set_resize k m ws a = (RCL_RET_OK, ws', a')" "rmw_slots ws k = []" "rmw_block ws k = 0" "rmw_count ws k = 0"
  shows "\<exists>p q. slots ws' = (slots ws)(k := replicate m 0) \<and> added ws' = (added ws)(k := 0) \<and> slot_block ws' = (slot_block ws)(k := p) \<and>
     (p = 0 \<longleftrightarrow> m = 0) \<and> ws_impl ws' = ws_impl ws \<and>
     rmw_slots ws' = (if has_rmw k then (rmw_slots ws)(k := replicate m 0) else rmw_slots ws) \<and>
     rmw_block ws' = (if has_rmw k then (rmw_block ws)(k := q) else rmw_block ws) \<and> (q = 0 \<longleftrightarrow> m = 0) \<and> rmw_count ws' = rmw_count ws"
proof (cases "m = 0")
  case True
  then show ?thesis using assms by (auto simp: set_resize_def Let_def fun_upd_idem)
next
  case False
  obtain p a1 where r: "reallocate (slot_block ws k) a = (p, a1)" by fastforce
  obtain q a2 where t: "reallocate (rmw_block ws k) a1 = (q, a2)" by fastforce
  show ?thesis using assms False r t
    by (intro exI [of _ p] exI [of _ "if has_rmw k then q else 1"])
      (auto simp: set_resize_def Let_def fun_upd_idem rcl_rets split: if_splits)
qed

lemma resize_rmw_guards_slots:
  assumes "resize_rmw_guards m ws a = (RCL_RET_OK, ws', a')"
  shows "\<exists>q. ws' = ws\<lparr>rmw_slots := (rmw_slots ws)(GuardCondition := replicate m 0), rmw_block := (rmw_block ws)(GuardCondition := q),
     rmw_count := (rmw_count ws)(GuardCondition := 0)\<rparr> \<and> (q = 0 \<longleftrightarrow> m = 0)"
proof -
  obtain q a1 where "reallocate (rmw_block ws GuardCondition) a = (q, a1)" by fastforce
  then show ?thesis using assms
    by (intro exI [of _ "if m = 0 then 0 else q"]) (auto simp: resize_rmw_guards_def Let_def rcl_rets split: if_splits)
qed

lemma and_then_ok: "and_then x f = (RCL_RET_OK, y) \<Longrightarrow> \<exists>ws a. x = (RCL_RET_OK, ws, a) \<and> f ws a = (RCL_RET_OK, y)"
  by (cases x) (auto simp: and_then_def split: if_splits)

text \<open>The arrays of the kinds \<open>D\<close> have been made, and those of the middleware for the kinds \<open>R\<close>.\<close>

definition staged :: "(entity \<Rightarrow> nat) \<Rightarrow> entity set \<Rightarrow> entity set \<Rightarrow> wait_set \<Rightarrow> bool" where
  "staged n D R ws \<longleftrightarrow> ws_impl ws \<noteq> 0 \<and>
     (\<forall>k \<in> D. length (slots ws k) = n k \<and> (slot_block ws k = 0 \<longleftrightarrow> n k = 0) \<and> added ws k = 0) \<and>
     (\<forall>k \<in> R. length (rmw_slots ws k) = rmw_size n k \<and> (rmw_block ws k = 0 \<longleftrightarrow> rmw_size n k = 0)) \<and>
     (\<forall>k. rmw_count ws k = 0) \<and> (\<forall>k. k \<notin> R \<longrightarrow> rmw_slots ws k = [] \<and> rmw_block ws k = 0)"

lemma staged_set_resize:
  assumes s: "staged n D R ws" and r: "set_resize k (n k) ws a = (RCL_RET_OK, ws', a')" and k: "k \<notin> R" "k \<noteq> GuardCondition \<or> \<not> has_rmw k"
  shows "staged n (insert k D) (if has_rmw k then insert k R else R) ws'"
proof -
  have z: "rmw_slots ws k = []" "rmw_block ws k = 0" "rmw_count ws k = 0" using s k by (simp_all add: staged_def)
  from set_resize_slots [OF r z] obtain p q where
    1: "slots ws' = (slots ws)(k := replicate (n k) 0)" "added ws' = (added ws)(k := 0)" "slot_block ws' = (slot_block ws)(k := p)"
    "p = 0 \<longleftrightarrow> n k = 0" "ws_impl ws' = ws_impl ws" "rmw_count ws' = rmw_count ws" "q = 0 \<longleftrightarrow> n k = 0"
    and 2: "rmw_slots ws' = (if has_rmw k then (rmw_slots ws)(k := replicate (n k) 0) else rmw_slots ws)"
      "rmw_block ws' = (if has_rmw k then (rmw_block ws)(k := q) else rmw_block ws)" by (elim exE conjE) (rule that)
  have z: "has_rmw k \<Longrightarrow> rmw_size n k = n k" using k by (auto simp: rmw_size_def)
  have "\<forall>j \<in> insert k D. length (slots ws' j) = n j \<and> (slot_block ws' j = 0 \<longleftrightarrow> n j = 0) \<and> added ws' j = 0"
    using s 1 by (simp add: staged_def)
  moreover have "\<forall>j \<in> (if has_rmw k then insert k R else R). length (rmw_slots ws' j) = rmw_size n j \<and> (rmw_block ws' j = 0 \<longleftrightarrow> rmw_size n j = 0)"
    using s 1 2 z by (simp add: staged_def)
  moreover have "\<forall>j. j \<notin> (if has_rmw k then insert k R else R) \<longrightarrow> rmw_slots ws' j = [] \<and> rmw_block ws' j = 0"
    using s 2 by (simp add: staged_def)
  moreover have "ws_impl ws' \<noteq> 0" "\<forall>j. rmw_count ws' j = 0" using s 1 by (simp_all add: staged_def)
  ultimately show ?thesis unfolding staged_def by blast
qed

lemma staged_guards:
  assumes s: "staged n D R ws" and r: "resize_rmw_guards (n GuardCondition + n Timer) ws a = (RCL_RET_OK, ws', a')"
  shows "staged n D (insert GuardCondition R) ws'"
proof -
  from resize_rmw_guards_slots [OF r] obtain q where
    1: "ws' = ws\<lparr>rmw_slots := (rmw_slots ws)(GuardCondition := replicate (n GuardCondition + n Timer) 0),
      rmw_block := (rmw_block ws)(GuardCondition := q), rmw_count := (rmw_count ws)(GuardCondition := 0)\<rparr>"
    "q = 0 \<longleftrightarrow> n GuardCondition + n Timer = 0" by (elim exE conjE) (rule that)
  have 2: "slots ws' = slots ws" "slot_block ws' = slot_block ws" "added ws' = added ws" "ws_impl ws' = ws_impl ws"
    "rmw_slots ws' = (rmw_slots ws)(GuardCondition := replicate (rmw_size n GuardCondition) 0)"
    "rmw_block ws' = (rmw_block ws)(GuardCondition := q)" "rmw_count ws' = (rmw_count ws)(GuardCondition := 0)"
    "q = 0 \<longleftrightarrow> rmw_size n GuardCondition = 0"
    using 1 by (simp_all add: rmw_size_def)
  have "\<forall>j \<in> insert GuardCondition R. length (rmw_slots ws' j) = rmw_size n j \<and> (rmw_block ws' j = 0 \<longleftrightarrow> rmw_size n j = 0)"
    using s unfolding staged_def 2(5,6) by (simp add: 2(8))
  moreover have "\<forall>j. j \<notin> insert GuardCondition R \<longrightarrow> rmw_slots ws' j = [] \<and> rmw_block ws' j = 0"
    using s unfolding staged_def 2(5,6) by simp
  moreover have "\<forall>j. rmw_count ws' j = 0" using s unfolding staged_def 2(7) by simp
  ultimately show ?thesis using s unfolding staged_def 2(1-4) by blast
qed

lemma resize_sized:
  assumes r: "rcl_wait_set_resize n ws a = (RCL_RET_OK, ws', a')" and i: "ws_impl ws \<noteq> 0"
    and z: "\<And>k. rmw_slots ws k = []" "\<And>k. rmw_block ws k = 0" "\<And>k. rmw_count ws k = 0"
  shows "sized n ws'"
proof -
  have 0: "staged n {} {} ws" using i z by (simp add: staged_def)
  obtain ws1 a1 ws2 a2 ws3 a3 ws4 a4 ws5 a5 ws6 a6 where
    s: "set_resize Subscription (n Subscription) ws a = (RCL_RET_OK, ws1, a1)"
       "set_resize GuardCondition (n GuardCondition) ws1 a1 = (RCL_RET_OK, ws2, a2)"
       "resize_rmw_guards (n GuardCondition + n Timer) ws2 a2 = (RCL_RET_OK, ws3, a3)"
       "set_resize Timer (n Timer) ws3 a3 = (RCL_RET_OK, ws4, a4)"
       "set_resize Client (n Client) ws4 a4 = (RCL_RET_OK, ws5, a5)"
       "set_resize Service (n Service) ws5 a5 = (RCL_RET_OK, ws6, a6)"
       "set_resize Event (n Event) ws6 a6 = (RCL_RET_OK, ws', a')"
    using r i unfolding rcl_wait_set_resize_def by (auto dest!: and_then_ok)
  have 1: "staged n {Subscription} {Subscription} ws1" using staged_set_resize [OF 0 s(1)] by (simp add: has_rmw_def)
  have 2: "staged n {GuardCondition, Subscription} {Subscription} ws2" using staged_set_resize [OF 1 s(2)] by (simp add: has_rmw_def)
  note 3 = staged_guards [OF 2 s(3)]
  have 4: "staged n {Timer, GuardCondition, Subscription} {GuardCondition, Subscription} ws4"
    using staged_set_resize [OF 3 s(4)] by (simp add: has_rmw_def)
  have 5: "staged n {Client, Timer, GuardCondition, Subscription} {Client, GuardCondition, Subscription} ws5"
    using staged_set_resize [OF 4 s(5)] by (simp add: has_rmw_def)
  have 6: "staged n {Service, Client, Timer, GuardCondition, Subscription} {Service, Client, GuardCondition, Subscription} ws6"
    using staged_set_resize [OF 5 s(6)] by (simp add: has_rmw_def)
  have 7: "staged n {Event, Service, Client, Timer, GuardCondition, Subscription} {Event, Service, Client, GuardCondition, Subscription} ws'"
    using staged_set_resize [OF 6 s(7)] by (simp add: has_rmw_def)
  have "k \<in> {Event, Service, Client, Timer, GuardCondition, Subscription}" "k \<noteq> Timer \<Longrightarrow> k \<in> {Event, Service, Client, GuardCondition, Subscription}" for k
    by (cases k; simp)+
  then show ?thesis using 7 unfolding sized_def staged_def by blast
qed

lemma init_sized:
  assumes "rcl_wait_set_init context_valid created destroyed n rcl_get_zero_initialized_wait_set a = (RCL_RET_OK, ws, a')"
  shows "sized n ws"
proof -
  obtain p a1 where p: "allocate a = (p, a1)" by fastforce
  define w where "w = rcl_get_zero_initialized_wait_set\<lparr>ws_impl := p, added := (\<lambda>_. 0), rmw_slots := (\<lambda>_. []), rmw_block := (\<lambda>_. 0),
      rmw_count := (\<lambda>_. 0), rmw_wait_set := created\<rparr>"
  obtain r1 w1 a2 where s: "(if created = 0 then (RCL_RET_ERROR, w, a1) else rcl_wait_set_resize n w a1) = (r1, w1, a2)" by (metis surj_pair)
  have "p \<noteq> 0 \<and> r1 = RCL_RET_OK \<and> ws = w1"
    using assms p s by (auto simp: rcl_wait_set_init_def Let_def rcl_rets w_def [symmetric] split: if_splits prod.splits)
  then show ?thesis using resize_sized [of n w a1 w1 a2] s by (auto simp: w_def rcl_rets split: if_splits)
qed

subsection \<open>Waiting\<close>

text \<open>The shortest time until the next call of a timer, from a limit on.\<close>

fun soonest :: "timers \<Rightarrow> int \<Rightarrow> u32 list \<Rightarrow> bool \<times> int \<Rightarrow> bool \<times> int" where
  "soonest ts now [] b = b"
| "soonest ts now (x # xs) (f, u) =
     (let d = s64 (next_call_time (the (ts x)) - now)
      in soonest ts now xs (if \<not> canceled (the (ts x)) \<and> d < u then (True, d) else (f, u)))"

definition live :: "timers \<Rightarrow> u32 \<Rightarrow> u32" where
  "live ts x = (if canceled (the (ts x)) then 0 else x)"

definition timer_due :: "timers \<Rightarrow> int \<Rightarrow> u32 \<Rightarrow> bool" where
  "timer_due ts now x \<longleftrightarrow> \<not> canceled (the (ts x)) \<and> s64 (next_call_time (the (ts x)) - now) \<le> 0"

text \<open>The wait set when the first loop has looked at \<open>j\<close> timers: the handles of their guard conditions have been moved to follow
  those of the guard conditions waited for.\<close>

definition scanned :: "(u32 \<Rightarrow> u32) \<Rightarrow> timers \<Rightarrow> u32 list \<Rightarrow> u32 list \<Rightarrow> nat \<Rightarrow> wait_set \<Rightarrow> nat \<Rightarrow> wait_set" where
  "scanned h ts T R c ws j = ws\<lparr>slots := (slots ws)(Timer := map (live ts) (take j T) @ drop j T @ R),
     rmw_slots := (rmw_slots ws)(GuardCondition :=
       take c (rmw_slots ws GuardCondition) @ map h (take j T) @ drop (c + j) (rmw_slots ws GuardCondition)),
     rmw_count := (rmw_count ws)(GuardCondition := c + j)\<rparr>"

lemma scan_timers_run:
  assumes now: "rcl_clock_get_now (Some clock) t = (RCL_RET_OK, Some now)"
    and T: "\<forall>x \<in> set T. x \<noteq> 0 \<and> h x \<noteq> 0 \<and> ts x \<noteq> None"
    and ws: "length (slots ws GuardCondition) = g" "c \<le> g" "g + length T \<le> length (rmw_slots ws GuardCondition)"
      "\<forall>i < length T. rmw_slots ws GuardCondition ! (g + i) = h (T ! i)"
    and j: "j \<le> length T"
  shows "scan_timers clock t ts [j..<length T] (scanned h ts T R c ws j) f u =
     (RCL_RET_OK, scanned h ts T R c ws (length T), soonest ts now (drop j T) (f, u))"
  using j
proof (induction "length T - j" arbitrary: j f u)
  case 0
  then show ?case by (cases "soonest ts now (drop j T) (f, u)") simp
next
  case (Suc d)
  let ?o = "rmw_slots ws GuardCondition"
  have j: "j < length T" using Suc.hyps(2) by simp
  then have x: "T ! j \<noteq> 0" "h (T ! j) \<noteq> 0" "ts (T ! j) \<noteq> None" using T by simp_all
  then obtain tm where tm: "ts (T ! j) = Some tm" by auto
  have e1: "drop j T = T ! j # drop (Suc j) T" "take (Suc j) T = take j T @ [T ! j]" using j by (simp_all add: Cons_nth_drop_Suc take_Suc_conv_app_nth)
  have e2: "[j..<length T] = j # [Suc j..<length T]" using j by (simp add: upt_rec)
  have s1: "slots (scanned h ts T R c ws j) Timer ! j = T ! j" using j by (simp add: scanned_def nth_append min_def)
  have s2: "length (slots (scanned h ts T R c ws j) GuardCondition) = g" using ws(1) by (simp add: scanned_def)
  have l: "c + j < length ?o" using ws(2,3) j by simp
  have lc: "length (take c ?o) = c" using ws(2,3) by simp
  have s3: "rmw_slots (scanned h ts T R c ws j) GuardCondition ! (g + j) = h (T ! j)"
  proof -
    have "(take c ?o @ map h (take j T) @ drop (c + j) ?o) ! (g + j) = ?o ! (g + j)"
      using ws(2,3) j lc by (auto simp: nth_append min_def add.commute)
    then show ?thesis using ws(4) j by (simp add: scanned_def)
  qed
  have s4: "(take c ?o @ map h (take j T) @ drop (c + j) ?o)[c + j := h (T ! j)] = take c ?o @ map h (take (Suc j) T) @ drop (c + Suc j) ?o"
  proof -
    have "drop (c + j) ?o = ?o ! (c + j) # drop (c + Suc j) ?o" using l by (simp add: Cons_nth_drop_Suc)
    then show ?thesis using lc j e1(2) by (simp add: list_update_append min_def)
  qed
  have s5: "(map (live ts) (take j T) @ drop j T @ R)[j := y] = map (live ts) (take j T) @ y # drop (Suc j) T @ R" for y
    using j e1(1) by (simp add: list_update_append min_def)
  have step: "scan_timers clock t ts [j..<length T] (scanned h ts T R c ws j) f u =
     scan_timers clock t ts [Suc j..<length T] (scanned h ts T R c ws (Suc j))
       (if \<not> canceled tm \<and> s64 (next_call_time tm - now) < u then True else f)
       (if \<not> canceled tm \<and> s64 (next_call_time tm - now) < u then s64 (next_call_time tm - now) else u)"
  proof (cases "canceled tm")
    case True
    have "(scanned h ts T R c ws j)\<lparr>rmw_slots := (rmw_slots (scanned h ts T R c ws j))(GuardCondition := (rmw_slots (scanned h ts T R c ws j) GuardCondition)[rmw_count (scanned h ts T R c ws j) GuardCondition := h (T ! j)]),
        rmw_count := (rmw_count (scanned h ts T R c ws j))(GuardCondition := rmw_count (scanned h ts T R c ws j) GuardCondition + 1),
        slots := (slots (scanned h ts T R c ws j))(Timer := (slots (scanned h ts T R c ws j) Timer)[j := 0])\<rparr> = scanned h ts T R c ws (Suc j)"
      using s4 s5 e1(2) tm True by (simp add: scanned_def live_def)
    then show ?thesis unfolding e2 using s1 s2 s3 x tm True by (simp add: Let_def)
  next
    case False
    have "(scanned h ts T R c ws j)\<lparr>rmw_slots := (rmw_slots (scanned h ts T R c ws j))(GuardCondition := (rmw_slots (scanned h ts T R c ws j) GuardCondition)[rmw_count (scanned h ts T R c ws j) GuardCondition := h (T ! j)]),
        rmw_count := (rmw_count (scanned h ts T R c ws j))(GuardCondition := rmw_count (scanned h ts T R c ws j) GuardCondition + 1)\<rparr> = scanned h ts T R c ws (Suc j)"
      using s4 e1 tm False by (simp add: scanned_def live_def)
    then show ?thesis unfolding e2 using s1 s2 s3 x tm False now by (simp add: Let_def rcl_timer_get_time_until_next_call_def)
  qed
  show ?case unfolding step using Suc.hyps(1) [of "Suc j"] Suc.hyps(2) e1(1) tm by (simp add: Let_def)
qed

definition checked :: "timers \<Rightarrow> int \<Rightarrow> u32 list \<Rightarrow> u32 list \<Rightarrow> wait_set \<Rightarrow> nat \<Rightarrow> wait_set" where
  "checked ts now L R ws j = ws\<lparr>slots := (slots ws)(Timer := map (\<lambda>x. if x \<noteq> 0 \<and> timer_due ts now x then x else 0) (take j L) @ drop j L @ R)\<rparr>"

lemma check_timers_run:
  assumes now: "rcl_clock_get_now (Some clock) t = (RCL_RET_OK, Some now)" and L: "\<forall>x \<in> set L. x \<noteq> 0 \<longrightarrow> ts x \<noteq> None"
    and j: "j \<le> length L"
  shows "check_timers clock t ts [j..<length L] (checked ts now L R ws j) = (RCL_RET_OK, checked ts now L R ws (length L))"
  using j
proof (induction "length L - j" arbitrary: j)
  case 0
  then show ?case by simp
next
  case (Suc d)
  have j: "j < length L" using Suc.hyps(2) by simp
  have e1: "drop j L = L ! j # drop (Suc j) L" "take (Suc j) L = take j L @ [L ! j]" using j by (simp_all add: Cons_nth_drop_Suc take_Suc_conv_app_nth)
  have e2: "[j..<length L] = j # [Suc j..<length L]" using j by (simp add: upt_rec)
  have s1: "slots (checked ts now L R ws j) Timer ! j = L ! j" using j by (simp add: checked_def nth_append min_def)
  have s5: "(map F (take j L) @ drop j L @ R)[j := y] = map F (take j L) @ y # drop (Suc j) L @ R" for y and F :: "u32 \<Rightarrow> u32"
    using j e1(1) by (simp add: list_update_append min_def)
  have c0: "L ! j \<noteq> 0 \<and> timer_due ts now (L ! j) \<or> L ! j = 0 \<Longrightarrow> checked ts now L R ws (Suc j) = checked ts now L R ws j"
    using e1 by (auto simp: checked_def)
  have c1: "\<not> timer_due ts now (L ! j) \<Longrightarrow>
      (checked ts now L R ws j)\<lparr>slots := (slots (checked ts now L R ws j))(Timer := (slots (checked ts now L R ws j) Timer)[j := 0])\<rparr> =
      checked ts now L R ws (Suc j)"
    using e1(2) s5 by (simp add: checked_def)
  have "check_timers clock t ts [j..<length L] (checked ts now L R ws j) =
      check_timers clock t ts [Suc j..<length L] (checked ts now L R ws (Suc j))"
  proof (cases "L ! j = 0")
    case True
    then show ?thesis unfolding e2 using s1 c0 by simp
  next
    case False
    then obtain tm where tm: "ts (L ! j) = Some tm" using L j by fastforce
    then have r: "rcl_timer_is_ready clock t tm = (RCL_RET_OK, Some (timer_due ts now (L ! j)))"
      using now by (auto simp: rcl_timer_is_ready_def rcl_timer_get_time_until_next_call_def timer_due_def)
    show ?thesis
      by (cases "timer_due ts now (L ! j)") (use False tm r s1 c0 c1 in \<open>simp_all add: e2 Let_def\<close>)
  qed
  then show ?case using Suc.hyps(1) [of "Suc j"] Suc.hyps(2) by simp
qed

text \<open>The entities that waiting finds ready: \<open>mw\<close> is the middleware's state after it has received data, \<open>now\<close> the time then.  Events are
  not looked at, every one of them counts.\<close>

definition entity_ready :: "(entity \<Rightarrow> u32 \<Rightarrow> u32) \<Rightarrow> timers \<Rightarrow> int \<Rightarrow> middleware \<Rightarrow> entity \<Rightarrow> u32 \<Rightarrow> bool" where
  "entity_ready h ts now mw k x =
     (case k of Timer \<Rightarrow> timer_due ts now x | GuardCondition \<Rightarrow> gc_triggered mw (h k x) | Event \<Rightarrow> True | _ \<Rightarrow> buffered mw (h k x))"

lemma map2_zeros: "map2 (\<lambda>x y. if y \<noteq> 0 then x else (0::u32)) (replicate m 0) ys = replicate (min m (length ys)) 0"
proof (induction m arbitrary: ys)
  case (Suc m)
  then show ?case by (cases ys) auto
qed simp

lemma map2_keep:
  fixes xs :: "u32 list"
  assumes "take (length xs) ys = map g xs" "length xs + m \<le> length ys"
  shows "map2 (\<lambda>x y. if y \<noteq> 0 then x else 0) (xs @ replicate m 0) ys = map (\<lambda>x. if g x \<noteq> 0 then x else 0) xs @ replicate m 0"
proof -
  have "ys = map g xs @ drop (length xs) ys" using assms(1) append_take_drop_id [of "length xs" ys] by simp
  then obtain zs where y: "ys = map g xs @ zs" by blast
  have "m \<le> length zs" using assms(2) y by simp
  then have "map2 (\<lambda>x y. if y \<noteq> 0 then x else (0::u32)) (replicate m 0) zs = replicate m 0" by (simp add: map2_zeros min_def)
  moreover have "map2 (\<lambda>x y. if y \<noteq> 0 then x else (0::u32)) xs (map g xs) = map (\<lambda>x. if g x \<noteq> 0 then x else 0) xs"
    by (induction xs) simp_all
  ultimately show ?thesis unfolding y by simp
qed

lemma keep_ready_take:
  "take n xs = map g ys \<Longrightarrow> n = length ys \<Longrightarrow> n \<le> length xs \<Longrightarrow> take n (keep_ready P m xs) = map (\<lambda>y. if P (g y) then g y else 0) ys" if "n \<le> m"
proof -
  assume e: "take n xs = map g ys" "n = length ys" "n \<le> length xs"
  have "take n (keep_ready P m xs) = map (\<lambda>x. if P x then x else 0) (take n xs)"
    using that e(3) by (cases "m \<le> length xs") (simp_all add: keep_ready_def take_map min_def)
  then show ?thesis by (simp add: e(1))
qed

lemma length_keep_ready [simp]: "length (keep_ready P m xs) = length xs"
  by (simp add: keep_ready_def)

text \<open>Guard conditions that are looked at are cleared; one that is looked at once is found when it was triggered.\<close>

lemma read_guards_trig: "read_guards trig xs = (b, ys, trig') \<Longrightarrow> trig' = (\<lambda>x. trig x \<and> x \<notin> set xs) \<and> length ys = length xs"
proof (induction trig xs arbitrary: b ys trig' rule: read_guards.induct)
  case (2 trig x xs)
  show ?case
  proof (cases "trig x")
    case False
    obtain b1 ys1 trig1 where r: "read_guards trig xs = (b1, ys1, trig1)" by (metis prod_cases3)
    then show ?thesis using 2(1) [OF False r] 2(3) False by (auto simp: fun_eq_iff)
  next
    case True
    obtain b1 ys1 trig1 where r: "read_guards (trig(x := False)) xs = (b1, ys1, trig1)" by (metis prod_cases3)
    have "trig1 = (\<lambda>y. (trig(x := False)) y \<and> y \<notin> set xs) \<and> length ys1 = length xs" using 2(2) [OF _ r] True by simp
    moreover have "(\<lambda>y. (trig(x := False)) y \<and> y \<notin> set xs) = (\<lambda>y. trig y \<and> y \<notin> set (x # xs))" by auto
    moreover have "trig' = trig1" "ys = x # ys1" using 2(3) True r by simp_all
    ultimately show ?thesis by simp
  qed
qed simp

lemma read_guards_distinct:
  "read_guards trig (xs @ zs) = (b, ys, trig') \<Longrightarrow> distinct xs \<Longrightarrow> take (length xs) ys = map (\<lambda>x. if trig x then x else 0) xs"
proof (induction xs arbitrary: trig b ys trig')
  case (Cons x xs)
  show ?case
  proof (cases "trig x")
    case False
    then show ?thesis using Cons by (auto split: prod.splits)
  next
    case True
    obtain b1 ys1 trig1 where r: "read_guards (trig(x := False)) (xs @ zs) = (b1, ys1, trig1)" by (metis prod_cases3)
    have "take (length xs) ys1 = map (\<lambda>y. if (trig(x := False)) y then y else 0) xs" using Cons.IH [OF r] Cons.prems(2) by simp
    also have "\<dots> = map (\<lambda>y. if trig y then y else 0) xs" using Cons.prems(2) by auto
    finally show ?thesis using Cons.prems(1) True r by auto
  qed
qed simp

lemma rmw_wait_result:
  assumes "rmw_wait run_sessions wt ws mw = (ret, ws2, mw2)"
  shows "ret = RCL_RET_OK \<or> ret = RMW_RET_TIMEOUT"
    "mw2 = (run_sessions (rmw_timeout wt) mw)\<lparr>gc_triggered := (\<lambda>x. gc_triggered (run_sessions (rmw_timeout wt) mw) x \<and>
       x \<notin> set (take (rmw_count ws GuardCondition) (rmw_slots ws GuardCondition)))\<rparr>"
    "ws2 = ws\<lparr>rmw_slots := (\<lambda>k. if k \<in> {Service, Client, Subscription}
       then keep_ready (buffered (run_sessions (rmw_timeout wt) mw)) (rmw_count ws k) (rmw_slots ws k)
       else if k = GuardCondition
       then fst (snd (read_guards (gc_triggered (run_sessions (rmw_timeout wt) mw)) (take (rmw_count ws GuardCondition) (rmw_slots ws GuardCondition)))) @
         drop (rmw_count ws k) (rmw_slots ws k)
       else rmw_slots ws k)\<rparr>"
proof -
  let ?mw = "run_sessions (rmw_timeout wt) mw"
  obtain b gs trig where g: "read_guards (gc_triggered ?mw) (take (rmw_count ws GuardCondition) (rmw_slots ws GuardCondition)) = (b, gs, trig)"
    by (metis prod_cases3)
  have e: "rmw_wait run_sessions wt ws mw = (if (\<exists>k \<in> {Service, Client, Subscription}. list_ex (buffered ?mw) (take (rmw_count ws k) (rmw_slots ws k))) \<or> b
      then RCL_RET_OK else RMW_RET_TIMEOUT,
      ws\<lparr>rmw_slots := (\<lambda>k. if k \<in> {Service, Client, Subscription} then keep_ready (buffered ?mw) (rmw_count ws k) (rmw_slots ws k)
                            else if k = GuardCondition then gs @ drop (rmw_count ws k) (rmw_slots ws k) else rmw_slots ws k)\<rparr>,
      ?mw\<lparr>gc_triggered := trig\<rparr>)"
    unfolding rmw_wait_def Let_def g by (simp only: prod.case)
  note r = e [unfolded assms, unfolded prod.inject]
  show "ret = RCL_RET_OK \<or> ret = RMW_RET_TIMEOUT" using r by argo
  show "mw2 = ?mw\<lparr>gc_triggered := (\<lambda>x. gc_triggered ?mw x \<and> x \<notin> set (take (rmw_count ws GuardCondition) (rmw_slots ws GuardCondition)))\<rparr>"
    using r read_guards_trig [OF g] by simp
  show "ws2 = ws\<lparr>rmw_slots := (\<lambda>k. if k \<in> {Service, Client, Subscription}
       then keep_ready (buffered ?mw) (rmw_count ws k) (rmw_slots ws k)
       else if k = GuardCondition
       then fst (snd (read_guards (gc_triggered ?mw) (take (rmw_count ws GuardCondition) (rmw_slots ws GuardCondition)))) @
         drop (rmw_count ws k) (rmw_slots ws k)
       else rmw_slots ws k)\<rparr>"
    unfolding g fst_conv snd_conv using r by (elim conjE)
qed

lemma soonest_least:
  assumes "soonest ts now T (f0, u0) = (f, u)"
  shows "u \<le> u0 \<and> (f \<longleftrightarrow> f0 \<or> u < u0) \<and> (\<forall>x \<in> set T. \<not> canceled (the (ts x)) \<longrightarrow> u \<le> s64 (next_call_time (the (ts x)) - now))"
  using assms
proof (induction T arbitrary: f0 u0)
  case (Cons x T)
  let ?d = "s64 (next_call_time (the (ts x)) - now)"
  show ?case
  proof (cases "\<not> canceled (the (ts x)) \<and> ?d < u0")
    case True
    then show ?thesis using Cons.IH [of True ?d] Cons.prems by (auto simp: Let_def)
  next
    case False
    then show ?thesis using Cons.IH [of f0 u0] Cons.prems by (auto simp: Let_def)
  qed
qed simp

lemma rmw_timeout_floor:
  assumes "0 \<le> m"
  shows "\<exists>ms. rmw_timeout (Some (m sdiv 1000000000, m smod 1000000000)) = Some ms \<and> 0 \<le> ms \<and> ms * 1000000 \<le> m"
proof -
  define s where "s = m div 1000000000"
  define q where "q = m mod 1000000000"
  have d: "m sdiv 1000000000 = s" "m smod 1000000000 = q" "m = s * 1000000000 + q" "0 \<le> s" "0 \<le> q"
    using assms by (auto simp: s_def q_def signed_divide_int_def signed_modulo_int_def sgn_if minus_div_mult_eq_mod)
  have q: "0 \<le> q div 1000000" "q div 1000000 * 1000000 \<le> q" using d(5) by auto
  show ?thesis
  proof (cases "s \<ge> (2 ^ 64 - 1) div 1000 \<or> 2 ^ 64 - 1 - s * 1000 \<le> q div 1000000 \<or> s * 1000 + q div 1000000 > 2147483647")
    case True
    then have "2147483647 * 1000000 \<le> m" using d(3-5) q by auto
    then show ?thesis using True d by (auto simp: rmw_timeout_def Let_def)
  next
    case False
    then show ?thesis using d q by (auto simp: rmw_timeout_def Let_def)
  qed
qed

lemma wait_time:
  assumes s: "soonest ts now T (False, if timeout > 0 then timeout else INT64_MAX) = (f, u)"
  shows "timeout \<ge> 0 \<Longrightarrow> \<exists>ms. rmw_timeout (wait_timeout timeout f u) = Some ms \<and> 0 \<le> ms \<and> ms * 1000000 \<le> timeout"
    and "x \<in> set T \<Longrightarrow> \<not> canceled (the (ts x)) \<Longrightarrow> s64 (next_call_time (the (ts x)) - now) < INT64_MAX \<Longrightarrow>
      \<exists>ms. rmw_timeout (wait_timeout timeout f u) = Some ms \<and> ms * 1000000 \<le> max 0 (s64 (next_call_time (the (ts x)) - now))"
proof -
  note l = soonest_least [OF s]
  have z: "rmw_timeout (Some (0, 0)) = Some 0" by (simp add: rmw_timeout_def)
  have w: "timeout > 0 \<or> f \<Longrightarrow> timeout \<noteq> 0 \<Longrightarrow>
      wait_timeout timeout f u = Some (max 0 u sdiv 1000000000, max 0 u smod 1000000000)"
    by (simp add: wait_timeout_def Let_def max_def)
  obtain ms where ms: "rmw_timeout (Some (max 0 u sdiv 1000000000, max 0 u smod 1000000000)) = Some ms" "0 \<le> ms" "ms * 1000000 \<le> max 0 u"
    using rmw_timeout_floor [of "max 0 u"] by auto
  show "\<exists>ms. rmw_timeout (wait_timeout timeout f u) = Some ms \<and> 0 \<le> ms \<and> ms * 1000000 \<le> timeout" if "timeout \<ge> 0"
    using that w z ms l by (cases "timeout = 0") (auto simp: wait_timeout_def)
  show "\<exists>ms. rmw_timeout (wait_timeout timeout f u) = Some ms \<and> ms * 1000000 \<le> max 0 (s64 (next_call_time (the (ts x)) - now))"
    if x: "x \<in> set T" "\<not> canceled (the (ts x))" "s64 (next_call_time (the (ts x)) - now) < INT64_MAX"
  proof (cases "timeout = 0")
    case True
    then show ?thesis using z by (simp add: wait_timeout_def)
  next
    case False
    have "u \<le> s64 (next_call_time (the (ts x)) - now)" using l x by blast
    moreover have "timeout > 0 \<or> f" using l calculation x(3) by (auto split: if_splits)
    ultimately show ?thesis using w False ms by auto
  qed
qed

lemma wait_leaves_ready:
  assumes f: "filled n h xs ws" and xs: "xs \<noteq> []" "\<forall>(k, x) \<in> set xs. x \<noteq> 0 \<and> h k x \<noteq> 0"
    and dist: "distinct (map (h GuardCondition) (of_kind GuardCondition xs))"
    and ts: "\<forall>x. (Timer, x) \<in> set xs \<longrightarrow> ts x \<noteq> None"
    and now: "rcl_clock_get_now (Some clock) t1 = (RCL_RET_OK, Some now1)" "rcl_clock_get_now (Some clock) t2 = (RCL_RET_OK, Some now2)"
    and r: "rcl_wait run_sessions clock t1 t2 ts timeout ws mw = (r, ws', mw')"
  shows "\<exists>ms mw1. mw1 = run_sessions ms mw \<and>
     (timeout \<ge> 0 \<longrightarrow> ms \<noteq> None \<and> 0 \<le> the ms \<and> the ms * 1000000 \<le> timeout) \<and>
     (\<forall>x. (Timer, x) \<in> set xs \<and> \<not> canceled (the (ts x)) \<and> s64 (next_call_time (the (ts x)) - now1) < INT64_MAX \<longrightarrow>
        ms \<noteq> None \<and> the ms * 1000000 \<le> max 0 (s64 (next_call_time (the (ts x)) - now1))) \<and>
     (r = RCL_RET_OK \<or> r = RCL_RET_TIMEOUT) \<and> sized n ws' \<and>
     (\<forall>k. slots ws' k = map (\<lambda>x. if entity_ready h ts now2 mw1 k x then x else 0) (of_kind k xs) @ replicate (n k - length (of_kind k xs)) 0) \<and>
     buffered mw' = buffered mw1 \<and> (\<forall>g. gc_triggered mw' g \<longrightarrow> gc_triggered mw1 g) \<and>
     (\<forall>x. (GuardCondition, x) \<in> set xs \<longrightarrow> \<not> gc_triggered mw' (h GuardCondition x))"
proof -
  let ?T = "of_kind Timer xs"
  let ?c = "length (of_kind GuardCondition xs)"
  let ?g = "n GuardCondition"
  let ?R = "replicate (n Timer - length ?T) (0::u32)"
  let ?hT = "h Timer"
  have sz: "sized n ws" using f by (simp add: filled_def)
  have sl: "slots ws k = of_kind k xs @ replicate (n k - length (of_kind k xs)) 0" "added ws k = length (of_kind k xs)" for k
    using f by (simp_all add: filled_def)
  have len: "length (slots ws k) = n k" for k using sz by (simp add: sized_def)
  have rl: "k \<noteq> Timer \<Longrightarrow> length (rmw_slots ws k) = rmw_size n k" for k using sz by (simp add: sized_def)
  have rt: "k \<noteq> Timer \<Longrightarrow> rmw_count ws k = length (of_kind k xs) \<and> take (length (of_kind k xs)) (rmw_slots ws k) = map (h k) (of_kind k xs)" for k
    using f by (simp add: filled_def)
  have fits: "length (of_kind k xs) \<le> n k" for k using filled_fits [OF f] .
  have glen: "length (rmw_slots ws GuardCondition) = ?g + n Timer" using rl by (simp add: rmw_size_def)
  have nz: "x \<in> set (of_kind k xs) \<Longrightarrow> x \<noteq> 0 \<and> h k x \<noteq> 0" for k x using xs(2) by (auto simp: mem_of_kind)
  have T: "\<forall>x \<in> set ?T. x \<noteq> 0 \<and> ?hT x \<noteq> 0 \<and> ts x \<noteq> None" using nz ts by (auto simp: mem_of_kind)
  have rc: "rmw_count ws GuardCondition = ?c" using rt by simp
  let ?ws0 = "scanned ?hT ts ?T ?R ?c ws 0"
  have s0: "?ws0 = ws" using sl(1) [of Timer] rc by (simp add: scanned_def fun_upd_idem)
  obtain f u where fu: "soonest ts now1 ?T (False, if timeout > 0 then timeout else INT64_MAX) = (f, u)" by fastforce
  let ?ws1 = "scanned ?hT ts ?T ?R ?c ws (length ?T)"
  have scan: "scan_timers clock t1 ts [0..<added ws Timer] ws False (if timeout > 0 then timeout else INT64_MAX) = (RCL_RET_OK, ?ws1, f, u)"
  proof -
    have "scan_timers clock t1 ts [0..<length ?T] ?ws0 False (if timeout > 0 then timeout else INT64_MAX) =
        (RCL_RET_OK, ?ws1, soonest ts now1 (drop 0 ?T) (False, if timeout > 0 then timeout else INT64_MAX))"
    proof (rule scan_timers_run [OF now(1) T, of ws ?g])
      show "\<forall>i < length ?T. rmw_slots ws GuardCondition ! (?g + i) = ?hT (?T ! i)" using f by (simp add: filled_def)
    qed (use len fits [of GuardCondition] fits [of Timer] glen in simp_all)
    then show ?thesis using s0 sl(2) fu by simp
  qed
  define mw1 where "mw1 = run_sessions (rmw_timeout (wait_timeout timeout f u)) mw"
  obtain ret ws2 mw2 where w: "rmw_wait run_sessions (wait_timeout timeout f u) ?ws1 mw = (ret, ws2, mw2)" by (metis surj_pair)
  have ret: "ret = RCL_RET_OK \<or> ret = RMW_RET_TIMEOUT"
    and m2: "mw2 = mw1\<lparr>gc_triggered := (\<lambda>x. gc_triggered mw1 x \<and> x \<notin> set (take (rmw_count ?ws1 GuardCondition) (rmw_slots ?ws1 GuardCondition)))\<rparr>"
    and w2: "ws2 = ?ws1\<lparr>rmw_slots := (\<lambda>k. if k \<in> {Service, Client, Subscription} then keep_ready (buffered mw1) (rmw_count ?ws1 k) (rmw_slots ?ws1 k)
        else if k = GuardCondition
        then fst (snd (read_guards (gc_triggered mw1) (take (rmw_count ?ws1 GuardCondition) (rmw_slots ?ws1 GuardCondition)))) @
          drop (rmw_count ?ws1 k) (rmw_slots ?ws1 k)
        else rmw_slots ?ws1 k)\<rparr>"
    using rmw_wait_result [OF w] unfolding mw1_def by blast+
  let ?L = "map (live ts) ?T"
  let ?ws3 = "checked ts now2 ?L ?R ws2 (length ?L)"
  have L: "\<forall>x \<in> set ?L. x \<noteq> 0 \<longrightarrow> ts x \<noteq> None" using T by (auto simp: live_def)
  have t1: "slots ?ws1 = (slots ws)(Timer := ?L @ ?R)" "added ?ws1 = added ws" by (simp_all add: scanned_def)
  have t2: "slots ws2 = slots ?ws1" "added ws2 = added ws" using w2 by (simp_all add: scanned_def)
  have c0: "checked ts now2 ?L ?R ws2 0 = ws2" using t1(1) t2(1) by (simp add: checked_def fun_upd_idem)
  have check: "check_timers clock t2 ts [0..<added ws2 Timer] ws2 = (RCL_RET_OK, ?ws3)"
    using check_timers_run [OF now(2) L, of 0 ?R ws2] c0 t2(2) sl(2) by simp
  have ne: "\<not> (slots ws Subscription = [] \<and> slots ws GuardCondition = [] \<and> slots ws Timer = [] \<and> slots ws Client = [] \<and>
              slots ws Service = [] \<and> slots ws Event = [])"
  proof -
    obtain k x where "(k, x) \<in> set xs" using xs(1) by (metis list.set_intros(1) neq_Nil_conv surj_pair)
    then have "slots ws k \<noteq> []" using sl(1) [of k] mem_of_kind [of x k xs] by auto
    then show ?thesis by (cases k) simp_all
  qed
  have val: "rcl_wait_set_is_valid ws" using sz by (simp add: sized_def rcl_wait_set_is_valid_def)
  have rr: "(r, ws', mw') = (if ret = RMW_RET_TIMEOUT \<and> \<not> f then RCL_RET_TIMEOUT else RCL_RET_OK,
      ?ws3\<lparr>slots := (\<lambda>k. if k = Timer then slots ?ws3 k else map2 (\<lambda>x y. if y \<noteq> 0 then x else 0) (slots ?ws3 k) (rmw_slots ?ws3 k))\<rparr>, mw2)"
  proof -
    have nr: "(ret \<noteq> RCL_RET_OK \<and> ret \<noteq> RMW_RET_TIMEOUT) = False" using ret by blast
    show ?thesis
      unfolding r [symmetric] rcl_wait_def if_not_P [OF ne] scan
      by (simp only: val w check nr prod.case Let_def simp_thms if_False if_True)
  qed
  have keep: "take (length (of_kind k xs)) (rmw_slots ?ws3 k) = map (\<lambda>x. if entity_ready h ts now2 mw1 k x then h k x else 0) (of_kind k xs) \<and>
      length (rmw_slots ?ws3 k) = rmw_size n k" if k: "k \<noteq> Timer" for k
  proof -
    have q: "rmw_slots ?ws3 = rmw_slots ws2" by (simp add: checked_def)
    show ?thesis
    proof (cases "k = GuardCondition")
      case True
      let ?o = "rmw_slots ws GuardCondition"
      have o: "take ?c (rmw_slots ?ws1 GuardCondition) = map (h k) (of_kind k xs)" "rmw_count ?ws1 GuardCondition = ?c + length ?T"
        "length (rmw_slots ?ws1 GuardCondition) = length ?o"
        using True rt [of GuardCondition] glen fits [of GuardCondition] fits [of Timer] by (simp_all add: scanned_def)
      let ?S = "rmw_slots ?ws1 GuardCondition"
      obtain b ys trig where g: "read_guards (gc_triggered mw1) (take (rmw_count ?ws1 GuardCondition) ?S) = (b, ys, trig)" by (metis prod_cases3)
      have sp: "take (rmw_count ?ws1 GuardCondition) ?S = map (h k) (of_kind k xs) @ take (length ?T) (drop ?c ?S)"
        unfolding o(2) take_add o(1) ..
      have "take (length (map (h k) (of_kind k xs))) ys = map (\<lambda>x. if gc_triggered mw1 x then x else 0) (map (h k) (of_kind k xs))"
        by (rule read_guards_distinct [OF g [unfolded sp]]) (use dist True in simp)
      moreover have "length ys = rmw_count ?ws1 GuardCondition"
        using read_guards_trig [OF g] o(2,3) glen fits [of GuardCondition] fits [of Timer] by simp
      moreover have "rmw_slots ws2 k = ys @ drop (rmw_count ?ws1 GuardCondition) ?S" using w2 g True by simp
      ultimately show ?thesis
        using q True o(2,3) glen fits [of GuardCondition] fits [of Timer] by (simp add: entity_ready_def rmw_size_def comp_def)
    next
      case False
      have o: "rmw_slots ?ws1 k = rmw_slots ws k" "rmw_count ?ws1 k = length (of_kind k xs)" using k False rt by (simp_all add: scanned_def)
      have l: "length (rmw_slots ws k) = n k" using rl k False by (simp add: rmw_size_def)
      have "take (length (of_kind k xs)) (keep_ready (buffered mw1) (length (of_kind k xs)) (rmw_slots ws k)) =
          map (\<lambda>x. if buffered mw1 (h k x) then h k x else 0) (of_kind k xs)"
        by (intro keep_ready_take [where g = "h k"]) (use rt [OF k] fits [of k] l in simp_all)
      then show ?thesis using q w2 o False l k rt [OF k]
        by (cases k) (simp_all add: entity_ready_def rmw_size_def)
    qed
  qed
  have sl3: "k \<noteq> Timer \<Longrightarrow> slots ?ws3 k = of_kind k xs @ replicate (n k - length (of_kind k xs)) 0" for k
    using t1 t2 sl(1) by (simp add: checked_def)
  have live: "map (\<lambda>x. if x \<noteq> 0 \<and> timer_due ts now2 x then x else 0) ?L = map (\<lambda>x. if entity_ready h ts now2 mw1 Timer x then x else 0) ?T"
    using T by (auto simp: entity_ready_def live_def timer_due_def)
  have "slots ws' k = map (\<lambda>x. if entity_ready h ts now2 mw1 k x then x else 0) (of_kind k xs) @ replicate (n k - length (of_kind k xs)) 0" for k
  proof (cases "k = Timer")
    case True
    then show ?thesis using rr live by (simp add: checked_def)
  next
    case False
    have "slots ws' k = map2 (\<lambda>x y. if y \<noteq> 0 then x else 0) (slots ?ws3 k) (rmw_slots ?ws3 k)" using rr False by simp
    also have "\<dots> = map (\<lambda>x. if (if entity_ready h ts now2 mw1 k x then h k x else 0) \<noteq> 0 then x else 0) (of_kind k xs) @
        replicate (n k - length (of_kind k xs)) 0"
      unfolding sl3 [OF False]
      by (rule map2_keep) (use keep [OF False] fits [of k] in \<open>auto simp: rmw_size_def\<close>)
    also have "map (\<lambda>x. if (if entity_ready h ts now2 mw1 k x then h k x else 0) \<noteq> 0 then x else 0) (of_kind k xs) =
        map (\<lambda>x. if entity_ready h ts now2 mw1 k x then x else 0) (of_kind k xs)"
      using nz by (intro map_cong) auto
    finally show ?thesis .
  qed
  moreover have "sized n ws'"
  proof -
    have u: "ws_impl ws' = ws_impl ws" "slot_block ws' = slot_block ws" "rmw_block ws' = rmw_block ws" "added ws' = added ws"
      "rmw_slots ws' = rmw_slots ?ws3"
      using rr w2 by (simp_all add: checked_def scanned_def)
    have c: "k \<noteq> Timer \<Longrightarrow> rmw_size n k = 0 \<Longrightarrow> rmw_count ws' k = 0" for k
      using rr w2 fits [of k] fits [of GuardCondition] fits [of Timer] rt [of k]
      by (cases "k = GuardCondition") (auto simp: checked_def scanned_def rmw_size_def)
    have l: "length (slots ws' k) = n k" for k using calculation fits [of k] by simp
    show ?thesis using sz c l keep unfolding sized_def u by blast
  qed
  moreover have "r = RCL_RET_OK \<or> r = RCL_RET_TIMEOUT" using rr by auto
  moreover have "\<not> gc_triggered mw' (h GuardCondition x)" if "(GuardCondition, x) \<in> set xs" for x
  proof -
    let ?S = "set (take (rmw_count ?ws1 GuardCondition) (rmw_slots ?ws1 GuardCondition))"
    have "h GuardCondition x \<in> set (take ?c (rmw_slots ws GuardCondition))" using rt [of GuardCondition] that by (auto simp: mem_of_kind)
    then have "h GuardCondition x \<in> ?S" using fits [of GuardCondition] fits [of Timer] glen by (simp add: scanned_def)
    then show ?thesis using rr m2 by simp
  qed
  moreover have "buffered mw' = buffered mw1" "\<forall>g. gc_triggered mw' g \<longrightarrow> gc_triggered mw1 g" using rr m2 by simp_all
  moreover have "timeout \<ge> 0 \<longrightarrow> rmw_timeout (wait_timeout timeout f u) \<noteq> None \<and>
      0 \<le> the (rmw_timeout (wait_timeout timeout f u)) \<and> the (rmw_timeout (wait_timeout timeout f u)) * 1000000 \<le> timeout"
    using wait_time(1) [OF fu] by auto
  moreover have "rmw_timeout (wait_timeout timeout f u) \<noteq> None \<and>
      the (rmw_timeout (wait_timeout timeout f u)) * 1000000 \<le> max 0 (s64 (next_call_time (the (ts x)) - now1))"
    if "(Timer, x) \<in> set xs \<and> \<not> canceled (the (ts x)) \<and> s64 (next_call_time (the (ts x)) - now1) < INT64_MAX" for x
    using wait_time(2) [OF fu, of x] that by (auto simp: mem_of_kind)
  ultimately show ?thesis
    by - (rule exI [of _ "rmw_timeout (wait_timeout timeout f u)"], rule exI [of _ mw1], intro conjI allI impI, simp_all add: mw1_def)
qed


definition ex_handle :: "entity \<Rightarrow> u32 \<Rightarrow> u32" where "ex_handle k x = x + 1"


end
