(* ===== verification/Rclc_Executor_Props.thy ===== *)
theory Rclc_Executor_Props
  imports Rclc_Executor Rcl_Wait_Ready
begin

text \<open>
  The executor: its array of handles is a list to which handles are added and from which they are removed, with the counts that
  the wait set is made from; a turn takes data and calls back exactly for the handles that waiting finds ready, each once and in
  the order in which they were added.
\<close>

definition used :: "executor \<Rightarrow> rclc_handle list" where
  "used e = take (next_index e) (handles e)"

definition ent :: "rclc_handle \<Rightarrow> entity \<times> u32" where
  "ent h = (the (kind_of (htype h)), obj h)"

definition handle_ok :: "rclc_handle \<Rightarrow> bool" where
  "handle_ok h \<longleftrightarrow> initialized h \<and> kind_of (htype h) \<noteq> None \<and> obj h \<noteq> 0"

definition counts :: "executor \<Rightarrow> entity \<Rightarrow> nat" where
  "counts e k = unat (info e k)"

definition executor_ok :: "executor \<Rightarrow> bool" where
  "executor_ok e \<longleftrightarrow> length (handles e) = max_handles e \<and> next_index e \<le> max_handles e \<and> max_handles e < 2 ^ 32 \<and>
     (\<forall>h \<in> set (used e). handle_ok h) \<and> (\<forall>h \<in> set (drop (next_index e) (handles e)). \<not> initialized h \<and> \<not> data_available h) \<and>
     (\<forall>k. counts e k = length (of_kind k (map ent (used e)))) \<and>
     (rcl_wait_set_is_valid (the_wait_set e) \<longrightarrow> sized (counts e) (the_wait_set e))"

lemma handles_split: "handles e = used e @ drop (next_index e) (handles e)"
  by (simp add: used_def)

lemma of_kind_length: "length (of_kind k xs) \<le> length xs"
  by (simp add: of_kind_def)

subsection \<open>Adding and removing\<close>

lemma reset_wait_set_result:
  assumes "reset_wait_set P e a = (r, e', a')"
  shows "\<exists>ws. e' = e\<lparr>the_wait_set := ws\<rparr>" "\<not> rcl_wait_set_is_valid (the_wait_set e')"
    "destroy_rmw_wait_set P = RCL_RET_OK \<Longrightarrow> r = RCL_RET_OK"
proof -
  obtain ws a1 where c: "wait_set_clean_up (the_wait_set e) a = (ws, a1)" by fastforce
  then have n: "\<not> rcl_wait_set_is_valid ws"
    by (auto simp: wait_set_clean_up_def rcl_wait_set_is_valid_def split: prod.splits)
  show "\<exists>ws. e' = e\<lparr>the_wait_set := ws\<rparr>"
    using assms c by (cases "rcl_wait_set_is_valid (the_wait_set e)") (auto simp: reset_wait_set_def rcl_wait_set_fini_def intro: exI [of _ "the_wait_set e"])
  show "\<not> rcl_wait_set_is_valid (the_wait_set e')" "destroy_rmw_wait_set P = RCL_RET_OK \<Longrightarrow> r = RCL_RET_OK"
    using assms c n by (auto simp: reset_wait_set_def rcl_wait_set_fini_def split: if_splits)
qed

text \<open>Adding a handle appends it; with all places taken nothing changes.\<close>

lemma add_handle_appends:
  assumes ok: "executor_ok e" and d: "destroy_rmw_wait_set P = RCL_RET_OK"
    and f: "\<And>h. kind_of (htype (set_fields h)) = Some k \<and> obj (set_fields h) \<noteq> 0 \<and> data_available (set_fields h) = data_available h"
    and r: "add_handle P set_fields k e a = (r, e', a')"
  shows "if next_index e < max_handles e
     then r = RCL_RET_OK \<and> executor_ok e' \<and> used e' = used e @ [(set_fields (handles e ! next_index e))\<lparr>initialized := True\<rparr>]
     else r = RCL_RET_ERROR \<and> e' = e"
proof (cases "next_index e < max_handles e")
  case False
  then show ?thesis using r by (simp add: add_handle_def)
next
  case True
  let ?i = "next_index e"
  let ?n = "(set_fields (handles e ! ?i))\<lparr>initialized := True\<rparr>"
  let ?e = "e\<lparr>handles := (handles e)[?i := ?n], next_index := ?i + 1\<rparr>"
  obtain r1 e1 a1 where s: "reset_wait_set P ?e a = (r1, e1, a1)" by (metis surj_pair)
  note rs = reset_wait_set_result [OF s]
  have r1: "r1 = RCL_RET_OK" using rs(3) d by simp
  then have e': "r = RCL_RET_OK" "e' = e1\<lparr>info := (info e1)(k := info e1 k + 1)\<rparr>" using r True s by (auto simp: add_handle_def Let_def)
  obtain ws where e1: "e1 = ?e\<lparr>the_wait_set := ws\<rparr>" using rs(1) by blast
  have l: "?i < length (handles e)" using ok True by (simp add: executor_ok_def)
  have u: "used e' = used e @ [?n]" using l e' e1 by (simp add: used_def take_Suc_conv_app_nth)
  have n: "handle_ok ?n" "ent ?n = (k, obj (set_fields (handles e ! ?i)))" using f by (simp_all add: handle_ok_def ent_def)
  have c: "counts e j = length (of_kind j (map ent (used e)))" for j using ok by (simp add: executor_ok_def)
  have "length (used e) < 2 ^ 32 - 1" using ok True by (simp add: executor_ok_def used_def)
  then have small: "unat (info e k) < 2 ^ 32 - 1"
    using c [of k] of_kind_length [of k "map ent (used e)"] by (simp add: counts_def)
  have cnt: "counts e' j = length (of_kind j (map ent (used e')))" for j
  proof (cases "j = k")
    case True
    have "unat (info e k + 1) = unat (info e k) + 1" using small by (subst unat_add_lem [THEN iffD1]) auto
    then show ?thesis using True c [of k] u n(2) e' e1 by (simp add: counts_def)
  next
    case False
    then show ?thesis using c [of j] u n(2) e' e1 by (simp add: counts_def)
  qed
  have dr: "drop (next_index e') (handles e') = drop (Suc ?i) (handles e)" using e' e1 by simp
  have "set (drop (Suc ?i) (handles e)) \<subseteq> set (drop ?i (handles e))" by (rule set_drop_subset_set_drop) simp
  moreover have "\<not> rcl_wait_set_is_valid (the_wait_set e')" using rs(2) e' by simp
  ultimately have "executor_ok e'"
    using ok True cnt u n(1) dr e' e1 unfolding executor_ok_def
    by (auto simp: rcl_wait_set_is_valid_def)
  then show ?thesis using True e' u by simp
qed

text \<open>Removing the handle of an entity takes it out of the list and leaves the others in order.\<close>

lemma shift_down_result:
  assumes "i \<le> n" "n < length hs"
  shows "shift_down [i..<n] hs = take i hs @ take (n - i) (drop (Suc i) hs) @ drop n hs"
  using assms
proof (induction "n - i" arbitrary: i hs)
  case 0
  then show ?case by simp
next
  case (Suc d)
  then have i: "i < n" by simp
  let ?hs = "hs[i := hs ! Suc i]"
  have "shift_down [i..<n] hs = shift_down [Suc i..<n] ?hs" using i by (simp add: upt_rec)
  also have "\<dots> = take (Suc i) ?hs @ take (n - Suc i) (drop (Suc (Suc i)) ?hs) @ drop n ?hs"
    using Suc i by simp
  also have "\<dots> = take i hs @ (hs ! Suc i # take (n - Suc i) (drop (Suc (Suc i)) hs)) @ drop n hs"
    using i Suc.prems by (simp add: take_Suc_conv_app_nth)
  also have "hs ! Suc i # take (n - Suc i) (drop (Suc (Suc i)) hs) = take (n - i) (drop (Suc i) hs)"
  proof -
    have "drop (Suc i) hs = hs ! Suc i # drop (Suc (Suc i)) hs" using i Suc.prems by (simp add: Cons_nth_drop_Suc)
    moreover have "n - i = Suc (n - Suc i)" using i by simp
    ultimately show ?thesis by simp
  qed
  finally show ?case .
qed

definition without :: "nat \<Rightarrow> 'b list \<Rightarrow> 'b list" where
  "without i xs = take i xs @ drop (Suc i) xs"

lemma length_of_kind_without:
  assumes "i < length xs"
  shows "length (of_kind k xs) = length (of_kind k (without i xs)) + (if fst (xs ! i) = k then 1 else 0)"
proof -
  have "xs = take i xs @ xs ! i # drop (Suc i) xs" using assms by (rule id_take_nth_drop)
  then have "of_kind k xs = of_kind k (take i xs) @ of_kind k [xs ! i] @ of_kind k (drop (Suc i) xs)"
    by (metis append_Cons append_Nil of_kind_simps(2))
  then show ?thesis by (cases "xs ! i") (simp add: without_def)
qed

lemma remove_kind_removes:
  assumes ok: "executor_ok e" and d: "destroy_rmw_wait_set P = RCL_RET_OK" and x: "x \<noteq> 0"
    and typed: "\<forall>h \<in> set (used e). obj h = x \<longrightarrow> kind_of (htype h) = Some k"
    and r: "remove_kind P k x e a = (r, e', a')"
  shows "if x \<in> obj ` set (used e)
     then r = RCL_RET_OK \<and> executor_ok e' \<and>
       (\<exists>i < length (used e). obj (used e ! i) = x \<and> (\<forall>j < i. obj (used e ! j) \<noteq> x) \<and> used e' = without i (used e))
     else r = RCL_RET_ERROR \<and> e' = e"
proof -
  have len: "length (used e) = next_index e" "next_index e \<le> length (handles e)" using ok by (auto simp: used_def executor_ok_def)
  have nth: "i < next_index e \<Longrightarrow> handles e ! i = used e ! i" for i by (simp add: used_def)
  have ptr: "i < next_index e \<Longrightarrow> rclc_executor_handle_get_ptr (handles e ! i) = obj (used e ! i)" for i
    using ok nth [of i] len nth_mem [of i "used e"] by (auto simp: rclc_executor_handle_get_ptr_def executor_ok_def handle_ok_def)
  show ?thesis
  proof (cases "rclc_executor_find_handle x e")
    case None
    then have "\<forall>i < next_index e. obj (used e ! i) \<noteq> x" using ptr by (auto simp: rclc_executor_find_handle_def find_None_iff)
    then have "x \<notin> obj ` set (used e)" using len by (auto simp: in_set_conv_nth)
    then show ?thesis using r x None by (auto simp: remove_kind_def rclc_executor_remove_handle_def rcl_rets)
  next
    case (Some i)
    then obtain j where "j < next_index e" "i = [0..<next_index e] ! j" "x = rclc_executor_handle_get_ptr (handles e ! i)"
        "\<forall>l < j. x \<noteq> rclc_executor_handle_get_ptr (handles e ! ([0..<next_index e] ! l))"
      by (auto simp: rclc_executor_find_handle_def find_Some_iff)
    then have i: "i < next_index e" "obj (used e ! i) = x" "\<forall>j < i. obj (used e ! j) \<noteq> x" using ptr by auto
    let ?n = "next_index e - 1"
    let ?hs = "shift_down [i..<?n] (handles e)"
    have sd: "?hs = take i (handles e) @ take (?n - i) (drop (Suc i) (handles e)) @ drop ?n (handles e)"
      using i(1) len(2) by (intro shift_down_result) auto
    define A where "A = take i (handles e) @ take (?n - i) (drop (Suc i) (handles e))"
    have A: "length A = ?n" "?hs = A @ drop ?n (handles e)" using i(1) len(2) sd by (auto simp: A_def min_def)
    have "take i (handles e) = take i (used e)" using i(1) by (simp add: used_def min_def)
    moreover have "take (?n - i) (drop (Suc i) (handles e)) = drop (Suc i) (used e)" using i(1) by (simp add: used_def drop_take)
    ultimately have "A = without i (used e)" by (simp add: A_def without_def)
    then have tn: "take ?n ?hs = without i (used e)" unfolding A(2) using A(1) by simp
    have lh: "length ?hs = length (handles e)" using A i(1) len(2) by simp
    have "drop 1 (drop ?n ?hs) = drop 1 (drop ?n (handles e))" using A by simp
    then have dn: "drop (next_index e) ?hs = drop (next_index e) (handles e)" using i(1) by simp
    let ?z = "rclc_executor_handle_init (max_handles e) (?hs ! ?n)"
    let ?e = "e\<lparr>next_index := ?n, handles := ?hs[?n := ?z]\<rparr>"
    obtain r1 e1 a1 where s: "reset_wait_set P ?e a = (r1, e1, a1)" by (metis surj_pair)
    note rs = reset_wait_set_result [OF s]
    have r1: "r1 = RCL_RET_OK" using rs(3) d by simp
    have e': "r = RCL_RET_OK" "e' = e1\<lparr>info := (info e1)(k := info e1 k - 1)\<rparr>"
      using r x Some i(1) s r1 by (auto simp: remove_kind_def rclc_executor_remove_handle_def Let_def)
    obtain ws where e1: "e1 = ?e\<lparr>the_wait_set := ws\<rparr>" using rs(1) by blast
    have u: "used e' = without i (used e)" using e' e1 tn by (simp add: used_def)
    have h: "used e ! i \<in> set (used e)" using i(1) len by simp
    then have k: "kind_of (htype (used e ! i)) = Some k" using typed i(2) by blast
    have c: "counts e j = length (of_kind j (map ent (used e)))" for j using ok by (simp add: executor_ok_def)
    have w: "map ent (without i (used e)) = without i (map ent (used e))" by (simp add: without_def take_map drop_map)
    have lw: "length (of_kind j (map ent (used e))) = length (of_kind j (without i (map ent (used e)))) + (if j = k then 1 else 0)" for j
      using length_of_kind_without [of i "map ent (used e)" j] i(1) len k by (auto simp: ent_def)
    have cnt: "counts e' j = length (of_kind j (map ent (used e')))" for j
    proof (cases "j = k")
      case True
      then have p: "unat (info e k) > 0" using c [of k] lw [of k] by (simp add: counts_def)
      then have "info e k \<noteq> 0" by auto
      then have "unat (info e k - 1) = unat (info e k) - 1" by (simp add: unat_minus_one)
      then show ?thesis using True c [of k] lw [of k] u w e' e1 by (simp add: counts_def)
    next
      case False
      then show ?thesis using c [of j] lw [of j] u w e' e1 by (simp add: counts_def)
    qed
    have dr: "drop (next_index e') (handles e') = ?z # drop (next_index e) (handles e)"
    proof -
      have "?n < length ?hs" using lh i(1) len(2) by simp
      then have "drop ?n (?hs[?n := ?z]) = ?z # drop (Suc ?n) ?hs" by (simp add: drop_update_swap Cons_nth_drop_Suc flip: Cons_nth_drop_Suc)
      then show ?thesis using dn i(1) e' e1 by simp
    qed
    have sub: "set (used e') \<subseteq> set (used e)" unfolding u without_def by (auto dest: in_set_takeD in_set_dropD)
    have "\<not> rcl_wait_set_is_valid (the_wait_set e')" using rs(2) e' by simp
    then have "executor_ok e'"
      using ok cnt dr sub lh e' e1 i(1) unfolding executor_ok_def
      by (auto simp: rclc_executor_handle_init_def)
    moreover have "x \<in> obj ` set (used e)" using h i(2) by auto
    ultimately show ?thesis using e' u i len by auto
  qed
qed

text \<open>The operations on an executor, and the list of entities they stand for.\<close>

datatype executor_op =
  Add_Subscription u32 u32 u32 rclc_executor_handle_invocation
| Add_Subscription_With_Context u32 u32 u32 u32 rclc_executor_handle_invocation
| Add_Timer u32
| Add_Client u32 u32 u32
| Add_Client_With_Request_Id u32 u32 u32
| Add_Service u32 u32 u32 u32
| Add_Service_With_Context u32 u32 u32 u32 u32
| Add_Service_With_Request_Id u32 u32 u32 u32
| Add_Guard_Condition u32 u32
| Remove_Subscription u32
| Remove_Timer u32
| Remove_Client u32
| Remove_Service u32
| Remove_Guard_Condition u32

fun apply_op :: "'w ports \<Rightarrow> executor_op \<Rightarrow> executor \<Rightarrow> arena \<Rightarrow> int \<times> executor \<times> arena" where
  "apply_op P (Add_Subscription x m c i) = rclc_executor_add_subscription P x m c i"
| "apply_op P (Add_Subscription_With_Context x m c d i) = rclc_executor_add_subscription_with_context P x m c d i"
| "apply_op P (Add_Timer x) = rclc_executor_add_timer P x"
| "apply_op P (Add_Client x m c) = rclc_executor_add_client P x m c"
| "apply_op P (Add_Client_With_Request_Id x m c) = rclc_executor_add_client_with_request_id P x m c"
| "apply_op P (Add_Service x m n c) = rclc_executor_add_service P x m n c"
| "apply_op P (Add_Service_With_Context x m n c d) = rclc_executor_add_service_with_context P x m n c d"
| "apply_op P (Add_Service_With_Request_Id x m n c) = rclc_executor_add_service_with_request_id P x m n c"
| "apply_op P (Add_Guard_Condition x c) = rclc_executor_add_guard_condition P x c"
| "apply_op P (Remove_Subscription x) = rclc_executor_remove_subscription P x"
| "apply_op P (Remove_Timer x) = rclc_executor_remove_timer P x"
| "apply_op P (Remove_Client x) = rclc_executor_remove_client P x"
| "apply_op P (Remove_Service x) = rclc_executor_remove_service P x"
| "apply_op P (Remove_Guard_Condition x) = rclc_executor_remove_guard_condition P x"

text \<open>What an operation does to the list: add an entity at the end, given pointers that are not null, or remove one.\<close>

datatype list_op = Append entity u32 "u32 list" | Delete entity u32

fun list_op_of :: "executor_op \<Rightarrow> list_op" where
  "list_op_of (Add_Subscription x m c i) = Append Subscription x [m, c]"
| "list_op_of (Add_Subscription_With_Context x m c d i) = Append Subscription x [m, c]"
| "list_op_of (Add_Timer x) = Append Timer x []"
| "list_op_of (Add_Client x m c) = Append Client x [m, c]"
| "list_op_of (Add_Client_With_Request_Id x m c) = Append Client x [m, c]"
| "list_op_of (Add_Service x m n c) = Append Service x [m, n, c]"
| "list_op_of (Add_Service_With_Context x m n c d) = Append Service x [m, n, c]"
| "list_op_of (Add_Service_With_Request_Id x m n c) = Append Service x [m, n, c]"
| "list_op_of (Add_Guard_Condition x c) = Append GuardCondition x [c]"
| "list_op_of (Remove_Subscription x) = Delete Subscription x"
| "list_op_of (Remove_Timer x) = Delete Timer x"
| "list_op_of (Remove_Client x) = Delete Client x"
| "list_op_of (Remove_Service x) = Delete Service x"
| "list_op_of (Remove_Guard_Condition x) = Delete GuardCondition x"

fun list_apply :: "nat \<Rightarrow> list_op \<Rightarrow> (entity \<times> u32) list \<Rightarrow> int \<times> (entity \<times> u32) list" where
  "list_apply m (Append k x ps) xs =
     (if x = 0 \<or> 0 \<in> set ps then (RCL_RET_INVALID_ARGUMENT, xs)
      else if length xs < m then (RCL_RET_OK, xs @ [(k, x)]) else (RCL_RET_ERROR, xs))"
| "list_apply m (Delete k x) xs =
     (if x = 0 then (RCL_RET_INVALID_ARGUMENT, xs)
      else if (k, x) \<in> set xs then (RCL_RET_OK, remove1 (k, x) xs) else (RCL_RET_ERROR, xs))"

text \<open>A pointer is to an entity of the kind that the function is for.\<close>

fun typed_op :: "list_op \<Rightarrow> (entity \<times> u32) list \<Rightarrow> bool" where
  "typed_op (Append k x ps) xs = True"
| "typed_op (Delete k x) xs = list_all (\<lambda>y. snd y = x \<longrightarrow> fst y = k) xs"

lemma remove1_first:
  assumes "i < length xs" "xs ! i = y" "\<forall>j < i. xs ! j \<noteq> y"
  shows "remove1 y xs = without i xs"
proof -
  have "xs = take i xs @ y # drop (Suc i) xs" using assms(1,2) id_take_nth_drop by blast
  moreover have "y \<notin> set (take i xs)" using assms by (auto simp: in_set_conv_nth)
  ultimately show ?thesis unfolding without_def by (metis remove1.simps(2) remove1_append)
qed

lemma add_refines:
  assumes ok: "executor_ok e" and d: "destroy_rmw_wait_set P = RCL_RET_OK"
    and f: "\<And>h. kind_of (htype (set_fields h)) = Some k \<and> obj (set_fields h) = x \<and> data_available (set_fields h) = data_available h"
    and p: "x \<noteq> 0" "0 \<notin> set ps"
    and r: "add_handle P set_fields k e a = (r, e', a')"
  shows "executor_ok e' \<and> (r, map ent (used e')) = list_apply (max_handles e) (Append k x ps) (map ent (used e)) \<and> max_handles e' = max_handles e"
proof -
  have f': "kind_of (htype (set_fields h)) = Some k \<and> obj (set_fields h) \<noteq> 0 \<and> data_available (set_fields h) = data_available h" for h
    using f p by auto
  have n: "ent ((set_fields h)\<lparr>initialized := True\<rparr>) = (k, x)" for h using f by (simp add: ent_def)
  have l: "length (used e) = next_index e" using ok by (simp add: used_def executor_ok_def)
  have m: "max_handles e' = max_handles e"
    using r by (auto simp: add_handle_def Let_def reset_wait_set_def split: if_splits prod.splits)
  show ?thesis using add_handle_appends [OF ok d f' r] ok n p l m by (auto split: if_splits)
qed

lemma remove_handle_max:
  assumes "rclc_executor_remove_handle P i e a = (r, e', a')"
  shows "max_handles e' = max_handles e"
proof (cases "i = None \<or> the i \<ge> next_index e \<or> next_index e = 0")
  case True
  then show ?thesis using assms by (cases i) (auto simp: rclc_executor_remove_handle_def)
next
  case False
  then obtain f where f: "reset_wait_set P (e\<lparr>next_index := next_index e - 1, handles := f\<rparr>) a = (r, e', a')"
    using assms by (cases i) (auto simp: rclc_executor_remove_handle_def Let_def)
  show ?thesis using reset_wait_set_result(1) [OF f] by auto
qed

lemma remove_kind_max:
  assumes "remove_kind P k x e a = (r, e', a')"
  shows "max_handles e' = max_handles e"
proof -
  obtain r1 e1 a1 where h: "rclc_executor_remove_handle P (rclc_executor_find_handle x e) e a = (r1, e1, a1)" by (metis surj_pair)
  show ?thesis using assms remove_handle_max [OF h] h by (auto simp: remove_kind_def split: if_splits)
qed

lemma remove_refines:
  assumes ok: "executor_ok e" and d: "destroy_rmw_wait_set P = RCL_RET_OK"
    and t: "typed_op (Delete k x) (map ent (used e))" and r: "remove_kind P k x e a = (r, e', a')"
  shows "executor_ok e' \<and> (r, map ent (used e')) = list_apply (max_handles e) (Delete k x) (map ent (used e)) \<and> max_handles e' = max_handles e"
proof (cases "x = 0")
  case True
  then show ?thesis using ok r by (simp add: remove_kind_def)
next
  case False
  have ht: "h \<in> set (used e) \<Longrightarrow> \<exists>j. kind_of (htype h) = Some j" for h using ok by (auto simp: executor_ok_def handle_ok_def)
  have ty: "\<forall>h \<in> set (used e). obj h = x \<longrightarrow> kind_of (htype h) = Some k"
    using t ht by (fastforce simp: list_all_iff ent_def)
  have m: "max_handles e' = max_handles e" using remove_kind_max [OF r] .
  have mem: "(k, x) \<in> set (map ent (used e)) \<longleftrightarrow> x \<in> obj ` set (used e)"
  proof
    assume "(k, x) \<in> set (map ent (used e))"
    then obtain h where "h \<in> set (used e)" "ent h = (k, x)" by auto
    then show "x \<in> obj ` set (used e)" by (auto simp: ent_def)
  next
    assume "x \<in> obj ` set (used e)"
    then obtain h where h: "h \<in> set (used e)" "obj h = x" by blast
    then have "ent h = (k, x)" using ty by (simp add: ent_def)
    then show "(k, x) \<in> set (map ent (used e))" using h(1) by (metis image_eqI set_map)
  qed
  note rr = remove_kind_removes [OF ok d False ty r]
  show ?thesis
  proof (cases "x \<in> obj ` set (used e)")
    case True
    then obtain i where i: "i < length (used e)" "obj (used e ! i) = x" "\<forall>j < i. obj (used e ! j) \<noteq> x" "used e' = without i (used e)"
      and ok': "r = RCL_RET_OK" "executor_ok e'" using rr by auto
    have "kind_of (htype (used e ! i)) = Some k" using ty i(1,2) by simp
    then have "remove1 (k, x) (map ent (used e)) = without i (map ent (used e))"
      using i by (intro remove1_first) (auto simp: ent_def)
    then show ?thesis using ok' i(4) m mem True False by (simp add: without_def take_map drop_map)
  next
    case no: False
    then show ?thesis using rr ok mem False by simp
  qed
qed

lemma add_case:
  assumes ok: "executor_ok e" "destroy_rmw_wait_set P = RCL_RET_OK"
    and r: "(if bad then (RCL_RET_INVALID_ARGUMENT, e, a) else add_handle P set_fields k e a) = (r, e', a')"
    and f: "\<And>h. kind_of (htype (set_fields h)) = Some k \<and> obj (set_fields h) = x \<and> data_available (set_fields h) = data_available h"
    and b: "bad \<longleftrightarrow> x = 0 \<or> 0 \<in> set ps"
  shows "executor_ok e' \<and> (r, map ent (used e')) = list_apply (max_handles e) (Append k x ps) (map ent (used e)) \<and> max_handles e' = max_handles e"
proof (cases bad)
  case True
  then show ?thesis using r b ok by auto
next
  case False
  then show ?thesis using add_refines [OF ok f, of ps a r e' a'] r b by auto
qed

lemmas adder_defs = rclc_executor_add_subscription_def rclc_executor_add_subscription_with_context_def rclc_executor_add_timer_def
  rclc_executor_add_client_def rclc_executor_add_client_with_request_id_def rclc_executor_add_service_def
  rclc_executor_add_service_with_context_def rclc_executor_add_service_with_request_id_def rclc_executor_add_guard_condition_def

lemmas remover_defs = rclc_executor_remove_subscription_def rclc_executor_remove_timer_def rclc_executor_remove_client_def
  rclc_executor_remove_service_def rclc_executor_remove_guard_condition_def

text \<open>C6.
  Every operation does to the executor what it does to a list of entities, with the same result: a handle is added at the end while
  there is room, removing takes out the first handle of the entity and keeps the others in their order, a null pointer or an unknown
  entity changes nothing.  The invariant is kept: the counts, from which the wait set is made, are those of the list.
\<close>

theorem executor_list_refines:
  assumes "executor_ok e" "destroy_rmw_wait_set P = RCL_RET_OK" "typed_op (list_op_of q) (map ent (used e))" "apply_op P q e a = (r, e', a')"
  shows "executor_ok e' \<and> (r, map ent (used e')) = list_apply (max_handles e) (list_op_of q) (map ent (used e)) \<and> max_handles e' = max_handles e"
proof (cases q)
  case (Add_Subscription x m c i)
  show ?thesis unfolding Add_Subscription list_op_of.simps
    by (rule add_case [OF assms(1,2) assms(4) [unfolded Add_Subscription apply_op.simps adder_defs]]) auto
next
  case (Add_Subscription_With_Context x m c d i)
  show ?thesis unfolding Add_Subscription_With_Context list_op_of.simps
    by (rule add_case [OF assms(1,2) assms(4) [unfolded Add_Subscription_With_Context apply_op.simps adder_defs]]) auto
next
  case (Add_Timer x)
  show ?thesis unfolding Add_Timer list_op_of.simps
    by (rule add_case [OF assms(1,2) assms(4) [unfolded Add_Timer apply_op.simps adder_defs]]) auto
next
  case (Add_Client x m c)
  show ?thesis unfolding Add_Client list_op_of.simps
    by (rule add_case [OF assms(1,2) assms(4) [unfolded Add_Client apply_op.simps adder_defs]]) auto
next
  case (Add_Client_With_Request_Id x m c)
  show ?thesis unfolding Add_Client_With_Request_Id list_op_of.simps
    by (rule add_case [OF assms(1,2) assms(4) [unfolded Add_Client_With_Request_Id apply_op.simps adder_defs]]) auto
next
  case (Add_Service x m n c)
  show ?thesis unfolding Add_Service list_op_of.simps
    by (rule add_case [OF assms(1,2) assms(4) [unfolded Add_Service apply_op.simps adder_defs]]) auto
next
  case (Add_Service_With_Context x m n c d)
  show ?thesis unfolding Add_Service_With_Context list_op_of.simps
    by (rule add_case [OF assms(1,2) assms(4) [unfolded Add_Service_With_Context apply_op.simps adder_defs]]) auto
next
  case (Add_Service_With_Request_Id x m n c)
  show ?thesis unfolding Add_Service_With_Request_Id list_op_of.simps
    by (rule add_case [OF assms(1,2) assms(4) [unfolded Add_Service_With_Request_Id apply_op.simps adder_defs]]) auto
next
  case (Add_Guard_Condition x c)
  show ?thesis unfolding Add_Guard_Condition list_op_of.simps
    by (rule add_case [OF assms(1,2) assms(4) [unfolded Add_Guard_Condition apply_op.simps adder_defs]]) auto
next
  case (Remove_Subscription x)
  then show ?thesis using remove_refines [OF assms(1,2)] assms(3,4) by (simp only: list_op_of.simps apply_op.simps remover_defs)
next
  case (Remove_Timer x)
  then show ?thesis using remove_refines [OF assms(1,2)] assms(3,4) by (simp only: list_op_of.simps apply_op.simps remover_defs)
next
  case (Remove_Client x)
  then show ?thesis using remove_refines [OF assms(1,2)] assms(3,4) by (simp only: list_op_of.simps apply_op.simps remover_defs)
next
  case (Remove_Service x)
  then show ?thesis using remove_refines [OF assms(1,2)] assms(3,4) by (simp only: list_op_of.simps apply_op.simps remover_defs)
next
  case (Remove_Guard_Condition x)
  then show ?thesis using remove_refines [OF assms(1,2)] assms(3,4) by (simp only: list_op_of.simps apply_op.simps remover_defs)
qed

definition ex_sub :: rclc_handle where
  "ex_sub = \<lparr>htype = SUBSCRIPTION, invocation = ON_NEW_DATA, obj = 5, data_msg = 7, data_response_msg = 0, hcallback = 9,
     callback_context = 0, req_id = 0, hindex = 1, initialized = True, data_available = False\<rparr>"

definition ex_executor :: "rclc_executor_semantics \<Rightarrow> executor" where
  "ex_executor m = \<lparr>ctx = 1, handles = [ex_sub], handles_block = 1, max_handles = 1, next_index = 1, has_allocator = True,
     the_wait_set = rcl_get_zero_initialized_wait_set, info = (\<lambda>k. if k = Subscription then 1 else 0), timeout_ns = 1000000,
     invocation_time = 0, trigger_function = Some rclc_executor_trigger_any, trigger_object = 0, data_comm_semantics = m\<rparr>"

definition ex_ports :: "unit ports" where
  "ex_ports = \<lparr>context_valid = True, create_rmw_wait_set = 1, destroy_rmw_wait_set = RCL_RET_OK, handle_of = (\<lambda>k x. x + 1),
     receive = (\<lambda>_ m. m\<lparr>buffered := (\<lambda>x. x = 6)\<rparr>), time_after = (\<lambda>t. t), sleep_ms = (\<lambda>_ t. t),
     take_data = (\<lambda>k x m w. (RCL_RET_OK, 0, w)), send_response = (\<lambda>x i m w. (RCL_RET_OK, w)), run_callback = (\<lambda>c w. w)\<rparr>"

definition ex_world :: world where
  "ex_world = \<lparr>world_timers = Map.empty, world_mw = \<lparr>buffered = (\<lambda>_. False), gc_triggered = (\<lambda>_. False)\<rparr>,
     world_clock = ex_ros [] 100, world_time = ticks 0\<rparr>"

lemma ex_executor_ok: "executor_ok (ex_executor m)"
proof -
  have u: "used (ex_executor m) = [ex_sub]" by (simp add: used_def ex_executor_def)
  show ?thesis
    unfolding executor_ok_def u
    by (simp add: ex_executor_def ex_sub_def handle_ok_def counts_def ent_def rcl_wait_set_is_valid_def rcl_get_zero_initialized_wait_set_def)
qed

theorem executor_list_refines_witness:
  "case apply_op ex_ports (Remove_Subscription 5) (ex_executor LET) (new_arena []) of (r, e', a') \<Rightarrow>
     r = RCL_RET_OK \<and> used e' = [] \<and>
     (case apply_op ex_ports (Add_Timer 16) e' a' of (r2, e2, a2) \<Rightarrow> r2 = RCL_RET_OK \<and> map ent (used e2) = [(Timer, 16)] \<and>
        (case apply_op ex_ports (Add_Guard_Condition 8 9) e2 a2 of (r3, e3, a3) \<Rightarrow> r3 = RCL_RET_ERROR \<and> map ent (used e3) = [(Timer, 16)]))"
proof -
  have d: "destroy_rmw_wait_set ex_ports = RCL_RET_OK" by (simp add: ex_ports_def)
  have u: "map ent (used (ex_executor LET)) = [(Subscription, 5)]" "max_handles (ex_executor LET) = 1"
    by (simp_all add: used_def ex_executor_def ex_sub_def ent_def)
  obtain r e' a' where 1: "apply_op ex_ports (Remove_Subscription 5) (ex_executor LET) (new_arena []) = (r, e', a')" by (metis surj_pair)
  have e1: "executor_ok e'" "r = RCL_RET_OK" "map ent (used e') = []" "max_handles e' = 1"
    using executor_list_refines [OF ex_executor_ok d _ 1] u by simp_all
  obtain r2 e2 a2 where 2: "apply_op ex_ports (Add_Timer 16) e' a' = (r2, e2, a2)" by (metis surj_pair)
  have e2: "executor_ok e2" "r2 = RCL_RET_OK" "map ent (used e2) = [(Timer, 16)]" "max_handles e2 = 1"
    using executor_list_refines [OF e1(1) d _ 2] e1 by simp_all
  obtain r3 e3 a3 where 3: "apply_op ex_ports (Add_Guard_Condition 8 9) e2 a2 = (r3, e3, a3)" by (metis surj_pair)
  have e3: "r3 = RCL_RET_ERROR" "map ent (used e3) = [(Timer, 16)]"
    using executor_list_refines [OF e2(1) d _ 3] e2 by simp_all
  show ?thesis unfolding 1 prod.case using e1 e2 e3 2 3 by simp
qed

end
