(* ===== verification/Rclc_Executor_Turn.thy ===== *)
theory Rclc_Executor_Turn
  imports Rclc_Executor_Props
begin

text \<open>
  A turn of the executor: which events it shows, under each of the two semantics.
\<close>

subsection \<open>Putting the handles into the wait set\<close>

fun placed :: "(entity \<times> u32) list \<Rightarrow> rclc_handle list \<Rightarrow> rclc_handle list" where
  "placed xs [] = []"
| "placed xs (h # hs) = h\<lparr>hindex := length (of_kind (fst (ent h)) xs)\<rparr> # placed (xs @ [ent h]) hs"

lemma ent_upd [simp]:
  "ent (h\<lparr>hindex := i\<rparr>) = ent h" "ent (h\<lparr>data_available := b\<rparr>) = ent h" "ent (h\<lparr>req_id := r\<rparr>) = ent h"
  by (simp_all add: ent_def)

lemma handle_ok_upd [simp]:
  "handle_ok (h\<lparr>hindex := i\<rparr>) = handle_ok h" "handle_ok (h\<lparr>data_available := b\<rparr>) = handle_ok h" "handle_ok (h\<lparr>req_id := r\<rparr>) = handle_ok h"
  by (simp_all add: handle_ok_def)

lemma put_handles_run:
  assumes "filled n (handle_of P) xs ws" "\<forall>h \<in> set us. handle_ok h \<and> handle_of P (fst (ent h)) (obj h) \<noteq> 0"
    "\<forall>k. length (of_kind k (xs @ map ent us)) \<le> n k" "\<forall>h \<in> set vs. \<not> initialized h"
  shows "\<exists>ws'. put_handles P (us @ vs) ws = (RCL_RET_OK, placed xs us @ vs, ws') \<and> filled n (handle_of P) (xs @ map ent us) ws'"
  using assms
proof (induction us arbitrary: xs ws)
  case Nil
  then show ?case by (cases vs) auto
next
  case (Cons h us)
  obtain k where k: "kind_of (htype h) = Some k" using Cons.prems(2) by (auto simp: handle_ok_def)
  have e: "ent h = (k, obj h)" using k by (simp add: ent_def)
  have h: "initialized h" "obj h \<noteq> 0" "handle_of P k (obj h) \<noteq> 0" using Cons.prems(2) e by (auto simp: handle_ok_def)
  have fit: "length (of_kind k xs) < n k" using Cons.prems(3) [THEN spec, of k] e by simp
  obtain ws1 where p: "put_handle P h ws = (RCL_RET_OK, h\<lparr>hindex := length (of_kind k xs)\<rparr>, ws1)"
    and f1: "filled n (handle_of P) (xs @ [(k, obj h)]) ws1"
  proof (cases "k = Timer")
    case True
    then show ?thesis using add_timer_fills [OF Cons.prems(1), of "obj h"] fit h k that by (auto simp: put_handle_def)
  next
    case False
    then show ?thesis using add_fills [OF Cons.prems(1) False fit h(2,3)] k that by (auto simp: put_handle_def)
  qed
  obtain ws' where "put_handles P (us @ vs) ws1 = (RCL_RET_OK, placed (xs @ [ent h]) us @ vs, ws')"
    "filled n (handle_of P) (xs @ map ent (h # us)) ws'"
    using Cons.IH [of "xs @ [ent h]" ws1] Cons.prems f1 e by auto
  then show ?case using p h(1) e by simp
qed

lemma placed_at:
  assumes "h' \<in> set (placed xs us)"
  shows "hindex h' < length (of_kind (fst (ent h')) (xs @ map ent us)) \<and> of_kind (fst (ent h')) (xs @ map ent us) ! hindex h' = obj h'"
  using assms
proof (induction us arbitrary: xs)
  case (Cons h us)
  show ?case
  proof (cases "h' \<in> set (placed (xs @ [ent h]) us)")
    case True
    show ?thesis using Cons.IH [OF True] by (cases "ent h") (auto split: if_splits)
  next
    case False
    then have "h' = h\<lparr>hindex := length (of_kind (fst (ent h)) xs)\<rparr>" using Cons.prems by simp
    moreover have "ent h = (fst (ent h), obj h)" by (simp add: ent_def)
    ultimately show ?thesis by (cases "ent h") (simp add: nth_append)
  qed
qed simp

lemma placed_upd: "\<exists>f. placed xs us = map (\<lambda>(h, i). h\<lparr>hindex := i\<rparr>) (zip us f) \<and> length f = length us"
proof (induction us arbitrary: xs)
  case (Cons h us)
  then obtain f where "placed (xs @ [ent h]) us = map (\<lambda>(h, i). h\<lparr>hindex := i\<rparr>) (zip us f)" "length f = length us" by blast
  then show ?case by (intro exI [of _ "length (of_kind (fst (ent h)) xs) # f"]) simp
qed simp

subsection \<open>Looking for data\<close>

definition flag :: "wait_set \<Rightarrow> rclc_handle \<Rightarrow> rclc_handle" where
  "flag ws h = (if in_wait_set ws h then h\<lparr>data_available := True\<rparr> else h)"

lemma check_all_run:
  assumes "\<forall>h \<in> set us. initialized h \<and> rclc_check_for_new_data ws w h = (RCL_RET_OK, flag ws h)" "\<forall>h \<in> set vs. \<not> initialized h"
  shows "check_all ws w RCL_RET_OK (us @ vs) = (RCL_RET_OK, map (flag ws) us @ vs)"
  using assms
proof (induction us)
  case Nil
  then show ?case by (cases vs) auto
qed simp

lemma trigger_any_run:
  assumes "\<forall>h \<in> set us. initialized h" "\<forall>h \<in> set vs. \<not> initialized h" "length us \<le> m"
  shows "rclc_executor_trigger_any (us @ vs) m x \<longleftrightarrow> (\<exists>h \<in> set us. data_available h)"
  using assms
proof (induction us arbitrary: m)
  case Nil
  then show ?case by (cases vs; cases m) auto
next
  case (Cons h us)
  then show ?case by (cases m) auto
qed

subsection \<open>Taking data and calling back\<close>

text \<open>
  The events of a handle: \<open>ready\<close> whether it is in the wait set, \<open>rc\<close> what taking its data gave and \<open>rid\<close> the request's number.
\<close>

definition takes :: "bool \<Rightarrow> rclc_handle \<Rightarrow> bool" where
  "takes ready h \<longleftrightarrow> ready \<and> fst (ent h) \<in> {Subscription, Service, Client}"

definition after_take :: "bool \<Rightarrow> rclc_handle \<Rightarrow> int \<Rightarrow> int \<Rightarrow> rclc_handle" where
  "after_take ready h rc rid = h\<lparr>data_available := ready \<and> (takes ready h \<longrightarrow> rc = RCL_RET_OK),
     req_id := if takes ready h \<and> fst (ent h) \<noteq> Subscription then rid else req_id h\<rparr>"

definition take_events :: "bool \<Rightarrow> rclc_handle \<Rightarrow> int \<Rightarrow> event list" where
  "take_events ready h rc = (if takes ready h then [Took (fst (ent h)) (obj h) rc] else [])"

definition call_events :: "bool \<Rightarrow> rclc_handle \<Rightarrow> int \<Rightarrow> int \<Rightarrow> event list" where
  "call_events ready h rc rid =
     (let h' = after_take ready h rc rid
      in if data_available h' \<or> invocation h = ALWAYS
         then (case fst (ent h) of
                 Timer \<Rightarrow> [Fired (obj h)]
               | Service \<Rightarrow> [Ran (call_of h'), Responded (obj h) RCL_RET_OK]
               | _ \<Rightarrow> [Ran (call_of h')])
         else [])"

definition turn_events :: "bool \<Rightarrow> rclc_handle \<Rightarrow> int \<Rightarrow> int \<Rightarrow> event list" where
  "turn_events ready h rc rid = take_events ready h rc @ call_events ready h rc rid"

text \<open>Only a subscription fails with \<open>RCL_RET_SUBSCRIPTION_TAKE_FAILED\<close>, only a service with \<open>RCL_RET_SERVICE_TAKE_FAILED\<close>.\<close>

definition takes_typed :: "'w ports \<Rightarrow> bool" where
  "takes_typed P \<longleftrightarrow> (\<forall>k x m w. (fst (take_data P k x m w) = RCL_RET_SUBSCRIPTION_TAKE_FAILED \<longrightarrow> k = Subscription) \<and>
     (fst (take_data P k x m w) = RCL_RET_SERVICE_TAKE_FAILED \<longrightarrow> k = Service))"

definition tolerated :: "int \<Rightarrow> bool" where
  "tolerated rc \<longleftrightarrow> rc = RCL_RET_OK \<or> rc = RCL_RET_SUBSCRIPTION_TAKE_FAILED \<or> rc = RCL_RET_SERVICE_TAKE_FAILED"

lemma execute_events:
  assumes k: "kind_of (htype h) = Some k" and r: "rclc_execute P h s = (RCL_RET_OK, h', s')"
  shows "h' = h\<lparr>data_available := False\<rparr> \<and>
    snd s' = snd s @ (if invoke_callback h then (case k of Timer \<Rightarrow> [Fired (obj h)]
       | Service \<Rightarrow> [Ran (call_of h), Responded (obj h) RCL_RET_OK] | _ \<Rightarrow> [Ran (call_of h)]) else [])"
proof (cases "invoke_callback h")
  case False
  then show ?thesis using r by (auto simp: rclc_execute_def)
next
  case True
  show ?thesis
  proof (cases k)
    case Timer
    then show ?thesis using r k True by (auto simp: rclc_execute_def Let_def split: prod.splits if_splits option.splits)
  next
    case Service
    then show ?thesis using r k True by (auto simp: rclc_execute_def ran_def split: prod.splits if_splits)
  qed (use r k True in \<open>auto simp: rclc_execute_def ran_def\<close>)
qed

lemma take_effect:
  assumes h: "handle_ok h" "data_available h = in_wait_set ws h" and P: "takes_typed P"
    and t: "rclc_take_new_data P ws h s = (rc, h1, s1)" "tolerated rc"
  shows "\<exists>rc rid. snd s1 = snd s @ take_events (in_wait_set ws h) h rc \<and> h1 = after_take (in_wait_set ws h) h rc rid"
proof -
  obtain k where k: "kind_of (htype h) = Some k" using h(1) by (auto simp: handle_ok_def)
  have e: "fst (ent h) = k" using k by (simp add: ent_def)
  show ?thesis
  proof (cases "takes (in_wait_set ws h) h")
    case False
    then have 1: "rc = RCL_RET_OK" "h1 = h" "s1 = s" using t(1) k e by (auto simp: rclc_take_new_data_def takes_def)
    have "h\<lparr>data_available := data_available h, req_id := req_id h\<rparr> = h" by simp
    then have "h1 = after_take (in_wait_set ws h) h 0 0" using False 1 h(2) by (simp add: after_take_def)
    then show ?thesis using 1 False by (auto simp: take_events_def)
  next
    case True
    then have kt: "k \<in> {Subscription, Service, Client}" "in_wait_set ws h" using e by (auto simp: takes_def)
    obtain rid w where d: "take_data P k (obj h) (data_msg h) (fst s) = (rc, rid, w)"
      using t(1) k kt by (cases "take_data P k (obj h) (data_msg h) (fst s)") (auto simp: rclc_take_new_data_def Let_def)
    let ?h = "if k \<noteq> Subscription then h\<lparr>req_id := rid\<rparr> else h"
    have 1: "s1 = (w, snd s @ [Took k (obj h) rc])"
      "h1 = (if rc \<noteq> RCL_RET_OK \<and> k \<noteq> Client \<and> rc = take_failed k then ?h\<lparr>data_available := False\<rparr> else ?h)"
      using t(1) k kt d by (auto simp: rclc_take_new_data_def Let_def)
    have "fst (take_data P k (obj h) (data_msg h) (fst s)) = rc" using d by simp
    then have tt: "rc = RCL_RET_SUBSCRIPTION_TAKE_FAILED \<longrightarrow> k = Subscription" "rc = RCL_RET_SERVICE_TAKE_FAILED \<longrightarrow> k = Service"
      using P unfolding takes_typed_def by blast+
    have 2: "rc \<noteq> RCL_RET_OK \<Longrightarrow> k \<noteq> Client \<and> rc = take_failed k"
      using t(2) tt by (auto simp: tolerated_def take_failed_def)
    have 3: "h1 = h\<lparr>data_available := rc = RCL_RET_OK, req_id := if k \<noteq> Subscription then rid else req_id h\<rparr>"
      using 1(2) 2 kt h(2) by (cases "rc = RCL_RET_OK") auto
    show ?thesis using 1(1) 3 True kt e by (intro exI [of _ rc] exI [of _ rid]) (simp add: take_events_def after_take_def)
  qed
qed

lemma call_effect:
  assumes h: "handle_ok h" and x: "rclc_execute P (after_take r h rc rid) s = (RCL_RET_OK, h2, s2)"
  shows "snd s2 = snd s @ call_events r h rc rid \<and> h2 = (after_take r h rc rid)\<lparr>data_available := False\<rparr>"
proof -
  obtain k where k: "kind_of (htype h) = Some k" using h by (auto simp: handle_ok_def)
  have e: "fst (ent h) = k" using k by (simp add: ent_def)
  let ?h = "after_take r h rc rid"
  have f: "kind_of (htype ?h) = Some k" "obj ?h = obj h" "invocation ?h = invocation h" using k by (simp_all add: after_take_def)
  have iv: "invoke_callback ?h \<longleftrightarrow> data_available ?h \<or> invocation h = ALWAYS"
    unfolding invoke_callback_def f(3) by (cases "invocation h") simp_all
  show ?thesis using execute_events [OF f(1) x] unfolding call_events_def Let_def e iv f(2) by simp
qed

lemma handle_turn:
  assumes h: "handle_ok h" "data_available h = in_wait_set ws h" and P: "takes_typed P"
    and t: "rclc_take_new_data P ws h s = (rc, h1, s1)" "tolerated rc" and x: "rclc_execute P h1 s1 = (RCL_RET_OK, h2, s2)"
  shows "\<exists>rc rid i. snd s2 = snd s @ turn_events (in_wait_set ws h) h rc rid \<and> h2 = h\<lparr>req_id := i, data_available := False\<rparr>"
proof -
  obtain rc' rid where 1: "snd s1 = snd s @ take_events (in_wait_set ws h) h rc'" "h1 = after_take (in_wait_set ws h) h rc' rid"
    using take_effect [OF h P t] by blast
  note 2 = call_effect [OF h(1) x [unfolded 1(2)]]
  have "\<exists>i. h2 = h\<lparr>req_id := i, data_available := False\<rparr>"
    by (rule exI [of _ "if takes (in_wait_set ws h) h \<and> fst (ent h) \<noteq> Subscription then rid else req_id h"]) (simp add: 2 after_take_def)
  then show ?thesis using 1(1) 2 by (auto simp: turn_events_def)
qed

lemma take_and_execute_run:
  assumes "\<forall>h \<in> set us. handle_ok h \<and> data_available h = in_wait_set ws h" "\<forall>h \<in> set vs. \<not> initialized h" "takes_typed P"
    "take_and_execute_all P ws RCL_RET_OK (us @ vs) s = (RCL_RET_OK, hs', s')"
  shows "\<exists>ess is. hs' = map (\<lambda>(h, i). h\<lparr>req_id := i, data_available := False\<rparr>) (zip us is) @ vs \<and> length is = length us \<and>
     list_all2 (\<lambda>h es. \<exists>rc rid. es = turn_events (in_wait_set ws h) h rc rid) us ess \<and> snd s' = snd s @ concat ess"
  using assms
proof (induction us arbitrary: s hs')
  case Nil
  then show ?case by (cases vs) auto
next
  case (Cons h us)
  have h: "handle_ok h" "data_available h = in_wait_set ws h" "initialized h" using Cons.prems(1) by (auto simp: handle_ok_def)
  obtain rc h1 s1 where t: "rclc_take_new_data P ws h s = (rc, h1, s1)" by (metis surj_pair)
  obtain rc2 h2 s2 where x: "rclc_execute P h1 s1 = (rc2, h2, s2)" by (metis surj_pair)
  obtain rc3 hs3 s3 where a: "take_and_execute_all P ws rc2 (us @ vs) s2 = (rc3, hs3, s3)" by (metis surj_pair)
  have r: "tolerated rc" "rc2 = RCL_RET_OK" "rc3 = RCL_RET_OK" "hs' = h2 # hs3" "s' = s3"
    using Cons.prems(4) h(3) t x a by (auto simp: tolerated_def rcl_rets split: if_splits)
  obtain rc rid i where 1: "snd s2 = snd s @ turn_events (in_wait_set ws h) h rc rid" "h2 = h\<lparr>req_id := i, data_available := False\<rparr>"
    using handle_turn [OF h(1,2) Cons.prems(3) t r(1)] x r(2) by blast
  obtain ess "is" where 2: "hs3 = map (\<lambda>(h, i). h\<lparr>req_id := i, data_available := False\<rparr>) (zip us is) @ vs" "length is = length us"
    "list_all2 (\<lambda>h es. \<exists>rc rid. es = turn_events (in_wait_set ws h) h rc rid) us ess" "snd s3 = snd s2 @ concat ess"
    using Cons.IH [of s2 hs3] Cons.prems(1-3) a r by auto
  show ?case
    by (intro exI [of _ "turn_events (in_wait_set ws h) h rc rid # ess"] exI [of _ "i # is"]) (use 1 2 r in auto)
qed

subsection \<open>A whole turn\<close>

lemma init_refused:
  assumes "rcl_wait_set_init cv created destroyed n rcl_get_zero_initialized_wait_set a = (r, ws, a')" "r \<noteq> RCL_RET_OK"
  shows "ws_impl ws = 0"
proof -
  have z: "ws_impl rcl_get_zero_initialized_wait_set = 0" by (simp add: rcl_get_zero_initialized_wait_set_def)
  have c: "wait_set_clean_up w b = (v, d) \<Longrightarrow> ws_impl v = 0" for w b v d
    by (auto simp: wait_set_clean_up_def split: prod.splits)
  show ?thesis
    using assms z by (auto simp: rcl_wait_set_init_def Let_def rcl_wait_set_is_valid_def split: if_splits prod.splits dest: c)
qed

lemma prepare_sized:
  assumes ok: "executor_ok e" and p: "rclc_executor_prepare P e a = (r, e', a')"
  shows "\<exists>ws. e' = e\<lparr>the_wait_set := ws\<rparr> \<and> (ws_impl ws \<noteq> 0 \<longrightarrow> sized (counts e) ws)"
proof (cases "rcl_wait_set_is_valid (the_wait_set e)")
  case True
  then show ?thesis using p ok by (intro exI [of _ "the_wait_set e"]) (simp add: rclc_executor_prepare_def executor_ok_def)
next
  case False
  obtain r0 ws0 a0 where f: "rcl_wait_set_fini (destroy_rmw_wait_set P) (the_wait_set e) a = (r0, ws0, a0)" by (metis surj_pair)
  obtain rc ws a1 where i: "rcl_wait_set_init (context_valid P) (create_rmw_wait_set P) (destroy_rmw_wait_set P) (\<lambda>k. unat (info e k))
      rcl_get_zero_initialized_wait_set a0 = (rc, ws, a1)" by (metis surj_pair)
  have c: "(\<lambda>k. unat (info e k)) = counts e" by (simp add: counts_def fun_eq_iff)
  have "ws_impl ws \<noteq> 0 \<Longrightarrow> sized (counts e) ws"
    using init_refused [OF i] init_sized i unfolding c by (cases "rc = RCL_RET_OK") auto
  then show ?thesis using p False f i by (auto simp: rclc_executor_prepare_def)
qed

lemma call_of_hindex [simp]: "call_of (h\<lparr>hindex := i\<rparr>) = call_of h"
  by (cases "htype h") (simp_all add: call_of_def)

lemma after_take_upd [simp]:
  "after_take r (h\<lparr>hindex := i\<rparr>) rc rid = (after_take r h rc rid)\<lparr>hindex := i\<rparr>"
  "after_take r (h\<lparr>data_available := b\<rparr>) rc rid = after_take r h rc rid"
  by (simp_all add: after_take_def takes_def)

lemma take_events_upd [simp]:
  "take_events r (h\<lparr>hindex := i\<rparr>) rc = take_events r h rc" "take_events r (h\<lparr>data_available := b\<rparr>) rc = take_events r h rc"
  by (simp_all add: take_events_def takes_def)

lemma call_events_upd [simp]:
  "call_events r (h\<lparr>hindex := i\<rparr>) rc rid = call_events r h rc rid" "call_events r (h\<lparr>data_available := b\<rparr>) rc rid = call_events r h rc rid"
  by (simp_all add: call_events_def Let_def cong: entity.case_cong)

lemma turn_events_upd [simp]:
  "turn_events r (h\<lparr>hindex := i\<rparr>) rc rid = turn_events r h rc rid" "turn_events r (h\<lparr>data_available := b\<rparr>) rc rid = turn_events r h rc rid"
  by (simp_all add: turn_events_def)

lemma in_wait_set_upd [simp]: "in_wait_set ws (h\<lparr>data_available := b\<rparr>) = in_wait_set ws h"
  by (simp add: in_wait_set_def split: option.split)

lemma kind_ent: "handle_ok h \<Longrightarrow> kind_of (htype h) = Some (fst (ent h))"
  by (auto simp: handle_ok_def ent_def)

text \<open>What the handles look like after a turn: only the places in the wait set, the requests' numbers and the flags differ.\<close>

definition same_handles :: "rclc_handle list \<Rightarrow> rclc_handle list \<Rightarrow> bool" where
  "same_handles us us' \<longleftrightarrow> list_all2 (\<lambda>h h'. \<exists>i r b. h' = h\<lparr>hindex := i, req_id := r, data_available := b\<rparr>) us us'"

lemma same_handles_keep:
  assumes "same_handles us us'"
  shows "length us' = length us \<and> map ent us' = map ent us \<and> ((\<forall>h \<in> set us. handle_ok h) \<longrightarrow> (\<forall>h \<in> set us'. handle_ok h))"
  using assms unfolding same_handles_def
proof (induction rule: list_all2_induct)
  case (Cons h us h' us')
  then obtain i r b where "h' = h\<lparr>hindex := i, req_id := r, data_available := b\<rparr>" by blast
  then have "ent h' = ent h" "handle_ok h' = handle_ok h" by (simp_all add: ent_def handle_ok_def)
  then show ?case using Cons.IH by simp
qed simp

lemma executor_ok_turn:
  assumes ok: "executor_ok e" and h: "handles e' = us' @ drop (next_index e) (handles e)" "same_handles (used e) us'"
    and s: "max_handles e' = max_handles e" "next_index e' = next_index e" "info e' = info e"
    and w: "rcl_wait_set_is_valid (the_wait_set e') \<Longrightarrow> sized (counts e) (the_wait_set e')"
  shows "executor_ok e' \<and> used e' = us'"
proof -
  note k = same_handles_keep [OF h(2)]
  have l: "length us' = next_index e" using k ok by (simp add: used_def executor_ok_def)
  have u: "used e' = us'" using l s(2) h(1) by (simp add: used_def)
  have d: "drop (next_index e') (handles e') = drop (next_index e) (handles e)" using l s(2) h(1) by simp
  have c: "counts e' = counts e" by (simp add: counts_def fun_eq_iff s(3))
  have "length (handles e') = max_handles e'" using ok l h(1) s by (simp add: executor_ok_def)
  moreover have "\<forall>h \<in> set (used e'). handle_ok h" using ok k u by (simp add: executor_ok_def)
  moreover have "\<forall>j. counts e' j = length (of_kind j (map ent (used e')))" using ok k u c by (simp add: executor_ok_def)
  moreover have "next_index e' \<le> max_handles e'" "max_handles e' < 2 ^ 32" using ok s by (simp_all add: executor_ok_def)
  moreover have "\<forall>h \<in> set (drop (next_index e') (handles e')). \<not> initialized h \<and> \<not> data_available h" unfolding d using ok unfolding executor_ok_def by blast
  moreover have "rcl_wait_set_is_valid (the_wait_set e') \<longrightarrow> sized (counts e') (the_wait_set e')" using w c by simp
  ultimately show ?thesis using u unfolding executor_ok_def by (intro conjI) simp_all
qed

lemma same_after:
  assumes "length is = length us" "length f = length us"
  shows "same_handles us (map (\<lambda>(h, i). h\<lparr>req_id := i, data_available := False\<rparr>)
     (zip (map (flag ws) (map (\<lambda>(h, i). h\<lparr>hindex := i\<rparr>) (zip us f))) is))"
  using assms
proof (induction us arbitrary: "is" f)
  case (Cons h us)
  obtain i is' j f' where e: "is = i # is'" "f = j # f'" using Cons.prems by (cases "is"; cases f) auto
  have "\<exists>a b c. (flag ws (h\<lparr>hindex := j\<rparr>))\<lparr>req_id := i, data_available := False\<rparr> = h\<lparr>hindex := a, req_id := b, data_available := c\<rparr>"
    by (rule exI [of _ j], rule exI [of _ i], rule exI [of _ False]) (simp add: flag_def)
  then show ?case using Cons e by (simp add: same_handles_def)
qed (simp add: same_handles_def)

definition entity_is_ready :: "'w ports \<Rightarrow> timers \<Rightarrow> int \<Rightarrow> middleware \<Rightarrow> rclc_handle \<Rightarrow> bool" where
  "entity_is_ready P ts now mw h = entity_ready (handle_of P) ts now mw (fst (ent h)) (obj h)"

text \<open>What a turn relies on: the flags are clear, as after every turn that returned \<open>RCL_RET_OK\<close>, the middleware has a handle for
  every entity, a guard condition was added once, the timers exist and the clock can be read.\<close>

definition turn_ready :: "'w ports \<Rightarrow> executor \<Rightarrow> 'w world_scheme \<Rightarrow> int \<Rightarrow> int \<Rightarrow> bool" where
  "turn_ready P e w now1 now2 \<longleftrightarrow> executor_ok e \<and> used e \<noteq> [] \<and> takes_typed P \<and>
     distinct (map (handle_of P GuardCondition) (of_kind GuardCondition (map ent (used e)))) \<and>
     (\<forall>h \<in> set (used e). \<not> data_available h \<and> handle_of P (fst (ent h)) (obj h) \<noteq> 0 \<and>
        (fst (ent h) = Timer \<longrightarrow> world_timers w (obj h) \<noteq> None)) \<and>
     rcl_clock_get_now (Some (world_clock w)) (world_time w) = (RCL_RET_OK, Some now1) \<and>
     rcl_clock_get_now (Some (world_clock w)) (time_after P (world_time w)) = (RCL_RET_OK, Some now2)"

text \<open>The state in which the scheduling starts, when the turn does not fail before.\<close>

lemma spin_some_waits:
  assumes r: "turn_ready P e (fst s) now1 now2"
    and x: "rclc_executor_spin_some P timeout e a s = (RCL_RET_OK, e', a', s')"
  shows "\<exists>e1 ms mw1 mw2 is. mw1 = receive P ms (world_mw (fst s)) \<and>
     (s64 timeout \<ge> 0 \<longrightarrow> ms \<noteq> None \<and> 0 \<le> the ms \<and> the ms * 1000000 \<le> s64 timeout) \<and>
     e1 = e\<lparr>handles := map (\<lambda>(h, i). h\<lparr>hindex := i\<rparr>) (zip (used e) is) @ drop (next_index e) (handles e), the_wait_set := the_wait_set e1\<rparr> \<and>
     length is = length (used e) \<and> sized (counts e) (the_wait_set e1) \<and>
     (\<forall>h \<in> set (map (\<lambda>(h, i). h\<lparr>hindex := i\<rparr>) (zip (used e) is)).
        in_wait_set (the_wait_set e1) h \<longleftrightarrow> entity_is_ready P (world_timers (fst s)) now2 mw1 h) \<and>
     (RCL_RET_OK, e', s') = (case data_comm_semantics e of
         LET \<Rightarrow> rclc_let_scheduling P e1 ((fst s)\<lparr>world_mw := mw2, world_time := time_after P (world_time (fst s))\<rparr>, snd s)
       | RCLCPP_EXECUTOR \<Rightarrow> rclc_default_scheduling P e1 ((fst s)\<lparr>world_mw := mw2, world_time := time_after P (world_time (fst s))\<rparr>, snd s))"
proof -
  let ?w = "fst s" and ?us = "used e" and ?vs = "drop (next_index e) (handles e)" and ?xs = "map ent (used e)"
  have ok: "executor_ok e" and ne: "?us \<noteq> []"
    and us: "\<forall>h \<in> set ?us. \<not> data_available h \<and> handle_of P (fst (ent h)) (obj h) \<noteq> 0 \<and> (fst (ent h) = Timer \<longrightarrow> world_timers ?w (obj h) \<noteq> None)"
    and now: "rcl_clock_get_now (Some (world_clock ?w)) (world_time ?w) = (RCL_RET_OK, Some now1)"
      "rcl_clock_get_now (Some (world_clock ?w)) (time_after P (world_time ?w)) = (RCL_RET_OK, Some now2)"
    using r unfolding turn_ready_def by blast+
  have hok: "\<forall>h \<in> set ?us. handle_ok h" and vs: "\<forall>h \<in> set ?vs. \<not> initialized h" and cnt: "\<forall>k. counts e k = length (of_kind k ?xs)"
    using ok unfolding executor_ok_def by blast+
  obtain r0 e0 a0 where p: "rclc_executor_prepare P e a = (r0, e0, a0)" by (metis surj_pair)
  obtain ws0 where e0: "e0 = e\<lparr>the_wait_set := ws0\<rparr>" "ws_impl ws0 \<noteq> 0 \<longrightarrow> sized (counts e) ws0" using prepare_sized [OF ok p] by blast
  have cv: "context_valid P" using x by (auto simp: rclc_executor_spin_some_def rcl_rets split: if_splits)
  have "ws_impl ws0 \<noteq> 0"
  proof
    assume "ws_impl ws0 = 0"
    then show False using x p e0 cv by (auto simp: rclc_executor_spin_some_def rcl_wait_set_clear_def rcl_rets)
  qed
  then obtain ws1 where c: "rcl_wait_set_clear ws0 = (RCL_RET_OK, ws1)" and f1: "filled (counts e) (handle_of P) [] ws1"
    using clear_fills e0(2) by blast
  have fits: "\<forall>k. length (of_kind k ([] @ ?xs)) \<le> counts e k" using cnt by simp
  have ho: "\<forall>h \<in> set ?us. handle_ok h \<and> handle_of P (fst (ent h)) (obj h) \<noteq> 0" using us hok by blast
  obtain ws2 where ph: "put_handles P (?us @ ?vs) ws1 = (RCL_RET_OK, placed [] ?us @ ?vs, ws2)" and f2: "filled (counts e) (handle_of P) ?xs ws2"
    using put_handles_run [OF f1 ho fits vs] by auto
  obtain "is" where pl: "placed [] ?us = map (\<lambda>(h, i). h\<lparr>hindex := i\<rparr>) (zip ?us is)" "length is = length ?us" using placed_upd by blast
  obtain rw ws3 mw2 where w: "rcl_wait (receive P) (world_clock ?w) (world_time ?w) (time_after P (world_time ?w)) (world_timers ?w) (s64 timeout) ws2 (world_mw ?w)
      = (rw, ws3, mw2)" by (metis surj_pair)
  have xs: "?xs \<noteq> []" "\<forall>(k, x) \<in> set ?xs. x \<noteq> 0 \<and> handle_of P k x \<noteq> 0"
    using ne ho by (auto simp: ent_def handle_ok_def)
  have dist: "distinct (map (handle_of P GuardCondition) (of_kind GuardCondition ?xs))" using r unfolding turn_ready_def by blast
  have tms: "\<forall>x. (Timer, x) \<in> set ?xs \<longrightarrow> world_timers ?w x \<noteq> None" using us by (auto simp: ent_def)
  obtain ms mw1 where m: "mw1 = receive P ms (world_mw ?w)" "s64 timeout \<ge> 0 \<longrightarrow> ms \<noteq> None \<and> 0 \<le> the ms \<and> the ms * 1000000 \<le> s64 timeout"
    and sz: "sized (counts e) ws3"
    and sl: "\<forall>k. slots ws3 k = map (\<lambda>x. if entity_ready (handle_of P) (world_timers ?w) now2 mw1 k x then x else 0) (of_kind k ?xs) @
        replicate (counts e k - length (of_kind k ?xs)) 0"
    using wait_leaves_ready [OF f2 xs dist tms now w] by (elim exE conjE) (rule that)
  let ?e1 = "e\<lparr>handles := placed [] ?us @ ?vs, the_wait_set := ws3\<rparr>"
  have inws: "in_wait_set ws3 h \<longleftrightarrow> entity_is_ready P (world_timers ?w) now2 mw1 h" if h: "h \<in> set (placed [] ?us)" for h
  proof -
    have at: "hindex h < length (of_kind (fst (ent h)) ?xs)" "of_kind (fst (ent h)) ?xs ! hindex h = obj h"
      using placed_at [OF h] by simp_all
    have hk: "handle_ok h"
    proof -
      obtain g i where "g \<in> set ?us" "h = g\<lparr>hindex := i\<rparr>" using h pl by (auto dest: set_zip_leftD)
      then show ?thesis using hok by simp
    qed
    then have "in_wait_set ws3 h \<longleftrightarrow> slots ws3 (fst (ent h)) ! hindex h \<noteq> 0" by (simp add: in_wait_set_def kind_ent)
    also have "slots ws3 (fst (ent h)) ! hindex h = (if entity_ready (handle_of P) (world_timers ?w) now2 mw1 (fst (ent h)) (obj h) then obj h else 0)"
      using sl at by (simp add: nth_append)
    finally show ?thesis using hk by (simp add: entity_is_ready_def handle_ok_def)
  qed
  have "(RCL_RET_OK, e', s') = (case data_comm_semantics e of
         LET \<Rightarrow> rclc_let_scheduling P ?e1 (?w\<lparr>world_mw := mw2, world_time := time_after P (world_time ?w)\<rparr>, snd s)
       | RCLCPP_EXECUTOR \<Rightarrow> rclc_default_scheduling P ?e1 (?w\<lparr>world_mw := mw2, world_time := time_after P (world_time ?w)\<rparr>, snd s))"
  proof -
    have hs: "handles e = ?us @ ?vs" by (simp add: used_def)
    show ?thesis
      using x ph w unfolding rclc_executor_spin_some_def
      by (simp add: cv p e0(1) c Let_def hs [symmetric] split: prod.splits rclc_executor_semantics.splits)
  qed
  then show ?thesis
    using m sz inws pl
    by (intro exI [of _ ?e1] exI [of _ ms] exI [of _ mw1] exI [of _ mw2] exI [of _ "is"]) simp
qed

lemma check_ready:
  assumes h: "handle_ok h" and iw: "in_wait_set ws h \<longleftrightarrow> entity_is_ready P (world_timers w) now mw1 h"
    and t: "fst (ent h) = Timer \<longrightarrow> world_timers w (obj h) \<noteq> None"
    and now: "rcl_clock_get_now (Some (world_clock w)) (world_time w) = (RCL_RET_OK, Some now)"
  shows "rclc_check_for_new_data ws w h = (RCL_RET_OK, flag ws h)"
proof (cases "fst (ent h) = Timer")
  case True
  then obtain tm where tm: "world_timers w (obj h) = Some tm" using t by auto
  have "in_wait_set ws h \<longleftrightarrow> timer_due (world_timers w) now (obj h)" using iw True by (simp add: entity_is_ready_def entity_ready_def)
  then show ?thesis
    using kind_ent [OF h] True tm now
    by (auto simp: rclc_check_for_new_data_def flag_def rcl_timer_is_ready_def rcl_timer_get_time_until_next_call_def timer_due_def)
next
  case False
  then show ?thesis using kind_ent [OF h] by (cases "fst (ent h)") (simp_all add: rclc_check_for_new_data_def flag_def)
qed

text \<open>After the check the flag of a handle says whether it is in the wait set.\<close>

lemma checked_handles:
  assumes r: "turn_ready P e w now1 now2" and l: "length is = length (used e)"
    and iw: "\<forall>h \<in> set (map (\<lambda>(h, i). h\<lparr>hindex := i\<rparr>) (zip (used e) is)). in_wait_set ws h \<longleftrightarrow> entity_is_ready P (world_timers w) now2 mw1 h"
    and w': "world_timers w' = world_timers w" "world_clock w' = world_clock w" "world_time w' = time_after P (world_time w)"
  defines "us \<equiv> map (\<lambda>(h, i). h\<lparr>hindex := i\<rparr>) (zip (used e) is)"
  shows "check_all ws w' RCL_RET_OK (us @ drop (next_index e) (handles e)) = (RCL_RET_OK, map (flag ws) us @ drop (next_index e) (handles e))"
    "\<forall>h \<in> set (map (flag ws) us). handle_ok h \<and> data_available h = in_wait_set ws h"
proof -
  have ok: "executor_ok e" and d: "\<forall>h \<in> set (used e). \<not> data_available h"
    and t: "\<forall>h \<in> set (used e). fst (ent h) = Timer \<longrightarrow> world_timers w (obj h) \<noteq> None"
    and n: "rcl_clock_get_now (Some (world_clock w)) (time_after P (world_time w)) = (RCL_RET_OK, Some now2)"
    using r unfolding turn_ready_def by blast+
  have vs: "\<forall>h \<in> set (drop (next_index e) (handles e)). \<not> initialized h" and hok: "\<forall>h \<in> set (used e). handle_ok h"
    using ok unfolding executor_ok_def by blast+
  have u: "handle_ok h \<and> \<not> data_available h \<and> (fst (ent h) = Timer \<longrightarrow> world_timers w (obj h) \<noteq> None)" if hu: "h \<in> set us" for h
  proof -
    obtain g i where g: "g \<in> set (used e)" "h = g\<lparr>hindex := i\<rparr>" using hu by (auto simp: us_def dest: set_zip_leftD)
    then show ?thesis using hok d t by simp
  qed
  have "\<forall>h \<in> set us. initialized h \<and> rclc_check_for_new_data ws w' h = (RCL_RET_OK, flag ws h)"
  proof
    fix h assume h: "h \<in> set us"
    have "in_wait_set ws h \<longleftrightarrow> entity_is_ready P (world_timers w) now2 mw1 h" using iw h unfolding us_def by blast
    then have "rclc_check_for_new_data ws w' h = (RCL_RET_OK, flag ws h)"
      by (intro check_ready [where P = P and now = now2 and ?mw1.0 = mw1]) (use u [OF h] w' n in simp_all)
    then show "initialized h \<and> rclc_check_for_new_data ws w' h = (RCL_RET_OK, flag ws h)" using u [OF h] by (simp add: handle_ok_def)
  qed
  then show "check_all ws w' RCL_RET_OK (us @ drop (next_index e) (handles e)) = (RCL_RET_OK, map (flag ws) us @ drop (next_index e) (handles e))"
    using vs by (rule check_all_run)
  show "\<forall>h \<in> set (map (flag ws) us). handle_ok h \<and> data_available h = in_wait_set ws h"
    using u by (auto simp: flag_def)
qed

lemma same_flagged:
  assumes "length f = length us"
  shows "same_handles us (map (flag ws) (map (\<lambda>(h, i). h\<lparr>hindex := i\<rparr>) (zip us f)))"
  using assms
proof (induction us arbitrary: f)
  case (Cons h us)
  obtain j f' where e: "f = j # f'" using Cons.prems by (cases f) auto
  have "\<exists>a b c. flag ws (h\<lparr>hindex := j\<rparr>) = h\<lparr>hindex := a, req_id := b, data_available := c\<rparr>"
    by (rule exI [of _ j], rule exI [of _ "req_id h"], rule exI [of _ "data_available (flag ws (h\<lparr>hindex := j\<rparr>))"]) (simp add: flag_def)
  then show ?case using Cons e by (simp add: same_handles_def)
qed (simp add: same_handles_def)

text \<open>The events of a handle do not depend on its place in the wait set.\<close>

lemma ready_nth:
  assumes l: "length is = length us" and i: "i < length us"
    and iw: "\<forall>h \<in> set (map (\<lambda>(h, i). h\<lparr>hindex := i\<rparr>) (zip us is)). in_wait_set ws h \<longleftrightarrow> entity_is_ready P ts now mw1 h"
  defines "fs \<equiv> map (flag ws) (map (\<lambda>(h, i). h\<lparr>hindex := i\<rparr>) (zip us is))"
  shows "in_wait_set ws (fs ! i) = entity_is_ready P ts now mw1 (us ! i)"
    "take_events r (fs ! i) = take_events r (us ! i)" "call_events r (fs ! i) = call_events r (us ! i)"
    "turn_events r (fs ! i) = turn_events r (us ! i)"
proof -
  let ?h = "(us ! i)\<lparr>hindex := is ! i\<rparr>"
  have "i < length (zip us is)" "zip us is ! i = (us ! i, is ! i)" using l i by simp_all
  then have m: "(us ! i, is ! i) \<in> set (zip us is)" by (metis nth_mem)
  have f: "fs ! i = flag ws ?h" using l i by (simp add: fs_def)
  have "?h \<in> set (map (\<lambda>(h, i). h\<lparr>hindex := i\<rparr>) (zip us is))" unfolding set_map by (rule image_eqI [OF _ m]) simp
  then have "in_wait_set ws ?h = entity_is_ready P ts now mw1 ?h" using iw by blast
  then show "in_wait_set ws (fs ! i) = entity_is_ready P ts now mw1 (us ! i)" unfolding f by (simp add: flag_def entity_is_ready_def)
  show "take_events r (fs ! i) = take_events r (us ! i)" "call_events r (fs ! i) = call_events r (us ! i)"
    "turn_events r (fs ! i) = turn_events r (us ! i)"
    unfolding f by (simp_all add: flag_def fun_eq_iff)
qed

lemma zip_map_hindex:
  assumes "length is = length us" "length xs = length us"
  shows "map f (zip (map (\<lambda>(h, i). h\<lparr>hindex := i\<rparr>) (zip us is)) xs) = map (\<lambda>((h, i), x). f (h\<lparr>hindex := i\<rparr>, x)) (zip (zip us is) xs)"
  using assms by (simp add: zip_map1 split_def)

text \<open>The scheduling functions start with the handles checked; \<open>fs\<close> are the handles then.\<close>

lemma scheduling_starts:
  assumes r: "turn_ready P e (fst s) now1 now2" and t: "trigger_function e = Some rclc_executor_trigger_any"
    and x: "rclc_executor_spin_some P timeout e a s = (RCL_RET_OK, e', a', s')"
  shows "\<exists>e1 ms mw1 w1 is fs. mw1 = receive P ms (world_mw (fst s)) \<and> length is = length (used e) \<and>
     fs = map (flag (the_wait_set e1)) (map (\<lambda>(h, i). h\<lparr>hindex := i\<rparr>) (zip (used e) is)) \<and>
     sized (counts e) (the_wait_set e1) \<and> max_handles e1 = max_handles e \<and> next_index e1 = next_index e \<and> info e1 = info e \<and>
     trigger_function e1 = trigger_function e \<and> data_comm_semantics e1 = data_comm_semantics e \<and>
     (\<forall>h \<in> set (map (\<lambda>(h, i). h\<lparr>hindex := i\<rparr>) (zip (used e) is)).
        in_wait_set (the_wait_set e1) h \<longleftrightarrow> entity_is_ready P (world_timers (fst s)) now2 mw1 h) \<and>
     check_all (the_wait_set e1) w1 RCL_RET_OK (handles e1) = (RCL_RET_OK, fs @ drop (next_index e) (handles e)) \<and>
     (\<forall>h \<in> set fs. handle_ok h \<and> data_available h = in_wait_set (the_wait_set e1) h) \<and>
     ((\<exists>h \<in> set fs. data_available h) \<longleftrightarrow> (\<exists>h \<in> set (used e). entity_is_ready P (world_timers (fst s)) now2 mw1 h)) \<and>
     (pull_trigger (e1\<lparr>handles := fs @ drop (next_index e) (handles e)\<rparr>) \<longleftrightarrow>
        (\<exists>h \<in> set (used e). entity_is_ready P (world_timers (fst s)) now2 mw1 h)) \<and>
     (RCL_RET_OK, e', s') = (case data_comm_semantics e of
         LET \<Rightarrow> rclc_let_scheduling P e1 (w1, snd s) | RCLCPP_EXECUTOR \<Rightarrow> rclc_default_scheduling P e1 (w1, snd s))"
proof -
  let ?w = "fst s" and ?vs = "drop (next_index e) (handles e)"
  let ?rdy = "\<lambda>mw1 h. entity_is_ready P (world_timers (fst s)) now2 mw1 h"
  have ok: "executor_ok e" and tt: "takes_typed P" using r unfolding turn_ready_def by blast+
  have vs: "\<forall>h \<in> set ?vs. \<not> initialized h" using ok unfolding executor_ok_def by blast
  obtain e1 ms mw1 mw2 "is" where mw1: "mw1 = receive P ms (world_mw ?w)"
    and e1: "e1 = e\<lparr>handles := map (\<lambda>(h, i). h\<lparr>hindex := i\<rparr>) (zip (used e) is) @ ?vs, the_wait_set := the_wait_set e1\<rparr>"
    and l: "length is = length (used e)" and sz: "sized (counts e) (the_wait_set e1)"
    and iw: "\<forall>h \<in> set (map (\<lambda>(h, i). h\<lparr>hindex := i\<rparr>) (zip (used e) is)). in_wait_set (the_wait_set e1) h \<longleftrightarrow> ?rdy mw1 h"
    and d: "(RCL_RET_OK, e', s') = (case data_comm_semantics e of
         LET \<Rightarrow> rclc_let_scheduling P e1 (?w\<lparr>world_mw := mw2, world_time := time_after P (world_time ?w)\<rparr>, snd s)
       | RCLCPP_EXECUTOR \<Rightarrow> rclc_default_scheduling P e1 (?w\<lparr>world_mw := mw2, world_time := time_after P (world_time ?w)\<rparr>, snd s))"
    using spin_some_waits [OF r x] by (elim exE conjE) (rule that)
  let ?us = "map (\<lambda>(h, i). h\<lparr>hindex := i\<rparr>) (zip (used e) is)" and ?w1 = "?w\<lparr>world_mw := mw2, world_time := time_after P (world_time ?w)\<rparr>"
  let ?ws = "the_wait_set e1" and ?fs = "map (flag (the_wait_set e1)) (map (\<lambda>(h, i). h\<lparr>hindex := i\<rparr>) (zip (used e) is))"
  have he: "handles e1 = ?us @ ?vs" by (subst e1) simp
  have se: "max_handles e1 = max_handles e" "next_index e1 = next_index e" "info e1 = info e" "trigger_function e1 = trigger_function e"
    "trigger_object e1 = trigger_object e" "data_comm_semantics e1 = data_comm_semantics e"
    by (subst e1, simp)+
  have c: "check_all ?ws ?w1 RCL_RET_OK (handles e1) = (RCL_RET_OK, ?fs @ ?vs)" unfolding he using checked_handles(1) [OF r l iw, of ?w1] by simp
  have fl: "\<forall>h \<in> set ?fs. handle_ok h \<and> data_available h = in_wait_set ?ws h" using checked_handles(2) [OF r l iw, of ?w1] by simp
  let ?e2 = "e1\<lparr>handles := ?fs @ ?vs\<rparr>"
  have us1: "(\<exists>h \<in> set ?fs. data_available h) \<longleftrightarrow> (\<exists>h \<in> set (used e). ?rdy mw1 h)"
  proof -
    have "data_available (flag ?ws h) \<longleftrightarrow> in_wait_set ?ws h" if "h \<in> set ?us" for h
    proof -
      have "flag ?ws h \<in> set ?fs" using that by (metis image_eqI set_map)
      then show ?thesis using fl by (simp add: flag_def split: if_splits)
    qed
    then have "(\<exists>h \<in> set ?fs. data_available h) \<longleftrightarrow> (\<exists>h \<in> set ?us. in_wait_set ?ws h)" unfolding set_map [of "flag ?ws"] by blast
    also have "\<dots> \<longleftrightarrow> (\<exists>h \<in> set ?us. ?rdy mw1 h)" using iw by blast
    also have "\<dots> \<longleftrightarrow> (\<exists>h \<in> set (used e). ?rdy mw1 h)"
    proof -
      have "map (?rdy mw1) ?us = map (?rdy mw1) (used e)"
        using l by (intro nth_equalityI) (simp_all add: entity_is_ready_def)
      then have "?rdy mw1 ` set ?us = ?rdy mw1 ` set (used e)" by (metis set_map)
      then have "(\<exists>b \<in> ?rdy mw1 ` set ?us. b) \<longleftrightarrow> (\<exists>b \<in> ?rdy mw1 ` set (used e). b)" by (rule arg_cong)
      then show ?thesis unfolding bex_simps(7) .
    qed
    finally show ?thesis .
  qed
  have pt: "pull_trigger ?e2 \<longleftrightarrow> (\<exists>h \<in> set (used e). ?rdy mw1 h)"
  proof -
    have "length ?fs \<le> max_handles e" using ok l by (simp add: executor_ok_def used_def)
    moreover have "\<forall>h \<in> set ?fs. initialized h" using fl by (simp add: handle_ok_def)
    ultimately show ?thesis using trigger_any_run [of ?fs ?vs "max_handles e" "trigger_object e"] vs us1 t se by (simp add: pull_trigger_def)
  qed
  show ?thesis
    by (rule exI [of _ e1], rule exI [of _ ms], rule exI [of _ mw1], rule exI [of _ ?w1], rule exI [of _ "is"], rule exI [of _ ?fs])
      (intro conjI mw1 l refl sz se(1-4) se(6) iw c fl us1 pt d)
qed

text \<open>C4.
  One turn of an executor with the default trigger, under the default semantics, when it returns \<open>RCL_RET_OK\<close>: if no handle is ready,
  nothing is called.  Otherwise the handles are gone through in the order in which they were added; of each that is ready the data is
  taken and its callback called, once, with the data if taking it succeeded; a timer is fired; to a request the response is sent; a handle
  that is not ready shows nothing, unless it is to be called always.  Afterwards no flag is set and the executor keeps its handles, so
  that the next turn starts as this one did.
\<close>

theorem spin_some_calls_ready:
  assumes r: "turn_ready P e (fst s) now1 now2" and t: "trigger_function e = Some rclc_executor_trigger_any"
    and m: "data_comm_semantics e = RCLCPP_EXECUTOR"
    and x: "rclc_executor_spin_some P timeout e a s = (RCL_RET_OK, e', a', s')"
  shows "\<exists>ms mw1 ess. mw1 = receive P ms (world_mw (fst s)) \<and> snd s' = snd s @ concat ess \<and>
     (if \<exists>h \<in> set (used e). entity_is_ready P (world_timers (fst s)) now2 mw1 h
      then list_all2 (\<lambda>h es. \<exists>rc rid. es = turn_events (entity_is_ready P (world_timers (fst s)) now2 mw1 h) h rc rid) (used e) ess
      else ess = []) \<and>
     executor_ok e' \<and> same_handles (used e) (used e') \<and> (\<forall>h \<in> set (used e'). \<not> data_available h) \<and>
     trigger_function e' = trigger_function e \<and> data_comm_semantics e' = data_comm_semantics e"
proof -
  let ?vs = "drop (next_index e) (handles e)"
  let ?rdy = "\<lambda>mw1 h. entity_is_ready P (world_timers (fst s)) now2 mw1 h"
  have ok: "executor_ok e" and tt: "takes_typed P" using r unfolding turn_ready_def by blast+
  have vs: "\<forall>h \<in> set ?vs. \<not> initialized h" using ok unfolding executor_ok_def by blast
  obtain e1 ms mw1 w1 "is" fs where mw1: "mw1 = receive P ms (world_mw (fst s))" and l: "length is = length (used e)"
    and fs: "fs = map (flag (the_wait_set e1)) (map (\<lambda>(h, i). h\<lparr>hindex := i\<rparr>) (zip (used e) is))"
    and sz: "sized (counts e) (the_wait_set e1)" and se: "max_handles e1 = max_handles e" "next_index e1 = next_index e" "info e1 = info e"
      "trigger_function e1 = trigger_function e" "data_comm_semantics e1 = data_comm_semantics e"
    and iw: "\<forall>h \<in> set (map (\<lambda>(h, i). h\<lparr>hindex := i\<rparr>) (zip (used e) is)). in_wait_set (the_wait_set e1) h \<longleftrightarrow> ?rdy mw1 h"
    and c: "check_all (the_wait_set e1) w1 RCL_RET_OK (handles e1) = (RCL_RET_OK, fs @ ?vs)"
    and fl: "\<forall>h \<in> set fs. handle_ok h \<and> data_available h = in_wait_set (the_wait_set e1) h"
    and us1: "(\<exists>h \<in> set fs. data_available h) \<longleftrightarrow> (\<exists>h \<in> set (used e). ?rdy mw1 h)"
    and pt: "pull_trigger (e1\<lparr>handles := fs @ ?vs\<rparr>) \<longleftrightarrow> (\<exists>h \<in> set (used e). ?rdy mw1 h)"
    and d0: "(RCL_RET_OK, e', s') = (case data_comm_semantics e of
         LET \<Rightarrow> rclc_let_scheduling P e1 (w1, snd s) | RCLCPP_EXECUTOR \<Rightarrow> rclc_default_scheduling P e1 (w1, snd s))"
    using scheduling_starts [OF r t x] by (elim exE conjE) (rule that)
  have d: "(RCL_RET_OK, e', s') = rclc_default_scheduling P e1 (w1, snd s)" using d0 m by simp
  let ?e2 = "e1\<lparr>handles := fs @ ?vs\<rparr>" and ?ws = "the_wait_set e1"
  have sf: "same_handles (used e) fs" unfolding fs using same_flagged [OF l] .
  have lf: "length fs = length (used e)" using l fs by simp
  note nth = ready_nth [OF l _ iw, folded fs]
  show ?thesis
  proof (cases "\<exists>h \<in> set (used e). ?rdy mw1 h")
    case False
    have "rclc_default_scheduling P e1 (w1, snd s) = (RCL_RET_OK, ?e2, (w1, snd s))"
      unfolding rclc_default_scheduling_def fst_conv c using pt False by (simp only: prod.case Let_def simp_thms if_False)
    then have e': "e' = ?e2" "s' = (w1, snd s)" using d by simp_all
    have "executor_ok e' \<and> used e' = fs"
      by (rule executor_ok_turn [OF ok]) (use e' se sz sf in simp_all)
    moreover have "\<forall>h \<in> set fs. \<not> data_available h" using us1 False by blast
    ultimately show ?thesis using mw1 e' False sf se
      by (intro exI [of _ ms] exI [of _ mw1] exI [of _ "[]"]) simp
  next
    case True
    obtain rc hs2 s2 where x2: "take_and_execute_all P ?ws RCL_RET_OK (fs @ ?vs) (w1, snd s) = (rc, hs2, s2)" by (metis surj_pair)
    have "rclc_default_scheduling P e1 (w1, snd s) = (rc, ?e2\<lparr>handles := hs2\<rparr>, s2)"
      unfolding rclc_default_scheduling_def fst_conv c using pt True x2 by (simp add: Let_def)
    then have e': "rc = RCL_RET_OK" "e' = ?e2\<lparr>handles := hs2\<rparr>" "s' = s2" using d by simp_all
    obtain ess is2 where t: "hs2 = map (\<lambda>(h, i). h\<lparr>req_id := i, data_available := False\<rparr>) (zip fs is2) @ ?vs" "length is2 = length fs"
      "list_all2 (\<lambda>h es. \<exists>rc rid. es = turn_events (in_wait_set ?ws h) h rc rid) fs ess" "snd s2 = snd s @ concat ess"
      using take_and_execute_run [OF fl vs tt x2 [unfolded e'(1)]] by (elim exE conjE) simp
    let ?us2 = "map (\<lambda>(h, i). h\<lparr>req_id := i, data_available := False\<rparr>) (zip fs is2)"
    have l2: "length is2 = length (used e)" using t(2) lf by simp
    have sm: "same_handles (used e) ?us2" unfolding fs using same_after [OF l2 l] .
    have "executor_ok e' \<and> used e' = ?us2"
      by (rule executor_ok_turn [OF ok]) (use e' se sz sm t(1) in simp_all)
    moreover have "\<forall>h \<in> set ?us2. \<not> data_available h" by auto
    moreover have "list_all2 (\<lambda>h es. \<exists>rc rid. es = turn_events (?rdy mw1 h) h rc rid) (used e) ess"
    proof (rule list_all2_all_nthI)
      show "length (used e) = length ess" using list_all2_lengthD [OF t(3)] lf by simp
      fix i assume i: "i < length (used e)"
      then have "i < length fs" using lf by simp
      from list_all2_nthD [OF t(3) this] show "\<exists>rc rid. ess ! i = turn_events (?rdy mw1 (used e ! i)) (used e ! i) rc rid"
        unfolding nth [OF i] .
    qed
    ultimately show ?thesis using mw1 e' True sm se t(4)
      by (intro exI [of _ ms] exI [of _ mw1] exI [of _ ess]) simp
  qed
qed

subsection \<open>Logical execution time\<close>

definition taken_all :: "wait_set \<Rightarrow> rclc_handle list \<Rightarrow> (int \<times> int) list \<Rightarrow> rclc_handle list" where
  "taken_all ws us rs = map (\<lambda>(h, rc, rid). after_take (in_wait_set ws h) h rc rid) (zip us rs)"

lemma take_all_run:
  assumes "\<forall>h \<in> set us. handle_ok h \<and> data_available h = in_wait_set ws h" "\<forall>h \<in> set vs. \<not> initialized h" "takes_typed P"
    "take_all P ws rc0 (us @ vs) s = (rc, hs', s')" "rc = RCL_RET_OK \<or> rc = RCL_RET_SUBSCRIPTION_TAKE_FAILED"
  shows "\<exists>rs. length rs = length us \<and> hs' = taken_all ws us rs @ vs \<and>
     snd s' = snd s @ concat (map (\<lambda>(h, rc, rid). take_events (in_wait_set ws h) h rc) (zip us rs))"
  using assms
proof (induction us arbitrary: rc0 s hs')
  case Nil
  then show ?case by (cases vs) (auto simp: taken_all_def)
next
  case (Cons h us)
  have h: "handle_ok h" "data_available h = in_wait_set ws h" "initialized h" using Cons.prems(1) by (auto simp: handle_ok_def)
  obtain rc1 h1 s1 where t: "rclc_take_new_data P ws h s = (rc1, h1, s1)" by (metis surj_pair)
  obtain rc3 hs3 s3 where a: "take_all P ws rc1 (us @ vs) s1 = (rc3, hs3, s3)" by (metis surj_pair)
  have r: "rc1 = RCL_RET_OK \<or> rc1 = RCL_RET_SUBSCRIPTION_TAKE_FAILED" "rc3 = rc" "hs' = h1 # hs3" "s' = s3"
    using Cons.prems(4,5) h(3) t a by (auto split: if_splits)
  then have "tolerated rc1" by (auto simp: tolerated_def)
  then obtain rc' rid where 1: "snd s1 = snd s @ take_events (in_wait_set ws h) h rc'" "h1 = after_take (in_wait_set ws h) h rc' rid"
    using take_effect [OF h(1,2) Cons.prems(3) t] by blast
  obtain rs where 2: "length rs = length us" "hs3 = taken_all ws us rs @ vs"
     "snd s3 = snd s1 @ concat (map (\<lambda>(h, rc, rid). take_events (in_wait_set ws h) h rc) (zip us rs))"
    using Cons.IH [of rc1 s1 hs3] Cons.prems(1-3,5) a r by auto
  show ?case by (rule exI [of _ "(rc', rid) # rs"]) (use 1 2 r in \<open>simp add: taken_all_def\<close>)
qed

lemma execute_all_run:
  assumes "\<forall>h \<in> set us. handle_ok h" "\<forall>h \<in> set vs. \<not> initialized h" "length rs = length us"
    "execute_all P rc0 (taken_all ws us rs @ vs) s = (RCL_RET_OK, hs', s')"
  shows "\<exists>is. length is = length us \<and> hs' = map (\<lambda>(h, i). h\<lparr>req_id := i, data_available := False\<rparr>) (zip us is) @ vs \<and>
     snd s' = snd s @ concat (map (\<lambda>(h, rc, rid). call_events (in_wait_set ws h) h rc rid) (zip us rs))"
  using assms
proof (induction us arbitrary: rc0 s hs' rs)
  case Nil
  then show ?case by (cases vs) (auto simp: taken_all_def)
next
  case (Cons h us)
  obtain rc rid rs1 where rs: "rs = (rc, rid) # rs1" using Cons.prems(3) by (metis length_Suc_conv length_Cons surj_pair)
  let ?h = "after_take (in_wait_set ws h) h rc rid"
  have i: "initialized ?h" using Cons.prems(1) by (simp add: handle_ok_def after_take_def)
  obtain rc2 h2 s2 where x: "rclc_execute P ?h s = (rc2, h2, s2)" by (metis surj_pair)
  obtain rc3 hs3 s3 where a: "execute_all P rc2 (taken_all ws us rs1 @ vs) s2 = (rc3, hs3, s3)" by (metis surj_pair)
  have r: "rc2 = RCL_RET_OK" "rc3 = RCL_RET_OK" "hs' = h2 # hs3" "s' = s3"
    using Cons.prems(4) i x a rs by (auto simp: taken_all_def split: if_splits)
  have "handle_ok h" using Cons.prems(1) by simp
  note 1 = call_effect [OF this x [unfolded r(1)]]
  obtain "is" where 2: "length is = length us" "hs3 = map (\<lambda>(h, i). h\<lparr>req_id := i, data_available := False\<rparr>) (zip us is) @ vs"
    "snd s3 = snd s2 @ concat (map (\<lambda>(h, rc, rid). call_events (in_wait_set ws h) h rc rid) (zip us rs1))"
    using Cons.IH [of rs1 rc2 s2 hs3] Cons.prems(1-3) a r rs by auto
  have "\<exists>i. h2 = h\<lparr>req_id := i, data_available := False\<rparr>"
    by (rule exI [of _ "if takes (in_wait_set ws h) h \<and> fst (ent h) \<noteq> Subscription then rid else req_id h"]) (simp add: 1 after_take_def)
  then obtain i where "h2 = h\<lparr>req_id := i, data_available := False\<rparr>" by blast
  then show ?case by (intro exI [of _ "i # is"]) (use 1 2 r rs in simp)
qed

text \<open>C19.
  Under logical execution time the turn first takes the data of every handle that is ready, and only then calls the callbacks, in the
  same order: no callback of a turn can have an influence on what the others of the turn are given.
\<close>

theorem spin_some_let_reads_first:
  assumes r: "turn_ready P e (fst s) now1 now2" and t: "trigger_function e = Some rclc_executor_trigger_any"
    and m: "data_comm_semantics e = LET"
    and x: "rclc_executor_spin_some P timeout e a s = (RCL_RET_OK, e', a', s')"
  shows "\<exists>ms mw1 rs. mw1 = receive P ms (world_mw (fst s)) \<and> length rs = length (used e) \<and>
     snd s' = snd s @
       (if \<exists>h \<in> set (used e). entity_is_ready P (world_timers (fst s)) now2 mw1 h
        then concat (map (\<lambda>(h, rc, rid). take_events (entity_is_ready P (world_timers (fst s)) now2 mw1 h) h rc) (zip (used e) rs)) @
          concat (map (\<lambda>(h, rc, rid). call_events (entity_is_ready P (world_timers (fst s)) now2 mw1 h) h rc rid) (zip (used e) rs))
        else []) \<and>
     executor_ok e' \<and> same_handles (used e) (used e') \<and> (\<forall>h \<in> set (used e'). \<not> data_available h) \<and>
     trigger_function e' = trigger_function e \<and> data_comm_semantics e' = data_comm_semantics e"
proof -
  let ?vs = "drop (next_index e) (handles e)"
  let ?rdy = "\<lambda>mw1 h. entity_is_ready P (world_timers (fst s)) now2 mw1 h"
  have ok: "executor_ok e" and tt: "takes_typed P" using r unfolding turn_ready_def by blast+
  have vs: "\<forall>h \<in> set ?vs. \<not> initialized h" using ok unfolding executor_ok_def by blast
  obtain e1 ms mw1 w1 "is" fs where mw1: "mw1 = receive P ms (world_mw (fst s))" and l: "length is = length (used e)"
    and fs: "fs = map (flag (the_wait_set e1)) (map (\<lambda>(h, i). h\<lparr>hindex := i\<rparr>) (zip (used e) is))"
    and sz: "sized (counts e) (the_wait_set e1)" and se: "max_handles e1 = max_handles e" "next_index e1 = next_index e" "info e1 = info e"
      "trigger_function e1 = trigger_function e" "data_comm_semantics e1 = data_comm_semantics e"
    and iw: "\<forall>h \<in> set (map (\<lambda>(h, i). h\<lparr>hindex := i\<rparr>) (zip (used e) is)). in_wait_set (the_wait_set e1) h \<longleftrightarrow> ?rdy mw1 h"
    and c: "check_all (the_wait_set e1) w1 RCL_RET_OK (handles e1) = (RCL_RET_OK, fs @ ?vs)"
    and fl: "\<forall>h \<in> set fs. handle_ok h \<and> data_available h = in_wait_set (the_wait_set e1) h"
    and us1: "(\<exists>h \<in> set fs. data_available h) \<longleftrightarrow> (\<exists>h \<in> set (used e). ?rdy mw1 h)"
    and pt: "pull_trigger (e1\<lparr>handles := fs @ ?vs\<rparr>) \<longleftrightarrow> (\<exists>h \<in> set (used e). ?rdy mw1 h)"
    and d0: "(RCL_RET_OK, e', s') = (case data_comm_semantics e of
         LET \<Rightarrow> rclc_let_scheduling P e1 (w1, snd s) | RCLCPP_EXECUTOR \<Rightarrow> rclc_default_scheduling P e1 (w1, snd s))"
    using scheduling_starts [OF r t x] by (elim exE conjE) (rule that)
  have d: "(RCL_RET_OK, e', s') = rclc_let_scheduling P e1 (w1, snd s)" using d0 m by simp
  let ?e2 = "e1\<lparr>handles := fs @ ?vs\<rparr>" and ?ws = "the_wait_set e1"
  have sf: "same_handles (used e) fs" unfolding fs using same_flagged [OF l] .
  have lf: "length fs = length (used e)" using l fs by simp
  note nth = ready_nth [OF l _ iw, folded fs]
  show ?thesis
  proof (cases "\<exists>h \<in> set (used e). ?rdy mw1 h")
    case False
    have "rclc_let_scheduling P e1 (w1, snd s) = (RCL_RET_OK, ?e2, (w1, snd s))"
      unfolding rclc_let_scheduling_def fst_conv c using pt False by (simp only: prod.case Let_def simp_thms if_False)
    then have e': "e' = ?e2" "s' = (w1, snd s)" using d by simp_all
    have "executor_ok e' \<and> used e' = fs"
      by (rule executor_ok_turn [OF ok]) (use e' se sz sf in simp_all)
    moreover have "\<forall>h \<in> set fs. \<not> data_available h" using us1 False by blast
    ultimately show ?thesis using mw1 e' False sf se
      by (intro exI [of _ ms] exI [of _ mw1] exI [of _ "replicate (length (used e)) (0, 0)"]) simp
  next
    case True
    obtain rc hs2 s2 where x2: "take_all P ?ws RCL_RET_OK (fs @ ?vs) (w1, snd s) = (rc, hs2, s2)" by (metis surj_pair)
    obtain rc3 hs3 s3 where x3: "execute_all P rc hs2 s2 = (rc3, hs3, s3)" by (metis surj_pair)
    have "rclc_let_scheduling P e1 (w1, snd s) =
        (if rc \<noteq> RCL_RET_OK \<and> rc \<noteq> RCL_RET_SUBSCRIPTION_TAKE_FAILED then (rc, ?e2\<lparr>handles := hs2\<rparr>, s2) else (rc3, ?e2\<lparr>handles := hs3\<rparr>, s3))"
      unfolding rclc_let_scheduling_def fst_conv c using pt True x2 x3 by (auto simp add: Let_def)
    then have e': "rc = RCL_RET_OK \<or> rc = RCL_RET_SUBSCRIPTION_TAKE_FAILED" "rc3 = RCL_RET_OK" "e' = ?e2\<lparr>handles := hs3\<rparr>" "s' = s3"
      using d by (auto split: if_splits)
    obtain rs where t: "length rs = length fs" "hs2 = taken_all ?ws fs rs @ ?vs"
      "snd s2 = snd s @ concat (map (\<lambda>(h, rc, rid). take_events (in_wait_set ?ws h) h rc) (zip fs rs))"
      using take_all_run [OF fl vs tt x2 e'(1)] by auto
    have fo: "\<forall>h \<in> set fs. handle_ok h" using fl by blast
    obtain is2 where u: "length is2 = length fs" "hs3 = map (\<lambda>(h, i). h\<lparr>req_id := i, data_available := False\<rparr>) (zip fs is2) @ ?vs"
      "snd s3 = snd s2 @ concat (map (\<lambda>(h, rc, rid). call_events (in_wait_set ?ws h) h rc rid) (zip fs rs))"
      using execute_all_run [OF fo vs t(1) x3 [unfolded e'(2) t(2)]] by blast
    let ?us2 = "map (\<lambda>(h, i). h\<lparr>req_id := i, data_available := False\<rparr>) (zip fs is2)"
    have l2: "length is2 = length (used e)" using u(1) lf by simp
    have sm: "same_handles (used e) ?us2" unfolding fs using same_after [OF l2 l] .
    have "executor_ok e' \<and> used e' = ?us2"
      by (rule executor_ok_turn [OF ok]) (use e' se sz sm u(2) in simp_all)
    moreover have "\<forall>h \<in> set ?us2. \<not> data_available h" by auto
    moreover have "map (\<lambda>(h, rc, rid). take_events (in_wait_set ?ws h) h rc) (zip fs rs) =
        map (\<lambda>(h, rc, rid). take_events (?rdy mw1 h) h rc) (zip (used e) rs)"
      by (rule nth_equalityI) (use lf t(1) nth in \<open>simp_all add: split_def\<close>)
    moreover have "map (\<lambda>(h, rc, rid). call_events (in_wait_set ?ws h) h rc rid) (zip fs rs) =
        map (\<lambda>(h, rc, rid). call_events (?rdy mw1 h) h rc rid) (zip (used e) rs)"
      by (rule nth_equalityI) (use lf t(1) nth in \<open>simp_all add: split_def\<close>)
    ultimately show ?thesis using mw1 e' True sm se t u lf
      by (intro exI [of _ ms] exI [of _ mw1] exI [of _ rs]) simp
  qed
qed

subsection \<open>A new executor, and examples\<close>

lemma init_executor_ok:
  assumes "rclc_executor_init fresh context n allocator_ok e0 a = (RCL_RET_OK, e, a')" "n < 2 ^ 32"
  shows "executor_ok e" "used e = []" "max_handles e = n" "trigger_function e = Some rclc_executor_trigger_any"
    "data_comm_semantics e = RCLCPP_EXECUTOR" "\<not> rcl_wait_set_is_valid (the_wait_set e)"
proof -
  obtain p a1 where p: "allocate a = (p, a1)" by fastforce
  have z: "\<not> rcl_wait_set_is_valid rcl_get_zero_initialized_wait_set"
    by (simp add: rcl_wait_set_is_valid_def rcl_get_zero_initialized_wait_set_def)
  have e: "e = rclc_executor_get_zero_initialized_executor\<lparr>ctx := context, max_handles := n, has_allocator := True,
      the_wait_set := rcl_get_zero_initialized_wait_set, timeout_ns := DEFAULT_WAIT_TIMEOUT_NS, handles_block := p,
      handles := replicate n (rclc_executor_handle_init n fresh), info := (\<lambda>_. 0), trigger_function := Some rclc_executor_trigger_any,
      trigger_object := 0\<rparr>"
    using assms(1) p unfolding rclc_executor_init_def
    by (auto simp: Let_def rcl_rets rclc_executor_set_trigger_def rclc_executor_set_semantics_def rclc_executor_is_valid_def
        rclc_executor_get_zero_initialized_executor_def split: if_splits)
  show u: "used e = []" by (simp add: e used_def rclc_executor_get_zero_initialized_executor_def)
  show "max_handles e = n" "trigger_function e = Some rclc_executor_trigger_any" "data_comm_semantics e = RCLCPP_EXECUTOR"
    "\<not> rcl_wait_set_is_valid (the_wait_set e)"
    using z by (simp_all add: e rclc_executor_get_zero_initialized_executor_def)
  show "executor_ok e"
    using z assms(2) unfolding executor_ok_def u
    by (simp add: e rclc_executor_get_zero_initialized_executor_def rclc_executor_handle_init_def counts_def)
qed

lemma ex_spin_ok: "fst (rclc_executor_spin_some ex_ports 1000000 (ex_executor m) (new_arena []) (ex_world, [])) = RCL_RET_OK"
proof -
  have s: "s64 1000000 = 1000000" by (simp add: s64_id)
  show ?thesis
    by (cases m)
      (simp_all add: rclc_executor_spin_some_def ex_ports_def ex_executor_def ex_world_def ex_sub_def rclc_executor_prepare_def wait_set_run
       rcl_wait_set_fini_def rcl_wait_set_clear_def put_handle_def rcl_wait_set_add_def set_add_def rcl_wait_def s rmw_wait_def keep_ready_def
       rclc_let_scheduling_def rclc_default_scheduling_def rclc_check_for_new_data_def in_wait_set_def pull_trigger_def rclc_take_new_data_def
       rclc_execute_def invoke_callback_def ran_def call_of_def zero_first_def del: numeral_eq_Suc)
qed

lemma ex_turn_ready: "turn_ready ex_ports (ex_executor m) ex_world 100 100"
proof -
  have n: "rcl_clock_get_now (Some (ex_ros [] 100)) (ticks 0) = (RCL_RET_OK, Some 100)"
    using ros_now [of "ex_ros [] 100" "ticks 0"] by simp
  have u: "used (ex_executor m) = [ex_sub]" by (simp add: used_def ex_executor_def)
  have "takes_typed ex_ports" by (simp add: takes_typed_def ex_ports_def rcl_rets)
  then show ?thesis
    using n ex_executor_ok [of m] unfolding turn_ready_def u by (simp add: ex_sub_def ent_def ex_ports_def ex_world_def)
qed

theorem spin_some_calls_ready_witness:
  "\<exists>rc rid. snd (snd (snd (snd (rclc_executor_spin_some ex_ports 1000000 (ex_executor RCLCPP_EXECUTOR) (new_arena []) (ex_world, []))))) =
     turn_events True ex_sub rc rid"
proof -
  obtain r e' a' s' where x: "rclc_executor_spin_some ex_ports 1000000 (ex_executor RCLCPP_EXECUTOR) (new_arena []) (ex_world, []) = (r, e', a', s')"
    by (metis surj_pair)
  have r: "r = RCL_RET_OK" using ex_spin_ok [of RCLCPP_EXECUTOR] unfolding x by simp
  have t: "turn_ready ex_ports (ex_executor RCLCPP_EXECUTOR) (fst (ex_world, [])) 100 100" using ex_turn_ready by simp
  have u: "used (ex_executor RCLCPP_EXECUTOR) = [ex_sub]" by (simp add: used_def ex_executor_def)
  have tr: "trigger_function (ex_executor RCLCPP_EXECUTOR) = Some rclc_executor_trigger_any" "data_comm_semantics (ex_executor RCLCPP_EXECUTOR) = RCLCPP_EXECUTOR"
    by (simp_all add: ex_executor_def)
  have rdy: "entity_is_ready ex_ports ts now (receive ex_ports ms m) ex_sub" for ts now ms m
    by (simp add: entity_is_ready_def entity_ready_def ex_sub_def ent_def ex_ports_def)
  show ?thesis
    using spin_some_calls_ready [OF t tr x [unfolded r]] rdy unfolding u
    by (auto simp: list_all2_Cons1 x; blast)
qed

theorem spin_some_let_reads_first_witness:
  "\<exists>rc rid. snd (snd (snd (snd (rclc_executor_spin_some ex_ports 1000000 (ex_executor LET) (new_arena []) (ex_world, []))))) =
     take_events True ex_sub rc @ call_events True ex_sub rc rid"
proof -
  obtain r e' a' s' where x: "rclc_executor_spin_some ex_ports 1000000 (ex_executor LET) (new_arena []) (ex_world, []) = (r, e', a', s')"
    by (metis surj_pair)
  have r: "r = RCL_RET_OK" using ex_spin_ok [of LET] unfolding x by simp
  have t: "turn_ready ex_ports (ex_executor LET) (fst (ex_world, [])) 100 100" using ex_turn_ready by simp
  have u: "used (ex_executor LET) = [ex_sub]" by (simp add: used_def ex_executor_def)
  have tr: "trigger_function (ex_executor LET) = Some rclc_executor_trigger_any" "data_comm_semantics (ex_executor LET) = LET"
    by (simp_all add: ex_executor_def)
  have rdy: "entity_is_ready ex_ports ts now (receive ex_ports ms m) ex_sub" for ts now ms m
    by (simp add: entity_is_ready_def entity_ready_def ex_sub_def ent_def ex_ports_def)
  show ?thesis
    using spin_some_let_reads_first [OF t tr x [unfolded r]] rdy unfolding u
    by (auto simp: length_Suc_conv x; blast)
qed



end
