(* ===== verification/Microros_App.thy ===== *)
theory Microros_App
  imports Rclc_Executor_Turn
begin

text \<open>
  The ping-pong node, \<open>src/app/microros_core.c\<close>: its callbacks, which the executor calls, and its initialisation.  A C string is the list of
  its characters before the NUL; the messages that callbacks are given are what their buffers hold.  \<open>rand\<close> is a parameter.
\<close>

record header =
  sec :: int
  nanosec :: int
  frame_id :: string

datatype published = Ping_Published header | Pong_Published header

record app =
  device_id :: int
  seq_no :: int
  pong_count :: int
  outcoming_ping :: header
  out :: "published list"

definition STRING_BUFFER_LEN :: nat where "STRING_BUFFER_LEN = 50"

text \<open>The conversion \<open>%d\<close>.\<close>

definition digit :: "nat \<Rightarrow> char" where
  "digit n = char_of (48 + n)"

fun show_nat :: "nat \<Rightarrow> string" where
  "show_nat n = (if n < 10 then [digit n] else show_nat (n div 10) @ [digit (n mod 10)])"

declare show_nat.simps [simp del]

definition show_int :: "int \<Rightarrow> string" where
  "show_int i = (if i < 0 then CHR ''-'' # show_nat (nat (- i)) else show_nat (nat i))"

definition ping_id :: "int \<Rightarrow> int \<Rightarrow> string" where
  "ping_id seq dev = show_int seq @ CHR ''_'' # show_int dev"

text \<open>\<open>seq\<close> is what \<open>rand()\<close> returns, \<open>t\<close> the time.\<close>

definition ping_timer_callback :: "int \<Rightarrow> TimeOut_t \<Rightarrow> u32 \<Rightarrow> app \<Rightarrow> app" where
  "ping_timer_callback seq t timer w =
     (if timer = 0 then w
      else
        let ts = snd (clock_gettime t);
            ping = \<lparr>sec = tv_sec ts, nanosec = tv_nsec ts, frame_id = ping_id seq (device_id w)\<rparr>
        in w\<lparr>seq_no := seq, outcoming_ping := ping, pong_count := 0, out := out w @ [Ping_Published ping]\<rparr>)"

definition ping_subscription_callback :: "header \<Rightarrow> app \<Rightarrow> app" where
  "ping_subscription_callback msg w =
     (if frame_id (outcoming_ping w) \<noteq> frame_id msg then w\<lparr>out := out w @ [Pong_Published msg]\<rparr> else w)"

definition pong_subscription_callback :: "header \<Rightarrow> app \<Rightarrow> app" where
  "pong_subscription_callback msg w =
     (if frame_id (outcoming_ping w) = frame_id msg then w\<lparr>pong_count := s32 (pong_count w + 1)\<rparr> else w)"

text \<open>The pointers: the callbacks, the entities and the buffers of the messages.\<close>

definition PING_TIMER_CALLBACK :: u32 where "PING_TIMER_CALLBACK = 1"
definition PING_SUBSCRIPTION_CALLBACK :: u32 where "PING_SUBSCRIPTION_CALLBACK = 2"
definition PONG_SUBSCRIPTION_CALLBACK :: u32 where "PONG_SUBSCRIPTION_CALLBACK = 3"
definition THE_TIMER :: u32 where "THE_TIMER = 11"
definition PING_SUBSCRIBER :: u32 where "PING_SUBSCRIBER = 12"
definition PONG_SUBSCRIBER :: u32 where "PONG_SUBSCRIBER = 13"
definition INCOMING_PING :: u32 where "INCOMING_PING = 21"
definition INCOMING_PONG :: u32 where "INCOMING_PONG = 22"

lemmas app_pointers = PING_TIMER_CALLBACK_def PING_SUBSCRIPTION_CALLBACK_def PONG_SUBSCRIPTION_CALLBACK_def THE_TIMER_def
  PING_SUBSCRIBER_def PONG_SUBSCRIBER_def INCOMING_PING_def INCOMING_PONG_def

text \<open>
  \<open>setup i\<close> is the result of the \<open>i\<close>-th of the seven calls that create the support, the node, the publishers, the subscriptions and
  the timer; \<open>dev\<close> what \<open>rand()\<close> returns, \<open>junk\<close> what the buffer of the outgoing text holds.  The executor is made with three handles.
\<close>

fun first_failure :: "(nat \<Rightarrow> int) \<Rightarrow> nat list \<Rightarrow> int" where
  "first_failure setup [] = RCL_RET_OK"
| "first_failure setup (i # is) = (if setup i \<noteq> RCL_RET_OK then setup i else first_failure setup is)"

definition microRosAppInit ::
    "(nat \<Rightarrow> int) \<Rightarrow> rclc_handle \<Rightarrow> u32 \<Rightarrow> bool \<Rightarrow> int \<Rightarrow> string \<Rightarrow> 'w ports \<Rightarrow> executor \<Rightarrow> arena \<Rightarrow> app \<Rightarrow> bool \<times> executor \<times> arena \<times> app" where
  "microRosAppInit setup fresh context allocator_ok dev junk P e a w =
     (if first_failure setup [0..<7] \<noteq> RCL_RET_OK then (False, e, a, w)
      else (case rclc_executor_init fresh context 3 allocator_ok e a of
        (rc, e, a) \<Rightarrow>
          if rc \<noteq> RCL_RET_OK then (False, e, a, w)
          else (case rclc_executor_add_timer P THE_TIMER e a of
            (rc, e, a) \<Rightarrow>
              if rc \<noteq> RCL_RET_OK then (False, e, a, w)
              else (case rclc_executor_add_subscription P PING_SUBSCRIBER INCOMING_PING PING_SUBSCRIPTION_CALLBACK ON_NEW_DATA e a of
                (rc, e, a) \<Rightarrow>
                  if rc \<noteq> RCL_RET_OK then (False, e, a, w)
                  else (case rclc_executor_add_subscription P PONG_SUBSCRIBER INCOMING_PONG PONG_SUBSCRIPTION_CALLBACK ON_NEW_DATA e a of
                    (rc, e, a) \<Rightarrow>
                      if rc \<noteq> RCL_RET_OK then (False, e, a, w)
                      else (True, e, a, w\<lparr>device_id := dev, outcoming_ping := (outcoming_ping w)\<lparr>frame_id := junk\<rparr>\<rparr>))))))"

text \<open>What happens to the node: the timer fires, with the number drawn and the time, or a message is received.\<close>

datatype app_event = Tick int TimeOut_t | Ping_Received header | Pong_Received header

fun app_step :: "app_event \<Rightarrow> app \<Rightarrow> app" where
  "app_step (Tick seq t) w = ping_timer_callback seq t THE_TIMER w"
| "app_step (Ping_Received msg) w = ping_subscription_callback msg w"
| "app_step (Pong_Received msg) w = pong_subscription_callback msg w"

definition app_run :: "app_event list \<Rightarrow> app \<Rightarrow> app" where
  "app_run evs w = foldl (\<lambda>w ev. app_step ev w) w evs"

lemma app_run_simps [simp]:
  "app_run [] w = w" "app_run (ev # evs) w = app_run evs (app_step ev w)" "app_run (es @ fs) w = app_run fs (app_run es w)"
  by (simp_all add: app_run_def)

subsection \<open>The text of a ping\<close>

lemma of_digit: "n < 10 \<Longrightarrow> (of_char (digit n) :: nat) = 48 + n"
  by (simp add: digit_def)

lemma digit_ne [simp]: "n < 10 \<Longrightarrow> digit n \<noteq> CHR ''-''" "n < 10 \<Longrightarrow> digit n \<noteq> CHR ''_''"
  using of_digit [of n] by auto

lemma digit_inj: "m < 10 \<Longrightarrow> n < 10 \<Longrightarrow> digit m = digit n \<longleftrightarrow> m = n"
  by (metis of_digit add_left_imp_eq)

lemma show_nat_digits: "\<forall>c \<in> set (show_nat n). \<exists>d < 10. c = digit d"
proof (induction n rule: show_nat.induct)
  case (1 n)
  show ?case
  proof (cases "n < 10")
    case True
    then have "show_nat n = [digit n]" by (subst show_nat.simps) simp
    then show ?thesis using True by auto
  next
    case False
    then have e: "show_nat n = show_nat (n div 10) @ [digit (n mod 10)]" by (subst show_nat.simps) simp
    have "\<exists>d < 10. digit (n mod 10) = digit d" by (rule exI [of _ "n mod 10"]) simp
    then show ?thesis unfolding e using 1 [OF False] by simp
  qed
qed

lemma show_nat_chars: "CHR ''_'' \<notin> set (show_nat n)" "CHR ''-'' \<notin> set (show_nat n)"
  using show_nat_digits [of n] digit_ne by metis+

lemma show_nat_ne [simp]: "show_nat n \<noteq> []"
  by (subst show_nat.simps) simp

lemma show_nat_inj: "show_nat m = show_nat n \<Longrightarrow> m = n"
proof (induction m arbitrary: n rule: show_nat.induct)
  case (1 m)
  show ?case
  proof (cases "m < 10")
    case True
    then have m: "show_nat m = [digit m]" by (subst show_nat.simps) simp
    show ?thesis
    proof (cases "n < 10")
      case n: True
      then have "show_nat n = [digit n]" by (subst show_nat.simps) simp
      then show ?thesis using 1(2) m True n by (simp add: digit_inj)
    next
      case False
      then have "show_nat n = show_nat (n div 10) @ [digit (n mod 10)]" by (subst show_nat.simps) simp
      then show ?thesis using 1(2) m by (metis append_Nil append_eq_append_conv length_Cons list.size(3) show_nat_ne)
    qed
  next
    case False
    then have m: "show_nat m = show_nat (m div 10) @ [digit (m mod 10)]" by (subst show_nat.simps) simp
    show ?thesis
    proof (cases "n < 10")
      case True
      then have "show_nat n = [digit n]" by (subst show_nat.simps) simp
      then show ?thesis using 1(2) m by (metis append_Nil append_eq_append_conv length_Cons list.size(3) show_nat_ne)
    next
      case n: False
      then have "show_nat n = show_nat (n div 10) @ [digit (n mod 10)]" by (subst show_nat.simps) simp
      then have e: "show_nat (m div 10) = show_nat (n div 10)" "digit (m mod 10) = digit (n mod 10)" using 1(2) m by simp_all
      then have "m div 10 = n div 10" "m mod 10 = n mod 10" using 1(1) [OF False e(1)] by (simp_all add: digit_inj)
      then show ?thesis by (metis div_mult_mod_eq)
    qed
  qed
qed

lemma show_int_chars: "CHR ''_'' \<notin> set (show_int i)"
  using show_nat_chars by (simp add: show_int_def)

lemma show_nat_hd: "show_nat n \<noteq> CHR ''-'' # xs"
  using show_nat_chars(2) [of n] by auto

lemma show_int_inj:
  assumes e: "show_int i = show_int j"
  shows "i = j"
proof (cases "i < 0"; cases "j < 0")
  assume "i < 0" "j < 0"
  then show ?thesis using e show_nat_inj [of "nat (- i)" "nat (- j)"] by (simp add: show_int_def)
next
  assume "i < 0" "\<not> j < 0"
  then show ?thesis using e show_nat_hd [of "nat j"] by (simp add: show_int_def) metis
next
  assume "\<not> i < 0" "j < 0"
  then show ?thesis using e show_nat_hd [of "nat i"] by (simp add: show_int_def)
next
  assume "\<not> i < 0" "\<not> j < 0"
  then show ?thesis using e show_nat_inj [of "nat i" "nat j"] by (simp add: show_int_def)
qed

lemma ping_id_inj: "ping_id s d = ping_id s' d' \<longleftrightarrow> s = s' \<and> d = d'"
proof
  assume e: "ping_id s d = ping_id s' d'"
  have t: "takeWhile (\<lambda>c. c \<noteq> CHR ''_'') (ping_id s d) = show_int s" for s d
    using show_int_chars [of s] by (auto simp: ping_id_def takeWhile_append)
  have u: "dropWhile (\<lambda>c. c \<noteq> CHR ''_'') (ping_id s d) = CHR ''_'' # show_int d" for s d
    using show_int_chars [of s] by (auto simp: ping_id_def dropWhile_append)
  have "show_int s = show_int s'" using t [of s d] t [of s' d'] e by simp
  moreover have "show_int d = show_int d'" using u [of s d] u [of s' d'] e by simp
  ultimately show "s = s' \<and> d = d'" using show_int_inj by blast
qed simp

lemma length_show_nat: "n < 10 ^ k \<Longrightarrow> 0 < k \<Longrightarrow> length (show_nat n) \<le> k"
proof (induction k arbitrary: n)
  case (Suc k)
  show ?case
  proof (cases "n < 10")
    case True
    then show ?thesis by (subst show_nat.simps) simp
  next
    case False
    then have "k \<noteq> 0" using Suc.prems by (cases k) auto
    moreover have "n div 10 < 10 ^ k" using Suc.prems by (simp add: less_mult_imp_div_less mult.commute)
    ultimately show ?thesis using Suc.IH [of "n div 10"] False by (subst show_nat.simps) simp
  qed
qed simp

lemma length_ping_id:
  assumes "- (2 ^ 31) \<le> s" "s < 2 ^ 31" "- (2 ^ 31) \<le> d" "d < 2 ^ 31"
  shows "length (ping_id s d) \<le> 23"
proof -
  have "length (show_int i) \<le> 11" if "- (2 ^ 31) \<le> i" "i < 2 ^ 31" for i
  proof -
    have "nat i < 10 ^ 10" "nat (- i) < 10 ^ 10" using that by auto
    then have "length (show_nat (nat i)) \<le> 10" "length (show_nat (nat (- i))) \<le> 10" by (auto intro!: length_show_nat)
    then show ?thesis by (simp add: show_int_def)
  qed
  from this [OF assms(1,2)] this [OF assms(3,4)] show ?thesis by (simp add: ping_id_def)
qed

subsection \<open>Rounds of ping and pong\<close>

fun is_tick :: "app_event \<Rightarrow> bool" where
  "is_tick (Tick _ _) = True"
| "is_tick _ = False"

fun pong_of :: "string \<Rightarrow> app_event \<Rightarrow> bool" where
  "pong_of i (Pong_Received m) = (frame_id m = i)"
| "pong_of i _ = False"

fun answer :: "string \<Rightarrow> app_event \<Rightarrow> published list" where
  "answer i (Ping_Received m) = (if frame_id m = i then [] else [Pong_Published m])"
| "answer i _ = []"

lemma s32_step: "s32 (s32 a + 1) = s32 (a + 1)"
proof -
  have "take_bit 32 (signed_take_bit 31 a) = take_bit 32 a" by (simp add: take_bit_signed_take_bit)
  then have "take_bit 32 (signed_take_bit 31 a + 1) = take_bit 32 (a + 1)" by (metis take_bit_add)
  then show ?thesis by (simp add: s32_def signed_take_bit_eq_iff_take_bit_eq)
qed

lemma app_run_round:
  assumes "\<forall>ev \<in> set evs. \<not> is_tick ev" "frame_id (outcoming_ping w) = i" "pong_count w = s32 n"
  shows "pong_count (app_run evs w) = s32 (n + int (length (filter (pong_of i) evs))) \<and>
     out (app_run evs w) = out w @ concat (map (answer i) evs) \<and> outcoming_ping (app_run evs w) = outcoming_ping w \<and>
     seq_no (app_run evs w) = seq_no w \<and> device_id (app_run evs w) = device_id w"
  using assms
proof (induction evs arbitrary: w n)
  case (Cons ev evs)
  show ?case
  proof (cases ev)
    case (Ping_Received m)
    let ?w = "ping_subscription_callback m w"
    have "frame_id (outcoming_ping ?w) = i" "pong_count ?w = s32 n" "out ?w = out w @ answer i ev" "outcoming_ping ?w = outcoming_ping w"
      "seq_no ?w = seq_no w" "device_id ?w = device_id w"
      using Cons.prems(2,3) Ping_Received by (auto simp: ping_subscription_callback_def)
    then show ?thesis using Cons.IH [of ?w n] Cons.prems(1) Ping_Received by simp
  next
    case (Pong_Received m)
    let ?w = "pong_subscription_callback m w"
    let ?n = "n + (if frame_id m = i then 1 else 0)"
    have "frame_id (outcoming_ping ?w) = i" "pong_count ?w = s32 ?n" "out ?w = out w" "outcoming_ping ?w = outcoming_ping w"
      "seq_no ?w = seq_no w" "device_id ?w = device_id w"
      using Cons.prems(2,3) by (auto simp: pong_subscription_callback_def s32_step)
    then show ?thesis using Cons.IH [of ?w ?n] Cons.prems(1) Pong_Received by (simp add: add.commute add.left_commute)
  qed (use Cons.prems(1) in simp)
qed simp

lemma ping_round:
  assumes "timer \<noteq> 0" "\<forall>ev \<in> set evs. \<not> is_tick ev" "- (2 ^ 31) \<le> seq" "seq < 2 ^ 31" "- (2 ^ 31) \<le> device_id w" "device_id w < 2 ^ 31"
  shows "pong_count (app_run evs (ping_timer_callback seq t timer w)) = s32 (int (length (filter (pong_of (ping_id seq (device_id w))) evs)))"
    "out (app_run evs (ping_timer_callback seq t timer w)) =
       out w @ Ping_Published (outcoming_ping (ping_timer_callback seq t timer w)) # concat (map (answer (ping_id seq (device_id w))) evs)"
    "frame_id (outcoming_ping (ping_timer_callback seq t timer w)) = ping_id seq (device_id w)"
    "length (ping_id seq (device_id w)) + 1 \<le> STRING_BUFFER_LEN"
    "ping_id seq (device_id w) = ping_id seq' dev' \<longleftrightarrow> seq = seq' \<and> device_id w = dev'"
proof -
  let ?i = "ping_id seq (device_id w)"
  let ?w0 = "ping_timer_callback seq t timer w"
  have w0: "frame_id (outcoming_ping ?w0) = ?i" "pong_count ?w0 = s32 0" "out ?w0 = out w @ [Ping_Published (outcoming_ping ?w0)]"
    using assms(1) by (simp_all add: ping_timer_callback_def Let_def s32_def)
  show "pong_count (app_run evs ?w0) = s32 (int (length (filter (pong_of ?i) evs)))"
    "out (app_run evs ?w0) = out w @ Ping_Published (outcoming_ping ?w0) # concat (map (answer ?i) evs)"
    using app_run_round [OF assms(2) w0(1,2)] w0(3) by simp_all
  show "frame_id (outcoming_ping ?w0) = ?i" by (rule w0)
  show "length ?i + 1 \<le> STRING_BUFFER_LEN" using length_ping_id [OF assms(3-6)] by (simp add: STRING_BUFFER_LEN_def)
  show "?i = ping_id seq' dev' \<longleftrightarrow> seq = seq' \<and> device_id w = dev'" by (rule ping_id_inj)
qed

text \<open>C25.
  From one firing of the timer to the next: the count is that of the pongs which carry the text of the ping sent last, however many other
  pongs come in between, and every ping that is received is answered with a pong that is its copy, unless it is that ping itself.  The
  text tells the ping from every other, by its number or its device, and fits the buffer of 50 bytes with its NUL.
\<close>

theorem ping_pong_round:
  assumes "timer \<noteq> 0" "\<forall>ev \<in> set evs. \<not> is_tick ev" "- (2 ^ 31) \<le> seq" "seq < 2 ^ 31" "- (2 ^ 31) \<le> device_id w" "device_id w < 2 ^ 31"
  shows "pong_count (app_run evs (ping_timer_callback seq t timer w)) = s32 (int (length (filter (pong_of (ping_id seq (device_id w))) evs))) \<and>
     out (app_run evs (ping_timer_callback seq t timer w)) =
       out w @ Ping_Published (outcoming_ping (ping_timer_callback seq t timer w)) # concat (map (answer (ping_id seq (device_id w))) evs) \<and>
     frame_id (outcoming_ping (ping_timer_callback seq t timer w)) = ping_id seq (device_id w) \<and>
     length (ping_id seq (device_id w)) + 1 \<le> STRING_BUFFER_LEN \<and>
     (ping_id seq (device_id w) = ping_id seq' dev' \<longleftrightarrow> seq = seq' \<and> device_id w = dev')"
  by (intro conjI ping_round [OF assms])

definition ex_app :: app where
  "ex_app = \<lparr>device_id = 7, seq_no = 0, pong_count = 4, outcoming_ping = \<lparr>sec = 0, nanosec = 0, frame_id = []\<rparr>, out = []\<rparr>"

definition ex_header :: "string \<Rightarrow> header" where
  "ex_header i = \<lparr>sec = 1, nanosec = 2, frame_id = i\<rparr>"

theorem ping_pong_round_witness:
  "let w = app_run [Ping_Received (ex_header (ping_id 5 8)), Pong_Received (ex_header (ping_id 5 7)), Ping_Received (ex_header (ping_id 5 7)),
       Pong_Received (ex_header (ping_id 6 7))] (ping_timer_callback 5 (ticks 0) 11 ex_app)
   in pong_count w = 1 \<and> tl (out w) = [Pong_Published (ex_header (ping_id 5 8))]"
proof -
  let ?evs = "[Ping_Received (ex_header (ping_id 5 8)), Pong_Received (ex_header (ping_id 5 7)), Ping_Received (ex_header (ping_id 5 7)),
       Pong_Received (ex_header (ping_id 6 7))]"
  have d: "device_id ex_app = 7" "out ex_app = []" by (simp_all add: ex_app_def)
  have n: "ping_id 5 8 \<noteq> ping_id 5 7" "ping_id 6 7 \<noteq> ping_id 5 7" by (simp_all add: ping_id_inj)
  have p: "(11 :: u32) \<noteq> 0" "\<forall>ev \<in> set ?evs. \<not> is_tick ev" "- (2 ^ 31) \<le> (5 :: int)" "(5 :: int) < 2 ^ 31" "- (2 ^ 31) \<le> device_id ex_app" "device_id ex_app < 2 ^ 31"
    by (simp_all add: d)
  show ?thesis
    unfolding Let_def conjunct1 [OF ping_pong_round [OF p]] conjunct1 [OF conjunct2 [OF ping_pong_round [OF p]]] using n
    by (simp add: d ex_header_def s32_id)
qed

subsection \<open>Initialisation\<close>

lemma first_failure_ok: "first_failure setup is = RCL_RET_OK \<longleftrightarrow> (\<forall>i \<in> set is. setup i = RCL_RET_OK)"
  by (induction "is") auto

lemma add_ok:
  assumes "executor_ok e" "destroy_rmw_wait_set P = RCL_RET_OK" "next_index e < max_handles e"
    "\<And>h. kind_of (htype (set_fields h)) = Some k \<and> obj (set_fields h) \<noteq> 0 \<and> data_available (set_fields h) = data_available h"
    "add_handle P set_fields k e a = (r, e', a')"
  shows "r = RCL_RET_OK \<and> executor_ok e' \<and> used e' = used e @ [(set_fields (handles e ! next_index e))\<lparr>initialized := True\<rparr>] \<and>
     max_handles e' = max_handles e \<and> next_index e' = next_index e + 1"
proof -
  have m: "max_handles e' = max_handles e \<and> next_index e' = next_index e + 1"
    using assms(3,5) by (auto simp: add_handle_def Let_def reset_wait_set_def split: if_splits prod.splits)
  then show ?thesis using add_handle_appends [OF assms(1,2,4,5)] assms(3) by simp
qed

lemma app_init:
  assumes i: "microRosAppInit setup fresh context allocator_ok dev junk P e0 a w = (b, e, a', w')" and d: "destroy_rmw_wait_set P = RCL_RET_OK"
  shows "b \<longleftrightarrow> (\<forall>j < 7. setup j = RCL_RET_OK) \<and> fst (rclc_executor_init fresh context 3 allocator_ok e0 a) = RCL_RET_OK"
    "b \<longrightarrow> executor_ok e \<and> map ent (used e) = [(Timer, THE_TIMER), (Subscription, PING_SUBSCRIBER), (Subscription, PONG_SUBSCRIBER)] \<and>
       map hcallback (tl (used e)) = [PING_SUBSCRIPTION_CALLBACK, PONG_SUBSCRIPTION_CALLBACK] \<and>
       map data_msg (tl (used e)) = [INCOMING_PING, INCOMING_PONG] \<and> next_index e = max_handles e \<and> device_id w' = dev"
proof -
  have f: "first_failure setup [0..<7] = RCL_RET_OK \<longleftrightarrow> (\<forall>j < 7. setup j = RCL_RET_OK)" by (auto simp: first_failure_ok)
  obtain r1 e1 a1 where 1: "rclc_executor_init fresh context 3 allocator_ok e0 a = (r1, e1, a1)" by (metis surj_pair)
  have "(b \<longleftrightarrow> (\<forall>j < 7. setup j = RCL_RET_OK) \<and> r1 = RCL_RET_OK) \<and> (b \<longrightarrow> executor_ok e \<and>
      map ent (used e) = [(Timer, THE_TIMER), (Subscription, PING_SUBSCRIBER), (Subscription, PONG_SUBSCRIBER)] \<and>
       map hcallback (tl (used e)) = [PING_SUBSCRIPTION_CALLBACK, PONG_SUBSCRIPTION_CALLBACK] \<and>
       map data_msg (tl (used e)) = [INCOMING_PING, INCOMING_PONG] \<and> next_index e = max_handles e \<and> device_id w' = dev)"
  proof (cases "(\<forall>j < 7. setup j = RCL_RET_OK) \<and> r1 = RCL_RET_OK")
    case False
    then show ?thesis using i f 1 by (auto simp: microRosAppInit_def split: if_splits)
  next
    case True
    have e1: "executor_ok e1" "used e1 = []" "max_handles e1 = 3" using init_executor_ok [of fresh "context" 3 allocator_ok e0 a e1 a1] 1 True by simp_all
    have n1: "next_index e1 = 0" using e1 by (auto simp: used_def executor_ok_def)
    obtain r2 e2 a2 where 2: "rclc_executor_add_timer P THE_TIMER e1 a1 = (r2, e2, a2)" by (metis surj_pair)
    have e2: "r2 = RCL_RET_OK \<and> executor_ok e2 \<and> used e2 = used e1 @ [((\<lambda>h. h\<lparr>htype := TIMER, obj := THE_TIMER, invocation := ON_NEW_DATA, callback_context := 0\<rparr>) (handles e1 ! next_index e1))\<lparr>initialized := True\<rparr>] \<and>
        max_handles e2 = max_handles e1 \<and> next_index e2 = next_index e1 + 1"
      by (rule add_ok [OF e1(1) d _ _ 2 [unfolded rclc_executor_add_timer_def app_pointers, simplified], folded app_pointers])
        (use e1 n1 in \<open>simp_all add: app_pointers\<close>)
    have n2: "next_index e2 = 1" "max_handles e2 = 3" using e2 n1 e1 by simp_all
    obtain r3 e3 a3 where 3: "rclc_executor_add_subscription P PING_SUBSCRIBER INCOMING_PING PING_SUBSCRIPTION_CALLBACK ON_NEW_DATA e2 a2 = (r3, e3, a3)"
      by (metis surj_pair)
    have e3: "r3 = RCL_RET_OK \<and> executor_ok e3 \<and> used e3 = used e2 @ [((\<lambda>h. h\<lparr>htype := SUBSCRIPTION, obj := PING_SUBSCRIBER,
          data_msg := INCOMING_PING, hcallback := PING_SUBSCRIPTION_CALLBACK, invocation := ON_NEW_DATA, callback_context := 0\<rparr>)
          (handles e2 ! next_index e2))\<lparr>initialized := True\<rparr>] \<and> max_handles e3 = max_handles e2 \<and> next_index e3 = next_index e2 + 1"
      by (rule add_ok [OF _ d _ _ 3 [unfolded rclc_executor_add_subscription_def app_pointers, simplified], folded app_pointers])
        (use conjunct1 [OF conjunct2 [OF e2]] n2 in \<open>simp_all add: app_pointers\<close>)
    have n3: "next_index e3 = 2" "max_handles e3 = 3" using e3 n2 by simp_all
    obtain r4 e4 a4 where 4: "rclc_executor_add_subscription P PONG_SUBSCRIBER INCOMING_PONG PONG_SUBSCRIPTION_CALLBACK ON_NEW_DATA e3 a3 = (r4, e4, a4)"
      by (metis surj_pair)
    have e4: "r4 = RCL_RET_OK \<and> executor_ok e4 \<and> used e4 = used e3 @ [((\<lambda>h. h\<lparr>htype := SUBSCRIPTION, obj := PONG_SUBSCRIBER,
          data_msg := INCOMING_PONG, hcallback := PONG_SUBSCRIPTION_CALLBACK, invocation := ON_NEW_DATA, callback_context := 0\<rparr>)
          (handles e3 ! next_index e3))\<lparr>initialized := True\<rparr>] \<and> max_handles e4 = max_handles e3 \<and> next_index e4 = next_index e3 + 1"
      by (rule add_ok [OF _ d _ _ 4 [unfolded rclc_executor_add_subscription_def app_pointers, simplified], folded app_pointers])
        (use conjunct1 [OF conjunct2 [OF e3]] n3 in \<open>simp_all add: app_pointers\<close>)
    have "b" "e = e4" "w' = w\<lparr>device_id := dev, outcoming_ping := (outcoming_ping w)\<lparr>frame_id := junk\<rparr>\<rparr>"
      using i True f 1 2 3 4 e2 e3 e4 by (simp_all add: microRosAppInit_def)
    then show ?thesis using True e1 e2 e3 e4 n3 by (simp add: ent_def)
  qed
  then show "b \<longleftrightarrow> (\<forall>j < 7. setup j = RCL_RET_OK) \<and> fst (rclc_executor_init fresh context 3 allocator_ok e0 a) = RCL_RET_OK"
    "b \<longrightarrow> executor_ok e \<and> map ent (used e) = [(Timer, THE_TIMER), (Subscription, PING_SUBSCRIBER), (Subscription, PONG_SUBSCRIBER)] \<and>
       map hcallback (tl (used e)) = [PING_SUBSCRIPTION_CALLBACK, PONG_SUBSCRIPTION_CALLBACK] \<and>
       map data_msg (tl (used e)) = [INCOMING_PING, INCOMING_PONG] \<and> next_index e = max_handles e \<and> device_id w' = dev"
    using 1 by simp_all
qed

text \<open>C40.
  \<open>microRosAppInit\<close> returns true only when every call has succeeded; the executor then has exactly the handles of the timer and of the
  two subscriptions, in this order, so that in a turn the timer comes before the pings and the pings before the pongs, and no room for
  another handle.
\<close>

theorem app_init_complete:
  assumes "microRosAppInit setup fresh context allocator_ok dev junk P e0 a w = (b, e, a', w')" and "destroy_rmw_wait_set P = RCL_RET_OK"
  shows "(b \<longleftrightarrow> (\<forall>j < 7. setup j = RCL_RET_OK) \<and> fst (rclc_executor_init fresh context 3 allocator_ok e0 a) = RCL_RET_OK) \<and>
     (b \<longrightarrow> executor_ok e \<and> map ent (used e) = [(Timer, THE_TIMER), (Subscription, PING_SUBSCRIBER), (Subscription, PONG_SUBSCRIBER)] \<and>
       map hcallback (tl (used e)) = [PING_SUBSCRIPTION_CALLBACK, PONG_SUBSCRIPTION_CALLBACK] \<and>
       map data_msg (tl (used e)) = [INCOMING_PING, INCOMING_PONG] \<and> next_index e = max_handles e \<and> device_id w' = dev)"
  using app_init [OF assms] by (intro conjI)

theorem app_init_complete_witness:
  "case microRosAppInit (\<lambda>_. RCL_RET_OK) ex_sub 1 True 42 [] ex_ports rclc_executor_get_zero_initialized_executor (new_arena []) ex_app of
     (b, e, a', w') \<Rightarrow> b \<and> map ent (used e) = [(Timer, THE_TIMER), (Subscription, PING_SUBSCRIBER), (Subscription, PONG_SUBSCRIBER)] \<and> device_id w' = 42"
proof -
  obtain b e a' w' where i: "microRosAppInit (\<lambda>_. RCL_RET_OK) ex_sub 1 True 42 [] ex_ports rclc_executor_get_zero_initialized_executor (new_arena []) ex_app = (b, e, a', w')"
    by (cases rule: prod_cases4)
  have d: "destroy_rmw_wait_set ex_ports = RCL_RET_OK" by (simp add: ex_ports_def)
  have "fst (rclc_executor_init ex_sub 1 3 True rclc_executor_get_zero_initialized_executor (new_arena [])) = RCL_RET_OK"
    by (simp add: rclc_executor_init_def allocate_def new_arena_def Let_def rcl_rets)
  then have "b" using app_init_complete [OF i d] by simp
  then show ?thesis using app_init_complete [OF i d] i by simp
qed

end
