(* ===== verification/Rcutils_Hash_Map.thy ===== *)
theory Rcutils_Hash_Map
  imports Rcl_Types
begin

text \<open>
  The containers of the C utilities, \<open>rcutils/array_list.c\<close> and \<open>rcutils/hash_map.c\<close>: growing lists and a hash map with a list of entries
  in each bucket.  A list holds the elements that are in use and the blocks it occupies; an entry is in one bucket, so the buckets
  hold the entries themselves.  What a block holds is in the model, not its number of bytes; sizes do not overflow.  A \<open>char\<close> is
  unsigned, as the compiler of the target has it.
\<close>

definition RCUTILS_RET_OK :: int where "RCUTILS_RET_OK = 0"
definition RCUTILS_RET_BAD_ALLOC :: int where "RCUTILS_RET_BAD_ALLOC = 10"
definition RCUTILS_RET_INVALID_ARGUMENT :: int where "RCUTILS_RET_INVALID_ARGUMENT = 11"
definition RCUTILS_RET_NOT_INITIALIZED :: int where "RCUTILS_RET_NOT_INITIALIZED = 13"
definition RCUTILS_RET_NOT_FOUND :: int where "RCUTILS_RET_NOT_FOUND = 14"
definition RCUTILS_RET_HASH_MAP_NO_MORE_ENTRIES :: int where "RCUTILS_RET_HASH_MAP_NO_MORE_ENTRIES = 50"

lemmas rcutils_rets = RCUTILS_RET_OK_def RCUTILS_RET_BAD_ALLOC_def RCUTILS_RET_INVALID_ARGUMENT_def RCUTILS_RET_NOT_INITIALIZED_def
  RCUTILS_RET_NOT_FOUND_def RCUTILS_RET_HASH_MAP_NO_MORE_ENTRIES_def

subsection \<open>Array lists\<close>

record 'b array_list =
  al_impl :: nat
  al_list :: nat
  al_capacity :: nat
  items :: "'b list"

definition rcutils_get_zero_initialized_array_list :: "'b array_list" where
  "rcutils_get_zero_initialized_array_list = \<lparr>al_impl = 0, al_list = 0, al_capacity = 0, items = []\<rparr>"

definition rcutils_array_list_init :: "nat \<Rightarrow> nat \<Rightarrow> 'b array_list \<Rightarrow> arena \<Rightarrow> int \<times> 'b array_list \<times> arena" where
  "rcutils_array_list_init initial_capacity data_size l a =
     (if al_impl l \<noteq> 0 then (RCUTILS_RET_INVALID_ARGUMENT, l, a)
      else if 1 > initial_capacity then (RCUTILS_RET_INVALID_ARGUMENT, l, a)
      else if 1 > data_size then (RCUTILS_RET_INVALID_ARGUMENT, l, a)
      else (case allocate a of
        (p, a) \<Rightarrow>
          if p = 0 then (RCUTILS_RET_BAD_ALLOC, l\<lparr>al_impl := 0\<rparr>, a)
          else (case allocate a of
            (q, a) \<Rightarrow>
              if q = 0 then (RCUTILS_RET_BAD_ALLOC, l\<lparr>al_impl := 0\<rparr>, deallocate p a)
              else (RCUTILS_RET_OK, l\<lparr>al_impl := p, al_capacity := initial_capacity, items := [], al_list := q\<rparr>, a))))"

definition rcutils_array_list_fini :: "'b array_list \<Rightarrow> arena \<Rightarrow> int \<times> 'b array_list \<times> arena" where
  "rcutils_array_list_fini l a =
     (if al_impl l = 0 then (RCUTILS_RET_NOT_INITIALIZED, l, a)
      else (RCUTILS_RET_OK, l\<lparr>al_impl := 0\<rparr>, deallocate (al_impl l) (deallocate (al_list l) a)))"

definition rcutils_array_list_increase_capacity :: "'b array_list \<Rightarrow> arena \<Rightarrow> int \<times> 'b array_list \<times> arena" where
  "rcutils_array_list_increase_capacity l a =
     (case reallocate (al_list l) a of
        (new_list, a) \<Rightarrow>
          if new_list = 0 then (RCUTILS_RET_BAD_ALLOC, l, a)
          else (RCUTILS_RET_OK, l\<lparr>al_list := new_list, al_capacity := 2 * al_capacity l\<rparr>, a))"

definition rcutils_array_list_add :: "'b array_list \<Rightarrow> 'b \<Rightarrow> arena \<Rightarrow> int \<times> 'b array_list \<times> arena" where
  "rcutils_array_list_add l x a =
     (if al_impl l = 0 then (RCUTILS_RET_NOT_INITIALIZED, l, a)
      else (case (if length (items l) + 1 > al_capacity l then rcutils_array_list_increase_capacity l a else (RCUTILS_RET_OK, l, a)) of
        (ret, l, a) \<Rightarrow> if ret \<noteq> RCUTILS_RET_OK then (ret, l, a) else (ret, l\<lparr>items := items l @ [x]\<rparr>, a)))"

definition rcutils_array_list_set :: "'b array_list \<Rightarrow> nat \<Rightarrow> 'b \<Rightarrow> int \<times> 'b array_list" where
  "rcutils_array_list_set l index x =
     (if al_impl l = 0 then (RCUTILS_RET_NOT_INITIALIZED, l)
      else if length (items l) \<le> index then (RCUTILS_RET_INVALID_ARGUMENT, l)
      else (RCUTILS_RET_OK, l\<lparr>items := (items l)[index := x]\<rparr>))"

text \<open>The elements after the one removed are copied down by one place (the source calls \<open>memcpy\<close> on the overlapping ranges).\<close>

definition rcutils_array_list_remove :: "'b array_list \<Rightarrow> nat \<Rightarrow> int \<times> 'b array_list" where
  "rcutils_array_list_remove l index =
     (if al_impl l = 0 then (RCUTILS_RET_NOT_INITIALIZED, l)
      else if length (items l) \<le> index then (RCUTILS_RET_INVALID_ARGUMENT, l)
      else (RCUTILS_RET_OK, l\<lparr>items := take index (items l) @ drop (index + 1) (items l)\<rparr>))"

definition rcutils_array_list_get :: "'b array_list \<Rightarrow> nat \<Rightarrow> int \<times> 'b option" where
  "rcutils_array_list_get l index =
     (if al_impl l = 0 then (RCUTILS_RET_NOT_INITIALIZED, None)
      else if length (items l) \<le> index then (RCUTILS_RET_INVALID_ARGUMENT, None)
      else (RCUTILS_RET_OK, Some (items l ! index)))"

definition rcutils_array_list_get_size :: "'b array_list \<Rightarrow> int \<times> nat" where
  "rcutils_array_list_get_size l = (if al_impl l = 0 then (RCUTILS_RET_NOT_INITIALIZED, 0) else (RCUTILS_RET_OK, length (items l)))"

subsection \<open>The hash map\<close>

record ('k, 'v) hm_entry =
  hashed_key :: u32
  ekey :: 'k
  evalue :: 'v
  entry_block :: nat
  key_block :: nat
  value_block :: nat

type_synonym ('k, 'v) bucket = "('k, 'v) hm_entry array_list"

record ('k, 'v) hash_map =
  hm_impl :: nat
  map_block :: nat
  buckets :: "('k, 'v) bucket list"
  hcapacity :: nat
  hsize :: nat

text \<open>The hash of a string, and its comparison.\<close>

definition rcutils_hash_map_string_hash_func :: "string \<Rightarrow> u32" where
  "rcutils_hash_map_string_hash_func s = foldl (\<lambda>hash c. (push_bit 5 hash + hash) + of_nat (of_char c)) 5381 s"

fun strcmp_equal :: "string \<Rightarrow> string \<Rightarrow> bool" where
  "strcmp_equal [] [] = True"
| "strcmp_equal (c # s) (d # t) = (c = d \<and> strcmp_equal s t)"
| "strcmp_equal _ _ = False"

definition BUCKET_INITIAL_CAP :: nat where "BUCKET_INITIAL_CAP = 2"

definition hash_map_allocate_new_map :: "nat \<Rightarrow> arena \<Rightarrow> int \<times> nat \<times> ('k, 'v) bucket list \<times> arena" where
  "hash_map_allocate_new_map capacity a =
     (case allocate a of
        (p, a) \<Rightarrow> if p = 0 then (RCUTILS_RET_BAD_ALLOC, 0, [], a)
                  else (RCUTILS_RET_OK, p, replicate capacity rcutils_get_zero_initialized_array_list, a))"

definition hash_map_deallocate_entry :: "('k, 'v) hm_entry \<Rightarrow> arena \<Rightarrow> arena" where
  "hash_map_deallocate_entry e a = deallocate (entry_block e) (deallocate (value_block e) (deallocate (key_block e) a))"

fun deallocate_entries :: "('k, 'v) hm_entry list \<Rightarrow> arena \<Rightarrow> arena" where
  "deallocate_entries [] a = a"
| "deallocate_entries (e # es) a = deallocate_entries es (hash_map_deallocate_entry e a)"

fun deallocate_buckets :: "bool \<Rightarrow> ('k, 'v) bucket list \<Rightarrow> arena \<Rightarrow> int \<times> arena" where
  "deallocate_buckets dealloc_map_entries [] a = (RCUTILS_RET_OK, a)"
| "deallocate_buckets dealloc_map_entries (b # bs) a =
     (if al_impl b \<noteq> 0
      then (case rcutils_array_list_fini b (if dealloc_map_entries then deallocate_entries (items b) a else a) of
              (ret, b, a) \<Rightarrow> if ret = RCUTILS_RET_OK then deallocate_buckets dealloc_map_entries bs a else (ret, a))
      else deallocate_buckets dealloc_map_entries bs a)"

definition hash_map_deallocate_map :: "nat \<Rightarrow> ('k, 'v) bucket list \<Rightarrow> bool \<Rightarrow> arena \<Rightarrow> int \<times> arena" where
  "hash_map_deallocate_map p bs dealloc_map_entries a =
     (case deallocate_buckets dealloc_map_entries bs a of
        (ret, a) \<Rightarrow> if ret = RCUTILS_RET_OK then (ret, deallocate p a) else (ret, a))"

definition hash_map_insert_entry :: "nat \<Rightarrow> ('k, 'v) hm_entry \<Rightarrow> ('k, 'v) bucket list \<Rightarrow> arena \<Rightarrow> int \<times> ('k, 'v) bucket list \<times> arena" where
  "hash_map_insert_entry bucket_index e bs a =
     (let b = bs ! bucket_index
      in case (if al_impl b = 0 then rcutils_array_list_init BUCKET_INITIAL_CAP 4 b a else (RCUTILS_RET_OK, b, a)) of
           (ret, b, a) \<Rightarrow>
             if ret = RCUTILS_RET_OK
             then (case rcutils_array_list_add b e a of (ret, b, a) \<Rightarrow> (ret, bs[bucket_index := b], a))
             else (ret, bs[bucket_index := b], a))"

fun rehash :: "nat \<Rightarrow> ('k, 'v) hm_entry list \<Rightarrow> ('k, 'v) bucket list \<Rightarrow> arena \<Rightarrow> int \<times> ('k, 'v) bucket list \<times> arena" where
  "rehash new_capacity [] bs a = (RCUTILS_RET_OK, bs, a)"
| "rehash new_capacity (e # es) bs a =
     (case hash_map_insert_entry (unat (hashed_key e) mod new_capacity) e bs a of
        (ret, bs, a) \<Rightarrow> if ret = RCUTILS_RET_OK then rehash new_capacity es bs a else (ret, bs, a))"

definition all_entries :: "('k, 'v) bucket list \<Rightarrow> ('k, 'v) hm_entry list" where
  "all_entries bs = concat (map items (filter (\<lambda>b. al_impl b \<noteq> 0) bs))"

text \<open>\<open>LOAD_FACTOR\<close> is three quarters, rounded down.\<close>

definition hash_map_check_and_grow_map :: "('k, 'v) hash_map \<Rightarrow> arena \<Rightarrow> int \<times> ('k, 'v) hash_map \<times> arena" where
  "hash_map_check_and_grow_map h a =
     (if hsize h \<ge> 3 * hcapacity h div 4 then
        let new_capacity = 2 * hcapacity h
        in case hash_map_allocate_new_map new_capacity a of
             (ret, p, new_map, a) \<Rightarrow>
               if ret \<noteq> RCUTILS_RET_OK then (ret, h, a)
               else (case rehash new_capacity (all_entries (buckets h)) new_map a of
                 (ret, new_map, a) \<Rightarrow>
                   if ret \<noteq> RCUTILS_RET_OK then (ret, h, snd (hash_map_deallocate_map p new_map False a))
                   else (case hash_map_deallocate_map (map_block h) (buckets h) False a of
                     (ret, a) \<Rightarrow> (ret, h\<lparr>map_block := p, buckets := new_map, hcapacity := new_capacity\<rparr>, a)))
      else (RCUTILS_RET_OK, h, a))"

definition rcutils_hash_map_init :: "nat \<Rightarrow> nat \<Rightarrow> nat \<Rightarrow> ('k, 'v) hash_map \<Rightarrow> arena \<Rightarrow> int \<times> ('k, 'v) hash_map \<times> arena" where
  "rcutils_hash_map_init initial_capacity key_size data_size h a =
     (if 1 > initial_capacity then (RCUTILS_RET_INVALID_ARGUMENT, h, a)
      else if 1 > key_size then (RCUTILS_RET_INVALID_ARGUMENT, h, a)
      else if 1 > data_size then (RCUTILS_RET_INVALID_ARGUMENT, h, a)
      else (case allocate a of
        (i, a) \<Rightarrow>
          if i = 0 then (RCUTILS_RET_BAD_ALLOC, h\<lparr>hm_impl := 0\<rparr>, a)
          else (case hash_map_allocate_new_map initial_capacity a of
            (ret, p, bs, a) \<Rightarrow>
              if ret \<noteq> RCUTILS_RET_OK then (ret, h\<lparr>hm_impl := 0\<rparr>, deallocate i a)
              else (RCUTILS_RET_OK, h\<lparr>hm_impl := i, map_block := p, buckets := bs, hcapacity := initial_capacity, hsize := 0\<rparr>, a))))"

definition rcutils_hash_map_fini :: "('k, 'v) hash_map \<Rightarrow> arena \<Rightarrow> int \<times> ('k, 'v) hash_map \<times> arena" where
  "rcutils_hash_map_fini h a =
     (if hm_impl h = 0 then (RCUTILS_RET_NOT_INITIALIZED, h, a)
      else (case hash_map_deallocate_map (map_block h) (buckets h) True a of
        (ret, a) \<Rightarrow> if ret = RCUTILS_RET_OK then (ret, h\<lparr>hm_impl := 0\<rparr>, deallocate (hm_impl h) a) else (ret, h, a)))"

text \<open>The hash of the key, the bucket, and the place in the bucket when the key is there.\<close>

definition hash_map_find :: "('k \<Rightarrow> u32) \<Rightarrow> ('k \<Rightarrow> 'k \<Rightarrow> bool) \<Rightarrow> ('k, 'v) hash_map \<Rightarrow> 'k \<Rightarrow> u32 \<times> nat \<times> nat option" where
  "hash_map_find hash equal h key =
     (let key_hash = hash key; map_index = unat key_hash mod hcapacity h; b = buckets h ! map_index
      in (key_hash, map_index,
          if al_impl b = 0 then None
          else List.find (\<lambda>i. hashed_key (items b ! i) = key_hash \<and> equal (ekey (items b ! i)) key) [0..<length (items b)]))"

definition rcutils_hash_map_set ::
    "('k \<Rightarrow> u32) \<Rightarrow> ('k \<Rightarrow> 'k \<Rightarrow> bool) \<Rightarrow> 'k \<Rightarrow> 'v \<Rightarrow> ('k, 'v) hash_map \<Rightarrow> arena \<Rightarrow> int \<times> ('k, 'v) hash_map \<times> arena" where
  "rcutils_hash_map_set hash equal key value h a =
     (if hm_impl h = 0 then (RCUTILS_RET_NOT_INITIALIZED, h, a)
      else
        case (case hash_map_find hash equal h key of
                (key_hash, map_index, Some i) \<Rightarrow>
                  (RCUTILS_RET_OK,
                   h\<lparr>buckets := (buckets h)[map_index := (buckets h ! map_index)
                        \<lparr>items := (items (buckets h ! map_index))[i := (items (buckets h ! map_index) ! i)\<lparr>evalue := value\<rparr>]\<rparr>]\<rparr>, a)
              | (key_hash, map_index, None) \<Rightarrow>
                  (case allocate a of
                     (eb, a) \<Rightarrow>
                       if eb = 0 then (RCUTILS_RET_BAD_ALLOC, h, a)
                       else (case allocate a of
                         (kb, a) \<Rightarrow>
                           (case allocate a of
                              (vb, a) \<Rightarrow>
                                let e = \<lparr>hashed_key = key_hash, ekey = key, evalue = value, entry_block = eb, key_block = kb, value_block = vb\<rparr>;
                                    bucket_index = unat key_hash mod hcapacity h;
                                    (ret, bs, a) = (if kb = 0 \<or> vb = 0 then (RCUTILS_RET_BAD_ALLOC, buckets h, a)
                                                    else hash_map_insert_entry bucket_index e (buckets h) a);
                                    h = h\<lparr>buckets := bs\<rparr>
                                in if ret \<noteq> RCUTILS_RET_OK then (ret, h, hash_map_deallocate_entry e a)
                                   else (RCUTILS_RET_OK, h\<lparr>hsize := hsize h + 1\<rparr>, a))))) of
          (ret, h, a) \<Rightarrow>
            if ret \<noteq> RCUTILS_RET_OK then (ret, h, a)
            else (case hash_map_check_and_grow_map h a of (_, h, a) \<Rightarrow> (RCUTILS_RET_OK, h, a)))"

definition rcutils_hash_map_unset ::
    "('k \<Rightarrow> u32) \<Rightarrow> ('k \<Rightarrow> 'k \<Rightarrow> bool) \<Rightarrow> 'k \<Rightarrow> ('k, 'v) hash_map \<Rightarrow> arena \<Rightarrow> int \<times> ('k, 'v) hash_map \<times> arena" where
  "rcutils_hash_map_unset hash equal key h a =
     (if hm_impl h = 0 then (RCUTILS_RET_NOT_INITIALIZED, h, a)
      else (case hash_map_find hash equal h key of
        (key_hash, map_index, None) \<Rightarrow> (RCUTILS_RET_OK, h, a)
      | (key_hash, map_index, Some i) \<Rightarrow>
          let b = buckets h ! map_index; e = items b ! i
          in (case rcutils_array_list_remove b i of
                (ret, b) \<Rightarrow>
                  if ret = RCUTILS_RET_OK
                  then (RCUTILS_RET_OK, h\<lparr>buckets := (buckets h)[map_index := b], hsize := hsize h - 1\<rparr>, hash_map_deallocate_entry e a)
                  else (RCUTILS_RET_OK, h, a))))"

definition rcutils_hash_map_key_exists :: "('k \<Rightarrow> u32) \<Rightarrow> ('k \<Rightarrow> 'k \<Rightarrow> bool) \<Rightarrow> 'k \<Rightarrow> ('k, 'v) hash_map \<Rightarrow> bool" where
  "rcutils_hash_map_key_exists hash equal key h =
     (if hm_impl h = 0 then False else (case hash_map_find hash equal h key of (_, _, p) \<Rightarrow> p \<noteq> None))"

definition rcutils_hash_map_get :: "('k \<Rightarrow> u32) \<Rightarrow> ('k \<Rightarrow> 'k \<Rightarrow> bool) \<Rightarrow> 'k \<Rightarrow> ('k, 'v) hash_map \<Rightarrow> int \<times> 'v option" where
  "rcutils_hash_map_get hash equal key h =
     (if hm_impl h = 0 then (RCUTILS_RET_NOT_INITIALIZED, None)
      else (case hash_map_find hash equal h key of
        (_, map_index, Some i) \<Rightarrow> (RCUTILS_RET_OK, Some (evalue (items (buckets h ! map_index) ! i)))
      | (_, _, None) \<Rightarrow> (RCUTILS_RET_NOT_FOUND, None)))"

definition rcutils_hash_map_get_capacity :: "('k, 'v) hash_map \<Rightarrow> int \<times> nat" where
  "rcutils_hash_map_get_capacity h = (if hm_impl h = 0 then (RCUTILS_RET_NOT_INITIALIZED, 0) else (RCUTILS_RET_OK, hcapacity h))"

definition rcutils_hash_map_get_size :: "('k, 'v) hash_map \<Rightarrow> int \<times> nat" where
  "rcutils_hash_map_get_size h = (if hm_impl h = 0 then (RCUTILS_RET_NOT_INITIALIZED, 0) else (RCUTILS_RET_OK, hsize h))"

text \<open>The search for the next entry, from a place in a bucket on.\<close>

fun next_entry :: "('k, 'v) bucket list \<Rightarrow> nat \<Rightarrow> int \<times> ('k \<times> 'v) option" where
  "next_entry [] bucket_index = (RCUTILS_RET_HASH_MAP_NO_MORE_ENTRIES, None)"
| "next_entry (b # bs) bucket_index =
     (if al_impl b \<noteq> 0 \<and> bucket_index < length (items b)
      then (RCUTILS_RET_OK, Some (ekey (items b ! bucket_index), evalue (items b ! bucket_index)))
      else next_entry bs 0)"

text \<open>What is looked up is \<open>key\<close>, the argument for the result, and not \<open>previous_key\<close>.\<close>

definition rcutils_hash_map_get_next_key_and_data ::
    "('k \<Rightarrow> u32) \<Rightarrow> ('k \<Rightarrow> 'k \<Rightarrow> bool) \<Rightarrow> 'k option \<Rightarrow> 'k \<Rightarrow> ('k, 'v) hash_map \<Rightarrow> int \<times> ('k \<times> 'v) option" where
  "rcutils_hash_map_get_next_key_and_data hash equal previous_key key h =
     (if hm_impl h = 0 then (RCUTILS_RET_NOT_INITIALIZED, None)
      else (case previous_key of
        None \<Rightarrow> next_entry (buckets h) 0
      | Some _ \<Rightarrow>
          (case hash_map_find hash equal h key of
             (_, _, None) \<Rightarrow> (RCUTILS_RET_NOT_FOUND, None)
           | (_, map_index, Some i) \<Rightarrow> next_entry (drop map_index (buckets h)) (i + 1))))"

end
