(* ===== verification/Rcutils_Hash_Map_Props.thy ===== *)
theory Rcutils_Hash_Map_Props
  imports Rcutils_Hash_Map
begin

text \<open>
  The hash map implements a map: its invariant, and what every operation does to the map it stands for, whatever
  the allocator answers and when the table grows.  The client of the hash and the comparison is the locale \<open>key_ops\<close>,
  interpreted on the strings the library provides them for.
\<close>

subsection \<open>What a table holds\<close>

definition pairs :: "('k, 'v) hm_entry list \<Rightarrow> ('k \<times> 'v) list" where
  "pairs es = map (\<lambda>e. (ekey e, evalue e)) es"

text \<open>The entries of a bucket belong there, with the hash of their keys; no key is in it twice.\<close>

definition bucket_fits :: "('k \<Rightarrow> u32) \<Rightarrow> nat \<Rightarrow> nat \<Rightarrow> ('k, 'v) bucket \<Rightarrow> bool" where
  "bucket_fits hash n i b =
     ((al_impl b = 0 \<longrightarrow> items b = []) \<and> distinct (map ekey (items b)) \<and>
      (\<forall>e\<in>set (items b). hashed_key e = hash (ekey e) \<and> unat (hash (ekey e)) mod n = i))"

definition table_ok :: "('k \<Rightarrow> u32) \<Rightarrow> ('k, 'v) bucket list \<Rightarrow> bool" where
  "table_ok hash bs = (bs \<noteq> [] \<and> (\<forall>i<length bs. bucket_fits hash (length bs) i (bs ! i)))"

definition table_map :: "('k, 'v) bucket list \<Rightarrow> ('k \<rightharpoonup> 'v)" where
  "table_map bs = map_of (pairs (all_entries bs))"

definition hm_ok :: "('k \<Rightarrow> u32) \<Rightarrow> ('k, 'v) hash_map \<Rightarrow> bool" where
  "hm_ok hash h =
     (hm_impl h \<noteq> 0 \<and> hcapacity h = length (buckets h) \<and> table_ok hash (buckets h) \<and> hsize h = length (all_entries (buckets h)))"

definition hm_map :: "('k, 'v) hash_map \<Rightarrow> ('k \<rightharpoonup> 'v)" where
  "hm_map h = table_map (buckets h)"

lemma pairs_simps [simp]:
  "pairs [] = []" "pairs (e # es) = (ekey e, evalue e) # pairs es" "pairs (es @ fs) = pairs es @ pairs fs"
  "fst ` set (pairs es) = ekey ` set es" "map fst (pairs es) = map ekey es"
  by (auto simp: pairs_def image_iff)

lemma pairs_concat: "pairs (concat ess) = concat (map pairs ess)"
  by (induction ess) auto

lemma map_of_pairs_None: "map_of (pairs es) k = None \<longleftrightarrow> k \<notin> ekey ` set es"
  by (simp add: map_of_eq_None_iff)

lemma set_concat_nth:
  assumes "x \<in> set (concat xss)" obtains i where "i < length xss" "x \<in> set (xss ! i)"
  using assms by (auto simp: in_set_conv_nth [of _ xss])

lemma map_of_concat_nth:
  assumes "j < length xss" "\<And>i. i < length xss \<Longrightarrow> i \<noteq> j \<Longrightarrow> k \<notin> fst ` set (xss ! i)"
  shows "map_of (concat xss) k = map_of (xss ! j) k"
  using assms
proof (induction xss arbitrary: j)
  case (Cons ys xss)
  show ?case
  proof (cases j)
    case 0
    have "k \<notin> fst ` set (xss ! i)" if "i < length xss" for i
      using Cons.prems(2) [of "Suc i"] 0 that by simp
    then have "k \<notin> fst ` set (concat xss)" by (blast elim: set_concat_nth)
    then have "map_of (concat xss) k = None" by (simp only: map_of_eq_None_iff not_False_eq_True)
    then show ?thesis using 0 by (simp add: map_add_def split: option.splits)
  next
    case (Suc m)
    have "k \<notin> fst ` set (xss ! i)" if "i < length xss" "i \<noteq> m" for i
      using Cons.prems(2) [of "Suc i"] Suc that by simp
    then have "map_of (concat xss) k = map_of (xss ! m) k"
      using Cons.prems Suc by (intro Cons.IH) auto
    moreover have "map_of ys k = None"
      using Cons.prems(2) [of 0] Suc by (simp add: map_of_eq_None_iff)
    ultimately show ?thesis using Suc by (simp add: map_add_def)
  qed
qed simp

lemma bucket_fits_nth:
  "table_ok hash bs \<Longrightarrow> i < length bs \<Longrightarrow> bucket_fits hash (length bs) i (bs ! i)"
  by (simp add: table_ok_def)

lemma bucket_index:
  "table_ok hash bs \<Longrightarrow> i < length bs \<Longrightarrow> e \<in> set (items (bs ! i)) \<Longrightarrow> unat (hash (ekey e)) mod length bs = i"
  by (simp add: table_ok_def bucket_fits_def)

lemma idle_entries: "\<forall>b\<in>set bs. al_impl b = 0 \<longrightarrow> items b = [] \<Longrightarrow> all_entries bs = concat (map items bs)"
  by (induction bs) (auto simp: all_entries_def)

lemma all_entries_concat:
  assumes "table_ok hash bs" shows "all_entries bs = concat (map items bs)"
proof (rule idle_entries, intro ballI impI)
  fix b assume "b \<in> set bs" "al_impl b = 0"
  then show "items b = []" using assms by (auto simp: table_ok_def bucket_fits_def in_set_conv_nth)
qed

lemma table_lookup:
  assumes "table_ok hash bs"
  shows "table_map bs k = map_of (pairs (items (bs ! (unat (hash k) mod length bs)))) k"
proof -
  let ?j = "unat (hash k) mod length bs"
  have "?j < length bs" using assms by (simp add: table_ok_def)
  moreover have "k \<notin> fst ` set (pairs (items (bs ! i)))" if "i < length bs" "i \<noteq> ?j" for i
  proof
    assume "k \<in> fst ` set (pairs (items (bs ! i)))"
    then obtain e where "e \<in> set (items (bs ! i))" "k = ekey e" by auto
    then have "unat (hash k) mod length bs = i" using bucket_index [OF assms that(1)] by simp
    then show False using that by simp
  qed
  ultimately show ?thesis
    using map_of_concat_nth [of ?j "map pairs (map items bs)" k] assms
    by (simp add: table_map_def all_entries_concat [OF assms] pairs_concat)
qed

lemma distinct_concat_nth:
  assumes "\<And>i. i < length xss \<Longrightarrow> distinct (xss ! i)"
    and "\<And>i j. i < length xss \<Longrightarrow> j < length xss \<Longrightarrow> i \<noteq> j \<Longrightarrow> set (xss ! i) \<inter> set (xss ! j) = {}"
  shows "distinct (concat xss)"
  using assms
proof (induction xss)
  case (Cons ys xss)
  have "distinct (xss ! i)" if "i < length xss" for i
    using Cons.prems(1) [of "Suc i"] that by simp
  moreover have "set (xss ! i) \<inter> set (xss ! j) = {}" if "i < length xss" "j < length xss" "i \<noteq> j" for i j
    using Cons.prems(2) [of "Suc i" "Suc j"] that by simp
  ultimately have "distinct (concat xss)" by (rule Cons.IH)
  moreover have "set ys \<inter> set (xss ! i) = {}" if "i < length xss" for i
    using Cons.prems(2) [of 0 "Suc i"] that by simp
  then have "set ys \<inter> set (concat xss) = {}" by (blast elim: set_concat_nth)
  moreover have "distinct ys" using Cons.prems(1) [of 0] by simp
  ultimately show ?case by simp
qed simp

lemma distinct_entries:
  assumes "table_ok hash bs" shows "distinct (map ekey (all_entries bs))"
proof -
  have "distinct (concat (map (map ekey) (map items bs)))"
  proof (rule distinct_concat_nth)
    fix i assume "i < length (map (map ekey) (map items bs))"
    then show "distinct (map (map ekey) (map items bs) ! i)"
      using assms by (simp add: table_ok_def bucket_fits_def)
  next
    fix i j assume ij: "i < length (map (map ekey) (map items bs))" "j < length (map (map ekey) (map items bs))" "i \<noteq> j"
    show "set (map (map ekey) (map items bs) ! i) \<inter> set (map (map ekey) (map items bs) ! j) = {}"
      using bucket_index [OF assms, of i] bucket_index [OF assms, of j] ij by fastforce
  qed
  then show ?thesis using assms by (simp add: all_entries_concat [OF assms] map_concat)
qed

subsection \<open>Changing one bucket\<close>

lemma map_of_value_set:
  assumes "i < length es" "ekey (es ! i) = k" "\<And>j. j < i \<Longrightarrow> ekey (es ! j) \<noteq> k"
  shows "map_of (pairs (es[i := (es ! i)\<lparr>evalue := v\<rparr>])) = (map_of (pairs es))(k \<mapsto> v)"
  using assms
proof (induction es arbitrary: i)
  case (Cons e es)
  show ?case
  proof (cases i)
    case 0 then show ?thesis using Cons.prems by (simp add: fun_eq_iff)
  next
    case (Suc m)
    have "ekey (es ! j) \<noteq> k" if "j < m" for j using Cons.prems(3) [of "Suc j"] Suc that by simp
    then have "map_of (pairs (es[m := (es ! m)\<lparr>evalue := v\<rparr>])) = (map_of (pairs es))(k \<mapsto> v)"
      using Cons.prems Suc by (intro Cons.IH) auto
    moreover have "ekey e \<noteq> k" using Cons.prems(3) [of 0] Suc by simp
    ultimately show ?thesis using Suc by (simp add: fun_eq_iff)
  qed
qed simp

lemma map_of_first:
  assumes "i < length es" "ekey (es ! i) = k" "\<And>j. j < i \<Longrightarrow> ekey (es ! j) \<noteq> k"
  shows "map_of (pairs es) k = Some (evalue (es ! i))"
  using assms
proof (induction es arbitrary: i)
  case (Cons e es)
  then show ?case
  proof (cases i)
    case (Suc m)
    have "ekey (es ! j) \<noteq> k" if "j < m" for j using Cons.prems(3) [of "Suc j"] Suc that by simp
    then show ?thesis using Cons Suc by force
  qed simp
qed simp

lemma distinct_take_drop: "distinct (map f xs) \<Longrightarrow> distinct (map f (take i xs @ drop (i + 1) xs))"
proof (cases "i < length xs")
  case True
  assume "distinct (map f xs)"
  then have "distinct (map f (take i xs @ xs ! i # drop (Suc i) xs))" using id_take_nth_drop [OF True] by metis
  then show ?thesis by (simp add: Int_Un_distrib)
qed simp

lemma map_of_entry_removed:
  assumes "distinct (map ekey es)" "i < length es"
  shows "map_of (pairs (take i es @ drop (i + 1) es)) = (map_of (pairs es))(ekey (es ! i) := None)"
  using assms
proof (induction es arbitrary: i)
  case (Cons e es)
  show ?case
  proof (cases i)
    case 0
    then show ?thesis using Cons.prems by (auto simp: map_of_pairs_None image_iff fun_eq_iff)
  next
    case (Suc m)
    then have "map_of (pairs (take m es @ drop (m + 1) es)) = (map_of (pairs es))(ekey (es ! m) := None)"
      using Cons.prems by (intro Cons.IH) auto
    moreover have "ekey e \<noteq> ekey (es ! m)" using Cons.prems Suc by auto
    ultimately show ?thesis using Suc by (auto simp: fun_eq_iff map_add_def)
  qed
qed simp

lemma map_of_entry_added:
  "ekey e \<notin> ekey ` set es \<Longrightarrow> map_of (pairs (es @ [e])) = (map_of (pairs es))(ekey e \<mapsto> evalue e)"
  by (induction es) (auto simp: fun_eq_iff)

lemma table_ok_bucket:
  assumes "table_ok hash bs" "i < length bs" "bucket_fits hash (length bs) i b"
  shows "table_ok hash (bs[i := b])"
  using assms by (auto simp: table_ok_def nth_list_update)

lemma table_map_bucket:
  assumes "table_ok hash bs" "i < length bs" "bucket_fits hash (length bs) i b"
    and "map_of (pairs (items b)) = (map_of (pairs (items (bs ! i))))(k := w)" "unat (hash k) mod length bs = i"
  shows "table_map (bs[i := b]) = (table_map bs)(k := w)"
proof
  fix x
  show "table_map (bs[i := b]) x = ((table_map bs)(k := w)) x"
    using table_lookup [OF table_ok_bucket [OF assms(1-3)], of x] table_lookup [OF assms(1), of x] assms(2,4,5)
    by (auto simp: nth_list_update)
qed

lemma entries_bucket:
  assumes "table_ok hash bs" "i < length bs" "bucket_fits hash (length bs) i b"
  shows "length (all_entries (bs[i := b])) + length (items (bs ! i)) = length (all_entries bs) + length (items b)"
proof -
  have "length (concat (map items (bs[i := b]))) + length (items (bs ! i)) = length (concat (map items bs)) + length (items b)"
    using assms(2) by (induction bs arbitrary: i) (auto split: nat.splits simp: nth_Cons)
  then show ?thesis
    using table_ok_bucket [OF assms] assms(1) by (simp add: all_entries_concat)
qed

subsection \<open>A new entry\<close>

lemma insert_entry_cases:
  assumes "hash_map_insert_entry i e bs a = (r, bs', a')"
  obtains b where "bs' = bs[i := b]" "items b = items (bs ! i)" "r = RCUTILS_RET_BAD_ALLOC" "al_impl b = 0 \<longrightarrow> al_impl (bs ! i) = 0"
  | b where "bs' = bs[i := b]" "items b = (if al_impl (bs ! i) = 0 then [] else items (bs ! i)) @ [e]" "r = RCUTILS_RET_OK" "al_impl b \<noteq> 0"
  using assms
  by (auto simp: hash_map_insert_entry_def rcutils_array_list_init_def rcutils_array_list_add_def
      rcutils_array_list_increase_capacity_def BUCKET_INITIAL_CAP_def rcutils_rets Let_def simp del: list_update_id split: if_splits prod.splits)

lemma insert_entry_table:
  assumes "hash_map_insert_entry (unat (hash (ekey e)) mod length bs) e bs a = (r, bs', a')" "table_ok hash bs"
    and "hashed_key e = hash (ekey e)" "table_map bs (ekey e) = None"
  obtains "r = RCUTILS_RET_BAD_ALLOC" "table_ok hash bs'" "length bs' = length bs" "table_map bs' = table_map bs"
      "length (all_entries bs') = length (all_entries bs)"
  | "r = RCUTILS_RET_OK" "table_ok hash bs'" "length bs' = length bs" "table_map bs' = (table_map bs)(ekey e \<mapsto> evalue e)"
      "length (all_entries bs') = length (all_entries bs) + 1"
proof -
  define i where "i = unat (hash (ekey e)) mod length bs"
  have i: "i < length bs" using assms(2) by (simp add: table_ok_def i_def)
  have b: "bucket_fits hash (length bs) i (bs ! i)" using bucket_fits_nth [OF assms(2) i] .
  have new: "ekey e \<notin> ekey ` set (items (bs ! i))"
    using assms(4) table_lookup [OF assms(2), of "ekey e", folded i_def] by (simp add: map_of_pairs_None)
  from assms(1) [folded i_def] show thesis
  proof (cases rule: insert_entry_cases)
    case (1 b)
    have f: "bucket_fits hash (length bs) i b" using b 1(4) unfolding bucket_fits_def 1(2) by metis
    have "table_map (bs[i := b]) = (table_map bs)(ekey e := table_map bs (ekey e))"
      by (rule table_map_bucket [OF assms(2) i f]) (simp_all add: 1(2) i_def [symmetric] table_lookup [OF assms(2), of "ekey e", folded i_def])
    then show thesis
      using that(1) 1(1,3) table_ok_bucket [OF assms(2) i f] entries_bucket [OF assms(2) i f, unfolded 1(2)] by simp
  next
    case (2 b)
    have it: "items b = items (bs ! i) @ [e]" using 2(2) b by (simp add: bucket_fits_def split: if_splits)
    have f: "bucket_fits hash (length bs) i b"
      using b 2(4) new assms(3) by (simp add: bucket_fits_def it ball_Un i_def [symmetric])
    have "table_map bs' = (table_map bs)(ekey e := Some (evalue e))"
      unfolding 2(1) by (rule table_map_bucket [OF assms(2) i f]) (simp only: it map_of_entry_added [OF new], simp add: i_def)
    then show thesis
      using that(2) 2(1,3) table_ok_bucket [OF assms(2) i f] entries_bucket [OF assms(2) i f, unfolded it] by simp
  qed
qed

subsection \<open>Growing\<close>

lemma rehash_table:
  assumes "rehash (length bs) es bs a = (r, bs', a')" "table_ok hash bs"
    and "\<forall>e\<in>set es. hashed_key e = hash (ekey e)" "distinct (map ekey es)" "dom (table_map bs) \<inter> ekey ` set es = {}"
    and "r = RCUTILS_RET_OK"
  shows "table_ok hash bs' \<and> length bs' = length bs \<and> table_map bs' = table_map bs ++ map_of (pairs es) \<and>
    length (all_entries bs') = length (all_entries bs) + length es"
  using assms
proof (induction es arbitrary: bs a)
  case (Cons e es)
  obtain r1 bs1 a1 where ins: "hash_map_insert_entry (unat (hashed_key e) mod length bs) e bs a = (r1, bs1, a1)"
    by (metis prod_cases3)
  then have ins': "hash_map_insert_entry (unat (hash (ekey e)) mod length bs) e bs a = (r1, bs1, a1)"
    using Cons.prems(3) by simp
  have new: "table_map bs (ekey e) = None" using Cons.prems(5) by auto
  from ins' Cons.prems(2) _ new show ?case
  proof (rule insert_entry_table)
    show "hashed_key e = hash (ekey e)" using Cons.prems(3) by simp
  next
    assume "r1 = RCUTILS_RET_BAD_ALLOC"
    then show ?thesis using Cons.prems(1,6) ins by (simp add: rcutils_rets)
  next
    assume 2: "r1 = RCUTILS_RET_OK" "table_ok hash bs1" "length bs1 = length bs"
      "table_map bs1 = (table_map bs)(ekey e \<mapsto> evalue e)" "length (all_entries bs1) = length (all_entries bs) + 1"
    have dis: "dom (table_map bs1) \<inter> ekey ` set es = {}"
    proof -
      have "dom (table_map bs1) = insert (ekey e) (dom (table_map bs))" by (simp add: 2(4))
      then show ?thesis using Cons.prems(4,5) by simp
    qed
    have "table_ok hash bs' \<and> length bs' = length bs1 \<and> table_map bs' = table_map bs1 ++ map_of (pairs es) \<and>
        length (all_entries bs') = length (all_entries bs1) + length es"
    proof (rule Cons.IH [of bs1 a1, OF _ 2(2) _ _ dis Cons.prems(6)])
      show "rehash (length bs1) es bs1 a1 = (r, bs', a')" using Cons.prems(1) ins 2(1,3) by simp
    qed (use Cons.prems(3,4) in simp_all)
    moreover have "(table_map bs)(ekey e \<mapsto> evalue e) ++ map_of (pairs es) = table_map bs ++ map_of (pairs (e # es))"
    proof -
      have "map_of (pairs es) (ekey e) = None" using Cons.prems(4) by (simp only: map_of_pairs_None) simp
      then show ?thesis by (simp add: map_add_upd_left domIff)
    qed
    ultimately show ?thesis by (simp add: 2(3,4,5) del: map_of.simps pairs_simps)
  qed
qed simp

lemma fresh_table:
  "0 < n \<Longrightarrow> table_ok hash (replicate n rcutils_get_zero_initialized_array_list)"
  "all_entries (replicate n rcutils_get_zero_initialized_array_list) = []"
  "table_map (replicate n rcutils_get_zero_initialized_array_list) = Map.empty"
  by (simp_all add: table_ok_def bucket_fits_def rcutils_get_zero_initialized_array_list_def all_entries_def table_map_def)

lemma deallocate_buckets_ok: "fst (deallocate_buckets d bs a) = RCUTILS_RET_OK"
  by (induction d bs a rule: deallocate_buckets.induct) (auto simp: rcutils_array_list_fini_def split: prod.splits)

lemma entry_hashed:
  assumes "table_ok hash bs" "e \<in> set (all_entries bs)" shows "hashed_key e = hash (ekey e)"
proof -
  obtain i where "i < length bs" "e \<in> set (items (bs ! i))"
    using assms(2) unfolding all_entries_concat [OF assms(1)] by (auto simp: in_set_conv_nth [of _ bs])
  then show ?thesis using assms(1) by (simp add: table_ok_def bucket_fits_def)
qed

lemma grow_ok:
  fixes h :: "('k, 'v) hash_map"
  assumes "hash_map_check_and_grow_map h a = (r, h', a')" "hm_ok hash h"
  shows "hm_ok hash h' \<and> hm_map h' = hm_map h"
proof (cases "hsize h \<ge> 3 * hcapacity h div 4")
  case False
  then show ?thesis using assms by (simp add: hash_map_check_and_grow_map_def)
next
  case True
  let ?n = "2 * hcapacity h"
  let ?z = "replicate ?n rcutils_get_zero_initialized_array_list :: ('k, 'v) bucket list"
  have t: "table_ok hash (buckets h)" "0 < ?n" using assms(2) by (auto simp: hm_ok_def table_ok_def)
  obtain p a1 where al: "allocate a = (p, a1)" by (cases "allocate a")
  show ?thesis
  proof (cases "p = 0")
    case True2: True
    then show ?thesis using assms True al
      by (auto simp: hash_map_check_and_grow_map_def hash_map_allocate_new_map_def rcutils_rets Let_def)
  next
    case p: False
    obtain r2 bs2 a2 where re: "rehash ?n (all_entries (buckets h)) ?z a1 = (r2, bs2, a2)" by (metis prod_cases3)
    show ?thesis
    proof (cases "r2 = RCUTILS_RET_OK")
      case False
      then show ?thesis using assms True al p re
        by (auto simp: hash_map_check_and_grow_map_def hash_map_allocate_new_map_def Let_def)
    next
      case ok: True
      have "table_ok hash bs2 \<and> length bs2 = length ?z \<and>
          table_map bs2 = table_map ?z ++ map_of (pairs (all_entries (buckets h))) \<and>
          length (all_entries bs2) = length (all_entries ?z) + length (all_entries (buckets h))"
      by (rule rehash_table [where bs = ?z and a = a1, OF _ _ _ _ _ ok])
        (use re t in \<open>simp_all add: fresh_table distinct_entries entry_hashed\<close>)
      moreover obtain r3 a3 where "hash_map_deallocate_map (map_block h) (buckets h) False a2 = (r3, a3)" by fastforce
      ultimately show ?thesis using assms True al p re ok
        by (auto simp: hash_map_check_and_grow_map_def hash_map_allocate_new_map_def Let_def hm_ok_def hm_map_def
            fresh_table table_map_def [of "buckets h"])
    qed
  qed
qed

subsection \<open>The search for the next entry\<close>

definition first_of :: "('k, 'v) hm_entry list \<Rightarrow> int \<times> ('k \<times> 'v) option" where
  "first_of es = (case es of [] \<Rightarrow> (RCUTILS_RET_HASH_MAP_NO_MORE_ENTRIES, None) | e # _ \<Rightarrow> (RCUTILS_RET_OK, Some (ekey e, evalue e)))"

lemma next_entry_first:
  "\<forall>b\<in>set bs. al_impl b = 0 \<longrightarrow> items b = [] \<Longrightarrow> next_entry bs j = first_of (case bs of [] \<Rightarrow> [] | b # bs \<Rightarrow> drop j (items b) @ concat (map items bs))"
proof (induction bs j rule: next_entry.induct)
  case (2 b bs j)
  show ?case
  proof (cases "al_impl b \<noteq> 0 \<and> j < length (items b)")
    case True
    then have "drop j (items b) = items b ! j # drop (Suc j) (items b)" by (simp add: Cons_nth_drop_Suc)
    then show ?thesis using True by (simp add: first_of_def)
  next
    case False
    then have "drop j (items b) = []" using 2(2) by auto
    then show ?thesis using 2 False by (auto split: list.splits)
  qed
qed (simp add: first_of_def)

lemma first_of_drop:
  "first_of (drop n es) = (if n < length es then (RCUTILS_RET_OK, Some (ekey (es ! n), evalue (es ! n)))
     else (RCUTILS_RET_HASH_MAP_NO_MORE_ENTRIES, None))"
  by (simp add: first_of_def Cons_nth_drop_Suc [symmetric])

lemma table_idle: "table_ok hash bs \<Longrightarrow> b \<in> set bs \<Longrightarrow> al_impl b = 0 \<longrightarrow> items b = []"
  by (auto simp: table_ok_def bucket_fits_def in_set_conv_nth)

subsection \<open>The operations\<close>

locale key_ops =
  fixes hash :: "'k \<Rightarrow> u32" and equal :: "'k \<Rightarrow> 'k \<Rightarrow> bool"
  assumes equal_iff: "equal x y \<longleftrightarrow> x = y"
begin

lemma find_cases:
  assumes "hm_ok hash h"
  obtains "hash_map_find hash equal h key = (hash key, unat (hash key) mod hcapacity h, None)" "hm_map h key = None"
  | i where "hash_map_find hash equal h key = (hash key, unat (hash key) mod hcapacity h, Some i)"
      "i < length (items (buckets h ! (unat (hash key) mod hcapacity h)))"
      "ekey (items (buckets h ! (unat (hash key) mod hcapacity h)) ! i) = key"
      "\<And>j. j < i \<Longrightarrow> ekey (items (buckets h ! (unat (hash key) mod hcapacity h)) ! j) \<noteq> key"
      "al_impl (buckets h ! (unat (hash key) mod hcapacity h)) \<noteq> 0"
proof -
  define m where "m = unat (hash key) mod hcapacity h"
  define es where "es = items (buckets h ! m)"
  have t: "table_ok hash (buckets h)" "m < length (buckets h)" using assms by (auto simp: hm_ok_def m_def table_ok_def)
  have b: "bucket_fits hash (length (buckets h)) m (buckets h ! m)" using bucket_fits_nth [OF t] .
  have look: "hm_map h key = map_of (pairs es) key"
    using table_lookup [OF t(1), of key] assms by (simp add: hm_map_def es_def m_def hm_ok_def)
  have hit: "hashed_key (es ! i) = hash key \<and> equal (ekey (es ! i)) key \<longleftrightarrow> ekey (es ! i) = key" if "i < length es" for i
    using b that by (auto simp: bucket_fits_def es_def equal_iff)
  have found: "hash_map_find hash equal h key = (hash key, m, if al_impl (buckets h ! m) = 0 then None
      else List.find (\<lambda>i. hashed_key (es ! i) = hash key \<and> equal (ekey (es ! i)) key) [0..<length es])"
    by (simp add: hash_map_find_def Let_def m_def es_def)
  show thesis
  proof (cases "List.find (\<lambda>i. hashed_key (es ! i) = hash key \<and> equal (ekey (es ! i)) key) [0..<length es]")
    case None
    have "ekey (es ! i) \<noteq> key" if "i < length es" for i
      using None hit [OF that] that by (auto simp: find_None_iff)
    then have "key \<notin> ekey ` set es" by (metis imageE in_set_conv_nth)
    then have "hm_map h key = None" using look by (simp add: map_of_pairs_None)
    then show thesis using that(1) None found by (simp add: m_def)
  next
    case (Some i)
    then have i: "i < length es" "ekey (es ! i) = key" "\<And>j. j < i \<Longrightarrow> ekey (es ! j) \<noteq> key"
    proof -
      have f: "i < length es" "hashed_key (es ! i) = hash key" "equal (ekey (es ! i)) key"
        "\<And>j. j < i \<Longrightarrow> \<not> (hashed_key (es ! j) = hash key \<and> equal (ekey (es ! j)) key)"
        using Some by (auto simp: find_Some_iff)
      show "i < length es" "ekey (es ! i) = key" using f hit [of i] by simp_all
      show "ekey (es ! j) \<noteq> key" if "j < i" for j using f(1) f(4) [OF that] hit [of j] that by simp
    qed
    then have a: "al_impl (buckets h ! m) \<noteq> 0" using b by (auto simp: bucket_fits_def es_def)
    show thesis using that(2) [of i, folded m_def, folded es_def] i a found Some by simp
  qed
qed

lemma get_map:
  assumes "hm_ok hash h"
  shows "rcutils_hash_map_get hash equal key h =
      (case hm_map h key of None \<Rightarrow> (RCUTILS_RET_NOT_FOUND, None) | Some v \<Rightarrow> (RCUTILS_RET_OK, Some v))"
    and "rcutils_hash_map_key_exists hash equal key h \<longleftrightarrow> key \<in> dom (hm_map h)"
proof -
  have impl: "hm_impl h \<noteq> 0" and t: "table_ok hash (buckets h)" "hcapacity h = length (buckets h)"
    using assms by (simp_all add: hm_ok_def)
  show "rcutils_hash_map_get hash equal key h =
      (case hm_map h key of None \<Rightarrow> (RCUTILS_RET_NOT_FOUND, None) | Some v \<Rightarrow> (RCUTILS_RET_OK, Some v))"
    using assms
  proof (cases rule: find_cases [of h key])
    case 1 then show ?thesis using impl by (simp add: rcutils_hash_map_get_def)
  next
    case (2 i)
    then have "hm_map h key = Some (evalue (items (buckets h ! (unat (hash key) mod hcapacity h)) ! i))"
      using table_lookup [OF t(1), of key] t(2) by (simp add: hm_map_def map_of_first)
    then show ?thesis using 2(1) impl by (simp add: rcutils_hash_map_get_def)
  qed
  show "rcutils_hash_map_key_exists hash equal key h \<longleftrightarrow> key \<in> dom (hm_map h)"
    using assms
  proof (cases rule: find_cases [of h key])
    case 1 then show ?thesis using impl by (simp add: rcutils_hash_map_key_exists_def domIff)
  next
    case (2 i)
    then have "hm_map h key = Some (evalue (items (buckets h ! (unat (hash key) mod hcapacity h)) ! i))"
      using table_lookup [OF t(1), of key] t(2) by (simp add: hm_map_def map_of_first)
    then show ?thesis using 2(1) impl by (simp add: rcutils_hash_map_key_exists_def domIff)
  qed
qed

lemma unset_map:
  assumes "hm_ok hash h" "rcutils_hash_map_unset hash equal key h a = (r, h', a')"
  shows "r = RCUTILS_RET_OK \<and> hm_ok hash h' \<and> hm_map h' = (hm_map h)(key := None)"
proof -
  define m where "m = unat (hash key) mod hcapacity h"
  have impl: "hm_impl h \<noteq> 0" and t: "table_ok hash (buckets h)" "hcapacity h = length (buckets h)"
    and s: "hsize h = length (all_entries (buckets h))" using assms by (simp_all add: hm_ok_def)
  have m: "m < length (buckets h)" using t by (simp add: m_def table_ok_def)
  have b: "bucket_fits hash (length (buckets h)) m (buckets h ! m)" using bucket_fits_nth [OF t(1) m] .
  show ?thesis using assms(1)
  proof (cases rule: find_cases [of h key])
    case 1
    then have "(hm_map h)(key := None) = hm_map h" by (simp add: fun_eq_iff)
    then show ?thesis using assms 1 impl by (auto simp: rcutils_hash_map_unset_def)
  next
    case (2 i)
    note f = 2 [folded m_def]
    define b' where "b' = (buckets h ! m)\<lparr>items := take i (items (buckets h ! m)) @ drop (i + 1) (items (buckets h ! m))\<rparr>"
    have h': "r = RCUTILS_RET_OK" "h' = h\<lparr>buckets := (buckets h)[m := b'], hsize := hsize h - 1\<rparr>"
      using assms(2) f impl by (auto simp: rcutils_hash_map_unset_def rcutils_array_list_remove_def Let_def b'_def split: if_splits prod.splits)
    have "set (items b') \<subseteq> set (items (buckets h ! m))"
      by (auto simp: b'_def dest: in_set_takeD in_set_dropD)
    moreover have "distinct (map ekey (items b'))"
      using distinct_take_drop [of ekey "items (buckets h ! m)" i] b by (simp only: b'_def bucket_fits_def) simp
    ultimately have fit: "bucket_fits hash (length (buckets h)) m b'"
      using b f(5) by (auto simp: bucket_fits_def b'_def)
    have "map_of (pairs (items b')) = (map_of (pairs (items (buckets h ! m))))(key := None)"
      using map_of_entry_removed [of "items (buckets h ! m)" i] b f(2,3) by (simp add: b'_def bucket_fits_def)
    then have "table_map ((buckets h)[m := b']) = (table_map (buckets h))(key := None)"
      using table_map_bucket [OF t(1) m fit] by (simp add: m_def t(2))
    moreover have "length (items b') + 1 = length (items (buckets h ! m))" using f(2) by (simp add: b'_def)
    ultimately show ?thesis
      using h' impl t s table_ok_bucket [OF t(1) m fit] entries_bucket [OF t(1) m fit] by (simp add: hm_ok_def hm_map_def)
  qed
qed

text \<open>Setting a key that is there, setting one that is not, and then the check of the load factor.\<close>

lemma set_existing:
  assumes "hm_ok hash h" "m < length (buckets h)" "i < length (items (buckets h ! m))" "ekey (items (buckets h ! m) ! i) = key"
    and "\<And>j. j < i \<Longrightarrow> ekey (items (buckets h ! m) ! j) \<noteq> key" "al_impl (buckets h ! m) \<noteq> 0"
    and "h' = h\<lparr>buckets := (buckets h)[m := (buckets h ! m)
      \<lparr>items := (items (buckets h ! m))[i := (items (buckets h ! m) ! i)\<lparr>evalue := v\<rparr>]\<rparr>]\<rparr>"
  shows "hm_ok hash h' \<and> hm_map h' = (hm_map h)(key \<mapsto> v)"
proof -
  have t: "table_ok hash (buckets h)" "hcapacity h = length (buckets h)" "hm_impl h \<noteq> 0" "hsize h = length (all_entries (buckets h))"
    using assms(1) by (simp_all add: hm_ok_def)
  define es where "es = items (buckets h ! m)"
  define b' where "b' = (buckets h ! m)\<lparr>items := es[i := (es ! i)\<lparr>evalue := v\<rparr>]\<rparr>"
  have b: "bucket_fits hash (length (buckets h)) m (buckets h ! m)" using bucket_fits_nth [OF t(1) assms(2)] .
  have i: "i < length es" "ekey (es ! i) = key" using assms(3,4) by (simp_all add: es_def)
  have ks: "map ekey (items b') = map ekey es" using i by (simp add: b'_def map_update list_update_same_conv)
  have "\<forall>e\<in>set es. hashed_key e = hash (ekey e) \<and> unat (hash (ekey e)) mod length (buckets h) = m"
    using b by (simp add: bucket_fits_def es_def)
  then have "\<forall>e\<in>set (items b'). hashed_key e = hash (ekey e) \<and> unat (hash (ekey e)) mod length (buckets h) = m"
    using i set_update_subset_insert [of es i "(es ! i)\<lparr>evalue := v\<rparr>"] by (auto simp: b'_def dest!: set_mp)
  then have fit: "bucket_fits hash (length (buckets h)) m b'"
    using b ks assms(6) by (simp add: bucket_fits_def es_def) (simp add: b'_def)
  have "map_of (pairs (items b')) = (map_of (pairs (items (buckets h ! m))))(key \<mapsto> v)"
    using map_of_value_set [of i es key v] assms(5) i by (simp add: b'_def es_def)
  moreover have "unat (hash key) mod length (buckets h) = m"
    using b i nth_mem [OF i(1)] by (auto simp: bucket_fits_def es_def)
  ultimately have "table_map ((buckets h)[m := b']) = (table_map (buckets h))(key \<mapsto> v)"
    by (rule table_map_bucket [OF t(1) assms(2) fit])
  moreover have "length (items b') = length (items (buckets h ! m))" by (simp add: b'_def es_def)
  moreover have "h' = h\<lparr>buckets := (buckets h)[m := b']\<rparr>" using assms(7) by (simp add: b'_def es_def)
  ultimately show ?thesis
    using t table_ok_bucket [OF t(1) assms(2) fit] entries_bucket [OF t(1) assms(2) fit] by (simp add: hm_ok_def hm_map_def)
qed

lemma set_map:
  assumes "hm_ok hash h" "rcutils_hash_map_set hash equal key v h a = (r, h', a')"
  shows "hm_ok hash h' \<and> (r = RCUTILS_RET_OK \<and> hm_map h' = (hm_map h)(key \<mapsto> v) \<or>
      r = RCUTILS_RET_BAD_ALLOC \<and> hm_map h' = hm_map h \<and> key \<notin> dom (hm_map h))"
proof -
  have t: "table_ok hash (buckets h)" "hcapacity h = length (buckets h)" "hm_impl h \<noteq> 0" "hsize h = length (all_entries (buckets h))"
    using assms(1) by (simp_all add: hm_ok_def)
  have m: "unat (hash key) mod hcapacity h < length (buckets h)" using t by (simp add: table_ok_def)
  have grown: "hm_ok hash h' \<and> hm_map h' = (hm_map h)(key \<mapsto> v)"
    if "hash_map_check_and_grow_map h1 a1 = (r1, h', a')" "hm_ok hash h1 \<and> hm_map h1 = (hm_map h)(key \<mapsto> v)" for h1 a1 r1
    using grow_ok [OF that(1)] that(2) by auto
  show ?thesis using assms(1)
  proof (cases rule: find_cases [of h key])
    case (2 i)
    show ?thesis
      using assms(2) t(3) 2(1) grown [OF _ set_existing [OF assms(1) m 2(2,3,4,5) refl]]
      by (auto simp: rcutils_hash_map_set_def split: prod.splits)
  next
    case 1
    obtain eb a1 where e: "allocate a = (eb, a1)" by (cases "allocate a")
    obtain kb a2 where k: "allocate a1 = (kb, a2)" by (cases "allocate a1")
    obtain vb a3 where v: "allocate a2 = (vb, a3)" by (cases "allocate a2")
    define en where "en = \<lparr>hashed_key = hash key, ekey = key, evalue = v, entry_block = eb, key_block = kb, value_block = vb\<rparr>"
    obtain r1 bs1 a4 where ins: "hash_map_insert_entry (unat (hash key) mod length (buckets h)) en (buckets h) a3 = (r1, bs1, a4)"
      by (metis prod_cases3)
    show ?thesis
    proof (cases "eb = 0 \<or> kb = 0 \<or> vb = 0")
      case True
      then show ?thesis using assms 1 t e k v
        by (auto simp: rcutils_hash_map_set_def rcutils_rets Let_def domIff split: if_splits)
    next
      case False
      have "hash_map_insert_entry (unat (hash (ekey en)) mod length (buckets h)) en (buckets h) a3 = (r1, bs1, a4)"
        using ins by (simp add: en_def)
      moreover have "hashed_key en = hash (ekey en)" "table_map (buckets h) (ekey en) = None"
        using 1(2) by (simp_all add: en_def hm_map_def)
      ultimately show ?thesis using t(1)
      proof (elim insert_entry_table)
        assume f: "r1 = RCUTILS_RET_BAD_ALLOC" "table_ok hash bs1" "length bs1 = length (buckets h)"
          "table_map bs1 = table_map (buckets h)" "length (all_entries bs1) = length (all_entries (buckets h))"
        have "r = RCUTILS_RET_BAD_ALLOC" "h' = h\<lparr>buckets := bs1\<rparr>"
          using assms(2) 1(1) t(2,3) e k v ins False f(1)
          by (simp_all add: rcutils_hash_map_set_def rcutils_rets Let_def en_def [symmetric])
        then show ?thesis using f t 1(2) by (simp add: hm_ok_def hm_map_def domIff)
      next
        assume f: "r1 = RCUTILS_RET_OK" "table_ok hash bs1" "length bs1 = length (buckets h)"
          "table_map bs1 = (table_map (buckets h))(ekey en \<mapsto> evalue en)" "length (all_entries bs1) = length (all_entries (buckets h)) + 1"
        define h1 where "h1 = h\<lparr>buckets := bs1, hsize := hsize h + 1\<rparr>"
        obtain r2 h2 a5 where g: "hash_map_check_and_grow_map h1 a4 = (r2, h2, a5)" by (metis prod_cases3)
        have "r = RCUTILS_RET_OK" "h' = h2" "a' = a5"
          using assms(2) 1(1) t(2,3) e k v ins False f(1) g
          by (simp_all add: rcutils_hash_map_set_def Let_def en_def [symmetric] h1_def)
        moreover have "hm_ok hash h1 \<and> hm_map h1 = (hm_map h)(key \<mapsto> v)"
          using f t by (simp add: h1_def hm_ok_def hm_map_def en_def)
        ultimately show ?thesis using grown [of h1 a4 r2] g by simp
      qed
    qed
  qed
qed

lemma next_map:
  assumes "hm_ok hash h"
  shows "rcutils_hash_map_get_next_key_and_data hash equal None key h = first_of (all_entries (buckets h))"
    and "i < length (all_entries (buckets h)) \<Longrightarrow> key = ekey (all_entries (buckets h) ! i) \<Longrightarrow>
      rcutils_hash_map_get_next_key_and_data hash equal (Some p) key h = first_of (drop (i + 1) (all_entries (buckets h)))"
proof -
  have t: "table_ok hash (buckets h)" "hcapacity h = length (buckets h)" "hm_impl h \<noteq> 0"
    using assms by (simp_all add: hm_ok_def)
  note idle = table_idle [OF t(1)]
  have "next_entry (buckets h) 0 = first_of (all_entries (buckets h))"
    using idle by (subst next_entry_first) (auto simp: all_entries_concat [OF t(1)] split: list.splits)
  then show "rcutils_hash_map_get_next_key_and_data hash equal None key h = first_of (all_entries (buckets h))"
    using t by (simp add: rcutils_hash_map_get_next_key_and_data_def)
  assume i: "i < length (all_entries (buckets h))" "key = ekey (all_entries (buckets h) ! i)"
  define m where "m = unat (hash key) mod hcapacity h"
  have m: "m < length (buckets h)" using t by (simp add: m_def table_ok_def)
  define pre where "pre = concat (map items (take m (buckets h)))"
  define es where "es = items (buckets h ! m)"
  define post where "post = concat (map items (drop (Suc m) (buckets h)))"
  have "concat (map items (take m (buckets h) @ buckets h ! m # drop (Suc m) (buckets h))) = pre @ es @ post"
    by (simp add: pre_def es_def post_def)
  then have all: "all_entries (buckets h) = pre @ es @ post"
    by (simp only: id_take_nth_drop [OF m, symmetric] all_entries_concat [OF t(1)])
  have "key \<in> ekey ` set (all_entries (buckets h))" using i by simp
  then have "hm_map h key \<noteq> None" by (simp only: hm_map_def table_map_def map_of_pairs_None not_not)
  with assms obtain j where f: "hash_map_find hash equal h key = (hash key, m, Some j)" "j < length es" "ekey (es ! j) = key"
    by (cases rule: find_cases [of h key]) (auto simp: m_def es_def)
  have "map ekey (all_entries (buckets h)) ! (length pre + j) = map ekey (all_entries (buckets h)) ! i"
    using i f(2,3) by (simp add: all nth_append)
  then have "length pre + j = i"
    using distinct_entries [OF t(1)] i(1) f(2) by (subst (asm) nth_eq_iff_index_eq) (auto simp: all)
  moreover have "next_entry (drop m (buckets h)) (j + 1) = first_of (drop (j + 1) es @ post)"
  proof -
    have d: "drop m (buckets h) = (buckets h ! m) # drop (Suc m) (buckets h)" using m by (simp add: Cons_nth_drop_Suc)
    have "\<forall>b\<in>set (drop m (buckets h)). al_impl b = 0 \<longrightarrow> items b = []" using idle by (blast dest: in_set_dropD)
    from next_entry_first [OF this] show ?thesis by (simp add: d es_def post_def)
  qed
  moreover have "drop (length pre + j + 1) (pre @ es @ post) = drop (j + 1) es @ post" using f(2) by simp
  ultimately show "rcutils_hash_map_get_next_key_and_data hash equal (Some p) key h = first_of (drop (i + 1) (all_entries (buckets h)))"
    using t(3) f(1) by (simp add: rcutils_hash_map_get_next_key_and_data_def all)
qed

end

lemma strcmp_equal_iff: "strcmp_equal s t \<longleftrightarrow> s = t"
  by (induction s t rule: strcmp_equal.induct) auto

interpretation strings: key_ops rcutils_hash_map_string_hash_func strcmp_equal
  by unfold_locales (rule strcmp_equal_iff)

lemma init_map:
  assumes "rcutils_hash_map_init n ks ds h a = (r, h', a')" "r = RCUTILS_RET_OK"
  shows "hm_ok hash h' \<and> hm_map h' = Map.empty"
  using assms
  by (auto simp: rcutils_hash_map_init_def hash_map_allocate_new_map_def rcutils_rets hm_ok_def hm_map_def fresh_table
      split: if_splits prod.splits)

lemma map_size:
  assumes "hm_ok hash h" shows "rcutils_hash_map_get_size h = (RCUTILS_RET_OK, card (dom (hm_map h)))"
proof -
  have t: "table_ok hash (buckets h)" "hm_impl h \<noteq> 0" "hsize h = length (all_entries (buckets h))"
    using assms by (simp_all add: hm_ok_def)
  have "dom (hm_map h) = set (map ekey (all_entries (buckets h)))"
    by (simp add: hm_map_def table_map_def dom_map_of_conv_image_fst)
  then have "card (dom (hm_map h)) = length (all_entries (buckets h))"
    using distinct_card [OF distinct_entries [OF t(1)]] by simp
  then show ?thesis using t by (simp add: rcutils_hash_map_get_size_def)
qed

subsection \<open>Iterating\<close>

text \<open>The caller's loop: the key it was given last is both the previous key and the buffer for the next one.\<close>

fun walk :: "nat \<Rightarrow> string option \<Rightarrow> string \<Rightarrow> (string, 'v) hash_map \<Rightarrow> (string \<times> 'v) list" where
  "walk 0 previous_key key h = []"
| "walk (Suc n) previous_key key h =
     (case rcutils_hash_map_get_next_key_and_data rcutils_hash_map_string_hash_func strcmp_equal previous_key key h of
        (ret, None) \<Rightarrow> []
      | (ret, Some (k, v)) \<Rightarrow> if ret = RCUTILS_RET_OK then (k, v) # walk n (Some k) k h else [])"

lemma walk_from:
  assumes "hm_ok rcutils_hash_map_string_hash_func h" "i < length (all_entries (buckets h))" "key = ekey (all_entries (buckets h) ! i)"
    and "length (all_entries (buckets h)) \<le> i + 1 + n"
  shows "walk n (Some p) key h = pairs (drop (i + 1) (all_entries (buckets h)))"
  using assms(2-4)
proof (induction n arbitrary: i key p)
  case (Suc n)
  show ?case
  proof (cases "i + 1 < length (all_entries (buckets h))")
    case True
    then show ?thesis
      using Suc.prems Suc.IH [of "i + 1"] strings.next_map(2) [OF assms(1) Suc.prems(1,2)] Cons_nth_drop_Suc [OF True, symmetric]
      by (simp add: first_of_drop)
  next
    case False
    then show ?thesis using strings.next_map(2) [OF assms(1) Suc.prems(1,2)] by (simp add: first_of_drop first_of_def)
  qed
qed simp

lemma walk_all:
  assumes "hm_ok rcutils_hash_map_string_hash_func h" "hsize h \<le> n"
  shows "walk n None key h = pairs (all_entries (buckets h))"
proof (cases n)
  case 0
  then show ?thesis using assms by (simp add: hm_ok_def)
next
  case (Suc m)
  have s: "hsize h = length (all_entries (buckets h))" using assms(1) by (simp add: hm_ok_def)
  show ?thesis
  proof (cases "all_entries (buckets h)")
    case Nil
    then show ?thesis using Suc strings.next_map(1) [OF assms(1)] by (simp add: first_of_def)
  next
    case (Cons e es)
    then show ?thesis
      using Suc strings.next_map(1) [OF assms(1)] walk_from [OF assms(1), of 0 "ekey e" m "ekey e"] assms(2) s by (simp add: first_of_def)
  qed
qed

subsection \<open>Properties\<close>

text \<open>C8.
  A hash map with string keys that is well formed stays so, and its operations are those of a map: a lookup gives the value
  of the key, the size is the number of keys, setting a key adds or replaces its value, also when the table grows or the
  memory for a larger table is refused, or reports \<open>BAD_ALLOC\<close> for a key that was not there and leaves the map as it was;
  unsetting removes the key.  A new hash map is empty.
\<close>

theorem hash_map_refines:
  assumes "hm_ok rcutils_hash_map_string_hash_func h"
    and "rcutils_hash_map_set rcutils_hash_map_string_hash_func strcmp_equal key v h a = (r, h1, a1)"
    and "rcutils_hash_map_unset rcutils_hash_map_string_hash_func strcmp_equal key h a = (r2, h2, a2)"
    and "rcutils_hash_map_init n ks ds junk b = (RCUTILS_RET_OK, h3, b3)"
  shows "rcutils_hash_map_get rcutils_hash_map_string_hash_func strcmp_equal key h =
        (case hm_map h key of None \<Rightarrow> (RCUTILS_RET_NOT_FOUND, None) | Some v \<Rightarrow> (RCUTILS_RET_OK, Some v)) \<and>
      (rcutils_hash_map_key_exists rcutils_hash_map_string_hash_func strcmp_equal key h = (key \<in> dom (hm_map h))) \<and>
      rcutils_hash_map_get_size h = (RCUTILS_RET_OK, card (dom (hm_map h))) \<and>
      hm_ok rcutils_hash_map_string_hash_func h1 \<and>
      (r = RCUTILS_RET_OK \<and> hm_map h1 = (hm_map h)(key \<mapsto> v) \<or>
       r = RCUTILS_RET_BAD_ALLOC \<and> hm_map h1 = hm_map h \<and> key \<notin> dom (hm_map h)) \<and>
      r2 = RCUTILS_RET_OK \<and> hm_ok rcutils_hash_map_string_hash_func h2 \<and> hm_map h2 = (hm_map h)(key := None) \<and>
      hm_ok rcutils_hash_map_string_hash_func h3 \<and> hm_map h3 = Map.empty"
  using strings.get_map [OF assms(1), of key] map_size [OF assms(1)] strings.set_map [OF assms(1,2)]
    strings.unset_map [OF assms(1,3)] init_map [OF assms(4) refl]
  by blast

text \<open>A map with one bucket, so that the second key makes the table grow.\<close>

definition one_bucket :: "(string, nat) hash_map" where
  "one_bucket = \<lparr>hm_impl = 1, map_block = 2, buckets = [rcutils_get_zero_initialized_array_list], hcapacity = 1, hsize = 0\<rparr>"

lemma one_bucket_ok: "hm_ok rcutils_hash_map_string_hash_func one_bucket"
  using fresh_table(1) [of 1 rcutils_hash_map_string_hash_func]
  by (simp add: hm_ok_def one_bucket_def all_entries_def rcutils_get_zero_initialized_array_list_def)

definition one_set :: "int \<times> (string, nat) hash_map \<times> arena" where
  "one_set = rcutils_hash_map_set rcutils_hash_map_string_hash_func strcmp_equal ''a'' 7 one_bucket (new_arena [])"

definition two_set :: "int \<times> (string, nat) hash_map \<times> arena" where
  "two_set = (case one_set of (r, h, a) \<Rightarrow> rcutils_hash_map_set rcutils_hash_map_string_hash_func strcmp_equal ''b'' 8 h a)"

lemmas hash_map_run = two_set_def one_set_def rcutils_hash_map_set_def hash_map_find_def rcutils_hash_map_string_hash_func_def one_bucket_def
  new_arena_def allocate_def rcutils_get_zero_initialized_array_list_def hash_map_insert_entry_def BUCKET_INITIAL_CAP_def
  rcutils_array_list_init_def rcutils_array_list_add_def rcutils_rets hash_map_check_and_grow_map_def hash_map_allocate_new_map_def
  all_entries_def hash_map_deallocate_map_def rcutils_array_list_fini_def deallocate_def

lemma two_set_run: "fst one_set = RCUTILS_RET_OK" "fst two_set = RCUTILS_RET_OK" "hcapacity (fst (snd two_set)) = 4"
proof -
  have r: "replicate 2 x = [x, x]" "replicate 4 x = [x, x, x, x]" for x :: "(string, nat) bucket" by (simp_all add: eval_nat_numeral)
  show "fst one_set = RCUTILS_RET_OK" "fst two_set = RCUTILS_RET_OK" "hcapacity (fst (snd two_set)) = 4"
    by (simp_all add: hash_map_run r Let_def)
qed

theorem hash_map_refines_witness:
  "hcapacity (fst (snd two_set)) = 4 \<and> hm_map (fst (snd two_set)) = [''a'' \<mapsto> 7, ''b'' \<mapsto> 8] \<and>
   rcutils_hash_map_get rcutils_hash_map_string_hash_func strcmp_equal ''a'' (fst (snd two_set)) = (RCUTILS_RET_OK, Some 7) \<and>
   rcutils_hash_map_get_size (fst (snd two_set)) = (RCUTILS_RET_OK, 2)"
proof -
  obtain r1 h1 a1 where 1: "one_set = (r1, h1, a1)" by (metis surj_pair)
  obtain r2 h2 a2 where 2: "rcutils_hash_map_set rcutils_hash_map_string_hash_func strcmp_equal ''b'' 8 h1 a1 = (r2, h2, a2)"
    by (metis surj_pair)
  have ts: "two_set = (r2, h2, a2)" by (simp add: two_set_def 1 2)
  have ok: "r1 = RCUTILS_RET_OK \<and> r2 = RCUTILS_RET_OK" using two_set_run(1,2) unfolding 1 ts by simp
  obtain u1 v1 w1 where un1: "rcutils_hash_map_unset rcutils_hash_map_string_hash_func strcmp_equal ''a'' one_bucket (new_arena []) = (u1, v1, w1)"
    by (metis surj_pair)
  obtain u2 v2 w2 where un2: "rcutils_hash_map_unset rcutils_hash_map_string_hash_func strcmp_equal ''b'' h1 a1 = (u2, v2, w2)"
    by (metis surj_pair)
  obtain u3 v3 w3 where un3: "rcutils_hash_map_unset rcutils_hash_map_string_hash_func strcmp_equal ''a'' h2 a2 = (u3, v3, w3)"
    by (metis surj_pair)
  obtain r4 h4 a4 where st3: "rcutils_hash_map_set rcutils_hash_map_string_hash_func strcmp_equal ''a'' 9 h2 a2 = (r4, h4, a4)"
    by (metis surj_pair)
  obtain h3 b3 where ini: "rcutils_hash_map_init 1 4 4 one_bucket (new_arena []) = (RCUTILS_RET_OK, h3, b3)"
    by (simp add: rcutils_hash_map_init_def hash_map_allocate_new_map_def allocate_def new_arena_def)
  note s1 = hash_map_refines [OF one_bucket_ok 1 [unfolded one_set_def] un1 ini]
  have one: "hm_ok rcutils_hash_map_string_hash_func h1" "hm_map h1 = (hm_map one_bucket)(''a'' \<mapsto> 7)"
    using s1 ok by (auto simp: rcutils_rets)
  note s2 = hash_map_refines [OF one(1) 2 un2 ini]
  have two: "hm_ok rcutils_hash_map_string_hash_func h2" "hm_map h2 = (hm_map h1)(''b'' \<mapsto> 8)"
    using s2 ok by (auto simp: rcutils_rets)
  have m: "hm_map h2 = [''a'' \<mapsto> 7, ''b'' \<mapsto> 8]"
    by (simp add: two(2) one(2)) (simp add: hm_map_def table_map_def all_entries_def one_bucket_def rcutils_get_zero_initialized_array_list_def)
  have "rcutils_hash_map_get rcutils_hash_map_string_hash_func strcmp_equal ''a'' h2 = (RCUTILS_RET_OK, Some 7) \<and>
      rcutils_hash_map_get_size h2 = (RCUTILS_RET_OK, 2)"
    using hash_map_refines [OF two(1) st3 un3 ini] by (simp add: m card_insert_if)
  then show ?thesis using two_set_run(3) m unfolding ts by simp
qed

text \<open>
  A caller that passes the key it was given last as both the previous key and the buffer for the next one is given every
  entry of the hash map once and then \<open>NO_MORE_ENTRIES\<close>.
\<close>

theorem hash_map_iteration:
  assumes "hm_ok rcutils_hash_map_string_hash_func h" "hsize h \<le> n"
  shows "map_of (walk n None key h) = hm_map h \<and> distinct (map fst (walk n None key h)) \<and> length (walk n None key h) = hsize h"
proof -
  have "table_ok rcutils_hash_map_string_hash_func (buckets h)" "hsize h = length (all_entries (buckets h))"
    using assms(1) by (simp_all add: hm_ok_def)
  then show ?thesis
    using distinct_entries walk_all [OF assms] by (auto simp: hm_map_def table_map_def pairs_def comp_def)
qed

lemma two_entries:
  "hm_ok rcutils_hash_map_string_hash_func (fst (snd two_set)) \<and> hsize (fst (snd two_set)) = 2 \<and> hm_map (fst (snd two_set)) ''b'' = Some 8"
proof -
  obtain r1 h1 a1 where 1: "one_set = (r1, h1, a1)" by (metis surj_pair)
  obtain r2 h2 a2 where 2: "rcutils_hash_map_set rcutils_hash_map_string_hash_func strcmp_equal ''b'' 8 h1 a1 = (r2, h2, a2)"
    by (metis surj_pair)
  have ts: "two_set = (r2, h2, a2)" by (simp add: two_set_def 1 2)
  have ok: "r1 = RCUTILS_RET_OK \<and> r2 = RCUTILS_RET_OK" using two_set_run(1,2) unfolding 1 ts by simp
  have one: "hm_ok rcutils_hash_map_string_hash_func h1" "hm_map h1 = (hm_map one_bucket)(''a'' \<mapsto> 7)"
    using strings.set_map [OF one_bucket_ok 1 [unfolded one_set_def]] ok by (auto simp: rcutils_rets)
  have two: "hm_ok rcutils_hash_map_string_hash_func h2" "hm_map h2 = (hm_map h1)(''b'' \<mapsto> 8)"
    using strings.set_map [OF one(1) 2] ok by (auto simp: rcutils_rets)
  have "hm_map h2 = [''a'' \<mapsto> 7, ''b'' \<mapsto> 8]"
    by (simp add: two(2) one(2)) (simp add: hm_map_def table_map_def all_entries_def one_bucket_def rcutils_get_zero_initialized_array_list_def)
  then show ?thesis using map_size [OF two(1)] two(1) by (simp add: ts rcutils_hash_map_get_size_def card_insert_if hm_ok_def)
qed

theorem hash_map_iteration_witness:
  "length (walk 2 None ''q'' (fst (snd two_set))) = 2 \<and> map_of (walk 2 None ''q'' (fst (snd two_set))) ''b'' = Some 8"
  using hash_map_iteration [OF conjunct1 [OF two_entries], of 2 "''q''"] two_entries by simp

end
