(* ===== verification/Spec2Isabelle.thy ===== *)
theory Spec2Isabelle
  imports Allocators Posix_Mqueue_Props Posix_Timer Chassis_Safety Bmi088_Props Ins_Props Usb_Props Delay_Us Posix_Mqueue_Links Posix_Cond
    Microros_App Rcutils_Hash_Map_Props
begin

text \<open>
  Verification of the RoboMaster controller firmware (rm-micro-controllers).

  The firmware runs on a Cortex-M4 under FreeRTOS.  Its own C code has two layers.  The lower layer is the
  memory and POSIX support that the micro-ROS client is built on: a heap (\<open>src/src/freertos/heap_4_custom.c\<close>),
  the allocator callbacks of micro-ROS (\<open>src/src/freertos/allocators.c\<close>), and time, semaphores, message queues,
  threads and timers (\<open>src/lib/FreeRTOS-Plus-POSIX/source\<close>), which allocate their objects on that heap.  The upper
  layer is the control of the robot (\<open>src/src/dji\<close>): PID controllers, the frames of the motor controllers,
  supervision of the devices, and the chassis task, which reads the devices' state, turns behaviours into wheel
  speeds, runs a controller per wheel and sends the currents.  Beside it run the inertial measurement task with its
  sensor drivers (\<open>src/src/devices\<close>), and the serial ports over USB (\<open>src/lib/CDC\<close>, \<open>src/lib/CDC-Describe\<close>) that carry
  the messages of micro-ROS.  The node of the firmware (\<open>src/src/app\<close>) runs on the client libraries of micro-ROS
  (\<open>src/lib/microROS\<close>), whose executor, wait sets, timers and containers are part of the development.

  \<^bold>\<open>Heap.\<close> \<open>Byte_Mem\<close> and \<open>Heap4\<close> model the file on byte-addressed memory and 32-bit words: block headers are bytes,
  pointers and sizes wrap, and the loops over the free list are partial functions whose termination on a
  well-formed heap is part of the theorems.  Every call runs with the scheduler suspended and is one step.
  \<open>Heap4_Inv\<close> defines when memory holds a given list of blocks; \<open>Heap4_Insert\<close>, \<open>Heap4_Free\<close> and
  \<open>Heap4_Malloc\<close> show what the operations do to that list; \<open>Heap4_Props\<close> states the results: \<open>pvPortMalloc\<close> is
  first fit with splitting, \<open>vPortFree\<close> merges with both neighbours, returned blocks are fresh and aligned,
  failures have an exact condition, and every history of calls keeps the heap well-formed.  \<open>Heap4_Realloc\<close>
  covers \<open>pvPortRealloc\<close> and \<open>pvPortCalloc\<close>, \<open>Allocators\<close> the callbacks and their counters.  \<open>Heap_Service\<close> and
  \<open>Heap_Store\<close> give the contract that the clients use as locales (allocation, release, frame of the other
  blocks, lists of blocks) and interpret them on the heap model.

  \<^bold>\<open>POSIX layer.\<close> \<open>Posix_Time\<close> (\<open>FreeRTOS_POSIX_utils.c\<close>, \<open>FreeRTOS_POSIX_clock.c\<close>) keeps \<open>long\<close> and \<open>int64_t\<close> at
  their widths and shows conversions to ticks to round up, the clock to be exact, and where products wrap.
  \<open>Posix_Sem\<close> (\<open>FreeRTOS_POSIX_semaphore.c\<close>) has the operations as functions and as interleaved atomic steps.
  \<open>Posix_Mqueue\<close> (\<open>FreeRTOS_POSIX_mqueue.c\<close>) models the list of queues, every function of the file and the blocks
  that messages occupy; \<open>Posix_Mqueue_Inv\<close> has the invariant and the laws of kernel queues with an instance,
  \<open>Posix_Mqueue_Fifo\<close> the refinement of send and receive to lists of byte strings, \<open>Posix_Mqueue_Life\<close> creation
  and deletion, \<open>Posix_Mqueue_Props\<close> the results and reachable states.  \<open>Posix_Pthread\<close> and \<open>Posix_Pthread_Props\<close>
  (\<open>FreeRTOS_POSIX_pthread.c\<close>, \<open>FreeRTOS_POSIX_sched.c\<close>, \<open>FreeRTOS_POSIX_unistd.c\<close>) split \<open>pthread_join\<close> at its
  blocking take, so that joins and exits interleave; creation leaks nothing and at most one join succeeds.
  \<open>Linked_List\<close> (\<open>iot_doubly_linked_list.h\<close>) has the list macros on a memory of links, with a locale for intrusive lists, and
  shows every documented sequence of operations to do what it does on lists; \<open>Posix_Mqueue_Links\<close> applies it to the list of
  queues.  \<open>Posix_Mutex\<close>, \<open>Posix_Barrier\<close> and \<open>Posix_Cond\<close> model the files \<open>.FreeRTOS_POSIX_pthread_mutex.c\<close>,
  \<open>.FreeRTOS_POSIX_pthread_barrier.c\<close> and \<open>.FreeRTOS_POSIX_pthread_cond.c\<close>, which the build leaves out because of the leading
  dot, as functions and as the interleaved steps of any number of threads: mutual exclusion and the recorded owner,
  rounds of a barrier and the absence of deadlock, and that no wake-up is lost, except by a timed wait whose time has
  passed.
  \<open>Posix_Timer\<close> (\<open>FreeRTOS_POSIX_timer.c\<close>) shows that deletion returns once the timer service has stopped the timer
  and that set times are read back.  The kernel's queues, semaphores, tasks and timers are not part of the
  repository: they are arguments of the definitions with laws that state their documented behaviour, and a
  concrete instance of every set of laws is used in the witnesses.

  \<^bold>\<open>Control layer.\<close> \<open>Float32\<close> is the C type \<open>float\<close>: IEEE binary32 with one rounding to nearest even per
  operation, signed zeros, infinities and NaN; contraction of expressions into fused operations is not
  modelled.  \<open>Float32_Exact\<close> shows that rounding never crosses a representable number, so that integer bounds
  below 2 to the 24 survive every operation.  \<open>Pid\<close> (\<open>pid.c\<close>) has both modes of the controller; outputs stay within
  their limits for all finite inputs, and NaN is shown to pass the limiter.  \<open>Can_Receive\<close> (\<open>CAN_receive.c\<close>) has
  the frames and their decoding.  \<open>Detect_Task\<close> (\<open>detect_task.c\<close>) has the scan and the hooks as interleaved events
  and characterises exactly which devices are reported.  \<open>Chassis\<close> (\<open>chassis_task.c\<close>, \<open>chassis_behaviour.c\<close>) composes
  them: \<open>chassis_cycle\<close> is one turn of the task's loop.  \<open>Chassis_Props\<close> has the bounds and \<open>Chassis_Safety\<close> shows, for
  every run with arbitrary inputs, that no undefined conversion is made and every frame is within the limits.

  \<^bold>\<open>Sensors.\<close> \<open>Register_Device\<close> is the common part of the drivers: programs over a device in the state monad with weakest
  preconditions, the abstract initialisation of a device with registers (identification, reset, a table of values with
  an error code each), and locales for devices whose accesses behave like registers.  \<open>Bmi088\<close> (\<open>bmi088.c\<close>,
  \<open>bmi088_middleware.c\<close>) and \<open>Ist8310\<close> (\<open>ist8310.c\<close>, \<open>ist8310_middleware.c\<close>) have every function of the drivers on an
  arbitrary bus; the initialisations refine the abstract one on every device that obeys the register contract, and
  byte-level devices show that the contract can be met.  Samples are finite and in range for all bytes.  \<open>Ins_Task\<close>
  (\<open>ins_task.c\<close>) has the flags, the bus arbitration, the interrupt handlers and a turn of the task; \<open>Ins_Props\<close> shows for
  all interleavings that one chip at most is selected, follows a sample from the interrupt to the task, shows where
  notifications and requests get lost, that the change of axes is exact and that start-up ends.  \<open>Delay_Us\<close> is the busy
  wait of \<open>override.c\<close>: it ends, but too early.

  \<^bold>\<open>USB.\<close> \<open>Usb_Desc\<close> has the descriptors as bytes, a parser for configurations and the serial number; \<open>Usb_Cdc\<close> has the
  class driver, its application side and the transport of micro-ROS, with the calls to the vendor's USB core as a trace.
  \<open>Usb_Props\<close> shows that messages in flight are not overwritten, how a message is sent and closed, that a write returns
  exactly when the port becomes free, and the defects of the second port and of long messages.

  \<^bold>\<open>Micro-ROS client.\<close> All paths are below \<open>src/lib/microROS\<close>.  An allocator is an arena (\<open>Rcl_Types\<close>): the blocks handed out and
  an arbitrary sequence of answers, so that theorems hold however allocation fails.  \<open>Rcl_Clock\<close> (\<open>rcl/time.c\<close>, \<open>rcutils/time_unix.c\<close>)
  reads the POSIX clock of \<open>Posix_Time\<close>, can override ROS time and tells callbacks of jumps; \<open>Rcl_Timer\<close> (\<open>rcl/timer.c\<close>) has the timers.
  \<open>Rcl_Timer_Props\<close> shows that a timer keeps its schedule whenever it is polled, stays in order when ROS time jumps, and that a failed
  initialisation leaves nothing behind.  \<open>Rcl_Wait\<close> (\<open>rcl/wait.c\<close>, \<open>rmw_wait.c\<close>) has wait sets with the arrays of both layers, the
  macros being functions of the kind of entity; \<open>Rcl_Wait_Props\<close> follows every block, and \<open>Rcl_Wait_Ready\<close> shows that waiting leaves
  exactly the entities that are ready and takes no longer than it may.  \<open>Rclc_Executor\<close> (\<open>rclc/executor.c\<close>, \<open>executor_handle.c\<close>) composes
  them to a turn: wait, check, trigger, take data, call back, under both semantics, with what is seen from outside as a list of events.
  \<open>Rclc_Executor_Props\<close> refines adding and removing handles to operations on a list; \<open>Rclc_Executor_Turn\<close> characterises the events of a
  turn and shows how a timer that is cancelled by a callback blocks the executor.  \<open>Microros_App\<close> (\<open>src/src/app/microros_core.c\<close>) is the node:
  its callbacks between two firings of the timer, and its initialisation of the executor.  \<open>Rcutils_Hash_Map\<close> (\<open>rcutils/array_list.c\<close>,
  \<open>rcutils/hash_map.c\<close>) has the containers; \<open>Rcutils_Hash_Map_Props\<close> shows that the hash map implements a map while it grows, and that
  its iterator gives every entry once to callers that use one buffer for both keys.

  \<^bold>\<open>Bounds and fuel.\<close> Only \<open>rclc_executor_spin\<close>, which is meant not to end, has fuel: the number of turns, each of which is total;
  the theorems are about single turns.  Other loops are structural recursion, folds over fixed index lists or
  \<open>partial_function (option)\<close>, where not returning is \<open>None\<close>; theorems about them state that they return.

  \<^bold>\<open>Not modelled.\<close> Start-up, PWM and peripheral initialisation (generated calls without logic of their own); the glue
  between the USB core and the peripheral; the tasks that only start threads; the
  rest of the micro-ROS libraries (the XRCE client is binary, messages and type support are generated, logging and the parsing
  of arguments and parameters do not run on the target) and the vendor's drivers; the C++ application code.  What the
  executor calls in those libraries, taking data, sending responses and receiving for a time, is a parameter, as are the
  callbacks, which may change timers, the middleware and the application but not the executor; the buffers of messages are taken
  to be alive.  Sensor fusion and the temperature controller are
  commented out in the source.  Concurrency is modelled where the code synchronises or races (semaphores, joins, device
  hooks, sensor interrupts); elsewhere a call is one step.
\<close>

end
